(* ===== verification/Prelude.thy ===== *)
theory Prelude
  imports Complex_Main "HOL-Library.Word"
begin

text \<open>
  The vocabulary shared by the whole development: the machine integers of the Go sources, the
  most-significant-bit-first reading of byte buffers, the two Go byte-order helpers the decoders
  use (\<^verbatim>\<open>binary.BigEndian.PutUint32\<close> and \<^verbatim>\<open>binary.BigEndian.Uint32\<close>), slice indexing with its
  run-time panic, and the specification functions that turn bit lists into numbers and back.

  Conventions of the model.
  \<^item> \<^verbatim>\<open>uint8\<close>, \<^verbatim>\<open>uint16\<close>, \<^verbatim>\<open>uint32\<close> and \<^verbatim>\<open>uint64\<close> are words of that width. A Go \<^verbatim>\<open>int\<close> is an
    \<^typ>\<open>int\<close>; where the 64-bit wrap-around of an addition matters it is written with \<open>wrap64\<close>.
  \<^item> \<^verbatim>\<open>float64\<close> is \<^typ>\<open>real\<close>: every broadcast field is an integer of at most 33 bits times a
    power of two, which a double represents exactly, and every comparison a decoder makes is on
    such a value. The remaining roundings (products with the ICD's decimal \<open>\<pi>\<close>, square roots) are
    not modelled.
  \<^item> A Go error return is \<open>Inl\<close> of a constructor of \<open>frame_error\<close>, a normal return \<open>Inr\<close>. An
    out-of-range slice index, which panics in Go, is the constructor \<open>IndexPanic\<close>.
\<close>

unbundle bit_operations_syntax

named_theorems bitlist_simps \<open>facts that compute slices and lengths of bit lists\<close>
named_theorems gate_simps \<open>facts that characterise when an integrity check accepts\<close>

section \<open>Machine integers\<close>

type_synonym u8 = "8 word"
type_synonym u16 = "16 word"
type_synonym u32 = "32 word"
type_synonym u64 = "64 word"

text \<open>The value a 64-bit signed Go addition leaves behind.\<close>

definition wrap64 :: "int \<Rightarrow> int" where
  "wrap64 i = signed_take_bit 63 i"

lemma wrap64_id: "- (2 ^ 63) \<le> i \<Longrightarrow> i < 2 ^ 63 \<Longrightarrow> wrap64 i = i"
  unfolding wrap64_def by (rule signed_take_bit_int_eq_self) auto

lemma bit_times_2 [simp]:
  "bit (w * 2 :: 'a::len word) n \<longleftrightarrow> 0 < n \<and> n < LENGTH('a) \<and> bit w (n - 1)"
proof -
  have "w * 2 = push_bit 1 w" by (simp add: push_bit_eq_mult)
  then show ?thesis by (simp only: bit_push_bit_iff) (auto simp: possible_bit_def)
qed

lemma xor_zero_iff: "x XOR y = 0 \<longleftrightarrow> x = (y :: 'a::len word)"
  by (metis xor.assoc xor.left_neutral xor_self_eq)

lemma xor_cancel: "x XOR z = y XOR z \<longleftrightarrow> x = (y :: 'a::len word)"
  "z XOR x = z XOR y \<longleftrightarrow> x = y"
  by (auto simp: bit_eq_iff bit_xor_iff)

section \<open>Errors\<close>

datatype frame_error =
    IndexPanic
  | ErrOutOfRange
  | ErrParity
  | ErrShortFrame
  | ErrIODMismatch
  | ErrWrongMsgType
  | ErrBadSubframe
  | ErrBadTLMPreamble
  | ErrBadTOWCount
  | ErrBadEpoch
  | ErrBadAlmanac
  | ErrBadPreamble
  | ErrPRNMismatch
  | ErrGalileoAlertPage
  | ErrUnusedAlmanac
  | ErrBadCRC
  | ErrBadSatType
  | ErrPairSOW
  | ErrBeiDouSOWGap
  | ErrBadFraID
  | ErrBadBCH
  | ErrGLONASSStringOrder
  | ErrBadStringNum
  | ErrGLONASSHamming
  | ErrBadTb
  | ErrBadFreqCh
  | ErrNavICDeferred

text \<open>Indexing a Go slice.\<close>

definition index :: "'a list \<Rightarrow> int \<Rightarrow> frame_error + 'a" where
  "index xs i = (if 0 \<le> i \<and> i < int (length xs) then Inr (xs ! nat i) else Inl IndexPanic)"

lemma index_in_range [simp]: "0 \<le> i \<Longrightarrow> i < int (length xs) \<Longrightarrow> index xs i = Inr (xs ! nat i)"
  by (simp add: index_def)

section \<open>Bit lists, most significant bit first\<close>

definition bits_of_byte :: "u8 \<Rightarrow> bool list" where
  "bits_of_byte b = map (\<lambda>i. bit b (7 - i)) [0..<8]"

definition bits_of :: "u8 list \<Rightarrow> bool list" where
  "bits_of bs = concat (map bits_of_byte bs)"

lemma length_bits_of_byte [simp]: "length (bits_of_byte b) = 8"
  by (simp add: bits_of_byte_def)

lemma bits_of_Nil [simp]: "bits_of [] = []"
  by (simp add: bits_of_def)

lemma bits_of_Cons: "bits_of (b # bs) = bits_of_byte b @ bits_of bs"
  by (simp add: bits_of_def)

lemma bits_of_append: "bits_of (xs @ ys) = bits_of xs @ bits_of ys"
  by (simp add: bits_of_def)

lemma length_bits_of [simp]: "length (bits_of bs) = 8 * length bs"
  by (induction bs) (simp_all add: bits_of_Cons)

lemma nth_bits_of:
  "p < 8 * length bs \<Longrightarrow> bits_of bs ! p = bit (bs ! (p div 8)) (7 - p mod 8)"
proof (induction bs arbitrary: p)
  case Nil
  then show ?case by simp
next
  case (Cons b bs)
  show ?case
  proof (cases "p < 8")
    case True
    then show ?thesis by (simp add: bits_of_Cons nth_append bits_of_byte_def)
  next
    case False
    then have p: "p div 8 = Suc ((p - 8) div 8)" "p mod 8 = (p - 8) mod 8"
      by (simp_all add: le_div_geq le_mod_geq)
    from False Cons.prems have "bits_of bs ! (p - 8) = bit (bs ! ((p - 8) div 8)) (7 - (p - 8) mod 8)"
      by (intro Cons.IH) auto
    with False p show ?thesis by (simp add: bits_of_Cons nth_append)
  qed
qed

lemma bits_of_byte_inject: "bits_of_byte a = bits_of_byte b \<Longrightarrow> a = b"
proof (rule bit_word_eqI)
  fix n assume eq: "bits_of_byte a = bits_of_byte b" and "n < LENGTH(8)"
  then have n: "7 - n < 8" "7 - (7 - n) = n" by auto
  from eq have "bits_of_byte a ! (7 - n) = bits_of_byte b ! (7 - n)" by simp
  with n show "bit a n = bit b n" by (simp add: bits_of_byte_def)
qed

lemma bits_of_inject: "length xs = length ys \<Longrightarrow> bits_of xs = bits_of ys \<Longrightarrow> xs = ys"
  by (induction xs ys rule: list_induct2) (auto simp: bits_of_Cons dest: bits_of_byte_inject)

text \<open>
  \<^verbatim>\<open>buf[p>>3] |= 1 << (7-(p&7))\<close> and \<^verbatim>\<open>buf[p>>3] &^= 1 << (7-(p&7))\<close>: setting and clearing one bit.
\<close>

definition or_bit :: "u8 list \<Rightarrow> nat \<Rightarrow> u8 list" where
  "or_bit buf p = buf[p div 8 := (buf ! (p div 8)) OR push_bit (7 - p mod 8) 1]"

definition clear_bit :: "u8 list \<Rightarrow> nat \<Rightarrow> u8 list" where
  "clear_bit buf p = buf[p div 8 := (buf ! (p div 8)) AND NOT (push_bit (7 - p mod 8) 1)]"

lemma length_or_bit [simp]: "length (or_bit buf p) = length buf"
  by (simp add: or_bit_def)

lemma length_clear_bit [simp]: "length (clear_bit buf p) = length buf"
  by (simp add: clear_bit_def)

lemma same_bit_position:
  "(p::nat) div 8 = q div 8 \<Longrightarrow> 7 - p mod 8 = 7 - q mod 8 \<Longrightarrow> p = q"
proof -
  assume d: "p div 8 = q div 8" and m: "7 - p mod 8 = 7 - q mod 8"
  have "p mod 8 < 8" "q mod 8 < 8" by simp_all
  with m have "p mod 8 = q mod 8" by linarith
  with d show ?thesis by (metis div_mult_mod_eq)
qed

lemma bits_of_or_bit: "p < 8 * length buf \<Longrightarrow> bits_of (or_bit buf p) = (bits_of buf)[p := True]"
proof (rule nth_equalityI)
  show "length (bits_of (or_bit buf p)) = length ((bits_of buf)[p := True])" by simp
next
  fix q assume p: "p < 8 * length buf" and "q < length (bits_of (or_bit buf p))"
  then have q: "q < 8 * length buf" by simp
  then have dq: "q div 8 < length buf" and dp: "p div 8 < length buf"
    using p by (simp_all add: less_mult_imp_div_less mult.commute)
  have "q = p \<or> q div 8 \<noteq> p div 8 \<or> 7 - q mod 8 \<noteq> 7 - p mod 8"
    using same_bit_position by blast
  then show "bits_of (or_bit buf p) ! q = (bits_of buf)[p := True] ! q"
    using p q dq dp
    by (auto simp: nth_bits_of or_bit_def nth_list_update bit_simps)
qed

lemma bits_of_clear_bit: "p < 8 * length buf \<Longrightarrow> bits_of (clear_bit buf p) = (bits_of buf)[p := False]"
proof (rule nth_equalityI)
  show "length (bits_of (clear_bit buf p)) = length ((bits_of buf)[p := False])" by simp
next
  fix q assume p: "p < 8 * length buf" and "q < length (bits_of (clear_bit buf p))"
  then have q: "q < 8 * length buf" by simp
  then have dq: "q div 8 < length buf" and dp: "p div 8 < length buf"
    using p by (simp_all add: less_mult_imp_div_less mult.commute)
  have "q = p \<or> q div 8 \<noteq> p div 8 \<or> 7 - q mod 8 \<noteq> 7 - p mod 8"
    using same_bit_position by blast
  then show "bits_of (clear_bit buf p) ! q = (bits_of buf)[p := False] ! q"
    using p q dq dp
    by (auto simp: nth_bits_of clear_bit_def nth_list_update bit_simps)
qed

text \<open>
  The two bit-writing loops of the sources. \<open>put_bits\<close> only sets bits (the target starts zeroed);
  \<open>write_bits\<close> sets or clears each one.
\<close>

primrec put_bits :: "u8 list \<Rightarrow> nat \<Rightarrow> bool list \<Rightarrow> u8 list" where
  "put_bits buf off [] = buf"
| "put_bits buf off (b # bs) = put_bits (if b then or_bit buf off else buf) (Suc off) bs"

primrec write_bits :: "u8 list \<Rightarrow> nat \<Rightarrow> bool list \<Rightarrow> u8 list" where
  "write_bits buf off [] = buf"
| "write_bits buf off (b # bs) =
     write_bits (if b then or_bit buf off else clear_bit buf off) (Suc off) bs"

lemma length_put_bits [simp]: "length (put_bits buf off bs) = length buf"
  by (induction bs arbitrary: buf off) auto

lemma length_write_bits [simp]: "length (write_bits buf off bs) = length buf"
  by (induction bs arbitrary: buf off) auto

text \<open>Overwriting a slice of a list.\<close>

definition splice_at :: "nat \<Rightarrow> 'a list \<Rightarrow> 'a list \<Rightarrow> 'a list" where
  "splice_at off bs xs = take off xs @ bs @ drop (off + length bs) xs"

lemma splice_at_Nil [simp]: "splice_at off [] xs = xs"
  by (simp add: splice_at_def)

lemma length_splice_at [simp]: "off + length bs \<le> length xs \<Longrightarrow> length (splice_at off bs xs) = length xs"
  by (simp add: splice_at_def)

lemma splice_at_Cons:
  "off < length xs \<Longrightarrow> splice_at (Suc off) bs (xs[off := b]) = splice_at off (b # bs) xs"
  by (simp add: splice_at_def take_Suc_conv_app_nth)

lemma bits_of_write_bits:
  "off + length bs \<le> 8 * length buf \<Longrightarrow> bits_of (write_bits buf off bs) = splice_at off bs (bits_of buf)"
proof (induction bs arbitrary: buf off)
  case Nil
  then show ?case by simp
next
  case (Cons b bs)
  then show ?case
    by (cases b) (simp_all add: bits_of_or_bit bits_of_clear_bit splice_at_Cons)
qed

lemma bits_of_put_bits:
  assumes "off + length bs \<le> 8 * length buf"
    and "\<And>q. off \<le> q \<Longrightarrow> q < off + length bs \<Longrightarrow> \<not> bits_of buf ! q"
  shows "bits_of (put_bits buf off bs) = splice_at off bs (bits_of buf)"
  using assms
proof (induction bs arbitrary: buf off)
  case Nil
  then show ?case by simp
next
  case (Cons b bs)
  let ?buf = "if b then or_bit buf off else buf"
  have off: "off < 8 * length buf" and zero: "\<not> bits_of buf ! off"
    using Cons.prems by auto
  then have buf: "bits_of ?buf = (bits_of buf)[off := b]"
    using list_update_id [of "bits_of buf" off] by (cases b) (simp_all add: bits_of_or_bit)
  have "bits_of (put_bits ?buf (Suc off) bs) = splice_at (Suc off) bs (bits_of ?buf)"
    using Cons.prems by (intro Cons.IH) (auto simp: buf nth_list_update)
  with buf off show ?case by (simp add: splice_at_Cons)
qed

lemma bits_of_zero: "bits_of (replicate n 0) = replicate (8 * n) False"
proof (induction n)
  case 0
  then show ?case by simp
next
  case (Suc n)
  have "bits_of_byte 0 = replicate 8 False"
    by (rule nth_equalityI) (simp_all add: bits_of_byte_def)
  with Suc show ?case by (simp add: bits_of_Cons replicate_add)
qed

lemma bits_of_put_bits_zero:
  "length bs \<le> 8 * n \<Longrightarrow>
   bits_of (put_bits (replicate n 0) 0 bs) = bs @ replicate (8 * n - length bs) False"
  by (subst bits_of_put_bits) (simp_all add: bits_of_zero splice_at_def)

lemma splice_at_slice:
  "off + length bs \<le> length xs \<Longrightarrow> take (length bs) (drop off (splice_at off bs xs)) = bs"
  by (simp add: splice_at_def)

lemma nth_splice_at:
  "off + length bs \<le> length xs \<Longrightarrow> q < length xs \<Longrightarrow>
   splice_at off bs xs ! q = (if off \<le> q \<and> q < off + length bs then bs ! (q - off) else xs ! q)"
  by (cases "q < off"; cases "q < off + length bs") (auto simp: splice_at_def nth_append)

lemma splice_at_other:
  assumes "off + length bs \<le> length xs" "p + n \<le> off \<or> off + length bs \<le> p"
  shows "take n (drop p (splice_at off bs xs)) = take n (drop p xs)"
proof (rule nth_equalityI)
  show "length (take n (drop p (splice_at off bs xs))) = length (take n (drop p xs))"
    using assms by simp
next
  fix i assume "i < length (take n (drop p (splice_at off bs xs)))"
  with assms have i: "p + i < length xs" "i < n" by auto
  with assms have "\<not> (off \<le> p + i \<and> p + i < off + length bs)" by linarith
  then have "splice_at off bs xs ! (p + i) = xs ! (p + i)"
    using assms(1) i by (simp only: nth_splice_at if_False)
  with i assms(1) show "take n (drop p (splice_at off bs xs)) ! i = take n (drop p xs) ! i"
    by simp
qed

section \<open>Big-endian words\<close>

definition PutUint32 :: "u32 \<Rightarrow> u8 list" where
  "PutUint32 w = [ucast (drop_bit 24 w), ucast (drop_bit 16 w), ucast (drop_bit 8 w), ucast w]"

definition Uint32 :: "u8 list \<Rightarrow> u32" where
  "Uint32 bs = push_bit 24 (ucast (bs ! 0)) OR push_bit 16 (ucast (bs ! 1))
               OR push_bit 8 (ucast (bs ! 2)) OR ucast (bs ! 3)"

text \<open>
  \<^verbatim>\<open>for i := 0; i < n; i++ { PutUint32(buf[i*4:], words[i]) }\<close> over a fresh buffer of \<^verbatim>\<open>4 n\<close> bytes,
  and the reverse loop.
\<close>

definition be_words :: "nat \<Rightarrow> u32 list \<Rightarrow> u8 list" where
  "be_words n ws = concat (map PutUint32 (take n ws))"

primrec be_unwords :: "nat \<Rightarrow> u8 list \<Rightarrow> u32 list" where
  "be_unwords 0 bs = []"
| "be_unwords (Suc n) bs = Uint32 (take 4 bs) # be_unwords n (drop 4 bs)"

definition bits_of_u32 :: "u32 \<Rightarrow> bool list" where
  "bits_of_u32 w = map (\<lambda>i. bit w (31 - i)) [0..<32]"

lemma length_bits_of_u32 [simp]: "length (bits_of_u32 w) = 32"
  by (simp add: bits_of_u32_def)

lemma length_PutUint32 [simp]: "length (PutUint32 w) = 4"
  by (simp add: PutUint32_def)

lemma length_be_words [simp]: "n \<le> length ws \<Longrightarrow> length (be_words n ws) = 4 * n"
  by (simp add: be_words_def length_concat comp_def sum_list_triv)

lemma upt_32: "[0..<32] = [0,1,2,3,4,5,6,7,8,9,10,11,12,13,14,15,16,17,18,19,20,21,22,23,24,25,26,27,28,29,30,31]"
  by (simp add: upt_rec)

lemma upt_8: "[0..<8] = [0,1,2,3,4,5,6,7]"
  by (simp add: upt_rec)

lemma bits_of_PutUint32: "bits_of (PutUint32 w) = bits_of_u32 w"
  by (simp add: bits_of_def bits_of_byte_def PutUint32_def bits_of_u32_def upt_32 upt_8 bit_simps)

lemma bits_of_be_words: "bits_of (be_words n ws) = concat (map bits_of_u32 (take n ws))"
proof -
  have "bits_of (concat (map PutUint32 vs)) = concat (map bits_of_u32 vs)" for vs
    by (induction vs) (simp_all add: bits_of_append bits_of_PutUint32)
  then show ?thesis by (simp add: be_words_def)
qed

lemma Uint32_PutUint32 [simp]: "Uint32 (PutUint32 w) = w"
proof (rule bit_word_eqI)
  fix n assume "n < LENGTH(32)"
  then have n: "n < 32" by simp
  consider "n < 8" | "8 \<le> n" "n < 16" | "16 \<le> n" "n < 24" | "24 \<le> n" by linarith
  then show "bit (Uint32 (PutUint32 w)) n = bit w n"
    using n by cases (auto simp: Uint32_def PutUint32_def bit_simps numeral_2_eq_2 numeral_3_eq_3)
qed

lemma be_unwords_be_words [simp]: "n \<le> length ws \<Longrightarrow> be_unwords n (be_words n ws) = take n ws"
proof (induction n arbitrary: ws)
  case 0
  then show ?case by simp
next
  case (Suc n)
  then obtain w ws' where ws: "ws = w # ws'" by (cases ws) auto
  with Suc have "be_unwords n (be_words n ws') = take n ws'" by simp
  with ws show ?case by (simp add: be_words_def)
qed

lemma no_bit_8: "8 \<le> m \<Longrightarrow> \<not> bit (b :: u8) m"
  using bit_imp_le_length [of b m] by auto

lemma PutUint32_Uint32: "length bs = 4 \<Longrightarrow> PutUint32 (Uint32 bs) = bs"
proof -
  assume "length bs = 4"
  then obtain a b c d where bs: "bs = [a, b, c, d]"
    by (auto simp: length_Suc_conv numeral_eq_Suc)
  have "ucast (drop_bit 24 (Uint32 bs)) = a" "ucast (drop_bit 16 (Uint32 bs)) = b"
    "ucast (drop_bit 8 (Uint32 bs)) = c" "ucast (Uint32 bs) = d"
    by (auto intro!: bit_word_eqI simp: bs Uint32_def bit_simps no_bit_8)
  then show ?thesis by (simp add: PutUint32_def bs)
qed

lemma length_be_unwords [simp]: "length (be_unwords n bs) = n"
  by (induction n arbitrary: bs) auto

lemma be_words_be_unwords: "length bs = 4 * n \<Longrightarrow> be_words n (be_unwords n bs) = bs"
proof (induction n arbitrary: bs)
  case 0
  then show ?case by (simp add: be_words_def)
next
  case (Suc n)
  then have "be_words n (be_unwords n (drop 4 bs)) = drop 4 bs" and "length (take 4 bs) = 4" by auto
  then show ?case by (simp add: be_words_def PutUint32_Uint32)
qed

section \<open>Numbers as bit lists\<close>

text \<open>
  The specification side of the bit readers: the unsigned, two's-complement and sign-magnitude
  values of a most-significant-bit-first list, and the field encoders that invert them.
\<close>

definition nat_of_bits :: "bool list \<Rightarrow> nat" where
  "nat_of_bits bs = foldl (\<lambda>a b. 2 * a + of_bool b) 0 bs"

definition int_of_bits :: "bool list \<Rightarrow> int" where
  "int_of_bits bs = (case bs of [] \<Rightarrow> 0
     | s # r \<Rightarrow> int (nat_of_bits r) - (if s then 2 ^ length r else 0))"

definition signmag_of_bits :: "bool list \<Rightarrow> int" where
  "signmag_of_bits bs = (case bs of [] \<Rightarrow> 0
     | s # r \<Rightarrow> (if s then - int (nat_of_bits r) else int (nat_of_bits r)))"

definition ubits_enc :: "nat \<Rightarrow> nat \<Rightarrow> bool list" where
  "ubits_enc n x = map (\<lambda>i. bit x (n - 1 - i)) [0..<n]"

definition sbits_enc :: "nat \<Rightarrow> int \<Rightarrow> bool list" where
  "sbits_enc n x = map (\<lambda>i. bit x (n - 1 - i)) [0..<n]"

lemma length_ubits_enc [simp]: "length (ubits_enc n x) = n"
  by (simp add: ubits_enc_def)

lemma length_sbits_enc [simp]: "length (sbits_enc n x) = n"
  by (simp add: sbits_enc_def)

lemma nat_of_bits_Nil [simp]: "nat_of_bits [] = 0"
  by (simp add: nat_of_bits_def)

lemma nat_of_bits_snoc: "nat_of_bits (bs @ [b]) = 2 * nat_of_bits bs + of_bool b"
  by (simp add: nat_of_bits_def)

lemma nat_of_bits_append: "nat_of_bits (xs @ ys) = nat_of_bits xs * 2 ^ length ys + nat_of_bits ys"
proof (induction ys rule: rev_induct)
  case Nil
  then show ?case by simp
next
  case (snoc y ys)
  then show ?case by (simp add: nat_of_bits_snoc algebra_simps flip: append_assoc)
qed

lemma nat_of_bits_single [simp]: "nat_of_bits [b] = of_bool b"
  by (simp add: nat_of_bits_def)

lemma nat_of_bits_Cons: "nat_of_bits (b # bs) = of_bool b * 2 ^ length bs + nat_of_bits bs"
  using nat_of_bits_append [of "[b]" bs] by simp

lemma nat_of_bits_less: "nat_of_bits bs < 2 ^ length bs"
  by (induction bs rule: rev_induct) (auto simp: nat_of_bits_snoc)

lemma nat_of_bits_less_exp: "length bs \<le> n \<Longrightarrow> nat_of_bits bs < 2 ^ n"
  using nat_of_bits_less [of bs] by (meson less_le_trans one_le_numeral power_increasing)

lemma ubits_enc_Suc: "ubits_enc (Suc n) x = ubits_enc n (x div 2) @ [odd x]"
proof -
  have "map (\<lambda>i. bit x (n - i)) [0..<n] = map (\<lambda>i. bit (x div 2) (n - 1 - i)) [0..<n]"
    by (rule map_cong) (auto simp: bit_Suc Suc_diff_Suc simp flip: bit_Suc)
  then show ?thesis by (simp add: ubits_enc_def bit_0)
qed

lemma nat_of_bits_ubits_enc_mod: "nat_of_bits (ubits_enc n x) = x mod 2 ^ n"
proof (induction n arbitrary: x)
  case 0
  then show ?case by (simp add: ubits_enc_def)
next
  case (Suc n)
  have "x mod (2 * 2 ^ n) = 2 * (x div 2 mod 2 ^ n) + x mod 2"
    by (rule mod_mult2_eq)
  with Suc show ?case
    by (simp add: ubits_enc_Suc nat_of_bits_snoc of_bool_odd_eq_mod_2)
qed

lemma nat_of_bits_ubits_enc [simp]: "x < 2 ^ n \<Longrightarrow> nat_of_bits (ubits_enc n x) = x"
  by (simp add: nat_of_bits_ubits_enc_mod)

lemma sbits_enc_nonneg: "0 \<le> x \<Longrightarrow> sbits_enc n x = ubits_enc n (nat x)"
  by (cases x rule: int_cases4) (simp_all add: sbits_enc_def ubits_enc_def bit_of_nat_iff)

lemma sbits_enc_mod: "sbits_enc n x = ubits_enc n (nat (x mod 2 ^ n))"
proof -
  have "bit (nat (x mod 2 ^ n)) k = bit x k" if "k < n" for k
  proof -
    have "bit (int (nat (x mod 2 ^ n))) k = bit x k"
      using that by (simp add: bit_take_bit_iff flip: take_bit_eq_mod)
    then show ?thesis by (simp only: bit_of_nat_iff possible_bit_int simp_thms)
  qed
  then show ?thesis by (auto simp: sbits_enc_def ubits_enc_def)
qed

lemma int_of_bits_alt:
  "int_of_bits bs = (if bs = [] then 0
     else if hd bs then int (nat_of_bits bs) - 2 ^ length bs else int (nat_of_bits bs))"
  by (cases bs) (auto simp: int_of_bits_def nat_of_bits_Cons)

lemma hd_iff_nat_of_bits:
  assumes "bs \<noteq> []"
  shows "hd bs \<longleftrightarrow> 2 ^ (length bs - 1) \<le> nat_of_bits bs"
  using assms nat_of_bits_less [of "tl bs"]
  by (cases bs) (auto simp: nat_of_bits_Cons not_le)

lemma int_of_bits_sbits_enc [simp]:
  assumes "0 < n" "- (2 ^ (n - 1)) \<le> x" "x < 2 ^ (n - 1)"
  shows "int_of_bits (sbits_enc n x) = x"
proof -
  obtain m where n: "n = Suc m" using assms(1) by (cases n) auto
  let ?y = "nat (x mod 2 ^ n)"
  have y: "nat_of_bits (sbits_enc n x) = ?y"
    by (simp add: sbits_enc_mod nat_of_bits_ubits_enc_mod nat_less_iff)
  have ne: "sbits_enc n x \<noteq> []"
    using n by (simp add: sbits_enc_def)
  show ?thesis
  proof (cases "0 \<le> x")
    case True
    with assms n have "x mod 2 ^ n = x" by (simp add: mod_pos_pos_trivial)
    with True assms n y ne show ?thesis
      by (auto simp: int_of_bits_alt hd_iff_nat_of_bits le_nat_iff)
  next
    case False
    with assms n have "x mod 2 ^ n = x + 2 ^ n"
      using mod_pos_pos_trivial [of "x + 2 ^ n" "2 ^ n"] by simp
    with False assms n y ne show ?thesis
      by (auto simp: int_of_bits_alt hd_iff_nat_of_bits le_nat_iff)
  qed
qed

lemma int_of_bits_bounds:
  assumes "0 < length bs"
  shows "- (2 ^ (length bs - 1)) \<le> int_of_bits bs" "int_of_bits bs < 2 ^ (length bs - 1)"
proof -
  from assms obtain s r where bs: "bs = s # r" by (cases bs) auto
  have "int (nat_of_bits r) < 2 ^ length r"
    using nat_of_bits_less [of r] by (metis of_nat_less_iff of_nat_numeral of_nat_power)
  moreover have "(0::int) < 2 ^ length r" by simp
  ultimately have "- (2 ^ length r) \<le> int_of_bits bs \<and> int_of_bits bs < 2 ^ length r"
    unfolding bs int_of_bits_def list.case by (cases s) (simp only: if_True if_False; intro conjI; linarith)+
  then show "- (2 ^ (length bs - 1)) \<le> int_of_bits bs" "int_of_bits bs < 2 ^ (length bs - 1)"
    by (simp_all add: bs)
qed

lemma nat_of_bits_inject: "length xs = length ys \<Longrightarrow> nat_of_bits xs = nat_of_bits ys \<Longrightarrow> xs = ys"
proof (induction xs ys rule: list_induct2)
  case Nil
  then show ?case by simp
next
  case (Cons x xs y ys)
  then have "nat_of_bits xs < 2 ^ length ys" "nat_of_bits ys < 2 ^ length ys"
    using nat_of_bits_less [of xs] nat_of_bits_less [of ys] by auto
  with Cons show ?case by (cases x; cases y) (auto simp: nat_of_bits_Cons)
qed

lemma nat_of_bits_shifted_less:
  assumes "length e \<le> n"
  shows "nat_of_bits e * 2 ^ (n - length e) < 2 ^ n"
proof -
  have "nat_of_bits e * 2 ^ (n - length e) < 2 ^ length e * 2 ^ (n - length e)"
    using nat_of_bits_less by (intro mult_strict_right_mono) auto
  also have "\<dots> = 2 ^ n" using assms by (simp flip: power_add)
  finally show ?thesis .
qed

lemma no_bit_nat: "x < 2 ^ m \<Longrightarrow> m \<le> n \<Longrightarrow> \<not> bit (x :: nat) n"
  by (metis bit_take_bit_iff not_less take_bit_nat_eq_self)

end
