(* ===== verification/LnavParity.thy ===== *)
theory LnavParity
  imports Prelude
begin

text \<open>
  \<^verbatim>\<open>gnss/frame/parity.go\<close>: the GPS/QZSS LNAV word parity in its two delivery conventions (words as
  transmitted, and words normalised by the receiver), and the stamping helper. The lemmas show
  that the parity map is linear, that stamping produces words the normalised check accepts without
  touching the data bits, that the two conventions accept the same broadcasts, and that every
  single- or double-bit error inside a word is rejected.
\<close>

section \<open>The code\<close>

definition maskFromIdx :: "nat list \<Rightarrow> u32" where
  "maskFromIdx idx = foldl (\<lambda>m i. m OR push_bit (24 - i) 1) 0 idx"

definition parityMasks :: "u32 list" where
  "parityMasks =
     [maskFromIdx [1, 2, 3, 5, 6, 10, 11, 12, 13, 14, 17, 18, 20, 23],
      maskFromIdx [2, 3, 4, 6, 7, 11, 12, 13, 14, 15, 18, 19, 21, 24],
      maskFromIdx [1, 3, 4, 5, 7, 8, 12, 13, 14, 15, 16, 19, 20, 22],
      maskFromIdx [2, 4, 5, 6, 8, 9, 13, 14, 15, 16, 17, 20, 21, 23],
      maskFromIdx [1, 3, 5, 6, 7, 9, 10, 14, 15, 16, 17, 18, 21, 22, 24],
      maskFromIdx [3, 5, 6, 8, 9, 10, 11, 13, 15, 19, 22, 23, 24]]"

definition prevIsD30 :: "bool list" where
  "prevIsD30 = [False, True, False, True, True, False]"

definition OnesCount32 :: "u32 \<Rightarrow> nat" where
  "OnesCount32 w = length (filter (bit w) [0..<32])"

definition parity :: "u32 \<Rightarrow> u32 \<Rightarrow> u32" where
  "parity d msk = of_nat (OnesCount32 (d AND msk) mod 2)"

definition parityBits :: "u32 \<Rightarrow> u32 \<Rightarrow> u32 \<Rightarrow> u32" where
  "parityBits d d29star d30star =
     (let d29 = d29star AND 1; d30 = d30star AND 1
      in foldl (\<lambda>computed (msk, isD30).
           push_bit 1 computed OR ((if isD30 then d30 else d29) XOR parity d msk))
         0 (zip parityMasks prevIsD30))"

definition GPSParity :: "u32 \<Rightarrow> u32 \<Rightarrow> u32 \<Rightarrow> u32 \<times> bool" where
  "GPSParity word d29star d30star =
     (let w = word AND 0x3FFFFFFF;
          raw = drop_bit 6 w AND 0xFFFFFF;
          recv = w AND 0x3F;
          d30 = d30star AND 1;
          d = (if d30 \<noteq> 0 then NOT raw AND 0xFFFFFF else raw)
      in (d, parityBits d d29star d30 = recv))"

fun lnavNormalized_loop :: "u32 \<Rightarrow> u32 \<Rightarrow> u32 list \<Rightarrow> bool" where
  "lnavNormalized_loop d29 d30 [] = True"
| "lnavNormalized_loop d29 d30 (w0 # ws) =
     (let w = w0 AND 0x3FFFFFFF;
          e0 = parityBits (drop_bit 6 w AND 0xFFFFFF) d29 d30;
          expect = (if d30 = 1 then e0 XOR 0x3F else e0)
      in if w AND 0x3F \<noteq> expect then False
         else (let t0 = w AND 0x3F;
                   tx = (if d30 = 1 then t0 XOR 0x3F else t0)
               in lnavNormalized_loop (drop_bit 1 tx AND 1) (tx AND 1) ws))"

definition lnavNormalizedParityOK :: "u32 list \<Rightarrow> bool" where
  "lnavNormalizedParityOK ws = lnavNormalized_loop 0 0 ws"

fun lnavRaw_loop :: "u32 \<Rightarrow> u32 \<Rightarrow> u32 list \<Rightarrow> bool" where
  "lnavRaw_loop d29 d30 [] = True"
| "lnavRaw_loop d29 d30 (w # ws) =
     (if \<not> snd (GPSParity w d29 d30) then False
      else lnavRaw_loop (drop_bit 1 w AND 1) (w AND 1) ws)"

definition lnavRawParityOK :: "u32 list \<Rightarrow> bool" where
  "lnavRawParityOK ws = lnavRaw_loop 0 0 ws"

definition lnavParityOK :: "u32 list \<Rightarrow> bool" where
  "lnavParityOK ws \<longleftrightarrow> lnavNormalizedParityOK ws \<or> lnavRawParityOK ws"

fun stamp_loop :: "u32 \<Rightarrow> u32 \<Rightarrow> u32 list \<Rightarrow> u32 list" where
  "stamp_loop d29 d30 [] = []"
| "stamp_loop d29 d30 (w # ws) =
     (let data = drop_bit 6 w AND 0xFFFFFF;
          tx = parityBits data d29 d30;
          delivered = (if d30 = 1 then tx XOR 0x3F else tx)
      in (push_bit 6 data OR delivered) # stamp_loop (drop_bit 1 tx AND 1) (tx AND 1) ws)"

definition StampGPSLNAVParity :: "u32 list \<Rightarrow> u32 list" where
  "StampGPSLNAVParity ws = stamp_loop 0 0 ws"

section \<open>Data and parity parts of a word\<close>

definition data24 :: "u32 \<Rightarrow> u32" where
  "data24 w = drop_bit 6 w AND 0xFFFFFF"

lemma bit_mask_numerals:
  "bit (0x3F :: u32) n \<longleftrightarrow> n < 6"
  "bit (0xFFFFFF :: u32) n \<longleftrightarrow> n < 24"
  "bit (0x3FFFFFFF :: u32) n \<longleftrightarrow> n < 30"
proof -
  have "(0x3F :: u32) = mask 6" "(0xFFFFFF :: u32) = mask 24" "(0x3FFFFFFF :: u32) = mask 30"
    by (simp_all add: mask_eq_exp_minus_1)
  then show "bit (0x3F :: u32) n \<longleftrightarrow> n < 6" "bit (0xFFFFFF :: u32) n \<longleftrightarrow> n < 24"
    "bit (0x3FFFFFFF :: u32) n \<longleftrightarrow> n < 30"
    by (simp_all only: bit_mask_iff possible_bit_word) auto
qed

lemma bit_data24: "bit (data24 w) n \<longleftrightarrow> n < 24 \<and> bit w (6 + n)"
  unfolding data24_def bit_and_iff bit_drop_bit_eq comp_def bit_mask_numerals by auto

lemma data24_mask30: "data24 (w AND 0x3FFFFFFF) = data24 w"
  by (rule bit_word_eqI) (simp only: bit_data24 bit_and_iff bit_mask_numerals, auto)

lemma low6_mask30: "(w AND 0x3FFFFFFF) AND 0x3F = w AND (0x3F :: u32)"
  by (rule bit_word_eqI) (simp only: bit_and_iff bit_mask_numerals, auto)

lemma data24_idem: "data24 w AND 0xFFFFFF = data24 w"
  by (simp add: data24_def and.assoc)

lemma word_parts:
  assumes "x AND 0x3F = x"
  shows "data24 (push_bit 6 (data24 w) OR x) = data24 w"
    and "(push_bit 6 (data24 w) OR x) AND 0x3F = x"
proof -
  have x: "\<not> bit x n" if "6 \<le> n" for n
    using assms that by (metis bit_and_iff bit_mask_numerals(1) not_less)
  show "data24 (push_bit 6 (data24 w) OR x) = data24 w"
    by (rule bit_word_eqI) (simp only: bit_data24 bit_or_iff bit_push_bit_iff, auto simp: x)
  show "(push_bit 6 (data24 w) OR x) AND 0x3F = x"
    by (rule bit_word_eqI)
      (simp only: bit_data24 bit_and_iff bit_or_iff bit_push_bit_iff bit_mask_numerals, use x not_less in auto)
qed

section \<open>The parity map is linear\<close>

lemma odd_filter_neq:
  "odd (length (filter (\<lambda>n. P n \<noteq> Q n) xs)) \<longleftrightarrow>
   odd (length (filter P xs)) \<noteq> odd (length (filter Q xs))"
  by (induction xs) auto

lemma parity_odd: "parity d m = of_bool (odd (OnesCount32 (d AND m)))"
  by (simp add: parity_def mod_2_eq_odd)

lemma odd_OnesCount32_xor:
  "odd (OnesCount32 (x XOR y)) \<longleftrightarrow> odd (OnesCount32 x) \<noteq> odd (OnesCount32 y)"
proof -
  have "filter (bit (x XOR y)) [0..<32] = filter (\<lambda>n. bit x n \<noteq> bit y n) [0..<32]"
    by (rule filter_cong) (simp_all add: bit_xor_iff)
  then show ?thesis by (simp only: OnesCount32_def odd_filter_neq)
qed

text \<open>Parity bit \<open>k\<close>, counted from \<open>D25\<close>, as a Boolean.\<close>

definition pbit :: "nat \<Rightarrow> u32 \<Rightarrow> bool" where
  "pbit k d \<longleftrightarrow> odd (OnesCount32 (d AND (parityMasks ! k)))"

lemma pbit_xor: "pbit k (x XOR y) \<longleftrightarrow> pbit k x \<noteq> pbit k y"
proof -
  have "(x XOR y) AND m = (x AND m) XOR (y AND m)" for m :: u32
    by (rule bit_word_eqI) (auto simp: bit_simps)
  then show ?thesis by (simp only: pbit_def odd_OnesCount32_xor)
qed

lemma pbit_0 [simp]: "\<not> pbit k 0"
  by (simp add: pbit_def OnesCount32_def)

definition prev_bit :: "nat \<Rightarrow> bool \<Rightarrow> bool \<Rightarrow> bool" where
  "prev_bit k a b = (if prevIsD30 ! k then b else a)"

lemma bit_shift_in:
  "bit (push_bit 1 c OR of_bool b :: u32) n \<longleftrightarrow> (if n = 0 then b else n < 32 \<and> bit c (n - 1))"
  unfolding bit_or_iff bit_push_bit_iff bit_of_bool_iff by (cases n) auto

lemma parity_term: "(a AND 1) XOR parity d m = of_bool (bit a 0 \<noteq> odd (OnesCount32 (d AND m)))"
  by (rule bit_word_eqI) (auto simp: parity_odd bit_simps bit_0)

lemma length_parityMasks [simp]: "length parityMasks = 6"
  by (simp add: parityMasks_def)

lemma parityMasks_expand:
  "parityMasks = [parityMasks ! 0, parityMasks ! 1, parityMasks ! 2, parityMasks ! 3, parityMasks ! 4, parityMasks ! 5]"
  by (simp add: parityMasks_def)

lemma parityBits_terms:
  "parityBits d a b = foldl (\<lambda>c t. push_bit 1 c OR of_bool t) 0
     (map (\<lambda>k. prev_bit k (bit a 0) (bit b 0) \<noteq> pbit k d) [0, 1, 2, 3, 4, 5])"
proof -
  have z: "zip parityMasks prevIsD30 =
      [(parityMasks ! 0, False), (parityMasks ! 1, True), (parityMasks ! 2, False),
       (parityMasks ! 3, True), (parityMasks ! 4, True), (parityMasks ! 5, False)]"
    by (subst parityMasks_expand) (simp add: prevIsD30_def)
  have v: "prev_bit 0 x y = x" "prev_bit 1 x y = y" "prev_bit 2 x y = x" "prev_bit 3 x y = y"
    "prev_bit 4 x y = y" "prev_bit 5 x y = x" for x y
    by (simp_all add: prev_bit_def prevIsD30_def)
  show ?thesis
    unfolding parityBits_def Let_def z foldl_Cons foldl_Nil split_conv list.map v pbit_def
    by (simp only: if_True if_False parity_term)
qed

lemma bit_parityBits:
  "bit (parityBits d a b) n \<longleftrightarrow> n < 6 \<and> (prev_bit (5 - n) (bit a 0) (bit b 0) \<noteq> pbit (5 - n) d)"
proof -
  consider "n = 0" | "n = 1" | "n = 2" | "n = 3" | "n = 4" | "n = 5" | "6 \<le> n" by linarith
  then show ?thesis
    unfolding parityBits_terms list.map foldl_Cons foldl_Nil
    by cases (simp_all only: bit_shift_in bit_0_eq, simp_all)
qed

lemma parityBits_low6: "parityBits d a b AND 0x3F = parityBits d a b"
  by (rule bit_word_eqI) (simp only: bit_and_iff bit_parityBits bit_mask_numerals, auto)

section \<open>Syndromes\<close>

text \<open>
  A delivered word is accepted, for given carried bits \<open>D29*\<close> and \<open>D30*\<close>, exactly when its syndrome
  is zero; the syndrome of an error pattern is added to it.
\<close>

definition syndrome :: "u32 \<Rightarrow> u32 \<Rightarrow> u32 \<Rightarrow> u32" where
  "syndrome d29 d30 w = (w AND 0x3F) XOR parityBits (data24 w) d29 d30 XOR (if d30 = 1 then 0x3F else 0)"

definition err_syndrome :: "u32 \<Rightarrow> u32" where
  "err_syndrome e = (e AND 0x3F) XOR parityBits (data24 e) 0 0"

lemma data24_xor: "data24 (x XOR y) = data24 x XOR data24 y"
  by (rule bit_word_eqI) (simp only: bit_data24 bit_xor_iff, auto)

lemma parityBits_xor: "parityBits (x XOR y) a b = parityBits x a b XOR parityBits y 0 0"
  by (rule bit_word_eqI) (auto simp: bit_xor_iff bit_parityBits pbit_xor prev_bit_def)

lemma low6_xor: "(x XOR y) AND 0x3F = (x AND 0x3F) XOR (y AND (0x3F :: u32))"
  by (rule bit_word_eqI) (simp only: bit_and_iff bit_xor_iff, auto)

lemma syndrome_xor: "syndrome a b (w XOR e) = syndrome a b w XOR err_syndrome e"
  unfolding syndrome_def err_syndrome_def data24_xor parityBits_xor low6_xor
  by (simp only: xor.assoc xor.commute xor.left_commute)

lemma syndrome_zero_iff:
  "syndrome d29 d30 w = 0 \<longleftrightarrow>
   w AND 0x3F = (if d30 = 1 then parityBits (data24 w) d29 d30 XOR 0x3F else parityBits (data24 w) d29 d30)"
  by (auto simp: syndrome_def xor_zero_iff xor.assoc)

lemma normalized_step:
  "lnavNormalized_loop d29 d30 (w # ws) \<longleftrightarrow> syndrome d29 d30 w = 0 \<and>
   lnavNormalized_loop (drop_bit 1 ((w AND 0x3F) XOR (if d30 = 1 then 0x3F else 0)) AND 1)
     (((w AND 0x3F) XOR (if d30 = 1 then 0x3F else 0)) AND 1) ws"
  unfolding lnavNormalized_loop.simps Let_def low6_mask30 data24_def [symmetric] data24_mask30
    syndrome_zero_iff
  by (cases "d30 = 1") ((simp only: if_True if_False xor.right_neutral if_bool_eq_conj simp_thms), blast)+

text \<open>The syndrome of a single flipped bit is a column of the parity-check matrix.\<close>

lemma filter_eq_single: "distinct xs \<Longrightarrow> filter (\<lambda>n. n = i) xs = (if i \<in> set xs then [i] else [])"
  by (induction xs) auto

lemma OnesCount32_single: "i < 32 \<Longrightarrow> odd (OnesCount32 (push_bit i 1 AND m)) \<longleftrightarrow> bit m i"
proof -
  assume i: "i < 32"
  have "filter (bit (push_bit i 1 AND m)) [0..<32] = filter (\<lambda>n. n = i \<and> bit m i) [0..<32]"
    by (rule filter_cong) (auto simp: bit_and_iff bit_push_bit_iff bit_1_iff bit_exp_iff)
  also have "\<dots> = (if bit m i then [i] else [])"
    using i filter_eq_single [of "[0..<32]" i] by (cases "bit m i") simp_all
  finally show ?thesis by (simp add: OnesCount32_def)
qed

definition column :: "nat \<Rightarrow> bool list" where
  "column i = (if i < 6 then map (\<lambda>k. k = 5 - i) [0..<6]
               else map (\<lambda>k. bit (parityMasks ! k) (i - 6)) [0..<6])"

lemma err_syndrome_column:
  assumes "i < 30" "n < 6"
  shows "bit (err_syndrome (push_bit i 1)) n \<longleftrightarrow> column i ! (5 - n)"
proof (cases "i < 6")
  case True
  then have "data24 (push_bit i 1) = 0"
    by (intro bit_word_eqI) (auto simp: bit_data24 bit_push_bit_iff bit_1_iff bit_exp_iff)
  then have "bit (err_syndrome (push_bit i 1)) n \<longleftrightarrow> n = i"
    using True assms
    unfolding err_syndrome_def bit_xor_iff bit_and_iff bit_mask_numerals bit_parityBits
    by (auto simp: prev_bit_def bit_push_bit_iff bit_1_iff bit_exp_iff)
  with True assms show ?thesis by (auto simp: column_def)
next
  case False
  with assms have d: "data24 (push_bit i 1) = push_bit (i - 6) 1"
    by (intro bit_word_eqI) (auto simp: bit_data24 bit_push_bit_iff bit_1_iff bit_exp_iff)
  have "pbit (5 - n) (push_bit (i - 6) 1) \<longleftrightarrow> bit (parityMasks ! (5 - n)) (i - 6)"
    unfolding pbit_def using assms by (intro OnesCount32_single) simp
  with False assms d show ?thesis
    by (auto simp: err_syndrome_def column_def bit_xor_iff bit_parityBits prev_bit_def
        bit_and_iff bit_push_bit_iff bit_1_iff bit_exp_iff)
qed

lemma parityMasks_value [code]:
  "parityMasks = [0xEC7CD2, 0x763E69, 0xBB1F34, 0x5D8F9A, 0xAEC7CD, 0x2DEA27]"
  by code_simp

text \<open>A population count by halving, which evaluates faster than testing every bit.\<close>

primrec popcount :: "nat \<Rightarrow> int \<Rightarrow> nat" where
  "popcount 0 x = 0"
| "popcount (Suc k) x = (if even x then popcount k (x div 2) else Suc (popcount k (x div 2)))"

lemma length_filter_bit: "length (filter (bit x) [0..<k]) = popcount k (x :: int)"
proof (induction k arbitrary: x)
  case 0
  then show ?case by simp
next
  case (Suc k)
  have "[0..<Suc k] = 0 # map Suc [0..<k]" by (simp add: map_Suc_upt upt_conv_Cons del: upt_Suc)
  then have "length (filter (bit x) [0..<Suc k]) = of_bool (odd x) + length (filter (bit (x div 2)) [0..<k])"
    by (simp add: filter_map comp_def bit_Suc bit_0 del: upt_Suc)
  then show ?case by (simp add: Suc.IH)
qed

lemma OnesCount32_code [code]: "OnesCount32 w = popcount 32 (uint w)"
proof -
  have "bit w n \<longleftrightarrow> bit (uint w) n" for n
    using bit_imp_le_length [of w n] by (auto simp: bit_uint_iff)
  then have "bit w = bit (uint w)" by (rule ext)
  then show ?thesis by (simp add: OnesCount32_def length_filter_bit)
qed

lemma columns_distinct: "distinct (replicate 6 False # map column [0..<30])"
  unfolding column_def parityMasks_value by code_simp

lemma column_length [simp]: "length (column i) = 6"
  by (simp add: column_def)

lemma err_syndrome_single: "i < 30 \<Longrightarrow> err_syndrome (push_bit i 1) \<noteq> 0"
proof
  assume i: "i < 30" and z: "err_syndrome (push_bit i 1) = 0"
  have "column i ! k = False" if "k < 6" for k
    using err_syndrome_column [OF i, of "5 - k"] that z by simp
  then have "column i = replicate 6 False" by (intro nth_equalityI) simp_all
  then have "replicate 6 False \<in> set (map column [0..<30])"
    using i by (metis atLeastLessThan_iff image_eqI list.set_map set_upt zero_le)
  then show False using columns_distinct by (simp only: distinct.simps simp_thms)
qed

lemma err_syndrome_pair:
  assumes "i < 30" "j < 30" "i \<noteq> j"
  shows "err_syndrome (push_bit i 1) \<noteq> err_syndrome (push_bit j 1)"
proof
  assume eq: "err_syndrome (push_bit i 1) = err_syndrome (push_bit j 1)"
  have "column i ! k = column j ! k" if "k < 6" for k
    using err_syndrome_column [OF assms(1), of "5 - k"] err_syndrome_column [OF assms(2), of "5 - k"]
      that eq by simp
  then have "column i = column j" by (intro nth_equalityI) simp_all
  moreover have "inj_on column {0..<30}"
    using columns_distinct by (simp only: distinct.simps distinct_map set_upt)
  ultimately show False using assms by (auto dest: inj_onD)
qed


section \<open>Chained word checks\<close>

text \<open>
  Both delivery conventions check a subframe word by word: a word is accepted when its syndrome,
  given the state carried from the previous word, is zero.
\<close>

locale word_chain =
  fixes accept :: "'s \<Rightarrow> u32 list \<Rightarrow> bool"
    and syn :: "'s \<Rightarrow> u32 \<Rightarrow> u32"
    and carry :: "'s \<Rightarrow> u32 \<Rightarrow> 's"
    and valid :: "'s \<Rightarrow> bool"
    and err :: "u32 \<Rightarrow> u32"
  assumes accept_Cons: "valid s \<Longrightarrow> accept s (w # ws) \<longleftrightarrow> syn s w = 0 \<and> accept (carry s w) ws"
    and syn_xor: "valid s \<Longrightarrow> syn s (w XOR e) = syn s w XOR err e"
    and valid_carry: "valid s \<Longrightarrow> valid (carry s w)"
begin

lemma error_rejected:
  assumes "accept s ws" "valid s" "i < length ws" "err e \<noteq> 0"
  shows "\<not> accept s (ws[i := (ws ! i) XOR e])"
  using assms
proof (induction ws arbitrary: s i)
  case Nil
  then show ?case by simp
next
  case (Cons w ws)
  then show ?case
    by (cases i) (auto simp: accept_Cons syn_xor valid_carry)
qed

end

text \<open>
  Two conventions whose syndromes differ by a fixed pattern exactly where their carried states may
  drift apart: a word sequence accepted by the one and then damaged is not accepted by the other
  either, unless the damage has that pattern as its syndrome.
\<close>

locale word_chain_pair =
  a: word_chain accept syn carry valid err + b: word_chain accept' syn' carry' valid err
  for accept :: "'s \<Rightarrow> u32 list \<Rightarrow> bool" and syn carry valid err accept' syn' carry' +
  fixes drift :: "'s \<Rightarrow> bool" and pattern :: u32
  assumes syn_drift: "valid s \<Longrightarrow> syn' s w = syn s w XOR (if drift s then pattern else 0)"
    and carry_same: "valid s \<Longrightarrow> \<not> drift s \<Longrightarrow> carry' s w = carry s w"
    and pattern: "pattern \<noteq> 0"
begin

lemma cross_rejected:
  assumes "accept s ws" "valid s" "i < length ws" "err e \<noteq> 0" "err e \<noteq> pattern"
  shows "\<not> accept' s (ws[i := (ws ! i) XOR e])"
  using assms
proof (induction ws arbitrary: s i)
  case Nil
  then show ?case by simp
next
  case (Cons w ws)
  have s0: "syn s w = 0" "accept (carry s w) ws"
    using Cons.prems by (simp_all add: a.accept_Cons)
  show ?case
  proof (cases i)
    case 0
    have "syn' s (w XOR e) = err e XOR (if drift s then pattern else 0)"
      using Cons.prems(2) s0 by (simp only: syn_drift a.syn_xor xor.left_neutral)
    then have "syn' s (w XOR e) \<noteq> 0"
      using Cons.prems by (simp add: xor_zero_iff)
    with 0 Cons.prems show ?thesis by (simp add: b.accept_Cons)
  next
    case (Suc j)
    then show ?thesis
    proof (cases "drift s")
      case True
      with Suc Cons.prems s0 pattern show ?thesis by (simp add: b.accept_Cons syn_drift)
    next
      case False
      with Suc Cons.prems s0 Cons.IH [of "carry s w" j] show ?thesis
        by (simp add: b.accept_Cons carry_same a.valid_carry)
    qed
  qed
qed

end

definition valid_star :: "u32 \<times> u32 \<Rightarrow> bool" where
  "valid_star s \<longleftrightarrow> snd s = 0 \<or> snd s = 1"

definition norm_carry :: "u32 \<times> u32 \<Rightarrow> u32 \<Rightarrow> u32 \<times> u32" where
  "norm_carry s w = (let t = (w AND 0x3F) XOR (if snd s = 1 then 0x3F else 0) in (drop_bit 1 t AND 1, t AND 1))"

definition raw_carry :: "u32 \<times> u32 \<Rightarrow> u32 \<Rightarrow> u32 \<times> u32" where
  "raw_carry s w = (drop_bit 1 w AND 1, w AND 1)"

definition raw_syndrome :: "u32 \<Rightarrow> u32 \<Rightarrow> u32 \<Rightarrow> u32" where
  "raw_syndrome d29 d30 w =
     (w AND 0x3F) XOR parityBits (data24 w) d29 d30 XOR (if d30 = 1 then 0x03 else 0)"

lemma and_1_cases: "(w AND 1 :: u32) = 0 \<or> w AND 1 = 1"
  by (simp add: and_one_eq mod_2_eq_odd)

lemma complement_data24: "NOT (data24 w) AND 0xFFFFFF = data24 w XOR 0xFFFFFF"
  by (rule bit_word_eqI) (simp only: bit_data24 bit_and_iff bit_xor_iff bit_not_iff bit_mask_numerals, auto)

text \<open>Complementing all 24 data bits flips exactly \<open>D29\<close> and \<open>D30\<close>.\<close>

lemma parityBits_ones: "parityBits 0xFFFFFF 0 0 = 0x03"
  unfolding parityBits_def parityMasks_value by code_simp

lemma raw_step:
  assumes "d30 = 0 \<or> d30 = 1"
  shows "lnavRaw_loop d29 d30 (w # ws) \<longleftrightarrow> raw_syndrome d29 d30 w = 0 \<and>
    lnavRaw_loop (drop_bit 1 w AND 1) (w AND 1) ws"
proof -
  have "snd (GPSParity w d29 d30) \<longleftrightarrow> raw_syndrome d29 d30 w = 0"
    using assms
    unfolding GPSParity_def Let_def low6_mask30 data24_def [symmetric] data24_mask30 complement_data24
      raw_syndrome_def snd_conv
    by (auto simp: parityBits_xor parityBits_ones xor_zero_iff xor.assoc)
  then show ?thesis by auto
qed

abbreviation norm_accept :: "u32 \<times> u32 \<Rightarrow> u32 list \<Rightarrow> bool" where
  "norm_accept s \<equiv> lnavNormalized_loop (fst s) (snd s)"

abbreviation raw_accept :: "u32 \<times> u32 \<Rightarrow> u32 list \<Rightarrow> bool" where
  "raw_accept s \<equiv> lnavRaw_loop (fst s) (snd s)"

abbreviation norm_syn :: "u32 \<times> u32 \<Rightarrow> u32 \<Rightarrow> u32" where
  "norm_syn s \<equiv> syndrome (fst s) (snd s)"

abbreviation raw_syn :: "u32 \<times> u32 \<Rightarrow> u32 \<Rightarrow> u32" where
  "raw_syn s \<equiv> raw_syndrome (fst s) (snd s)"

lemma raw_syndrome_xor: "raw_syndrome a b (w XOR e) = raw_syndrome a b w XOR err_syndrome e"
  unfolding raw_syndrome_def err_syndrome_def data24_xor parityBits_xor low6_xor
  by (simp only: xor.assoc xor.commute xor.left_commute)

lemma valid_norm_carry: "valid_star (norm_carry s w)"
  unfolding valid_star_def norm_carry_def Let_def snd_conv by (rule and_1_cases)

lemma valid_raw_carry: "valid_star (raw_carry s w)"
  unfolding valid_star_def raw_carry_def snd_conv by (rule and_1_cases)

interpretation norm: word_chain norm_accept norm_syn norm_carry valid_star err_syndrome
proof
  show "norm_accept s (w # ws) \<longleftrightarrow> norm_syn s w = 0 \<and> norm_accept (norm_carry s w) ws" for s w ws
    by (simp only: normalized_step norm_carry_def Let_def fst_conv snd_conv)
qed (rule syndrome_xor valid_norm_carry)+

interpretation raw: word_chain raw_accept raw_syn raw_carry valid_star err_syndrome
proof
  show "raw_accept s (w # ws) \<longleftrightarrow> raw_syn s w = 0 \<and> raw_accept (raw_carry s w) ws" if "valid_star s" for s w ws
    using that by (simp only: raw_step valid_star_def raw_carry_def fst_conv snd_conv)
qed (rule raw_syndrome_xor valid_raw_carry)+

lemma raw_norm_drift:
  "raw_syn s w = norm_syn s w XOR (if snd s = 1 then 0x3C else 0)"
  "norm_syn s w = raw_syn s w XOR (if snd s = 1 then 0x3C else 0)"
  by (simp_all add: raw_syndrome_def syndrome_def xor.assoc)

lemma same_carry:
  assumes "snd s \<noteq> 1"
  shows "norm_carry s w = raw_carry s w"
proof -
  have "drop_bit 1 (w AND 0x3F) AND 1 = drop_bit 1 w AND (1 :: u32)" "(w AND 0x3F) AND 1 = w AND (1 :: u32)"
    by (rule bit_word_eqI;
        simp only: bit_and_iff bit_drop_bit_eq comp_def bit_mask_numerals bit_1_iff; auto)+
  with assms show ?thesis by (simp add: norm_carry_def raw_carry_def Let_def)
qed

interpretation norm_raw: word_chain_pair norm_accept norm_syn norm_carry valid_star err_syndrome
  raw_accept raw_syn raw_carry "\<lambda>s. snd s = 1" "0x3C"
  by (unfold_locales, rule raw_norm_drift(1), rule same_carry [symmetric], assumption, simp)

interpretation raw_norm: word_chain_pair raw_accept raw_syn raw_carry valid_star err_syndrome
  norm_accept norm_syn norm_carry "\<lambda>s. snd s = 1" "0x3C"
  by (unfold_locales, rule raw_norm_drift(2), rule same_carry, assumption, simp)

lemma column_not_pattern: "[True, True, True, True, False, False] \<notin> set (map column [0..<30])"
  unfolding column_def parityMasks_value by code_simp

lemma err_syndrome_not_pattern: "i < 30 \<Longrightarrow> err_syndrome (push_bit i 1) \<noteq> 0x3C"
proof
  assume i: "i < 30" and z: "err_syndrome (push_bit i 1) = 0x3C"
  have c: "column i ! k = bit (0x3C :: u32) (5 - k)" if "k < 6" for k
  proof -
    have "5 - (5 - k) = k" "5 - k < 6" using that by simp_all
    then show ?thesis using err_syndrome_column [OF i, of "5 - k"] unfolding z by metis
  qed
  have "column i = map (\<lambda>k. bit (0x3C :: u32) (5 - k)) [0..<6]"
    by (rule nth_equalityI) (simp, simp only: c length_map length_upt nth_map_upt column_length, simp add: c)
  then have "column i = [True, True, True, True, False, False]" by (simp add: upt_rec)
  then show False
    using column_not_pattern i by (metis atLeastLessThan_iff image_eqI list.set_map set_upt zero_le)
qed

lemma err_syndrome_xor: "err_syndrome (x XOR y) = err_syndrome x XOR err_syndrome y"
  unfolding err_syndrome_def data24_xor low6_xor parityBits_xor [of _ _ 0 0]
  by (simp only: xor.assoc xor.commute xor.left_commute)

lemma length_Stamp [simp]: "length (StampGPSLNAVParity ws) = length ws"
proof -
  have "length (stamp_loop a b ws) = length ws" for a b
    by (induction ws arbitrary: a b) (simp_all add: Let_def)
  then show ?thesis by (simp add: StampGPSLNAVParity_def)
qed

lemma stamped_word:
  assumes "p = parityBits (data24 w) d29 d30" "q = (if d30 = 1 then p XOR 0x3F else p)"
  shows "data24 (push_bit 6 (data24 w) OR q) = data24 w" "(push_bit 6 (data24 w) OR q) AND 0x3F = q"
proof -
  have "q AND 0x3F = q"
    unfolding assms by (simp add: low6_xor parityBits_low6)
  then show "data24 (push_bit 6 (data24 w) OR q) = data24 w" "(push_bit 6 (data24 w) OR q) AND 0x3F = q"
    by (rule word_parts)+
qed

lemma stamp_loop_accepted:
  "d30 = 0 \<or> d30 = 1 \<Longrightarrow> lnavNormalized_loop d29 d30 (stamp_loop d29 d30 ws) \<and>
   map data24 (stamp_loop d29 d30 ws) = map data24 ws"
proof (induction ws arbitrary: d29 d30)
  case Nil
  then show ?case by simp
next
  case (Cons w ws)
  let ?p = "parityBits (data24 w) d29 d30"
  let ?q = "if d30 = 1 then ?p XOR 0x3F else ?p"
  note w = stamped_word [OF refl refl, where w = w and ?d29.0 = d29 and ?d30.0 = d30]
  have IH: "lnavNormalized_loop a (?p AND 1) (stamp_loop a (?p AND 1) ws) \<and>
      map data24 (stamp_loop a (?p AND 1) ws) = map data24 ws" for a
    by (rule Cons.IH) (rule and_1_cases)
  have c: "?q XOR (if d30 = 1 then 0x3F else 0) = ?p" by (simp add: xor.assoc)
  have s: "syndrome d29 d30 (push_bit 6 (data24 w) OR ?q) = 0"
    unfolding syndrome_zero_iff w ..
  show ?case
    unfolding stamp_loop.simps Let_def data24_def [of w, symmetric] normalized_step list.map
    unfolding w c s using IH by simp
qed

lemma stamped_normalized: "lnavNormalizedParityOK (StampGPSLNAVParity ws)"
  using stamp_loop_accepted [of 0 0 ws] by (simp add: lnavNormalizedParityOK_def StampGPSLNAVParity_def)

lemma stamp_data24: "map data24 (StampGPSLNAVParity ws) = map data24 ws"
  using stamp_loop_accepted [of 0 0 ws] by (simp add: StampGPSLNAVParity_def)

lemma stamped_parityOK: "lnavParityOK (StampGPSLNAVParity ws)"
  by (simp add: lnavParityOK_def stamped_normalized)

section \<open>Properties\<close>

text \<open>A subframe accepted under either delivery convention is rejected, under both, as soon as
  any one of the 30 bits of any one of its words is flipped.\<close>

lemma lnavParityOK_single_bit:
  assumes "lnavParityOK ws" "i < length ws" "k < 30"
  shows "\<not> lnavParityOK (ws[i := (ws ! i) XOR push_bit k 1])"
proof -
  have v: "valid_star (0, 0)" by (simp add: valid_star_def)
  note e = err_syndrome_single [OF assms(3)] err_syndrome_not_pattern [OF assms(3)]
  from assms(1) consider "norm_accept (0, 0) ws" | "raw_accept (0, 0) ws"
    by (auto simp: lnavParityOK_def lnavNormalizedParityOK_def lnavRawParityOK_def)
  then show ?thesis
    unfolding lnavParityOK_def lnavNormalizedParityOK_def lnavRawParityOK_def
  proof cases
    case 1
    then show "\<not> (lnavNormalized_loop 0 0 (ws[i := (ws ! i) XOR push_bit k 1]) \<or>
        lnavRaw_loop 0 0 (ws[i := (ws ! i) XOR push_bit k 1]))"
      using norm.error_rejected [OF 1 v assms(2) e(1)] norm_raw.cross_rejected [OF 1 v assms(2) e] by simp
  next
    case 2
    then show "\<not> (lnavNormalized_loop 0 0 (ws[i := (ws ! i) XOR push_bit k 1]) \<or>
        lnavRaw_loop 0 0 (ws[i := (ws ! i) XOR push_bit k 1]))"
      using raw.error_rejected [OF 2 v assms(2) e(1)] raw_norm.cross_rejected [OF 2 v assms(2) e] by simp
  qed
qed

text \<open>Under the receiver-normalised convention two flipped bits in one word are detected as well.\<close>

lemma lnavNormalizedParityOK_double_bit:
  assumes "lnavNormalizedParityOK ws" "i < length ws" "k < 30" "l < 30" "k \<noteq> l"
  shows "\<not> lnavNormalizedParityOK (ws[i := (ws ! i) XOR (push_bit k 1 XOR push_bit l 1)])"
proof -
  have "err_syndrome (push_bit k 1 XOR push_bit l 1) \<noteq> 0"
    using err_syndrome_pair [OF assms(3-5)] by (simp only: err_syndrome_xor xor_zero_iff not_False_eq_True)
  then show ?thesis
    using norm.error_rejected [of "(0, 0)" ws i] assms by (simp add: lnavNormalizedParityOK_def valid_star_def)
qed

text \<open>The receiver's normalisation: a word is inverted when the previous transmitted \<open>D30\<close> was one.\<close>

primrec delivered :: "u32 \<Rightarrow> u32 list \<Rightarrow> u32 list" where
  "delivered d30 [] = []"
| "delivered d30 (tx # txs) = (tx XOR (if d30 = 1 then 0x3FFFFFFF else 0)) # delivered (tx AND 1) txs"

lemma data24_invert: "data24 (w XOR 0x3FFFFFFF) = data24 w XOR 0xFFFFFF"
  by (rule bit_word_eqI) (simp only: bit_data24 bit_xor_iff bit_mask_numerals, auto)

lemma low6_invert: "(w XOR 0x3FFFFFFF) AND 0x3F = (w AND 0x3F) XOR (0x3F :: u32)"
  by (rule bit_word_eqI) (simp only: bit_and_iff bit_xor_iff bit_mask_numerals, auto)

lemma syndrome_delivered:
  "norm_syn s (w XOR (if snd s = 1 then 0x3FFFFFFF else 0)) = raw_syn s w"
  by (simp add: syndrome_def raw_syndrome_def data24_invert low6_invert parityBits_xor parityBits_ones
      xor.assoc xor.left_commute xor.commute)

lemma carry_delivered:
  "norm_carry s (w XOR (if snd s = 1 then 0x3FFFFFFF else 0)) = raw_carry s w"
proof (cases "snd s = 1")
  case True
  then have "norm_carry s (w XOR (if snd s = 1 then 0x3FFFFFFF else 0)) = norm_carry (0, 0) w"
    by (simp add: norm_carry_def low6_invert xor.assoc)
  also have "\<dots> = raw_carry (0, 0) w" by (rule same_carry) simp
  finally show ?thesis by (simp add: raw_carry_def)
next
  case False
  then show ?thesis using same_carry [of s w] by simp
qed

lemma delivered_loop:
  "valid_star s \<Longrightarrow> norm_accept s (delivered (snd s) txs) \<longleftrightarrow> raw_accept s txs"
proof (induction txs arbitrary: s)
  case Nil
  then show ?case by simp
next
  case (Cons w txs)
  have "snd (raw_carry s w) = w AND 1" by (simp add: raw_carry_def)
  with Cons.IH [OF valid_raw_carry [of s w]]
  show ?case
    unfolding delivered.simps norm.accept_Cons [OF Cons.prems] raw.accept_Cons [OF Cons.prems]
      syndrome_delivered carry_delivered by simp
qed

text \<open>The two acceptance checks agree about the broadcast: the words a normalising receiver
  delivers pass the normalised check exactly when the transmitted words pass the raw one.\<close>

lemma normalized_iff_raw: "lnavNormalizedParityOK (delivered 0 txs) \<longleftrightarrow> lnavRawParityOK txs"
  using delivered_loop [of "(0, 0)" txs]
  by (simp add: lnavNormalizedParityOK_def lnavRawParityOK_def valid_star_def)

text \<open>Stamping writes parity every word of which the receiver-normalised check accepts, and
  leaves all data bits of the subframe as they were.\<close>

lemma StampGPSLNAVParity_ok:
  "lnavNormalizedParityOK (StampGPSLNAVParity ws) \<and> map data24 (StampGPSLNAVParity ws) = map data24 ws"
  using stamp_loop_accepted [of 0 0 ws] by (simp add: lnavNormalizedParityOK_def StampGPSLNAVParity_def)

end
