(* ===== verification/BitReader.thy ===== *)
theory BitReader
  imports Prelude
begin

text \<open>
  \<^verbatim>\<open>gnss/frame/bitreader.go\<close>: the bounds-checked, most-significant-bit-first field reader every
  decoder goes through. The reader is a record; each method is a function returning a value or an
  error. Go's 64-bit \<^verbatim>\<open>int\<close> addition in the bounds check of \<^verbatim>\<open>Bits\<close> is kept with its wrap-around,
  and a field_bits read outside the data is the explicit outcome \<open>IndexPanic\<close>, which the lemmas below
  exclude. The specification of each method is in terms of the bit list of the data.
\<close>

section \<open>The reader and its methods\<close>

record bit_reader =
  br_data :: "u8 list"
  br_nbits :: int

definition NewBitReader :: "u8 list \<Rightarrow> bit_reader" where
  "NewBitReader data = \<lparr>br_data = data, br_nbits = int (length data) * 8\<rparr>"

definition NewBitReaderN :: "u8 list \<Rightarrow> int \<Rightarrow> bit_reader" where
  "NewBitReaderN data nbits =
     (let mx = int (length data) * 8;
          nb = (if nbits < 0 then 0 else nbits);
          nb' = (if nb > mx then mx else nb)
      in \<lparr>br_data = data, br_nbits = nb'\<rparr>)"

definition Len :: "bit_reader \<Rightarrow> int" where
  "Len r = br_nbits r"

text \<open>The loop of \<^verbatim>\<open>Bits\<close>: \<open>k\<close> iterations remain, the loop variable is \<open>i\<close>.\<close>

primrec Bits_loop :: "u8 list \<Rightarrow> int \<Rightarrow> nat \<Rightarrow> int \<Rightarrow> u64 \<Rightarrow> frame_error + u64" where
  "Bits_loop data start 0 i v = Inr v"
| "Bits_loop data start (Suc k) i v =
     (let p = start + i in
      case index data (p div 8) of
        Inl e \<Rightarrow> Inl e
      | Inr byte \<Rightarrow>
          (let b = drop_bit (7 - nat (p mod 8)) byte AND 1
           in Bits_loop data start k (i + 1) (push_bit 1 v OR ucast b)))"

definition Bits :: "bit_reader \<Rightarrow> int \<Rightarrow> int \<Rightarrow> frame_error + u64" where
  "Bits r start n =
     (if n < 0 \<or> n > 64 \<or> start < 0 \<or> start > br_nbits r \<or> wrap64 (start + n) > br_nbits r
      then Inl ErrOutOfRange
      else Bits_loop (br_data r) start (nat n) 0 0)"

text \<open>\<^verbatim>\<open>int64(u<<(64-n)) >> (64-n)\<close>: an arithmetic shift back of the left-aligned field.\<close>

definition sign_extend :: "int \<Rightarrow> u64 \<Rightarrow> int" where
  "sign_extend n u = sint (signed_drop_bit (nat (64 - n)) (push_bit (nat (64 - n)) u))"

definition Signed :: "bit_reader \<Rightarrow> int \<Rightarrow> int \<Rightarrow> frame_error + int" where
  "Signed r start n =
     (case Bits r start n of
        Inl e \<Rightarrow> Inl e
      | Inr u \<Rightarrow> if n = 0 then Inr 0 else Inr (sign_extend n u))"

definition SignMag :: "bit_reader \<Rightarrow> int \<Rightarrow> int \<Rightarrow> frame_error + int" where
  "SignMag r start n =
     (case Bits r start n of
        Inl e \<Rightarrow> Inl e
      | Inr u \<Rightarrow>
          if n = 0 then Inr 0
          else (let mag = sint (u AND (push_bit (nat (n - 1)) 1 - 1))
                in if u AND push_bit (nat (n - 1)) 1 \<noteq> 0 then Inr (- mag) else Inr mag))"

definition Concat :: "bit_reader \<Rightarrow> int \<Rightarrow> int \<Rightarrow> int \<Rightarrow> int \<Rightarrow> frame_error + u64" where
  "Concat r hiStart hiN loStart loN =
     (if hiN + loN > 64 then Inl ErrOutOfRange
      else case Bits r hiStart hiN of
        Inl e \<Rightarrow> Inl e
      | Inr hi \<Rightarrow>
          (case Bits r loStart loN of
             Inl e \<Rightarrow> Inl e
           | Inr lo \<Rightarrow> Inr (push_bit (nat loN) hi OR lo)))"

definition ConcatSigned :: "bit_reader \<Rightarrow> int \<Rightarrow> int \<Rightarrow> int \<Rightarrow> int \<Rightarrow> frame_error + int" where
  "ConcatSigned r hiStart hiN loStart loN =
     (case Concat r hiStart hiN loStart loN of
        Inl e \<Rightarrow> Inl e
      | Inr u \<Rightarrow> (let n = hiN + loN in if n = 0 then Inr 0 else Inr (sign_extend n u)))"

text \<open>
  The decoders discard the error of a read (\<^verbatim>\<open>v, _ := r.Bits(p, n)\<close>), which leaves the zero
  value in place of a failed read.
\<close>

definition getu :: "bit_reader \<Rightarrow> int \<Rightarrow> int \<Rightarrow> u64" where
  "getu r p n = (case Bits r p n of Inl _ \<Rightarrow> 0 | Inr v \<Rightarrow> v)"

definition gets :: "bit_reader \<Rightarrow> int \<Rightarrow> int \<Rightarrow> int" where
  "gets r p n = (case Signed r p n of Inl _ \<Rightarrow> 0 | Inr v \<Rightarrow> v)"

definition getm :: "bit_reader \<Rightarrow> int \<Rightarrow> int \<Rightarrow> int" where
  "getm r p n = (case SignMag r p n of Inl _ \<Rightarrow> 0 | Inr v \<Rightarrow> v)"

definition getcu :: "bit_reader \<Rightarrow> int \<Rightarrow> int \<Rightarrow> int \<Rightarrow> int \<Rightarrow> u64" where
  "getcu r a b c d = (case Concat r a b c d of Inl _ \<Rightarrow> 0 | Inr v \<Rightarrow> v)"

definition getcs :: "bit_reader \<Rightarrow> int \<Rightarrow> int \<Rightarrow> int \<Rightarrow> int \<Rightarrow> int" where
  "getcs r a b c d = (case ConcatSigned r a b c d of Inl _ \<Rightarrow> 0 | Inr v \<Rightarrow> v)"

section \<open>Well-formed readers\<close>

text \<open>
  The limit never exceeds the data, and the data is shorter than half the address space, as every
  Go slice is. Both constructors establish it.
\<close>

definition wf_reader :: "bit_reader \<Rightarrow> bool" where
  "wf_reader r \<longleftrightarrow> 0 \<le> br_nbits r \<and> br_nbits r \<le> 8 * int (length (br_data r))
     \<and> 8 * int (length (br_data r)) < 2 ^ 62"

lemma wf_NewBitReader: "8 * int (length data) < 2 ^ 62 \<Longrightarrow> wf_reader (NewBitReader data)"
  by (simp add: wf_reader_def NewBitReader_def)

lemma wf_NewBitReaderN: "8 * int (length data) < 2 ^ 62 \<Longrightarrow> wf_reader (NewBitReaderN data n)"
  by (simp add: wf_reader_def NewBitReaderN_def Let_def)

definition in_range :: "bit_reader \<Rightarrow> int \<Rightarrow> int \<Rightarrow> bool" where
  "in_range r start n \<longleftrightarrow> 0 \<le> start \<and> 0 \<le> n \<and> n \<le> 64 \<and> start + n \<le> br_nbits r"

text \<open>The bits a read covers.\<close>

definition field_bits :: "bit_reader \<Rightarrow> int \<Rightarrow> int \<Rightarrow> bool list" where
  "field_bits r start n = take (nat n) (drop (nat start) (bits_of (br_data r)))"

lemma length_field_bits: "wf_reader r \<Longrightarrow> in_range r start n \<Longrightarrow> length (field_bits r start n) = nat n"
  by (auto simp: field_bits_def wf_reader_def in_range_def)

section \<open>Bits computes the unsigned value of the slice\<close>

lemma shift_in_bit: "push_bit 1 v OR of_bool b = 2 * v + (of_bool b :: u64)"
proof -
  have "push_bit 1 v AND (of_bool b :: u64) = 0"
    by (rule bit_word_eqI) (auto simp: bit_simps bit_0)
  then have "push_bit 1 v OR of_bool b = push_bit 1 v + (of_bool b :: u64)"
    by (simp add: disjunctive_add_eq_or)
  then show ?thesis by (simp add: push_bit_eq_mult mult.commute)
qed

lemma take_drop_Suc: "p < length xs \<Longrightarrow> take (Suc k) (drop p xs) = xs ! p # take k (drop (Suc p) xs)"
  by (simp add: Cons_nth_drop_Suc [symmetric])

lemma byte_bit_value:
  "ucast (drop_bit m byte AND 1 :: u8) = (of_bool (bit byte m) :: u64)"
  by (rule bit_word_eqI) (auto simp: bit_simps bit_0)

lemma Bits_loop_fold:
  assumes "0 \<le> start" "0 \<le> i" "start + i + int k \<le> 8 * int (length data)"
  shows "Bits_loop data start k i v =
    Inr (foldl (\<lambda>a b. 2 * a + of_bool b) v (take k (drop (nat (start + i)) (bits_of data))))"
  using assms
proof (induction k arbitrary: i v)
  case 0
  then show ?case by simp
next
  case (Suc k)
  define p where "p = nat (start + i)"
  have p: "start + i = int p" "p < 8 * length data"
    using Suc.prems by (simp_all add: p_def)
  then have "0 \<le> int p div 8" "int p div 8 < int (length data)" by auto
  then have i: "index data ((start + i) div 8) = Inr (data ! (p div 8))"
    using p by (simp add: nat_div_distrib)
  have m: "nat ((start + i) mod 8) = p mod 8"
    using p by (simp add: nat_mod_distrib)
  have IH: "Bits_loop data start k (i + 1) w =
      Inr (foldl (\<lambda>a b. 2 * a + of_bool b) w (take k (drop (Suc p) (bits_of data))))" for w
    using Suc.IH [of "i + 1" w] Suc.prems by (simp add: p_def nat_add_distrib algebra_simps)
  have t: "take (Suc k) (drop p (bits_of data)) =
      bit (data ! (p div 8)) (7 - p mod 8) # take k (drop (Suc p) (bits_of data))"
    using p by (simp add: take_drop_Suc nth_bits_of)
  show ?case
    by (simp only: Bits_loop.simps i m Let_def sum.case IH byte_bit_value shift_in_bit t
        p_def [symmetric] foldl_Cons)
qed

lemma foldl_of_nat:
  "foldl (\<lambda>a b. 2 * a + of_bool b) (of_nat x) bs =
   (of_nat (foldl (\<lambda>a b. 2 * a + of_bool b) x bs) :: u64)"
proof (induction bs arbitrary: x)
  case Nil
  then show ?case by simp
next
  case (Cons b bs)
  have "2 * of_nat x + of_bool b = (of_nat (2 * x + of_bool b) :: u64)" by simp
  with Cons show ?case by (simp only: foldl_Cons)
qed

lemma no_overflow: "wf_reader r \<Longrightarrow> in_range r start n \<Longrightarrow> wrap64 (start + n) = start + n"
  by (rule wrap64_id) (auto simp: wf_reader_def in_range_def)

lemma Bits_value:
  assumes "wf_reader r" "in_range r start n"
  shows "Bits r start n = Inr (of_nat (nat_of_bits (field_bits r start n)))"
proof -
  have guard: "\<not> (n < 0 \<or> n > 64 \<or> start < 0 \<or> start > br_nbits r \<or> wrap64 (start + n) > br_nbits r)"
    using assms no_overflow [OF assms] by (auto simp: in_range_def)
  have "Bits_loop (br_data r) start (nat n) 0 0 =
      Inr (foldl (\<lambda>a b. 2 * a + of_bool b) 0 (field_bits r start n))"
    using assms by (subst Bits_loop_fold) (auto simp: wf_reader_def in_range_def field_bits_def)
  also have "foldl (\<lambda>a b. 2 * a + of_bool b) 0 (field_bits r start n) =
      (of_nat (nat_of_bits (field_bits r start n)) :: u64)"
    using foldl_of_nat [of 0] by (simp add: nat_of_bits_def)
  finally show ?thesis using guard by (simp add: Bits_def)
qed

text \<open>
  The guard is exactly the range condition, wrap-around included: for any 64-bit arguments a read
  outside the frame is an error, never an access outside the slice.
\<close>

lemma Bits_out_of_range:
  assumes "wf_reader r" "\<not> in_range r start n"
  shows "Bits r start n = Inl ErrOutOfRange"
proof -
  have "wrap64 (start + n) = start + n"
    if "0 \<le> start" "start \<le> br_nbits r" "0 \<le> n" "n \<le> 64"
    using that assms(1) by (intro wrap64_id) (auto simp: wf_reader_def)
  with assms(2) show ?thesis by (auto simp: Bits_def in_range_def)
qed

lemma Bits_no_panic: "wf_reader r \<Longrightarrow> Bits r start n \<noteq> Inl IndexPanic"
  by (cases "in_range r start n") (simp_all add: Bits_value Bits_out_of_range)

section \<open>The signed readers\<close>

lemma unat_field_bits:
  assumes "wf_reader r" "in_range r start n"
  shows "unat (of_nat (nat_of_bits (field_bits r start n)) :: u64) = nat_of_bits (field_bits r start n)"
    and "nat_of_bits (field_bits r start n) < 2 ^ nat n"
proof -
  have "length (field_bits r start n) = nat n" "nat n \<le> 64"
    using assms by (auto simp: length_field_bits in_range_def)
  then have "nat_of_bits (field_bits r start n) < 2 ^ nat n" and "nat_of_bits (field_bits r start n) < 2 ^ 64"
    using nat_of_bits_less_exp [of _ 64] nat_of_bits_less [of "field_bits r start n"] by metis+
  then show "unat (of_nat (nat_of_bits (field_bits r start n)) :: u64) = nat_of_bits (field_bits r start n)"
    and "nat_of_bits (field_bits r start n) < 2 ^ nat n"
    by (simp_all add: unat_of_nat)
qed

text \<open>Shifting a field to the top of the word and arithmetically back sign-extends it.\<close>

lemma sign_extend_eq:
  assumes "0 < n" "n \<le> 64"
  shows "sign_extend n u = signed_take_bit (nat n - 1) (uint u)"
proof -
  define k where "k = nat (64 - n)"
  have k: "k < 64" "nat n - 1 = 63 - k" using assms by (auto simp: k_def)
  have "sint (signed_drop_bit k (push_bit k u)) = drop_bit k (sint (push_bit k u))"
    by (rule sint_signed_drop_bit_eq)
  also have "\<dots> = drop_bit k (signed_take_bit 63 (uint (push_bit k u)))"
    by (simp add: sint_uint)
  also have "\<dots> = signed_take_bit (63 - k) (uint u)"
    using k by (intro bit_eqI) (auto simp: bit_simps min_def)
  finally show ?thesis using k by (simp add: sign_extend_def k_def [symmetric])
qed

lemma signed_take_bit_nat_of_bits:
  assumes "bs \<noteq> []"
  shows "signed_take_bit (length bs - 1) (int (nat_of_bits bs)) = int_of_bits bs"
proof -
  from assms obtain s r where bs: "bs = s # r" by (cases bs) auto
  have n: "int (nat_of_bits bs) < 2 ^ length bs"
    using nat_of_bits_less [of bs] by (metis of_nat_less_iff of_nat_numeral of_nat_power)
  have r: "int (nat_of_bits r) < 2 ^ length r"
    using nat_of_bits_less [of r] by (metis of_nat_less_iff of_nat_numeral of_nat_power)
  have "bit (int (nat_of_bits bs)) (length r) \<longleftrightarrow> s"
    using r by (simp add: bs nat_of_bits_Cons bit_iff_odd div_add1_eq)
  moreover have "take_bit (Suc (length r)) (int (nat_of_bits bs)) = int (nat_of_bits bs)"
    using n by (intro take_bit_int_eq_self) (simp_all add: bs)
  ultimately show ?thesis
    by (simp add: bs signed_take_bit_eq_take_bit_minus int_of_bits_def nat_of_bits_Cons)
qed

lemma Signed_value:
  assumes "wf_reader r" "in_range r start n"
  shows "Signed r start n = Inr (int_of_bits (field_bits r start n))"
proof (cases "n = 0")
  case True
  with assms show ?thesis
    by (simp add: Signed_def Bits_value field_bits_def int_of_bits_def)
next
  case False
  with assms have n: "0 < n" "n \<le> 64" and len: "length (field_bits r start n) = nat n"
    by (auto simp: in_range_def length_field_bits)
  then have "field_bits r start n \<noteq> []" by auto
  then have "signed_take_bit (nat n - 1) (int (nat_of_bits (field_bits r start n))) = int_of_bits (field_bits r start n)"
    using signed_take_bit_nat_of_bits len by metis
  moreover have "uint (of_nat (nat_of_bits (field_bits r start n)) :: u64) = int (nat_of_bits (field_bits r start n))"
    using unat_field_bits(1) [OF assms] by (metis uint_nat)
  ultimately show ?thesis
    using False n assms by (simp add: Signed_def Bits_value sign_extend_eq)
qed

text \<open>Sign-magnitude: the top bit of the field is the sign, the rest the magnitude.\<close>

lemma and_mask_word: "u AND (2 ^ m - 1) = take_bit m (u :: u64)"
  by (simp add: take_bit_eq_mask mask_eq_exp_minus_1)

lemma bit_top_nat_of_bits: "bit (nat_of_bits (s # f)) (length f) \<longleftrightarrow> s"
  using nat_of_bits_less [of f] by (simp add: bit_iff_odd nat_of_bits_Cons div_add1_eq)

lemma SignMag_value:
  assumes "wf_reader r" "in_range r start n"
  shows "SignMag r start n = Inr (signmag_of_bits (field_bits r start n))"
proof (cases "n = 0")
  case True
  with assms show ?thesis
    by (simp add: SignMag_def Bits_value field_bits_def signmag_of_bits_def)
next
  case False
  with assms have len: "length (field_bits r start n) = nat n" and n: "0 < n" "n \<le> 64"
    by (auto simp: length_field_bits in_range_def)
  then obtain s f where f: "field_bits r start n = s # f" "length f = nat (n - 1)" "nat (n - 1) < 64"
    by (cases "field_bits r start n") auto
  let ?u = "of_nat (nat_of_bits (s # f)) :: u64"
  have lf: "nat_of_bits f < 2 ^ nat (n - 1)"
    using nat_of_bits_less [of f] f by simp
  then have "nat_of_bits f < 2 ^ 63" and "nat_of_bits (s # f) < 2 ^ 64"
    using f nat_of_bits_less_exp [of f 63] nat_of_bits_less_exp [of "s # f" 64] by auto
  then have uu: "unat ?u = nat_of_bits (s # f)" by (simp add: unat_of_nat)
  have b: "bit ?u (nat (n - 1)) \<longleftrightarrow> s"
    using f bit_top_nat_of_bits [of s f] by (simp only: bit_of_nat_iff possible_bit_word) simp
  have "unat (take_bit (nat (n - 1)) ?u) = nat_of_bits f"
  proof -
    have "unat (take_bit (nat (n - 1)) ?u) = take_bit (nat (n - 1)) (nat_of_bits (s # f))"
      by (simp only: unsigned_take_bit_eq uu)
    then show ?thesis using f lf by (simp add: take_bit_eq_mod nat_of_bits_Cons)
  qed
  then have m: "sint (take_bit (nat (n - 1)) ?u) = int (nat_of_bits f)"
    using \<open>nat_of_bits f < 2 ^ 63\<close>
    by (simp add: sint_uint uint_nat signed_take_bit_int_eq_self)
  show ?thesis
    using False assms f b m
    by (simp add: SignMag_def Bits_value signmag_of_bits_def and_mask_word and_exp_eq_0_iff_not_bit Let_def)
qed

section \<open>Split fields\<close>

lemma Concat_value:
  assumes "wf_reader r" "in_range r hiStart hiN" "in_range r loStart loN" "hiN + loN \<le> 64"
  shows "Concat r hiStart hiN loStart loN =
    Inr (of_nat (nat_of_bits (field_bits r hiStart hiN @ field_bits r loStart loN)))"
proof -
  let ?h = "nat_of_bits (field_bits r hiStart hiN)" and ?l = "nat_of_bits (field_bits r loStart loN)"
  let ?k = "nat loN"
  have len: "length (field_bits r loStart loN) = ?k"
    using assms by (simp add: length_field_bits)
  have l: "?l < 2 ^ ?k" using unat_field_bits(2) [OF assms(1,3)] .
  have disj: "push_bit ?k (of_nat ?h) AND (of_nat ?l :: u64) = 0"
  proof (rule bit_word_eqI)
    fix m
    have "\<not> bit ?l m" if "?k \<le> m"
      using l that by (metis bit_take_bit_iff not_less take_bit_nat_eq_self)
    then show "bit (push_bit ?k (of_nat ?h) AND (of_nat ?l :: u64)) m = bit (0 :: u64) m"
      by (auto simp: bit_simps bit_of_nat_iff)
  qed
  then have "push_bit ?k (of_nat ?h) OR (of_nat ?l :: u64) = push_bit ?k (of_nat ?h) + of_nat ?l"
    by (simp add: disjunctive_add_eq_or)
  also have "\<dots> = of_nat (?h * 2 ^ ?k + ?l)"
    by (simp add: push_bit_eq_mult)
  finally show ?thesis
    using assms len by (simp add: Concat_def Bits_value nat_of_bits_append)
qed

lemma ConcatSigned_value:
  assumes "wf_reader r" "in_range r hiStart hiN" "in_range r loStart loN" "hiN + loN \<le> 64"
  shows "ConcatSigned r hiStart hiN loStart loN =
    Inr (int_of_bits (field_bits r hiStart hiN @ field_bits r loStart loN))"
proof (cases "hiN + loN = 0")
  case True
  with assms have "hiN = 0" "loN = 0" by (auto simp: in_range_def)
  with assms show ?thesis
    by (simp add: ConcatSigned_def Concat_value field_bits_def int_of_bits_def)
next
  case False
  let ?bs = "field_bits r hiStart hiN @ field_bits r loStart loN"
  have n: "0 < hiN + loN" "nat (hiN + loN) = length ?bs"
    using False assms by (auto simp: in_range_def length_field_bits nat_add_distrib)
  then have "?bs \<noteq> []" "length ?bs \<le> 64" using assms(4) by auto
  then have "uint (of_nat (nat_of_bits ?bs) :: u64) = int (nat_of_bits ?bs)"
    using nat_of_bits_less_exp [of ?bs 64] by (simp add: uint_nat unat_of_nat)
  then have "sign_extend (hiN + loN) (of_nat (nat_of_bits ?bs)) = int_of_bits ?bs"
    using n assms(4) \<open>?bs \<noteq> []\<close> signed_take_bit_nat_of_bits [of ?bs]
    by (simp only: sign_extend_eq not_False_eq_True simp_thms)
  then show ?thesis
    using False assms by (simp add: ConcatSigned_def Concat_value Let_def)
qed

section \<open>What the decoders see\<close>

lemma uint_getu:
  "wf_reader r \<Longrightarrow> in_range r p n \<Longrightarrow> uint (getu r p n) = int (nat_of_bits (field_bits r p n))"
  using unat_field_bits(1) [of r p n] by (simp add: getu_def Bits_value uint_nat)

lemma gets_value: "wf_reader r \<Longrightarrow> in_range r p n \<Longrightarrow> gets r p n = int_of_bits (field_bits r p n)"
  by (simp add: gets_def Signed_value)

lemma getm_value: "wf_reader r \<Longrightarrow> in_range r p n \<Longrightarrow> getm r p n = signmag_of_bits (field_bits r p n)"
  by (simp add: getm_def SignMag_value)

lemma getcs_value:
  "wf_reader r \<Longrightarrow> in_range r a b \<Longrightarrow> in_range r c d \<Longrightarrow> b + d \<le> 64 \<Longrightarrow>
   getcs r a b c d = int_of_bits (field_bits r a b @ field_bits r c d)"
  by (simp add: getcs_def ConcatSigned_value)

lemma uint_getcu:
  assumes "wf_reader r" "in_range r a b" "in_range r c d" "b + d \<le> 64"
  shows "uint (getcu r a b c d) = int (nat_of_bits (field_bits r a b @ field_bits r c d))"
proof -
  have "length (field_bits r a b @ field_bits r c d) \<le> 64"
    using assms by (auto simp: length_field_bits in_range_def)
  then have "nat_of_bits (field_bits r a b @ field_bits r c d) < 2 ^ 64"
    by (rule nat_of_bits_less_exp)
  with assms show ?thesis by (simp add: getcu_def Concat_value uint_nat unat_of_nat)
qed

lemma uint_getu_less: "wf_reader r \<Longrightarrow> 0 \<le> n \<Longrightarrow> uint (getu r p n) < 2 ^ nat n"
proof (cases "in_range r p n")
  case True
  assume "wf_reader r"
  then have "nat_of_bits (field_bits r p n) < 2 ^ nat n"
    using True by (rule unat_field_bits(2))
  with True \<open>wf_reader r\<close> show ?thesis
    by (simp only: uint_getu) (metis of_nat_less_iff of_nat_numeral of_nat_power)
next
  case False
  assume "wf_reader r"
  with False show ?thesis by (simp add: getu_def Bits_out_of_range)
qed

section \<open>Reading a frame given as a bit list\<close>

text \<open>
  A reader \<^emph>\<open>reads\<close> the bit list \<open>B\<close> when its limit is the length of \<open>B\<close> and its data starts with \<open>B\<close>.
  Every read inside the limit is then a function of a slice of \<open>B\<close>.
\<close>

definition bslice :: "nat \<Rightarrow> nat \<Rightarrow> bool list \<Rightarrow> bool list" where
  "bslice p n B = take n (drop p B)"

definition reads :: "bit_reader \<Rightarrow> bool list \<Rightarrow> bool" where
  "reads r B \<longleftrightarrow> wf_reader r \<and> br_nbits r = int (length B) \<and> take (length B) (bits_of (br_data r)) = B"

lemma length_bslice [simp]: "p + n \<le> length B \<Longrightarrow> length (bslice p n B) = n"
  by (simp add: bslice_def)

lemma reads_field:
  assumes "reads r B" "0 \<le> p" "0 \<le> n" "n \<le> 64" "p + n \<le> int (length B)"
  shows "wf_reader r" "in_range r p n" "field_bits r p n = bslice (nat p) (nat n) B"
proof -
  show "wf_reader r" "in_range r p n" using assms by (auto simp: reads_def in_range_def)
  have "nat p + nat n \<le> length B" using assms by linarith
  then have "take (nat n) (drop (nat p) (take (length B) (bits_of (br_data r)))) =
      take (nat n) (drop (nat p) (bits_of (br_data r)))"
    by (simp add: take_drop min_absorb1)
  with assms(1) show "field_bits r p n = bslice (nat p) (nat n) B"
    by (simp add: field_bits_def bslice_def reads_def)
qed

lemma reads_getu:
  "reads r B \<Longrightarrow> 0 \<le> p \<Longrightarrow> 0 \<le> n \<Longrightarrow> n \<le> 64 \<Longrightarrow> p + n \<le> int (length B) \<Longrightarrow>
   getu r p n = of_nat (nat_of_bits (bslice (nat p) (nat n) B))"
  using reads_field [of r B p n] by (simp add: getu_def Bits_value)

lemma reads_gets:
  "reads r B \<Longrightarrow> 0 \<le> p \<Longrightarrow> 0 \<le> n \<Longrightarrow> n \<le> 64 \<Longrightarrow> p + n \<le> int (length B) \<Longrightarrow>
   gets r p n = int_of_bits (bslice (nat p) (nat n) B)"
  using reads_field [of r B p n] by (simp add: gets_value)

lemma reads_getm:
  "reads r B \<Longrightarrow> 0 \<le> p \<Longrightarrow> 0 \<le> n \<Longrightarrow> n \<le> 64 \<Longrightarrow> p + n \<le> int (length B) \<Longrightarrow>
   getm r p n = signmag_of_bits (bslice (nat p) (nat n) B)"
  using reads_field [of r B p n] by (simp add: getm_value)

lemma reads_getcs:
  assumes "reads r B" "0 \<le> a" "0 \<le> b" "b \<le> 64" "a + b \<le> int (length B)"
    and "0 \<le> c" "0 \<le> d" "d \<le> 64" "c + d \<le> int (length B)" "b + d \<le> 64"
  shows "getcs r a b c d = int_of_bits (bslice (nat a) (nat b) B @ bslice (nat c) (nat d) B)"
  using reads_field [OF assms(1-5)] reads_field [OF assms(1) assms(6-9)] assms(10)
  by (simp add: getcs_value)

lemma reads_getcu:
  assumes "reads r B" "0 \<le> a" "0 \<le> b" "b \<le> 64" "a + b \<le> int (length B)"
    and "0 \<le> c" "0 \<le> d" "d \<le> 64" "c + d \<le> int (length B)" "b + d \<le> 64"
  shows "getcu r a b c d = of_nat (nat_of_bits (bslice (nat a) (nat b) B @ bslice (nat c) (nat d) B))"
  using reads_field [OF assms(1-5)] reads_field [OF assms(1) assms(6-9)] assms(10)
  by (simp add: getcu_def Concat_value)

lemmas reads_simps = reads_getu reads_gets reads_getm reads_getcs reads_getcu

text \<open>Comparing a field with a number is comparing the number of its bits.\<close>

lemma word_of_bits:
  assumes "length bs \<le> 64"
  shows "uint (of_nat (nat_of_bits bs) :: u64) = int (nat_of_bits bs)"
  using nat_of_bits_less_exp [OF assms] by (simp add: uint_nat unat_of_nat)

lemma bslice_append:
  "bslice p n (xs @ ys) = (if length xs \<le> p then bslice (p - length xs) n ys
     else if p + n \<le> length xs then bslice p n xs
     else bslice p (length xs - p) xs @ bslice 0 (n - (length xs - p)) ys)"
  by (auto simp: bslice_def not_le)

lemma bslice_all: "length xs = n \<Longrightarrow> bslice 0 n xs = xs"
  by (simp add: bslice_def)

lemma bslice_0 [simp]: "bslice p 0 xs = []"
  by (simp add: bslice_def)

lemma uint_of_nat_less: "x < 2 ^ 64 \<Longrightarrow> uint (of_nat x :: u64) = int x"
  by (simp add: uint_nat unat_of_nat)

lemma reads_NewBitReaderN:
  assumes "bits_of data = B @ rest" "8 * int (length data) < 2 ^ 62" "n = int (length B)"
  shows "reads (NewBitReaderN data n) B"
proof -
  have l: "length B \<le> 8 * length data"
    using assms(1) by (metis length_append length_bits_of le_add1)
  then have "br_nbits (NewBitReaderN data n) = n" "br_data (NewBitReaderN data n) = data"
    using assms(3) by (simp_all add: NewBitReaderN_def Let_def)
  then show ?thesis
    using assms wf_NewBitReaderN [of data n] by (simp add: reads_def)
qed

lemma reads_NewBitReader:
  assumes "bits_of data = B" "8 * int (length data) < 2 ^ 62"
  shows "reads (NewBitReader data) B"
  using assms wf_NewBitReader [of data] by (auto simp: reads_def NewBitReader_def)

section \<open>Properties\<close>

text \<open>A read of \<open>n\<close> bits at \<open>start\<close> returns the unsigned value of exactly those bits when they lie
  inside the buffer and \<open>n\<close> is between 0 and 64, and \<open>ErrOutOfRange\<close> in every other case, whatever the
  arguments: the bounds check is not defeated by overflow and no read leaves the slice.\<close>

lemma Bits_spec:
  assumes "8 * int (length data) < 2 ^ 62"
  shows "Bits (NewBitReader data) start n =
    (if 0 \<le> start \<and> 0 \<le> n \<and> n \<le> 64 \<and> start + n \<le> 8 * int (length data)
     then Inr (of_nat (nat_of_bits (take (nat n) (drop (nat start) (bits_of data)))))
     else Inl ErrOutOfRange)"
  using Bits_value [OF wf_NewBitReader [OF assms], of start n]
    Bits_out_of_range [OF wf_NewBitReader [OF assms], of start n]
  by (auto simp: in_range_def field_bits_def NewBitReader_def)

lemma field_bits_write_bits:
  assumes "p + length bs \<le> 8 * length buf"
  shows "field_bits (NewBitReader (write_bits buf p bs)) (int p) (int (length bs)) = bs"
  using assms by (simp add: field_bits_def NewBitReader_def bits_of_write_bits splice_at_slice)

lemma in_range_write_bits:
  "p + length bs \<le> 8 * length buf \<Longrightarrow> length bs \<le> 64 \<Longrightarrow>
   in_range (NewBitReader (write_bits buf p bs)) (int p) (int (length bs))"
  by (auto simp: in_range_def NewBitReader_def)

lemma wf_write_bits:
  "8 * int (length buf) < 2 ^ 62 \<Longrightarrow> wf_reader (NewBitReader (write_bits buf p bs))"
  by (rule wf_NewBitReader) simp

text \<open>A two's-complement field of up to 64 bits written into any buffer at any bit position is
  read back by \<open>Signed\<close> as the number that was written.\<close>

lemma Signed_roundtrip:
  assumes "8 * int (length buf) < 2 ^ 62" "p + n \<le> 8 * length buf" "0 < n" "n \<le> 64"
    and "- (2 ^ (n - 1)) \<le> v" "v < 2 ^ (n - 1)"
  shows "Signed (NewBitReader (write_bits buf p (sbits_enc n v))) (int p) (int n) = Inr v"
  using assms Signed_value [OF wf_write_bits in_range_write_bits, of buf p "sbits_enc n v"]
    field_bits_write_bits [of p "sbits_enc n v" buf] by simp

text \<open>A field split in two parts is read by \<open>ConcatSigned\<close> as the two's-complement number of the
  joined bits, most significant part first, and by \<open>Concat\<close> as their unsigned number.\<close>

lemma Concat_spec:
  assumes "8 * int (length data) < 2 ^ 62"
    and "0 \<le> a" "0 \<le> m" "a + m \<le> 8 * int (length data)"
    and "0 \<le> b" "0 \<le> n" "b + n \<le> 8 * int (length data)" "m + n \<le> 64"
    and "bs = take (nat m) (drop (nat a) (bits_of data)) @ take (nat n) (drop (nat b) (bits_of data))"
  shows "Concat (NewBitReader data) a m b n = Inr (of_nat (nat_of_bits bs)) \<and>
    ConcatSigned (NewBitReader data) a m b n = Inr (int_of_bits bs)"
proof -
  have r: "in_range (NewBitReader data) a m" "in_range (NewBitReader data) b n"
    using assms by (auto simp: in_range_def NewBitReader_def)
  have f: "field_bits (NewBitReader data) a m @ field_bits (NewBitReader data) b n = bs"
    using assms(9) by (simp add: field_bits_def NewBitReader_def)
  note wf = wf_NewBitReader [OF assms(1)]
  show ?thesis
    using Concat_value [OF wf r assms(8)] ConcatSigned_value [OF wf r assms(8)] by (simp only: f simp_thms)
qed

end
