(* ===== verification/Crc24q.thy ===== *)
theory Crc24q
  imports BitReader
begin

text \<open>
  \<^verbatim>\<open>gnss/frame/crc.go\<close>: CRC-24Q over whole bytes and over an arbitrary bit range, and the
  zero-remainder checks. The shift register is a 32-bit word, as in the code. The lemmas show that
  both loops run one register over the message bits, that appending the register makes the check
  pass, and that the check detects every error confined to 24 consecutive bits. The two locales
  state what a checksum register promises and what a decoder gated by one inherits.
\<close>

section \<open>The code\<close>

definition crc_poly :: u32 where
  "crc_poly = 0x1864CFB"

text \<open>\<^verbatim>\<open>crc <<= 1; if crc&0x1000000 != 0 { crc ^= poly }\<close>\<close>

definition crc_shift :: "u32 \<Rightarrow> u32" where
  "crc_shift crc = (let c = push_bit 1 crc in if c AND 0x1000000 \<noteq> 0 then c XOR crc_poly else c)"

definition crc_byte :: "u32 \<Rightarrow> u8 \<Rightarrow> u32" where
  "crc_byte crc b = (crc_shift ^^ 8) (crc XOR push_bit 16 (ucast b))"

definition CRC24Q :: "u8 list \<Rightarrow> u32" where
  "CRC24Q data = foldl crc_byte 0 data AND 0xFFFFFF"

definition CheckCRC24Q :: "u8 list \<Rightarrow> bool" where
  "CheckCRC24Q data = (if length data < 3 then False else CRC24Q data = 0)"

text \<open>The loop of \<^verbatim>\<open>CRC24QBits\<close>: \<open>k\<close> iterations remain, \<open>p\<close> is the absolute position.\<close>

primrec crc_bits_loop :: "u8 list \<Rightarrow> nat \<Rightarrow> int \<Rightarrow> u32 \<Rightarrow> frame_error + u32" where
  "crc_bits_loop data 0 p crc = Inr crc"
| "crc_bits_loop data (Suc k) p crc =
     (case index data (p div 8) of
        Inl e \<Rightarrow> Inl e
      | Inr byte \<Rightarrow>
          (let b = ucast (drop_bit (7 - nat (p mod 8)) byte AND 1)
           in crc_bits_loop data k (p + 1) (crc_shift (crc XOR push_bit 23 b))))"

definition CRC24QBits :: "u8 list \<Rightarrow> int \<Rightarrow> int \<Rightarrow> frame_error + u32" where
  "CRC24QBits data bitOffset bitLen =
     (case crc_bits_loop data (nat bitLen) bitOffset 0 of
        Inl e \<Rightarrow> Inl e
      | Inr crc \<Rightarrow> Inr (crc AND 0xFFFFFF))"

definition CheckCRC24QBits :: "u8 list \<Rightarrow> int \<Rightarrow> int \<Rightarrow> frame_error + bool" where
  "CheckCRC24QBits data bitOffset bitLen =
     (if bitLen < 24 then Inr False
      else case CRC24QBits data bitOffset bitLen of
        Inl e \<Rightarrow> Inl e
      | Inr crc \<Rightarrow> Inr (crc = 0))"

section \<open>The register as a linear map\<close>

definition crc_bit :: "u32 \<Rightarrow> bool \<Rightarrow> u32" where
  "crc_bit crc b = crc_shift (crc XOR push_bit 23 (of_bool b))"

definition crc_reg :: "bool list \<Rightarrow> u32" where
  "crc_reg bs = foldl crc_bit 0 bs"

definition is_reg :: "u32 \<Rightarrow> bool" where
  "is_reg c \<longleftrightarrow> take_bit 24 c = c"

lemma crc_shift_alt: "crc_shift c = push_bit 1 c XOR (if bit c 23 then crc_poly else 0)"
proof -
  have "push_bit 1 c AND 0x1000000 = push_bit 1 c AND 2 ^ 24" by simp
  also have "\<dots> = 0 \<longleftrightarrow> \<not> bit (push_bit 1 c) 24" by (rule and_exp_eq_0_iff_not_bit)
  also have "bit (push_bit 1 c) 24 \<longleftrightarrow> bit c 23" by (simp add: bit_push_bit_iff)
  finally show ?thesis by (simp add: crc_shift_def Let_def)
qed

lemma crc_shift_xor: "crc_shift (x XOR y) = crc_shift x XOR crc_shift y"
  by (rule bit_word_eqI) (auto simp: crc_shift_alt bit_simps)

lemma crc_shift_0 [simp]: "crc_shift 0 = 0"
  by (simp add: crc_shift_alt)

lemma crc_shift_pow_xor: "(crc_shift ^^ n) (x XOR y) = (crc_shift ^^ n) x XOR (crc_shift ^^ n) y"
  by (induction n) (simp_all add: crc_shift_xor)

lemma crc_shift_pow_0 [simp]: "(crc_shift ^^ n) 0 = 0"
  by (induction n) simp_all

lemma crc_poly_bits: "bit crc_poly 0" "bit crc_poly 24" "25 \<le> n \<Longrightarrow> \<not> bit crc_poly n"
proof -
  show "bit crc_poly 0" by (simp add: crc_poly_def bit_0)
  show "bit crc_poly 24" by (simp add: crc_poly_def)
  assume "25 \<le> n"
  moreover have "take_bit 25 crc_poly = crc_poly" by (simp add: crc_poly_def)
  ultimately show "\<not> bit crc_poly n" by (metis bit_take_bit_iff not_less)
qed

lemma is_reg_iff: "is_reg c \<longleftrightarrow> (\<forall>n \<ge> 24. \<not> bit c n)"
  unfolding is_reg_def by (metis bit_eq_iff bit_take_bit_iff not_less)

lemma is_reg_0 [simp]: "is_reg 0"
  by (simp add: is_reg_def)

lemma is_reg_xor: "is_reg x \<Longrightarrow> is_reg y \<Longrightarrow> is_reg (x XOR y)"
  by (simp add: is_reg_iff bit_xor_iff)

lemma is_reg_shift: "is_reg c \<Longrightarrow> is_reg (crc_shift c)"
proof -
  assume c: "is_reg c"
  have "\<not> bit (crc_shift c) n" if "24 \<le> n" for n
  proof (cases "n = 24")
    case True
    then show ?thesis by (simp add: crc_shift_alt bit_xor_iff bit_push_bit_iff crc_poly_bits)
  next
    case False
    with that c show ?thesis
      by (simp add: crc_shift_alt bit_xor_iff bit_push_bit_iff crc_poly_bits is_reg_iff)
  qed
  then show ?thesis by (simp add: is_reg_iff)
qed

lemma is_reg_shift_pow: "is_reg c \<Longrightarrow> is_reg ((crc_shift ^^ n) c)"
  by (induction n) (simp_all add: is_reg_shift)

lemma crc_shift_kernel: "is_reg c \<Longrightarrow> crc_shift c = 0 \<Longrightarrow> c = 0"
proof -
  assume c: "is_reg c" and z: "crc_shift c = 0"
  then have "\<not> bit (crc_shift c) 0" by simp
  then have "\<not> bit c 23"
    using crc_poly_bits(1) by (auto simp: crc_shift_alt bit_xor_iff bit_push_bit_iff split: if_splits)
  with z have "push_bit 1 c = 0" by (simp add: crc_shift_alt)
  then have z': "\<not> bit (push_bit 1 c) (Suc n)" for n by (metis bit_0_eq bot_apply bot_bool_def)
  have "\<not> bit c n" if "n < 24" for n
    using z' [of n] that by (simp add: bit_push_bit_iff)
  with c have "\<not> bit c n" for n by (cases "n < 24") (auto simp: is_reg_iff)
  then show "c = 0" by (intro bit_word_eqI) simp
qed

lemma crc_shift_pow_kernel: "is_reg c \<Longrightarrow> (crc_shift ^^ n) c = 0 \<Longrightarrow> c = 0"
  by (induction n) (auto dest: crc_shift_kernel [OF is_reg_shift_pow])

lemma crc_shift_pow_inj:
  "is_reg c \<Longrightarrow> is_reg d \<Longrightarrow> (crc_shift ^^ n) c = (crc_shift ^^ n) d \<Longrightarrow> c = d"
proof -
  assume "is_reg c" "is_reg d" "(crc_shift ^^ n) c = (crc_shift ^^ n) d"
  then have "(crc_shift ^^ n) (c XOR d) = 0" "is_reg (c XOR d)"
    by (simp_all add: crc_shift_pow_xor is_reg_xor)
  then have "c XOR d = 0" using crc_shift_pow_kernel by blast
  then show "c = d" by (simp add: xor_zero_iff)
qed

section \<open>Feeding up to 24 bits at once\<close>

text \<open>The bits of \<open>e\<close> left-aligned in the 24-bit register.\<close>

definition reg_top :: "bool list \<Rightarrow> u32" where
  "reg_top e = of_nat (nat_of_bits e * 2 ^ (24 - length e))"

lemma of_nat_is_reg: "x < 2 ^ 24 \<Longrightarrow> is_reg (of_nat x)"
  using no_bit_nat [of x 24] by (simp add: is_reg_iff bit_of_nat_iff)

lemma is_reg_top: "length e \<le> 24 \<Longrightarrow> is_reg (reg_top e)"
  unfolding reg_top_def by (intro of_nat_is_reg nat_of_bits_shifted_less)

lemma crc_shift_small: "x < 2 ^ 23 \<Longrightarrow> crc_shift (of_nat x) = of_nat (2 * x)"
proof -
  assume x: "x < 2 ^ 23"
  then have "\<not> bit (of_nat x :: u32) 23"
    using no_bit_nat [of x 23] by (simp add: bit_of_nat_iff)
  then show ?thesis by (simp add: crc_shift_alt push_bit_eq_mult)
qed

lemma reg_top_Cons:
  assumes "length e \<le> 23"
  shows "reg_top (b # e) = push_bit 23 (of_bool b) XOR of_nat (nat_of_bits e * 2 ^ (23 - length e))"
proof -
  define x where "x = nat_of_bits e * 2 ^ (23 - length e)"
  have p: "(2::nat) ^ 23 = 2 ^ length e * 2 ^ (23 - length e)"
    using assms by (simp flip: power_add)
  have x: "x < 2 ^ 23" unfolding x_def using assms by (rule nat_of_bits_shifted_less)
  have "push_bit 23 (of_bool b) AND (of_nat x :: u32) = 0"
  proof (rule bit_word_eqI)
    fix n
    have "\<not> bit x n" if "23 \<le> n"
      using x that by (rule no_bit_nat)
    then show "bit (push_bit 23 (of_bool b) AND (of_nat x :: u32)) n = bit (0 :: u32) n"
      unfolding bit_and_iff bit_push_bit_iff bit_of_nat_iff by auto
  qed
  then have "push_bit 23 (of_bool b) XOR (of_nat x :: u32) = push_bit 23 (of_bool b) + of_nat x"
    by (simp add: disjunctive_xor_eq_or disjunctive_add_eq_or)
  also have "\<dots> = of_nat (of_bool b * 2 ^ 23 + x)"
    by (cases b) (simp_all add: push_bit_eq_mult)
  also have "of_bool b * 2 ^ 23 + x = nat_of_bits (b # e) * 2 ^ (24 - length (b # e))"
    using p by (simp add: x_def nat_of_bits_Cons algebra_simps)
  finally show ?thesis by (simp only: reg_top_def x_def)
qed

lemma crc_fold_top:
  "length e \<le> 24 \<Longrightarrow> foldl crc_bit c e = (crc_shift ^^ length e) (c XOR reg_top e)"
proof (induction e arbitrary: c)
  case Nil
  then show ?case by (simp add: reg_top_def)
next
  case (Cons b e)
  then have e: "length e \<le> 23" by simp
  let ?x = "nat_of_bits e * 2 ^ (23 - length e)"
  have x: "?x < 2 ^ 23" using e by (rule nat_of_bits_shifted_less)
  have "24 - length e = Suc (23 - length e)" using e by simp
  then have "reg_top e = crc_shift (of_nat ?x)"
    using x by (simp only: crc_shift_small reg_top_def) (simp add: algebra_simps)
  then have "crc_bit c b XOR reg_top e = crc_shift (c XOR reg_top (b # e))"
    using e by (simp add: crc_bit_def reg_top_Cons xor.assoc flip: crc_shift_xor)
  with Cons.IH [of "crc_bit c b"] e show ?case by (simp add: funpow_swap1)
qed

lemma is_reg_crc_bit: "is_reg c \<Longrightarrow> is_reg (crc_bit c b)"
proof -
  assume c: "is_reg c"
  have "is_reg (push_bit 23 (of_bool b))" by (cases b) (simp_all add: is_reg_def)
  with c show ?thesis by (simp add: crc_bit_def is_reg_shift is_reg_xor)
qed

lemma is_reg_foldl: "is_reg c \<Longrightarrow> is_reg (foldl crc_bit c bs)"
  by (induction bs arbitrary: c) (simp_all add: is_reg_crc_bit)

lemma reg_top_inj:
  assumes "length e = length e'" "length e \<le> 24" "reg_top e = reg_top e'"
  shows "e = e'"
proof -
  have u: "unat (of_nat x :: u32) = x" if "x < 2 ^ 24" for x
    using that by (simp add: unat_of_nat)
  have "unat (reg_top e) = nat_of_bits e * 2 ^ (24 - length e)"
    "unat (reg_top e') = nat_of_bits e' * 2 ^ (24 - length e')"
    unfolding reg_top_def using assms(1,2) nat_of_bits_shifted_less [of e 24] nat_of_bits_shifted_less [of e' 24]
    by (auto intro!: u simp del: of_nat_mult)
  with assms have "nat_of_bits e = nat_of_bits e'" by simp
  then show ?thesis using assms(1) by (intro nat_of_bits_inject)
qed

section \<open>What a checksum register promises\<close>

text \<open>
  A register fed one message bit at a time. The first law says that what the register holds is
  never forgotten, the second that a window of at most \<open>w\<close> bits is determined by its effect.
\<close>

locale checksum_register =
  fixes step :: "'s \<Rightarrow> bool \<Rightarrow> 's"
    and valid :: "'s \<Rightarrow> bool"
    and w :: nat
  assumes valid_step: "valid s \<Longrightarrow> valid (step s b)"
    and window_inj: "valid s \<Longrightarrow> length e = length e' \<Longrightarrow> length e \<le> w \<Longrightarrow>
      foldl step s e = foldl step s e' \<Longrightarrow> e = e'"
    and state_inj: "valid s \<Longrightarrow> valid t \<Longrightarrow> step s b = step t b \<Longrightarrow> s = t"
begin

lemma valid_foldl: "valid s \<Longrightarrow> valid (foldl step s bs)"
  by (induction bs arbitrary: s) (simp_all add: valid_step)

lemma foldl_inj: "valid s \<Longrightarrow> valid t \<Longrightarrow> foldl step s bs = foldl step t bs \<Longrightarrow> s = t"
proof (induction bs arbitrary: s t)
  case Nil
  then show ?case by simp
next
  case (Cons b bs)
  then have "step s b = step t b"
    by (simp add: valid_step)
  with Cons.prems show ?case by (auto intro: state_inj)
qed

text \<open>Two messages that differ only inside one window of at most \<open>w\<close> bits leave different registers.\<close>

lemma burst_changes_register:
  assumes "valid s" "length e = length e'" "length e \<le> w" "e \<noteq> e'"
  shows "foldl step s (xs @ e @ ys) \<noteq> foldl step s (xs @ e' @ ys)"
proof
  assume eq: "foldl step s (xs @ e @ ys) = foldl step s (xs @ e' @ ys)"
  let ?s = "foldl step s xs"
  have s: "valid ?s" using assms(1) by (rule valid_foldl)
  then have "valid (foldl step ?s e)" "valid (foldl step ?s e')" by (auto intro: valid_foldl)
  with eq have "foldl step ?s e = foldl step ?s e'"
    using foldl_inj [of "foldl step ?s e" "foldl step ?s e'" ys] by simp
  with s assms show False using window_inj by blast
qed

end

lemma crc_window_inj:
  assumes "is_reg s" "length e = length e'" "length e \<le> 24"
    and "foldl crc_bit s e = foldl crc_bit s e'"
  shows "e = e'"
proof -
  have "(crc_shift ^^ length e) (s XOR reg_top e) = (crc_shift ^^ length e) (s XOR reg_top e')"
    using assms crc_fold_top [of e s] crc_fold_top [of e' s] by simp
  then have "s XOR reg_top e = s XOR reg_top e'"
    using assms by (elim crc_shift_pow_inj [rotated 2]) (simp_all add: is_reg_xor is_reg_top)
  then have "reg_top e = reg_top e'" by (simp only: xor_cancel)
  then show ?thesis by (rule reg_top_inj [OF assms(2,3)])
qed

lemma crc_state_inj:
  assumes "is_reg s" "is_reg t" "crc_bit s b = crc_bit t b"
  shows "s = t"
proof -
  have "is_reg (push_bit 23 (of_bool b))" by (cases b) (simp_all add: is_reg_def)
  then have "is_reg (s XOR push_bit 23 (of_bool b))" "is_reg (t XOR push_bit 23 (of_bool b))"
    using assms by (auto intro: is_reg_xor)
  moreover have "(crc_shift ^^ 1) (s XOR push_bit 23 (of_bool b)) = (crc_shift ^^ 1) (t XOR push_bit 23 (of_bool b))"
    using assms(3) by (simp only: crc_bit_def funpow_0 funpow.simps One_nat_def comp_apply id_apply)
  ultimately have "s XOR push_bit 23 (of_bool b) = t XOR push_bit 23 (of_bool b)"
    by (rule crc_shift_pow_inj)
  then show ?thesis by (simp only: xor_cancel)
qed

interpretation crc24q: checksum_register crc_bit is_reg 24
  by unfold_locales (rule is_reg_crc_bit crc_window_inj crc_state_inj; assumption)+

section \<open>Both loops run the register over the message bits\<close>

lemma unat_bits_of_byte: "nat_of_bits (bits_of_byte b) = unat b"
proof -
  have "bits_of_byte b = ubits_enc 8 (unat b)"
    by (simp add: bits_of_byte_def ubits_enc_def bit_unsigned_iff upt_8)
  moreover have "unat b < 2 ^ 8" using unsigned_less [of b, where 'a = nat] by simp
  ultimately show ?thesis by (simp only: nat_of_bits_ubits_enc)
qed

lemma crc_byte_bits: "crc_byte c b = foldl crc_bit c (bits_of_byte b)"
proof -
  have "reg_top (bits_of_byte b) = push_bit 16 (ucast b)"
    by (simp add: reg_top_def unat_bits_of_byte push_bit_eq_mult of_nat_unat)
  then show ?thesis
    using crc_fold_top [of "bits_of_byte b" c] by (simp add: crc_byte_def)
qed

lemma foldl_crc_byte: "foldl crc_byte c data = foldl crc_bit c (bits_of data)"
  by (induction data arbitrary: c) (simp_all add: crc_byte_bits bits_of_Cons)

lemma and_ffffff: "is_reg c \<Longrightarrow> c AND 0xFFFFFF = c"
proof -
  assume "is_reg c"
  then have "take_bit 24 c = c" by (simp only: is_reg_def)
  moreover have "(0xFFFFFF :: u32) = mask 24" by (simp add: mask_eq_exp_minus_1)
  ultimately show ?thesis by (simp only: take_bit_eq_mask)
qed

lemma is_reg_crc_reg: "is_reg (crc_reg bs)"
  by (simp add: crc_reg_def is_reg_foldl)

lemma CRC24Q_reg: "CRC24Q data = crc_reg (bits_of data)"
  using is_reg_crc_reg [of "bits_of data"] by (simp add: CRC24Q_def foldl_crc_byte crc_reg_def and_ffffff)

lemma crc_bit_byte: "crc_shift (crc XOR push_bit 23 (ucast (drop_bit m byte AND 1 :: u8))) = crc_bit crc (bit byte m)"
proof -
  have "ucast (drop_bit m byte AND 1 :: u8) = (of_bool (bit byte m) :: u32)"
    by (rule bit_word_eqI) (auto simp: bit_simps bit_0)
  then show ?thesis by (simp only: crc_bit_def)
qed

lemma crc_bits_loop_fold:
  assumes "0 \<le> p" "p + int k \<le> 8 * int (length data)"
  shows "crc_bits_loop data k p c = Inr (foldl crc_bit c (take k (drop (nat p) (bits_of data))))"
  using assms
proof (induction k arbitrary: p c)
  case 0
  then show ?case by simp
next
  case (Suc k)
  define q where "q = nat p"
  have p: "p = int q" "q < 8 * length data"
    using Suc.prems by (simp_all add: q_def)
  then have "0 \<le> int q div 8" "int q div 8 < int (length data)" by auto
  then have i: "index data (p div 8) = Inr (data ! (q div 8))"
    using p by (simp add: nat_div_distrib)
  have m: "nat (p mod 8) = q mod 8"
    using p by (simp add: nat_mod_distrib)
  have IH: "crc_bits_loop data k (p + 1) d = Inr (foldl crc_bit d (take k (drop (Suc q) (bits_of data))))" for d
    using Suc.IH [of "p + 1" d] Suc.prems by (simp add: q_def nat_add_distrib)
  have t: "take (Suc k) (drop q (bits_of data)) =
      bit (data ! (q div 8)) (7 - q mod 8) # take k (drop (Suc q) (bits_of data))"
    using p by (simp add: take_drop_Suc nth_bits_of)
  show ?case
    by (simp only: crc_bits_loop.simps i m Let_def sum.case IH crc_bit_byte t q_def [symmetric] foldl_Cons)
qed

lemma CRC24QBits_reg:
  assumes "0 \<le> off" "0 \<le> n" "off + n \<le> 8 * int (length data)"
  shows "CRC24QBits data off n = Inr (crc_reg (take (nat n) (drop (nat off) (bits_of data))))"
proof -
  have "crc_bits_loop data (nat n) off 0 = Inr (crc_reg (take (nat n) (drop (nat off) (bits_of data))))"
    using assms by (simp add: crc_bits_loop_fold crc_reg_def)
  then show ?thesis by (simp add: CRC24QBits_def and_ffffff is_reg_crc_reg)
qed

lemma CheckCRC24QBits_reg:
  assumes "0 \<le> off" "24 \<le> n" "off + n \<le> 8 * int (length data)"
  shows "CheckCRC24QBits data off n = Inr (crc_reg (take (nat n) (drop (nat off) (bits_of data))) = 0)"
  using assms by (simp add: CheckCRC24QBits_def CRC24QBits_reg)

lemma CheckCRC24Q_reg: "CheckCRC24Q data \<longleftrightarrow> 3 \<le> length data \<and> crc_reg (bits_of data) = 0"
  by (auto simp: CheckCRC24Q_def CRC24Q_reg)

section \<open>Appending the register makes the check pass\<close>

definition reg_bits :: "u32 \<Rightarrow> bool list" where
  "reg_bits c = map (\<lambda>i. bit c (23 - i)) [0..<24]"

lemma length_reg_bits [simp]: "length (reg_bits c) = 24"
  by (simp add: reg_bits_def)

lemma reg_bits_enc: "reg_bits c = ubits_enc 24 (unat c)"
  by (simp add: reg_bits_def ubits_enc_def bit_unsigned_iff)

lemma reg_top_reg_bits: "is_reg c \<Longrightarrow> reg_top (reg_bits c) = c"
proof -
  assume c: "is_reg c"
  have "unat (take_bit 24 c) = take_bit 24 (unat c)" by (rule unsigned_take_bit_eq)
  with c have "take_bit 24 (unat c) = unat c" by (simp only: is_reg_def)
  then have "unat c mod 2 ^ 24 = unat c" by (simp only: take_bit_eq_mod)
  then show ?thesis
    by (simp add: reg_top_def reg_bits_enc nat_of_bits_ubits_enc_mod)
qed

lemma crc_reg_append_self: "crc_reg (bs @ reg_bits (crc_reg bs)) = 0"
proof -
  have "crc_reg (bs @ reg_bits (crc_reg bs)) = foldl crc_bit (crc_reg bs) (reg_bits (crc_reg bs))"
    by (simp add: crc_reg_def)
  also have "\<dots> = (crc_shift ^^ 24) (crc_reg bs XOR crc_reg bs)"
    using crc_fold_top [of "reg_bits (crc_reg bs)" "crc_reg bs"]
    by (simp add: reg_top_reg_bits is_reg_crc_reg)
  finally show ?thesis by simp
qed

lemma crc_reg_unique: "length e = 24 \<Longrightarrow> crc_reg (bs @ e) = 0 \<longleftrightarrow> e = reg_bits (crc_reg bs)"
proof
  assume len: "length e = 24" and z: "crc_reg (bs @ e) = 0"
  then have "foldl crc_bit (crc_reg bs) e = foldl crc_bit (crc_reg bs) (reg_bits (crc_reg bs))"
    using crc_reg_append_self [of bs] by (simp add: crc_reg_def)
  with len show "e = reg_bits (crc_reg bs)"
    by (intro crc_window_inj [where s = "crc_reg bs"]) (simp_all add: is_reg_crc_reg)
next
  assume "e = reg_bits (crc_reg bs)"
  then show "crc_reg (bs @ e) = 0" by (simp add: crc_reg_append_self)
qed

lemma crc_reg_burst:
  assumes "length e = length e'" "length e \<le> 24" "e \<noteq> e'"
  shows "crc_reg (xs @ e @ ys) \<noteq> crc_reg (xs @ e' @ ys)"
  unfolding crc_reg_def using assms by (intro crc24q.burst_changes_register) simp_all

section \<open>Decoders behind a CRC gate\<close>

text \<open>
  What the CRC-protected decoders share: a frame is accepted only when the register run over its
  protected bits ends at zero.
\<close>

locale crc_gated =
  fixes decode :: "u32 list \<Rightarrow> frame_error + 'm"
    and protected :: "u32 list \<Rightarrow> bool list"
  assumes accepted_crc: "decode ws = Inr m \<Longrightarrow> crc_reg (protected ws) = 0"
begin

lemma burst_rejected:
  assumes "decode ws = Inr m" "protected ws = xs @ e @ ys" "protected ws' = xs @ e' @ ys"
    and "length e = length e'" "length e \<le> 24" "e \<noteq> e'"
  shows "decode ws' \<noteq> Inr m'"
proof
  assume "decode ws' = Inr m'"
  then have "crc_reg (xs @ e' @ ys) = 0" using accepted_crc assms(3) by metis
  moreover have "crc_reg (xs @ e @ ys) = 0" using accepted_crc assms(1,2) by metis
  ultimately show False using crc_reg_burst [OF assms(4-6)] by metis
qed

end

section \<open>Properties\<close>

text \<open>The bit-range CRC and the byte-wise CRC are the same function: over a whole buffer, the
  register fed one bit at a time ends where the register fed eight bits at a time does.\<close>

lemma CRC24QBits_eq_CRC24Q:
  "CRC24QBits data 0 (8 * int (length data)) = Inr (CRC24Q data)"
  by (simp add: CRC24QBits_reg CRC24Q_reg nat_mult_distrib)

definition crc_bytes :: "u32 \<Rightarrow> u8 list" where
  "crc_bytes c = [ucast (drop_bit 16 c), ucast (drop_bit 8 c), ucast c]"

lemma bits_of_crc_bytes: "bits_of (crc_bytes c) = reg_bits c"
  by (simp add: bits_of_def bits_of_byte_def crc_bytes_def reg_bits_def upt_8 bit_simps upt_rec)

text \<open>A buffer followed by three bytes passes the zero-remainder check exactly when the three
  bytes are the CRC of the buffer, most significant byte first.\<close>

lemma CheckCRC24Q_append:
  "CheckCRC24Q (data @ [x, y, z]) \<longleftrightarrow> [x, y, z] = crc_bytes (CRC24Q data)"
proof -
  have "bits_of [x, y, z] = reg_bits c \<longleftrightarrow> [x, y, z] = crc_bytes c" for c
    using bits_of_inject [of "[x, y, z]" "crc_bytes c"]
    by (auto simp: bits_of_crc_bytes crc_bytes_def simp flip: bits_of_crc_bytes)
  then show ?thesis
    by (simp add: CheckCRC24Q_reg bits_of_append crc_reg_unique CRC24Q_reg)
qed

text \<open>C10: If a bit range passes the check, then no buffer that differs from it in the range only inside
  some 24 consecutive bits passes it: every error burst of up to 24 bits is detected.\<close>

theorem CheckCRC24QBits_burst:
  assumes "CheckCRC24QBits data off n = Inr True"
    and "0 \<le> off" "off + n \<le> 8 * int (length data)" "length data' = length data"
    and "take (nat n) (drop (nat off) (bits_of data)) = xs @ e @ ys"
    and "take (nat n) (drop (nat off) (bits_of data')) = xs @ e' @ ys"
    and "length e = length e'" "length e \<le> 24" "e \<noteq> e'"
  shows "CheckCRC24QBits data' off n = Inr False"
proof -
  have n: "24 \<le> n" using assms(1) by (auto simp: CheckCRC24QBits_def split: if_splits)
  have "crc_reg (xs @ e @ ys) = 0"
    using assms(1) CheckCRC24QBits_reg [OF assms(2) n assms(3)] by (simp add: assms(5))
  then have "crc_reg (xs @ e' @ ys) \<noteq> 0"
    using crc_reg_burst [OF assms(7-9), of xs ys] by simp
  then show ?thesis
    using CheckCRC24QBits_reg [of off n data'] assms(2-4) n by (simp add: assms(6))
qed

theorem CheckCRC24QBits_burst_witness:
  "CheckCRC24QBits [0x01, 0x86, 0x4C, 0xFB] 0 32 = Inr True \<and>
   CheckCRC24QBits [0x01, 0x86, 0x4D, 0xFB] 0 32 = Inr False"
proof -
  have ok: "CheckCRC24QBits [0x01, 0x86, 0x4C, 0xFB] 0 32 = Inr True" by code_simp
  moreover have "CheckCRC24QBits [0x01, 0x86, 0x4D, 0xFB] 0 32 = Inr False"
  proof (rule CheckCRC24QBits_burst [OF ok])
    show "take (nat 32) (drop (nat 0) (bits_of [0x01, 0x86, 0x4C, 0xFB])) =
        bits_of [0x01, 0x86] @ bits_of [0x4C] @ bits_of [0xFB]"
      and "take (nat 32) (drop (nat 0) (bits_of [0x01, 0x86, 0x4D, 0xFB])) =
        bits_of [0x01, 0x86] @ bits_of [0x4D] @ bits_of [0xFB]"
      by (simp_all add: bits_of_Cons)
  qed (use bits_of_inject [of "[0x4C]" "[0x4D]"] in auto)
  ultimately show ?thesis ..
qed

end
