(* ===== verification/GnssTypes.thy ===== *)
theory GnssTypes
  imports Prelude
begin

text \<open>
  The data the decoders produce: the constellation identifier of \<^verbatim>\<open>gnss/gnss.go\<close>, the Kepler element
  set of \<^verbatim>\<open>gnss/kepler\<close>, the clock model and UTC parameters of \<^verbatim>\<open>gnss/clock\<close>, and the GLONASS state
  vector and almanac of \<^verbatim>\<open>gnss/glonass\<close>. Field names carry the type's prefix; each Go zero value is a
  constant.
\<close>

section \<open>Constellation identifiers\<close>

type_synonym GNSSID = u8

definition GPS :: GNSSID where "GPS = 0"
definition SBAS :: GNSSID where "SBAS = 1"
definition Galileo :: GNSSID where "Galileo = 2"
definition BeiDou :: GNSSID where "BeiDou = 3"
definition IMES :: GNSSID where "IMES = 4"
definition QZSS :: GNSSID where "QZSS = 5"
definition GLONASS :: GNSSID where "GLONASS = 6"
definition NavIC :: GNSSID where "NavIC = 7"

lemmas gnssid_defs = GPS_def SBAS_def Galileo_def BeiDou_def IMES_def QZSS_def GLONASS_def NavIC_def

definition Letter :: "GNSSID \<Rightarrow> char" where
  "Letter g =
     (if g = GPS then CHR ''G'' else if g = SBAS then CHR ''S'' else if g = Galileo then CHR ''E''
      else if g = BeiDou then CHR ''C'' else if g = QZSS then CHR ''J''
      else if g = GLONASS then CHR ''R'' else if g = NavIC then CHR ''I'' else CHR ''?'')"

definition GNSSID_String :: "GNSSID \<Rightarrow> string" where
  "GNSSID_String g =
     (if g = GPS then ''gps'' else if g = SBAS then ''sbas'' else if g = Galileo then ''galileo''
      else if g = BeiDou then ''beidou'' else if g = IMES then ''imes'' else if g = QZSS then ''qzss''
      else if g = GLONASS then ''glonass'' else if g = NavIC then ''navic'' else ''unknown'')"

definition Valid :: "GNSSID \<Rightarrow> bool" where
  "Valid g \<longleftrightarrow> g \<le> NavIC \<and> g \<noteq> IMES"

section \<open>Physical constants of the interface documents\<close>

definition Pi :: real where
  "Pi = 3.1415926535898"

section \<open>Kepler elements\<close>

record ephemeris =
  eph_ID :: GNSSID
  eph_SVID :: int
  eph_SqrtA :: real
  eph_ADot :: real
  eph_Ecc :: real
  eph_M0 :: real
  eph_DeltaN :: real
  eph_DeltaNDot :: real
  eph_I0 :: real
  eph_IDot :: real
  eph_Omega0 :: real
  eph_OmegaDot :: real
  eph_Omega :: real
  eph_Cuc :: real
  eph_Cus :: real
  eph_Crc :: real
  eph_Crs :: real
  eph_Cic :: real
  eph_Cis :: real
  eph_Toe :: real
  eph_Almanac :: bool

definition eph0 :: ephemeris where
  "eph0 = \<lparr>eph_ID = 0, eph_SVID = 0, eph_SqrtA = 0, eph_ADot = 0, eph_Ecc = 0, eph_M0 = 0,
     eph_DeltaN = 0, eph_DeltaNDot = 0, eph_I0 = 0, eph_IDot = 0, eph_Omega0 = 0, eph_OmegaDot = 0,
     eph_Omega = 0, eph_Cuc = 0, eph_Cus = 0, eph_Crc = 0, eph_Crs = 0, eph_Cic = 0, eph_Cis = 0,
     eph_Toe = 0, eph_Almanac = False\<rparr>"

definition IsBeiDouGEO :: "GNSSID \<Rightarrow> int \<Rightarrow> bool" where
  "IsBeiDouGEO i svid =
     (if i \<noteq> BeiDou then False else (1 \<le> svid \<and> svid \<le> 5) \<or> (59 \<le> svid \<and> svid \<le> 63))"

section \<open>Clock models and UTC parameters\<close>

record clock_model =
  clk_ID :: GNSSID
  clk_Af0 :: real
  clk_Af1 :: real
  clk_Af2 :: real
  clk_Toc :: real
  clk_TGD :: real

definition clk0 :: clock_model where
  "clk0 = \<lparr>clk_ID = 0, clk_Af0 = 0, clk_Af1 = 0, clk_Af2 = 0, clk_Toc = 0, clk_TGD = 0\<rparr>"

definition E5aGroupDelayFactor :: real where
  "E5aGroupDelayFactor = (1575.420 / 1176.450) * (1575.420 / 1176.450)"

record utc_params =
  utc_A0 :: real
  utc_A1 :: real
  utc_A2 :: real
  utc_Tot :: real
  utc_WNot :: int
  utc_DtLS :: real
  utc_DtLSF :: real
  utc_WNLSF :: int
  utc_DN :: int

section \<open>GLONASS data sets\<close>

record glo_ephemeris =
  glo_X :: real
  glo_Y :: real
  glo_Z :: real
  glo_Vx :: real
  glo_Vy :: real
  glo_Vz :: real
  glo_Ax :: real
  glo_Ay :: real
  glo_Az :: real
  glo_Tb :: real
  glo_TodKnown :: bool
  glo_TauN :: real
  glo_GammaN :: real
  glo_DeltaTauN :: real
  glo_ClockKnown :: bool
  glo_FreqCh :: int
  glo_Slot :: int

record glo_almanac =
  galm_NA :: int
  galm_Lambda :: real
  galm_Tlambda :: real
  galm_DeltaI :: real
  galm_DeltaT :: real
  galm_DeltaTdot :: real
  galm_Ecc :: real
  galm_Omega :: real
  galm_Slot :: int
  galm_FreqCh :: int

section \<open>Lemmas\<close>

text \<open>The constellation letter and the metric name separate the valid constellations: two different
  valid ids never share a letter or a name, and only invalid ids get the letter \<open>?\<close>.\<close>

lemma Letter_injective:
  assumes "Valid g" "Valid h"
  shows "(Letter g = Letter h \<longleftrightarrow> g = h) \<and> (GNSSID_String g = GNSSID_String h \<longleftrightarrow> g = h) \<and>
    Letter g \<noteq> CHR ''?''"
proof -
  have c: "x \<in> {0, 1, 2, 3, 5, 6, 7}" if "Valid x" for x
  proof -
    have "unat x \<le> 7" "x \<noteq> 4"
      using that by (auto simp: Valid_def gnssid_defs word_le_nat_alt)
    then have "unat x \<in> {0, 1, 2, 3, 4, 5, 6, 7}" by auto
    then have "x \<in> {0, 1, 2, 3, 4, 5, 6, 7}" by (simp add: word_unat_eq_iff)
    with \<open>x \<noteq> 4\<close> show ?thesis by blast
  qed
  show ?thesis
    using c [OF assms(1)] c [OF assms(2)]
    by (elim insertE emptyE) (simp_all add: Letter_def GNSSID_String_def gnssid_defs)
qed

end
