(* ===== verification/FrameScale.thy ===== *)
theory FrameScale
  imports Crc24q GnssTypes
begin

text \<open>
  What all decoders of \<^verbatim>\<open>gnss/frame\<close> share beside the bit reader: the power-of-two scale factors, the
  length of the week, the conversions \<^verbatim>\<open>float64(v)\<close> and \<^verbatim>\<open>int(v)\<close> of an unsigned field read, and the
  lemmas that evaluate a field read on a frame given as a concatenation of encoded fields.
\<close>

section \<open>Scale factors\<close>

definition p2m5 :: real where "p2m5 = 1 / 2 ^ 5"
definition p2m19 :: real where "p2m19 = 1 / 2 ^ 19"
definition p2m29 :: real where "p2m29 = 1 / 2 ^ 29"
definition p2m31 :: real where "p2m31 = 1 / 2 ^ 31"
definition p2m33 :: real where "p2m33 = 1 / 2 ^ 33"
definition p2m43 :: real where "p2m43 = 1 / 2 ^ 43"
definition p2m55 :: real where "p2m55 = 1 / 2 ^ 55"
definition p2p4 :: real where "p2p4 = 16"

definition p2m8 :: real where "p2m8 = 1 / 2 ^ 8"
definition p2m9 :: real where "p2m9 = 1 / 2 ^ 9"
definition p2m21 :: real where "p2m21 = 1 / 2 ^ 21"
definition p2m30 :: real where "p2m30 = 1 / 2 ^ 30"
definition p2m32 :: real where "p2m32 = 1 / 2 ^ 32"
definition p2m35 :: real where "p2m35 = 1 / 2 ^ 35"
definition p2m44 :: real where "p2m44 = 1 / 2 ^ 44"
definition p2m48 :: real where "p2m48 = 1 / 2 ^ 48"
definition p2m57 :: real where "p2m57 = 1 / 2 ^ 57"
definition p2m60 :: real where "p2m60 = 1 / 2 ^ 60"

definition p2m34 :: real where "p2m34 = 1 / 2 ^ 34"
definition p2m46 :: real where "p2m46 = 1 / 2 ^ 46"
definition p2m51 :: real where "p2m51 = 1 / 2 ^ 51"
definition p2m59 :: real where "p2m59 = 1 / 2 ^ 59"

definition p2m6 :: real where "p2m6 = 1 / 2 ^ 6"
definition p2m24 :: real where "p2m24 = 1 / 2 ^ 24"
definition p2m27 :: real where "p2m27 = 1 / 2 ^ 27"
definition p2m50 :: real where "p2m50 = 1 / 2 ^ 50"
definition p2m66 :: real where "p2m66 = p2m33 * p2m33"
definition p2m68 :: real where "p2m68 = p2m34 * p2m34"

definition weekSeconds :: real where "weekSeconds = 604800"

lemmas scale_defs = p2p4_def p2m5_def p2m19_def p2m29_def p2m31_def p2m33_def p2m43_def p2m55_def p2m8_def p2m9_def p2m21_def p2m30_def p2m32_def p2m35_def p2m44_def p2m48_def p2m57_def p2m60_def p2m34_def p2m46_def p2m51_def p2m59_def p2m6_def p2m24_def p2m27_def p2m50_def p2m66_def p2m68_def weekSeconds_def

section \<open>Conversions of unsigned reads\<close>

definition fl :: "u64 \<Rightarrow> real" where
  "fl v = real_of_int (uint v)"

definition go_int :: "u64 \<Rightarrow> int" where
  "go_int v = sint v"

lemma fl_of_nat: "x < 2 ^ 64 \<Longrightarrow> fl (of_nat x) = real x"
  by (simp add: fl_def uint_of_nat_less)

lemma fl_nonneg [simp]: "0 \<le> fl v"
  unfolding fl_def of_int_0_le_iff by simp

lemma fl_mono: "v \<le> w \<Longrightarrow> fl v \<le> fl w"
  unfolding fl_def of_int_le_iff word_le_def .

lemma fl_numeral [simp]: "fl 0 = 0" "fl 1 = 1" "numeral k < (2 ^ 64 :: nat) \<Longrightarrow> fl (numeral k) = numeral k"
  using fl_of_nat [of "numeral k"] by (simp_all add: fl_def)

lemma go_int_of_nat: "x < 2 ^ 63 \<Longrightarrow> go_int (of_nat x) = int x"
proof -
  assume x: "x < 2 ^ 63"
  then have "uint (of_nat x :: u64) = int x" by (intro uint_of_nat_less) simp
  then show ?thesis using x by (simp add: go_int_def sint_uint signed_take_bit_int_eq_self)
qed

lemma of_nat_eq_numeral: "x < 2 ^ 64 \<Longrightarrow> y < 2 ^ 64 \<Longrightarrow> (of_nat x :: u64) = of_nat y \<longleftrightarrow> x = y"
  by (metis uint_of_nat_less of_nat_eq_iff)

lemma of_nat_less_numeral: "x < 2 ^ 64 \<Longrightarrow> y < 2 ^ 64 \<Longrightarrow> (of_nat x :: u64) < of_nat y \<longleftrightarrow> x < y"
  by (simp add: word_less_def uint_of_nat_less)

lemma of_nat_le_numeral: "x < 2 ^ 64 \<Longrightarrow> y < 2 ^ 64 \<Longrightarrow> (of_nat x :: u64) \<le> of_nat y \<longleftrightarrow> x \<le> y"
  by (simp add: word_le_def uint_of_nat_less)

text \<open>The same comparisons against a literal, as the decoders write them.\<close>

lemma of_nat_eq_lit:
  assumes "x < 2 ^ 64" "numeral k < (2 ^ 64 :: nat)"
  shows "(of_nat x :: u64) = numeral k \<longleftrightarrow> x = numeral k"
    and "(of_nat x :: u64) > numeral k \<longleftrightarrow> x > numeral k"
    and "(of_nat x :: u64) < numeral k \<longleftrightarrow> x < numeral k"
    and "(of_nat x :: u64) \<le> numeral k \<longleftrightarrow> x \<le> numeral k"
    and "numeral k \<le> (of_nat x :: u64) \<longleftrightarrow> numeral k \<le> x"
  using of_nat_eq_numeral [OF assms] of_nat_less_numeral [OF assms] of_nat_less_numeral [OF assms(2,1)]
    of_nat_le_numeral [OF assms] of_nat_le_numeral [OF assms(2,1)] by simp_all

lemma of_nat_eq_one:
  assumes "x < 2 ^ 64"
  shows "(of_nat x :: u64) = 1 \<longleftrightarrow> x = 1" "(of_nat x :: u64) = 0 \<longleftrightarrow> x = 0"
    "1 \<le> (of_nat x :: u64) \<longleftrightarrow> 1 \<le> x"
  using of_nat_eq_numeral [of x 1] of_nat_eq_numeral [of x 0] of_nat_le_numeral [of 1 x] assms by simp_all

lemmas read_values = fl_of_nat go_int_of_nat of_nat_eq_lit of_nat_eq_one

section \<open>Evaluating reads on encoded frames\<close>

lemma bslice_join: "bslice p n xs @ bslice (p + n) m xs = bslice p (n + m) xs"
  by (simp only: bslice_def take_add drop_drop) (simp add: add.commute)

lemma reads_getcs_contig:
  assumes "reads r B" "0 \<le> a" "0 \<le> b" "c = a + b" "0 \<le> d" "a + b + d \<le> int (length B)" "b + d \<le> 64"
  shows "getcs r a b c d = int_of_bits (bslice (nat a) (nat b + nat d) B)"
  using assms reads_getcs [of r B a b c d] by (simp add: nat_add_distrib bslice_join)

lemma reads_getcu_contig:
  assumes "reads r B" "0 \<le> a" "0 \<le> b" "c = a + b" "0 \<le> d" "a + b + d \<le> int (length B)" "b + d \<le> 64"
  shows "getcu r a b c d = of_nat (nat_of_bits (bslice (nat a) (nat b + nat d) B))"
  using assms reads_getcu [of r B a b c d] by (simp add: nat_add_distrib bslice_join)

text \<open>A field of a frame written as a list of encoded parts: the parts before it are skipped.\<close>

lemma bslice_skip: "length xs \<le> p \<Longrightarrow> bslice p n (xs @ ys) = bslice (p - length xs) n ys"
  by (simp add: bslice_def)

lemma bslice_hit: "length xs = n \<Longrightarrow> bslice 0 n (xs @ ys) = xs"
  by (simp add: bslice_def)

lemma bslice_skip_Cons: "0 < p \<Longrightarrow> bslice p n (x # ys) = bslice (p - 1) n ys"
  by (simp add: bslice_def drop_Cons')

lemma bslice_hit_Cons: "bslice 0 (Suc 0) (x # ys) = [x]"
  by (simp add: bslice_def)

lemmas slice_simps = bslice_skip bslice_hit bslice_all bslice_skip_Cons bslice_hit_Cons

text \<open>Fields of fixed width, as numbers.\<close>

definition ufits :: "nat \<Rightarrow> nat \<Rightarrow> bool" where
  "ufits n x \<longleftrightarrow> x < 2 ^ n"

definition sfits :: "nat \<Rightarrow> int \<Rightarrow> bool" where
  "sfits n x \<longleftrightarrow> - (2 ^ (n - 1)) \<le> x \<and> x < 2 ^ (n - 1)"

lemmas fits_defs = ufits_def sfits_def

section \<open>Frames delivered as 32-bit words\<close>

text \<open>The words that carry a given bit list, most significant bit first.\<close>

definition words32 :: "nat \<Rightarrow> bool list \<Rightarrow> u32 list" where
  "words32 n bits = map (\<lambda>i. of_nat (nat_of_bits (bslice (32 * i) 32 bits))) [0..<n]"

lemma length_words32 [simp]: "length (words32 n bits) = n"
  by (simp add: words32_def)

lemma ubits_enc_nat_of_bits: "ubits_enc (length bs) (nat_of_bits bs) = bs"
  by (rule nat_of_bits_inject) (simp_all add: nat_of_bits_less)

lemma concat_chunks: "length xs = n * k \<Longrightarrow> concat (map (\<lambda>i. bslice (k * i) k xs) [0..<n]) = xs"
proof (induction n arbitrary: xs)
  case 0
  then show ?case by simp
next
  case (Suc n)
  have s: "bslice (k * i) k xs = bslice (k * i) k (take (n * k) xs)" if "i < n" for i
  proof -
    have "k * i + k \<le> n * k" using that by (metis Suc_leI mult.commute mult_Suc_right mult_le_mono1 add.commute)
    then show ?thesis by (simp add: bslice_def take_drop min_absorb1)
  qed
  have "concat (map (\<lambda>i. bslice (k * i) k xs) [0..<n]) = take (n * k) xs"
  proof -
    have "map (\<lambda>i. bslice (k * i) k xs) [0..<n] = map (\<lambda>i. bslice (k * i) k (take (n * k) xs)) [0..<n]"
      using s by (intro map_cong) simp_all
    moreover have "length (take (n * k) xs) = n * k" using Suc.prems by simp
    ultimately show ?thesis using Suc.IH by (simp only:)
  qed
  with Suc.prems show ?case by (simp add: bslice_def mult.commute)
qed

lemma bits_of_u32_of_nat: "length c = 32 \<Longrightarrow> bits_of_u32 (of_nat (nat_of_bits c)) = c"
proof -
  assume c: "length c = 32"
  have "bits_of_u32 (of_nat (nat_of_bits c)) = ubits_enc 32 (nat_of_bits c)"
    by (auto simp: bits_of_u32_def ubits_enc_def bit_of_nat_iff)
  then show ?thesis using ubits_enc_nat_of_bits [of c] c by simp
qed

lemma bits_of_words32: "length bits = n * 32 \<Longrightarrow> bits_of (be_words n (words32 n bits)) = bits"
proof -
  assume l: "length bits = n * 32"
  have "map bits_of_u32 (words32 n bits) = map (\<lambda>i. bslice (32 * i) 32 bits) [0..<n]"
    unfolding words32_def map_map
  proof (rule map_cong [OF refl])
    fix i assume "i \<in> set [0..<n]"
    then have "32 * i + 32 \<le> length bits" using l by auto
    then show "(bits_of_u32 \<circ> (\<lambda>i. of_nat (nat_of_bits (bslice (32 * i) 32 bits)))) i = bslice (32 * i) 32 bits"
      by (simp add: bits_of_u32_of_nat)
  qed
  then show ?thesis using concat_chunks [OF l] by (simp add: bits_of_be_words)
qed

text \<open>A message followed by its CRC.\<close>

definition crc_seal :: "bool list \<Rightarrow> bool list" where
  "crc_seal msg = msg @ reg_bits (crc_reg msg)"

lemma length_crc_seal [simp]: "length (crc_seal msg) = length msg + 24"
  by (simp add: crc_seal_def)

lemma crc_reg_seal [simp]: "crc_reg (crc_seal msg) = 0"
  by (simp add: crc_seal_def crc_reg_append_self)

section \<open>Bit-by-bit copies\<close>

lemma put_bits_append: "put_bits buf off (xs @ ys) = put_bits (put_bits buf off xs) (off + length xs) ys"
  by (induction xs arbitrary: buf off) simp_all

lemma word_field_bits:
  assumes "length bs = n" "n \<le> 64"
  shows "map (\<lambda>i. (of_nat (nat_of_bits bs) :: u64) AND push_bit (n - 1 - i) 1 \<noteq> 0) [0..<n] = bs"
proof -
  have "map (\<lambda>i. (of_nat (nat_of_bits bs) :: u64) AND push_bit (n - 1 - i) 1 \<noteq> 0) [0..<n] = ubits_enc n (nat_of_bits bs)"
    using assms by (auto simp: ubits_enc_def and_exp_eq_0_iff_not_bit bit_of_nat_iff)
  then show ?thesis using ubits_enc_nat_of_bits [of bs] assms by simp
qed

lemma map_nth_slice: "p + n \<le> length xs \<Longrightarrow> map (\<lambda>i. xs ! (p + i)) [0..<n] = bslice p n xs"
  by (rule nth_equalityI) (simp_all add: bslice_def)

lemma map_byte_bits:
  assumes "p + n \<le> 8 * length src"
  shows "map (\<lambda>i. (src ! ((p + i) div 8)) AND push_bit (7 - (p + i) mod 8) 1 \<noteq> 0) [0..<n] = bslice p n (bits_of src)"
proof -
  have "map (\<lambda>i. (src ! ((p + i) div 8)) AND push_bit (7 - (p + i) mod 8) 1 \<noteq> 0) [0..<n] =
      map (\<lambda>i. bits_of src ! (p + i)) [0..<n]"
    using assms by (intro map_cong) (simp_all add: nth_bits_of and_exp_eq_0_iff_not_bit)
  then show ?thesis using assms by (simp add: map_nth_slice)
qed

text \<open>The 24 CRC bits that the stamping loops write.\<close>

lemma crc_bits_written: "map (\<lambda>i. crc AND push_bit (23 - i) 1 \<noteq> 0) [0..<24] = reg_bits crc"
  by (simp add: reg_bits_def and_exp_eq_0_iff_not_bit)

lemma bslice_append_hit: "length xs = p \<Longrightarrow> bslice p n (xs @ ys) = bslice 0 n ys"
  by (simp add: bslice_def)

lemma bslice_bslice: "q + m \<le> n \<Longrightarrow> bslice q m (bslice p n xs) = bslice (p + q) m xs"
  by (simp add: bslice_def take_drop min_absorb1 add.commute)

end
