(* ===== verification/GpsLnav.thy ===== *)
theory GpsLnav
  imports LnavParity FrameScale
begin

text \<open>
  \<^verbatim>\<open>gnss/frame/gps_lnav.go\<close>: the GPS and QZSS LNAV subframe decoder, the almanac pages, and the
  assembly of subframes 1, 2 and 3 into an ephemeris and a clock model. The lemmas describe what
  an accepted subframe satisfies and show that a subframe laid out as the interface document
  prescribes decodes to exactly the numbers it carries.
\<close>

definition gpsAlmanacI0 :: real where "gpsAlmanacI0 = 0.30"

section \<open>Subframes and almanacs\<close>

record lnav_almanac =
  la_DataID :: int
  la_SVID :: int
  la_Ecc :: real
  la_Toa :: real
  la_DeltaI :: real
  la_OmegaDot :: real
  la_Health :: int
  la_SqrtA :: real
  la_Omega0 :: real
  la_Omega :: real
  la_M0 :: real
  la_Af0 :: real
  la_Af1 :: real

record gps_subframe =
  sf_SubframeID :: int
  sf_TOW :: real
  sf_Alert :: bool
  sf_AntiSpoof :: bool
  sf_WN :: int
  sf_URAIndex :: int
  sf_Health :: int
  sf_IODC :: int
  sf_Toc :: real
  sf_Af0 :: real
  sf_Af1 :: real
  sf_Af2 :: real
  sf_TGD :: real
  sf_IODE :: int
  sf_eph :: ephemeris
  sf_Toe :: real
  sf_FitIntervalFlag :: bool
  sf_AODO :: int
  sf_Almanac :: "lnav_almanac option"

definition sf0 :: gps_subframe where
  "sf0 = \<lparr>sf_SubframeID = 0, sf_TOW = 0, sf_Alert = False, sf_AntiSpoof = False, sf_WN = 0,
     sf_URAIndex = 0, sf_Health = 0, sf_IODC = 0, sf_Toc = 0, sf_Af0 = 0, sf_Af1 = 0, sf_Af2 = 0,
     sf_TGD = 0, sf_IODE = 0, sf_eph = eph0, sf_Toe = 0, sf_FitIntervalFlag = False, sf_AODO = 0,
     sf_Almanac = None\<rparr>"

definition qzssAlmanacReference :: "int \<Rightarrow> (real \<times> real) option" where
  "qzssAlmanacReference svid =
     (if svid \<in> {2, 3, 4, 5} then Some (0.06, 0.25)
      else if svid \<in> {7, 8, 9} then Some (0, 0) else None)"

definition LNAVAlmanac_Ephemeris :: "lnav_almanac \<Rightarrow> GNSSID \<Rightarrow> frame_error + ephemeris" where
  "LNAVAlmanac_Ephemeris a i =
     (let semi = Pi;
          eph = eph0\<lparr>eph_ID := i, eph_SVID := la_SVID a, eph_SqrtA := la_SqrtA a, eph_M0 := la_M0 a,
            eph_Omega0 := la_Omega0 a, eph_OmegaDot := la_OmegaDot a, eph_Omega := la_Omega a,
            eph_Toe := la_Toa a, eph_Almanac := True\<rparr>
      in if i = GPS then
           (if la_DataID a \<noteq> 1 \<or> la_SVID a < 1 \<or> la_SVID a > 32 \<or>
               la_Ecc a > 0.03 \<or> la_SqrtA a < 2530 \<or> la_SqrtA a > 8192 \<or>
               la_OmegaDot a > 0 \<or> la_OmegaDot a < - (1.19 / 10 ^ 7) * semi
            then Inl ErrBadAlmanac
            else Inr (eph\<lparr>eph_Ecc := la_Ecc a, eph_I0 := gpsAlmanacI0 * semi + la_DeltaI a\<rparr>))
         else if i = QZSS then
           (case qzssAlmanacReference (la_SVID a) of
              None \<Rightarrow> Inl ErrBadAlmanac
            | Some (e, i0) \<Rightarrow>
                if la_DataID a \<noteq> 3 then Inl ErrBadAlmanac
                else Inr (eph\<lparr>eph_Ecc := e + la_Ecc a, eph_I0 := i0 * semi + la_DeltaI a\<rparr>))
         else Inl ErrBadAlmanac)"

section \<open>The decoder\<close>

definition field :: "int \<Rightarrow> int \<Rightarrow> int" where
  "field w a = (w - 1) * 24 + (a - 1)"

definition decodeGPSSf1 :: "bit_reader \<Rightarrow> gps_subframe \<Rightarrow> gps_subframe" where
  "decodeGPSSf1 r sf =
     (let wn = getu r (field 3 1) 10;
          ura = getu r (field 3 13) 4;
          hlth = getu r (field 3 17) 6;
          iodcHi = getu r (field 3 23) 2;
          iodcLo = getu r (field 8 1) 8;
          toc = getu r (field 8 9) 16;
          tgd = gets r (field 7 17) 8;
          af2 = gets r (field 9 1) 8;
          af1 = gets r (field 9 9) 16;
          af0 = gets r (field 10 1) 22
      in sf\<lparr>sf_WN := go_int wn, sf_URAIndex := go_int ura, sf_Health := go_int hlth,
            sf_IODC := go_int (push_bit 8 iodcHi OR iodcLo),
            sf_Toc := fl toc * p2p4,
            sf_TGD := real_of_int tgd * p2m31,
            sf_Af2 := real_of_int af2 * p2m55,
            sf_Af1 := real_of_int af1 * p2m43,
            sf_Af0 := real_of_int af0 * p2m31\<rparr>)"

definition decodeGPSSf2 :: "bit_reader \<Rightarrow> gps_subframe \<Rightarrow> gps_subframe" where
  "decodeGPSSf2 r sf =
     (let semi = Pi;
          iode = getu r (field 3 1) 8;
          crs = gets r (field 3 9) 16;
          dn = gets r (field 4 1) 16;
          m0 = getcs r (field 4 17) 8 (field 5 1) 24;
          cuc = gets r (field 6 1) 16;
          ecc = getcu r (field 6 17) 8 (field 7 1) 24;
          cus = gets r (field 8 1) 16;
          sqrtA = getcu r (field 8 17) 8 (field 9 1) 24;
          toe = getu r (field 10 1) 16;
          fitFlag = getu r (field 10 17) 1;
          aodo = getu r (field 10 18) 5
      in sf\<lparr>sf_FitIntervalFlag := fitFlag \<noteq> 0,
            sf_AODO := go_int aodo * 900,
            sf_IODE := go_int iode,
            sf_Toe := fl toe * p2p4,
            sf_eph := (sf_eph sf)\<lparr>
              eph_Crs := real_of_int crs * p2m5,
              eph_DeltaN := real_of_int dn * p2m43 * semi,
              eph_M0 := real_of_int m0 * p2m31 * semi,
              eph_Cuc := real_of_int cuc * p2m29,
              eph_Ecc := fl ecc * p2m33,
              eph_Cus := real_of_int cus * p2m29,
              eph_SqrtA := fl sqrtA * p2m19,
              eph_Toe := fl toe * p2p4\<rparr>\<rparr>)"

definition decodeGPSSf3 :: "bit_reader \<Rightarrow> gps_subframe \<Rightarrow> gps_subframe" where
  "decodeGPSSf3 r sf =
     (let semi = Pi;
          cic = gets r (field 3 1) 16;
          omg0 = getcs r (field 3 17) 8 (field 4 1) 24;
          cis = gets r (field 5 1) 16;
          i0 = getcs r (field 5 17) 8 (field 6 1) 24;
          crc = gets r (field 7 1) 16;
          omega = getcs r (field 7 17) 8 (field 8 1) 24;
          omgDot = gets r (field 9 1) 24;
          iode = getu r (field 10 1) 8;
          idot = gets r (field 10 9) 14
      in sf\<lparr>sf_IODE := go_int iode,
            sf_eph := (sf_eph sf)\<lparr>
              eph_Cic := real_of_int cic * p2m29,
              eph_Omega0 := real_of_int omg0 * p2m31 * semi,
              eph_Cis := real_of_int cis * p2m29,
              eph_I0 := real_of_int i0 * p2m31 * semi,
              eph_Crc := real_of_int crc * p2m5,
              eph_Omega := real_of_int omega * p2m31 * semi,
              eph_OmegaDot := real_of_int omgDot * p2m43 * semi,
              eph_IDot := real_of_int idot * p2m43 * semi\<rparr>\<rparr>)"

text \<open>\<^verbatim>\<open>nil, nil\<close> (a page without an almanac) is \<open>Inr None\<close>.\<close>

definition decodeLNAVAlmanac :: "bit_reader \<Rightarrow> frame_error + lnav_almanac option" where
  "decodeLNAVAlmanac r =
     (let semi = Pi;
          dataID = getu r (field 3 1) 2;
          svID = getu r (field 3 3) 6
      in if \<not> (dataID = 1 \<and> svID \<ge> 1 \<and> svID \<le> 32) \<and> \<not> (dataID = 3 \<and> svID \<ge> 1 \<and> svID \<le> 10)
         then Inr None
         else
          (let ecc = getu r (field 3 9) 16;
               toa = getu r (field 4 1) 8;
               di = gets r (field 4 9) 16;
               omgDot = gets r (field 5 1) 16;
               health = getu r (field 5 17) 8;
               sqrtA = getu r (field 6 1) 24;
               omg0 = gets r (field 7 1) 24;
               omega = gets r (field 8 1) 24;
               m0 = gets r (field 9 1) 24;
               af0 = getcs r (field 10 1) 8 (field 10 20) 3;
               af1 = gets r (field 10 9) 11;
               a = \<lparr>la_DataID = go_int dataID, la_SVID = go_int svID,
                    la_Ecc = fl ecc / 2 ^ 21,
                    la_Toa = fl toa * 2 ^ 12,
                    la_DeltaI = real_of_int di / 2 ^ 19 * semi,
                    la_OmegaDot = real_of_int omgDot / 2 ^ 38 * semi,
                    la_Health = go_int health,
                    la_SqrtA = fl sqrtA / 2 ^ 11,
                    la_Omega0 = real_of_int omg0 / 2 ^ 23 * semi,
                    la_Omega = real_of_int omega / 2 ^ 23 * semi,
                    la_M0 = real_of_int m0 / 2 ^ 23 * semi,
                    la_Af0 = real_of_int af0 / 2 ^ 20,
                    la_Af1 = real_of_int af1 / 2 ^ 38\<rparr>
           in if la_Toa a > 602112 then Inl ErrBadEpoch else Inr (Some a)))"

text \<open>
  The packing loop visits the positions \<^verbatim>\<open>i*24+b\<close> of the zeroed 30-byte buffer in order and sets the
  bit when data bit \<open>23-b\<close> of word \<open>i\<close> is set.
\<close>

definition lnav_pack :: "u32 list \<Rightarrow> u8 list" where
  "lnav_pack words =
     put_bits (replicate 30 0) 0
       (concat (map (\<lambda>i. map (\<lambda>b. (drop_bit 6 (words ! i) AND 0xFFFFFF) AND push_bit (23 - b) 1 \<noteq> 0) [0..<24])
          [0..<10]))"

definition DecodeGPSLNAV :: "u32 list \<Rightarrow> frame_error + gps_subframe" where
  "DecodeGPSLNAV words =
     (if length words < 10 then Inl ErrShortFrame
      else if \<not> lnavParityOK (take 10 words) then Inl ErrParity
      else
       (let r = NewBitReaderN (lnav_pack words) 240;
            preamble = getu r (field 1 1) 8
        in if preamble \<noteq> 0x8B then Inl ErrBadTLMPreamble
           else
            (let towCount = getu r (field 2 1) 17
             in if towCount > 100799 then Inl ErrBadTOWCount
                else
                 (let alert = getu r (field 2 18) 1;
                      antiSpoof = getu r (field 2 19) 1;
                      sfID = getu r (field 2 20) 3;
                      sf = sf0\<lparr>sf_SubframeID := go_int sfID, sf_TOW := fl towCount * 6,
                               sf_Alert := alert \<noteq> 0, sf_AntiSpoof := antiSpoof \<noteq> 0\<rparr>
                  in if sfID = 1 then
                       (let sf = decodeGPSSf1 r sf
                        in if sf_Toc sf \<ge> weekSeconds then Inl ErrBadEpoch else Inr sf)
                     else if sfID = 2 then
                       (let sf = decodeGPSSf2 r sf
                        in if sf_Toe sf \<ge> weekSeconds then Inl ErrBadEpoch else Inr sf)
                     else if sfID = 3 then Inr (decodeGPSSf3 r sf)
                     else if sfID = 4 \<or> sfID = 5 then
                       (case decodeLNAVAlmanac r of
                          Inl e \<Rightarrow> Inl e
                        | Inr alm \<Rightarrow> Inr (sf\<lparr>sf_Almanac := alm\<rparr>))
                     else Inl ErrBadSubframe))))"

section \<open>Assembly\<close>

definition AssembleGPS ::
  "GNSSID \<Rightarrow> int \<Rightarrow> gps_subframe option \<Rightarrow> gps_subframe option \<Rightarrow> gps_subframe option
   \<Rightarrow> frame_error + ephemeris \<times> clock_model" where
  "AssembleGPS i svid osf1 osf2 osf3 =
     (case (osf1, osf2, osf3) of
        (Some sf1, Some sf2, Some sf3) \<Rightarrow>
          if sf_SubframeID sf1 \<noteq> 1 \<or> sf_SubframeID sf2 \<noteq> 2 \<or> sf_SubframeID sf3 \<noteq> 3 then Inl ErrWrongMsgType
          else if sf_IODE sf2 \<noteq> sf_IODE sf3 \<or> sf_IODE sf2 \<noteq> (sf_IODC sf1) AND 0xFF then Inl ErrIODMismatch
          else
            (let eph = (sf_eph sf2)\<lparr>
                   eph_Cic := eph_Cic (sf_eph sf3),
                   eph_Omega0 := eph_Omega0 (sf_eph sf3),
                   eph_Cis := eph_Cis (sf_eph sf3),
                   eph_I0 := eph_I0 (sf_eph sf3),
                   eph_Crc := eph_Crc (sf_eph sf3),
                   eph_Omega := eph_Omega (sf_eph sf3),
                   eph_OmegaDot := eph_OmegaDot (sf_eph sf3),
                   eph_IDot := eph_IDot (sf_eph sf3),
                   eph_ID := i,
                   eph_SVID := svid\<rparr>;
                 clk = \<lparr>clk_ID = i, clk_Af0 = sf_Af0 sf1, clk_Af1 = sf_Af1 sf1, clk_Af2 = sf_Af2 sf1,
                        clk_Toc = sf_Toc sf1, clk_TGD = sf_TGD sf1\<rparr>
             in Inr (eph, clk))
      | _ \<Rightarrow> Inl ErrShortFrame)"

section \<open>The packed data bits\<close>

definition data_bits :: "u32 \<Rightarrow> bool list" where
  "data_bits w = map (\<lambda>b. bit (data24 w) (23 - b)) [0..<24]"

definition lnav_bits :: "u32 list \<Rightarrow> bool list" where
  "lnav_bits words = concat (map data_bits (take 10 words))"

lemma length_data_bits [simp]: "length (data_bits w) = 24"
  by (simp add: data_bits_def)

lemma length_concat_data_bits: "length (concat (map data_bits ws)) = 24 * length ws"
  by (induction ws) simp_all

lemma length_lnav_bits [simp]: "10 \<le> length words \<Longrightarrow> length (lnav_bits words) = 240"
  by (simp add: lnav_bits_def length_concat_data_bits)

lemma map_nth_take: "n \<le> length xs \<Longrightarrow> map (\<lambda>i. f (xs ! i)) [0..<n] = map f (take n xs)"
  by (rule nth_equalityI) simp_all

lemma bits_lnav_pack:
  assumes "10 \<le> length words"
  shows "bits_of (lnav_pack words) = lnav_bits words"
proof -
  have "concat (map (\<lambda>i. map (\<lambda>b. (drop_bit 6 (words ! i) AND 0xFFFFFF) AND push_bit (23 - b) 1 \<noteq> 0) [0..<24]) [0..<10])
      = lnav_bits words"
    using assms map_nth_take [of 10 words data_bits]
    by (simp add: lnav_bits_def data_bits_def data24_def and_exp_eq_0_iff_not_bit)
  then show ?thesis
    using assms unfolding lnav_pack_def by (simp only:) (simp add: bits_of_put_bits_zero)
qed

lemma length_lnav_pack [simp]: "length (lnav_pack words) = 30"
  by (simp add: lnav_pack_def)

lemma lnav_reads:
  "10 \<le> length words \<Longrightarrow> reads (NewBitReaderN (lnav_pack words) 240) (lnav_bits words)"
  by (rule reads_NewBitReaderN [where rest = "[]"]) (simp_all add: bits_lnav_pack)

section \<open>Frames built from data bits\<close>

text \<open>Ten words carrying the 240 given data bits, with valid parity.\<close>

definition lnav_words :: "bool list \<Rightarrow> u32 list" where
  "lnav_words bits = StampGPSLNAVParity
     (map (\<lambda>i. push_bit 6 (of_nat (nat_of_bits (bslice (24 * i) 24 bits)))) [0..<10])"

lemma data_bits_of_chunk:
  assumes "length c = 24"
  shows "data_bits (push_bit 6 (of_nat (nat_of_bits c))) = c"
proof -
  have "data_bits (push_bit 6 (of_nat (nat_of_bits c))) = ubits_enc 24 (nat_of_bits c)"
    by (auto simp: data_bits_def ubits_enc_def bit_data24 bit_push_bit_iff bit_of_nat_iff)
  then show ?thesis using ubits_enc_nat_of_bits [of c] assms by simp
qed

lemma length_lnav_words [simp]: "length (lnav_words bits) = 10"
  by (simp add: lnav_words_def)

lemma data_bits_map: "map data_bits xs = map data_bits ys" if "map data24 xs = map data24 ys" for xs ys
  using that by (induction xs ys rule: list_induct2') (simp_all add: data_bits_def)

lemma lnav_bits_words:
  assumes "length bits = 240"
  shows "lnav_bits (lnav_words bits) = bits"
proof -
  let ?ws = "map (\<lambda>i. push_bit 6 (of_nat (nat_of_bits (bslice (24 * i) 24 bits))) :: u32) [0..<10]"
  have "map data_bits (lnav_words bits) = map data_bits ?ws"
    unfolding lnav_words_def by (rule data_bits_map) (rule stamp_data24)
  also have "\<dots> = map (\<lambda>i. bslice (24 * i) 24 bits) [0..<10]"
    using assms by (auto intro!: data_bits_of_chunk)
  finally have "concat (map data_bits (lnav_words bits)) = bits"
    using concat_chunks [of bits 10 24] assms by simp
  then show ?thesis by (simp add: lnav_bits_def)
qed

lemma lnav_words_parity: "lnavParityOK (lnav_words bits)"
  by (simp add: lnav_words_def stamped_parityOK)

section \<open>The interface document's layout\<close>

text \<open>Raw field values of the three subframes, as the ground segment encodes them.\<close>

record raw_sf1 =
  r1_tow :: nat
  r1_alert :: bool
  r1_as :: bool
  r1_wn :: nat
  r1_codeL2 :: nat
  r1_ura :: nat
  r1_health :: nat
  r1_iodc :: nat
  r1_tgd :: int
  r1_toc :: nat
  r1_af2 :: int
  r1_af1 :: int
  r1_af0 :: int

record raw_sf2 =
  r2_tow :: nat
  r2_alert :: bool
  r2_as :: bool
  r2_iode :: nat
  r2_crs :: int
  r2_dn :: int
  r2_m0 :: int
  r2_cuc :: int
  r2_ecc :: nat
  r2_cus :: int
  r2_sqrtA :: nat
  r2_toe :: nat
  r2_fit :: bool
  r2_aodo :: nat

record raw_sf3 =
  r3_tow :: nat
  r3_alert :: bool
  r3_as :: bool
  r3_cic :: int
  r3_omg0 :: int
  r3_cis :: int
  r3_i0 :: int
  r3_crc :: int
  r3_omega :: int
  r3_omgDot :: int
  r3_iode :: nat
  r3_idot :: int

text \<open>
  Words 1 and 2, then words 3 to 10, most significant bit first. The arguments \<open>tlm\<close>, \<open>res\<close> and \<open>t\<close> fill the
  telemetry message, the reserved bits and the two non-information bits with arbitrary contents.
\<close>

definition lnav_head :: "nat \<Rightarrow> nat \<Rightarrow> bool \<Rightarrow> bool \<Rightarrow> nat \<Rightarrow> nat \<Rightarrow> bool list" where
  "lnav_head tlm tow alert as i t =
     ubits_enc 8 0x8B @ ubits_enc 16 tlm @ ubits_enc 17 tow @ [alert] @ [as] @ ubits_enc 3 i @ ubits_enc 2 t"

definition sf1_bits :: "nat \<Rightarrow> nat \<Rightarrow> nat \<Rightarrow> raw_sf1 \<Rightarrow> bool list" where
  "sf1_bits tlm res t f =
     lnav_head tlm (r1_tow f) (r1_alert f) (r1_as f) 1 t @
     ubits_enc 10 (r1_wn f) @ ubits_enc 2 (r1_codeL2 f) @ ubits_enc 4 (r1_ura f) @ ubits_enc 6 (r1_health f) @
     ubits_enc 2 (r1_iodc f div 256) @ ubits_enc 88 res @ sbits_enc 8 (r1_tgd f) @
     ubits_enc 8 (r1_iodc f mod 256) @ ubits_enc 16 (r1_toc f) @
     sbits_enc 8 (r1_af2 f) @ sbits_enc 16 (r1_af1 f) @ sbits_enc 22 (r1_af0 f) @ ubits_enc 2 t"

definition sf2_bits :: "nat \<Rightarrow> nat \<Rightarrow> raw_sf2 \<Rightarrow> bool list" where
  "sf2_bits tlm t f =
     lnav_head tlm (r2_tow f) (r2_alert f) (r2_as f) 2 t @
     ubits_enc 8 (r2_iode f) @ sbits_enc 16 (r2_crs f) @ sbits_enc 16 (r2_dn f) @ sbits_enc 32 (r2_m0 f) @
     sbits_enc 16 (r2_cuc f) @ ubits_enc 32 (r2_ecc f) @ sbits_enc 16 (r2_cus f) @ ubits_enc 32 (r2_sqrtA f) @
     ubits_enc 16 (r2_toe f) @ [r2_fit f] @ ubits_enc 5 (r2_aodo f) @ ubits_enc 2 t"

definition sf3_bits :: "nat \<Rightarrow> nat \<Rightarrow> raw_sf3 \<Rightarrow> bool list" where
  "sf3_bits tlm t f =
     lnav_head tlm (r3_tow f) (r3_alert f) (r3_as f) 3 t @
     sbits_enc 16 (r3_cic f) @ sbits_enc 32 (r3_omg0 f) @ sbits_enc 16 (r3_cis f) @ sbits_enc 32 (r3_i0 f) @
     sbits_enc 16 (r3_crc f) @ sbits_enc 32 (r3_omega f) @ sbits_enc 24 (r3_omgDot f) @
     ubits_enc 8 (r3_iode f) @ sbits_enc 14 (r3_idot f) @ ubits_enc 2 t"

definition wf_sf1 :: "raw_sf1 \<Rightarrow> bool" where
  "wf_sf1 f \<longleftrightarrow> r1_tow f \<le> 100799 \<and> ufits 10 (r1_wn f) \<and> ufits 4 (r1_ura f) \<and> ufits 6 (r1_health f) \<and>
     ufits 10 (r1_iodc f) \<and> sfits 8 (r1_tgd f) \<and> r1_toc f < 37800 \<and> sfits 8 (r1_af2 f) \<and>
     sfits 16 (r1_af1 f) \<and> sfits 22 (r1_af0 f)"

definition wf_sf2 :: "raw_sf2 \<Rightarrow> bool" where
  "wf_sf2 f \<longleftrightarrow> r2_tow f \<le> 100799 \<and> ufits 8 (r2_iode f) \<and> sfits 16 (r2_crs f) \<and> sfits 16 (r2_dn f) \<and>
     sfits 32 (r2_m0 f) \<and> sfits 16 (r2_cuc f) \<and> ufits 32 (r2_ecc f) \<and> sfits 16 (r2_cus f) \<and>
     ufits 32 (r2_sqrtA f) \<and> r2_toe f < 37800 \<and> ufits 5 (r2_aodo f)"

definition wf_sf3 :: "raw_sf3 \<Rightarrow> bool" where
  "wf_sf3 f \<longleftrightarrow> r3_tow f \<le> 100799 \<and> sfits 16 (r3_cic f) \<and> sfits 32 (r3_omg0 f) \<and> sfits 16 (r3_cis f) \<and>
     sfits 32 (r3_i0 f) \<and> sfits 16 (r3_crc f) \<and> sfits 32 (r3_omega f) \<and> sfits 24 (r3_omgDot f) \<and>
     ufits 8 (r3_iode f) \<and> sfits 14 (r3_idot f)"

lemma length_sf1_bits [simp]: "length (sf1_bits tlm res t f) = 240"
  by (simp add: sf1_bits_def lnav_head_def)

lemma length_sf2_bits [simp]: "length (sf2_bits tlm t f) = 240"
  by (simp add: sf2_bits_def lnav_head_def)

lemma length_sf3_bits [simp]: "length (sf3_bits tlm t f) = 240"
  by (simp add: sf3_bits_def lnav_head_def)

lemma lnav_words_reads:
  "length bits = 240 \<Longrightarrow> reads (NewBitReaderN (lnav_pack (lnav_words bits)) 240) bits"
  using lnav_reads [of "lnav_words bits"] by (simp add: lnav_bits_words)

text \<open>Decoding a well-parity frame starts from its header fields.\<close>

lemma head_reads:
  assumes "reads r (lnav_head tlm tow alert as i t @ body)" "length body = 192" "tow \<le> 100799" "i < 8"
  shows "getu r (field 1 1) 8 = 0x8B" "getu r (field 2 1) 17 = of_nat tow"
    "getu r (field 2 18) 1 = of_bool alert" "getu r (field 2 19) 1 = of_bool as" "getu r (field 2 20) 3 = of_nat i"
  using assms(2-4)
  by (simp_all add: field_def reads_getu [OF assms(1)] lnav_head_def slice_simps)

lemma iodc_join:
  assumes "x < 1024"
  shows "push_bit 8 (of_nat (x div 256)) OR of_nat (x mod 256) = (of_nat x :: u64)"
proof -
  have "push_bit 8 (of_nat (x div 256)) AND (of_nat (x mod 256) :: u64) = 0"
    by (rule bit_word_eqI) (auto simp: bit_and_iff bit_push_bit_iff bit_of_nat_iff dest: no_bit_nat [of "x mod 256" 8, simplified])
  then have "push_bit 8 (of_nat (x div 256)) OR of_nat (x mod 256) =
      push_bit 8 (of_nat (x div 256)) + (of_nat (x mod 256) :: u64)"
    by (simp add: disjunctive_add_eq_or)
  also have "\<dots> = of_nat ((x div 256) * 256 + x mod 256)"
    by (simp only: push_bit_eq_mult of_nat_add of_nat_mult) simp
  finally show ?thesis by simp
qed

definition sf1_value :: "raw_sf1 \<Rightarrow> gps_subframe" where
  "sf1_value f = sf0\<lparr>sf_SubframeID := 1, sf_TOW := real (r1_tow f) * 6, sf_Alert := r1_alert f, sf_AntiSpoof := r1_as f,
     sf_WN := int (r1_wn f), sf_URAIndex := int (r1_ura f), sf_Health := int (r1_health f),
     sf_IODC := int (r1_iodc f), sf_Toc := real (r1_toc f) * 16,
     sf_TGD := real_of_int (r1_tgd f) / 2 ^ 31, sf_Af2 := real_of_int (r1_af2 f) / 2 ^ 55,
     sf_Af1 := real_of_int (r1_af1 f) / 2 ^ 43, sf_Af0 := real_of_int (r1_af0 f) / 2 ^ 31\<rparr>"

definition sf2_value :: "raw_sf2 \<Rightarrow> gps_subframe" where
  "sf2_value f = sf0\<lparr>sf_SubframeID := 2, sf_TOW := real (r2_tow f) * 6, sf_Alert := r2_alert f, sf_AntiSpoof := r2_as f,
     sf_FitIntervalFlag := r2_fit f, sf_AODO := int (r2_aodo f) * 900, sf_IODE := int (r2_iode f),
     sf_Toe := real (r2_toe f) * 16,
     sf_eph := eph0\<lparr>eph_Crs := real_of_int (r2_crs f) / 2 ^ 5,
       eph_DeltaN := real_of_int (r2_dn f) / 2 ^ 43 * Pi,
       eph_M0 := real_of_int (r2_m0 f) / 2 ^ 31 * Pi,
       eph_Cuc := real_of_int (r2_cuc f) / 2 ^ 29,
       eph_Ecc := real (r2_ecc f) / 2 ^ 33,
       eph_Cus := real_of_int (r2_cus f) / 2 ^ 29,
       eph_SqrtA := real (r2_sqrtA f) / 2 ^ 19,
       eph_Toe := real (r2_toe f) * 16\<rparr>\<rparr>"

definition sf3_value :: "raw_sf3 \<Rightarrow> gps_subframe" where
  "sf3_value f = sf0\<lparr>sf_SubframeID := 3, sf_TOW := real (r3_tow f) * 6, sf_Alert := r3_alert f, sf_AntiSpoof := r3_as f,
     sf_IODE := int (r3_iode f),
     sf_eph := eph0\<lparr>eph_Cic := real_of_int (r3_cic f) / 2 ^ 29,
       eph_Omega0 := real_of_int (r3_omg0 f) / 2 ^ 31 * Pi,
       eph_Cis := real_of_int (r3_cis f) / 2 ^ 29,
       eph_I0 := real_of_int (r3_i0 f) / 2 ^ 31 * Pi,
       eph_Crc := real_of_int (r3_crc f) / 2 ^ 5,
       eph_Omega := real_of_int (r3_omega f) / 2 ^ 31 * Pi,
       eph_OmegaDot := real_of_int (r3_omgDot f) / 2 ^ 43 * Pi,
       eph_IDot := real_of_int (r3_idot f) / 2 ^ 43 * Pi\<rparr>\<rparr>"

text \<open>The head of the decoder, on a frame with valid parity and a given header.\<close>

definition head_sf :: "nat \<Rightarrow> nat \<Rightarrow> bool \<Rightarrow> bool \<Rightarrow> gps_subframe" where
  "head_sf i tow alert as = sf0\<lparr>sf_SubframeID := int i, sf_TOW := real tow * 6, sf_Alert := alert, sf_AntiSpoof := as\<rparr>"

lemma decode_head:
  assumes "bits = lnav_head tlm tow alert as i t @ body" "length body = 192" "tow \<le> 100799" "i \<in> {1, 2, 3}"
  shows "DecodeGPSLNAV (lnav_words bits) =
    (let r = NewBitReaderN (lnav_pack (lnav_words bits)) 240; sf = head_sf i tow alert as
     in if i = 1 then (if sf_Toc (decodeGPSSf1 r sf) \<ge> weekSeconds then Inl ErrBadEpoch else Inr (decodeGPSSf1 r sf))
        else if i = 2 then (if sf_Toe (decodeGPSSf2 r sf) \<ge> weekSeconds then Inl ErrBadEpoch else Inr (decodeGPSSf2 r sf))
        else Inr (decodeGPSSf3 r sf))"
proof -
  have l: "length bits = 240" using assms by (simp add: lnav_head_def)
  have R: "reads (NewBitReaderN (lnav_pack (lnav_words bits)) 240) (lnav_head tlm tow alert as i t @ body)"
    using lnav_words_reads [OF l] assms(1) by simp
  have i8: "i < 8" using assms(4) by auto
  note h = head_reads [OF R assms(2,3) i8]
  have t: "tow < 2 ^ 64" "tow \<le> 100799" using assms(3) by simp_all
  show ?thesis
    using assms(4) t
    unfolding DecodeGPSLNAV_def Let_def h
    by (elim insertE emptyE) (simp_all add: lnav_words_parity head_sf_def read_values go_int_def)
qed

lemma read_sf1:
  assumes "wf_sf1 f" and R: "reads r (sf1_bits tlm res t f)"
  shows "decodeGPSSf1 r (head_sf 1 (r1_tow f) (r1_alert f) (r1_as f)) = sf1_value f"
proof -
  note rd = reads_getu [OF R] reads_gets [OF R]
  have "r1_iodc f div 256 < 4" using assms(1) by (auto simp: wf_sf1_def fits_defs)
  then show ?thesis
    using assms(1)
    by (simp add: decodeGPSSf1_def Let_def field_def rd sf1_bits_def lnav_head_def slice_simps wf_sf1_def fits_defs
        read_values iodc_join head_sf_def sf1_value_def scale_defs)
qed

lemma decode_sf1:
  assumes "wf_sf1 f"
  shows "DecodeGPSLNAV (lnav_words (sf1_bits tlm res t f)) = Inr (sf1_value f)"
proof -
  note v = read_sf1 [OF assms lnav_words_reads [OF length_sf1_bits], of tlm res t]
  have "sf_Toc (sf1_value f) < weekSeconds"
    using assms by (simp add: sf1_value_def wf_sf1_def scale_defs)
  then show ?thesis
    using assms v by (subst decode_head [OF sf1_bits_def]) (simp_all add: wf_sf1_def Let_def)
qed

lemma read_sf2:
  assumes "wf_sf2 f" and R: "reads r (sf2_bits tlm t f)"
  shows "decodeGPSSf2 r (head_sf 2 (r2_tow f) (r2_alert f) (r2_as f)) = sf2_value f"
proof -
  note rd = reads_getu [OF R] reads_gets [OF R] reads_getcs_contig [OF R] reads_getcu_contig [OF R]
  show ?thesis
    using assms(1)
    by (simp add: decodeGPSSf2_def Let_def field_def rd sf2_bits_def lnav_head_def slice_simps wf_sf2_def fits_defs
        read_values sf0_def head_sf_def sf2_value_def scale_defs)
qed

lemma decode_sf2:
  assumes "wf_sf2 f"
  shows "DecodeGPSLNAV (lnav_words (sf2_bits tlm t f)) = Inr (sf2_value f)"
proof -
  note v = read_sf2 [OF assms lnav_words_reads [OF length_sf2_bits], of tlm t]
  have "sf_Toe (sf2_value f) < weekSeconds"
    using assms by (simp add: sf2_value_def wf_sf2_def scale_defs)
  then show ?thesis
    using assms v by (subst decode_head [OF sf2_bits_def]) (simp_all add: wf_sf2_def Let_def)
qed

lemma read_sf3:
  assumes "wf_sf3 f" and R: "reads r (sf3_bits tlm t f)"
  shows "decodeGPSSf3 r (head_sf 3 (r3_tow f) (r3_alert f) (r3_as f)) = sf3_value f"
proof -
  note rd = reads_getu [OF R] reads_gets [OF R] reads_getcs_contig [OF R]
  show ?thesis
    using assms(1)
    by (simp add: decodeGPSSf3_def Let_def field_def rd sf3_bits_def lnav_head_def slice_simps wf_sf3_def fits_defs
        read_values sf0_def head_sf_def sf3_value_def scale_defs)
qed

lemma decode_sf3:
  assumes "wf_sf3 f"
  shows "DecodeGPSLNAV (lnav_words (sf3_bits tlm t f)) = Inr (sf3_value f)"
proof -
  note v = read_sf3 [OF assms lnav_words_reads [OF length_sf3_bits], of tlm t]
  then show ?thesis
    using assms by (subst decode_head [OF sf3_bits_def]) (simp_all add: wf_sf3_def Let_def)
qed

section \<open>Assembling the decoded subframes\<close>

definition lnav_eph :: "GNSSID \<Rightarrow> int \<Rightarrow> raw_sf2 \<Rightarrow> raw_sf3 \<Rightarrow> ephemeris" where
  "lnav_eph i svid f2 f3 = eph0\<lparr>eph_ID := i, eph_SVID := svid,
     eph_Crs := real_of_int (r2_crs f2) / 2 ^ 5,
     eph_DeltaN := real_of_int (r2_dn f2) / 2 ^ 43 * Pi,
     eph_M0 := real_of_int (r2_m0 f2) / 2 ^ 31 * Pi,
     eph_Cuc := real_of_int (r2_cuc f2) / 2 ^ 29,
     eph_Ecc := real (r2_ecc f2) / 2 ^ 33,
     eph_Cus := real_of_int (r2_cus f2) / 2 ^ 29,
     eph_SqrtA := real (r2_sqrtA f2) / 2 ^ 19,
     eph_Toe := real (r2_toe f2) * 16,
     eph_Cic := real_of_int (r3_cic f3) / 2 ^ 29,
     eph_Omega0 := real_of_int (r3_omg0 f3) / 2 ^ 31 * Pi,
     eph_Cis := real_of_int (r3_cis f3) / 2 ^ 29,
     eph_I0 := real_of_int (r3_i0 f3) / 2 ^ 31 * Pi,
     eph_Crc := real_of_int (r3_crc f3) / 2 ^ 5,
     eph_Omega := real_of_int (r3_omega f3) / 2 ^ 31 * Pi,
     eph_OmegaDot := real_of_int (r3_omgDot f3) / 2 ^ 43 * Pi,
     eph_IDot := real_of_int (r3_idot f3) / 2 ^ 43 * Pi\<rparr>"

definition lnav_clk :: "GNSSID \<Rightarrow> raw_sf1 \<Rightarrow> clock_model" where
  "lnav_clk i f1 = \<lparr>clk_ID = i, clk_Af0 = real_of_int (r1_af0 f1) / 2 ^ 31,
     clk_Af1 = real_of_int (r1_af1 f1) / 2 ^ 43, clk_Af2 = real_of_int (r1_af2 f1) / 2 ^ 55,
     clk_Toc = real (r1_toc f1) * 16, clk_TGD = real_of_int (r1_tgd f1) / 2 ^ 31\<rparr>"

lemma int_and_255: "int x AND 0xFF = int (x mod 256)"
proof -
  have "(0xFF :: int) = mask 8" by (simp add: mask_eq_exp_minus_1)
  then show ?thesis by (simp only: take_bit_eq_mask [symmetric]) (simp add: take_bit_eq_mod zmod_int)
qed

definition decode_assemble_lnav ::
  "GNSSID \<Rightarrow> int \<Rightarrow> u32 list \<Rightarrow> u32 list \<Rightarrow> u32 list \<Rightarrow> frame_error + ephemeris \<times> clock_model" where
  "decode_assemble_lnav i svid w1 w2 w3 =
     (case (DecodeGPSLNAV w1, DecodeGPSLNAV w2, DecodeGPSLNAV w3) of
        (Inr s1, Inr s2, Inr s3) \<Rightarrow> AssembleGPS i svid (Some s1) (Some s2) (Some s3)
      | (Inl e, _, _) \<Rightarrow> Inl e | (_, Inl e, _) \<Rightarrow> Inl e | (_, _, Inl e) \<Rightarrow> Inl e)"

text \<open>Each subframe decoder leaves the header and the other subframes' fields alone.\<close>

lemma decode_frame:
  "sf_TOW (decodeGPSSf1 r sf) = sf_TOW sf" "sf_TOW (decodeGPSSf2 r sf) = sf_TOW sf" "sf_TOW (decodeGPSSf3 r sf) = sf_TOW sf"
  "sf_SubframeID (decodeGPSSf1 r sf) = sf_SubframeID sf" "sf_SubframeID (decodeGPSSf2 r sf) = sf_SubframeID sf"
  "sf_SubframeID (decodeGPSSf3 r sf) = sf_SubframeID sf" "sf_Toe (decodeGPSSf1 r sf) = sf_Toe sf"
  "sf_Toe (decodeGPSSf3 r sf) = sf_Toe sf" "sf_Toc (decodeGPSSf2 r sf) = sf_Toc sf" "sf_Toc (decodeGPSSf3 r sf) = sf_Toc sf"
  "sf_Almanac (decodeGPSSf1 r sf) = sf_Almanac sf" "sf_Almanac (decodeGPSSf2 r sf) = sf_Almanac sf"
  "sf_Almanac (decodeGPSSf3 r sf) = sf_Almanac sf"
  "sf_Toc sf0 < weekSeconds" "sf_Toe sf0 < weekSeconds" "sf_Almanac sf0 = None"
  by (simp_all add: decodeGPSSf1_def decodeGPSSf2_def decodeGPSSf3_def Let_def sf0_def scale_defs)

lemma decodeLNAVAlmanac_toa: "decodeLNAVAlmanac r = Inr (Some a) \<Longrightarrow> la_Toa a \<le> 602112"
  unfolding decodeLNAVAlmanac_def Let_def by (simp only: split: if_splits) auto

text \<open>A concrete broadcast.\<close>

definition ex_sf1 :: raw_sf1 where
  "ex_sf1 = \<lparr>r1_tow = 70000, r1_alert = False, r1_as = True, r1_wn = 357, r1_codeL2 = 1, r1_ura = 2, r1_health = 0,
     r1_iodc = 0x15C, r1_tgd = - 23, r1_toc = 25200, r1_af2 = 0, r1_af1 = - 31, r1_af0 = 123456\<rparr>"

definition ex_sf2 :: raw_sf2 where
  "ex_sf2 = \<lparr>r2_tow = 70001, r2_alert = False, r2_as = True, r2_iode = 0x5C, r2_crs = - 812, r2_dn = 13021,
     r2_m0 = - 1812345678, r2_cuc = - 711, r2_ecc = 98765432, r2_cus = 4321, r2_sqrtA = 2702009102,
     r2_toe = 25200, r2_fit = False, r2_aodo = 31\<rparr>"

definition ex_sf3 :: raw_sf3 where
  "ex_sf3 = \<lparr>r3_tow = 70002, r3_alert = False, r3_as = True, r3_cic = 12, r3_omg0 = - 2012345678, r3_cis = - 45,
     r3_i0 = 657123456, r3_crc = 7321, r3_omega = 1234567890, r3_omgDot = - 23456, r3_iode = 0x5C, r3_idot = 321\<rparr>"

lemma wf_ex_sf1: "wf_sf1 ex_sf1"
  by (simp add: wf_sf1_def ex_sf1_def fits_defs)

lemma wf_ex_sf2: "wf_sf2 ex_sf2"
  by (simp add: wf_sf2_def ex_sf2_def fits_defs)

lemma wf_ex_sf3: "wf_sf3 ex_sf3"
  by (simp add: wf_sf3_def ex_sf3_def fits_defs)

section \<open>Properties\<close>

text \<open>C8: Round trip through the whole LNAV path: three subframes laid out bit for bit as IS-GPS-200 prescribes,
  with valid parity and arbitrary contents in the telemetry and reserved bits, decode and assemble to
  exactly the scaled values of their fields, provided the issue-of-data tags agree; if they disagree
  the set is refused with the issue-of-data error.\<close>

theorem LNAV_roundtrip:
  assumes "wf_sf1 f1" "wf_sf2 f2" "wf_sf3 f3"
  shows "decode_assemble_lnav i svid (lnav_words (sf1_bits tlm1 res t1 f1)) (lnav_words (sf2_bits tlm2 t2 f2))
      (lnav_words (sf3_bits tlm3 t3 f3)) =
    (if r2_iode f2 = r3_iode f3 \<and> r2_iode f2 = r1_iodc f1 mod 256
     then Inr (lnav_eph i svid f2 f3, lnav_clk i f1) else Inl ErrIODMismatch)"
proof -
  have "sf_SubframeID (sf1_value f1) = 1" "sf_SubframeID (sf2_value f2) = 2" "sf_SubframeID (sf3_value f3) = 3"
    "sf_IODE (sf2_value f2) = int (r2_iode f2)" "sf_IODE (sf3_value f3) = int (r3_iode f3)"
    "sf_IODC (sf1_value f1) AND 0xFF = int (r1_iodc f1 mod 256)"
    by (simp_all add: sf1_value_def sf2_value_def sf3_value_def int_and_255)
  then have "AssembleGPS i svid (Some (sf1_value f1)) (Some (sf2_value f2)) (Some (sf3_value f3)) =
      (if r2_iode f2 = r3_iode f3 \<and> r2_iode f2 = r1_iodc f1 mod 256
       then Inr (lnav_eph i svid f2 f3, lnav_clk i f1) else Inl ErrIODMismatch)"
    unfolding AssembleGPS_def Let_def
    by (simp add: sf1_value_def sf2_value_def sf3_value_def lnav_eph_def lnav_clk_def eph0_def)
  then show ?thesis
    unfolding decode_assemble_lnav_def decode_sf1 [OF assms(1)] decode_sf2 [OF assms(2)] decode_sf3 [OF assms(3)]
    by simp
qed

theorem LNAV_roundtrip_witness:
  "decode_assemble_lnav GPS 5 (lnav_words (sf1_bits 7 9 1 ex_sf1)) (lnav_words (sf2_bits 7 2 ex_sf2))
     (lnav_words (sf3_bits 7 3 ex_sf3)) = Inr (lnav_eph GPS 5 ex_sf2 ex_sf3, lnav_clk GPS ex_sf1)"
proof -
  have "r2_iode ex_sf2 = r3_iode ex_sf3 \<and> r2_iode ex_sf2 = r1_iodc ex_sf1 mod 256"
    by (simp add: ex_sf1_def ex_sf2_def ex_sf3_def)
  then show ?thesis by (subst LNAV_roundtrip [OF wf_ex_sf1 wf_ex_sf2 wf_ex_sf3]) simp
qed

text \<open>What an accepted subframe guarantees: ten words, valid parity, the telemetry preamble, a time of
  week inside the week, an identifier from 1 to 5, clock and ephemeris epochs inside the week, and an
  almanac reference time within its documented bound.\<close>

lemma DecodeGPSLNAV_accepted:
  assumes "DecodeGPSLNAV words = Inr sf"
  shows "10 \<le> length words \<and> lnavParityOK (take 10 words) \<and> bslice 0 8 (lnav_bits words) = ubits_enc 8 0x8B \<and>
    0 \<le> sf_TOW sf \<and> sf_TOW sf < weekSeconds \<and> sf_SubframeID sf \<in> {1..5} \<and>
    sf_Toc sf < weekSeconds \<and> sf_Toe sf < weekSeconds \<and>
    (case sf_Almanac sf of None \<Rightarrow> True | Some a \<Rightarrow> la_Toa a \<le> 602112)"
proof -
  let ?r = "NewBitReaderN (lnav_pack words) 240"
  have g: "10 \<le> length words" "lnavParityOK (take 10 words)"
    using assms by (auto simp: DecodeGPSLNAV_def not_less split: if_splits)
  note R = lnav_reads [OF g(1)]
  have b: "nat_of_bits (bslice 0 8 (lnav_bits words)) < 2 ^ 8"
    using nat_of_bits_less [of "bslice 0 8 (lnav_bits words)"] g(1) by simp
  have "getu ?r (field 1 1) 8 = of_nat (nat_of_bits (bslice 0 8 (lnav_bits words)))"
    using reads_getu [OF R, of 0 8] g(1) by (simp add: field_def)
  moreover have p: "getu ?r (field 1 1) 8 = 0x8B" and t: "getu ?r (field 2 1) 17 \<le> 100799"
    using assms g by (auto simp: DecodeGPSLNAV_def Let_def split: if_splits)
  ultimately have "nat_of_bits (bslice 0 8 (lnav_bits words)) = nat_of_bits (ubits_enc 8 0x8B)"
    using b by (simp add: of_nat_eq_lit(1))
  then have "bslice 0 8 (lnav_bits words) = ubits_enc 8 0x8B"
    using g(1) by (intro nat_of_bits_inject) simp_all
  moreover have "0 \<le> fl (getu ?r (field 2 1) 17)" "fl (getu ?r (field 2 1) 17) \<le> 100799"
    using fl_nonneg fl_mono [OF t] by simp_all
  moreover have "sf_TOW sf = fl (getu ?r (field 2 1) 17) * 6 \<and> sf_SubframeID sf \<in> {1..5} \<and>
      sf_Toc sf < weekSeconds \<and> sf_Toe sf < weekSeconds \<and>
      (case sf_Almanac sf of None \<Rightarrow> True | Some a \<Rightarrow> la_Toa a \<le> 602112)"
    using assms g p t
    by (auto simp: DecodeGPSLNAV_def Let_def not_less not_le decode_frame go_int_def
        dest: decodeLNAVAlmanac_toa split: if_splits sum.splits option.splits)
  ultimately show ?thesis using g by (simp add: scale_defs)
qed

text \<open>A subframe that passes the parity gate decodes like the encoded subframe of its 240 packed bits.\<close>

lemma decode_packed:
  assumes "length words = 10" "lnavParityOK words"
  shows "DecodeGPSLNAV words = DecodeGPSLNAV (lnav_words (lnav_bits words))"
proof -
  have "lnav_pack (lnav_words (lnav_bits words)) = lnav_pack words"
    using assms(1) by (intro bits_of_inject) (simp_all add: bits_lnav_pack lnav_bits_words)
  then show ?thesis using assms lnav_words_parity [of "lnav_bits words"] by (simp add: DecodeGPSLNAV_def)
qed

text \<open>The source data of a subframe as transmitted, and the same data with every word complemented whose predecessor ends in a one.\<close>

definition before :: "u32 list \<Rightarrow> nat \<Rightarrow> u32" where
  "before txs i = (if i = 0 then 0 else txs ! (i - 1))"

definition source_bits :: "u32 list \<Rightarrow> bool list" where
  "source_bits txs = concat (map (\<lambda>i. map (\<lambda>b. bit (fst (GPSParity (txs ! i) 0 (before txs i))) (23 - b)) [0..<24]) [0..<10])"

definition complemented_bits :: "u32 list \<Rightarrow> bool list" where
  "complemented_bits txs = concat (map (\<lambda>i. map (\<lambda>b. bit (fst (GPSParity (txs ! i) 0 (before txs i))) (23 - b) \<noteq> bit (before txs i) 0) [0..<24]) [0..<10])"

lemma fst_GPSParity: "fst (GPSParity w d29 d30) = (if bit d30 0 then data24 w XOR 0xFFFFFF else data24 w)"
  unfolding GPSParity_def Let_def data24_def [symmetric] data24_mask30 complement_data24 fst_conv
  by (simp add: and_one_eq odd_iff_mod_2_eq_one bit_0)

lemma length_delivered [simp]: "length (delivered d txs) = length txs"
  by (induction txs arbitrary: d) simp_all

lemma nth_delivered: "i < length txs \<Longrightarrow> delivered d txs ! i = txs ! i XOR (if (if i = 0 then d else txs ! (i - 1) AND 1) = 1 then 0x3FFFFFFF else 0)"
  by (induction txs arbitrary: d i) (auto simp: nth_Cons')

lemma data24_delivered: "i < length txs \<Longrightarrow> data24 (delivered 0 txs ! i) = fst (GPSParity (txs ! i) 0 (before txs i))"
  by (simp add: nth_delivered fst_GPSParity before_def data24_invert and_one_eq odd_iff_mod_2_eq_one bit_0)

lemma lnav_bits_nth: "length words = 10 \<Longrightarrow> lnav_bits words = concat (map (\<lambda>i. data_bits (words ! i)) [0..<10])"
  using map_nth_take [of 10 words data_bits] by (simp add: lnav_bits_def)

text \<open>C33: The parity gate accepts both forms of a subframe, but the decoder reads the packed words alone. For ten words as transmitted that pass the raw parity check, the form a normalising
  receiver delivers decodes as the subframe of the source data that \<open>GPSParity\<close> recovers, and the transmitted form decodes as a subframe in which every word whose predecessor ends in a one
  carries the complement of its source data: nothing undoes the inversion.\<close>

theorem raw_form_complemented:
  assumes "length txs = 10" "lnavRawParityOK txs"
  shows "lnavParityOK txs \<and> lnavParityOK (delivered 0 txs) \<and>
    DecodeGPSLNAV (delivered 0 txs) = DecodeGPSLNAV (lnav_words (source_bits txs)) \<and>
    DecodeGPSLNAV txs = DecodeGPSLNAV (lnav_words (complemented_bits txs))"
proof -
  have p: "lnavParityOK txs" "lnavParityOK (delivered 0 txs)" using assms(2) normalized_iff_raw [of txs] by (simp_all add: lnavParityOK_def)
  have "lnav_bits (delivered 0 txs) = source_bits txs"
    using assms(1) by (simp add: lnav_bits_nth source_bits_def data_bits_def) (intro arg_cong [where f = concat] map_cong refl, simp add: data24_delivered)
  moreover have "data_bits (txs ! i) = map (\<lambda>b. bit (fst (GPSParity (txs ! i) 0 (before txs i))) (23 - b) \<noteq> bit (before txs i) 0) [0..<24]" for i
    unfolding data_bits_def fst_GPSParity by (cases "bit (before txs i) 0"; intro map_cong refl; simp only: if_True if_False bit_xor_iff bit_mask_numerals) auto
  then have "lnav_bits txs = complemented_bits txs" using assms(1) by (simp add: lnav_bits_nth complemented_bits_def)
  ultimately show ?thesis using p assms(1) decode_packed [of txs] decode_packed [of "delivered 0 txs"] by simp
qed

theorem raw_form_complemented_witness:
  "let txs = [0x22c00012, 0x412c, 0x48d1581, 0x3fffffd6, 0x29, 0x3fffffd6, 0x4a0, 0x2ac48d30, 0x4080e4, 0x10141a9] in
     DecodeGPSLNAV txs = DecodeGPSLNAV (lnav_words (complemented_bits txs)) \<and> DecodeGPSLNAV (delivered 0 txs) = DecodeGPSLNAV (lnav_words (source_bits txs)) \<and>
     complemented_bits txs \<noteq> source_bits txs"
proof -
  have "lnavRawParityOK [0x22c00012, 0x412c, 0x48d1581, 0x3fffffd6, 0x29, 0x3fffffd6, 0x4a0, 0x2ac48d30, 0x4080e4, 0x10141a9]"
    unfolding lnavRawParityOK_def by code_simp
  note t = raw_form_complemented [OF _ this]
  have "complemented_bits [0x22c00012, 0x412c, 0x48d1581, 0x3fffffd6, 0x29, 0x3fffffd6, 0x4a0, 0x2ac48d30, 0x4080e4, 0x10141a9] \<noteq>
      source_bits [0x22c00012, 0x412c, 0x48d1581, 0x3fffffd6, 0x29, 0x3fffffd6, 0x4a0, 0x2ac48d30, 0x4080e4, 0x10141a9]" by code_simp
  with t show ?thesis unfolding Let_def by simp
qed

end
