(* ===== verification/GpsCnav.thy ===== *)
theory GpsCnav
  imports FrameScale
begin

text \<open>
  \<^verbatim>\<open>gnss/frame/gps_cnav.go\<close>: the GPS and QZSS CNAV message decoder (message types 10, 11 and 30 to 37)
  and the assembly of an ephemeris with an optional, coherent clock.
\<close>

section \<open>Messages\<close>

definition cnavArefGPS :: real where "cnavArefGPS = 26559710"
definition cnavArefQZSS :: real where "cnavArefQZSS = 42164200"
definition cnavOmgD :: real where "cnavOmgD = - 2.6 / 10 ^ 9"
definition cnavT0 :: real where "cnavT0 = 300"

record gps_cnav =
  cn_MsgType :: int
  cn_PRN :: int
  cn_TOW :: real
  cn_Alert :: bool
  cn_eph :: ephemeris
  cn_clk :: clock_model
  cn_hasEph2 :: bool
  cn_hasClk :: bool
  cn_WN :: int
  cn_Health :: int
  cn_URAED :: int
  cn_TGD :: real
  cn_ISCL1CA :: real
  cn_ISCL2C :: real
  cn_ISCL5I5 :: real
  cn_ISCL5Q5 :: real

definition cnav0 :: gps_cnav where
  "cnav0 = \<lparr>cn_MsgType = 0, cn_PRN = 0, cn_TOW = 0, cn_Alert = False, cn_eph = eph0, cn_clk = clk0,
     cn_hasEph2 = False, cn_hasClk = False, cn_WN = 0, cn_Health = 0, cn_URAED = 0, cn_TGD = 0,
     cn_ISCL1CA = 0, cn_ISCL2C = 0, cn_ISCL5I5 = 0, cn_ISCL5Q5 = 0\<rparr>"

section \<open>The decoder\<close>

text \<open>The three arms of the message-type switch.\<close>

definition decode_mt10 :: "GNSSID \<Rightarrow> bit_reader \<Rightarrow> gps_cnav \<Rightarrow> frame_error + gps_cnav" where
  "decode_mt10 i r m =
     (let semi = Pi;
          m1 = m\<lparr>cn_WN := go_int (getu r 38 13), cn_Health := go_int (getu r 51 3), cn_URAED := gets r 65 5,
                 cn_eph := (cn_eph m)\<lparr>eph_Toe := fl (getu r 70 11) * cnavT0\<rparr>\<rparr>
      in if eph_Toe (cn_eph m1) \<ge> weekSeconds then Inl ErrBadEpoch
         else
          (let aref = (if i = QZSS then cnavArefQZSS else cnavArefGPS)
           in Inr (m1\<lparr>cn_eph := (cn_eph m1)\<lparr>
                eph_SqrtA := sqrt (aref + real_of_int (gets r 81 26) * p2m9),
                eph_ADot := real_of_int (gets r 107 25) * p2m21,
                eph_DeltaN := real_of_int (gets r 132 17) * p2m44 * semi,
                eph_DeltaNDot := real_of_int (gets r 149 23) * p2m57 * semi,
                eph_M0 := real_of_int (gets r 172 33) * p2m32 * semi,
                eph_Ecc := fl (getu r 205 33) * p2m34,
                eph_Omega := real_of_int (gets r 238 33) * p2m32 * semi\<rparr>\<rparr>)))"

definition decode_mt11 :: "bit_reader \<Rightarrow> gps_cnav \<Rightarrow> frame_error + gps_cnav" where
  "decode_mt11 r m =
     (let semi = Pi;
          m1 = m\<lparr>cn_eph := (cn_eph m)\<lparr>eph_Toe := fl (getu r 38 11) * cnavT0\<rparr>\<rparr>
      in if eph_Toe (cn_eph m1) \<ge> weekSeconds then Inl ErrBadEpoch
         else Inr (m1\<lparr>cn_eph := (cn_eph m1)\<lparr>
                eph_Omega0 := real_of_int (gets r 49 33) * p2m32 * semi,
                eph_I0 := real_of_int (gets r 82 33) * p2m32 * semi,
                eph_OmegaDot := (cnavOmgD + real_of_int (gets r 115 17) * p2m44) * semi,
                eph_IDot := real_of_int (gets r 132 15) * p2m44 * semi,
                eph_Cis := real_of_int (gets r 147 16) * p2m30,
                eph_Cic := real_of_int (gets r 163 16) * p2m30,
                eph_Crs := real_of_int (gets r 179 24) * p2m8,
                eph_Crc := real_of_int (gets r 203 24) * p2m8,
                eph_Cus := real_of_int (gets r 227 21) * p2m30,
                eph_Cuc := real_of_int (gets r 248 21) * p2m30\<rparr>,
              cn_hasEph2 := True\<rparr>))"

definition decode_mt30_37 :: "GNSSID \<Rightarrow> bit_reader \<Rightarrow> gps_cnav \<Rightarrow> frame_error + gps_cnav" where
  "decode_mt30_37 i r m =
     (let m1 = m\<lparr>cn_clk := clk0\<lparr>clk_ID := i,
                 clk_Toc := fl (getu r 60 11) * cnavT0,
                 clk_Af0 := real_of_int (gets r 71 26) * p2m35,
                 clk_Af1 := real_of_int (gets r 97 20) * p2m48,
                 clk_Af2 := real_of_int (gets r 117 10) * p2m60\<rparr>\<rparr>
      in if clk_Toc (cn_clk m1) \<ge> weekSeconds then Inl ErrBadEpoch
         else
          (let m2 = m1\<lparr>cn_hasClk := True\<rparr>
           in if cn_MsgType m = 30 then
                (let tgd = real_of_int (gets r 127 13) * p2m35
                 in Inr (m2\<lparr>cn_TGD := tgd,
                      cn_clk := (cn_clk m2)\<lparr>clk_TGD := tgd\<rparr>,
                      cn_ISCL1CA := real_of_int (gets r 140 13) * p2m35,
                      cn_ISCL2C := real_of_int (gets r 153 13) * p2m35,
                      cn_ISCL5I5 := real_of_int (gets r 166 13) * p2m35,
                      cn_ISCL5Q5 := real_of_int (gets r 179 13) * p2m35\<rparr>))
              else Inr m2))"

definition cnav_header :: "bit_reader \<Rightarrow> gps_cnav" where
  "cnav_header r = cnav0\<lparr>cn_MsgType := go_int (getu r 14 6), cn_PRN := go_int (getu r 8 6),
     cn_TOW := fl (getu r 20 17) * 6, cn_Alert := getu r 37 1 \<noteq> 0\<rparr>"

definition DecodeGPSCNAV :: "GNSSID \<Rightarrow> u32 list \<Rightarrow> frame_error + gps_cnav" where
  "DecodeGPSCNAV i words =
     (if length words < 10 then Inl ErrShortFrame
      else
       (let buf = be_words 10 words
        in if buf ! 0 \<noteq> 0x8B then Inl ErrBadPreamble
           else case CheckCRC24QBits buf 0 300 of
             Inl e \<Rightarrow> Inl e
           | Inr False \<Rightarrow> Inl ErrBadCRC
           | Inr True \<Rightarrow>
               (let r = NewBitReaderN buf 320;
                    m = cnav_header r
                in if cn_TOW m \<ge> weekSeconds then Inl ErrBadEpoch
                   else if cn_MsgType m = 10 then decode_mt10 i r m
                   else if cn_MsgType m = 11 then decode_mt11 r m
                   else if cn_MsgType m \<ge> 30 \<and> cn_MsgType m \<le> 37 then decode_mt30_37 i r m
                   else Inr m)))"

section \<open>Assembly\<close>

definition AssembleGPSCNAV ::
  "GNSSID \<Rightarrow> int \<Rightarrow> gps_cnav option \<Rightarrow> gps_cnav option \<Rightarrow> gps_cnav option
   \<Rightarrow> frame_error + ephemeris \<times> clock_model \<times> bool" where
  "AssembleGPSCNAV i svid om10 om11 omClk =
     (case (om10, om11) of
        (Some m10, Some m11) \<Rightarrow>
          if cn_MsgType m10 \<noteq> 10 \<or> cn_MsgType m11 \<noteq> 11 \<or> \<not> cn_hasEph2 m11 then Inl ErrWrongMsgType
          else if cn_PRN m10 \<noteq> svid \<or> cn_PRN m11 \<noteq> svid then Inl ErrPRNMismatch
          else if eph_Toe (cn_eph m10) \<noteq> eph_Toe (cn_eph m11) then Inl ErrIODMismatch
          else
            (let e11 = cn_eph m11;
                 eph = (cn_eph m10)\<lparr>eph_Omega0 := eph_Omega0 e11, eph_I0 := eph_I0 e11,
                   eph_OmegaDot := eph_OmegaDot e11, eph_IDot := eph_IDot e11,
                   eph_Cis := eph_Cis e11, eph_Cic := eph_Cic e11, eph_Crs := eph_Crs e11,
                   eph_Crc := eph_Crc e11, eph_Cus := eph_Cus e11, eph_Cuc := eph_Cuc e11,
                   eph_ID := i, eph_SVID := svid\<rparr>;
                 (clk, clkOK) =
                   (case omClk of
                      None \<Rightarrow> (clk0, False)
                    | Some mClk \<Rightarrow>
                        if cn_hasClk mClk \<and> cn_PRN mClk = svid \<and> clk_Toc (cn_clk mClk) = eph_Toe (cn_eph m10)
                        then (cn_clk mClk, True) else (clk0, False))
             in Inr (eph, clk\<lparr>clk_ID := i\<rparr>, clkOK))
      | _ \<Rightarrow> Inl ErrShortFrame)"

section \<open>The CRC gate\<close>

definition cnav_protected :: "u32 list \<Rightarrow> bool list" where
  "cnav_protected ws = bslice 0 300 (bits_of (be_words 10 ws))"

lemma DecodeGPSCNAV_gate:
  assumes "DecodeGPSCNAV i ws = Inr m"
  shows "10 \<le> length ws" "crc_reg (cnav_protected ws) = 0"
proof -
  show l: "10 \<le> length ws" using assms by (auto simp: DecodeGPSCNAV_def not_less split: if_splits)
  have "CheckCRC24QBits (be_words 10 ws) 0 300 = Inr True"
    using assms by (auto simp: DecodeGPSCNAV_def Let_def split: if_splits sum.splits bool.splits)
  then show "crc_reg (cnav_protected ws) = 0"
    using l by (simp add: CheckCRC24QBits_reg cnav_protected_def bslice_def)
qed

interpretation cnav: crc_gated "DecodeGPSCNAV i" cnav_protected for i
  by unfold_locales (rule DecodeGPSCNAV_gate(2))

section \<open>The interface document's layout\<close>

record raw_mt10 =
  m10_prn :: nat
  m10_tow :: nat
  m10_alert :: bool
  m10_wn :: nat
  m10_health :: nat
  m10_top :: nat
  m10_uraed :: int
  m10_toe :: nat
  m10_dA :: int
  m10_Adot :: int
  m10_dn :: int
  m10_dndot :: int
  m10_m0 :: int
  m10_ecc :: nat
  m10_omega :: int

record raw_mt11 =
  m11_prn :: nat
  m11_tow :: nat
  m11_alert :: bool
  m11_toe :: nat
  m11_omg0 :: int
  m11_i0 :: int
  m11_omgDot :: int
  m11_idot :: int
  m11_cis :: int
  m11_cic :: int
  m11_crs :: int
  m11_crc :: int
  m11_cus :: int
  m11_cuc :: int

record raw_mt30 =
  m30_prn :: nat
  m30_tow :: nat
  m30_alert :: bool
  m30_top :: nat
  m30_toc :: nat
  m30_af0 :: int
  m30_af1 :: int
  m30_af2 :: int
  m30_tgd :: int
  m30_isc1 :: int
  m30_isc2 :: int
  m30_isc5i :: int
  m30_isc5q :: int

definition cnav_head :: "nat \<Rightarrow> nat \<Rightarrow> nat \<Rightarrow> bool \<Rightarrow> bool list" where
  "cnav_head prn mt tow alert = ubits_enc 8 0x8B @ ubits_enc 6 prn @ ubits_enc 6 mt @ ubits_enc 17 tow @ [alert]"

definition mt10_bits :: "nat \<Rightarrow> raw_mt10 \<Rightarrow> bool list" where
  "mt10_bits res f = cnav_head (m10_prn f) 10 (m10_tow f) (m10_alert f) @
     ubits_enc 13 (m10_wn f) @ ubits_enc 3 (m10_health f) @ ubits_enc 11 (m10_top f) @ sbits_enc 5 (m10_uraed f) @
     ubits_enc 11 (m10_toe f) @ sbits_enc 26 (m10_dA f) @ sbits_enc 25 (m10_Adot f) @ sbits_enc 17 (m10_dn f) @
     sbits_enc 23 (m10_dndot f) @ sbits_enc 33 (m10_m0 f) @ ubits_enc 33 (m10_ecc f) @ sbits_enc 33 (m10_omega f) @
     ubits_enc 5 res"

definition mt11_bits :: "nat \<Rightarrow> raw_mt11 \<Rightarrow> bool list" where
  "mt11_bits res f = cnav_head (m11_prn f) 11 (m11_tow f) (m11_alert f) @
     ubits_enc 11 (m11_toe f) @ sbits_enc 33 (m11_omg0 f) @ sbits_enc 33 (m11_i0 f) @ sbits_enc 17 (m11_omgDot f) @
     sbits_enc 15 (m11_idot f) @ sbits_enc 16 (m11_cis f) @ sbits_enc 16 (m11_cic f) @ sbits_enc 24 (m11_crs f) @
     sbits_enc 24 (m11_crc f) @ sbits_enc 21 (m11_cus f) @ sbits_enc 21 (m11_cuc f) @ ubits_enc 7 res"

definition mt30_bits :: "nat \<Rightarrow> raw_mt30 \<Rightarrow> bool list" where
  "mt30_bits res f = cnav_head (m30_prn f) 30 (m30_tow f) (m30_alert f) @
     ubits_enc 22 (m30_top f) @ ubits_enc 11 (m30_toc f) @ sbits_enc 26 (m30_af0 f) @ sbits_enc 20 (m30_af1 f) @
     sbits_enc 10 (m30_af2 f) @ sbits_enc 13 (m30_tgd f) @ sbits_enc 13 (m30_isc1 f) @ sbits_enc 13 (m30_isc2 f) @
     sbits_enc 13 (m30_isc5i f) @ sbits_enc 13 (m30_isc5q f) @ ubits_enc 84 res"

text \<open>The ten words of a 276-bit message: its CRC, then twenty bits of padding.\<close>

definition cnav_words :: "nat \<Rightarrow> bool list \<Rightarrow> u32 list" where
  "cnav_words pad msg = words32 10 (crc_seal msg @ ubits_enc 20 pad)"

definition wf_mt10 :: "raw_mt10 \<Rightarrow> bool" where
  "wf_mt10 f \<longleftrightarrow> ufits 6 (m10_prn f) \<and> m10_tow f < 100800 \<and> ufits 13 (m10_wn f) \<and> ufits 3 (m10_health f) \<and>
     sfits 5 (m10_uraed f) \<and> m10_toe f < 2016 \<and> sfits 26 (m10_dA f) \<and> sfits 25 (m10_Adot f) \<and> sfits 17 (m10_dn f) \<and>
     sfits 23 (m10_dndot f) \<and> sfits 33 (m10_m0 f) \<and> ufits 33 (m10_ecc f) \<and> sfits 33 (m10_omega f)"

definition wf_mt11 :: "raw_mt11 \<Rightarrow> bool" where
  "wf_mt11 f \<longleftrightarrow> ufits 6 (m11_prn f) \<and> m11_tow f < 100800 \<and> m11_toe f < 2016 \<and> sfits 33 (m11_omg0 f) \<and>
     sfits 33 (m11_i0 f) \<and> sfits 17 (m11_omgDot f) \<and> sfits 15 (m11_idot f) \<and> sfits 16 (m11_cis f) \<and>
     sfits 16 (m11_cic f) \<and> sfits 24 (m11_crs f) \<and> sfits 24 (m11_crc f) \<and> sfits 21 (m11_cus f) \<and> sfits 21 (m11_cuc f)"

definition wf_mt30 :: "raw_mt30 \<Rightarrow> bool" where
  "wf_mt30 f \<longleftrightarrow> ufits 6 (m30_prn f) \<and> m30_tow f < 100800 \<and> m30_toc f < 2016 \<and> sfits 26 (m30_af0 f) \<and>
     sfits 20 (m30_af1 f) \<and> sfits 10 (m30_af2 f) \<and> sfits 13 (m30_tgd f) \<and> sfits 13 (m30_isc1 f) \<and>
     sfits 13 (m30_isc2 f) \<and> sfits 13 (m30_isc5i f) \<and> sfits 13 (m30_isc5q f)"

lemma length_mt_bits [simp]:
  "length (mt10_bits res f) = 276" "length (mt11_bits res g) = 276" "length (mt30_bits res h) = 276"
  by (simp_all add: mt10_bits_def mt11_bits_def mt30_bits_def cnav_head_def)

lemma bits_cnav_words:
  "length msg = 276 \<Longrightarrow> bits_of (be_words 10 (cnav_words pad msg)) = msg @ reg_bits (crc_reg msg) @ ubits_enc 20 pad"
  by (simp add: cnav_words_def bits_of_words32 crc_seal_def)

definition cnav_reader :: "nat \<Rightarrow> bool list \<Rightarrow> bit_reader" where
  "cnav_reader pad msg = NewBitReaderN (be_words 10 (cnav_words pad msg)) 320"

lemma cnav_reads:
  "length msg = 276 \<Longrightarrow> reads (cnav_reader pad msg) (msg @ reg_bits (crc_reg msg) @ ubits_enc 20 pad)"
  unfolding cnav_reader_def
  by (rule reads_NewBitReaderN [where rest = "[]"]) (simp_all add: bits_cnav_words, simp_all add: cnav_words_def)

lemma first_byte:
  assumes "bits_of (b # bs) = ubits_enc 8 x @ rest"
  shows "b = of_nat x"
proof -
  have "bits_of_byte b = ubits_enc 8 x" using assms by (simp add: bits_of_Cons)
  moreover have "bits_of_byte (of_nat x) = ubits_enc 8 x"
    by (auto simp: bits_of_byte_def ubits_enc_def bit_of_nat_iff)
  ultimately show ?thesis by (intro bits_of_byte_inject) simp
qed

lemma cnav_gates:
  assumes "msg = cnav_head prn mt tow alert @ body" "length msg = 276"
  shows "be_words 10 (cnav_words pad msg) ! 0 = 0x8B"
    and "CheckCRC24QBits (be_words 10 (cnav_words pad msg)) 0 300 = Inr True"
proof -
  have len: "length (be_words 10 (cnav_words pad msg)) = 40" by (simp add: cnav_words_def)
  then obtain b bs where b: "be_words 10 (cnav_words pad msg) = b # bs"
    by (cases "be_words 10 (cnav_words pad msg)") auto
  have "bits_of (b # bs) = ubits_enc 8 0x8B @ ubits_enc 6 prn @ ubits_enc 6 mt @ ubits_enc 17 tow @ [alert] @ body @
      reg_bits (crc_reg msg) @ ubits_enc 20 pad"
    using bits_cnav_words [OF assms(2), of pad] b assms(1) by (simp add: cnav_head_def)
  then have "b = of_nat 0x8B" by (rule first_byte)
  then show "be_words 10 (cnav_words pad msg) ! 0 = 0x8B" by (simp add: b)
  show "CheckCRC24QBits (be_words 10 (cnav_words pad msg)) 0 300 = Inr True"
    using len assms(2) by (simp add: CheckCRC24QBits_reg bits_cnav_words crc_reg_append_self)
qed

definition head_cnav :: "nat \<Rightarrow> nat \<Rightarrow> nat \<Rightarrow> bool \<Rightarrow> gps_cnav" where
  "head_cnav prn mt tow alert = cnav0\<lparr>cn_MsgType := int mt, cn_PRN := int prn, cn_TOW := real tow * 6, cn_Alert := alert\<rparr>"

lemma cnav_header_reads:
  assumes R: "reads r (cnav_head prn mt tow alert @ rest)" and "prn < 64" "mt < 64" "tow < 100800"
  shows "cnav_header r = head_cnav prn mt tow alert"
  using assms(2-4)
  by (simp add: cnav_header_def reads_getu [OF R] cnav_head_def slice_simps read_values head_cnav_def)

lemma decode_cnav_head:
  assumes "msg = cnav_head prn mt tow alert @ body" "length msg = 276" "prn < 64" "mt < 64" "tow < 100800"
  shows "DecodeGPSCNAV i (cnav_words pad msg) =
    (let r = cnav_reader pad msg; m = head_cnav prn mt tow alert
     in if mt = 10 then decode_mt10 i r m else if mt = 11 then decode_mt11 r m
        else if 30 \<le> mt \<and> mt \<le> 37 then decode_mt30_37 i r m else Inr m)"
proof -
  note R = cnav_reads [OF assms(2), of pad]
  have h: "cnav_header (cnav_reader pad msg) = head_cnav prn mt tow alert"
    using R assms(1,3-5) by (intro cnav_header_reads) simp_all
  have "DecodeGPSCNAV i (cnav_words pad msg) =
      (let r = cnav_reader pad msg; m = cnav_header r in if cn_TOW m \<ge> weekSeconds then Inl ErrBadEpoch
         else if cn_MsgType m = 10 then decode_mt10 i r m
         else if cn_MsgType m = 11 then decode_mt11 r m
         else if cn_MsgType m \<ge> 30 \<and> cn_MsgType m \<le> 37 then decode_mt30_37 i r m else Inr m)"
    unfolding DecodeGPSCNAV_def Let_def cnav_gates [OF assms(1,2)] cnav_reader_def
    by (simp add: cnav_words_def)
  then show ?thesis
    using assms(5) by (simp add: h Let_def head_cnav_def scale_defs)
qed

definition mt10_value :: "GNSSID \<Rightarrow> raw_mt10 \<Rightarrow> gps_cnav" where
  "mt10_value i f = (head_cnav (m10_prn f) 10 (m10_tow f) (m10_alert f))\<lparr>
     cn_WN := int (m10_wn f), cn_Health := int (m10_health f), cn_URAED := m10_uraed f,
     cn_eph := eph0\<lparr>eph_Toe := real (m10_toe f) * 300,
       eph_SqrtA := sqrt ((if i = QZSS then 42164200 else 26559710) + real_of_int (m10_dA f) / 2 ^ 9),
       eph_ADot := real_of_int (m10_Adot f) / 2 ^ 21,
       eph_DeltaN := real_of_int (m10_dn f) / 2 ^ 44 * Pi,
       eph_DeltaNDot := real_of_int (m10_dndot f) / 2 ^ 57 * Pi,
       eph_M0 := real_of_int (m10_m0 f) / 2 ^ 32 * Pi,
       eph_Ecc := real (m10_ecc f) / 2 ^ 34,
       eph_Omega := real_of_int (m10_omega f) / 2 ^ 32 * Pi\<rparr>\<rparr>"

definition mt11_value :: "raw_mt11 \<Rightarrow> gps_cnav" where
  "mt11_value f = (head_cnav (m11_prn f) 11 (m11_tow f) (m11_alert f))\<lparr>
     cn_eph := eph0\<lparr>eph_Toe := real (m11_toe f) * 300,
       eph_Omega0 := real_of_int (m11_omg0 f) / 2 ^ 32 * Pi,
       eph_I0 := real_of_int (m11_i0 f) / 2 ^ 32 * Pi,
       eph_OmegaDot := (- 2.6 / 10 ^ 9 + real_of_int (m11_omgDot f) / 2 ^ 44) * Pi,
       eph_IDot := real_of_int (m11_idot f) / 2 ^ 44 * Pi,
       eph_Cis := real_of_int (m11_cis f) / 2 ^ 30,
       eph_Cic := real_of_int (m11_cic f) / 2 ^ 30,
       eph_Crs := real_of_int (m11_crs f) / 2 ^ 8,
       eph_Crc := real_of_int (m11_crc f) / 2 ^ 8,
       eph_Cus := real_of_int (m11_cus f) / 2 ^ 30,
       eph_Cuc := real_of_int (m11_cuc f) / 2 ^ 30\<rparr>,
     cn_hasEph2 := True\<rparr>"

definition mt30_clk :: "GNSSID \<Rightarrow> raw_mt30 \<Rightarrow> clock_model" where
  "mt30_clk i f = \<lparr>clk_ID = i, clk_Af0 = real_of_int (m30_af0 f) / 2 ^ 35, clk_Af1 = real_of_int (m30_af1 f) / 2 ^ 48,
     clk_Af2 = real_of_int (m30_af2 f) / 2 ^ 60, clk_Toc = real (m30_toc f) * 300,
     clk_TGD = real_of_int (m30_tgd f) / 2 ^ 35\<rparr>"

definition mt30_value :: "GNSSID \<Rightarrow> raw_mt30 \<Rightarrow> gps_cnav" where
  "mt30_value i f = (head_cnav (m30_prn f) 30 (m30_tow f) (m30_alert f))\<lparr>
     cn_clk := mt30_clk i f, cn_hasClk := True,
     cn_TGD := real_of_int (m30_tgd f) / 2 ^ 35,
     cn_ISCL1CA := real_of_int (m30_isc1 f) / 2 ^ 35, cn_ISCL2C := real_of_int (m30_isc2 f) / 2 ^ 35,
     cn_ISCL5I5 := real_of_int (m30_isc5i f) / 2 ^ 35, cn_ISCL5Q5 := real_of_int (m30_isc5q f) / 2 ^ 35\<rparr>"

lemmas cnav_consts = cnavArefGPS_def cnavArefQZSS_def cnavOmgD_def cnavT0_def

lemma read_mt10:
  assumes R: "reads r (mt10_bits res f @ rest)" and "wf_mt10 f"
  shows "decode_mt10 i r (head_cnav (m10_prn f) 10 (m10_tow f) (m10_alert f)) = Inr (mt10_value i f)"
  using assms(2)
  by (simp add: decode_mt10_def Let_def reads_getu [OF R] reads_gets [OF R] mt10_bits_def cnav_head_def slice_simps
      wf_mt10_def fits_defs read_values head_cnav_def cnav0_def mt10_value_def scale_defs cnav_consts)

lemma read_mt11:
  assumes R: "reads r (mt11_bits res f @ rest)" and "wf_mt11 f"
  shows "decode_mt11 r (head_cnav (m11_prn f) 11 (m11_tow f) (m11_alert f)) = Inr (mt11_value f)"
  using assms(2)
  by (simp add: decode_mt11_def Let_def reads_getu [OF R] reads_gets [OF R] mt11_bits_def cnav_head_def slice_simps
      wf_mt11_def fits_defs read_values head_cnav_def cnav0_def mt11_value_def scale_defs cnav_consts)

lemma read_mt30:
  assumes R: "reads r (mt30_bits res f @ rest)" and "wf_mt30 f"
  shows "decode_mt30_37 i r (head_cnav (m30_prn f) 30 (m30_tow f) (m30_alert f)) = Inr (mt30_value i f)"
  using assms(2)
  by (simp add: decode_mt30_37_def Let_def reads_getu [OF R] reads_gets [OF R] mt30_bits_def cnav_head_def slice_simps
      wf_mt30_def fits_defs read_values head_cnav_def cnav0_def clk0_def mt30_value_def mt30_clk_def scale_defs cnav_consts)

lemma decode_mt10_words:
  assumes "wf_mt10 f"
  shows "DecodeGPSCNAV i (cnav_words pad (mt10_bits res f)) = Inr (mt10_value i f)"
proof -
  note R = cnav_reads [of "mt10_bits res f" pad, simplified]
  show ?thesis
    using assms read_mt10 [OF R]
    by (subst decode_cnav_head [OF mt10_bits_def]) (simp_all add: wf_mt10_def fits_defs)
qed

lemma decode_mt11_words:
  assumes "wf_mt11 f"
  shows "DecodeGPSCNAV i (cnav_words pad (mt11_bits res f)) = Inr (mt11_value f)"
proof -
  note R = cnav_reads [of "mt11_bits res f" pad, simplified]
  show ?thesis
    using assms read_mt11 [OF R]
    by (subst decode_cnav_head [OF mt11_bits_def]) (simp_all add: wf_mt11_def fits_defs)
qed

lemma decode_mt30_words:
  assumes "wf_mt30 f"
  shows "DecodeGPSCNAV i (cnav_words pad (mt30_bits res f)) = Inr (mt30_value i f)"
proof -
  note R = cnav_reads [of "mt30_bits res f" pad, simplified]
  show ?thesis
    using assms read_mt30 [OF R]
    by (subst decode_cnav_head [OF mt30_bits_def]) (simp_all add: wf_mt30_def fits_defs)
qed

section \<open>Properties\<close>

definition cnav_eph :: "GNSSID \<Rightarrow> int \<Rightarrow> raw_mt10 \<Rightarrow> raw_mt11 \<Rightarrow> ephemeris" where
  "cnav_eph i svid f g = (cn_eph (mt10_value i f))\<lparr>eph_ID := i, eph_SVID := svid,
     eph_Omega0 := real_of_int (m11_omg0 g) / 2 ^ 32 * Pi,
     eph_I0 := real_of_int (m11_i0 g) / 2 ^ 32 * Pi,
     eph_OmegaDot := (- 2.6 / 10 ^ 9 + real_of_int (m11_omgDot g) / 2 ^ 44) * Pi,
     eph_IDot := real_of_int (m11_idot g) / 2 ^ 44 * Pi,
     eph_Cis := real_of_int (m11_cis g) / 2 ^ 30,
     eph_Cic := real_of_int (m11_cic g) / 2 ^ 30,
     eph_Crs := real_of_int (m11_crs g) / 2 ^ 8,
     eph_Crc := real_of_int (m11_crc g) / 2 ^ 8,
     eph_Cus := real_of_int (m11_cus g) / 2 ^ 30,
     eph_Cuc := real_of_int (m11_cuc g) / 2 ^ 30\<rparr>"

definition decode_assemble_cnav ::
  "GNSSID \<Rightarrow> int \<Rightarrow> u32 list \<Rightarrow> u32 list \<Rightarrow> u32 list \<Rightarrow> frame_error + ephemeris \<times> clock_model \<times> bool" where
  "decode_assemble_cnav i svid w10 w11 w30 =
     (case (DecodeGPSCNAV i w10, DecodeGPSCNAV i w11, DecodeGPSCNAV i w30) of
        (Inr a, Inr b, Inr c) \<Rightarrow> AssembleGPSCNAV i svid (Some a) (Some b) (Some c)
      | (Inl e, _, _) \<Rightarrow> Inl e | (_, Inl e, _) \<Rightarrow> Inl e | (_, _, Inl e) \<Rightarrow> Inl e)"

text \<open>A concrete broadcast.\<close>

definition ex_mt10 :: raw_mt10 where
  "ex_mt10 = \<lparr>m10_prn = 5, m10_tow = 54321, m10_alert = False, m10_wn = 2405, m10_health = 0, m10_top = 1080,
     m10_uraed = - 1, m10_toe = 1092, m10_dA = - 123456, m10_Adot = 321, m10_dn = 4100, m10_dndot = - 12,
     m10_m0 = - 3123456789, m10_ecc = 123456789, m10_omega = 2123456789\<rparr>"

definition ex_mt11 :: raw_mt11 where
  "ex_mt11 = \<lparr>m11_prn = 5, m11_tow = 54323, m11_alert = False, m11_toe = 1092, m11_omg0 = - 1234567890,
     m11_i0 = 1312345678, m11_omgDot = - 321, m11_idot = 77, m11_cis = - 12, m11_cic = 33, m11_crs = - 4567,
     m11_crc = 65432, m11_cus = 8765, m11_cuc = - 432\<rparr>"

definition ex_mt30 :: raw_mt30 where
  "ex_mt30 = \<lparr>m30_prn = 5, m30_tow = 54325, m30_alert = False, m30_top = 0, m30_toc = 1092, m30_af0 = - 1234567,
     m30_af1 = 321, m30_af2 = 0, m30_tgd = - 321, m30_isc1 = 12, m30_isc2 = - 4, m30_isc5i = 55, m30_isc5q = 56\<rparr>"

lemma wf_ex_cnav: "wf_mt10 ex_mt10" "wf_mt11 ex_mt11" "wf_mt30 ex_mt30"
  by (simp_all add: wf_mt10_def wf_mt11_def wf_mt30_def ex_mt10_def ex_mt11_def ex_mt30_def fits_defs)

text \<open>C13: Round trip through the whole CNAV path: messages 10, 11 and 30 laid out as IS-GPS-200 prescribes, with
  their CRC and arbitrary reserved and padding bits, decode and assemble to the scaled values of their
  fields. The set is refused when a message names another satellite or the ephemeris epochs
  differ, and the clock is attached exactly when it names the same satellite and the same epoch.\<close>

theorem CNAV_roundtrip:
  assumes "wf_mt10 f" "wf_mt11 g" "wf_mt30 h"
  shows "decode_assemble_cnav i svid (cnav_words pad1 (mt10_bits res1 f)) (cnav_words pad2 (mt11_bits res2 g))
      (cnav_words pad3 (mt30_bits res3 h)) =
    (if int (m10_prn f) \<noteq> svid \<or> int (m11_prn g) \<noteq> svid then Inl ErrPRNMismatch
     else if m10_toe f \<noteq> m11_toe g then Inl ErrIODMismatch
     else if int (m30_prn h) = svid \<and> m30_toc h = m10_toe f
          then Inr (cnav_eph i svid f g, mt30_clk i h, True)
          else Inr (cnav_eph i svid f g, clk0\<lparr>clk_ID := i\<rparr>, False))"
proof -
  have "AssembleGPSCNAV i svid (Some (mt10_value i f)) (Some (mt11_value g)) (Some (mt30_value i h)) =
    (if int (m10_prn f) \<noteq> svid \<or> int (m11_prn g) \<noteq> svid then Inl ErrPRNMismatch
     else if m10_toe f \<noteq> m11_toe g then Inl ErrIODMismatch
     else if int (m30_prn h) = svid \<and> m30_toc h = m10_toe f
          then Inr (cnav_eph i svid f g, mt30_clk i h, True)
          else Inr (cnav_eph i svid f g, clk0\<lparr>clk_ID := i\<rparr>, False))"
    by (simp add: AssembleGPSCNAV_def Let_def mt10_value_def mt11_value_def mt30_value_def head_cnav_def cnav0_def
        cnav_eph_def mt30_clk_def eph0_def)
  then show ?thesis
    unfolding decode_assemble_cnav_def decode_mt10_words [OF assms(1)] decode_mt11_words [OF assms(2)]
      decode_mt30_words [OF assms(3)] by simp
qed

theorem CNAV_roundtrip_witness:
  "decode_assemble_cnav GPS 5 (cnav_words 1 (mt10_bits 2 ex_mt10)) (cnav_words 3 (mt11_bits 4 ex_mt11))
     (cnav_words 5 (mt30_bits 6 ex_mt30)) = Inr (cnav_eph GPS 5 ex_mt10 ex_mt11, mt30_clk GPS ex_mt30, True)"
  by (subst CNAV_roundtrip [OF wf_ex_cnav]) (simp add: ex_mt10_def ex_mt11_def ex_mt30_def)

text \<open>CNAV integrity end to end: if a delivered message is accepted, then every delivery whose 300 message
  bits differ from it only within 24 consecutive bits is refused, whatever type or satellite the
  damaged header claims.\<close>

lemma CNAV_burst_rejected:
  assumes "DecodeGPSCNAV i ws = Inr m" "cnav_protected ws = xs @ e @ ys" "cnav_protected ws' = xs @ e' @ ys"
    and "length e = length e'" "length e \<le> 24" "e \<noteq> e'"
  shows "\<exists>err. DecodeGPSCNAV i ws' = Inl err"
proof (cases "DecodeGPSCNAV i ws'")
  case (Inr m')
  with cnav.burst_rejected [OF assms, of m'] show ?thesis by simp
qed simp

lemma cnav_protected_words: "length msg = 276 \<Longrightarrow> cnav_protected (cnav_words pad msg) = crc_seal msg"
  by (simp add: cnav_protected_def bits_cnav_words crc_seal_def bslice_def)

end
