(* ===== verification/SbasL1.thy ===== *)
theory SbasL1
  imports FrameScale
begin

text \<open>
  \<^verbatim>\<open>gnss/frame/sbas_l1.go\<close>: the header of an SBAS L1 message behind its CRC, and the provider table;
  and \<^verbatim>\<open>gnss/frame/navic.go\<close>, the deferred NavIC decoder.
\<close>

definition sbasPreambles :: "u64 list" where
  "sbasPreambles = [0x53, 0x9A, 0xC6]"

record sbas_l1 =
  sb_PRN :: int
  sb_Type :: int
  sb_Provider :: string
  sb_DoNotUse :: bool
  sb_PreambleOK :: bool

definition SBASProvider :: "int \<Rightarrow> string" where
  "SBASProvider prn =
     (if prn \<in> {131, 133, 135, 138} then ''WAAS''
      else if prn \<in> {120, 121, 123, 126, 136} then ''EGNOS''
      else if prn \<in> {129, 137} then ''MSAS''
      else if prn \<in> {127, 128, 132} then ''GAGAN''
      else if prn \<in> {125, 140, 141} then ''SDCM''
      else if prn \<in> {130, 143, 144} then ''BDSBAS''
      else if prn \<in> {134} then ''KASS''
      else if prn \<in> {122, 124} then ''SouthPAN''
      else ''SBAS'')"

definition DecodeSBASL1 :: "int \<Rightarrow> u32 list \<Rightarrow> frame_error + sbas_l1" where
  "DecodeSBASL1 prn words =
     (if length words < 8 then Inl ErrShortFrame
      else
       (let buf = be_words 8 words
        in case CheckCRC24QBits buf 0 250 of
             Inl e \<Rightarrow> Inl e
           | Inr False \<Rightarrow> Inl ErrBadCRC
           | Inr True \<Rightarrow>
               (let r = NewBitReaderN buf 256;
                    pre = getu r 0 8;
                    mt = getu r 8 6
                in Inr \<lparr>sb_PRN = prn, sb_Type = go_int mt, sb_Provider = SBASProvider prn,
                        sb_DoNotUse = (mt = 0), sb_PreambleOK = list_ex (\<lambda>p. pre = p) sbasPreambles\<rparr>)))"

definition DecodeNavICSPS :: "u32 list \<Rightarrow> frame_error option" where
  "DecodeNavICSPS words = Some ErrNavICDeferred"

section \<open>The CRC gate\<close>

definition sbas_protected :: "u32 list \<Rightarrow> bool list" where
  "sbas_protected ws = bslice 0 250 (bits_of (be_words 8 ws))"

lemma DecodeSBASL1_gate:
  assumes "DecodeSBASL1 prn ws = Inr m"
  shows "8 \<le> length ws" "crc_reg (sbas_protected ws) = 0"
proof -
  show l: "8 \<le> length ws" using assms by (auto simp: DecodeSBASL1_def not_less split: if_splits)
  have "CheckCRC24QBits (be_words 8 ws) 0 250 = Inr True"
    using assms by (auto simp: DecodeSBASL1_def Let_def split: if_splits sum.splits bool.splits)
  then show "crc_reg (sbas_protected ws) = 0"
    using l by (simp add: CheckCRC24QBits_reg sbas_protected_def bslice_def)
qed

interpretation sbas: crc_gated "DecodeSBASL1 prn" sbas_protected for prn
  by unfold_locales (rule DecodeSBASL1_gate(2))

section \<open>Messages built from a body\<close>

definition sbas_words :: "nat \<Rightarrow> nat \<Rightarrow> nat \<Rightarrow> nat \<Rightarrow> u32 list" where
  "sbas_words pre mt body pad =
     words32 8 (crc_seal (ubits_enc 8 pre @ ubits_enc 6 mt @ ubits_enc 212 body) @ ubits_enc 6 pad)"

lemma bits_sbas_words:
  "bits_of (be_words 8 (sbas_words pre mt body pad)) =
   crc_seal (ubits_enc 8 pre @ ubits_enc 6 mt @ ubits_enc 212 body) @ ubits_enc 6 pad"
  by (simp add: sbas_words_def bits_of_words32)

lemma DecodeSBASL1_words:
  assumes "pre < 256" "mt < 64"
  shows "DecodeSBASL1 prn (sbas_words pre mt body pad) =
    Inr \<lparr>sb_PRN = prn, sb_Type = int mt, sb_Provider = SBASProvider prn, sb_DoNotUse = (mt = 0),
         sb_PreambleOK = (pre \<in> {0x53, 0x9A, 0xC6})\<rparr>"
proof -
  let ?w = "sbas_words pre mt body pad"
  have R: "reads (NewBitReaderN (be_words 8 ?w) 256) (crc_seal (ubits_enc 8 pre @ ubits_enc 6 mt @ ubits_enc 212 body) @ ubits_enc 6 pad)"
    by (rule reads_NewBitReaderN [where rest = "[]"]) (simp_all add: bits_sbas_words, simp_all add: sbas_words_def)
  have c: "CheckCRC24QBits (be_words 8 ?w) 0 250 = Inr True"
  proof -
    have "length (be_words 8 ?w) = 32" by (simp add: sbas_words_def)
    then show ?thesis by (simp add: CheckCRC24QBits_reg bits_sbas_words)
  qed
  have "getu (NewBitReaderN (be_words 8 ?w) 256) 0 8 = of_nat pre" "getu (NewBitReaderN (be_words 8 ?w) 256) 8 6 = of_nat mt"
    using assms by (simp_all add: reads_getu [OF R] crc_seal_def slice_simps)
  then show ?thesis
    using assms c by (simp add: DecodeSBASL1_def Let_def read_values sbasPreambles_def sbas_words_def [of pre mt body pad])
qed

section \<open>Properties\<close>

text \<open>A do-not-use alarm is never fabricated by a transmission error: if a message is accepted and some other
  delivery differs from it only within 24 consecutive bits of the 250-bit message, that delivery is
  refused, so it cannot report message type 0.\<close>

lemma SBAS_no_false_alarm:
  assumes "DecodeSBASL1 prn ws = Inr m" "sbas_protected ws = xs @ e @ ys" "sbas_protected ws' = xs @ e' @ ys"
    and "length e = length e'" "length e \<le> 24" "e \<noteq> e'"
  shows "\<not> (\<exists>m'. DecodeSBASL1 prn ws' = Inr m' \<and> sb_DoNotUse m')"
  using sbas.burst_rejected [OF assms] by blast

end
