(* ===== verification/GalileoInav.thy ===== *)
theory GalileoInav
  imports FrameScale
begin

text \<open>
  \<^verbatim>\<open>gnss/frame/galileo_inav.go\<close>: the Galileo I/NAV page decoder. A page is delivered as eight words, an
  even and an odd part; the CRC-protected message and the 128-bit navigation word are both gathered
  from the two parts. Word types 1 to 5 carry the ephemeris, clock and health, 7 to 10 the almanac of
  three satellites and the GGTO; the assemblers join words of one data set.
\<close>

section \<open>Bit copying and the CRC message\<close>

definition src_bit :: "u8 list \<Rightarrow> nat \<Rightarrow> bool" where
  "src_bit src sp \<longleftrightarrow> (src ! (sp div 8)) AND push_bit (7 - sp mod 8) 1 \<noteq> 0"

definition copyGalileoBits :: "u8 list \<Rightarrow> nat \<Rightarrow> u8 list \<Rightarrow> nat \<Rightarrow> nat \<Rightarrow> u8 list" where
  "copyGalileoBits dst dstOff src srcOff n = put_bits dst dstOff (map (\<lambda>i. src_bit src (srcOff + i)) [0..<n])"

definition galileoINAVCRCMessage :: "u8 list \<Rightarrow> bool \<Rightarrow> u8 list" where
  "galileoINAVCRCMessage page withCRC =
     (let bitLen = (if withCRC then 196 + 24 else 196);
          oddBits = (if withCRC then 82 + 24 else 82);
          msg0 = replicate ((bitLen + 7) div 8) 0;
          msg1 = copyGalileoBits msg0 0 page 0 114
      in copyGalileoBits msg1 114 page 128 oddBits)"

definition StampGalileoINAVCRC :: "u32 list \<Rightarrow> frame_error + u32 list" where
  "StampGalileoINAVCRC words =
     (if length words < 8 then Inr words
      else
       (let page = be_words 8 words
        in case CRC24QBits (galileoINAVCRCMessage page False) 0 196 of
             Inl e \<Rightarrow> Inl e
           | Inr crc \<Rightarrow>
               (let page' = write_bits page 210 (map (\<lambda>i. crc AND push_bit (23 - i) 1 \<noteq> 0) [0..<24])
                in Inr (be_unwords 8 page' @ drop 8 words))))"

section \<open>Words\<close>

definition galT0 :: real where "galT0 = 60"
definition galT0G :: real where "galT0G = 3600"

record gal_almanac =
  ga_SVID :: int
  ga_IODa :: int
  ga_WNa :: int
  ga_T0a :: real
  ga_SqrtA :: real
  ga_Ecc :: real
  ga_I0 :: real
  ga_Omega0 :: real
  ga_OmegaDot :: real
  ga_Omega :: real
  ga_M0 :: real
  ga_Af0 :: real
  ga_Af1 :: real
  ga_E5bSHS :: int
  ga_E1BSHS :: int

definition galm0 :: gal_almanac where
  "galm0 = \<lparr>ga_SVID = 0, ga_IODa = 0, ga_WNa = 0, ga_T0a = 0, ga_SqrtA = 0, ga_Ecc = 0, ga_I0 = 0,
     ga_Omega0 = 0, ga_OmegaDot = 0, ga_Omega = 0, ga_M0 = 0, ga_Af0 = 0, ga_Af1 = 0, ga_E5bSHS = 0, ga_E1BSHS = 0\<rparr>"

record gal_almanac_word =
  gw_IODa :: int
  gw_HasRef :: bool
  gw_WNa :: int
  gw_T0a :: real
  gw_HeadSVID :: int
  gw_head :: gal_almanac
  gw_tail :: gal_almanac

record gal_inav =
  in_Type :: int
  in_IODnav :: int
  in_SVID :: int
  in_SISA :: int
  in_Health :: int
  in_E5bSHS :: int
  in_WN :: int
  in_TOW :: real
  in_E5bDVS :: int
  in_E1BDVS :: int
  in_BGDE1E5a :: real
  in_BGDE1E5b :: real
  in_HasGGTO :: bool
  in_GGTOValid :: bool
  in_A0G :: real
  in_A1G :: real
  in_T0G :: real
  in_WN0G :: int
  in_HasOSNMA :: bool
  in_OSNMA :: u64
  in_Almanac :: "gal_almanac_word option"
  in_eph :: ephemeris
  in_clk :: clock_model
  in_hasClk :: bool

definition inav0 :: gal_inav where
  "inav0 = \<lparr>in_Type = 0, in_IODnav = 0, in_SVID = 0, in_SISA = 0, in_Health = 0, in_E5bSHS = 0, in_WN = 0,
     in_TOW = 0, in_E5bDVS = 0, in_E1BDVS = 0, in_BGDE1E5a = 0, in_BGDE1E5b = 0, in_HasGGTO = False,
     in_GGTOValid = False, in_A0G = 0, in_A1G = 0, in_T0G = 0, in_WN0G = 0, in_HasOSNMA = False, in_OSNMA = 0,
     in_Almanac = None, in_eph = eph0, in_clk = clk0, in_hasClk = False\<rparr>"

section \<open>The almanac words\<close>

definition galAlmanacSqrtA :: real where "galAlmanacSqrtA = sqrt 29600000"
definition galAlmanacI0 :: real where "galAlmanacI0 = 56 / 180"

definition alm_orbit :: "bit_reader \<Rightarrow> int \<Rightarrow> gal_almanac_word \<Rightarrow> gal_almanac_word" where
  "alm_orbit r off a =
     (let semi = Pi;
          svid = getu r off 6;
          dSqrtA = gets r (off + 6) 13;
          ecc = getu r (off + 19) 11;
          omega = gets r (off + 30) 16;
          di = gets r (off + 46) 11
      in a\<lparr>gw_HeadSVID := go_int svid,
           gw_head := (gw_head a)\<lparr>ga_SVID := go_int svid,
             ga_SqrtA := galAlmanacSqrtA + real_of_int dSqrtA / 2 ^ 9,
             ga_Ecc := fl ecc / 2 ^ 16,
             ga_Omega := real_of_int omega / 2 ^ 15 * semi,
             ga_I0 := (galAlmanacI0 + real_of_int di / 2 ^ 14) * semi\<rparr>\<rparr>)"

definition alm_angle :: "bit_reader \<Rightarrow> int \<Rightarrow> real" where
  "alm_angle r off = real_of_int (gets r off 16) / 2 ^ 15 * Pi"

definition alm_rate :: "bit_reader \<Rightarrow> int \<Rightarrow> real" where
  "alm_rate r off = real_of_int (gets r off 11) / 2 ^ 33 * Pi"

definition alm_clock :: "bit_reader \<Rightarrow> int \<Rightarrow> gal_almanac \<Rightarrow> gal_almanac" where
  "alm_clock r off g =
     (let af0 = gets r off 16;
          af1 = gets r (off + 16) 13;
          e5b = getu r (off + 29) 2;
          e1b = getu r (off + 31) 2
      in g\<lparr>ga_Af0 := real_of_int af0 / 2 ^ 19, ga_Af1 := real_of_int af1 / 2 ^ 38,
           ga_E5bSHS := go_int e5b, ga_E1BSHS := go_int e1b\<rparr>)"

definition alm_fields :: "bit_reader \<Rightarrow> int \<Rightarrow> gal_almanac_word \<Rightarrow> gal_almanac_word" where
  "alm_fields r wt a =
     (if wt = 7 then
        (let a1 = alm_orbit r 22 a
         in a1\<lparr>gw_head := (gw_head a1)\<lparr>ga_Omega0 := alm_angle r 79, ga_OmegaDot := alm_rate r 95, ga_M0 := alm_angle r 106\<rparr>\<rparr>)
      else if wt = 8 then
        (let a1 = alm_orbit r 43 (a\<lparr>gw_tail := alm_clock r 10 (gw_tail a)\<rparr>)
         in a1\<lparr>gw_head := (gw_head a1)\<lparr>ga_Omega0 := alm_angle r 100, ga_OmegaDot := alm_rate r 116\<rparr>\<rparr>)
      else if wt = 9 then
        alm_orbit r 71 (a\<lparr>gw_tail := alm_clock r 38 ((gw_tail a)\<lparr>ga_M0 := alm_angle r 22\<rparr>)\<rparr>)
      else if wt = 10 then
        a\<lparr>gw_tail := alm_clock r 53 ((gw_tail a)\<lparr>ga_Omega0 := alm_angle r 10, ga_OmegaDot := alm_rate r 26, ga_M0 := alm_angle r 37\<rparr>)\<rparr>
      else a)"

definition decodeGalileoAlmanacWord :: "bit_reader \<Rightarrow> int \<Rightarrow> frame_error + gal_almanac_word" where
  "decodeGalileoAlmanacWord r wt =
     (let iod = getu r 6 4;
          a = \<lparr>gw_IODa = go_int iod, gw_HasRef = False, gw_WNa = 0, gw_T0a = 0, gw_HeadSVID = 0,
               gw_head = galm0, gw_tail = galm0\<rparr>
      in if wt = 7 \<or> wt = 9 then
           (let a1 = a\<lparr>gw_HasRef := True, gw_WNa := go_int (getu r 10 2), gw_T0a := fl (getu r 12 10) * 600\<rparr>
            in if gw_T0a a1 \<ge> weekSeconds then Inl ErrBadEpoch else Inr (alm_fields r wt a1))
         else Inr (alm_fields r wt a))"

section \<open>The decoder\<close>

definition inav_word1 :: "bit_reader \<Rightarrow> gal_inav \<Rightarrow> frame_error + gal_inav" where
  "inav_word1 r w =
     (let semi = Pi;
          iod = getu r 6 10; t0e = getu r 16 14; m0 = gets r 30 32; ecc = getu r 62 32; sqrtA = getu r 94 32;
          w1 = w\<lparr>in_IODnav := go_int iod, in_eph := (in_eph w)\<lparr>eph_Toe := fl t0e * galT0\<rparr>\<rparr>
      in if eph_Toe (in_eph w1) \<ge> weekSeconds then Inl ErrBadEpoch
         else Inr (w1\<lparr>in_eph := (in_eph w1)\<lparr>eph_M0 := real_of_int m0 * p2m31 * semi,
                eph_Ecc := fl ecc * p2m33, eph_SqrtA := fl sqrtA * p2m19\<rparr>\<rparr>))"

definition inav_word2 :: "bit_reader \<Rightarrow> gal_inav \<Rightarrow> frame_error + gal_inav" where
  "inav_word2 r w =
     (let semi = Pi;
          iod = getu r 6 10; omg0 = gets r 16 32; i0 = gets r 48 32; omega = gets r 80 32; idot = gets r 112 14
      in Inr (w\<lparr>in_IODnav := go_int iod,
           in_eph := (in_eph w)\<lparr>eph_Omega0 := real_of_int omg0 * p2m31 * semi, eph_I0 := real_of_int i0 * p2m31 * semi,
             eph_Omega := real_of_int omega * p2m31 * semi, eph_IDot := real_of_int idot * p2m43 * semi\<rparr>\<rparr>))"

definition inav_word3 :: "bit_reader \<Rightarrow> gal_inav \<Rightarrow> frame_error + gal_inav" where
  "inav_word3 r w =
     (let semi = Pi;
          iod = getu r 6 10; omgDot = gets r 16 24; dn = gets r 40 16; cuc = gets r 56 16; cus = gets r 72 16;
          crc = gets r 88 16; crs = gets r 104 16; sisa = getu r 120 8
      in Inr (w\<lparr>in_IODnav := go_int iod, in_SISA := go_int sisa,
           in_eph := (in_eph w)\<lparr>eph_OmegaDot := real_of_int omgDot * p2m43 * semi, eph_DeltaN := real_of_int dn * p2m43 * semi,
             eph_Cuc := real_of_int cuc * p2m29, eph_Cus := real_of_int cus * p2m29,
             eph_Crc := real_of_int crc * p2m5, eph_Crs := real_of_int crs * p2m5\<rparr>\<rparr>))"

definition inav_word4 :: "bit_reader \<Rightarrow> gal_inav \<Rightarrow> frame_error + gal_inav" where
  "inav_word4 r w =
     (let iod = getu r 6 10; svid = getu r 16 6; cic = gets r 22 16; cis = gets r 38 16; t0c = getu r 54 14;
          af0 = gets r 68 31; af1 = gets r 99 21; af2 = gets r 120 6;
          w1 = w\<lparr>in_IODnav := go_int iod, in_SVID := go_int svid,
                 in_eph := (in_eph w)\<lparr>eph_Cic := real_of_int cic * p2m29, eph_Cis := real_of_int cis * p2m29\<rparr>,
                 in_clk := clk0\<lparr>clk_ID := Galileo, clk_Toc := fl t0c * galT0, clk_Af0 := real_of_int af0 * p2m34,
                   clk_Af1 := real_of_int af1 * p2m46, clk_Af2 := real_of_int af2 * p2m59\<rparr>\<rparr>
      in if clk_Toc (in_clk w1) \<ge> weekSeconds then Inl ErrBadEpoch else Inr (w1\<lparr>in_hasClk := True\<rparr>))"

definition inav_word5 :: "bit_reader \<Rightarrow> gal_inav \<Rightarrow> frame_error + gal_inav" where
  "inav_word5 r w =
     (let bgdA = gets r 47 10; bgdB = gets r 57 10; e5bHealth = getu r 67 2; e1bHealth = getu r 69 2;
          e5bDVS = getu r 71 1; e1bDVS = getu r 72 1; wn = getu r 73 12; tow = getu r 85 20;
          w1 = w\<lparr>in_eph := (in_eph w)\<lparr>eph_ID := Galileo\<rparr>, in_Health := go_int e1bHealth, in_E5bSHS := go_int e5bHealth,
                 in_E5bDVS := go_int e5bDVS, in_E1BDVS := go_int e1bDVS, in_WN := go_int wn, in_TOW := fl tow\<rparr>
      in if in_TOW w1 \<ge> weekSeconds then Inl ErrBadEpoch
         else
          (let bgdScale = 1 / 2 ^ 32
           in Inr (w1\<lparr>in_BGDE1E5a := real_of_int bgdA * bgdScale, in_BGDE1E5b := real_of_int bgdB * bgdScale,
                      in_clk := (in_clk w1)\<lparr>clk_TGD := real_of_int bgdB * bgdScale\<rparr>\<rparr>)))"

definition inav_almanac :: "bit_reader \<Rightarrow> int \<Rightarrow> gal_inav \<Rightarrow> frame_error + gal_inav" where
  "inav_almanac r wt w =
     (case decodeGalileoAlmanacWord r wt of Inl e \<Rightarrow> Inl e | Inr alm \<Rightarrow> Inr (w\<lparr>in_Almanac := Some alm\<rparr>))"

definition inav_word10 :: "bit_reader \<Rightarrow> gal_inav \<Rightarrow> frame_error + gal_inav" where
  "inav_word10 r w =
     (case decodeGalileoAlmanacWord r 10 of
        Inl e \<Rightarrow> Inl e
      | Inr alm \<Rightarrow>
          (let a0gRaw = getu r 86 16; a1gRaw = getu r 102 12; t0gRaw = getu r 114 8; wn0gRaw = getu r 122 6;
               a0g = gets r 86 16; a1g = gets r 102 12
           in Inr (w\<lparr>in_Almanac := Some alm, in_HasGGTO := True,
                in_GGTOValid := \<not> (a0gRaw = 0xFFFF \<and> a1gRaw = 0xFFF \<and> t0gRaw = 0xFF \<and> wn0gRaw = 0x3F),
                in_A0G := real_of_int a0g * p2m35, in_A1G := real_of_int a1g * p2m51,
                in_T0G := fl t0gRaw * galT0G, in_WN0G := go_int wn0gRaw\<rparr>)))"

definition inav_switch :: "bit_reader \<Rightarrow> u64 \<Rightarrow> gal_inav \<Rightarrow> frame_error + gal_inav" where
  "inav_switch r wt w =
     (if wt = 1 then inav_word1 r w
      else if wt = 2 then inav_word2 r w
      else if wt = 3 then inav_word3 r w
      else if wt = 4 then inav_word4 r w
      else if wt = 5 then inav_word5 r w
      else if wt = 7 \<or> wt = 8 \<or> wt = 9 then inav_almanac r (go_int wt) w
      else if wt = 10 then inav_word10 r w
      else Inr w)"

text \<open>The closure \<^verbatim>\<open>put\<close> and the 128-bit navigation word.\<close>

definition put :: "u8 list \<Rightarrow> nat \<Rightarrow> u64 \<Rightarrow> nat \<Rightarrow> u8 list" where
  "put content off v n = put_bits content off (map (\<lambda>i. v AND push_bit (n - 1 - i) 1 \<noteq> 0) [0..<n])"

definition inav_content :: "bit_reader \<Rightarrow> u8 list" where
  "inav_content pr =
     (let e0 = getu pr 2 56; e1 = getu pr 58 56; od = getu pr 130 16
      in put (put (put (replicate 16 0) 0 e0 56) 56 e1 56) 112 od 16)"

definition DecodeGalileoINAV :: "u32 list \<Rightarrow> frame_error + gal_inav" where
  "DecodeGalileoINAV words =
     (if length words < 8 then Inl ErrShortFrame
      else
       (let page = be_words 8 words;
            pr = NewBitReader page;
            evenFlag = getu pr 0 1;
            evenPageType = getu pr 1 1;
            oddFlag = getu pr 128 1;
            oddPageType = getu pr 129 1
        in if evenFlag \<noteq> 0 \<or> oddFlag \<noteq> 1 \<or> evenPageType \<noteq> 0 \<or> oddPageType \<noteq> 0 then Inl ErrGalileoAlertPage
           else case CheckCRC24QBits (galileoINAVCRCMessage page True) 0 220 of
             Inl e \<Rightarrow> Inl e
           | Inr False \<Rightarrow> Inl ErrBadCRC
           | Inr True \<Rightarrow>
               (let r = NewBitReaderN (inav_content pr) 128;
                    wt = getu r 0 6;
                    w0 = inav0\<lparr>in_Type := go_int wt\<rparr>;
                    w = (if wt \<noteq> 63 then w0\<lparr>in_HasOSNMA := True, in_OSNMA := getu pr 146 40\<rparr> else w0)
                in inav_switch r wt w)))"

section \<open>Assembly\<close>

definition CompleteGalileoAlmanac :: "gal_inav option \<Rightarrow> gal_inav option \<Rightarrow> frame_error + gal_almanac" where
  "CompleteGalileoAlmanac first second =
     (case (first, second) of
        (Some f, Some s) \<Rightarrow>
          (case (in_Almanac f, in_Almanac s) of
             (Some h, Some t) \<Rightarrow>
               if in_Type f < 7 \<or> in_Type f > 9 \<or> in_Type s \<noteq> in_Type f + 1 then Inl ErrWrongMsgType
               else if gw_IODa h \<noteq> gw_IODa t then Inl ErrIODMismatch
               else
                 (let tl = gw_tail t;
                      o0 = gw_head h;
                      o1 = (if in_Type s = 9 then o0\<lparr>ga_M0 := ga_M0 tl\<rparr>
                            else if in_Type s = 10 then o0\<lparr>ga_Omega0 := ga_Omega0 tl, ga_OmegaDot := ga_OmegaDot tl, ga_M0 := ga_M0 tl\<rparr>
                            else o0);
                      o2 = o1\<lparr>ga_Af0 := ga_Af0 tl, ga_Af1 := ga_Af1 tl, ga_E5bSHS := ga_E5bSHS tl, ga_E1BSHS := ga_E1BSHS tl\<rparr>;
                      ref = (if \<not> gw_HasRef h then t else h);
                      out = o2\<lparr>ga_IODa := gw_IODa h, ga_WNa := gw_WNa ref, ga_T0a := gw_T0a ref\<rparr>
                  in if ga_SVID out = 0 then Inl ErrUnusedAlmanac
                     else if ga_SVID out > 36 then Inl ErrBadAlmanac
                     else Inr out)
           | _ \<Rightarrow> Inl ErrShortFrame)
      | _ \<Rightarrow> Inl ErrShortFrame)"

definition GalileoAlmanac_Ephemeris :: "gal_almanac \<Rightarrow> ephemeris" where
  "GalileoAlmanac_Ephemeris a = eph0\<lparr>eph_ID := Galileo, eph_SVID := ga_SVID a, eph_SqrtA := ga_SqrtA a,
     eph_Ecc := ga_Ecc a, eph_M0 := ga_M0 a, eph_I0 := ga_I0 a, eph_Omega0 := ga_Omega0 a,
     eph_OmegaDot := ga_OmegaDot a, eph_Omega := ga_Omega a, eph_Toe := ga_T0a a, eph_Almanac := True\<rparr>"

definition AssembleGalileo ::
  "int \<Rightarrow> gal_inav option \<Rightarrow> gal_inav option \<Rightarrow> gal_inav option \<Rightarrow> gal_inav option \<Rightarrow> gal_inav option
   \<Rightarrow> frame_error + ephemeris \<times> clock_model" where
  "AssembleGalileo svid ow1 ow2 ow3 ow4 ow5 =
     (case (ow1, ow2, ow3, ow4) of
        (Some w1, Some w2, Some w3, Some w4) \<Rightarrow>
          if in_Type w1 \<noteq> 1 \<or> in_Type w2 \<noteq> 2 \<or> in_Type w3 \<noteq> 3 \<or> in_Type w4 \<noteq> 4 \<or>
             (case ow5 of None \<Rightarrow> False | Some w5 \<Rightarrow> in_Type w5 \<noteq> 5) then Inl ErrWrongMsgType
          else if in_IODnav w1 \<noteq> in_IODnav w2 \<or> in_IODnav w1 \<noteq> in_IODnav w3 \<or> in_IODnav w1 \<noteq> in_IODnav w4
          then Inl ErrIODMismatch
          else if in_SVID w4 \<noteq> svid then Inl ErrPRNMismatch
          else
            (let e2 = in_eph w2; e3 = in_eph w3; e4 = in_eph w4;
                 eph = (in_eph w1)\<lparr>eph_Omega0 := eph_Omega0 e2, eph_I0 := eph_I0 e2, eph_Omega := eph_Omega e2,
                   eph_IDot := eph_IDot e2, eph_OmegaDot := eph_OmegaDot e3, eph_DeltaN := eph_DeltaN e3,
                   eph_Cuc := eph_Cuc e3, eph_Cus := eph_Cus e3, eph_Crc := eph_Crc e3, eph_Crs := eph_Crs e3,
                   eph_Cic := eph_Cic e4, eph_Cis := eph_Cis e4, eph_ID := Galileo, eph_SVID := svid\<rparr>;
                 clk1 = (in_clk w4)\<lparr>clk_ID := Galileo\<rparr>;
                 clk = (case ow5 of None \<Rightarrow> clk1 | Some w5 \<Rightarrow> clk1\<lparr>clk_TGD := clk_TGD (in_clk w5)\<rparr>)
             in Inr (eph, clk))
      | _ \<Rightarrow> Inl ErrShortFrame)"

section \<open>What the decoder gathers from a page\<close>

text \<open>The protected bits and the navigation word, as slices of the 256 page bits.\<close>

definition inav_crc_bits :: "bool list \<Rightarrow> bool list" where
  "inav_crc_bits B = bslice 0 114 B @ bslice 128 82 B"

definition inav_nav_bits :: "bool list \<Rightarrow> bool list" where
  "inav_nav_bits B = bslice 2 112 B @ bslice 130 16 B"

lemma length_inav_nav_bits [simp]: "length B = 256 \<Longrightarrow> length (inav_nav_bits B) = 128"
  by (simp add: inav_nav_bits_def)

lemma copy_bits:
  "srcOff + n \<le> 8 * length src \<Longrightarrow>
   copyGalileoBits dst dstOff src srcOff n = put_bits dst dstOff (bslice srcOff n (bits_of src))"
  by (simp only: copyGalileoBits_def src_bit_def map_byte_bits)

lemma bits_CRCMessage:
  assumes "length page = 32"
  shows "bits_of (galileoINAVCRCMessage page False) = inav_crc_bits (bits_of page) @ replicate 4 False"
    and "bits_of (galileoINAVCRCMessage page True) =
      inav_crc_bits (bits_of page) @ bslice 210 24 (bits_of page) @ replicate 4 False"
proof -
  have j: "bslice 128 106 (bits_of page) = bslice 128 82 (bits_of page) @ bslice 210 24 (bits_of page)"
    using bslice_join [of 128 82 "bits_of page" 24] by simp
  have m: "galileoINAVCRCMessage page False = put_bits (replicate 25 0) 0 (inav_crc_bits (bits_of page))"
    "galileoINAVCRCMessage page True = put_bits (replicate 28 0) 0 (inav_crc_bits (bits_of page) @ bslice 210 24 (bits_of page))"
    using assms
    by (simp_all add: galileoINAVCRCMessage_def copy_bits inav_crc_bits_def put_bits_append j)
  show "bits_of (galileoINAVCRCMessage page False) = inav_crc_bits (bits_of page) @ replicate 4 False"
    unfolding m(1) using assms by (subst bits_of_put_bits_zero) (simp_all add: inav_crc_bits_def)
  show "bits_of (galileoINAVCRCMessage page True) =
      inav_crc_bits (bits_of page) @ bslice 210 24 (bits_of page) @ replicate 4 False"
    unfolding m(2) using assms by (subst bits_of_put_bits_zero) (simp_all add: inav_crc_bits_def)
qed

lemma length_CRCMessage [simp]:
  "length (galileoINAVCRCMessage page True) = 28" "length (galileoINAVCRCMessage page False) = 25"
  by (simp_all add: galileoINAVCRCMessage_def copyGalileoBits_def)

lemma inav_check:
  assumes "length page = 32"
  shows "CheckCRC24QBits (galileoINAVCRCMessage page True) 0 220 =
      Inr (crc_reg (inav_crc_bits (bits_of page) @ bslice 210 24 (bits_of page)) = 0)"
  using assms by (simp add: CheckCRC24QBits_reg bits_CRCMessage(2) inav_crc_bits_def)

lemma inav_crc:
  assumes "length page = 32"
  shows "CRC24QBits (galileoINAVCRCMessage page False) 0 196 = Inr (crc_reg (inav_crc_bits (bits_of page)))"
  using assms by (simp add: CRC24QBits_reg bits_CRCMessage(1) inav_crc_bits_def)

lemma put_field:
  assumes "reads pr B" "0 \<le> p" "p + int n \<le> int (length B)" "n \<le> 64"
  shows "put content off (getu pr p (int n)) n = put_bits content off (bslice (nat p) n B)"
  using assms word_field_bits [of "bslice (nat p) n B" n] by (simp only: put_def reads_getu) simp

lemma bits_inav_content:
  assumes R: "reads pr B" and l: "length B = 256"
  shows "bits_of (inav_content pr) = inav_nav_bits B"
proof -
  have j: "bslice 2 112 B = bslice 2 56 B @ bslice 58 56 B"
    using bslice_join [of 2 56 B 56] by simp
  have "inav_content pr = put_bits (replicate 16 0) 0 (inav_nav_bits B)"
    using put_field [OF R, of 2 56] put_field [OF R, of 58 56] put_field [OF R, of 130 16] l
    by (simp add: inav_content_def Let_def inav_nav_bits_def j put_bits_append)
  then show ?thesis using l by (simp add: bits_of_put_bits_zero)
qed

lemma length_inav_content [simp]: "length (inav_content pr) = 16"
  by (simp add: inav_content_def put_def Let_def)

text \<open>The decoder as a function of the page bits.\<close>

definition inav_protected :: "u32 list \<Rightarrow> bool list" where
  "inav_protected ws = inav_crc_bits (bits_of (be_words 8 ws)) @ bslice 210 24 (bits_of (be_words 8 ws))"

lemma DecodeGalileoINAV_gate:
  assumes "DecodeGalileoINAV ws = Inr w"
  shows "8 \<le> length ws" "crc_reg (inav_protected ws) = 0"
proof -
  show l: "8 \<le> length ws" using assms by (auto simp: DecodeGalileoINAV_def not_less split: if_splits)
  have "CheckCRC24QBits (galileoINAVCRCMessage (be_words 8 ws) True) 0 220 = Inr True"
    using assms by (auto simp: DecodeGalileoINAV_def Let_def split: if_splits sum.splits bool.splits)
  then show "crc_reg (inav_protected ws) = 0"
    using l by (simp add: inav_check inav_protected_def)
qed

interpretation inav: crc_gated DecodeGalileoINAV inav_protected
  by unfold_locales (rule DecodeGalileoINAV_gate(2))

section \<open>Pages built from a navigation word\<close>

definition inav_msg :: "bool list \<Rightarrow> nat \<Rightarrow> nat \<Rightarrow> bool list" where
  "inav_msg nav osnma sar = [False, False] @ bslice 0 112 nav @ [True, False] @ bslice 112 16 nav @ ubits_enc 40 osnma @ ubits_enc 24 sar"

definition inav_page_bits :: "bool list \<Rightarrow> nat \<Rightarrow> nat \<Rightarrow> nat \<Rightarrow> nat \<Rightarrow> bool list" where
  "inav_page_bits nav osnma sar tail1 tail2 =
     [False, False] @ bslice 0 112 nav @ ubits_enc 14 tail1 @ [True, False] @ bslice 112 16 nav @
     ubits_enc 40 osnma @ ubits_enc 24 sar @ reg_bits (crc_reg (inav_msg nav osnma sar)) @ ubits_enc 22 tail2"

definition inav_page :: "bool list \<Rightarrow> nat \<Rightarrow> nat \<Rightarrow> nat \<Rightarrow> nat \<Rightarrow> u32 list" where
  "inav_page nav osnma sar tail1 tail2 = words32 8 (inav_page_bits nav osnma sar tail1 tail2)"

lemma length_inav_page_bits [simp]: "length nav = 128 \<Longrightarrow> length (inav_page_bits nav osnma sar tail1 tail2) = 256"
  by (simp add: inav_page_bits_def)

lemma bits_inav_page:
  "length nav = 128 \<Longrightarrow> bits_of (be_words 8 (inav_page nav osnma sar tail1 tail2)) = inav_page_bits nav osnma sar tail1 tail2"
  by (simp add: inav_page_def bits_of_words32)

lemma page_slices:
  assumes "length nav = 128"
  shows "inav_crc_bits (inav_page_bits nav osnma sar tail1 tail2) = inav_msg nav osnma sar"
    and "bslice 210 24 (inav_page_bits nav osnma sar tail1 tail2) = reg_bits (crc_reg (inav_msg nav osnma sar))"
    and "inav_nav_bits (inav_page_bits nav osnma sar tail1 tail2) = nav"
proof -
  have e: "bslice 0 114 (inav_page_bits nav osnma sar tail1 tail2) = [False, False] @ bslice 0 112 nav"
    "bslice 128 82 (inav_page_bits nav osnma sar tail1 tail2) =
      [True, False] @ bslice 112 16 nav @ ubits_enc 40 osnma @ ubits_enc 24 sar"
    "bslice 2 112 (inav_page_bits nav osnma sar tail1 tail2) = bslice 0 112 nav"
    "bslice 130 16 (inav_page_bits nav osnma sar tail1 tail2) = bslice 112 16 nav"
    using assms by (simp_all add: inav_page_bits_def bslice_def)
  show "inav_crc_bits (inav_page_bits nav osnma sar tail1 tail2) = inav_msg nav osnma sar"
    by (simp add: inav_crc_bits_def e inav_msg_def)
  show "bslice 210 24 (inav_page_bits nav osnma sar tail1 tail2) = reg_bits (crc_reg (inav_msg nav osnma sar))"
    using assms by (simp add: inav_page_bits_def bslice_def)
  have "bslice 0 112 nav @ bslice (0 + 112) 16 nav = bslice 0 (112 + 16) nav" by (rule bslice_join)
  then show "inav_nav_bits (inav_page_bits nav osnma sar tail1 tail2) = nav"
    using assms by (simp add: inav_nav_bits_def e bslice_all)
qed

definition page_word :: "nat \<Rightarrow> nat \<Rightarrow> gal_inav" where
  "page_word wt osnma = inav0\<lparr>in_Type := int wt, in_HasOSNMA := True, in_OSNMA := of_nat osnma\<rparr>"

lemma decode_page:
  assumes "nav = ubits_enc 6 wt @ body" "length body = 122" "wt < 63" "osnma < 2 ^ 40"
  shows "\<exists>r. reads r nav \<and> DecodeGalileoINAV (inav_page nav osnma sar tail1 tail2) = inav_switch r (of_nat wt) (page_word wt osnma)"
proof -
  let ?B = "inav_page_bits nav osnma sar tail1 tail2"
  let ?page = "be_words 8 (inav_page nav osnma sar tail1 tail2)"
  let ?r = "NewBitReaderN (inav_content (NewBitReader ?page)) 128"
  have n: "length nav = 128" using assms by simp
  have len: "length ?page = 32" by (simp add: inav_page_def)
  have R: "reads (NewBitReader ?page) ?B"
    by (rule reads_NewBitReader) (simp_all add: bits_inav_page n len)
  have r: "reads ?r nav"
    using bits_inav_content [OF R] n by (intro reads_NewBitReaderN [where rest = "[]"]) (simp_all add: page_slices)
  have flags: "getu (NewBitReader ?page) 0 1 = 0" "getu (NewBitReader ?page) 1 1 = 0"
    "getu (NewBitReader ?page) 128 1 = 1" "getu (NewBitReader ?page) 129 1 = 0"
    using n by (simp_all add: reads_getu [OF R]) (simp_all add: inav_page_bits_def bslice_def)
  have o: "getu (NewBitReader ?page) 146 40 = of_nat osnma"
  proof -
    have "bslice 146 40 ?B = ubits_enc 40 osnma" using n by (simp add: inav_page_bits_def bslice_def)
    then show ?thesis using n assms(4) by (simp add: reads_getu [OF R])
  qed
  have c: "CheckCRC24QBits (galileoINAVCRCMessage ?page True) 0 220 = Inr True"
    using n by (simp add: inav_check [OF len] bits_inav_page page_slices crc_reg_append_self)
  have t: "getu ?r 0 6 = of_nat wt"
  proof -
    have "bslice 0 6 nav = ubits_enc 6 wt" by (simp add: assms(1) slice_simps)
    then show ?thesis using assms(3) n by (simp add: reads_getu [OF r])
  qed
  have "DecodeGalileoINAV (inav_page nav osnma sar tail1 tail2) = inav_switch ?r (of_nat wt) (page_word wt osnma)"
    using assms(3) unfolding DecodeGalileoINAV_def Let_def flags c t o
    by (simp add: inav_page_def page_word_def read_values)
  with r show ?thesis by blast
qed

section \<open>The interface document's layout\<close>

record raw_w1 =
  g1_iod :: nat
  g1_t0e :: nat
  g1_m0 :: int
  g1_ecc :: nat
  g1_sqrtA :: nat

record raw_w2 =
  g2_iod :: nat
  g2_omg0 :: int
  g2_i0 :: int
  g2_omega :: int
  g2_idot :: int

record raw_w3 =
  g3_iod :: nat
  g3_omgDot :: int
  g3_dn :: int
  g3_cuc :: int
  g3_cus :: int
  g3_crc :: int
  g3_crs :: int
  g3_sisa :: nat

record raw_w4 =
  g4_iod :: nat
  g4_svid :: nat
  g4_cic :: int
  g4_cis :: int
  g4_t0c :: nat
  g4_af0 :: int
  g4_af1 :: int
  g4_af2 :: int

record raw_w5 =
  g5_iono :: nat
  g5_bgdA :: int
  g5_bgdB :: int
  g5_e5bhs :: nat
  g5_e1bhs :: nat
  g5_e5bdvs :: nat
  g5_e1bdvs :: nat
  g5_wn :: nat
  g5_tow :: nat

definition w1_bits :: "nat \<Rightarrow> raw_w1 \<Rightarrow> bool list" where
  "w1_bits spare f = ubits_enc 6 1 @ ubits_enc 10 (g1_iod f) @ ubits_enc 14 (g1_t0e f) @ sbits_enc 32 (g1_m0 f) @
     ubits_enc 32 (g1_ecc f) @ ubits_enc 32 (g1_sqrtA f) @ ubits_enc 2 spare"

definition w2_bits :: "nat \<Rightarrow> raw_w2 \<Rightarrow> bool list" where
  "w2_bits spare f = ubits_enc 6 2 @ ubits_enc 10 (g2_iod f) @ sbits_enc 32 (g2_omg0 f) @ sbits_enc 32 (g2_i0 f) @
     sbits_enc 32 (g2_omega f) @ sbits_enc 14 (g2_idot f) @ ubits_enc 2 spare"

definition w3_bits :: "raw_w3 \<Rightarrow> bool list" where
  "w3_bits f = ubits_enc 6 3 @ ubits_enc 10 (g3_iod f) @ sbits_enc 24 (g3_omgDot f) @ sbits_enc 16 (g3_dn f) @
     sbits_enc 16 (g3_cuc f) @ sbits_enc 16 (g3_cus f) @ sbits_enc 16 (g3_crc f) @ sbits_enc 16 (g3_crs f) @ ubits_enc 8 (g3_sisa f)"

definition w4_bits :: "nat \<Rightarrow> raw_w4 \<Rightarrow> bool list" where
  "w4_bits spare f = ubits_enc 6 4 @ ubits_enc 10 (g4_iod f) @ ubits_enc 6 (g4_svid f) @ sbits_enc 16 (g4_cic f) @
     sbits_enc 16 (g4_cis f) @ ubits_enc 14 (g4_t0c f) @ sbits_enc 31 (g4_af0 f) @ sbits_enc 21 (g4_af1 f) @
     sbits_enc 6 (g4_af2 f) @ ubits_enc 2 spare"

definition w5_bits :: "nat \<Rightarrow> raw_w5 \<Rightarrow> bool list" where
  "w5_bits spare f = ubits_enc 6 5 @ ubits_enc 41 (g5_iono f) @ sbits_enc 10 (g5_bgdA f) @ sbits_enc 10 (g5_bgdB f) @
     ubits_enc 2 (g5_e5bhs f) @ ubits_enc 2 (g5_e1bhs f) @ ubits_enc 1 (g5_e5bdvs f) @ ubits_enc 1 (g5_e1bdvs f) @
     ubits_enc 12 (g5_wn f) @ ubits_enc 20 (g5_tow f) @ ubits_enc 23 spare"

definition wf_w1 :: "raw_w1 \<Rightarrow> bool" where
  "wf_w1 f \<longleftrightarrow> ufits 10 (g1_iod f) \<and> g1_t0e f < 10080 \<and> sfits 32 (g1_m0 f) \<and> ufits 32 (g1_ecc f) \<and> ufits 32 (g1_sqrtA f)"

definition wf_w2 :: "raw_w2 \<Rightarrow> bool" where
  "wf_w2 f \<longleftrightarrow> ufits 10 (g2_iod f) \<and> sfits 32 (g2_omg0 f) \<and> sfits 32 (g2_i0 f) \<and> sfits 32 (g2_omega f) \<and> sfits 14 (g2_idot f)"

definition wf_w3 :: "raw_w3 \<Rightarrow> bool" where
  "wf_w3 f \<longleftrightarrow> ufits 10 (g3_iod f) \<and> sfits 24 (g3_omgDot f) \<and> sfits 16 (g3_dn f) \<and> sfits 16 (g3_cuc f) \<and>
     sfits 16 (g3_cus f) \<and> sfits 16 (g3_crc f) \<and> sfits 16 (g3_crs f) \<and> ufits 8 (g3_sisa f)"

definition wf_w4 :: "raw_w4 \<Rightarrow> bool" where
  "wf_w4 f \<longleftrightarrow> ufits 10 (g4_iod f) \<and> ufits 6 (g4_svid f) \<and> sfits 16 (g4_cic f) \<and> sfits 16 (g4_cis f) \<and>
     g4_t0c f < 10080 \<and> sfits 31 (g4_af0 f) \<and> sfits 21 (g4_af1 f) \<and> sfits 6 (g4_af2 f)"

definition wf_w5 :: "raw_w5 \<Rightarrow> bool" where
  "wf_w5 f \<longleftrightarrow> sfits 10 (g5_bgdA f) \<and> sfits 10 (g5_bgdB f) \<and> ufits 2 (g5_e5bhs f) \<and> ufits 2 (g5_e1bhs f) \<and>
     ufits 1 (g5_e5bdvs f) \<and> ufits 1 (g5_e1bdvs f) \<and> ufits 12 (g5_wn f) \<and> g5_tow f < 604800"

definition w1_value :: "nat \<Rightarrow> raw_w1 \<Rightarrow> gal_inav" where
  "w1_value os f = (page_word 1 os)\<lparr>in_IODnav := int (g1_iod f),
     in_eph := eph0\<lparr>eph_Toe := real (g1_t0e f) * 60, eph_M0 := real_of_int (g1_m0 f) / 2 ^ 31 * Pi,
       eph_Ecc := real (g1_ecc f) / 2 ^ 33, eph_SqrtA := real (g1_sqrtA f) / 2 ^ 19\<rparr>\<rparr>"

definition w2_value :: "nat \<Rightarrow> raw_w2 \<Rightarrow> gal_inav" where
  "w2_value os f = (page_word 2 os)\<lparr>in_IODnav := int (g2_iod f),
     in_eph := eph0\<lparr>eph_Omega0 := real_of_int (g2_omg0 f) / 2 ^ 31 * Pi, eph_I0 := real_of_int (g2_i0 f) / 2 ^ 31 * Pi,
       eph_Omega := real_of_int (g2_omega f) / 2 ^ 31 * Pi, eph_IDot := real_of_int (g2_idot f) / 2 ^ 43 * Pi\<rparr>\<rparr>"

definition w3_value :: "nat \<Rightarrow> raw_w3 \<Rightarrow> gal_inav" where
  "w3_value os f = (page_word 3 os)\<lparr>in_IODnav := int (g3_iod f), in_SISA := int (g3_sisa f),
     in_eph := eph0\<lparr>eph_OmegaDot := real_of_int (g3_omgDot f) / 2 ^ 43 * Pi, eph_DeltaN := real_of_int (g3_dn f) / 2 ^ 43 * Pi,
       eph_Cuc := real_of_int (g3_cuc f) / 2 ^ 29, eph_Cus := real_of_int (g3_cus f) / 2 ^ 29,
       eph_Crc := real_of_int (g3_crc f) / 2 ^ 5, eph_Crs := real_of_int (g3_crs f) / 2 ^ 5\<rparr>\<rparr>"

definition w4_value :: "nat \<Rightarrow> raw_w4 \<Rightarrow> gal_inav" where
  "w4_value os f = (page_word 4 os)\<lparr>in_IODnav := int (g4_iod f), in_SVID := int (g4_svid f),
     in_eph := eph0\<lparr>eph_Cic := real_of_int (g4_cic f) / 2 ^ 29, eph_Cis := real_of_int (g4_cis f) / 2 ^ 29\<rparr>,
     in_clk := clk0\<lparr>clk_ID := Galileo, clk_Toc := real (g4_t0c f) * 60, clk_Af0 := real_of_int (g4_af0 f) / 2 ^ 34,
       clk_Af1 := real_of_int (g4_af1 f) / 2 ^ 46, clk_Af2 := real_of_int (g4_af2 f) / 2 ^ 59\<rparr>, in_hasClk := True\<rparr>"

definition w5_value :: "nat \<Rightarrow> raw_w5 \<Rightarrow> gal_inav" where
  "w5_value os f = (page_word 5 os)\<lparr>in_eph := eph0\<lparr>eph_ID := Galileo\<rparr>, in_Health := int (g5_e1bhs f), in_E5bSHS := int (g5_e5bhs f),
     in_E5bDVS := int (g5_e5bdvs f), in_E1BDVS := int (g5_e1bdvs f), in_WN := int (g5_wn f), in_TOW := real (g5_tow f),
     in_BGDE1E5a := real_of_int (g5_bgdA f) / 2 ^ 32, in_BGDE1E5b := real_of_int (g5_bgdB f) / 2 ^ 32,
     in_clk := clk0\<lparr>clk_TGD := real_of_int (g5_bgdB f) / 2 ^ 32\<rparr>\<rparr>"

lemma read_w1:
  assumes R: "reads r (w1_bits spare f)" and "wf_w1 f"
  shows "inav_word1 r (page_word 1 os) = Inr (w1_value os f)"
  using assms(2)
  by (simp add: inav_word1_def Let_def reads_getu [OF R] reads_gets [OF R] w1_bits_def slice_simps
      wf_w1_def fits_defs read_values page_word_def inav0_def clk0_def w1_value_def scale_defs galT0_def)

lemma decode_w1:
  assumes "wf_w1 f" "os < 2 ^ 40"
  shows "DecodeGalileoINAV (inav_page (w1_bits spare f) os sar tail1 tail2) = Inr (w1_value os f)"
proof -
  obtain r where "reads r (w1_bits spare f)"
    "DecodeGalileoINAV (inav_page (w1_bits spare f) os sar tail1 tail2) = inav_switch r (of_nat 1) (page_word 1 os)"
    using decode_page [OF w1_bits_def [of spare f], where osnma = os and sar = sar and ?tail1.0 = tail1 and ?tail2.0 = tail2] assms(2)
    by auto
  then show ?thesis using read_w1 [OF _ assms(1)] by (simp add: inav_switch_def)
qed

lemma read_w2:
  assumes R: "reads r (w2_bits spare f)" and "wf_w2 f"
  shows "inav_word2 r (page_word 2 os) = Inr (w2_value os f)"
  using assms(2)
  by (simp add: inav_word2_def Let_def reads_getu [OF R] reads_gets [OF R] w2_bits_def slice_simps
      wf_w2_def fits_defs read_values page_word_def inav0_def clk0_def w2_value_def scale_defs galT0_def)

lemma decode_w2:
  assumes "wf_w2 f" "os < 2 ^ 40"
  shows "DecodeGalileoINAV (inav_page (w2_bits spare f) os sar tail1 tail2) = Inr (w2_value os f)"
proof -
  obtain r where "reads r (w2_bits spare f)"
    "DecodeGalileoINAV (inav_page (w2_bits spare f) os sar tail1 tail2) = inav_switch r (of_nat 2) (page_word 2 os)"
    using decode_page [OF w2_bits_def [of spare f], where osnma = os and sar = sar and ?tail1.0 = tail1 and ?tail2.0 = tail2] assms(2)
    by auto
  then show ?thesis using read_w2 [OF _ assms(1)] by (simp add: inav_switch_def)
qed

lemma read_w3:
  assumes R: "reads r (w3_bits f)" and "wf_w3 f"
  shows "inav_word3 r (page_word 3 os) = Inr (w3_value os f)"
  using assms(2)
  by (simp add: inav_word3_def Let_def reads_getu [OF R] reads_gets [OF R] w3_bits_def slice_simps
      wf_w3_def fits_defs read_values page_word_def inav0_def clk0_def w3_value_def scale_defs galT0_def)

lemma decode_w3:
  assumes "wf_w3 f" "os < 2 ^ 40"
  shows "DecodeGalileoINAV (inav_page (w3_bits f) os sar tail1 tail2) = Inr (w3_value os f)"
proof -
  obtain r where "reads r (w3_bits f)"
    "DecodeGalileoINAV (inav_page (w3_bits f) os sar tail1 tail2) = inav_switch r (of_nat 3) (page_word 3 os)"
    using decode_page [OF w3_bits_def [of f], where osnma = os and sar = sar and ?tail1.0 = tail1 and ?tail2.0 = tail2] assms(2)
    by auto
  then show ?thesis using read_w3 [OF _ assms(1)] by (simp add: inav_switch_def)
qed

lemma read_w4:
  assumes R: "reads r (w4_bits spare f)" and "wf_w4 f"
  shows "inav_word4 r (page_word 4 os) = Inr (w4_value os f)"
  using assms(2)
  by (simp add: inav_word4_def Let_def reads_getu [OF R] reads_gets [OF R] w4_bits_def slice_simps
      wf_w4_def fits_defs read_values page_word_def inav0_def clk0_def w4_value_def scale_defs galT0_def)

lemma decode_w4:
  assumes "wf_w4 f" "os < 2 ^ 40"
  shows "DecodeGalileoINAV (inav_page (w4_bits spare f) os sar tail1 tail2) = Inr (w4_value os f)"
proof -
  obtain r where "reads r (w4_bits spare f)"
    "DecodeGalileoINAV (inav_page (w4_bits spare f) os sar tail1 tail2) = inav_switch r (of_nat 4) (page_word 4 os)"
    using decode_page [OF w4_bits_def [of spare f], where osnma = os and sar = sar and ?tail1.0 = tail1 and ?tail2.0 = tail2] assms(2)
    by auto
  then show ?thesis using read_w4 [OF _ assms(1)] by (simp add: inav_switch_def)
qed

lemma read_w5:
  assumes R: "reads r (w5_bits spare f)" and "wf_w5 f"
  shows "inav_word5 r (page_word 5 os) = Inr (w5_value os f)"
  using assms(2)
  by (simp add: inav_word5_def Let_def reads_getu [OF R] reads_gets [OF R] w5_bits_def slice_simps
      wf_w5_def fits_defs read_values page_word_def inav0_def clk0_def w5_value_def scale_defs galT0_def)

lemma decode_w5:
  assumes "wf_w5 f" "os < 2 ^ 40"
  shows "DecodeGalileoINAV (inav_page (w5_bits spare f) os sar tail1 tail2) = Inr (w5_value os f)"
proof -
  obtain r where "reads r (w5_bits spare f)"
    "DecodeGalileoINAV (inav_page (w5_bits spare f) os sar tail1 tail2) = inav_switch r (of_nat 5) (page_word 5 os)"
    using decode_page [OF w5_bits_def [of spare f], where osnma = os and sar = sar and ?tail1.0 = tail1 and ?tail2.0 = tail2] assms(2)
    by auto
  then show ?thesis using read_w5 [OF _ assms(1)] by (simp add: inav_switch_def)
qed

subsection \<open>The almanac batch\<close>

record raw_alm =
  a_svid :: nat
  a_dSqrtA :: int
  a_ecc :: nat
  a_omega :: int
  a_di :: int
  a_omg0 :: int
  a_omgDot :: int
  a_m0 :: int
  a_af0 :: int
  a_af1 :: int
  a_e5b :: nat
  a_e1b :: nat

definition wf_alm :: "raw_alm \<Rightarrow> bool" where
  "wf_alm f \<longleftrightarrow> ufits 6 (a_svid f) \<and> sfits 13 (a_dSqrtA f) \<and> ufits 11 (a_ecc f) \<and> sfits 16 (a_omega f) \<and>
     sfits 11 (a_di f) \<and> sfits 16 (a_omg0 f) \<and> sfits 11 (a_omgDot f) \<and> sfits 16 (a_m0 f) \<and> sfits 16 (a_af0 f) \<and>
     sfits 13 (a_af1 f) \<and> ufits 2 (a_e5b f) \<and> ufits 2 (a_e1b f)"

definition orbit_bits :: "raw_alm \<Rightarrow> bool list" where
  "orbit_bits f = ubits_enc 6 (a_svid f) @ sbits_enc 13 (a_dSqrtA f) @ ubits_enc 11 (a_ecc f) @ sbits_enc 16 (a_omega f) @ sbits_enc 11 (a_di f)"

definition clock_bits :: "raw_alm \<Rightarrow> bool list" where
  "clock_bits f = sbits_enc 16 (a_af0 f) @ sbits_enc 13 (a_af1 f) @ ubits_enc 2 (a_e5b f) @ ubits_enc 2 (a_e1b f)"

definition w7_bits :: "nat \<Rightarrow> nat \<Rightarrow> nat \<Rightarrow> nat \<Rightarrow> raw_alm \<Rightarrow> bool list" where
  "w7_bits spare iod wna t0a f = ubits_enc 6 7 @ ubits_enc 4 iod @ ubits_enc 2 wna @ ubits_enc 10 t0a @ orbit_bits f @
     sbits_enc 16 (a_omg0 f) @ sbits_enc 11 (a_omgDot f) @ sbits_enc 16 (a_m0 f) @ ubits_enc 6 spare"

definition w8_bits :: "nat \<Rightarrow> nat \<Rightarrow> raw_alm \<Rightarrow> raw_alm \<Rightarrow> bool list" where
  "w8_bits spare iod f g = ubits_enc 6 8 @ ubits_enc 4 iod @ clock_bits f @ orbit_bits g @
     sbits_enc 16 (a_omg0 g) @ sbits_enc 11 (a_omgDot g) @ ubits_enc 1 spare"

definition w9_bits :: "nat \<Rightarrow> nat \<Rightarrow> nat \<Rightarrow> raw_alm \<Rightarrow> raw_alm \<Rightarrow> bool list" where
  "w9_bits iod wna t0a g h = ubits_enc 6 9 @ ubits_enc 4 iod @ ubits_enc 2 wna @ ubits_enc 10 t0a @
     sbits_enc 16 (a_m0 g) @ clock_bits g @ orbit_bits h"

definition w10_bits :: "nat \<Rightarrow> nat \<Rightarrow> raw_alm \<Rightarrow> bool list" where
  "w10_bits ggto iod h = ubits_enc 6 10 @ ubits_enc 4 iod @ sbits_enc 16 (a_omg0 h) @ sbits_enc 11 (a_omgDot h) @
     sbits_enc 16 (a_m0 h) @ clock_bits h @ ubits_enc 42 ggto"

definition orbit_value :: "raw_alm \<Rightarrow> gal_almanac" where
  "orbit_value f = galm0\<lparr>ga_SVID := int (a_svid f), ga_SqrtA := sqrt 29600000 + real_of_int (a_dSqrtA f) / 2 ^ 9,
     ga_Ecc := real (a_ecc f) / 2 ^ 16, ga_Omega := real_of_int (a_omega f) / 2 ^ 15 * Pi,
     ga_I0 := (56 / 180 + real_of_int (a_di f) / 2 ^ 14) * Pi\<rparr>"

definition clock_value :: "raw_alm \<Rightarrow> gal_almanac \<Rightarrow> gal_almanac" where
  "clock_value f g = g\<lparr>ga_Af0 := real_of_int (a_af0 f) / 2 ^ 19, ga_Af1 := real_of_int (a_af1 f) / 2 ^ 38,
     ga_E5bSHS := int (a_e5b f), ga_E1BSHS := int (a_e1b f)\<rparr>"

definition alm_value :: "nat \<Rightarrow> nat \<Rightarrow> nat \<Rightarrow> raw_alm \<Rightarrow> gal_almanac" where
  "alm_value iod wna t0a f = \<lparr>ga_SVID = int (a_svid f), ga_IODa = int iod, ga_WNa = int wna, ga_T0a = real t0a * 600,
     ga_SqrtA = sqrt 29600000 + real_of_int (a_dSqrtA f) / 2 ^ 9, ga_Ecc = real (a_ecc f) / 2 ^ 16,
     ga_I0 = (56 / 180 + real_of_int (a_di f) / 2 ^ 14) * Pi, ga_Omega0 = real_of_int (a_omg0 f) / 2 ^ 15 * Pi,
     ga_OmegaDot = real_of_int (a_omgDot f) / 2 ^ 33 * Pi, ga_Omega = real_of_int (a_omega f) / 2 ^ 15 * Pi,
     ga_M0 = real_of_int (a_m0 f) / 2 ^ 15 * Pi, ga_Af0 = real_of_int (a_af0 f) / 2 ^ 19,
     ga_Af1 = real_of_int (a_af1 f) / 2 ^ 38, ga_E5bSHS = int (a_e5b f), ga_E1BSHS = int (a_e1b f)\<rparr>"

definition alm_word :: "nat \<Rightarrow> bool \<Rightarrow> nat \<Rightarrow> nat \<Rightarrow> nat \<Rightarrow> gal_almanac \<Rightarrow> gal_almanac \<Rightarrow> gal_almanac_word" where
  "alm_word iod ref wna t0a sv h t = \<lparr>gw_IODa = int iod, gw_HasRef = ref, gw_WNa = int wna, gw_T0a = real t0a * 600,
     gw_HeadSVID = int sv, gw_head = h, gw_tail = t\<rparr>"

lemmas alm_read_defs = decodeGalileoAlmanacWord_def alm_fields_def alm_orbit_def alm_clock_def alm_angle_def alm_rate_def
  Let_def orbit_bits_def clock_bits_def galAlmanacSqrtA_def galAlmanacI0_def galm0_def orbit_value_def clock_value_def
  alm_word_def wf_alm_def fits_defs read_values scale_defs

definition w7_alm :: "nat \<Rightarrow> nat \<Rightarrow> nat \<Rightarrow> raw_alm \<Rightarrow> gal_almanac_word" where
  "w7_alm iod wna t0a f = alm_word iod True wna t0a (a_svid f)
    ((orbit_value f)\<lparr>ga_Omega0 := real_of_int (a_omg0 f) / 2 ^ 15 * Pi, ga_OmegaDot := real_of_int (a_omgDot f) / 2 ^ 33 * Pi,
      ga_M0 := real_of_int (a_m0 f) / 2 ^ 15 * Pi\<rparr>) galm0"

definition w8_alm :: "nat \<Rightarrow> raw_alm \<Rightarrow> raw_alm \<Rightarrow> gal_almanac_word" where
  "w8_alm iod f g = alm_word iod False 0 0 (a_svid g)
    ((orbit_value g)\<lparr>ga_Omega0 := real_of_int (a_omg0 g) / 2 ^ 15 * Pi, ga_OmegaDot := real_of_int (a_omgDot g) / 2 ^ 33 * Pi\<rparr>)
    (clock_value f galm0)"

definition w9_alm :: "nat \<Rightarrow> nat \<Rightarrow> nat \<Rightarrow> raw_alm \<Rightarrow> raw_alm \<Rightarrow> gal_almanac_word" where
  "w9_alm iod wna t0a g h = alm_word iod True wna t0a (a_svid h) (orbit_value h)
    (clock_value g (galm0\<lparr>ga_M0 := real_of_int (a_m0 g) / 2 ^ 15 * Pi\<rparr>))"

definition w10_alm :: "nat \<Rightarrow> raw_alm \<Rightarrow> gal_almanac_word" where
  "w10_alm iod h = alm_word iod False 0 0 0 galm0
    (clock_value h (galm0\<lparr>ga_Omega0 := real_of_int (a_omg0 h) / 2 ^ 15 * Pi, ga_OmegaDot := real_of_int (a_omgDot h) / 2 ^ 33 * Pi,
      ga_M0 := real_of_int (a_m0 h) / 2 ^ 15 * Pi\<rparr>))"

lemma read_w7:
  assumes R: "reads r (w7_bits spare iod wna t0a f)" and "wf_alm f" "iod < 16" "wna < 4" "t0a < 1008"
  shows "decodeGalileoAlmanacWord r 7 = Inr (w7_alm iod wna t0a f)"
  using assms(2-) by (simp add: reads_getu [OF R] reads_gets [OF R] w7_bits_def slice_simps alm_read_defs w7_alm_def)

lemma read_w8:
  assumes R: "reads r (w8_bits spare iod f g)" and "wf_alm f" "wf_alm g" "iod < 16"
  shows "decodeGalileoAlmanacWord r 8 = Inr (w8_alm iod f g)"
  using assms(2-) by (simp add: reads_getu [OF R] reads_gets [OF R] w8_bits_def slice_simps alm_read_defs w8_alm_def)

lemma read_w9:
  assumes R: "reads r (w9_bits iod wna t0a g h)" and "wf_alm g" "wf_alm h" "iod < 16" "wna < 4" "t0a < 1008"
  shows "decodeGalileoAlmanacWord r 9 = Inr (w9_alm iod wna t0a g h)"
  using assms(2-) by (simp add: reads_getu [OF R] reads_gets [OF R] w9_bits_def slice_simps alm_read_defs w9_alm_def)

lemma read_w10:
  assumes R: "reads r (w10_bits ggto iod h)" and "wf_alm h" "iod < 16"
  shows "decodeGalileoAlmanacWord r 10 = Inr (w10_alm iod h)"
  using assms(2-) by (simp add: reads_getu [OF R] reads_gets [OF R] w10_bits_def slice_simps alm_read_defs w10_alm_def)

text \<open>The four pages, decoded.\<close>

lemma alm_bits_lengths [simp]: "length (orbit_bits f) = 57" "length (clock_bits f) = 33"
  by (simp_all add: orbit_bits_def clock_bits_def)

lemma decode_w7:
  assumes "wf_alm f" "iod < 16" "wna < 4" "t0a < 1008" "os < 2 ^ 40"
  shows "DecodeGalileoINAV (inav_page (w7_bits sp iod wna t0a f) os sar t t') =
    Inr ((page_word 7 os)\<lparr>in_Almanac := Some (w7_alm iod wna t0a f)\<rparr>)"
proof -
  obtain r where "reads r (w7_bits sp iod wna t0a f)"
    "DecodeGalileoINAV (inav_page (w7_bits sp iod wna t0a f) os sar t t') = inav_switch r (of_nat 7) (page_word 7 os)"
    using decode_page [OF w7_bits_def [of sp iod wna t0a f], where osnma = os and sar = sar and ?tail1.0 = t and ?tail2.0 = t'] assms(5)
    by auto
  then show ?thesis using read_w7 [OF _ assms(1-4)] by (simp add: inav_switch_def inav_almanac_def go_int_def)
qed

lemma decode_w8:
  assumes "wf_alm f" "wf_alm g" "iod < 16" "os < 2 ^ 40"
  shows "DecodeGalileoINAV (inav_page (w8_bits sp iod f g) os sar t t') =
    Inr ((page_word 8 os)\<lparr>in_Almanac := Some (w8_alm iod f g)\<rparr>)"
proof -
  obtain r where "reads r (w8_bits sp iod f g)"
    "DecodeGalileoINAV (inav_page (w8_bits sp iod f g) os sar t t') = inav_switch r (of_nat 8) (page_word 8 os)"
    using decode_page [OF w8_bits_def [of sp iod f g], where osnma = os and sar = sar and ?tail1.0 = t and ?tail2.0 = t'] assms(4)
    by auto
  then show ?thesis using read_w8 [OF _ assms(1-3)] by (simp add: inav_switch_def inav_almanac_def go_int_def)
qed

lemma decode_w9:
  assumes "wf_alm g" "wf_alm h" "iod < 16" "wna < 4" "t0a < 1008" "os < 2 ^ 40"
  shows "DecodeGalileoINAV (inav_page (w9_bits iod wna t0a g h) os sar t t') =
    Inr ((page_word 9 os)\<lparr>in_Almanac := Some (w9_alm iod wna t0a g h)\<rparr>)"
proof -
  obtain r where "reads r (w9_bits iod wna t0a g h)"
    "DecodeGalileoINAV (inav_page (w9_bits iod wna t0a g h) os sar t t') = inav_switch r (of_nat 9) (page_word 9 os)"
    using decode_page [OF w9_bits_def [of iod wna t0a g h], where osnma = os and sar = sar and ?tail1.0 = t and ?tail2.0 = t'] assms(6)
    by auto
  then show ?thesis using read_w9 [OF _ assms(1-5)] by (simp add: inav_switch_def inav_almanac_def go_int_def)
qed

lemma decode_w10:
  assumes "wf_alm h" "iod < 16" "os < 2 ^ 40"
  shows "\<exists>w. DecodeGalileoINAV (inav_page (w10_bits ggto iod h) os sar t t') = Inr w \<and> in_Type w = 10 \<and>
    in_Almanac w = Some (w10_alm iod h)"
proof -
  obtain r where r: "reads r (w10_bits ggto iod h)"
    "DecodeGalileoINAV (inav_page (w10_bits ggto iod h) os sar t t') = inav_switch r (of_nat 10) (page_word 10 os)"
    using decode_page [OF w10_bits_def [of ggto iod h], where osnma = os and sar = sar and ?tail1.0 = t and ?tail2.0 = t'] assms(3)
    by auto
  have s: "inav_switch r (of_nat 10) (page_word 10 os) = inav_word10 r (page_word 10 os)"
    by (simp add: inav_switch_def)
  show ?thesis
    unfolding r(2) s inav_word10_def read_w10 [OF r(1) assms(1,2)] sum.case Let_def
    by (rule exI, rule conjI, rule refl) (simp add: page_word_def)
qed

definition decode_pages :: "u32 list list \<Rightarrow> (frame_error + gal_inav) list" where
  "decode_pages = map DecodeGalileoINAV"

definition decode_assemble_inav ::
  "int \<Rightarrow> u32 list \<Rightarrow> u32 list \<Rightarrow> u32 list \<Rightarrow> u32 list \<Rightarrow> u32 list \<Rightarrow> frame_error + ephemeris \<times> clock_model" where
  "decode_assemble_inav svid p1 p2 p3 p4 p5 =
     (case decode_pages [p1, p2, p3, p4, p5] of
        [Inr w1, Inr w2, Inr w3, Inr w4, Inr w5] \<Rightarrow> AssembleGalileo svid (Some w1) (Some w2) (Some w3) (Some w4) (Some w5)
      | _ \<Rightarrow> Inl ErrShortFrame)"

definition decode_complete_alm :: "u32 list \<Rightarrow> u32 list \<Rightarrow> frame_error + gal_almanac" where
  "decode_complete_alm p q =
     (case decode_pages [p, q] of
        [Inr a, Inr b] \<Rightarrow> CompleteGalileoAlmanac (Some a) (Some b)
      | _ \<Rightarrow> Inl ErrShortFrame)"

definition inav_eph :: "int \<Rightarrow> raw_w1 \<Rightarrow> raw_w2 \<Rightarrow> raw_w3 \<Rightarrow> raw_w4 \<Rightarrow> ephemeris" where
  "inav_eph svid f1 f2 f3 f4 = eph0\<lparr>eph_ID := Galileo, eph_SVID := svid,
     eph_Toe := real (g1_t0e f1) * 60, eph_M0 := real_of_int (g1_m0 f1) / 2 ^ 31 * Pi,
     eph_Ecc := real (g1_ecc f1) / 2 ^ 33, eph_SqrtA := real (g1_sqrtA f1) / 2 ^ 19,
     eph_Omega0 := real_of_int (g2_omg0 f2) / 2 ^ 31 * Pi, eph_I0 := real_of_int (g2_i0 f2) / 2 ^ 31 * Pi,
     eph_Omega := real_of_int (g2_omega f2) / 2 ^ 31 * Pi, eph_IDot := real_of_int (g2_idot f2) / 2 ^ 43 * Pi,
     eph_OmegaDot := real_of_int (g3_omgDot f3) / 2 ^ 43 * Pi, eph_DeltaN := real_of_int (g3_dn f3) / 2 ^ 43 * Pi,
     eph_Cuc := real_of_int (g3_cuc f3) / 2 ^ 29, eph_Cus := real_of_int (g3_cus f3) / 2 ^ 29,
     eph_Crc := real_of_int (g3_crc f3) / 2 ^ 5, eph_Crs := real_of_int (g3_crs f3) / 2 ^ 5,
     eph_Cic := real_of_int (g4_cic f4) / 2 ^ 29, eph_Cis := real_of_int (g4_cis f4) / 2 ^ 29\<rparr>"

definition inav_clk :: "raw_w4 \<Rightarrow> raw_w5 \<Rightarrow> clock_model" where
  "inav_clk f4 f5 = \<lparr>clk_ID = Galileo, clk_Af0 = real_of_int (g4_af0 f4) / 2 ^ 34, clk_Af1 = real_of_int (g4_af1 f4) / 2 ^ 46,
     clk_Af2 = real_of_int (g4_af2 f4) / 2 ^ 59, clk_Toc = real (g4_t0c f4) * 60,
     clk_TGD = real_of_int (g5_bgdB f5) / 2 ^ 32\<rparr>"

text \<open>What an almanac entry becomes once both its words are in.\<close>

definition alm_result :: "nat \<Rightarrow> nat \<Rightarrow> nat \<Rightarrow> raw_alm \<Rightarrow> frame_error + gal_almanac" where
  "alm_result iod wna t0a f = (if a_svid f = 0 then Inl ErrUnusedAlmanac else if 36 < a_svid f then Inl ErrBadAlmanac
     else Inr (alm_value iod wna t0a f))"

lemmas complete_defs = CompleteGalileoAlmanac_def Let_def page_word_def alm_word_def orbit_value_def clock_value_def galm0_def
  alm_result_def alm_value_def

text \<open>A concrete broadcast.\<close>

definition ex_w1 :: raw_w1 where "ex_w1 = \<lparr>g1_iod = 77, g1_t0e = 5800, g1_m0 = - 1234567890, g1_ecc = 1234567, g1_sqrtA = 2852448777\<rparr>"
definition ex_w2 :: raw_w2 where "ex_w2 = \<lparr>g2_iod = 77, g2_omg0 = 987654321, g2_i0 = 668123456, g2_omega = - 45678901, g2_idot = - 88\<rparr>"
definition ex_w3 :: raw_w3 where "ex_w3 = \<lparr>g3_iod = 77, g3_omgDot = - 15432, g3_dn = 8123, g3_cuc = 321, g3_cus = 4567, g3_crc = 6543, g3_crs = 222, g3_sisa = 107\<rparr>"
definition ex_w4 :: raw_w4 where "ex_w4 = \<lparr>g4_iod = 77, g4_svid = 11, g4_cic = - 9, g4_cis = 14, g4_t0c = 5800, g4_af0 = - 7654321, g4_af1 = - 321, g4_af2 = 0\<rparr>"
definition ex_w5 :: raw_w5 where "ex_w5 = \<lparr>g5_iono = 12345, g5_bgdA = - 12, g5_bgdB = - 15, g5_e5bhs = 0, g5_e1bhs = 0, g5_e5bdvs = 0, g5_e1bdvs = 0, g5_wn = 1381, g5_tow = 348010\<rparr>"
definition ex_alm :: "nat \<Rightarrow> raw_alm" where
  "ex_alm sv = \<lparr>a_svid = sv, a_dSqrtA = 17, a_ecc = 5, a_omega = - 4321, a_di = - 55, a_omg0 = 12321, a_omgDot = - 60, a_m0 = 777,
     a_af0 = - 12, a_af1 = 3, a_e5b = 0, a_e1b = 0\<rparr>"

lemma wf_ex_inav: "wf_w1 ex_w1" "wf_w2 ex_w2" "wf_w3 ex_w3" "wf_w4 ex_w4" "wf_w5 ex_w5" "sv < 64 \<Longrightarrow> wf_alm (ex_alm sv)"
  by (simp_all add: wf_w1_def wf_w2_def wf_w3_def wf_w4_def wf_w5_def ex_w1_def ex_w2_def ex_w3_def ex_w4_def ex_w5_def
      wf_alm_def ex_alm_def fits_defs)

section \<open>Properties\<close>

text \<open>C9: Round trip through the whole I/NAV path: five nominal pages carrying word types 1 to 5 laid out as the
  Galileo OS SIS ICD prescribes, each with its CRC and with OSNMA, SAR, spare and tail bits of its own,
  decode and assemble to the scaled values of their fields. The set is refused when the issue-of-data tags
  of words 1 to 4 differ and when word 4 names another satellite.\<close>

theorem INAV_roundtrip:
  assumes "wf_w1 f1" "wf_w2 f2" "wf_w3 f3" "wf_w4 f4" "wf_w5 f5" "os1 < 2 ^ 40" "os2 < 2 ^ 40" "os3 < 2 ^ 40" "os4 < 2 ^ 40" "os5 < 2 ^ 40"
  shows "decode_assemble_inav svid (inav_page (w1_bits sp1 f1) os1 sar1 t1 u1) (inav_page (w2_bits sp2 f2) os2 sar2 t2 u2)
      (inav_page (w3_bits f3) os3 sar3 t3 u3) (inav_page (w4_bits sp4 f4) os4 sar4 t4 u4) (inav_page (w5_bits sp5 f5) os5 sar5 t5 u5) =
    (if g1_iod f1 \<noteq> g2_iod f2 \<or> g1_iod f1 \<noteq> g3_iod f3 \<or> g1_iod f1 \<noteq> g4_iod f4 then Inl ErrIODMismatch
     else if int (g4_svid f4) \<noteq> svid then Inl ErrPRNMismatch
     else Inr (inav_eph svid f1 f2 f3 f4, inav_clk f4 f5))"
proof -
  have "AssembleGalileo svid (Some (w1_value os1 f1)) (Some (w2_value os2 f2)) (Some (w3_value os3 f3)) (Some (w4_value os4 f4))
      (Some (w5_value os5 f5)) =
    (if g1_iod f1 \<noteq> g2_iod f2 \<or> g1_iod f1 \<noteq> g3_iod f3 \<or> g1_iod f1 \<noteq> g4_iod f4 then Inl ErrIODMismatch
     else if int (g4_svid f4) \<noteq> svid then Inl ErrPRNMismatch
     else Inr (inav_eph svid f1 f2 f3 f4, inav_clk f4 f5))"
    by (simp add: AssembleGalileo_def Let_def w1_value_def w2_value_def w3_value_def w4_value_def w5_value_def
        page_word_def inav0_def inav_eph_def inav_clk_def eph0_def clk0_def)
  then show ?thesis
    unfolding decode_assemble_inav_def decode_pages_def list.map decode_w1 [OF assms(1,6)] decode_w2 [OF assms(2,7)]
      decode_w3 [OF assms(3,8)] decode_w4 [OF assms(4,9)] decode_w5 [OF assms(5,10)] by simp
qed

theorem INAV_roundtrip_witness:
  "decode_assemble_inav 11 (inav_page (w1_bits 1 ex_w1) 9 8 7 6) (inav_page (w2_bits 2 ex_w2) 10 9 8 7)
      (inav_page (w3_bits ex_w3) 11 10 9 8) (inav_page (w4_bits 1 ex_w4) 12 11 10 9) (inav_page (w5_bits 3 ex_w5) 13 12 11 10) =
   Inr (inav_eph 11 ex_w1 ex_w2 ex_w3 ex_w4, inav_clk ex_w4 ex_w5)"
  by (subst INAV_roundtrip [OF wf_ex_inav(1-5)]) (simp_all add: ex_w1_def ex_w2_def ex_w3_def ex_w4_def)

text \<open>Round trip of the almanac batch: word types 7 to 10 carrying three satellites decode and join, pair by
  pair, to exactly the three almanacs, each with the batch's reference time; unused entries (satellite
  0) and reserved numbers above 36 are refused.\<close>

lemma INAV_almanac_roundtrip:
  assumes "wf_alm f" "wf_alm g" "wf_alm h" "iod < 16" "wna < 4" "t0a < 1008" "os < 2 ^ 40"
    and "p7 = inav_page (w7_bits sp iod wna t0a f) os sar t t'"
    and "p8 = inav_page (w8_bits sp iod f g) os sar t t'"
    and "p9 = inav_page (w9_bits iod wna t0a g h) os sar t t'"
    and "p10 = inav_page (w10_bits ggto iod h) os sar t t'"
  shows "decode_complete_alm p7 p8 = alm_result iod wna t0a f \<and>
    decode_complete_alm p8 p9 = alm_result iod wna t0a g \<and>
    decode_complete_alm p9 p10 = alm_result iod wna t0a h"
proof -
  note d = decode_w7 [OF assms(1,4-7)] decode_w8 [OF assms(1,2,4,7)] decode_w9 [OF assms(2-7)]
  obtain w where w: "DecodeGalileoINAV p10 = Inr w" "in_Type w = 10" "in_Almanac w = Some (w10_alm iod h)"
    using decode_w10 [OF assms(3,4,7)] assms(11) by metis
  have "decode_complete_alm p7 p8 = alm_result iod wna t0a f"
    unfolding decode_complete_alm_def decode_pages_def list.map assms(8,9) d
    by (simp add: complete_defs w7_alm_def w8_alm_def)
  moreover have "decode_complete_alm p8 p9 = alm_result iod wna t0a g"
    unfolding decode_complete_alm_def decode_pages_def list.map assms(9,10) d
    by (simp add: complete_defs w8_alm_def w9_alm_def)
  moreover have "decode_complete_alm p9 p10 = alm_result iod wna t0a h"
    unfolding decode_complete_alm_def decode_pages_def list.map w(1) assms(10) d
    by (simp add: complete_defs w(2,3) w9_alm_def w10_alm_def)
  ultimately show ?thesis by simp
qed

text \<open>I/NAV integrity end to end: if a page is accepted, then every page whose 220 protected bits (gathered from
  the even and the odd part) differ only within 24 consecutive ones is refused.\<close>

lemma INAV_burst_rejected:
  assumes "DecodeGalileoINAV ws = Inr w" "inav_protected ws = xs @ e @ ys" "inav_protected ws' = xs @ e' @ ys"
    and "length e = length e'" "length e \<le> 24" "e \<noteq> e'"
  shows "\<exists>err. DecodeGalileoINAV ws' = Inl err"
proof (cases "DecodeGalileoINAV ws'")
  case (Inr w')
  with inav.burst_rejected [OF assms, of w'] show ?thesis by simp
qed simp

lemma bslice_splice_other:
  "off + length bs \<le> length xs \<Longrightarrow> p + n \<le> off \<or> off + length bs \<le> p \<Longrightarrow> bslice p n (splice_at off bs xs) = bslice p n xs"
  by (simp add: bslice_def splice_at_other)

lemma bslice_splice_same: "off + length bs \<le> length xs \<Longrightarrow> bslice off (length bs) (splice_at off bs xs) = bs"
  by (simp add: bslice_def splice_at_slice)

text \<open>Stamping a page overwrites exactly the 24 CRC bits with a checksum the decoder's check accepts: every
  other bit of the page and every further word stay as they were, and a delivery shorter than eight
  words is left alone.\<close>

lemma StampGalileoINAVCRC_ok:
  "\<exists>ws'. StampGalileoINAVCRC words = Inr ws' \<and> length ws' = length words \<and>
     (if length words < 8 then ws' = words
      else CheckCRC24QBits (galileoINAVCRCMessage (be_words 8 ws') True) 0 220 = Inr True \<and>
        bslice 0 210 (bits_of (be_words 8 ws')) = bslice 0 210 (bits_of (be_words 8 words)) \<and>
        bslice 234 22 (bits_of (be_words 8 ws')) = bslice 234 22 (bits_of (be_words 8 words)) \<and>
        drop 8 ws' = drop 8 words)"
proof (cases "length words < 8")
  case True
  then show ?thesis by (simp add: StampGalileoINAVCRC_def)
next
  case False
  define page where "page = be_words 8 words"
  define c where "c = crc_reg (inav_crc_bits (bits_of page))"
  define page' where "page' = write_bits page 210 (reg_bits c)"
  define ws' where "ws' = be_unwords 8 page' @ drop 8 words"
  have len: "length page = 32" "length page' = 32" using False by (simp_all add: page_def page'_def)
  have S: "StampGalileoINAVCRC words = Inr ws'"
    using False
    by (simp add: StampGalileoINAVCRC_def page_def [symmetric] inav_crc [OF len(1)] c_def [symmetric] Let_def
        crc_bits_written [simplified] page'_def [symmetric] ws'_def)
  have W: "be_words 8 ws' = page'"
    using be_words_be_unwords [of page' 8] len by (simp add: ws'_def be_words_def)
  have B: "bits_of page' = splice_at 210 (reg_bits c) (bits_of page)"
    using len by (simp add: page'_def bits_of_write_bits)
  have sl: "bslice p n (bits_of page') = bslice p n (bits_of page)" if "p + n \<le> 210 \<or> 234 \<le> p" for p n
    unfolding B using that len by (intro bslice_splice_other) simp_all
  have "inav_crc_bits (bits_of page') = inav_crc_bits (bits_of page)"
    unfolding inav_crc_bits_def using sl [of 0 114] sl [of 128 82] by simp
  moreover have "bslice 210 24 (bits_of page') = reg_bits c"
    unfolding B using bslice_splice_same [of 210 "reg_bits c" "bits_of page"] len by simp
  ultimately have "CheckCRC24QBits (galileoINAVCRCMessage page' True) 0 220 = Inr True"
    by (simp add: inav_check [OF len(2)] c_def crc_reg_append_self)
  then show ?thesis
    using False S W sl [of 0 210] sl [of 234 22] by (intro exI [of _ ws']) (simp add: page_def [symmetric] ws'_def)
qed

end
