(* ===== verification/GalileoFnav.thy ===== *)
theory GalileoFnav
  imports GalileoInav
begin

text \<open>
  \<^verbatim>\<open>gnss/frame/galileo_fnav.go\<close>: the Galileo F/NAV page decoder on E5a, its CRC stamping helper and the
  assembly of pages 1 to 4.
\<close>

section \<open>The code\<close>

record gal_fnav =
  fn_PageType :: int
  fn_IODnav :: int
  fn_SVID :: int
  fn_SISA :: int
  fn_E5aHS :: int
  fn_E5aDVS :: int
  fn_WN :: int
  fn_TOW :: real
  fn_BGDE1E5a :: real
  fn_HasGGTO :: bool
  fn_GGTOValid :: bool
  fn_A0G :: real
  fn_A1G :: real
  fn_T0G :: real
  fn_WN0G :: int
  fn_eph :: ephemeris
  fn_clk :: clock_model
  fn_hasClk :: bool

definition fnav0 :: gal_fnav where
  "fnav0 = \<lparr>fn_PageType = 0, fn_IODnav = 0, fn_SVID = 0, fn_SISA = 0, fn_E5aHS = 0, fn_E5aDVS = 0, fn_WN = 0,
     fn_TOW = 0, fn_BGDE1E5a = 0, fn_HasGGTO = False, fn_GGTOValid = False, fn_A0G = 0, fn_A1G = 0, fn_T0G = 0,
     fn_WN0G = 0, fn_eph = eph0, fn_clk = clk0, fn_hasClk = False\<rparr>"

definition StampGalileoFNAVCRC :: "u32 list \<Rightarrow> frame_error + u32 list" where
  "StampGalileoFNAVCRC words =
     (if length words < 8 then Inr words
      else
       (let buf = be_words 8 words
        in case CRC24QBits buf 0 214 of
             Inl e \<Rightarrow> Inl e
           | Inr crc \<Rightarrow>
               (let buf' = write_bits buf 214 (map (\<lambda>i. crc AND push_bit (23 - i) 1 \<noteq> 0) [0..<24])
                in Inr (be_unwords 8 buf' @ drop 8 words))))"

definition fnav_page1 :: "bit_reader \<Rightarrow> gal_fnav \<Rightarrow> frame_error + gal_fnav" where
  "fnav_page1 r w =
     (let w1 = w\<lparr>fn_SVID := go_int (getu r 6 6), fn_IODnav := go_int (getu r 12 10), fn_SISA := go_int (getu r 94 8),
                 fn_E5aHS := go_int (getu r 153 2), fn_E5aDVS := go_int (getu r 187 1), fn_WN := go_int (getu r 155 12),
                 fn_TOW := fl (getu r 167 20)\<rparr>
      in if fn_TOW w1 \<ge> weekSeconds then Inl ErrBadEpoch
         else
          (let w2 = w1\<lparr>fn_BGDE1E5a := real_of_int (gets r 143 10) * p2m32,
                      fn_clk := \<lparr>clk_ID = Galileo,
                        clk_Af0 = real_of_int (gets r 36 31) * p2m34,
                        clk_Af1 = real_of_int (gets r 67 21) * p2m46,
                        clk_Af2 = real_of_int (gets r 88 6) * p2m59,
                        clk_Toc = fl (getu r 22 14) * galT0,
                        clk_TGD = real_of_int (gets r 143 10) * p2m32 * E5aGroupDelayFactor\<rparr>\<rparr>
           in if clk_Toc (fn_clk w2) \<ge> weekSeconds then Inl ErrBadEpoch else Inr (w2\<lparr>fn_hasClk := True\<rparr>)))"

definition fnav_page2 :: "bit_reader \<Rightarrow> gal_fnav \<Rightarrow> frame_error + gal_fnav" where
  "fnav_page2 r w =
     (let semi = Pi
      in Inr (w\<lparr>fn_eph := (fn_eph w)\<lparr>
           eph_M0 := real_of_int (gets r 16 32) * p2m31 * semi,
           eph_OmegaDot := real_of_int (gets r 48 24) * p2m43 * semi,
           eph_Ecc := fl (getu r 72 32) * p2m33,
           eph_SqrtA := fl (getu r 104 32) * p2m19,
           eph_Omega0 := real_of_int (gets r 136 32) * p2m31 * semi,
           eph_IDot := real_of_int (gets r 168 14) * p2m43 * semi\<rparr>\<rparr>))"

definition fnav_page3 :: "bit_reader \<Rightarrow> gal_fnav \<Rightarrow> frame_error + gal_fnav" where
  "fnav_page3 r w =
     (let semi = Pi;
          w1 = w\<lparr>fn_eph := (fn_eph w)\<lparr>
           eph_I0 := real_of_int (gets r 16 32) * p2m31 * semi,
           eph_Omega := real_of_int (gets r 48 32) * p2m31 * semi,
           eph_DeltaN := real_of_int (gets r 80 16) * p2m43 * semi,
           eph_Cuc := real_of_int (gets r 96 16) * p2m29,
           eph_Cus := real_of_int (gets r 112 16) * p2m29,
           eph_Crc := real_of_int (gets r 128 16) * p2m5,
           eph_Crs := real_of_int (gets r 144 16) * p2m5,
           eph_Toe := fl (getu r 160 14) * galT0\<rparr>\<rparr>
      in if eph_Toe (fn_eph w1) \<ge> weekSeconds then Inl ErrBadEpoch else Inr w1)"

definition fnav_page4 :: "bit_reader \<Rightarrow> gal_fnav \<Rightarrow> frame_error + gal_fnav" where
  "fnav_page4 r w =
     (let a0gRaw = getu r 155 16;
          a1gRaw = getu r 171 12;
          t0gRaw = getu r 147 8;
          wn0gRaw = getu r 183 6
      in Inr (w\<lparr>fn_eph := (fn_eph w)\<lparr>eph_Cic := real_of_int (gets r 16 16) * p2m29, eph_Cis := real_of_int (gets r 32 16) * p2m29\<rparr>,
           fn_HasGGTO := True,
           fn_GGTOValid := \<not> (a0gRaw = 0xFFFF \<and> a1gRaw = 0xFFF \<and> t0gRaw = 0xFF \<and> wn0gRaw = 0x3F),
           fn_A0G := real_of_int (gets r 155 16) * p2m35,
           fn_A1G := real_of_int (gets r 171 12) * p2m51,
           fn_T0G := fl t0gRaw * galT0G,
           fn_WN0G := go_int wn0gRaw\<rparr>))"

definition DecodeGalileoFNAV :: "u32 list \<Rightarrow> frame_error + gal_fnav" where
  "DecodeGalileoFNAV words =
     (if length words < 8 then Inl ErrShortFrame
      else
       (let buf = be_words 8 words
        in case CheckCRC24QBits buf 0 238 of
             Inl e \<Rightarrow> Inl e
           | Inr False \<Rightarrow> Inl ErrBadCRC
           | Inr True \<Rightarrow>
               (let r = NewBitReaderN buf 256;
                    pt = go_int (getu r 0 6);
                    w = fnav0\<lparr>fn_PageType := pt, fn_IODnav := go_int (getu r 6 10)\<rparr>
                in if pt = 1 then fnav_page1 r w
                   else if pt = 2 then fnav_page2 r w
                   else if pt = 3 then fnav_page3 r w
                   else if pt = 4 then fnav_page4 r w
                   else Inr w)))"

definition ClockTGD :: "gal_fnav \<Rightarrow> real" where
  "ClockTGD w = clk_TGD (fn_clk w)"

definition AssembleGalileoFNAV ::
  "int \<Rightarrow> gal_fnav option \<Rightarrow> gal_fnav option \<Rightarrow> gal_fnav option \<Rightarrow> gal_fnav option \<Rightarrow> frame_error + ephemeris \<times> clock_model" where
  "AssembleGalileoFNAV svid op1 op2 op3 op4 =
     (case (op1, op2, op3, op4) of
        (Some p1, Some p2, Some p3, Some p4) \<Rightarrow>
          if fn_PageType p1 \<noteq> 1 \<or> fn_PageType p2 \<noteq> 2 \<or> fn_PageType p3 \<noteq> 3 \<or> fn_PageType p4 \<noteq> 4 then Inl ErrWrongMsgType
          else if fn_IODnav p1 \<noteq> fn_IODnav p2 \<or> fn_IODnav p2 \<noteq> fn_IODnav p3 \<or> fn_IODnav p2 \<noteq> fn_IODnav p4 then Inl ErrIODMismatch
          else if fn_SVID p1 \<noteq> svid then Inl ErrPRNMismatch
          else
            (let e3 = fn_eph p3; e4 = fn_eph p4;
                 eph = (fn_eph p2)\<lparr>eph_I0 := eph_I0 e3, eph_Omega := eph_Omega e3, eph_DeltaN := eph_DeltaN e3,
                   eph_Cuc := eph_Cuc e3, eph_Cus := eph_Cus e3, eph_Crc := eph_Crc e3, eph_Crs := eph_Crs e3,
                   eph_Toe := eph_Toe e3, eph_Cic := eph_Cic e4, eph_Cis := eph_Cis e4,
                   eph_ID := Galileo, eph_SVID := svid\<rparr>
             in Inr (eph, (fn_clk p1)\<lparr>clk_ID := Galileo\<rparr>))
      | _ \<Rightarrow> Inl ErrShortFrame)"

section \<open>The CRC gate\<close>

definition fnav_protected :: "u32 list \<Rightarrow> bool list" where
  "fnav_protected ws = bslice 0 238 (bits_of (be_words 8 ws))"

lemma DecodeGalileoFNAV_gate:
  assumes "DecodeGalileoFNAV ws = Inr w"
  shows "8 \<le> length ws" "crc_reg (fnav_protected ws) = 0"
proof -
  show l: "8 \<le> length ws" using assms by (auto simp: DecodeGalileoFNAV_def not_less split: if_splits)
  have "CheckCRC24QBits (be_words 8 ws) 0 238 = Inr True"
    using assms by (auto simp: DecodeGalileoFNAV_def Let_def split: if_splits sum.splits bool.splits)
  then show "crc_reg (fnav_protected ws) = 0"
    using l by (simp add: CheckCRC24QBits_reg fnav_protected_def bslice_def)
qed

interpretation fnav: crc_gated DecodeGalileoFNAV fnav_protected
  by unfold_locales (rule DecodeGalileoFNAV_gate(2))

section \<open>The interface document's layout\<close>

record raw_p1 =
  f1_svid :: nat
  f1_iod :: nat
  f1_t0c :: nat
  f1_af0 :: int
  f1_af1 :: int
  f1_af2 :: int
  f1_sisa :: nat
  f1_iono :: nat
  f1_bgd :: int
  f1_hs :: nat
  f1_wn :: nat
  f1_tow :: nat
  f1_dvs :: nat

record raw_p2 =
  f2_iod :: nat
  f2_m0 :: int
  f2_omgDot :: int
  f2_ecc :: nat
  f2_sqrtA :: nat
  f2_omg0 :: int
  f2_idot :: int

record raw_p3 =
  f3_iod :: nat
  f3_i0 :: int
  f3_omega :: int
  f3_dn :: int
  f3_cuc :: int
  f3_cus :: int
  f3_crc :: int
  f3_crs :: int
  f3_t0e :: nat

record raw_p4 =
  f4_iod :: nat
  f4_cic :: int
  f4_cis :: int
  f4_utc :: nat
  f4_t0G :: nat
  f4_A0G :: int
  f4_A1G :: int
  f4_WN0G :: nat

definition p1_bits :: "nat \<Rightarrow> raw_p1 \<Rightarrow> bool list" where
  "p1_bits spare f = ubits_enc 6 1 @ ubits_enc 6 (f1_svid f) @ ubits_enc 10 (f1_iod f) @ ubits_enc 14 (f1_t0c f) @
     sbits_enc 31 (f1_af0 f) @ sbits_enc 21 (f1_af1 f) @ sbits_enc 6 (f1_af2 f) @ ubits_enc 8 (f1_sisa f) @ ubits_enc 41 (f1_iono f) @
     sbits_enc 10 (f1_bgd f) @ ubits_enc 2 (f1_hs f) @ ubits_enc 12 (f1_wn f) @ ubits_enc 20 (f1_tow f) @ ubits_enc 1 (f1_dvs f) @
     ubits_enc 26 spare"

definition p2_bits :: "nat \<Rightarrow> raw_p2 \<Rightarrow> bool list" where
  "p2_bits spare f = ubits_enc 6 2 @ ubits_enc 10 (f2_iod f) @ sbits_enc 32 (f2_m0 f) @ sbits_enc 24 (f2_omgDot f) @
     ubits_enc 32 (f2_ecc f) @ ubits_enc 32 (f2_sqrtA f) @ sbits_enc 32 (f2_omg0 f) @ sbits_enc 14 (f2_idot f) @ ubits_enc 32 spare"

definition p3_bits :: "nat \<Rightarrow> raw_p3 \<Rightarrow> bool list" where
  "p3_bits spare f = ubits_enc 6 3 @ ubits_enc 10 (f3_iod f) @ sbits_enc 32 (f3_i0 f) @ sbits_enc 32 (f3_omega f) @
     sbits_enc 16 (f3_dn f) @ sbits_enc 16 (f3_cuc f) @ sbits_enc 16 (f3_cus f) @ sbits_enc 16 (f3_crc f) @ sbits_enc 16 (f3_crs f) @
     ubits_enc 14 (f3_t0e f) @ ubits_enc 40 spare"

definition p4_bits :: "nat \<Rightarrow> raw_p4 \<Rightarrow> bool list" where
  "p4_bits spare f = ubits_enc 6 4 @ ubits_enc 10 (f4_iod f) @ sbits_enc 16 (f4_cic f) @ sbits_enc 16 (f4_cis f) @
     ubits_enc 99 (f4_utc f) @ ubits_enc 8 (f4_t0G f) @ sbits_enc 16 (f4_A0G f) @ sbits_enc 12 (f4_A1G f) @ ubits_enc 6 (f4_WN0G f) @
     ubits_enc 25 spare"

definition wf_p1 :: "raw_p1 \<Rightarrow> bool" where
  "wf_p1 f \<longleftrightarrow> ufits 6 (f1_svid f) \<and> ufits 10 (f1_iod f) \<and> f1_t0c f < 10080 \<and> sfits 31 (f1_af0 f) \<and> sfits 21 (f1_af1 f) \<and>
     sfits 6 (f1_af2 f) \<and> ufits 8 (f1_sisa f) \<and> sfits 10 (f1_bgd f) \<and> ufits 2 (f1_hs f) \<and> ufits 12 (f1_wn f) \<and>
     f1_tow f < 604800 \<and> ufits 1 (f1_dvs f)"

definition wf_p2 :: "raw_p2 \<Rightarrow> bool" where
  "wf_p2 f \<longleftrightarrow> ufits 10 (f2_iod f) \<and> sfits 32 (f2_m0 f) \<and> sfits 24 (f2_omgDot f) \<and> ufits 32 (f2_ecc f) \<and>
     ufits 32 (f2_sqrtA f) \<and> sfits 32 (f2_omg0 f) \<and> sfits 14 (f2_idot f)"

definition wf_p3 :: "raw_p3 \<Rightarrow> bool" where
  "wf_p3 f \<longleftrightarrow> ufits 10 (f3_iod f) \<and> sfits 32 (f3_i0 f) \<and> sfits 32 (f3_omega f) \<and> sfits 16 (f3_dn f) \<and> sfits 16 (f3_cuc f) \<and>
     sfits 16 (f3_cus f) \<and> sfits 16 (f3_crc f) \<and> sfits 16 (f3_crs f) \<and> f3_t0e f < 10080"

definition wf_p4 :: "raw_p4 \<Rightarrow> bool" where
  "wf_p4 f \<longleftrightarrow> ufits 10 (f4_iod f) \<and> sfits 16 (f4_cic f) \<and> sfits 16 (f4_cis f) \<and> ufits 8 (f4_t0G f) \<and> sfits 16 (f4_A0G f) \<and>
     sfits 12 (f4_A1G f) \<and> ufits 6 (f4_WN0G f)"

lemma length_p_bits [simp]:
  "length (p1_bits s a) = 214" "length (p2_bits s b) = 214" "length (p3_bits s c) = 214" "length (p4_bits s d) = 214"
  by (simp_all add: p1_bits_def p2_bits_def p3_bits_def p4_bits_def)

definition fnav_words :: "nat \<Rightarrow> bool list \<Rightarrow> u32 list" where
  "fnav_words pad msg = words32 8 (crc_seal msg @ ubits_enc 18 pad)"

definition fnav_reader :: "nat \<Rightarrow> bool list \<Rightarrow> bit_reader" where
  "fnav_reader pad msg = NewBitReaderN (be_words 8 (fnav_words pad msg)) 256"

lemma bits_fnav_words:
  "length msg = 214 \<Longrightarrow> bits_of (be_words 8 (fnav_words pad msg)) = msg @ reg_bits (crc_reg msg) @ ubits_enc 18 pad"
  by (simp add: fnav_words_def bits_of_words32 crc_seal_def)

lemma fnav_reads:
  "length msg = 214 \<Longrightarrow> reads (fnav_reader pad msg) (msg @ reg_bits (crc_reg msg) @ ubits_enc 18 pad)"
  unfolding fnav_reader_def
  by (rule reads_NewBitReaderN [where rest = "[]"]) (simp_all add: bits_fnav_words, simp_all add: fnav_words_def)

lemma fnav_check: "length msg = 214 \<Longrightarrow> CheckCRC24QBits (be_words 8 (fnav_words pad msg)) 0 238 = Inr True"
proof -
  assume l: "length msg = 214"
  have "length (be_words 8 (fnav_words pad msg)) = 32" by (simp add: fnav_words_def)
  with l show ?thesis by (simp add: CheckCRC24QBits_reg bits_fnav_words crc_reg_append_self)
qed

lemma decode_fnav:
  assumes "msg = ubits_enc 6 pt @ rest" "length msg = 214" "pt \<in> {1, 2, 3, 4}"
  shows "DecodeGalileoFNAV (fnav_words pad msg) =
    (let r = fnav_reader pad msg; w = fnav0\<lparr>fn_PageType := int pt, fn_IODnav := go_int (getu r 6 10)\<rparr>
     in if pt = 1 then fnav_page1 r w else if pt = 2 then fnav_page2 r w else if pt = 3 then fnav_page3 r w else fnav_page4 r w)"
proof -
  note R = fnav_reads [OF assms(2), of pad]
  have "bslice 0 6 (msg @ reg_bits (crc_reg msg) @ ubits_enc 18 pad) = ubits_enc 6 pt"
    by (simp add: assms(1) slice_simps)
  then have p: "go_int (getu (fnav_reader pad msg) 0 6) = int pt"
    using assms(2,3) by (auto simp: reads_getu [OF R] go_int_def)
  show ?thesis
    using assms(3) p
    unfolding DecodeGalileoFNAV_def Let_def fnav_check [OF assms(2)] fnav_reader_def [symmetric]
    by (elim insertE emptyE) (simp_all add: fnav_words_def)
qed

definition p1_value :: "raw_p1 \<Rightarrow> gal_fnav" where
  "p1_value f = fnav0\<lparr>fn_PageType := 1, fn_SVID := int (f1_svid f), fn_IODnav := int (f1_iod f), fn_SISA := int (f1_sisa f),
     fn_E5aHS := int (f1_hs f), fn_E5aDVS := int (f1_dvs f), fn_WN := int (f1_wn f), fn_TOW := real (f1_tow f),
     fn_BGDE1E5a := real_of_int (f1_bgd f) / 2 ^ 32,
     fn_clk := \<lparr>clk_ID = Galileo, clk_Af0 = real_of_int (f1_af0 f) / 2 ^ 34, clk_Af1 = real_of_int (f1_af1 f) / 2 ^ 46,
       clk_Af2 = real_of_int (f1_af2 f) / 2 ^ 59, clk_Toc = real (f1_t0c f) * 60,
       clk_TGD = real_of_int (f1_bgd f) / 2 ^ 32 * (1575.42 / 1176.45)\<^sup>2\<rparr>,
     fn_hasClk := True\<rparr>"

definition p2_value :: "raw_p2 \<Rightarrow> gal_fnav" where
  "p2_value f = fnav0\<lparr>fn_PageType := 2, fn_IODnav := int (f2_iod f),
     fn_eph := eph0\<lparr>eph_M0 := real_of_int (f2_m0 f) / 2 ^ 31 * Pi, eph_OmegaDot := real_of_int (f2_omgDot f) / 2 ^ 43 * Pi,
       eph_Ecc := real (f2_ecc f) / 2 ^ 33, eph_SqrtA := real (f2_sqrtA f) / 2 ^ 19,
       eph_Omega0 := real_of_int (f2_omg0 f) / 2 ^ 31 * Pi, eph_IDot := real_of_int (f2_idot f) / 2 ^ 43 * Pi\<rparr>\<rparr>"

definition p3_value :: "raw_p3 \<Rightarrow> gal_fnav" where
  "p3_value f = fnav0\<lparr>fn_PageType := 3, fn_IODnav := int (f3_iod f),
     fn_eph := eph0\<lparr>eph_I0 := real_of_int (f3_i0 f) / 2 ^ 31 * Pi, eph_Omega := real_of_int (f3_omega f) / 2 ^ 31 * Pi,
       eph_DeltaN := real_of_int (f3_dn f) / 2 ^ 43 * Pi, eph_Cuc := real_of_int (f3_cuc f) / 2 ^ 29,
       eph_Cus := real_of_int (f3_cus f) / 2 ^ 29, eph_Crc := real_of_int (f3_crc f) / 2 ^ 5,
       eph_Crs := real_of_int (f3_crs f) / 2 ^ 5, eph_Toe := real (f3_t0e f) * 60\<rparr>\<rparr>"

text \<open>The GGTO of a page, with the all-ones pattern that withdraws it.\<close>

definition ggto_withdrawn :: "raw_p4 \<Rightarrow> bool" where
  "ggto_withdrawn f \<longleftrightarrow> f4_A0G f = - 1 \<and> f4_A1G f = - 1 \<and> f4_t0G f = 255 \<and> f4_WN0G f = 63"

definition p4_value :: "raw_p4 \<Rightarrow> gal_fnav" where
  "p4_value f = fnav0\<lparr>fn_PageType := 4, fn_IODnav := int (f4_iod f),
     fn_eph := eph0\<lparr>eph_Cic := real_of_int (f4_cic f) / 2 ^ 29, eph_Cis := real_of_int (f4_cis f) / 2 ^ 29\<rparr>,
     fn_HasGGTO := True, fn_GGTOValid := \<not> ggto_withdrawn f,
     fn_A0G := real_of_int (f4_A0G f) / 2 ^ 35, fn_A1G := real_of_int (f4_A1G f) / 2 ^ 51,
     fn_T0G := real (f4_t0G f) * 3600, fn_WN0G := int (f4_WN0G f)\<rparr>"

lemma read_p1:
  assumes R: "reads r (p1_bits s f @ rest)" and "wf_p1 f"
  shows "fnav_page1 r (fnav0\<lparr>fn_PageType := 1, fn_IODnav := x\<rparr>) = Inr (p1_value f)"
  using assms(2)
  by (simp add: fnav_page1_def Let_def reads_getu [OF R] reads_gets [OF R] p1_bits_def slice_simps wf_p1_def fits_defs
      read_values p1_value_def fnav0_def scale_defs galT0_def E5aGroupDelayFactor_def power2_eq_square)

lemma read_p2:
  assumes R: "reads r (p2_bits s f @ rest)" and "wf_p2 f"
  shows "fnav_page2 r (fnav0\<lparr>fn_PageType := 2, fn_IODnav := go_int (getu r 6 10)\<rparr>) = Inr (p2_value f)"
  using assms(2)
  by (simp add: fnav_page2_def Let_def reads_getu [OF R] reads_gets [OF R] p2_bits_def slice_simps wf_p2_def fits_defs
      read_values p2_value_def fnav0_def scale_defs)

lemma read_p3:
  assumes R: "reads r (p3_bits s f @ rest)" and "wf_p3 f"
  shows "fnav_page3 r (fnav0\<lparr>fn_PageType := 3, fn_IODnav := go_int (getu r 6 10)\<rparr>) = Inr (p3_value f)"
  using assms(2)
  by (simp add: fnav_page3_def Let_def reads_getu [OF R] reads_gets [OF R] p3_bits_def slice_simps wf_p3_def fits_defs
      read_values p3_value_def fnav0_def scale_defs galT0_def)

lemma nat_of_bits_sbits: "nat_of_bits (sbits_enc n v) = nat (v mod 2 ^ n)"
  by (simp add: sbits_enc_mod nat_of_bits_ubits_enc_mod nat_less_iff)

lemma nat_mod_top:
  fixes v :: int
  assumes "- m \<le> 2 * v" "2 * v < m" "2 < m"
  shows "nat (v mod m) = nat (m - 1) \<longleftrightarrow> v = - 1"
proof (cases "0 \<le> v")
  case True
  then show ?thesis using assms by (simp add: nat_eq_iff)
next
  case False
  have "v mod m = (v + m) mod m" by simp
  also have "\<dots> = v + m" using False assms by (intro mod_pos_pos_trivial) auto
  finally show ?thesis using False assms by (simp add: nat_eq_iff)
qed

lemmas all_ones16 = nat_mod_top [of 65536, simplified]
lemmas all_ones12 = nat_mod_top [of 4096, simplified]

lemma read_p4:
  assumes R: "reads r (p4_bits s f @ rest)" and "wf_p4 f"
  shows "fnav_page4 r (fnav0\<lparr>fn_PageType := 4, fn_IODnav := go_int (getu r 6 10)\<rparr>) = Inr (p4_value f)"
  using assms(2)
  by (simp add: fnav_page4_def Let_def reads_getu [OF R] reads_gets [OF R] p4_bits_def slice_simps wf_p4_def fits_defs
      read_values p4_value_def fnav0_def scale_defs galT0G_def nat_of_bits_sbits all_ones16 all_ones12 ggto_withdrawn_def
      del: of_nat_nat)

lemma decode_p1:
  assumes "wf_p1 f"
  shows "DecodeGalileoFNAV (fnav_words pad (p1_bits sp f)) = Inr (p1_value f)"
proof -
  note R = fnav_reads [of "p1_bits sp f" pad, simplified]
  show ?thesis
    using read_p1 [OF R assms] by (subst decode_fnav [OF p1_bits_def]) simp_all
qed

lemma decode_p2:
  assumes "wf_p2 f"
  shows "DecodeGalileoFNAV (fnav_words pad (p2_bits sp f)) = Inr (p2_value f)"
proof -
  note R = fnav_reads [of "p2_bits sp f" pad, simplified]
  show ?thesis
    using read_p2 [OF R assms] by (subst decode_fnav [OF p2_bits_def]) simp_all
qed

lemma decode_p3:
  assumes "wf_p3 f"
  shows "DecodeGalileoFNAV (fnav_words pad (p3_bits sp f)) = Inr (p3_value f)"
proof -
  note R = fnav_reads [of "p3_bits sp f" pad, simplified]
  show ?thesis
    using read_p3 [OF R assms] by (subst decode_fnav [OF p3_bits_def]) simp_all
qed

lemma decode_p4:
  assumes "wf_p4 f"
  shows "DecodeGalileoFNAV (fnav_words pad (p4_bits sp f)) = Inr (p4_value f)"
proof -
  note R = fnav_reads [of "p4_bits sp f" pad, simplified]
  show ?thesis
    using read_p4 [OF R assms] by (subst decode_fnav [OF p4_bits_def]) simp_all
qed

definition decode_assemble_fnav ::
  "int \<Rightarrow> u32 list \<Rightarrow> u32 list \<Rightarrow> u32 list \<Rightarrow> u32 list \<Rightarrow> frame_error + ephemeris \<times> clock_model" where
  "decode_assemble_fnav svid w1 w2 w3 w4 =
     (case map DecodeGalileoFNAV [w1, w2, w3, w4] of
        [Inr a, Inr b, Inr c, Inr d] \<Rightarrow> AssembleGalileoFNAV svid (Some a) (Some b) (Some c) (Some d)
      | _ \<Rightarrow> Inl ErrShortFrame)"

definition fnav_eph :: "int \<Rightarrow> raw_p2 \<Rightarrow> raw_p3 \<Rightarrow> raw_p4 \<Rightarrow> ephemeris" where
  "fnav_eph svid f2 f3 f4 = eph0\<lparr>eph_ID := Galileo, eph_SVID := svid,
     eph_M0 := real_of_int (f2_m0 f2) / 2 ^ 31 * Pi, eph_OmegaDot := real_of_int (f2_omgDot f2) / 2 ^ 43 * Pi,
     eph_Ecc := real (f2_ecc f2) / 2 ^ 33, eph_SqrtA := real (f2_sqrtA f2) / 2 ^ 19,
     eph_Omega0 := real_of_int (f2_omg0 f2) / 2 ^ 31 * Pi, eph_IDot := real_of_int (f2_idot f2) / 2 ^ 43 * Pi,
     eph_I0 := real_of_int (f3_i0 f3) / 2 ^ 31 * Pi, eph_Omega := real_of_int (f3_omega f3) / 2 ^ 31 * Pi,
     eph_DeltaN := real_of_int (f3_dn f3) / 2 ^ 43 * Pi, eph_Cuc := real_of_int (f3_cuc f3) / 2 ^ 29,
     eph_Cus := real_of_int (f3_cus f3) / 2 ^ 29, eph_Crc := real_of_int (f3_crc f3) / 2 ^ 5,
     eph_Crs := real_of_int (f3_crs f3) / 2 ^ 5, eph_Toe := real (f3_t0e f3) * 60,
     eph_Cic := real_of_int (f4_cic f4) / 2 ^ 29, eph_Cis := real_of_int (f4_cis f4) / 2 ^ 29\<rparr>"

definition ex_p1 :: raw_p1 where
  "ex_p1 = \<lparr>f1_svid = 11, f1_iod = 77, f1_t0c = 5800, f1_af0 = - 7654321, f1_af1 = - 321, f1_af2 = 0, f1_sisa = 107, f1_iono = 0,
     f1_bgd = - 12, f1_hs = 0, f1_wn = 1381, f1_tow = 348010, f1_dvs = 0\<rparr>"

definition ex_p2 :: raw_p2 where
  "ex_p2 = \<lparr>f2_iod = 77, f2_m0 = - 1234567890, f2_omgDot = - 15432, f2_ecc = 1234567, f2_sqrtA = 2852448777, f2_omg0 = 987654321, f2_idot = - 88\<rparr>"

definition ex_p3 :: raw_p3 where
  "ex_p3 = \<lparr>f3_iod = 77, f3_i0 = 668123456, f3_omega = - 45678901, f3_dn = 8123, f3_cuc = 321, f3_cus = 4567, f3_crc = 6543, f3_crs = 222, f3_t0e = 5800\<rparr>"

definition ex_p4 :: raw_p4 where
  "ex_p4 = \<lparr>f4_iod = 77, f4_cic = - 9, f4_cis = 14, f4_utc = 5, f4_t0G = 20, f4_A0G = - 3, f4_A1G = 1, f4_WN0G = 37\<rparr>"

lemma wf_ex_fnav: "wf_p1 ex_p1" "wf_p2 ex_p2" "wf_p3 ex_p3" "wf_p4 ex_p4"
  by (simp_all add: wf_p1_def wf_p2_def wf_p3_def wf_p4_def ex_p1_def ex_p2_def ex_p3_def ex_p4_def fits_defs)

section \<open>Properties\<close>

text \<open>Round trip through the whole F/NAV path: pages 1 to 4 laid out as the Galileo OS SIS ICD prescribes, with
  their CRC and arbitrary spare bits, decode and assemble to the scaled values of their fields, the
  clock carrying the E5a-scaled group delay. The set is refused when the issue-of-data tags differ
  and when page 1 names another satellite.\<close>

lemma FNAV_roundtrip:
  assumes "wf_p1 f1" "wf_p2 f2" "wf_p3 f3" "wf_p4 f4"
  shows "decode_assemble_fnav svid (fnav_words pad (p1_bits sp f1)) (fnav_words pad (p2_bits sp f2))
      (fnav_words pad (p3_bits sp f3)) (fnav_words pad (p4_bits sp f4)) =
    (if f1_iod f1 \<noteq> f2_iod f2 \<or> f1_iod f1 \<noteq> f3_iod f3 \<or> f1_iod f1 \<noteq> f4_iod f4 then Inl ErrIODMismatch
     else if int (f1_svid f1) \<noteq> svid then Inl ErrPRNMismatch
     else Inr (fnav_eph svid f2 f3 f4, fn_clk (p1_value f1)))"
proof -
  have "AssembleGalileoFNAV svid (Some (p1_value f1)) (Some (p2_value f2)) (Some (p3_value f3)) (Some (p4_value f4)) =
    (if f1_iod f1 \<noteq> f2_iod f2 \<or> f1_iod f1 \<noteq> f3_iod f3 \<or> f1_iod f1 \<noteq> f4_iod f4 then Inl ErrIODMismatch
     else if int (f1_svid f1) \<noteq> svid then Inl ErrPRNMismatch
     else Inr (fnav_eph svid f2 f3 f4, fn_clk (p1_value f1)))"
    by (simp add: AssembleGalileoFNAV_def Let_def p1_value_def p2_value_def p3_value_def p4_value_def fnav0_def fnav_eph_def eph0_def)
  then show ?thesis
    unfolding decode_assemble_fnav_def list.map decode_p1 [OF assms(1)] decode_p2 [OF assms(2)] decode_p3 [OF assms(3)]
      decode_p4 [OF assms(4)] by simp
qed

text \<open>Stamping an F/NAV page writes a CRC the decoder's gate accepts and touches nothing outside the 24
  checksum bits: the stamped page is never refused for its CRC.\<close>

lemma StampGalileoFNAVCRC_ok:
  assumes "8 \<le> length words"
  shows "\<exists>ws'. StampGalileoFNAVCRC words = Inr ws' \<and> DecodeGalileoFNAV ws' \<noteq> Inl ErrBadCRC \<and>
    bslice 0 214 (bits_of (be_words 8 ws')) = bslice 0 214 (bits_of (be_words 8 words)) \<and>
    bslice 238 18 (bits_of (be_words 8 ws')) = bslice 238 18 (bits_of (be_words 8 words)) \<and> drop 8 ws' = drop 8 words"
proof -
  define buf where "buf = be_words 8 words"
  define B where "B = bits_of buf"
  define c where "c = crc_reg (bslice 0 214 B)"
  define buf' where "buf' = write_bits buf 214 (reg_bits c)"
  define ws' where "ws' = be_unwords 8 buf' @ drop 8 words"
  have len: "length buf = 32" "length buf' = 32" "length B = 256" using assms by (simp_all add: buf_def buf'_def B_def)
  have S: "StampGalileoFNAVCRC words = Inr ws'"
    using assms len
    by (simp add: StampGalileoFNAVCRC_def buf_def [symmetric] CRC24QBits_reg B_def [symmetric] bslice_def [of 0, simplified, symmetric]
        c_def [symmetric] Let_def crc_bits_written [simplified] buf'_def [symmetric] ws'_def)
  have W: "be_words 8 ws' = buf'"
    using be_words_be_unwords [of buf' 8] len by (simp add: ws'_def be_words_def)
  have B': "bits_of buf' = splice_at 214 (reg_bits c) B"
    using len by (simp add: buf'_def bits_of_write_bits B_def)
  have sl: "bslice p n (bits_of buf') = bslice p n B" if "p + n \<le> 214 \<or> 238 \<le> p" for p n
    unfolding B' using that len by (intro bslice_splice_other) simp_all
  have "bslice 214 24 (bits_of buf') = reg_bits c"
    unfolding B' using bslice_splice_same [of 214 "reg_bits c" B] len by simp
  then have "bslice 0 238 (bits_of buf') = bslice 0 214 B @ reg_bits c"
    using bslice_join [of 0 214 "bits_of buf'" 24] sl [of 0 214] by simp
  then have "CheckCRC24QBits buf' 0 238 = Inr True"
    using len by (simp add: CheckCRC24QBits_reg bslice_def c_def crc_reg_append_self)
  then have "DecodeGalileoFNAV ws' \<noteq> Inl ErrBadCRC"
    by (auto simp: DecodeGalileoFNAV_def W Let_def fnav_page1_def fnav_page2_def fnav_page3_def fnav_page4_def)
  then show ?thesis
    using S W sl [of 0 214] sl [of 238 18] by (intro exI [of _ ws']) (simp add: buf_def [symmetric] B_def ws'_def)
qed

text \<open>F/NAV integrity end to end: if a page is accepted, then every page whose 238 protected bits differ only
  within 24 consecutive ones is refused.\<close>

lemma FNAV_burst_rejected:
  assumes "DecodeGalileoFNAV ws = Inr w" "fnav_protected ws = xs @ e @ ys" "fnav_protected ws' = xs @ e' @ ys"
    and "length e = length e'" "length e \<le> 24" "e \<noteq> e'"
  shows "\<exists>err. DecodeGalileoFNAV ws' = Inl err"
proof (cases "DecodeGalileoFNAV ws'")
  case (Inr w')
  with fnav.burst_rejected [OF assms, of w'] show ?thesis by simp
qed simp

end
