(* ===== verification/GnssTime.thy ===== *)
theory GnssTime
  imports GnssTypes
begin

text \<open>
  \<^verbatim>\<open>gnss/gnsstime/gnsstime.go\<close> and \<^verbatim>\<open>gnss/frame/sow.go\<close>: week arithmetic. Differences of epochs are
  wrapped to half a week (half a day for GLONASS); a Unix instant is reduced to each system's own
  week and time of week; a truncated broadcast week is resolved to the cycle nearest the wall clock.
  Go's truncating \<^verbatim>\<open>%\<close>, \<^verbatim>\<open>math.Mod\<close>, \<^verbatim>\<open>math.Round\<close> and \<^verbatim>\<open>math.Floor\<close> are written out.
\<close>

section \<open>Library functions the code uses\<close>

definition go_rem :: "int \<Rightarrow> int \<Rightarrow> int" where
  "go_rem a b = (if 0 \<le> a then a mod b else - ((- a) mod b))"

definition math_Round :: "real \<Rightarrow> int" where
  "math_Round x = (if 0 \<le> x then \<lfloor>x + 1 / 2\<rfloor> else - \<lfloor>- x + 1 / 2\<rfloor>)"

definition math_Trunc :: "real \<Rightarrow> int" where
  "math_Trunc x = (if 0 \<le> x then \<lfloor>x\<rfloor> else - \<lfloor>- x\<rfloor>)"

definition math_Mod :: "real \<Rightarrow> real \<Rightarrow> real" where
  "math_Mod x y = x - y * of_int (math_Trunc (x / y))"

section \<open>The code\<close>

definition WeekSeconds :: real where "WeekSeconds = 604800"
definition HalfWeek :: real where "HalfWeek = 302400"
definition DaySeconds :: real where "DaySeconds = 86400"
definition gpsEpochUnix :: real where "gpsEpochUnix = 315964800"
definition gpsTAIminusUTC :: real where "gpsTAIminusUTC = 19"

lemmas time_consts = WeekSeconds_def HalfWeek_def DaySeconds_def gpsEpochUnix_def gpsTAIminusUTC_def

text \<open>The named values of \<^verbatim>\<open>System\<close>, and every other value of its underlying \<^verbatim>\<open>uint8\<close>.\<close>

datatype System = SysGPS | SysGalileo | SysBeiDou | SysNavIC | SysGLONASS | SysUnknown u8

definition EphAge :: "real \<Rightarrow> real \<Rightarrow> real" where
  "EphAge tow ref =
     (let tk = tow - ref
      in if tk > HalfWeek then tk - WeekSeconds
         else if tk < - HalfWeek then tk + WeekSeconds else tk)"

definition EphAgeDay :: "real \<Rightarrow> real \<Rightarrow> real" where
  "EphAgeDay tod tb =
     (let tk = tod - tb
      in if tk > DaySeconds / 2 then tk - DaySeconds
         else if tk < - DaySeconds / 2 then tk + DaySeconds else tk)"

definition EphAgeMinutes :: "real \<Rightarrow> real \<Rightarrow> real" where
  "EphAgeMinutes tow ref = EphAge tow ref / 60"

definition SOWDelta :: "int \<Rightarrow> int \<Rightarrow> int" where
  "SOWDelta a b =
     (let week = 604800; d = go_rem (a - b) week
      in if d > week div 2 then d - week
         else if d < - (week div 2) then d + week else d)"

definition sowDelta :: "int \<Rightarrow> int \<Rightarrow> int \<times> bool" where
  "sowDelta a b =
     (let week = 604800
      in if a < 0 \<or> a \<ge> week \<or> b < 0 \<or> b \<ge> week then (0, False) else (SOWDelta a b, True))"

record GNSSTime =
  gt_Sys :: System
  gt_Week :: int
  gt_TOW :: real

definition epochGPSSeconds :: "System \<Rightarrow> real option" where
  "epochGPSSeconds s = (case s of
       SysGPS \<Rightarrow> Some 0
     | SysGalileo \<Rightarrow> Some (935280000 - gpsEpochUnix)
     | SysBeiDou \<Rightarrow> Some ((1136073600 - gpsEpochUnix) + (33 - gpsTAIminusUTC))
     | SysNavIC \<Rightarrow> Some (935280000 - gpsEpochUnix)
     | SysGLONASS \<Rightarrow> None
     | SysUnknown _ \<Rightarrow> None)"

definition GPSSeconds :: "GNSSTime \<Rightarrow> real option" where
  "GPSSeconds t = (case epochGPSSeconds (gt_Sys t) of
       None \<Rightarrow> None
     | Some off \<Rightarrow> Some (off + of_int (gt_Week t) * WeekSeconds + gt_TOW t))"

definition ToUnix :: "GNSSTime \<Rightarrow> real \<Rightarrow> real option" where
  "ToUnix t gpsMinusUTC = (case GPSSeconds t of
       None \<Rightarrow> None
     | Some gs \<Rightarrow> Some (gpsEpochUnix + gs - gpsMinusUTC))"

definition SystemSeconds :: "System \<Rightarrow> real \<Rightarrow> real \<Rightarrow> real option" where
  "SystemSeconds sys unix gpsMinusUTC = (case epochGPSSeconds sys of
       None \<Rightarrow> None
     | Some off \<Rightarrow> Some (unix - gpsEpochUnix + gpsMinusUTC - off))"

definition WeekAt :: "System \<Rightarrow> real \<Rightarrow> real \<Rightarrow> int option" where
  "WeekAt sys unix gpsMinusUTC = (case SystemSeconds sys unix gpsMinusUTC of
       None \<Rightarrow> None
     | Some s \<Rightarrow> Some \<lfloor>s / WeekSeconds\<rfloor>)"

definition TOWAt :: "System \<Rightarrow> real \<Rightarrow> real \<Rightarrow> real option" where
  "TOWAt sys unix gpsMinusUTC = (case SystemSeconds sys unix gpsMinusUTC of
       None \<Rightarrow> None
     | Some s \<Rightarrow> (let tow = math_Mod s WeekSeconds
                  in Some (if tow < 0 then tow + WeekSeconds else tow)))"

definition DisambiguateWeek :: "System \<Rightarrow> int \<Rightarrow> int \<Rightarrow> real \<Rightarrow> real \<Rightarrow> int" where
  "DisambiguateWeek sys truncated bits approxUnix gpsMinusUTC =
     (if bits \<le> 0 \<or> bits \<ge> 31 then truncated
      else case SystemSeconds sys approxUnix gpsMinusUTC of
        None \<Rightarrow> truncated
      | Some approxGPS \<Rightarrow>
          (let modulus = 2 ^ nat bits;
               approxWeek = approxGPS / WeekSeconds;
               base = math_Round (approxWeek / of_int modulus) * modulus;
               full = base + truncated;
               d = full - math_Round approxWeek
           in if d > modulus div 2 then full - modulus
              else if d < - (modulus div 2) then full + modulus else full))"

text \<open>\<^verbatim>\<open>clock.UTCOffset\<close>, the wrapped-axis evaluation of the broadcast UTC polynomial.\<close>

definition UTCOffset :: "utc_params \<Rightarrow> real \<Rightarrow> real" where
  "UTCOffset u tow =
     (let dt = EphAge tow (utc_Tot u)
      in utc_A0 u + utc_A1 u * dt + utc_A2 u * dt * dt + utc_DtLS u)"

section \<open>Lemmas\<close>

lemma go_rem_props:
  assumes "0 < b"
  shows "\<bar>go_rem a b\<bar> < b" "b dvd a - go_rem a b"
proof -
  have "a + (- a) mod b = b * (- ((- a) div b))"
    using mult_div_mod_eq [of b "- a"] unfolding mult_minus_right by linarith
  then have "b dvd a + (- a) mod b" by (rule dvdI)
  with assms show "\<bar>go_rem a b\<bar> < b" "b dvd a - go_rem a b"
    by (auto simp: go_rem_def)
qed

lemma SOWDelta_props:
  "\<bar>SOWDelta a b\<bar> \<le> 302400" "604800 dvd (a - b) - SOWDelta a b"
proof -
  let ?d = "go_rem (a - b) 604800"
  have r: "\<bar>?d\<bar> < 604800" "604800 dvd a - b - ?d"
    using go_rem_props [of 604800 "a - b"] by simp_all
  then have e: "604800 dvd a - b - ?d + 604800" "604800 dvd a - b - ?d - 604800"
    by (simp_all add: dvd_add dvd_diff)
  have S: "SOWDelta a b = (if ?d > 302400 then ?d - 604800 else if ?d < - 302400 then ?d + 604800 else ?d)"
    by (simp add: SOWDelta_def Let_def)
  show "\<bar>SOWDelta a b\<bar> \<le> 302400" "604800 dvd (a - b) - SOWDelta a b"
    using r e by (auto simp: S algebra_simps)
qed

text \<open>The abstract reading of the assemblers' adjacency tests: two times of week are within \<open>k\<close> seconds of
  each other, or exactly \<open>k\<close> seconds apart, on the circle of one week.\<close>

definition sow_within :: "int \<Rightarrow> int \<Rightarrow> int \<Rightarrow> bool" where
  "sow_within k a b \<longleftrightarrow> 0 \<le> a \<and> a < 604800 \<and> 0 \<le> b \<and> b < 604800 \<and>
     ((a - b) mod 604800 \<le> k \<or> 604800 - k \<le> (a - b) mod 604800)"

definition sow_after :: "int \<Rightarrow> int \<Rightarrow> int \<Rightarrow> bool" where
  "sow_after k a b \<longleftrightarrow> 0 \<le> a \<and> a < 604800 \<and> 0 \<le> b \<and> b < 604800 \<and> (a - b) mod 604800 = k"

lemma week_mod:
  assumes "0 \<le> a" "a < (604800 :: int)" "0 \<le> b" "b < 604800"
  shows "(a - b) mod 604800 = (if b \<le> a then a - b else a - b + 604800)"
proof (cases "b \<le> a")
  case False
  have "(a - b) mod 604800 = (a - b + 604800) mod 604800" by simp
  also have "\<dots> = a - b + 604800" using False assms by (intro mod_pos_pos_trivial) auto
  finally show ?thesis using False by simp
qed (use assms in simp)

lemma SOWDelta_dom:
  assumes "0 \<le> a" "a < 604800" "0 \<le> b" "b < 604800"
  shows "SOWDelta a b = (if a - b > 302400 then a - b - 604800 else if a - b < - 302400 then a - b + 604800 else a - b)"
proof -
  have "go_rem (a - b) 604800 = a - b"
    using assms by (simp add: go_rem_def sgn_if abs_if)
  then show ?thesis by (simp add: SOWDelta_def Let_def)
qed

lemma sowDelta_within:
  assumes "0 \<le> k" "k < 302400"
  shows "snd (sowDelta a b) \<and> \<not> (fst (sowDelta a b) < - k) \<and> \<not> (fst (sowDelta a b) > k) \<longleftrightarrow> sow_within k a b"
proof (cases "0 \<le> a \<and> a < 604800 \<and> 0 \<le> b \<and> b < 604800")
  case True
  then show ?thesis using assms week_mod [of a b] SOWDelta_dom [of a b]
    by (auto simp: sowDelta_def sow_within_def Let_def split: if_splits)
qed (auto simp: sowDelta_def sow_within_def Let_def)

lemma sowDelta_after:
  assumes "0 \<le> k" "k < 302400"
  shows "snd (sowDelta a b) \<and> fst (sowDelta a b) = k \<longleftrightarrow> sow_after k a b"
proof (cases "0 \<le> a \<and> a < 604800 \<and> 0 \<le> b \<and> b < 604800")
  case True
  then show ?thesis using assms week_mod [of a b] SOWDelta_dom [of a b]
    by (auto simp: sowDelta_def sow_after_def Let_def split: if_splits)
qed (auto simp: sowDelta_def sow_after_def Let_def)

lemma math_Round_near: "\<bar>of_int (math_Round x) - x\<bar> \<le> 1 / 2"
  using of_int_floor_le [of "x + 1 / 2"] real_of_int_floor_add_one_gt [of "x + 1 / 2"]
    of_int_floor_le [of "- x + 1 / 2"] real_of_int_floor_add_one_gt [of "- x + 1 / 2"]
  by (cases "0 \<le> x") (simp_all only: math_Round_def if_True if_False of_int_minus abs_le_iff; linarith)+

lemma TOW_floor:
  assumes "0 < w"
  shows "(let tow = math_Mod s w in if tow < 0 then tow + w else tow) = s - w * of_int \<lfloor>s / w\<rfloor>"
proof (cases "0 \<le> s")
  case True
  have "w * of_int \<lfloor>s / w\<rfloor> \<le> w * (s / w)"
    using assms by (intro mult_left_mono) simp_all
  with True assms show ?thesis
    by (simp add: math_Mod_def math_Trunc_def)
next
  case False
  let ?q = "- s / w"
  have f: "s / w < 0" using False assms by (simp add: divide_neg_pos)
  show ?thesis
  proof (cases "of_int \<lfloor>?q\<rfloor> = ?q")
    case True
    then have "\<lfloor>s / w\<rfloor> = - \<lfloor>?q\<rfloor>"
      by (metis ceiling_def ceiling_of_int minus_divide_left minus_minus floor_of_int floor_minus)
    moreover have "s + w * of_int \<lfloor>?q\<rfloor> = 0" unfolding True using assms by simp
    ultimately show ?thesis using f by (simp add: math_Mod_def math_Trunc_def)
  next
    case False
    then have l: "of_int \<lfloor>?q\<rfloor> < ?q" by (simp add: less_le)
    have sq: "s / w = - ?q" by simp
    have fl: "\<lfloor>s / w\<rfloor> = - \<lfloor>?q\<rfloor> - 1"
      using l real_of_int_floor_add_one_gt [of ?q]
      by (intro floor_unique) (simp_all only: sq of_int_diff of_int_minus of_int_1; linarith)+
    from l have "s + w * of_int \<lfloor>?q\<rfloor> < 0" using assms by (simp add: field_simps)
    then show ?thesis
      unfolding fl math_Mod_def math_Trunc_def Let_def using f by (simp add: algebra_simps)
  qed
qed

lemma EphAge_cases:
  "EphAge tow ref = tow - ref \<or> EphAge tow ref = tow - ref - WeekSeconds \<or> EphAge tow ref = tow - ref + WeekSeconds"
  by (auto simp: EphAge_def Let_def)

lemma SystemSeconds_None: "SystemSeconds sys unix l = None \<longleftrightarrow> epochGPSSeconds sys = None"
  by (auto simp: SystemSeconds_def split: option.splits)

section \<open>Properties\<close>

text \<open>For a time of week and a reference epoch inside the week, the age \<open>EphAge\<close> returns lies within
  half a week of zero and differs from the plain difference by a whole number of weeks.\<close>

lemma EphAge_wrap:
  assumes "0 \<le> tow" "tow < WeekSeconds" "0 \<le> ref" "ref < WeekSeconds"
  shows "\<bar>EphAge tow ref\<bar> \<le> HalfWeek \<and> (\<exists>k::int. EphAge tow ref = tow - ref + of_int k * WeekSeconds)"
proof
  show "\<bar>EphAge tow ref\<bar> \<le> HalfWeek"
    using assms by (auto simp: EphAge_def Let_def time_consts)
  show "\<exists>k::int. EphAge tow ref = tow - ref + of_int k * WeekSeconds"
    using EphAge_cases [of tow ref]
    by (elim disjE) (rule exI [of _ 0], simp, rule exI [of _ "- 1"], simp, rule exI [of _ 1], simp)
qed

text \<open>The integer second-of-week difference, as the frame assemblers use it, is refused outside the
  transmitted domain; inside it the result is congruent to the plain difference modulo the week and
  at most half a week in magnitude, so subframes straddling the weekly rollover stay adjacent.\<close>

lemma sowDelta_wrap:
  "if 0 \<le> a \<and> a < 604800 \<and> 0 \<le> b \<and> b < 604800
   then \<exists>d. sowDelta a b = (d, True) \<and> d mod 604800 = (a - b) mod 604800 \<and> \<bar>d\<bar> \<le> 302400
   else sowDelta a b = (0, False)"
proof -
  have "(a - b) mod 604800 = SOWDelta a b mod 604800"
    using SOWDelta_props(2) [of a b] by (simp add: mod_eq_dvd_iff)
  then show ?thesis
    using SOWDelta_props(1) [of a b] by (auto simp: sowDelta_def Let_def)
qed

text \<open>The week and time of week computed for a Unix instant lie on the right axis: the time of week is
  in the week, and converting the pair back yields the instant. The conversion fails exactly for
  systems without a continuous week.\<close>

lemma WeekAt_TOWAt_ToUnix:
  "(case (WeekAt sys unix l, TOWAt sys unix l) of
      (Some wk, Some tow) \<Rightarrow> 0 \<le> tow \<and> tow < WeekSeconds \<and>
        ToUnix \<lparr>gt_Sys = sys, gt_Week = wk, gt_TOW = tow\<rparr> l = Some unix
    | (None, None) \<Rightarrow> epochGPSSeconds sys = None
    | _ \<Rightarrow> False)"
proof (cases "epochGPSSeconds sys")
  case None
  then show ?thesis by (simp add: WeekAt_def TOWAt_def SystemSeconds_def)
next
  case (Some off)
  define s where "s = unix - gpsEpochUnix + l - off"
  define tow where "tow = s - WeekSeconds * of_int \<lfloor>s / WeekSeconds\<rfloor>"
  have S: "SystemSeconds sys unix l = Some s" using Some by (simp add: SystemSeconds_def s_def)
  have W: "WeekAt sys unix l = Some \<lfloor>s / WeekSeconds\<rfloor>" by (simp add: WeekAt_def S)
  have T: "TOWAt sys unix l = Some tow"
    using TOW_floor [of WeekSeconds s] by (simp add: TOWAt_def S tow_def time_consts Let_def)
  have "of_int \<lfloor>s / WeekSeconds\<rfloor> \<le> s / WeekSeconds" "s / WeekSeconds < of_int \<lfloor>s / WeekSeconds\<rfloor> + 1"
    by linarith+
  then have "0 \<le> tow" "tow < WeekSeconds" by (simp_all add: tow_def time_consts field_simps)
  moreover have "ToUnix \<lparr>gt_Sys = sys, gt_Week = \<lfloor>s / WeekSeconds\<rfloor>, gt_TOW = tow\<rparr> l = Some unix"
    using Some by (simp add: ToUnix_def GPSSeconds_def tow_def s_def)
  ultimately show ?thesis by (simp add: W T)
qed

text \<open>A week number truncated to \<open>bits\<close> bits is resolved to a full week with those low bits that lies
  within half a rollover cycle of the wall clock's week: no full week with the same low bits is nearer.\<close>

lemma DisambiguateWeek_nearest:
  assumes "0 < bits" "bits < 31" "0 \<le> truncated" "truncated < 2 ^ nat bits"
    and "SystemSeconds sys approxUnix l = Some secs"
  shows "DisambiguateWeek sys truncated bits approxUnix l mod 2 ^ nat bits = truncated \<and>
    \<bar>DisambiguateWeek sys truncated bits approxUnix l - math_Round (secs / WeekSeconds)\<bar> \<le> 2 ^ (nat bits - 1)"
proof -
  obtain n where n: "nat bits = Suc n" using assms(1) by (cases "nat bits") auto
  define m :: int where "m = 2 ^ nat bits"
  have m: "m = 2 * 2 ^ n" "m div 2 = 2 ^ n" "0 < m" by (simp_all add: m_def n)
  define w where "w = secs / WeekSeconds"
  define q where "q = math_Round (w / of_int m)"
  define r where "r = math_Round w"
  define d where "d = q * m + truncated - r"
  let ?D = "DisambiguateWeek sys truncated bits approxUnix l"
  have D: "?D = (if d > 2 ^ n then q * m + truncated - m else if d < - (2 ^ n) then q * m + truncated + m else q * m + truncated)"
    using assms m by (simp add: DisambiguateWeek_def Let_def d_def q_def r_def w_def m_def [symmetric])
  have "of_int m * \<bar>of_int q - w / of_int m\<bar> \<le> of_int m * (1 / 2)"
    using m math_Round_near [of "w / of_int m"] by (intro mult_left_mono) (simp_all add: q_def)
  moreover have "of_int m * \<bar>of_int q - w / of_int m\<bar> = \<bar>of_int (q * m) - w\<bar>"
    using m by (simp add: abs_mult [symmetric] abs_of_pos field_simps flip: abs_mult)
  moreover have "of_int m * (1 / 2) = (of_int (2 ^ n) :: real)" by (simp add: m(1))
  ultimately have "\<bar>of_int (q * m) - w\<bar> \<le> of_int (2 ^ n)" by linarith
  moreover have "\<bar>of_int r - w\<bar> \<le> 1 / 2" unfolding r_def by (rule math_Round_near)
  ultimately have "\<bar>of_int (q * m - r)\<bar> \<le> of_int (2 ^ n) + (1 / 2 :: real)" unfolding of_int_diff by linarith
  then have "\<bar>q * m - r\<bar> \<le> 2 ^ n" by linarith
  then have "- (2 ^ n) \<le> d" "d \<le> 2 ^ n + m - 1"
    using assms(3,4) by (auto simp: d_def m_def)
  then have "\<bar>?D - r\<bar> \<le> 2 ^ n"
    using m by (simp add: D d_def abs_le_iff)
  moreover have "?D mod m = truncated"
    using assms(3,4) by (simp add: D m_def mod_diff_left_eq [symmetric])
  ultimately show ?thesis by (simp add: m_def n r_def w_def)
qed

end
