(* ===== verification/BeiDouBcnav2.thy ===== *)
theory BeiDouBcnav2
  imports FrameScale GnssTime
begin

text \<open>
  \<^verbatim>\<open>gnss/frame/beidou_bcnav2.go\<close>: the BeiDou B2a B-CNAV2 decoder. A 288-bit message is nine words under a
  CRC-24Q; types 10 and 11 carry the ephemeris, 30 and 34 a clock, 40 the midi almanac of another
  satellite. Types 10 and 11 carry no common issue tag: the assembler pairs them by broadcast adjacency.
\<close>

section \<open>The code\<close>

definition bcnavArefMEO :: real where "bcnavArefMEO = 27906100"
definition bcnavArefIGSO :: real where "bcnavArefIGSO = 42162200"
definition bcnavT0 :: real where "bcnavT0 = 300"
definition bcnavClkStaleSOW :: int where "bcnavClkStaleSOW = 10 * 300"

record midi_almanac =
  mi_PRN :: int
  mi_SatType :: int
  mi_WN :: int
  mi_Toa :: real
  mi_Ecc :: real
  mi_DeltaI :: real
  mi_SqrtA :: real
  mi_Omega0 :: real
  mi_OmegaDot :: real
  mi_Omega :: real
  mi_M0 :: real
  mi_Af0 :: real
  mi_Af1 :: real
  mi_Health :: int

record bcnav2 =
  bc_PRN :: int
  bc_MesType :: int
  bc_SOW :: int
  bc_WN :: int
  bc_SatType :: int
  bc_IODE :: int
  bc_HS :: int
  bc_DIF :: bool
  bc_SIF :: bool
  bc_AIF :: bool
  bc_SISMAI :: int
  bc_IODC :: int
  bc_clk :: clock_model
  bc_TGDB2ap :: real
  bc_ISCB2ad :: real
  bc_TGDB1Cp :: real
  bc_BDGIM :: "real list"
  bc_UTC :: utc_params
  bc_SISAItop :: int
  bc_SISAIocb :: int
  bc_SISAIoc1 :: int
  bc_SISAIoc2 :: int
  bc_SISAIoe :: int
  bc_Almanac :: "midi_almanac option"
  bc_eph :: ephemeris
  bc_hasEph2 :: bool
  bc_hasClk :: bool

definition utc0 :: utc_params where
  "utc0 = \<lparr>utc_A0 = 0, utc_A1 = 0, utc_A2 = 0, utc_Tot = 0, utc_WNot = 0, utc_DtLS = 0, utc_DtLSF = 0, utc_WNLSF = 0, utc_DN = 0\<rparr>"

definition bcnav0 :: bcnav2 where
  "bcnav0 = \<lparr>bc_PRN = 0, bc_MesType = 0, bc_SOW = 0, bc_WN = 0, bc_SatType = 0, bc_IODE = 0, bc_HS = 0, bc_DIF = False,
     bc_SIF = False, bc_AIF = False, bc_SISMAI = 0, bc_IODC = 0, bc_clk = clk0, bc_TGDB2ap = 0, bc_ISCB2ad = 0,
     bc_TGDB1Cp = 0, bc_BDGIM = replicate 9 0, bc_UTC = utc0, bc_SISAItop = 0, bc_SISAIocb = 0, bc_SISAIoc1 = 0,
     bc_SISAIoc2 = 0, bc_SISAIoe = 0, bc_Almanac = None, bc_eph = eph0, bc_hasEph2 = False, bc_hasClk = False\<rparr>"

text \<open>The closure \<^verbatim>\<open>flags\<close>.\<close>

definition bc_flags :: "bit_reader \<Rightarrow> int \<Rightarrow> bcnav2 \<Rightarrow> bcnav2" where
  "bc_flags r p m = m\<lparr>bc_DIF := getu r p 1 \<noteq> 0, bc_SIF := getu r (p + 1) 1 \<noteq> 0, bc_AIF := getu r (p + 2) 1 \<noteq> 0,
     bc_SISMAI := go_int (getu r (p + 3) 4)\<rparr>"

definition bc_mt10 :: "bit_reader \<Rightarrow> bcnav2 \<Rightarrow> frame_error + bcnav2" where
  "bc_mt10 r m =
     (let semi = Pi;
          m1 = (bc_flags r 43 (m\<lparr>bc_WN := go_int (getu r 30 13)\<rparr>))\<lparr>bc_IODE := go_int (getu r 53 8), bc_SatType := go_int (getu r 72 2)\<rparr>
      in if bc_SatType m1 = 0 then Inl ErrBadSatType
         else
          (let aref = (if bc_SatType m1 \<noteq> 3 then bcnavArefIGSO else bcnavArefMEO);
               m2 = m1\<lparr>bc_eph := (bc_eph m1)\<lparr>eph_Toe := fl (getu r 61 11) * bcnavT0\<rparr>\<rparr>
           in if eph_Toe (bc_eph m2) \<ge> weekSeconds then Inl ErrBadEpoch
              else Inr (m2\<lparr>bc_eph := (bc_eph m2)\<lparr>
                     eph_SqrtA := sqrt (aref + real_of_int (gets r 74 26) * p2m9),
                     eph_ADot := real_of_int (gets r 100 25) * p2m21,
                     eph_DeltaN := real_of_int (gets r 125 17) * p2m44 * semi,
                     eph_DeltaNDot := real_of_int (gets r 142 23) * p2m57 * semi,
                     eph_M0 := real_of_int (gets r 165 33) * p2m32 * semi,
                     eph_Ecc := fl (getu r 198 33) * p2m34,
                     eph_Omega := real_of_int (gets r 231 33) * p2m32 * semi\<rparr>\<rparr>)))"

definition bc_mt11 :: "bit_reader \<Rightarrow> bcnav2 \<Rightarrow> frame_error + bcnav2" where
  "bc_mt11 r m =
     (let semi = Pi;
          m1 = bc_flags r 32 (m\<lparr>bc_HS := go_int (getu r 30 2)\<rparr>)
      in Inr (m1\<lparr>bc_eph := (bc_eph m1)\<lparr>
           eph_Omega0 := real_of_int (gets r 42 33) * p2m32 * semi,
           eph_I0 := real_of_int (gets r 75 33) * p2m32 * semi,
           eph_OmegaDot := real_of_int (gets r 108 19) * p2m44 * semi,
           eph_IDot := real_of_int (gets r 127 15) * p2m44 * semi,
           eph_Cis := real_of_int (gets r 142 16) * p2m30,
           eph_Cic := real_of_int (gets r 158 16) * p2m30,
           eph_Crs := real_of_int (gets r 174 24) * p2m8,
           eph_Crc := real_of_int (gets r 198 24) * p2m8,
           eph_Cus := real_of_int (gets r 222 21) * p2m30,
           eph_Cuc := real_of_int (gets r 243 21) * p2m30\<rparr>, bc_hasEph2 := True\<rparr>))"

definition bc_mt30 :: "bit_reader \<Rightarrow> bcnav2 \<Rightarrow> frame_error + bcnav2" where
  "bc_mt30 r m =
     (let p2m3 = 1 / 8;
          m1 = (bc_flags r 32 (m\<lparr>bc_HS := go_int (getu r 30 2)\<rparr>))\<lparr>bc_clk := clk0\<lparr>clk_ID := BeiDou,
                 clk_Toc := fl (getu r 42 11) * bcnavT0, clk_Af0 := real_of_int (gets r 53 25) * p2m34,
                 clk_Af1 := real_of_int (gets r 78 22) * p2m50, clk_Af2 := real_of_int (gets r 100 11) * p2m66\<rparr>\<rparr>
      in if clk_Toc (bc_clk m1) \<ge> weekSeconds then Inl ErrBadEpoch
         else Inr (m1\<lparr>bc_IODC := go_int (getu r 111 10),
                bc_TGDB2ap := real_of_int (gets r 121 12) * p2m34,
                bc_ISCB2ad := real_of_int (gets r 133 12) * p2m34,
                bc_BDGIM := [fl (getu r 145 10) * p2m3, real_of_int (gets r 155 8) * p2m3, fl (getu r 163 8) * p2m3,
                  fl (getu r 171 8) * p2m3, fl (getu r 179 8) * - p2m3] @
                  map (\<lambda>i. real_of_int (gets r (187 + 8 * i) 8) * p2m3) [0, 1, 2, 3],
                bc_TGDB1Cp := real_of_int (gets r 219 12) * p2m34,
                bc_hasClk := True\<rparr>))"

definition bc_mt34 :: "bit_reader \<Rightarrow> bcnav2 \<Rightarrow> frame_error + bcnav2" where
  "bc_mt34 r m =
     (let m1 = (bc_flags r 32 (m\<lparr>bc_HS := go_int (getu r 30 2)\<rparr>))\<lparr>bc_SISAItop := go_int (getu r 42 11),
                 bc_SISAIocb := go_int (getu r 53 5), bc_SISAIoc1 := go_int (getu r 58 3), bc_SISAIoc2 := go_int (getu r 61 3),
                 bc_clk := clk0\<lparr>clk_ID := BeiDou,
                   clk_Toc := fl (getu r 64 11) * bcnavT0, clk_Af0 := real_of_int (gets r 75 25) * p2m34,
                   clk_Af1 := real_of_int (gets r 100 22) * p2m50, clk_Af2 := real_of_int (gets r 122 11) * p2m66\<rparr>\<rparr>
      in if clk_Toc (bc_clk m1) \<ge> weekSeconds then Inl ErrBadEpoch
         else Inr (m1\<lparr>bc_IODC := go_int (getu r 133 10),
                bc_UTC := \<lparr>utc_A0 = real_of_int (gets r 143 16) * p2m35,
                  utc_A1 = real_of_int (gets r 159 13) * p2m51,
                  utc_A2 = real_of_int (gets r 172 7) * p2m68,
                  utc_Tot = fl (getu r 187 16) * 16,
                  utc_WNot = go_int (getu r 203 13),
                  utc_DtLS = real_of_int (gets r 179 8),
                  utc_DtLSF = real_of_int (gets r 232 8),
                  utc_WNLSF = go_int (getu r 216 13),
                  utc_DN = go_int (getu r 229 3)\<rparr>,
                bc_hasClk := True\<rparr>))"

definition bc_mt40 :: "bit_reader \<Rightarrow> bcnav2 \<Rightarrow> frame_error + bcnav2" where
  "bc_mt40 r m =
     (let semi = Pi;
          m1 = (bc_flags r 32 (m\<lparr>bc_HS := go_int (getu r 30 2)\<rparr>))\<lparr>bc_SISAIoe := go_int (getu r 42 5), bc_SISAItop := go_int (getu r 47 11),
                 bc_SISAIocb := go_int (getu r 58 5), bc_SISAIoc1 := go_int (getu r 63 3), bc_SISAIoc2 := go_int (getu r 66 3)\<rparr>;
          alm = \<lparr>mi_PRN = go_int (getu r 69 6), mi_SatType = go_int (getu r 75 2), mi_WN = go_int (getu r 77 13),
                 mi_Toa = fl (getu r 90 8) * 2 ^ 12, mi_Ecc = fl (getu r 98 11) / 2 ^ 16,
                 mi_DeltaI = real_of_int (gets r 109 11) / 2 ^ 14 * semi,
                 mi_SqrtA = fl (getu r 120 17) / 2 ^ 4,
                 mi_Omega0 = real_of_int (gets r 137 16) / 2 ^ 15 * semi,
                 mi_OmegaDot = real_of_int (gets r 153 11) / 2 ^ 33 * semi,
                 mi_Omega = real_of_int (gets r 164 16) / 2 ^ 15 * semi,
                 mi_M0 = real_of_int (gets r 180 16) / 2 ^ 15 * semi,
                 mi_Af0 = real_of_int (gets r 196 11) / 2 ^ 20,
                 mi_Af1 = real_of_int (gets r 207 10) / 2 ^ 37,
                 mi_Health = go_int (getu r 217 8)\<rparr>
      in if mi_Toa alm > 602112 then Inl ErrBadEpoch
         else Inr (if mi_PRN alm \<noteq> 0 then m1\<lparr>bc_Almanac := Some alm\<rparr> else m1))"

definition bc_switch :: "bit_reader \<Rightarrow> bcnav2 \<Rightarrow> frame_error + bcnav2" where
  "bc_switch r m =
     (if bc_MesType m = 10 then bc_mt10 r m
      else if bc_MesType m = 11 then bc_mt11 r m
      else if bc_MesType m = 30 then bc_mt30 r m
      else if bc_MesType m = 34 then bc_mt34 r m
      else if bc_MesType m = 40 then bc_mt40 r m
      else Inr m)"

definition DecodeBeiDouBCNAV2 :: "u32 list \<Rightarrow> frame_error + bcnav2" where
  "DecodeBeiDouBCNAV2 words =
     (if length words < 9 then Inl ErrShortFrame
      else
       (let buf = be_words 9 words
        in if \<not> CheckCRC24Q buf then Inl ErrBadCRC
           else
            (let r = NewBitReaderN buf 288
             in bc_switch r (bcnav0\<lparr>bc_PRN := go_int (getu r 0 6), bc_MesType := go_int (getu r 6 6),
                  bc_SOW := go_int (getu r 12 18) * 3\<rparr>))))"

definition MidiAlmanac_Ephemeris :: "midi_almanac \<Rightarrow> frame_error + ephemeris" where
  "MidiAlmanac_Ephemeris a =
     (if mi_SatType a = 1 \<or> mi_SatType a = 2 \<or> mi_SatType a = 3 then
       (let i0 = (if mi_SatType a = 1 then 0 else 0.30)
        in Inr (eph0\<lparr>eph_ID := BeiDou, eph_SVID := mi_PRN a, eph_SqrtA := mi_SqrtA a, eph_Ecc := mi_Ecc a, eph_M0 := mi_M0 a,
             eph_I0 := i0 * Pi + mi_DeltaI a, eph_Omega0 := mi_Omega0 a, eph_OmegaDot := mi_OmegaDot a,
             eph_Omega := mi_Omega a, eph_Toe := mi_Toa a, eph_Almanac := True\<rparr>))
      else Inl ErrBadSatType)"

text \<open>The assembler; \<^verbatim>\<open>mClk\<close> is dropped, not refused, when it is another satellite's or stale.\<close>

definition bc_usable_clk :: "int \<Rightarrow> int \<Rightarrow> bcnav2 option \<Rightarrow> bcnav2 option" where
  "bc_usable_clk svid sow mClk =
     (case mClk of
        None \<Rightarrow> None
      | Some c \<Rightarrow>
          if bc_PRN c \<noteq> svid then None
          else if bc_hasClk c then
            (case sowDelta sow (bc_SOW c) of (d, ok) \<Rightarrow>
               if \<not> ok \<or> d < - bcnavClkStaleSOW \<or> d > bcnavClkStaleSOW then None else Some c)
          else Some c)"

definition AssembleBeiDouBCNAV2 ::
  "int \<Rightarrow> bcnav2 option \<Rightarrow> bcnav2 option \<Rightarrow> bcnav2 option \<Rightarrow> frame_error + ephemeris \<times> clock_model \<times> bool" where
  "AssembleBeiDouBCNAV2 svid om10 om11 omClk =
     (case (om10, om11) of
        (Some m10, Some m11) \<Rightarrow>
          if bc_MesType m10 \<noteq> 10 \<or> bc_MesType m11 \<noteq> 11 \<or> \<not> bc_hasEph2 m11 then Inl ErrWrongMsgType
          else if bc_PRN m10 \<noteq> svid \<or> bc_PRN m11 \<noteq> svid then Inl ErrPRNMismatch
          else
            (case sowDelta (bc_SOW m10) (bc_SOW m11) of (d, ok) \<Rightarrow>
               if \<not> ok \<or> d < - 3 \<or> d > 3 then Inl ErrPairSOW
               else
                (let e = bc_eph m11;
                     eph = (bc_eph m10)\<lparr>eph_Omega0 := eph_Omega0 e, eph_I0 := eph_I0 e, eph_OmegaDot := eph_OmegaDot e,
                       eph_IDot := eph_IDot e, eph_Cis := eph_Cis e, eph_Cic := eph_Cic e, eph_Crs := eph_Crs e,
                       eph_Crc := eph_Crc e, eph_Cus := eph_Cus e, eph_Cuc := eph_Cuc e, eph_ID := BeiDou, eph_SVID := svid\<rparr>;
                     none = (eph, clk0\<lparr>clk_ID := BeiDou\<rparr>, False)
                 in case bc_usable_clk svid (bc_SOW m10) omClk of
                      None \<Rightarrow> Inr none
                    | Some c \<Rightarrow>
                        if bc_hasClk c then
                          Inr (eph, (if bc_MesType c = 30 then (bc_clk c)\<lparr>clk_TGD := bc_TGDB2ap c + bc_ISCB2ad c\<rparr> else bc_clk c), True)
                        else Inr none))
      | _ \<Rightarrow> Inl ErrShortFrame)"

section \<open>The CRC gate\<close>

definition bcnav_protected :: "u32 list \<Rightarrow> bool list" where
  "bcnav_protected ws = bits_of (be_words 9 ws)"

lemma DecodeBeiDouBCNAV2_gate: "DecodeBeiDouBCNAV2 ws = Inr m \<Longrightarrow> crc_reg (bcnav_protected ws) = 0"
  by (auto simp: DecodeBeiDouBCNAV2_def Let_def CheckCRC24Q_reg bcnav_protected_def split: if_splits)

interpretation bcnav2: crc_gated DecodeBeiDouBCNAV2 bcnav_protected
  by unfold_locales (rule DecodeBeiDouBCNAV2_gate)

section \<open>The interface document's layout\<close>

record raw_bh =
  bh_prn :: nat
  bh_sow :: nat
  bh_dif :: bool
  bh_sif :: bool
  bh_aif :: bool
  bh_sismai :: nat
  bh_b1c :: nat

record raw_b10 = raw_bh +
  b10_wn :: nat
  b10_iode :: nat
  b10_toe :: nat
  b10_sat :: nat
  b10_dA :: int
  b10_Adot :: int
  b10_dn :: int
  b10_dndot :: int
  b10_m0 :: int
  b10_ecc :: nat
  b10_omega :: int

record raw_b11 = raw_bh +
  b11_hs :: nat
  b11_omg0 :: int
  b11_i0 :: int
  b11_omgDot :: int
  b11_idot :: int
  b11_cis :: int
  b11_cic :: int
  b11_crs :: int
  b11_crc :: int
  b11_cus :: int
  b11_cuc :: int

record raw_clk = raw_bh +
  bk_hs :: nat
  bk_toc :: nat
  bk_af0 :: int
  bk_af1 :: int
  bk_af2 :: int
  bk_iodc :: nat

record raw_b30 = raw_clk +
  b30_tgd :: int
  b30_isc :: int
  b30_a1 :: nat
  b30_a2 :: int
  b30_a3 :: nat
  b30_a4 :: nat
  b30_a5 :: nat
  b30_a6 :: int
  b30_a7 :: int
  b30_a8 :: int
  b30_a9 :: int
  b30_tgdB1 :: int

record raw_b34 = raw_clk +
  b34_top :: nat
  b34_ocb :: nat
  b34_oc1 :: nat
  b34_oc2 :: nat
  b34_A0 :: int
  b34_A1 :: int
  b34_A2 :: int
  b34_dtls :: int
  b34_tot :: nat
  b34_wnot :: nat
  b34_wnlsf :: nat
  b34_dn :: nat
  b34_dtlsf :: int

definition bh_bits :: "nat \<Rightarrow> 'a raw_bh_scheme \<Rightarrow> bool list" where
  "bh_bits ty f = ubits_enc 6 (bh_prn f) @ ubits_enc 6 ty @ ubits_enc 18 (bh_sow f)"

definition flag_bits :: "'a raw_bh_scheme \<Rightarrow> bool list" where
  "flag_bits f = [bh_dif f] @ [bh_sif f] @ [bh_aif f] @ ubits_enc 4 (bh_sismai f) @ ubits_enc 3 (bh_b1c f)"

definition b10_bits :: "raw_b10 \<Rightarrow> bool list" where
  "b10_bits f = bh_bits 10 f @ ubits_enc 13 (b10_wn f) @ flag_bits f @ ubits_enc 8 (b10_iode f) @ ubits_enc 11 (b10_toe f) @
     ubits_enc 2 (b10_sat f) @ sbits_enc 26 (b10_dA f) @ sbits_enc 25 (b10_Adot f) @ sbits_enc 17 (b10_dn f) @
     sbits_enc 23 (b10_dndot f) @ sbits_enc 33 (b10_m0 f) @ ubits_enc 33 (b10_ecc f) @ sbits_enc 33 (b10_omega f)"

definition b11_bits :: "raw_b11 \<Rightarrow> bool list" where
  "b11_bits f = bh_bits 11 f @ ubits_enc 2 (b11_hs f) @ flag_bits f @ sbits_enc 33 (b11_omg0 f) @ sbits_enc 33 (b11_i0 f) @
     sbits_enc 19 (b11_omgDot f) @ sbits_enc 15 (b11_idot f) @ sbits_enc 16 (b11_cis f) @ sbits_enc 16 (b11_cic f) @
     sbits_enc 24 (b11_crs f) @ sbits_enc 24 (b11_crc f) @ sbits_enc 21 (b11_cus f) @ sbits_enc 21 (b11_cuc f)"

definition clk_bits :: "'a raw_clk_scheme \<Rightarrow> bool list" where
  "clk_bits f = ubits_enc 11 (bk_toc f) @ sbits_enc 25 (bk_af0 f) @ sbits_enc 22 (bk_af1 f) @ sbits_enc 11 (bk_af2 f) @
     ubits_enc 10 (bk_iodc f)"

definition b30_bits :: "nat \<Rightarrow> raw_b30 \<Rightarrow> bool list" where
  "b30_bits res f = bh_bits 30 f @ ubits_enc 2 (bk_hs f) @ flag_bits f @ clk_bits f @ sbits_enc 12 (b30_tgd f) @
     sbits_enc 12 (b30_isc f) @ ubits_enc 10 (b30_a1 f) @ sbits_enc 8 (b30_a2 f) @ ubits_enc 8 (b30_a3 f) @ ubits_enc 8 (b30_a4 f) @
     ubits_enc 8 (b30_a5 f) @ sbits_enc 8 (b30_a6 f) @ sbits_enc 8 (b30_a7 f) @ sbits_enc 8 (b30_a8 f) @ sbits_enc 8 (b30_a9 f) @
     sbits_enc 12 (b30_tgdB1 f) @ ubits_enc 33 res"

definition b34_bits :: "nat \<Rightarrow> raw_b34 \<Rightarrow> bool list" where
  "b34_bits res f = bh_bits 34 f @ ubits_enc 2 (bk_hs f) @ flag_bits f @ ubits_enc 11 (b34_top f) @ ubits_enc 5 (b34_ocb f) @
     ubits_enc 3 (b34_oc1 f) @ ubits_enc 3 (b34_oc2 f) @ clk_bits f @ sbits_enc 16 (b34_A0 f) @ sbits_enc 13 (b34_A1 f) @
     sbits_enc 7 (b34_A2 f) @ sbits_enc 8 (b34_dtls f) @ ubits_enc 16 (b34_tot f) @ ubits_enc 13 (b34_wnot f) @
     ubits_enc 13 (b34_wnlsf f) @ ubits_enc 3 (b34_dn f) @ sbits_enc 8 (b34_dtlsf f) @ ubits_enc 24 res"

definition wf_bh :: "'a raw_bh_scheme \<Rightarrow> bool" where
  "wf_bh f \<longleftrightarrow> ufits 6 (bh_prn f) \<and> ufits 18 (bh_sow f) \<and> ufits 4 (bh_sismai f) \<and> ufits 3 (bh_b1c f)"

definition wf_b10 :: "raw_b10 \<Rightarrow> bool" where
  "wf_b10 f \<longleftrightarrow> wf_bh f \<and> ufits 13 (b10_wn f) \<and> ufits 8 (b10_iode f) \<and> b10_toe f < 2016 \<and> b10_sat f \<noteq> 0 \<and> ufits 2 (b10_sat f) \<and>
     sfits 26 (b10_dA f) \<and> sfits 25 (b10_Adot f) \<and> sfits 17 (b10_dn f) \<and> sfits 23 (b10_dndot f) \<and> sfits 33 (b10_m0 f) \<and>
     ufits 33 (b10_ecc f) \<and> sfits 33 (b10_omega f)"

definition wf_b11 :: "raw_b11 \<Rightarrow> bool" where
  "wf_b11 f \<longleftrightarrow> wf_bh f \<and> ufits 2 (b11_hs f) \<and> sfits 33 (b11_omg0 f) \<and> sfits 33 (b11_i0 f) \<and> sfits 19 (b11_omgDot f) \<and>
     sfits 15 (b11_idot f) \<and> sfits 16 (b11_cis f) \<and> sfits 16 (b11_cic f) \<and> sfits 24 (b11_crs f) \<and> sfits 24 (b11_crc f) \<and>
     sfits 21 (b11_cus f) \<and> sfits 21 (b11_cuc f)"

definition wf_clk :: "'a raw_clk_scheme \<Rightarrow> bool" where
  "wf_clk f \<longleftrightarrow> wf_bh f \<and> ufits 2 (bk_hs f) \<and> bk_toc f < 2016 \<and> sfits 25 (bk_af0 f) \<and> sfits 22 (bk_af1 f) \<and>
     sfits 11 (bk_af2 f) \<and> ufits 10 (bk_iodc f)"

definition wf_b30 :: "raw_b30 \<Rightarrow> bool" where
  "wf_b30 f \<longleftrightarrow> wf_clk f \<and> sfits 12 (b30_tgd f) \<and> sfits 12 (b30_isc f) \<and> ufits 10 (b30_a1 f) \<and> sfits 8 (b30_a2 f) \<and>
     ufits 8 (b30_a3 f) \<and> ufits 8 (b30_a4 f) \<and> ufits 8 (b30_a5 f) \<and> sfits 8 (b30_a6 f) \<and> sfits 8 (b30_a7 f) \<and>
     sfits 8 (b30_a8 f) \<and> sfits 8 (b30_a9 f) \<and> sfits 12 (b30_tgdB1 f)"

definition wf_b34 :: "raw_b34 \<Rightarrow> bool" where
  "wf_b34 f \<longleftrightarrow> wf_clk f \<and> ufits 11 (b34_top f) \<and> ufits 5 (b34_ocb f) \<and> ufits 3 (b34_oc1 f) \<and> ufits 3 (b34_oc2 f) \<and>
     sfits 16 (b34_A0 f) \<and> sfits 13 (b34_A1 f) \<and> sfits 7 (b34_A2 f) \<and> sfits 8 (b34_dtls f) \<and> ufits 16 (b34_tot f) \<and>
     ufits 13 (b34_wnot f) \<and> ufits 13 (b34_wnlsf f) \<and> ufits 3 (b34_dn f) \<and> sfits 8 (b34_dtlsf f)"

lemmas b_layout = bh_bits_def flag_bits_def clk_bits_def b10_bits_def b11_bits_def b30_bits_def b34_bits_def
lemmas b_wf = wf_bh_def wf_clk_def wf_b10_def wf_b11_def wf_b30_def wf_b34_def fits_defs

lemma length_b_bits [simp]:
  "length (bh_bits ty h) = 30" "length (b10_bits a) = 264" "length (b11_bits b) = 264" "length (b30_bits res c) = 264" "length (b34_bits res d) = 264"
  by (simp_all add: b_layout)

definition bcnav_words :: "bool list \<Rightarrow> u32 list" where
  "bcnav_words msg = words32 9 (crc_seal msg)"

definition bcnav_reader :: "bool list \<Rightarrow> bit_reader" where
  "bcnav_reader msg = NewBitReaderN (be_words 9 (bcnav_words msg)) 288"

lemma bits_bcnav_words:
  "length msg = 264 \<Longrightarrow> bits_of (be_words 9 (bcnav_words msg)) = msg @ reg_bits (crc_reg msg)"
  by (simp add: bcnav_words_def bits_of_words32 crc_seal_def)

lemma bcnav_reads: "length msg = 264 \<Longrightarrow> reads (bcnav_reader msg) (msg @ reg_bits (crc_reg msg))"
  unfolding bcnav_reader_def
  by (rule reads_NewBitReaderN [where rest = "[]"]) (simp_all add: bits_bcnav_words, simp_all add: bcnav_words_def)

lemma bcnav_check: "length msg = 264 \<Longrightarrow> CheckCRC24Q (be_words 9 (bcnav_words msg))"
proof -
  assume l: "length msg = 264"
  have "length (be_words 9 (bcnav_words msg)) = 36" by (simp add: bcnav_words_def)
  with l show ?thesis by (simp add: CheckCRC24Q_reg bits_bcnav_words crc_reg_append_self)
qed

text \<open>Every message: the header is read, then the type selects the body.\<close>

definition head_bc :: "nat \<Rightarrow> 'a raw_bh_scheme \<Rightarrow> bcnav2" where
  "head_bc ty f = bcnav0\<lparr>bc_PRN := int (bh_prn f), bc_MesType := int ty, bc_SOW := int (bh_sow f) * 3\<rparr>"

lemma decode_bcnav:
  assumes "msg = bh_bits ty f @ rest" "length msg = 264" "wf_bh f" "ty < 64"
  shows "DecodeBeiDouBCNAV2 (bcnav_words msg) = bc_switch (bcnav_reader msg) (head_bc ty f)"
proof -
  have R: "reads (bcnav_reader msg) (bh_bits ty f @ rest @ reg_bits (crc_reg msg))"
    using bcnav_reads [OF assms(2)] assms(1) by simp
  have l: "length rest = 234" using arg_cong [OF assms(1), of length] assms(2) by simp
  have "length (bcnav_words msg) = 9" by (simp add: bcnav_words_def)
  then show ?thesis
    using bcnav_check [OF assms(2)] assms(3,4) l
    by (simp add: DecodeBeiDouBCNAV2_def Let_def bcnav_reader_def [symmetric] reads_getu [OF R])
       (simp add: bh_bits_def slice_simps wf_bh_def fits_defs read_values head_bc_def)
qed

section \<open>The scaled values of the fields\<close>

definition flagged :: "'a raw_bh_scheme \<Rightarrow> bcnav2 \<Rightarrow> bcnav2" where
  "flagged f m = m\<lparr>bc_DIF := bh_dif f, bc_SIF := bh_sif f, bc_AIF := bh_aif f, bc_SISMAI := int (bh_sismai f)\<rparr>"

definition b10_eph :: "raw_b10 \<Rightarrow> ephemeris" where
  "b10_eph f = eph0\<lparr>eph_Toe := real (b10_toe f) * 300,
     eph_SqrtA := sqrt ((if b10_sat f = 3 then 27906100 else 42162200) + real_of_int (b10_dA f) / 2 ^ 9),
     eph_ADot := real_of_int (b10_Adot f) / 2 ^ 21,
     eph_DeltaN := real_of_int (b10_dn f) / 2 ^ 44 * Pi,
     eph_DeltaNDot := real_of_int (b10_dndot f) / 2 ^ 57 * Pi,
     eph_M0 := real_of_int (b10_m0 f) / 2 ^ 32 * Pi,
     eph_Ecc := real (b10_ecc f) / 2 ^ 34,
     eph_Omega := real_of_int (b10_omega f) / 2 ^ 32 * Pi\<rparr>"

definition b10_value :: "raw_b10 \<Rightarrow> bcnav2" where
  "b10_value f = flagged f (head_bc 10 f)\<lparr>bc_WN := int (b10_wn f), bc_IODE := int (b10_iode f), bc_SatType := int (b10_sat f),
     bc_eph := b10_eph f\<rparr>"

definition b11_eph :: "raw_b11 \<Rightarrow> ephemeris \<Rightarrow> ephemeris" where
  "b11_eph f e = e\<lparr>eph_Omega0 := real_of_int (b11_omg0 f) / 2 ^ 32 * Pi,
     eph_I0 := real_of_int (b11_i0 f) / 2 ^ 32 * Pi,
     eph_OmegaDot := real_of_int (b11_omgDot f) / 2 ^ 44 * Pi,
     eph_IDot := real_of_int (b11_idot f) / 2 ^ 44 * Pi,
     eph_Cis := real_of_int (b11_cis f) / 2 ^ 30,
     eph_Cic := real_of_int (b11_cic f) / 2 ^ 30,
     eph_Crs := real_of_int (b11_crs f) / 2 ^ 8,
     eph_Crc := real_of_int (b11_crc f) / 2 ^ 8,
     eph_Cus := real_of_int (b11_cus f) / 2 ^ 30,
     eph_Cuc := real_of_int (b11_cuc f) / 2 ^ 30\<rparr>"

definition b11_value :: "raw_b11 \<Rightarrow> bcnav2" where
  "b11_value f = flagged f (head_bc 11 f)\<lparr>bc_HS := int (b11_hs f), bc_eph := b11_eph f eph0, bc_hasEph2 := True\<rparr>"

definition clk_value :: "'a raw_clk_scheme \<Rightarrow> clock_model" where
  "clk_value f = clk0\<lparr>clk_ID := BeiDou, clk_Toc := real (bk_toc f) * 300, clk_Af0 := real_of_int (bk_af0 f) / 2 ^ 34,
     clk_Af1 := real_of_int (bk_af1 f) / 2 ^ 50, clk_Af2 := real_of_int (bk_af2 f) / 2 ^ 66\<rparr>"

definition b30_value :: "raw_b30 \<Rightarrow> bcnav2" where
  "b30_value f = flagged f (head_bc 30 f)\<lparr>bc_HS := int (bk_hs f), bc_clk := clk_value f, bc_IODC := int (bk_iodc f),
     bc_TGDB2ap := real_of_int (b30_tgd f) / 2 ^ 34, bc_ISCB2ad := real_of_int (b30_isc f) / 2 ^ 34,
     bc_TGDB1Cp := real_of_int (b30_tgdB1 f) / 2 ^ 34,
     bc_BDGIM := [real (b30_a1 f) / 8, real_of_int (b30_a2 f) / 8, real (b30_a3 f) / 8, real (b30_a4 f) / 8,
       - real (b30_a5 f) / 8, real_of_int (b30_a6 f) / 8, real_of_int (b30_a7 f) / 8, real_of_int (b30_a8 f) / 8, real_of_int (b30_a9 f) / 8],
     bc_hasClk := True\<rparr>"

definition b34_value :: "raw_b34 \<Rightarrow> bcnav2" where
  "b34_value f = flagged f (head_bc 34 f)\<lparr>bc_HS := int (bk_hs f), bc_SISAItop := int (b34_top f), bc_SISAIocb := int (b34_ocb f),
     bc_SISAIoc1 := int (b34_oc1 f), bc_SISAIoc2 := int (b34_oc2 f), bc_clk := clk_value f, bc_IODC := int (bk_iodc f),
     bc_UTC := \<lparr>utc_A0 = real_of_int (b34_A0 f) / 2 ^ 35, utc_A1 = real_of_int (b34_A1 f) / 2 ^ 51,
       utc_A2 = real_of_int (b34_A2 f) / 2 ^ 68, utc_Tot = real (b34_tot f) * 16, utc_WNot = int (b34_wnot f),
       utc_DtLS = real_of_int (b34_dtls f), utc_DtLSF = real_of_int (b34_dtlsf f), utc_WNLSF = int (b34_wnlsf f),
       utc_DN = int (b34_dn f)\<rparr>,
     bc_hasClk := True\<rparr>"

lemmas b_value = flagged_def head_bc_def bcnav0_def b10_eph_def b10_value_def b11_eph_def b11_value_def clk_value_def b30_value_def b34_value_def
lemmas b_consts = bcnavArefMEO_def bcnavArefIGSO_def bcnavT0_def scale_defs

lemma read_b10:
  assumes R: "reads r (b10_bits f @ rest)" and "wf_b10 f"
  shows "bc_mt10 r (head_bc 10 f) = Inr (b10_value f)"
  using assms(2)
  by (simp add: bc_mt10_def bc_flags_def Let_def reads_getu [OF R] reads_gets [OF R] b_layout slice_simps b_wf
      read_values b_value b_consts)

lemma read_b11:
  assumes R: "reads r (b11_bits f @ rest)" and "wf_b11 f"
  shows "bc_mt11 r (head_bc 11 f) = Inr (b11_value f)"
  using assms(2)
  by (simp add: bc_mt11_def bc_flags_def Let_def reads_getu [OF R] reads_gets [OF R] b_layout slice_simps b_wf
      read_values b_value b_consts)

lemma read_b30:
  assumes R: "reads r (b30_bits res f @ rest)" and "wf_b30 f"
  shows "bc_mt30 r (head_bc 30 f) = Inr (b30_value f)"
  using assms(2)
  by (simp add: bc_mt30_def bc_flags_def Let_def reads_getu [OF R] reads_gets [OF R] b_layout slice_simps b_wf
      read_values b_value b_consts)

lemma read_b34:
  assumes R: "reads r (b34_bits res f @ rest)" and "wf_b34 f"
  shows "bc_mt34 r (head_bc 34 f) = Inr (b34_value f)"
  using assms(2)
  by (simp add: bc_mt34_def bc_flags_def Let_def reads_getu [OF R] reads_gets [OF R] b_layout slice_simps b_wf
      read_values b_value b_consts)

lemma decode_b10: "wf_b10 f \<Longrightarrow> DecodeBeiDouBCNAV2 (bcnav_words (b10_bits f)) = Inr (b10_value f)"
  using read_b10 [OF bcnav_reads [of "b10_bits f", simplified]]
  by (subst decode_bcnav [OF b10_bits_def]) (simp_all add: wf_b10_def bc_switch_def head_bc_def)

lemma decode_b11: "wf_b11 f \<Longrightarrow> DecodeBeiDouBCNAV2 (bcnav_words (b11_bits f)) = Inr (b11_value f)"
  using read_b11 [OF bcnav_reads [of "b11_bits f", simplified]]
  by (subst decode_bcnav [OF b11_bits_def]) (simp_all add: wf_b11_def bc_switch_def head_bc_def)

lemma decode_b30: "wf_b30 f \<Longrightarrow> DecodeBeiDouBCNAV2 (bcnav_words (b30_bits res f)) = Inr (b30_value f)"
  using read_b30 [OF bcnav_reads [of "b30_bits res f", simplified]]
  by (subst decode_bcnav [OF b30_bits_def]) (simp_all add: wf_b30_def wf_clk_def bc_switch_def head_bc_def)

lemma decode_b34: "wf_b34 f \<Longrightarrow> DecodeBeiDouBCNAV2 (bcnav_words (b34_bits res f)) = Inr (b34_value f)"
  using read_b34 [OF bcnav_reads [of "b34_bits res f", simplified]]
  by (subst decode_bcnav [OF b34_bits_def]) (simp_all add: wf_b34_def wf_clk_def bc_switch_def head_bc_def)

section \<open>The midi almanac\<close>

record raw_midi = raw_bh +
  mi_hs :: nat
  mi_oe :: nat
  mi_top :: nat
  mi_ocb :: nat
  mi_oc1 :: nat
  mi_oc2 :: nat
  mi_prna :: nat
  mi_sat :: nat
  mi_wna :: nat
  mi_toa :: nat
  mi_ecc :: nat
  mi_di :: int
  mi_sqrtA :: nat
  mi_omg0 :: int
  mi_omgDot :: int
  mi_omega :: int
  mi_m0 :: int
  mi_af0 :: int
  mi_af1 :: int
  mi_health :: nat

definition b40_bits :: "nat \<Rightarrow> raw_midi \<Rightarrow> bool list" where
  "b40_bits res f = bh_bits 40 f @ ubits_enc 2 (mi_hs f) @ flag_bits f @ ubits_enc 5 (mi_oe f) @ ubits_enc 11 (mi_top f) @
     ubits_enc 5 (mi_ocb f) @ ubits_enc 3 (mi_oc1 f) @ ubits_enc 3 (mi_oc2 f) @ ubits_enc 6 (mi_prna f) @ ubits_enc 2 (mi_sat f) @
     ubits_enc 13 (mi_wna f) @ ubits_enc 8 (mi_toa f) @ ubits_enc 11 (mi_ecc f) @ sbits_enc 11 (mi_di f) @ ubits_enc 17 (mi_sqrtA f) @
     sbits_enc 16 (mi_omg0 f) @ sbits_enc 11 (mi_omgDot f) @ sbits_enc 16 (mi_omega f) @ sbits_enc 16 (mi_m0 f) @
     sbits_enc 11 (mi_af0 f) @ sbits_enc 10 (mi_af1 f) @ ubits_enc 8 (mi_health f) @ ubits_enc 39 res"

definition wf_midi :: "raw_midi \<Rightarrow> bool" where
  "wf_midi f \<longleftrightarrow> wf_bh f \<and> ufits 2 (mi_hs f) \<and> ufits 5 (mi_oe f) \<and> ufits 11 (mi_top f) \<and> ufits 5 (mi_ocb f) \<and>
     ufits 3 (mi_oc1 f) \<and> ufits 3 (mi_oc2 f) \<and> ufits 6 (mi_prna f) \<and> ufits 2 (mi_sat f) \<and> ufits 13 (mi_wna f) \<and>
     ufits 8 (mi_toa f) \<and> ufits 11 (mi_ecc f) \<and> sfits 11 (mi_di f) \<and> ufits 17 (mi_sqrtA f) \<and> sfits 16 (mi_omg0 f) \<and>
     sfits 11 (mi_omgDot f) \<and> sfits 16 (mi_omega f) \<and> sfits 16 (mi_m0 f) \<and> sfits 11 (mi_af0 f) \<and> sfits 10 (mi_af1 f) \<and>
     ufits 8 (mi_health f)"

definition midi_value :: "raw_midi \<Rightarrow> midi_almanac" where
  "midi_value f = \<lparr>mi_PRN = int (mi_prna f), mi_SatType = int (mi_sat f), mi_WN = int (mi_wna f), mi_Toa = real (mi_toa f) * 4096,
     mi_Ecc = real (mi_ecc f) / 2 ^ 16, mi_DeltaI = real_of_int (mi_di f) / 2 ^ 14 * Pi, mi_SqrtA = real (mi_sqrtA f) / 2 ^ 4,
     mi_Omega0 = real_of_int (mi_omg0 f) / 2 ^ 15 * Pi, mi_OmegaDot = real_of_int (mi_omgDot f) / 2 ^ 33 * Pi,
     mi_Omega = real_of_int (mi_omega f) / 2 ^ 15 * Pi, mi_M0 = real_of_int (mi_m0 f) / 2 ^ 15 * Pi,
     mi_Af0 = real_of_int (mi_af0 f) / 2 ^ 20, mi_Af1 = real_of_int (mi_af1 f) / 2 ^ 37, mi_Health = int (mi_health f)\<rparr>"

definition b40_value :: "raw_midi \<Rightarrow> bcnav2" where
  "b40_value f = flagged f (head_bc 40 f)\<lparr>bc_HS := int (mi_hs f), bc_SISAIoe := int (mi_oe f), bc_SISAItop := int (mi_top f),
     bc_SISAIocb := int (mi_ocb f), bc_SISAIoc1 := int (mi_oc1 f), bc_SISAIoc2 := int (mi_oc2 f),
     bc_Almanac := (if mi_prna f = 0 then None else Some (midi_value f))\<rparr>"

lemma length_b40_bits [simp]: "length (b40_bits res f) = 264"
  by (simp add: b40_bits_def b_layout)

lemma toa_gate: "real n * 4096 > 602112 \<longleftrightarrow> n > 147"
  by linarith

lemma read_b40:
  assumes R: "reads r (b40_bits res f @ rest)" and "wf_midi f"
  shows "bc_mt40 r (head_bc 40 f) = (if mi_toa f > 147 then Inl ErrBadEpoch else Inr (b40_value f))"
  using assms(2)
  by (simp add: bc_mt40_def bc_flags_def Let_def reads_getu [OF R] reads_gets [OF R] b40_bits_def b_layout slice_simps
      wf_midi_def b_wf read_values b40_value_def midi_value_def b_value b_consts toa_gate)

lemma decode_b40:
  "wf_midi f \<Longrightarrow> DecodeBeiDouBCNAV2 (bcnav_words (b40_bits res f)) = (if mi_toa f > 147 then Inl ErrBadEpoch else Inr (b40_value f))"
  using read_b40 [OF bcnav_reads [of "b40_bits res f", simplified]]
  by (subst decode_bcnav [OF b40_bits_def]) (simp_all add: wf_midi_def bc_switch_def head_bc_def)

definition decode_midi :: "u32 list \<Rightarrow> frame_error + ephemeris option" where
  "decode_midi ws =
     (case DecodeBeiDouBCNAV2 ws of
        Inl e \<Rightarrow> Inl e
      | Inr m \<Rightarrow> (case bc_Almanac m of None \<Rightarrow> Inr None
                 | Some a \<Rightarrow> (case MidiAlmanac_Ephemeris a of Inl e \<Rightarrow> Inl e | Inr e \<Rightarrow> Inr (Some e))))"

definition midi_eph :: "raw_midi \<Rightarrow> ephemeris" where
  "midi_eph f = eph0\<lparr>eph_ID := BeiDou, eph_SVID := int (mi_prna f), eph_SqrtA := real (mi_sqrtA f) / 2 ^ 4,
     eph_Ecc := real (mi_ecc f) / 2 ^ 16, eph_M0 := real_of_int (mi_m0 f) / 2 ^ 15 * Pi,
     eph_I0 := (if mi_sat f = 1 then 0 else 0.3 * Pi) + real_of_int (mi_di f) / 2 ^ 14 * Pi,
     eph_Omega0 := real_of_int (mi_omg0 f) / 2 ^ 15 * Pi, eph_OmegaDot := real_of_int (mi_omgDot f) / 2 ^ 33 * Pi,
     eph_Omega := real_of_int (mi_omega f) / 2 ^ 15 * Pi, eph_Toe := real (mi_toa f) * 4096, eph_Almanac := True\<rparr>"

section \<open>Properties\<close>

definition decode_assemble_bcnav2 ::
  "int \<Rightarrow> u32 list \<Rightarrow> u32 list \<Rightarrow> u32 list \<Rightarrow> frame_error + ephemeris \<times> clock_model \<times> bool" where
  "decode_assemble_bcnav2 svid w10 w11 wclk =
     (case (DecodeBeiDouBCNAV2 w10, DecodeBeiDouBCNAV2 w11, DecodeBeiDouBCNAV2 wclk) of
        (Inr a, Inr b, Inr c) \<Rightarrow> AssembleBeiDouBCNAV2 svid (Some a) (Some b) (Some c)
      | (Inl e, _, _) \<Rightarrow> Inl e | (_, Inl e, _) \<Rightarrow> Inl e | (_, _, Inl e) \<Rightarrow> Inl e)"

text \<open>Either clock-bearing message.\<close>

datatype clock_msg = Clk30 raw_b30 | Clk34 raw_b34

definition wf_clock_msg :: "clock_msg \<Rightarrow> bool" where
  "wf_clock_msg c = (case c of Clk30 f \<Rightarrow> wf_b30 f | Clk34 f \<Rightarrow> wf_b34 f)"

definition clock_msg_bits :: "nat \<Rightarrow> clock_msg \<Rightarrow> bool list" where
  "clock_msg_bits res c = (case c of Clk30 f \<Rightarrow> b30_bits res f | Clk34 f \<Rightarrow> b34_bits res f)"

definition clock_msg_prn :: "clock_msg \<Rightarrow> nat" where
  "clock_msg_prn c = (case c of Clk30 f \<Rightarrow> bh_prn f | Clk34 f \<Rightarrow> bh_prn f)"

definition clock_msg_sow :: "clock_msg \<Rightarrow> nat" where
  "clock_msg_sow c = (case c of Clk30 f \<Rightarrow> bh_sow f | Clk34 f \<Rightarrow> bh_sow f)"

definition clock_msg_model :: "clock_msg \<Rightarrow> clock_model" where
  "clock_msg_model c = (case c of Clk30 f \<Rightarrow> (clk_value f)\<lparr>clk_TGD := real_of_int (b30_tgd f) / 2 ^ 34 + real_of_int (b30_isc f) / 2 ^ 34\<rparr>
     | Clk34 f \<Rightarrow> clk_value f)"

definition clock_msg_value :: "clock_msg \<Rightarrow> bcnav2" where
  "clock_msg_value c = (case c of Clk30 f \<Rightarrow> b30_value f | Clk34 f \<Rightarrow> b34_value f)"

lemma decode_clock_msg:
  "wf_clock_msg c \<Longrightarrow> DecodeBeiDouBCNAV2 (bcnav_words (clock_msg_bits res c)) = Inr (clock_msg_value c)"
  by (cases c) (simp_all add: wf_clock_msg_def clock_msg_bits_def clock_msg_value_def decode_b30 decode_b34)

lemma usable_clock_msg:
  "bc_usable_clk svid sow (Some (clock_msg_value c)) =
     (if int (clock_msg_prn c) = svid \<and> sow_within 3000 sow (int (clock_msg_sow c) * 3) then Some (clock_msg_value c) else None)"
proof -
  have v: "bc_PRN (clock_msg_value c) = int (clock_msg_prn c)" "bc_SOW (clock_msg_value c) = int (clock_msg_sow c) * 3"
    "bc_hasClk (clock_msg_value c)"
    by (cases c; simp add: clock_msg_value_def clock_msg_prn_def clock_msg_sow_def b_value)+
  show ?thesis
    using sowDelta_within [of 3000 sow "int (clock_msg_sow c) * 3"]
    by (auto simp: bc_usable_clk_def v bcnavClkStaleSOW_def split: prod.splits)
qed

lemma assemble_bcnav2:
  "AssembleBeiDouBCNAV2 svid (Some (b10_value f)) (Some (b11_value g)) (Some (clock_msg_value c)) =
    (if int (bh_prn f) \<noteq> svid \<or> int (bh_prn g) \<noteq> svid then Inl ErrPRNMismatch
     else if \<not> sow_within 3 (int (bh_sow f) * 3) (int (bh_sow g) * 3) then Inl ErrPairSOW
     else Inr ((b11_eph g (b10_eph f))\<lparr>eph_ID := BeiDou, eph_SVID := svid\<rparr>,
               if int (clock_msg_prn c) = svid \<and> sow_within 3000 (int (bh_sow f) * 3) (int (clock_msg_sow c) * 3)
               then (clock_msg_model c, True) else (clk0\<lparr>clk_ID := BeiDou\<rparr>, False)))"
proof -
  have c: "bc_hasClk (clock_msg_value c)"
    "(if bc_MesType (clock_msg_value c) = 30
      then (bc_clk (clock_msg_value c))\<lparr>clk_TGD := bc_TGDB2ap (clock_msg_value c) + bc_ISCB2ad (clock_msg_value c)\<rparr>
      else bc_clk (clock_msg_value c)) = clock_msg_model c"
    by (cases c; simp add: clock_msg_value_def clock_msg_model_def b_value)+
  have e: "bc_eph (b10_value f) = b10_eph f" "bc_eph (b11_value g) = b11_eph g eph0"
    "bc_SOW (b10_value f) = int (bh_sow f) * 3" "bc_SOW (b11_value g) = int (bh_sow g) * 3"
    "bc_PRN (b10_value f) = int (bh_prn f)" "bc_PRN (b11_value g) = int (bh_prn g)"
    "bc_MesType (b10_value f) = 10" "bc_MesType (b11_value g) = 11" "bc_hasEph2 (b11_value g)"
    by (simp_all add: b10_value_def b11_value_def flagged_def head_bc_def)
  obtain d ok where d: "sowDelta (int (bh_sow f) * 3) (int (bh_sow g) * 3) = (d, ok)" by fastforce
  have near: "(\<not> ok \<or> d < - 3 \<or> d > 3) = (\<not> sow_within 3 (int (bh_sow f) * 3) (int (bh_sow g) * 3))"
    using sowDelta_within [of 3 "int (bh_sow f) * 3" "int (bh_sow g) * 3"] d by auto
  show ?thesis
    using near by (simp add: AssembleBeiDouBCNAV2_def e d Let_def usable_clock_msg c b11_eph_def b10_eph_def eph0_def)
qed

text \<open>A concrete broadcast, its pair straddling the weekly rollover.\<close>

definition ex_b10 :: raw_b10 where
  "ex_b10 = \<lparr>bh_prn = 27, bh_sow = 201599, bh_dif = False, bh_sif = False, bh_aif = False, bh_sismai = 3, bh_b1c = 0,
     b10_wn = 1023, b10_iode = 9, b10_toe = 2012, b10_sat = 3, b10_dA = - 1234567, b10_Adot = 12, b10_dn = 4321,
     b10_dndot = - 77, b10_m0 = - 3123456789, b10_ecc = 7654321, b10_omega = 2123456789\<rparr>"

definition ex_b11 :: raw_b11 where
  "ex_b11 = \<lparr>bh_prn = 27, bh_sow = 0, bh_dif = False, bh_sif = False, bh_aif = False, bh_sismai = 3, bh_b1c = 0,
     b11_hs = 0, b11_omg0 = 1234567890, b11_i0 = 1312345678, b11_omgDot = - 4567, b11_idot = - 99, b11_cis = 12,
     b11_cic = - 33, b11_crs = 4567, b11_crc = 65432, b11_cus = 8765, b11_cuc = - 432\<rparr>"

definition ex_b30 :: raw_b30 where
  "ex_b30 = \<lparr>bh_prn = 27, bh_sow = 201500, bh_dif = False, bh_sif = False, bh_aif = False, bh_sismai = 3, bh_b1c = 0,
     bk_hs = 0, bk_toc = 2012, bk_af0 = - 1234567, bk_af1 = 321, bk_af2 = 0, bk_iodc = 521,
     b30_tgd = - 321, b30_isc = 12, b30_a1 = 100, b30_a2 = - 5, b30_a3 = 60, b30_a4 = 7, b30_a5 = 80, b30_a6 = - 1,
     b30_a7 = 2, b30_a8 = - 3, b30_a9 = 4, b30_tgdB1 = - 55\<rparr>"

definition ex_midi :: raw_midi where
  "ex_midi = \<lparr>bh_prn = 27, bh_sow = 1000, bh_dif = False, bh_sif = False, bh_aif = False, bh_sismai = 3, bh_b1c = 0,
     mi_hs = 0, mi_oe = 1, mi_top = 2, mi_ocb = 3, mi_oc1 = 4, mi_oc2 = 5, mi_prna = 38, mi_sat = 2, mi_wna = 1023,
     mi_toa = 100, mi_ecc = 123, mi_di = - 45, mi_sqrtA = 103890, mi_omg0 = - 12345, mi_omgDot = - 200, mi_omega = 23456,
     mi_m0 = - 30000, mi_af0 = 900, mi_af1 = - 3, mi_health = 0\<rparr>"

lemma wf_ex_bcnav: "wf_b10 ex_b10" "wf_b11 ex_b11" "wf_clock_msg (Clk30 ex_b30)" "wf_midi ex_midi"
  by (simp_all add: wf_clock_msg_def wf_midi_def b_wf ex_b10_def ex_b11_def ex_b30_def ex_midi_def)

text \<open>Round trip through the whole B-CNAV2 path: messages 10, 11 and a clock message 30 or 34 laid out as
  the B2a interface document prescribes decode and assemble to the scaled values of their fields. The
  ephemeris pair is refused when it names another satellite or its two messages are more than one
  3-second frame apart on the circular week; the clock is attached exactly when it names the satellite
  and is at most 3000 s away, its group delay being the pilot delay plus the data-component correction
  for message 30 and zero for message 34.\<close>

lemma BCNAV2_roundtrip:
  assumes "wf_b10 f" "wf_b11 g" "wf_clock_msg c"
  shows "decode_assemble_bcnav2 svid (bcnav_words (b10_bits f)) (bcnav_words (b11_bits g)) (bcnav_words (clock_msg_bits res c)) =
    (if int (bh_prn f) \<noteq> svid \<or> int (bh_prn g) \<noteq> svid then Inl ErrPRNMismatch
     else if \<not> sow_within 3 (int (bh_sow f) * 3) (int (bh_sow g) * 3) then Inl ErrPairSOW
     else Inr ((b11_eph g (b10_eph f))\<lparr>eph_ID := BeiDou, eph_SVID := svid\<rparr>,
               if int (clock_msg_prn c) = svid \<and> sow_within 3000 (int (bh_sow f) * 3) (int (clock_msg_sow c) * 3)
               then (clock_msg_model c, True) else (clk0\<lparr>clk_ID := BeiDou\<rparr>, False)))"
  by (simp add: decode_assemble_bcnav2_def decode_b10 [OF assms(1)] decode_b11 [OF assms(2)] decode_clock_msg [OF assms(3)]
      assemble_bcnav2)

text \<open>Round trip of the B-CNAV2 midi almanac: a message 40 decodes to the Kepler elements of the satellite
  it describes, with the nominal inclination of its orbit type; satellite number 0 yields no almanac, a
  reference time past the documented range is refused, and a reserved orbit type cannot be placed.\<close>

lemma BCNAV2_midi_roundtrip:
  assumes "wf_midi f"
  shows "decode_midi (bcnav_words (b40_bits res f)) =
    (if mi_toa f > 147 then Inl ErrBadEpoch
     else if mi_prna f = 0 then Inr None
     else if mi_sat f = 0 then Inl ErrBadSatType
     else Inr (Some (midi_eph f)))"
proof -
  have "mi_sat f = 0 \<or> mi_sat f = 1 \<or> mi_sat f = 2 \<or> mi_sat f = 3"
    using assms by (auto simp: wf_midi_def fits_defs)
  then show ?thesis
    by (elim disjE) (simp_all add: decode_midi_def decode_b40 [OF assms] b40_value_def midi_value_def MidiAlmanac_Ephemeris_def midi_eph_def)
qed

end
