(* ===== verification/ErrorDetection.thy ===== *)
theory ErrorDetection
  imports Prelude
begin

text \<open>
  The interface of the linear block codes that guard BeiDou D1 and GLONASS frames: a set of parity checks,
  each of which is toggled by a fixed set of bit positions. What a code detects follows from the columns
  of its check matrix alone; the code theories discharge these laws for the checks the program computes.
\<close>

locale parity_checks =
  fixes check :: "'c \<Rightarrow> nat \<Rightarrow> bool"
    and flip :: "nat \<Rightarrow> 'c \<Rightarrow> 'c"
    and col :: "nat \<Rightarrow> nat \<Rightarrow> bool"
    and n :: nat
  assumes check_flip: "p < n \<Longrightarrow> check (flip p c) j \<longleftrightarrow> check c j \<noteq> col p j"
    and col_nonzero: "p < n \<Longrightarrow> \<exists>j. col p j"
    and col_distinct: "p < n \<Longrightarrow> q < n \<Longrightarrow> p \<noteq> q \<Longrightarrow> \<exists>j. col p j \<noteq> col q j"
begin

definition passes :: "'c \<Rightarrow> bool" where
  "passes c \<longleftrightarrow> (\<forall>j. \<not> check c j)"

lemma single_detected: "passes c \<Longrightarrow> p < n \<Longrightarrow> \<not> passes (flip p c)"
  using col_nonzero [of p] by (auto simp: passes_def check_flip)

lemma double_detected: "passes c \<Longrightarrow> p < n \<Longrightarrow> q < n \<Longrightarrow> p \<noteq> q \<Longrightarrow> \<not> passes (flip p (flip q c))"
  using col_distinct [of p q] by (auto simp: passes_def check_flip)

end

text \<open>A code with one check over all positions also detects every odd number of flips.\<close>

locale extended_checks = parity_checks +
  fixes overall :: nat
  assumes col_overall: "p < n \<Longrightarrow> col p overall"
begin

lemma overall_flips: "set ps \<subseteq> {..<n} \<Longrightarrow> check (foldr flip ps c) overall \<longleftrightarrow> (check c overall \<noteq> odd (length ps))"
  by (induction ps) (auto simp: check_flip col_overall)

lemma odd_detected: "passes c \<Longrightarrow> set ps \<subseteq> {..<n} \<Longrightarrow> odd (length ps) \<Longrightarrow> \<not> passes (foldr flip ps c)"
  using overall_flips [of ps c] by (auto simp: passes_def)

lemma upto_three_detected:
  assumes "passes c" "set ps \<subseteq> {..<n}" "distinct ps" "ps \<noteq> []" "length ps \<le> 3"
  shows "\<not> passes (foldr flip ps c)"
proof (cases "odd (length ps)")
  case False
  with assms(4,5) have "length ps = 2"
    by (cases ps; cases "tl ps") (auto simp: le_Suc_eq numeral_3_eq_3)
  then obtain p q where "ps = [p, q]" by (auto simp: length_Suc_conv numeral_2_eq_2)
  then show ?thesis using assms double_detected [of c p q] by simp
qed (use assms odd_detected in blast)

end

end
