(* ===== verification/BeiDouBch.thy ===== *)
theory BeiDouBch
  imports FrameScale ErrorDetection
begin

text \<open>
  \<^verbatim>\<open>gnss/frame/beidou_d1.go\<close>: the BCH(15,11,1) block code of BeiDou D1 subframes and the information stream
  behind it. Ten delivered 30-bit words carry 19 code blocks, one in the low 15 bits of word 1 and two in
  each of words 2 to 10, and 224 information bits.
\<close>

section \<open>The code\<close>

text \<open>The information stream: \<^verbatim>\<open>put\<close> advances a position through the buffer.\<close>

definition put32 :: "u32 \<Rightarrow> nat \<Rightarrow> u8 list \<times> nat \<Rightarrow> u8 list \<times> nat" where
  "put32 v n s = (case s of (buf, pos) \<Rightarrow>
     (put_bits buf pos (map (\<lambda>i. v AND push_bit (n - 1 - i) 1 \<noteq> 0) [0..<n]), pos + n))"

definition beidouInfo :: "u32 list \<Rightarrow> u8 list" where
  "beidouInfo words =
     fst (foldl (\<lambda>s i. put32 (drop_bit 8 (words ! i) AND 0x3FFFFF) 22 s)
       (put32 (drop_bit 4 (words ! 0) AND 0x3FFFFFF) 26 (replicate 28 0, 0)) [1..<10])"

definition bch15_step :: "u16 \<Rightarrow> nat \<Rightarrow> u16" where
  "bch15_step code b = (if code AND push_bit b 1 \<noteq> 0 then code XOR push_bit (b - 4) 0x13 else code)"

definition bch15Remainder :: "u16 \<Rightarrow> u16" where
  "bch15Remainder code = foldl bch15_step code (rev [4..<15]) AND 0xF"

definition bch15Valid :: "u16 \<Rightarrow> u16 \<Rightarrow> bool" where
  "bch15Valid info par \<longleftrightarrow> bch15Remainder (push_bit 4 info OR (par AND 0xF)) = 0"

definition stamp15 :: "u16 \<Rightarrow> u16" where
  "stamp15 info = bch15Remainder (push_bit 4 info)"

definition stamp_first :: "u32 \<Rightarrow> u32" where
  "stamp_first w = (w AND NOT 0xF) OR ucast (stamp15 (ucast (drop_bit 4 w AND 0x7FF)))"

definition stamp_next :: "u32 \<Rightarrow> u32" where
  "stamp_next w =
     (let info = drop_bit 8 w AND 0x3FFFFF;
          hi = ucast (drop_bit 11 info); lo = ucast (info AND 0x7FF)
      in (w AND NOT 0xFF) OR ucast (push_bit 4 (stamp15 hi) OR stamp15 lo))"

definition StampBeiDouD1BCH :: "u32 list \<Rightarrow> u32 list" where
  "StampBeiDouD1BCH words =
     (if length words < 10 then words
      else stamp_first (words ! 0) # map (\<lambda>i. stamp_next (words ! i)) [1..<10] @ drop 10 words)"

definition first_valid :: "u32 \<Rightarrow> bool" where
  "first_valid w \<longleftrightarrow> bch15Valid (ucast (drop_bit 4 w AND 0x7FF)) (ucast (w AND 0xF))"

definition next_valid :: "u32 \<Rightarrow> bool" where
  "next_valid w \<longleftrightarrow>
     (let info = drop_bit 8 w AND 0x3FFFFF
      in \<not> (\<not> bch15Valid (ucast (drop_bit 11 info)) (ucast (drop_bit 4 w AND 0xF)) \<or>
            \<not> bch15Valid (ucast (info AND 0x7FF)) (ucast (w AND 0xF))))"

definition beidouBCHValid :: "u32 list \<Rightarrow> bool" where
  "beidouBCHValid words = (if \<not> first_valid (words ! 0) then False else list_all (\<lambda>i. next_valid (words ! i)) [1..<10])"


section \<open>The BCH code\<close>

lemma bch15_step_bit: "bch15_step c b = (if bit c b then c XOR push_bit (b - 4) 0x13 else c)"
  by (simp add: bch15_step_def and_exp_eq_0_iff_not_bit)

lemma bch15_step_xor: "bch15_step (x XOR y) b = bch15_step x b XOR bch15_step y b"
  by (auto simp: bch15_step_bit bit_xor_iff xor.assoc xor.left_commute xor.commute)

lemma bch15_foldl_xor: "foldl bch15_step (x XOR y) bs = foldl bch15_step x bs XOR foldl bch15_step y bs"
  by (induction bs arbitrary: x y) (simp_all add: bch15_step_xor)

lemma bch15Remainder_xor: "bch15Remainder (x XOR y) = bch15Remainder x XOR bch15Remainder y"
  unfolding bch15Remainder_def bch15_foldl_xor by (rule bit_word_eqI) (simp only: bit_and_iff bit_xor_iff, blast)

text \<open>The three code words a delivered word carries.\<close>

definition lo_code :: "u32 \<Rightarrow> u16" where
  "lo_code w = push_bit 4 (ucast (drop_bit 8 w AND 0x7FF)) OR (ucast (w AND 0xF) AND 0xF)"

definition hi_code :: "u32 \<Rightarrow> u16" where
  "hi_code w = push_bit 4 (ucast (drop_bit 19 w AND 0x7FF)) OR (ucast (drop_bit 4 w AND 0xF) AND 0xF)"

definition first_code :: "u32 \<Rightarrow> u16" where
  "first_code w = push_bit 4 (ucast (drop_bit 4 w AND 0x7FF)) OR (ucast (w AND 0xF) AND 0xF)"

lemma bit_masks16: "bit (0xF :: u32) j \<longleftrightarrow> j < 4" "bit (0xF :: u16) j \<longleftrightarrow> j < 4" "bit (0x7FF :: u32) j \<longleftrightarrow> j < 11"
  "bit (0x3FFFFF :: u32) j \<longleftrightarrow> j < 22"
  using bit_mask_iff [where 'a = "32 word", of 4 j] bit_mask_iff [where 'a = "16 word", of 4 j]
    bit_mask_iff [where 'a = "32 word", of 11 j] bit_mask_iff [where 'a = "32 word", of 22 j]
  by (auto simp: mask_eq_exp_minus_1)

lemma bch15Remainder_low: "bit (bch15Remainder c) j \<Longrightarrow> j < 4"
  unfolding bch15Remainder_def by (simp only: bit_and_iff bit_masks16)

lemma bit_codes:
  "bit (lo_code w) j \<longleftrightarrow> j < 15 \<and> bit w (if j < 4 then j else j + 4)"
  "bit (hi_code w) j \<longleftrightarrow> j < 15 \<and> bit w (if j < 4 then j + 4 else j + 15)"
  "bit (first_code w) j \<longleftrightarrow> j < 15 \<and> bit w j"
  unfolding lo_code_def hi_code_def first_code_def
  by (simp_all only: bit_or_iff bit_and_iff bit_push_bit_iff bit_ucast_iff bit_drop_bit_eq bit_masks16 comp_def)
     (auto dest: bit_imp_le_length simp: add.commute)

lemma codes_xor:
  "lo_code (x XOR y) = lo_code x XOR lo_code y" "hi_code (x XOR y) = hi_code x XOR hi_code y"
  "first_code (x XOR y) = first_code x XOR first_code y"
  by (rule bit_word_eqI, auto simp: bit_codes bit_xor_iff)+

lemma first_valid_code: "first_valid w \<longleftrightarrow> bch15Remainder (first_code w) = 0"
  by (simp add: first_valid_def bch15Valid_def first_code_def)

lemma next_valid_codes: "next_valid w \<longleftrightarrow> bch15Remainder (hi_code w) = 0 \<and> bch15Remainder (lo_code w) = 0"
proof -
  have "drop_bit 11 (drop_bit 8 w AND 0x3FFFFF) = drop_bit 19 w AND 0x7FF"
    "(drop_bit 8 w AND 0x3FFFFF) AND 0x7FF = drop_bit 8 w AND 0x7FF"
    by (rule bit_word_eqI, simp only: bit_drop_bit_eq bit_and_iff bit_masks16 comp_def, auto simp: add.commute)+
  then show ?thesis
    by (simp only: next_valid_def Let_def bch15Valid_def lo_code_def hi_code_def) blast
qed

text \<open>The parity checks of the two kinds of word, and the columns of their check matrices.\<close>

definition flip32 :: "nat \<Rightarrow> u32 \<Rightarrow> u32" where
  "flip32 p w = w XOR push_bit p 1"

definition first_check :: "u32 \<Rightarrow> nat \<Rightarrow> bool" where
  "first_check w j = bit (bch15Remainder (first_code w)) j"

definition next_check :: "u32 \<Rightarrow> nat \<Rightarrow> bool" where
  "next_check w j = (if j < 4 then bit (bch15Remainder (lo_code w)) j else bit (bch15Remainder (hi_code w)) (j - 4))"

text \<open>The remainders of the powers of \<open>x\<close>: the nonzero elements of the field of sixteen elements in order.\<close>

definition bch_powers :: "u16 list" where
  "bch_powers = [1, 2, 4, 8, 3, 6, 12, 11, 5, 10, 7, 14, 15, 13, 9]"

lemma bch15Remainder_powers:
  "bch15Remainder 1 = 1"
  "bch15Remainder 2 = 2"
  "bch15Remainder 4 = 4"
  "bch15Remainder 8 = 8"
  "bch15Remainder 16 = 3"
  "bch15Remainder 32 = 6"
  "bch15Remainder 64 = 12"
  "bch15Remainder 128 = 11"
  "bch15Remainder 256 = 5"
  "bch15Remainder 512 = 10"
  "bch15Remainder 1024 = 7"
  "bch15Remainder 2048 = 14"
  "bch15Remainder 4096 = 15"
  "bch15Remainder 8192 = 13"
  "bch15Remainder 16384 = 9"
  by (simp_all add: bch15Remainder_def bch15_step_def)

lemma bch15Remainder_power:
  assumes "k < 15"
  shows "bch15Remainder (push_bit k 1) = bch_powers ! k"
proof -
  have "k \<in> {0, 1, 2, 3, 4, 5, 6, 7, 8, 9, 10, 11, 12, 13, 14}"
    using assms by (auto simp: less_Suc_eq eval_nat_numeral)
  then show ?thesis
    by (elim insertE emptyE) (simp_all add: bch_powers_def bch15Remainder_powers)
qed

lemma bch15Remainder_0 [simp]: "bch15Remainder 0 = 0"
  using bch15Remainder_xor [of 0 0] by simp

lemma codes_single:
  "p < 15 \<Longrightarrow> first_code (push_bit p 1) = push_bit p 1"
  "p < 30 \<Longrightarrow> lo_code (push_bit p 1) = (if p < 4 then push_bit p 1 else if 8 \<le> p \<and> p < 19 then push_bit (p - 4) 1 else 0)"
  "p < 30 \<Longrightarrow> hi_code (push_bit p 1) = (if 4 \<le> p \<and> p < 8 then push_bit (p - 4) 1 else if 19 \<le> p then push_bit (p - 15) 1 else 0)"
  by (rule bit_word_eqI, simp only: bit_codes bit_push_bit_iff bit_1_iff, auto simp: bit_push_bit_iff bit_1_iff bit_exp_iff)+

definition lo_columns :: "u16 list" where
  "lo_columns = [1, 2, 4, 8, 0, 0, 0, 0, 3, 6, 12, 11, 5, 10, 7, 14, 15, 13, 9, 0, 0, 0, 0, 0, 0, 0, 0, 0, 0, 0]"

definition hi_columns :: "u16 list" where
  "hi_columns = [0, 0, 0, 0, 1, 2, 4, 8, 0, 0, 0, 0, 0, 0, 0, 0, 0, 0, 0, 3, 6, 12, 11, 5, 10, 7, 14, 15, 13, 9]"

lemma lo_hi_columns:
  assumes "p < 30"
  shows "bch15Remainder (lo_code (push_bit p 1)) = lo_columns ! p" "bch15Remainder (hi_code (push_bit p 1)) = hi_columns ! p"
proof -
  have "p \<in> {0, 1, 2, 3, 4, 5, 6, 7, 8, 9, 10, 11, 12, 13, 14, 15, 16, 17, 18, 19, 20, 21, 22, 23, 24, 25, 26, 27, 28, 29}"
    using assms by (auto simp: less_Suc_eq eval_nat_numeral)
  then show "bch15Remainder (lo_code (push_bit p 1)) = lo_columns ! p" "bch15Remainder (hi_code (push_bit p 1)) = hi_columns ! p"
    unfolding codes_single(2,3) [OF assms]
    by (elim insertE emptyE; simp add: lo_columns_def hi_columns_def bch15Remainder_powers)+
qed

lemma bch_columns_distinct:
  "distinct (0 # bch_powers)" "distinct ((0, 0) # zip hi_columns lo_columns)"
  by (simp_all add: bch_powers_def lo_columns_def hi_columns_def)

lemma first_check_xor: "first_check (flip32 p w) j \<longleftrightarrow> first_check w j \<noteq> first_check (push_bit p 1) j"
  by (simp only: first_check_def flip32_def codes_xor bch15Remainder_xor bit_xor_iff)

lemma next_check_xor: "next_check (flip32 p w) j \<longleftrightarrow> next_check w j \<noteq> next_check (push_bit p 1) j"
  by (simp only: next_check_def flip32_def codes_xor bch15Remainder_xor bit_xor_iff split: if_splits) blast

lemma next_check_eq:
  "(\<forall>j. next_check w j = next_check v j) \<longleftrightarrow>
   bch15Remainder (hi_code w) = bch15Remainder (hi_code v) \<and> bch15Remainder (lo_code w) = bch15Remainder (lo_code v)"
proof
  assume a: "\<forall>j. next_check w j = next_check v j"
  have "bit (bch15Remainder (hi_code w)) j = bit (bch15Remainder (hi_code v)) j" for j
    using a [rule_format, of "j + 4"] by (simp add: next_check_def)
  moreover have "bit (bch15Remainder (lo_code w)) j = bit (bch15Remainder (lo_code v)) j" for j
    using a [rule_format, of j] bch15Remainder_low by (cases "j < 4") (auto simp: next_check_def)
  ultimately show "bch15Remainder (hi_code w) = bch15Remainder (hi_code v) \<and> bch15Remainder (lo_code w) = bch15Remainder (lo_code v)"
    by (auto intro: bit_word_eqI)
qed (simp add: next_check_def)

lemma first_check_eq: "(\<forall>j. first_check w j = first_check v j) \<longleftrightarrow> bch15Remainder (first_code w) = bch15Remainder (first_code v)"
  by (auto simp: first_check_def intro: bit_word_eqI)

lemma codes_0 [simp]: "lo_code 0 = 0" "hi_code 0 = 0" "first_code 0 = 0"
  by (simp_all add: lo_code_def hi_code_def first_code_def)

lemma checks_0: "\<not> next_check 0 j" "\<not> first_check 0 j"
  by (simp_all add: next_check_def first_check_def)

lemma length_columns: "length bch_powers = 15" "length hi_columns = 30" "length lo_columns = 30"
  by (simp_all add: bch_powers_def hi_columns_def lo_columns_def)

lemma first_unit: "p < 15 \<Longrightarrow> bch15Remainder (first_code (push_bit p 1)) = bch_powers ! p"
  by (simp only: codes_single bch15Remainder_power)

interpretation bch_first: parity_checks first_check flip32 "\<lambda>p. first_check (push_bit p 1)" 15
proof
  fix p :: nat assume p: "p < 15"
  have "bch_powers ! p \<noteq> 0"
    using p bch_columns_distinct(1) nth_mem [of p bch_powers] length_columns by (metis distinct.simps(2))
  then have "bch15Remainder (first_code (push_bit p 1)) \<noteq> bch15Remainder (first_code 0)"
    using first_unit [OF p] by simp
  then show "\<exists>j. first_check (push_bit p 1) j"
    unfolding first_check_eq [symmetric] by (simp add: checks_0)
next
  fix p q :: nat assume p: "p < 15" "q < 15" "p \<noteq> q"
  then have "bch_powers ! p \<noteq> bch_powers ! q"
    using bch_columns_distinct(1) length_columns by (simp add: nth_eq_iff_index_eq)
  then have "bch15Remainder (first_code (push_bit p 1)) \<noteq> bch15Remainder (first_code (push_bit q 1))"
    unfolding first_unit [OF p(1)] first_unit [OF p(2)] .
  then show "\<exists>j. first_check (push_bit p 1) j \<noteq> first_check (push_bit q 1) j"
    unfolding first_check_eq [symmetric] by blast
qed (rule first_check_xor)

interpretation bch_next: parity_checks next_check flip32 "\<lambda>p. next_check (push_bit p 1)" 30
proof
  fix p :: nat assume p: "p < 30"
  have "zip hi_columns lo_columns ! p \<noteq> (0, 0)"
    using p bch_columns_distinct(2) nth_mem [of p "zip hi_columns lo_columns"] length_columns
    by (metis distinct.simps(2) length_zip min.idem)
  then have "\<not> (bch15Remainder (hi_code (push_bit p 1)) = bch15Remainder (hi_code 0) \<and>
      bch15Remainder (lo_code (push_bit p 1)) = bch15Remainder (lo_code 0))"
    unfolding lo_hi_columns [OF p] using p length_columns by simp
  then show "\<exists>j. next_check (push_bit p 1) j"
    unfolding next_check_eq [symmetric] by (simp add: checks_0)
next
  fix p q :: nat assume p: "p < 30" "q < 30" "p \<noteq> q"
  have "zip hi_columns lo_columns ! p \<noteq> zip hi_columns lo_columns ! q"
    using bch_columns_distinct(2) p length_columns by (simp add: nth_eq_iff_index_eq del: nth_zip)
  then have "\<not> (bch15Remainder (hi_code (push_bit p 1)) = bch15Remainder (hi_code (push_bit q 1)) \<and>
      bch15Remainder (lo_code (push_bit p 1)) = bch15Remainder (lo_code (push_bit q 1)))"
    unfolding lo_hi_columns [OF p(1)] lo_hi_columns [OF p(2)] using p length_columns by simp
  then show "\<exists>j. next_check (push_bit p 1) j \<noteq> next_check (push_bit q 1) j"
    unfolding next_check_eq [symmetric] by blast
qed (rule next_check_xor)

lemma first_valid_passes: "first_valid w \<longleftrightarrow> bch_first.passes w"
  using first_check_eq [of w 0] by (simp add: first_valid_code bch_first.passes_def checks_0)

lemma next_valid_passes: "next_valid w \<longleftrightarrow> bch_next.passes w"
  using next_check_eq [of w 0] by (auto simp: next_valid_codes bch_next.passes_def checks_0)

section \<open>Stamped words\<close>

lemma bch15_steps_low: "(\<And>j. bit c j \<Longrightarrow> j < 4) \<Longrightarrow> (\<And>b. b \<in> set bs \<Longrightarrow> 4 \<le> b) \<Longrightarrow> foldl bch15_step c bs = c"
proof (induction bs)
  case (Cons b bs)
  have "\<not> bit c b" using Cons.prems(1) [of b] Cons.prems(2) [of b] by auto
  then have "bch15_step c b = c" by (simp add: bch15_step_bit)
  with Cons show ?case by simp
qed simp

lemma bch15Remainder_idem: "bch15Remainder (bch15Remainder c) = bch15Remainder c"
proof -
  have "foldl bch15_step (bch15Remainder c) (rev [4..<15]) = bch15Remainder c"
    by (rule bch15_steps_low [OF bch15Remainder_low]) (auto simp only: set_rev set_upt atLeastLessThan_iff)
  then have "bch15Remainder (bch15Remainder c) = bch15Remainder c AND 0xF"
    by (simp only: bch15Remainder_def [of "bch15Remainder c"])
  also have "\<dots> = bch15Remainder c"
    by (rule bit_word_eqI, simp only: bit_and_iff bit_masks16) (use bch15Remainder_low in blast)
  finally show ?thesis .
qed

lemma bch15Remainder_sealed: "bch15Remainder (c XOR bch15Remainder c) = 0"
  by (simp add: bch15Remainder_xor bch15Remainder_idem)

lemma stamp15_low: "bit (stamp15 i) j \<Longrightarrow> j < 4"
  unfolding stamp15_def by (rule bch15Remainder_low)

lemma bit_low_masks: "bit (NOT 0xF :: u32) j \<longleftrightarrow> j < 32 \<and> \<not> j < 4" "bit (NOT 0xFF :: u32) j \<longleftrightarrow> j < 32 \<and> \<not> j < 8"
proof -
  have "bit (0xFF :: u32) j \<longleftrightarrow> j < 8"
    using bit_mask_iff [where 'a = "32 word", of 8 j] by (auto simp: mask_eq_exp_minus_1)
  then show "bit (NOT 0xF :: u32) j \<longleftrightarrow> j < 32 \<and> \<not> j < 4" "bit (NOT 0xFF :: u32) j \<longleftrightarrow> j < 32 \<and> \<not> j < 8"
    by (simp_all only: bit_not_iff possible_bit_word bit_masks16) auto
qed

definition first_info :: "u32 \<Rightarrow> u16" where "first_info w = ucast (drop_bit 4 w AND 0x7FF)"
definition hi_info :: "u32 \<Rightarrow> u16" where "hi_info w = ucast (drop_bit 11 (drop_bit 8 w AND 0x3FFFFF))"
definition lo_info :: "u32 \<Rightarrow> u16" where "lo_info w = ucast ((drop_bit 8 w AND 0x3FFFFF) AND 0x7FF)"

lemma bit_infos:
  "bit (first_info w) j \<longleftrightarrow> j < 11 \<and> bit w (j + 4)"
  "bit (hi_info w) j \<longleftrightarrow> j < 11 \<and> bit w (j + 19)"
  "bit (lo_info w) j \<longleftrightarrow> j < 11 \<and> bit w (j + 8)"
  unfolding first_info_def hi_info_def lo_info_def
  by (simp_all only: bit_and_iff bit_ucast_iff bit_drop_bit_eq bit_masks16 comp_def) (auto simp: add.commute)

lemma bit_stamp_first: "bit (stamp_first w) j \<longleftrightarrow> (if j < 4 then bit (stamp15 (first_info w)) j else bit w j)"
  unfolding stamp_first_def first_info_def [symmetric]
  by (simp only: bit_or_iff bit_and_iff bit_low_masks bit_ucast_iff) (auto dest: stamp15_low bit_imp_le_length)

lemma bit_stamp_next:
  "bit (stamp_next w) j \<longleftrightarrow>
   (if j < 4 then bit (stamp15 (lo_info w)) j else if j < 8 then bit (stamp15 (hi_info w)) (j - 4) else bit w j)"
  unfolding stamp_next_def Let_def hi_info_def [symmetric] lo_info_def [symmetric]
  by (simp only: bit_or_iff bit_and_iff bit_low_masks bit_ucast_iff bit_push_bit_iff)
     (auto dest: stamp15_low bit_imp_le_length)

lemma first_code_stamp: "first_code (stamp_first w) = push_bit 4 (first_info w) XOR stamp15 (first_info w)"
  by (rule bit_word_eqI, simp only: bit_codes bit_stamp_first bit_xor_iff bit_push_bit_iff bit_infos)
     (auto dest: stamp15_low)

lemma next_codes_stamp:
  "hi_code (stamp_next w) = push_bit 4 (hi_info w) XOR stamp15 (hi_info w)"
  "lo_code (stamp_next w) = push_bit 4 (lo_info w) XOR stamp15 (lo_info w)"
  by (rule bit_word_eqI, simp only: bit_codes bit_stamp_next bit_xor_iff bit_push_bit_iff bit_infos,
      auto dest: stamp15_low simp: add.commute)+

lemma first_valid_stamp: "first_valid (stamp_first w)"
  by (simp add: first_valid_code first_code_stamp stamp15_def bch15Remainder_sealed)

lemma next_valid_stamp: "next_valid (stamp_next w)"
  by (simp add: next_valid_codes next_codes_stamp stamp15_def bch15Remainder_sealed)

lemma nth_StampBeiDouD1BCH:
  assumes "10 \<le> length ws" "i < 10"
  shows "StampBeiDouD1BCH ws ! i = (if i = 0 then stamp_first (ws ! 0) else stamp_next (ws ! i))"
  using assms by (cases i) (simp_all add: StampBeiDouD1BCH_def nth_append)

lemma length_StampBeiDouD1BCH [simp]: "length (StampBeiDouD1BCH ws) = length ws"
  by (auto simp: StampBeiDouD1BCH_def)

lemma beidouBCHValid_iff: "beidouBCHValid ws \<longleftrightarrow> first_valid (ws ! 0) \<and> (\<forall>i \<in> {1..<10}. next_valid (ws ! i))"
  by (simp add: beidouBCHValid_def list_all_iff)

lemma beidouBCHValid_stamp: "10 \<le> length ws \<Longrightarrow> beidouBCHValid (StampBeiDouD1BCH ws)"
  by (auto simp: beidouBCHValid_iff nth_StampBeiDouD1BCH first_valid_stamp next_valid_stamp)

section \<open>The information stream\<close>

definition info_bits :: "nat \<Rightarrow> u32 \<Rightarrow> bool list" where
  "info_bits n w = map (\<lambda>i. bit w (29 - i)) [0..<n]"

definition d1_stream :: "u32 list \<Rightarrow> bool list" where
  "d1_stream ws = info_bits 26 (ws ! 0) @ concat (map (\<lambda>i. info_bits 22 (ws ! i)) [1..<10])"

lemma length_info_bits [simp]: "length (info_bits n w) = n"
  by (simp add: info_bits_def)

lemma put32_info:
  "put32 (drop_bit 4 w AND 0x3FFFFFF) 26 (buf, pos) = (put_bits buf pos (info_bits 26 w), pos + 26)"
  "put32 (drop_bit 8 w AND 0x3FFFFF) 22 (buf, pos) = (put_bits buf pos (info_bits 22 w), pos + 22)"
proof -
  have m: "bit (0x3FFFFFF :: u32) j \<longleftrightarrow> j < 26" for j
    using bit_mask_iff [where 'a = "32 word", of 26 j] by (auto simp: mask_eq_exp_minus_1)
  have "bit (drop_bit 4 w AND 0x3FFFFFF) (26 - 1 - i) \<longleftrightarrow> bit w (29 - i)" if "i < 26" for i
    using that by (simp only: bit_and_iff bit_drop_bit_eq m comp_def) auto
  moreover have "bit (drop_bit 8 w AND 0x3FFFFF) (22 - 1 - i) \<longleftrightarrow> bit w (29 - i)" if "i < 22" for i
    using that by (simp only: bit_and_iff bit_drop_bit_eq bit_masks16 comp_def) auto
  ultimately show
    "put32 (drop_bit 4 w AND 0x3FFFFFF) 26 (buf, pos) = (put_bits buf pos (info_bits 26 w), pos + 26)"
    "put32 (drop_bit 8 w AND 0x3FFFFF) 22 (buf, pos) = (put_bits buf pos (info_bits 22 w), pos + 22)"
    unfolding put32_def split_conv info_bits_def and_exp_eq_0_iff_not_bit [folded push_bit_of_1] not_not
    by (auto intro!: arg_cong2 [where f = "put_bits buf"] map_cong simp only: set_upt atLeastLessThan_iff)
qed

lemma foldl_put32:
  "foldl (\<lambda>s i. put32 (drop_bit 8 (ws ! i) AND 0x3FFFFF) 22 s) (put_bits buf off acc, off + length acc) is =
   (put_bits buf off (acc @ concat (map (\<lambda>i. info_bits 22 (ws ! i)) is)), off + length acc + 22 * length is)"
proof (induction "is" arbitrary: acc)
  case (Cons i "is")
  have "put32 (drop_bit 8 (ws ! i) AND 0x3FFFFF) 22 (put_bits buf off acc, off + length acc) =
      (put_bits buf off (acc @ info_bits 22 (ws ! i)), off + length (acc @ info_bits 22 (ws ! i)))"
    by (simp only: put32_info put_bits_append) simp
  with Cons [of "acc @ info_bits 22 (ws ! i)"] show ?case by simp
qed simp

lemma length_d1_stream [simp]: "length (d1_stream ws) = 224"
  by (simp add: d1_stream_def length_concat comp_def sum_list_triv)

lemma bits_of_beidouInfo: "bits_of (beidouInfo ws) = d1_stream ws"
proof -
  have "beidouInfo ws = put_bits (replicate 28 0) 0 (d1_stream ws)"
    using foldl_put32 [of ws "replicate 28 0" 0 "info_bits 26 (ws ! 0)" "[1..<10]"]
    by (simp only: beidouInfo_def put32_info d1_stream_def length_info_bits add_0 fst_conv)
  then show ?thesis by (simp add: bits_of_put_bits_zero)
qed

lemma length_beidouInfo [simp]: "length (beidouInfo ws) = 28"
  using arg_cong [OF bits_of_beidouInfo [of ws], of length] by simp

lemma d1_stream_stamp: "10 \<le> length ws \<Longrightarrow> d1_stream (StampBeiDouD1BCH ws) = d1_stream ws"
proof -
  assume l: "10 \<le> length ws"
  have "info_bits 26 (stamp_first w) = info_bits 26 w" "info_bits 22 (stamp_next w) = info_bits 22 w" for w
    by (auto simp: info_bits_def bit_stamp_first bit_stamp_next)
  then show ?thesis
    using l unfolding d1_stream_def
    by (intro arg_cong2 [where f = append] arg_cong [where f = concat] map_cong) (simp_all add: nth_StampBeiDouD1BCH)
qed

text \<open>Words that carry a given information stream.\<close>

definition info_word :: "nat \<Rightarrow> bool list \<Rightarrow> u32" where
  "info_word n bs = push_bit (30 - n) (of_nat (nat_of_bits bs))"

definition d1_words :: "bool list \<Rightarrow> u32 list" where
  "d1_words bits = StampBeiDouD1BCH (info_word 26 (bslice 0 26 bits) # map (\<lambda>i. info_word 22 (bslice (26 + 22 * i) 22 bits)) [0..<9])"

lemma info_bits_word: "length bs = n \<Longrightarrow> n \<le> 30 \<Longrightarrow> info_bits n (info_word n bs) = bs"
proof -
  assume n: "length bs = n" "n \<le> 30"
  have "info_bits n (info_word n bs) = ubits_enc n (nat_of_bits bs)"
    using n by (auto simp: info_bits_def info_word_def ubits_enc_def bit_push_bit_iff bit_of_nat_iff intro!: arg_cong [where f = "bit _"])
  then show ?thesis using ubits_enc_nat_of_bits [of bs] n by simp
qed

lemma length_d1_words [simp]: "length (d1_words bits) = 10"
  by (simp add: d1_words_def)

lemma d1_stream_words: "length bits = 224 \<Longrightarrow> d1_stream (d1_words bits) = bits"
proof -
  assume l: "length bits = 224"
  let ?tl = "drop 26 bits"
  have "map (\<lambda>i. info_bits 22 (info_word 22 (bslice (26 + 22 * i) 22 bits))) [0..<9] = map (\<lambda>i. bslice (22 * i) 22 ?tl) [0..<9]"
    using l by (auto simp: info_bits_word bslice_def add.commute simp del: upt.simps)
  then have "concat (map (\<lambda>i. info_bits 22 (info_word 22 (bslice (26 + 22 * i) 22 bits))) [0..<9]) = ?tl"
    using concat_chunks [of ?tl 9 22] l by (simp only:) simp
  moreover have "map (\<lambda>i. info_bits 22 ((w # map f [0..<9]) ! i)) [1..<10] = map (\<lambda>i. info_bits 22 (f i)) [0..<9]" for w f
  proof -
    have "map (\<lambda>i. info_bits 22 ((w # map f [0..<9]) ! i)) [1..<10] = map (\<lambda>i. info_bits 22 (map f [0..<9] ! i)) [0..<9]"
      using map_Suc_upt [of 0 9, symmetric] by (simp add: comp_def)
    then show ?thesis by (simp del: upt.simps)
  qed
  moreover have "info_bits 26 (info_word 26 (bslice 0 26 bits)) @ drop 26 bits = bits"
    using l by (simp add: info_bits_word bslice_def)
  ultimately show ?thesis
    unfolding d1_words_def by (subst d1_stream_stamp, simp) (simp only: d1_stream_def nth_Cons_0)
qed

lemma beidouBCHValid_words: "beidouBCHValid (d1_words bits)"
  by (simp add: d1_words_def beidouBCHValid_stamp)

definition d1_reader :: "bool list \<Rightarrow> bit_reader" where
  "d1_reader bits = NewBitReaderN (beidouInfo (d1_words bits)) 224"

lemma d1_reads: "length bits = 224 \<Longrightarrow> reads (d1_reader bits) bits"
  unfolding d1_reader_def
  by (rule reads_NewBitReaderN [where rest = "[]"]) (simp_all add: bits_of_beidouInfo d1_stream_words)

section \<open>Properties\<close>

definition d1_protected :: "nat \<Rightarrow> nat \<Rightarrow> bool" where
  "d1_protected i p \<longleftrightarrow> i < 10 \<and> p < (if i = 0 then 15 else 30)"

definition d1_flip :: "nat \<Rightarrow> nat \<Rightarrow> u32 list \<Rightarrow> u32 list" where
  "d1_flip i p ws = ws[i := ws ! i XOR push_bit p 1]"

definition word_ok :: "nat \<Rightarrow> u32 \<Rightarrow> bool" where
  "word_ok i w \<longleftrightarrow> (if i = 0 then bch_first.passes w else bch_next.passes w)"

lemma beidouBCHValid_words_ok: "beidouBCHValid ws \<longleftrightarrow> (\<forall>i<10. word_ok i (ws ! i))"
proof -
  have "(\<forall>i<10. word_ok i (ws ! i)) \<longleftrightarrow> word_ok 0 (ws ! 0) \<and> (\<forall>i \<in> {1..<10}. word_ok i (ws ! i))"
    by (metis One_nat_def atLeastLessThan_iff less_one not_less zero_less_numeral)
  then show ?thesis
    by (simp add: beidouBCHValid_iff word_ok_def first_valid_passes next_valid_passes)
qed

lemma word_ok_flip: "word_ok i w \<Longrightarrow> d1_protected i p \<Longrightarrow> \<not> word_ok i (flip32 p w)"
  using bch_first.single_detected [of w p] bch_next.single_detected [of w p]
  by (auto simp: word_ok_def d1_protected_def split: if_splits)

lemma word_ok_flip2: "word_ok i w \<Longrightarrow> d1_protected i p \<Longrightarrow> d1_protected i q \<Longrightarrow> p \<noteq> q \<Longrightarrow> \<not> word_ok i (flip32 p (flip32 q w))"
  using bch_first.double_detected [of w p q] bch_next.double_detected [of w p q]
  by (auto simp: word_ok_def d1_protected_def split: if_splits)

text \<open>BeiDou D1 error detection: a subframe whose code blocks all check is refused after any one and after
  any two of its 285 block-coded bits are flipped, whether the two lie in one block, in the two
  blocks of one word or in different words.\<close>

lemma beidouBCHValid_two_bits:
  assumes "beidouBCHValid ws" "10 \<le> length ws" "d1_protected i p" "d1_protected j q" "(i, p) \<noteq> (j, q)"
  shows "\<not> beidouBCHValid (d1_flip i p ws) \<and> \<not> beidouBCHValid (d1_flip i p (d1_flip j q ws))"
proof -
  have ok: "\<And>k. k < 10 \<Longrightarrow> word_ok k (ws ! k)" using assms(1) by (simp add: beidouBCHValid_words_ok)
  have i: "i < 10" "j < 10" using assms(3,4) by (simp_all add: d1_protected_def)
  have 1: "d1_flip i p ws ! i = flip32 p (ws ! i)" using i assms(2) by (simp add: d1_flip_def flip32_def)
  have 2: "d1_flip i p (d1_flip j q ws) ! i = flip32 p (if i = j then flip32 q (ws ! i) else ws ! i)"
    using i assms(2) by (simp add: d1_flip_def flip32_def)
  have "\<not> word_ok i (d1_flip i p ws ! i)"
    unfolding 1 by (rule word_ok_flip [OF ok [OF i(1)] assms(3)])
  moreover have "\<not> word_ok i (d1_flip i p (d1_flip j q ws) ! i)"
    unfolding 2 using assms(3-5) ok [OF i(1)] word_ok_flip word_ok_flip2 by auto
  ultimately show ?thesis using i by (auto simp: beidouBCHValid_words_ok)
qed

text \<open>Stamping a D1 subframe makes every block check and leaves the information stream as it was.\<close>

lemma StampBeiDouD1BCH_ok:
  assumes "10 \<le> length ws"
  shows "beidouBCHValid (StampBeiDouD1BCH ws) \<and> bits_of (beidouInfo (StampBeiDouD1BCH ws)) = bits_of (beidouInfo ws)"
  using assms by (simp add: beidouBCHValid_stamp bits_of_beidouInfo d1_stream_stamp)

end
