(* ===== verification/BeiDouD1.thy ===== *)
theory BeiDouD1
  imports BeiDouBcnav2 BeiDouBch
begin

text \<open>
  \<^verbatim>\<open>gnss/frame/beidou_d1.go\<close>: the BeiDou B1I D1 subframe decoder, over the block code and the
  information stream of \<open>BeiDouBch\<close>. Subframes 1 to 3 hold the clock and the two ephemeris
  halves, 4 and 5 the almanac pages. D1 has no issue tag, so the assembler demands subframes exactly six
  seconds apart.
\<close>

section \<open>The code\<close>

definition bdsT0 :: real where "bdsT0 = 8"

record d1_almanac =
  d1a_SVID :: int
  d1a_Pnum :: int
  d1a_Expanded :: bool
  d1a_AmID :: int
  d1a_Toa :: real
  d1a_SqrtA :: real
  d1a_Ecc :: real
  d1a_DeltaI :: real
  d1a_Omega0 :: real
  d1a_OmegaDot :: real
  d1a_Omega :: real
  d1a_M0 :: real
  d1a_A0 :: real
  d1a_A1 :: real

record d1_subframe =
  d1_FraID :: int
  d1_SOW :: int
  d1_Health :: int
  d1_AODC :: int
  d1_URAI :: int
  d1_WN :: int
  d1_Toc :: real
  d1_Af0 :: real
  d1_Af1 :: real
  d1_Af2 :: real
  d1_TGD1 :: real
  d1_TGD2 :: real
  d1_Alpha :: "real list"
  d1_Beta :: "real list"
  d1_AODE :: int
  d1_toeMSB :: int
  d1_toeLSB :: int
  d1_eph :: ephemeris
  d1_Pnum :: int
  d1_AmEpID :: int
  d1_HasAmEpID :: bool
  d1_AlmanacWN :: int
  d1_AlmanacToa :: real
  d1_HasAlmanacRef :: bool
  d1_Almanac :: "d1_almanac option"

definition d1_0 :: d1_subframe where
  "d1_0 = \<lparr>d1_FraID = 0, d1_SOW = 0, d1_Health = 0, d1_AODC = 0, d1_URAI = 0, d1_WN = 0, d1_Toc = 0, d1_Af0 = 0, d1_Af1 = 0,
     d1_Af2 = 0, d1_TGD1 = 0, d1_TGD2 = 0, d1_Alpha = replicate 4 0, d1_Beta = replicate 4 0, d1_AODE = 0, d1_toeMSB = 0,
     d1_toeLSB = 0, d1_eph = eph0, d1_Pnum = 0, d1_AmEpID = 0, d1_HasAmEpID = False, d1_AlmanacWN = 0, d1_AlmanacToa = 0,
     d1_HasAlmanacRef = False, d1_Almanac = None\<rparr>"

definition bdsAlmanacAxisTolerance :: real where "bdsAlmanacAxisTolerance = 1000000"

text \<open>The infinity test of the source is vacuous on the reals.\<close>

definition validBeiDouAlmanacAxis :: "int \<Rightarrow> real \<Rightarrow> bool" where
  "validBeiDouAlmanacAxis svid sqrtA =
     (if \<not> (sqrtA > 0) then False
      else
       (let a = sqrtA * sqrtA;
            meo = (\<bar>a - bcnavArefMEO\<bar> \<le> bdsAlmanacAxisTolerance);
            geoIGSO = (\<bar>a - bcnavArefIGSO\<bar> \<le> bdsAlmanacAxisTolerance)
        in if svid \<noteq> 0 \<and> IsBeiDouGEO BeiDou svid then geoIGSO else meo \<or> geoIGSO))"

text \<open>The method updates its receiver: the result is the flag and the almanac afterwards.\<close>

definition ResolveExpanded :: "int \<Rightarrow> d1_almanac \<Rightarrow> bool \<times> d1_almanac" where
  "ResolveExpanded amEpID a =
     (if \<not> d1a_Expanded a \<or> amEpID \<noteq> 3 \<or> d1a_Toa a > 602112 then (False, a)
      else if d1a_AmID a = 1 then (True, a\<lparr>d1a_SVID := 30 + d1a_Pnum a - 10\<rparr>)
      else if d1a_AmID a = 2 then (True, a\<lparr>d1a_SVID := 43 + d1a_Pnum a - 10\<rparr>)
      else if d1a_AmID a = 3 \<and> d1a_Pnum a \<le> 17 then (True, a\<lparr>d1a_SVID := 56 + d1a_Pnum a - 10\<rparr>)
      else (False, a))"

definition D1Almanac_Ephemeris :: "d1_almanac \<Rightarrow> frame_error + ephemeris" where
  "D1Almanac_Ephemeris a =
     (if d1a_SVID a < 1 \<or> d1a_SVID a > 63 \<or> \<not> validBeiDouAlmanacAxis (d1a_SVID a) (d1a_SqrtA a) then Inl ErrBadAlmanac
      else
       (let i0 = (if IsBeiDouGEO BeiDou (d1a_SVID a) then 0 else 0.30)
        in Inr (eph0\<lparr>eph_ID := BeiDou, eph_SVID := d1a_SVID a, eph_SqrtA := d1a_SqrtA a, eph_Ecc := d1a_Ecc a,
             eph_M0 := d1a_M0 a, eph_I0 := i0 * Pi + d1a_DeltaI a, eph_Omega0 := d1a_Omega0 a,
             eph_OmegaDot := d1a_OmegaDot a, eph_Omega := d1a_Omega a, eph_Toe := d1a_Toa a, eph_Almanac := True\<rparr>)))"

definition d1_sf1 :: "bit_reader \<Rightarrow> d1_subframe \<Rightarrow> frame_error + d1_subframe" where
  "d1_sf1 r sf =
     (let sf1 = sf\<lparr>d1_Health := go_int (getu r 38 1), d1_AODC := go_int (getu r 39 5), d1_URAI := go_int (getu r 44 4),
                  d1_WN := go_int (getu r 48 13), d1_Toc := fl (getu r 61 17) * bdsT0\<rparr>
      in if d1_Toc sf1 \<ge> weekSeconds then Inl ErrBadEpoch
         else Inr (sf1\<lparr>d1_TGD1 := real_of_int (gets r 78 10) * (1 / 10 ^ 10), d1_TGD2 := real_of_int (gets r 88 10) * (1 / 10 ^ 10),
                d1_Alpha := [real_of_int (gets r 98 8) * p2m30, real_of_int (gets r 106 8) * p2m27,
                  real_of_int (gets r 114 8) * p2m24, real_of_int (gets r 122 8) * p2m24],
                d1_Beta := [real_of_int (gets r 130 8) * 2 ^ 11, real_of_int (gets r 138 8) * 2 ^ 14,
                  real_of_int (gets r 146 8) * 2 ^ 16, real_of_int (gets r 154 8) * 2 ^ 16],
                d1_Af2 := real_of_int (gets r 162 11) * p2m66,
                d1_Af0 := real_of_int (gets r 173 24) * p2m33,
                d1_Af1 := real_of_int (gets r 197 22) * p2m50,
                d1_AODE := go_int (getu r 219 5)\<rparr>))"

definition d1_sf2 :: "bit_reader \<Rightarrow> d1_subframe \<Rightarrow> frame_error + d1_subframe" where
  "d1_sf2 r sf =
     (let semi = Pi
      in Inr (sf\<lparr>d1_eph := (d1_eph sf)\<lparr>
           eph_DeltaN := real_of_int (gets r 38 16) * p2m43 * semi,
           eph_Cuc := real_of_int (gets r 54 18) * p2m31,
           eph_M0 := real_of_int (gets r 72 32) * p2m31 * semi,
           eph_Ecc := fl (getu r 104 32) * p2m33,
           eph_Cus := real_of_int (gets r 136 18) * p2m31,
           eph_Crc := real_of_int (gets r 154 18) * p2m6,
           eph_Crs := real_of_int (gets r 172 18) * p2m6,
           eph_SqrtA := fl (getu r 190 32) * p2m19\<rparr>,
           d1_toeMSB := go_int (getu r 222 2)\<rparr>))"

definition d1_sf3 :: "bit_reader \<Rightarrow> d1_subframe \<Rightarrow> frame_error + d1_subframe" where
  "d1_sf3 r sf =
     (let semi = Pi
      in Inr (sf\<lparr>d1_toeLSB := go_int (getu r 38 15),
           d1_eph := (d1_eph sf)\<lparr>
           eph_I0 := real_of_int (gets r 53 32) * p2m31 * semi,
           eph_Cic := real_of_int (gets r 85 18) * p2m31,
           eph_OmegaDot := real_of_int (gets r 103 24) * p2m43 * semi,
           eph_Cis := real_of_int (gets r 127 18) * p2m31,
           eph_IDot := real_of_int (gets r 145 14) * p2m43 * semi,
           eph_Omega0 := real_of_int (gets r 159 32) * p2m31 * semi,
           eph_Omega := real_of_int (gets r 191 32) * p2m31 * semi\<rparr>\<rparr>))"

definition d1_alm_fields :: "bit_reader \<Rightarrow> int \<Rightarrow> d1_almanac" where
  "d1_alm_fields r pnum =
     (let semi = Pi
      in \<lparr>d1a_SVID = 0, d1a_Pnum = pnum, d1a_Expanded = False, d1a_AmID = 0,
          d1a_Toa = fl (getu r 149 8) * 2 ^ 12,
          d1a_SqrtA = fl (getu r 46 24) / 2 ^ 11,
          d1a_Ecc = fl (getu r 116 17) / 2 ^ 21,
          d1a_DeltaI = real_of_int (gets r 133 16) / 2 ^ 19 * semi,
          d1a_Omega0 = real_of_int (gets r 92 24) / 2 ^ 23 * semi,
          d1a_OmegaDot = real_of_int (gets r 157 17) / 2 ^ 38 * semi,
          d1a_Omega = real_of_int (gets r 174 24) / 2 ^ 23 * semi,
          d1a_M0 = real_of_int (gets r 198 24) / 2 ^ 23 * semi,
          d1a_A0 = real_of_int (gets r 81 11) / 2 ^ 20,
          d1a_A1 = real_of_int (gets r 70 11) / 2 ^ 38\<rparr>)"

definition d1_keep :: "d1_almanac \<Rightarrow> d1_subframe \<Rightarrow> d1_subframe" where
  "d1_keep a sf = (if validBeiDouAlmanacAxis (d1a_SVID a) (d1a_SqrtA a) then sf\<lparr>d1_Almanac := Some a\<rparr> else sf)"

definition d1_alm_page :: "bit_reader \<Rightarrow> u64 \<Rightarrow> d1_subframe \<Rightarrow> frame_error + d1_subframe" where
  "d1_alm_page r fra sf0 =
     (let sf = sf0\<lparr>d1_Pnum := go_int (getu r 39 7)\<rparr>;
          pnum = d1_Pnum sf
      in if fra = 5 \<and> pnum = 8 then
           (let sf1 = sf\<lparr>d1_AlmanacWN := go_int (getu r 145 8), d1_AlmanacToa := fl (getu r 153 8) * 2 ^ 12\<rparr>
            in if d1_AlmanacToa sf1 > 602112 then Inl ErrBadEpoch else Inr (sf1\<lparr>d1_HasAlmanacRef := True\<rparr>))
         else
          (let basic = ((fra = 4 \<and> pnum \<ge> 1 \<and> pnum \<le> 24) \<or> (fra = 5 \<and> pnum \<ge> 1 \<and> pnum \<le> 6));
               expanded = (fra = 5 \<and> pnum \<ge> 11 \<and> pnum \<le> 23);
               a = d1_alm_fields r pnum
           in if \<not> basic \<and> \<not> expanded then Inr sf
              else if basic then
                (let sf1 = sf\<lparr>d1_AmEpID := go_int (getu r 222 2), d1_HasAmEpID := True\<rparr>;
                     a1 = a\<lparr>d1a_SVID := pnum\<rparr>;
                     a2 = (if fra = 5 then a1\<lparr>d1a_SVID := d1a_SVID a1 + 24\<rparr> else a1)
                 in if d1a_Toa a2 > 602112 then Inl ErrBadEpoch else Inr (d1_keep a2 sf1))
              else Inr (d1_keep (a\<lparr>d1a_Expanded := True, d1a_AmID := go_int (getu r 222 2)\<rparr>) sf)))"

definition d1_switch :: "bit_reader \<Rightarrow> u64 \<Rightarrow> d1_subframe \<Rightarrow> frame_error + d1_subframe" where
  "d1_switch r fra sf =
     (if fra = 1 then d1_sf1 r sf
      else if fra = 2 then d1_sf2 r sf
      else if fra = 3 then d1_sf3 r sf
      else if fra = 4 \<or> fra = 5 then d1_alm_page r fra sf
      else Inl ErrBadFraID)"

definition DecodeBeiDouD1 :: "u32 list \<Rightarrow> frame_error + d1_subframe" where
  "DecodeBeiDouD1 words =
     (if length words < 10 then Inl ErrShortFrame
      else if \<not> beidouBCHValid words then Inl ErrBadBCH
      else
       (let r = NewBitReaderN (beidouInfo words) 224;
            fra = getu r 15 3
        in d1_switch r fra (d1_0\<lparr>d1_FraID := go_int fra, d1_SOW := go_int (push_bit 12 (getu r 18 8) OR getu r 26 12)\<rparr>)))"

definition AssembleBeiDou ::
  "int \<Rightarrow> d1_subframe option \<Rightarrow> d1_subframe option \<Rightarrow> d1_subframe option \<Rightarrow> frame_error + ephemeris \<times> clock_model" where
  "AssembleBeiDou svid osf1 osf2 osf3 =
     (case (osf1, osf2, osf3) of
        (Some sf1, Some sf2, Some sf3) \<Rightarrow>
          if d1_FraID sf1 \<noteq> 1 \<or> d1_FraID sf2 \<noteq> 2 \<or> d1_FraID sf3 \<noteq> 3 then Inl ErrWrongMsgType
          else
            (case (sowDelta (d1_SOW sf2) (d1_SOW sf1), sowDelta (d1_SOW sf3) (d1_SOW sf2)) of
               ((d21, ok21), (d32, ok32)) \<Rightarrow>
                 if \<not> ok21 \<or> \<not> ok32 \<or> d21 \<noteq> 6 \<or> d32 \<noteq> 6 then Inl ErrBeiDouSOWGap
                 else
                  (let e = d1_eph sf3;
                       eph = (d1_eph sf2)\<lparr>eph_I0 := eph_I0 e, eph_Cic := eph_Cic e, eph_OmegaDot := eph_OmegaDot e,
                         eph_Cis := eph_Cis e, eph_Omega0 := eph_Omega0 e, eph_Omega := eph_Omega e, eph_IDot := eph_IDot e,
                         eph_Toe := real_of_int (push_bit 15 (d1_toeMSB sf2) OR d1_toeLSB sf3) * bdsT0\<rparr>
                   in if eph_Toe eph \<ge> weekSeconds then Inl ErrBadEpoch
                      else Inr (eph\<lparr>eph_ID := BeiDou, eph_SVID := svid\<rparr>,
                             \<lparr>clk_ID = BeiDou, clk_Af0 = d1_Af0 sf1, clk_Af1 = d1_Af1 sf1, clk_Af2 = d1_Af2 sf1,
                              clk_Toc = d1_Toc sf1, clk_TGD = d1_TGD1 sf1\<rparr>)))
      | _ \<Rightarrow> Inl ErrShortFrame)"

section \<open>The interface document's layout\<close>

lemma push_or_nat:
  assumes "b < 2 ^ k"
  shows "push_bit k a OR b = a * 2 ^ k + (b :: nat)"
proof -
  have "\<not> bit b m" if "k \<le> m" for m
    using assms that by (metis bit_take_bit_iff not_less take_bit_nat_eq_self_iff)
  then have "push_bit k a AND b = 0"
    by (auto simp: bit_eq_iff bit_and_iff bit_push_bit_iff)
  then have "push_bit k a OR b = push_bit k a + b"
    by (simp add: disjunctive_add_eq_or)
  then show ?thesis by (simp add: push_bit_nat_def mult.commute)
qed

lemma push_or_u64: "b < 2 ^ k \<Longrightarrow> push_bit k (of_nat a) OR of_nat b = (of_nat (a * 2 ^ k + b) :: u64)"
  by (simp only: push_or_nat [symmetric] of_nat_or_eq push_bit_of_nat)

lemma push_or_int: "b < 2 ^ k \<Longrightarrow> push_bit k (int a) OR int b = int (a * 2 ^ k + b)"
  by (simp only: push_or_nat [symmetric] of_nat_or_eq push_bit_of_nat)

record raw_d1 =
  dh_pre :: nat
  dh_sow :: nat

record raw_d11 = raw_d1 +
  d11_health :: nat
  d11_aodc :: nat
  d11_urai :: nat
  d11_wn :: nat
  d11_toc :: nat
  d11_tgd1 :: int
  d11_tgd2 :: int
  d11_a0 :: int
  d11_a1 :: int
  d11_a2 :: int
  d11_a3 :: int
  d11_b0 :: int
  d11_b1 :: int
  d11_b2 :: int
  d11_b3 :: int
  d11_af2 :: int
  d11_af0 :: int
  d11_af1 :: int
  d11_aode :: nat

record raw_d12 = raw_d1 +
  d12_dn :: int
  d12_cuc :: int
  d12_m0 :: int
  d12_ecc :: nat
  d12_cus :: int
  d12_crc :: int
  d12_crs :: int
  d12_sqrtA :: nat

record raw_d13 = raw_d1 +
  d13_i0 :: int
  d13_cic :: int
  d13_omgDot :: int
  d13_cis :: int
  d13_idot :: int
  d13_omg0 :: int
  d13_omega :: int

definition dh_bits :: "nat \<Rightarrow> 'a raw_d1_scheme \<Rightarrow> bool list" where
  "dh_bits fra f = ubits_enc 15 (dh_pre f) @ ubits_enc 3 fra @ ubits_enc 8 (dh_sow f div 4096) @ ubits_enc 12 (dh_sow f mod 4096)"

definition d11_bits :: "raw_d11 \<Rightarrow> bool list" where
  "d11_bits f = dh_bits 1 f @ ubits_enc 1 (d11_health f) @ ubits_enc 5 (d11_aodc f) @ ubits_enc 4 (d11_urai f) @ ubits_enc 13 (d11_wn f) @
     ubits_enc 17 (d11_toc f) @ sbits_enc 10 (d11_tgd1 f) @ sbits_enc 10 (d11_tgd2 f) @ sbits_enc 8 (d11_a0 f) @ sbits_enc 8 (d11_a1 f) @
     sbits_enc 8 (d11_a2 f) @ sbits_enc 8 (d11_a3 f) @ sbits_enc 8 (d11_b0 f) @ sbits_enc 8 (d11_b1 f) @ sbits_enc 8 (d11_b2 f) @
     sbits_enc 8 (d11_b3 f) @ sbits_enc 11 (d11_af2 f) @ sbits_enc 24 (d11_af0 f) @ sbits_enc 22 (d11_af1 f) @ ubits_enc 5 (d11_aode f)"

text \<open>The 17-bit \<open>toe\<close> is split over subframes 2 and 3.\<close>

definition d12_bits :: "nat \<Rightarrow> raw_d12 \<Rightarrow> bool list" where
  "d12_bits toe f = dh_bits 2 f @ sbits_enc 16 (d12_dn f) @ sbits_enc 18 (d12_cuc f) @ sbits_enc 32 (d12_m0 f) @ ubits_enc 32 (d12_ecc f) @
     sbits_enc 18 (d12_cus f) @ sbits_enc 18 (d12_crc f) @ sbits_enc 18 (d12_crs f) @ ubits_enc 32 (d12_sqrtA f) @
     ubits_enc 2 (toe div 32768)"

definition d13_bits :: "nat \<Rightarrow> nat \<Rightarrow> raw_d13 \<Rightarrow> bool list" where
  "d13_bits toe rsv f = dh_bits 3 f @ ubits_enc 15 (toe mod 32768) @ sbits_enc 32 (d13_i0 f) @ sbits_enc 18 (d13_cic f) @
     sbits_enc 24 (d13_omgDot f) @ sbits_enc 18 (d13_cis f) @ sbits_enc 14 (d13_idot f) @ sbits_enc 32 (d13_omg0 f) @
     sbits_enc 32 (d13_omega f) @ ubits_enc 1 rsv"

definition wf_dh :: "'a raw_d1_scheme \<Rightarrow> bool" where
  "wf_dh f \<longleftrightarrow> ufits 20 (dh_sow f)"

definition wf_d11 :: "raw_d11 \<Rightarrow> bool" where
  "wf_d11 f \<longleftrightarrow> wf_dh f \<and> ufits 1 (d11_health f) \<and> ufits 5 (d11_aodc f) \<and> ufits 4 (d11_urai f) \<and> ufits 13 (d11_wn f) \<and>
     d11_toc f < 75600 \<and> sfits 10 (d11_tgd1 f) \<and> sfits 10 (d11_tgd2 f) \<and> sfits 8 (d11_a0 f) \<and> sfits 8 (d11_a1 f) \<and>
     sfits 8 (d11_a2 f) \<and> sfits 8 (d11_a3 f) \<and> sfits 8 (d11_b0 f) \<and> sfits 8 (d11_b1 f) \<and> sfits 8 (d11_b2 f) \<and> sfits 8 (d11_b3 f) \<and>
     sfits 11 (d11_af2 f) \<and> sfits 24 (d11_af0 f) \<and> sfits 22 (d11_af1 f) \<and> ufits 5 (d11_aode f)"

definition wf_d12 :: "raw_d12 \<Rightarrow> bool" where
  "wf_d12 f \<longleftrightarrow> wf_dh f \<and> sfits 16 (d12_dn f) \<and> sfits 18 (d12_cuc f) \<and> sfits 32 (d12_m0 f) \<and> ufits 32 (d12_ecc f) \<and>
     sfits 18 (d12_cus f) \<and> sfits 18 (d12_crc f) \<and> sfits 18 (d12_crs f) \<and> ufits 32 (d12_sqrtA f)"

definition wf_d13 :: "raw_d13 \<Rightarrow> bool" where
  "wf_d13 f \<longleftrightarrow> wf_dh f \<and> sfits 32 (d13_i0 f) \<and> sfits 18 (d13_cic f) \<and> sfits 24 (d13_omgDot f) \<and> sfits 18 (d13_cis f) \<and>
     sfits 14 (d13_idot f) \<and> sfits 32 (d13_omg0 f) \<and> sfits 32 (d13_omega f)"

lemmas d1_wf = wf_dh_def wf_d11_def wf_d12_def wf_d13_def fits_defs
lemmas d1_layout = dh_bits_def d11_bits_def d12_bits_def d13_bits_def

lemma length_d1_bits [simp]:
  "length (dh_bits fra h) = 38" "length (d11_bits a) = 224" "length (d12_bits toe b) = 224" "length (d13_bits toe rsv c) = 224"
  by (simp_all add: d1_layout)

definition head_d1 :: "nat \<Rightarrow> 'a raw_d1_scheme \<Rightarrow> d1_subframe" where
  "head_d1 fra f = d1_0\<lparr>d1_FraID := int fra, d1_SOW := int (dh_sow f)\<rparr>"

lemma decode_d1:
  assumes "msg = dh_bits fra f @ rest" "length msg = 224" "wf_dh f" "fra < 8"
  shows "DecodeBeiDouD1 (d1_words msg) = d1_switch (d1_reader msg) (of_nat fra) (head_d1 fra f)"
proof -
  have R: "reads (d1_reader msg) (dh_bits fra f @ rest)"
    using d1_reads [OF assms(2)] assms(1) by simp
  have l: "length rest = 186" using arg_cong [OF assms(1), of length] assms(2) by simp
  have s: "dh_sow f div 4096 < 256" "dh_sow f mod 4096 < 2 ^ 12"
    using assms(3) by (simp_all add: wf_dh_def ufits_def less_mult_imp_div_less)
  have "push_bit 12 (of_nat (dh_sow f div 4096)) OR (of_nat (dh_sow f mod 4096) :: u64) = of_nat (dh_sow f)"
    using push_or_u64 [OF s(2), of "dh_sow f div 4096"] by simp
  then show ?thesis
    using assms(3,4) l s
    by (simp add: DecodeBeiDouD1_def beidouBCHValid_words Let_def d1_reader_def [symmetric] reads_getu [OF R])
       (simp add: dh_bits_def slice_simps wf_dh_def fits_defs read_values head_d1_def)
qed

section \<open>The scaled values of the fields\<close>

definition d11_value :: "raw_d11 \<Rightarrow> d1_subframe" where
  "d11_value f = (head_d1 1 f)\<lparr>d1_Health := int (d11_health f), d1_AODC := int (d11_aodc f), d1_URAI := int (d11_urai f),
     d1_WN := int (d11_wn f), d1_Toc := real (d11_toc f) * 8,
     d1_TGD1 := real_of_int (d11_tgd1 f) / 10 ^ 10, d1_TGD2 := real_of_int (d11_tgd2 f) / 10 ^ 10,
     d1_Alpha := [real_of_int (d11_a0 f) / 2 ^ 30, real_of_int (d11_a1 f) / 2 ^ 27, real_of_int (d11_a2 f) / 2 ^ 24, real_of_int (d11_a3 f) / 2 ^ 24],
     d1_Beta := [real_of_int (d11_b0 f) * 2 ^ 11, real_of_int (d11_b1 f) * 2 ^ 14, real_of_int (d11_b2 f) * 2 ^ 16, real_of_int (d11_b3 f) * 2 ^ 16],
     d1_Af2 := real_of_int (d11_af2 f) / 2 ^ 66, d1_Af0 := real_of_int (d11_af0 f) / 2 ^ 33, d1_Af1 := real_of_int (d11_af1 f) / 2 ^ 50,
     d1_AODE := int (d11_aode f)\<rparr>"

definition d12_value :: "nat \<Rightarrow> raw_d12 \<Rightarrow> d1_subframe" where
  "d12_value toe f = (head_d1 2 f)\<lparr>d1_eph := eph0\<lparr>eph_DeltaN := real_of_int (d12_dn f) / 2 ^ 43 * Pi,
       eph_Cuc := real_of_int (d12_cuc f) / 2 ^ 31, eph_M0 := real_of_int (d12_m0 f) / 2 ^ 31 * Pi, eph_Ecc := real (d12_ecc f) / 2 ^ 33,
       eph_Cus := real_of_int (d12_cus f) / 2 ^ 31, eph_Crc := real_of_int (d12_crc f) / 2 ^ 6, eph_Crs := real_of_int (d12_crs f) / 2 ^ 6,
       eph_SqrtA := real (d12_sqrtA f) / 2 ^ 19\<rparr>,
     d1_toeMSB := int (toe div 32768)\<rparr>"

definition d13_value :: "nat \<Rightarrow> raw_d13 \<Rightarrow> d1_subframe" where
  "d13_value toe f = (head_d1 3 f)\<lparr>d1_toeLSB := int (toe mod 32768),
     d1_eph := eph0\<lparr>eph_I0 := real_of_int (d13_i0 f) / 2 ^ 31 * Pi, eph_Cic := real_of_int (d13_cic f) / 2 ^ 31,
       eph_OmegaDot := real_of_int (d13_omgDot f) / 2 ^ 43 * Pi, eph_Cis := real_of_int (d13_cis f) / 2 ^ 31,
       eph_IDot := real_of_int (d13_idot f) / 2 ^ 43 * Pi, eph_Omega0 := real_of_int (d13_omg0 f) / 2 ^ 31 * Pi,
       eph_Omega := real_of_int (d13_omega f) / 2 ^ 31 * Pi\<rparr>\<rparr>"

lemmas d1_value = d11_value_def d12_value_def d13_value_def head_d1_def d1_0_def

lemma read_d11:
  assumes R: "reads r (d11_bits f)" and "wf_d11 f"
  shows "d1_sf1 r (head_d1 1 f) = Inr (d11_value f)"
  using assms(2)
  by (simp add: d1_sf1_def Let_def reads_getu [OF R] reads_gets [OF R] d1_layout slice_simps d1_wf read_values d1_value bdsT0_def scale_defs)

lemma read_d12:
  assumes R: "reads r (d12_bits toe f)" and "wf_d12 f" "toe < 131072"
  shows "d1_sf2 r (head_d1 2 f) = Inr (d12_value toe f)"
proof -
  have "toe div 32768 < 4" using assms(3) by (simp add: less_mult_imp_div_less)
  with assms(2) show ?thesis
    by (simp add: d1_sf2_def Let_def reads_getu [OF R] reads_gets [OF R] d1_layout slice_simps d1_wf read_values d1_value scale_defs)
qed

lemma read_d13:
  assumes R: "reads r (d13_bits toe rsv f)" and "wf_d13 f"
  shows "d1_sf3 r (head_d1 3 f) = Inr (d13_value toe f)"
  using assms(2)
  by (simp add: d1_sf3_def Let_def reads_getu [OF R] reads_gets [OF R] d1_layout slice_simps d1_wf read_values d1_value scale_defs)

lemma decode_d11: "wf_d11 f \<Longrightarrow> DecodeBeiDouD1 (d1_words (d11_bits f)) = Inr (d11_value f)"
  using read_d11 [OF d1_reads [of "d11_bits f", simplified]]
  by (subst decode_d1 [OF d11_bits_def]) (simp_all add: wf_d11_def d1_switch_def)

lemma decode_d12: "wf_d12 f \<Longrightarrow> toe < 131072 \<Longrightarrow> DecodeBeiDouD1 (d1_words (d12_bits toe f)) = Inr (d12_value toe f)"
  using read_d12 [OF d1_reads [of "d12_bits toe f", simplified]]
  by (subst decode_d1 [OF d12_bits_def]) (simp_all add: wf_d12_def d1_switch_def)

lemma decode_d13: "wf_d13 f \<Longrightarrow> DecodeBeiDouD1 (d1_words (d13_bits toe rsv f)) = Inr (d13_value toe f)"
  using read_d13 [OF d1_reads [of "d13_bits toe rsv f", simplified]]
  by (subst decode_d1 [OF d13_bits_def]) (simp_all add: wf_d13_def d1_switch_def)

definition decode_assemble_d1 :: "int \<Rightarrow> u32 list \<Rightarrow> u32 list \<Rightarrow> u32 list \<Rightarrow> frame_error + ephemeris \<times> clock_model" where
  "decode_assemble_d1 svid w1 w2 w3 =
     (case (DecodeBeiDouD1 w1, DecodeBeiDouD1 w2, DecodeBeiDouD1 w3) of
        (Inr a, Inr b, Inr c) \<Rightarrow> AssembleBeiDou svid (Some a) (Some b) (Some c)
      | (Inl e, _, _) \<Rightarrow> Inl e | (_, Inl e, _) \<Rightarrow> Inl e | (_, _, Inl e) \<Rightarrow> Inl e)"

definition d1_ephemeris :: "int \<Rightarrow> nat \<Rightarrow> raw_d12 \<Rightarrow> raw_d13 \<Rightarrow> ephemeris" where
  "d1_ephemeris svid toe g h = eph0\<lparr>eph_ID := BeiDou, eph_SVID := svid, eph_Toe := real toe * 8,
     eph_DeltaN := real_of_int (d12_dn g) / 2 ^ 43 * Pi, eph_Cuc := real_of_int (d12_cuc g) / 2 ^ 31,
     eph_M0 := real_of_int (d12_m0 g) / 2 ^ 31 * Pi, eph_Ecc := real (d12_ecc g) / 2 ^ 33,
     eph_Cus := real_of_int (d12_cus g) / 2 ^ 31, eph_Crc := real_of_int (d12_crc g) / 2 ^ 6, eph_Crs := real_of_int (d12_crs g) / 2 ^ 6,
     eph_SqrtA := real (d12_sqrtA g) / 2 ^ 19,
     eph_I0 := real_of_int (d13_i0 h) / 2 ^ 31 * Pi, eph_Cic := real_of_int (d13_cic h) / 2 ^ 31,
     eph_OmegaDot := real_of_int (d13_omgDot h) / 2 ^ 43 * Pi, eph_Cis := real_of_int (d13_cis h) / 2 ^ 31,
     eph_IDot := real_of_int (d13_idot h) / 2 ^ 43 * Pi, eph_Omega0 := real_of_int (d13_omg0 h) / 2 ^ 31 * Pi,
     eph_Omega := real_of_int (d13_omega h) / 2 ^ 31 * Pi\<rparr>"

definition d1_clock :: "raw_d11 \<Rightarrow> clock_model" where
  "d1_clock f = \<lparr>clk_ID = BeiDou, clk_Af0 = real_of_int (d11_af0 f) / 2 ^ 33, clk_Af1 = real_of_int (d11_af1 f) / 2 ^ 50,
     clk_Af2 = real_of_int (d11_af2 f) / 2 ^ 66, clk_Toc = real (d11_toc f) * 8, clk_TGD = real_of_int (d11_tgd1 f) / 10 ^ 10\<rparr>"

lemma assemble_d1:
  "AssembleBeiDou svid (Some (d11_value f)) (Some (d12_value toe g)) (Some (d13_value toe h)) =
    (if \<not> (sow_after 6 (int (dh_sow g)) (int (dh_sow f)) \<and> sow_after 6 (int (dh_sow h)) (int (dh_sow g))) then Inl ErrBeiDouSOWGap
     else if toe \<ge> 75600 then Inl ErrBadEpoch
     else Inr (d1_ephemeris svid toe g h, d1_clock f))"
proof -
  obtain d1 ok1 where 1: "sowDelta (int (dh_sow g)) (int (dh_sow f)) = (d1, ok1)" by fastforce
  obtain d2 ok2 where 2: "sowDelta (int (dh_sow h)) (int (dh_sow g)) = (d2, ok2)" by fastforce
  have near: "(\<not> ok1 \<or> \<not> ok2 \<or> d1 \<noteq> 6 \<or> d2 \<noteq> 6) =
      (\<not> (sow_after 6 (int (dh_sow g)) (int (dh_sow f)) \<and> sow_after 6 (int (dh_sow h)) (int (dh_sow g))))"
    using sowDelta_after [of 6 "int (dh_sow g)" "int (dh_sow f)"] sowDelta_after [of 6 "int (dh_sow h)" "int (dh_sow g)"] 1 2 by auto
  have toe: "push_bit 15 (int (toe div 32768)) OR int (toe mod 32768) = int toe"
    using push_or_int [of "toe mod 32768" 15 "toe div 32768"] by simp
  have v: "d1_FraID (d11_value f) = 1" "d1_FraID (d12_value toe g) = 2" "d1_FraID (d13_value toe h) = 3"
    "d1_SOW (d11_value f) = int (dh_sow f)" "d1_SOW (d12_value toe g) = int (dh_sow g)" "d1_SOW (d13_value toe h) = int (dh_sow h)"
    "d1_toeMSB (d12_value toe g) = int (toe div 32768)" "d1_toeLSB (d13_value toe h) = int (toe mod 32768)"
    by (simp_all add: d1_value)
  have w: "real toe * 8 \<ge> 604800 \<longleftrightarrow> toe \<ge> 75600" by linarith
  show ?thesis
    unfolding AssembleBeiDou_def option.case prod.case v 1 2 near toe Let_def
    by (simp add: d1_value d1_ephemeris_def d1_clock_def eph0_def bdsT0_def weekSeconds_def w)
qed

definition ex_d11 :: raw_d11 where
  "ex_d11 = \<lparr>dh_pre = 0x7120, dh_sow = 604794, d11_health = 0, d11_aodc = 1, d11_urai = 2, d11_wn = 1023, d11_toc = 75150,
     d11_tgd1 = - 50, d11_tgd2 = 17, d11_a0 = 10, d11_a1 = - 3, d11_a2 = 4, d11_a3 = - 5, d11_b0 = 60, d11_b1 = - 7, d11_b2 = 8,
     d11_b3 = - 9, d11_af2 = 0, d11_af0 = - 1234567, d11_af1 = 321, d11_aode = 1\<rparr>"

definition ex_d12 :: raw_d12 where
  "ex_d12 = \<lparr>dh_pre = 0x7120, dh_sow = 0, d12_dn = 8123, d12_cuc = - 321, d12_m0 = - 1234567890, d12_ecc = 1234567, d12_cus = 4567,
     d12_crc = 16543, d12_crs = - 222, d12_sqrtA = 2769752777\<rparr>"

definition ex_d13 :: raw_d13 where
  "ex_d13 = \<lparr>dh_pre = 0x7120, dh_sow = 6, d13_i0 = 668123456, d13_cic = - 9, d13_omgDot = - 15432, d13_cis = 14, d13_idot = - 88,
     d13_omg0 = 987654321, d13_omega = - 45678901\<rparr>"

lemma wf_ex_d1: "wf_d11 ex_d11" "wf_d12 ex_d12" "wf_d13 ex_d13"
  by (simp_all add: d1_wf ex_d11_def ex_d12_def ex_d13_def)

section \<open>Properties\<close>

text \<open>C6: Round trip through the whole D1 path: subframes 1 to 3 laid out and block-coded as the B1I interface
  document prescribes decode and assemble to the scaled values of their fields, the time of ephemeris
  joined from its two halves. The set is refused unless the three subframes are exactly six seconds
  apart on the circular week, which keeps the frame that straddles the rollover, and when the joined
  time of ephemeris lies outside the week.\<close>

theorem D1_roundtrip:
  assumes "wf_d11 f" "wf_d12 g" "wf_d13 h" "toe < 131072"
  shows "decode_assemble_d1 svid (d1_words (d11_bits f)) (d1_words (d12_bits toe g)) (d1_words (d13_bits toe rsv h)) =
    (if \<not> (sow_after 6 (int (dh_sow g)) (int (dh_sow f)) \<and> sow_after 6 (int (dh_sow h)) (int (dh_sow g))) then Inl ErrBeiDouSOWGap
     else if toe \<ge> 75600 then Inl ErrBadEpoch
     else Inr (d1_ephemeris svid toe g h, d1_clock f))"
  by (simp only: decode_assemble_d1_def decode_d11 [OF assms(1)] decode_d12 [OF assms(2,4)] decode_d13 [OF assms(3)]
      prod.case sum.case assemble_d1)

theorem D1_roundtrip_witness:
  "decode_assemble_d1 21 (d1_words (d11_bits ex_d11)) (d1_words (d12_bits 75150 ex_d12)) (d1_words (d13_bits 75150 1 ex_d13)) =
    Inr (d1_ephemeris 21 75150 ex_d12 ex_d13, d1_clock ex_d11)"
  by (subst D1_roundtrip [OF wf_ex_d1]) (simp_all add: ex_d11_def ex_d12_def ex_d13_def sow_after_def)

text \<open>The almanac pages: what an exposed almanac guarantees its consumer.\<close>

definition d1_alm_ok :: "d1_almanac \<Rightarrow> bool" where
  "d1_alm_ok a \<longleftrightarrow> validBeiDouAlmanacAxis (d1a_SVID a) (d1a_SqrtA a) \<and>
     (if d1a_Expanded a then d1a_SVID a = 0 \<and> 11 \<le> d1a_Pnum a \<and> d1a_Pnum a \<le> 23
      else 1 \<le> d1a_SVID a \<and> d1a_SVID a \<le> 30 \<and> d1a_Toa a \<le> 602112)"

lemma d1_keep_alm:
  "d1_Almanac sf = None \<Longrightarrow> d1_Almanac (d1_keep a sf) = Some b \<Longrightarrow> b = a \<and> validBeiDouAlmanacAxis (d1a_SVID a) (d1a_SqrtA a)"
  by (simp add: d1_keep_def split: if_splits)

lemma d1_alm_page_ok:
  assumes page: "d1_alm_page r fra sf0 = Inr sf" and none: "d1_Almanac sf0 = None" and some: "d1_Almanac sf = Some a"
  shows "d1_alm_ok a"
proof -
  define pnum where "pnum = go_int (getu r 39 7)"
  define basic where "basic \<longleftrightarrow> (fra = 4 \<and> pnum \<ge> 1 \<and> pnum \<le> 24) \<or> (fra = 5 \<and> pnum \<ge> 1 \<and> pnum \<le> 6)"
  define expanded where "expanded \<longleftrightarrow> fra = 5 \<and> pnum \<ge> 11 \<and> pnum \<le> 23"
  let ?f = "d1_alm_fields r pnum"
  let ?b = "?f\<lparr>d1a_SVID := (if fra = 5 then pnum + 24 else pnum)\<rparr>"
  let ?x = "?f\<lparr>d1a_Expanded := True, d1a_AmID := go_int (getu r 222 2)\<rparr>"
  have f: "d1a_SVID ?f = 0" "d1a_Pnum ?f = pnum" "\<not> d1a_Expanded ?f" by (simp_all add: d1_alm_fields_def Let_def)
  note page' = page [unfolded d1_alm_page_def Let_def d1_subframe.simps, folded pnum_def, folded basic_def expanded_def]
  have 1: "\<not> (fra = 5 \<and> pnum = 8)"
  proof
    assume "fra = 5 \<and> pnum = 8"
    with page' none have "d1_Almanac sf = None" by (simp split: if_splits) (hypsubst, simp)
    with some show False by simp
  qed
  have 2: "basic \<or> expanded"
  proof (rule ccontr)
    assume "\<not> (basic \<or> expanded)"
    with page' 1 none have "d1_Almanac sf = None" by (simp add: basic_def expanded_def) (hypsubst, simp)
    with some show False by simp
  qed
  show ?thesis
  proof (cases basic)
    case True
    let ?s = "sf0\<lparr>d1_Pnum := pnum, d1_AmEpID := go_int (getu r 222 2), d1_HasAmEpID := True\<rparr>"
    have k: "d1a_Toa ?f \<le> 602112 \<and> sf = d1_keep ?b ?s"
      using page' 1 True f by (cases "fra = 5") (simp_all add: basic_def split: if_splits)
    then have "a = ?b \<and> validBeiDouAlmanacAxis (d1a_SVID ?b) (d1a_SqrtA ?b)"
      using some none by (intro d1_keep_alm [of ?s]) simp_all
    then show ?thesis using True k f by (auto simp: d1_alm_ok_def basic_def)
  next
    case False
    with 2 have x: "fra = 5" "11 \<le> pnum" "pnum \<le> 23" by (simp_all add: expanded_def)
    then have "sf = d1_keep ?x (sf0\<lparr>d1_Pnum := pnum\<rparr>)"
      using page' f by simp
    then have "a = ?x \<and> validBeiDouAlmanacAxis (d1a_SVID ?x) (d1a_SqrtA ?x)"
      using some none by (intro d1_keep_alm [of "sf0\<lparr>d1_Pnum := pnum\<rparr>"]) simp_all
    then show ?thesis using x f by (simp add: d1_alm_ok_def)
  qed
qed

lemma d1_sf_alm:
  "d1_sf1 r sf0 = Inr sf \<Longrightarrow> d1_Almanac sf = d1_Almanac sf0"
  "d1_sf2 r sf0 = Inr sf \<Longrightarrow> d1_Almanac sf = d1_Almanac sf0"
  "d1_sf3 r sf0 = Inr sf \<Longrightarrow> d1_Almanac sf = d1_Almanac sf0"
  by (auto simp: d1_sf1_def d1_sf2_def d1_sf3_def Let_def split: if_splits)

lemma d1_switch_alm:
  assumes "d1_switch r fra sf0 = Inr sf" "d1_Almanac sf0 = None" "d1_Almanac sf = Some a"
  shows "d1_alm_ok a"
  using assms d1_alm_page_ok [OF _ assms(2,3)] d1_sf_alm [of r sf0 sf]
  by (simp add: d1_switch_def split: if_splits)

lemma DecodeBeiDouD1_alm: "DecodeBeiDouD1 ws = Inr sf \<Longrightarrow> d1_Almanac sf = Some a \<Longrightarrow> d1_alm_ok a"
  unfolding DecodeBeiDouD1_def Let_def by (rule d1_switch_alm [where sf = sf]) (assumption | simp add: d1_0_def split: if_splits)+

lemma ResolveExpanded_number:
  "ResolveExpanded amEpID a =
     (if d1a_Expanded a \<and> amEpID = 3 \<and> d1a_Toa a \<le> 602112 \<and> (d1a_AmID a = 1 \<or> d1a_AmID a = 2 \<or> d1a_AmID a = 3 \<and> d1a_Pnum a \<le> 17)
      then (True, a\<lparr>d1a_SVID := 31 + 13 * (d1a_AmID a - 1) + (d1a_Pnum a - 11)\<rparr>) else (False, a))"
  by (auto simp: ResolveExpanded_def)

text \<open>A basic almanac page.\<close>

record raw_d1a = raw_d1 +
  da_rev :: nat
  da_pnum :: nat
  da_sqrtA :: nat
  da_a1 :: int
  da_a0 :: int
  da_omg0 :: int
  da_ecc :: nat
  da_di :: int
  da_toa :: nat
  da_omgDot :: int
  da_omega :: int
  da_m0 :: int
  da_am :: nat

definition d1a_bits :: "nat \<Rightarrow> raw_d1a \<Rightarrow> bool list" where
  "d1a_bits fra f = dh_bits fra f @ ubits_enc 1 (da_rev f) @ ubits_enc 7 (da_pnum f) @ ubits_enc 24 (da_sqrtA f) @ sbits_enc 11 (da_a1 f) @
     sbits_enc 11 (da_a0 f) @ sbits_enc 24 (da_omg0 f) @ ubits_enc 17 (da_ecc f) @ sbits_enc 16 (da_di f) @ ubits_enc 8 (da_toa f) @
     sbits_enc 17 (da_omgDot f) @ sbits_enc 24 (da_omega f) @ sbits_enc 24 (da_m0 f) @ ubits_enc 2 (da_am f)"

definition wf_d1a :: "raw_d1a \<Rightarrow> bool" where
  "wf_d1a f \<longleftrightarrow> wf_dh f \<and> ufits 7 (da_pnum f) \<and> ufits 24 (da_sqrtA f) \<and> sfits 11 (da_a1 f) \<and> sfits 11 (da_a0 f) \<and>
     sfits 24 (da_omg0 f) \<and> ufits 17 (da_ecc f) \<and> sfits 16 (da_di f) \<and> ufits 8 (da_toa f) \<and> sfits 17 (da_omgDot f) \<and>
     sfits 24 (da_omega f) \<and> sfits 24 (da_m0 f) \<and> ufits 2 (da_am f)"

lemma length_d1a_bits [simp]: "length (d1a_bits fra f) = 224"
  by (simp add: d1a_bits_def dh_bits_def)

definition d1a_value :: "raw_d1a \<Rightarrow> d1_almanac" where
  "d1a_value f = \<lparr>d1a_SVID = 0, d1a_Pnum = int (da_pnum f), d1a_Expanded = False, d1a_AmID = 0, d1a_Toa = real (da_toa f) * 4096,
     d1a_SqrtA = real (da_sqrtA f) / 2 ^ 11, d1a_Ecc = real (da_ecc f) / 2 ^ 21, d1a_DeltaI = real_of_int (da_di f) / 2 ^ 19 * Pi,
     d1a_Omega0 = real_of_int (da_omg0 f) / 2 ^ 23 * Pi, d1a_OmegaDot = real_of_int (da_omgDot f) / 2 ^ 38 * Pi,
     d1a_Omega = real_of_int (da_omega f) / 2 ^ 23 * Pi, d1a_M0 = real_of_int (da_m0 f) / 2 ^ 23 * Pi,
     d1a_A0 = real_of_int (da_a0 f) / 2 ^ 20, d1a_A1 = real_of_int (da_a1 f) / 2 ^ 38\<rparr>"

lemma read_d1a:
  assumes R: "reads r (d1a_bits fra f)" and "wf_d1a f"
  shows "d1_alm_fields r (int (da_pnum f)) = d1a_value f" "go_int (getu r 39 7) = int (da_pnum f)" "go_int (getu r 222 2) = int (da_am f)"
  using assms(2)
  by (simp_all add: d1_alm_fields_def Let_def reads_getu [OF R] reads_gets [OF R] d1a_bits_def dh_bits_def slice_simps wf_d1a_def
      d1_wf read_values d1a_value_def)

definition decode_d1_almanac :: "u32 list \<Rightarrow> frame_error + ephemeris option" where
  "decode_d1_almanac ws =
     (case DecodeBeiDouD1 ws of
        Inl e \<Rightarrow> Inl e
      | Inr sf \<Rightarrow> (case d1_Almanac sf of None \<Rightarrow> Inr None
                  | Some a \<Rightarrow> (case D1Almanac_Ephemeris a of Inl e \<Rightarrow> Inl e | Inr e \<Rightarrow> Inr (Some e))))"

definition d1a_eph :: "int \<Rightarrow> raw_d1a \<Rightarrow> ephemeris" where
  "d1a_eph svid f = eph0\<lparr>eph_ID := BeiDou, eph_SVID := svid, eph_SqrtA := real (da_sqrtA f) / 2 ^ 11, eph_Ecc := real (da_ecc f) / 2 ^ 21,
     eph_M0 := real_of_int (da_m0 f) / 2 ^ 23 * Pi,
     eph_I0 := (if 1 \<le> svid \<and> svid \<le> 5 then 0 else 0.3 * Pi) + real_of_int (da_di f) / 2 ^ 19 * Pi,
     eph_Omega0 := real_of_int (da_omg0 f) / 2 ^ 23 * Pi, eph_OmegaDot := real_of_int (da_omgDot f) / 2 ^ 38 * Pi,
     eph_Omega := real_of_int (da_omega f) / 2 ^ 23 * Pi, eph_Toe := real (da_toa f) * 4096, eph_Almanac := True\<rparr>"

definition basic_svid :: "nat \<Rightarrow> nat \<Rightarrow> nat" where
  "basic_svid fra pnum = (if fra = 5 then pnum + 24 else pnum)"

lemma decode_basic:
  assumes "wf_d1a f" "fra = 4 \<and> 1 \<le> da_pnum f \<and> da_pnum f \<le> 24 \<or> fra = 5 \<and> 1 \<le> da_pnum f \<and> da_pnum f \<le> 6"
  shows "DecodeBeiDouD1 (d1_words (d1a_bits fra f)) =
    (if da_toa f > 147 then Inl ErrBadEpoch
     else Inr (d1_keep ((d1a_value f)\<lparr>d1a_SVID := int (basic_svid fra (da_pnum f))\<rparr>)
       ((head_d1 fra f)\<lparr>d1_Pnum := int (da_pnum f), d1_AmEpID := int (da_am f), d1_HasAmEpID := True\<rparr>)))"
proof -
  note R = d1_reads [of "d1a_bits fra f", simplified]
  have fra: "fra = 4 \<or> fra = 5" using assms(2) by auto
  then have d: "DecodeBeiDouD1 (d1_words (d1a_bits fra f)) = d1_alm_page (d1_reader (d1a_bits fra f)) (of_nat fra) (head_d1 fra f)"
    using assms(1) by (subst decode_d1 [OF d1a_bits_def]) (auto simp: wf_d1a_def d1_switch_def)
  define r where "r = d1_reader (d1a_bits fra f)"
  note F = read_d1a [OF R assms(1), folded r_def]
  show ?thesis
    unfolding d r_def [symmetric] d1_alm_page_def Let_def using assms(2)
    by (elim disjE) (simp_all add: F, simp_all add: d1a_value_def toa_gate basic_svid_def)
qed

text \<open>Round trip of the D1 basic almanac: subframe 4 pages 1 to 24 and subframe 5 pages 1 to 6 decode to the
  Kepler elements of satellites 1 to 24 and 25 to 30, with the nominal inclination of the orbit; a
  reference time past the documented range is refused, and elements off the BeiDou orbital shells
  yield no almanac instead of a wrong one.\<close>

lemma D1_almanac_roundtrip:
  assumes "wf_d1a f" "fra = 4 \<and> 1 \<le> da_pnum f \<and> da_pnum f \<le> 24 \<or> fra = 5 \<and> 1 \<le> da_pnum f \<and> da_pnum f \<le> 6"
  shows "decode_d1_almanac (d1_words (d1a_bits fra f)) =
    (if da_toa f > 147 then Inl ErrBadEpoch
     else if validBeiDouAlmanacAxis (int (basic_svid fra (da_pnum f))) (real (da_sqrtA f) / 2 ^ 11)
          then Inr (Some (d1a_eph (int (basic_svid fra (da_pnum f))) f)) else Inr None)"
proof -
  have r: "1 \<le> basic_svid fra (da_pnum f)" "basic_svid fra (da_pnum f) \<le> 30" using assms(2) by (auto simp: basic_svid_def)
  then have "IsBeiDouGEO BeiDou (int (basic_svid fra (da_pnum f))) \<longleftrightarrow> basic_svid fra (da_pnum f) \<le> 5"
    by (auto simp: IsBeiDouGEO_def)
  then show ?thesis
    using r by (simp add: decode_d1_almanac_def decode_basic [OF assms] d1_keep_def d1a_value_def head_d1_def d1_0_def
        D1Almanac_Ephemeris_def d1a_eph_def)
qed

definition ex_d1a :: raw_d1a where
  "ex_d1a = \<lparr>dh_pre = 0x7120, dh_sow = 600, da_rev = 0, da_pnum = 19, da_sqrtA = 10818000, da_a1 = 3, da_a0 = - 77, da_omg0 = 1234567,
     da_ecc = 555, da_di = - 321, da_toa = 100, da_omgDot = - 765, da_omega = - 234567, da_m0 = 3456789, da_am = 3\<rparr>"

text \<open>Every almanac an accepted D1 subframe exposes lies on an orbital shell and is either a basic one, with
  its satellite 1 to 30 and a reference time in range, or an expanded one without a satellite. Resolving
  an expanded one succeeds exactly under the documented identification and numbers the satellites 31 to
  63 consecutively by page, so no two pages ever share a satellite.\<close>

lemma D1_almanac_identity:
  assumes "DecodeBeiDouD1 ws = Inr sf" "d1_Almanac sf = Some a"
  shows "d1_alm_ok a \<and>
    (let resolvable = (d1a_Expanded a \<and> amEpID = 3 \<and> d1a_Toa a \<le> 602112 \<and>
           (d1a_AmID a = 1 \<or> d1a_AmID a = 2 \<or> d1a_AmID a = 3 \<and> d1a_Pnum a \<le> 17))
     in ResolveExpanded amEpID a =
       (if resolvable then (True, a\<lparr>d1a_SVID := 31 + 13 * (d1a_AmID a - 1) + (d1a_Pnum a - 11)\<rparr>) else (False, a)))"
  using DecodeBeiDouD1_alm [OF assms] by (simp add: ResolveExpanded_number)

end
