(* ===== verification/GlonassHamming.thy ===== *)
theory GlonassHamming
  imports FrameScale ErrorDetection
begin

text \<open>
  \<^verbatim>\<open>gnss/frame/glonass_string.go\<close>: the Hamming check of GLONASS strings and the helper that stamps it. ICD bit
  number \<open>n\<close> of the 85-bit string is bit \<open>85 - n\<close> of the delivered 128-bit block.
\<close>

section \<open>The code\<close>

definition gloHammingRange :: "int \<Rightarrow> int \<Rightarrow> int list" where
  "gloHammingRange lo hi = [lo..hi]"

definition gloHammingSets :: "int list list" where
  "gloHammingSets =
    [[9, 10, 12, 13, 15, 17, 19, 20, 22, 24, 26, 28, 30, 32, 34, 35, 37, 39, 41, 43, 45, 47, 49, 51, 53, 55, 57, 59, 61, 63, 65, 66, 68, 70, 72, 74, 76, 78, 80, 82, 84],
     [9, 11, 12, 14, 15, 18, 19, 21, 22, 25, 26, 29, 30, 33, 34, 36, 37, 40, 41, 44, 45, 48, 49, 52, 53, 56, 57, 60, 61, 64, 65, 67, 68, 71, 72, 75, 76, 79, 80, 83, 84],
     concat [gloHammingRange 10 12, gloHammingRange 16 19, gloHammingRange 23 26, gloHammingRange 31 34, gloHammingRange 38 41,
       gloHammingRange 46 49, gloHammingRange 54 57, gloHammingRange 62 65, gloHammingRange 69 72, gloHammingRange 77 80, [85]],
     concat [gloHammingRange 13 19, gloHammingRange 27 34, gloHammingRange 42 49, gloHammingRange 58 65, gloHammingRange 73 80],
     concat [gloHammingRange 20 34, gloHammingRange 50 65, gloHammingRange 81 85],
     gloHammingRange 35 65,
     gloHammingRange 66 85]"

definition glo_bit :: "bit_reader \<Rightarrow> int \<Rightarrow> u64" where
  "glo_bit r icd = getu r (85 - icd) 1 AND 1"

definition xor_over :: "(int \<Rightarrow> u64) \<Rightarrow> u64 \<Rightarrow> int list \<Rightarrow> u64" where
  "xor_over b c is = foldl (\<lambda>c i. c XOR b i) c is"

definition glonassHammingValid :: "bit_reader \<Rightarrow> bool" where
  "glonassHammingValid r =
     (let acc = foldl (\<lambda>acc j. acc OR (xor_over (glo_bit r) (glo_bit r (int j + 1)) (gloHammingSets ! j) AND 1)) 0 [0..<7];
          csum = xor_over (glo_bit r) 0 [1..85]
      in acc OR (csum AND 1) = 0)"

definition getBit :: "u8 list \<Rightarrow> int \<Rightarrow> u64" where
  "getBit buf icd = (let off = nat (85 - icd) in ucast (drop_bit (7 - off mod 8) (buf ! (off div 8))) AND 1)"

definition setBit :: "u8 list \<Rightarrow> int \<Rightarrow> u64 \<Rightarrow> u8 list" where
  "setBit buf icd v = (let off = nat (85 - icd) in if v AND 1 \<noteq> 0 then or_bit buf off else clear_bit buf off)"

definition stamp_beta :: "u8 list \<times> u64 \<Rightarrow> nat \<Rightarrow> u8 list \<times> u64" where
  "stamp_beta s j = (case s of (buf, betaParity) \<Rightarrow>
     (let p = xor_over (getBit buf) 0 (gloHammingSets ! j) in (setBit buf (int j + 1) p, betaParity XOR p)))"

definition StampGLONASSHamming :: "u32 list \<Rightarrow> u32 list" where
  "StampGLONASSHamming words =
     (if length words < 4 then words
      else
       (case foldl stamp_beta (be_words 4 words, 0) [0..<7] of
          (buf, betaParity) \<Rightarrow>
            (let dataParity = xor_over (getBit buf) 0 [9..85];
                 buf' = setBit buf 8 (betaParity XOR dataParity)
             in be_unwords 4 buf' @ drop 4 words)))"

definition glonassBlock :: "u32 list \<Rightarrow> bit_reader" where
  "glonassBlock words = NewBitReaderN (be_words 4 words) 128"

section \<open>Parities\<close>

text \<open>The parity of the selected bits, and how one flipped bit changes it.\<close>

definition parity_of :: "(int \<Rightarrow> bool) \<Rightarrow> int list \<Rightarrow> bool" where
  "parity_of g is = foldr (\<lambda>i b. g i \<noteq> b) is False"

lemma parity_of_simps [simp]: "parity_of g [] = False" "parity_of g (i # is) \<longleftrightarrow> g i \<noteq> parity_of g is"
  by (simp_all add: parity_of_def)

lemma parity_of_append: "parity_of g (xs @ ys) \<longleftrightarrow> parity_of g xs \<noteq> parity_of g ys"
  by (induction xs) auto

lemma parity_of_cong: "(\<And>i. i \<in> set is \<Longrightarrow> g i = h i) \<Longrightarrow> parity_of g is = parity_of h is"
  by (induction "is") auto

lemma parity_of_flip:
  "distinct is \<Longrightarrow> parity_of (g(k := \<not> g k)) is \<longleftrightarrow> parity_of g is \<noteq> (k \<in> set is)"
  by (induction "is") (auto simp: parity_of_cong [of _ "g(k := \<not> g k)" g])

lemma of_bool_xor: "of_bool a XOR of_bool b = (of_bool (a \<noteq> b) :: u64)"
  by (cases a; cases b) simp_all

lemma xor_over_parity:
  "(\<And>i. i \<in> set is \<Longrightarrow> b i = of_bool (g i)) \<Longrightarrow> xor_over b (of_bool c) is = of_bool (c \<noteq> parity_of g is)"
proof (induction "is" arbitrary: c)
  case Nil
  then show ?case by (simp add: xor_over_def)
next
  case (Cons i "is")
  have "xor_over b (of_bool c) (i # is) = xor_over b (of_bool (c \<noteq> g i)) is"
    using Cons.prems by (simp add: xor_over_def of_bool_xor)
  then show ?case using Cons by auto
qed

section \<open>The check matrix\<close>

definition glo_set :: "nat \<Rightarrow> int list" where
  "glo_set j = (if j < 7 then (int j + 1) # gloHammingSets ! j else if j = 7 then [1..85] else [])"

lemma glo_set_distinct: "list_all (\<lambda>j. distinct (glo_set j) \<and> list_all (\<lambda>i. 1 \<le> i \<and> i \<le> 85) (glo_set j)) [0..<8]"
  by code_simp

lemma gloHammingSets_data: "list_all (\<lambda>j. list_all (\<lambda>i. 9 \<le> i \<and> i \<le> 85) (gloHammingSets ! j)) [0..<7]"
  by code_simp

text \<open>Membership by range, which evaluates fast.\<close>

definition in_ranges :: "int \<Rightarrow> (int \<times> int) list \<Rightarrow> bool" where
  "in_ranges i rs = list_ex (\<lambda>(lo, hi). lo \<le> i \<and> i \<le> hi) rs"

definition glo_column :: "int \<Rightarrow> int" where
  "glo_column i =
     of_bool (i = 1 \<or> i \<in> set (gloHammingSets ! 0)) + 2 * of_bool (i = 2 \<or> i \<in> set (gloHammingSets ! 1)) +
     4 * of_bool (i = 3 \<or> in_ranges i [(85, 85), (10, 12), (16, 19), (23, 26), (31, 34), (38, 41), (46, 49), (54, 57), (62, 65), (69, 72), (77, 80)]) +
     8 * of_bool (i = 4 \<or> in_ranges i [(13, 19), (27, 34), (42, 49), (58, 65), (73, 80)]) +
     16 * of_bool (i = 5 \<or> in_ranges i [(20, 34), (50, 65), (81, 85)]) +
     32 * of_bool (i = 6 \<or> in_ranges i [(35, 65)]) + 64 * of_bool (i = 7 \<or> in_ranges i [(66, 85)])"

lemma glo_columns_distinct: "distinct (map glo_column [1..85])"
  by code_simp

lemma set_gloHammingRange: "set (gloHammingRange lo hi) = {lo..hi}"
  by (simp add: gloHammingRange_def)

lemma glo_column_sets:
  "glo_column i =
     of_bool (i \<in> set (glo_set 0)) + 2 * of_bool (i \<in> set (glo_set 1)) + 4 * of_bool (i \<in> set (glo_set 2)) +
     8 * of_bool (i \<in> set (glo_set 3)) + 16 * of_bool (i \<in> set (glo_set 4)) + 32 * of_bool (i \<in> set (glo_set 5)) +
     64 * of_bool (i \<in> set (glo_set 6))"
proof -
  have e: "85 \<le> i \<and> i \<le> 85 \<longleftrightarrow> i = 85" by auto
  have "i \<in> set (glo_set 2) \<longleftrightarrow> i = 3 \<or> in_ranges i [(85, 85), (10, 12), (16, 19), (23, 26), (31, 34), (38, 41), (46, 49), (54, 57), (62, 65), (69, 72), (77, 80)]"
    "i \<in> set (glo_set 3) \<longleftrightarrow> i = 4 \<or> in_ranges i [(13, 19), (27, 34), (42, 49), (58, 65), (73, 80)]"
    "i \<in> set (glo_set 4) \<longleftrightarrow> i = 5 \<or> in_ranges i [(20, 34), (50, 65), (81, 85)]"
    "i \<in> set (glo_set 5) \<longleftrightarrow> i = 6 \<or> in_ranges i [(35, 65)]"
    "i \<in> set (glo_set 6) \<longleftrightarrow> i = 7 \<or> in_ranges i [(66, 85)]"
    by (simp_all add: glo_set_def gloHammingSets_def set_gloHammingRange in_ranges_def e)
  moreover have "i \<in> set (glo_set 0) \<longleftrightarrow> i = 1 \<or> i \<in> set (gloHammingSets ! 0)"
    "i \<in> set (glo_set 1) \<longleftrightarrow> i = 2 \<or> i \<in> set (gloHammingSets ! 1)"
    by (simp_all add: glo_set_def)
  ultimately show ?thesis unfolding glo_column_def by (simp only:)
qed

definition glo_check :: "(int \<Rightarrow> bool) \<Rightarrow> nat \<Rightarrow> bool" where
  "glo_check g j = parity_of g (glo_set j)"

definition glo_flip_bit :: "nat \<Rightarrow> (int \<Rightarrow> bool) \<Rightarrow> int \<Rightarrow> bool" where
  "glo_flip_bit p g = g(85 - int p := \<not> g (85 - int p))"

definition glo_col :: "nat \<Rightarrow> nat \<Rightarrow> bool" where
  "glo_col p j = (85 - int p \<in> set (glo_set j))"

lemma glo_set_props: "distinct (glo_set j)" "i \<in> set (glo_set j) \<Longrightarrow> 1 \<le> i \<and> i \<le> 85"
proof -
  have "distinct (glo_set j) \<and> (\<forall>i \<in> set (glo_set j). 1 \<le> i \<and> i \<le> 85)"
  proof (cases "j < 8")
    case True
    then show ?thesis using glo_set_distinct by (auto simp: list_all_iff simp del: upt.simps)
  qed (simp add: glo_set_def)
  then show "distinct (glo_set j)" "i \<in> set (glo_set j) \<Longrightarrow> 1 \<le> i \<and> i \<le> 85" by blast+
qed

lemma glo_column_col: "(\<And>j. glo_col p j = glo_col q j) \<Longrightarrow> glo_column (85 - int p) = glo_column (85 - int q)"
  by (simp add: glo_column_sets glo_col_def)

interpretation glo: extended_checks glo_check glo_flip_bit glo_col 85 7
proof
  fix p j :: nat and c assume "p < 85"
  show "glo_check (glo_flip_bit p c) j \<longleftrightarrow> glo_check c j \<noteq> glo_col p j"
    by (simp add: glo_check_def glo_flip_bit_def glo_col_def parity_of_flip glo_set_props)
next
  fix p q :: nat assume p: "p < 85" "q < 85" "p \<noteq> q"
  have inj: "inj_on glo_column (set [1..85])" using glo_columns_distinct by (simp only: distinct_map)
  show "\<exists>j. glo_col p j \<noteq> glo_col q j"
  proof (rule ccontr)
    assume "\<nexists>j. glo_col p j \<noteq> glo_col q j"
    then have "glo_column (85 - int p) = glo_column (85 - int q)" by (intro glo_column_col) blast
    from inj_onD [OF inj this] p show False by auto
  qed
next
  fix p :: nat assume "p < 85"
  then show "glo_col p 7" "\<exists>j. glo_col p j"
    by (auto simp: glo_col_def glo_set_def intro!: exI [of _ 7])
qed

section \<open>The check on a delivered block\<close>

definition icd_bits :: "bool list \<Rightarrow> int \<Rightarrow> bool" where
  "icd_bits B icd = B ! nat (85 - icd)"

lemma bslice_one: "p < length B \<Longrightarrow> bslice p (Suc 0) B = [B ! p]"
  by (simp add: bslice_def take_Suc_conv_app_nth drop_eq_Nil hd_drop_conv_nth take_Suc)

lemma glo_bit_value:
  assumes "reads r B" "85 \<le> length B" "1 \<le> i" "i \<le> 85"
  shows "glo_bit r i = of_bool (icd_bits B i)"
proof -
  have "nat (85 - i) < length B" using assms by auto
  then show ?thesis
    using assms by (cases "B ! nat (85 - i)") (simp_all add: glo_bit_def reads_getu [OF assms(1)] bslice_one icd_bits_def)
qed

lemma or_fold_zero: "foldl (\<lambda>acc j. acc OR f j) (a :: u64) js = 0 \<longleftrightarrow> a = 0 \<and> (\<forall>j \<in> set js. f j = 0)"
proof (induction js arbitrary: a)
  case (Cons j js)
  have "a OR f j = 0 \<longleftrightarrow> a = 0 \<and> f j = 0"
    by (metis or.right_neutral or_eq_0_iff)
  with Cons show ?case by auto
qed simp

lemma glo_check_high: "8 \<le> j \<Longrightarrow> \<not> glo_check g j"
  by (simp add: glo_check_def glo_set_def)

lemma glonassHammingValid_passes:
  assumes "reads r B" "85 \<le> length B"
  shows "glonassHammingValid r \<longleftrightarrow> glo.passes (icd_bits B)"
proof -
  note v = glo_bit_value [OF assms]
  have c: "xor_over (glo_bit r) (glo_bit r (int j + 1)) (gloHammingSets ! j) = of_bool (glo_check (icd_bits B) j)" if j: "j < 7" for j
  proof -
    have "int j + 1 \<in> set (glo_set j)" "\<And>i. i \<in> set (gloHammingSets ! j) \<Longrightarrow> i \<in> set (glo_set j)"
      using j by (simp_all add: glo_set_def)
    then have "glo_bit r (int j + 1) = of_bool (icd_bits B (int j + 1))"
      "\<And>i. i \<in> set (gloHammingSets ! j) \<Longrightarrow> glo_bit r i = of_bool (icd_bits B i)"
      using v glo_set_props(2) by blast+
    then show ?thesis using j xor_over_parity [of "gloHammingSets ! j" "glo_bit r" "icd_bits B"] by (simp add: glo_check_def glo_set_def)
  qed
  have s: "xor_over (glo_bit r) 0 [1..85] = of_bool (glo_check (icd_bits B) 7)"
    using xor_over_parity [of "[1..85]" "glo_bit r" "icd_bits B" False] v by (simp add: glo_check_def glo_set_def)
  have "glonassHammingValid r \<longleftrightarrow> (\<forall>j<7. \<not> glo_check (icd_bits B) j) \<and> \<not> glo_check (icd_bits B) 7"
    unfolding glonassHammingValid_def Let_def or_eq_0_iff or_fold_zero s by (auto simp: c)
  also have "\<dots> \<longleftrightarrow> (\<forall>j<8. \<not> glo_check (icd_bits B) j)"
    using less_Suc_eq [of _ 7] by auto
  also have "\<dots> \<longleftrightarrow> glo.passes (icd_bits B)"
    using glo_check_high unfolding glo.passes_def by (metis not_less)
  finally show ?thesis .
qed

lemma glonassBlock_reads: "4 \<le> length ws \<Longrightarrow> reads (glonassBlock ws) (bits_of (be_words 4 ws))"
  unfolding glonassBlock_def by (rule reads_NewBitReaderN [where rest = "[]"]) simp_all

lemma block_valid: "4 \<le> length ws \<Longrightarrow> glonassHammingValid (glonassBlock ws) \<longleftrightarrow> glo.passes (icd_bits (bits_of (be_words 4 ws)))"
  by (intro glonassHammingValid_passes glonassBlock_reads) simp_all

section \<open>Flipped bits\<close>

definition glo_flip :: "nat \<Rightarrow> u32 list \<Rightarrow> u32 list" where
  "glo_flip p ws = ws[p div 32 := ws ! (p div 32) XOR push_bit (31 - p mod 32) 1]"

lemma nth_concat_const:
  "(\<And>x. x \<in> set xss \<Longrightarrow> length x = k) \<Longrightarrow> 0 < k \<Longrightarrow> p < k * length xss \<Longrightarrow> concat xss ! p = xss ! (p div k) ! (p mod k)"
proof (induction xss arbitrary: p)
  case (Cons x xss)
  then show ?case
    by (cases "p < k") (simp_all add: nth_append le_div_geq le_mod_geq)
qed simp

lemma nth_block:
  assumes "n \<le> length ws" "p < 32 * n"
  shows "bits_of (be_words n ws) ! p = bit (ws ! (p div 32)) (31 - p mod 32)"
proof -
  have "p div 32 < n" using assms by (simp add: less_mult_imp_div_less mult.commute)
  moreover have "bits_of (be_words n ws) ! p = map bits_of_u32 (take n ws) ! (p div 32) ! (p mod 32)"
    unfolding bits_of_be_words using assms by (intro nth_concat_const) (auto simp: bits_of_u32_def)
  ultimately show ?thesis using assms by (simp add: bits_of_u32_def)
qed

lemma same_word_position: "q = p \<or> q div 32 \<noteq> p div 32 \<or> 31 - q mod 32 \<noteq> 31 - p mod (32 :: nat)"
proof (cases "q mod 32 = p mod 32")
  case True
  then show ?thesis by (metis div_mult_mod_eq)
next
  case False
  moreover have "q mod 32 < 32" "p mod 32 < 32" by simp_all
  ultimately have "31 - q mod 32 \<noteq> 31 - p mod 32" by linarith
  then show ?thesis by simp
qed

lemma length_glo_flip [simp]: "length (glo_flip p ws) = length ws"
  by (simp add: glo_flip_def)

lemma flip_block:
  assumes "4 \<le> length ws" "p < 128"
  shows "bits_of (be_words 4 (glo_flip p ws)) = (bits_of (be_words 4 ws))[p := \<not> bits_of (be_words 4 ws) ! p]"
proof (rule nth_equalityI)
  show "length (bits_of (be_words 4 (glo_flip p ws))) = length ((bits_of (be_words 4 ws))[p := \<not> bits_of (be_words 4 ws) ! p])"
    using assms by simp
next
  fix q assume "q < length (bits_of (be_words 4 (glo_flip p ws)))"
  then have q: "q < 128" using assms by simp
  have "p div 32 < length ws" using assms by (simp add: less_mult_imp_div_less)
  moreover have "q = p \<or> q div 32 \<noteq> p div 32 \<or> 31 - q mod 32 \<noteq> 31 - p mod 32"
    by (rule same_word_position)
  ultimately show "bits_of (be_words 4 (glo_flip p ws)) ! q = (bits_of (be_words 4 ws))[p := \<not> bits_of (be_words 4 ws) ! p] ! q"
    using assms q by (auto simp: nth_block glo_flip_def nth_list_update bit_xor_iff bit_push_bit_iff bit_1_iff bit_exp_iff)
qed

lemma icd_flip:
  assumes "4 \<le> length ws" "p < 85" "1 \<le> i" "i \<le> 85"
  shows "icd_bits (bits_of (be_words 4 (glo_flip p ws))) i = glo_flip_bit p (icd_bits (bits_of (be_words 4 ws))) i"
proof -
  have "nat (85 - i) = p \<longleftrightarrow> i = 85 - int p" using assms by auto
  then show ?thesis using assms by (auto simp: icd_bits_def glo_flip_bit_def flip_block nth_list_update)
qed

lemma passes_cong: "(\<And>i. 1 \<le> i \<Longrightarrow> i \<le> 85 \<Longrightarrow> g i = h i) \<Longrightarrow> glo.passes g = glo.passes h"
  unfolding glo.passes_def glo_check_def using glo_set_props(2) by (metis parity_of_cong)

lemma icd_flips:
  assumes "4 \<le> length ws" "set ps \<subseteq> {..<85}" "1 \<le> i" "i \<le> 85"
  shows "icd_bits (bits_of (be_words 4 (foldr glo_flip ps ws))) i = foldr glo_flip_bit ps (icd_bits (bits_of (be_words 4 ws))) i"
  using assms(2)
proof (induction ps arbitrary: )
  case (Cons p ps)
  have l: "4 \<le> length (foldr glo_flip ps ws)" using assms(1) by (induction ps) simp_all
  have "1 \<le> 85 - int p" "85 - int p \<le> 85" using Cons.prems by auto
  show ?case
  proof (cases "i = 85 - int p")
    case True
    then show ?thesis using icd_flip [OF l, of p i] Cons assms(3,4) by (simp add: glo_flip_bit_def)
  next
    case False
    then show ?thesis using icd_flip [OF l, of p i] Cons assms(3,4) by (simp add: glo_flip_bit_def)
  qed
qed simp

lemma length_glo_flips [simp]: "length (foldr glo_flip ps ws) = length ws"
  by (induction ps) simp_all

lemma flips_rejected:
  assumes "4 \<le> length ws" "glonassHammingValid (glonassBlock ws)" "set ps \<subseteq> {..<85}" "distinct ps" "ps \<noteq> []" "length ps \<le> 3"
  shows "\<not> glonassHammingValid (glonassBlock (foldr glo_flip ps ws))"
proof -
  have "glo.passes (icd_bits (bits_of (be_words 4 (foldr glo_flip ps ws)))) =
      glo.passes (foldr glo_flip_bit ps (icd_bits (bits_of (be_words 4 ws))))"
    by (rule passes_cong) (rule icd_flips [OF assms(1,3)])
  moreover have "\<not> glo.passes (foldr glo_flip_bit ps (icd_bits (bits_of (be_words 4 ws))))"
    using assms by (intro glo.upto_three_detected) (simp_all add: block_valid)
  ultimately show ?thesis using assms(1) by (simp add: block_valid)
qed

section \<open>Stamping\<close>

lemma getBit_value:
  assumes "length buf = 16" "1 \<le> icd" "icd \<le> 85"
  shows "getBit buf icd = of_bool (icd_bits (bits_of buf) icd)"
proof -
  define p where "p = nat (85 - icd)"
  have "p < 8 * length buf" using assms by (auto simp: p_def)
  then have "bits_of buf ! p = bit (buf ! (p div 8)) (7 - p mod 8)" by (rule nth_bits_of)
  moreover have "(ucast (drop_bit (7 - p mod 8) (buf ! (p div 8))) :: u64) AND 1 = of_bool (bit (buf ! (p div 8)) (7 - p mod 8))"
    by (rule bit_word_eqI) (auto simp: bit_and_iff bit_ucast_iff bit_drop_bit_eq bit_1_iff bit_of_bool_iff)
  ultimately show ?thesis by (simp add: getBit_def icd_bits_def p_def)
qed

lemma xor_over_getBit:
  assumes "length buf = 16" "\<And>i. i \<in> set is \<Longrightarrow> 1 \<le> i \<and> i \<le> 85"
  shows "xor_over (getBit buf) 0 is = of_bool (parity_of (icd_bits (bits_of buf)) is)"
  using xor_over_parity [of "is" "getBit buf" "icd_bits (bits_of buf)" False] getBit_value [OF assms(1)] assms(2) by simp

lemma setBit_bits:
  assumes "length buf = 16" "1 \<le> icd" "icd \<le> 85"
  shows "bits_of (setBit buf icd (of_bool v)) = (bits_of buf)[nat (85 - icd) := v]" "length (setBit buf icd (of_bool v)) = 16"
proof -
  have "nat (85 - icd) < 8 * length buf" using assms by auto
  then show "bits_of (setBit buf icd (of_bool v)) = (bits_of buf)[nat (85 - icd) := v]"
    by (cases v) (simp_all add: setBit_def Let_def bits_of_or_bit bits_of_clear_bit)
  then show "length (setBit buf icd (of_bool v)) = 16"
    using assms arg_cong [of _ _ length] length_bits_of [of "setBit buf icd (of_bool v)"] length_bits_of [of buf]
    by (metis length_list_update mult_cancel1 zero_neq_numeral)
qed

lemma icd_bits_update:
  assumes "length B = 128" "1 \<le> icd" "icd \<le> 85" "1 \<le> i" "i \<le> 85"
  shows "icd_bits (B[nat (85 - icd) := v]) i = (if i = icd then v else icd_bits B i)"
  using assms by (auto simp: icd_bits_def nth_list_update)

lemma sets_data: "j < 7 \<Longrightarrow> i \<in> set (gloHammingSets ! j) \<Longrightarrow> 9 \<le> i \<and> i \<le> 85"
  using gloHammingSets_data by (simp add: list_all_iff del: upt.simps)

lemma stamp_beta_fold:
  assumes "length buf0 = 16" "k \<le> 7"
  shows "\<exists>buf b. foldl stamp_beta (buf0, 0) [0..<k] = (buf, of_bool b) \<and> length buf = 16 \<and>
    (\<forall>i. 1 \<le> i \<longrightarrow> i \<le> 85 \<longrightarrow> icd_bits (bits_of buf) i =
       (if i \<le> int k then parity_of (icd_bits (bits_of buf0)) (gloHammingSets ! nat (i - 1)) else icd_bits (bits_of buf0) i)) \<and>
    (\<forall>p. p < 77 \<or> 85 \<le> p \<longrightarrow> bits_of buf ! p = bits_of buf0 ! p) \<and>
    b = parity_of (icd_bits (bits_of buf)) [1..int k]"
  using assms(2)
proof (induction k)
  case 0
  show ?case using assms(1) by (intro exI [of _ buf0] exI [of _ False]) auto
next
  case (Suc k)
  then obtain buf b where I: "foldl stamp_beta (buf0, 0) [0..<k] = (buf, of_bool b)" "length buf = 16"
    "\<And>i. 1 \<le> i \<Longrightarrow> i \<le> 85 \<Longrightarrow> icd_bits (bits_of buf) i =
       (if i \<le> int k then parity_of (icd_bits (bits_of buf0)) (gloHammingSets ! nat (i - 1)) else icd_bits (bits_of buf0) i)"
    "\<And>p. p < 77 \<or> 85 \<le> p \<Longrightarrow> bits_of buf ! p = bits_of buf0 ! p"
    "b = parity_of (icd_bits (bits_of buf)) [1..int k]"
    by auto
  have k: "k < 7" using Suc.prems by simp
  let ?S = "gloHammingSets ! k"
  let ?v = "parity_of (icd_bits (bits_of buf0)) ?S"
  let ?buf = "setBit buf (int k + 1) (of_bool ?v)"
  have d: "\<And>i. i \<in> set ?S \<Longrightarrow> 9 \<le> i \<and> i \<le> 85" using sets_data [OF k] .
  have "parity_of (icd_bits (bits_of buf)) ?S = ?v"
    using d k I(3) by (intro parity_of_cong) fastforce
  then have p: "xor_over (getBit buf) 0 ?S = of_bool ?v"
    using xor_over_getBit [OF I(2), of ?S] d by fastforce
  have r: "1 \<le> int k + 1" "int k + 1 \<le> 85" using k by simp_all
  have B: "bits_of ?buf = (bits_of buf)[nat (85 - (int k + 1)) := ?v]" "length ?buf = 16"
    using setBit_bits [OF I(2) r] by blast+
  have l: "length (bits_of buf) = 128" using I(2) by simp
  have n: "icd_bits (bits_of ?buf) i = (if i = int k + 1 then ?v else icd_bits (bits_of buf) i)" if "1 \<le> i" "i \<le> 85" for i
    unfolding B(1) by (rule icd_bits_update [OF l r that])
  have f: "foldl stamp_beta (buf0, 0) [0..<Suc k] = (?buf, of_bool (b \<noteq> ?v))"
    by (simp add: I(1) stamp_beta_def p of_bool_xor)
  have up: "[1..int (Suc k)] = [1..int k] @ [int k + 1]"
    using upto_rec2 [of 1 "int k + 1"] by (simp add: add.commute)
  have "parity_of (icd_bits (bits_of ?buf)) [1..int k] = parity_of (icd_bits (bits_of buf)) [1..int k]"
    using k by (intro parity_of_cong) (auto simp: n)
  then have b: "(b \<noteq> ?v) = parity_of (icd_bits (bits_of ?buf)) [1..int (Suc k)]"
    using n [OF r] I(5) unfolding up parity_of_append by auto
  have g: "icd_bits (bits_of ?buf) i =
       (if i \<le> int (Suc k) then parity_of (icd_bits (bits_of buf0)) (gloHammingSets ! nat (i - 1)) else icd_bits (bits_of buf0) i)"
    if "1 \<le> i" "i \<le> 85" for i
    using n [OF that] I(3) [OF that] by (auto simp: nat_add_distrib)
  have "bits_of ?buf ! q = bits_of buf0 ! q" if "q < 77 \<or> 85 \<le> q" for q
    using that I(4) [OF that] k unfolding B(1) by (subst nth_list_update_neq) auto
  with f B(2) b g show ?case by blast
qed

lemma glo_set_7: "glo_set 7 = [1..85]"
  unfolding glo_set_def by (simp only: less_irrefl if_False simp_thms if_True)

lemma StampGLONASSHamming_bits:
  assumes "4 \<le> length ws"
  defines "B' \<equiv> bits_of (be_words 4 (StampGLONASSHamming ws))"
  shows "glo.passes (icd_bits B')" "bslice 0 77 B' = bslice 0 77 (bits_of (be_words 4 ws))"
    "bslice 85 43 B' = bslice 85 43 (bits_of (be_words 4 ws))" "length B' = 128" "length (StampGLONASSHamming ws) = length ws"
proof -
  let ?buf0 = "be_words 4 ws"
  let ?g = "icd_bits (bits_of ?buf0)"
  have l0: "length ?buf0 = 16" using assms(1) by simp
  obtain buf b where I: "foldl stamp_beta (?buf0, 0) [0..<7] = (buf, of_bool b)" "length buf = 16"
    "\<And>i. 1 \<le> i \<Longrightarrow> i \<le> 85 \<Longrightarrow> icd_bits (bits_of buf) i = (if i \<le> int 7 then parity_of ?g (gloHammingSets ! nat (i - 1)) else ?g i)"
    "\<And>p. p < 77 \<or> 85 \<le> p \<Longrightarrow> bits_of buf ! p = bits_of ?buf0 ! p"
    "b = parity_of (icd_bits (bits_of buf)) [1..int 7]"
    using stamp_beta_fold [OF l0, of 7] by auto
  let ?d = "parity_of (icd_bits (bits_of buf)) [9..85]"
  let ?buf' = "setBit buf 8 (of_bool (b \<noteq> ?d))"
  have d: "xor_over (getBit buf) 0 [9..85] = of_bool ?d"
    by (rule xor_over_getBit [OF I(2)]) (simp only: set_upto atLeastAtMost_iff, simp)
  have S: "StampGLONASSHamming ws = be_unwords 4 ?buf' @ drop 4 ws"
    using assms(1) by (simp only: StampGLONASSHamming_def I(1) prod.case Let_def d of_bool_xor) simp
  have bb: "bits_of ?buf' = (bits_of buf)[77 := (b \<noteq> ?d)]" "length ?buf' = 16"
    using setBit_bits [OF I(2), of 8 "b \<noteq> ?d"] by simp_all
  have B': "B' = (bits_of buf)[77 := (b \<noteq> ?d)]"
    using be_words_be_unwords [of ?buf' 4] bb by (simp add: B'_def S be_words_def)
  have lb: "length (bits_of buf) = 128" using I(2) by simp
  have n: "icd_bits B' i = (if i = 8 then b \<noteq> ?d else icd_bits (bits_of buf) i)" if "1 \<le> i" "i \<le> 85" for i
    using icd_bits_update [OF lb, of 8 i "b \<noteq> ?d"] that by (simp add: B')
  show "length B' = 128" using lb by (simp add: B')
  show "length (StampGLONASSHamming ws) = length ws" using assms(1) by (simp add: S)
  have q: "B' ! p = bits_of ?buf0 ! p" if "p < 77 \<or> 85 \<le> p" for p
    using that I(4) [OF that] by (auto simp: B')
  then show "bslice 0 77 B' = bslice 0 77 (bits_of ?buf0)" "bslice 85 43 B' = bslice 85 43 (bits_of ?buf0)"
    using \<open>length B' = 128\<close> l0 by (auto simp: bslice_def intro!: nth_equalityI)
  have e: "glo_check (icd_bits B') j = False" if j: "j < 7" for j
  proof -
    have "icd_bits B' (int j + 1) = parity_of ?g (gloHammingSets ! j)" using n [of "int j + 1"] I(3) [of "int j + 1"] j by auto
    moreover have "parity_of (icd_bits B') (gloHammingSets ! j) = parity_of ?g (gloHammingSets ! j)"
      using sets_data [OF j] n I(3) by (intro parity_of_cong) fastforce
    ultimately show ?thesis using j by (simp add: glo_check_def glo_set_def)
  qed
  have up: "[1..85] = [1..int 7] @ 8 # [9..85]" by (simp add: upto_split2 [of 1 7 85] upto_rec1 [of 8 85])
  have "parity_of (icd_bits B') [1..int 7] = b" "parity_of (icd_bits B') [9..85] = ?d"
    unfolding I(5) by (rule parity_of_cong, simp only: set_upto atLeastAtMost_iff, simp add: n)+
  moreover have "glo_check (icd_bits B') 7 \<longleftrightarrow> parity_of (icd_bits B') [1..int 7] \<noteq> (icd_bits B' 8 \<noteq> parity_of (icd_bits B') [9..85])"
    unfolding glo_check_def glo_set_7 up parity_of_append parity_of_simps ..
  moreover have "icd_bits B' 8 \<longleftrightarrow> b \<noteq> ?d" using n [of 8] by (simp only: simp_thms if_True)
  ultimately have "glo_check (icd_bits B') 7 = False" by blast
  with e have "\<not> glo_check (icd_bits B') j" for j
    using glo_check_high [of j "icd_bits B'"] by (cases "j < 7"; cases "j = 7") auto
  then show "glo.passes (icd_bits B')" by (simp add: glo.passes_def)
qed

end
