(* ===== verification/GlonassString.thy ===== *)
theory GlonassString
  imports GlonassHamming GnssTypes
begin

text \<open>
  \<^verbatim>\<open>gnss/frame/glonass_string.go\<close>: the GLONASS string decoder, the two-string almanac and the assembly of
  the Cartesian state. Fields are sign-magnitude; the frequency channel arrives as receiver metadata.
\<close>

unbundle bit_operations_syntax

section \<open>The code\<close>

definition gloPos :: real where "gloPos = 1 / 2 ^ 11"
definition gloVel :: real where "gloVel = 1 / 2 ^ 20"
definition gloAccel :: real where "gloAccel = 1 / 2 ^ 30"
definition gloTbSec :: real where "gloTbSec = 900"
definition gloGamma2m40 :: real where "gloGamma2m40 = 1 / 2 ^ 40"
definition gloClk2m30 :: real where "gloClk2m30 = 1 / 2 ^ 30"

record glo_string =
  gs_Number :: int
  gs_Coord :: real
  gs_Vel :: real
  gs_Accel :: real
  gs_Health :: int
  gs_Tb :: real
  gs_P1 :: int
  gs_En :: int
  gs_GammaN :: real
  gs_TauN :: real
  gs_DeltaTauN :: real
  gs_Ln :: int
  gs_LnKnown :: bool

definition glo_string0 :: glo_string where
  "glo_string0 = \<lparr>gs_Number = 0, gs_Coord = 0, gs_Vel = 0, gs_Accel = 0, gs_Health = 0, gs_Tb = 0, gs_P1 = 0, gs_En = 0,
     gs_GammaN = 0, gs_TauN = 0, gs_DeltaTauN = 0, gs_Ln = 0, gs_LnKnown = False\<rparr>"

definition glo_axis :: "bit_reader \<Rightarrow> u64 \<Rightarrow> glo_string \<Rightarrow> glo_string" where
  "glo_axis r m s =
     (if 1 \<le> m \<and> m \<le> 3 then
       (let coord = getm r 50 27; vel = getm r 21 24; acc = getm r 45 5
        in s\<lparr>gs_Coord := real_of_int coord * gloPos, gs_Vel := real_of_int vel * gloVel, gs_Accel := real_of_int acc * gloAccel\<rparr>)
      else s)"

definition glo_string1 :: "bit_reader \<Rightarrow> u64 \<Rightarrow> glo_string \<Rightarrow> glo_string" where
  "glo_string1 r m s = (if m = 1 then s\<lparr>gs_P1 := go_int (getu r 7 2)\<rparr> else s)"

definition glo_string2 :: "bit_reader \<Rightarrow> u64 \<Rightarrow> glo_string \<Rightarrow> frame_error + glo_string" where
  "glo_string2 r m s =
     (if m = 2 then
       (let bn = getu r 5 3; tb = getu r 9 7
        in if tb < 1 \<or> tb > 95 then Inl ErrBadTb
           else Inr (s\<lparr>gs_Health := go_int bn, gs_Tb := fl tb * gloTbSec\<rparr>))
      else Inr s)"

definition glo_string3 :: "bit_reader \<Rightarrow> u64 \<Rightarrow> glo_string \<Rightarrow> glo_string" where
  "glo_string3 r m s = (if m = 3 then s\<lparr>gs_GammaN := real_of_int (getm r 6 11) * gloGamma2m40\<rparr> else s)"

definition glo_ln :: "bit_reader \<Rightarrow> u64 \<Rightarrow> glo_string \<Rightarrow> glo_string" where
  "glo_ln r m s =
     (if m = 3 \<or> (m \<ge> 5 \<and> m mod 2 = 1) then
       (let off = (if m \<noteq> 3 then 76 else 20); ln = getu r off 1
        in s\<lparr>gs_Ln := go_int ln, gs_LnKnown := True\<rparr>)
      else s)"

definition glo_string4 :: "bit_reader \<Rightarrow> u64 \<Rightarrow> glo_string \<Rightarrow> glo_string" where
  "glo_string4 r m s =
     (if m = 4 then
       (let tau = getm r 5 22; dtau = getm r 27 5; en = getu r 32 5
        in s\<lparr>gs_TauN := real_of_int tau * gloClk2m30, gs_DeltaTauN := real_of_int dtau * gloClk2m30, gs_En := go_int en\<rparr>)
      else s)"

definition glo_body :: "bit_reader \<Rightarrow> frame_error + glo_string" where
  "glo_body r =
     (let m = getu r 1 4
      in if m < 1 \<or> m > 15 then Inl ErrBadStringNum
         else
          (case glo_string2 r m (glo_string1 r m (glo_axis r m (glo_string0\<lparr>gs_Number := go_int m\<rparr>))) of
             Inl e \<Rightarrow> Inl e
           | Inr s \<Rightarrow> Inr (glo_string4 r m (glo_ln r m (glo_string3 r m s)))))"

definition DecodeGLONASSString :: "u32 list \<Rightarrow> frame_error + glo_string" where
  "DecodeGLONASSString words =
     (if length words < 4 then Inl ErrShortFrame
      else
       (let r = glonassBlock words
        in if \<not> glonassHammingValid r then Inl ErrGLONASSHamming else glo_body r))"

definition Unhealthy :: "glo_string \<Rightarrow> bool" where
  "Unhealthy s \<longleftrightarrow> gs_Health s AND 4 \<noteq> 0 \<or> (gs_LnKnown s \<and> gs_Ln s \<noteq> 0)"

definition gloAlm2m20 :: real where "gloAlm2m20 = 1 / 2 ^ 20"
definition gloAlm2m15 :: real where "gloAlm2m15 = 1 / 2 ^ 15"
definition gloAlm2m9 :: real where "gloAlm2m9 = 1 / 2 ^ 9"
definition gloAlm2m14 :: real where "gloAlm2m14 = 1 / 2 ^ 14"
definition gloAlm2m5 :: real where "gloAlm2m5 = 1 / 2 ^ 5"
definition gloAlm2m18 :: real where "gloAlm2m18 = 1 / 2 ^ 18"

lemmas glo_scales = gloPos_def gloVel_def gloAccel_def gloTbSec_def gloGamma2m40_def gloClk2m30_def gloAlm2m20_def gloAlm2m15_def
  gloAlm2m9_def gloAlm2m14_def gloAlm2m5_def gloAlm2m18_def

record glo_almanac_entry =
  ge_Alm :: glo_almanac
  ge_Cn :: int
  ge_SatType :: int
  ge_TauNA :: real

definition gloHnToChannel :: "int \<Rightarrow> int \<times> bool" where
  "gloHnToChannel h =
     (if 25 \<le> h \<and> h \<le> 31 then (h - 32, True) else if 0 \<le> h \<and> h \<le> 6 then (h, True) else (0, False))"

definition glo_pair :: "bit_reader \<Rightarrow> bit_reader \<Rightarrow> int \<Rightarrow> frame_error + glo_almanac_entry" where
  "glo_pair r1 r2 na =
     (let m1 = getu r1 1 4; m2 = getu r2 1 4
      in if m1 < 6 \<or> m1 > 14 \<or> m1 mod 2 \<noteq> 0 \<or> m2 \<noteq> m1 + 1 then Inl ErrBadStringNum
         else
          (let slot = getu r1 8 5; mType = getu r1 6 2; cn = getu r1 5 1; tau = getm r1 13 10;
               lam = getm r1 23 21; deltaI = getm r1 44 18; ecc = getu r1 62 15;
               omega = getm r2 5 16; tLambda = getu r2 21 21; deltaT = getm r2 42 22;
               deltaTdot = getm r2 64 7; hn = getu r2 71 5
           in case gloHnToChannel (go_int hn) of
                (freqCh, ok) \<Rightarrow>
                  if \<not> ok then Inl ErrBadFreqCh
                  else Inr \<lparr>ge_Alm = \<lparr>galm_NA = na, galm_Lambda = real_of_int lam * gloAlm2m20 * Pi,
                              galm_Tlambda = fl tLambda * gloAlm2m5, galm_DeltaI = real_of_int deltaI * gloAlm2m20 * Pi,
                              galm_DeltaT = real_of_int deltaT * gloAlm2m9, galm_DeltaTdot = real_of_int deltaTdot * gloAlm2m14,
                              galm_Ecc = fl ecc * gloAlm2m20, galm_Omega = real_of_int omega * gloAlm2m15 * Pi,
                              galm_Slot = go_int slot, galm_FreqCh = freqCh\<rparr>,
                            ge_Cn = go_int cn, ge_SatType = go_int mType, ge_TauNA = real_of_int tau * gloAlm2m18\<rparr>))"

definition DecodeGLONASSAlmanac :: "u32 list \<Rightarrow> u32 list \<Rightarrow> int \<Rightarrow> frame_error + glo_almanac_entry" where
  "DecodeGLONASSAlmanac first second na =
     (if length first < 4 \<or> length second < 4 then Inl ErrShortFrame
      else
       (let r1 = glonassBlock first; r2 = glonassBlock second
        in if \<not> glonassHammingValid r1 \<or> \<not> glonassHammingValid r2 then Inl ErrGLONASSHamming else glo_pair r1 r2 na))"

definition DecodeGLONASSFrameNA :: "u32 list \<Rightarrow> frame_error + int" where
  "DecodeGLONASSFrameNA words =
     (if length words < 4 then Inl ErrShortFrame
      else
       (let r = glonassBlock words
        in if \<not> glonassHammingValid r then Inl ErrGLONASSHamming
           else if getu r 1 4 \<noteq> 5 then Inl ErrBadStringNum
           else Inr (go_int (getu r 5 11))))"

definition AssembleGLONASS ::
  "int \<Rightarrow> int \<Rightarrow> glo_string option \<Rightarrow> glo_string option \<Rightarrow> glo_string option \<Rightarrow> glo_string option \<Rightarrow> frame_error + glo_ephemeris" where
  "AssembleGLONASS slot freqID os1 os2 os3 os4 =
     (case (os1, os2, os3) of
        (Some s1, Some s2, Some s3) \<Rightarrow>
          if gs_Number s1 \<noteq> 1 \<or> gs_Number s2 \<noteq> 2 \<or> gs_Number s3 \<noteq> 3 then Inl ErrGLONASSStringOrder
          else if (case os4 of None \<Rightarrow> False | Some s4 \<Rightarrow> gs_Number s4 \<noteq> 4) then Inl ErrGLONASSStringOrder
          else if freqID < 0 \<or> freqID > 13 then Inl ErrBadFreqCh
          else
            (let eph = \<lparr>glo_X = gs_Coord s1, glo_Y = gs_Coord s2, glo_Z = gs_Coord s3,
                        glo_Vx = gs_Vel s1, glo_Vy = gs_Vel s2, glo_Vz = gs_Vel s3,
                        glo_Ax = gs_Accel s1, glo_Ay = gs_Accel s2, glo_Az = gs_Accel s3,
                        glo_Tb = gs_Tb s2, glo_TodKnown = True, glo_TauN = 0, glo_GammaN = gs_GammaN s3,
                        glo_DeltaTauN = 0, glo_ClockKnown = False, glo_FreqCh = freqID - 7, glo_Slot = slot\<rparr>
             in case os4 of
                  None \<Rightarrow> Inr eph
                | Some s4 \<Rightarrow> Inr (eph\<lparr>glo_TauN := gs_TauN s4, glo_DeltaTauN := gs_DeltaTauN s4, glo_ClockKnown := True\<rparr>))
      | _ \<Rightarrow> Inl ErrShortFrame)"

section \<open>The layout of a string\<close>

text \<open>Sign and magnitude; a string is 77 data bits, its eight check bits and the padding of the block.\<close>

definition smag_enc :: "nat \<Rightarrow> int \<Rightarrow> bool list" where
  "smag_enc n v = (v < 0) # ubits_enc (n - 1) (nat \<bar>v\<bar>)"

definition mfits :: "nat \<Rightarrow> int \<Rightarrow> bool" where
  "mfits n v \<longleftrightarrow> \<bar>v\<bar> < 2 ^ (n - 1)"

lemma length_smag_enc [simp]: "0 < n \<Longrightarrow> length (smag_enc n v) = n"
  by (simp add: smag_enc_def)

lemma signmag_smag_enc: "mfits n v \<Longrightarrow> signmag_of_bits (smag_enc n v) = v"
  by (auto simp: signmag_of_bits_def smag_enc_def mfits_def nat_less_iff)

definition glo_words :: "nat \<Rightarrow> bool list \<Rightarrow> u32 list" where
  "glo_words pad body = StampGLONASSHamming (words32 4 (body @ replicate 8 False @ ubits_enc 43 pad))"

lemma length_glo_words [simp]: "length (glo_words pad body) = 4"
  using StampGLONASSHamming_bits(5) [of "words32 4 (body @ replicate 8 False @ ubits_enc 43 pad)"] by (simp add: glo_words_def)

lemma glo_words_reads:
  assumes "length body = 77"
  shows "\<exists>rest. length rest = 51 \<and> reads (glonassBlock (glo_words pad body)) (body @ rest)" "glonassHammingValid (glonassBlock (glo_words pad body))"
proof -
  let ?ws = "words32 4 (body @ replicate 8 False @ ubits_enc 43 pad)"
  let ?B = "bits_of (be_words 4 (glo_words pad body))"
  have w: "4 \<le> length ?ws" by simp
  note S = StampGLONASSHamming_bits [OF w, folded glo_words_def]
  have "bits_of (be_words 4 ?ws) = body @ replicate 8 False @ ubits_enc 43 pad"
    using assms by (intro bits_of_words32) simp
  then have "bslice 0 77 ?B = body" using S(2) assms by (simp add: bslice_def)
  then have "?B = body @ drop 77 ?B" by (metis append_take_drop_id bslice_def drop0)
  moreover have "reads (glonassBlock (glo_words pad body)) ?B" by (rule glonassBlock_reads) simp
  ultimately show "\<exists>rest. length rest = 51 \<and> reads (glonassBlock (glo_words pad body)) (body @ rest)"
    using S(4) by (intro exI [of _ "drop 77 ?B"]) simp
  show "glonassHammingValid (glonassBlock (glo_words pad body))" using S(1) by (simp add: block_valid)
qed


record raw_axis =
  ax_idle :: bool
  ax_vel :: int
  ax_acc :: int
  ax_coord :: int

record raw_g1 = raw_axis +
  g1_rsv :: nat
  g1_p1 :: nat
  g1_tk :: nat

record raw_g2 = raw_axis +
  g2_bn :: nat
  g2_p2 :: nat
  g2_tb :: nat
  g2_rsv :: nat

record raw_g3 = raw_axis +
  g3_p3 :: nat
  g3_gamma :: int
  g3_rsv :: nat
  g3_ln :: nat

record raw_g4 =
  g4_idle :: bool
  g4_tau :: int
  g4_dtau :: int
  g4_en :: nat
  g4_rest :: nat

definition axis_bits :: "'a raw_axis_scheme \<Rightarrow> bool list" where
  "axis_bits f = smag_enc 24 (ax_vel f) @ smag_enc 5 (ax_acc f) @ smag_enc 27 (ax_coord f)"

definition g1_bits :: "raw_g1 \<Rightarrow> bool list" where
  "g1_bits f = [ax_idle f] @ ubits_enc 4 1 @ ubits_enc 2 (g1_rsv f) @ ubits_enc 2 (g1_p1 f) @ ubits_enc 12 (g1_tk f) @ axis_bits f"

definition g2_bits :: "raw_g2 \<Rightarrow> bool list" where
  "g2_bits f = [ax_idle f] @ ubits_enc 4 2 @ ubits_enc 3 (g2_bn f) @ ubits_enc 1 (g2_p2 f) @ ubits_enc 7 (g2_tb f) @ ubits_enc 5 (g2_rsv f) @ axis_bits f"

definition g3_bits :: "raw_g3 \<Rightarrow> bool list" where
  "g3_bits f = [ax_idle f] @ ubits_enc 4 3 @ ubits_enc 1 (g3_p3 f) @ smag_enc 11 (g3_gamma f) @ ubits_enc 3 (g3_rsv f) @ ubits_enc 1 (g3_ln f) @ axis_bits f"

definition g4_bits :: "raw_g4 \<Rightarrow> bool list" where
  "g4_bits f = [g4_idle f] @ ubits_enc 4 4 @ smag_enc 22 (g4_tau f) @ smag_enc 5 (g4_dtau f) @ ubits_enc 5 (g4_en f) @ ubits_enc 40 (g4_rest f)"

definition wf_axis :: "'a raw_axis_scheme \<Rightarrow> bool" where
  "wf_axis f \<longleftrightarrow> mfits 24 (ax_vel f) \<and> mfits 5 (ax_acc f) \<and> mfits 27 (ax_coord f)"

definition wf_g1 :: "raw_g1 \<Rightarrow> bool" where
  "wf_g1 f \<longleftrightarrow> wf_axis f \<and> ufits 2 (g1_p1 f)"

definition wf_g2 :: "raw_g2 \<Rightarrow> bool" where
  "wf_g2 f \<longleftrightarrow> wf_axis f \<and> ufits 3 (g2_bn f) \<and> ufits 7 (g2_tb f)"

definition wf_g3 :: "raw_g3 \<Rightarrow> bool" where
  "wf_g3 f \<longleftrightarrow> wf_axis f \<and> mfits 11 (g3_gamma f) \<and> ufits 1 (g3_ln f)"

definition wf_g4 :: "raw_g4 \<Rightarrow> bool" where
  "wf_g4 f \<longleftrightarrow> mfits 22 (g4_tau f) \<and> mfits 5 (g4_dtau f) \<and> ufits 5 (g4_en f)"

lemmas g_layout = axis_bits_def g1_bits_def g2_bits_def g3_bits_def g4_bits_def
lemmas g_wf = wf_axis_def wf_g1_def wf_g2_def wf_g3_def wf_g4_def ufits_def

lemma length_g_bits [simp]:
  "length (axis_bits f) = 56" "length (g1_bits a) = 77" "length (g2_bits b) = 77" "length (g3_bits c) = 77" "length (g4_bits d) = 77"
  by (simp_all add: g_layout)

definition axis_value :: "'a raw_axis_scheme \<Rightarrow> glo_string \<Rightarrow> glo_string" where
  "axis_value f s = s\<lparr>gs_Coord := real_of_int (ax_coord f) / 2 ^ 11, gs_Vel := real_of_int (ax_vel f) / 2 ^ 20,
     gs_Accel := real_of_int (ax_acc f) / 2 ^ 30\<rparr>"

definition g1_value :: "raw_g1 \<Rightarrow> glo_string" where
  "g1_value f = (axis_value f glo_string0)\<lparr>gs_Number := 1, gs_P1 := int (g1_p1 f)\<rparr>"

definition g2_value :: "raw_g2 \<Rightarrow> glo_string" where
  "g2_value f = (axis_value f glo_string0)\<lparr>gs_Number := 2, gs_Health := int (g2_bn f), gs_Tb := real (g2_tb f) * 900\<rparr>"

definition g3_value :: "raw_g3 \<Rightarrow> glo_string" where
  "g3_value f = (axis_value f glo_string0)\<lparr>gs_Number := 3, gs_GammaN := real_of_int (g3_gamma f) / 2 ^ 40,
     gs_Ln := int (g3_ln f), gs_LnKnown := True\<rparr>"

definition g4_value :: "raw_g4 \<Rightarrow> glo_string" where
  "g4_value f = glo_string0\<lparr>gs_Number := 4, gs_TauN := real_of_int (g4_tau f) / 2 ^ 30, gs_DeltaTauN := real_of_int (g4_dtau f) / 2 ^ 30,
     gs_En := int (g4_en f)\<rparr>"

lemmas g_value = axis_value_def g1_value_def g2_value_def g3_value_def g4_value_def glo_string0_def
lemmas g_decode = glo_axis_def glo_string1_def glo_string2_def glo_string3_def glo_ln_def glo_string4_def

lemma decode_glo_words:
  assumes "length body = 77" "\<And>r rest. reads r (body @ rest) \<Longrightarrow> glo_body r = v"
  shows "DecodeGLONASSString (glo_words pad body) = v"
proof -
  obtain rest where "reads (glonassBlock (glo_words pad body)) (body @ rest)" using glo_words_reads(1) [OF assms(1)] by blast
  then have "glo_body (glonassBlock (glo_words pad body)) = v" by (rule assms(2))
  moreover have "DecodeGLONASSString (glo_words pad body) = glo_body (glonassBlock (glo_words pad body))"
    using glo_words_reads(2) [OF assms(1), of pad] by (simp add: DecodeGLONASSString_def)
  ultimately show ?thesis by simp
qed

lemma string_numbers [simp]:
  "go_int 1 = 1" "go_int 2 = 2" "go_int 3 = 3" "go_int 4 = 4" "\<not> (5 :: u64) \<le> 1" "\<not> (5 :: u64) \<le> 2"
  by (simp_all add: go_int_def word_le_nat_alt)

lemma decode_g1: "wf_g1 f \<Longrightarrow> DecodeGLONASSString (glo_words pad (g1_bits f)) = Inr (g1_value f)"
proof (rule decode_glo_words)
  fix r rest assume "wf_g1 f" and R: "reads r (g1_bits f @ rest)"
  then show "glo_body r = Inr (g1_value f)"
    by (simp add: glo_body_def Let_def g_decode reads_getu [OF R] reads_getm [OF R] g_layout slice_simps g_wf signmag_smag_enc
        read_values g_value glo_scales)
qed simp

lemma decode_g2:
  assumes "wf_g2 f"
  shows "DecodeGLONASSString (glo_words pad (g2_bits f)) =
    (if 1 \<le> g2_tb f \<and> g2_tb f \<le> 95 then Inr (g2_value f) else Inl ErrBadTb)"
proof (rule decode_glo_words)
  fix r rest assume R: "reads r (g2_bits f @ rest)"
  have "g2_tb f < 128" using assms by (simp add: g_wf)
  then have tb: "(of_nat (g2_tb f) :: u64) < 1 \<longleftrightarrow> g2_tb f < 1" "(of_nat (g2_tb f) :: u64) > 95 \<longleftrightarrow> g2_tb f > 95"
    using of_nat_less_numeral [of "g2_tb f" 1] of_nat_less_numeral [of 95 "g2_tb f"] by simp_all
  show "glo_body r = (if 1 \<le> g2_tb f \<and> g2_tb f \<le> 95 then Inr (g2_value f) else Inl ErrBadTb)"
    using assms
    by (auto simp: glo_body_def Let_def g_decode reads_getu [OF R] reads_getm [OF R] g_layout slice_simps g_wf signmag_smag_enc
        read_values g_value glo_scales tb)
qed simp

lemma decode_g3: "wf_g3 f \<Longrightarrow> DecodeGLONASSString (glo_words pad (g3_bits f)) = Inr (g3_value f)"
proof (rule decode_glo_words)
  fix r rest assume "wf_g3 f" and R: "reads r (g3_bits f @ rest)"
  then show "glo_body r = Inr (g3_value f)"
    by (simp add: glo_body_def Let_def g_decode reads_getu [OF R] reads_getm [OF R] g_layout slice_simps g_wf signmag_smag_enc
        read_values g_value glo_scales)
qed simp

lemma decode_g4: "wf_g4 f \<Longrightarrow> DecodeGLONASSString (glo_words pad (g4_bits f)) = Inr (g4_value f)"
proof (rule decode_glo_words)
  fix r rest assume "wf_g4 f" and R: "reads r (g4_bits f @ rest)"
  then show "glo_body r = Inr (g4_value f)"
    by (simp add: glo_body_def Let_def g_decode reads_getu [OF R] reads_getm [OF R] g_layout slice_simps g_wf signmag_smag_enc
        read_values g_value glo_scales)
qed simp

text \<open>The almanac strings: an even string with slot, type, clock and three elements, and the odd string that follows it.\<close>

record raw_ga =
  ga_m :: nat
  ga_cn :: nat
  ga_type :: nat
  ga_slot :: nat
  ga_tau :: int
  ga_lambda :: int
  ga_di :: int
  ga_ecc :: nat
  ga_omega :: int
  ga_tl :: nat
  ga_dT :: int
  ga_dTdot :: int
  ga_hn :: nat
  ga_ln :: nat

definition ga_first :: "raw_ga \<Rightarrow> bool list" where
  "ga_first f = [False] @ ubits_enc 4 (ga_m f) @ ubits_enc 1 (ga_cn f) @ ubits_enc 2 (ga_type f) @ ubits_enc 5 (ga_slot f) @
     smag_enc 10 (ga_tau f) @ smag_enc 21 (ga_lambda f) @ smag_enc 18 (ga_di f) @ ubits_enc 15 (ga_ecc f)"

definition ga_second :: "raw_ga \<Rightarrow> bool list" where
  "ga_second f = [False] @ ubits_enc 4 (ga_m f + 1) @ smag_enc 16 (ga_omega f) @ ubits_enc 21 (ga_tl f) @ smag_enc 22 (ga_dT f) @
     smag_enc 7 (ga_dTdot f) @ ubits_enc 5 (ga_hn f) @ ubits_enc 1 (ga_ln f)"

definition wf_ga :: "raw_ga \<Rightarrow> bool" where
  "wf_ga f \<longleftrightarrow> ga_m f \<in> {6, 8, 10, 12, 14} \<and> ufits 1 (ga_cn f) \<and> ufits 2 (ga_type f) \<and> ufits 5 (ga_slot f) \<and> mfits 10 (ga_tau f)
     \<and> mfits 21 (ga_lambda f) \<and> mfits 18 (ga_di f) \<and> ufits 15 (ga_ecc f) \<and> mfits 16 (ga_omega f) \<and> ufits 21 (ga_tl f)
     \<and> mfits 22 (ga_dT f) \<and> mfits 7 (ga_dTdot f) \<and> ufits 5 (ga_hn f)"

text \<open>Table 4.10: the word of a channel \<open>k\<close> is \<open>k\<close> modulo 32.\<close>

definition hn_channel :: "nat \<Rightarrow> int option" where
  "hn_channel h = (if h \<le> 6 then Some (int h) else if 25 \<le> h \<and> h \<le> 31 then Some (int h - 32) else None)"

definition ga_value :: "int \<Rightarrow> raw_ga \<Rightarrow> int \<Rightarrow> glo_almanac_entry" where
  "ga_value na f k = \<lparr>ge_Alm = \<lparr>galm_NA = na, galm_Lambda = real_of_int (ga_lambda f) / 2 ^ 20 * Pi,
       galm_Tlambda = real (ga_tl f) / 2 ^ 5, galm_DeltaI = real_of_int (ga_di f) / 2 ^ 20 * Pi,
       galm_DeltaT = real_of_int (ga_dT f) / 2 ^ 9, galm_DeltaTdot = real_of_int (ga_dTdot f) / 2 ^ 14,
       galm_Ecc = real (ga_ecc f) / 2 ^ 20, galm_Omega = real_of_int (ga_omega f) / 2 ^ 15 * Pi,
       galm_Slot = int (ga_slot f), galm_FreqCh = k\<rparr>,
     ge_Cn = int (ga_cn f), ge_SatType = int (ga_type f), ge_TauNA = real_of_int (ga_tau f) / 2 ^ 18\<rparr>"

lemma length_ga [simp]: "length (ga_first f) = 77" "length (ga_second f) = 77"
  by (simp_all add: ga_first_def ga_second_def)

lemma decode_ga_pair:
  assumes wf: "wf_ga f" and R1: "reads r1 (ga_first f @ rest1)" and R2: "reads r2 (ga_second f @ rest2)"
  shows "glo_pair r1 r2 na = (case hn_channel (ga_hn f) of None \<Rightarrow> Inl ErrBadFreqCh | Some k \<Rightarrow> Inr (ga_value na f k))"
proof -
  have m: "getu r1 1 4 = of_nat (ga_m f)" "getu r2 1 4 = of_nat (ga_m f + 1)"
    using wf by (auto simp: reads_getu [OF R1] reads_getu [OF R2] ga_first_def ga_second_def slice_simps wf_ga_def)
  have ok: "\<not> (getu r1 1 4 < 6 \<or> getu r1 1 4 > 14 \<or> getu r1 1 4 mod 2 \<noteq> 0 \<or> getu r2 1 4 \<noteq> getu r1 1 4 + 1)"
    unfolding m using wf by (auto simp: wf_ga_def)
  note W = wf [unfolded wf_ga_def ufits_def]
  have hn: "gloHnToChannel (int (ga_hn f)) = (case hn_channel (ga_hn f) of None \<Rightarrow> (0, False) | Some k \<Rightarrow> (k, True))"
    by (auto simp: gloHnToChannel_def hn_channel_def)
  show ?thesis unfolding glo_pair_def Let_def if_not_P [OF ok]
    using W by (simp add: reads_getu [OF R1] reads_getm [OF R1] reads_getu [OF R2] reads_getm [OF R2] ga_first_def ga_second_def
        slice_simps signmag_smag_enc read_values ga_value_def glo_scales hn split: option.split)
qed

section \<open>Properties\<close>

definition glo_eph_value :: "int \<Rightarrow> int \<Rightarrow> raw_g1 \<Rightarrow> raw_g2 \<Rightarrow> raw_g3 \<Rightarrow> raw_g4 option \<Rightarrow> glo_ephemeris" where
  "glo_eph_value slot freqID a b c d = \<lparr>
     glo_X = real_of_int (ax_coord a) / 2 ^ 11, glo_Y = real_of_int (ax_coord b) / 2 ^ 11, glo_Z = real_of_int (ax_coord c) / 2 ^ 11,
     glo_Vx = real_of_int (ax_vel a) / 2 ^ 20, glo_Vy = real_of_int (ax_vel b) / 2 ^ 20, glo_Vz = real_of_int (ax_vel c) / 2 ^ 20,
     glo_Ax = real_of_int (ax_acc a) / 2 ^ 30, glo_Ay = real_of_int (ax_acc b) / 2 ^ 30, glo_Az = real_of_int (ax_acc c) / 2 ^ 30,
     glo_Tb = real (g2_tb b) * 900, glo_TodKnown = True,
     glo_TauN = (case d of None \<Rightarrow> 0 | Some s \<Rightarrow> real_of_int (g4_tau s) / 2 ^ 30), glo_GammaN = real_of_int (g3_gamma c) / 2 ^ 40,
     glo_DeltaTauN = (case d of None \<Rightarrow> 0 | Some s \<Rightarrow> real_of_int (g4_dtau s) / 2 ^ 30), glo_ClockKnown = (d \<noteq> None),
     glo_FreqCh = freqID - 7, glo_Slot = slot\<rparr>"

definition glo_assembled :: "int \<Rightarrow> int \<Rightarrow> u32 list \<Rightarrow> u32 list \<Rightarrow> u32 list \<Rightarrow> u32 list option \<Rightarrow> frame_error + glo_ephemeris" where
  "glo_assembled slot freqID w1 w2 w3 w4 =
     (case DecodeGLONASSString w1 of Inl e \<Rightarrow> Inl e | Inr s1 \<Rightarrow>
      case DecodeGLONASSString w2 of Inl e \<Rightarrow> Inl e | Inr s2 \<Rightarrow>
      case DecodeGLONASSString w3 of Inl e \<Rightarrow> Inl e | Inr s3 \<Rightarrow>
      case w4 of None \<Rightarrow> AssembleGLONASS slot freqID (Some s1) (Some s2) (Some s3) None
      | Some w \<Rightarrow> (case DecodeGLONASSString w of Inl e \<Rightarrow> Inl e
                  | Inr s4 \<Rightarrow> AssembleGLONASS slot freqID (Some s1) (Some s2) (Some s3) (Some s4)))"

text \<open>Strings 1, 2, 3 and, when it is present, 4 that carry the sign-magnitude values of a Cartesian state, its reference
  time and its clock, with any idle, reserved and padding bits, decode and assemble to exactly those values at the scales of
  the interface document, with the channel \<open>freqID - 7\<close>. A reference-time index outside 1..95 is refused at string 2 and
  a receiver channel tag outside 0..13 at the assembly; without string 4 the state is marked clockless.\<close>

lemma GLONASS_roundtrip:
  assumes "wf_g1 a" "wf_g2 b" "wf_g3 c" "\<And>s. d = Some s \<Longrightarrow> wf_g4 s"
  shows "glo_assembled slot freqID (glo_words p1 (g1_bits a)) (glo_words p2 (g2_bits b)) (glo_words p3 (g3_bits c))
      (map_option (\<lambda>s. glo_words p4 (g4_bits s)) d) =
    (if g2_tb b < 1 \<or> 95 < g2_tb b then Inl ErrBadTb
     else if freqID < 0 \<or> 13 < freqID then Inl ErrBadFreqCh
     else Inr (glo_eph_value slot freqID a b c d))"
proof (cases d)
  case None
  then show ?thesis using assms(1-3)
    by (simp add: glo_assembled_def decode_g1 decode_g2 decode_g3 AssembleGLONASS_def glo_eph_value_def g_value)
next
  case (Some s)
  then show ?thesis using assms
    by (simp add: glo_assembled_def decode_g1 decode_g2 decode_g3 decode_g4 AssembleGLONASS_def glo_eph_value_def g_value)
qed

definition sample_g1 :: raw_g1 where
  "sample_g1 = \<lparr>ax_idle = False, ax_vel = -2500000, ax_acc = 3, ax_coord = 21000000, g1_rsv = 0, g1_p1 = 3, g1_tk = 100\<rparr>"
definition sample_g2 :: raw_g2 where
  "sample_g2 = \<lparr>ax_idle = False, ax_vel = 120000, ax_acc = -1, ax_coord = -43000000, g2_bn = 0, g2_p2 = 1, g2_tb = 45, g2_rsv = 0\<rparr>"
definition sample_g3 :: raw_g3 where
  "sample_g3 = \<lparr>ax_idle = False, ax_vel = 3300000, ax_acc = 0, ax_coord = 20000000, g3_p3 = 1, g3_gamma = -12, g3_rsv = 5, g3_ln = 0\<rparr>"
definition sample_g4 :: raw_g4 where
  "sample_g4 = \<lparr>g4_idle = False, g4_tau = -70000, g4_dtau = 4, g4_en = 1, g4_rest = 99\<rparr>"

lemmas sample_g = sample_g1_def sample_g2_def sample_g3_def sample_g4_def

text \<open>An almanac pair (an even string 6..14 and its successor) that carries the elements of a satellite decodes to exactly
  those elements, angles in radians and the day number as passed; the broadcast frequency word gives the channel of Table 4.10
  and a word that encodes no channel refuses the pair.\<close>

lemma GLONASS_almanac_roundtrip:
  assumes "wf_ga f"
  shows "DecodeGLONASSAlmanac (glo_words pad1 (ga_first f)) (glo_words pad2 (ga_second f)) na =
    (case hn_channel (ga_hn f) of None \<Rightarrow> Inl ErrBadFreqCh | Some k \<Rightarrow> Inr (ga_value na f k))"
proof -
  let ?w1 = "glo_words pad1 (ga_first f)" and ?w2 = "glo_words pad2 (ga_second f)"
  obtain rest1 rest2 where R: "reads (glonassBlock ?w1) (ga_first f @ rest1)" "reads (glonassBlock ?w2) (ga_second f @ rest2)"
    using glo_words_reads(1) [of "ga_first f" pad1] glo_words_reads(1) [of "ga_second f" pad2] by auto
  have "DecodeGLONASSAlmanac ?w1 ?w2 na = glo_pair (glonassBlock ?w1) (glonassBlock ?w2) na"
    using glo_words_reads(2) [of "ga_first f" pad1] glo_words_reads(2) [of "ga_second f" pad2]
    by (simp add: DecodeGLONASSAlmanac_def)
  then show ?thesis using decode_ga_pair [OF assms R] by simp
qed

definition sample_ga :: raw_ga where
  "sample_ga = \<lparr>ga_m = 8, ga_cn = 1, ga_type = 1, ga_slot = 11, ga_tau = -30, ga_lambda = 500000, ga_di = -2000, ga_ecc = 900,
     ga_omega = -12000, ga_tl = 800000, ga_dT = -1300000, ga_dTdot = 5, ga_hn = 26, ga_ln = 0\<rparr>"

text \<open>C5: A string that decodes is refused with the check error after any one, two or three distinct bits of its 85 are
  inverted, wherever they fall (data or check bits): the extended Hamming code has distance four and the decoder never corrects.\<close>

theorem GLONASS_errors_detected:
  assumes "DecodeGLONASSString ws = Inr s" "distinct ps" "set ps \<subseteq> {..<85}" "1 \<le> length ps" "length ps \<le> 3"
  shows "DecodeGLONASSString (foldr glo_flip ps ws) = Inl ErrGLONASSHamming"
proof -
  have "4 \<le> length ws" "glonassHammingValid (glonassBlock ws)"
    using assms(1) by (auto simp: DecodeGLONASSString_def Let_def split: if_splits)
  moreover have "ps \<noteq> []" using assms(4) by auto
  ultimately have "\<not> glonassHammingValid (glonassBlock (foldr glo_flip ps ws))" "4 \<le> length (foldr glo_flip ps ws)"
    using flips_rejected [OF _ _ assms(3,2) _ assms(5)] by simp_all
  then show ?thesis by (simp add: DecodeGLONASSString_def Let_def)
qed

theorem GLONASS_errors_detected_witness:
  "DecodeGLONASSString (foldr glo_flip [3, 40, 84] (glo_words 0 (g1_bits sample_g1))) = Inl ErrGLONASSHamming"
  using GLONASS_errors_detected [OF decode_g1 [of sample_g1 0], of "[3, 40, 84]"] by (simp add: sample_g g_wf mfits_def)

end
