(* ===== verification/Bytes.thy ===== *)
theory Bytes
  imports Prelude
begin

text \<open>
  Integers in byte slices as \<^verbatim>\<open>encoding/binary\<close> reads and writes them, in the widths and byte orders the message codecs
  use beside the 32-bit ones of the prelude; the split of a record into its fields; and \<open>codec\<close>, the interface of the
  canonical message encodings.
\<close>

unbundle bit_operations_syntax

section \<open>The standard library's accessors\<close>

definition PutUint16 :: "u16 \<Rightarrow> u8 list" where
  "PutUint16 w = [ucast (drop_bit 8 w), ucast w]"

definition Uint16 :: "u8 list \<Rightarrow> u16" where
  "Uint16 bs = push_bit 8 (ucast (bs ! 0)) OR ucast (bs ! 1)"

definition PutUint64 :: "u64 \<Rightarrow> u8 list" where
  "PutUint64 w = PutUint32 (ucast (drop_bit 32 w)) @ PutUint32 (ucast w)"

definition Uint64 :: "u8 list \<Rightarrow> u64" where
  "Uint64 bs = push_bit 32 (ucast (Uint32 (take 4 bs))) OR ucast (Uint32 (take 4 (drop 4 bs)))"

definition LEPutUint16 :: "u16 \<Rightarrow> u8 list" where
  "LEPutUint16 w = rev (PutUint16 w)"

definition LEUint16 :: "u8 list \<Rightarrow> u16" where
  "LEUint16 bs = Uint16 (rev (take 2 bs))"

definition LEPutUint32 :: "u32 \<Rightarrow> u8 list" where
  "LEPutUint32 w = rev (PutUint32 w)"

definition LEUint32 :: "u8 list \<Rightarrow> u32" where
  "LEUint32 bs = Uint32 (rev (take 4 bs))"

definition LEUint64 :: "u8 list \<Rightarrow> u64" where
  "LEUint64 bs = Uint64 (rev (take 8 bs))"

lemma length_Put [simp]: "length (PutUint16 v) = 2" "length (PutUint64 w) = 8" "length (LEPutUint16 v) = 2" "length (LEPutUint32 x) = 4"
  by (simp_all add: PutUint16_def PutUint64_def LEPutUint16_def LEPutUint32_def)

lemma Uint16_PutUint16 [simp]: "Uint16 (PutUint16 w) = w"
proof (rule bit_word_eqI)
  fix n assume "n < LENGTH(16)"
  then show "bit (Uint16 (PutUint16 w)) n = bit w n"
    by (cases "n < 8") (auto simp: Uint16_def PutUint16_def bit_simps)
qed

lemma PutUint16_Uint16:
  assumes "length bs = 2"
  shows "PutUint16 (Uint16 bs) = bs"
proof -
  obtain a b where bs: "bs = [a, b]" using assms by (auto simp: length_Suc_conv numeral_2_eq_2)
  have "ucast (drop_bit 8 (Uint16 bs)) = a" "ucast (Uint16 bs) = b"
    by (rule bit_word_eqI, auto simp: Uint16_def bs bit_simps dest: bit_imp_le_length)+
  then show ?thesis by (simp add: PutUint16_def bs)
qed

lemma Uint64_PutUint64 [simp]: "Uint64 (PutUint64 w) = w"
proof (rule bit_word_eqI)
  fix n assume "n < LENGTH(64)"
  then show "bit (Uint64 (PutUint64 w)) n = bit w n"
    by (cases "n < 32") (auto simp: Uint64_def PutUint64_def bit_simps)
qed

lemma PutUint64_Uint64:
  assumes "length bs = 8"
  shows "PutUint64 (Uint64 bs) = bs"
proof -
  let ?a = "take 4 bs" and ?b = "take 4 (drop 4 bs)"
  have "ucast (drop_bit 32 (Uint64 bs)) = Uint32 ?a" "ucast (Uint64 bs) = Uint32 ?b"
    by (rule bit_word_eqI, auto simp: Uint64_def bit_simps dest: bit_imp_le_length)+
  moreover have "?a @ ?b = bs" using assms take_add [of 4 4 bs] by simp
  ultimately show ?thesis using assms by (simp add: PutUint64_def PutUint32_Uint32)
qed

lemma LEUint16_LEPutUint16 [simp]: "LEUint16 (LEPutUint16 w) = w" "LEUint16 (LEPutUint16 w @ bs) = w"
  by (simp_all add: LEUint16_def LEPutUint16_def)

lemma LEUint32_LEPutUint32 [simp]: "LEUint32 (LEPutUint32 w) = w" "LEUint32 (LEPutUint32 w @ bs) = w"
  by (simp_all add: LEUint32_def LEPutUint32_def)

lemma LEPutUint16_LEUint16: "length bs = 2 \<Longrightarrow> LEPutUint16 (LEUint16 bs) = bs"
  by (simp add: LEUint16_def LEPutUint16_def PutUint16_Uint16)

text \<open>Signed fields: the conversions \<^verbatim>\<open>uint32(v)\<close> and \<^verbatim>\<open>int32(w)\<close>, and their 8-, 16- and 64-bit kin.\<close>

definition sfits :: "nat \<Rightarrow> int \<Rightarrow> bool" where
  "sfits n v \<longleftrightarrow> - (2 ^ (n - 1)) \<le> v \<and> v < 2 ^ (n - 1)"

lemma sint_word_of_int:
  "sfits LENGTH('a) v \<Longrightarrow> sint (word_of_int v :: 'a :: len word) = v"
  by (simp add: sfits_def sint_sbintrunc' signed_take_bit_int_eq_self)

lemma sfits_sint: "sfits LENGTH('a) (sint (w :: 'a :: len word))"
  using sint_ge [of w] sint_lt [of w] by (simp add: sfits_def)

lemma sint_word_widths [simp]:
  "sfits 8 v \<Longrightarrow> sint (word_of_int v :: u8) = v" "sfits 16 v \<Longrightarrow> sint (word_of_int v :: u16) = v"
  "sfits 32 v \<Longrightarrow> sint (word_of_int v :: u32) = v" "sfits 64 v \<Longrightarrow> sint (word_of_int v :: u64) = v"
  using sint_word_of_int [where 'a = 8] sint_word_of_int [where 'a = 16] sint_word_of_int [where 'a = 32] sint_word_of_int [where 'a = 64]
  by simp_all

lemma sfits_widths [simp]: "sfits 8 (sint (a :: u8))" "sfits 16 (sint (b :: u16))" "sfits 32 (sint (c :: u32))" "sfits 64 (sint (d :: u64))"
  using sfits_sint [of a] sfits_sint [of b] sfits_sint [of c] sfits_sint [of d] by simp_all

section \<open>The fields of a record\<close>

primrec byte_fields :: "nat list \<Rightarrow> u8 list \<Rightarrow> u8 list list" where
  "byte_fields [] v = []"
| "byte_fields (n # ns) v = take n v # byte_fields ns (drop n v)"

lemma concat_byte_fields: "sum_list ns = length v \<Longrightarrow> concat (byte_fields ns v) = v"
proof (induction ns arbitrary: v)
  case (Cons n ns)
  then have "concat (byte_fields ns (drop n v)) = drop n v" by (intro Cons.IH) simp
  then show ?case by simp
qed simp

lemma take_1: "k < length v \<Longrightarrow> take 1 (drop k v) = [v ! k]" "k < length v \<Longrightarrow> take (Suc 0) (drop k v) = [v ! k]"
  by (simp_all add: take_Suc_conv_app_nth hd_drop_conv_nth take_Suc drop_eq_Nil)

section \<open>Canonical encodings\<close>

text \<open>What is encoded decodes to itself, and only encodings decode.\<close>

locale codec =
  fixes valid :: "'a \<Rightarrow> bool" and enc :: "'a \<Rightarrow> 'e + u8 list" and dec :: "u8 list \<Rightarrow> 'e + 'a"
  assumes dec_enc: "valid x \<Longrightarrow> enc x = Inr b \<Longrightarrow> dec b = Inr x"
    and enc_dec: "dec b = Inr x \<Longrightarrow> valid x \<and> enc x = Inr b"
begin

lemma dec_inject: "dec b = Inr x \<Longrightarrow> dec b' = Inr x \<Longrightarrow> b = b'"
  by (metis enc_dec sum.inject(2))

lemma dec_iff: "dec b = Inr x \<longleftrightarrow> valid x \<and> enc x = Inr b"
  using dec_enc enc_dec by blast

lemma dec_map: "list_all valid xs \<Longrightarrow> map enc xs = map Inr bs \<Longrightarrow> map dec bs = map Inr xs"
  using dec_enc by (auto simp: list_eq_iff_nth_eq list_all_length)

end

end
