(* ===== verification/Resync.thy ===== *)
theory Resync
  imports Bytes
begin

text \<open>
  What the byte-stream scanners of \<^verbatim>\<open>go/internal/ingest\<close> (\<^verbatim>\<open>scanUBX\<close>, \<^verbatim>\<open>scanSBF\<close>, \<^verbatim>\<open>scanRTCM\<close>) have in common: they look at the head
  of the stream, take a complete message off it, skip a byte that starts none, or stop when the stream ends before they can
  tell. \<open>resync\<close> is the interface of a message format to such a scanner, with the scanner's laws proved from it; \<open>synced_format\<close>
  derives it for the formats that open with two sync bytes. The theory also holds the common loop \<^verbatim>\<open>syncTo\<close> and the buffered
  reader's \<^verbatim>\<open>Peek\<close>.
\<close>

section \<open>The buffered reader\<close>

text \<open>The reader is the list of bytes still to come before the connection ends: \<^verbatim>\<open>ReadByte\<close> takes one, \<^verbatim>\<open>Peek\<close> looks ahead
  without taking (the buffers are larger than any extent peeked) and fails when too few are left.\<close>

definition peek :: "u8 list \<Rightarrow> nat \<Rightarrow> u8 list option" where
  "peek r n = (if n \<le> length r then Some (take n r) else None)"

text \<open>\<^verbatim>\<open>syncTo\<close> returns the stream after the two sync bytes; a byte that could start the pattern is looked at again.\<close>

fun syncTo :: "u8 \<Rightarrow> u8 \<Rightarrow> u8 list \<Rightarrow> u8 list option" where
  "syncTo s1 s2 [] = None"
| "syncTo s1 s2 [b] = None"
| "syncTo s1 s2 (b # b2 # r) =
     (if b \<noteq> s1 then syncTo s1 s2 (b2 # r)
      else if b2 = s2 then Some r
      else if b2 = s1 then syncTo s1 s2 (b2 # r)
      else syncTo s1 s2 r)"

lemma syncTo_shorter: "syncTo s1 s2 r = Some r' \<Longrightarrow> length r' + 2 \<le> length r"
  by (induction s1 s2 r rule: syncTo.induct) (auto split: if_splits)

section \<open>Scanning by verdicts\<close>

datatype 'f head = Frame "'f option" nat | Skip "string option" | Starve

function resync_scan :: "(u8 list \<Rightarrow> 'f head) \<Rightarrow> u8 list \<Rightarrow> ('f + string) list \<times> u8 list" where
  "resync_scan head r =
     (if r = [] then ([], [])
      else
       (case head r of
          Starve \<Rightarrow> ([], r)
        | Skip e \<Rightarrow> (case resync_scan head (drop 1 r) of (ev, q) \<Rightarrow> (case e of None \<Rightarrow> ev | Some k \<Rightarrow> Inr k # ev, q))
        | Frame x n \<Rightarrow> (case resync_scan head (drop (max 1 n) r) of (ev, q) \<Rightarrow> (case x of None \<Rightarrow> ev | Some f \<Rightarrow> Inl f # ev, q))))"
  by auto
termination by (relation "measure (length \<circ> snd)") auto

declare resync_scan.simps [simp del]

text \<open>The laws of a message format: a message is recognised by its own bytes alone, what follows does not change a verdict, and
  a byte that starts no message is skipped silently.\<close>

locale resync =
  fixes head :: "u8 list \<Rightarrow> 'f head" and start :: u8
  assumes frame_length: "head r = Frame x n \<Longrightarrow> 0 < n \<and> n \<le> length r"
    and frame_local: "head r = Frame x n \<Longrightarrow> head (take n r @ s) = Frame x n"
    and skip_stable: "head r = Skip e \<Longrightarrow> r \<noteq> [] \<and> head (r @ s) = Skip e"
    and quiet: "b \<noteq> start \<Longrightarrow> head (b # r) = Skip None"
begin

lemma scan_Frame:
  assumes "head r = Frame x n"
  shows "resync_scan head r = (case resync_scan head (drop n r) of (ev, q) \<Rightarrow> (case x of None \<Rightarrow> ev | Some f \<Rightarrow> Inl f # ev, q))"
proof -
  have "r \<noteq> []" "max 1 n = n" using frame_length [OF assms] by (auto simp: max_def)
  then show ?thesis using assms by (subst resync_scan.simps) simp
qed

lemma scan_Skip:
  "head r = Skip e \<Longrightarrow> resync_scan head r = (case resync_scan head (tl r) of (ev, q) \<Rightarrow> (case e of None \<Rightarrow> ev | Some k \<Rightarrow> Inr k # ev, q))"
  using skip_stable [of r e "[]"] by (subst resync_scan.simps) (simp add: drop_Suc)

lemma scan_Starve: "head r = Starve \<Longrightarrow> resync_scan head r = ([], r)"
  by (subst resync_scan.simps) simp

lemma scan_Nil [simp]: "resync_scan head [] = ([], [])"
  by (subst resync_scan.simps) simp

lemma scan_quiet_byte: "b \<noteq> start \<Longrightarrow> resync_scan head (b # r) = resync_scan head r"
  using quiet [of b r] by (simp add: scan_Skip split: prod.split)

lemma scan_quiet: "start \<notin> set j \<Longrightarrow> resync_scan head (j @ r) = resync_scan head r"
  by (induction j) (auto simp: scan_quiet_byte)

lemma scan_frame_at:
  "head m = Frame x (length m) \<Longrightarrow>
     resync_scan head (m @ r) = (case resync_scan head r of (ev, q) \<Rightarrow> (case x of None \<Rightarrow> ev | Some f \<Rightarrow> Inl f # ev, q))"
  using frame_local [of m x "length m" r] scan_Frame [of "m @ r" x "length m"] by simp

text \<open>Messages between silent bytes all arrive, in order and once each.\<close>

lemma scan_stream:
  assumes "\<forall>(j, m, f) \<in> set xs. start \<notin> set j \<and> head m = Frame f (length m)"
  shows "resync_scan head (concat (map (\<lambda>(j, m, f). j @ m) xs)) = (map Inl (List.map_filter (\<lambda>(j, m, f). f) xs), [])"
  using assms
proof (induction xs)
  case (Cons x xs)
  obtain j m f where x: "x = (j, m, f)" by (cases x)
  then have jm: "start \<notin> set j" "head m = Frame f (length m)" using Cons.prems by auto
  have "resync_scan head (concat (map (\<lambda>(j, m, f). j @ m) xs)) = (map Inl (List.map_filter (\<lambda>(j, m, f). f) xs), [])"
    using Cons.prems by (intro Cons.IH) simp
  then show ?case using jm by (simp add: x scan_quiet scan_frame_at List.map_filter_simps split: option.split)
qed (simp add: List.map_filter_simps)

text \<open>Scanning in chunks is scanning the whole: the undecided rest is taken up again.\<close>

lemma scan_chunks:
  "resync_scan head (r @ s) = (case resync_scan head r of (ev, q) \<Rightarrow> case resync_scan head (q @ s) of (ev', q') \<Rightarrow> (ev @ ev', q'))"
proof (induction "length r" arbitrary: r rule: less_induct)
  case less
  show ?case
  proof (cases "head r")
    case (Frame x n)
    have n: "0 < n" "n \<le> length r" using frame_length [OF Frame] by auto
    have "r @ s = take n r @ drop n r @ s" by (metis append.assoc append_take_drop_id)
    then have "head (r @ s) = Frame x n" using frame_local [OF Frame] by metis
    then have "resync_scan head (r @ s) = (case resync_scan head (drop n r @ s) of (ev, q) \<Rightarrow> (case x of None \<Rightarrow> ev | Some f \<Rightarrow> Inl f # ev, q))"
      using n by (simp add: scan_Frame)
    also have "resync_scan head (drop n r @ s) =
        (case resync_scan head (drop n r) of (ev, q) \<Rightarrow> case resync_scan head (q @ s) of (ev', q') \<Rightarrow> (ev @ ev', q'))"
      using n by (intro less) simp
    finally show ?thesis by (simp add: scan_Frame [OF Frame] split: prod.split option.split)
  next
    case (Skip e)
    note k = skip_stable [OF Skip, of s]
    then have "resync_scan head (r @ s) = (case resync_scan head (tl r @ s) of (ev, q) \<Rightarrow> (case e of None \<Rightarrow> ev | Some k \<Rightarrow> Inr k # ev, q))"
      by (simp add: scan_Skip)
    also have "resync_scan head (tl r @ s) =
        (case resync_scan head (tl r) of (ev, q) \<Rightarrow> case resync_scan head (q @ s) of (ev', q') \<Rightarrow> (ev @ ev', q'))"
      using k by (intro less) simp
    finally show ?thesis by (simp add: scan_Skip [OF Skip] split: prod.split option.split)
  next
    case Starve
    then show ?thesis by (simp add: scan_Starve split: prod.split)
  qed
qed

text \<open>Nothing is fabricated: a message delivered stands in the stream.\<close>

lemma scan_delivers:
  "Inl f \<in> set (fst (resync_scan head r)) \<Longrightarrow> \<exists>u m v. r = u @ m @ v \<and> head m = Frame (Some f) (length m)"
proof (induction "length r" arbitrary: r rule: less_induct)
  case less
  have in_tail: "\<exists>u m v. r = u @ m @ v \<and> head m = Frame (Some f) (length m)"
    if "Inl f \<in> set (fst (resync_scan head (drop n r)))" "0 < n" "0 < length r" for n
  proof -
    have "length (drop n r) < length r" using that by simp
    then have "\<exists>u m v. drop n r = u @ m @ v \<and> head m = Frame (Some f) (length m)" using that(1) by (rule less.hyps)
    then obtain u m v where t: "drop n r = u @ m @ v" "head m = Frame (Some f) (length m)" by blast
    have "r = (take n r @ u) @ m @ v" using append_take_drop_id [of n r] t(1) by simp
    then show ?thesis using t(2) by blast
  qed
  show ?case
  proof (cases "head r")
    case (Frame x n)
    have n: "0 < n" "n \<le> length r" using frame_length [OF Frame] by auto
    have here: "r = [] @ take n r @ drop n r" "head (take n r) = Frame x (length (take n r))"
      using n frame_local [OF Frame, of "[]"] by simp_all
    from less.prems consider "x = Some f" | "Inl f \<in> set (fst (resync_scan head (drop n r)))"
      by (auto simp: scan_Frame [OF Frame] split: prod.splits option.splits)
    then show ?thesis
    proof cases
      case 1
      then show ?thesis using here by blast
    next
      case 2
      then show ?thesis using n by (intro in_tail) auto
    qed
  next
    case (Skip e)
    have "r \<noteq> []" using skip_stable [OF Skip] by blast
    moreover have "Inl f \<in> set (fst (resync_scan head (drop 1 r)))"
      using less.prems by (auto simp: scan_Skip [OF Skip] drop_Suc split: prod.splits option.splits)
    ultimately show ?thesis by (intro in_tail) auto
  qed (use less.prems scan_Starve in simp)
qed

lemma scan_prefix: "\<exists>more. fst (resync_scan head (r @ s)) = fst (resync_scan head r) @ more"
  by (subst scan_chunks) (auto split: prod.split)

end

section \<open>Messages with a length field\<close>

text \<open>A header of \<open>h\<close> bytes gives the extent of the message or is implausible; the complete message then passes its checksum or not.\<close>

definition sized :: "nat \<Rightarrow> (u8 list \<Rightarrow> nat option) \<Rightarrow> string \<Rightarrow> (u8 list \<Rightarrow> bool) \<Rightarrow> string \<Rightarrow> (u8 list \<Rightarrow> 'f option) \<Rightarrow> u8 list \<Rightarrow> 'f head" where
  "sized h extent lerr ok cerr mk r =
     (if length r < h then Starve
      else
       (case extent (take h r) of None \<Rightarrow> Skip (Some lerr)
        | Some n \<Rightarrow> if length r < n then Starve else if \<not> ok (take n r) then Skip (Some cerr) else Frame (mk (take n r)) n))"

lemma sized_laws:
  assumes "\<And>m n. extent m = Some n \<Longrightarrow> h \<le> n"
  shows "sized h extent lerr ok cerr mk q = Frame x n \<Longrightarrow> n \<le> length q"
    "sized h extent lerr ok cerr mk q = Frame x n \<Longrightarrow> sized h extent lerr ok cerr mk (take n q @ s) = Frame x n"
    "sized h extent lerr ok cerr mk q = Skip e \<Longrightarrow> sized h extent lerr ok cerr mk (q @ s) = Skip e"
  using assms by (auto simp: sized_def min_def split: if_splits option.splits dest: assms)

section \<open>Formats with two sync bytes\<close>

text \<open>The verdict after the sync bytes, seen from before them: an error consumes them, which for two different bytes is
  skipping the first with the error and the second silently.\<close>

definition synced :: "u8 \<Rightarrow> u8 \<Rightarrow> (u8 list \<Rightarrow> 'f head) \<Rightarrow> u8 list \<Rightarrow> 'f head" where
  "synced s1 s2 verdict r =
     (case r of
        b # b2 # q \<Rightarrow>
          if b \<noteq> s1 \<or> b2 \<noteq> s2 then Skip None
          else (case verdict q of Frame x n \<Rightarrow> Frame x (n + 2) | Skip e \<Rightarrow> Skip e | Starve \<Rightarrow> Starve)
      | [b] \<Rightarrow> if b \<noteq> s1 then Skip None else Starve
      | [] \<Rightarrow> Starve)"

locale synced_format =
  fixes verdict :: "u8 list \<Rightarrow> 'f head" and s1 s2 :: u8
  assumes differ: "s1 \<noteq> s2"
    and verdict_length: "verdict q = Frame x n \<Longrightarrow> n \<le> length q"
    and verdict_local: "verdict q = Frame x n \<Longrightarrow> verdict (take n q @ s) = Frame x n"
    and verdict_stable: "verdict q = Skip e \<Longrightarrow> verdict (q @ s) = Skip e"

sublocale synced_format \<subseteq> resync "synced s1 s2 verdict" s1
proof
  fix r s x n e b
  show "synced s1 s2 verdict r = Frame x n \<Longrightarrow> 0 < n \<and> n \<le> length r"
    by (auto simp: synced_def dest: verdict_length split: list.splits if_splits head.splits)
  show "synced s1 s2 verdict r = Frame x n \<Longrightarrow> synced s1 s2 verdict (take n r @ s) = Frame x n"
    by (auto simp: synced_def verdict_local split: list.splits if_splits head.splits)
  show "synced s1 s2 verdict r = Skip e \<Longrightarrow> r \<noteq> [] \<and> synced s1 s2 verdict (r @ s) = Skip e"
    by (auto simp: synced_def verdict_stable split: list.splits if_splits head.splits)
  show "b \<noteq> s1 \<Longrightarrow> synced s1 s2 verdict (b # r) = Skip None"
    by (auto simp: synced_def split: list.splits)
qed

context synced_format
begin

lemma synced_at: "verdict m = Frame x (length m) \<Longrightarrow> synced s1 s2 verdict (s1 # s2 # m) = Frame x (length (s1 # s2 # m))"
  by (simp add: synced_def)

text \<open>The scan from the next sync pattern on, as the scanners are written.\<close>

lemma scan_events:
  "fst (resync_scan (synced s1 s2 verdict) r) =
     (case syncTo s1 s2 r of None \<Rightarrow> []
      | Some q \<Rightarrow> (case verdict q of
            Starve \<Rightarrow> []
          | Skip e \<Rightarrow> (case e of None \<Rightarrow> [] | Some k \<Rightarrow> [Inr k]) @ fst (resync_scan (synced s1 s2 verdict) q)
          | Frame x n \<Rightarrow> (case x of None \<Rightarrow> [] | Some f \<Rightarrow> [Inl f]) @ fst (resync_scan (synced s1 s2 verdict) (drop n q))))"
proof (induction "length r" arbitrary: r rule: less_induct)
  case less
  let ?h = "synced s1 s2 verdict"
  consider "r = []" | b where "r = [b]" | b b2 q where "r = b # b2 # q" by (cases r; cases "tl r") auto
  then show ?case
  proof cases
    case 2
    then show ?thesis by (cases "b = s1") (simp_all add: scan_quiet_byte scan_Starve synced_def)
  next
    case 3
    consider "b \<noteq> s1" | "b = s1" "b2 = s2" | "b = s1" "b2 = s1" | "b = s1" "b2 \<noteq> s2" "b2 \<noteq> s1" by auto
    then show ?thesis
    proof cases
      case 1
      then show ?thesis using less.hyps [of "b2 # q"] by (simp add: 3 scan_quiet_byte)
    next
      case 2
      show ?thesis
      proof (cases "verdict q")
        case (Frame x n)
        then have "?h r = Frame x (n + 2)" using 2 3 by (simp add: synced_def)
        then show ?thesis using Frame 2 3 by (simp add: scan_Frame split: prod.split option.split)
      next
        case (Skip e)
        then have "?h r = Skip e" using 2 3 by (simp add: synced_def)
        then show ?thesis using Skip 2 3 differ by (simp add: scan_Skip scan_quiet_byte split: prod.split option.split)
      next
        case Starve
        then have "?h r = Starve" using 2 3 by (simp add: synced_def)
        then show ?thesis using Starve 2 3 by (simp add: scan_Starve)
      qed
    next
      case twice: 3
      then have "?h r = Skip None" using 3 differ by (simp add: synced_def)
      then show ?thesis using less.hyps [of "b2 # q"] 3 twice differ by (simp add: scan_Skip split: prod.split)
    next
      case 4
      then have "?h r = Skip None" using 3 by (simp add: synced_def)
      then show ?thesis using less.hyps [of q] 3 4 by (simp add: scan_Skip scan_quiet_byte split: prod.split)
    qed
  qed simp
qed

end

lemma sized_synced:
  assumes "\<And>m n. extent m = Some n \<Longrightarrow> h \<le> n" "s1 \<noteq> s2"
  shows "synced_format (sized h extent lerr ok cerr mk) s1 s2"
proof
  show "s1 \<noteq> s2" by (rule assms)
  note laws = sized_laws [where h = h and extent = extent, OF assms(1)]
  fix q x n s e
  show "sized h extent lerr ok cerr mk q = Frame x n \<Longrightarrow> n \<le> length q" by (rule laws)
  show "sized h extent lerr ok cerr mk q = Frame x n \<Longrightarrow> sized h extent lerr ok cerr mk (take n q @ s) = Frame x n" by (rule laws)
  show "sized h extent lerr ok cerr mk q = Skip e \<Longrightarrow> sized h extent lerr ok cerr mk (q @ s) = Skip e" by (rule laws)
qed

end
