(* ===== verification/ReceiverSolution.thy ===== *)
theory ReceiverSolution
  imports Bytes
begin

text \<open>
  \<^verbatim>\<open>go/internal/ingest/solution.go\<close>: one epoch of the receiver's own navigation solution, its telemetry body (type 3), the
  u-blox messages it is filled from, and the assembler that joins the blocks of an epoch. Pointers to blocks are options.
\<close>

unbundle bit_operations_syntax

section \<open>The code\<close>

definition TelemReceiverSolution :: int where "TelemReceiverSolution = 0x03"
definition telemBodyVersion :: u8 where "telemBodyVersion = 1"

definition solutionHasPVT :: u8 where "solutionHasPVT = 0x01"
definition solutionHasClock :: u8 where "solutionHasClock = 0x02"
definition solutionHasStatus :: u8 where "solutionHasStatus = 0x04"

definition solutionPVTLen :: nat where "solutionPVTLen = 64"
definition solutionClockLen :: nat where "solutionClockLen = 20"
definition solutionStatusLen :: nat where "solutionStatusLen = 16"
definition solutionWeekMS :: u32 where "solutionWeekMS = 7 * 24 * 3600 * 1000"

definition UTCValidDate :: u8 where "UTCValidDate = 0x01"
definition UTCValidTime :: u8 where "UTCValidTime = 0x02"
definition UTCValidFullyResolved :: u8 where "UTCValidFullyResolved = 0x04"
definition FixFlagOK :: u8 where "FixFlagOK = 0x01"
definition FixFlagDifferential :: u8 where "FixFlagDifferential = 0x02"
definition FixFlagCarrierFloat :: u8 where "FixFlagCarrierFloat = 0x40"
definition FixFlagCarrierFixed :: u8 where "FixFlagCarrierFixed = 0x80"
definition PosFlagInvalidLLH :: u16 where "PosFlagInvalidLLH = 0x0001"

definition StampUnknown :: u8 where "StampUnknown = 1"
definition StampRTC :: u8 where "StampRTC = 2"
definition StampGNSS :: u8 where "StampGNSS = 3"
definition StampNetwork :: u8 where "StampNetwork = 4"
definition StampFactory :: u8 where "StampFactory = 5"

record solution_pvt =
  pvt_TOWMS :: u32
  pvt_Year :: u16
  pvt_Month :: u8
  pvt_Day :: u8
  pvt_Hour :: u8
  pvt_Minute :: u8
  pvt_Second :: u8
  pvt_UTCValid :: u8
  pvt_TAccNS :: u32
  pvt_NanoNS :: int
  pvt_FixType :: u8
  pvt_FixFlags :: u8
  pvt_NumSV :: u8
  pvt_LonE7 :: int
  pvt_LatE7 :: int
  pvt_HeightMM :: int
  pvt_HAccMM :: u32
  pvt_VAccMM :: u32
  pvt_VelNMMS :: int
  pvt_VelEMMS :: int
  pvt_VelDMMS :: int
  pvt_SAccMMS :: u32
  pvt_PDOPx100 :: u16
  pvt_PosFlags :: u16

record solution_clock =
  scl_TOWMS :: u32
  scl_BiasNS :: int
  scl_DriftNSS :: int
  scl_TAccNS :: u32
  scl_FAccPSS :: u32

record solution_status =
  sst_TOWMS :: u32
  sst_FixType :: u8
  sst_Flags :: u8
  sst_FixStatus :: u8
  sst_SpoofState :: u8
  sst_TTFFMS :: u32
  sst_SinceStart :: u32

record receiver_solution =
  rs_PVT :: "solution_pvt option"
  rs_Clock :: "solution_clock option"
  rs_Status :: "solution_status option"
  rs_StampSource :: u8

datatype telemetry_error = ErrBadTelemetry

definition put_i32 :: "int \<Rightarrow> u8 list" where
  "put_i32 v = PutUint32 (word_of_int v)"

definition get_i32 :: "u8 list \<Rightarrow> int" where
  "get_i32 bs = sint (Uint32 bs)"

definition encode_pvt :: "solution_pvt \<Rightarrow> u8 list" where
  "encode_pvt p = PutUint32 (pvt_TOWMS p) @ PutUint16 (pvt_Year p) @
     [pvt_Month p, pvt_Day p, pvt_Hour p, pvt_Minute p, pvt_Second p, pvt_UTCValid p] @ PutUint32 (pvt_TAccNS p) @ put_i32 (pvt_NanoNS p) @
     [pvt_FixType p, pvt_FixFlags p, pvt_NumSV p, 0] @ put_i32 (pvt_LonE7 p) @ put_i32 (pvt_LatE7 p) @ put_i32 (pvt_HeightMM p) @
     PutUint32 (pvt_HAccMM p) @ PutUint32 (pvt_VAccMM p) @ put_i32 (pvt_VelNMMS p) @ put_i32 (pvt_VelEMMS p) @ put_i32 (pvt_VelDMMS p) @
     PutUint32 (pvt_SAccMMS p) @ PutUint16 (pvt_PDOPx100 p) @ PutUint16 (pvt_PosFlags p)"

definition encode_clock :: "solution_clock \<Rightarrow> u8 list" where
  "encode_clock c = PutUint32 (scl_TOWMS c) @ put_i32 (scl_BiasNS c) @ put_i32 (scl_DriftNSS c) @ PutUint32 (scl_TAccNS c) @
     PutUint32 (scl_FAccPSS c)"

definition encode_status :: "solution_status \<Rightarrow> u8 list" where
  "encode_status st = PutUint32 (sst_TOWMS st) @ [sst_FixType st, sst_Flags st, sst_FixStatus st, sst_SpoofState st] @
     PutUint32 (sst_TTFFMS st) @ PutUint32 (sst_SinceStart st)"

definition EncodeReceiverSolution :: "receiver_solution \<Rightarrow> u8 list" where
  "EncodeReceiverSolution s =
     (let present = (if rs_PVT s \<noteq> None then solutionHasPVT else 0) OR (if rs_Clock s \<noteq> None then solutionHasClock else 0) OR
            (if rs_Status s \<noteq> None then solutionHasStatus else 0)
      in [if rs_StampSource s \<noteq> 0 then 2 else telemBodyVersion, present] @
         (case rs_PVT s of None \<Rightarrow> [] | Some p \<Rightarrow> encode_pvt p) @
         (case rs_Clock s of None \<Rightarrow> [] | Some c \<Rightarrow> encode_clock c) @
         (case rs_Status s of None \<Rightarrow> [] | Some st \<Rightarrow> encode_status st) @
         (if rs_StampSource s \<noteq> 0 then [rs_StampSource s] else []))"

definition pvt_valid :: "solution_pvt \<Rightarrow> bool" where
  "pvt_valid p \<longleftrightarrow>
     \<not> (pvt_TOWMS p \<ge> solutionWeekMS \<or> pvt_UTCValid p AND NOT (UTCValidDate OR UTCValidTime OR UTCValidFullyResolved) \<noteq> 0 \<or>
        pvt_FixType p > 5 \<or>
        pvt_FixFlags p AND NOT (FixFlagOK OR FixFlagDifferential OR FixFlagCarrierFloat OR FixFlagCarrierFixed) \<noteq> 0 \<or>
        pvt_FixFlags p AND (FixFlagCarrierFloat OR FixFlagCarrierFixed) = FixFlagCarrierFloat OR FixFlagCarrierFixed \<or>
        pvt_LatE7 p < -900000000 \<or> pvt_LatE7 p > 900000000 \<or> pvt_LonE7 p < -1800000000 \<or> pvt_LonE7 p > 1800000000 \<or>
        pvt_PosFlags p AND NOT PosFlagInvalidLLH \<noteq> 0 \<or> pvt_NanoNS p \<le> -1000000000 \<or> pvt_NanoNS p \<ge> 1000000000) \<and>
     \<not> (pvt_UTCValid p AND UTCValidDate \<noteq> 0 \<and> (pvt_Year p < 1999 \<or> pvt_Year p > 2200 \<or> pvt_Month p < 1 \<or> pvt_Month p > 12 \<or>
        pvt_Day p < 1 \<or> pvt_Day p > 31)) \<and>
     \<not> (pvt_UTCValid p AND UTCValidTime \<noteq> 0 \<and> (pvt_Hour p > 23 \<or> pvt_Minute p > 59 \<or> pvt_Second p > 60))"

definition decode_pvt :: "u8 list \<Rightarrow> telemetry_error + solution_pvt" where
  "decode_pvt v =
     (let p = \<lparr>pvt_TOWMS = Uint32 (take 4 v), pvt_Year = Uint16 (take 2 (drop 4 v)), pvt_Month = v ! 6, pvt_Day = v ! 7, pvt_Hour = v ! 8,
                pvt_Minute = v ! 9, pvt_Second = v ! 10, pvt_UTCValid = v ! 11, pvt_TAccNS = Uint32 (take 4 (drop 12 v)),
                pvt_NanoNS = get_i32 (take 4 (drop 16 v)), pvt_FixType = v ! 20, pvt_FixFlags = v ! 21, pvt_NumSV = v ! 22,
                pvt_LonE7 = get_i32 (take 4 (drop 24 v)), pvt_LatE7 = get_i32 (take 4 (drop 28 v)), pvt_HeightMM = get_i32 (take 4 (drop 32 v)),
                pvt_HAccMM = Uint32 (take 4 (drop 36 v)), pvt_VAccMM = Uint32 (take 4 (drop 40 v)), pvt_VelNMMS = get_i32 (take 4 (drop 44 v)),
                pvt_VelEMMS = get_i32 (take 4 (drop 48 v)), pvt_VelDMMS = get_i32 (take 4 (drop 52 v)), pvt_SAccMMS = Uint32 (take 4 (drop 56 v)),
                pvt_PDOPx100 = Uint16 (take 2 (drop 60 v)), pvt_PosFlags = Uint16 (take 2 (drop 62 v))\<rparr>
      in if \<not> pvt_valid p \<or> v ! 23 \<noteq> 0 then Inl ErrBadTelemetry else Inr p)"

definition decode_clock :: "u8 list \<Rightarrow> telemetry_error + solution_clock" where
  "decode_clock v =
     (let c = \<lparr>scl_TOWMS = Uint32 (take 4 v), scl_BiasNS = get_i32 (take 4 (drop 4 v)), scl_DriftNSS = get_i32 (take 4 (drop 8 v)),
                scl_TAccNS = Uint32 (take 4 (drop 12 v)), scl_FAccPSS = Uint32 (take 4 (drop 16 v))\<rparr>
      in if scl_TOWMS c \<ge> solutionWeekMS then Inl ErrBadTelemetry else Inr c)"

definition decode_status :: "u8 list \<Rightarrow> telemetry_error + solution_status" where
  "decode_status v =
     (let st = \<lparr>sst_TOWMS = Uint32 (take 4 v), sst_FixType = v ! 4, sst_Flags = v ! 5, sst_FixStatus = v ! 6, sst_SpoofState = v ! 7,
                 sst_TTFFMS = Uint32 (take 4 (drop 8 v)), sst_SinceStart = Uint32 (take 4 (drop 12 v))\<rparr>
      in if sst_TOWMS st \<ge> solutionWeekMS \<or> sst_FixType st > 5 \<or> sst_SpoofState st > 3 then Inl ErrBadTelemetry else Inr st)"

text \<open>One optional block: absent, or decoded from its slice; the offset moves past it.\<close>

definition decode_block :: "bool \<Rightarrow> nat \<Rightarrow> (u8 list \<Rightarrow> telemetry_error + 'b) \<Rightarrow> u8 list \<Rightarrow> nat \<Rightarrow> telemetry_error + 'b option \<times> nat" where
  "decode_block present n dec b off =
     (if present then (case dec (take n (drop off b)) of Inl e \<Rightarrow> Inl e | Inr x \<Rightarrow> Inr (Some x, off + n)) else Inr (None, off))"

definition decodeReceiverSolution :: "u8 list \<Rightarrow> telemetry_error + receiver_solution" where
  "decodeReceiverSolution b =
     (if length b < 2 \<or> (b ! 0 \<noteq> telemBodyVersion \<and> b ! 0 \<noteq> 2) \<or> b ! 1 = 0 \<or>
         b ! 1 AND NOT (solutionHasPVT OR solutionHasClock OR solutionHasStatus) \<noteq> 0 then Inl ErrBadTelemetry
      else
       (let present = b ! 1;
            hasP = present AND solutionHasPVT \<noteq> 0; hasC = present AND solutionHasClock \<noteq> 0; hasS = present AND solutionHasStatus \<noteq> 0;
            want = 2 + (if hasP then solutionPVTLen else 0) + (if hasC then solutionClockLen else 0) + (if hasS then solutionStatusLen else 0)
                     + (if b ! 0 = 2 then 1 else 0);
            stamp = (if b ! 0 = 2 then b ! (length b - 1) else 0)
        in if length b \<noteq> want then Inl ErrBadTelemetry
           else if b ! 0 = 2 \<and> (stamp < StampUnknown \<or> stamp > StampFactory) then Inl ErrBadTelemetry
           else
            (case decode_block hasP solutionPVTLen decode_pvt b 2 of Inl e \<Rightarrow> Inl e
             | Inr (pvt, o1) \<Rightarrow>
              (case decode_block hasC solutionClockLen decode_clock b o1 of Inl e \<Rightarrow> Inl e
               | Inr (clk, o2) \<Rightarrow>
                (case decode_block hasS solutionStatusLen decode_status b o2 of Inl e \<Rightarrow> Inl e
                 | Inr (sts, _) \<Rightarrow> Inr \<lparr>rs_PVT = pvt, rs_Clock = clk, rs_Status = sts, rs_StampSource = stamp\<rparr>)))))"

definition tow :: "receiver_solution \<Rightarrow> u32" where
  "tow s = (case rs_PVT s of Some p \<Rightarrow> pvt_TOWMS p
     | None \<Rightarrow> (case rs_Clock s of Some c \<Rightarrow> scl_TOWMS c
       | None \<Rightarrow> (case rs_Status s of Some st \<Rightarrow> sst_TOWMS st | None \<Rightarrow> 0)))"

definition ubxIDNAVSTATUS :: u8 where "ubxIDNAVSTATUS = 0x03"
definition ubxIDNAVPVT :: u8 where "ubxIDNAVPVT = 0x07"
definition ubxIDNAVCLOCK :: u8 where "ubxIDNAVCLOCK = 0x22"
definition ubxIDNAVEOE :: u8 where "ubxIDNAVEOE = 0x61"
definition ubxNAVPVTLen :: nat where "ubxNAVPVTLen = 92"
definition ubxNAVCLOCKLen :: nat where "ubxNAVCLOCKLen = 20"
definition ubxNAVSTATUSLen :: nat where "ubxNAVSTATUSLen = 16"
definition ubxNAVEOELen :: nat where "ubxNAVEOELen = 4"

definition le_u32 :: "u8 list \<Rightarrow> nat \<Rightarrow> u32" where "le_u32 p off = LEUint32 (drop off p)"
definition le_u16 :: "u8 list \<Rightarrow> nat \<Rightarrow> u16" where "le_u16 p off = LEUint16 (drop off p)"
definition le_i32 :: "u8 list \<Rightarrow> nat \<Rightarrow> int" where "le_i32 p off = sint (le_u32 p off)"

definition parseNAVPVT :: "u8 list \<Rightarrow> solution_pvt option" where
  "parseNAVPVT p =
     (if length p \<noteq> ubxNAVPVTLen then None
      else
       (let flags = p ! 21;
            pvt = \<lparr>pvt_TOWMS = le_u32 p 0, pvt_Year = le_u16 p 4, pvt_Month = p ! 6, pvt_Day = p ! 7, pvt_Hour = p ! 8, pvt_Minute = p ! 9,
                   pvt_Second = p ! 10, pvt_UTCValid = p ! 11 AND (UTCValidDate OR UTCValidTime OR UTCValidFullyResolved),
                   pvt_TAccNS = le_u32 p 12, pvt_NanoNS = le_i32 p 16, pvt_FixType = p ! 20,
                   pvt_FixFlags = flags AND (FixFlagOK OR FixFlagDifferential OR FixFlagCarrierFloat OR FixFlagCarrierFixed),
                   pvt_NumSV = p ! 23, pvt_LonE7 = le_i32 p 24, pvt_LatE7 = le_i32 p 28, pvt_HeightMM = le_i32 p 32,
                   pvt_HAccMM = le_u32 p 40, pvt_VAccMM = le_u32 p 44, pvt_VelNMMS = le_i32 p 48, pvt_VelEMMS = le_i32 p 52,
                   pvt_VelDMMS = le_i32 p 56, pvt_SAccMMS = le_u32 p 68, pvt_PDOPx100 = le_u16 p 76,
                   pvt_PosFlags = le_u16 p 78 AND PosFlagInvalidLLH\<rparr>
        in if \<not> pvt_valid pvt then None else Some pvt))"

definition parseNAVCLOCK :: "u8 list \<Rightarrow> solution_clock option" where
  "parseNAVCLOCK p =
     (if length p \<noteq> ubxNAVCLOCKLen then None
      else
       (let c = \<lparr>scl_TOWMS = le_u32 p 0, scl_BiasNS = le_i32 p 4, scl_DriftNSS = le_i32 p 8, scl_TAccNS = le_u32 p 12, scl_FAccPSS = le_u32 p 16\<rparr>
        in if scl_TOWMS c \<ge> solutionWeekMS then None else Some c))"

definition parseNAVSTATUS :: "u8 list \<Rightarrow> solution_status option" where
  "parseNAVSTATUS p =
     (if length p \<noteq> ubxNAVSTATUSLen then None
      else
       (let st = \<lparr>sst_TOWMS = le_u32 p 0, sst_FixType = p ! 4, sst_Flags = p ! 5, sst_FixStatus = p ! 6,
                  sst_SpoofState = drop_bit 3 (p ! 7) AND 0x03, sst_TTFFMS = le_u32 p 8, sst_SinceStart = le_u32 p 12\<rparr>
        in if sst_TOWMS st \<ge> solutionWeekMS \<or> sst_FixType st > 5 then None else Some st))"

record solution_assembler =
  sa_pending :: "receiver_solution option"
  sa_arrived :: int
  sa_lastDone :: u32
  sa_haveDone :: bool

type_synonym completed_epoch = "receiver_solution \<times> int"

definition empty_solution :: receiver_solution where
  "empty_solution = \<lparr>rs_PVT = None, rs_Clock = None, rs_Status = None, rs_StampSource = 0\<rparr>"

definition assembler0 :: solution_assembler where
  "assembler0 = \<lparr>sa_pending = None, sa_arrived = 0, sa_lastDone = 0, sa_haveDone = False\<rparr>"

definition assembler_add ::
  "solution_assembler \<Rightarrow> u32 \<Rightarrow> int \<Rightarrow> (receiver_solution \<Rightarrow> receiver_solution) \<Rightarrow> completed_epoch option \<times> solution_assembler" where
  "assembler_add a t now merge =
     (if sa_haveDone a \<and> t = sa_lastDone a then (None, a)
      else
       (let (done, a1) = (case sa_pending a of
              Some p \<Rightarrow> if tow p \<noteq> t then (Some (p, sa_arrived a), a\<lparr>sa_pending := None, sa_lastDone := tow p, sa_haveDone := True\<rparr>) else (None, a)
            | None \<Rightarrow> (None, a));
            a2 = (if sa_pending a1 = None then a1\<lparr>sa_pending := Some empty_solution, sa_arrived := now\<rparr> else a1)
        in (done, a2\<lparr>sa_pending := map_option merge (sa_pending a2)\<rparr>)))"

definition endOfEpoch :: "solution_assembler \<Rightarrow> u32 \<Rightarrow> completed_epoch option \<times> solution_assembler" where
  "endOfEpoch a t =
     (case sa_pending a of None \<Rightarrow> (None, a)
      | Some p \<Rightarrow> if tow p \<noteq> t then (None, a)
                  else (Some (p, sa_arrived a), a\<lparr>sa_pending := None, sa_lastDone := t, sa_haveDone := True\<rparr>))"

section \<open>The codec\<close>

lemma length_put_i32 [simp]: "length (put_i32 v) = 4"
  by (simp add: put_i32_def)

lemma get_put_i32 [simp]: "sfits 32 v \<Longrightarrow> get_i32 (put_i32 v) = v"
  by (simp add: get_i32_def put_i32_def)

lemma put_get_i32: "length bs = 4 \<Longrightarrow> put_i32 (get_i32 bs) = bs"
  by (simp add: get_i32_def put_i32_def PutUint32_Uint32)

lemma sfits_get_i32 [simp]: "sfits 32 (get_i32 bs)"
  by (simp add: get_i32_def)

definition pvt_ok :: "solution_pvt \<Rightarrow> bool" where
  "pvt_ok p \<longleftrightarrow> pvt_valid p \<and> sfits 32 (pvt_NanoNS p) \<and> sfits 32 (pvt_LonE7 p) \<and> sfits 32 (pvt_LatE7 p) \<and> sfits 32 (pvt_HeightMM p) \<and>
     sfits 32 (pvt_VelNMMS p) \<and> sfits 32 (pvt_VelEMMS p) \<and> sfits 32 (pvt_VelDMMS p)"

definition clock_ok :: "solution_clock \<Rightarrow> bool" where
  "clock_ok c \<longleftrightarrow> scl_TOWMS c < solutionWeekMS \<and> sfits 32 (scl_BiasNS c) \<and> sfits 32 (scl_DriftNSS c)"

definition status_ok :: "solution_status \<Rightarrow> bool" where
  "status_ok st \<longleftrightarrow> sst_TOWMS st < solutionWeekMS \<and> sst_FixType st \<le> 5 \<and> sst_SpoofState st \<le> 3"

lemma length_blocks [simp]: "length (encode_pvt p) = 64" "length (encode_clock c) = 20" "length (encode_status st) = 16"
  by (simp_all add: encode_pvt_def encode_clock_def encode_status_def)

lemma decode_encode_pvt: "pvt_ok p \<Longrightarrow> decode_pvt (encode_pvt p) = Inr p"
  by (cases p) (simp add: pvt_ok_def encode_pvt_def decode_pvt_def Let_def nth_append nth_Cons')

lemma decode_encode_clock: "clock_ok c \<Longrightarrow> decode_clock (encode_clock c) = Inr c"
  by (cases c) (simp add: clock_ok_def encode_clock_def decode_clock_def Let_def not_le)

lemma decode_encode_status: "status_ok st \<Longrightarrow> decode_status (encode_status st) = Inr st"
  by (cases st) (simp add: status_ok_def encode_status_def decode_status_def Let_def nth_append nth_Cons' not_le not_less)

lemma encode_decode_clock: "length v = 20 \<Longrightarrow> decode_clock v = Inr c \<Longrightarrow> clock_ok c \<and> encode_clock c = v"
  using concat_byte_fields [of "[4, 4, 4, 4, 4]" v]
  by (auto simp: decode_clock_def clock_ok_def encode_clock_def Let_def PutUint32_Uint32 put_get_i32 split: if_splits)

lemma encode_decode_status: "length v = 16 \<Longrightarrow> decode_status v = Inr st \<Longrightarrow> status_ok st \<and> encode_status st = v"
  using concat_byte_fields [of "[4, 1, 1, 1, 1, 4, 4]" v]
  by (auto simp: decode_status_def status_ok_def encode_status_def Let_def PutUint32_Uint32 take_1 not_le not_less split: if_splits)

lemma encode_decode_pvt: "length v = 64 \<Longrightarrow> decode_pvt v = Inr p \<Longrightarrow> pvt_ok p \<and> encode_pvt p = v"
  using concat_byte_fields [of "[4, 2, 1, 1, 1, 1, 1, 1, 4, 4, 1, 1, 1, 1, 4, 4, 4, 4, 4, 4, 4, 4, 4, 2, 2]" v]
  by (auto simp: decode_pvt_def pvt_ok_def encode_pvt_def Let_def PutUint32_Uint32 PutUint16_Uint16 put_get_i32 take_1 split: if_splits)

definition solution_ok :: "receiver_solution \<Rightarrow> bool" where
  "solution_ok s \<longleftrightarrow> (rs_PVT s \<noteq> None \<or> rs_Clock s \<noteq> None \<or> rs_Status s \<noteq> None) \<and> pred_option pvt_ok (rs_PVT s) \<and>
     pred_option clock_ok (rs_Clock s) \<and> pred_option status_ok (rs_Status s) \<and> rs_StampSource s \<le> StampFactory"

lemmas has_flags = solutionHasPVT_def solutionHasClock_def solutionHasStatus_def
lemmas block_lens = solutionPVTLen_def solutionClockLen_def solutionStatusLen_def

definition flags_of :: "bool \<Rightarrow> bool \<Rightarrow> bool \<Rightarrow> u8" where
  "flags_of a b c = (if a then solutionHasPVT else 0) OR (if b then solutionHasClock else 0) OR (if c then solutionHasStatus else 0)"

lemma flags_of_bits:
  "flags_of a b c AND solutionHasPVT \<noteq> 0 \<longleftrightarrow> a" "flags_of a b c AND solutionHasClock \<noteq> 0 \<longleftrightarrow> b" "flags_of a b c AND solutionHasStatus \<noteq> 0 \<longleftrightarrow> c"
  "flags_of a b c = 0 \<longleftrightarrow> \<not> a \<and> \<not> b \<and> \<not> c"
  "flags_of a b c AND NOT (solutionHasPVT OR solutionHasClock OR solutionHasStatus) = 0"
  by (cases a; cases b; cases c; simp add: flags_of_def has_flags)+

lemma flags_of_recover:
  assumes "x AND NOT (solutionHasPVT OR solutionHasClock OR solutionHasStatus) = 0"
  shows "flags_of (x AND solutionHasPVT \<noteq> 0) (x AND solutionHasClock \<noteq> 0) (x AND solutionHasStatus \<noteq> 0) = x"
proof -
  have e: "x AND 1 \<noteq> 0 \<longleftrightarrow> bit x 0" "x AND 2 \<noteq> 0 \<longleftrightarrow> bit x 1" "x AND 4 \<noteq> 0 \<longleftrightarrow> bit x 2"
    using and_exp_eq_0_iff_not_bit [of x 0] and_exp_eq_0_iff_not_bit [of x 1] and_exp_eq_0_iff_not_bit [of x 2] by simp_all
  have m: "bit (1 :: u8) n \<longleftrightarrow> n = 0" "bit (2 :: u8) n \<longleftrightarrow> n = 1" "bit (4 :: u8) n \<longleftrightarrow> n = 2" for n
    using bit_exp_iff [of 1 n, where 'a = u8] bit_exp_iff [of 2 n, where 'a = u8] by (auto simp: bit_1_iff)
  have t: "bit (if P then (1 :: u8) else 0) n \<longleftrightarrow> P \<and> n = 0" "bit (if P then (2 :: u8) else 0) n \<longleftrightarrow> P \<and> n = 1"
      "bit (if P then (4 :: u8) else 0) n \<longleftrightarrow> P \<and> n = 2" for P n
    by (simp_all only: m split: if_split) simp_all
  have high: "\<not> bit x n" if "n < 8" "n \<noteq> 0" "n \<noteq> 1" "n \<noteq> 2" for n
  proof -
    have "\<not> bit (x AND NOT (1 OR 2 OR 4)) n" using assms by (simp add: has_flags)
    then show ?thesis using that by (simp only: bit_and_iff bit_not_iff_eq bit_or_iff m) simp
  qed
  show ?thesis
  proof (rule bit_word_eqI)
    fix n assume "n < LENGTH(8)"
    then show "bit (flags_of (x AND solutionHasPVT \<noteq> 0) (x AND solutionHasClock \<noteq> 0) (x AND solutionHasStatus \<noteq> 0)) n = bit x n"
      unfolding flags_of_def has_flags e bit_or_iff t using high [of n] by auto
  qed
qed

lemma decode_block_Inr:
  "decode_block pr n dec b off = Inr (x, off') \<Longrightarrow>
     off' = off + (if pr then n else 0) \<and> (x \<noteq> None) = pr \<and> (\<forall>y. x = Some y \<longrightarrow> dec (take n (drop off b)) = Inr y)"
  by (auto simp: decode_block_def split: if_splits sum.splits)

lemma EncodeReceiverSolution_flags:
  "EncodeReceiverSolution s = [if rs_StampSource s \<noteq> 0 then 2 else telemBodyVersion,
     flags_of (rs_PVT s \<noteq> None) (rs_Clock s \<noteq> None) (rs_Status s \<noteq> None)] @
     (case rs_PVT s of None \<Rightarrow> [] | Some p \<Rightarrow> encode_pvt p) @ (case rs_Clock s of None \<Rightarrow> [] | Some c \<Rightarrow> encode_clock c) @
     (case rs_Status s of None \<Rightarrow> [] | Some st \<Rightarrow> encode_status st) @ (if rs_StampSource s \<noteq> 0 then [rs_StampSource s] else [])"
  by (simp add: EncodeReceiverSolution_def flags_of_def Let_def)

lemma decode_block_at:
  assumes "length x = (if pr then n else 0)" "length a = off" "pr \<Longrightarrow> dec x = Inr y"
  shows "decode_block pr n dec (a @ x @ r) off = Inr (if pr then Some y else None, off + (if pr then n else 0))"
  using assms by (auto simp: decode_block_def)

lemma decode_encode_solution:
  assumes "solution_ok s"
  shows "decodeReceiverSolution (EncodeReceiverSolution s) = Inr s"
proof -
  obtain P C T q where s: "s = \<lparr>rs_PVT = P, rs_Clock = C, rs_Status = T, rs_StampSource = q\<rparr>" by (cases s)
  let ?p = "case P of None \<Rightarrow> [] | Some p \<Rightarrow> encode_pvt p" and ?c = "case C of None \<Rightarrow> [] | Some c \<Rightarrow> encode_clock c"
  let ?t = "case T of None \<Rightarrow> [] | Some st \<Rightarrow> encode_status st" and ?q = "if q \<noteq> 0 then [q] else []"
  let ?h = "[if q \<noteq> 0 then 2 else telemBodyVersion, flags_of (P \<noteq> None) (C \<noteq> None) (T \<noteq> None)]"
  let ?b = "?h @ ?p @ ?c @ ?t @ ?q"
  have len: "length ?p = (if P \<noteq> None then 64 else 0)" "length ?c = (if C \<noteq> None then 20 else 0)" "length ?t = (if T \<noteq> None then 16 else 0)"
    by (simp_all split: option.split)
  have ok: "pred_option pvt_ok P" "pred_option clock_ok C" "pred_option status_ok T" "q \<le> 5" "P \<noteq> None \<or> C \<noteq> None \<or> T \<noteq> None"
    using assms by (auto simp: solution_ok_def s StampFactory_def)
  have b: "EncodeReceiverSolution s = ?b" by (simp add: EncodeReceiverSolution_flags s)
  have 1: "decode_block (P \<noteq> None) 64 decode_pvt ?b 2 = Inr (P, 2 + (if P \<noteq> None then 64 else 0))"
    using decode_block_at [of ?p "P \<noteq> None" 64 ?h 2 decode_pvt "the P"] ok(1) by (auto simp: decode_encode_pvt)
  have 2: "decode_block (C \<noteq> None) 20 decode_clock ?b (2 + (if P \<noteq> None then 64 else 0)) =
      Inr (C, 2 + (if P \<noteq> None then 64 else 0) + (if C \<noteq> None then 20 else 0))"
    using decode_block_at [of ?c "C \<noteq> None" 20 "?h @ ?p" "2 + (if P \<noteq> None then 64 else 0)" decode_clock "the C" "?t @ ?q"] ok(2) len
    by (auto simp: decode_encode_clock)
  have 3: "decode_block (T \<noteq> None) 16 decode_status ?b (2 + (if P \<noteq> None then 64 else 0) + (if C \<noteq> None then 20 else 0)) =
      Inr (T, 2 + (if P \<noteq> None then 64 else 0) + (if C \<noteq> None then 20 else 0) + (if T \<noteq> None then 16 else 0))"
    using decode_block_at [of ?t "T \<noteq> None" 16 "?h @ ?p @ ?c" "2 + (if P \<noteq> None then 64 else 0) + (if C \<noteq> None then 20 else 0)"
        decode_status "the T" ?q] ok(3) len
    by (auto simp: decode_encode_status)
  have total: "length ?b = 2 + (if P \<noteq> None then 64 else 0) + (if C \<noteq> None then 20 else 0) + (if T \<noteq> None then 16 else 0) + (if q \<noteq> 0 then 1 else 0)"
    using len by simp
  have stamp: "(if ?b ! 0 = 2 then ?b ! (length ?b - 1) else 0) = q" by (simp add: nth_append telemBodyVersion_def)
  have nb: "?b ! 1 = flags_of (P \<noteq> None) (C \<noteq> None) (T \<noteq> None)" "?b ! 0 = (if q \<noteq> 0 then 2 else telemBodyVersion)" by simp_all
  have gate: "\<not> (length ?b < 2 \<or> (?b ! 0 \<noteq> telemBodyVersion \<and> ?b ! 0 \<noteq> 2) \<or> ?b ! 1 = 0 \<or>
      ?b ! 1 AND NOT (solutionHasPVT OR solutionHasClock OR solutionHasStatus) \<noteq> 0)"
    unfolding nb(1) flags_of_bits(5) using ok(5) by (simp add: flags_of_bits(4))
  have range: "\<not> (?b ! 0 = 2 \<and> (q < StampUnknown \<or> q > StampFactory))"
    using ok(4) by (auto simp: nb(2) telemBodyVersion_def StampUnknown_def StampFactory_def not_less word_le_nat_alt word_less_nat_alt unat_eq_0)
  show ?thesis unfolding b decodeReceiverSolution_def if_not_P [OF gate] Let_def stamp block_lens
    unfolding nb(1) flags_of_bits 1 2 3 sum.case prod.case total
    using range by (auto simp: nb(2) s telemBodyVersion_def)
qed

lemma last_drop: "length b = k + 1 \<Longrightarrow> take 1 (drop k b) = [b ! (length b - 1)]"
  using take_1(1) [of k b] by simp

lemma encode_decode_solution:
  assumes "decodeReceiverSolution b = Inr s"
  shows "solution_ok s" "EncodeReceiverSolution s = b"
proof -
  let ?x = "b ! 1"
  let ?P = "?x AND solutionHasPVT \<noteq> 0" and ?C = "?x AND solutionHasClock \<noteq> 0" and ?T = "?x AND solutionHasStatus \<noteq> 0" and ?V = "b ! 0 = 2"
  let ?np = "if ?P then 64 else 0 :: nat" and ?nc = "if ?C then 20 else 0 :: nat" and ?nt = "if ?T then 16 else 0 :: nat" and ?nq = "if ?V then 1 else 0 :: nat"
  let ?q = "if ?V then b ! (length b - 1) else 0"
  have gate: "2 \<le> length b" "?V \<or> b ! 0 = telemBodyVersion" "?x \<noteq> 0" "?x AND NOT (solutionHasPVT OR solutionHasClock OR solutionHasStatus) = 0"
    and len: "length b = 2 + ?np + ?nc + ?nt + ?nq" and range: "\<not> (?V \<and> (?q < StampUnknown \<or> ?q > StampFactory))"
    using assms unfolding decodeReceiverSolution_def Let_def block_lens by (auto split: if_splits)
  obtain pvt clk sts o1 o2 o3 where B: "decode_block ?P 64 decode_pvt b 2 = Inr (pvt, o1)" "decode_block ?C 20 decode_clock b o1 = Inr (clk, o2)"
      "decode_block ?T 16 decode_status b o2 = Inr (sts, o3)" and s: "s = \<lparr>rs_PVT = pvt, rs_Clock = clk, rs_Status = sts, rs_StampSource = ?q\<rparr>"
    using assms gate len range unfolding decodeReceiverSolution_def Let_def block_lens by (auto split: if_splits sum.splits prod.splits)
  note D = decode_block_Inr [OF B(1)] decode_block_Inr [OF B(2)] decode_block_Inr [OF B(3)]
  have off: "o1 = 2 + ?np" "o2 = 2 + ?np + ?nc" using D by auto
  have p: "case pvt of None \<Rightarrow> \<not> ?P | Some y \<Rightarrow> ?P \<and> pvt_ok y \<and> encode_pvt y = take 64 (drop 2 b)"
    using D(1) len encode_decode_pvt [of "take 64 (drop 2 b)"] by (auto split: option.split)
  have c: "case clk of None \<Rightarrow> \<not> ?C | Some y \<Rightarrow> ?C \<and> clock_ok y \<and> encode_clock y = take 20 (drop (2 + ?np) b)"
    using D(2) len encode_decode_clock [of "take 20 (drop o1 b)"] off by (auto simp: numeral_2_eq_2 split: option.split)
  have t: "case sts of None \<Rightarrow> \<not> ?T | Some y \<Rightarrow> ?T \<and> status_ok y \<and> encode_status y = take 16 (drop (2 + ?np + ?nc) b)"
    using D(3) len encode_decode_status [of "take 16 (drop o2 b)"] off by (auto simp: numeral_2_eq_2 split: option.split)
  have some: "(pvt \<noteq> None) = ?P" "(clk \<noteq> None) = ?C" "(sts \<noteq> None) = ?T" using D by simp_all
  have fl: "flags_of (pvt \<noteq> None) (clk \<noteq> None) (sts \<noteq> None) = ?x" unfolding some by (rule flags_of_recover [OF gate(4)])
  have q0: "?q \<noteq> 0 \<longleftrightarrow> ?V" using range by (auto simp: StampUnknown_def)
  have any: "pvt \<noteq> None \<or> clk \<noteq> None \<or> sts \<noteq> None" 
  proof -
    have "flags_of (pvt \<noteq> None) (clk \<noteq> None) (sts \<noteq> None) \<noteq> 0" unfolding fl by (rule gate(3))
    then show ?thesis unfolding flags_of_bits(4) by blast
  qed
  have qle: "?q \<le> StampFactory" using range by (auto simp: not_less StampFactory_def)
  show "solution_ok s" unfolding solution_ok_def using p c t any qle by (auto simp: s split: option.splits)
  have e: "(case pvt of None \<Rightarrow> [] | Some p \<Rightarrow> encode_pvt p) = take ?np (drop 2 b)" using p by (auto split: option.splits)
  have f: "(case clk of None \<Rightarrow> [] | Some c \<Rightarrow> encode_clock c) = take ?nc (drop (2 + ?np) b)" using c by (auto split: option.splits)
  have g: "(case sts of None \<Rightarrow> [] | Some st \<Rightarrow> encode_status st) = take ?nt (drop (2 + ?np + ?nc) b)" using t by (auto split: option.splits)
  have h: "(if ?q \<noteq> 0 then [?q] else []) = take ?nq (drop (2 + ?np + ?nc + ?nt) b)"
  proof (cases ?V)
    case True
    have "length b = 2 + ?np + ?nc + ?nt + 1" using len unfolding if_P [OF True] .
    moreover have nz: "b ! (length b - 1) \<noteq> 0" using q0 True by simp
    ultimately show ?thesis unfolding if_P [OF True] if_P [OF nz] by (intro last_drop [symmetric])
  qed simp
  have h2: "[if ?q \<noteq> 0 then 2 else telemBodyVersion, flags_of (pvt \<noteq> None) (clk \<noteq> None) (sts \<noteq> None)] = take 1 b @ take 1 (drop 1 b)"
  proof -
    have "b \<noteq> []" using gate(1) by auto
    then show ?thesis unfolding fl q0 using gate(1,2) take_1 [of 0 b] take_1 [of 1 b] by auto
  qed
  have "EncodeReceiverSolution s = concat (byte_fields [1, 1, ?np, ?nc, ?nt, ?nq] b)"
    unfolding EncodeReceiverSolution_flags s receiver_solution.select_convs e f g h h2 by (simp add: add.commute add.left_commute numeral_2_eq_2)
  also have "\<dots> = b" by (rule concat_byte_fields) (simp add: len)
  finally show "EncodeReceiverSolution s = b" .
qed

definition enc_solution :: "receiver_solution \<Rightarrow> telemetry_error + u8 list" where
  "enc_solution s = Inr (EncodeReceiverSolution s)"

interpretation solution: codec solution_ok enc_solution decodeReceiverSolution
  by unfold_locales (auto simp: enc_solution_def decode_encode_solution encode_decode_solution)

section \<open>Epochs\<close>

text \<open>The messages of one connection that reach the assembler, as the dispatch of \<^verbatim>\<open>scanUBX\<close> feeds them; a message that
  does not parse changes nothing.\<close>

datatype nav_msg = NavPVT "u8 list" | NavCLOCK "u8 list" | NavSTATUS "u8 list" | NavEOE u32

definition nav_step :: "solution_assembler \<Rightarrow> int \<times> nav_msg \<Rightarrow> completed_epoch option \<times> solution_assembler" where
  "nav_step a x =
     (case x of (now, NavPVT b) \<Rightarrow> (case parseNAVPVT b of None \<Rightarrow> (None, a) | Some p \<Rightarrow> assembler_add a (pvt_TOWMS p) now (\<lambda>s. s\<lparr>rs_PVT := Some p\<rparr>))
      | (now, NavCLOCK b) \<Rightarrow> (case parseNAVCLOCK b of None \<Rightarrow> (None, a) | Some c \<Rightarrow> assembler_add a (scl_TOWMS c) now (\<lambda>s. s\<lparr>rs_Clock := Some c\<rparr>))
      | (now, NavSTATUS b) \<Rightarrow> (case parseNAVSTATUS b of None \<Rightarrow> (None, a) | Some st \<Rightarrow> assembler_add a (sst_TOWMS st) now (\<lambda>s. s\<lparr>rs_Status := Some st\<rparr>))
      | (now, NavEOE t) \<Rightarrow> endOfEpoch a t)"

primrec nav_run :: "solution_assembler \<Rightarrow> (int \<times> nav_msg) list \<Rightarrow> completed_epoch list \<times> solution_assembler" where
  "nav_run a [] = ([], a)"
| "nav_run a (x # xs) = (case nav_step a x of (e, a') \<Rightarrow> case nav_run a' xs of (es, a'') \<Rightarrow> (case e of None \<Rightarrow> es | Some e \<Rightarrow> e # es, a''))"

text \<open>All blocks of a solution carry the same time of week.\<close>

definition coherent :: "u32 \<Rightarrow> receiver_solution \<Rightarrow> bool" where
  "coherent t s \<longleftrightarrow> pred_option (\<lambda>p. pvt_TOWMS p = t) (rs_PVT s) \<and> pred_option (\<lambda>c. scl_TOWMS c = t) (rs_Clock s) \<and>
     pred_option (\<lambda>st. sst_TOWMS st = t) (rs_Status s)"

definition epoch_ok :: "receiver_solution \<Rightarrow> bool" where
  "epoch_ok s \<longleftrightarrow> solution_ok s \<and> coherent (tow s) s"

definition assembler_ok :: "solution_assembler \<Rightarrow> bool" where
  "assembler_ok a \<longleftrightarrow> (case sa_pending a of None \<Rightarrow> True | Some p \<Rightarrow> epoch_ok p \<and> (sa_haveDone a \<longrightarrow> tow p \<noteq> sa_lastDone a))"

lemma parsed_ok:
  "parseNAVPVT b = Some p \<Longrightarrow> pvt_ok p" "parseNAVCLOCK b = Some c \<Longrightarrow> clock_ok c" "parseNAVSTATUS b = Some st \<Longrightarrow> status_ok st"
proof -
  have "x AND 3 \<le> (3 :: u8)" for x by (rule word_and_le1)
  then show "parseNAVSTATUS b = Some st \<Longrightarrow> status_ok st"
    by (auto simp: parseNAVSTATUS_def status_ok_def Let_def not_le not_less split: if_splits)
qed (auto simp: parseNAVPVT_def parseNAVCLOCK_def pvt_ok_def clock_ok_def le_i32_def Let_def not_le split: if_splits)

text \<open>A block that can be merged into an epoch at \<open>t\<close>.\<close>

definition good_merge :: "u32 \<Rightarrow> (receiver_solution \<Rightarrow> receiver_solution) \<Rightarrow> bool" where
  "good_merge t f \<longleftrightarrow> (\<forall>s. (s = empty_solution \<or> epoch_ok s \<and> tow s = t) \<longrightarrow> epoch_ok (f s) \<and> tow (f s) = t)"

lemma good_merges:
  "pvt_ok p \<Longrightarrow> good_merge (pvt_TOWMS p) (\<lambda>s. s\<lparr>rs_PVT := Some p\<rparr>)"
  "clock_ok c \<Longrightarrow> good_merge (scl_TOWMS c) (\<lambda>s. s\<lparr>rs_Clock := Some c\<rparr>)"
  "status_ok st \<Longrightarrow> good_merge (sst_TOWMS st) (\<lambda>s. s\<lparr>rs_Status := Some st\<rparr>)"
  by (auto simp: good_merge_def epoch_ok_def solution_ok_def coherent_def tow_def empty_solution_def StampFactory_def split: option.splits)

definition step_ok :: "solution_assembler \<Rightarrow> completed_epoch option \<Rightarrow> solution_assembler \<Rightarrow> bool" where
  "step_ok a e a' \<longleftrightarrow> assembler_ok a' \<and>
     (case e of None \<Rightarrow> sa_haveDone a' = sa_haveDone a \<and> sa_lastDone a' = sa_lastDone a
      | Some (s, _) \<Rightarrow> epoch_ok s \<and> (sa_haveDone a \<longrightarrow> tow s \<noteq> sa_lastDone a) \<and> sa_haveDone a' \<and> sa_lastDone a' = tow s)"

lemma assembler_add_ok:
  assumes "assembler_ok a" "good_merge t f" "assembler_add a t now f = (e, a')"
  shows "step_ok a e a'"
proof (cases "sa_haveDone a \<and> t = sa_lastDone a")
  case True
  then show ?thesis using assms by (simp add: assembler_add_def step_ok_def)
next
  case new: False
  have m0: "epoch_ok (f empty_solution)" "tow (f empty_solution) = t" using assms(2) by (simp_all add: good_merge_def)
  show ?thesis
  proof (cases "sa_pending a")
    case None
    then have "e = None" "a' = a\<lparr>sa_arrived := now, sa_pending := Some (f empty_solution)\<rparr>" using assms(3) new by (auto simp: assembler_add_def)
    then show ?thesis using m0 new by (auto simp: step_ok_def assembler_ok_def)
  next
    case (Some p)
    have p: "epoch_ok p" "sa_haveDone a \<longrightarrow> tow p \<noteq> sa_lastDone a" using assms(1) Some by (auto simp: assembler_ok_def)
    show ?thesis
    proof (cases "tow p = t")
      case True
      then have "e = None" "a' = a\<lparr>sa_pending := Some (f p)\<rparr>" using assms(3) new Some by (auto simp: assembler_add_def)
      moreover have "epoch_ok (f p)" "tow (f p) = t" using assms(2) True p by (simp_all add: good_merge_def)
      ultimately show ?thesis using new by (auto simp: step_ok_def assembler_ok_def)
    next
      case False
      then have "e = Some (p, sa_arrived a)"
        "a' = a\<lparr>sa_pending := Some (f empty_solution), sa_lastDone := tow p, sa_haveDone := True, sa_arrived := now\<rparr>"
        using assms(3) new Some by (auto simp: assembler_add_def)
      then show ?thesis using m0 p False by (auto simp: step_ok_def assembler_ok_def)
    qed
  qed
qed

lemma endOfEpoch_ok: "assembler_ok a \<Longrightarrow> endOfEpoch a t = (e, a') \<Longrightarrow> step_ok a e a'"
  by (auto simp: endOfEpoch_def step_ok_def assembler_ok_def split: option.splits if_splits)

lemma nav_step_ok: "assembler_ok a \<Longrightarrow> nav_step a x = (e, a') \<Longrightarrow> step_ok a e a'"
proof -
  assume a: "assembler_ok a" and s: "nav_step a x = (e, a')"
  have skip: "step_ok a None a" using a by (simp add: step_ok_def)
  obtain now m where x: "x = (now, m)" by fastforce
  show ?thesis
    using s skip assembler_add_ok [OF a good_merges(1) [OF parsed_ok(1)]] assembler_add_ok [OF a good_merges(2) [OF parsed_ok(2)]]
      assembler_add_ok [OF a good_merges(3) [OF parsed_ok(3)]] endOfEpoch_ok [OF a]
    by (cases m) (auto simp: nav_step_def x split: option.splits)
qed

lemma nav_run_ok:
  "assembler_ok a \<Longrightarrow> nav_run a xs = (es, a') \<Longrightarrow>
     list_all (\<lambda>e. epoch_ok (fst e)) es \<and> distinct_adj (map (tow \<circ> fst) es) \<and>
     (sa_haveDone a \<longrightarrow> es \<noteq> [] \<longrightarrow> tow (fst (hd es)) \<noteq> sa_lastDone a) \<and> assembler_ok a'"
proof (induction xs arbitrary: a es a')
  case (Cons x xs)
  obtain e a1 where s: "nav_step a x = (e, a1)" by fastforce
  obtain es1 a2 where r: "nav_run a1 xs = (es1, a2)" by fastforce
  have ok: "step_ok a e a1" by (rule nav_step_ok [OF Cons.prems(1) s])
  then have "assembler_ok a1" by (simp add: step_ok_def)
  note IH = Cons.IH [OF this r]
  have es: "es = (case e of None \<Rightarrow> es1 | Some e \<Rightarrow> e # es1)" "a' = a2" using Cons.prems(2) s r by auto
  show ?case using IH ok unfolding es by (cases e; cases es1) (auto simp: step_ok_def)
qed simp

section \<open>Properties\<close>

text \<open>The telemetry body of a receiver solution is canonical: a body decodes to a solution exactly when that solution is in
  range (some block present, every field the checks interpret within its bounds) and the body is its encoding, so the collector
  accepts one byte string per solution and refuses every other length, version, presence bit, reserved byte and field value.\<close>

lemma solution_body_canonical:
  "decodeReceiverSolution b = Inr s \<longleftrightarrow> solution_ok s \<and> EncodeReceiverSolution s = b"
  using solution.dec_iff [of b s] by (simp add: enc_solution_def)

text \<open>C32: Whatever the messages of a receiver, in any order and with malformed ones among them, an assembled epoch never mixes
  times of week: all its blocks carry the same one, two epochs completed one after the other differ in it, and the record
  encodes to a body that the collector decodes to the same record.\<close>

theorem assembled_epochs:
  "case nav_run assembler0 xs of (es, a) \<Rightarrow>
     list_all (\<lambda>e. coherent (tow (fst e)) (fst e) \<and> decodeReceiverSolution (EncodeReceiverSolution (fst e)) = Inr (fst e)) es \<and>
     distinct_adj (map (tow \<circ> fst) es)"
proof -
  obtain es a where r: "nav_run assembler0 xs = (es, a)" by fastforce
  have "assembler_ok assembler0" by (simp add: assembler_ok_def assembler0_def)
  from nav_run_ok [OF this r] show ?thesis by (auto simp: r list_all_iff epoch_ok_def decode_encode_solution)
qed

end
