(* ===== verification/GoTime.thy ===== *)
theory GoTime
  imports Complex_Main
begin

text \<open>
  Instants and durations of Go's \<^verbatim>\<open>time\<close> package. A \<^verbatim>\<open>time.Time\<close> is its distance in nanoseconds from Go's zero time, so that
  \<^verbatim>\<open>IsZero\<close> is equality with 0; a \<^verbatim>\<open>time.Duration\<close> is a number of nanoseconds.
\<close>

type_synonym time = int
type_synonym duration = int

definition Second :: duration where "Second = 1000000000"
definition Minute :: duration where "Minute = 60 * Second"

text \<open>\<^verbatim>\<open>Time.Sub\<close> saturates at the range of a duration.\<close>

definition time_Sub :: "time \<Rightarrow> time \<Rightarrow> duration" where
  "time_Sub a b = max (- (2 ^ 63)) (min (2 ^ 63 - 1) (a - b))"

lemma time_Sub_gt: "d < 2 ^ 63 - 1 \<Longrightarrow> - (2 ^ 63) \<le> d \<Longrightarrow> time_Sub a b > d \<longleftrightarrow> a - b > d"
  by (auto simp: time_Sub_def max_def min_def)

end
