(* ===== verification/RawFrame.thy ===== *)
theory RawFrame
  imports ReceiverSolution GnssTypes GoTime
begin

text \<open>
  The receiver record of \<^verbatim>\<open>go/internal/ingest/rawframe.go\<close> with its freshness rules and navigation-type labels, and the
  telemetry bodies of \<^verbatim>\<open>go/internal/ingest/telemetry.go\<close>. The record leaves out the fields of components that are not modelled (the board snapshot, the
  server's reception verdicts, the publication context and the admission fence), which nothing here reads.
\<close>

unbundle bit_operations_syntax

section \<open>Floating-point fields\<close>

text \<open>\<^verbatim>\<open>math.Float64frombits\<close> and \<^verbatim>\<open>math.Float32frombits\<close>, for fields that arrive as IEEE bit patterns: infinities carry their
  sign (true when negative), the two zeros are one value, and every comparison with not-a-number is false.\<close>

datatype go_float = NaN | Inf bool | Fin real

definition ieee_value :: "nat \<Rightarrow> nat \<Rightarrow> bool \<Rightarrow> nat \<Rightarrow> nat \<Rightarrow> go_float" where
  "ieee_value ebits mbits neg e m =
     (if e = 2 ^ ebits - 1 then (if m = 0 then Inf neg else NaN)
      else Fin ((if neg then - 1 else 1) *
             (if e = 0 then real m * 2 / 2 ^ (2 ^ (ebits - 1) - 1 + mbits) else real (2 ^ mbits + m) * 2 ^ e / 2 ^ (2 ^ (ebits - 1) - 1 + mbits))))"

definition Float64frombits :: "u64 \<Rightarrow> go_float" where
  "Float64frombits w = ieee_value 11 52 (bit w 63) (unat (drop_bit 52 w) mod 2 ^ 11) (unat w mod 2 ^ 52)"

definition Float32frombits :: "u32 \<Rightarrow> go_float" where
  "Float32frombits w = ieee_value 8 23 (bit w 31) (unat (drop_bit 23 w) mod 2 ^ 8) (unat w mod 2 ^ 23)"

fun flt :: "go_float \<Rightarrow> go_float \<Rightarrow> bool" where
  "flt NaN _ = False"
| "flt _ NaN = False"
| "flt (Fin x) (Fin y) = (x < y)"
| "flt (Inf n) (Fin _) = n"
| "flt (Fin _) (Inf n) = (\<not> n)"
| "flt (Inf n) (Inf k) = (n \<and> \<not> k)"

definition feq :: "go_float \<Rightarrow> go_float \<Rightarrow> bool" where
  "feq x y \<longleftrightarrow> x = y \<and> x \<noteq> NaN"

definition fle :: "go_float \<Rightarrow> go_float \<Rightarrow> bool" where
  "fle x y \<longleftrightarrow> flt x y \<or> feq x y"

fun fabs :: "go_float \<Rightarrow> go_float" where
  "fabs NaN = NaN"
| "fabs (Inf _) = Inf False"
| "fabs (Fin x) = Fin \<bar>x\<bar>"

definition finiteFloat :: "go_float \<Rightarrow> bool" where
  "finiteFloat v \<longleftrightarrow> v \<noteq> NaN \<and> v \<noteq> Inf True \<and> v \<noteq> Inf False"

lemma finiteFloat_simps [simp]: "\<not> finiteFloat NaN" "\<not> finiteFloat (Inf n)" "finiteFloat (Fin x)"
  by (cases n; simp add: finiteFloat_def)+

lemma fle_Fin [simp]: "fle (Fin x) (Fin y) \<longleftrightarrow> x \<le> y"
  by (auto simp: fle_def feq_def)

section \<open>The receiver record\<close>

record rf_band =
  rb_Block :: int
  rb_AGC :: int
  rb_NoiseLevel :: int
  rb_CWSuppress :: int
  rb_JamState :: int
  rb_AntStatus :: int

record sat_cn0 =
  sc_GnssID :: int
  sc_SvID :: int
  sc_Cn0 :: int
  sc_ElevDeg :: int
  sc_Used :: bool
  sc_Extended :: bool
  sc_AziDeg :: int
  sc_PrResDM :: int
  sc_Quality :: int
  sc_Health :: int

record raw_rf =
  rr_Bands :: "rf_band list"
  rr_Sats :: "sat_cn0 list"

record raw_obs =
  ro_RcvTow :: go_float
  ro_Week :: int
  ro_PrM :: go_float
  ro_CpCyc :: go_float
  ro_DoHz :: go_float
  ro_LockTimeMs :: int
  ro_Cn0 :: int
  ro_CpValid :: bool
  ro_HalfCycleValid :: bool
  ro_HalfCycleSubtracted :: bool
  ro_ClockReset :: bool
  ro_CycleSlip :: bool
  ro_ArcBreak :: bool

record raw_frame =
  rf_Recv :: time
  rf_Source :: string
  rf_GnssID :: GNSSID
  rf_SvID :: int
  rf_SigID :: int
  rf_FreqID :: int
  rf_MsgType :: int
  rf_Words :: "u32 list"
  rf_Bytes :: "u8 list"
  rf_SBFHeader :: "u8 list"
  rf_Obs :: "raw_obs option"
  rf_BoardSampleStamped :: bool
  rf_RF :: "raw_rf option"
  rf_Solution :: "receiver_solution option"
  rf_RecvStamped :: bool
  rf_Seq :: u64
  rf_HasSeq :: bool
  rf_Session :: string
  rf_RecvLocal :: time

text \<open>Go's zero value of the record, which every composite literal starts from.\<close>

definition frame0 :: raw_frame where
  "frame0 = \<lparr>rf_Recv = 0, rf_Source = [], rf_GnssID = 0, rf_SvID = 0, rf_SigID = 0, rf_FreqID = 0, rf_MsgType = 0, rf_Words = [],
     rf_Bytes = [], rf_SBFHeader = [], rf_Obs = None, rf_BoardSampleStamped = False, rf_RF = None, rf_Solution = None,
     rf_RecvStamped = False, rf_Seq = 0, rf_HasSeq = False, rf_Session = [], rf_RecvLocal = 0\<rparr>"

definition WallClockStamp :: "raw_frame \<Rightarrow> time \<times> bool" where
  "WallClockStamp f = (if rf_RecvLocal f = 0 \<or> rf_RecvStamped f \<or> rf_BoardSampleStamped f then (rf_Recv f, True) else (0, False))"

definition LiveMaxAge :: int where "LiveMaxAge = Minute"

definition LocalRecv :: "raw_frame \<Rightarrow> time" where
  "LocalRecv f = (if rf_RecvLocal f \<noteq> 0 then rf_RecvLocal f else rf_Recv f)"

definition LiveRejection :: "raw_frame \<Rightarrow> time \<Rightarrow> string" where
  "LiveRejection f now =
     (let (stamp, ok) = WallClockStamp f
      in if \<not> ok \<or> stamp = 0 then ''unstamped''
         else if stamp > now + Second \<or> stamp > LocalRecv f + Second then ''future''
         else if time_Sub now stamp > LiveMaxAge \<or> time_Sub now (LocalRecv f) > LiveMaxAge then ''stale''
         else [])"

definition ObservationTime :: "raw_frame \<Rightarrow> time" where
  "ObservationTime f =
     (let (stamp, ok) = WallClockStamp f
      in if \<not> ok then 0 else if stamp > LocalRecv f then LocalRecv f else stamp)"

definition RawBytes :: "raw_frame \<Rightarrow> u8 list" where
  "RawBytes f = (if length (rf_Bytes f) > 0 then rf_Bytes f else concat (map PutUint32 (rf_Words f)))"

definition NavType :: "raw_frame \<Rightarrow> int" where
  "NavType f =
     (let g = rf_GnssID f; s = rf_SigID f
      in if g = GPS then (if s = 0 then 0x10 else if s \<in> {3, 4, 6, 7} then 0x11 else 0)
         else if g = QZSS then (if s = 0 then 0x50 else if s \<in> {4, 5, 8, 9} then 0x51 else 0)
         else if g = Galileo then (if s \<in> {0, 1, 5, 6} then 0x20 else if s \<in> {3, 4} then 0x21 else 0)
         else if g = BeiDou then (if s = 0 then 0x30 else if s = 8 then 0x33 else 0)
         else if g = GLONASS then (if s = 0 \<or> s = 2 then 0x40 else 0)
         else if g = NavIC then 0
         else if g = SBAS then (if s = 0 then 0x70 else 0)
         else 0)"

section \<open>Telemetry bodies\<close>

definition TelemReceptionData :: int where "TelemReceptionData = 0x01"
definition TelemJammingStats :: int where "TelemJammingStats = 0x05"
definition maxTelemSats :: nat where "maxTelemSats = 200"
definition receptionVersion2 :: u8 where "receptionVersion2 = 2"
definition receptionSatLenV2 :: nat where "receptionSatLenV2 = 9"
definition maxTelemSatsV2 :: nat where "maxTelemSatsV2 = 113"
definition receptionHealthMask :: u8 where "receptionHealthMask = 0x30"
definition jammingBandLen :: nat where "jammingBandLen = 8"
definition receptionSatLen :: nat where "receptionSatLen = 5"

definition IsTelemetryType :: "int \<Rightarrow> bool" where
  "IsTelemetryType t \<longleftrightarrow> t > 0 \<and> t < 0x10"

definition clampU16 :: "int \<Rightarrow> u16" where
  "clampU16 v = (if v < 0 then 0 else if v > 0xFFFF then 0xFFFF else word_of_int v)"

definition clampU8 :: "int \<Rightarrow> u8" where
  "clampU8 v = (if v < 0 then 0 else if v > 0xFF then 0xFF else word_of_int v)"

definition clampI16 :: "int \<Rightarrow> int" where
  "clampI16 v = min (max v (- 32768)) 32767"

definition clampElev :: "int \<Rightarrow> int" where
  "clampElev deg = (if deg < - 90 then - 90 else if deg > 127 then 127 else deg)"

definition encode_band :: "rf_band \<Rightarrow> u8 list" where
  "encode_band b = [clampU8 (rb_Block b)] @ PutUint16 (clampU16 (rb_AGC b)) @ PutUint16 (clampU16 (rb_NoiseLevel b)) @
     [clampU8 (rb_CWSuppress b), clampU8 (rb_JamState b), clampU8 (rb_AntStatus b)]"

definition EncodeJammingStats :: "rf_band list \<Rightarrow> u8 list" where
  "EncodeJammingStats bands =
     (let n = min (length bands) 0xFF
      in [telemBodyVersion, of_nat n] @ concat (map encode_band (take n bands)))"

definition decode_band :: "u8 list \<Rightarrow> rf_band" where
  "decode_band b = \<lparr>rb_Block = uint (b ! 0), rb_AGC = uint (Uint16 (drop 1 b)), rb_NoiseLevel = uint (Uint16 (drop 3 b)),
     rb_CWSuppress = uint (b ! 5), rb_JamState = uint (b ! 6), rb_AntStatus = uint (b ! 7)\<rparr>"

definition decodeJammingStats :: "u8 list \<Rightarrow> telemetry_error + rf_band list" where
  "decodeJammingStats b =
     (if length b < 2 \<or> b ! 0 \<noteq> telemBodyVersion then Inl ErrBadTelemetry
      else
       (let n = unat (b ! 1)
        in if length b \<noteq> 2 + n * jammingBandLen then Inl ErrBadTelemetry
           else Inr (map (\<lambda>i. decode_band (drop (2 + i * jammingBandLen) b)) [0..<n])))"

definition encode_sat_v1 :: "sat_cn0 \<Rightarrow> u8 list" where
  "encode_sat_v1 s = [clampU8 (sc_GnssID s), clampU8 (sc_SvID s), clampU8 (sc_Cn0 s), word_of_int (clampElev (sc_ElevDeg s)),
     if sc_Used s then 0x01 else 0]"

definition encodeReceptionV1 :: "sat_cn0 list \<Rightarrow> u8 list" where
  "encodeReceptionV1 sats =
     (let n = min (length sats) maxTelemSats
      in [telemBodyVersion] @ PutUint16 (of_nat n) @ concat (map encode_sat_v1 (take n sats)))"

definition sat_flags :: "sat_cn0 \<Rightarrow> u8" where
  "sat_flags s = (if sc_Used s then 0x01 else 0) OR push_bit 1 (word_of_int (min (max (sc_Quality s) 0) 7)) OR
     (if sc_Health s = 1 \<or> sc_Health s = 2 then push_bit 4 (word_of_int (sc_Health s)) else 0)"

definition encode_sat_v2 :: "sat_cn0 \<Rightarrow> u8 list" where
  "encode_sat_v2 s = [clampU8 (sc_GnssID s), clampU8 (sc_SvID s), clampU8 (sc_Cn0 s), word_of_int (clampElev (sc_ElevDeg s))] @
     PutUint16 (word_of_int (clampI16 (sc_AziDeg s))) @ PutUint16 (word_of_int (clampI16 (sc_PrResDM s))) @ [sat_flags s]"

text \<open>The two passes over the satellites: the tracked ones first, then the others, each while there is room.\<close>

definition order_sats :: "sat_cn0 list \<Rightarrow> sat_cn0 list" where
  "order_sats sats =
     foldl (\<lambda>ordered tracked. foldl (\<lambda>os s. if length os < maxTelemSatsV2 \<and> (sc_Cn0 s > 0) = tracked then os @ [s] else os) ordered sats)
       [] [True, False]"

definition encodeReceptionV2 :: "sat_cn0 list \<Rightarrow> u8 list" where
  "encodeReceptionV2 sats =
     (let ordered = order_sats sats
      in [receptionVersion2] @ PutUint16 (of_nat (length ordered)) @ concat (map encode_sat_v2 ordered))"

definition EncodeReceptionData :: "sat_cn0 list \<Rightarrow> u8 list" where
  "EncodeReceptionData sats =
     (let extended = foldl (\<lambda>e s. e \<and> sc_Extended s) (length sats > 0) sats
      in if extended then encodeReceptionV2 sats else encodeReceptionV1 sats)"

definition decode_sat_v1 :: "u8 list \<Rightarrow> sat_cn0" where
  "decode_sat_v1 b = \<lparr>sc_GnssID = uint (b ! 0), sc_SvID = uint (b ! 1), sc_Cn0 = uint (b ! 2), sc_ElevDeg = sint (b ! 3),
     sc_Used = (b ! 4 AND 0x01 \<noteq> 0), sc_Extended = False, sc_AziDeg = 0, sc_PrResDM = 0, sc_Quality = 0, sc_Health = 0\<rparr>"

definition decode_sat_v2 :: "u8 list \<Rightarrow> telemetry_error + sat_cn0" where
  "decode_sat_v2 b =
     (let flags = b ! 8
      in if flags AND 0xC0 \<noteq> 0 \<or> flags AND receptionHealthMask = receptionHealthMask then Inl ErrBadTelemetry
         else Inr \<lparr>sc_GnssID = uint (b ! 0), sc_SvID = uint (b ! 1), sc_Cn0 = uint (b ! 2), sc_ElevDeg = sint (b ! 3),
                sc_Used = (flags AND 0x01 \<noteq> 0), sc_Extended = True, sc_AziDeg = sint (Uint16 (drop 4 b)),
                sc_PrResDM = sint (Uint16 (drop 6 b)), sc_Quality = uint (drop_bit 1 flags) mod 8, sc_Health = uint (drop_bit 4 flags) mod 4\<rparr>)"

primrec decode_sats :: "nat \<Rightarrow> u8 list \<Rightarrow> telemetry_error + sat_cn0 list" where
  "decode_sats 0 b = Inr []"
| "decode_sats (Suc n) b =
     (case decode_sat_v2 b of Inl e \<Rightarrow> Inl e
      | Inr s \<Rightarrow> (case decode_sats n (drop receptionSatLenV2 b) of Inl e \<Rightarrow> Inl e | Inr ss \<Rightarrow> Inr (s # ss)))"

definition decodeReceptionV2 :: "u8 list \<Rightarrow> telemetry_error + sat_cn0 list" where
  "decodeReceptionV2 b =
     (let n = unat (Uint16 (drop 1 b))
      in if n > maxTelemSatsV2 \<or> length b \<noteq> 3 + n * receptionSatLenV2 then Inl ErrBadTelemetry
         else decode_sats n (drop 3 b))"

definition decodeReceptionData :: "u8 list \<Rightarrow> telemetry_error + sat_cn0 list" where
  "decodeReceptionData b =
     (if length b \<ge> 3 \<and> b ! 0 = receptionVersion2 then decodeReceptionV2 b
      else if length b < 3 \<or> b ! 0 \<noteq> telemBodyVersion then Inl ErrBadTelemetry
      else
       (let n = unat (Uint16 (drop 1 b))
        in if n > maxTelemSats then Inl ErrBadTelemetry
           else if length b \<noteq> 3 + n * receptionSatLen then Inl ErrBadTelemetry
           else Inr (map (\<lambda>i. decode_sat_v1 (drop (3 + i * receptionSatLen) b)) [0..<n])))"

definition solutionFrame :: "completed_epoch \<Rightarrow> string \<Rightarrow> raw_frame" where
  "solutionFrame e source = frame0\<lparr>rf_Source := source, rf_Recv := snd e, rf_MsgType := TelemReceiverSolution, rf_Solution := Some (fst e)\<rparr>"


section \<open>Arrays of records\<close>

text \<open>Records of a fixed size that follow each other in a body, read by offset.\<close>

lemma strided_decode:
  assumes "\<And>x r. x \<in> set xs \<Longrightarrow> length (e x) = n \<and> f (e x @ r) = g x"
  shows "map (\<lambda>i. f (drop (i * n) (concat (map e xs) @ r))) [0..<length xs] = map g xs"
  using assms
proof (induction xs)
  case (Cons x xs)
  have "drop (Suc i * n) (concat (map e (x # xs)) @ r) = drop (i * n) (concat (map e xs) @ r)" for i
    using Cons.prems by simp
  moreover have "map (\<lambda>i. f (drop (i * n) (concat (map e xs) @ r))) [0..<length xs] = map g xs" using Cons.prems by (intro Cons.IH) auto
  ultimately show ?case using Cons.prems by (simp only: length_Cons map_upt_Suc) (simp add: append_assoc)
qed simp

lemma concat_strides:
  "length b = m * n \<Longrightarrow> concat (map (\<lambda>i. take n (drop (i * n) b)) [0..<m]) = b"
proof (induction m arbitrary: b)
  case (Suc m)
  have "concat (map (\<lambda>i. take n (drop (Suc i * n) b)) [0..<m]) = drop n b"
    using Suc.IH [of "drop n b"] Suc.prems by (simp add: add.commute)
  then show ?case by (simp only: map_upt_Suc) simp
qed simp

lemma length_concat_const: "(\<And>x. x \<in> set xs \<Longrightarrow> length (e x) = n) \<Longrightarrow> length (concat (map e xs)) = length xs * n"
  by (induction xs) auto

lemma uint_word_of_int_bound [simp]:
  "0 \<le> v \<Longrightarrow> v < 256 \<Longrightarrow> uint (word_of_int v :: u8) = v" "0 \<le> v \<Longrightarrow> v < 65536 \<Longrightarrow> uint (word_of_int v :: u16) = v"
  by (simp_all add: uint_word_of_int_eq take_bit_int_eq_self)

lemma uint_byte_bounds [simp]: "uint (b :: u8) < 256" "uint (w :: u16) < 65536"
  using uint_lt2p [of b] uint_lt2p [of w] by simp_all

lemma uint_byte_le [simp]: "uint (b :: u8) \<le> 255" "uint (w :: u16) \<le> 65535"
  using uint_byte_bounds(1) [of b] uint_byte_bounds(2) [of w] by linarith+

lemma uint_clampU8: "uint (clampU8 v) = max 0 (min 255 v)"
  by (auto simp: clampU8_def max_def min_def)

lemma uint_clampU16: "uint (clampU16 v) = max 0 (min 65535 v)"
  by (auto simp: clampU16_def max_def min_def)

lemma clamp_uint [simp]: "clampU8 (uint b) = b" "clampU16 (uint w) = w"
  using uint_byte_bounds(1) [of b] uint_byte_bounds(2) [of w] by (auto simp: clampU8_def clampU16_def not_less simp del: uint_byte_bounds)

lemma sfits_clamps [simp]: "sfits 8 (clampElev v)" "sfits 16 (clampI16 v)"
  by (auto simp: sfits_def clampElev_def clampI16_def)

lemma Uint16_Put [simp]: "Uint16 (PutUint16 w @ r) = w"
  using Uint16_PutUint16 [of w] by (simp add: Uint16_def PutUint16_def)

section \<open>Jamming statistics\<close>

definition band_ok :: "rf_band \<Rightarrow> bool" where
  "band_ok b \<longleftrightarrow> rb_Block b \<in> {0..255} \<and> rb_AGC b \<in> {0..65535} \<and> rb_NoiseLevel b \<in> {0..65535} \<and> rb_CWSuppress b \<in> {0..255} \<and>
     rb_JamState b \<in> {0..255} \<and> rb_AntStatus b \<in> {0..255}"

definition clamp_band :: "rf_band \<Rightarrow> rf_band" where
  "clamp_band b = \<lparr>rb_Block = max 0 (min 255 (rb_Block b)), rb_AGC = max 0 (min 65535 (rb_AGC b)), rb_NoiseLevel = max 0 (min 65535 (rb_NoiseLevel b)),
     rb_CWSuppress = max 0 (min 255 (rb_CWSuppress b)), rb_JamState = max 0 (min 255 (rb_JamState b)), rb_AntStatus = max 0 (min 255 (rb_AntStatus b))\<rparr>"

lemma clamp_band_id: "band_ok b \<Longrightarrow> clamp_band b = b"
  by (cases b) (simp add: band_ok_def clamp_band_def)

lemma encode_band_laws: "length (encode_band b) = 8 \<and> decode_band (encode_band b @ r) = clamp_band b"
  by (simp add: encode_band_def decode_band_def clamp_band_def uint_clampU8 uint_clampU16 nth_append)


lemma decode_band_ok: "band_ok (decode_band b)"
  by (simp add: band_ok_def decode_band_def)

lemma take_fields:
  "sum_list ns \<le> length b \<Longrightarrow> take (sum_list ns) b = concat (byte_fields ns b)"
  by (induction ns arbitrary: b) (simp_all add: take_add)

lemma PutUint16_Uint16_take: "2 \<le> length b \<Longrightarrow> PutUint16 (Uint16 b) = take 2 b"
  using PutUint16_Uint16 [of "take 2 b"] by (simp add: Uint16_def)

lemma encode_decode_band:
  assumes "8 \<le> length b"
  shows "encode_band (decode_band b) = take 8 b"
proof -
  have t: "take (Suc 0) b = [b ! 0]" using take_1(2) [of 0 b] assms by fastforce
  have "take 8 b = concat (byte_fields [1, 2, 2, 1, 1, 1] b)" using take_fields [of "[1, 2, 2, 1, 1, 1]" b] assms by simp
  also have "\<dots> = encode_band (decode_band b)"
    using assms by (simp add: encode_band_def decode_band_def PutUint16_Uint16_take take_1 t add.commute)
      (simp add: eval_nat_numeral)
  finally show ?thesis by simp
qed

lemma decode_encode_jamming: "decodeJammingStats (EncodeJammingStats bands) = Inr (map clamp_band (take 255 bands))"
proof -
  let ?n = "min (length bands) 255"
  have t: "take ?n bands = take 255 bands" by (simp add: min_def)
  have n: "unat (of_nat ?n :: u8) = ?n" by (simp add: unsigned_of_nat take_bit_nat_eq_self)
  have l: "length (concat (map encode_band (take ?n bands))) = ?n * 8" using length_concat_const [of "take ?n bands" encode_band 8] encode_band_laws by simp
  have "map (\<lambda>i. decode_band (drop (i * 8) (concat (map encode_band (take ?n bands)) @ []))) [0..<length (take ?n bands)] = map clamp_band (take ?n bands)"
    by (rule strided_decode) (use encode_band_laws in blast)
  then have "map (\<lambda>i. decode_band (drop (2 + i * 8) (EncodeJammingStats bands))) [0..<?n] = map clamp_band (take 255 bands)"
    by (simp add: EncodeJammingStats_def Let_def t)
  then show ?thesis
    using n l by (simp add: decodeJammingStats_def EncodeJammingStats_def Let_def jammingBandLen_def)
qed

lemma encode_decode_jamming:
  assumes "decodeJammingStats b = Inr bands"
  shows "EncodeJammingStats bands = b \<and> length bands \<le> 255 \<and> list_all band_ok bands"
proof -
  let ?n = "unat (b ! 1)"
  have b: "2 \<le> length b" "b ! 0 = telemBodyVersion" "length b = 2 + ?n * 8"
    and bands: "bands = map (\<lambda>i. decode_band (drop (2 + i * 8) b)) [0..<?n]"
    using assms by (auto simp: decodeJammingStats_def jammingBandLen_def Let_def split: if_splits)
  have n: "?n \<le> 255" using unsigned_less [where 'a = nat, of "b ! 1"] by simp
  have "encode_band (decode_band (drop (2 + i * 8) b)) = take 8 (drop (i * 8) (drop 2 b))" if "i < ?n" for i
  proof -
    have "8 + i * 8 \<le> ?n * 8" using that by (metis Suc_leI mult_Suc mult_le_mono1)
    then show ?thesis using b(3) by (simp add: encode_decode_band add.commute)
  qed
  then have "concat (map encode_band bands) = concat (map (\<lambda>i. take 8 (drop (i * 8) (drop 2 b))) [0..<?n])"
    by (intro arg_cong [where f = concat]) (simp add: bands)
  also have "\<dots> = drop 2 b" using b(3) by (intro concat_strides) simp
  finally have "[b ! 0, b ! 1] @ concat (map encode_band bands) = b"
    using b(1) by (cases b; cases "tl b") auto
  then have "EncodeJammingStats bands = b" using n b(2) by (simp add: EncodeJammingStats_def Let_def bands)
  then show ?thesis using n by (simp add: bands list_all_iff decode_band_ok)
qed

definition enc_jamming :: "rf_band list \<Rightarrow> telemetry_error + u8 list" where
  "enc_jamming bands = Inr (EncodeJammingStats bands)"

interpretation jamming: codec "\<lambda>bands. length bands \<le> 255 \<and> list_all band_ok bands" enc_jamming decodeJammingStats
proof unfold_locales
  fix x b
  show "length x \<le> 255 \<and> list_all band_ok x \<Longrightarrow> enc_jamming x = Inr b \<Longrightarrow> decodeJammingStats b = Inr x"
    by (auto simp: enc_jamming_def decode_encode_jamming list_all_iff clamp_band_id map_idI)
  show "decodeJammingStats b = Inr x \<Longrightarrow> (length x \<le> 255 \<and> list_all band_ok x) \<and> enc_jamming x = Inr b"
    using encode_decode_jamming by (simp add: enc_jamming_def)
qed

section \<open>Reception data\<close>

definition clamp_sat_v1 :: "sat_cn0 \<Rightarrow> sat_cn0" where
  "clamp_sat_v1 s = \<lparr>sc_GnssID = max 0 (min 255 (sc_GnssID s)), sc_SvID = max 0 (min 255 (sc_SvID s)), sc_Cn0 = max 0 (min 255 (sc_Cn0 s)),
     sc_ElevDeg = clampElev (sc_ElevDeg s), sc_Used = sc_Used s, sc_Extended = False, sc_AziDeg = 0, sc_PrResDM = 0, sc_Quality = 0, sc_Health = 0\<rparr>"

definition clamp_sat_v2 :: "sat_cn0 \<Rightarrow> sat_cn0" where
  "clamp_sat_v2 s = (clamp_sat_v1 s)\<lparr>sc_Extended := True, sc_AziDeg := clampI16 (sc_AziDeg s), sc_PrResDM := clampI16 (sc_PrResDM s),
     sc_Quality := max 0 (min 7 (sc_Quality s)), sc_Health := if sc_Health s \<in> {1, 2} then sc_Health s else 0\<rparr>"

text \<open>What a body of satellites comes back as: the tracked satellites first when all of them carry the extended fields, every
  field saturated to its width.\<close>

definition reception_norm :: "sat_cn0 list \<Rightarrow> sat_cn0 list" where
  "reception_norm sats =
     (if sats \<noteq> [] \<and> list_all sc_Extended sats
      then map clamp_sat_v2 (take 113 (filter (\<lambda>s. sc_Cn0 s > 0) sats @ filter (\<lambda>s. \<not> sc_Cn0 s > 0) sats))
      else map clamp_sat_v1 (take 200 sats))"

lemma order_pass:
  assumes "length os \<le> k"
  shows "foldl (\<lambda>os s. if length os < k \<and> P s then os @ [s] else os) os sats = take k (os @ filter P sats)"
  using assms
proof (induction sats arbitrary: os)
  case (Cons s sats)
  show ?case
  proof (cases "length os < k \<and> P s")
    case True
    then show ?thesis using Cons.IH [of "os @ [s]"] by simp
  next
    case False
    then show ?thesis using Cons by auto
  qed
qed simp

lemma order_sats_eq:
  "order_sats sats = take 113 (filter (\<lambda>s. sc_Cn0 s > 0) sats @ filter (\<lambda>s. \<not> sc_Cn0 s > 0) sats)"
  using order_pass [of "[]" 113 "\<lambda>s. sc_Cn0 s > 0" sats] order_pass [of "take 113 (filter (\<lambda>s. sc_Cn0 s > 0) sats)" 113 "\<lambda>s. \<not> sc_Cn0 s > 0" sats]
  by (simp add: order_sats_def maxTelemSatsV2_def min_def)

lemma foldl_conj: "foldl (\<lambda>e s. e \<and> P s) b xs \<longleftrightarrow> b \<and> list_all P xs"
  by (induction xs arbitrary: b) auto

lemma sat_v1_laws: "length (encode_sat_v1 s) = 5 \<and> decode_sat_v1 (encode_sat_v1 s @ r) = clamp_sat_v1 s"
  by (simp add: encode_sat_v1_def decode_sat_v1_def clamp_sat_v1_def uint_clampU8)

lemma sat_flags_cases:
  fixes u :: bool
  assumes "q \<in> {0..7}" "h \<in> {0, 1, 2}"
  defines "w \<equiv> (if u then 0x01 else 0) OR push_bit 1 (word_of_int q) OR push_bit 4 (word_of_int h) :: u8"
  shows "w AND 0xC0 = 0 \<and> w AND 0x30 \<noteq> 0x30 \<and> (w AND 1 \<noteq> 0 \<longleftrightarrow> u) \<and> uint (drop_bit 1 w) mod 8 = q \<and> uint (drop_bit 4 w) mod 4 = h"
proof -
  have "q \<in> {0, 1, 2, 3, 4, 5, 6, 7}" using assms(1) by auto
  then show ?thesis using assms(2) unfolding w_def by (cases u) (elim insertE emptyE; simp)+
qed

lemma sat_flags_laws:
  "sat_flags s AND 0xC0 = 0 \<and> sat_flags s AND 0x30 \<noteq> 0x30 \<and> (sat_flags s AND 1 \<noteq> 0 \<longleftrightarrow> sc_Used s) \<and>
   uint (drop_bit 1 (sat_flags s)) mod 8 = max 0 (min 7 (sc_Quality s)) \<and>
   uint (drop_bit 4 (sat_flags s)) mod 4 = (if sc_Health s \<in> {1, 2} then sc_Health s else 0)"
proof -
  have "sat_flags s = (if sc_Used s then 0x01 else 0) OR push_bit 1 (word_of_int (max 0 (min 7 (sc_Quality s)))) OR
      push_bit 4 (word_of_int (if sc_Health s \<in> {1, 2} then sc_Health s else 0))"
    by (auto simp: sat_flags_def max_def min_def)
  then show ?thesis
    using sat_flags_cases [of "max 0 (min 7 (sc_Quality s))" "if sc_Health s \<in> {1, 2} then sc_Health s else 0" "sc_Used s"] by auto
qed

lemma sat_v2_laws: "length (encode_sat_v2 s) = 9 \<and> decode_sat_v2 (encode_sat_v2 s @ r) = Inr (clamp_sat_v2 s)"
  using sat_flags_laws [of s]
  by (simp add: encode_sat_v2_def decode_sat_v2_def clamp_sat_v2_def clamp_sat_v1_def uint_clampU8 nth_append receptionHealthMask_def)

lemma decode_sats_encode: "decode_sats (length ss) (concat (map encode_sat_v2 ss) @ r) = Inr (map clamp_sat_v2 ss)"
  using sat_v2_laws by (induction ss) (simp_all add: receptionSatLenV2_def)

lemma unat_small16: "n < 65536 \<Longrightarrow> unat (of_nat n :: u16) = n"
  by (simp add: unsigned_of_nat take_bit_nat_eq_self)

lemma decode_encode_v2: "decodeReceptionV2 (encodeReceptionV2 sats) = Inr (map clamp_sat_v2 (order_sats sats))"
proof -
  let ?o = "order_sats sats"
  have n: "length ?o \<le> 113" by (simp add: order_sats_eq)
  have "length (concat (map encode_sat_v2 ?o)) = length ?o * 9" by (rule length_concat_const) (use sat_v2_laws in blast)
  then show ?thesis
    using n decode_sats_encode [of ?o "[]"]
    by (simp add: decodeReceptionV2_def encodeReceptionV2_def Let_def unat_small16 maxTelemSatsV2_def receptionSatLenV2_def)
qed

lemma drop_v1_header: "drop (3 + k) (v # PutUint16 w @ x) = drop k x"
  by (simp add: PutUint16_def numeral_3_eq_3)

lemma decode_encode_v1: "decodeReceptionData (encodeReceptionV1 sats) = Inr (map clamp_sat_v1 (take 200 sats))"
proof -
  let ?n = "min (length sats) 200"
  have t: "take ?n sats = take 200 sats" by (simp add: min_def)
  have l: "length (concat (map encode_sat_v1 (take 200 sats))) = ?n * 5"
    using length_concat_const [of "take 200 sats" encode_sat_v1 5] sat_v1_laws by (simp add: min.commute)
  have "map (\<lambda>i. decode_sat_v1 (drop (i * 5) (concat (map encode_sat_v1 (take 200 sats)) @ []))) [0..<length (take 200 sats)] = map clamp_sat_v1 (take 200 sats)"
    by (rule strided_decode) (use sat_v1_laws in blast)
  then have "map (\<lambda>i. decode_sat_v1 (drop (3 + i * 5) (encodeReceptionV1 sats))) [0..<?n] = map clamp_sat_v1 (take 200 sats)"
    by (simp add: encodeReceptionV1_def Let_def t maxTelemSats_def drop_v1_header min.commute)
  then show ?thesis
    using l by (simp add: decodeReceptionData_def encodeReceptionV1_def Let_def t unat_small16 maxTelemSats_def receptionSatLen_def
        telemBodyVersion_def receptionVersion2_def)
qed

section \<open>Properties\<close>

text \<open>A frame is admitted to the live projections exactly when it has a wall-clock stamp of its own, the stamp is neither more than
  a second ahead of the collector's clock nor of its arrival, and neither stamp nor arrival is more than a minute old; the
  observation time then derived from it is within that minute and never after the arrival, so a fast feeder clock does not extend
  a witness window.\<close>

lemma live_admission:
  "LiveRejection f now = [] \<longleftrightarrow>
     snd (WallClockStamp f) \<and> rf_Recv f \<noteq> 0 \<and> rf_Recv f \<le> now + Second \<and> rf_Recv f \<le> LocalRecv f + Second \<and>
     rf_Recv f \<ge> now - Minute \<and> LocalRecv f \<ge> now - Minute \<and> now - Minute \<le> ObservationTime f \<and> ObservationTime f \<le> LocalRecv f"
proof -
  have "time_Sub now x > LiveMaxAge \<longleftrightarrow> x < now - Minute" for x
    using time_Sub_gt [of Minute now x] by (auto simp: LiveMaxAge_def Minute_def Second_def)
  then show ?thesis
    by (auto simp: LiveRejection_def ObservationTime_def WallClockStamp_def Let_def not_less split: if_splits)
qed

text \<open>Jamming statistics have one body each: a body decodes to a list of RF bands exactly when the list has at most 255 of them,
  every field lies within its wire width, and the body is the list's encoding.\<close>

lemma jamming_canonical:
  "decodeJammingStats b = Inr bands \<longleftrightarrow> (length bands \<le> 255 \<and> list_all band_ok bands) \<and> EncodeJammingStats bands = b"
  using jamming.dec_iff [of b bands] by (simp add: enc_jamming_def)

text \<open>Every satellite list encodes to a body the collector accepts, whatever the values in it: it comes back as the first 113
  satellites, tracked ones first, with all extended fields when each of them carried them, and otherwise as the first 200 with the
  basic fields only; a value outside a field's width comes back saturated, never wrapped.\<close>

lemma reception_roundtrip:
  "decodeReceptionData (EncodeReceptionData sats) = Inr (reception_norm sats)"
proof (cases "sats \<noteq> [] \<and> list_all sc_Extended sats")
  case True
  then have "EncodeReceptionData sats = encodeReceptionV2 sats" by (simp add: EncodeReceptionData_def foldl_conj)
  moreover have "decodeReceptionData (encodeReceptionV2 sats) = decodeReceptionV2 (encodeReceptionV2 sats)"
    by (simp add: decodeReceptionData_def encodeReceptionV2_def Let_def)
  ultimately show ?thesis using True by (simp add: decode_encode_v2 reception_norm_def order_sats_eq)
next
  case False
  then have "EncodeReceptionData sats = encodeReceptionV1 sats" by (auto simp: EncodeReceptionData_def foldl_conj)
  then show ?thesis using False by (auto simp: decode_encode_v1 reception_norm_def)
qed

end
