(* ===== verification/Wire.thy ===== *)
theory Wire
  imports Bytes GnssTypes "HOL-Library.Char_ord"
begin

text \<open>
  \<^verbatim>\<open>go/internal/wire/wire.go\<close> and the command half of \<^verbatim>\<open>update.go\<close>: the length-prefixed framing between feeder and
  collector. A reader is the list of the bytes still to come (a connection that closes after them), a writer the bytes it
  took and the number it still takes before it fails; \<^verbatim>\<open>encoding/json\<close> is a parameter of the two handshake messages.
\<close>

unbundle bit_operations_syntax

section \<open>The code\<close>

definition Magic :: "u8 list" where "Magic = [0x47, 0x4E, 0x46, 0x31]"
definition MaxFrameLen :: nat where "MaxFrameLen = 2 ^ 20"

type_synonym frame_type = u8

definition Hello :: frame_type where "Hello = 0x01"
definition Welcome :: frame_type where "Welcome = 0x02"
definition Data :: frame_type where "Data = 0x03"
definition Ack :: frame_type where "Ack = 0x04"
definition Ping :: frame_type where "Ping = 0x05"
definition Pong :: frame_type where "Pong = 0x06"
definition UpdateControl :: frame_type where "UpdateControl = 0x09"
definition SignedData :: frame_type where "SignedData = 0x07"
definition Evidence :: frame_type where "Evidence = 0x0A"
definition ReceptionExpectation :: frame_type where "ReceptionExpectation = 0x0B"
definition SnapshotRequest :: frame_type where "SnapshotRequest = 0x0C"
definition ReceptionPower :: frame_type where "ReceptionPower = 0x0D"

datatype wire_error = ErrBadMagic | ErrFrameTooLarge | ErrShortRecord | ErrEOF | ErrUnexpectedEOF | ErrWrite | ErrJSON
  | ErrUpdateCommand | ErrUpdateFraming | ErrUpdateFields

record hello_msg =
  hm_Token :: string
  hm_Station :: string
  hm_Feed :: string
  hm_SW :: string
  hm_Zstd :: bool
  hm_SBF :: u8
  hm_Session :: string
  hm_Evidence :: bool
  hm_Reception :: u8

record welcome_msg =
  wm_OK :: bool
  wm_Error :: string
  wm_AckIntervalMS :: int
  wm_Zstd :: bool
  wm_DurableACK :: bool
  wm_HardwareTrust :: string
  wm_EvidenceError :: string
  wm_SBF :: u8

definition SessionMaxLen :: nat where "SessionMaxLen = 64"

definition ValidSession :: "string \<Rightarrow> bool" where
  "ValidSession s \<longleftrightarrow> \<not> (length s = 0 \<or> length s > SessionMaxLen) \<and>
     list_all (\<lambda>c. (CHR ''a'' \<le> c \<and> c \<le> CHR ''z'') \<or> (CHR ''A'' \<le> c \<and> c \<le> CHR ''Z'') \<or> (CHR ''0'' \<le> c \<and> c \<le> CHR ''9'')
       \<or> c = CHR ''.'' \<or> c = CHR ''_'' \<or> c = CHR ''-'') s"

definition SBFFormat :: u8 where "SBFFormat = 1"
definition SBFBlockRecord :: u8 where "SBFBlockRecord = 0x80"
definition MaxSBFBlock :: nat where "MaxSBFBlock = 65532"

definition PushFeed :: "string \<Rightarrow> bool" where
  "PushFeed feed \<longleftrightarrow> feed = ''ubx'' \<or> feed = ''rtcm'' \<or> feed = ''sbf''"

record raw_record =
  rr_RecvUnixNs :: int
  rr_GnssID :: GNSSID
  rr_SvID :: u8
  rr_SigID :: u8
  rr_FreqID :: u8
  rr_FrameType :: u8
  rr_Raw :: "u8 list"

definition recordHeaderLen :: nat where "recordHeaderLen = 8 + 1 + 1 + 1 + 1 + 1"

text \<open>\<^verbatim>\<open>io.Writer\<close>: a write that does not fit is cut and reports an error. \<^verbatim>\<open>io.ReadFull\<close>: no byte at all is
  \<^verbatim>\<open>io.EOF\<close>, some but too few \<^verbatim>\<open>io.ErrUnexpectedEOF\<close>, and asking for none always succeeds.\<close>

record writer =
  w_out :: "u8 list"
  w_room :: nat

definition io_Write :: "writer \<Rightarrow> u8 list \<Rightarrow> (wire_error + unit) \<times> writer" where
  "io_Write w b =
     (let n = min (length b) (w_room w); w' = w\<lparr>w_out := w_out w @ take n b, w_room := w_room w - n\<rparr>
      in (if n < length b then Inl ErrWrite else Inr (), w'))"

definition io_ReadFull :: "u8 list \<Rightarrow> nat \<Rightarrow> (wire_error + u8 list) \<times> u8 list" where
  "io_ReadFull r n =
     (if n \<le> length r then (Inr (take n r), drop n r)
      else (Inl (if r = [] then ErrEOF else ErrUnexpectedEOF), []))"

definition WriteMagic :: "writer \<Rightarrow> (wire_error + unit) \<times> writer" where
  "WriteMagic w = io_Write w Magic"

definition ReadMagic :: "u8 list \<Rightarrow> (wire_error + unit) \<times> u8 list" where
  "ReadMagic r =
     (case io_ReadFull r 4 of
        (Inl e, r') \<Rightarrow> (Inl e, r')
      | (Inr m, r') \<Rightarrow> (if m \<noteq> Magic then Inl ErrBadMagic else Inr (), r'))"

definition WriteFrame :: "writer \<Rightarrow> frame_type \<Rightarrow> u8 list \<Rightarrow> (wire_error + unit) \<times> writer" where
  "WriteFrame w ft payload =
     (if length payload > MaxFrameLen then (Inl ErrFrameTooLarge, w)
      else
       (case io_Write w (ft # PutUint32 (of_nat (length payload))) of
          (Inl e, w') \<Rightarrow> (Inl e, w')
        | (Inr _, w') \<Rightarrow> io_Write w' payload))"

definition ReadFrameMax :: "u8 list \<Rightarrow> u32 \<Rightarrow> (wire_error + frame_type \<times> u8 list) \<times> u8 list" where
  "ReadFrameMax r maxLen =
     (case io_ReadFull r 5 of
        (Inl e, r') \<Rightarrow> (Inl e, r')
      | (Inr hdr, r') \<Rightarrow>
         (let n = Uint32 (drop 1 hdr)
          in if n > maxLen then (Inl ErrFrameTooLarge, r')
             else
              (case io_ReadFull r' (unat n) of
                 (Inl e, r'') \<Rightarrow> (Inl e, r'')
               | (Inr payload, r'') \<Rightarrow> (Inr (hdr ! 0, payload), r''))))"

definition ReadFrame :: "u8 list \<Rightarrow> (wire_error + frame_type \<times> u8 list) \<times> u8 list" where
  "ReadFrame r = ReadFrameMax r (of_nat MaxFrameLen)"

definition WriteHello :: "(hello_msg \<Rightarrow> wire_error + u8 list) \<Rightarrow> writer \<Rightarrow> hello_msg \<Rightarrow> (wire_error + unit) \<times> writer" where
  "WriteHello json_Marshal w h = (case json_Marshal h of Inl e \<Rightarrow> (Inl e, w) | Inr b \<Rightarrow> WriteFrame w Hello b)"

definition WriteWelcome :: "(welcome_msg \<Rightarrow> wire_error + u8 list) \<Rightarrow> writer \<Rightarrow> welcome_msg \<Rightarrow> (wire_error + unit) \<times> writer" where
  "WriteWelcome json_Marshal w m = (case json_Marshal m of Inl e \<Rightarrow> (Inl e, w) | Inr b \<Rightarrow> WriteFrame w Welcome b)"

definition ParseHello :: "(u8 list \<Rightarrow> wire_error + hello_msg) \<Rightarrow> u8 list \<Rightarrow> wire_error + hello_msg" where
  "ParseHello json_Unmarshal payload = json_Unmarshal payload"

definition MarshalWelcome :: "(welcome_msg \<Rightarrow> wire_error + u8 list) \<Rightarrow> welcome_msg \<Rightarrow> wire_error + u8 list" where
  "MarshalWelcome json_Marshal m = json_Marshal m"

definition EncodeData :: "u64 \<Rightarrow> raw_record \<Rightarrow> u8 list" where
  "EncodeData seq rc = PutUint64 seq @ PutUint64 (word_of_int (rr_RecvUnixNs rc)) @
     [rr_GnssID rc, rr_SvID rc, rr_SigID rc, rr_FreqID rc, rr_FrameType rc] @ rr_Raw rc"

definition DecodeData :: "u8 list \<Rightarrow> wire_error + u64 \<times> raw_record" where
  "DecodeData payload =
     (if length payload < 8 + recordHeaderLen then Inl ErrShortRecord
      else Inr (Uint64 (take 8 payload),
        \<lparr>rr_RecvUnixNs = sint (Uint64 (take 8 (drop 8 payload))), rr_GnssID = payload ! 16, rr_SvID = payload ! 17,
         rr_SigID = payload ! 18, rr_FreqID = payload ! 19, rr_FrameType = payload ! 20, rr_Raw = drop 21 payload\<rparr>))"

definition EncodeAck :: "u64 \<Rightarrow> u8 list" where
  "EncodeAck seq = PutUint64 seq"

definition DecodeAck :: "u8 list \<Rightarrow> wire_error + u64" where
  "DecodeAck payload = (if length payload < 8 then Inl ErrShortRecord else Inr (Uint64 (take 8 payload)))"

record update_command =
  uc_Action :: u8
  uc_Hint :: bool
  uc_ID :: u64
  uc_Generation :: u64
  uc_Release :: u64
  uc_Expires :: u64

definition update_Valid :: "update_command \<Rightarrow> bool" where
  "update_Valid c \<longleftrightarrow> uc_Action c \<ge> 1 \<and> uc_Action c \<le> 4 \<and> (\<not> uc_Hint c \<or> uc_Action c = 1) \<and> uc_ID c \<noteq> 0 \<and> uc_Expires c \<noteq> 0 \<and>
     ((uc_Action c \<noteq> 2 \<and> uc_Action c \<noteq> 3) \<or> (uc_Generation c \<noteq> 0 \<and> uc_Release c \<noteq> 0))"

definition update_Encode :: "update_command \<Rightarrow> wire_error + u8 list" where
  "update_Encode c =
     (if \<not> update_Valid c then Inl ErrUpdateCommand
      else Inr ([1, uc_Action c, 0, if uc_Hint c then 1 else 0] @
        concat (map PutUint64 [uc_ID c, uc_Generation c, uc_Release c, uc_Expires c])))"

definition DecodeUpdateCommand :: "u8 list \<Rightarrow> wire_error + update_command" where
  "DecodeUpdateCommand p =
     (if length p \<noteq> 36 \<or> p ! 0 \<noteq> 1 \<or> p ! 2 \<noteq> 0 \<or> p ! 3 > 1 then Inl ErrUpdateFraming
      else
       (let c = \<lparr>uc_Action = p ! 1, uc_Hint = (p ! 3 = 1), uc_ID = Uint64 (take 8 (drop 4 p)), uc_Generation = Uint64 (take 8 (drop 12 p)),
                 uc_Release = Uint64 (take 8 (drop 20 p)), uc_Expires = Uint64 (take 8 (drop 28 p))\<rparr>
        in if \<not> update_Valid c then Inl ErrUpdateFields else Inr c))"

section \<open>Frames on a stream\<close>

definition frame_bytes :: "frame_type \<times> u8 list \<Rightarrow> u8 list" where
  "frame_bytes f = fst f # PutUint32 (of_nat (length (snd f))) @ snd f"

definition frame_fits :: "frame_type \<times> u8 list \<Rightarrow> bool" where
  "frame_fits f \<longleftrightarrow> length (snd f) \<le> MaxFrameLen"

lemma length_frame_bytes [simp]: "length (frame_bytes f) = 5 + length (snd f)"
  by (simp add: frame_bytes_def)

lemma unat_length: "n \<le> MaxFrameLen \<Longrightarrow> unat (of_nat n :: u32) = n"
  by (simp add: unat_of_nat take_bit_nat_eq_self_iff MaxFrameLen_def)

lemma io_Write_bytes:
  "io_Write w b = (if length b \<le> w_room w then Inr () else Inl ErrWrite,
     w\<lparr>w_out := w_out w @ take (w_room w) b, w_room := w_room w - length b\<rparr>)"
  by (auto simp: io_Write_def Let_def min_def)

text \<open>Writing cuts the frame where the connection breaks.\<close>

lemma WriteFrame_bytes:
  assumes "frame_fits f"
  shows "WriteFrame w (fst f) (snd f) = (if length (frame_bytes f) \<le> w_room w then Inr () else Inl ErrWrite,
     w\<lparr>w_out := w_out w @ take (w_room w) (frame_bytes f), w_room := w_room w - length (frame_bytes f)\<rparr>)"
  using assms by (auto simp: WriteFrame_def io_Write_bytes frame_fits_def frame_bytes_def take_Cons' split: if_splits)

lemma ReadFrame_bytes: "frame_fits f \<Longrightarrow> ReadFrame (frame_bytes f @ rest) = (Inr f, rest)"
  by (cases f) (auto simp: ReadFrame_def ReadFrameMax_def io_ReadFull_def frame_bytes_def frame_fits_def Let_def unat_length
      word_le_nat_alt not_less drop_Cons' take_Cons' word_less_nat_alt)

lemma ReadFrame_cut:
  assumes "frame_fits f" "c < length (frame_bytes f)"
  shows "fst (ReadFrame (take c (frame_bytes f))) = Inl (if c = 0 \<or> c = 5 then ErrEOF else ErrUnexpectedEOF)"
proof (cases "c < 5")
  case True
  then show ?thesis by (auto simp: ReadFrame_def ReadFrameMax_def io_ReadFull_def frame_bytes_def)
next
  case False
  let ?h = "PutUint32 (of_nat (length (snd f)))"
  have t: "take c (frame_bytes f) = fst f # ?h @ take (c - 5) (snd f)"
    using False by (simp add: frame_bytes_def take_Cons')
  have "c - 5 < length (snd f)" using assms(2) False by simp
  then show ?thesis using assms(1) False unfolding t
    by (auto simp: ReadFrame_def ReadFrameMax_def io_ReadFull_def frame_fits_def Let_def unat_length word_less_nat_alt not_less
        drop_Cons' take_Cons')
qed

text \<open>The loops around them: a sender that stops at the first error and a receiver that reads until it gets one.\<close>

fun write_all :: "writer \<Rightarrow> (frame_type \<times> u8 list) list \<Rightarrow> (wire_error + unit) \<times> writer" where
  "write_all w [] = (Inr (), w)"
| "write_all w (f # fs) = (case WriteFrame w (fst f) (snd f) of (Inl e, w') \<Rightarrow> (Inl e, w') | (Inr _, w') \<Rightarrow> write_all w' fs)"

lemma ReadFrameMax_inverse:
  assumes "ReadFrameMax r m = (Inr f, r')"
  shows "r = frame_bytes f @ r'" "length (snd f) \<le> unat m"
proof -
  have l: "5 \<le> length r" using assms by (simp add: ReadFrameMax_def io_ReadFull_def split: if_splits)
  let ?n = "Uint32 (take 4 (drop (Suc 0) r))"
  have h: "drop (Suc 0) (take 5 r) = take 4 (drop (Suc 0) r)" by (simp add: drop_take)
  have n: "?n \<le> m" "unat ?n \<le> length (drop 5 r)" "f = (take 5 r ! 0, take (unat ?n) (drop 5 r))" "r' = drop (unat ?n) (drop 5 r)"
    using assms l by (auto simp: ReadFrameMax_def io_ReadFull_def Let_def h not_less split: if_splits)
  have len: "length (snd f) = unat ?n" using n(2,3) by simp
  have "length (take 4 (drop (Suc 0) r)) = 4" using l by simp
  then have put: "PutUint32 ?n = take 4 (drop (Suc 0) r)" by (rule PutUint32_Uint32)
  obtain a r1 where r: "r = a # r1" using l by (cases r) auto
  have "take 4 r1 @ take k (drop 4 r1) @ drop (k + 4) r1 = r1" for k by (metis append_take_drop_id drop_drop)
  then show "r = frame_bytes f @ r'" using n(3,4) len put by (simp add: frame_bytes_def r)
  show "length (snd f) \<le> unat m" using n(1) len by (simp add: word_le_nat_alt)
qed

lemma ReadFrame_shorter: "ReadFrame r = (Inr f, r') \<Longrightarrow> length r' < length r"
  using ReadFrameMax_inverse(1) [of r _ f r'] by (fastforce simp: ReadFrame_def)

function read_all :: "u8 list \<Rightarrow> (frame_type \<times> u8 list) list \<times> wire_error" where
  "read_all r = (case ReadFrame r of (Inl e, _) \<Rightarrow> ([], e) | (Inr f, r') \<Rightarrow> (case read_all r' of (fs, e) \<Rightarrow> (f # fs, e)))"
  by auto
termination by (relation "measure length") (auto dest!: sym [of "(_, _)"] ReadFrame_shorter)

declare read_all.simps [simp del]

text \<open>The frames that lie completely within the first \<open>c\<close> bytes, and how the stream ends for their reader.\<close>

fun complete_frames :: "nat \<Rightarrow> (frame_type \<times> u8 list) list \<Rightarrow> (frame_type \<times> u8 list) list \<times> wire_error" where
  "complete_frames c [] = ([], ErrEOF)"
| "complete_frames c (f # fs) =
     (if 5 + length (snd f) \<le> c then (case complete_frames (c - (5 + length (snd f))) fs of (gs, e) \<Rightarrow> (f # gs, e))
      else ([], if c = 0 \<or> c = 5 then ErrEOF else ErrUnexpectedEOF))"

lemma write_all_bytes:
  "list_all frame_fits fs \<Longrightarrow> w_out (snd (write_all w fs)) = w_out w @ take (w_room w) (concat (map frame_bytes fs))"
proof (induction fs arbitrary: w)
  case (Cons f fs)
  then show ?case using WriteFrame_bytes [of f w] by (simp add: Let_def)
qed simp

lemma write_all_ok:
  "list_all frame_fits fs \<Longrightarrow> fst (write_all w fs) = (if length (concat (map frame_bytes fs)) \<le> w_room w then Inr () else Inl ErrWrite)"
proof (induction fs arbitrary: w)
  case (Cons f fs)
  then show ?case using WriteFrame_bytes [of f w] by auto
qed simp

lemma read_all_Nil: "read_all [] = ([], ErrEOF)"
  by (subst read_all.simps) (simp add: ReadFrame_def ReadFrameMax_def io_ReadFull_def)

lemma read_all_cut: "list_all frame_fits fs \<Longrightarrow> read_all (take c (concat (map frame_bytes fs))) = complete_frames c fs"
proof (induction fs arbitrary: c)
  case Nil
  then show ?case by (simp add: read_all_Nil)
next
  case (Cons f fs)
  show ?case
  proof (cases "length (frame_bytes f) \<le> c")
    case True
    then have "take c (concat (map frame_bytes (f # fs))) = frame_bytes f @ take (c - length (frame_bytes f)) (concat (map frame_bytes fs))" by simp
    moreover have "complete_frames c (f # fs) = (case complete_frames (c - (5 + length (snd f))) fs of (gs, e) \<Rightarrow> (f # gs, e))"
      using True by (subst complete_frames.simps) (simp only: length_frame_bytes if_True)
    ultimately show ?thesis using Cons ReadFrame_bytes [of f] by (subst read_all.simps) simp
  next
    case False
    then have "take c (concat (map frame_bytes (f # fs))) = take c (frame_bytes f)" by simp
    then show ?thesis using Cons(2) False ReadFrame_cut [of f c] by (subst read_all.simps) (auto split: prod.split)
  qed
qed

section \<open>Codecs\<close>

text \<open>The values of a canonical encoding can be sent as the payloads of frames.\<close>

context codec
begin

lemma transport:
  assumes "list_all valid xs" "map enc xs = map Inr bs" "list_all (\<lambda>b. length b \<le> MaxFrameLen) bs"
  shows "read_all (concat (map (\<lambda>b. frame_bytes (ft, b)) bs)) = (map (Pair ft) bs, ErrEOF) \<and> map dec bs = map Inr xs"
proof -
  have fits: "list_all frame_fits (map (Pair ft) bs)" using assms(3) by (simp add: list_all_iff frame_fits_def)
  have c: "complete_frames (length (concat (map frame_bytes fs))) fs = (fs, ErrEOF)" for fs by (induction fs) simp_all
  have "read_all (take (length (concat (map frame_bytes (map (Pair ft) bs)))) (concat (map frame_bytes (map (Pair ft) bs)))) = (map (Pair ft) bs, ErrEOF)"
    unfolding read_all_cut [OF fits] by (rule c)
  moreover have "map dec bs = map Inr xs" by (rule dec_map [OF assms(1,2)])
  ultimately show ?thesis by (simp add: comp_def)
qed

end

definition enc_data :: "u64 \<times> raw_record \<Rightarrow> wire_error + u8 list" where
  "enc_data x = Inr (EncodeData (fst x) (snd x))"

lemma split_at_16: "16 \<le> length p \<Longrightarrow> take 8 p @ take 8 (drop 8 p) @ drop 16 p = p"
  using take_add [of 8 8 p] append_take_drop_id [of 16 p] by (metis append.assoc numeral_plus_numeral semiring_norm(2) semiring_norm(6) add_num_simps(8))

lemma header_split: "21 \<le> length p \<Longrightarrow> drop 16 p = [p ! 16, p ! 17, p ! 18, p ! 19, p ! 20] @ drop 21 p"
  using Cons_nth_drop_Suc [of 16 p] Cons_nth_drop_Suc [of 17 p] Cons_nth_drop_Suc [of 18 p] Cons_nth_drop_Suc [of 19 p]
    Cons_nth_drop_Suc [of 20 p] by simp

interpretation data: codec "\<lambda>(seq, rc). sfits 64 (rr_RecvUnixNs rc)" enc_data DecodeData
proof unfold_locales
  fix x :: "u64 \<times> raw_record" and b
  assume "case x of (seq, rc) \<Rightarrow> sfits 64 (rr_RecvUnixNs rc)" "enc_data x = Inr b"
  then show "DecodeData b = Inr x"
    by (auto simp: enc_data_def EncodeData_def DecodeData_def recordHeaderLen_def nth_append nth_Cons' )
next
  fix x :: "u64 \<times> raw_record" and b
  assume d: "DecodeData b = Inr x"
  then have l: "21 \<le> length b" by (simp add: DecodeData_def recordHeaderLen_def split: if_splits)
  have "EncodeData (fst x) (snd x) = take 8 b @ take 8 (drop 8 b) @ drop 16 b"
    using d l header_split [OF l] by (auto simp: DecodeData_def recordHeaderLen_def EncodeData_def PutUint64_Uint64 split: if_splits)
  moreover have "sfits 64 (rr_RecvUnixNs (snd x))" using d sfits_widths(4) by (auto simp: DecodeData_def split: if_splits)
  ultimately show "(case x of (seq, rc) \<Rightarrow> sfits 64 (rr_RecvUnixNs rc)) \<and> enc_data x = Inr b"
    using split_at_16 [of b] l by (auto simp: enc_data_def)
qed

lemma byte_le_1: "\<not> 1 < (x :: u8) \<Longrightarrow> x = (if x = 1 then 1 else 0)"
proof -
  assume "\<not> 1 < x"
  then have "unat x \<le> 1" by (simp add: not_less word_le_nat_alt)
  then have "unat x = unat (0 :: u8) \<or> unat x = unat (1 :: u8)" by auto
  then have "x = 0 \<or> x = 1" by (simp only: word_unat_eq_iff)
  then show ?thesis by auto
qed

lemma take_8_4: "length p = 36 \<Longrightarrow> take 8 (drop 4 p) @ take 8 (drop 12 p) @ take 8 (drop 20 p) @ take 8 (drop 28 p) = drop 4 p"
  using append_take_drop_id [of 8 "drop 4 p"] append_take_drop_id [of 8 "drop 12 p"] append_take_drop_id [of 8 "drop 20 p"] by simp

lemma head_4: "length p = 36 \<Longrightarrow> p = [p ! 0, p ! 1, p ! 2, p ! 3] @ drop 4 p"
  using Cons_nth_drop_Suc [of 0 p] Cons_nth_drop_Suc [of 1 p] Cons_nth_drop_Suc [of 2 p] Cons_nth_drop_Suc [of 3 p]
  by (simp add: eval_nat_numeral)

interpretation update: codec update_Valid update_Encode DecodeUpdateCommand
proof unfold_locales
  fix c b assume v: "update_Valid c" "update_Encode c = Inr b"
  then have b: "b = [1, uc_Action c, 0, if uc_Hint c then 1 else 0] @ PutUint64 (uc_ID c) @ PutUint64 (uc_Generation c) @
      PutUint64 (uc_Release c) @ PutUint64 (uc_Expires c)"
    by (simp add: update_Encode_def)
  have "DecodeUpdateCommand b = (if \<not> update_Valid c then Inl ErrUpdateFields else Inr c)"
    unfolding b by (cases c) (simp add: DecodeUpdateCommand_def Let_def)
  then show "DecodeUpdateCommand b = Inr c" using v(1) by simp
next
  fix c p assume d: "DecodeUpdateCommand p = Inr c"
  then have f: "length p = 36" "p ! 0 = 1" "p ! 2 = 0" "\<not> 1 < p ! 3" and v: "update_Valid c"
    and c: "c = \<lparr>uc_Action = p ! 1, uc_Hint = (p ! 3 = 1), uc_ID = Uint64 (take 8 (drop 4 p)), uc_Generation = Uint64 (take 8 (drop 12 p)),
      uc_Release = Uint64 (take 8 (drop 20 p)), uc_Expires = Uint64 (take 8 (drop 28 p))\<rparr>"
    by (auto simp: DecodeUpdateCommand_def Let_def split: if_splits)
  have "update_Encode c = Inr ([1, uc_Action c, 0, if uc_Hint c then 1 else 0] @ PutUint64 (uc_ID c) @ PutUint64 (uc_Generation c) @
      PutUint64 (uc_Release c) @ PutUint64 (uc_Expires c))"
    using v by (simp add: update_Encode_def)
  also have "\<dots> = Inr ([p ! 0, p ! 1, p ! 2, p ! 3] @ drop 4 p)"
    using f byte_le_1 [OF f(4)] take_8_4 [OF f(1)] by (simp add: c PutUint64_Uint64)
  also have "\<dots> = Inr p" using head_4 [OF f(1)] by simp
  finally show "update_Valid c \<and> update_Encode c = Inr p" using v by simp
qed

section \<open>Properties\<close>

text \<open>C7: Wherever a connection breaks, the receiver delivers exactly the frames that were written completely before that
  byte, in order and unaltered, and then an error; the sender reports success only when every byte went out. The reader sees a
  plain end of stream when the break falls between two frames, and also when it falls right after a header, since reading the
  payload then finds no byte at all.\<close>

theorem broken_stream:
  assumes "list_all frame_fits fs"
  shows "case write_all \<lparr>w_out = [], w_room = c\<rparr> fs of (sent, w) \<Rightarrow>
    read_all (w_out w) = complete_frames c fs \<and>
    sent = (if length (concat (map frame_bytes fs)) \<le> c then Inr () else Inl ErrWrite)"
  using write_all_bytes [OF assms, of "\<lparr>w_out = [], w_room = c\<rparr>"] write_all_ok [OF assms, of "\<lparr>w_out = [], w_room = c\<rparr>"]
    read_all_cut [OF assms, of c] by (simp add: split_beta)

theorem broken_stream_witness:
  "read_all (w_out (snd (write_all \<lparr>w_out = [], w_room = 16\<rparr> [(Ping, []), (Ack, [0, 0, 0, 0, 0, 0, 0, 9]), (Pong, [])]))) =
    ([(Ping, [])], ErrUnexpectedEOF)"
  using broken_stream [of "[(Ping, []), (Ack, [0, 0, 0, 0, 0, 0, 0, 9]), (Pong, [])]" 16]
  by (simp add: frame_fits_def MaxFrameLen_def split_beta)

text \<open>A frame that a read accepts is byte for byte the encoding at the head of the stream, its payload is within the
  caller's cap, and the rest of the stream is left unread; a refused length leaves everything after the header unread, so no
  payload above the cap is ever taken from the connection.\<close>

lemma ReadFrameMax_bounded:
  "case ReadFrameMax r maxLen of
     (Inr f, r') \<Rightarrow> r = frame_bytes f @ r' \<and> length (snd f) \<le> unat maxLen
   | (Inl e, r') \<Rightarrow> (if e = ErrFrameTooLarge then r' = drop 5 r \<and> 5 \<le> length r \<and> maxLen < Uint32 (take 4 (drop 1 r)) else r' = [])"
proof (cases "ReadFrameMax r maxLen")
  case (Pair x r')
  show ?thesis
  proof (cases x)
    case (Inl e)
    have "drop (Suc 0) (take 5 r) = take 4 (drop (Suc 0) r)" by (simp add: drop_take)
    then show ?thesis using Inl Pair by (auto simp: ReadFrameMax_def io_ReadFull_def Let_def split: if_splits)
  next
    case (Inr f)
    then show ?thesis using ReadFrameMax_inverse [of r maxLen f r'] Pair by simp
  qed
qed

text \<open>C14: A run of DATA frames carries its records exactly: the frames written for any sequence numbers and records whose
  reception times are 64-bit values are read back as DATA frames, in order, and decode to the same numbers and records,
  negative times and empty bodies included.\<close>

theorem data_transport:
  assumes "list_all (\<lambda>(seq, rc). sfits 64 (rr_RecvUnixNs rc) \<and> 21 + length (rr_Raw rc) \<le> MaxFrameLen) xs"
  shows "case read_all (concat (map (\<lambda>(seq, rc). frame_bytes (Data, EncodeData seq rc)) xs)) of
    (fs, e) \<Rightarrow> e = ErrEOF \<and> map fst fs = replicate (length xs) Data \<and> map (DecodeData \<circ> snd) fs = map Inr xs"
proof -
  let ?bs = "map (\<lambda>(seq, rc). EncodeData seq rc) xs"
  have "list_all (\<lambda>(seq, rc). sfits 64 (rr_RecvUnixNs rc)) xs" using assms by (auto simp: list_all_iff)
  moreover have "map enc_data xs = map Inr ?bs" by (simp add: enc_data_def split_beta)
  moreover have "list_all (\<lambda>b. length b \<le> MaxFrameLen) ?bs" using assms by (auto simp: list_all_iff EncodeData_def)
  ultimately have "read_all (concat (map (\<lambda>b. frame_bytes (Data, b)) ?bs)) = (map (Pair Data) ?bs, ErrEOF) \<and> map DecodeData ?bs = map Inr xs"
    by (rule data.transport)
  note T = this
  have e: "map (\<lambda>(seq, rc). frame_bytes (Data, EncodeData seq rc)) xs = map (\<lambda>b. frame_bytes (Data, b)) ?bs"
    by (simp add: split_beta)
  show ?thesis unfolding e using T by (simp add: comp_def map_replicate_const)
qed

definition sample_record :: raw_record where
  "sample_record = \<lparr>rr_RecvUnixNs = -5, rr_GnssID = 6, rr_SvID = 3, rr_SigID = 0, rr_FreqID = 12, rr_FrameType = 1, rr_Raw = [7, 8]\<rparr>"

theorem data_transport_witness:
  "case read_all (concat (map (\<lambda>(seq, rc). frame_bytes (Data, EncodeData seq rc)) [(1, sample_record), (2, sample_record)])) of
    (fs, e) \<Rightarrow> map (DecodeData \<circ> snd) fs = [Inr (1, sample_record), Inr (2, sample_record)]"
  using data_transport [of "[(1, sample_record), (2, sample_record)]"]
  by (simp add: sample_record_def sfits_def MaxFrameLen_def split_beta)

text \<open>Update commands have one encoding each: a command decodes from a body exactly when it is well formed and the body
  is its 36-byte encoding, so every other byte string (another length, version, reserved byte, flag value or field) is refused.\<close>

lemma update_command_canonical:
  "DecodeUpdateCommand p = Inr c \<longleftrightarrow> update_Encode c = Inr p"
  using update.dec_iff [of p c] by (auto simp: update_Encode_def split: if_splits)

end
