(* ===== verification/StreamScan.thy ===== *)
theory StreamScan
  imports Resync RawFrame Wire Crc24q
begin

text \<open>
  The capture scanners \<^verbatim>\<open>go/internal/ingest/rtcm.go\<close> and \<^verbatim>\<open>go/internal/ingest/sbf.go\<close>, with the checks on stored and pushed SBF blocks
  and their reconstruction. The callbacks \<^verbatim>\<open>emit\<close> and \<^verbatim>\<open>onErr\<close> are the events of the result, in order; \<open>now k\<close> is the \<open>k\<close>th
  reading of the clock. A scanner ends with its stream, so its return value, the reader's error, carries nothing.
\<close>

unbundle bit_operations_syntax

section \<open>RTCM\<close>

datatype scan_event = Emit raw_frame | OnErr string

definition rtcmPreamble :: u8 where "rtcmPreamble = 0xD3"
definition rtcmMaxLen :: int where "rtcmMaxLen = 1023"

function scanRTCM :: "string \<Rightarrow> (nat \<Rightarrow> time) \<Rightarrow> nat \<Rightarrow> u8 list \<Rightarrow> scan_event list" where
  "scanRTCM source now k [] = []"
| "scanRTCM source now k (b # r) =
     (if b \<noteq> rtcmPreamble then scanRTCM source now k r
      else
       (case peek r 2 of None \<Rightarrow> []
        | Some lenBytes \<Rightarrow>
           (let length' = uint (lenBytes ! 0 AND 0x03) * 256 + uint (lenBytes ! 1)
            in if length' = 0 then
                 (case peek r 5 of None \<Rightarrow> []
                  | Some tail \<Rightarrow> if \<not> CheckCRC24Q (b # tail) then OnErr ''rtcm_crc'' # scanRTCM source now k r
                                else scanRTCM source now k (drop 5 r))
               else if length' < 3 \<or> length' > rtcmMaxLen then OnErr ''rtcm_length'' # scanRTCM source now k r
               else
                (let total = nat (2 + length' + 3)
                 in case peek r total of None \<Rightarrow> []
                    | Some peeked \<Rightarrow>
                       (let full = b # peeked
                        in if \<not> CheckCRC24Q full then OnErr ''rtcm_crc'' # scanRTCM source now k r
                           else
                            (let payload = take (nat length') (drop 3 full);
                                 msgNum = uint (payload ! 0) * 16 + uint (drop_bit 4 (payload ! 1))
                             in Emit (frame0\<lparr>rf_Recv := now k, rf_Source := source, rf_MsgType := msgNum, rf_Bytes := payload\<rparr>)
                                # scanRTCM source now (Suc k) (drop total r)))))))"
  by pat_completeness auto
termination by (relation "measure (\<lambda>(_, _, _, r). length r)") auto

section \<open>SBF\<close>

definition sbfSync1 :: u8 where "sbfSync1 = 0x24"
definition sbfSync2 :: u8 where "sbfSync2 = 0x40"
definition sbfScanBuf :: int where "sbfScanBuf = 2 ^ 16"

definition crc16_shift :: "u16 \<Rightarrow> u16" where
  "crc16_shift crc = (if crc AND 0x8000 \<noteq> 0 then push_bit 1 crc XOR 0x1021 else push_bit 1 crc)"

definition crc16_byte :: "u16 \<Rightarrow> u8 \<Rightarrow> u16" where
  "crc16_byte crc b = (crc16_shift ^^ 8) (crc XOR push_bit 8 (ucast b))"

definition crc16ccitt :: "u8 list list \<Rightarrow> u16" where
  "crc16ccitt groups = foldl (foldl crc16_byte) 0 groups"

function scanSBF :: "string \<Rightarrow> (nat \<Rightarrow> time) \<Rightarrow> nat \<Rightarrow> u8 list \<Rightarrow> scan_event list" where
  "scanSBF source now k stream =
     (case syncTo sbfSync1 sbfSync2 stream of None \<Rightarrow> []
      | Some r \<Rightarrow>
         (case peek r 6 of None \<Rightarrow> []
          | Some hdr \<Rightarrow>
             (let crc = LEUint16 hdr; ident = LEUint16 (drop 2 hdr); length' = uint (LEUint16 (drop 4 hdr)); total = length' - 2
              in if length' < 8 \<or> length' mod 4 \<noteq> 0 \<or> total > sbfScanBuf then OnErr ''sbf_length'' # scanSBF source now k r
                 else
                  (case peek r (nat total) of None \<Rightarrow> []
                   | Some peeked \<Rightarrow>
                      (let body = drop 6 peeked
                       in if crc16ccitt [take 4 (drop 2 peeked), body] \<noteq> crc then OnErr ''sbf_crc'' # scanSBF source now k r
                          else Emit (frame0\<lparr>rf_Recv := now k, rf_Source := source, rf_MsgType := uint (ident AND 0x1FFF),
                                      rf_SBFHeader := [sbfSync1, sbfSync2] @ take 6 peeked, rf_Bytes := body\<rparr>)
                               # scanSBF source now (Suc k) (drop (nat total) r))))))"
  by auto
termination by (relation "measure (\<lambda>(_, _, _, r). length r)") (auto dest!: syncTo_shorter)

datatype sbf_error = ErrNotSBF | ErrSBFLength | ErrSBFCRC | ErrSBFHeader | ErrSBFMismatch | ErrSBFLegacy

definition splitSBFBlock :: "u8 list \<Rightarrow> sbf_error + int \<times> u8 list \<times> u8 list" where
  "splitSBFBlock block =
     (if length block < 8 \<or> length block > MaxSBFBlock \<or> block ! 0 \<noteq> sbfSync1 \<or> block ! 1 \<noteq> sbfSync2 then Inl ErrNotSBF
      else
       (let ident = LEUint16 (take 2 (drop 4 block)); length' = uint (LEUint16 (take 2 (drop 6 block)))
        in if length' \<noteq> int (length block) \<or> length' mod 4 \<noteq> 0 then Inl ErrSBFLength
           else if crc16ccitt [take 4 (drop 4 block), drop 8 block] \<noteq> LEUint16 (take 2 (drop 2 block)) then Inl ErrSBFCRC
           else Inr (uint (ident AND 0x1FFF), take 8 block, drop 8 block)))"

definition SBFRevision :: "raw_frame \<Rightarrow> u8 \<times> bool" where
  "SBFRevision f = (if length (rf_SBFHeader f) \<noteq> 8 then (0, False) else (ucast (drop_bit 13 (LEUint16 (take 2 (drop 4 (rf_SBFHeader f))))), True))"

definition RestoreSBF :: "int \<Rightarrow> u8 list \<Rightarrow> u8 list \<Rightarrow> sbf_error + raw_frame" where
  "RestoreSBF block body header =
     (let f = frame0\<lparr>rf_MsgType := block, rf_Bytes := body, rf_SBFHeader := header\<rparr>
      in if length header = 0 then Inr f
         else if length header \<noteq> 8 \<or> header ! 0 \<noteq> sbfSync1 \<or> header ! 1 \<noteq> sbfSync2 then Inl ErrSBFHeader
         else
          (let ident = LEUint16 (take 2 (drop 4 header)); size' = uint (LEUint16 (take 2 (drop 6 header)))
           in if uint (ident AND 0x1FFF) \<noteq> block \<or> size' \<noteq> int (length body) + 8 \<or> size' mod 4 \<noteq> 0 \<or>
                 LEUint16 (take 2 (drop 2 header)) \<noteq> crc16ccitt [take 4 (drop 4 header), body] then Inl ErrSBFMismatch
              else Inr f))"

definition SBFWire :: "raw_frame \<Rightarrow> sbf_error + u8 list" where
  "SBFWire f =
     (if length (rf_SBFHeader f) = 0 then Inl ErrSBFLegacy
      else
       (case RestoreSBF (rf_MsgType f) (rf_Bytes f) (rf_SBFHeader f) of
          Inl e \<Rightarrow> Inl e
        | Inr _ \<Rightarrow> Inr (rf_SBFHeader f @ rf_Bytes f)))"

declare scanRTCM.simps(2) [simp del] scanSBF.simps [simp del]

section \<open>The scanners' verdicts\<close>

text \<open>The emitted frames differ from the recognised messages only in the stamp.\<close>

primrec stamped :: "string \<Rightarrow> (nat \<Rightarrow> time) \<Rightarrow> nat \<Rightarrow> (raw_frame + string) list \<Rightarrow> scan_event list" where
  "stamped source now k [] = []"
| "stamped source now k (x # xs) =
     (case x of Inl f \<Rightarrow> Emit (f\<lparr>rf_Recv := now k, rf_Source := source\<rparr>) # stamped source now (Suc k) xs
      | Inr e \<Rightarrow> OnErr e # stamped source now k xs)"

definition rtcm_capture :: "u8 list \<Rightarrow> raw_frame" where
  "rtcm_capture payload = frame0\<lparr>rf_MsgType := uint (payload ! 0) * 16 + uint (drop_bit 4 (payload ! 1)), rf_Bytes := payload\<rparr>"

definition rtcm_size :: "u8 list \<Rightarrow> nat" where
  "rtcm_size r = nat (uint (r ! 0 AND 0x03) * 256 + uint (r ! 1))"

definition rtcm_verdict :: "u8 list \<Rightarrow> raw_frame head" where
  "rtcm_verdict = sized 2 (\<lambda>m. if rtcm_size m = 0 \<or> 3 \<le> rtcm_size m then Some (rtcm_size m + 5) else None) ''rtcm_length''
     (\<lambda>m. CheckCRC24Q (rtcmPreamble # m)) ''rtcm_crc''
     (\<lambda>m. if rtcm_size m = 0 then None else Some (rtcm_capture (take (rtcm_size m) (drop 2 m))))"

definition rtcm_head :: "u8 list \<Rightarrow> raw_frame head" where
  "rtcm_head r =
     (case r of [] \<Rightarrow> Starve
      | b # q \<Rightarrow> if b \<noteq> rtcmPreamble then Skip None
                else (case rtcm_verdict q of Frame x n \<Rightarrow> Frame x (n + 1) | Skip e \<Rightarrow> Skip e | Starve \<Rightarrow> Starve))"

definition sbf_size :: "u8 list \<Rightarrow> nat" where
  "sbf_size r = unat (LEUint16 (drop 4 r))"

definition sbf_capture :: "u8 list \<Rightarrow> raw_frame" where
  "sbf_capture block = frame0\<lparr>rf_MsgType := uint (LEUint16 (drop 4 block) AND 0x1FFF), rf_SBFHeader := take 8 block, rf_Bytes := drop 8 block\<rparr>"

definition sbf_verdict :: "u8 list \<Rightarrow> raw_frame head" where
  "sbf_verdict = sized 6 (\<lambda>m. if sbf_size m < 8 \<or> sbf_size m mod 4 \<noteq> 0 then None else Some (sbf_size m - 2)) ''sbf_length''
     (\<lambda>m. crc16ccitt [take 4 (drop 2 m), drop 6 m] = LEUint16 m) ''sbf_crc''
     (\<lambda>m. Some (sbf_capture (sbfSync1 # sbfSync2 # m)))"

interpretation rtcm: resync rtcm_head rtcmPreamble
proof
  have laws: "rtcm_verdict q = Frame x n \<Longrightarrow> n \<le> length q" "rtcm_verdict q = Frame x n \<Longrightarrow> rtcm_verdict (take n q @ s) = Frame x n"
    "rtcm_verdict q = Skip e \<Longrightarrow> rtcm_verdict (q @ s) = Skip e" for q x n s e
    unfolding rtcm_verdict_def by (rule sized_laws; simp split: if_splits; fail)+
  fix r s x n e b
  show "rtcm_head r = Frame x n \<Longrightarrow> 0 < n \<and> n \<le> length r"
    by (auto simp: rtcm_head_def dest: laws split: list.splits if_splits head.splits)
  show "rtcm_head r = Frame x n \<Longrightarrow> rtcm_head (take n r @ s) = Frame x n"
    by (auto simp: rtcm_head_def laws split: list.splits if_splits head.splits)
  show "rtcm_head r = Skip e \<Longrightarrow> r \<noteq> [] \<and> rtcm_head (r @ s) = Skip e"
    by (auto simp: rtcm_head_def laws split: list.splits if_splits head.splits)
  show "b \<noteq> rtcmPreamble \<Longrightarrow> rtcm_head (b # r) = Skip None"
    by (simp add: rtcm_head_def)
qed

interpretation sbf: synced_format sbf_verdict sbfSync1 sbfSync2
  unfolding sbf_verdict_def by (rule sized_synced) (auto simp: sbfSync1_def sbfSync2_def split: if_splits)

text \<open>The scanners are the generic scan with these verdicts.\<close>

lemma rtcm_size_take: "2 \<le> n \<Longrightarrow> rtcm_size (take n r) = rtcm_size r"
  by (simp add: rtcm_size_def)

lemma rtcm_size_le: "rtcm_size r \<le> 1023"
proof -
  have "r ! 0 AND 0x03 \<le> 3" by (rule word_and_le1)
  then have "uint (r ! 0 AND 0x03) \<le> 3" by (simp add: word_le_def)
  moreover have "uint (r ! 1) \<le> 255" by simp
  ultimately have "uint (r ! 0 AND 0x03) * 256 + uint (r ! 1) \<le> 1023" by linarith
  then show ?thesis by (simp add: rtcm_size_def)
qed

text \<open>The length field, as the scanner computes it from the peeked bytes.\<close>

definition rtcm_length :: "u8 list \<Rightarrow> int" where
  "rtcm_length lenBytes = uint (lenBytes ! 0 AND 0x03) * 256 + uint (lenBytes ! 1)"

lemma rtcm_length_take: "rtcm_length (take 2 r) = int (rtcm_size r)"
  by (simp add: rtcm_length_def rtcm_size_def)

lemma rtcm_step:
  "scanRTCM source now k (rtcmPreamble # r) =
     (case rtcm_verdict r of
        Starve \<Rightarrow> []
      | Skip e \<Rightarrow> (case e of None \<Rightarrow> [] | Some x \<Rightarrow> [OnErr x]) @ scanRTCM source now k r
      | Frame None n \<Rightarrow> scanRTCM source now k (drop n r)
      | Frame (Some f) n \<Rightarrow> Emit (f\<lparr>rf_Recv := now k, rf_Source := source\<rparr>) # scanRTCM source now (Suc k) (drop n r))"
proof -
  have le: "\<not> int (rtcm_size r) > rtcmMaxLen" using rtcm_size_le [of r] by (simp add: rtcmMaxLen_def)
  have n: "nat (5 + int (rtcm_size r)) = rtcm_size r + 5" by simp
  note E = scanRTCM.simps(2) [folded rtcm_length_def, of source now k rtcmPreamble r, unfolded peek_def Let_def]
  consider "length r < 2" | "2 \<le> length r" "rtcm_size r = 0" | "2 \<le> length r" "rtcm_size r = 1 \<or> rtcm_size r = 2" | "2 \<le> length r" "3 \<le> rtcm_size r"
    by linarith
  then show ?thesis
  proof cases
    case 1
    then show ?thesis by (simp add: E rtcm_verdict_def sized_def)
  next
    case 2
    then show ?thesis by (simp add: E rtcm_verdict_def sized_def rtcm_size_take rtcm_length_take)
  next
    case 3
    then show ?thesis by (auto simp add: E rtcm_verdict_def sized_def rtcm_size_take rtcm_length_take)
  next
    case 4
    then show ?thesis
      using le by (simp add: E n rtcm_verdict_def sized_def rtcm_size_take rtcm_length_take rtcm_capture_def drop_take not_le)
  qed
qed

lemma scanRTCM_events: "scanRTCM source now k r = stamped source now k (fst (resync_scan rtcm_head r))"
proof (induction "length r" arbitrary: r k rule: less_induct)
  case less
  show ?case
  proof (cases r)
    case (Cons b q)
    show ?thesis
    proof (cases "b = rtcmPreamble")
      case False
      then show ?thesis using less [of q k] by (simp add: Cons scanRTCM.simps(2) rtcm.scan_quiet_byte)
    next
      case True
      note IH = less [of "drop n q" for n, OF _] less [of q]
      show ?thesis
      proof (cases "rtcm_verdict q")
        case (Frame x n)
        then have h: "rtcm_head r = Frame x (n + 1)" using Cons True by (simp add: rtcm_head_def)
        then show ?thesis
          using IH Frame by (simp add: Cons True rtcm_step rtcm.scan_Frame split: option.split prod.split)
      next
        case (Skip e)
        then have h: "rtcm_head r = Skip e" using Cons True by (simp add: rtcm_head_def)
        then show ?thesis
          using IH Skip by (simp add: Cons True rtcm_step rtcm.scan_Skip split: option.split prod.split)
      next
        case Starve
        then have h: "rtcm_head r = Starve" using Cons True by (simp add: rtcm_head_def)
        then show ?thesis
          using Starve by (simp add: Cons True rtcm_step rtcm.scan_Starve)
      qed
    qed
  qed simp
qed


lemma sbf_size_take: "6 \<le> n \<Longrightarrow> sbf_size (take n r) = sbf_size r"
  by (simp add: sbf_size_def LEUint16_def drop_take min_def)

lemma sbf_size_bound: "sbf_size r < 65536"
  using unsigned_less [where 'a = nat, of "LEUint16 (drop 4 r)"] by (simp add: sbf_size_def)

lemma LEUint16_take: "2 \<le> n \<Longrightarrow> LEUint16 (take n r) = LEUint16 r"
  by (simp add: LEUint16_def min_def)

lemma sbf_step:
  "scanSBF source now k stream =
     (case syncTo sbfSync1 sbfSync2 stream of None \<Rightarrow> []
      | Some r \<Rightarrow>
         (case sbf_verdict r of
            Starve \<Rightarrow> []
          | Skip e \<Rightarrow> (case e of None \<Rightarrow> [] | Some x \<Rightarrow> [OnErr x]) @ scanSBF source now k r
          | Frame None n \<Rightarrow> scanSBF source now k (drop n r)
          | Frame (Some f) n \<Rightarrow> Emit (f\<lparr>rf_Recv := now k, rf_Source := source\<rparr>) # scanSBF source now (Suc k) (drop n r)))"
proof (cases "syncTo sbfSync1 sbfSync2 stream")
  case (Some r)
  let ?S = "sbf_size r"
  have L: "uint (LEUint16 (drop 4 (take 6 r))) = int ?S" by (simp add: sbf_size_def LEUint16_def drop_take)
  have m: "int ?S mod 4 \<noteq> 0 \<longleftrightarrow> ?S mod 4 \<noteq> 0" by presburger
  have n: "nat (int ?S - 2) = ?S - 2" by simp
  have b: "\<not> int ?S - 2 > sbfScanBuf" using sbf_size_bound [of r] by (simp add: sbfScanBuf_def)
  have i: "LEUint16 (drop 2 (take 6 r)) = LEUint16 (drop 2 r)" by (simp add: LEUint16_def drop_take)
  note E = scanSBF.simps [of source now k stream, unfolded peek_def Let_def]
  consider "length r < 6" | "6 \<le> length r" "?S < 8 \<or> ?S mod 4 \<noteq> 0" | "6 \<le> length r" "8 \<le> ?S" "?S mod 4 = 0" by linarith
  then show ?thesis
  proof cases
    case 1
    then show ?thesis by (simp add: E Some sbf_verdict_def sized_def)
  next
    case 2
    then have "int ?S < 8 \<or> int ?S mod 4 \<noteq> 0" using m by linarith
    then show ?thesis using 2 by (auto simp: E Some L sbf_verdict_def sized_def sbf_size_take)
  next
    case 3
    then have g: "\<not> (int ?S < 8 \<or> int ?S mod 4 \<noteq> 0 \<or> int ?S - 2 > sbfScanBuf)" using m b by linarith
    have t: "take 4 (drop 2 (take (?S - 2) r)) = take 4 (drop 2 r)" "LEUint16 (take (?S - 2) r) = LEUint16 r" "LEUint16 (take 6 r) = LEUint16 r"
      using 3 by (simp_all add: drop_take LEUint16_take min_def)
    have c: "sbf_capture (sbfSync1 # sbfSync2 # take (?S - 2) r) =
        frame0\<lparr>rf_MsgType := uint (LEUint16 (drop 2 r) AND 0x1FFF), rf_SBFHeader := [sbfSync1, sbfSync2] @ take 6 (take (?S - 2) r),
          rf_Bytes := drop 6 (take (?S - 2) r)\<rparr>"
      using 3 by (simp add: sbf_capture_def LEUint16_def drop_take min_def)
    show ?thesis
      using 3 g by (auto simp add: E Some L n i t c sbf_verdict_def sized_def sbf_size_take not_le)
  qed
qed (simp add: scanSBF.simps)

lemma scanSBF_events: "scanSBF source now k r = stamped source now k (fst (resync_scan (synced sbfSync1 sbfSync2 sbf_verdict) r))"
proof (induction "length r" arbitrary: r k rule: less_induct)
  case less
  show ?case
  proof (cases "syncTo sbfSync1 sbfSync2 r")
    case None
    then show ?thesis by (subst sbf_step, subst sbf.scan_events) simp
  next
    case (Some q)
    have IH: "scanSBF source now j (drop n q) = stamped source now j (fst (resync_scan (synced sbfSync1 sbfSync2 sbf_verdict) (drop n q)))"
      "scanSBF source now j q = stamped source now j (fst (resync_scan (synced sbfSync1 sbfSync2 sbf_verdict) q))" for n j
      using syncTo_shorter [OF Some] by (intro less; simp)+
    show ?thesis
      by (subst sbf_step, subst sbf.scan_events) (simp add: Some IH split: head.split option.split)
  qed
qed

section \<open>What the verdicts recognise\<close>

text \<open>An RTCM message as it is sent.\<close>

definition rtcm_message :: "u8 list \<Rightarrow> u8 list" where
  "rtcm_message payload =
     (let h = [rtcmPreamble, of_nat (length payload div 256), of_nat (length payload mod 256)] @ payload in h @ crc_bytes (CRC24Q h))"

lemma length_crc_bytes [simp]: "length (crc_bytes c) = 3"
  by (simp add: crc_bytes_def)

lemma rtcm_size_message:
  assumes "n \<le> 1023"
  shows "rtcm_size (of_nat (n div 256) # of_nat (n mod 256) # p) = n"
proof -
  have "n div 256 \<in> {0, 1, 2, 3}" using assms by auto
  then have "uint (of_nat (n div 256) AND 3 :: u8) = int (n div 256)" by (elim insertE emptyE) simp_all
  moreover have "uint (of_nat (n mod 256) :: u8) = int (n mod 256)" by (simp add: unsigned_of_nat take_bit_nat_def)
  ultimately show ?thesis by (simp add: rtcm_size_def nat_add_distrib nat_mult_distrib)
qed

lemma rtcm_head_message:
  assumes "length p \<le> 1023" "p = [] \<or> 3 \<le> length p"
  shows "rtcm_head (rtcm_message p) = Frame (if p = [] then None else Some (rtcm_capture p)) (length (rtcm_message p))"
proof -
  let ?h = "of_nat (length p div 256) # of_nat (length p mod 256) # p"
  let ?c = "crc_bytes (CRC24Q (rtcmPreamble # ?h))"
  have m: "rtcm_message p = rtcmPreamble # ?h @ ?c" by (simp add: rtcm_message_def Let_def)
  have size: "rtcm_size (take 2 (?h @ ?c)) = length p" "rtcm_size (?h @ ?c) = length p" using rtcm_size_message assms(1) by (simp_all add: rtcm_size_take)
  have "CheckCRC24Q (rtcmPreamble # ?h @ ?c)"
    using CheckCRC24Q_append [of "rtcmPreamble # ?h"] by (simp add: crc_bytes_def)
  moreover have "length (?h @ ?c) = length p + 5" by simp
  ultimately have "rtcm_verdict (?h @ ?c) = Frame (if p = [] then None else Some (rtcm_capture p)) (length p + 5)"
    using size assms(2) unfolding rtcm_verdict_def sized_def by auto
  then show ?thesis by (simp add: rtcm_head_def m)
qed

lemma sbf_verdict_split:
  assumes "splitSBFBlock b = Inr (num, hdr, body)"
  shows "b = sbfSync1 # sbfSync2 # drop 2 b \<and> sbf_verdict (drop 2 b) = Frame (Some (sbf_capture b)) (length (drop 2 b)) \<and>
    num = rf_MsgType (sbf_capture b) \<and> hdr = rf_SBFHeader (sbf_capture b) \<and> body = rf_Bytes (sbf_capture b)"
proof -
  have s: "8 \<le> length b" "b ! 0 = sbfSync1" "b ! 1 = sbfSync2" "uint (LEUint16 (drop 6 b)) = int (length b)" "int (length b) mod 4 = 0"
    "crc16ccitt [take 4 (drop 4 b), drop 8 b] = LEUint16 (drop 2 b)"
    "num = uint (LEUint16 (drop 4 b) AND 0x1FFF)" "hdr = take 8 b" "body = drop 8 b"
    using assms by (auto simp: splitSBFBlock_def Let_def LEUint16_take split: if_splits)
  have m: "length b mod 4 = 0" using s(5) by presburger
  have b: "b = sbfSync1 # sbfSync2 # drop 2 b" using s(1-3) by (cases b; cases "tl b") auto
  have size: "sbf_size (drop 2 b) = length b" "sbf_size (take 6 (drop 2 b)) = length b"
    using s(4) by (simp_all add: sbf_size_take) (simp_all add: sbf_size_def flip: nat_uint_eq)
  have "sbf_verdict (drop 2 b) = Frame (Some (sbf_capture (sbfSync1 # sbfSync2 # drop 2 b))) (length b - 2)"
    using s(1,6) size m by (auto simp: sbf_verdict_def sized_def)
  then show ?thesis using b s(7-9) by (auto simp: sbf_capture_def)
qed

lemma split_sbf_verdict:
  assumes "synced sbfSync1 sbfSync2 sbf_verdict m = Frame (Some f) (length m)"
  shows "f = sbf_capture m \<and> splitSBFBlock m = Inr (rf_MsgType f, rf_SBFHeader f, rf_Bytes f)"
proof -
  obtain q where m: "m = sbfSync1 # sbfSync2 # q" and v: "sbf_verdict q = Frame (Some f) (length q)"
    using assms by (auto simp: synced_def split: list.splits if_splits head.splits)
  have q: "6 \<le> length q" "8 \<le> sbf_size q" "sbf_size q mod 4 = 0" "length q = sbf_size q - 2"
    "crc16ccitt [take 4 (drop 2 q), drop 6 q] = LEUint16 q" "f = sbf_capture m"
    using v by (auto simp: sbf_verdict_def sized_def sbf_size_take m not_less split: if_splits)
  have "int (sbf_size q) mod 4 = 0" using q(3) by presburger
  moreover have "uint (LEUint16 (drop 4 q)) = int (sbf_size q)" by (simp add: sbf_size_def)
  moreover have "sbf_size q \<le> MaxSBFBlock" using sbf_size_bound [of q] q(3) unfolding MaxSBFBlock_def by presburger
  ultimately have "splitSBFBlock m = Inr (rf_MsgType f, rf_SBFHeader f, rf_Bytes f)"
    using q by (simp add: splitSBFBlock_def m sbf_capture_def LEUint16_take)
  then show ?thesis using q(6) by simp
qed

lemma SBFWire_split:
  assumes "splitSBFBlock b = Inr (rf_MsgType f, rf_SBFHeader f, rf_Bytes f)"
  shows "SBFWire f = Inr b"
proof -
  have s: "8 \<le> length b" "b ! 0 = sbfSync1" "b ! 1 = sbfSync2" "uint (LEUint16 (drop 6 b)) = int (length b)" "int (length b) mod 4 = 0"
    "crc16ccitt [take 4 (drop 4 b), drop 8 b] = LEUint16 (drop 2 b)"
    "rf_MsgType f = uint (LEUint16 (drop 4 b) AND 0x1FFF)" "rf_SBFHeader f = take 8 b" "rf_Bytes f = drop 8 b"
    using assms by (auto simp: splitSBFBlock_def Let_def LEUint16_take split: if_splits)
  have t: "drop 4 (take 8 b) = take 4 (drop 4 b)" "LEUint16 (take 2 (drop 6 (take 8 b))) = LEUint16 (drop 6 b)"
    "LEUint16 (take 2 (drop 2 (take 8 b))) = LEUint16 (drop 2 b)" "LEUint16 (take 2 (drop 4 (take 8 b))) = LEUint16 (drop 4 b)"
    by (simp_all add: drop_take LEUint16_take)
  have "length (take 8 b) = 8" "take 8 b ! 0 = sbfSync1" "take 8 b ! 1 = sbfSync2" using s(1-3) by simp_all
  then have "RestoreSBF (rf_MsgType f) (drop 8 b) (take 8 b) = Inr (frame0\<lparr>rf_MsgType := rf_MsgType f, rf_Bytes := drop 8 b, rf_SBFHeader := take 8 b\<rparr>)"
    unfolding RestoreSBF_def Let_def t using s(1,4-7) by (simp add: LEUint16_take)
  then show ?thesis using s(1,8,9) by (simp add: SBFWire_def)
qed


lemma stamped_Inl:
  "stamped source now k (map Inl fs) = map (\<lambda>(i, f). Emit (f\<lparr>rf_Recv := now i, rf_Source := source\<rparr>)) (enumerate k fs)"
  by (induction fs arbitrary: k) auto

lemma enumerate_map: "enumerate k (map g xs) = map (\<lambda>(i, x). (i, g x)) (enumerate k xs)"
  by (induction xs arbitrary: k) auto

lemma stamped_append: "\<exists>j. stamped source now k (xs @ ys) = stamped source now k xs @ stamped source now j ys"
  by (induction xs arbitrary: k) (auto split: sum.split)

lemma stamped_elem: "Emit f \<in> set (stamped source now k xs) \<Longrightarrow> \<exists>g i. Inl g \<in> set xs \<and> f = g\<lparr>rf_Recv := now i, rf_Source := source\<rparr>"
  by (induction xs arbitrary: k) (fastforce split: sum.splits)+

section \<open>Properties\<close>

text \<open>An RTCM stream in which any bytes other than the preamble stand between complete messages delivers every message, once and in
  order: each payload of 3 to 1023 bytes with its message number and the clock reading of its turn, while the legal empty filler
  messages pass without a frame and without an error.\<close>

lemma rtcm_stream:
  assumes "\<forall>(j, p) \<in> set xs. rtcmPreamble \<notin> set j \<and> length p \<le> 1023 \<and> (p = [] \<or> 3 \<le> length p)"
  shows "scanRTCM source now 0 (concat (map (\<lambda>(j, p). j @ rtcm_message p) xs)) =
    map (\<lambda>(i, p). Emit (frame0\<lparr>rf_Recv := now i, rf_Source := source, rf_MsgType := uint (p ! 0) * 16 + uint (drop_bit 4 (p ! 1)), rf_Bytes := p\<rparr>))
      (enumerate 0 (filter (\<lambda>p. p \<noteq> []) (map snd xs)))"
proof -
  let ?ys = "map (\<lambda>(j, p). (j, rtcm_message p, if p = [] then None else Some (rtcm_capture p))) xs"
  have "\<forall>(j, m, f) \<in> set ?ys. rtcmPreamble \<notin> set j \<and> rtcm_head m = Frame f (length m)"
    using assms by (auto simp: rtcm_head_message)
  then have "resync_scan rtcm_head (concat (map (\<lambda>(j, m, f). j @ m) ?ys)) = (map Inl (List.map_filter (\<lambda>(j, m, f). f) ?ys), [])"
    by (rule rtcm.scan_stream)
  moreover have "List.map_filter (\<lambda>(j, m, f). f) ?ys = map rtcm_capture (filter (\<lambda>p. p \<noteq> []) (map snd xs))"
    by (induction xs) (auto simp: List.map_filter_simps)
  moreover have "concat (map (\<lambda>(j, m, f). j @ m) ?ys) = concat (map (\<lambda>(j, p). j @ rtcm_message p) xs)"
    by (simp add: case_prod_unfold o_def)
  ultimately have "resync_scan rtcm_head (concat (map (\<lambda>(j, p). j @ rtcm_message p) xs)) =
      (map Inl (map rtcm_capture (filter (\<lambda>p. p \<noteq> []) (map snd xs))), [])" by (simp only:)
  then show ?thesis
    unfolding scanRTCM_events by (simp add: stamped_Inl enumerate_map rtcm_capture_def case_prod_unfold del: map_map) (simp add: o_def)
qed

text \<open>An SBF stream in which any bytes other than a dollar sign stand between valid blocks delivers every block, once and in order:
  the same number, header and body that the push path extracts from it, from which the stored frame rebuilds the block byte for byte.\<close>

lemma sbf_stream:
  assumes "\<forall>(j, b) \<in> set xs. sbfSync1 \<notin> set j \<and> (\<exists>num hdr body. splitSBFBlock b = Inr (num, hdr, body))"
  shows "\<exists>fs. scanSBF source now 0 (concat (map (\<lambda>(j, b). j @ b) xs)) = map Emit fs \<and>
    map (\<lambda>f. Inr (rf_MsgType f, rf_SBFHeader f, rf_Bytes f)) fs = map (splitSBFBlock \<circ> snd) xs \<and>
    map SBFWire fs = map (Inr \<circ> snd) xs \<and> map rf_Recv fs = map now [0..<length xs]"
proof -
  let ?ys = "map (\<lambda>(j, b). (j, b, Some (sbf_capture b))) xs"
  let ?h = "synced sbfSync1 sbfSync2 sbf_verdict"
  let ?fs = "map (\<lambda>(i, f). f\<lparr>rf_Recv := now i, rf_Source := source\<rparr>) (enumerate 0 (map (sbf_capture \<circ> snd) xs))"
  have ok: "?h b = Frame (Some (sbf_capture b)) (length b) \<and> splitSBFBlock b = Inr (rf_MsgType (sbf_capture b), rf_SBFHeader (sbf_capture b), rf_Bytes (sbf_capture b))"
    if jb: "(j, b) \<in> set xs" for j b
  proof -
    obtain num hdr body where "splitSBFBlock b = Inr (num, hdr, body)" using assms jb by blast
    from sbf_verdict_split [OF this] this show ?thesis using sbf.synced_at [of "drop 2 b"] by metis
  qed
  have split_nth: "splitSBFBlock (snd (xs ! i)) = Inr (rf_MsgType (sbf_capture (snd (xs ! i))), rf_SBFHeader (sbf_capture (snd (xs ! i))), rf_Bytes (sbf_capture (snd (xs ! i))))"
    if "i < length xs" for i
    using ok [of "fst (xs ! i)" "snd (xs ! i)"] that by simp
  have "\<forall>(j, m, f) \<in> set ?ys. sbfSync1 \<notin> set j \<and> ?h m = Frame f (length m)" using assms ok by auto
  then have "resync_scan ?h (concat (map (\<lambda>(j, m, f). j @ m) ?ys)) = (map Inl (List.map_filter (\<lambda>(j, m, f). f) ?ys), [])"
    by (rule sbf.scan_stream)
  moreover have "List.map_filter (\<lambda>(j, m, f). f) ?ys = map (sbf_capture \<circ> snd) xs"
    by (induction xs) (auto simp: List.map_filter_simps)
  moreover have "concat (map (\<lambda>(j, m, f). j @ m) ?ys) = concat (map (\<lambda>(j, b). j @ b) xs)" by (simp add: case_prod_unfold o_def)
  ultimately have "resync_scan ?h (concat (map (\<lambda>(j, b). j @ b) xs)) = (map Inl (map (sbf_capture \<circ> snd) xs), [])" by (simp only:)
  then have "scanSBF source now 0 (concat (map (\<lambda>(j, b). j @ b) xs)) = map Emit ?fs"
    unfolding scanSBF_events by (simp add: stamped_Inl case_prod_unfold del: map_map) (simp add: o_def)
  moreover have "map (\<lambda>f. Inr (rf_MsgType f, rf_SBFHeader f, rf_Bytes f)) ?fs = map (splitSBFBlock \<circ> snd) xs"
    by (rule nth_equalityI) (simp_all add: nth_enumerate_eq split_nth)
  moreover have "map SBFWire ?fs = map (Inr \<circ> snd) xs"
    by (rule nth_equalityI) (simp_all add: nth_enumerate_eq SBFWire_split split_nth)
  moreover have "map rf_Recv ?fs = map now [0..<length xs]" by (rule nth_equalityI) (simp_all add: nth_enumerate_eq)
  ultimately show ?thesis by (intro exI [of _ ?fs] conjI)
qed

definition sample_block :: "u8 list" where
  "sample_block = [0x24, 0x40, 0x77, 0x68, 0xA6, 0x0F, 0x08, 0x00]"

lemma funpow_8: "(f ^^ 8) x = f (f (f (f (f (f (f (f x)))))))"
  by (simp add: eval_nat_numeral)

lemma sample_block_ok: "splitSBFBlock sample_block = Inr (4006, sample_block, [])"
  by (simp add: sample_block_def splitSBFBlock_def MaxSBFBlock_def sbfSync1_def sbfSync2_def LEUint16_def Uint16_def crc16ccitt_def
      crc16_byte_def crc16_shift_def funpow_8 Let_def)

text \<open>Whatever bytes a receiver sends, nothing is fabricated: an emitted RTCM payload and an emitted SBF block stand in the stream as
  a complete message with a valid checksum, the block rebuilt from its frame being those bytes.\<close>

lemma captures_exact:
  "list_all (\<lambda>e. case e of OnErr _ \<Rightarrow> True | Emit f \<Rightarrow>
       \<exists>u m v. r = u @ rtcmPreamble # m @ v \<and> CheckCRC24Q (rtcmPreamble # m) \<and> rf_Bytes f = take (length m - 5) (drop 2 m)) (scanRTCM source now k r) \<and>
   list_all (\<lambda>e. case e of OnErr _ \<Rightarrow> True | Emit f \<Rightarrow>
       \<exists>u b v. r = u @ b @ v \<and> splitSBFBlock b = Inr (rf_MsgType f, rf_SBFHeader f, rf_Bytes f) \<and> SBFWire f = Inr b) (scanSBF source now k r)"
proof (intro conjI; unfold list_all_iff; intro ballI)
  fix e assume e: "e \<in> set (scanRTCM source now k r)"
  show "case e of OnErr _ \<Rightarrow> True | Emit f \<Rightarrow>
      \<exists>u m v. r = u @ rtcmPreamble # m @ v \<and> CheckCRC24Q (rtcmPreamble # m) \<and> rf_Bytes f = take (length m - 5) (drop 2 m)"
  proof (cases e)
    case (Emit f)
    then obtain g i where g: "Inl g \<in> set (fst (resync_scan rtcm_head r))" "f = g\<lparr>rf_Recv := now i, rf_Source := source\<rparr>"
      using e stamped_elem unfolding scanRTCM_events by blast
    obtain u m v where m: "r = u @ m @ v" "rtcm_head m = Frame (Some g) (length m)" using rtcm.scan_delivers [OF g(1)] by blast
    obtain q where q: "m = rtcmPreamble # q" "rtcm_verdict q = Frame (Some g) (length q)"
      using m(2) by (auto simp: rtcm_head_def split: list.splits if_splits head.splits)
    then have "CheckCRC24Q (rtcmPreamble # q)" "rtcm_size q + 5 = length q" "g = rtcm_capture (take (rtcm_size q) (drop 2 q))"
      by (auto simp: rtcm_verdict_def sized_def rtcm_size_take split: if_splits)
    then have "CheckCRC24Q (rtcmPreamble # q)" "g = rtcm_capture (take (length q - 5) (drop 2 q))" by (metis diff_add_inverse2)+
    then show ?thesis using Emit m(1) q(1) g(2) by (auto simp: rtcm_capture_def)
  qed simp
next
  fix e assume e: "e \<in> set (scanSBF source now k r)"
  show "case e of OnErr _ \<Rightarrow> True | Emit f \<Rightarrow>
      \<exists>u b v. r = u @ b @ v \<and> splitSBFBlock b = Inr (rf_MsgType f, rf_SBFHeader f, rf_Bytes f) \<and> SBFWire f = Inr b"
  proof (cases e)
    case (Emit f)
    then obtain g i where g: "Inl g \<in> set (fst (resync_scan (synced sbfSync1 sbfSync2 sbf_verdict) r))" "f = g\<lparr>rf_Recv := now i, rf_Source := source\<rparr>"
      using e stamped_elem unfolding scanSBF_events by blast
    obtain u m v where m: "r = u @ m @ v" "synced sbfSync1 sbfSync2 sbf_verdict m = Frame (Some g) (length m)" using sbf.scan_delivers [OF g(1)] by blast
    then have "splitSBFBlock m = Inr (rf_MsgType f, rf_SBFHeader f, rf_Bytes f)" using split_sbf_verdict [OF m(2)] g(2) by simp
    then show ?thesis using Emit m(1) SBFWire_split by auto
  qed simp
qed

end
