(* ===== verification/UbxScan.thy ===== *)
theory UbxScan
  imports StreamScan
begin

text \<open>
  The u-blox scanner \<^verbatim>\<open>go/internal/ingest/ubx.go\<close>: framing, the message parsers and the dispatch with its two pieces of state, the
  epoch under assembly and the last SEC-SIG report. The callbacks and the invalid-observable counter are the events of the
  result; \<open>now k\<close> is the \<open>k\<close>th reading of the clock. A payload index is in range wherever the parsers read it.
\<close>

unbundle bit_operations_syntax

section \<open>Constants and state\<close>

definition ubxSync1 :: u8 where "ubxSync1 = 0xB5"
definition ubxSync2 :: u8 where "ubxSync2 = 0x62"
definition ubxClassNAV :: u8 where "ubxClassNAV = 0x01"
definition ubxIDNAVSAT :: u8 where "ubxIDNAVSAT = 0x35"
definition ubxClassRXM :: u8 where "ubxClassRXM = 0x02"
definition ubxIDSFRBX :: u8 where "ubxIDSFRBX = 0x13"
definition ubxIDRAWX :: u8 where "ubxIDRAWX = 0x15"
definition ubxClassMON :: u8 where "ubxClassMON = 0x0A"
definition ubxIDMONHW :: u8 where "ubxIDMONHW = 0x09"
definition ubxIDMONRF :: u8 where "ubxIDMONRF = 0x38"
definition ubxClassSEC :: u8 where "ubxClassSEC = 0x27"
definition ubxIDSECSIG :: u8 where "ubxIDSECSIG = 0x09"
definition ubxMaxPayload :: int where "ubxMaxPayload = 2 ^ 14"

datatype ubx_event = UEmit raw_frame | UErr string | UObsInvalid string

record sec_sig_jamming =
  ss_state :: int
  ss_age :: int
  ss_seen :: bool

record ubx_state =
  us_epoch :: solution_assembler
  us_secSig :: sec_sig_jamming
  us_clock :: nat

definition ubx_state0 :: ubx_state where
  "ubx_state0 = \<lparr>us_epoch = assembler0, us_secSig = \<lparr>ss_state = 0, ss_age = 0, ss_seen = False\<rparr>, us_clock = 0\<rparr>"

section \<open>Checksum and parsers\<close>

definition fletcher_add :: "u8 \<times> u8 \<Rightarrow> u8 \<Rightarrow> u8 \<times> u8" where
  "fletcher_add ck x = (fst ck + x, snd ck + (fst ck + x))"

definition fletcher8 :: "u8 \<Rightarrow> u8 \<Rightarrow> u8 \<Rightarrow> u8 \<Rightarrow> u8 list \<Rightarrow> u8 \<times> u8" where
  "fletcher8 cls ident lenLo lenHi body = foldl fletcher_add (0, 0) ([cls, ident, lenLo, lenHi] @ body)"

text \<open>One measurement of an RXM-RAWX payload \<open>p\<close>, from its 32 bytes on.\<close>

definition rawx_measurement :: "u8 list \<Rightarrow> string \<Rightarrow> time \<Rightarrow> go_float \<Rightarrow> int \<Rightarrow> u8 list \<Rightarrow> ubx_event list" where
  "rawx_measurement p source recv rcvTow week m =
     (let prM = Float64frombits (LEUint64 m); cpCyc = Float64frombits (LEUint64 (drop 8 m)); doHz = Float32frombits (LEUint32 (drop 16 m));
          trkStat = m ! 30
      in if trkStat AND 0x01 = 0 then []
         else if \<not> finiteFloat prM \<or> fle prM (Fin 0) \<or> flt (Fin 1000000000) prM then [UObsInvalid ''pseudorange'']
         else if \<not> finiteFloat doHz \<or> flt (Fin 1000000) (fabs doHz) then [UObsInvalid ''doppler'']
         else
          (let cpValid = (trkStat AND 0x02 \<noteq> 0);
               bad = (cpValid \<and> (\<not> finiteFloat cpCyc \<or> flt (Fin 10000000000) (fabs cpCyc)));
               gnssID = m ! 20
           in (if bad then [UObsInvalid ''carrier''] else []) @
              (if \<not> Valid gnssID then [UObsInvalid ''gnssid'']
               else
                [UEmit (frame0\<lparr>rf_Recv := recv, rf_Source := source, rf_GnssID := gnssID, rf_SvID := uint (m ! 21), rf_SigID := uint (m ! 22),
                   rf_FreqID := uint (m ! 23),
                   rf_Obs := Some \<lparr>ro_RcvTow = rcvTow, ro_Week = week, ro_PrM = prM, ro_CpCyc = (if bad then Fin 0 else cpCyc), ro_DoHz = doHz,
                     ro_LockTimeMs = uint (LEUint16 (drop 24 m)), ro_Cn0 = uint (m ! 26), ro_CpValid = (cpValid \<and> \<not> bad),
                     ro_HalfCycleValid = (trkStat AND 0x04 \<noteq> 0), ro_HalfCycleSubtracted = (trkStat AND 0x08 \<noteq> 0),
                     ro_ClockReset = (p ! 12 AND 0x02 \<noteq> 0), ro_CycleSlip = False, ro_ArcBreak = bad\<rparr>\<rparr>)])))"

definition parseRAWX :: "u8 list \<Rightarrow> string \<Rightarrow> time \<Rightarrow> ubx_event list \<times> bool" where
  "parseRAWX p source recv =
     (if length p < 16 then ([], False)
      else
       (let rcvTow = Float64frombits (LEUint64 p); week = uint (LEUint16 (drop 8 p)); numMeas = unat (p ! 11)
        in if 16 + numMeas * 32 > length p then ([], False)
           else if \<not> finiteFloat rcvTow \<or> flt rcvTow (Fin 0) \<or> fle (Fin 604800) rcvTow \<or> week = 0 then ([UObsInvalid ''time''], True)
           else (concat (map (\<lambda>i. rawx_measurement p source recv rcvTow week (drop (16 + i * 32) p)) [0..<numMeas]), True)))"

definition parseSFRBX :: "u8 list \<Rightarrow> string \<Rightarrow> time \<Rightarrow> raw_frame option" where
  "parseSFRBX p source recv =
     (if length p < 8 then None
      else
       (let sigID = (if p ! 6 = 1 then 0 else uint (p ! 2)); numWords = unat (p ! 4)
        in if numWords = 0 \<or> 8 + numWords * 4 > length p then None
           else Some (frame0\<lparr>rf_Recv := recv, rf_Source := source, rf_GnssID := p ! 0, rf_SvID := uint (p ! 1), rf_SigID := sigID,
                  rf_FreqID := uint (p ! 3), rf_Words := map (\<lambda>i. LEUint32 (drop (8 + i * 4) p)) [0..<numWords]\<rparr>)))"

definition monrf_band :: "u8 list \<Rightarrow> rf_band" where
  "monrf_band b = \<lparr>rb_Block = uint (b ! 0), rb_AGC = uint (LEUint16 (drop 14 b)), rb_NoiseLevel = uint (LEUint16 (drop 12 b)),
     rb_CWSuppress = uint (b ! 16), rb_JamState = uint (b ! 1 AND 0x03), rb_AntStatus = uint (b ! 2)\<rparr>"

definition parseMONRF :: "u8 list \<Rightarrow> string \<Rightarrow> time \<Rightarrow> raw_frame option" where
  "parseMONRF p source recv =
     (if length p < 4 then None
      else
       (let nBlocks = unat (p ! 1)
        in if nBlocks = 0 \<or> 4 + nBlocks * 24 > length p then None
           else Some (frame0\<lparr>rf_Source := source, rf_Recv := recv, rf_MsgType := TelemJammingStats,
                  rf_RF := Some \<lparr>rr_Bands = map (\<lambda>i. monrf_band (drop (4 + i * 24) p)) [0..<nBlocks], rr_Sats = []\<rparr>\<rparr>)))"

definition secSig_observe :: "sec_sig_jamming \<Rightarrow> u8 list \<Rightarrow> sec_sig_jamming \<times> bool" where
  "secSig_observe s p =
     (if length p < 4 \<or> (p ! 0 \<noteq> 2 \<and> p ! 0 \<noteq> 3) \<or> length p \<noteq> 4 + 4 * unat (p ! 3) then (s, False)
      else (\<lparr>ss_state = (if p ! 1 AND 1 \<noteq> 0 then uint (drop_bit 1 (p ! 1) AND 3) else 0), ss_age = 0, ss_seen = True\<rparr>, True))"

definition secSig_apply :: "sec_sig_jamming \<Rightarrow> raw_rf \<Rightarrow> raw_rf \<times> sec_sig_jamming" where
  "secSig_apply s rf =
     ((if ss_seen s \<and> ss_age s < 2 then rf\<lparr>rr_Bands := map (\<lambda>b. b\<lparr>rb_JamState := ss_state s\<rparr>) (rr_Bands rf)\<rparr> else rf),
      s\<lparr>ss_age := ss_age s + 1\<rparr>)"

definition parseMONHW :: "u8 list \<Rightarrow> string \<Rightarrow> time \<Rightarrow> raw_frame option" where
  "parseMONHW p source recv =
     (if length p < 60 then None
      else
       (let band = \<lparr>rb_Block = 0, rb_AGC = uint (LEUint16 (drop 18 p)), rb_NoiseLevel = uint (LEUint16 (drop 16 p)),
                     rb_CWSuppress = uint (p ! 45), rb_JamState = uint (drop_bit 2 (p ! 22) AND 0x03), rb_AntStatus = uint (p ! 20)\<rparr>
        in Some (frame0\<lparr>rf_Source := source, rf_Recv := recv, rf_MsgType := TelemJammingStats, rf_RF := Some \<lparr>rr_Bands = [band], rr_Sats = []\<rparr>\<rparr>)))"

definition navsat_sat :: "u8 list \<Rightarrow> sat_cn0" where
  "navsat_sat s =
     (let flags = LEUint32 (drop 8 s); health = uint (drop_bit 4 flags) mod 4
      in \<lparr>sc_GnssID = uint (s ! 0), sc_SvID = uint (s ! 1), sc_Cn0 = uint (s ! 2), sc_ElevDeg = sint (s ! 3), sc_Used = (flags AND 0x08 \<noteq> 0),
          sc_Extended = True, sc_AziDeg = sint (LEUint16 (drop 4 s)), sc_PrResDM = sint (LEUint16 (drop 6 s)), sc_Quality = uint (flags AND 0x07),
          sc_Health = (if health = 3 then 0 else health)\<rparr>)"

definition parseNAVSAT :: "u8 list \<Rightarrow> string \<Rightarrow> time \<Rightarrow> raw_frame option" where
  "parseNAVSAT p source recv =
     (if length p < 8 \<or> p ! 4 \<noteq> 1 then None
      else
       (let numSvs = unat (p ! 5)
        in if numSvs = 0 \<or> length p \<noteq> 8 + numSvs * 12 then None
           else Some (frame0\<lparr>rf_Source := source, rf_Recv := recv, rf_MsgType := TelemReceptionData,
                  rf_RF := Some \<lparr>rr_Bands = [], rr_Sats = map (\<lambda>i. navsat_sat (drop (8 + i * 12) p)) [0..<numSvs]\<rparr>\<rparr>)))"

section \<open>Dispatch and scan\<close>

definition tick :: "ubx_state \<Rightarrow> ubx_state" where
  "tick st = st\<lparr>us_clock := Suc (us_clock st)\<rparr>"

definition emitSolution :: "string \<Rightarrow> completed_epoch option \<Rightarrow> ubx_event list" where
  "emitSolution source e = (case e of None \<Rightarrow> [] | Some e \<Rightarrow> [UEmit (solutionFrame e source)])"

definition add_block :: "string \<Rightarrow> time \<Rightarrow> ubx_state \<Rightarrow> u32 \<Rightarrow> (receiver_solution \<Rightarrow> receiver_solution) \<Rightarrow> ubx_event list \<times> ubx_state" where
  "add_block source t st tw merge =
     (case assembler_add (us_epoch st) tw t merge of (e, a) \<Rightarrow> (emitSolution source e, tick (st\<lparr>us_epoch := a\<rparr>)))"

definition ubx_dispatch :: "string \<Rightarrow> (nat \<Rightarrow> time) \<Rightarrow> ubx_state \<Rightarrow> u8 \<Rightarrow> u8 \<Rightarrow> u8 list \<Rightarrow> ubx_event list \<times> ubx_state" where
  "ubx_dispatch source now st cls ident body =
     (let t = now (us_clock st)
      in if cls = ubxClassRXM \<and> ident = ubxIDSFRBX then
           ((case parseSFRBX body source t of None \<Rightarrow> [UErr ''ubx_sfrbx'']
             | Some f \<Rightarrow> if \<not> Valid (rf_GnssID f) then [UErr ''ubx_gnssid''] else [UEmit f]), tick st)
         else if cls = ubxClassRXM \<and> ident = ubxIDRAWX then
           (case parseRAWX body source t of (ev, ok) \<Rightarrow> (if ok then ev else ev @ [UErr ''ubx_rawx''], tick st))
         else if cls = ubxClassMON \<and> ident = ubxIDMONRF then
           (case parseMONRF body source t of
              Some f \<Rightarrow> (case rf_RF f of
                  Some rf \<Rightarrow> (case secSig_apply (us_secSig st) rf of (rf', s') \<Rightarrow> ([UEmit (f\<lparr>rf_RF := Some rf'\<rparr>)], tick (st\<lparr>us_secSig := s'\<rparr>)))
                | None \<Rightarrow> ([], tick st))
            | None \<Rightarrow> ([UErr ''ubx_monrf''], tick st))
         else if cls = ubxClassSEC \<and> ident = ubxIDSECSIG then
           (case secSig_observe (us_secSig st) body of (s', ok) \<Rightarrow> (if ok then [] else [UErr ''ubx_secsig''], st\<lparr>us_secSig := s'\<rparr>))
         else if cls = ubxClassMON \<and> ident = ubxIDMONHW then
           ((case parseMONHW body source t of Some f \<Rightarrow> [UEmit f] | None \<Rightarrow> [UErr ''ubx_monhw'']), tick st)
         else if cls = ubxClassNAV \<and> ident = ubxIDNAVSAT then
           ((case parseNAVSAT body source t of Some f \<Rightarrow> [UEmit f] | None \<Rightarrow> [UErr ''ubx_navsat'']), tick st)
         else if cls = ubxClassNAV \<and> ident = ubxIDNAVPVT then
           (case parseNAVPVT body of Some p \<Rightarrow> add_block source t st (pvt_TOWMS p) (\<lambda>s. s\<lparr>rs_PVT := Some p\<rparr>) | None \<Rightarrow> ([UErr ''ubx_navpvt''], st))
         else if cls = ubxClassNAV \<and> ident = ubxIDNAVCLOCK then
           (case parseNAVCLOCK body of Some c \<Rightarrow> add_block source t st (scl_TOWMS c) (\<lambda>s. s\<lparr>rs_Clock := Some c\<rparr>) | None \<Rightarrow> ([UErr ''ubx_navclock''], st))
         else if cls = ubxClassNAV \<and> ident = ubxIDNAVSTATUS then
           (case parseNAVSTATUS body of Some x \<Rightarrow> add_block source t st (sst_TOWMS x) (\<lambda>s. s\<lparr>rs_Status := Some x\<rparr>) | None \<Rightarrow> ([UErr ''ubx_navstatus''], st))
         else if cls = ubxClassNAV \<and> ident = ubxIDNAVEOE \<and> length body = ubxNAVEOELen then
           (case endOfEpoch (us_epoch st) (LEUint32 body) of (e, a) \<Rightarrow> (emitSolution source e, st\<lparr>us_epoch := a\<rparr>))
         else ([], st))"

text \<open>The deferred call: an epoch still pending when the stream ends is completed.\<close>

definition ubx_close :: "string \<Rightarrow> ubx_state \<Rightarrow> ubx_event list" where
  "ubx_close source st =
     (case sa_pending (us_epoch st) of None \<Rightarrow> []
      | Some p \<Rightarrow> emitSolution source (fst (endOfEpoch (us_epoch st) (tow p))))"

function scanUBX :: "string \<Rightarrow> (nat \<Rightarrow> time) \<Rightarrow> ubx_state \<Rightarrow> u8 list \<Rightarrow> ubx_event list" where
  "scanUBX source now st stream =
     (case syncTo ubxSync1 ubxSync2 stream of None \<Rightarrow> ubx_close source st
      | Some r \<Rightarrow>
         (case peek r 4 of None \<Rightarrow> ubx_close source st
          | Some hdr \<Rightarrow>
             (let length' = uint (LEUint16 (drop 2 hdr))
              in if length' > ubxMaxPayload then UErr ''ubx_length'' # scanUBX source now st r
                 else
                  (let total = nat (4 + length' + 2)
                   in case peek r total of None \<Rightarrow> ubx_close source st
                      | Some peeked \<Rightarrow>
                         (let body = take (nat length') (drop 4 peeked);
                              (ckA, ckB) = fletcher8 (peeked ! 0) (peeked ! 1) (peeked ! 2) (peeked ! 3) body
                          in if ckA \<noteq> peeked ! (total - 2) \<or> ckB \<noteq> peeked ! (total - 1) then UErr ''ubx_checksum'' # scanUBX source now st r
                             else
                              (case ubx_dispatch source now st (peeked ! 0) (peeked ! 1) body of (ev, st') \<Rightarrow>
                                 ev @ scanUBX source now st' (drop total r)))))))"
  by auto
termination by (relation "measure (\<lambda>(_, _, _, r). length r)") (auto dest!: syncTo_shorter)

declare scanUBX.simps [simp del]

section \<open>The framing\<close>

type_synonym ubx_msg = "u8 \<times> u8 \<times> u8 list"

definition ubx_size :: "u8 list \<Rightarrow> nat" where
  "ubx_size r = unat (LEUint16 (drop 2 r))"

definition ubx_body :: "u8 list \<Rightarrow> u8 list" where
  "ubx_body m = take (ubx_size m) (drop 4 m)"

definition ubx_verdict :: "u8 list \<Rightarrow> ubx_msg head" where
  "ubx_verdict = sized 4 (\<lambda>m. if ubx_size m > 16384 then None else Some (ubx_size m + 6)) ''ubx_length''
     (\<lambda>m. fletcher8 (m ! 0) (m ! 1) (m ! 2) (m ! 3) (ubx_body m) = (m ! (ubx_size m + 4), m ! (ubx_size m + 5))) ''ubx_checksum''
     (\<lambda>m. Some (m ! 0, m ! 1, ubx_body m))"

interpretation ubx: synced_format ubx_verdict ubxSync1 ubxSync2
  unfolding ubx_verdict_def by (rule sized_synced) (auto simp: ubxSync1_def ubxSync2_def split: if_splits)

text \<open>The dispatch along a run of recognised messages and errors, up to the end of the stream.\<close>

primrec ubx_run :: "string \<Rightarrow> (nat \<Rightarrow> time) \<Rightarrow> ubx_state \<Rightarrow> (ubx_msg + string) list \<Rightarrow> ubx_event list" where
  "ubx_run source now st [] = ubx_close source st"
| "ubx_run source now st (x # xs) =
     (case x of
        Inl (cls, ident, body) \<Rightarrow> (case ubx_dispatch source now st cls ident body of (ev, st') \<Rightarrow> ev @ ubx_run source now st' xs)
      | Inr e \<Rightarrow> UErr e # ubx_run source now st xs)"

lemma ubx_size_take: "4 \<le> n \<Longrightarrow> ubx_size (take n r) = ubx_size r"
  by (simp add: ubx_size_def LEUint16_def drop_take min_def)

lemma ubx_step:
  "scanUBX source now st stream =
     (case syncTo ubxSync1 ubxSync2 stream of None \<Rightarrow> ubx_close source st
      | Some r \<Rightarrow>
         (case ubx_verdict r of
            Starve \<Rightarrow> ubx_close source st
          | Skip e \<Rightarrow> (case e of None \<Rightarrow> [] | Some x \<Rightarrow> [UErr x]) @ scanUBX source now st r
          | Frame None n \<Rightarrow> scanUBX source now st (drop n r)
          | Frame (Some (cls, ident, body)) n \<Rightarrow>
              (case ubx_dispatch source now st cls ident body of (ev, st') \<Rightarrow> ev @ scanUBX source now st' (drop n r))))"
proof (cases "syncTo ubxSync1 ubxSync2 stream")
  case (Some r)
  let ?S = "ubx_size r"
  have L: "uint (LEUint16 (drop 2 (take 4 r))) = int ?S" by (simp add: ubx_size_def LEUint16_def drop_take)
  have g: "int ?S > ubxMaxPayload \<longleftrightarrow> ?S > 16384" by (simp add: ubxMaxPayload_def)
  have n: "nat (4 + int ?S + 2) = ?S + 6" "nat (int ?S) = ?S" by simp_all
  note E = scanUBX.simps [of source now st stream, unfolded peek_def Let_def]
  consider "length r < 4" | "4 \<le> length r" "?S > 16384" | "4 \<le> length r" "\<not> ?S > 16384" by linarith
  then show ?thesis
  proof cases
    case 1
    then show ?thesis by (simp add: E Some ubx_verdict_def sized_def)
  next
    case 2
    then show ?thesis by (simp add: E Some L g ubx_verdict_def sized_def ubx_size_take)
  next
    case 3
    let ?p = "take (?S + 6) r"
    have s: "?S + 6 - 2 = ?S + 4" "?S + 6 - 1 = ?S + 5" by simp_all
    have v: "ubx_verdict r = (if length r < ?S + 6 then Starve
        else if \<not> fletcher8 (?p ! 0) (?p ! 1) (?p ! 2) (?p ! 3) (ubx_body ?p) = (?p ! (?S + 4), ?p ! (?S + 5)) then Skip (Some ''ubx_checksum'')
        else Frame (Some (?p ! 0, ?p ! 1, ubx_body ?p)) (?S + 6))"
      using 3 by (simp only: ubx_verdict_def sized_def ubx_size_take) (simp add: ubx_size_take)
    have b: "take ?S (drop 4 ?p) = ubx_body ?p" by (simp add: ubx_body_def ubx_size_take)
    obtain a c where ck: "fletcher8 (?p ! 0) (?p ! 1) (?p ! 2) (?p ! 3) (ubx_body ?p) = (a, c)" by fastforce
    have p4: "(if 4 \<le> length r then Some (take 4 r) else None) = Some (take 4 r)" using 3(1) by simp
    consider "length r < ?S + 6" | "\<not> length r < ?S + 6" "(a, c) = (?p ! (?S + 4), ?p ! (?S + 5))" | "\<not> length r < ?S + 6" "(a, c) \<noteq> (?p ! (?S + 4), ?p ! (?S + 5))"
      by blast
    then show ?thesis
    proof cases
      case 1
      then show ?thesis using 3 unfolding E Some option.case p4 L g n s b ck v by (simp add: not_le)
    next
      case 2
      then have p6: "(if ?S + 6 \<le> length r then Some ?p else None) = Some ?p" by simp
      have "\<not> (a \<noteq> ?p ! (?S + 4) \<or> c \<noteq> ?p ! (?S + 5))" using 2(2) by simp
      then show ?thesis using 2(1) \<open>\<not> ?S > 16384\<close> unfolding E Some option.case p4 L g n p6 s b ck v prod.case by simp
    next
      case 3
      then have p6: "(if ?S + 6 \<le> length r then Some ?p else None) = Some ?p" by simp
      have "a \<noteq> ?p ! (?S + 4) \<or> c \<noteq> ?p ! (?S + 5)" using 3(2) by simp
      then show ?thesis using 3(1) \<open>\<not> ?S > 16384\<close> unfolding E Some option.case p4 L g n p6 s b ck v prod.case by auto
    qed
  qed
qed (simp add: scanUBX.simps)

lemma scanUBX_events: "scanUBX source now st r = ubx_run source now st (fst (resync_scan (synced ubxSync1 ubxSync2 ubx_verdict) r))"
proof (induction "length r" arbitrary: r st rule: less_induct)
  case less
  show ?case
  proof (cases "syncTo ubxSync1 ubxSync2 r")
    case None
    then show ?thesis by (subst ubx_step, subst ubx.scan_events) simp
  next
    case (Some q)
    have IH: "scanUBX source now st' (drop n q) = ubx_run source now st' (fst (resync_scan (synced ubxSync1 ubxSync2 ubx_verdict) (drop n q)))"
      "scanUBX source now st' q = ubx_run source now st' (fst (resync_scan (synced ubxSync1 ubxSync2 ubx_verdict) q))" for n st'
      using syncTo_shorter [OF Some] by (intro less; simp)+
    show ?thesis
      by (subst ubx_step, subst ubx.scan_events) (simp add: Some IH split: head.split option.split prod.split)
  qed
qed

text \<open>A message as a receiver sends it.\<close>

definition ubx_message :: "ubx_msg \<Rightarrow> u8 list" where
  "ubx_message x =
     (case x of (cls, ident, body) \<Rightarrow>
        let len = LEPutUint16 (of_nat (length body)); (ckA, ckB) = fletcher8 cls ident (len ! 0) (len ! 1) body
        in [ubxSync1, ubxSync2, cls, ident] @ len @ body @ [ckA, ckB])"

lemma ubx_head_message:
  assumes "length body \<le> 16384"
  shows "synced ubxSync1 ubxSync2 ubx_verdict (ubx_message (cls, ident, body)) = Frame (Some (cls, ident, body)) (length (ubx_message (cls, ident, body)))"
proof -
  obtain lo hi where len: "LEPutUint16 (of_nat (length body)) = [lo, hi]" by (simp add: LEPutUint16_def PutUint16_def)
  obtain a b where ck: "fletcher8 cls ident lo hi body = (a, b)" by fastforce
  let ?m = "[cls, ident, lo, hi] @ body @ [a, b]"
  have "LEUint16 [lo, hi] = of_nat (length body)" using LEUint16_LEPutUint16(1) [of "of_nat (length body)"] by (simp add: len)
  then have size: "ubx_size ?m = length body"
    using assms by (simp add: ubx_size_def LEUint16_def unat_small16)
  have s4: "ubx_size (take 4 ?m) = length body" "length ?m = length body + 6" using size by (simp_all only: ubx_size_take order.refl) simp
  have t: "take (length body + 6) ?m = ?m" "ubx_body ?m = body" "?m ! (length body + 4) = a" "?m ! (length body + 5) = b"
    unfolding ubx_body_def size by (simp_all add: nth_append)
  have "ubx_verdict ?m = Frame (Some (?m ! 0, ?m ! 1, body)) (length ?m)"
    unfolding ubx_verdict_def sized_def s4 using assms ck unfolding t by (simp add: size [simplified] t(2) [simplified] nth_append)
  then have "ubx_verdict ?m = Frame (Some (cls, ident, body)) (length ?m)" by simp
  then have "synced ubxSync1 ubxSync2 ubx_verdict (ubxSync1 # ubxSync2 # ?m) = Frame (Some (cls, ident, body)) (length (ubxSync1 # ubxSync2 # ?m))"
    by (rule ubx.synced_at)
  then show ?thesis by (simp add: ubx_message_def len ck)
qed

text \<open>Messages between bytes other than the first sync byte are dispatched once each and in order.\<close>

lemma scan_ubx_messages:
  assumes "\<forall>(j, x) \<in> set xs. ubxSync1 \<notin> set j \<and> length (snd (snd x)) \<le> 16384"
  shows "scanUBX source now st (concat (map (\<lambda>(j, x). j @ ubx_message x) xs)) = ubx_run source now st (map (Inl \<circ> snd) xs)"
proof -
  let ?ys = "map (\<lambda>(j, x). (j, ubx_message x, Some x)) xs"
  have "\<forall>(j, m, f) \<in> set ?ys. ubxSync1 \<notin> set j \<and> synced ubxSync1 ubxSync2 ubx_verdict m = Frame f (length m)"
    using assms ubx_head_message by fastforce
  then have "resync_scan (synced ubxSync1 ubxSync2 ubx_verdict) (concat (map (\<lambda>(j, m, f). j @ m) ?ys)) = (map Inl (List.map_filter (\<lambda>(j, m, f). f) ?ys), [])"
    by (rule ubx.scan_stream)
  moreover have "List.map_filter (\<lambda>(j, m, f). f) ?ys = map snd xs" by (induction xs) (auto simp: List.map_filter_simps)
  moreover have "concat (map (\<lambda>(j, m, f). j @ m) ?ys) = concat (map (\<lambda>(j, x). j @ ubx_message x) xs)" by (simp add: case_prod_unfold o_def)
  ultimately have "resync_scan (synced ubxSync1 ubxSync2 ubx_verdict) (concat (map (\<lambda>(j, x). j @ ubx_message x) xs)) = (map Inl (map snd xs), [])"
    by (simp only:)
  then show ?thesis by (simp add: scanUBX_events)
qed

section \<open>Well-formed frames\<close>

definition obs_ok :: "raw_obs \<Rightarrow> bool" where
  "obs_ok o' \<longleftrightarrow> finiteFloat (ro_RcvTow o') \<and> \<not> flt (ro_RcvTow o') (Fin 0) \<and> flt (ro_RcvTow o') (Fin 604800) \<and> ro_Week o' \<in> {1..65535} \<and>
     finiteFloat (ro_PrM o') \<and> flt (Fin 0) (ro_PrM o') \<and> fle (ro_PrM o') (Fin 1000000000) \<and>
     finiteFloat (ro_DoHz o') \<and> fle (fabs (ro_DoHz o')) (Fin 1000000) \<and>
     (if ro_CpValid o' then finiteFloat (ro_CpCyc o') \<and> fle (fabs (ro_CpCyc o')) (Fin 10000000000) \<and> \<not> ro_ArcBreak o' else True)"

text \<open>A satellite whose report survives the telemetry body, elevations below the horizon's opposite apart.\<close>

definition sat_ok :: "sat_cn0 \<Rightarrow> bool" where
  "sat_ok s \<longleftrightarrow> clamp_sat_v2 s = s\<lparr>sc_ElevDeg := max (- 90) (sc_ElevDeg s)\<rparr>"

text \<open>What a reception body holds of a satellite report: the first 113 satellites, the tracked ones before the others, with every field as reported but an elevation below -90 degrees.\<close>

definition wire_sats :: "sat_cn0 list \<Rightarrow> sat_cn0 list" where
  "wire_sats ss = map (\<lambda>s. s\<lparr>sc_ElevDeg := max (- 90) (sc_ElevDeg s)\<rparr>) (take 113 (filter (\<lambda>s. sc_Cn0 s > 0) ss @ filter (\<lambda>s. \<not> sc_Cn0 s > 0) ss))"

definition rf_ok :: "raw_rf \<Rightarrow> bool" where
  "rf_ok rf \<longleftrightarrow> decodeJammingStats (EncodeJammingStats (rr_Bands rf)) = Inr (rr_Bands rf) \<and>
     list_all (\<lambda>b. rb_JamState b \<in> {0..3}) (rr_Bands rf) \<and> decodeReceptionData (EncodeReceptionData (rr_Sats rf)) = Inr (wire_sats (rr_Sats rf))"

definition dial_frame_ok :: "string \<Rightarrow> raw_frame \<Rightarrow> bool" where
  "dial_frame_ok source f \<longleftrightarrow> rf_Source f = source \<and>
     (case (rf_Obs f, rf_RF f, rf_Solution f) of
        (None, None, None) \<Rightarrow> Valid (rf_GnssID f) \<and> length (rf_Words f) \<in> {1..255}
      | (Some o', None, None) \<Rightarrow> Valid (rf_GnssID f) \<and> rf_Words f = [] \<and> obs_ok o'
      | (None, Some rf, None) \<Rightarrow> IsTelemetryType (rf_MsgType f) \<and> rf_Words f = [] \<and> rf_ok rf
      | (None, None, Some s) \<Rightarrow> IsTelemetryType (rf_MsgType f) \<and> rf_Words f = [] \<and> coherent (tow s) s \<and>
          decodeReceiverSolution (EncodeReceiverSolution s) = Inr s
      | _ \<Rightarrow> False)"

definition event_ok :: "string \<Rightarrow> ubx_event \<Rightarrow> bool" where
  "event_ok source e \<longleftrightarrow> (case e of UEmit f \<Rightarrow> dial_frame_ok source f | _ \<Rightarrow> True)"

lemma finiteFloat_Fin: "finiteFloat v \<longleftrightarrow> (\<exists>x. v = Fin x)"
  by (cases v) (auto simp: finiteFloat_def)

lemma flt_Fin_Fin [simp]: "flt (Fin x) (Fin y) \<longleftrightarrow> x < y"
  by simp

lemma parseSFRBX_ok: "parseSFRBX p source t = Some f \<Longrightarrow> Valid (rf_GnssID f) \<Longrightarrow> dial_frame_ok source f"
proof -
  assume f: "parseSFRBX p source t = Some f" and v: "Valid (rf_GnssID f)"
  have "unat (p ! 4) < 256" using unsigned_less [where 'a = nat, of "p ! 4"] by simp
  then show ?thesis using f v by (auto simp: parseSFRBX_def dial_frame_ok_def frame0_def Let_def split: if_splits)
qed

lemma rawx_measurement_ok:
  assumes "finiteFloat rcvTow" "\<not> flt rcvTow (Fin 0)" "\<not> fle (Fin 604800) rcvTow" "week \<in> {1..65535}"
  shows "list_all (event_ok source) (rawx_measurement p source t rcvTow week m)"
  using assms by (auto simp: rawx_measurement_def Let_def event_ok_def dial_frame_ok_def frame0_def obs_ok_def finiteFloat_Fin)

lemma parseRAWX_ok: "list_all (event_ok source) (fst (parseRAWX p source t))"
proof -
  have "uint (LEUint16 (drop 8 p)) \<in> {1..65535}" if "uint (LEUint16 (drop 8 p)) \<noteq> 0"
  proof -
    have "0 \<le> uint (LEUint16 (drop 8 p))" by simp
    then show ?thesis using that uint_byte_le(2) [of "LEUint16 (drop 8 p)"] unfolding atLeastAtMost_iff by linarith
  qed
  then have "list_all (event_ok source) (concat (map (\<lambda>i. rawx_measurement p source t (Float64frombits (LEUint64 p)) (uint (LEUint16 (drop 8 p))) (drop (16 + i * 32) p)) [0..<n]))"
    if "finiteFloat (Float64frombits (LEUint64 p))" "\<not> flt (Float64frombits (LEUint64 p)) (Fin 0)" "\<not> fle (Fin 604800) (Float64frombits (LEUint64 p))"
      "uint (LEUint16 (drop 8 p)) \<noteq> 0" for n
    using that rawx_measurement_ok [unfolded list_all_iff] unfolding list_all_iff by fastforce
  then show ?thesis by (simp add: parseRAWX_def Let_def) (simp add: event_ok_def)
qed

lemma jam_bounds: "uint (x AND 3 :: u8) \<in> {0..3}"
proof -
  have "x AND 3 \<le> 3" by (rule word_and_le1)
  then show ?thesis by (simp add: word_le_def)
qed

lemma bands_ok: "length bs \<le> 255 \<Longrightarrow> list_all band_ok bs \<Longrightarrow> decodeJammingStats (EncodeJammingStats bs) = Inr bs"
  using jamming.dec_enc [of bs] by (simp add: enc_jamming_def)

lemma jam_of_band: "rb_JamState b \<in> {0..3} \<Longrightarrow> rb_JamState b \<le> 255 \<and> 0 \<le> rb_JamState b"
  by simp

lemma monrf_band_ok: "band_ok (monrf_band b) \<and> rb_JamState (monrf_band b) \<in> {0..3}"
  using jam_bounds [of "b ! 1"] by (simp add: monrf_band_def band_ok_def)

lemma parseMONRF_ok:
  assumes "parseMONRF p source t = Some f"
  shows "\<exists>bs. rf_RF f = Some \<lparr>rr_Bands = bs, rr_Sats = []\<rparr> \<and> length bs \<le> 255 \<and> list_all (\<lambda>b. band_ok b \<and> rb_JamState b \<in> {0..3}) bs \<and>
    f = frame0\<lparr>rf_Source := source, rf_Recv := t, rf_MsgType := TelemJammingStats, rf_RF := rf_RF f\<rparr>"
proof -
  have "unat (p ! 1) < 256" using unsigned_less [where 'a = nat, of "p ! 1"] by simp
  then show ?thesis using assms monrf_band_ok by (auto simp: parseMONRF_def Let_def list_all_iff frame0_def split: if_splits)
qed

lemma reception_survives:
  assumes "list_all sat_ok ss"
  shows "decodeReceptionData (EncodeReceptionData ss) = Inr (wire_sats ss)"
proof -
  have c: "clamp_sat_v2 s = s\<lparr>sc_ElevDeg := max (- 90) (sc_ElevDeg s)\<rparr>" if "s \<in> set ss" for s using assms that by (simp add: list_all_iff sat_ok_def)
  have "sc_Extended (clamp_sat_v2 s)" for s by (simp add: clamp_sat_v2_def)
  then have "sc_Extended s" if "s \<in> set ss" for s using c [OF that] by (metis (no_types, lifting) sat_cn0.select_convs(6) sat_cn0.surjective sat_cn0.update_convs(4))
  moreover have "map clamp_sat_v2 (take 113 (filter (\<lambda>s. sc_Cn0 s > 0) ss @ filter (\<lambda>s. \<not> sc_Cn0 s > 0) ss)) = wire_sats ss"
    unfolding wire_sats_def by (intro map_cong refl c) (auto dest!: in_set_takeD)
  ultimately show ?thesis by (cases "ss = []") (auto simp: reception_roundtrip reception_norm_def wire_sats_def list_all_iff)
qed

lemma rf_frame_ok:
  assumes "length bs \<le> 255" "list_all (\<lambda>b. band_ok b \<and> rb_JamState b \<in> {0..3}) bs" "list_all sat_ok ss" "IsTelemetryType k"
  shows "dial_frame_ok source (frame0\<lparr>rf_Source := source, rf_Recv := t, rf_MsgType := k, rf_RF := Some \<lparr>rr_Bands = bs, rr_Sats = ss\<rparr>\<rparr>)"
  using assms bands_ok [of bs] reception_survives [OF assms(3)] by (simp add: dial_frame_ok_def frame0_def rf_ok_def list_all_iff)

lemma parseMONHW_ok: "parseMONHW p source t = Some f \<Longrightarrow> dial_frame_ok source f"
proof -
  assume f: "parseMONHW p source t = Some f"
  let ?b = "\<lparr>rb_Block = 0, rb_AGC = uint (LEUint16 (drop 18 p)), rb_NoiseLevel = uint (LEUint16 (drop 16 p)),
      rb_CWSuppress = uint (p ! 45), rb_JamState = uint (drop_bit 2 (p ! 22) AND 0x03), rb_AntStatus = uint (p ! 20)\<rparr>"
  have b: "list_all (\<lambda>b. band_ok b \<and> rb_JamState b \<in> {0..3}) [?b]" using jam_bounds [of "drop_bit 2 (p ! 22)"] by (simp add: band_ok_def)
  have "f = frame0\<lparr>rf_Source := source, rf_Recv := t, rf_MsgType := TelemJammingStats, rf_RF := Some \<lparr>rr_Bands = [?b], rr_Sats = []\<rparr>\<rparr>"
    using f by (simp add: parseMONHW_def Let_def split: if_splits)
  then show ?thesis using rf_frame_ok [OF _ b, of "[]"] by (simp add: IsTelemetryType_def TelemJammingStats_def)
qed

lemma navsat_sat_ok: "sat_ok (navsat_sat s)"
proof -
  define flags where "flags = LEUint32 (drop 8 s)"
  have "flags AND 7 \<le> 7" by (rule word_and_le1)
  then have q: "uint (flags AND 7) \<in> {0..7}" by (simp add: word_le_def)
  have h: "(if uint (drop_bit 4 flags) mod 4 = 3 then 0 else uint (drop_bit 4 flags) mod 4) \<in> {0, 1, 2}"
    using pos_mod_bound [of 4 "uint (drop_bit 4 flags)"] pos_mod_sign [of 4 "uint (drop_bit 4 flags)"] by auto
  have e: "clampElev (sint (s ! 3)) = max (- 90) (sint (s ! 3))" using sfits_widths(1) [of "s ! 3"] by (simp add: clampElev_def sfits_def)
  have a: "clampI16 (sint w) = sint w" for w :: u16 using sfits_widths(2) [of w] by (simp add: clampI16_def sfits_def)
  show ?thesis
    using q h by (simp add: sat_ok_def navsat_sat_def clamp_sat_v2_def clamp_sat_v1_def Let_def e a flip: flags_def) auto
qed

lemma parseNAVSAT_ok: "parseNAVSAT p source t = Some f \<Longrightarrow> dial_frame_ok source f"
proof -
  assume "parseNAVSAT p source t = Some f"
  then obtain n where "f = frame0\<lparr>rf_Source := source, rf_Recv := t, rf_MsgType := TelemReceptionData,
      rf_RF := Some \<lparr>rr_Bands = [], rr_Sats = map (\<lambda>i. navsat_sat (drop (8 + i * 12) p)) [0..<n]\<rparr>\<rparr>"
    by (auto simp: parseNAVSAT_def Let_def split: if_splits)
  then show ?thesis
    using rf_frame_ok [of "[]" "map (\<lambda>i. navsat_sat (drop (8 + i * 12) p)) [0..<n]" TelemReceptionData source t] navsat_sat_ok
    by (simp add: IsTelemetryType_def TelemReceptionData_def list_all_iff)
qed

lemma emitSolution_ok: "step_ok a e a' \<Longrightarrow> list_all (event_ok source) (emitSolution source e)"
  by (auto simp: emitSolution_def event_ok_def dial_frame_ok_def solutionFrame_def frame0_def step_ok_def epoch_ok_def decode_encode_solution
      IsTelemetryType_def TelemReceiverSolution_def split: option.split)

definition ubx_ok :: "ubx_state \<Rightarrow> bool" where
  "ubx_ok st \<longleftrightarrow> assembler_ok (us_epoch st) \<and> ss_state (us_secSig st) \<in> {0..3}"

lemma ubx_ok_tick [simp]: "ubx_ok (tick st) = ubx_ok st"
  by (simp add: ubx_ok_def tick_def)

lemma add_block_ok:
  assumes "ubx_ok st" "good_merge tw merge" "add_block source t st tw merge = (ev, st')"
  shows "list_all (event_ok source) ev \<and> ubx_ok st'"
proof -
  obtain e a where s: "assembler_add (us_epoch st) tw t merge = (e, a)" by fastforce
  have "step_ok (us_epoch st) e a" using assms(1,2) s by (intro assembler_add_ok) (simp_all add: ubx_ok_def)
  then show ?thesis using assms s emitSolution_ok by (auto simp: add_block_def ubx_ok_def tick_def step_ok_def)
qed

lemma secSig_apply_bands:
  assumes "ss_state s \<in> {0..3}" "list_all (\<lambda>b. band_ok b \<and> rb_JamState b \<in> {0..3}) bs"
  shows "\<exists>bs'. secSig_apply s \<lparr>rr_Bands = bs, rr_Sats = []\<rparr> = (\<lparr>rr_Bands = bs', rr_Sats = []\<rparr>, s\<lparr>ss_age := ss_age s + 1\<rparr>) \<and>
    length bs' = length bs \<and> list_all (\<lambda>b. band_ok b \<and> rb_JamState b \<in> {0..3}) bs'"
  using assms by (auto simp: secSig_apply_def list_all_iff band_ok_def)

lemma secSig_observe_ok: "ss_state s \<in> {0..3} \<Longrightarrow> ss_state (fst (secSig_observe s p)) \<in> {0..3}"
  using jam_bounds [of "drop_bit 1 (p ! 1)"] by (simp add: secSig_observe_def)


text \<open>The dispatch on each identifier.\<close>

lemmas ubx_ids = ubxClassNAV_def ubxIDNAVSAT_def ubxClassRXM_def ubxIDSFRBX_def ubxIDRAWX_def ubxClassMON_def ubxIDMONHW_def ubxIDMONRF_def
  ubxClassSEC_def ubxIDSECSIG_def ubxIDNAVSTATUS_def ubxIDNAVPVT_def ubxIDNAVCLOCK_def ubxIDNAVEOE_def

lemma dispatch_sfrbx: "ubx_dispatch source now st ubxClassRXM ubxIDSFRBX body =
    ((case parseSFRBX body source (now (us_clock st)) of None \<Rightarrow> [UErr ''ubx_sfrbx'']
      | Some f \<Rightarrow> if \<not> Valid (rf_GnssID f) then [UErr ''ubx_gnssid''] else [UEmit f]), tick st)"
  by (simp add: ubx_dispatch_def ubx_ids)

lemma dispatch_sec: "ubx_dispatch source now st ubxClassSEC ubxIDSECSIG body =
    (case secSig_observe (us_secSig st) body of (s', ok) \<Rightarrow> (if ok then [] else [UErr ''ubx_secsig''], st\<lparr>us_secSig := s'\<rparr>))"
  by (simp add: ubx_dispatch_def ubx_ids)

lemma dispatch_hw: "ubx_dispatch source now st ubxClassMON ubxIDMONHW body =
    ((case parseMONHW body source (now (us_clock st)) of Some f \<Rightarrow> [UEmit f] | None \<Rightarrow> [UErr ''ubx_monhw'']), tick st)"
  by (simp add: ubx_dispatch_def ubx_ids)

lemma dispatch_sat: "ubx_dispatch source now st ubxClassNAV ubxIDNAVSAT body =
    ((case parseNAVSAT body source (now (us_clock st)) of Some f \<Rightarrow> [UEmit f] | None \<Rightarrow> [UErr ''ubx_navsat'']), tick st)"
  by (simp add: ubx_dispatch_def ubx_ids)

lemma dispatch_pvt: "ubx_dispatch source now st ubxClassNAV ubxIDNAVPVT body =
    (case parseNAVPVT body of Some p \<Rightarrow> add_block source (now (us_clock st)) st (pvt_TOWMS p) (\<lambda>s. s\<lparr>rs_PVT := Some p\<rparr>) | None \<Rightarrow> ([UErr ''ubx_navpvt''], st))"
  by (simp add: ubx_dispatch_def ubx_ids)

lemma dispatch_clk: "ubx_dispatch source now st ubxClassNAV ubxIDNAVCLOCK body =
    (case parseNAVCLOCK body of Some c \<Rightarrow> add_block source (now (us_clock st)) st (scl_TOWMS c) (\<lambda>s. s\<lparr>rs_Clock := Some c\<rparr>) | None \<Rightarrow> ([UErr ''ubx_navclock''], st))"
  by (simp add: ubx_dispatch_def ubx_ids)

lemma dispatch_sts: "ubx_dispatch source now st ubxClassNAV ubxIDNAVSTATUS body =
    (case parseNAVSTATUS body of Some x \<Rightarrow> add_block source (now (us_clock st)) st (sst_TOWMS x) (\<lambda>s. s\<lparr>rs_Status := Some x\<rparr>) | None \<Rightarrow> ([UErr ''ubx_navstatus''], st))"
  by (simp add: ubx_dispatch_def ubx_ids)

lemma dispatch_eoe: "length body = ubxNAVEOELen \<Longrightarrow> ubx_dispatch source now st ubxClassNAV ubxIDNAVEOE body =
    (case endOfEpoch (us_epoch st) (LEUint32 body) of (e, a) \<Rightarrow> (emitSolution source e, st\<lparr>us_epoch := a\<rparr>))"
  by (simp add: ubx_dispatch_def ubx_ids)

lemma ubx_dispatch_ok:
  assumes st: "ubx_ok st" and d: "ubx_dispatch source now st cls ident body = (ev, st')"
  shows "list_all (event_ok source) ev \<and> ubx_ok st'"
proof -
  let ?t = "now (us_clock st)"
  have err: "event_ok source (UErr k)" "event_ok source (UEmit f) = dial_frame_ok source f" for k f by (simp_all add: event_ok_def)
  note add = add_block_ok [OF st good_merges(1) [OF parsed_ok(1)]] add_block_ok [OF st good_merges(2) [OF parsed_ok(2)]]
    add_block_ok [OF st good_merges(3) [OF parsed_ok(3)]]
  consider (sfrbx) "cls = ubxClassRXM \<and> ident = ubxIDSFRBX" | (rawx) "cls = ubxClassRXM \<and> ident = ubxIDRAWX" "\<not> (cls = ubxClassRXM \<and> ident = ubxIDSFRBX)"
    | (monrf) "cls = ubxClassMON \<and> ident = ubxIDMONRF" | (rest) "\<not> (cls = ubxClassRXM \<and> ident = ubxIDSFRBX)" "\<not> (cls = ubxClassRXM \<and> ident = ubxIDRAWX)"
      "\<not> (cls = ubxClassMON \<and> ident = ubxIDMONRF)" by blast
  then show ?thesis
  proof cases
    case sfrbx
    then show ?thesis using d st parseSFRBX_ok by (auto simp: ubx_dispatch_def Let_def err split: option.splits if_splits)
  next
    case rawx
    then show ?thesis using d st parseRAWX_ok [of source body ?t] by (auto simp: ubx_dispatch_def Let_def err split: prod.splits if_splits)
  next
    case monrf
    then have c: "\<not> cls = ubxClassRXM" by (auto simp: ubxClassMON_def ubxClassRXM_def)
    show ?thesis
    proof (cases "parseMONRF body source ?t")
      case None
      then show ?thesis using d st monrf c by (auto simp: ubx_dispatch_def Let_def err)
    next
      case (Some f)
      obtain bs where bs: "rf_RF f = Some \<lparr>rr_Bands = bs, rr_Sats = []\<rparr>" "length bs \<le> 255" "list_all (\<lambda>b. band_ok b \<and> rb_JamState b \<in> {0..3}) bs"
        and f: "f = frame0\<lparr>rf_Source := source, rf_Recv := ?t, rf_MsgType := TelemJammingStats, rf_RF := rf_RF f\<rparr>"
        using parseMONRF_ok [OF Some] by blast
      obtain bs' where a: "secSig_apply (us_secSig st) \<lparr>rr_Bands = bs, rr_Sats = []\<rparr> = (\<lparr>rr_Bands = bs', rr_Sats = []\<rparr>, (us_secSig st)\<lparr>ss_age := ss_age (us_secSig st) + 1\<rparr>)"
        "length bs' = length bs" "list_all (\<lambda>b. band_ok b \<and> rb_JamState b \<in> {0..3}) bs'"
        using secSig_apply_bands [OF _ bs(3)] st by (auto simp: ubx_ok_def)
      have "f\<lparr>rf_RF := Some \<lparr>rr_Bands = bs', rr_Sats = []\<rparr>\<rparr> =
          frame0\<lparr>rf_Source := source, rf_Recv := ?t, rf_MsgType := TelemJammingStats, rf_RF := Some \<lparr>rr_Bands = bs', rr_Sats = []\<rparr>\<rparr>"
        by (subst f) simp
      then have "dial_frame_ok source (f\<lparr>rf_RF := Some \<lparr>rr_Bands = bs', rr_Sats = []\<rparr>\<rparr>)"
        using rf_frame_ok [of bs' "[]" TelemJammingStats source ?t] a bs(2) by (simp add: IsTelemetryType_def TelemJammingStats_def)
      moreover have "ev = [UEmit (f\<lparr>rf_RF := Some \<lparr>rr_Bands = bs', rr_Sats = []\<rparr>\<rparr>)]"
        "st' = tick (st\<lparr>us_secSig := (us_secSig st)\<lparr>ss_age := ss_age (us_secSig st) + 1\<rparr>\<rparr>)"
        using d monrf c Some bs(1) a(1) by (auto simp: ubx_dispatch_def Let_def)
      ultimately show ?thesis using st by (simp add: err ubx_ok_def tick_def)
    qed
  next
    case rest
    have end_ok: "list_all (event_ok source) (emitSolution source e) \<and> ubx_ok (st\<lparr>us_epoch := a\<rparr>)" if "endOfEpoch (us_epoch st) w = (e, a)" for w e a
    proof -
      have "step_ok (us_epoch st) e a" using endOfEpoch_ok that st by (simp add: ubx_ok_def)
      then show ?thesis using st emitSolution_ok by (auto simp: ubx_ok_def step_ok_def)
    qed
    have sig: "ubx_ok (st\<lparr>us_secSig := s'\<rparr>)" if "secSig_observe (us_secSig st) body = (s', ok)" for s' ok
      using secSig_observe_ok [of "us_secSig st" body] st that by (simp add: ubx_ok_def)
    consider (sec) "cls = ubxClassSEC" "ident = ubxIDSECSIG" | (hw) "cls = ubxClassMON" "ident = ubxIDMONHW" | (sat) "cls = ubxClassNAV" "ident = ubxIDNAVSAT"
      | (pvt) "cls = ubxClassNAV" "ident = ubxIDNAVPVT" | (clk) "cls = ubxClassNAV" "ident = ubxIDNAVCLOCK" | (sts) "cls = ubxClassNAV" "ident = ubxIDNAVSTATUS"
      | (eoe) "cls = ubxClassNAV" "ident = ubxIDNAVEOE" "length body = ubxNAVEOELen"
      | (other) "\<not> (cls = ubxClassSEC \<and> ident = ubxIDSECSIG)" "\<not> (cls = ubxClassMON \<and> ident = ubxIDMONHW)" "\<not> (cls = ubxClassNAV \<and> ident = ubxIDNAVSAT)"
        "\<not> (cls = ubxClassNAV \<and> ident = ubxIDNAVPVT)" "\<not> (cls = ubxClassNAV \<and> ident = ubxIDNAVCLOCK)" "\<not> (cls = ubxClassNAV \<and> ident = ubxIDNAVSTATUS)"
        "\<not> (cls = ubxClassNAV \<and> ident = ubxIDNAVEOE \<and> length body = ubxNAVEOELen)" by blast
    then show ?thesis
    proof cases
      case sec
      then show ?thesis using d sig by (auto simp: dispatch_sec err split: prod.splits if_splits)
    next
      case hw
      then show ?thesis using d st parseMONHW_ok by (auto simp: dispatch_hw err split: option.splits)
    next
      case sat
      then show ?thesis using d st parseNAVSAT_ok by (auto simp: dispatch_sat err split: option.splits)
    next
      case pvt
      then show ?thesis using d st add(1) by (auto simp: dispatch_pvt err split: option.splits)
    next
      case clk
      then show ?thesis using d st add(2) by (auto simp: dispatch_clk err split: option.splits)
    next
      case sts
      then show ?thesis using d st add(3) by (auto simp: dispatch_sts err split: option.splits)
    next
      case eoe
      then show ?thesis using d end_ok by (auto simp: dispatch_eoe split: prod.splits)
    next
      case other
      then have "(ev, st') = ([], st)" using d rest unfolding ubx_dispatch_def Let_def by (simp only: if_False)
      then show ?thesis using st by simp
    qed
  qed
qed

lemma ubx_run_ok: "ubx_ok st \<Longrightarrow> list_all (event_ok source) (ubx_run source now st xs)"
proof (induction xs arbitrary: st)
  case Nil
  then show ?case
    using emitSolution_ok endOfEpoch_ok by (auto simp: ubx_close_def ubx_ok_def split: option.split) (metis prod.collapse)
next
  case (Cons x xs)
  show ?case
  proof (cases x)
    case (Inl y)
    obtain cls ident body where y: "y = (cls, ident, body)" by (cases y)
    obtain ev st' where d: "ubx_dispatch source now st cls ident body = (ev, st')" by fastforce
    then show ?thesis using Cons.IH ubx_dispatch_ok [OF Cons.prems d] by (simp add: Inl y)
  next
    case (Inr e)
    then show ?thesis using Cons by (simp add: event_ok_def)
  qed
qed

section \<open>Navigation messages\<close>

definition sfrbx_payload :: "GNSSID \<times> u8 \<times> u8 \<times> u8 \<times> u32 list \<Rightarrow> u8 list" where
  "sfrbx_payload x = (case x of (g, sv, sig, freq, ws) \<Rightarrow> [g, sv, sig, freq, of_nat (length ws), 0, 2, 0] @ concat (map LEPutUint32 ws))"

definition sfrbx_frame :: "string \<Rightarrow> time \<Rightarrow> GNSSID \<times> u8 \<times> u8 \<times> u8 \<times> u32 list \<Rightarrow> raw_frame" where
  "sfrbx_frame source t x = (case x of (g, sv, sig, freq, ws) \<Rightarrow>
     frame0\<lparr>rf_Recv := t, rf_Source := source, rf_GnssID := g, rf_SvID := uint sv, rf_SigID := uint sig, rf_FreqID := uint freq, rf_Words := ws\<rparr>)"

lemma length_words: "length (concat (map LEPutUint32 ws)) = length ws * 4"
  by (rule length_concat_const) simp

lemma drop_8: "drop (8 + k) (a # b # c # d # e # f # g # h # x) = drop k x"
  by (simp add: eval_nat_numeral)

lemma parse_sfrbx_payload:
  assumes "length ws \<in> {1..255}"
  shows "parseSFRBX (sfrbx_payload (g, sv, sig, freq, ws)) source t = Some (sfrbx_frame source t (g, sv, sig, freq, ws))"
proof -
  have n: "unat (of_nat (length ws) :: u8) = length ws" using assms by (simp add: unsigned_of_nat take_bit_nat_eq_self)
  have "map (\<lambda>i. LEUint32 (drop (i * 4) (concat (map LEPutUint32 ws) @ []))) [0..<length ws] = map (\<lambda>w. w) ws"
    by (rule strided_decode) simp
  then have "map (\<lambda>i. LEUint32 (drop (8 + i * 4) (sfrbx_payload (g, sv, sig, freq, ws)))) [0..<length ws] = ws"
    by (simp add: sfrbx_payload_def drop_8)
  then show ?thesis
    using assms n length_words [of ws] by (auto simp: parseSFRBX_def sfrbx_payload_def sfrbx_frame_def Let_def)
qed

lemma sfrbx_run:
  assumes "\<forall>(g, sv, sig, freq, ws) \<in> set xs. Valid g \<and> length ws \<in> {1..255}" "sa_pending (us_epoch st) = None"
  shows "ubx_run source now st (map (\<lambda>x. Inl (ubxClassRXM, ubxIDSFRBX, sfrbx_payload x)) xs) =
    map (\<lambda>(i, x). UEmit (sfrbx_frame source (now i) x)) (enumerate (us_clock st) xs)"
  using assms
proof (induction xs arbitrary: st)
  case Nil
  then show ?case by (simp add: ubx_close_def)
next
  case (Cons x xs)
  obtain g sv sig freq ws where x: "x = (g, sv, sig, freq, ws)" by (metis prod_cases5)
  have v: "Valid g" "length ws \<in> {1..255}" using Cons.prems(1) by (simp_all add: x)
  have "ubx_run source now (tick st) (map (\<lambda>x. Inl (ubxClassRXM, ubxIDSFRBX, sfrbx_payload x)) xs) =
      map (\<lambda>(i, x). UEmit (sfrbx_frame source (now i) x)) (enumerate (us_clock (tick st)) xs)"
    using Cons.prems by (intro Cons.IH) (simp_all add: tick_def)
  moreover have "rf_GnssID (sfrbx_frame source t x) = g" for t by (simp add: sfrbx_frame_def x)
  moreover have "parseSFRBX (sfrbx_payload x) source t = Some (sfrbx_frame source t x)" for t using parse_sfrbx_payload [OF v(2)] by (simp add: x)
  ultimately show ?case using v(1) by (simp add: dispatch_sfrbx tick_def)
qed

section \<open>Properties\<close>

text \<open>C31: Whatever bytes a u-blox receiver sends, every frame the scanner emits is well formed: a navigation frame names a known
  constellation and has words; an observable is finite and in its physical range, its carrier phase too when it is marked valid;
  the bands of an RF report and a receiver solution survive their telemetry bodies unchanged, with one time of week in all blocks of a
  solution; and the telemetry body of a satellite report decodes to its first 113 satellites, the tracked ones before the others, each with
  every field as reported except that an elevation below -90 degrees comes back as -90.\<close>

theorem ubx_frames_well_formed:
  "list_all (event_ok source) (scanUBX source now ubx_state0 stream)"
proof -
  have "ubx_ok ubx_state0" by (simp add: ubx_ok_def ubx_state0_def assembler_ok_def assembler0_def)
  then show ?thesis unfolding scanUBX_events by (rule ubx_run_ok)
qed

text \<open>Navigation words travel unchanged from the receiver's messages to the frames, in order: SFRBX messages of version 2 that carry 1 to
  255 words of a known constellation, between any bytes other than the first sync byte, give one frame each with exactly these words and
  identifiers, stamped with the clock reading of its turn.\<close>

lemma sfrbx_words_delivered:
  assumes "\<forall>(j, g, sv, sig, freq, ws) \<in> set xs. ubxSync1 \<notin> set j \<and> Valid g \<and> length ws \<in> {1..255}"
  shows "scanUBX source now ubx_state0 (concat (map (\<lambda>(j, x). j @ ubx_message (ubxClassRXM, ubxIDSFRBX, sfrbx_payload x)) xs)) =
    map (\<lambda>(i, g, sv, sig, freq, ws). UEmit (frame0\<lparr>rf_Recv := now i, rf_Source := source, rf_GnssID := g, rf_SvID := uint sv,
      rf_SigID := uint sig, rf_FreqID := uint freq, rf_Words := ws\<rparr>)) (enumerate 0 (map snd xs))"
proof -
  let ?ys = "map (\<lambda>(j, x). (j, ubxClassRXM, ubxIDSFRBX, sfrbx_payload x)) xs"
  have "\<forall>(j, x) \<in> set ?ys. ubxSync1 \<notin> set j \<and> length (snd (snd x)) \<le> 16384"
    using assms by (fastforce simp: sfrbx_payload_def length_words)
  note scan = scan_ubx_messages [OF this, of source now ubx_state0]
  have "concat (map (\<lambda>(j, x). j @ ubx_message x) ?ys) = concat (map (\<lambda>(j, x). j @ ubx_message (ubxClassRXM, ubxIDSFRBX, sfrbx_payload x)) xs)"
    "map (Inl \<circ> snd) ?ys = map (\<lambda>x. Inl (ubxClassRXM, ubxIDSFRBX, sfrbx_payload x)) (map snd xs)"
    by (simp_all add: case_prod_unfold o_def)
  note scan' = scan [unfolded this]
  have "\<forall>(g, sv, sig, freq, ws) \<in> set (map snd xs). Valid g \<and> length ws \<in> {1..255}" using assms by fastforce
  moreover have "sa_pending (us_epoch ubx_state0) = None" "us_clock ubx_state0 = 0" by (simp_all add: ubx_state0_def assembler0_def)
  ultimately show ?thesis
    unfolding scan' using sfrbx_run [of "map snd xs" ubx_state0 source now] by (simp add: sfrbx_frame_def case_prod_unfold)
qed

end
