(* ===== verification/IndexedHeap.thy ===== *)
theory IndexedHeap
  imports Prelude "HOL-Library.Multiset"
begin

text \<open>
  The indexed min-heap of \<^verbatim>\<open>go/internal/ingest/durable.go\<close>: the record \<^verbatim>\<open>sessionDurable\<close>, the five methods of
  \<^verbatim>\<open>pendingHeap\<close> and the operations of the standard library's \<^verbatim>\<open>container/heap\<close> that drive them (\<^verbatim>\<open>Push\<close>,
  \<^verbatim>\<open>Remove\<close> and their sift loops). \<open>min_set\<close> is the interface the tracker relies on: a set of sequence numbers
  with insertion, deletion and its least member.
\<close>

section \<open>The code\<close>

record session_durable =
  sd_highest :: u64
  sd_outstanding :: "u64 \<rightharpoonup> nat"
  sd_pending :: "u64 list"
  sd_touched :: int

definition new_session :: session_durable where
  "new_session = \<lparr>sd_highest = 0, sd_outstanding = Map.empty, sd_pending = [], sd_touched = 0\<rparr>"

definition heap_Less :: "session_durable \<Rightarrow> nat \<Rightarrow> nat \<Rightarrow> bool" where
  "heap_Less s i j \<longleftrightarrow> sd_pending s ! i < sd_pending s ! j"

definition heap_Swap :: "session_durable \<Rightarrow> nat \<Rightarrow> nat \<Rightarrow> session_durable" where
  "heap_Swap s i j =
     (let p = (sd_pending s)[i := sd_pending s ! j, j := sd_pending s ! i]
      in s\<lparr>sd_pending := p, sd_outstanding := (sd_outstanding s)(p ! i \<mapsto> i, p ! j \<mapsto> j)\<rparr>)"

definition heap_append :: "session_durable \<Rightarrow> u64 \<Rightarrow> session_durable" where
  "heap_append s seq =
     s\<lparr>sd_outstanding := (sd_outstanding s)(seq \<mapsto> length (sd_pending s)), sd_pending := sd_pending s @ [seq]\<rparr>"

definition heap_Pop :: "session_durable \<Rightarrow> session_durable" where
  "heap_Pop s =
     (let n = length (sd_pending s) - 1; seq = sd_pending s ! n
      in s\<lparr>sd_pending := take n (sd_pending s), sd_outstanding := (sd_outstanding s)(seq := None)\<rparr>)"

text \<open>\<^verbatim>\<open>container/heap\<close>: both loops follow the array indices; the upward one stops at index 0 because
  \<^verbatim>\<open>(j-1)/2\<close> truncates to 0 there.\<close>

function heap_up :: "session_durable \<Rightarrow> nat \<Rightarrow> session_durable" where
  "heap_up s j =
     (let i = (j - 1) div 2
      in if i = j \<or> \<not> heap_Less s j i then s else heap_up (heap_Swap s i j) i)"
  by auto
termination by (relation "measure snd") auto

function heap_down :: "session_durable \<Rightarrow> nat \<Rightarrow> nat \<Rightarrow> session_durable \<times> nat" where
  "heap_down s i n =
     (let j1 = 2 * i + 1
      in if j1 \<ge> n then (s, i)
         else
          (let j = (if j1 + 1 < n \<and> heap_Less s (j1 + 1) j1 then j1 + 1 else j1)
           in if \<not> heap_Less s j i then (s, i) else heap_down (heap_Swap s i j) j n))"
  by auto
termination by (relation "measure (\<lambda>(s, i, n). n - i)") (auto split: if_splits)

definition heap_Push :: "session_durable \<Rightarrow> u64 \<Rightarrow> session_durable" where
  "heap_Push s seq = (let s' = heap_append s seq in heap_up s' (length (sd_pending s') - 1))"

definition heap_Remove :: "session_durable \<Rightarrow> nat \<Rightarrow> session_durable" where
  "heap_Remove s i =
     (let n = length (sd_pending s) - 1
      in heap_Pop (if n \<noteq> i then
                     (case heap_down (heap_Swap s i n) i n of
                        (s', i') \<Rightarrow> if i' > i then s' else heap_up s' i)
                   else s))"

declare heap_up.simps [simp del] heap_down.simps [simp del]

section \<open>The index and the heap order\<close>

text \<open>The map holds, for every sequence in the array, its index and nothing else.\<close>

definition indexed :: "session_durable \<Rightarrow> bool" where
  "indexed s \<longleftrightarrow> distinct (sd_pending s) \<and>
     (\<forall>q i. sd_outstanding s q = Some i \<longleftrightarrow> i < length (sd_pending s) \<and> sd_pending s ! i = q)"

definition parent :: "nat \<Rightarrow> nat" where
  "parent k = (k - 1) div 2"

lemma parent_less: "0 < k \<Longrightarrow> parent k < k"
  by (simp add: parent_def)

lemma parent_le: "parent k \<le> k"
  by (simp add: parent_def)

lemma parent_eq [simp]: "parent k = k \<longleftrightarrow> k = 0"
  by (auto simp: parent_def)

lemma children: "0 < k \<Longrightarrow> parent k = i \<longleftrightarrow> k = 2 * i + 1 \<or> k = 2 * i + 2"
  by (auto simp: parent_def)

definition heap_n :: "nat \<Rightarrow> u64 list \<Rightarrow> bool" where
  "heap_n n p \<longleftrightarrow> (\<forall>k. 0 < k \<and> k < n \<longrightarrow> p ! parent k \<le> p ! k)"

text \<open>The order with a hole at \<open>j\<close>: the hole is unrelated to its parent (upward sift) or to parent and
  children (downward sift), and the children of the hole stay above its parent.\<close>

definition bridged :: "nat \<Rightarrow> u64 list \<Rightarrow> nat \<Rightarrow> bool" where
  "bridged n p j \<longleftrightarrow> (\<forall>c. 0 < c \<and> c < n \<and> parent c = j \<and> 0 < j \<longrightarrow> p ! parent j \<le> p ! c)"

definition up_hole :: "nat \<Rightarrow> u64 list \<Rightarrow> nat \<Rightarrow> bool" where
  "up_hole n p j \<longleftrightarrow> (\<forall>k. 0 < k \<and> k < n \<and> k \<noteq> j \<longrightarrow> p ! parent k \<le> p ! k) \<and> bridged n p j"

definition down_hole :: "nat \<Rightarrow> u64 list \<Rightarrow> nat \<Rightarrow> bool" where
  "down_hole n p j \<longleftrightarrow> (\<forall>k. 0 < k \<and> k < n \<and> k \<noteq> j \<and> parent k \<noteq> j \<longrightarrow> p ! parent k \<le> p ! k) \<and> bridged n p j"

definition swapped :: "u64 list \<Rightarrow> nat \<Rightarrow> nat \<Rightarrow> u64 list" where
  "swapped p i j = p[i := p ! j, j := p ! i]"

lemma heap_Swap_pending [simp]: "sd_pending (heap_Swap s i j) = swapped (sd_pending s) i j"
  by (simp add: heap_Swap_def swapped_def Let_def)

lemma heap_Swap_rest [simp]: "sd_highest (heap_Swap s i j) = sd_highest s" "sd_touched (heap_Swap s i j) = sd_touched s"
  by (simp_all add: heap_Swap_def Let_def)

lemma length_swapped [simp]: "length (swapped p i j) = length p"
  by (simp add: swapped_def)

lemma nth_swapped:
  "i < length p \<Longrightarrow> j < length p \<Longrightarrow> swapped p i j ! k = (if k = j then p ! i else if k = i then p ! j else p ! k)"
  by (simp add: swapped_def nth_list_update)

lemma mset_swapped [simp]: "i < length p \<Longrightarrow> j < length p \<Longrightarrow> mset (swapped p i j) = mset p"
  unfolding swapped_def by (rule mset_swap)

lemma set_swapped [simp]: "i < length p \<Longrightarrow> j < length p \<Longrightarrow> set (swapped p i j) = set p"
  by (metis mset_swapped set_mset_mset)

lemma distinct_swapped [simp]: "i < length p \<Longrightarrow> j < length p \<Longrightarrow> distinct (swapped p i j) = distinct p"
  unfolding swapped_def by (rule distinct_swap)

lemma indexed_dom: "indexed s \<Longrightarrow> dom (sd_outstanding s) = set (sd_pending s)"
  by (auto simp: indexed_def in_set_conv_nth dom_def)

lemma indexed_Swap:
  assumes "indexed s" "i < length (sd_pending s)" "j < length (sd_pending s)"
  shows "indexed (heap_Swap s i j)"
proof -
  let ?p = "sd_pending s"
  have d: "distinct ?p" and m: "\<And>q k. sd_outstanding s q = Some k \<longleftrightarrow> k < length ?p \<and> ?p ! k = q"
    using assms(1) by (auto simp: indexed_def)
  have "sd_outstanding (heap_Swap s i j) q = Some k \<longleftrightarrow> k < length ?p \<and> swapped ?p i j ! k = q" for q k
    using assms(2,3) d by (auto simp: heap_Swap_def Let_def m swapped_def nth_list_update nth_eq_iff_index_eq split: if_splits)
  then show ?thesis using assms(2,3) d by (simp add: indexed_def)
qed

section \<open>The sift loops\<close>

text \<open>What every sift keeps: the sequences, the index and the session's other fields.\<close>

definition same_content :: "session_durable \<Rightarrow> session_durable \<Rightarrow> bool" where
  "same_content s s' \<longleftrightarrow> mset (sd_pending s') = mset (sd_pending s) \<and> sd_highest s' = sd_highest s \<and> sd_touched s' = sd_touched s
     \<and> (indexed s \<longrightarrow> indexed s')"

lemma same_content_refl [simp]: "same_content s s"
  by (simp add: same_content_def)

lemma same_content_trans [trans]: "same_content s t \<Longrightarrow> same_content t u \<Longrightarrow> same_content s u"
  by (simp add: same_content_def)

lemma same_content_Swap: "i < length (sd_pending s) \<Longrightarrow> j < length (sd_pending s) \<Longrightarrow> same_content s (heap_Swap s i j)"
  by (simp add: same_content_def indexed_Swap)

lemma same_content_length: "same_content s s' \<Longrightarrow> length (sd_pending s') = length (sd_pending s)"
  unfolding same_content_def by (metis mset_eq_length)

lemma same_content_set: "same_content s s' \<Longrightarrow> set (sd_pending s') = set (sd_pending s)"
  unfolding same_content_def by (metis mset_eq_setD)

lemma heap_up_step:
  "heap_up s j = (if j = 0 \<or> sd_pending s ! parent j \<le> sd_pending s ! j then s else heap_up (heap_Swap s (parent j) j) (parent j))"
  by (subst heap_up.simps) (auto simp: Let_def heap_Less_def not_less parent_def)

lemma up_induct [case_names stop move]:
  assumes "\<And>s j. j = 0 \<or> sd_pending s ! parent j \<le> sd_pending s ! j \<Longrightarrow> P s j"
    and "\<And>s j. 0 < j \<Longrightarrow> parent j < j \<Longrightarrow> \<not> sd_pending s ! parent j \<le> sd_pending s ! j \<Longrightarrow> P (heap_Swap s (parent j) j) (parent j) \<Longrightarrow> P s j"
  shows "P s j"
proof (induction s j rule: heap_up.induct)
  case (1 s j)
  show ?case
  proof (cases "j = 0 \<or> sd_pending s ! parent j \<le> sd_pending s ! j")
    case False
    then have "P (heap_Swap s (parent j) j) (parent j)" using 1 [of "parent j"] by (auto simp: heap_Less_def not_le parent_def)
    then show ?thesis using False assms(2) parent_less by simp
  qed (rule assms(1))
qed

lemma heap_up_content: "j < length (sd_pending s) \<Longrightarrow> same_content s (heap_up s j)"
proof (induction s j rule: up_induct)
  case (move s j)
  then have "same_content s (heap_Swap s (parent j) j)" by (intro same_content_Swap) auto
  also have "same_content \<dots> (heap_up (heap_Swap s (parent j) j) (parent j))"
    using move by (intro move.IH) simp
  finally show ?case using move by (simp add: heap_up_step [of s j])
qed (simp add: heap_up_step [of s j for s j])

lemma heap_up_above: "j < length (sd_pending s) \<Longrightarrow> j < k \<Longrightarrow> sd_pending (heap_up s j) ! k = sd_pending s ! k"
proof (induction s j rule: up_induct)
  case (move s j)
  then show ?case by (simp add: heap_up_step [of s j] nth_swapped)
qed (simp add: heap_up_step [of s j for s j])

lemma up_hole_move:
  assumes "up_hole n p j" "p ! j < p ! parent j" "0 < j" "j < n" "n \<le> length p"
  shows "up_hole n (swapped p (parent j) j) (parent j)"
proof -
  let ?i = "parent j" and ?q = "swapped p (parent j) j"
  have lt: "?i < j" "?i < length p" "j < length p" using assms(3-5) parent_less [of j] by linarith+
  have H: "\<And>k. 0 < k \<Longrightarrow> k < n \<Longrightarrow> k \<noteq> j \<Longrightarrow> p ! parent k \<le> p ! k"
    and B: "\<And>c. 0 < c \<Longrightarrow> c < n \<Longrightarrow> parent c = j \<Longrightarrow> p ! ?i \<le> p ! c"
    using assms(1,3) by (auto simp: up_hole_def bridged_def)
  have q: "?q ! k = (if k = j then p ! ?i else if k = ?i then p ! j else p ! k)" for k by (rule nth_swapped [OF lt(2,3)])
  have "?q ! parent k \<le> ?q ! k" if k: "0 < k" "k < n" "k \<noteq> ?i" for k
  proof (cases "k = j")
    case True then show ?thesis using assms(2) lt by (simp add: q)
  next
    case False
    have sib: "p ! j \<le> p ! k" if e: "parent k = ?i"
    proof -
      have "p ! ?i \<le> p ! k" using H [OF k(1,2) False] unfolding e .
      then show ?thesis using assms(2) by order
    qed
    show ?thesis using k False sib H [OF k(1,2) False] B [OF k(1,2)] by (auto simp: q)
  qed
  moreover have "?q ! parent ?i \<le> ?q ! c" if c: "0 < c" "c < n" "parent c = ?i" "0 < ?i" for c
  proof -
    have "parent ?i < ?i" using c(4) by (rule parent_less)
    then have a: "?q ! parent ?i = p ! parent ?i" using lt by (simp add: q)
    have b: "p ! parent ?i \<le> p ! ?i" using H [of ?i] c(4) lt assms(4) by auto
    have "c \<noteq> ?i" using c(1,3) parent_less [of c] by auto
    then show ?thesis using a b c H [OF c(1,2)] by (auto simp: q)
  qed
  ultimately show ?thesis by (auto simp: up_hole_def bridged_def)
qed

lemma heap_up_heap: "up_hole n (sd_pending s) j \<Longrightarrow> j < n \<Longrightarrow> n \<le> length (sd_pending s) \<Longrightarrow> heap_n n (sd_pending (heap_up s j))"
proof (induction s j rule: up_induct)
  case (stop s j)
  have "sd_pending s ! parent k \<le> sd_pending s ! k" if "0 < k" "k < n" for k
    using stop that by (cases "k = j") (auto simp: up_hole_def)
  then show ?case using stop(1) by (simp add: heap_up_step [of s j] heap_n_def)
next
  case (move s j)
  then have "up_hole n (sd_pending (heap_Swap s (parent j) j)) (parent j)"
    unfolding heap_Swap_pending by (intro up_hole_move) (auto simp: not_le)
  then show ?case using move by (simp add: heap_up_step [of s j])
qed

text \<open>The downward sift looks at the smaller child.\<close>

definition small_child :: "nat \<Rightarrow> u64 list \<Rightarrow> nat \<Rightarrow> nat" where
  "small_child n p i = (if 2 * i + 2 < n \<and> p ! (2 * i + 2) < p ! (2 * i + 1) then 2 * i + 2 else 2 * i + 1)"

lemma small_child:
  assumes "2 * i + 1 < n"
  shows "small_child n p i < n" "i < small_child n p i" "parent (small_child n p i) = i"
    "\<And>k. 0 < k \<Longrightarrow> k < n \<Longrightarrow> parent k = i \<Longrightarrow> p ! small_child n p i \<le> p ! k"
proof -
  show "small_child n p i < n" "i < small_child n p i" "parent (small_child n p i) = i"
    using assms by (auto simp: small_child_def parent_def)
  show "p ! small_child n p i \<le> p ! k" if "0 < k" "k < n" "parent k = i" for k
    using that by (auto simp: small_child_def children not_less)
qed

lemma heap_down_step:
  "heap_down s i n = (if n \<le> 2 * i + 1 \<or> sd_pending s ! i \<le> sd_pending s ! small_child n (sd_pending s) i then (s, i)
     else heap_down (heap_Swap s i (small_child n (sd_pending s) i)) (small_child n (sd_pending s) i) n)"
  by (subst heap_down.simps) (auto simp: Let_def heap_Less_def small_child_def not_less)

lemma down_induct [case_names stop move]:
  assumes "\<And>s i. n \<le> 2 * i + 1 \<or> sd_pending s ! i \<le> sd_pending s ! small_child n (sd_pending s) i \<Longrightarrow> P s i"
    and "\<And>s i j. 2 * i + 1 < n \<Longrightarrow> j = small_child n (sd_pending s) i \<Longrightarrow> i < j \<Longrightarrow> j < n \<Longrightarrow>
      \<not> sd_pending s ! i \<le> sd_pending s ! j \<Longrightarrow> P (heap_Swap s i j) j \<Longrightarrow> P s i"
  shows "P s i"
proof (induction "n - i" arbitrary: s i rule: less_induct)
  case less
  let ?j = "small_child n (sd_pending s) i"
  show ?case
  proof (cases "n \<le> 2 * i + 1 \<or> sd_pending s ! i \<le> sd_pending s ! ?j")
    case False
    then have j: "i < ?j" "?j < n" "2 * i + 1 < n" using small_child [of i n] by auto
    then have "P (heap_Swap s i ?j) ?j" by (intro less) simp
    then show ?thesis using assms(2) [OF j(3) refl j(1,2)] False by simp
  qed (rule assms(1))
qed

lemma heap_down_content:
  "n \<le> length (sd_pending s) \<Longrightarrow> heap_down s i n = (s', i') \<Longrightarrow>
     same_content s s' \<and> i \<le> i' \<and> (\<forall>k\<ge>n. sd_pending s' ! k = sd_pending s ! k)"
proof (induction s i rule: down_induct [where n = n])
  case (stop s i)
  then show ?case by (auto simp: heap_down_step [of s i])
next
  case (move s i j)
  have "heap_down (heap_Swap s i j) j n = (s', i')" using move by (simp add: heap_down_step [of s i])
  then have "same_content (heap_Swap s i j) s' \<and> j \<le> i' \<and> (\<forall>k\<ge>n. sd_pending s' ! k = sd_pending (heap_Swap s i j) ! k)"
    using move by simp
  moreover have "same_content s (heap_Swap s i j)" using move by (intro same_content_Swap) auto
  ultimately show ?case using move by (auto intro: same_content_trans simp: nth_swapped)
qed

lemma down_hole_move:
  assumes "down_hole n p i" "2 * i + 1 < n" "n \<le> length p" "j = small_child n p i" "p ! j < p ! i"
  shows "down_hole n (swapped p i j) j" "swapped p i j ! parent j \<le> swapped p i j ! j"
proof -
  let ?q = "swapped p i j"
  note j = small_child [where p = p, OF assms(2), folded assms(4)]
  have q: "?q ! k = (if k = j then p ! i else if k = i then p ! j else p ! k)" for k
    using j assms(3) by (intro nth_swapped) auto
  have H: "\<And>k. 0 < k \<Longrightarrow> k < n \<Longrightarrow> k \<noteq> i \<Longrightarrow> parent k \<noteq> i \<Longrightarrow> p ! parent k \<le> p ! k"
    and B: "\<And>c. 0 < c \<Longrightarrow> c < n \<Longrightarrow> parent c = i \<Longrightarrow> 0 < i \<Longrightarrow> p ! parent i \<le> p ! c"
    using assms(1) by (auto simp: down_hole_def bridged_def)
  have "?q ! parent k \<le> ?q ! k" if k: "0 < k" "k < n" "k \<noteq> j" "parent k \<noteq> j" for k
  proof (cases "k = i")
    case True
    then have "parent k \<noteq> i" "p ! parent i \<le> p ! j" using k B [of j] j by auto
    then show ?thesis using True k j by (simp add: q)
  next
    case False
    then show ?thesis using k H [OF k(1,2)] j(4) [OF k(1,2)] by (simp add: q)
  qed
  moreover have "?q ! parent j \<le> ?q ! c" if c: "0 < c" "c < n" "parent c = j" for c
  proof -
    have "c \<noteq> i" "parent c \<noteq> i" "c \<noteq> j" using c j parent_less [of c] by auto
    then show ?thesis using H [OF c(1,2)] c j by (simp add: q)
  qed
  ultimately show "down_hole n ?q j" by (simp add: down_hole_def bridged_def)
  show "?q ! parent j \<le> ?q ! j" using j assms(5) by (simp add: q)
qed

lemma children_above:
  assumes "n \<le> 2 * i + 1 \<or> p ! i \<le> p ! small_child n p i" "0 < k" "k < n" "parent k = i"
  shows "p ! i \<le> p ! k"
proof -
  have "2 * i + 1 < n" using assms(2-4) by (auto simp: children)
  then show ?thesis using small_child(4) [where p = p, OF _ assms(2-4)] assms(1) by auto
qed

text \<open>Either nothing moved and the hole is in order with its children, or the whole prefix is a heap.\<close>

lemma heap_down_heap:
  "down_hole n (sd_pending s) i \<Longrightarrow> n \<le> length (sd_pending s) \<Longrightarrow> heap_down s i n = (s', i') \<Longrightarrow>
     (if i' = i then s' = s \<and> (\<forall>k. 0 < k \<and> k < n \<and> parent k = i \<longrightarrow> sd_pending s ! i \<le> sd_pending s ! k)
      else heap_n n (sd_pending s'))"
proof (induction s i rule: down_induct [where n = n])
  case (stop s i)
  then show ?case using children_above [OF stop(1)] by (auto simp: heap_down_step [of s i])
next
  case (move s i j)
  let ?s = "heap_Swap s i j"
  have d: "heap_down ?s j n = (s', i')" using move by (simp add: heap_down_step [of s i])
  have "sd_pending s ! j < sd_pending s ! i" using move by (simp add: not_le)
  note hole = down_hole_move [OF \<open>down_hole n (sd_pending s) i\<close> move(1) \<open>n \<le> length (sd_pending s)\<close> move(2) this]
  have "j \<le> i'" using heap_down_content [OF _ d] move by simp
  then have ne: "i' \<noteq> i" using move(3) by simp
  have IH: "if i' = j then s' = ?s \<and> (\<forall>k. 0 < k \<and> k < n \<and> parent k = j \<longrightarrow> sd_pending ?s ! j \<le> sd_pending ?s ! k)
      else heap_n n (sd_pending s')"
    using hole(1) move d by simp
  have "heap_n n (sd_pending s')"
  proof (cases "i' = j")
    case True
    have "sd_pending s' ! parent k \<le> sd_pending s' ! k" if "0 < k" "k < n" for k
      using IH True hole that by (cases "k = j \<or> parent k = j") (auto simp: down_hole_def)
    then show ?thesis by (simp add: heap_n_def)
  qed (use IH in simp)
  then show ?case using ne by simp
qed

section \<open>Push and Remove\<close>

definition heap_ok :: "session_durable \<Rightarrow> bool" where
  "heap_ok s \<longleftrightarrow> indexed s \<and> heap_n (length (sd_pending s)) (sd_pending s)"

lemma heap_n_append: "heap_n (length p) p \<Longrightarrow> up_hole (Suc (length p)) (p @ [q]) (length p)"
proof -
  assume H: "heap_n (length p) p"
  have "(p @ [q]) ! parent k \<le> (p @ [q]) ! k" if "0 < k" "k < Suc (length p)" "k \<noteq> length p" for k
  proof -
    have "parent k < length p" "k < length p" using that parent_less [of k] by linarith+
    then show ?thesis using H that by (simp add: nth_append heap_n_def)
  qed
  moreover have "bridged (Suc (length p)) (p @ [q]) (length p)"
    unfolding bridged_def
  proof (intro allI impI, elim conjE)
    fix c assume "0 < c" "c < Suc (length p)" "parent c = length p"
    then show "(p @ [q]) ! parent (length p) \<le> (p @ [q]) ! c" using parent_less [of c] by simp
  qed
  ultimately show ?thesis by (simp add: up_hole_def)
qed

lemma indexed_append: "indexed s \<Longrightarrow> q \<notin> set (sd_pending s) \<Longrightarrow> indexed (heap_append s q)"
proof -
  assume s: "indexed s" and q: "q \<notin> set (sd_pending s)"
  have "sd_outstanding (heap_append s q) r = Some i \<longleftrightarrow> i < Suc (length (sd_pending s)) \<and> (sd_pending s @ [q]) ! i = r" for r i
    using s q by (auto simp: heap_append_def indexed_def nth_append less_Suc_eq)
  then show ?thesis using s q by (simp add: indexed_def heap_append_def)
qed

lemma heap_Push_content:
  shows "mset (sd_pending (heap_Push s q)) = add_mset q (mset (sd_pending s))" "sd_highest (heap_Push s q) = sd_highest s"
    "sd_touched (heap_Push s q) = sd_touched s" "length (sd_pending (heap_Push s q)) = Suc (length (sd_pending s))"
    "set (sd_pending (heap_Push s q)) = insert q (set (sd_pending s))"
proof -
  let ?a = "heap_append s q"
  have a: "sd_pending ?a = sd_pending s @ [q]" "sd_highest ?a = sd_highest s" "sd_touched ?a = sd_touched s"
    by (simp_all add: heap_append_def)
  have c: "same_content ?a (heap_Push s q)"
    unfolding heap_Push_def Let_def by (rule heap_up_content) (simp add: a)
  show "mset (sd_pending (heap_Push s q)) = add_mset q (mset (sd_pending s))" "sd_highest (heap_Push s q) = sd_highest s"
      "sd_touched (heap_Push s q) = sd_touched s"
    using c by (simp_all add: same_content_def a)
  show "length (sd_pending (heap_Push s q)) = Suc (length (sd_pending s))" using same_content_length [OF c] by (simp add: a)
  show "set (sd_pending (heap_Push s q)) = insert q (set (sd_pending s))" using same_content_set [OF c] by (simp add: a)
qed

lemma heap_ok_Push:
  assumes "heap_ok s" "q \<notin> set (sd_pending s)"
  shows "heap_ok (heap_Push s q)"
proof -
  let ?a = "heap_append s q"
  have p: "sd_pending ?a = sd_pending s @ [q]" by (simp add: heap_append_def)
  have c: "same_content ?a (heap_Push s q)"
    unfolding heap_Push_def Let_def by (rule heap_up_content) (simp add: p)
  moreover have "indexed ?a" using assms by (simp add: heap_ok_def indexed_append)
  moreover have "heap_n (Suc (length (sd_pending s))) (sd_pending (heap_Push s q))"
    unfolding heap_Push_def Let_def p
    by (rule heap_up_heap) (use assms heap_n_append in \<open>auto simp: heap_ok_def p\<close>)
  ultimately show ?thesis using same_content_length [OF c] by (simp add: heap_ok_def same_content_def p)
qed

text \<open>The array before \<^verbatim>\<open>Pop\<close>: the sequence to drop is last and the rest is a heap.\<close>

definition to_last :: "session_durable \<Rightarrow> nat \<Rightarrow> session_durable" where
  "to_last s i =
     (let n = length (sd_pending s) - 1
      in if n \<noteq> i then
           (case heap_down (heap_Swap s i n) i n of (s', i') \<Rightarrow> if i' > i then s' else heap_up s' i)
         else s)"

lemma heap_Remove_to_last: "heap_Remove s i = heap_Pop (to_last s i)"
  by (simp add: heap_Remove_def to_last_def Let_def)

lemma heap_n_swap_last:
  assumes "heap_n (Suc n) p" "length p = Suc n" "i < n"
  shows "down_hole n (swapped p i n) i"
proof -
  have H: "\<And>k. 0 < k \<Longrightarrow> k < Suc n \<Longrightarrow> p ! parent k \<le> p ! k" using assms(1) by (simp add: heap_n_def)
  have q: "k \<noteq> i \<Longrightarrow> k < n \<Longrightarrow> swapped p i n ! k = p ! k" for k using assms by (simp add: nth_swapped)
  have lt: "0 < k \<Longrightarrow> k < n \<Longrightarrow> parent k < n" for k using parent_less [of k] by simp
  have "swapped p i n ! parent i \<le> swapped p i n ! c" if c: "0 < c" "c < n" "parent c = i" "0 < i" for c
  proof -
    have "p ! parent i \<le> p ! i" using H [of i] c assms(3) by simp
    also have "\<dots> \<le> p ! c" using H [of c] c by simp
    finally show ?thesis using c parent_less [of c] parent_less [of i] assms(3) by (simp add: q)
  qed
  then show ?thesis using H lt q by (simp add: down_hole_def bridged_def)
qed

lemma to_last:
  assumes ok: "heap_ok s" and i: "i < length (sd_pending s)"
  defines "n \<equiv> length (sd_pending s) - 1"
  shows "same_content s (to_last s i)" "sd_pending (to_last s i) ! n = sd_pending s ! i" "heap_n n (sd_pending (to_last s i))"
proof -
  have len: "length (sd_pending s) = Suc n" using i by (simp add: n_def)
  then have H: "heap_n (Suc n) (sd_pending s)" using ok by (simp add: heap_ok_def)
  have "same_content s (to_last s i) \<and> sd_pending (to_last s i) ! n = sd_pending s ! i \<and> heap_n n (sd_pending (to_last s i))"
  proof (cases "n = i")
    case True
    then show ?thesis using H by (simp add: to_last_def Let_def len heap_n_def)
  next
    case False
    let ?s = "heap_Swap s i n"
    have lt: "i < n" using i False len by simp
    obtain s' i' where d: "heap_down ?s i n = (s', i')" by fastforce
    have c: "same_content s ?s" using lt len by (intro same_content_Swap) auto
    have l: "length (sd_pending ?s) = Suc n" using len by simp
    have hole: "down_hole n (sd_pending ?s) i" unfolding heap_Swap_pending by (rule heap_n_swap_last [OF H len lt])
    note D = heap_down_content [OF _ d, unfolded l, simplified] heap_down_heap [OF hole _ d, unfolded l, simplified]
    have last: "sd_pending ?s ! n = sd_pending s ! i" using lt len by (simp add: nth_swapped)
    show ?thesis
    proof (cases "i' > i")
      case True
      then show ?thesis using D False d c last by (auto simp: to_last_def Let_def len intro: same_content_trans)
    next
      case False
      then have e: "s' = ?s" "\<forall>k. 0 < k \<and> k < n \<and> parent k = i \<longrightarrow> sd_pending ?s ! i \<le> sd_pending ?s ! k" using D by (auto split: if_splits)
      then have "up_hole n (sd_pending ?s) i" using hole by (auto simp: up_hole_def down_hole_def)
      then have "heap_n n (sd_pending (heap_up ?s i))" using lt l by (intro heap_up_heap) auto
      moreover have "same_content ?s (heap_up ?s i)" using lt l by (intro heap_up_content) auto
      moreover have "sd_pending (heap_up ?s i) ! n = sd_pending s ! i" using heap_up_above [of i ?s n] lt l last by simp
      moreover have "to_last s i = heap_up ?s i" using False \<open>n \<noteq> i\<close> d e(1) by (simp add: to_last_def Let_def len)
      ultimately show ?thesis using c by (auto intro: same_content_trans)
    qed
  qed
  then show "same_content s (to_last s i)" "sd_pending (to_last s i) ! n = sd_pending s ! i" "heap_n n (sd_pending (to_last s i))" by auto
qed

lemma indexed_Pop:
  assumes "indexed t" "sd_pending t \<noteq> []"
  shows "indexed (heap_Pop t)"
proof -
  let ?p = "sd_pending t" and ?n = "length (sd_pending t) - 1"
  have d: "distinct ?p" and m: "\<And>q k. sd_outstanding t q = Some k \<longleftrightarrow> k < length ?p \<and> ?p ! k = q"
    using assms(1) by (auto simp: indexed_def)
  have n: "?n < length ?p" using assms(2) by simp
  have "sd_outstanding (heap_Pop t) q = Some k \<longleftrightarrow> k < ?n \<and> take ?n ?p ! k = q" for q k
  proof (cases "q = ?p ! ?n")
    case True
    then show ?thesis using d n by (auto simp: heap_Pop_def Let_def nth_eq_iff_index_eq)
  next
    case False
    then have "k < length ?p \<and> ?p ! k = q \<longleftrightarrow> k < ?n \<and> ?p ! k = q" using n by (cases "k = ?n") auto
    then show ?thesis using False by (auto simp: heap_Pop_def Let_def m)
  qed
  then show ?thesis using d by (simp add: indexed_def heap_Pop_def Let_def)
qed

lemma heap_n_take:
  assumes "heap_n n p"
  shows "heap_n n (take n p)"
proof -
  have "take n p ! parent k \<le> take n p ! k" if "0 < k" "k < n" for k
    using assms that parent_less [of k] by (simp add: heap_n_def)
  then show ?thesis by (simp add: heap_n_def)
qed

lemma heap_Remove_ok:
  assumes ok: "heap_ok s" and i: "i < length (sd_pending s)"
  shows "heap_ok (heap_Remove s i)" "set (sd_pending (heap_Remove s i)) = set (sd_pending s) - {sd_pending s ! i}"
    "length (sd_pending (heap_Remove s i)) = length (sd_pending s) - 1" "sd_highest (heap_Remove s i) = sd_highest s"
    "sd_touched (heap_Remove s i) = sd_touched s"
proof -
  let ?t = "to_last s i" and ?n = "length (sd_pending s) - 1"
  note T = to_last [OF ok i]
  have len: "length (sd_pending ?t) = length (sd_pending s)" by (rule same_content_length [OF T(1)])
  have P: "sd_pending (heap_Remove s i) = take ?n (sd_pending ?t)" by (simp add: heap_Remove_to_last heap_Pop_def Let_def len)
  have it: "indexed ?t" using T(1) ok by (simp add: same_content_def heap_ok_def)
  then have "indexed (heap_Remove s i)" unfolding heap_Remove_to_last by (rule indexed_Pop) (use i len in auto)
  moreover have "heap_n ?n (take ?n (sd_pending ?t))" using T(3) by (rule heap_n_take)
  ultimately show "heap_ok (heap_Remove s i)" using P len by (simp add: heap_ok_def)
  show "length (sd_pending (heap_Remove s i)) = length (sd_pending s) - 1" using P len by simp
  show "sd_highest (heap_Remove s i) = sd_highest s" "sd_touched (heap_Remove s i) = sd_touched s"
    using T(1) by (simp_all add: heap_Remove_to_last heap_Pop_def Let_def same_content_def)
  have "sd_pending ?t = take ?n (sd_pending ?t) @ [sd_pending ?t ! ?n]"
    using i len by (metis Suc_diff_1 length_greater_0_conv list.size(3) not_less_zero take_Suc_conv_app_nth take_all_iff lessI order_refl)
  then have "distinct (take ?n (sd_pending ?t) @ [sd_pending s ! i])" "set (sd_pending s) = set (take ?n (sd_pending ?t) @ [sd_pending s ! i])"
    using it T(2) same_content_set [OF T(1)] by (simp_all add: indexed_def)
  then show "set (sd_pending (heap_Remove s i)) = set (sd_pending s) - {sd_pending s ! i}" using P by auto
qed

lemma heap_n_first: "heap_n n p \<Longrightarrow> k < n \<Longrightarrow> p ! 0 \<le> p ! k"
proof (induction k rule: less_induct)
  case (less k)
  show ?case
  proof (cases "k = 0")
    case False
    then have "p ! 0 \<le> p ! parent k" using less parent_less [of k] by simp
    also have "\<dots> \<le> p ! k" using less False by (simp add: heap_n_def)
    finally show ?thesis .
  qed simp
qed

lemma heap_ok_Min: "heap_ok s \<Longrightarrow> sd_pending s \<noteq> [] \<Longrightarrow> sd_pending s ! 0 = Min (set (sd_pending s))"
  by (rule sym, rule Min_eqI) (auto simp: heap_ok_def in_set_conv_nth intro: heap_n_first)

section \<open>The interface the tracker uses\<close>

text \<open>A finite set of sequences that can be held, released and asked for its least member. What the
  watermark needs follows from these laws alone.\<close>

locale min_set =
  fixes inv :: "'s \<Rightarrow> bool" and content :: "'s \<Rightarrow> u64 set" and hold :: "u64 \<Rightarrow> 's \<Rightarrow> 's"
    and release :: "u64 \<Rightarrow> 's \<Rightarrow> 's" and least :: "'s \<Rightarrow> u64"
  assumes finite_content: "inv s \<Longrightarrow> finite (content s)"
    and hold_inv: "inv s \<Longrightarrow> inv (hold q s)" and hold_content: "inv s \<Longrightarrow> content (hold q s) = insert q (content s)"
    and release_inv: "inv s \<Longrightarrow> inv (release q s)" and release_content: "inv s \<Longrightarrow> content (release q s) = content s - {q}"
    and least_Min: "inv s \<Longrightarrow> content s \<noteq> {} \<Longrightarrow> least s = Min (content s)"
begin

lemma below_least:
  assumes "inv s" "0 \<notin> content s" "q \<in> content s"
  shows "least s - 1 < q"
proof -
  have "content s \<noteq> {}" using assms(3) by auto
  then have "least s \<in> content s" "least s \<le> q" using assms by (simp_all add: least_Min finite_content)
  then have "least s \<noteq> 0" using assms(2) by auto
  then have "least s - 1 < least s" by (simp add: word_less_nat_alt unat_minus_one unat_gt_0)
  then show ?thesis using \<open>least s \<le> q\<close> by order
qed

lemma least_is_member: "inv s \<Longrightarrow> content s \<noteq> {} \<Longrightarrow> least s \<in> content s"
  by (simp add: least_Min finite_content)

lemma mark_greatest:
  assumes "inv s" "0 \<notin> content s" "content s \<noteq> {}" "least s - 1 < N"
  shows "\<exists>q \<in> content s. q \<le> N"
proof (rule bexI)
  show m: "least s \<in> content s" by (rule least_is_member [OF assms(1,3)])
  then have "least s \<noteq> 0" using assms(2) by auto
  then show "least s \<le> N" using assms(4) by (simp add: word_less_nat_alt word_le_nat_alt unat_minus_one unat_gt_0)
qed

lemma release_all: "inv s \<Longrightarrow> content (fold release qs s) = content s - set qs \<and> inv (fold release qs s)"
  by (induction qs arbitrary: s) (auto simp: release_inv release_content)

end

definition heap_hold :: "u64 \<Rightarrow> session_durable \<Rightarrow> session_durable" where
  "heap_hold q s = (if sd_outstanding s q = None then heap_Push s q else s)"

definition heap_release :: "u64 \<Rightarrow> session_durable \<Rightarrow> session_durable" where
  "heap_release q s = (case sd_outstanding s q of Some i \<Rightarrow> heap_Remove s i | None \<Rightarrow> s)"

lemma outstanding_None: "heap_ok s \<Longrightarrow> sd_outstanding s q = None \<longleftrightarrow> q \<notin> set (sd_pending s)"
  using indexed_dom [of s] by (auto simp: heap_ok_def)

lemma outstanding_Some: "heap_ok s \<Longrightarrow> sd_outstanding s q = Some i \<Longrightarrow> i < length (sd_pending s) \<and> sd_pending s ! i = q"
  by (auto simp: heap_ok_def indexed_def)

interpretation pq: min_set heap_ok "\<lambda>s. set (sd_pending s)" heap_hold heap_release "\<lambda>s. sd_pending s ! 0"
proof unfold_locales
  fix s q assume s: "heap_ok s"
  show "finite (set (sd_pending s))" by simp
  show "heap_ok (heap_hold q s)" using s heap_ok_Push [OF s] by (simp add: heap_hold_def outstanding_None)
  show "set (sd_pending (heap_hold q s)) = insert q (set (sd_pending s))"
    using outstanding_None [OF s] by (auto simp: heap_hold_def heap_Push_content)
  show "heap_ok (heap_release q s)" using s heap_Remove_ok(1) [OF s] outstanding_Some [OF s] by (auto simp: heap_release_def split: option.split)
  show "set (sd_pending (heap_release q s)) = set (sd_pending s) - {q}"
    using outstanding_None [OF s] heap_Remove_ok(2) [OF s] outstanding_Some [OF s] by (auto simp: heap_release_def split: option.split)
  show "sd_pending s ! 0 = Min (set (sd_pending s))" if "set (sd_pending s) \<noteq> {}" using heap_ok_Min [OF s] that by simp
qed

section \<open>Properties\<close>

datatype heap_op = Hold u64 | Release u64

primrec heap_exec :: "session_durable \<Rightarrow> heap_op \<Rightarrow> session_durable" where
  "heap_exec s (Hold q) = heap_hold q s"
| "heap_exec s (Release q) = heap_release q s"

primrec set_exec :: "u64 set \<Rightarrow> heap_op \<Rightarrow> u64 set" where
  "set_exec S (Hold q) = insert q S"
| "set_exec S (Release q) = S - {q}"

lemma heap_exec_ok:
  "heap_ok s \<Longrightarrow> heap_ok (foldl heap_exec s ops) \<and> set (sd_pending (foldl heap_exec s ops)) = foldl set_exec (set (sd_pending s)) ops"
proof (induction ops arbitrary: s)
  case (Cons x ops)
  then have "heap_ok (heap_exec s x) \<and> set (sd_pending (heap_exec s x)) = set_exec (set (sd_pending s)) x"
    by (cases x) (simp_all add: pq.hold_inv pq.hold_content pq.release_inv pq.release_content)
  then show ?case using Cons.IH [of "heap_exec s x"] by simp
qed simp

text \<open>C4: The indexed heap refines a set of sequences: after any run of insertions (of sequences present or not) and
  deletions (of arbitrary sequences, at whatever array position they sit) the array holds each member of the set once, the index
  maps exactly the members to their positions, and the first element is the least member, whatever sifting the run did.\<close>

theorem heap_refines_set:
  "let s = foldl heap_exec new_session ops; S = foldl set_exec {} ops
   in set (sd_pending s) = S \<and> distinct (sd_pending s) \<and>
      (\<forall>q i. sd_outstanding s q = Some i \<longleftrightarrow> i < length (sd_pending s) \<and> sd_pending s ! i = q) \<and>
      (if S = {} then sd_pending s = [] else sd_pending s ! 0 = Min S)"
proof -
  let ?s = "foldl heap_exec new_session ops"
  have "heap_ok new_session" by (simp add: new_session_def heap_ok_def indexed_def heap_n_def)
  from heap_exec_ok [OF this, of ops] have "heap_ok ?s" "set (sd_pending ?s) = foldl set_exec {} ops" by (simp_all add: new_session_def)
  then show ?thesis using pq.least_Min [of ?s] by (auto simp: heap_ok_def indexed_def Let_def)
qed

end
