(* ===== verification/DurableTracker.thy ===== *)
theory DurableTracker
  imports IndexedHeap "HOL-Library.Char_ord" "HOL-Library.List_Lexorder" "HOL-Library.Product_Lexorder"
begin

text \<open>
  \<^verbatim>\<open>go/internal/ingest/durable.go\<close>: the tracker that computes, for every (observer, session), the acknowledgement
  watermark of the push protocol. Times are nanoseconds since Go's zero \<^verbatim>\<open>time.Time\<close>; the calls of \<^verbatim>\<open>time.Now\<close> are
  the argument \<open>now\<close>. Go leaves the order of a \<^verbatim>\<open>range\<close> over a map open: the operations that iterate take it as
  the argument \<open>ord\<close>, and \<open>map_range\<close> says that it visits every key once. The mutex makes each operation
  atomic, so an operation is a function on the tracker.
\<close>

section \<open>The code\<close>

datatype durable_key = DurableKey (dk_source: string) (dk_session: string)

instantiation durable_key :: linorder
begin
definition less_eq_durable_key :: "durable_key \<Rightarrow> durable_key \<Rightarrow> bool" where
  "a \<le> b \<longleftrightarrow> (dk_source a, dk_session a) \<le> (dk_source b, dk_session b)"
definition less_durable_key :: "durable_key \<Rightarrow> durable_key \<Rightarrow> bool" where
  "a < b \<longleftrightarrow> (dk_source a, dk_session a) < (dk_source b, dk_session b)"
instance
  by standard (auto simp: less_eq_durable_key_def less_durable_key_def durable_key.expand split: prod.splits)
end

datatype durable_metric =
    DurableReceiptsRejected string
  | DurableHolesAbandoned string nat
  | DurableSessionsEvicted string

record durable_tracker =
  dt_m :: "durable_key \<rightharpoonup> session_durable"
  dt_perSource :: "string \<rightharpoonup> int"
  dt_outstanding :: int
  dt_maxOutstanding :: int
  dt_maxPerSession :: int
  dt_maxSessions :: int
  dt_maxPerSource :: int
  dt_nextPrune :: int
  dt_metrics :: "durable_metric list"

definition second :: int where "second = 1000000000"
definition minute :: int where "minute = 60 * second"
definition durableResolvedIdle :: int where "durableResolvedIdle = 15 * minute"
definition durableHoleAbandonAfter :: int where "durableHoleAbandonAfter = 60 * minute"
definition maxDurableSessions :: int where "maxDurableSessions = 1024"
definition maxDurableOutstanding :: int where "maxDurableOutstanding = 65536"
definition maxDurablePerSession :: int where "maxDurablePerSession = 4096"
definition maxDurableSessionsPerSource :: int where "maxDurableSessionsPerSource = 64"

definition NewDurableTracker :: durable_tracker where
  "NewDurableTracker = \<lparr>dt_m = Map.empty, dt_perSource = Map.empty, dt_outstanding = 0, dt_maxOutstanding = maxDurableOutstanding,
     dt_maxPerSession = maxDurablePerSession, dt_maxSessions = maxDurableSessions, dt_maxPerSource = maxDurableSessionsPerSource,
     dt_nextPrune = 0, dt_metrics = []\<rparr>"

text \<open>\<^verbatim>\<open>Time.Sub\<close> saturates at the limits of a 64-bit duration; a missing map entry reads as zero.\<close>

definition time_Sub :: "int \<Rightarrow> int \<Rightarrow> int" where
  "time_Sub a b = max (- (2 ^ 63)) (min (2 ^ 63 - 1) (a - b))"

definition source_count :: "durable_tracker \<Rightarrow> string \<Rightarrow> int" where
  "source_count t source = (case dt_perSource t source of None \<Rightarrow> 0 | Some n \<Rightarrow> n)"

definition note_metric :: "durable_metric \<Rightarrow> durable_tracker \<Rightarrow> durable_tracker" where
  "note_metric e t = t\<lparr>dt_metrics := dt_metrics t @ [e]\<rparr>"

definition forgetLocked :: "durable_tracker \<Rightarrow> durable_key \<Rightarrow> durable_tracker" where
  "forgetLocked t k =
     (let n = source_count t (dk_source k) - 1
      in t\<lparr>dt_m := (dt_m t)(k := None),
           dt_perSource := (if n \<le> 0 then (dt_perSource t)(dk_source k := None) else (dt_perSource t)(dk_source k \<mapsto> n))\<rparr>)"

definition prune_key :: "int \<Rightarrow> durable_tracker \<Rightarrow> durable_key \<Rightarrow> durable_tracker" where
  "prune_key now t k =
     (case dt_m t k of None \<Rightarrow> t
      | Some s \<Rightarrow>
         (let idle = time_Sub now (sd_touched s)
          in if length (sd_pending s) = 0 \<and> idle > durableResolvedIdle then forgetLocked t k
             else if length (sd_pending s) > 0 \<and> idle > durableHoleAbandonAfter then
               forgetLocked ((note_metric (DurableHolesAbandoned (dk_source k) (length (sd_pending s))) t)
                   \<lparr>dt_outstanding := dt_outstanding t - int (length (sd_pending s))\<rparr>) k
             else t))"

type_synonym map_order = "(durable_key \<rightharpoonup> session_durable) \<Rightarrow> durable_key list"

definition pruneLocked :: "map_order \<Rightarrow> int \<Rightarrow> durable_tracker \<Rightarrow> durable_tracker" where
  "pruneLocked ord now t = foldl (prune_key now) t (ord (dt_m t))"

definition evict_pick :: "durable_tracker \<Rightarrow> string \<Rightarrow> (durable_key \<times> int) option \<Rightarrow> durable_key \<Rightarrow> (durable_key \<times> int) option" where
  "evict_pick t source best k =
     (case dt_m t k of None \<Rightarrow> best
      | Some s \<Rightarrow>
         if dk_source k \<noteq> source \<or> length (sd_pending s) > 0 then best
         else (case best of None \<Rightarrow> Some (k, sd_touched s)
               | Some (_, oldest_at) \<Rightarrow> if sd_touched s < oldest_at then Some (k, sd_touched s) else best))"

definition evictResolvedLocked :: "map_order \<Rightarrow> durable_tracker \<Rightarrow> string \<Rightarrow> bool \<times> durable_tracker" where
  "evictResolvedLocked ord t source =
     (case foldl (evict_pick t source) None (ord (dt_m t)) of
        None \<Rightarrow> (False, t)
      | Some (oldest, _) \<Rightarrow> (True, forgetLocked (note_metric (DurableSessionsEvicted source) t) oldest))"

definition reject :: "string \<Rightarrow> durable_tracker \<Rightarrow> durable_tracker" where
  "reject reason t = note_metric (DurableReceiptsRejected reason) t"

definition sweep :: "map_order \<Rightarrow> int \<Rightarrow> durable_tracker \<Rightarrow> durable_tracker" where
  "sweep ord now t = (pruneLocked ord now t)\<lparr>dt_nextPrune := now + minute\<rparr>"

definition receive_open :: "map_order \<Rightarrow> durable_tracker \<Rightarrow> durable_key \<Rightarrow> bool \<Rightarrow> durable_tracker + durable_tracker" where
  "receive_open ord t k persistable =
     (if int (card (dom (dt_m t))) \<ge> dt_maxSessions t then Inl (reject ''sessions'' t)
      else
       (case (if source_count t (dk_source k) \<ge> dt_maxPerSource t then evictResolvedLocked ord t (dk_source k) else (True, t)) of
          (False, t1) \<Rightarrow> Inl (reject ''observer_sessions'' t1)
        | (True, t1) \<Rightarrow>
            if persistable \<and> dt_outstanding t1 \<ge> dt_maxOutstanding t1 then Inl (reject ''outstanding'' t1)
            else Inr (t1\<lparr>dt_m := (dt_m t1)(k \<mapsto> new_session),
                        dt_perSource := (dt_perSource t1)(dk_source k \<mapsto> source_count t1 (dk_source k) + 1)\<rparr>)))"

definition receive_hold ::
  "map_order \<Rightarrow> int \<Rightarrow> durable_tracker \<Rightarrow> session_durable \<Rightarrow> u64 \<Rightarrow> durable_tracker + durable_tracker \<times> session_durable" where
  "receive_hold ord now t s seq =
     (if int (length (sd_pending s)) \<ge> dt_maxPerSession t then Inl (reject ''session_outstanding'' t)
      else
       (let t1 = (if dt_outstanding t \<ge> dt_maxOutstanding t \<and> \<not> now < dt_nextPrune t then sweep ord now t else t)
        in if dt_outstanding t1 \<ge> dt_maxOutstanding t1 then Inl (reject ''outstanding'' t1)
           else Inr (t1\<lparr>dt_outstanding := dt_outstanding t1 + 1\<rparr>, heap_Push s seq)))"

text \<open>The session is a pointer: what \<^verbatim>\<open>Received\<close> writes through it shows in the tracker only while the table still
  holds it, and the sweep between the lookup and the write may have deleted that entry.\<close>

definition store_session :: "durable_key \<Rightarrow> session_durable \<Rightarrow> durable_tracker \<Rightarrow> durable_tracker" where
  "store_session k s t = (if dt_m t k = None then t else t\<lparr>dt_m := (dt_m t)(k \<mapsto> s)\<rparr>)"

definition at_capacity :: "durable_tracker \<Rightarrow> string \<Rightarrow> bool \<Rightarrow> bool" where
  "at_capacity t source persistable \<longleftrightarrow> int (card (dom (dt_m t))) \<ge> dt_maxSessions t \<or> source_count t source \<ge> dt_maxPerSource t \<or>
     (persistable \<and> dt_outstanding t \<ge> dt_maxOutstanding t)"

definition Received :: "map_order \<Rightarrow> int \<Rightarrow> durable_tracker \<Rightarrow> string \<Rightarrow> string \<Rightarrow> u64 \<Rightarrow> bool \<Rightarrow> bool \<times> durable_tracker" where
  "Received ord now t source session seq persistable =
     (if seq = 0 then (True, t)
      else
       (let k = DurableKey source session; s = dt_m t k;
            t1 = (if s = None \<and> at_capacity t source persistable \<and> \<not> now < dt_nextPrune t then sweep ord now t else t)
        in case (case s of None \<Rightarrow> receive_open ord t1 k persistable | Some _ \<Rightarrow> Inr t1) of
             Inl t2 \<Rightarrow> (False, t2)
           | Inr t2 \<Rightarrow>
              (let s2 = (case s of None \<Rightarrow> new_session | Some s' \<Rightarrow> s')
               in case (if persistable \<and> sd_outstanding s2 seq = None then receive_hold ord now t2 s2 seq else Inr (t2, s2)) of
                    Inl t3 \<Rightarrow> (False, t3)
                  | Inr (t3, s3) \<Rightarrow>
                      (True, store_session k (s3\<lparr>sd_touched := now,
                                sd_highest := (if seq > sd_highest s3 then seq else sd_highest s3)\<rparr>) t3))))"

definition Resolved :: "int \<Rightarrow> durable_tracker \<Rightarrow> string \<Rightarrow> string \<Rightarrow> u64 \<Rightarrow> durable_tracker" where
  "Resolved now t source session seq =
     (let k = DurableKey source session
      in case dt_m t k of None \<Rightarrow> t
         | Some s0 \<Rightarrow>
            (let s = s0\<lparr>sd_touched := now\<rparr>
             in case sd_outstanding s seq of
                  Some ix \<Rightarrow> t\<lparr>dt_m := (dt_m t)(k \<mapsto> heap_Remove s ix), dt_outstanding := dt_outstanding t - 1\<rparr>
                | None \<Rightarrow> t\<lparr>dt_m := (dt_m t)(k \<mapsto> s)\<rparr>))"

definition Watermark :: "durable_tracker \<Rightarrow> string \<Rightarrow> string \<Rightarrow> u64" where
  "Watermark t source session =
     (case dt_m t (DurableKey source session) of None \<Rightarrow> 0
      | Some s \<Rightarrow> if card (dom (sd_outstanding s)) = 0 then sd_highest s else sd_pending s ! 0 - 1)"

section \<open>The invariant\<close>

definition map_range :: "map_order \<Rightarrow> bool" where
  "map_range ord \<longleftrightarrow> (\<forall>m. finite (dom m) \<longrightarrow> distinct (ord m) \<and> set (ord m) = dom m)"

definition session_ok :: "durable_tracker \<Rightarrow> session_durable \<Rightarrow> bool" where
  "session_ok t s \<longleftrightarrow> heap_ok s \<and> 0 \<notin> set (sd_pending s) \<and> (\<forall>q \<in> set (sd_pending s). q \<le> sd_highest s)
     \<and> int (length (sd_pending s)) \<le> dt_maxPerSession t"

text \<open>The holes the table holds, and how far the budget counter is above them.\<close>

definition held :: "durable_tracker \<Rightarrow> int" where
  "held t = (\<Sum>k \<in> dom (dt_m t). int (length (sd_pending (the (dt_m t k)))))"

definition leak :: "durable_tracker \<Rightarrow> int" where
  "leak t = dt_outstanding t - held t"

definition of_source :: "durable_tracker \<Rightarrow> string \<Rightarrow> durable_key set" where
  "of_source t source = {k \<in> dom (dt_m t). dk_source k = source}"

definition sources_ok :: "durable_tracker \<Rightarrow> bool" where
  "sources_ok t \<longleftrightarrow> (\<forall>source. dt_perSource t source =
     (if of_source t source = {} then None else Some (int (card (of_source t source)))))"

definition tracker_ok :: "durable_tracker \<Rightarrow> bool" where
  "tracker_ok t \<longleftrightarrow> finite (dom (dt_m t)) \<and> (\<forall>k s. dt_m t k = Some s \<longrightarrow> session_ok t s) \<and> sources_ok t
     \<and> 0 \<le> leak t \<and> dt_outstanding t \<le> dt_maxOutstanding t \<and> int (card (dom (dt_m t))) \<le> dt_maxSessions t
     \<and> (\<forall>source. int (card (of_source t source)) \<le> dt_maxPerSource t) \<and> 0 < dt_maxPerSession t"

definition same_limits :: "durable_tracker \<Rightarrow> durable_tracker \<Rightarrow> bool" where
  "same_limits t t' \<longleftrightarrow> dt_maxOutstanding t' = dt_maxOutstanding t \<and> dt_maxPerSession t' = dt_maxPerSession t
     \<and> dt_maxSessions t' = dt_maxSessions t \<and> dt_maxPerSource t' = dt_maxPerSource t"

lemma tracker_okD:
  assumes "tracker_ok t"
  shows "finite (dom (dt_m t))" "\<And>k s. dt_m t k = Some s \<Longrightarrow> session_ok t s" "sources_ok t" "0 \<le> leak t"
    "dt_outstanding t \<le> dt_maxOutstanding t" "int (card (dom (dt_m t))) \<le> dt_maxSessions t"
    "\<And>source. int (card (of_source t source)) \<le> dt_maxPerSource t" "0 < dt_maxPerSession t"
  using assms by (auto simp: tracker_ok_def)

lemma tracker_okI:
  assumes "finite (dom (dt_m t))" "\<And>k s. dt_m t k = Some s \<Longrightarrow> session_ok t s" "sources_ok t" "0 \<le> leak t"
    "dt_outstanding t \<le> dt_maxOutstanding t" "int (card (dom (dt_m t))) \<le> dt_maxSessions t"
    "\<And>source. int (card (of_source t source)) \<le> dt_maxPerSource t" "0 < dt_maxPerSession t"
  shows "tracker_ok t"
  using assms by (auto simp: tracker_ok_def)

lemma source_count_card: "sources_ok t \<Longrightarrow> finite (dom (dt_m t)) \<Longrightarrow> source_count t source = int (card (of_source t source))"
  by (simp add: sources_ok_def source_count_def)

lemma finite_of_source [simp]: "finite (dom (dt_m t)) \<Longrightarrow> finite (of_source t source)"
  by (simp add: of_source_def)

text \<open>Metrics and the sweep timer are no part of the invariant.\<close>

lemma tracker_ok_bookkeeping [simp]:
  "tracker_ok (t\<lparr>dt_metrics := x\<rparr>) = tracker_ok t" "tracker_ok (t\<lparr>dt_nextPrune := y\<rparr>) = tracker_ok t"
  "leak (t\<lparr>dt_metrics := x\<rparr>) = leak t" "leak (t\<lparr>dt_nextPrune := y\<rparr>) = leak t"
  by (simp_all add: tracker_ok_def session_ok_def sources_ok_def of_source_def leak_def held_def)

lemma note_metric_simps [simp]:
  "dt_m (note_metric e t) = dt_m t" "dt_outstanding (note_metric e t) = dt_outstanding t" "dt_perSource (note_metric e t) = dt_perSource t"
  "same_limits t' (note_metric e t) = same_limits t' t" "tracker_ok (note_metric e t) = tracker_ok t" "leak (note_metric e t) = leak t"
  "dt_maxOutstanding (note_metric e t) = dt_maxOutstanding t"
  by (simp_all add: note_metric_def same_limits_def)

subsection \<open>Forgetting a session\<close>

definition settle :: "durable_tracker \<Rightarrow> durable_key \<Rightarrow> durable_tracker" where
  "settle t k = forgetLocked (t\<lparr>dt_outstanding := dt_outstanding t - int (length (sd_pending (the (dt_m t k))))\<rparr>) k"

lemma of_source_delete: "dt_m t' = (dt_m t)(k := None) \<Longrightarrow> of_source t' source = of_source t source - {k}"
  by (auto simp: of_source_def)

lemma held_delete:
  assumes "finite (dom (dt_m t))" "dt_m t k = Some s" "dt_m t' = (dt_m t)(k := None)"
  shows "held t' = held t - int (length (sd_pending s))"
proof -
  have "held t' = (\<Sum>j \<in> dom (dt_m t) - {k}. int (length (sd_pending (the (dt_m t j)))))"
    unfolding held_def assms(3) by (intro sum.cong) auto
  moreover have "k \<in> dom (dt_m t)" using assms(2) by auto
  ultimately show ?thesis using assms(1,2) by (simp add: held_def sum.remove [of _ k])
qed

lemma settle_ok:
  assumes ok: "tracker_ok t" and k: "dt_m t k = Some s"
  shows "tracker_ok (settle t k)" "leak (settle t k) = leak t" "dt_m (settle t k) = (dt_m t)(k := None)" "same_limits t (settle t k)"
    "dt_outstanding (settle t k) = dt_outstanding t - int (length (sd_pending s))"
proof -
  note T = tracker_okD [OF ok]
  let ?t = "settle t k"
  show m: "dt_m ?t = (dt_m t)(k := None)" by (simp add: settle_def forgetLocked_def Let_def)
  show l: "same_limits t ?t" by (simp add: settle_def forgetLocked_def Let_def same_limits_def)
  show out: "dt_outstanding ?t = dt_outstanding t - int (length (sd_pending s))" using k by (simp add: settle_def forgetLocked_def Let_def)
  show leak: "leak ?t = leak t" using held_delete [OF T(1) k m] out by (simp add: leak_def)
  have kin: "k \<in> of_source t (dk_source k)" using k by (auto simp: of_source_def)
  have c: "card (of_source t (dk_source k) - {k}) = card (of_source t (dk_source k)) - 1" "0 < card (of_source t (dk_source k))"
    using kin T(1) by (auto simp: card_gt_0_iff)
  have "sources_ok ?t"
    unfolding sources_ok_def
  proof
    fix source
    have d: "of_source ?t source = of_source t source - {k}" by (rule of_source_delete [OF m])
    show "dt_perSource ?t source = (if of_source ?t source = {} then None else Some (int (card (of_source ?t source))))"
    proof (cases "source = dk_source k")
      case True
      have "of_source t source - {k} = {} \<longleftrightarrow> card (of_source t source) - 1 = 0" using c True T(1) by (metis card_eq_0_iff finite_Diff finite_of_source)
      then show ?thesis using True c T(1,3) source_count_card [OF T(3,1)] unfolding d
        by (simp add: settle_def forgetLocked_def Let_def source_count_def of_nat_diff)
    next
      case False
      then have "k \<notin> of_source t source" by (simp add: of_source_def)
      then show ?thesis using False T(3) unfolding d by (simp add: settle_def forgetLocked_def Let_def sources_ok_def)
    qed
  qed
  have dom: "dom (dt_m ?t) \<subseteq> dom (dt_m t)" using m by auto
  have lim: "dt_maxOutstanding ?t = dt_maxOutstanding t" "dt_maxPerSession ?t = dt_maxPerSession t"
    "dt_maxSessions ?t = dt_maxSessions t" "dt_maxPerSource ?t = dt_maxPerSource t" using l by (auto simp: same_limits_def)
  show "tracker_ok ?t"
  proof (rule tracker_okI)
    show "finite (dom (dt_m ?t))" using finite_subset [OF dom T(1)] .
    show "session_ok ?t s'" if "dt_m ?t j = Some s'" for j s'
      using T(2) [of j s'] that m lim by (simp add: session_ok_def split: if_splits)
    show "dt_outstanding ?t \<le> dt_maxOutstanding ?t" using T(5) out lim by simp
    show "int (card (dom (dt_m ?t))) \<le> dt_maxSessions ?t" using card_mono [OF T(1) dom] T(6) lim by simp
    show "int (card (of_source ?t source)) \<le> dt_maxPerSource ?t" for source
      using card_mono [of "of_source t source" "of_source t source - {k}"] T(1) T(7) [of source] lim
      unfolding of_source_delete [OF m] by auto
  qed (use \<open>sources_ok ?t\<close> T leak lim in simp_all)
qed

subsection \<open>The sweep\<close>

definition stale :: "int \<Rightarrow> session_durable \<Rightarrow> bool" where
  "stale now s \<longleftrightarrow> time_Sub now (sd_touched s) > (if sd_pending s = [] then durableResolvedIdle else durableHoleAbandonAfter)"

definition fresh_part :: "int \<Rightarrow> durable_key set \<Rightarrow> (durable_key \<rightharpoonup> session_durable) \<Rightarrow> durable_key \<rightharpoonup> session_durable" where
  "fresh_part now A m = (\<lambda>k. case m k of None \<Rightarrow> None | Some s \<Rightarrow> if k \<in> A \<and> stale now s then None else Some s)"

lemma prune_key_cases:
  obtains (keep) "prune_key now t k = t" "\<And>s. dt_m t k = Some s \<Longrightarrow> \<not> stale now s"
  | (drop) s ms where "dt_m t k = Some s" "stale now s" "prune_key now t k = (settle t k)\<lparr>dt_metrics := ms\<rparr>"
proof (cases "dt_m t k")
  case None
  then show ?thesis using keep by (simp add: prune_key_def)
next
  case (Some s)
  show ?thesis
  proof (cases "stale now s")
    case True
    have "prune_key now t k = (settle t k)\<lparr>dt_metrics :=
        (if sd_pending s = [] then dt_metrics t else dt_metrics t @ [DurableHolesAbandoned (dk_source k) (length (sd_pending s))])\<rparr>"
      using Some True by (cases "sd_pending s = []") (simp_all add: prune_key_def settle_def forgetLocked_def Let_def stale_def note_metric_def source_count_def)
    then show ?thesis by (rule drop [OF Some True])
  next
    case False
    then show ?thesis using Some keep by (cases "sd_pending s = []") (simp_all add: prune_key_def stale_def)
  qed
qed

definition swept_from :: "int \<Rightarrow> durable_key set \<Rightarrow> durable_tracker \<Rightarrow> durable_tracker \<Rightarrow> bool" where
  "swept_from now A t t' \<longleftrightarrow> tracker_ok t' \<and> leak t' = leak t \<and> same_limits t t' \<and> dt_m t' = fresh_part now A (dt_m t)
     \<and> dt_outstanding t' \<le> dt_outstanding t"

lemma prune_key_swept: "tracker_ok t \<Longrightarrow> swept_from now {k} t (prune_key now t k)"
proof (cases rule: prune_key_cases [of now t k])
  case keep
  assume "tracker_ok t"
  then show ?thesis using keep
    by (auto simp: swept_from_def same_limits_def fresh_part_def fun_eq_iff split: option.split)
next
  case (drop s ms)
  assume ok: "tracker_ok t"
  note S = settle_ok [OF ok drop(1)]
  have "fresh_part now {k} (dt_m t) = (dt_m t)(k := None)" using drop by (auto simp: fresh_part_def fun_eq_iff split: option.split)
  then show ?thesis using S drop(3) by (simp add: swept_from_def same_limits_def)
qed

lemma swept_trans: "swept_from now A t t' \<Longrightarrow> swept_from now B t' t'' \<Longrightarrow> swept_from now (A \<union> B) t t''"
  by (auto simp: swept_from_def same_limits_def fresh_part_def fun_eq_iff split: option.split if_splits)

lemma prune_fold: "tracker_ok t \<Longrightarrow> swept_from now (set ks) t (foldl (prune_key now) t ks)"
proof (induction ks arbitrary: t)
  case Nil
  then show ?case by (auto simp: swept_from_def same_limits_def fresh_part_def fun_eq_iff split: option.split)
next
  case (Cons k ks)
  have 1: "swept_from now {k} t (prune_key now t k)" by (rule prune_key_swept [OF Cons(2)])
  then have "swept_from now (set ks) (prune_key now t k) (foldl (prune_key now) (prune_key now t k) ks)"
    by (intro Cons) (simp add: swept_from_def)
  from swept_trans [OF 1 this] show ?case by simp
qed

abbreviation swept :: "int \<Rightarrow> durable_tracker \<Rightarrow> durable_tracker \<Rightarrow> bool" where
  "swept now \<equiv> swept_from now UNIV"

lemma fresh_part_dom: "dom m \<subseteq> A \<Longrightarrow> fresh_part now A m = fresh_part now UNIV m"
  by (auto simp: fresh_part_def fun_eq_iff split: option.split)

lemma prune_swept: "map_range ord \<Longrightarrow> tracker_ok t \<Longrightarrow> swept now t (pruneLocked ord now t)"
proof -
  assume "map_range ord" "tracker_ok t"
  moreover from this have "set (ord (dt_m t)) = dom (dt_m t)" using tracker_okD(1) by (simp add: map_range_def)
  ultimately show ?thesis using prune_fold [of t now "ord (dt_m t)"] fresh_part_dom [of "dt_m t" "dom (dt_m t)"]
    by (simp add: pruneLocked_def swept_from_def)
qed

lemma sweep_swept: "map_range ord \<Longrightarrow> tracker_ok t \<Longrightarrow> swept now t (sweep ord now t)"
  using prune_swept [of ord t now] by (simp add: swept_from_def sweep_def same_limits_def)

subsection \<open>Eviction\<close>

lemma evict_pick_Some:
  "foldl (evict_pick t source) best ks = Some (k, x) \<Longrightarrow>
   best = Some (k, x) \<or> k \<in> set ks \<and> dk_source k = source \<and> (\<exists>s. dt_m t k = Some s \<and> sd_pending s = [] \<and> x = sd_touched s)"
proof (induction ks arbitrary: best)
  case (Cons j ks)
  then have "evict_pick t source best j = Some (k, x) \<or>
      k \<in> set ks \<and> dk_source k = source \<and> (\<exists>s. dt_m t k = Some s \<and> sd_pending s = [] \<and> x = sd_touched s)" by simp
  then show ?case by (auto simp: evict_pick_def split: option.splits if_splits)
qed simp

lemma evict_pick_None:
  "foldl (evict_pick t source) best ks = None \<Longrightarrow>
   best = None \<and> (\<forall>k \<in> set ks. \<forall>s. dt_m t k = Some s \<and> dk_source k = source \<longrightarrow> sd_pending s \<noteq> [])"
proof (induction ks arbitrary: best)
  case (Cons j ks)
  then have "evict_pick t source best j = None" "\<forall>k \<in> set ks. \<forall>s. dt_m t k = Some s \<and> dk_source k = source \<longrightarrow> sd_pending s \<noteq> []"
    by auto
  then show ?case by (auto simp: evict_pick_def split: option.splits if_splits)
qed simp

lemma evict_cases:
  assumes "map_range ord" "tracker_ok t"
  obtains (full) "evictResolvedLocked ord t source = (False, t)"
      "\<And>k s. dt_m t k = Some s \<Longrightarrow> dk_source k = source \<Longrightarrow> sd_pending s \<noteq> []"
  | (evicted) k s ms where "evictResolvedLocked ord t source = (True, (settle t k)\<lparr>dt_metrics := ms\<rparr>)"
      "dt_m t k = Some s" "sd_pending s = []" "dk_source k = source"
proof (cases "foldl (evict_pick t source) None (ord (dt_m t))")
  case None
  have "set (ord (dt_m t)) = dom (dt_m t)" using assms tracker_okD(1) by (simp add: map_range_def)
  then show ?thesis using full evict_pick_None [OF None] None by (fastforce simp: evictResolvedLocked_def)
next
  case (Some kx)
  obtain k x where kx: "kx = (k, x)" by fastforce
  then obtain s where s: "dt_m t k = Some s" "sd_pending s = []" "dk_source k = source"
    using evict_pick_Some [of t source None "ord (dt_m t)" k x] Some by auto
  have "evictResolvedLocked ord t source = (True, (settle t k)\<lparr>dt_metrics := dt_metrics t @ [DurableSessionsEvicted source]\<rparr>)"
    using Some kx s by (simp add: evictResolvedLocked_def settle_def forgetLocked_def Let_def note_metric_def source_count_def)
  then show ?thesis using evicted s by blast
qed

subsection \<open>What an operation may forget\<close>

text \<open>Sessions disappear only when they hold nothing or when a sweep abandoned them for their silence; every other
  session is untouched.\<close>

definition forgets :: "int \<Rightarrow> durable_tracker \<Rightarrow> durable_tracker \<Rightarrow> bool" where
  "forgets now t t' \<longleftrightarrow> tracker_ok t' \<and> leak t' = leak t \<and> same_limits t t' \<and>
     (\<forall>k. dt_m t' k = dt_m t k \<or> dt_m t' k = None \<and> (\<exists>s. dt_m t k = Some s \<and> (sd_pending s = [] \<or> stale now s)))"

lemma forgets_refl [simp]: "tracker_ok t \<Longrightarrow> forgets now t t"
  by (simp add: forgets_def same_limits_def)

lemma forgets_trans: "forgets now t t' \<Longrightarrow> forgets now t' t'' \<Longrightarrow> forgets now t t''"
  by (simp add: forgets_def same_limits_def) metis

lemma forgets_note [simp]: "forgets now t (note_metric e t') = forgets now t t'" "forgets now t (reject r t') = forgets now t t'"
  by (simp_all add: forgets_def reject_def)

lemma forgets_sweep: "map_range ord \<Longrightarrow> tracker_ok t \<Longrightarrow> forgets now t (sweep ord now t)"
  using sweep_swept [of ord t now] by (auto simp: swept_from_def forgets_def fresh_part_def split: option.split)

lemma forgets_evict:
  assumes "map_range ord" "tracker_ok t"
  shows "forgets now t (snd (evictResolvedLocked ord t source))"
  using assms
proof (cases rule: evict_cases [where source = source])
  case (evicted k s ms)
  then show ?thesis using settle_ok [OF assms(2) evicted(2)] by (auto simp: forgets_def same_limits_def)
qed (simp add: assms)

lemma evict_makes_room:
  assumes "map_range ord" "tracker_ok t" "evictResolvedLocked ord t source = (True, t')"
  shows "int (card (of_source t' source)) < dt_maxPerSource t \<and> card (dom (dt_m t')) \<le> card (dom (dt_m t))"
  using assms(1,2)
proof (cases rule: evict_cases [where source = source])
  case (evicted k s ms)
  note S = settle_ok [OF assms(2) evicted(2)]
  have t': "dt_m t' = (dt_m t)(k := None)" using assms(3) evicted(1) S(3) by auto
  have "k \<in> of_source t source" using evicted by (auto simp: of_source_def)
  then have "card (of_source t' source) < card (of_source t source)"
    unfolding of_source_delete [OF t'] using tracker_okD(1) [OF assms(2)] by (intro psubset_card_mono) auto
  then have "int (card (of_source t' source)) < dt_maxPerSource t" using tracker_okD(7) [OF assms(2), of source] by simp
  moreover have "card (dom (dt_m t')) \<le> card (dom (dt_m t))" using tracker_okD(1) [OF assms(2)] t' by (intro card_mono) auto
  ultimately show ?thesis by blast
qed (use assms(3) in auto)

subsection \<open>Adding and updating a session\<close>

definition add_session :: "durable_tracker \<Rightarrow> durable_key \<Rightarrow> durable_tracker" where
  "add_session t k = t\<lparr>dt_m := (dt_m t)(k \<mapsto> new_session),
     dt_perSource := (dt_perSource t)(dk_source k \<mapsto> source_count t (dk_source k) + 1)\<rparr>"

lemma session_ok_cong: "same_limits t t' \<Longrightarrow> session_ok t' s = session_ok t s"
  by (simp add: session_ok_def same_limits_def)

lemma new_session_ok: "0 < dt_maxPerSession t \<Longrightarrow> session_ok t new_session"
  by (simp add: session_ok_def new_session_def heap_ok_def indexed_def heap_n_def)

lemma held_update:
  assumes "finite (dom (dt_m t))" "dt_m t' = (dt_m t)(k \<mapsto> s)"
  shows "held t' = held t + int (length (sd_pending s)) - (case dt_m t k of None \<Rightarrow> 0 | Some s0 \<Rightarrow> int (length (sd_pending s0)))"
proof -
  let ?f = "\<lambda>m j. int (length (sd_pending (the (m j))))"
  have "held t' = ?f (dt_m t') k + (\<Sum>j \<in> dom (dt_m t) - {k}. ?f (dt_m t') j)"
    unfolding held_def assms(2) dom_fun_upd using assms(1) by (simp add: sum.insert_remove)
  also have "(\<Sum>j \<in> dom (dt_m t) - {k}. ?f (dt_m t') j) = (\<Sum>j \<in> dom (dt_m t) - {k}. ?f (dt_m t) j)"
    by (intro sum.cong) (auto simp: assms(2))
  also have "\<dots> = held t - (case dt_m t k of None \<Rightarrow> 0 | Some s0 \<Rightarrow> int (length (sd_pending s0)))"
    unfolding held_def using assms(1) by (cases "dt_m t k") (auto simp: sum_diff1 domIff split: option.splits)
  finally show ?thesis by (simp add: assms(2))
qed

lemma add_session_ok:
  assumes ok: "tracker_ok t" and k: "dt_m t k = None" and room: "int (card (dom (dt_m t))) < dt_maxSessions t"
    "int (card (of_source t (dk_source k))) < dt_maxPerSource t"
  shows "tracker_ok (add_session t k)" "leak (add_session t k) = leak t"
proof -
  let ?t = "add_session t k"
  note T = tracker_okD [OF ok]
  have m: "dt_m ?t = (dt_m t)(k \<mapsto> new_session)" and lim: "same_limits t ?t" and out: "dt_outstanding ?t = dt_outstanding t"
    by (simp_all add: add_session_def same_limits_def)
  have src: "of_source ?t source = (if source = dk_source k then insert k (of_source t source) else of_source t source)" for source
    using m by (auto simp: of_source_def)
  have nk: "k \<notin> of_source t source" "k \<notin> dom (dt_m t)" for source using k by (auto simp: of_source_def)
  show leak: "leak ?t = leak t" using held_update [OF T(1) m] k out by (simp add: leak_def new_session_def)
  have "sources_ok ?t" unfolding sources_ok_def src using T(1,3) nk source_count_card [OF T(3,1)]
    by (simp add: add_session_def sources_ok_def)
  moreover have "int (card (dom (dt_m ?t))) \<le> dt_maxSessions t" using nk(2) T(1) room(1) by (simp add: m)
  moreover have "int (card (of_source ?t source)) \<le> dt_maxPerSource t" for source
    unfolding src using T(1,7) room(2) nk(1) by simp
  moreover have "session_ok ?t s" if "dt_m ?t j = Some s" for j s
    using that T(2) [of j s] new_session_ok [OF T(8)] session_ok_cong [OF lim] by (auto simp: m split: if_splits)
  ultimately show "tracker_ok ?t" using T leak out lim m by (intro tracker_okI) (auto simp: same_limits_def)
qed

lemma put_session_ok:
  assumes ok: "tracker_ok t" and k: "dt_m t k = Some s0" and s: "session_ok t s" and m: "dt_m t' = (dt_m t)(k \<mapsto> s)"
    and src: "dt_perSource t' = dt_perSource t" and lim: "same_limits t t'"
    and out: "dt_outstanding t' = dt_outstanding t + int (length (sd_pending s)) - int (length (sd_pending s0))"
    and budget: "dt_outstanding t' \<le> dt_maxOutstanding t"
  shows "tracker_ok t'" "leak t' = leak t"
proof -
  note T = tracker_okD [OF ok]
  have dom: "dom (dt_m t') = dom (dt_m t)" using k m by auto
  then have os: "of_source t' = of_source t" by (simp add: of_source_def fun_eq_iff)
  show leak: "leak t' = leak t" using held_update [OF T(1) m] k out by (simp add: leak_def)
  have "session_ok t' s'" if "dt_m t' j = Some s'" for j s'
    using that T(2) [of j s'] s session_ok_cong [OF lim] by (auto simp: m split: if_splits)
  then show "tracker_ok t'"
    using T leak budget lim src dom os by (intro tracker_okI) (auto simp: same_limits_def sources_ok_def)
qed

subsection \<open>The two stages of a receipt\<close>

lemma receive_open_cases:
  assumes r: "map_range ord" and ok: "tracker_ok t" and k: "dt_m t k = None"
  obtains (refused) t' where "receive_open ord t k persistable = Inl t'" "forgets now t t'"
  | (opened) t1 where "receive_open ord t k persistable = Inr (add_session t1 k)" "forgets now t t1" "dt_m t1 k = None"
      "tracker_ok (add_session t1 k)" "leak (add_session t1 k) = leak t"
      "persistable \<Longrightarrow> dt_outstanding t1 < dt_maxOutstanding t1"
proof (cases "int (card (dom (dt_m t))) \<ge> dt_maxSessions t")
  case True
  then show ?thesis using refused ok by (simp add: receive_open_def)
next
  case False
  obtain b t1 where e: "(if source_count t (dk_source k) \<ge> dt_maxPerSource t then evictResolvedLocked ord t (dk_source k) else (True, t)) = (b, t1)"
    by fastforce
  note T = tracker_okD [OF ok]
  have f: "forgets now t t1" using e forgets_evict [OF r ok, of now "dk_source k"] ok by (auto split: if_splits)
  show ?thesis
  proof (cases "\<not> b \<or> persistable \<and> dt_outstanding t1 \<ge> dt_maxOutstanding t1")
    case True
    then show ?thesis using False e f refused by (cases b) (auto simp: receive_open_def)
  next
    case no: False
    have room: "int (card (of_source t1 (dk_source k))) < dt_maxPerSource t \<and> card (dom (dt_m t1)) \<le> card (dom (dt_m t))"
      using no e evict_makes_room [OF r ok] source_count_card [OF T(3,1)] by (auto split: if_splits)
    have m1: "dt_m t1 k = None" using f k unfolding forgets_def by metis
    have l: "same_limits t t1" "tracker_ok t1" "leak t1 = leak t" using f by (auto simp: forgets_def)
    have "tracker_ok (add_session t1 k)" "leak (add_session t1 k) = leak t"
      using add_session_ok [OF l(2) m1] room False l by (auto simp: same_limits_def)
    moreover have "receive_open ord t k persistable = Inr (add_session t1 k)"
      using False e no by (auto simp: receive_open_def add_session_def)
    ultimately show ?thesis using opened f m1 no by auto
  qed
qed

lemma receive_hold_cases:
  assumes r: "map_range ord" and ok: "tracker_ok t"
  obtains (refused) t' where "receive_hold ord now t s seq = Inl t'" "forgets now t t'"
      "int (length (sd_pending s)) \<ge> dt_maxPerSession t \<or> dt_outstanding t \<ge> dt_maxOutstanding t"
  | (held) t1 where "receive_hold ord now t s seq = Inr (t1\<lparr>dt_outstanding := dt_outstanding t1 + 1\<rparr>, heap_Push s seq)"
      "forgets now t t1" "dt_outstanding t1 < dt_maxOutstanding t1" "int (length (sd_pending s)) < dt_maxPerSession t"
      "dt_m t1 = dt_m t \<or> dt_outstanding t \<ge> dt_maxOutstanding t \<and> dt_m t1 = fresh_part now UNIV (dt_m t)"
proof (cases "int (length (sd_pending s)) \<ge> dt_maxPerSession t")
  case True
  then show ?thesis using refused ok by (simp add: receive_hold_def)
next
  case False
  define t1 where "t1 = (if dt_outstanding t \<ge> dt_maxOutstanding t \<and> \<not> now < dt_nextPrune t then sweep ord now t else t)"
  have f: "forgets now t t1" using forgets_sweep [OF r ok] ok by (simp add: t1_def)
  have m: "dt_m t1 = dt_m t \<or> dt_outstanding t \<ge> dt_maxOutstanding t \<and> dt_m t1 = fresh_part now UNIV (dt_m t)"
    using sweep_swept [OF r ok, of now] by (auto simp: t1_def swept_from_def)
  have h: "receive_hold ord now t s seq = (if dt_outstanding t1 \<ge> dt_maxOutstanding t1 then Inl (reject ''outstanding'' t1)
      else Inr (t1\<lparr>dt_outstanding := dt_outstanding t1 + 1\<rparr>, heap_Push s seq))"
    using False by (simp add: receive_hold_def t1_def Let_def)
  have "dt_outstanding t \<ge> dt_maxOutstanding t" if "dt_outstanding t1 \<ge> dt_maxOutstanding t1"
    using that by (auto simp: t1_def split: if_splits)
  then show ?thesis using refused held f m h False by (cases "dt_outstanding t1 \<ge> dt_maxOutstanding t1") auto
qed

subsection \<open>Receipts\<close>

definition touch :: "int \<Rightarrow> u64 \<Rightarrow> session_durable \<Rightarrow> session_durable" where
  "touch now seq s = s\<lparr>sd_touched := now, sd_highest := (if seq > sd_highest s then seq else sd_highest s)\<rparr>"

definition base_session :: "durable_tracker \<Rightarrow> durable_key \<Rightarrow> session_durable" where
  "base_session t k = (case dt_m t k of None \<Rightarrow> new_session | Some s \<Rightarrow> s)"

definition next_session :: "int \<Rightarrow> durable_tracker \<Rightarrow> durable_key \<Rightarrow> u64 \<Rightarrow> bool \<Rightarrow> session_durable" where
  "next_session now t k seq persistable =
     touch now seq (if persistable then heap_hold seq (base_session t k) else base_session t k)"

lemma touch_simps [simp]: "sd_pending (touch now seq s) = sd_pending s" "sd_outstanding (touch now seq s) = sd_outstanding s"
  "sd_highest (touch now seq s) = max (sd_highest s) seq" "sd_touched (touch now seq s) = now"
  by (auto simp: touch_def max_def)

lemma heap_ok_touch [simp]: "heap_ok (touch now seq s) = heap_ok s"
  by (simp add: heap_ok_def indexed_def)

lemma session_ok_touch: "session_ok t s \<Longrightarrow> session_ok t (touch now seq s)"
  by (auto simp: session_ok_def le_max_iff_disj)

lemma session_ok_push:
  assumes "session_ok t s" "seq \<noteq> 0" "sd_outstanding s seq = None" "int (length (sd_pending s)) < dt_maxPerSession t"
  shows "session_ok t (touch now seq (heap_Push s seq))"
proof -
  have h: "heap_ok s" and "seq \<notin> set (sd_pending s)" using assms outstanding_None by (auto simp: session_ok_def)
  then have "heap_ok (heap_Push s seq)" by (rule heap_ok_Push)
  then show ?thesis using assms by (auto simp: session_ok_def heap_Push_content le_max_iff_disj)
qed

lemma receive_kept:
  fixes now
  assumes ok: "tracker_ok t" and k: "dt_m t k = Some s" and "seq \<noteq> 0"
  defines "t' \<equiv> store_session k (touch now seq s) t"
  shows "tracker_ok t'" "leak t' = leak t" "dt_m t' = (dt_m t)(k \<mapsto> touch now seq s)"
proof -
  show m: "dt_m t' = (dt_m t)(k \<mapsto> touch now seq s)" using k by (simp add: t'_def store_session_def)
  have "session_ok t (touch now seq s)" using tracker_okD(2) [OF ok k] by (rule session_ok_touch)
  note P = put_session_ok [OF ok k this m]
  show "tracker_ok t'" "leak t' = leak t" by (rule P; use k tracker_okD(5) [OF ok] in \<open>simp add: t'_def store_session_def same_limits_def\<close>)+
qed

lemma receive_pushed:
  fixes now
  assumes ok: "tracker_ok t" and k: "dt_m t k = Some s" and seq: "seq \<noteq> 0" "sd_outstanding s seq = None"
    and room: "int (length (sd_pending s)) < dt_maxPerSession t" "dt_outstanding t < dt_maxOutstanding t"
  defines "t' \<equiv> store_session k (touch now seq (heap_Push s seq)) (t\<lparr>dt_outstanding := dt_outstanding t + 1\<rparr>)"
  shows "tracker_ok t'" "leak t' = leak t" "dt_m t' = (dt_m t)(k \<mapsto> touch now seq (heap_Push s seq))"
proof -
  show m: "dt_m t' = (dt_m t)(k \<mapsto> touch now seq (heap_Push s seq))" using k by (simp add: t'_def store_session_def)
  have "session_ok t (touch now seq (heap_Push s seq))" using tracker_okD(2) [OF ok k] seq room(1) by (rule session_ok_push)
  note P = put_session_ok [OF ok k this m]
  show "tracker_ok t'" "leak t' = leak t"
    by (rule P; use k room in \<open>simp add: t'_def store_session_def same_limits_def heap_Push_content\<close>)+
qed

lemma orphan_ok:
  assumes "tracker_ok t" "dt_outstanding t < dt_maxOutstanding t"
  shows "tracker_ok (t\<lparr>dt_outstanding := dt_outstanding t + 1\<rparr>)" "leak (t\<lparr>dt_outstanding := dt_outstanding t + 1\<rparr>) = leak t + 1"
  using assms by (auto simp: tracker_ok_def leak_def held_def of_source_def sources_ok_def session_ok_def)

lemma Received_cases:
  fixes source session
  assumes r: "map_range ord" and ok: "tracker_ok t" and seq: "seq \<noteq> 0"
  defines "k \<equiv> DurableKey source session"
  obtains (refused) t' where "Received ord now t source session seq persistable = (False, t')" "forgets now t t'"
  | (tracked) t' t1 where "Received ord now t source session seq persistable = (True, t')" "forgets now t t1" "dt_m t1 k = dt_m t k"
      "dt_m t' = (dt_m t1)(k \<mapsto> next_session now t k seq persistable)" "tracker_ok t'" "leak t' = leak t"
  | (orphaned) t1 s where "Received ord now t source session seq persistable = (True, t1\<lparr>dt_outstanding := dt_outstanding t1 + 1\<rparr>)"
      "forgets now t t1" "dt_m t k = Some s" "stale now s" "dt_m t1 k = None" "dt_outstanding t1 < dt_maxOutstanding t1" "persistable"
proof (cases "dt_m t k")
  case (Some s)
  have S: "session_ok t s" by (rule tracker_okD(2) [OF ok Some])
  then have h: "heap_ok s" by (simp add: session_ok_def)
  show ?thesis
  proof (cases "persistable \<and> sd_outstanding s seq = None")
    case False
    have "next_session now t k seq persistable = touch now seq s" using False Some by (auto simp: next_session_def base_session_def heap_hold_def)
    moreover have "Received ord now t source session seq persistable = (True, store_session k (touch now seq s) t)"
      using Some seq False by (auto simp: Received_def k_def Let_def touch_def)
    ultimately show ?thesis using tracked receive_kept [OF ok Some seq] ok by (metis forgets_refl)
  next
    case True
    have N: "next_session now t k seq persistable = touch now seq (heap_Push s seq)" using True Some by (simp add: next_session_def base_session_def heap_hold_def)
    have R: "Received ord now t source session seq persistable = (case receive_hold ord now t s seq of Inl t3 \<Rightarrow> (False, t3)
        | Inr (t3, s3) \<Rightarrow> (True, store_session k (touch now seq s3) t3))"
      using Some seq True by (simp add: Received_def k_def Let_def touch_def split: sum.split prod.split)
    from r ok show ?thesis
    proof (cases rule: receive_hold_cases [where now = now and s = s and seq = seq])
      case (refused t')
      then show ?thesis using R that(1) by simp
    next
      case (held t1)
      have t1: "tracker_ok t1" "same_limits t t1" "leak t1 = leak t" using held(2) by (auto simp: forgets_def)
      show ?thesis
      proof (cases "dt_m t1 k")
        case None
        then have "stale now s" using held(5) Some by (auto simp: fresh_part_def split: if_splits)
        then show ?thesis using orphaned held None Some True R by (simp add: store_session_def)
      next
        case (Some s')
        then have e: "s' = s" using held(2) \<open>dt_m t k = Some s\<close> unfolding forgets_def by (metis option.distinct(1) option.inject)
        have "int (length (sd_pending s)) < dt_maxPerSession t1" using held(4) t1(2) by (simp add: same_limits_def)
        note P = receive_pushed [OF t1(1) Some [unfolded e] seq _ this held(3)]
        show ?thesis
        proof (rule tracked [of _ t1])
          show "Received ord now t source session seq persistable =
              (True, store_session k (touch now seq (heap_Push s seq)) (t1\<lparr>dt_outstanding := dt_outstanding t1 + 1\<rparr>))" using R held(1) by simp
          show "dt_m t1 k = dt_m t k" using Some e \<open>dt_m t k = Some s\<close> by simp
        qed (use P True N held(2) t1(3) in auto)
      qed
    qed
  qed
next
  case None
  define t0 where "t0 = (if at_capacity t source persistable \<and> \<not> now < dt_nextPrune t then sweep ord now t else t)"
  have f0: "forgets now t t0" using forgets_sweep [OF r ok] ok by (simp add: t0_def)
  then have ok0: "tracker_ok t0" and n0: "dt_m t0 k = None" using None by (simp_all add: forgets_def) metis
  have R: "Received ord now t source session seq persistable = (case receive_open ord t0 k persistable of Inl t2 \<Rightarrow> (False, t2)
      | Inr t2 \<Rightarrow> (case (if persistable then receive_hold ord now t2 new_session seq else Inr (t2, new_session)) of Inl t3 \<Rightarrow> (False, t3)
        | Inr (t3, s3) \<Rightarrow> (True, store_session k (touch now seq s3) t3)))"
    using None seq by (simp add: Received_def k_def [symmetric] Let_def touch_def t0_def new_session_def split: sum.split)
  from r ok0 n0 show ?thesis
  proof (cases rule: receive_open_cases [where now = now and persistable = persistable])
    case (refused t')
    then show ?thesis using that(1) R f0 by (auto intro: forgets_trans)
  next
    case (opened t1)
    let ?a = "add_session t1 k"
    have a: "dt_m ?a k = Some new_session" "dt_m ?a = (dt_m t1)(k \<mapsto> new_session)" "dt_outstanding ?a = dt_outstanding t1"
      "dt_maxOutstanding ?a = dt_maxOutstanding t1" by (simp_all add: add_session_def)
    have f1: "forgets now t t1" "dt_m t1 k = dt_m t k" using forgets_trans [OF f0 opened(2)] opened(3) None by auto
    have l: "leak ?a = leak t" using opened(5) f0 by (simp add: forgets_def)
    show ?thesis
    proof (cases persistable)
      case False
      note P = receive_kept [OF opened(4) a(1) seq]
      show ?thesis
        by (rule tracked [of "store_session k (touch now seq new_session) ?a" t1])
          (use R opened(1) False f1 P l a None in \<open>auto simp: next_session_def base_session_def\<close>)
    next
      case True
      have room: "0 < dt_maxPerSession ?a" using tracker_okD(8) [OF opened(4)] .
      then have "receive_hold ord now ?a new_session seq = Inr (?a\<lparr>dt_outstanding := dt_outstanding ?a + 1\<rparr>, heap_Push new_session seq)"
        using opened(6) True a by (simp add: receive_hold_def new_session_def)
      moreover note P = receive_pushed [OF opened(4) a(1) seq, where now = now]
      ultimately show ?thesis
        by (intro tracked [of "store_session k (touch now seq (heap_Push new_session seq)) (?a\<lparr>dt_outstanding := dt_outstanding ?a + 1\<rparr>)" t1])
          (use R opened True f1 P l a None room in \<open>auto simp: next_session_def base_session_def heap_hold_def new_session_def\<close>)
    qed
  qed
qed

subsection \<open>Resolutions and the watermark\<close>

lemma session_ok_time [simp]: "session_ok t (s\<lparr>sd_touched := now\<rparr>) = session_ok t s" "heap_ok (s\<lparr>sd_touched := now\<rparr>) = heap_ok s"
  by (simp_all add: session_ok_def heap_ok_def indexed_def)

lemma heap_release_length:
  "heap_ok s \<Longrightarrow> int (length (sd_pending (heap_release q s))) = int (length (sd_pending s)) - (if sd_outstanding s q = None then 0 else 1)"
proof (cases "sd_outstanding s q")
  case (Some i)
  assume h: "heap_ok s"
  have "i < length (sd_pending s)" using outstanding_Some [OF h Some] by simp
  then show ?thesis using heap_Remove_ok(3) [OF h] Some by (simp add: heap_release_def of_nat_diff)
qed (simp add: heap_release_def)

lemma heap_release_rest: "heap_ok s \<Longrightarrow> sd_highest (heap_release q s) = sd_highest s \<and> sd_touched (heap_release q s) = sd_touched s"
  using outstanding_Some [of s q] heap_Remove_ok(4,5) [of s] by (auto simp: heap_release_def split: option.split)

lemma Resolved_session:
  fixes now seq
  assumes ok: "tracker_ok t" and k: "dt_m t (DurableKey source session) = Some s"
  defines "t' \<equiv> Resolved now t source session seq" and "s' \<equiv> heap_release seq (s\<lparr>sd_touched := now\<rparr>)"
  shows "tracker_ok t'" "leak t' = leak t" "dt_m t' = (dt_m t)(DurableKey source session \<mapsto> s')" "same_limits t t'"
proof -
  note T = tracker_okD [OF ok]
  let ?s = "s\<lparr>sd_touched := now\<rparr>"
  have S: "session_ok t ?s" using T(2) [OF k] by simp
  then have h: "heap_ok ?s" by (simp add: session_ok_def)
  show m: "dt_m t' = (dt_m t)(DurableKey source session \<mapsto> s')"
    using k by (simp add: t'_def s'_def Resolved_def Let_def heap_release_def split: option.split)
  show l: "same_limits t t'" using k by (simp add: t'_def Resolved_def Let_def same_limits_def split: option.split)
  have "session_ok t s'"
    using S pq.release_inv [OF h, of seq] pq.release_content [OF h, of seq] heap_release_length [OF h, of seq] heap_release_rest [OF h, of seq]
    by (auto simp: session_ok_def s'_def split: if_splits)
  note P = put_session_ok [OF ok k this m]
  have out: "dt_outstanding t' = dt_outstanding t + int (length (sd_pending s')) - int (length (sd_pending s))"
    using k heap_release_length [OF h, of seq] by (simp add: t'_def s'_def Resolved_def Let_def split: option.split)
  moreover have "dt_outstanding t' \<le> dt_maxOutstanding t" using T(5) k by (simp add: t'_def Resolved_def Let_def split: option.split)
  moreover have "dt_perSource t' = dt_perSource t" using k by (simp add: t'_def Resolved_def Let_def split: option.split)
  ultimately show "tracker_ok t'" "leak t' = leak t" using P l by blast+
qed

lemma Resolved_None: "dt_m t (DurableKey source session) = None \<Longrightarrow> Resolved now t source session seq = t"
  by (simp add: Resolved_def)

lemma Watermark_session:
  assumes "session_ok t' s" "dt_m t (DurableKey source session) = Some s"
  shows "Watermark t source session = (if sd_pending s = [] then sd_highest s else sd_pending s ! 0 - 1)"
proof -
  have "dom (sd_outstanding s) = set (sd_pending s)" using assms(1) by (simp add: session_ok_def heap_ok_def indexed_dom)
  then show ?thesis using assms(2) by (simp add: Watermark_def)
qed

lemma Watermark_below:
  assumes "session_ok t' s" "dt_m t (DurableKey source session) = Some s" "q \<in> set (sd_pending s)"
  shows "Watermark t source session < q"
  using assms(1,3) pq.below_least [of s q] Watermark_session [OF assms(1,2)] by (auto simp: session_ok_def)

section \<open>The tracker as a state machine\<close>

inductive durable_step :: "map_order \<Rightarrow> durable_tracker \<Rightarrow> durable_tracker \<Rightarrow> bool" for ord where
  received: "durable_step ord t (snd (Received ord now t source session seq persistable))"
| resolved: "durable_step ord t (Resolved now t source session seq)"

inductive reachable_tracker :: "map_order \<Rightarrow> durable_tracker \<Rightarrow> bool" for ord where
  start: "reachable_tracker ord NewDurableTracker"
| step: "reachable_tracker ord t \<Longrightarrow> durable_step ord t t' \<Longrightarrow> reachable_tracker ord t'"

inductive_cases durable_stepE: "durable_step ord t t'"

lemma tracker_ok_New: "tracker_ok NewDurableTracker"
  by (simp add: tracker_ok_def NewDurableTracker_def leak_def held_def sources_ok_def of_source_def maxDurableOutstanding_def
      maxDurableSessions_def maxDurablePerSession_def maxDurableSessionsPerSource_def)

lemma Received_ok:
  assumes "map_range ord" "tracker_ok t"
  shows "tracker_ok (snd (Received ord now t source session seq persistable))"
proof (cases "seq = 0")
  case True
  then show ?thesis using assms by (simp add: Received_def)
next
  case False
  from assms False show ?thesis
  proof (cases rule: Received_cases [where now = now and source = source and session = session and persistable = persistable])
    case (orphaned t1 s)
    then show ?thesis using orphan_ok(1) [of t1] by (simp add: forgets_def)
  qed (simp_all add: forgets_def)
qed

lemma Resolved_ok: "tracker_ok t \<Longrightarrow> tracker_ok (Resolved now t source session seq)"
  by (cases "dt_m t (DurableKey source session)") (simp_all add: Resolved_None Resolved_session(1))

lemma durable_step_ok: "durable_step ord t t' \<Longrightarrow> map_range ord \<Longrightarrow> tracker_ok t \<Longrightarrow> tracker_ok t'"
  by (erule durable_stepE) (simp_all add: Received_ok Resolved_ok)

lemma reachable_ok: "reachable_tracker ord t \<Longrightarrow> map_range ord \<Longrightarrow> tracker_ok t"
  by (induction rule: reachable_tracker.induct) (auto intro: durable_step_ok tracker_ok_New)

text \<open>What a session promises, without heap or index: the highest sequence received and the set of unresolved ones.\<close>

type_synonym abstract_table = "durable_key \<rightharpoonup> u64 \<times> u64 set"

definition abstract_tracker :: "durable_tracker \<Rightarrow> abstract_table" where
  "abstract_tracker t = (\<lambda>k. map_option (\<lambda>s. (sd_highest s, set (sd_pending s))) (dt_m t k))"

definition abstract_forgets :: "int \<Rightarrow> durable_tracker \<Rightarrow> abstract_table \<Rightarrow> bool" where
  "abstract_forgets now t A \<longleftrightarrow> (\<forall>k. A k = abstract_tracker t k \<or>
     A k = None \<and> (\<exists>s. dt_m t k = Some s \<and> (sd_pending s = [] \<or> stale now s)))"

definition abstract_receive :: "u64 \<Rightarrow> bool \<Rightarrow> (u64 \<times> u64 set) option \<Rightarrow> u64 \<times> u64 set" where
  "abstract_receive seq persistable e =
     (case e of None \<Rightarrow> (seq, if persistable then {seq} else {})
      | Some (highest, S) \<Rightarrow> (max highest seq, if persistable then insert seq S else S))"

definition abstract_mark :: "(u64 \<times> u64 set) option \<Rightarrow> u64" where
  "abstract_mark e = (case e of None \<Rightarrow> 0 | Some (highest, S) \<Rightarrow> if S = {} then highest else Min S - 1)"

lemma forgets_abstract: "forgets now t t' \<Longrightarrow> abstract_forgets now t (abstract_tracker t')"
  unfolding abstract_forgets_def abstract_tracker_def
proof
  fix k assume "forgets now t t'"
  then have "dt_m t' k = dt_m t k \<or> dt_m t' k = None \<and> (\<exists>s. dt_m t k = Some s \<and> (sd_pending s = [] \<or> stale now s))"
    unfolding forgets_def by blast
  then show "map_option (\<lambda>s. (sd_highest s, set (sd_pending s))) (dt_m t' k) = map_option (\<lambda>s. (sd_highest s, set (sd_pending s))) (dt_m t k) \<or>
      map_option (\<lambda>s. (sd_highest s, set (sd_pending s))) (dt_m t' k) = None \<and> (\<exists>s. dt_m t k = Some s \<and> (sd_pending s = [] \<or> stale now s))"
    by (elim disjE) simp_all
qed

lemma new_session_simps [simp]: "sd_pending new_session = []" "sd_highest new_session = 0" "sd_outstanding new_session = Map.empty" "heap_ok new_session"
  by (simp_all add: new_session_def heap_ok_def indexed_def heap_n_def)

lemma base_session_ok: "tracker_ok t \<Longrightarrow> heap_ok (base_session t k)"
  using tracker_okD(2) [of t k] by (auto simp: base_session_def session_ok_def split: option.split)

lemma next_session_abstract:
  assumes "tracker_ok t"
  shows "(sd_highest (next_session now t k seq persistable), set (sd_pending (next_session now t k seq persistable))) =
    abstract_receive seq persistable (abstract_tracker t k)"
proof -
  note h = base_session_ok [OF assms, of k]
  have "sd_highest (heap_hold seq (base_session t k)) = sd_highest (base_session t k)" by (simp add: heap_hold_def heap_Push_content)
  then show ?thesis using pq.hold_content [OF h, of seq]
    by (cases "dt_m t k") (auto simp: next_session_def abstract_receive_def abstract_tracker_def base_session_def)
qed

lemma Watermark_abstract: "tracker_ok t \<Longrightarrow> Watermark t source session = abstract_mark (abstract_tracker t (DurableKey source session))"
proof (cases "dt_m t (DurableKey source session)")
  case (Some s)
  assume "tracker_ok t"
  from tracker_okD(2) [OF this Some] have "session_ok t s" .
  then show ?thesis using Watermark_session [OF _ Some, of t] heap_ok_Min [of s] Some
    by (simp add: abstract_mark_def abstract_tracker_def session_ok_def)
qed (simp add: Watermark_def abstract_mark_def abstract_tracker_def)

text \<open>The history of one session: the sequences accepted as persistable and not resolved since, for runs in which no
  receipt of the collector finds that session stale.\<close>

inductive watched :: "map_order \<Rightarrow> durable_key \<Rightarrow> durable_tracker \<Rightarrow> u64 set \<Rightarrow> bool" for ord k where
  start: "watched ord k NewDurableTracker {}"
| received: "watched ord k t U \<Longrightarrow> (\<And>s. dt_m t k = Some s \<Longrightarrow> \<not> stale now s) \<Longrightarrow>
    Received ord now t source session seq persistable = (accepted, t') \<Longrightarrow>
    watched ord k t' (if accepted \<and> persistable \<and> seq \<noteq> 0 \<and> DurableKey source session = k then insert seq U else U)"
| resolved: "watched ord k t U \<Longrightarrow>
    watched ord k (Resolved now t source session seq) (if DurableKey source session = k then U - {seq} else U)"

definition holds :: "(durable_key \<rightharpoonup> session_durable) \<Rightarrow> durable_key \<Rightarrow> u64 set" where
  "holds m k = (case m k of None \<Rightarrow> {} | Some s \<Rightarrow> set (sd_pending s))"

lemma forgets_holds: "forgets now t t' \<Longrightarrow> (\<And>s. dt_m t k = Some s \<Longrightarrow> \<not> stale now s) \<Longrightarrow> holds (dt_m t') k = holds (dt_m t) k"
proof -
  assume "forgets now t t'" and fresh: "\<And>s. dt_m t k = Some s \<Longrightarrow> \<not> stale now s"
  then have "dt_m t' k = dt_m t k \<or> dt_m t' k = None \<and> (\<exists>s. dt_m t k = Some s \<and> (sd_pending s = [] \<or> stale now s))"
    unfolding forgets_def by blast
  then show ?thesis using fresh by (auto simp: holds_def)
qed

lemma Received_holds:
  assumes "map_range ord" "tracker_ok t" "\<And>s. dt_m t k = Some s \<Longrightarrow> \<not> stale now s"
    and R: "Received ord now t source session seq persistable = (accepted, t')"
  shows "holds (dt_m t') k = (if accepted \<and> persistable \<and> seq \<noteq> 0 \<and> DurableKey source session = k then insert seq (holds (dt_m t) k)
    else holds (dt_m t) k)"
proof (cases "seq = 0")
  case True
  then show ?thesis using R by (simp add: Received_def)
next
  case False
  from assms(1,2) False show ?thesis
  proof (cases rule: Received_cases [where now = now and source = source and session = session and persistable = persistable])
    case (refused t'')
    then show ?thesis using R forgets_holds [OF refused(2) assms(3)] by simp
  next
    case (tracked t'' t1)
    have e: "accepted" "t'' = t'" using R tracked(1) by auto
    show ?thesis
    proof (cases "DurableKey source session = k")
      case True
      have "set (sd_pending (next_session now t k seq persistable)) = (if persistable then insert seq (holds (dt_m t) k) else holds (dt_m t) k)"
        using next_session_abstract [OF assms(2), of now k seq persistable]
        by (cases "dt_m t k") (auto simp: abstract_receive_def abstract_tracker_def holds_def)
      then show ?thesis using True e tracked(4) False by (simp add: holds_def)
    next
      case False
      then show ?thesis using e tracked(4) forgets_holds [OF tracked(2) assms(3)] by (simp add: holds_def)
    qed
  next
    case (orphaned t1 s)
    then have "DurableKey source session \<noteq> k" using assms(3) by blast
    then show ?thesis using R orphaned(1) forgets_holds [OF orphaned(2) assms(3)] by auto
  qed
qed

lemma Resolved_holds:
  assumes "tracker_ok t"
  shows "holds (dt_m (Resolved now t source session seq)) k =
    (if DurableKey source session = k then holds (dt_m t) k - {seq} else holds (dt_m t) k)"
proof (cases "dt_m t (DurableKey source session)")
  case None
  then show ?thesis by (auto simp: Resolved_None holds_def)
next
  case (Some s)
  then have "heap_ok (s\<lparr>sd_touched := now\<rparr>)" using tracker_okD(2) [OF assms Some] by (simp add: session_ok_def)
  from pq.release_content [OF this] show ?thesis using Some by (auto simp: Resolved_session(3) [OF assms Some] holds_def)
qed

lemma watched_holds: "watched ord k t U \<Longrightarrow> map_range ord \<Longrightarrow> tracker_ok t \<and> holds (dt_m t) k = U"
proof (induction rule: watched.induct)
  case start
  then show ?case using tracker_ok_New by (simp add: holds_def NewDurableTracker_def)
next
  case (received t U now source session seq persistable accepted t')
  then have "tracker_ok t" "holds (dt_m t) k = U" by auto
  then show ?case
    using Received_holds [OF received.prems _ received.hyps(2,3)] Received_ok [OF received.prems, of t now source session seq persistable]
      received.hyps(3) by auto
next
  case (resolved t U now source session seq)
  then show ?case by (simp add: Resolved_ok Resolved_holds)
qed

lemma Watermark_not_held: "tracker_ok t \<Longrightarrow> q \<in> holds (dt_m t) (DurableKey source session) \<Longrightarrow> Watermark t source session < q"
  using Watermark_below tracker_okD(2) by (fastforce simp: holds_def split: option.splits)

definition resolve_all :: "durable_tracker \<Rightarrow> string \<Rightarrow> string \<Rightarrow> (int \<times> u64) list \<Rightarrow> durable_tracker" where
  "resolve_all t source session evs = foldl (\<lambda>t (now, seq). Resolved now t source session seq) t evs"

lemma resolve_all_session:
  assumes "tracker_ok t" "dt_m t (DurableKey source session) = Some s"
  shows "tracker_ok (resolve_all t source session evs) \<and> leak (resolve_all t source session evs) = leak t \<and>
    (\<exists>s'. dt_m (resolve_all t source session evs) (DurableKey source session) = Some s' \<and> sd_highest s' = sd_highest s \<and>
       set (sd_pending s') = set (sd_pending s) - snd ` set evs)"
  using assms
proof (induction evs arbitrary: t s)
  case (Cons e evs)
  obtain now seq where e: "e = (now, seq)" by fastforce
  let ?t = "Resolved now t source session seq" and ?s = "heap_release seq (s\<lparr>sd_touched := now\<rparr>)"
  note R = Resolved_session [OF Cons.prems, of now seq]
  have h: "heap_ok (s\<lparr>sd_touched := now\<rparr>)" using tracker_okD(2) [OF Cons.prems] by (simp add: session_ok_def)
  have m: "dt_m ?t (DurableKey source session) = Some ?s" using R(3) by simp
  show ?case using Cons.IH [OF R(1) m] R(2) pq.release_content [OF h, of seq] heap_release_rest [OF h, of seq]
    by (auto simp: resolve_all_def e)
qed (simp add: resolve_all_def)

lemma sweep_frees:
  assumes "swept now t t'" "finite (dom (dt_m t))" "dt_m t k = Some s" "stale now s" "sd_pending s \<noteq> []"
  shows "dt_outstanding t' < dt_outstanding t"
proof -
  let ?f = "\<lambda>j. int (length (sd_pending (the (dt_m t j))))"
  have m: "dt_m t' = fresh_part now UNIV (dt_m t)" and l: "leak t' = leak t" using assms(1) by (simp_all add: swept_from_def)
  have sub: "dom (dt_m t') \<subseteq> dom (dt_m t) - {k}" using assms(3,4) by (auto simp: m fresh_part_def split: option.splits if_splits)
  have "held t' = (\<Sum>j \<in> dom (dt_m t'). ?f j)"
    unfolding held_def by (intro sum.cong) (auto simp: m fresh_part_def split: option.splits if_splits)
  also have "\<dots> \<le> (\<Sum>j \<in> dom (dt_m t) - {k}. ?f j)" using sub assms(2) by (intro sum_mono2) auto
  also have "\<dots> = held t - int (length (sd_pending s))" using assms(2,3) by (simp add: held_def sum_diff1 domIff)
  finally have "held t' \<le> held t - int (length (sd_pending s))" .
  moreover have "0 < int (length (sd_pending s))" using assms(5) by simp
  ultimately show ?thesis using l unfolding leak_def by linarith
qed

section \<open>Properties\<close>

definition sorted_range :: map_order where
  "sorted_range m = sorted_list_of_set (dom m)"

lemma map_range_sorted: "map_range sorted_range"
  by (simp add: map_range_def sorted_range_def)

text \<open>C2: Every state the tracker can reach through receipts and resolutions, at any times and with any iteration order of
  its maps, is consistent: each session's array is a min-heap of distinct nonzero sequences not above its highest one, its
  index maps exactly those sequences to their positions, the per-observer counts are the numbers of live sessions, the global
  counter is at least the number of tracked holes, and the four budgets hold.\<close>

theorem durable_invariant:
  assumes "map_range ord" "reachable_tracker ord t"
  shows "tracker_ok t"
  using assms(2,1) by (rule reachable_ok)

theorem durable_invariant_witness:
  "tracker_ok (Resolved 9 (snd (Received sorted_range 7 NewDurableTracker ''ob'' ''s1'' 3 True)) ''ob'' ''s1'' 3)"
  by (rule durable_invariant [OF map_range_sorted])
    (rule reachable_tracker.step [OF reachable_tracker.step [OF reachable_tracker.start durable_step.received] durable_step.resolved])

text \<open>C3: A receipt implements the abstract table: unless the session of the frame has gone stale, an accepted nonzero sequence
  raises the highest sequence of its session and joins its unresolved set exactly when it is persistable, a refused one changes
  no unresolved set, all other sessions keep their contents except that resolved or silent ones may be forgotten, and the
  acknowledgement is the abstract watermark: one below the least unresolved sequence, or the highest one.\<close>

theorem Received_refines:
  assumes "map_range ord" "tracker_ok t" "seq \<noteq> 0" "\<And>s. dt_m t (DurableKey source session) = Some s \<Longrightarrow> \<not> stale now s"
  shows "case Received ord now t source session seq persistable of (accepted, t') \<Rightarrow>
    leak t' = leak t \<and>
    (\<exists>A. abstract_forgets now t A \<and>
      (if accepted then A (DurableKey source session) = abstract_tracker t (DurableKey source session) \<and>
         abstract_tracker t' = A(DurableKey source session \<mapsto> abstract_receive seq persistable (A (DurableKey source session))) \<and>
         Watermark t' source session = abstract_mark (abstract_tracker t' (DurableKey source session))
       else abstract_tracker t' = A))"
  using assms(1-3)
proof (cases rule: Received_cases [where now = now and source = source and session = session and persistable = persistable])
  case (refused t')
  then show ?thesis using forgets_abstract by (auto simp: forgets_def)
next
  case (tracked t' t1)
  let ?k = "DurableKey source session" and ?A = "abstract_tracker t1"
  have "?A ?k = abstract_tracker t ?k" using tracked(3) by (simp add: abstract_tracker_def)
  moreover have "abstract_tracker t' = ?A(?k \<mapsto> abstract_receive seq persistable (abstract_tracker t ?k))"
    using tracked(4) next_session_abstract [OF assms(2), of now ?k seq persistable] by (auto simp: abstract_tracker_def fun_eq_iff)
  moreover have "abstract_forgets now t ?A" using tracked(2) by (rule forgets_abstract)
  ultimately show ?thesis using tracked(1,6) Watermark_abstract [OF tracked(5), of source session]
    by (auto intro!: exI [of _ ?A])
next
  case (orphaned t1 s)
  then show ?thesis using assms(4) by blast
qed

theorem Received_refines_witness:
  "case Received sorted_range 7 NewDurableTracker ''ob'' ''s1'' 3 True of (accepted, t') \<Rightarrow> leak t' = 0"
proof -
  have "leak NewDurableTracker = 0" by (simp add: leak_def held_def NewDurableTracker_def)
  then show ?thesis
    using Received_refines [OF map_range_sorted tracker_ok_New, of 3 "''ob''" "''s1''" 7 True] by (auto simp: NewDurableTracker_def)
qed

text \<open>C1: No acknowledgement covers an unresolved frame: along every run in which no receipt finds the session stale, the
  watermark stays strictly below each sequence that was accepted as persistable and has not been resolved since, whatever other
  sessions do and however often the table is swept or evicted.\<close>

theorem unresolved_never_acknowledged:
  assumes "map_range ord" "watched ord (DurableKey source session) t U" "q \<in> U"
  shows "Watermark t source session < q"
  using watched_holds [OF assms(2,1)] assms(3) by (auto intro: Watermark_not_held)

theorem unresolved_never_acknowledged_witness:
  "Watermark (snd (Received sorted_range 7 NewDurableTracker ''ob'' ''s1'' 3 True)) ''ob'' ''s1'' < 3"
proof (rule unresolved_never_acknowledged [OF map_range_sorted])
  let ?R = "Received sorted_range 7 NewDurableTracker ''ob'' ''s1'' 3 True"
  have "fst ?R" by (simp add: Received_def Let_def NewDurableTracker_def at_capacity_def source_count_def receive_open_def
      receive_hold_def new_session_def maxDurableOutstanding_def maxDurableSessions_def maxDurablePerSession_def maxDurableSessionsPerSource_def)
  then have R: "?R = (True, snd ?R)" by (simp add: prod_eq_iff)
  have "dt_m NewDurableTracker (DurableKey ''ob'' ''s1'') = None" by (simp add: NewDurableTracker_def)
  then show "watched sorted_range (DurableKey ''ob'' ''s1'') (snd ?R) {3}"
    using watched.received [OF watched.start _ R, of "DurableKey ''ob'' ''s1''"] by simp
qed simp

text \<open>C12: Once every unresolved sequence of a session has been reported resolved, in any order, at any times and with repeated or
  unknown sequences among them, the watermark is the highest sequence received, and the budget they used is free again.\<close>

theorem all_resolved_acknowledged:
  assumes "tracker_ok t" "dt_m t (DurableKey source session) = Some s" "set (sd_pending s) \<subseteq> snd ` set evs"
  shows "Watermark (resolve_all t source session evs) source session = sd_highest s \<and>
    leak (resolve_all t source session evs) = leak t"
proof -
  let ?t = "resolve_all t source session evs"
  note R = resolve_all_session [OF assms(1,2), of evs]
  then have ok: "tracker_ok ?t" and "leak ?t = leak t" by simp_all
  moreover obtain s' where s': "dt_m ?t (DurableKey source session) = Some s'" "sd_highest s' = sd_highest s"
      "set (sd_pending s') = set (sd_pending s) - snd ` set evs"
    using R by blast
  moreover have "sd_pending s' = []" using s'(3) assms(3) by (metis Diff_eq_empty_iff set_empty)
  ultimately show ?thesis using Watermark_session [OF tracker_okD(2) [OF ok s'(1)] s'(1)] by simp
qed

definition sample_session :: session_durable where
  "sample_session = \<lparr>sd_highest = 5, sd_outstanding = [5 \<mapsto> 0], sd_pending = [5], sd_touched = 0\<rparr>"

definition sample_tracker :: durable_tracker where
  "sample_tracker = \<lparr>dt_m = [DurableKey ''ob'' ''s1'' \<mapsto> sample_session], dt_perSource = [''ob'' \<mapsto> 1], dt_outstanding = 1,
     dt_maxOutstanding = 1, dt_maxPerSession = 8, dt_maxSessions = 8, dt_maxPerSource = 8, dt_nextPrune = 0, dt_metrics = []\<rparr>"

lemma sample_session_ok: "session_ok sample_tracker sample_session"
  by (auto simp: session_ok_def sample_session_def sample_tracker_def heap_ok_def indexed_def heap_n_def)

lemma sample_tracker_ok: "tracker_ok sample_tracker"
proof -
  have src: "of_source sample_tracker source = (if source = ''ob'' then {DurableKey ''ob'' ''s1''} else {})" for source
    by (auto simp: of_source_def sample_tracker_def split: if_splits)
  have "sources_ok sample_tracker" unfolding sources_ok_def src by (simp add: sample_tracker_def)
  moreover have "leak sample_tracker = 0" by (simp add: leak_def held_def sample_tracker_def sample_session_def)
  moreover have "session_ok sample_tracker s" if "dt_m sample_tracker k = Some s" for k s
    using that sample_session_ok by (cases "k = DurableKey ''ob'' ''s1''") (auto simp: sample_tracker_def)
  moreover have "int (card (of_source sample_tracker source)) \<le> dt_maxPerSource sample_tracker" for source
    unfolding src by (simp add: sample_tracker_def)
  moreover have "finite (dom (dt_m sample_tracker))" "dt_outstanding sample_tracker \<le> dt_maxOutstanding sample_tracker"
    "int (card (dom (dt_m sample_tracker))) \<le> dt_maxSessions sample_tracker" "0 < dt_maxPerSession sample_tracker"
    by (simp_all add: sample_tracker_def)
  ultimately show ?thesis by (intro tracker_okI) simp_all
qed

theorem all_resolved_acknowledged_witness:
  "Watermark (resolve_all sample_tracker ''ob'' ''s1'' [(4, 7), (9, 5)]) ''ob'' ''s1'' = 5"
  using all_resolved_acknowledged [OF sample_tracker_ok, of "''ob''" "''s1''" sample_session "[(4, 7), (9, 5)]"]
  by (simp add: sample_tracker_def sample_session_def)

text \<open>The sweep does not depend on the order in which Go iterates over the session table: any two orders leave the same
  sessions, the same per-observer counts and the same budget counter.\<close>

lemma prune_order_independent:
  assumes "map_range ord" "map_range ord'" "tracker_ok t"
  shows "dt_m (pruneLocked ord now t) = dt_m (pruneLocked ord' now t) \<and>
    dt_perSource (pruneLocked ord now t) = dt_perSource (pruneLocked ord' now t) \<and>
    dt_outstanding (pruneLocked ord now t) = dt_outstanding (pruneLocked ord' now t)"
proof -
  let ?a = "pruneLocked ord now t" and ?b = "pruneLocked ord' now t"
  have S: "swept now t ?a" "swept now t ?b" using assms prune_swept by blast+
  then have m: "dt_m ?a = dt_m ?b" by (simp add: swept_from_def)
  have "sources_ok ?a" "sources_ok ?b" using S by (simp_all add: swept_from_def tracker_okD(3))
  moreover have "of_source ?a source = of_source ?b source" for source by (simp add: of_source_def m)
  ultimately have "dt_perSource ?a = dt_perSource ?b" by (simp add: sources_ok_def fun_eq_iff)
  moreover have "leak ?a = leak ?b" using S by (simp add: swept_from_def)
  then have "dt_outstanding ?a = dt_outstanding ?b" using m by (simp add: leak_def held_def)
  ultimately show ?thesis using m by simp
qed

lemma map_range_rev: "map_range (\<lambda>m. rev (sorted_range m))"
  using map_range_sorted by (simp add: map_range_def)

text \<open>C11: A receipt on a session that is itself overdue for reclaiming, when it finds the global budget exhausted and the sweep
  due, is accepted and lost: the sweep deletes the session between its lookup and its update, so the frame is reported as
  admitted while no table entry holds it and the budget counter keeps a hole that nothing can resolve. The next frame that is
  not persistable then opens the session anew and its sequence is acknowledged, although the earlier frame never was resolved.\<close>

theorem stale_receipt_lost:
  assumes "map_range ord" "tracker_ok t" "dt_m t (DurableKey source session) = Some s" "stale now s" "sd_pending s \<noteq> []"
    "sd_outstanding s seq = None" "int (length (sd_pending s)) < dt_maxPerSession t" "dt_outstanding t = dt_maxOutstanding t"
    "dt_nextPrune t \<le> now" "seq \<noteq> 0" "seq2 \<noteq> 0"
  shows "case Received ord now t source session seq True of (accepted, t') \<Rightarrow>
    accepted \<and> dt_m t' (DurableKey source session) = None \<and> leak t' = leak t + 1 \<and>
    (case Received ord now2 t' source session seq2 False of (accepted2, t'') \<Rightarrow> accepted2 \<and> Watermark t'' source session = seq2)"
proof -
  let ?k = "DurableKey source session" and ?t = "sweep ord now t"
  have S: "swept now t ?t" by (rule sweep_swept [OF assms(1,2)])
  have m: "dt_m ?t ?k = None" using S assms(3,4) by (simp add: swept_from_def fresh_part_def)
  have ok: "tracker_ok ?t" and lim: "same_limits t ?t" using S by (simp_all add: swept_from_def)
  note T = tracker_okD [OF assms(2)]
  have sub: "dom (dt_m ?t) \<subseteq> dom (dt_m t) - {?k}" using S m by (auto simp: swept_from_def fresh_part_def split: option.splits if_splits)
  have kin: "?k \<in> dom (dt_m t)" "?k \<in> of_source t source" using assms(3) by (auto simp: of_source_def)
  have room: "card (dom (dt_m ?t)) < card (dom (dt_m t))"
    using card_mono [OF _ sub] card_Diff1_less [OF T(1) kin(1)] T(1) by simp
  have "of_source ?t source \<subseteq> of_source t source - {?k}" using sub by (auto simp: of_source_def)
  then have room2: "card (of_source ?t source) < card (of_source t source)"
    using T(1) kin(2) by (meson card_Diff1_less card_mono finite_Diff finite_of_source le_less_trans)
  have out: "dt_outstanding ?t < dt_maxOutstanding ?t" using sweep_frees [OF S T(1) assms(3-5)] assms(8) lim by (simp add: same_limits_def)
  let ?o = "?t\<lparr>dt_outstanding := dt_outstanding ?t + 1\<rparr>"
  have "Received ord now t source session seq True = (True, ?o)"
    using assms m out by (simp add: Received_def Let_def receive_hold_def store_session_def not_less)
  moreover have "leak ?o = leak t + 1" using orphan_ok(2) [OF ok out] S by (simp add: swept_from_def)
  moreover have free: "int (card (dom (dt_m ?o))) < dt_maxSessions ?o" "source_count ?o source < dt_maxPerSource ?o"
    using room room2 T(6) T(7) [of source] lim source_count_card [OF tracker_okD(3,1) [OF ok], of source]
    by (simp_all add: same_limits_def source_count_def)
  have "Received ord now2 ?o source session seq2 False = (True, store_session ?k (touch now2 seq2 new_session) (add_session ?o ?k))"
    using assms(11) m free by (simp add: Received_def Let_def at_capacity_def receive_open_def add_session_def touch_def not_le)
  moreover have "Watermark (store_session ?k (touch now2 seq2 new_session) (add_session ?o ?k)) source session = seq2"
    by (simp add: store_session_def add_session_def Watermark_def)
  ultimately show ?thesis using m by simp
qed

theorem stale_receipt_lost_witness:
  "case Received sorted_range (2 * durableHoleAbandonAfter) sample_tracker ''ob'' ''s1'' 6 True of (accepted, t') \<Rightarrow>
    accepted \<and> (case Received sorted_range (2 * durableHoleAbandonAfter + 1) t' ''ob'' ''s1'' 7 False of (accepted2, t'') \<Rightarrow>
      accepted2 \<and> Watermark t'' ''ob'' ''s1'' = 7)"
proof -
  have "stale (2 * durableHoleAbandonAfter) sample_session"
    by (simp add: stale_def sample_session_def time_Sub_def durableHoleAbandonAfter_def minute_def second_def)
  moreover have "dt_m sample_tracker (DurableKey ''ob'' ''s1'') = Some sample_session" by (simp add: sample_tracker_def)
  ultimately show ?thesis
    using stale_receipt_lost [OF map_range_sorted sample_tracker_ok, of "''ob''" "''s1''" sample_session "2 * durableHoleAbandonAfter" 6 7
        "2 * durableHoleAbandonAfter + 1"]
    by (auto simp: sample_tracker_def sample_session_def durableHoleAbandonAfter_def minute_def second_def)
qed

end
