(* ===== verification/AssocLists.thy ===== *)
theory AssocLists
  imports Main "HOL-Library.AList"
begin

text \<open>Go's maps as association lists with one entry per key: what an update does to their length and their entries, for the tables that are bounded.\<close>

lemma length_update: "length (AList.update k v m) = (if map_of m k = None then length m + 1 else length m)"
  by (induction m) auto

lemma length_update_le: "length (AList.update k v m) \<le> Suc (length m)"
  by (simp add: length_update)

lemma set_update_sub: "set (AList.update k v m) \<subseteq> insert (k, v) (set m)"
  by (induction m) auto

lemma entries_update: "list_all P m \<Longrightarrow> P (k, v) \<Longrightarrow> list_all P (AList.update k v m)"
  using set_update_sub [of k v m] by (auto simp: list_all_iff)

end
