(* ===== verification/AddressGuard.thy ===== *)
theory AddressGuard
  imports GoTime AssocLists "HOL-Library.Multiset"
begin

text \<open>
  The bounds on unauthenticated connections, \<^verbatim>\<open>go/internal/ingest/preauth.go\<close>: per address, how many may be in flight, how fast they may be opened and how many warnings they may log. The
  table is an association list; a token bucket is a real for \<^verbatim>\<open>float64\<close>. The release closure of \<^verbatim>\<open>admit\<close> is an operation on the address: it decrements through a pointer to the entry, and
  an entry with a connection in flight stays in the table.
\<close>

section \<open>The guard\<close>

definition minPreAuthSlots :: int where "minPreAuthSlots = 64"
definition maxPreAuthPerAddress :: int where "maxPreAuthPerAddress = 8"
definition preAuthBurst :: real where "preAuthBurst = 64"
definition preAuthRate :: real where "preAuthRate = 32"
definition preAuthLogLines :: real where "preAuthLogLines = 5"
definition preAuthLogWindow :: duration where "preAuthLogWindow = Minute"
definition loggedHelloFieldMax :: nat where "loggedHelloFieldMax = 64"
definition maxTrackedAddresses :: nat where "maxTrackedAddresses = 4096"

definition preAuthSlots :: "int \<Rightarrow> int" where
  "preAuthSlots maxConns = max minPreAuthSlots (maxConns div 2)"

record address_state =
  ad_inflight :: int
  ad_tokens :: real
  ad_logTokens :: real
  ad_refilled :: time

type_synonym guard = "(string \<times> address_state) list"

text \<open>\<^verbatim>\<open>Duration.Seconds\<close>.\<close>

definition seconds :: "duration \<Rightarrow> real" where
  "seconds d = of_int d / of_int Second"

definition guard_idle :: "time \<Rightarrow> address_state \<Rightarrow> bool" where
  "guard_idle now s \<longleftrightarrow> ad_inflight s = 0 \<and> time_Sub now (ad_refilled s) \<ge> preAuthLogWindow"

definition guard_prune :: "guard \<Rightarrow> time \<Rightarrow> guard" where
  "guard_prune g now =
     (let g1 = filter (\<lambda>(_, s). \<not> guard_idle now s) g
      in if length g1 < maxTrackedAddresses then g1 else filter (\<lambda>(_, s). ad_inflight s \<noteq> 0) g1)"

definition fresh_address :: "time \<Rightarrow> address_state" where
  "fresh_address now = \<lparr>ad_inflight = 0, ad_tokens = preAuthBurst, ad_logTokens = preAuthLogLines, ad_refilled = now\<rparr>"

definition refill :: "address_state \<Rightarrow> time \<Rightarrow> address_state" where
  "refill s now =
     (let elapsed = seconds (time_Sub now (ad_refilled s))
      in if elapsed > 0
         then s\<lparr>ad_tokens := min preAuthBurst (ad_tokens s + elapsed * preAuthRate),
                ad_logTokens := min preAuthLogLines (ad_logTokens s + elapsed * preAuthLogLines / seconds preAuthLogWindow), ad_refilled := now\<rparr>
         else s)"

definition guard_state :: "guard \<Rightarrow> string \<Rightarrow> time \<Rightarrow> address_state \<times> guard" where
  "guard_state g address now =
     (case map_of g address of
        None \<Rightarrow>
          (let g1 = (if length g \<ge> maxTrackedAddresses then guard_prune g now else g); s = fresh_address now
           in (s, AList.update address s g1))
      | Some s \<Rightarrow> (let s' = refill s now in (s', AList.update address s' g)))"

definition guard_admit :: "guard \<Rightarrow> string \<Rightarrow> time \<Rightarrow> string \<times> guard" where
  "guard_admit g address now =
     (case guard_state g address now of (s, g1) \<Rightarrow>
        if ad_inflight s \<ge> maxPreAuthPerAddress then (''address_inflight'', g1)
        else if ad_tokens s < 1 then (''address_rate'', g1)
        else ([], AList.update address (s\<lparr>ad_tokens := ad_tokens s - 1, ad_inflight := ad_inflight s + 1\<rparr>) g1))"

definition guard_release :: "guard \<Rightarrow> string \<Rightarrow> guard" where
  "guard_release g address =
     (case map_of g address of None \<Rightarrow> g | Some s \<Rightarrow> AList.update address (s\<lparr>ad_inflight := ad_inflight s - 1\<rparr>) g)"

definition guard_allowLog :: "guard \<Rightarrow> string \<Rightarrow> time \<Rightarrow> bool \<times> guard" where
  "guard_allowLog g address now =
     (case guard_state g address now of (s, g1) \<Rightarrow>
        if ad_logTokens s < 1 then (False, g1) else (True, AList.update address (s\<lparr>ad_logTokens := ad_logTokens s - 1\<rparr>) g1))"

text \<open>Clipping peer-chosen text: \<^verbatim>\<open>utf8.RuneStart\<close> and the loop back to a character's first byte. Strings are bytes; the ellipsis is its UTF-8 form.\<close>

definition RuneStart :: "char \<Rightarrow> bool" where
  "RuneStart c \<longleftrightarrow> of_char c div 64 \<noteq> (2 :: nat)"

fun cut_back :: "string \<Rightarrow> nat \<Rightarrow> nat" where
  "cut_back s 0 = 0"
| "cut_back s (Suc n) = (if RuneStart (s ! Suc n) then Suc n else cut_back s n)"

definition clipHelloField :: "string \<Rightarrow> string" where
  "clipHelloField s = (if length s \<le> loggedHelloFieldMax then s else take (cut_back s loggedHelloFieldMax) s @ [CHR 0xE2, CHR 0x80, CHR 0xA6])"

section \<open>Runs\<close>

text \<open>A run of the guard with what it has granted: the connections not yet released, the grants per address, how often a full table was swept of every idle address, and the greatest number of
  connections in flight. The clock does not go back.\<close>

record guard_run =
  gr_guard :: guard
  gr_out :: "string multiset"
  gr_admitted :: "string \<Rightarrow> nat"
  gr_sweeps :: nat
  gr_peak :: nat
  gr_last :: time

definition swept :: "guard \<Rightarrow> string \<Rightarrow> time \<Rightarrow> bool" where
  "swept g address now \<longleftrightarrow> map_of g address = None \<and> maxTrackedAddresses \<le> length g \<and> maxTrackedAddresses \<le> length (filter (\<lambda>(_, s). \<not> guard_idle now s) g)"

definition run0 :: "time \<Rightarrow> guard_run" where
  "run0 t0 = \<lparr>gr_guard = [], gr_out = {#}, gr_admitted = (\<lambda>_. 0), gr_sweeps = 0, gr_peak = 0, gr_last = t0\<rparr>"

definition run_admit :: "guard_run \<Rightarrow> string \<Rightarrow> time \<Rightarrow> guard_run" where
  "run_admit r a now =
     (case guard_admit (gr_guard r) a now of (reason, g) \<Rightarrow>
        let r1 = r\<lparr>gr_guard := g, gr_sweeps := gr_sweeps r + (if swept (gr_guard r) a now then 1 else 0), gr_last := now\<rparr>
        in if reason = [] then r1\<lparr>gr_out := add_mset a (gr_out r), gr_admitted := (gr_admitted r)(a := gr_admitted r a + 1), gr_peak := max (gr_peak r) (size (gr_out r) + 1)\<rparr> else r1)"

definition run_log :: "guard_run \<Rightarrow> string \<Rightarrow> time \<Rightarrow> guard_run" where
  "run_log r a now =
     r\<lparr>gr_guard := snd (guard_allowLog (gr_guard r) a now), gr_sweeps := gr_sweeps r + (if swept (gr_guard r) a now then 1 else 0), gr_last := now\<rparr>"

inductive guard_reach :: "time \<Rightarrow> guard_run \<Rightarrow> bool" for t0 where
  start: "guard_reach t0 (run0 t0)"
| admit: "guard_reach t0 r \<Longrightarrow> gr_last r \<le> now \<Longrightarrow> guard_reach t0 (run_admit r a now)"
| release: "guard_reach t0 r \<Longrightarrow> a \<in># gr_out r \<Longrightarrow> guard_reach t0 (r\<lparr>gr_guard := guard_release (gr_guard r) a, gr_out := gr_out r - {#a#}\<rparr>)"
| log: "guard_reach t0 r \<Longrightarrow> gr_last r \<le> now \<Longrightarrow> guard_reach t0 (run_log r a now)"

section \<open>What a run keeps\<close>

text \<open>The grants an address may have had by an instant: the burst for every time its bucket was full, and the rate since.\<close>

definition allowance :: "time \<Rightarrow> nat \<Rightarrow> time \<Rightarrow> real" where
  "allowance t0 n t = 64 * real n + 32 * seconds (t - t0)"

definition entry_ok :: "time \<Rightarrow> time \<Rightarrow> nat \<Rightarrow> nat \<Rightarrow> nat \<Rightarrow> address_state option \<Rightarrow> bool" where
  "entry_ok t0 til sweeps inflight admitted e =
     (case e of
        None \<Rightarrow> inflight = 0 \<and> real admitted \<le> allowance t0 sweeps til
      | Some s \<Rightarrow> ad_inflight s = int inflight \<and> inflight \<le> 8 \<and> 0 \<le> ad_tokens s \<and> ad_tokens s \<le> 64 \<and> 0 \<le> ad_logTokens s \<and> ad_logTokens s \<le> 5 \<and>
          ad_refilled s \<le> til \<and> ad_tokens s + real admitted \<le> allowance t0 (Suc sweeps) (ad_refilled s))"

definition table_ok :: "time \<Rightarrow> time \<Rightarrow> nat \<Rightarrow> string multiset \<Rightarrow> (string \<Rightarrow> nat) \<Rightarrow> guard \<Rightarrow> bool" where
  "table_ok t0 til sweeps out admitted g \<longleftrightarrow>
     distinct (map fst g) \<and> (\<forall>a. entry_ok t0 til sweeps (count out a) (admitted a) (map_of g a))"

lemmas guard_consts = maxPreAuthPerAddress_def preAuthBurst_def preAuthRate_def preAuthLogLines_def preAuthLogWindow_def Minute_def Second_def seconds_def

lemma allowance_mono: "m \<le> n \<Longrightarrow> t \<le> t' \<Longrightarrow> allowance t0 m t \<le> allowance t0 n t'"
  by (auto simp: allowance_def guard_consts intro!: add_mono divide_right_mono)

lemma entry_ok_weaken: "entry_ok t0 til sweeps i n e \<Longrightarrow> til \<le> til' \<Longrightarrow> sweeps \<le> sweeps' \<Longrightarrow> entry_ok t0 til' sweeps' i n e"
  using allowance_mono [of sweeps sweeps' til til' t0] allowance_mono [of "Suc sweeps" "Suc sweeps'" "ad_refilled (the e)" "ad_refilled (the e)" t0]
  by (cases e) (simp_all add: entry_ok_def)

text \<open>Forgetting an idle address costs nothing, since its bucket was full again; a sweep of a full table may cost one burst.\<close>

lemma entry_ok_forget:
  assumes "entry_ok t0 til sweeps i n (Some s)" "til \<le> now" "ad_inflight s = 0" "guard_idle now s \<or> sweeps < sweeps'" "sweeps \<le> sweeps'"
  shows "entry_ok t0 now sweeps' i n None"
proof -
  have s: "ad_inflight s = int i" "0 \<le> ad_tokens s" "ad_refilled s \<le> now" "ad_tokens s + real n \<le> allowance t0 (Suc sweeps) (ad_refilled s)"
    using assms(1,2) by (auto simp: entry_ok_def)
  have "allowance t0 (Suc sweeps) (ad_refilled s) \<le> allowance t0 sweeps' now"
  proof (cases "sweeps < sweeps'")
    case True
    then show ?thesis using s(3) by (intro allowance_mono) auto
  next
    case False
    then have "guard_idle now s" "sweeps' = sweeps" using assms(4,5) by auto
    then have "60 * Second \<le> now - ad_refilled s" by (auto simp: guard_idle_def guard_consts time_Sub_def max_def min_def split: if_splits)
    then have "60000000000 \<le> real_of_int (now - ad_refilled s)" by (simp add: Second_def)
    then show ?thesis using \<open>sweeps' = sweeps\<close> by (simp add: allowance_def guard_consts field_simps)
  qed
  then show ?thesis using s assms(3) by (simp add: entry_ok_def)
qed

lemma entry_ok_refill:
  assumes "entry_ok t0 til sweeps i n (Some s)" "til \<le> now"
  shows "entry_ok t0 now sweeps i n (Some (refill s now))"
proof (cases "seconds (time_Sub now (ad_refilled s)) > 0")
  case False
  then show ?thesis using entry_ok_weaken [OF assms order.refl] by (simp add: refill_def)
next
  case True
  let ?e = "seconds (time_Sub now (ad_refilled s))"
  have "ad_refilled s \<le> now" using assms by (auto simp: entry_ok_def)
  then have "?e \<le> seconds (now - ad_refilled s)" by (simp add: seconds_def time_Sub_def Second_def max_def min_def)
  then have "allowance t0 (Suc sweeps) (ad_refilled s) + 32 * ?e \<le> allowance t0 (Suc sweeps) now"
    by (simp add: allowance_def seconds_def Second_def field_simps)
  then show ?thesis using assms True by (auto simp: entry_ok_def refill_def Let_def guard_consts min_def)
qed

lemma entry_ok_fresh: "entry_ok t0 til sweeps i n None \<Longrightarrow> til \<le> now \<Longrightarrow> entry_ok t0 now sweeps i n (Some (fresh_address now))"
  using allowance_mono [of sweeps sweeps til now t0] by (simp add: entry_ok_def fresh_address_def guard_consts) (simp add: allowance_def)

lemma map_of_filter_snd:
  "distinct (map fst g) \<Longrightarrow> map_of (filter (\<lambda>(_, s). P s) g) a = (case map_of g a of None \<Rightarrow> None | Some s \<Rightarrow> if P s then Some s else None)"
proof (induction g)
  case (Cons x g)
  obtain k s where x: "x = (k, s)" by fastforce
  have "map_of g k = None" using Cons.prems by (simp add: x map_of_eq_None_iff)
  then show ?case using Cons by (auto simp: x split: option.splits)
qed simp

lemma distinct_filter_keys: "distinct (map fst g) \<Longrightarrow> distinct (map fst (filter P g))"
  by (simp add: distinct_map_filter)

lemma map_of_prune:
  assumes "distinct (map fst g)"
  shows "map_of (guard_prune g now) a =
     (case map_of g a of None \<Rightarrow> None
      | Some s \<Rightarrow>
         if \<not> guard_idle now s \<and> (length (filter (\<lambda>(_, s). \<not> guard_idle now s) g) < maxTrackedAddresses \<or> ad_inflight s \<noteq> 0) then Some s else None)"
proof (cases "length (filter (\<lambda>(_, s). \<not> guard_idle now s) g) < maxTrackedAddresses")
  case True
  then show ?thesis by (simp add: guard_prune_def map_of_filter_snd [OF assms] split: option.split)
next
  case False
  then have "guard_prune g now = filter (\<lambda>(_, s). ad_inflight s \<noteq> 0) (filter (\<lambda>(_, s). \<not> guard_idle now s) g)" by (simp only: guard_prune_def Let_def if_False)
  then show ?thesis using False
    by (simp only: map_of_filter_snd [OF assms] map_of_filter_snd [OF distinct_filter_keys [OF assms]]) (simp split: option.split)
qed

lemma prune_ok:
  assumes "table_ok t0 til sweeps out admitted g" "til \<le> now"
    "sweeps' = sweeps + (if maxTrackedAddresses \<le> length (filter (\<lambda>(_, s). \<not> guard_idle now s) g) then 1 else 0)"
  shows "table_ok t0 now sweeps' out admitted (guard_prune g now)"
proof -
  have d: "distinct (map fst g)" and e: "\<And>a. entry_ok t0 til sweeps (count out a) (admitted a) (map_of g a)" using assms(1) by (auto simp: table_ok_def)
  have le: "sweeps \<le> sweeps'" using assms(3) by simp
  have "entry_ok t0 now sweeps' (count out a) (admitted a) (map_of (guard_prune g now) a)" for a
  proof (cases "map_of (guard_prune g now) a = map_of g a")
    case True
    then show ?thesis using e [of a] entry_ok_weaken [OF _ assms(2) le] by metis
  next
    case False
    then obtain s where s: "map_of g a = Some s" "map_of (guard_prune g now) a = None" "ad_inflight s = 0" "guard_idle now s \<or> sweeps < sweeps'"
      using assms(3) by (auto simp: map_of_prune [OF d] guard_idle_def split: option.splits if_splits)
    then show ?thesis using e [of a] entry_ok_forget [OF _ assms(2) s(3,4) le] by simp
  qed
  moreover have "distinct (map fst (guard_prune g now))" unfolding guard_prune_def Let_def using d by (simp add: distinct_filter_keys)
  ultimately show ?thesis by (simp add: table_ok_def)
qed

lemma table_ok_weaken: "table_ok t0 til sweeps out admitted g \<Longrightarrow> til \<le> til' \<Longrightarrow> table_ok t0 til' sweeps out admitted g"
  unfolding table_ok_def using entry_ok_weaken [OF _ _ order.refl] by blast

lemma table_ok_update:
  assumes "table_ok t0 til sweeps out admitted g" "entry_ok t0 til sweeps (count out' a) (admitted' a) (Some s)"
    "\<And>b. b \<noteq> a \<Longrightarrow> count out' b = count out b \<and> admitted' b = admitted b"
  shows "table_ok t0 til sweeps out' admitted' (AList.update a s g)"
  using assms by (auto simp: table_ok_def update_conv' distinct_update)

lemma guard_state_ok:
  assumes "table_ok t0 til sweeps out admitted g" "til \<le> now" "guard_state g a now = (s, g')"
  shows "table_ok t0 now (sweeps + (if swept g a now then 1 else 0)) out admitted g' \<and> map_of g' a = Some s"
proof (cases "map_of g a")
  case None
  let ?g1 = "if length g \<ge> maxTrackedAddresses then guard_prune g now else g"
  have g': "s = fresh_address now" "g' = AList.update a s ?g1" using assms(3) None by (auto simp: guard_state_def Let_def)
  have t: "table_ok t0 now (sweeps + (if swept g a now then 1 else 0)) out admitted ?g1"
  proof (cases "maxTrackedAddresses \<le> length g")
    case True
    then show ?thesis using prune_ok [OF assms(1,2) refl] None by (simp add: swept_def)
  next
    case False
    then show ?thesis using table_ok_weaken [OF assms(1,2)] by (simp add: swept_def)
  qed
  have "map_of ?g1 a = None"
    using None assms(1) by (simp add: map_of_prune table_ok_def)
  then have "entry_ok t0 now (sweeps + (if swept g a now then 1 else 0)) (count out a) (admitted a) None" using t unfolding table_ok_def by metis
  then have "entry_ok t0 now (sweeps + (if swept g a now then 1 else 0)) (count out a) (admitted a) (Some s)" using entry_ok_fresh g'(1) by blast
  then show ?thesis using table_ok_update [OF t] by (simp add: g'(2) update_conv')
next
  case (Some u)
  then have "s = refill u now" "g' = AList.update a s g" "\<not> swept g a now" using assms(3) by (auto simp: guard_state_def Let_def swept_def)
  moreover have "entry_ok t0 til sweeps (count out a) (admitted a) (Some u)" using assms(1) Some unfolding table_ok_def by metis
  ultimately show ?thesis using table_ok_update [OF table_ok_weaken [OF assms(1,2)], of out a admitted s] entry_ok_refill [OF _ assms(2)] by (simp add: update_conv')
qed

lemma entries_in_flight:
  assumes "table_ok t0 til sweeps out admitted g" "list_all (\<lambda>(_, s). ad_inflight s \<noteq> 0) h" "set h \<subseteq> set g" "distinct (map fst h)"
  shows "length h \<le> size out"
proof -
  have "fst ` set h \<subseteq> set_mset out"
  proof
    fix a
    assume "a \<in> fst ` set h"
    then obtain s where s: "(a, s) \<in> set h" by auto
    then have "map_of g a = Some s" "ad_inflight s \<noteq> 0" using assms by (auto simp: table_ok_def list_all_iff)
    then have "count out a \<noteq> 0" using assms(1) by (auto simp: table_ok_def entry_ok_def dest: spec [of _ a])
    then show "a \<in># out" by simp
  qed
  then have "card (fst ` set h) \<le> card (set_mset out)" by (simp add: card_mono)
  moreover have "card (fst ` set h) = length h" using distinct_card [OF assms(4)] by simp
  moreover have "card (set_mset out) \<le> size out" by (simp add: size_multiset_overloaded_eq) (metis card_eq_sum count_greater_eq_one_iff sum_mono)
  ultimately show ?thesis by simp
qed

lemma guard_state_length:
  assumes "table_ok t0 til sweeps out admitted g" "length g \<le> max maxTrackedAddresses (n + 1)" "size out \<le> n" "guard_state g a now = (s, g')"
  shows "length g' \<le> max maxTrackedAddresses (n + 1)"
proof (cases "map_of g a")
  case None
  let ?g1 = "if length g \<ge> maxTrackedAddresses then guard_prune g now else g"
  have d: "distinct (map fst g)" using assms(1) by (simp add: table_ok_def)
  have g': "g' = AList.update a (fresh_address now) ?g1" using assms(4) unfolding guard_state_def None Let_def option.case prod.inject by (rule conjunct2 [THEN sym])
  have "length ?g1 < maxTrackedAddresses \<or> length ?g1 \<le> size out"
  proof (cases "maxTrackedAddresses \<le> length g \<and> maxTrackedAddresses \<le> length (filter (\<lambda>(_, s). \<not> guard_idle now s) g)")
    case True
    then have "?g1 = filter (\<lambda>(_, s). ad_inflight s \<noteq> 0) (filter (\<lambda>(_, s). \<not> guard_idle now s) g)" by (simp add: guard_prune_def)
    then show ?thesis using entries_in_flight [OF assms(1), of ?g1] d by (auto simp: list_all_iff distinct_filter_keys)
  next
    case False
    then show ?thesis by (auto simp: guard_prune_def Let_def)
  qed
  then show ?thesis using assms(3) by (auto simp: g' length_update)
next
  case (Some u)
  then show ?thesis using assms(2,4) by (auto simp: guard_state_def Let_def length_update)
qed

definition run_ok :: "time \<Rightarrow> guard_run \<Rightarrow> bool" where
  "run_ok t0 r \<longleftrightarrow>
     table_ok t0 (gr_last r) (gr_sweeps r) (gr_out r) (gr_admitted r) (gr_guard r) \<and> size (gr_out r) \<le> gr_peak r \<and>
     length (gr_guard r) \<le> max maxTrackedAddresses (gr_peak r + 1)"

lemma run_admit_ok:
  assumes "run_ok t0 r" "gr_last r \<le> now"
  shows "run_ok t0 (run_admit r a now)"
proof -
  obtain s g1 where g1: "guard_state (gr_guard r) a now = (s, g1)" by fastforce
  let ?n = "gr_sweeps r + (if swept (gr_guard r) a now then 1 else 0)"
  have t: "table_ok t0 now ?n (gr_out r) (gr_admitted r) g1" "map_of g1 a = Some s" using guard_state_ok [OF _ assms(2) g1] assms(1) by (auto simp: run_ok_def)
  have l: "length g1 \<le> max maxTrackedAddresses (gr_peak r + 1)" using guard_state_length [OF _ _ _ g1] assms(1) by (auto simp: run_ok_def)
  have e: "entry_ok t0 now ?n (count (gr_out r) a) (gr_admitted r a) (Some s)" using t unfolding table_ok_def by metis
  show ?thesis
  proof (cases "ad_inflight s < maxPreAuthPerAddress \<and> 1 \<le> ad_tokens s")
    case True
    let ?s = "s\<lparr>ad_tokens := ad_tokens s - 1, ad_inflight := ad_inflight s + 1\<rparr>"
    let ?adm = "(gr_admitted r)(a := gr_admitted r a + 1)"
    have "entry_ok t0 now ?n (count (add_mset a (gr_out r)) a) (?adm a) (Some ?s)" using e True by (simp add: entry_ok_def maxPreAuthPerAddress_def)
    then have "table_ok t0 now ?n (add_mset a (gr_out r)) ?adm (AList.update a ?s g1)" by (rule table_ok_update [OF t(1)]) simp
    then show ?thesis using True l t(2) by (auto simp: run_admit_def guard_admit_def g1 run_ok_def length_update)
  next
    case False
    then have "guard_admit (gr_guard r) a now = (if maxPreAuthPerAddress \<le> ad_inflight s then ''address_inflight'' else ''address_rate'', g1)" by (auto simp: guard_admit_def g1)
    moreover have "(if maxPreAuthPerAddress \<le> ad_inflight s then ''address_inflight'' else ''address_rate'') \<noteq> []" by simp
    ultimately obtain reason where "guard_admit (gr_guard r) a now = (reason, g1)" "reason \<noteq> []" by blast
    then show ?thesis using t(1) l assms(1) by (simp add: run_admit_def run_ok_def)
  qed
qed

lemma run_log_ok:
  assumes "run_ok t0 r" "gr_last r \<le> now"
  shows "run_ok t0 (run_log r a now)"
proof -
  obtain s g1 where g1: "guard_state (gr_guard r) a now = (s, g1)" by fastforce
  let ?n = "gr_sweeps r + (if swept (gr_guard r) a now then 1 else 0)"
  have t: "table_ok t0 now ?n (gr_out r) (gr_admitted r) g1" "map_of g1 a = Some s" using guard_state_ok [OF _ assms(2) g1] assms(1) by (auto simp: run_ok_def)
  have l: "length g1 \<le> max maxTrackedAddresses (gr_peak r + 1)" using guard_state_length [OF _ _ _ g1] assms(1) by (auto simp: run_ok_def)
  have "entry_ok t0 now ?n (count (gr_out r) a) (gr_admitted r a) (Some s)" using t unfolding table_ok_def by metis
  then have "table_ok t0 now ?n (gr_out r) (gr_admitted r) (AList.update a (s\<lparr>ad_logTokens := ad_logTokens s - 1\<rparr>) g1)" if "1 \<le> ad_logTokens s"
    using that by (intro table_ok_update [OF t(1)]) (auto simp: entry_ok_def)
  then show ?thesis using t l assms(1) by (auto simp: run_log_def guard_allowLog_def g1 run_ok_def length_update)
qed

lemma run_release_ok:
  assumes "run_ok t0 r" "a \<in># gr_out r"
  shows "run_ok t0 (r\<lparr>gr_guard := guard_release (gr_guard r) a, gr_out := gr_out r - {#a#}\<rparr>)"
proof -
  have t: "table_ok t0 (gr_last r) (gr_sweeps r) (gr_out r) (gr_admitted r) (gr_guard r)" using assms(1) by (simp add: run_ok_def)
  then have e: "entry_ok t0 (gr_last r) (gr_sweeps r) (count (gr_out r) a) (gr_admitted r a) (map_of (gr_guard r) a)" by (simp add: table_ok_def)
  have "count (gr_out r) a \<noteq> 0" using assms(2) by simp
  with e obtain s where "map_of (gr_guard r) a = Some s" by (cases "map_of (gr_guard r) a") (simp_all add: entry_ok_def)
  with e have s: "map_of (gr_guard r) a = Some s" "entry_ok t0 (gr_last r) (gr_sweeps r) (count (gr_out r) a) (gr_admitted r a) (Some s)" by simp_all
  have "0 < count (gr_out r) a" using assms(2) by simp
  then have "entry_ok t0 (gr_last r) (gr_sweeps r) (count (gr_out r - {#a#}) a) (gr_admitted r a) (Some (s\<lparr>ad_inflight := ad_inflight s - 1\<rparr>))"
    using s(2) by (auto simp: entry_ok_def of_nat_diff)
  then have "table_ok t0 (gr_last r) (gr_sweeps r) (gr_out r - {#a#}) (gr_admitted r) (guard_release (gr_guard r) a)"
    unfolding guard_release_def s(1) option.case by (rule table_ok_update [OF t]) simp
  moreover have "size (gr_out r - {#a#}) \<le> size (gr_out r)" by (simp add: size_mset_mono)
  ultimately show ?thesis using assms(1) by (auto simp: run_ok_def guard_release_def s(1) length_update)
qed

lemma guard_reach_ok: "guard_reach t0 r \<Longrightarrow> run_ok t0 r"
proof (induction rule: guard_reach.induct)
  case start
  then show ?case by (simp add: run_ok_def run0_def table_ok_def entry_ok_def allowance_def seconds_def maxTrackedAddresses_def)
qed (simp_all add: run_admit_ok run_log_ok run_release_ok)

text \<open>C23: what one address can do before it authenticates. On every run with a clock that does not go back: an address has at most eight connections in flight, as many as the table counts
  for it, so that no release is lost; it is granted at most 64 connections plus 32 a second, and 64 more for every time a full table had to be swept of all idle addresses; and the table
  holds at most 4096 addresses, or one more than were ever in flight.\<close>

theorem guard_bounds:
  assumes "guard_reach t0 r"
  shows "int (count (gr_out r) a) = (case map_of (gr_guard r) a of None \<Rightarrow> 0 | Some s \<Rightarrow> ad_inflight s) \<and> count (gr_out r) a \<le> 8 \<and>
     real (gr_admitted r a) \<le> 64 * (1 + real (gr_sweeps r)) + 32 * seconds (gr_last r - t0) \<and>
     length (gr_guard r) \<le> max 4096 (gr_peak r + 1)"
proof -
  have ok: "run_ok t0 r" by (rule guard_reach_ok [OF assms])
  then have e: "entry_ok t0 (gr_last r) (gr_sweeps r) (count (gr_out r) a) (gr_admitted r a) (map_of (gr_guard r) a)" by (simp add: run_ok_def table_ok_def)
  have "real (gr_admitted r a) \<le> allowance t0 (Suc (gr_sweeps r)) (gr_last r)"
  proof (cases "map_of (gr_guard r) a")
    case None
    then show ?thesis using e allowance_mono [of "gr_sweeps r" "Suc (gr_sweeps r)" "gr_last r" "gr_last r" t0] by (simp add: entry_ok_def)
  next
    case (Some s)
    then show ?thesis using e allowance_mono [of "Suc (gr_sweeps r)" "Suc (gr_sweeps r)" "ad_refilled s" "gr_last r" t0] by (simp add: entry_ok_def)
  qed
  then show ?thesis using e ok by (auto simp: entry_ok_def run_ok_def maxTrackedAddresses_def allowance_def split: option.splits)
qed

theorem guard_bounds_witness:
  "real (gr_admitted (run_admit (run0 0) ''192.0.2.1'' Second) ''192.0.2.1'') \<le>
     64 * (1 + real (gr_sweeps (run_admit (run0 0) ''192.0.2.1'' Second))) + 32 * seconds (gr_last (run_admit (run0 0) ''192.0.2.1'' Second) - 0) \<and>
   gr_admitted (run_admit (run0 0) ''192.0.2.1'' Second) ''192.0.2.1'' = 1"
proof -
  have "guard_reach 0 (run_admit (run0 0) ''192.0.2.1'' Second)" by (rule guard_reach.admit [OF guard_reach.start]) (simp add: run0_def Second_def)
  moreover have "guard_admit [] ''192.0.2.1'' Second = ([], [(''192.0.2.1'', \<lparr>ad_inflight = 1, ad_tokens = 63, ad_logTokens = preAuthLogLines, ad_refilled = Second\<rparr>)])"
    by (simp add: guard_admit_def guard_state_def Let_def fresh_address_def maxPreAuthPerAddress_def preAuthBurst_def maxTrackedAddresses_def)
  then have "gr_admitted (run_admit (run0 0) ''192.0.2.1'' Second) ''192.0.2.1'' = 1" by (simp add: run_admit_def run0_def Let_def)
  ultimately show ?thesis using guard_bounds [of 0 "run_admit (run0 0) ''192.0.2.1'' Second" "''192.0.2.1''"] by blast
qed

text \<open>A clipped field is a prefix that ends before the first byte of a character, or the field itself, and never longer than 67 bytes.\<close>

lemma cut_back_le: "cut_back s n \<le> n"
  by (induction n) (auto simp: le_SucI)

lemma cut_back_start: "cut_back s n = 0 \<or> RuneStart (s ! cut_back s n)"
  by (induction n) auto

lemma clipHelloField_bounded: "length (clipHelloField s) \<le> 67"
  using cut_back_le [of s loggedHelloFieldMax] by (auto simp: clipHelloField_def loggedHelloFieldMax_def)

end
