(* ===== verification/ObserverContext.thy ===== *)
theory ObserverContext
  imports "HOL-Library.Word" "HOL-Library.Multiset" "HOL-Library.List_Lexorder" "HOL-Library.Char_ord" "HOL-Library.Product_Lexorder"
begin

text \<open>
  Who a contributor is and what may be done with its observations: the resolved contexts of \<^verbatim>\<open>go/internal/identity/context.go\<close> and the canonical signal space of
  \<^verbatim>\<open>signal.go\<close>. A Go string is its bytes, so that string order is the order of bytes; a regular expression is the predicate it stands for.
\<close>

section \<open>Identifiers\<close>

definition between :: "char \<Rightarrow> char \<Rightarrow> char \<Rightarrow> bool" where
  "between lo hi c \<longleftrightarrow> lo \<le> c \<and> c \<le> hi"

definition alnum :: "char \<Rightarrow> bool" where
  "alnum c \<longleftrightarrow> between (CHR ''A'') (CHR ''Z'') c \<or> between (CHR ''a'') (CHR ''z'') c \<or> between (CHR ''0'') (CHR ''9'') c"

definition ValidScopeID :: "string \<Rightarrow> bool" where
  "ValidScopeID s = (case s of [] \<Rightarrow> False | c # cs \<Rightarrow> alnum c \<and> length cs \<le> 252 \<and> list_all (\<lambda>x. alnum x \<or> x = CHR ''.'' \<or> x = CHR ''_'' \<or> x = CHR '':'' \<or> x = CHR ''-'') cs)"

definition certificateFingerprint :: "string \<Rightarrow> bool" where
  "certificateFingerprint s \<longleftrightarrow> length s = 64 \<and> list_all (\<lambda>c. between (CHR ''0'') (CHR ''9'') c \<or> between (CHR ''a'') (CHR ''f'') c) s"

definition ValidObserverID :: "string \<Rightarrow> bool" where
  "ValidObserverID s \<longleftrightarrow> \<not> (length s = 0 \<or> length s > 253) \<and> list_all (\<lambda>c. alnum c \<or> c = CHR ''.'' \<or> c = CHR ''-'') s"

text \<open>\<^verbatim>\<open>utf8.ValidString\<close>: well-formed sequences of one to four bytes, with no overlong form, no surrogate and nothing past U+10FFFF.\<close>

definition utf8_tail :: "char \<Rightarrow> bool" where
  "utf8_tail c = between (CHR 0x80) (CHR 0xBF) c"

fun utf8_ValidString :: "string \<Rightarrow> bool" where
  "utf8_ValidString [] \<longleftrightarrow> True"
| "utf8_ValidString (a # s) =
     (if between (CHR 0x00) (CHR 0x7F) a then utf8_ValidString s
      else case s of [] \<Rightarrow> False
      | b # t \<Rightarrow>
          if between (CHR 0xC2) (CHR 0xDF) a then utf8_tail b \<and> utf8_ValidString t
          else case t of [] \<Rightarrow> False
          | c # u \<Rightarrow>
              if between (CHR 0xE0) (CHR 0xEF) a
              then utf8_tail b \<and> utf8_tail c \<and> (a = CHR 0xE0 \<longrightarrow> CHR 0xA0 \<le> b) \<and> (a = CHR 0xED \<longrightarrow> b \<le> CHR 0x9F) \<and> utf8_ValidString u
              else case u of [] \<Rightarrow> False
              | d # v \<Rightarrow> between (CHR 0xF0) (CHR 0xF4) a \<and> utf8_tail b \<and> utf8_tail c \<and> utf8_tail d \<and>
                  (a = CHR 0xF0 \<longrightarrow> CHR 0x90 \<le> b) \<and> (a = CHR 0xF4 \<longrightarrow> b \<le> CHR 0x8F) \<and> utf8_ValidString v)"

definition ValidOpaqueObserverID :: "string \<Rightarrow> bool" where
  "ValidOpaqueObserverID s \<longleftrightarrow> s \<noteq> [] \<and> utf8_ValidString s"

section \<open>Signals\<close>

record signal =
  GnssID :: int
  SigID :: int

definition CanonicalSigID :: "int \<Rightarrow> int \<Rightarrow> int" where
  "CanonicalSigID gnssID sigID =
     (if gnssID = 0 then if sigID = 4 then 3 else if sigID = 7 then 6 else sigID
      else if gnssID = 2 then if sigID = 1 then 0 else if sigID = 4 then 3 else if sigID = 6 then 5 else sigID
      else if gnssID = 3 then if sigID = 1 then 0 else if sigID = 3 then 2 else if sigID = 6 then 5 else if sigID = 7 then 8 else sigID
      else if gnssID = 5 then if sigID = 5 then 4 else if sigID = 9 then 8 else sigID
      else sigID)"

definition Canonical :: "signal \<Rightarrow> signal" where
  "Canonical s = \<lparr>GnssID = GnssID s, SigID = CanonicalSigID (GnssID s) (SigID s)\<rparr>"

fun unseen :: "'a list \<Rightarrow> 'a list \<Rightarrow> 'a list" where
  "unseen seen [] = []"
| "unseen seen (x # xs) = (if x \<in> set seen then unseen seen xs else x # unseen (x # seen) xs)"

definition canonicalSignals :: "signal list \<Rightarrow> signal list" where
  "canonicalSignals signals = sort_key (\<lambda>s. (GnssID s, SigID s)) (unseen [] (map Canonical signals))"

section \<open>Contexts\<close>

record publication_policy =
  AggregateUse :: string
  StationMetadata :: string
  EventVisibility :: string
  RawExport :: string
  FederationPeers :: "string list"
  Signals :: "signal list"
  Revision :: string

record observer_context =
  ObserverID :: string
  OrganizationID :: string
  EnrollmentID :: string
  OperationalAuthorityID :: string
  ManufacturerAuthorityID :: string
  IssuerSPKI :: string
  CoreSignerSPKI :: string
  CoreAttestationFingerprint :: string
  HardwareProduct :: "16 word"
  HardwareRevision :: "16 word"
  CollectorInstanceID :: string
  CollectionIDs :: "string list"
  FeedGrants :: "string list"
  DeclaredCapabilities :: "signal list"
  CredentialTier :: string
  CredentialFingerprint :: string
  AttestationTier :: string
  HardwareTrust :: string
  CommissioningSignerSPKI :: string
  RegistrySignerSPKI :: string
  CommissioningFingerprint :: string
  Publication :: publication_policy

definition empty_context :: observer_context where
  "empty_context =
     \<lparr>ObserverID = [], OrganizationID = [], EnrollmentID = [], OperationalAuthorityID = [], ManufacturerAuthorityID = [], IssuerSPKI = [], CoreSignerSPKI = [],
      CoreAttestationFingerprint = [], HardwareProduct = 0, HardwareRevision = 0, CollectorInstanceID = [], CollectionIDs = [], FeedGrants = [], DeclaredCapabilities = [],
      CredentialTier = [], CredentialFingerprint = [], AttestationTier = [], HardwareTrust = [], CommissioningSignerSPKI = [], RegistrySignerSPKI = [], CommissioningFingerprint = [],
      Publication = \<lparr>AggregateUse = [], StationMetadata = [], EventVisibility = [], RawExport = [], FederationPeers = [], Signals = [], Revision = []\<rparr>\<rparr>"

definition UnassignedOrganization :: string where "UnassignedOrganization = ''local-unassigned''"
definition LocalCollectorInstance :: string where "LocalCollectorInstance = ''local''"
definition CredentialLocalDial :: string where "CredentialLocalDial = ''local_dial''"
definition CredentialToken :: string where "CredentialToken = ''token''"
definition CredentialSoftwareMTLS :: string where "CredentialSoftwareMTLS = ''software_mtls''"
definition CredentialHardwareMTLS :: string where "CredentialHardwareMTLS = ''hardware_mtls''"
definition AttestationNone :: string where "AttestationNone = ''none''"
definition AttestationVerifiedV1Core :: string where "AttestationVerifiedV1Core = ''verified_v1_core''"
definition HardwareTrustNone :: string where "HardwareTrustNone = ''none''"
definition HardwareTrustOpen :: string where "HardwareTrustOpen = ''open''"
definition HardwareTrustTest :: string where "HardwareTrustTest = ''test''"
definition HardwareTrustTrusted :: string where "HardwareTrustTrusted = ''trusted''"
definition AggregatePrivate :: string where "AggregatePrivate = ''private''"
definition AggregatePublicAnonymous :: string where "AggregatePublicAnonymous = ''public_anonymous''"
definition AggregatePublicAttributed :: string where "AggregatePublicAttributed = ''public_attributed''"
definition EventsPrivate :: string where "EventsPrivate = ''private''"
definition EventsPublicRedacted :: string where "EventsPublicRedacted = ''public_redacted''"
definition EventsPublic :: string where "EventsPublic = ''public''"
definition RawExportDeny :: string where "RawExportDeny = ''deny''"
definition RawExportNamedPeers :: string where "RawExportNamedPeers = ''named_peers''"
definition RawExportPublic :: string where "RawExportPublic = ''public''"
definition MetadataNone :: string where "MetadataNone = ''none''"
definition MetadataCoarse :: string where "MetadataCoarse = ''coarse''"
definition MetadataFull :: string where "MetadataFull = ''full''"

lemmas identity_words = UnassignedOrganization_def LocalCollectorInstance_def CredentialLocalDial_def CredentialToken_def CredentialSoftwareMTLS_def CredentialHardwareMTLS_def AttestationNone_def
  AttestationVerifiedV1Core_def HardwareTrustNone_def HardwareTrustOpen_def HardwareTrustTest_def HardwareTrustTrusted_def AggregatePrivate_def AggregatePublicAnonymous_def
  AggregatePublicAttributed_def EventsPrivate_def EventsPublicRedacted_def EventsPublic_def RawExportDeny_def RawExportNamedPeers_def RawExportPublic_def MetadataNone_def
  MetadataCoarse_def MetadataFull_def

definition NewPrivateContext :: "string \<Rightarrow> string \<Rightarrow> observer_context" where
  "NewPrivateContext observerID tier =
     empty_context\<lparr>ObserverID := observerID, OrganizationID := UnassignedOrganization, EnrollmentID := ''config:'' @ observerID, OperationalAuthorityID := ''local'',
       CollectorInstanceID := LocalCollectorInstance, FeedGrants := [''local''], CredentialTier := tier, AttestationTier := AttestationNone, HardwareTrust := HardwareTrustNone,
       Publication := \<lparr>AggregateUse = AggregatePrivate, StationMetadata = MetadataNone, EventVisibility = EventsPrivate, RawExport = RawExportDeny, FederationPeers = [], Signals = [],
         Revision = ''config-private-v1''\<rparr>\<rparr>"

section \<open>Normalisation\<close>

text \<open>The loops over a list of identifiers and over a list of signals, with the identifiers met before.\<close>

datatype context_error =
    ObserverRequired | ObserverNotUtf8 | ScopeInvalid | TooMany string nat | NoFeedGrant | IdInvalid string string | IdDuplicated string string
  | SignalOutside string signal | SignalDuplicated string signal | ValueInvalid string string | FingerprintMalformed string | FingerprintMismatch | TrustWithoutManufacturer
  | SoftwareClaimsEvidence | CoreIncomplete | AttributedWithoutMetadata | EventsWithoutAggregate | NamedPeersEmpty

fun check_ids :: "string \<Rightarrow> string list \<Rightarrow> string list \<Rightarrow> context_error option" where
  "check_ids what seen [] = None"
| "check_ids what seen (s # ss) = (if \<not> ValidScopeID s then Some (IdInvalid what s) else if s \<in> set seen then Some (IdDuplicated what s) else check_ids what (s # seen) ss)"

definition wire_domain :: "signal \<Rightarrow> bool" where
  "wire_domain s \<longleftrightarrow> \<not> (GnssID s < 0 \<or> GnssID s > 7 \<or> SigID s < 0 \<or> SigID s > 255)"

fun check_signals :: "string \<Rightarrow> signal list \<Rightarrow> signal list \<Rightarrow> context_error option" where
  "check_signals what seen [] = None"
| "check_signals what seen (s # ss) = (if \<not> wire_domain s then Some (SignalOutside what s) else if s \<in> set seen then Some (SignalDuplicated what s) else check_signals what (s # seen) ss)"

definition refuse_if :: "bool \<Rightarrow> context_error \<Rightarrow> context_error option" where
  "refuse_if b e = (if b then Some e else None)"

text \<open>What \<^verbatim>\<open>Normalize\<close> fills in and puts in order.\<close>

definition or_default :: "string \<Rightarrow> string \<Rightarrow> string" where
  "or_default s d = (if s = [] then d else s)"

definition normalize_publication :: "publication_policy \<Rightarrow> publication_policy" where
  "normalize_publication p =
     p\<lparr>AggregateUse := or_default (AggregateUse p) AggregatePrivate, StationMetadata := or_default (StationMetadata p) MetadataNone,
       EventVisibility := or_default (EventVisibility p) EventsPrivate, RawExport := or_default (RawExport p) RawExportDeny, FederationPeers := sort (FederationPeers p),
       Signals := canonicalSignals (Signals p), Revision := or_default (Revision p) ''config-private-v1''\<rparr>"

definition normalize_fill :: "observer_context \<Rightarrow> observer_context" where
  "normalize_fill c =
     c\<lparr>OrganizationID := or_default (OrganizationID c) UnassignedOrganization, EnrollmentID := or_default (EnrollmentID c) (''config:'' @ ObserverID c),
       CollectorInstanceID := or_default (CollectorInstanceID c) LocalCollectorInstance, CollectionIDs := sort (CollectionIDs c), FeedGrants := sort (FeedGrants c),
       DeclaredCapabilities := canonicalSignals (DeclaredCapabilities c), CredentialTier := or_default (CredentialTier c) CredentialToken,
       AttestationTier := or_default (AttestationTier c) AttestationNone, HardwareTrust := or_default (HardwareTrust c) HardwareTrustNone,
       Publication := normalize_publication (Publication c)\<rparr>"

text \<open>The refusals of \<^verbatim>\<open>Normalize\<close> in its order, on the context \<open>c\<close> as given and \<open>d\<close> as filled. Where the code ranges over a map of named fields, the first field refused depends on the
  map's order; the refusal does not name it.\<close>

definition identity_checks :: "observer_context \<Rightarrow> observer_context \<Rightarrow> context_error option list" where
  "identity_checks c d =
     [refuse_if (ObserverID c = []) ObserverRequired,
      refuse_if (\<not> ValidOpaqueObserverID (ObserverID c)) ObserverNotUtf8,
      refuse_if (\<not> list_all ValidScopeID [OperationalAuthorityID d, OrganizationID d, EnrollmentID d, CollectorInstanceID d]) ScopeInvalid,
      refuse_if (length (CollectionIDs c) > 64) (TooMany ''collection'' (length (CollectionIDs c))),
      check_ids ''collection'' [] (CollectionIDs c),
      refuse_if (length (FeedGrants c) = 0) NoFeedGrant,
      refuse_if (length (FeedGrants c) > 16) (TooMany ''feed'' (length (FeedGrants c))),
      check_ids ''feed'' [] (FeedGrants c),
      refuse_if (length (DeclaredCapabilities c) > 256) (TooMany ''capability'' (length (DeclaredCapabilities c))),
      check_signals ''capability'' [] (DeclaredCapabilities c)]"

definition evidence_checks :: "observer_context \<Rightarrow> context_error option list" where
  "evidence_checks d =
     [refuse_if (CredentialTier d \<notin> {CredentialLocalDial, CredentialToken, CredentialSoftwareMTLS, CredentialHardwareMTLS}) (ValueInvalid ''credential tier'' (CredentialTier d)),
      refuse_if (CredentialFingerprint d \<noteq> [] \<and> \<not> certificateFingerprint (CredentialFingerprint d)) (FingerprintMalformed ''credential''),
      refuse_if (AttestationTier d \<notin> {AttestationNone, AttestationVerifiedV1Core}) (ValueInvalid ''attestation tier'' (AttestationTier d)),
      refuse_if (HardwareTrust d \<notin> {HardwareTrustNone, HardwareTrustOpen, HardwareTrustTest, HardwareTrustTrusted}) (ValueInvalid ''hardware trust'' (HardwareTrust d)),
      refuse_if ((HardwareTrust d = HardwareTrustNone) \<noteq> (CommissioningFingerprint d = [])) FingerprintMismatch,
      refuse_if (HardwareTrust d \<noteq> HardwareTrustNone \<and> ManufacturerAuthorityID d = []) TrustWithoutManufacturer,
      refuse_if (ManufacturerAuthorityID d \<noteq> [] \<and> \<not> ValidScopeID (ManufacturerAuthorityID d)) (IdInvalid ''manufacturer authority'' (ManufacturerAuthorityID d)),
      refuse_if (\<not> list_all (\<lambda>v. v = [] \<or> certificateFingerprint v) [IssuerSPKI d, CoreSignerSPKI d, CoreAttestationFingerprint d, CommissioningSignerSPKI d, RegistrySignerSPKI d])
        (FingerprintMalformed ''signer''),
      refuse_if (ManufacturerAuthorityID d = [] \<and>
          (CoreSignerSPKI d \<noteq> [] \<or> CoreAttestationFingerprint d \<noteq> [] \<or> HardwareProduct d \<noteq> 0 \<or> HardwareRevision d \<noteq> 0 \<or> AttestationTier d \<noteq> AttestationNone))
        SoftwareClaimsEvidence,
      refuse_if (AttestationTier d = AttestationVerifiedV1Core \<and>
          (ManufacturerAuthorityID d = [] \<or> CoreSignerSPKI d = [] \<or> CoreAttestationFingerprint d = [] \<or> HardwareProduct d = 0))
        CoreIncomplete,
      refuse_if (CommissioningFingerprint d \<noteq> [] \<and> \<not> certificateFingerprint (CommissioningFingerprint d)) (FingerprintMalformed ''commissioning'')]"

definition publication_checks :: "publication_policy \<Rightarrow> publication_policy \<Rightarrow> context_error option list" where
  "publication_checks p q =
     [refuse_if (AggregateUse q \<notin> {AggregatePrivate, AggregatePublicAnonymous, AggregatePublicAttributed}) (ValueInvalid ''aggregate use'' (AggregateUse q)),
      refuse_if (StationMetadata q \<notin> {MetadataNone, MetadataCoarse, MetadataFull}) (ValueInvalid ''station metadata'' (StationMetadata q)),
      refuse_if (AggregateUse q = AggregatePublicAttributed \<and> StationMetadata q \<noteq> MetadataCoarse \<and> StationMetadata q \<noteq> MetadataFull) AttributedWithoutMetadata,
      refuse_if (EventVisibility q \<notin> {EventsPrivate, EventsPublicRedacted, EventsPublic}) (ValueInvalid ''event visibility'' (EventVisibility q)),
      refuse_if (AggregateUse q = AggregatePrivate \<and> EventVisibility q \<noteq> EventsPrivate) EventsWithoutAggregate,
      refuse_if (RawExport q \<notin> {RawExportDeny, RawExportNamedPeers, RawExportPublic}) (ValueInvalid ''raw export'' (RawExport q)),
      check_ids ''federation peer'' [] (FederationPeers p),
      refuse_if (RawExport q = RawExportNamedPeers \<and> length (FederationPeers p) = 0) NamedPeersEmpty,
      check_signals ''publication'' [] (Signals p),
      refuse_if (\<not> ValidScopeID (Revision q)) (IdInvalid ''policy revision'' (Revision q))]"

fun first_error :: "context_error option list \<Rightarrow> context_error option" where
  "first_error [] = None"
| "first_error (Some e # es) = Some e"
| "first_error (None # es) = first_error es"

definition Normalize :: "observer_context \<Rightarrow> context_error + observer_context" where
  "Normalize c =
     (let d = normalize_fill c
      in case first_error (identity_checks c d @ evidence_checks d @ publication_checks (Publication c) (Publication d)) of Some e \<Rightarrow> Inl e | None \<Rightarrow> Inr d)"

section \<open>What a context permits\<close>

definition PublicEligible :: "observer_context \<Rightarrow> bool" where
  "PublicEligible c \<longleftrightarrow> AggregateUse (Publication c) = AggregatePublicAnonymous \<or> AggregateUse (Publication c) = AggregatePublicAttributed"

definition PublicAttributed :: "observer_context \<Rightarrow> bool" where
  "PublicAttributed c \<longleftrightarrow> AggregateUse (Publication c) = AggregatePublicAttributed"

definition WithSessionEvidence :: "observer_context \<Rightarrow> string \<Rightarrow> string \<Rightarrow> string \<Rightarrow> context_error option + observer_context" where
  "WithSessionEvidence c trust manufacturerAuthorityID fingerprint =
     (if manufacturerAuthorityID \<noteq> ManufacturerAuthorityID c then Inl None
      else case Normalize (c\<lparr>HardwareTrust := trust, CommissioningFingerprint := fingerprint\<rparr>) of Inl e \<Rightarrow> Inl (Some e) | Inr d \<Rightarrow> Inr d)"

definition WithCredentialTier :: "observer_context \<Rightarrow> string \<Rightarrow> observer_context" where
  "WithCredentialTier c tier = c\<lparr>CredentialTier := tier\<rparr>"

definition AuthorizationEqual :: "observer_context \<Rightarrow> observer_context \<Rightarrow> bool" where
  "AuthorizationEqual c other \<longleftrightarrow>
     ObserverID c = ObserverID other \<and> OrganizationID c = OrganizationID other \<and> EnrollmentID c = EnrollmentID other \<and> CollectorInstanceID c = CollectorInstanceID other \<and>
     CredentialTier c = CredentialTier other \<and> CredentialFingerprint c = CredentialFingerprint other \<and> AttestationTier c = AttestationTier other \<and>
     OperationalAuthorityID c = OperationalAuthorityID other \<and> ManufacturerAuthorityID c = ManufacturerAuthorityID other \<and> IssuerSPKI c = IssuerSPKI other \<and>
     CoreSignerSPKI c = CoreSignerSPKI other \<and> CoreAttestationFingerprint c = CoreAttestationFingerprint other \<and> HardwareProduct c = HardwareProduct other \<and>
     HardwareRevision c = HardwareRevision other \<and> AggregateUse (Publication c) = AggregateUse (Publication other) \<and>
     StationMetadata (Publication c) = StationMetadata (Publication other) \<and> EventVisibility (Publication c) = EventVisibility (Publication other) \<and>
     RawExport (Publication c) = RawExport (Publication other) \<and> Revision (Publication c) = Revision (Publication other) \<and> CollectionIDs c = CollectionIDs other \<and>
     FeedGrants c = FeedGrants other \<and> DeclaredCapabilities c = DeclaredCapabilities other \<and> FederationPeers (Publication c) = FederationPeers (Publication other) \<and>
     Signals (Publication c) = Signals (Publication other)"

definition AllowsSignal :: "publication_policy \<Rightarrow> int \<Rightarrow> int \<Rightarrow> bool" where
  "AllowsSignal p gnssID sigID \<longleftrightarrow> length (Signals p) = 0 \<or> list_ex (\<lambda>s. Canonical s = Canonical \<lparr>GnssID = gnssID, SigID = sigID\<rparr>) (Signals p)"

definition NamesFederationPeer :: "publication_policy \<Rightarrow> string \<Rightarrow> bool" where
  "NamesFederationPeer p peer \<longleftrightarrow> list_ex (\<lambda>allowed. allowed = peer) (FederationPeers p)"


section \<open>Normal forms\<close>

lemma CanonicalSigID_idem: "CanonicalSigID g (CanonicalSigID g s) = CanonicalSigID g s"
  by (simp add: CanonicalSigID_def)

lemma Canonical_idem [simp]: "Canonical (Canonical s) = Canonical s"
  by (simp add: Canonical_def CanonicalSigID_idem)

lemma CanonicalSigID_range: "0 \<le> s \<Longrightarrow> s \<le> 255 \<Longrightarrow> 0 \<le> CanonicalSigID g s \<and> CanonicalSigID g s \<le> 255"
  by (simp add: CanonicalSigID_def)

lemma wire_domain_Canonical: "wire_domain s \<Longrightarrow> wire_domain (Canonical s)"
  using CanonicalSigID_range [of "SigID s" "GnssID s"] by (simp add: wire_domain_def Canonical_def)

lemma set_unseen: "set (unseen seen xs) = set xs - set seen"
  by (induction seen xs rule: unseen.induct) auto

lemma distinct_unseen: "distinct (unseen seen xs)"
  by (induction seen xs rule: unseen.induct) (auto simp: set_unseen)

lemma unseen_distinct: "distinct xs \<Longrightarrow> set seen \<inter> set xs = {} \<Longrightarrow> unseen seen xs = xs"
  by (induction seen xs rule: unseen.induct) auto

lemma set_canonicalSignals [simp]: "set (canonicalSignals xs) = Canonical ` set xs"
  by (simp add: canonicalSignals_def set_unseen)

lemma distinct_canonicalSignals [simp]: "distinct (canonicalSignals xs)"
  by (simp add: canonicalSignals_def distinct_unseen)

lemma canonicalSignals_idem [simp]: "canonicalSignals (canonicalSignals xs) = canonicalSignals xs"
proof -
  have "map Canonical (canonicalSignals xs) = canonicalSignals xs" by (rule map_idI) auto
  then have "canonicalSignals (canonicalSignals xs) = sort_key (\<lambda>s. (GnssID s, SigID s)) (canonicalSignals xs)"
    by (simp add: canonicalSignals_def [of "canonicalSignals xs"] unseen_distinct)
  also have "\<dots> = canonicalSignals xs" by (rule sort_key_id_if_sorted) (simp add: canonicalSignals_def)
  finally show ?thesis .
qed

lemma canonicalSignals_Nil_iff [simp]: "canonicalSignals xs = [] \<longleftrightarrow> xs = []"
  by (metis image_is_empty set_canonicalSignals set_empty)

lemma length_unseen_le: "length (unseen seen xs) \<le> length xs"
  by (induction seen xs rule: unseen.induct) auto

lemma length_canonicalSignals_le: "length (canonicalSignals xs) \<le> length xs"
  using length_unseen_le [of "[]" "map Canonical xs"] by (simp add: canonicalSignals_def)

lemma check_ids_None: "check_ids what seen ss = None \<longleftrightarrow> list_all ValidScopeID ss \<and> distinct ss \<and> set ss \<inter> set seen = {}"
  by (induction what seen ss rule: check_ids.induct) auto

lemma check_signals_None: "check_signals what seen ss = None \<longleftrightarrow> list_all wire_domain ss \<and> distinct ss \<and> set ss \<inter> set seen = {}"
  by (induction what seen ss rule: check_signals.induct) auto

lemma refuse_if_None [simp]: "refuse_if b e = None \<longleftrightarrow> \<not> b"
  by (simp add: refuse_if_def)

lemma first_error_None: "first_error es = None \<longleftrightarrow> list_all (\<lambda>e. e = None) es"
  by (induction es rule: first_error.induct) auto

lemma Normalize_Inr:
  "Normalize c = Inr d \<longleftrightarrow> d = normalize_fill c \<and>
     list_all (\<lambda>e. e = None) (identity_checks c d) \<and> list_all (\<lambda>e. e = None) (evidence_checks d) \<and> list_all (\<lambda>e. e = None) (publication_checks (Publication c) (Publication d))"
proof -
  let ?d = "normalize_fill c"
  let ?es = "identity_checks c ?d @ evidence_checks ?d @ publication_checks (Publication c) (Publication ?d)"
  have "first_error ?es = None \<longleftrightarrow> list_all (\<lambda>e. e = None) (identity_checks c ?d) \<and> list_all (\<lambda>e. e = None) (evidence_checks ?d) \<and>
      list_all (\<lambda>e. e = None) (publication_checks (Publication c) (Publication ?d))"
    by (simp add: first_error_None)
  then show ?thesis unfolding Normalize_def Let_def by (cases "first_error ?es") auto
qed

lemma or_default_idem [simp]: "or_default (or_default s d) d = or_default s d"
  by (simp add: or_default_def)

lemma sort_idem [simp]: "sort (sort xs) = sort xs"
  by (rule sort_key_id_if_sorted) simp

lemma normalize_publication_idem [simp]: "normalize_publication (normalize_publication p) = normalize_publication p"
  by (rule publication_policy.equality) (simp_all add: normalize_publication_def)

lemma normalize_fill_idem: "normalize_fill (normalize_fill c) = normalize_fill c"
  by (rule observer_context.equality) (simp_all add: normalize_fill_def)

lemma fill_identity_checks:
  assumes "list_all (\<lambda>e. e = None) (identity_checks c (normalize_fill c))"
  shows "list_all (\<lambda>e. e = None) (identity_checks (normalize_fill c) (normalize_fill c))"
proof -
  have "length (canonicalSignals (DeclaredCapabilities c)) \<le> 256" if "length (DeclaredCapabilities c) \<le> 256" using that length_canonicalSignals_le le_trans by blast
  then show ?thesis using assms
    by (auto simp: identity_checks_def check_ids_None check_signals_None normalize_fill_def list_all_iff wire_domain_Canonical)
qed

lemma fill_publication_checks:
  assumes "list_all (\<lambda>e. e = None) (publication_checks p (normalize_publication p))"
  shows "list_all (\<lambda>e. e = None) (publication_checks (normalize_publication p) (normalize_publication p))"
  using assms by (auto simp: publication_checks_def check_ids_None check_signals_None normalize_publication_def list_all_iff wire_domain_Canonical)

lemma Normalize_idem:
  assumes "Normalize c = Inr d"
  shows "Normalize d = Inr d"
proof -
  have d: "d = normalize_fill c" using assms by (simp add: Normalize_Inr)
  have "Publication d = normalize_publication (Publication c)" by (simp add: d normalize_fill_def)
  then show ?thesis using assms fill_identity_checks [of c] fill_publication_checks [of "Publication c"] by (simp add: Normalize_Inr d normalize_fill_idem)
qed

lemma AllowsSignal_normal: "AllowsSignal (normalize_publication p) g s = AllowsSignal p g s"
  by (auto simp: AllowsSignal_def normalize_publication_def list_ex_iff)

lemma NamesFederationPeer_normal: "NamesFederationPeer (normalize_publication p) peer = NamesFederationPeer p peer"
  by (simp add: NamesFederationPeer_def normalize_publication_def list_ex_iff)


text \<open>C22: normalisation is a normal form and widens nothing. A context that is accepted is accepted again unchanged; the observer, the public eligibility and attribution, the visible events, the
  raw export, every permitted signal and every named peer are those of the context it came from, so a default is only ever the private one; and trust in hardware is claimed exactly
  when a commissioning record is named.\<close>

theorem Normalize_safe:
  assumes "Normalize c = Inr d"
  shows "Normalize d = Inr d \<and> ObserverID d = ObserverID c \<and> PublicEligible d = PublicEligible c \<and> PublicAttributed d = PublicAttributed c \<and>
    (EventVisibility (Publication d) = EventsPublic \<longleftrightarrow> EventVisibility (Publication c) = EventsPublic) \<and>
    (EventVisibility (Publication d) = EventsPublicRedacted \<longleftrightarrow> EventVisibility (Publication c) = EventsPublicRedacted) \<and>
    (RawExport (Publication d) = RawExportPublic \<longleftrightarrow> RawExport (Publication c) = RawExportPublic) \<and>
    (RawExport (Publication d) = RawExportNamedPeers \<longleftrightarrow> RawExport (Publication c) = RawExportNamedPeers) \<and>
    (\<forall>g s. AllowsSignal (Publication d) g s = AllowsSignal (Publication c) g s) \<and> (\<forall>peer. NamesFederationPeer (Publication d) peer = NamesFederationPeer (Publication c) peer) \<and>
    (HardwareTrust d = HardwareTrustNone \<longleftrightarrow> CommissioningFingerprint c = [])"
proof -
  have d: "d = normalize_fill c" and e: "list_all (\<lambda>e. e = None) (evidence_checks d)" using assms unfolding Normalize_Inr by blast+
  have p: "Publication d = normalize_publication (Publication c)" by (simp add: d normalize_fill_def)
  have "HardwareTrust d = HardwareTrustNone \<longleftrightarrow> CommissioningFingerprint d = []" using e by (simp add: evidence_checks_def)
  then show ?thesis using Normalize_idem [OF assms]
    by (simp add: p AllowsSignal_normal NamesFederationPeer_normal)
      (simp add: d normalize_fill_def normalize_publication_def or_default_def PublicEligible_def PublicAttributed_def identity_words)
qed

theorem Normalize_safe_witness: "Normalize (NewPrivateContext ''rx-1'' CredentialToken) = Inr (NewPrivateContext ''rx-1'' CredentialToken) \<and> \<not> PublicEligible (NewPrivateContext ''rx-1'' CredentialToken)"
proof -
  have "Normalize (NewPrivateContext ''rx-1'' CredentialToken) = Inr (NewPrivateContext ''rx-1'' CredentialToken)" by code_simp
  from Normalize_safe [OF this] this show ?thesis by (simp add: PublicEligible_def NewPrivateContext_def identity_words)
qed

end
