(* ===== verification/AdmissionPolicy.thy ===== *)
theory AdmissionPolicy
  imports GoTime ObserverContext AssocLists
begin

text \<open>
  Admission of feeder sessions under a policy per observer, \<^verbatim>\<open>go/internal/ingest/admission.go\<close> with the sweep of \<^verbatim>\<open>reconcile.go\<close>. Goroutines interleave: every stretch of code under one lock is a step, the mutex over the table is held across a reclaim, and a send on the decode
  channel, a wait and a close are steps of their own. Pointers to policies, admissions and channels are indices into what has been allocated; a generation is a natural number, as
  its 64 bits do not run out.
\<close>

section \<open>One policy\<close>

definition maxTrackedObserverPolicies :: nat where "maxTrackedObserverPolicies = 1024"
definition maxPolicyCredentials :: nat where "maxPolicyCredentials = 8"
definition maxObserverSessions :: nat where "maxObserverSessions = 4"
definition defaultPolicyRetention :: duration where "defaultPolicyRetention = 7 * 24 * 60 * Minute"

type_synonym credential = "string \<times> string"

record observer_policy =
  po_generation :: nat
  po_current :: observer_context
  po_sessions :: "nat list"
  po_credentials :: "(credential \<times> time) list"
  po_verifiedAt :: time
  po_lastAdmitted :: time
  po_transition :: "nat option"

record admission =
  adm_policy :: nat
  adm_generation :: nat

definition new_policy :: observer_policy where
  "new_policy = \<lparr>po_generation = 0, po_current = empty_context, po_sessions = [], po_credentials = [], po_verifiedAt = 0, po_lastAdmitted = 0, po_transition = None\<rparr>"

text \<open>Retaining credentials. A map is visited in some order: the least recently admitted credential is the first of its kind on that visit.\<close>

definition older_credential :: "(credential \<times> time) list \<Rightarrow> credential option \<Rightarrow> credential \<Rightarrow> credential option" where
  "older_credential m best c = (case best of None \<Rightarrow> Some c | Some b \<Rightarrow> if the (map_of m c) < the (map_of m b) then Some c else Some b)"

definition retain_credential :: "(credential \<times> time) list \<Rightarrow> time \<Rightarrow> credential \<Rightarrow> credential list \<Rightarrow> (credential \<times> time) list" where
  "retain_credential m now c order =
     AList.update c now
       (if map_of m c = None \<and> maxPolicyCredentials \<le> length m then AList.delete (the (foldl (older_credential m) None order)) m else m)"

primrec retain_credentials :: "(credential \<times> time) list \<Rightarrow> time \<Rightarrow> (credential \<times> credential list) list \<Rightarrow> (credential \<times> time) list" where
  "retain_credentials m now [] = m"
| "retain_credentials m now (x # rest) = retain_credentials (retain_credential m now (fst x) (snd x)) now rest"

primrec orders_valid :: "(credential \<times> time) list \<Rightarrow> time \<Rightarrow> (credential \<times> credential list) list \<Rightarrow> bool" where
  "orders_valid m now [] \<longleftrightarrow> True"
| "orders_valid m now (x # rest) \<longleftrightarrow> mset (snd x) = mset (map fst m) \<and> orders_valid (retain_credential m now (fst x) (snd x)) now rest"

definition policy_verified :: "observer_policy \<Rightarrow> time \<Rightarrow> observer_policy" where
  "policy_verified p now = (if po_verifiedAt p < now then p\<lparr>po_verifiedAt := now\<rparr> else p)"

definition beginTransitionLocked :: "observer_policy \<Rightarrow> observer_context \<Rightarrow> nat \<Rightarrow> observer_policy" where
  "beginTransitionLocked p current pending =
     p\<lparr>po_generation := po_generation p + 1, po_current := current, po_credentials := [], po_sessions := [], po_transition := Some pending\<rparr>"

text \<open>One pass of the loop of \<^verbatim>\<open>admit\<close>, under the policy's lock.\<close>

datatype pass = Refuse string | Await nat | Transition | Proceed observer_policy

definition admit_pass :: "bool \<Rightarrow> observer_policy \<Rightarrow> observer_context \<Rightarrow> nat \<Rightarrow> pass" where
  "admit_pass canceled p current lookedUpAt =
     (if canceled then Refuse ''canceled''
      else if po_generation p \<noteq> lookedUpAt \<and> \<not> AuthorizationEqual (po_current p) current then Refuse ''stale_lookup''
      else case po_transition p of
        Some pending \<Rightarrow> Await pending
      | None \<Rightarrow>
          if po_generation p = 0 then Proceed (p\<lparr>po_current := current, po_generation := 1\<rparr>)
          else if AuthorizationEqual (po_current p) current then Proceed p
          else Transition)"

text \<open>The rest of \<^verbatim>\<open>admit\<close> after the loop, for the admission allocated at \<open>a\<close>.\<close>

definition admit_grant :: "observer_policy \<Rightarrow> nat \<Rightarrow> time \<Rightarrow> (credential \<times> credential list) list \<Rightarrow> observer_policy option" where
  "admit_grant p a now credentials =
     (if maxObserverSessions \<le> length (po_sessions p) then None
      else Some ((policy_verified (p\<lparr>po_credentials := retain_credentials (po_credentials p) now credentials\<rparr>) now)
                   \<lparr>po_lastAdmitted := now, po_sessions := po_sessions p @ [a]\<rparr>))"

definition policy_idle :: "duration \<Rightarrow> time \<Rightarrow> observer_policy \<Rightarrow> bool" where
  "policy_idle retention now p \<longleftrightarrow> length (po_sessions p) = 0 \<and> time_Sub now (po_lastAdmitted p) > retention"

section \<open>The sweep\<close>

definition maxReconcileTasksPerSweep :: nat where "maxReconcileTasksPerSweep = 1024"

record task =
  tk_admission :: admission
  tk_previous :: observer_context
  tk_credential :: credential
  tk_verifiedAt :: time

definition policy_tasks :: "duration \<Rightarrow> time \<Rightarrow> nat \<Rightarrow> observer_policy \<Rightarrow> task list" where
  "policy_tasks authorityTTL now pid p =
     (if time_Sub now (po_verifiedAt p) < authorityTTL then []
      else map (\<lambda>(c, _). \<lparr>tk_admission = \<lparr>adm_policy = pid, adm_generation = po_generation p\<rparr>, tk_previous = po_current p, tk_credential = c, tk_verifiedAt = po_verifiedAt p\<rparr>)
             (po_credentials p))"

definition sweep_tasks :: "task list \<Rightarrow> task list" where
  "sweep_tasks ts = take maxReconcileTasksPerSweep (sort_key tk_verifiedAt ts)"

datatype sweep_verdict = Unverified | Withdraw | Verified

text \<open>The judgement of one task from the control plane's answer: a context and whether it is allowed, or none for an error.\<close>

definition task_verdict :: "task \<Rightarrow> (observer_context \<times> bool) option \<Rightarrow> sweep_verdict" where
  "task_verdict t answer =
     (case answer of None \<Rightarrow> Unverified
      | Some (current, allowed) \<Rightarrow>
          let previous = tk_previous t;
              current' = (if CredentialTier current = CredentialToken \<and> CredentialTier previous = CredentialSoftwareMTLS \<and> CredentialFingerprint current = []
                          then current\<lparr>CredentialTier := CredentialTier previous, CredentialFingerprint := CredentialFingerprint previous\<rparr> else current)
          in if \<not> allowed \<or> \<not> AuthorizationEqual previous current' then Withdraw else Verified)"

section \<open>The server\<close>

text \<open>A thread of the server, by what it does next: \<open>Authorized\<close> has read the generation and authenticates; \<open>Reclaiming\<close> holds the table's mutex and has policies left to visit;
  \<open>Deciding\<close> is at the head of the loop; \<open>Waiting\<close> waits for a channel; \<open>Marking\<close>, \<open>Clearing\<close> and \<open>Closing\<close> are \<^verbatim>\<open>completeTransition\<close>, within \<^verbatim>\<open>admit\<close> when they carry a request;
  \<open>Judging\<close> holds an admission for \<^verbatim>\<open>changeAdmission\<close>.\<close>

record request =
  rq_current :: observer_context
  rq_lookedUpAt :: nat
  rq_credentials :: "credential list"

datatype thread =
    Authorized nat
  | Reclaiming request time "string list"
  | Deciding request nat
  | Waiting request nat nat
  | Marking nat nat observer_context "request option"
  | Clearing nat nat bool "request option"
  | Closing nat nat bool "request option"
  | Judging admission
  | Admitted nat
  | Refused string
  | Done

text \<open>What the decode channel has received: a reset marker with the context it ends, labelled by the policy and the generation it starts; or a record of a session.\<close>

datatype out = Marker nat nat observer_context | Data nat

record push_server =
  ps_policies :: "(string \<times> nat) list"
  ps_locked :: bool
  ps_heap :: "observer_policy list"
  ps_admissions :: "admission list"
  ps_cancelled :: "nat list"
  ps_channels :: nat
  ps_closed :: "nat list"
  ps_out :: "out list"
  ps_threads :: "thread list"
  ps_down :: bool

definition push_server0 :: push_server where
  "push_server0 = \<lparr>ps_policies = [], ps_locked = False, ps_heap = [], ps_admissions = [], ps_cancelled = [], ps_channels = 0, ps_closed = [], ps_out = [], ps_threads = [], ps_down = False\<rparr>"

definition policyGeneration :: "push_server \<Rightarrow> string \<Rightarrow> nat" where
  "policyGeneration s observer = (case map_of (ps_policies s) observer of None \<Rightarrow> 0 | Some pid \<Rightarrow> po_generation (ps_heap s ! pid))"

definition admission_Current :: "push_server \<Rightarrow> admission \<Rightarrow> bool" where
  "admission_Current s a \<longleftrightarrow> po_generation (ps_heap s ! adm_policy a) = adm_generation a"

definition goto :: "push_server \<Rightarrow> nat \<Rightarrow> thread \<Rightarrow> push_server" where
  "goto s i t = s\<lparr>ps_threads := (ps_threads s)[i := t]\<rparr>"

definition set_policy :: "push_server \<Rightarrow> nat \<Rightarrow> observer_policy \<Rightarrow> push_server" where
  "set_policy s pid p = s\<lparr>ps_heap := (ps_heap s)[pid := p]\<rparr>"

definition create_policy :: "push_server \<Rightarrow> nat \<Rightarrow> request \<Rightarrow> push_server" where
  "create_policy s i r =
     (goto s i (Deciding r (length (ps_heap s))))
       \<lparr>ps_heap := ps_heap s @ [new_policy], ps_policies := AList.update (ObserverID (rq_current r)) (length (ps_heap s)) (ps_policies s), ps_locked := False\<rparr>"

text \<open>The section of \<^verbatim>\<open>admit\<close> under the table's mutex, up to the reclaim at the ceiling, and after it.\<close>

definition admit_locate :: "push_server \<Rightarrow> nat \<Rightarrow> request \<Rightarrow> time \<Rightarrow> string list \<Rightarrow> push_server" where
  "admit_locate s i r now visit =
     (case map_of (ps_policies s) (ObserverID (rq_current r)) of
        Some pid \<Rightarrow> goto s i (Deciding r pid)
      | None \<Rightarrow>
          if maxTrackedObserverPolicies \<le> length (ps_policies s) then (goto s i (Reclaiming r now visit))\<lparr>ps_locked := True\<rparr>
          else create_policy s i r)"

definition reclaim_visit :: "push_server \<Rightarrow> duration \<Rightarrow> time \<Rightarrow> string \<Rightarrow> push_server" where
  "reclaim_visit s retention now observer =
     (case map_of (ps_policies s) observer of None \<Rightarrow> s
      | Some pid \<Rightarrow> if policy_idle retention now (ps_heap s ! pid) then s\<lparr>ps_policies := AList.delete observer (ps_policies s)\<rparr> else s)"

definition admit_reclaimed :: "push_server \<Rightarrow> nat \<Rightarrow> request \<Rightarrow> push_server" where
  "admit_reclaimed s i r =
     (if maxTrackedObserverPolicies \<le> length (ps_policies s) then (goto s i (Refused ''observer_ceiling''))\<lparr>ps_locked := False\<rparr> else create_policy s i r)"

definition begin_transition :: "push_server \<Rightarrow> nat \<Rightarrow> nat \<Rightarrow> observer_context \<Rightarrow> request option \<Rightarrow> push_server" where
  "begin_transition s i pid current k =
     (let p = ps_heap s ! pid; pending = ps_channels s
      in (goto (set_policy s pid (beginTransitionLocked p current pending)) i (Marking pid pending (po_current p) k))
           \<lparr>ps_channels := pending + 1, ps_cancelled := ps_cancelled s @ po_sessions p\<rparr>)"

definition admit_decide :: "push_server \<Rightarrow> nat \<Rightarrow> request \<Rightarrow> nat \<Rightarrow> time \<Rightarrow> credential list list \<Rightarrow> push_server" where
  "admit_decide s i r pid now orders =
     (case admit_pass (ps_down s) (ps_heap s ! pid) (rq_current r) (rq_lookedUpAt r) of
        Refuse reason \<Rightarrow> goto s i (Refused reason)
      | Await pending \<Rightarrow> goto s i (Waiting r pid pending)
      | Transition \<Rightarrow> begin_transition s i pid (rq_current r) (Some r)
      | Proceed p \<Rightarrow>
          (case admit_grant p (length (ps_admissions s)) now (zip (rq_credentials r) orders) of
             None \<Rightarrow> goto (set_policy s pid p) i (Refused ''observer_sessions'')
           | Some p' \<Rightarrow>
               (goto (set_policy s pid p') i (Admitted (length (ps_admissions s))))
                 \<lparr>ps_admissions := ps_admissions s @ [\<lparr>adm_policy = pid, adm_generation = po_generation p'\<rparr>]\<rparr>))"

definition complete_enqueue :: "push_server \<Rightarrow> nat \<Rightarrow> nat \<Rightarrow> nat \<Rightarrow> observer_context \<Rightarrow> request option \<Rightarrow> push_server" where
  "complete_enqueue s i pid pending previous k =
     (goto s i (Clearing pid pending True k))\<lparr>ps_out := ps_out s @ [Marker pid (po_generation (ps_heap s ! pid)) previous]\<rparr>"

definition complete_clear :: "push_server \<Rightarrow> nat \<Rightarrow> nat \<Rightarrow> nat \<Rightarrow> bool \<Rightarrow> request option \<Rightarrow> push_server" where
  "complete_clear s i pid pending enqueued k =
     goto (let p = ps_heap s ! pid in if po_transition p = Some pending then set_policy s pid (p\<lparr>po_transition := None\<rparr>) else s) i (Closing pid pending enqueued k)"

definition complete_close :: "push_server \<Rightarrow> nat \<Rightarrow> nat \<Rightarrow> nat \<Rightarrow> bool \<Rightarrow> request option \<Rightarrow> push_server" where
  "complete_close s i pid pending enqueued k =
     (goto s i (case k of None \<Rightarrow> Done | Some r \<Rightarrow> if enqueued then Deciding r pid else Refused ''reset_blocked''))\<lparr>ps_closed := pending # ps_closed s\<rparr>"

definition admission_release :: "push_server \<Rightarrow> nat \<Rightarrow> push_server" where
  "admission_release s a =
     (let pid = adm_policy (ps_admissions s ! a); p = ps_heap s ! pid in set_policy s pid (p\<lparr>po_sessions := filter (\<lambda>b. b \<noteq> a) (po_sessions p)\<rparr>))"

definition admission_verified :: "push_server \<Rightarrow> nat \<Rightarrow> time \<Rightarrow> push_server" where
  "admission_verified s pid now = set_policy s pid (policy_verified (ps_heap s ! pid) now)"

definition changeAdmission :: "push_server \<Rightarrow> nat \<Rightarrow> admission \<Rightarrow> observer_context \<Rightarrow> push_server" where
  "changeAdmission s i a current = (if admission_Current s a then begin_transition s i (adm_policy a) current None else goto s i Done)"

definition spawn :: "push_server \<Rightarrow> thread \<Rightarrow> push_server" where
  "spawn s t = s\<lparr>ps_threads := ps_threads s @ [t]\<rparr>"

text \<open>The steps. A session may send as long as it likes, also after its cancellation; watchers and the sweep hand any admission they hold to \<^verbatim>\<open>changeAdmission\<close>.\<close>

inductive push_step :: "duration \<Rightarrow> duration \<Rightarrow> push_server \<Rightarrow> push_server \<Rightarrow> bool" for retention authorityTTL where
  lookup: "\<not> ps_locked s \<Longrightarrow> push_step retention authorityTTL s (spawn s (Authorized (policyGeneration s observer)))"
| locate: "i < length (ps_threads s) \<Longrightarrow> ps_threads s ! i = Authorized g \<Longrightarrow> \<not> ps_locked s \<Longrightarrow> rq_lookedUpAt r = g \<Longrightarrow> mset visit = mset (map fst (ps_policies s)) \<Longrightarrow>
    push_step retention authorityTTL s (admit_locate s i r now visit)"
| visit: "i < length (ps_threads s) \<Longrightarrow> ps_threads s ! i = Reclaiming r now (observer # rest) \<Longrightarrow>
    push_step retention authorityTTL s (goto (reclaim_visit s retention now observer) i (Reclaiming r now rest))"
| reclaimed: "i < length (ps_threads s) \<Longrightarrow> ps_threads s ! i = Reclaiming r now [] \<Longrightarrow> push_step retention authorityTTL s (admit_reclaimed s i r)"
| decide: "i < length (ps_threads s) \<Longrightarrow> ps_threads s ! i = Deciding r pid \<Longrightarrow> length orders = length (rq_credentials r) \<Longrightarrow>
    orders_valid (po_credentials (ps_heap s ! pid)) now (zip (rq_credentials r) orders) \<Longrightarrow> push_step retention authorityTTL s (admit_decide s i r pid now orders)"
| wake: "i < length (ps_threads s) \<Longrightarrow> ps_threads s ! i = Waiting r pid pending \<Longrightarrow> pending \<in> set (ps_closed s) \<Longrightarrow> push_step retention authorityTTL s (goto s i (Deciding r pid))"
| give_up: "i < length (ps_threads s) \<Longrightarrow> ps_threads s ! i = Waiting r pid pending \<Longrightarrow> ps_down s \<Longrightarrow> push_step retention authorityTTL s (goto s i (Refused ''canceled''))"
| enqueue: "i < length (ps_threads s) \<Longrightarrow> ps_threads s ! i = Marking pid pending previous k \<Longrightarrow>
    push_step retention authorityTTL s (complete_enqueue s i pid pending previous k)"
| blocked: "i < length (ps_threads s) \<Longrightarrow> ps_threads s ! i = Marking pid pending previous k \<Longrightarrow> ps_down s \<Longrightarrow>
    push_step retention authorityTTL s (goto s i (Clearing pid pending False k))"
| clear: "i < length (ps_threads s) \<Longrightarrow> ps_threads s ! i = Clearing pid pending e k \<Longrightarrow> push_step retention authorityTTL s (complete_clear s i pid pending e k)"
| close: "i < length (ps_threads s) \<Longrightarrow> ps_threads s ! i = Closing pid pending e k \<Longrightarrow> push_step retention authorityTTL s (complete_close s i pid pending e k)"
| watch: "a < length (ps_admissions s) \<Longrightarrow> push_step retention authorityTTL s (spawn s (Judging (ps_admissions s ! a)))"
| sweep: "pid < length (ps_heap s) \<Longrightarrow> t \<in> set (policy_tasks authorityTTL now pid (ps_heap s ! pid)) \<Longrightarrow> push_step retention authorityTTL s (spawn s (Judging (tk_admission t)))"
| change: "i < length (ps_threads s) \<Longrightarrow> ps_threads s ! i = Judging a \<Longrightarrow> push_step retention authorityTTL s (changeAdmission s i a current)"
| verified: "pid < length (ps_heap s) \<Longrightarrow> push_step retention authorityTTL s (admission_verified s pid now)"
| release: "a < length (ps_admissions s) \<Longrightarrow> push_step retention authorityTTL s (admission_release s a)"
| send: "a < length (ps_admissions s) \<Longrightarrow> push_step retention authorityTTL s (s\<lparr>ps_out := ps_out s @ [Data a]\<rparr>)"
| shutdown: "push_step retention authorityTTL s (s\<lparr>ps_down := True\<rparr>)"

inductive push_reach :: "duration \<Rightarrow> duration \<Rightarrow> push_server \<Rightarrow> bool" for retention authorityTTL where
  start: "push_reach retention authorityTTL push_server0"
| step: "push_reach retention authorityTTL s \<Longrightarrow> push_step retention authorityTTL s s' \<Longrightarrow> push_reach retention authorityTTL s'"

end
