(* ===== verification/AdmissionLaws.thy ===== *)
theory AdmissionLaws
  imports AdmissionPolicy
begin

text \<open>
  What every run of the admission protocol keeps.
\<close>

declare upt_Suc [simp del]

section \<open>The invariant\<close>

text \<open>The generations whose reset markers of one policy the decode channel has, in order.\<close>

fun markers :: "nat \<Rightarrow> out list \<Rightarrow> nat list" where
  "markers pid [] = []"
| "markers pid (Marker q g c # xs) = (if q = pid then g # markers pid xs else markers pid xs)"
| "markers pid (Data a # xs) = markers pid xs"

lemma markers_append [simp]: "markers pid (xs @ ys) = markers pid xs @ markers pid ys"
  by (induction pid xs rule: markers.induct) auto

fun owner :: "thread \<Rightarrow> (nat \<times> nat) option" where
  "owner (Marking pid c _ _) = Some (pid, c)"
| "owner (Clearing pid c _ _) = Some (pid, c)"
| "owner _ = None"

fun closer :: "thread \<Rightarrow> nat option" where
  "closer (Marking pid c _ _) = Some c"
| "closer (Clearing pid c _ _) = Some c"
| "closer (Closing pid c _ _) = Some c"
| "closer _ = None"

definition owners_unique :: "(nat \<times> nat) option list \<Rightarrow> bool" where
  "owners_unique os \<longleftrightarrow> (\<forall>i j p q c. i < length os \<longrightarrow> j < length os \<longrightarrow> os ! i = Some (p, c) \<longrightarrow> os ! j = Some (q, c) \<longrightarrow> i = j)"

definition adm_ok :: "observer_policy list \<Rightarrow> out list \<Rightarrow> admission \<Rightarrow> bool" where
  "adm_ok h out a \<longleftrightarrow>
     adm_policy a < length h \<and> 1 \<le> adm_generation a \<and> adm_generation a \<le> po_generation (h ! adm_policy a) \<and>
     (\<exists>k. Suc (adm_generation a) \<le> k \<and> markers (adm_policy a) out = [2..<k]) \<and>
     (po_transition (h ! adm_policy a) \<noteq> None \<longrightarrow> adm_generation a < po_generation (h ! adm_policy a))"

definition policy_ok :: "observer_policy \<Rightarrow> nat \<Rightarrow> nat list \<Rightarrow> bool \<Rightarrow> admission list \<Rightarrow> bool" where
  "policy_ok p pid ms down adms \<longleftrightarrow>
     (\<exists>k \<le> max 2 (Suc (po_generation p)). 2 \<le> k \<and> ms = [2..<k]) \<and>
     (\<not> down \<longrightarrow> po_transition p = None \<longrightarrow> ms = [2..<Suc (po_generation p)]) \<and>
     length (po_sessions p) \<le> 4 \<and> distinct (po_sessions p) \<and>
     (\<forall>a \<in> set (po_sessions p). a < length adms \<and> adms ! a = \<lparr>adm_policy = pid, adm_generation = po_generation p\<rparr>) \<and>
     distinct (map fst (po_credentials p)) \<and> length (po_credentials p) \<le> 8 \<and>
     (po_credentials p \<noteq> [] \<longrightarrow> 1 \<le> po_generation p \<and> ms = [2..<Suc (po_generation p)]) \<and>
     (po_transition p \<noteq> None \<longrightarrow> po_sessions p = [] \<and> po_credentials p = [] \<and> 2 \<le> po_generation p)"

definition owner_ok :: "observer_policy list \<Rightarrow> out list \<Rightarrow> bool \<Rightarrow> nat \<Rightarrow> thread \<Rightarrow> bool" where
  "owner_ok h out down channels t =
     (case t of
        Marking pid c _ _ \<Rightarrow> pid < length h \<and> c < channels \<and> po_transition (h ! pid) = Some c \<and> markers pid out = [2..<po_generation (h ! pid)]
      | Clearing pid c e _ \<Rightarrow> pid < length h \<and> c < channels \<and> po_transition (h ! pid) = Some c \<and> (if e then markers pid out = [2..<Suc (po_generation (h ! pid))] else down)
      | _ \<Rightarrow> True)"

definition thread_ok :: "observer_policy list \<Rightarrow> out list \<Rightarrow> nat \<Rightarrow> thread \<Rightarrow> bool" where
  "thread_ok h out adms t =
     (case t of
        Deciding _ pid \<Rightarrow> pid < length h
      | Waiting _ pid _ \<Rightarrow> pid < length h
      | Closing pid _ _ _ \<Rightarrow> pid < length h
      | Judging a \<Rightarrow> adm_ok h out a
      | Admitted a \<Rightarrow> a < adms
      | _ \<Rightarrow> True)"

text \<open>A pending transition has a thread that will complete it, and a waiter a channel that is closed or about to be.\<close>

definition served :: "push_server \<Rightarrow> bool" where
  "served s \<longleftrightarrow>
     owners_unique (map owner (ps_threads s)) \<and>
     (\<forall>pid c. pid < length (ps_heap s) \<longrightarrow> po_transition (ps_heap s ! pid) = Some c \<longrightarrow> Some (pid, c) \<in> set (map owner (ps_threads s)))"

definition wakeable :: "push_server \<Rightarrow> bool" where
  "wakeable s \<longleftrightarrow> (\<forall>r pid c. Waiting r pid c \<in> set (ps_threads s) \<longrightarrow> c \<in> set (ps_closed s) \<or> Some c \<in> set (map closer (ps_threads s)))"

definition log_ok :: "admission list \<Rightarrow> out list \<Rightarrow> bool" where
  "log_ok adms out \<longleftrightarrow>
     (\<forall>xs a ys. out = xs @ Data a # ys \<longrightarrow> a < length adms \<and> (\<exists>k. Suc (adm_generation (adms ! a)) \<le> k \<and> markers (adm_policy (adms ! a)) xs = [2..<k]))"

definition policy_table_ok :: "push_server \<Rightarrow> bool" where
  "policy_table_ok s \<longleftrightarrow> distinct (map fst (ps_policies s)) \<and> length (ps_policies s) \<le> 1024 \<and> (\<forall>pid \<in> snd ` set (ps_policies s). pid < length (ps_heap s)) \<and>
     (\<forall>pid. length (ps_heap s) \<le> pid \<longrightarrow> markers pid (ps_out s) = [])"

definition admission_inv :: "push_server \<Rightarrow> bool" where
  "admission_inv s \<longleftrightarrow>
     (\<forall>pid < length (ps_heap s). policy_ok (ps_heap s ! pid) pid (markers pid (ps_out s)) (ps_down s) (ps_admissions s)) \<and>
     list_all (owner_ok (ps_heap s) (ps_out s) (ps_down s) (ps_channels s)) (ps_threads s) \<and>
     list_all (thread_ok (ps_heap s) (ps_out s) (length (ps_admissions s))) (ps_threads s) \<and>
     list_all (adm_ok (ps_heap s) (ps_out s)) (ps_admissions s) \<and>
     served s \<and> wakeable s \<and> log_ok (ps_admissions s) (ps_out s) \<and> policy_table_ok s"

section \<open>Steps that leave the policies alone\<close>

lemma length_delete_le: "length (AList.delete k m) \<le> length m"
  by (simp add: AList.delete_eq)

lemma set_delete_sub: "set (AList.delete k m) \<subseteq> set m"
  by (auto simp: AList.delete_eq)

lemma list_all_update: "list_all P xs \<Longrightarrow> P x \<Longrightarrow> list_all P (xs[i := x])"
  by (auto simp: list_all_iff dest!: set_update_subset_insert [THEN subsetD])

lemma map_update_same: "i < length xs \<Longrightarrow> f x = f (xs ! i) \<Longrightarrow> map f (xs[i := x]) = map f xs"
  by (simp add: map_update list_update_same_conv)

lemma set_updateD: "x \<in> set (xs[i := y]) \<Longrightarrow> x = y \<or> x \<in> set xs"
  using set_update_subset_insert [of xs i y] by auto

lemma inv_goto:
  assumes "admission_inv s" "i < length (ps_threads s)" "owner t = owner (ps_threads s ! i)" "closer t = closer (ps_threads s ! i)"
    "owner_ok (ps_heap s) (ps_out s) (ps_down s) (ps_channels s) t" "thread_ok (ps_heap s) (ps_out s) (length (ps_admissions s)) t"
    "\<And>r pid c. t = Waiting r pid c \<Longrightarrow> c \<in> set (ps_closed s) \<or> Some c \<in> set (map closer (ps_threads s))"
  shows "admission_inv (goto s i t)"
proof -
  have "wakeable (goto s i t)"
    unfolding wakeable_def
  proof (intro allI impI)
    fix r pid c
    assume "Waiting r pid c \<in> set (ps_threads (goto s i t))"
    then have "t = Waiting r pid c \<or> Waiting r pid c \<in> set (ps_threads s)" using set_updateD by (fastforce simp: goto_def)
    then have "c \<in> set (ps_closed s) \<or> Some c \<in> set (map closer (ps_threads s))" using assms(1,7) unfolding admission_inv_def wakeable_def by blast
    then show "c \<in> set (ps_closed (goto s i t)) \<or> Some c \<in> set (map closer (ps_threads (goto s i t)))" by (simp add: goto_def map_update_same [OF assms(2,4)] del: set_map)
  qed
  moreover have "served (goto s i t)" using assms(1) by (simp add: admission_inv_def served_def goto_def map_update_same [OF assms(2,3)] del: set_map)
  moreover have "policy_table_ok (goto s i t)" using assms(1) by (simp add: admission_inv_def policy_table_ok_def goto_def)
  ultimately show ?thesis using assms(1,5,6) by (simp add: admission_inv_def goto_def list_all_update)
qed

lemma inv_spawn:
  assumes "admission_inv s" "owner t = None" "closer t = None"
    "owner_ok (ps_heap s) (ps_out s) (ps_down s) (ps_channels s) t" "thread_ok (ps_heap s) (ps_out s) (length (ps_admissions s)) t" "\<And>r pid c. t \<noteq> Waiting r pid c"
  shows "admission_inv (spawn s t)"
proof -
  have "wakeable s" using assms(1) by (simp add: admission_inv_def)
  then have "wakeable (spawn s t)" using assms(6) unfolding wakeable_def spawn_def by (simp del: set_map) metis
  moreover have "owners_unique (map owner (ps_threads s) @ [None])" using assms(1) by (auto simp: admission_inv_def served_def owners_unique_def nth_append split: if_splits)
  then have "served (spawn s t)" using assms(1,2) by (auto simp: admission_inv_def served_def spawn_def)
  moreover have "policy_table_ok (spawn s t)" using assms(1) by (simp add: admission_inv_def policy_table_ok_def spawn_def)
  ultimately show ?thesis using assms(1,4,5) by (simp add: admission_inv_def spawn_def)
qed

lemma inv_table:
  assumes "admission_inv s" "distinct (map fst ps)" "length ps \<le> 1024" "snd ` set ps \<subseteq> {..<length (ps_heap s)}"
  shows "admission_inv (s\<lparr>ps_policies := ps, ps_locked := b\<rparr>)"
  using assms by (auto simp: admission_inv_def served_def wakeable_def policy_table_ok_def)

lemma inv_send:
  assumes "admission_inv s" "a < length (ps_admissions s)"
  shows "admission_inv (s\<lparr>ps_out := ps_out s @ [Data a]\<rparr>)"
proof -
  have eq: "markers pid (ps_out s @ [Data a]) = markers pid (ps_out s)" for pid by simp
  have adm: "adm_ok (ps_heap s) (ps_out s @ [Data a]) = adm_ok (ps_heap s) (ps_out s)" by (simp add: adm_ok_def fun_eq_iff)
  have "owner_ok (ps_heap s) (ps_out s @ [Data a]) d n = owner_ok (ps_heap s) (ps_out s) d n" for d n by (auto simp: owner_ok_def fun_eq_iff split: thread.split)
  moreover have "thread_ok (ps_heap s) (ps_out s @ [Data a]) n = thread_ok (ps_heap s) (ps_out s) n" for n by (auto simp: thread_ok_def adm fun_eq_iff split: thread.split)
  moreover have "log_ok (ps_admissions s) (ps_out s @ [Data a])"
    unfolding log_ok_def
  proof (intro allI impI)
    fix xs b ys
    assume eq: "ps_out s @ [Data a] = xs @ Data b # ys"
    show "b < length (ps_admissions s) \<and> (\<exists>k. Suc (adm_generation (ps_admissions s ! b)) \<le> k \<and> markers (adm_policy (ps_admissions s ! b)) xs = [2..<k])"
    proof (cases ys rule: rev_cases)
      case Nil
      then have "xs = ps_out s" "b = a" using eq by auto
      then show ?thesis using assms by (auto simp: admission_inv_def list_all_iff adm_ok_def)
    next
      case (snoc zs z)
      then have "ps_out s = xs @ Data b # zs" using eq by auto
      moreover have "log_ok (ps_admissions s) (ps_out s)" using assms(1) by (simp add: admission_inv_def)
      ultimately show ?thesis unfolding log_ok_def by blast
    qed
  qed
  ultimately show ?thesis using assms(1) by (simp add: admission_inv_def adm served_def wakeable_def policy_table_ok_def)
qed

lemma inv_shutdown:
  assumes "admission_inv s"
  shows "admission_inv (s\<lparr>ps_down := True\<rparr>)"
proof -
  have "owner_ok h out d n t \<Longrightarrow> owner_ok h out True n t" for h out d n t by (simp add: owner_ok_def split: thread.splits if_splits)
  moreover have "policy_ok p pid ms d adms \<Longrightarrow> policy_ok p pid ms True adms" for p pid ms d adms by (simp add: policy_ok_def)
  ultimately show ?thesis using assms by (auto simp: admission_inv_def served_def wakeable_def policy_table_ok_def list_all_iff)
qed

section \<open>Steps that change one policy\<close>

definition markers_grow :: "nat \<Rightarrow> out list \<Rightarrow> out list \<Rightarrow> bool" where
  "markers_grow pid out out' \<longleftrightarrow> markers pid out' = markers pid out \<or> (\<exists>k \<ge> 2. markers pid out = [2..<k] \<and> markers pid out' = [2..<Suc k])"

lemma upt2_inj: "[2..<j] = [2..<k] \<Longrightarrow> 2 \<le> j \<Longrightarrow> 2 \<le> k \<Longrightarrow> j = k"
  by (metis length_upt add_diff_inverse_nat not_less)

lemma adm_ok_step:
  assumes "adm_ok h out a" "length h \<le> length h'" "markers_grow (adm_policy a) out out'" "po_generation (h ! adm_policy a) \<le> po_generation (h' ! adm_policy a)"
    "po_transition (h' ! adm_policy a) \<noteq> None \<Longrightarrow> po_transition (h ! adm_policy a) \<noteq> None \<or> po_generation (h ! adm_policy a) < po_generation (h' ! adm_policy a)"
  shows "adm_ok h' out' a"
proof -
  obtain k where k: "Suc (adm_generation a) \<le> k" "markers (adm_policy a) out = [2..<k]" using assms(1) by (auto simp: adm_ok_def)
  have "\<exists>k'. Suc (adm_generation a) \<le> k' \<and> markers (adm_policy a) out' = [2..<k']"
  proof (cases "markers (adm_policy a) out' = markers (adm_policy a) out")
    case False
    then obtain j where j: "markers (adm_policy a) out = [2..<j]" "markers (adm_policy a) out' = [2..<Suc j]" "2 \<le> j" using assms(3) by (auto simp: markers_grow_def)
    have "2 \<le> k" using k(1) assms(1) by (auto simp: adm_ok_def)
    then have "j = k" using j(1,3) k(2) upt2_inj by metis
    then show ?thesis using j(2) k(1) le_SucI by blast
  qed (use k in auto)
  then show ?thesis using assms by (auto simp: adm_ok_def)
qed

lemma thread_ok_step:
  assumes "thread_ok h out n t" "length h \<le> length h'" "n \<le> n'" "\<And>a. t = Judging a \<Longrightarrow> adm_ok h out a \<Longrightarrow> adm_ok h' out' a"
  shows "thread_ok h' out' n' t"
  using assms by (cases t) (auto simp: thread_ok_def)

lemma owner_ok_frame:
  assumes "owner_ok h out d n t" "n \<le> n'"
    "\<And>pid c. owner t = Some (pid, c) \<Longrightarrow> pid < length h \<Longrightarrow>
       pid < length h' \<and> po_transition (h' ! pid) = po_transition (h ! pid) \<and> po_generation (h' ! pid) = po_generation (h ! pid) \<and> markers pid out' = markers pid out"
  shows "owner_ok h' out' d n' t"
  using assms by (cases t) (auto simp: owner_ok_def split: if_splits)

lemma owner_closer: "owner t = Some (pid, c) \<Longrightarrow> closer t = Some c"
  by (cases t) auto

lemma owned_transition: "owner_ok h out d n t \<Longrightarrow> owner t = Some (pid, c) \<Longrightarrow> pid < length h \<and> c < n \<and> po_transition (h ! pid) = Some c"
  by (cases t) (auto simp: owner_ok_def)

lemma sole_owner:
  assumes "admission_inv s" "i < length (ps_threads s)" "j < length (ps_threads s)" "owner (ps_threads s ! i) = Some (pid, c)" "owner (ps_threads s ! j) = Some (pid, c')"
  shows "i = j"
proof -
  have "list_all (owner_ok (ps_heap s) (ps_out s) (ps_down s) (ps_channels s)) (ps_threads s)" "owners_unique (map owner (ps_threads s))"
    using assms(1) by (simp_all add: admission_inv_def served_def)
  moreover from this have "c = c'" using owned_transition assms(2-) by (metis list_all_length option.inject)
  ultimately show ?thesis using assms(2-) unfolding owners_unique_def by (metis length_map nth_map)
qed

lemma no_owner:
  assumes "admission_inv s" "j < length (ps_threads s)" "po_transition (ps_heap s ! pid) = None"
  shows "owner (ps_threads s ! j) \<noteq> Some (pid, c)"
  using assms owned_transition unfolding admission_inv_def list_all_length by (metis option.distinct(1))

lemma log_ok_marker:
  assumes "log_ok adms out"
  shows "log_ok adms (out @ [Marker pid g c])"
  unfolding log_ok_def
proof (intro allI impI)
  fix xs a ys
  assume eq: "out @ [Marker pid g c] = xs @ Data a # ys"
  then obtain zs z where "ys = zs @ [z]" by (cases ys rule: rev_cases) auto
  then have "out = xs @ Data a # zs" using eq by auto
  then show "a < length adms \<and> (\<exists>k. Suc (adm_generation (adms ! a)) \<le> k \<and> markers (adm_policy (adms ! a)) xs = [2..<k])" using assms unfolding log_ok_def by blast
qed

lemma log_ok_adms: "log_ok adms out \<Longrightarrow> log_ok (adms @ [x]) out"
  unfolding log_ok_def by (metis length_append_singleton less_SucI nth_append)

lemma policy_ok_adms: "policy_ok p pid ms d adms \<Longrightarrow> policy_ok p pid ms d (adms @ [x])"
  by (auto simp: policy_ok_def nth_append)




lemma inv_update:
  assumes inv: "admission_inv s" and pid: "pid < length (ps_heap s)"
    and s': "ps_heap s' = (ps_heap s)[pid := p']" "ps_down s' = ps_down s" "ps_policies s' = ps_policies s" "ps_threads s' = (ps_threads s)[i := t]"
    and out: "\<And>q. q \<noteq> pid \<Longrightarrow> markers q (ps_out s') = markers q (ps_out s)" "markers_grow pid (ps_out s) (ps_out s')"
    and adms: "ps_admissions s' = ps_admissions s \<or> (\<exists>x. ps_admissions s' = ps_admissions s @ [x] \<and> adm_ok (ps_heap s') (ps_out s') x)"
    and gen: "po_generation (ps_heap s ! pid) \<le> po_generation p'"
      "po_transition p' \<noteq> None \<Longrightarrow> po_transition (ps_heap s ! pid) \<noteq> None \<or> po_generation (ps_heap s ! pid) < po_generation p'"
    and pol: "policy_ok p' pid (markers pid (ps_out s')) (ps_down s) (ps_admissions s')"
    and t: "i < length (ps_threads s) \<Longrightarrow> owner_ok (ps_heap s') (ps_out s') (ps_down s) (ps_channels s') t" "i < length (ps_threads s) \<Longrightarrow> thread_ok (ps_heap s') (ps_out s') (length (ps_admissions s')) t"
    and others: "po_generation p' = po_generation (ps_heap s ! pid) \<and> po_transition p' = po_transition (ps_heap s ! pid) \<and> markers pid (ps_out s') = markers pid (ps_out s) \<or>
      (\<forall>j < length (ps_threads s). j \<noteq> i \<longrightarrow> (\<forall>c. owner (ps_threads s ! j) \<noteq> Some (pid, c)))"
    and own: "owners_unique (map owner ((ps_threads s)[i := t]))" "\<And>c. po_transition p' = Some c \<Longrightarrow> Some (pid, c) \<in> set (map owner ((ps_threads s)[i := t]))"
      "\<And>q c. i < length (ps_threads s) \<Longrightarrow> owner (ps_threads s ! i) = Some (q, c) \<Longrightarrow> q = pid"
    and n: "ps_channels s \<le> ps_channels s'" and w: "wakeable s'" and l: "log_ok (ps_admissions s') (ps_out s')"
  shows "admission_inv s'"
proof -
  have len: "length (ps_heap s') = length (ps_heap s)" by (simp add: s')
  have grow: "markers_grow q (ps_out s) (ps_out s')" for q using out by (cases "q = pid") (auto simp: markers_grow_def)
  have adm: "adm_ok (ps_heap s) (ps_out s) a \<Longrightarrow> adm_ok (ps_heap s') (ps_out s') a" for a
    using gen pid by (rule_tac adm_ok_step [of "ps_heap s" "ps_out s"]; cases "adm_policy a = pid") (auto simp: s' grow)
  have "list_all (adm_ok (ps_heap s') (ps_out s')) (ps_admissions s')" using inv adms adm by (auto simp: admission_inv_def list_all_iff)
  moreover have "policy_ok (ps_heap s' ! q) q (markers q (ps_out s')) (ps_down s) (ps_admissions s')" if "q < length (ps_heap s')" for q
    using that inv pol out(1) adms policy_ok_adms by (cases "q = pid") (auto simp: s' admission_inv_def)
  moreover have "thread_ok (ps_heap s') (ps_out s') (length (ps_admissions s')) u" if "u \<in> set ((ps_threads s)[i := t])" for u
  proof (cases "i < length (ps_threads s) \<and> u = t")
    case False
    then have "u \<in> set (ps_threads s)" using that set_updateD [of u "ps_threads s" i t] by (cases "i < length (ps_threads s)") (auto simp: list_update_beyond)
    then have "thread_ok (ps_heap s) (ps_out s) (length (ps_admissions s)) u" using inv by (simp add: admission_inv_def list_all_iff)
    then show ?thesis using adms adm by (rule_tac thread_ok_step [of "ps_heap s" "ps_out s" "length (ps_admissions s)"]) (auto simp: len)
  qed (use t(2) in auto)
  moreover have "owner_ok (ps_heap s') (ps_out s') (ps_down s) (ps_channels s') ((ps_threads s)[i := t] ! j)" if j: "j < length (ps_threads s)" for j
  proof (cases "j = i")
    case False
    have "owner_ok (ps_heap s) (ps_out s) (ps_down s) (ps_channels s) (ps_threads s ! j)" using inv j by (simp add: admission_inv_def list_all_length)
    then have "owner_ok (ps_heap s') (ps_out s') (ps_down s) (ps_channels s') (ps_threads s ! j)"
    proof (rule owner_ok_frame [OF _ n])
      fix q c
      assume q: "owner (ps_threads s ! j) = Some (q, c)" "q < length (ps_heap s)"
      show "q < length (ps_heap s') \<and> po_transition (ps_heap s' ! q) = po_transition (ps_heap s ! q) \<and> po_generation (ps_heap s' ! q) = po_generation (ps_heap s ! q) \<and> markers q (ps_out s') = markers q (ps_out s)"
        using others q j False out(1) by (cases "q = pid") (auto simp: s')
    qed
    then show ?thesis using False by simp
  qed (use t(1) j in auto)
  moreover have "served s'"
    unfolding served_def s'(4)
  proof (intro conjI allI impI)
    fix q c
    assume q: "q < length (ps_heap s')" "po_transition (ps_heap s' ! q) = Some c"
    show "Some (q, c) \<in> set (map owner ((ps_threads s)[i := t]))"
    proof (cases "q = pid")
      case False
      then have "Some (q, c) \<in> set (map owner (ps_threads s))" using inv q by (simp add: admission_inv_def served_def s' del: set_map)
      then obtain j where "j < length (ps_threads s)" "owner (ps_threads s ! j) = Some (q, c)" by (metis in_set_conv_nth length_map nth_map)
      moreover from this have "j \<noteq> i" using own(3) False by blast
      ultimately show ?thesis by (metis in_set_conv_nth length_list_update length_map nth_list_update_neq nth_map)
    qed (use q pid own(2) in \<open>simp add: s' del: set_map\<close>)
  qed (simp add: s' own(1))
  moreover have "policy_table_ok s'" using inv pid out(1) by (auto simp: admission_inv_def policy_table_ok_def s')
  ultimately show ?thesis using w l by (simp add: admission_inv_def s' list_all_length list_all_iff)
qed

lemma owners_unique_none: "owners_unique os \<Longrightarrow> owners_unique (os[i := None])"
  unfolding owners_unique_def by (metis length_list_update nth_list_update_eq nth_list_update_neq option.distinct(1))

lemma owners_unique_fresh:
  assumes "owners_unique os" "\<And>j p. j < length os \<Longrightarrow> os ! j \<noteq> Some (p, c)"
  shows "owners_unique (os[i := Some (q, c)])"
  using assms unfolding owners_unique_def by (metis length_list_update nth_list_update_eq nth_list_update_neq option.inject prod.inject)

lemma wakeable_update:
  assumes "wakeable s" "ps_threads s' = (ps_threads s)[i := t]" "set (ps_closed s) \<subseteq> set (ps_closed s')" "\<And>r pid c. t \<noteq> Waiting r pid c"
    "\<And>c. i < length (ps_threads s) \<Longrightarrow> closer (ps_threads s ! i) = Some c \<Longrightarrow> closer t = Some c \<or> c \<in> set (ps_closed s')"
  shows "wakeable s'"
  unfolding wakeable_def
proof (intro allI impI)
  fix r pid c
  assume "Waiting r pid c \<in> set (ps_threads s')"
  then have "Waiting r pid c \<in> set (ps_threads s)" using assms(2,4) set_updateD by fastforce
  then consider "c \<in> set (ps_closed s)" | "Some c \<in> set (map closer (ps_threads s))" using assms(1) unfolding wakeable_def by blast
  then show "c \<in> set (ps_closed s') \<or> Some c \<in> set (map closer (ps_threads s'))"
  proof cases
    case 2
    then obtain j where j: "j < length (ps_threads s)" "closer (ps_threads s ! j) = Some c" by (metis in_set_conv_nth length_map nth_map)
    show ?thesis
    proof (cases "j = i")
      case True
      then show ?thesis using j assms(5) by (auto simp: assms(2) set_update_memI intro!: rev_image_eqI [of t])
    next
      case False
      then have "ps_threads s ! j \<in> set (ps_threads s')" using j(1) unfolding assms(2) by (metis length_list_update nth_list_update_neq nth_mem)
      then show ?thesis using j(2) by (metis image_eqI set_map)
    qed
  qed (use assms(3) in auto)
qed

text \<open>The changes the steps make.\<close>

lemma inv_parts:
  assumes "admission_inv s"
  shows "served s" "wakeable s" "log_ok (ps_admissions s) (ps_out s)" "policy_table_ok s" "owners_unique (map owner (ps_threads s))"
    "pid < length (ps_heap s) \<Longrightarrow> policy_ok (ps_heap s ! pid) pid (markers pid (ps_out s)) (ps_down s) (ps_admissions s)"
    "i < length (ps_threads s) \<Longrightarrow> owner_ok (ps_heap s) (ps_out s) (ps_down s) (ps_channels s) (ps_threads s ! i)"
    "i < length (ps_threads s) \<Longrightarrow> thread_ok (ps_heap s) (ps_out s) (length (ps_admissions s)) (ps_threads s ! i)"
    "a < length (ps_admissions s) \<Longrightarrow> adm_ok (ps_heap s) (ps_out s) (ps_admissions s ! a)"
  using assms by (simp_all add: admission_inv_def served_def list_all_length)

lemma inv_bookkeep:
  assumes "admission_inv s" "pid < length (ps_heap s)" "po_generation p' = po_generation (ps_heap s ! pid)" "po_transition p' = po_transition (ps_heap s ! pid)"
    "policy_ok p' pid (markers pid (ps_out s)) (ps_down s) (ps_admissions s)"
  shows "admission_inv (set_policy s pid p')"
proof (rule inv_update [OF assms(1,2), where i = "length (ps_threads s)" and t = Done])
  show "Some (pid, c) \<in> set (map owner ((ps_threads s)[length (ps_threads s) := Done]))" if "po_transition p' = Some c" for c
    using that assms(2,4) inv_parts(1) [OF assms(1)] by (simp add: served_def list_update_beyond)
  show "wakeable (set_policy s pid p')" using inv_parts(2) [OF assms(1)] by (simp add: wakeable_def set_policy_def)
qed (use assms inv_parts [OF assms(1)] in \<open>auto simp: set_policy_def markers_grow_def list_update_beyond\<close>)

lemma policy_ok_begin:
  assumes "ms = [2..<Suc (po_generation p)]" "1 \<le> po_generation p"
  shows "policy_ok (beginTransitionLocked p current c) pid ms down adms"
proof -
  have "\<exists>k \<le> max 2 (Suc (Suc (po_generation p))). 2 \<le> k \<and> ms = [2..<k]" using assms by (intro exI [of _ "Suc (po_generation p)"]) auto
  then show ?thesis using assms(2) by (simp add: policy_ok_def beginTransitionLocked_def)
qed

lemma inv_begin:
  assumes inv: "admission_inv s" and i: "i < length (ps_threads s)" "closer (ps_threads s ! i) = None" "owner (ps_threads s ! i) = None" and pid: "pid < length (ps_heap s)"
    and p: "po_transition (ps_heap s ! pid) = None" "1 \<le> po_generation (ps_heap s ! pid)" "markers pid (ps_out s) = [2..<Suc (po_generation (ps_heap s ! pid))]"
  shows "admission_inv (begin_transition s i pid current k)" (is "admission_inv ?s")
proof -
  let ?t = "Marking pid (ps_channels s) (po_current (ps_heap s ! pid)) k" and ?p = "beginTransitionLocked (ps_heap s ! pid) current (ps_channels s)"
  have f: "ps_heap ?s = (ps_heap s)[pid := ?p]" "ps_down ?s = ps_down s" "ps_policies ?s = ps_policies s" "ps_threads ?s = (ps_threads s)[i := ?t]"
    "ps_out ?s = ps_out s" "ps_admissions ?s = ps_admissions s" "ps_channels ?s = Suc (ps_channels s)" "ps_closed ?s = ps_closed s"
    by (simp_all add: begin_transition_def goto_def set_policy_def Let_def)
  have u: "owners_unique ((map owner (ps_threads s))[i := Some (pid, ps_channels s)])"
  proof (rule owners_unique_fresh [OF inv_parts(5) [OF inv]])
    show "map owner (ps_threads s) ! j \<noteq> Some (q, ps_channels s)" if "j < length (map owner (ps_threads s))" for j q
      using that owned_transition [OF inv_parts(7) [OF inv]] by fastforce
  qed
  have w: "wakeable ?s" by (rule wakeable_update [OF inv_parts(2) [OF inv] f(4)]) (simp_all add: f i)
  show ?thesis
  proof (rule inv_update [OF inv pid f(1-4)])
    show "Some (pid, c) \<in> set (map owner ((ps_threads s)[i := ?t]))" if "po_transition ?p = Some c" for c
      using that i(1) by (simp add: map_update set_update_memI beginTransitionLocked_def del: set_map)
  qed (use inv_parts(3) [OF inv] no_owner [OF inv _ p(1)] i pid p u w in
    \<open>simp_all add: f markers_grow_def owner_ok_def thread_ok_def map_update policy_ok_begin, simp_all add: beginTransitionLocked_def\<close>)
qed


lemma current_ready:
  assumes "admission_inv s" "adm_ok (ps_heap s) (ps_out s) a" "admission_Current s a"
  shows "po_transition (ps_heap s ! adm_policy a) = None" "1 \<le> po_generation (ps_heap s ! adm_policy a)"
    "markers (adm_policy a) (ps_out s) = [2..<Suc (po_generation (ps_heap s ! adm_policy a))]"
proof -
  let ?g = "po_generation (ps_heap s ! adm_policy a)"
  have a: "adm_policy a < length (ps_heap s)" "1 \<le> ?g" using assms(2,3) by (auto simp: adm_ok_def admission_Current_def)
  obtain j where j: "Suc ?g \<le> j" "markers (adm_policy a) (ps_out s) = [2..<j]" using assms(2,3) by (auto simp: adm_ok_def admission_Current_def)
  obtain k where k: "k \<le> max 2 (Suc ?g)" "2 \<le> k" "markers (adm_policy a) (ps_out s) = [2..<k]" using inv_parts(6) [OF assms(1) a(1)] by (auto simp: policy_ok_def)
  have "j = k" using j k a(2) by (intro upt2_inj) auto
  then have "j = Suc ?g" using j(1) k(1) a(2) by simp
  then show "markers (adm_policy a) (ps_out s) = [2..<Suc ?g]" using j(2) by simp
  show "1 \<le> ?g" by (rule a(2))
  show "po_transition (ps_heap s ! adm_policy a) = None" using assms(2,3) by (auto simp: adm_ok_def admission_Current_def)
qed

lemma inv_change:
  assumes "admission_inv s" "i < length (ps_threads s)" "ps_threads s ! i = Judging a"
  shows "admission_inv (changeAdmission s i a current)"
proof -
  have a: "adm_ok (ps_heap s) (ps_out s) a" using inv_parts(8) [OF assms(1,2)] assms(3) by (simp add: thread_ok_def)
  have "admission_inv (begin_transition s i (adm_policy a) current None)" if "admission_Current s a"
    using assms a current_ready [OF assms(1) a that] by (intro inv_begin) (auto simp: adm_ok_def)
  moreover have "admission_inv (goto s i Done)" using assms by (intro inv_goto) (auto simp: owner_ok_def thread_ok_def)
  ultimately show ?thesis by (simp add: changeAdmission_def)
qed

lemma inv_create:
  assumes inv: "admission_inv s" and i: "i < length (ps_threads s)" "owner (ps_threads s ! i) = None" "closer (ps_threads s ! i) = None"
    and o: "length (ps_policies s) < maxTrackedObserverPolicies"
  shows "admission_inv (create_policy s i r)" (is "admission_inv ?s")
proof -
  let ?h = "ps_heap s @ [new_policy]"
  have f: "ps_heap ?s = ?h" "ps_down ?s = ps_down s" "ps_threads ?s = (ps_threads s)[i := Deciding r (length (ps_heap s))]" "ps_out ?s = ps_out s"
    "ps_admissions ?s = ps_admissions s" "ps_channels ?s = ps_channels s" "ps_closed ?s = ps_closed s"
    "ps_policies ?s = AList.update (ObserverID (rq_current r)) (length (ps_heap s)) (ps_policies s)"
    by (simp_all add: create_policy_def goto_def)
  have t: "distinct (map fst (ps_policies s))" "markers (length (ps_heap s)) (ps_out s) = []" "\<forall>pid \<in> snd ` set (ps_policies s). pid < length (ps_heap s)"
    "\<forall>pid. length (ps_heap s) \<le> pid \<longrightarrow> markers pid (ps_out s) = []"
    using inv_parts(4) [OF inv] by (simp_all add: policy_table_ok_def)
  have new: "policy_ok new_policy (length (ps_heap s)) [] (ps_down s) (ps_admissions s)" by (auto simp: policy_ok_def new_policy_def intro!: exI [of _ "2 :: nat"])
  have adm: "adm_ok (ps_heap s) (ps_out s) a \<Longrightarrow> adm_ok ?h (ps_out s) a" for a by (auto simp: adm_ok_def nth_append)
  have thr: "thread_ok (ps_heap s) (ps_out s) n u \<Longrightarrow> thread_ok ?h (ps_out s) n u" for n u by (rule thread_ok_step [of "ps_heap s" "ps_out s" n]) (auto intro: adm)
  have own: "owner_ok (ps_heap s) (ps_out s) d n u \<Longrightarrow> owner_ok ?h (ps_out s) d n u" for d n u by (rule owner_ok_frame) (auto simp: nth_append)
  have "served ?s" using inv_parts(1) [OF inv] map_update_same [OF i(1), of owner "Deciding r (length (ps_heap s))"] i(2)
    by (auto simp: served_def f nth_append new_policy_def less_Suc_eq simp del: set_map)
  moreover have "wakeable ?s" by (rule wakeable_update [OF inv_parts(2) [OF inv] f(3)]) (simp_all add: f i)
  moreover have "policy_table_ok ?s" using t o length_update_le [of "ObserverID (rq_current r)" "length (ps_heap s)" "ps_policies s"]
    by (auto simp: policy_table_ok_def f distinct_update maxTrackedObserverPolicies_def dest!: set_update_sub [THEN subsetD])
  moreover have "policy_ok (?h ! pid) pid (markers pid (ps_out s)) (ps_down s) (ps_admissions s)" if "pid < Suc (length (ps_heap s))" for pid
    using that inv_parts(6) [OF inv, of pid] new t(2) by (cases "pid = length (ps_heap s)") (auto simp: nth_append)
  moreover have "list_all (adm_ok ?h (ps_out s)) (ps_admissions s)" using inv adm by (auto simp: admission_inv_def list_all_iff)
  moreover have "list_all (owner_ok ?h (ps_out s) (ps_down s) (ps_channels s)) (ps_threads ?s)"
    unfolding f by (rule list_all_update) (use inv own in \<open>auto simp: admission_inv_def list_all_iff owner_ok_def [of _ _ _ _ "Deciding _ _"]\<close>)
  moreover have "list_all (thread_ok ?h (ps_out s) (length (ps_admissions s))) (ps_threads ?s)"
    unfolding f by (rule list_all_update) (use inv thr in \<open>auto simp: admission_inv_def list_all_iff thread_ok_def [of _ _ _ "Deciding _ _"]\<close>)
  ultimately show ?thesis using inv_parts(3) [OF inv] by (simp add: admission_inv_def f)
qed


lemma oldest_found: "order \<noteq> [] \<Longrightarrow> \<exists>c \<in> set order. foldl (older_credential m) None order = Some c"
proof (induction order rule: rev_induct)
  case (snoc c order)
  show ?case
  proof (cases "order = []")
    case False
    then obtain d where "d \<in> set order" "foldl (older_credential m) None order = Some d" using snoc by blast
    then show ?thesis by (simp add: older_credential_def [of m "Some d"])
  qed (simp add: older_credential_def)
qed simp

lemma retain_credential_ok:
  assumes "distinct (map fst m)" "length m \<le> 8" "mset order = mset (map fst m)"
  shows "distinct (map fst (retain_credential m now c order)) \<and> length (retain_credential m now c order) \<le> 8"
proof (cases "map_of m c = None \<and> maxPolicyCredentials \<le> length m")
  case True
  then have "order \<noteq> []" using assms(3) by (auto simp: maxPolicyCredentials_def)
  then obtain d where d: "d \<in> set order" "foldl (older_credential m) None order = Some d" using oldest_found by blast
  have "set order = fst ` set m" using assms(3) by (metis set_map set_mset_mset)
  then have "length (AList.delete d m) < length m" using d(1) by (auto simp: AList.delete_eq intro: length_filter_less)
  moreover have "map_of (AList.delete d m) c = None" using True by (simp add: delete_conv')
  ultimately show ?thesis using True assms(1,2) d(2) by (simp add: retain_credential_def length_update distinct_update distinct_delete)
next
  case False
  have "length (AList.update c now m) \<le> 8" if "map_of m c \<noteq> None"
  proof -
    have "map fst (AList.update c now m) = map fst m" using that by (simp add: update_keys map_of_eq_None_iff)
    then show ?thesis using assms(2) by (metis length_map)
  qed
  then show ?thesis using False assms(1,2) by (cases "map_of m c") (auto simp: retain_credential_def distinct_update length_update maxPolicyCredentials_def)
qed

lemma retain_credentials_ok:
  "distinct (map fst m) \<Longrightarrow> length m \<le> 8 \<Longrightarrow> orders_valid m now cs \<Longrightarrow>
   distinct (map fst (retain_credentials m now cs)) \<and> length (retain_credentials m now cs) \<le> 8"
  by (induction cs arbitrary: m) (simp_all add: retain_credential_ok)

lemma no_session_yet:
  assumes "admission_inv s" "pid < length (ps_heap s)" "po_generation (ps_heap s ! pid) = 0"
  shows "po_sessions (ps_heap s ! pid) = []" "po_credentials (ps_heap s ! pid) = []"
proof -
  have "a \<notin> set (po_sessions (ps_heap s ! pid))" for a
  proof
    assume "a \<in> set (po_sessions (ps_heap s ! pid))"
    then have "a < length (ps_admissions s)" "ps_admissions s ! a = \<lparr>adm_policy = pid, adm_generation = 0\<rparr>" using inv_parts(6) [OF assms(1,2)] assms(3) by (auto simp: policy_ok_def)
    then show False using inv_parts(9) [OF assms(1)] by (fastforce simp: adm_ok_def)
  qed
  then show "po_sessions (ps_heap s ! pid) = []" by (meson last_in_set)
  show "po_credentials (ps_heap s ! pid) = []" using inv_parts(6) [OF assms(1,2)] assms(3) by (auto simp: policy_ok_def)
qed

lemma inv_grant:
  assumes inv: "admission_inv s" and i: "i < length (ps_threads s)" "ps_threads s ! i = Deciding r pid" and d: "\<not> ps_down s" "po_transition (ps_heap s ! pid) = None"
    and p: "p = (if po_generation (ps_heap s ! pid) = 0 then (ps_heap s ! pid)\<lparr>po_current := rq_current r, po_generation := 1\<rparr> else ps_heap s ! pid)"
    and g: "admit_grant p (length (ps_admissions s)) now cs = Some p'" and v: "orders_valid (po_credentials (ps_heap s ! pid)) now cs"
    and s': "s' = (goto (set_policy s pid p') i (Admitted (length (ps_admissions s))))\<lparr>ps_admissions := ps_admissions s @ [\<lparr>adm_policy = pid, adm_generation = po_generation p'\<rparr>]\<rparr>"
  shows "admission_inv s'"
proof -
  let ?t = "Admitted (length (ps_admissions s))" and ?a = "\<lparr>adm_policy = pid, adm_generation = po_generation p'\<rparr>"
  have pid: "pid < length (ps_heap s)" using inv_parts(8) [OF inv i(1)] i(2) by (simp add: thread_ok_def)
  note ok = inv_parts(6) [OF inv pid]
  have f: "ps_heap s' = (ps_heap s)[pid := p']" "ps_down s' = ps_down s" "ps_policies s' = ps_policies s" "ps_threads s' = (ps_threads s)[i := ?t]"
    "ps_out s' = ps_out s" "ps_admissions s' = ps_admissions s @ [?a]" "ps_channels s' = ps_channels s" "ps_closed s' = ps_closed s"
    by (simp_all add: s' goto_def set_policy_def)
  have p': "po_generation p' = po_generation p" "po_transition p' = None" "po_sessions p' = po_sessions p @ [length (ps_admissions s)]" "length (po_sessions p) < 4"
    "po_credentials p' = retain_credentials (po_credentials (ps_heap s ! pid)) now cs"
    using g d(2) by (auto simp: admit_grant_def policy_verified_def maxObserverSessions_def p split: if_splits)
  have m: "markers pid (ps_out s) = [2..<Suc (po_generation p)]" "1 \<le> po_generation p" using ok d by (auto simp: policy_ok_def p)
  have "po_sessions p = po_sessions (ps_heap s ! pid)" by (simp add: p)
  moreover have "a < length (ps_admissions s) \<and> ps_admissions s ! a = \<lparr>adm_policy = pid, adm_generation = po_generation p\<rparr>" if "a \<in> set (po_sessions p)" for a
    using that ok no_session_yet(1) [OF inv pid] by (auto simp: policy_ok_def p split: if_splits)
  moreover from this have "length (ps_admissions s) \<notin> set (po_sessions p)" by blast
  ultimately have ses: "length (po_sessions p') \<le> 4" "distinct (po_sessions p')"
    "\<forall>a \<in> set (po_sessions p'). a < length (ps_admissions s @ [?a]) \<and> (ps_admissions s @ [?a]) ! a = \<lparr>adm_policy = pid, adm_generation = po_generation p'\<rparr>"
    using p' ok by (auto simp: nth_append less_Suc_eq policy_ok_def intro: less_SucI)
  have cr: "distinct (map fst (po_credentials p')) \<and> length (po_credentials p') \<le> 8"
    unfolding p' by (rule retain_credentials_ok) (use ok v in \<open>auto simp: policy_ok_def\<close>)
  have "\<exists>k \<le> max 2 (Suc (po_generation p')). 2 \<le> k \<and> markers pid (ps_out s) = [2..<k]" using m p'(1) by (intro exI [of _ "Suc (po_generation p)"]) auto
  then have pol: "policy_ok p' pid (markers pid (ps_out s)) (ps_down s) (ps_admissions s @ [?a])" using ses cr m p'(1,2) unfolding policy_ok_def by simp
  have a: "adm_ok (ps_heap s') (ps_out s') ?a" using pid m p' by (auto simp: adm_ok_def f)
  have w: "wakeable s'" by (rule wakeable_update [OF inv_parts(2) [OF inv] f(4)]) (simp_all add: f i)
  have u: "map owner ((ps_threads s)[i := ?t]) = map owner (ps_threads s)" by (rule map_update_same) (simp_all add: i)
  show ?thesis
  proof (rule inv_update [OF inv pid f(1-4)])
    show "po_generation (ps_heap s ! pid) \<le> po_generation p'" using p' by (simp add: p)
    show "ps_admissions s' = ps_admissions s \<or> (\<exists>x. ps_admissions s' = ps_admissions s @ [x] \<and> adm_ok (ps_heap s') (ps_out s') x)" using a f(6) by blast
    show "owners_unique (map owner ((ps_threads s)[i := ?t]))" using u inv_parts(5) [OF inv] by simp
  qed (use pol w i no_owner [OF inv _ d(2)] log_ok_adms [OF inv_parts(3) [OF inv]] p'(2) in \<open>simp_all add: f markers_grow_def owner_ok_def thread_ok_def\<close>)
qed


lemma inv_enqueue:
  assumes inv: "admission_inv s" and i: "i < length (ps_threads s)" "ps_threads s ! i = Marking pid c previous k"
  shows "admission_inv (complete_enqueue s i pid c previous k)" (is "admission_inv ?s")
proof -
  let ?t = "Clearing pid c True k" and ?g = "po_generation (ps_heap s ! pid)"
  have m: "pid < length (ps_heap s)" "c < ps_channels s" "po_transition (ps_heap s ! pid) = Some c" "markers pid (ps_out s) = [2..<?g]"
    using inv_parts(7) [OF inv i(1)] i(2) by (simp_all add: owner_ok_def)
  have g: "2 \<le> ?g" using inv_parts(6) [OF inv m(1)] m(3) by (auto simp: policy_ok_def)
  have f: "ps_heap ?s = (ps_heap s)[pid := ps_heap s ! pid]" "ps_down ?s = ps_down s" "ps_policies ?s = ps_policies s" "ps_threads ?s = (ps_threads s)[i := ?t]"
    "ps_out ?s = ps_out s @ [Marker pid ?g previous]" "ps_admissions ?s = ps_admissions s" "ps_channels ?s = ps_channels s" "ps_closed ?s = ps_closed s"
    by (simp_all add: complete_enqueue_def goto_def)
  have out: "markers pid (ps_out ?s) = [2..<Suc ?g]" using m(4) g by (simp add: f upt_Suc)
  have "\<exists>k \<le> max 2 (Suc ?g). 2 \<le> k \<and> markers pid (ps_out ?s) = [2..<k]" using g out by (intro exI [of _ "Suc ?g"]) auto
  then have pol: "policy_ok (ps_heap s ! pid) pid (markers pid (ps_out ?s)) (ps_down s) (ps_admissions s)"
    using inv_parts(6) [OF inv m(1)] m(3) unfolding policy_ok_def by auto
  have w: "wakeable ?s" by (rule wakeable_update [OF inv_parts(2) [OF inv] f(4)]) (simp_all add: f i)
  have u: "map owner ((ps_threads s)[i := ?t]) = map owner (ps_threads s)" by (rule map_update_same) (simp_all add: i)
  show ?thesis
  proof (rule inv_update [OF inv m(1) f(1-4)])
    show "markers_grow pid (ps_out s) (ps_out ?s)" using m(4) g out by (auto simp: markers_grow_def)
    show "Some (pid, d) \<in> set (map owner ((ps_threads s)[i := ?t]))" if "po_transition (ps_heap s ! pid) = Some d" for d
      using that inv_parts(1) [OF inv] m(1) by (simp add: u served_def del: set_map)
    show "owner_ok (ps_heap ?s) (ps_out ?s) (ps_down s) (ps_channels ?s) ?t" using m out by (simp add: owner_ok_def f del: markers_append)
    show "log_ok (ps_admissions ?s) (ps_out ?s)" using inv_parts(3) [OF inv] by (simp add: f log_ok_marker)
    show "po_generation (ps_heap s ! pid) = po_generation (ps_heap s ! pid) \<and> po_transition (ps_heap s ! pid) = po_transition (ps_heap s ! pid) \<and> markers pid (ps_out ?s) = markers pid (ps_out s) \<or>
      (\<forall>j < length (ps_threads s). j \<noteq> i \<longrightarrow> (\<forall>c. owner (ps_threads s ! j) \<noteq> Some (pid, c)))"
      using sole_owner [OF inv i(1), of _ pid c] i(2) by auto
    show "owners_unique (map owner ((ps_threads s)[i := ?t]))" using u inv_parts(5) [OF inv] by simp
  qed (use i pol w in \<open>simp_all add: f thread_ok_def\<close>)
qed

lemma inv_clear:
  assumes inv: "admission_inv s" and i: "i < length (ps_threads s)" "ps_threads s ! i = Clearing pid c e k"
  shows "admission_inv (complete_clear s i pid c e k)" (is "admission_inv ?s")
proof -
  let ?t = "Closing pid c e k" and ?p = "(ps_heap s ! pid)\<lparr>po_transition := None\<rparr>"
  have m: "pid < length (ps_heap s)" "c < ps_channels s" "po_transition (ps_heap s ! pid) = Some c"
    "if e then markers pid (ps_out s) = [2..<Suc (po_generation (ps_heap s ! pid))] else ps_down s"
    using inv_parts(7) [OF inv i(1)] i(2) by (simp_all add: owner_ok_def)
  have f: "ps_heap ?s = (ps_heap s)[pid := ?p]" "ps_down ?s = ps_down s" "ps_policies ?s = ps_policies s" "ps_threads ?s = (ps_threads s)[i := ?t]"
    "ps_out ?s = ps_out s" "ps_admissions ?s = ps_admissions s" "ps_channels ?s = ps_channels s" "ps_closed ?s = ps_closed s"
    by (simp_all add: complete_clear_def goto_def set_policy_def m(3))
  have pol: "policy_ok ?p pid (markers pid (ps_out s)) (ps_down s) (ps_admissions s)"
    using inv_parts(6) [OF inv m(1)] m(3,4) unfolding policy_ok_def by (auto split: if_splits)
  have w: "wakeable ?s" by (rule wakeable_update [OF inv_parts(2) [OF inv] f(4)]) (simp_all add: f i)
  have u: "owners_unique (map owner ((ps_threads s)[i := ?t]))" using owners_unique_none [OF inv_parts(5) [OF inv], of i] by (simp add: map_update)
  show ?thesis
  proof (rule inv_update [OF inv m(1) f(1-4)])
    show "po_generation ?p = po_generation (ps_heap s ! pid) \<and> po_transition ?p = po_transition (ps_heap s ! pid) \<and> markers pid (ps_out ?s) = markers pid (ps_out s) \<or>
      (\<forall>j < length (ps_threads s). j \<noteq> i \<longrightarrow> (\<forall>c. owner (ps_threads s ! j) \<noteq> Some (pid, c)))"
      using sole_owner [OF inv i(1), of _ pid c] i(2) by auto
  qed (use i pol w u m inv_parts(3) [OF inv] in \<open>simp_all add: f thread_ok_def owner_ok_def markers_grow_def\<close>)
qed

lemma inv_close:
  assumes inv: "admission_inv s" and i: "i < length (ps_threads s)" "ps_threads s ! i = Closing pid c e k"
  shows "admission_inv (complete_close s i pid c e k)" (is "admission_inv ?s")
proof -
  let ?t = "case k of None \<Rightarrow> Done | Some r \<Rightarrow> if e then Deciding r pid else Refused ''reset_blocked''"
  have pid: "pid < length (ps_heap s)" using inv_parts(8) [OF inv i(1)] i(2) by (simp add: thread_ok_def)
  have f: "ps_heap ?s = (ps_heap s)[pid := ps_heap s ! pid]" "ps_down ?s = ps_down s" "ps_policies ?s = ps_policies s" "ps_threads ?s = (ps_threads s)[i := ?t]"
    "ps_out ?s = ps_out s" "ps_admissions ?s = ps_admissions s" "ps_channels ?s = ps_channels s" "ps_closed ?s = c # ps_closed s"
    by (simp_all add: complete_close_def goto_def)
  have t: "owner ?t = None" "owner_ok h out d n ?t" "thread_ok (ps_heap s) out n ?t" "\<And>r pid c. ?t \<noteq> Waiting r pid c" for h out d n
    using pid by (auto simp: owner_ok_def thread_ok_def split: option.split)
  have w: "wakeable ?s" by (rule wakeable_update [OF inv_parts(2) [OF inv] f(4)]) (use t(4) in \<open>auto simp: f i\<close>)
  have u: "map owner ((ps_threads s)[i := ?t]) = map owner (ps_threads s)" by (rule map_update_same) (simp_all add: i t(1))
  show ?thesis
  proof (rule inv_update [OF inv pid f(1-4)])
    show "Some (pid, d) \<in> set (map owner ((ps_threads s)[i := ?t]))" if "po_transition (ps_heap s ! pid) = Some d" for d
      using that inv_parts(1) [OF inv] pid by (simp add: u served_def del: set_map)
    show "owners_unique (map owner ((ps_threads s)[i := ?t]))" using u inv_parts(5) [OF inv] by simp
  qed (use i w t pid inv_parts(3,6) [OF inv] in \<open>simp_all add: f markers_grow_def\<close>)
qed

lemma inv_decide:
  assumes inv: "admission_inv s" and i: "i < length (ps_threads s)" "ps_threads s ! i = Deciding r pid"
    and v: "orders_valid (po_credentials (ps_heap s ! pid)) now (zip (rq_credentials r) orders)"
  shows "admission_inv (admit_decide s i r pid now orders)"
proof (cases "admit_pass (ps_down s) (ps_heap s ! pid) (rq_current r) (rq_lookedUpAt r)")
  case (Refuse reason)
  have "admission_inv (goto s i (Refused reason))" by (rule inv_goto [OF inv i(1)]) (simp_all add: i(2) owner_ok_def thread_ok_def)
  then show ?thesis by (simp add: admit_decide_def Refuse)
next
  case (Await c)
  have pid: "pid < length (ps_heap s)" using inv_parts(8) [OF inv i(1)] i(2) by (simp add: thread_ok_def)
  have "po_transition (ps_heap s ! pid) = Some c" using Await by (auto simp: admit_pass_def split: if_splits option.splits)
  then have "Some (pid, c) \<in> set (map owner (ps_threads s))" using inv_parts(1) [OF inv] pid by (simp add: served_def)
  then obtain t where "t \<in> set (ps_threads s)" "owner t = Some (pid, c)" by auto
  moreover from this have "closer t = Some c" by (metis owner_closer)
  ultimately have "Some c \<in> set (map closer (ps_threads s))" by (metis image_eqI set_map)
  then have "admission_inv (goto s i (Waiting r pid c))" by (intro inv_goto [OF inv i(1)]) (simp_all add: i(2) owner_ok_def thread_ok_def pid)
  then show ?thesis by (simp add: admit_decide_def Await)
next
  case Transition
  have pid: "pid < length (ps_heap s)" using inv_parts(8) [OF inv i(1)] i(2) by (simp add: thread_ok_def)
  have "\<not> ps_down s" "po_transition (ps_heap s ! pid) = None" "1 \<le> po_generation (ps_heap s ! pid)"
    using Transition by (auto simp: admit_pass_def split: if_splits option.splits)
  moreover from this have "markers pid (ps_out s) = [2..<Suc (po_generation (ps_heap s ! pid))]" using inv_parts(6) [OF inv pid] by (simp add: policy_ok_def)
  ultimately have "admission_inv (begin_transition s i pid (rq_current r) (Some r))" by (intro inv_begin [OF inv i(1) _ _ pid]) (simp_all add: i(2))
  then show ?thesis by (simp add: admit_decide_def Transition)
next
  case (Proceed p)
  have pid: "pid < length (ps_heap s)" using inv_parts(8) [OF inv i(1)] i(2) by (simp add: thread_ok_def)
  have d: "\<not> ps_down s" "po_transition (ps_heap s ! pid) = None"
    and p: "p = (if po_generation (ps_heap s ! pid) = 0 then (ps_heap s ! pid)\<lparr>po_current := rq_current r, po_generation := 1\<rparr> else ps_heap s ! pid)"
    using Proceed by (auto simp: admit_pass_def split: if_splits option.splits)
  show ?thesis
  proof (cases "admit_grant p (length (ps_admissions s)) now (zip (rq_credentials r) orders)")
    case None
    then have "0 < length (po_sessions p)" by (auto simp: admit_grant_def maxObserverSessions_def split: if_splits)
    then have "p = ps_heap s ! pid" using no_session_yet(1) [OF inv pid] by (auto simp: p)
    then have "set_policy s pid p = s" by (simp add: set_policy_def)
    moreover have "admission_inv (goto s i (Refused ''observer_sessions''))" by (rule inv_goto [OF inv i(1)]) (simp_all add: i(2) owner_ok_def thread_ok_def)
    ultimately show ?thesis by (simp add: admit_decide_def Proceed None)
  next
    case (Some p')
    show ?thesis by (rule inv_grant [OF inv i d p Some v]) (simp add: admit_decide_def Proceed Some)
  qed
qed


lemma inv_locate:
  assumes inv: "admission_inv s" and i: "i < length (ps_threads s)" "ps_threads s ! i = Authorized g"
  shows "admission_inv (admit_locate s i r now visit)"
proof (cases "map_of (ps_policies s) (ObserverID (rq_current r))")
  case None
  have "admission_inv (goto s i (Reclaiming r now visit))" by (rule inv_goto [OF inv i(1)]) (simp_all add: i(2) owner_ok_def thread_ok_def)
  then have "admission_inv ((goto s i (Reclaiming r now visit))\<lparr>ps_locked := True\<rparr>)" by (simp add: admission_inv_def served_def wakeable_def policy_table_ok_def)
  moreover have "admission_inv (create_policy s i r)" if "length (ps_policies s) < maxTrackedObserverPolicies" using inv_create [OF inv i(1) _ _ that] i(2) by simp
  ultimately show ?thesis by (simp add: admit_locate_def None)
next
  case (Some pid)
  then have "pid < length (ps_heap s)" using inv_parts(4) [OF inv] map_of_SomeD by (force simp: policy_table_ok_def)
  then have "admission_inv (goto s i (Deciding r pid))" by (intro inv_goto [OF inv i(1)]) (simp_all add: i(2) owner_ok_def thread_ok_def)
  then show ?thesis by (simp add: admit_locate_def Some)
qed

lemma inv_visit:
  assumes inv: "admission_inv s" and i: "i < length (ps_threads s)" "ps_threads s ! i = Reclaiming r now (observer # rest)"
  shows "admission_inv (goto (reclaim_visit s retention now observer) i (Reclaiming r now rest))"
proof -
  have "admission_inv (s\<lparr>ps_policies := AList.delete observer (ps_policies s), ps_locked := ps_locked s\<rparr>)"
    using inv_parts(4) [OF inv] length_delete_le [of observer "ps_policies s"] set_delete_sub [of observer "ps_policies s", THEN subsetD]
    by (intro inv_table [OF inv]) (fastforce simp: policy_table_ok_def distinct_delete)+
  then have "admission_inv (reclaim_visit s retention now observer)" using inv by (simp add: reclaim_visit_def split: option.split)
  moreover have "ps_threads (reclaim_visit s retention now observer) = ps_threads s" by (simp add: reclaim_visit_def split: option.split)
  ultimately show ?thesis by (intro inv_goto) (simp_all add: i owner_ok_def thread_ok_def)
qed

lemma inv_reclaimed:
  assumes inv: "admission_inv s" and i: "i < length (ps_threads s)" "ps_threads s ! i = Reclaiming r now []"
  shows "admission_inv (admit_reclaimed s i r)"
proof -
  have "admission_inv (goto s i (Refused ''observer_ceiling''))" by (rule inv_goto [OF inv i(1)]) (simp_all add: i(2) owner_ok_def thread_ok_def)
  then have "admission_inv ((goto s i (Refused ''observer_ceiling''))\<lparr>ps_locked := False\<rparr>)" by (simp add: admission_inv_def served_def wakeable_def policy_table_ok_def)
  moreover have "admission_inv (create_policy s i r)" if "length (ps_policies s) < maxTrackedObserverPolicies" using inv_create [OF inv i(1) _ _ that] i(2) by simp
  ultimately show ?thesis by (simp add: admit_reclaimed_def)
qed

lemma inv_verified:
  assumes "admission_inv s" "pid < length (ps_heap s)"
  shows "admission_inv (admission_verified s pid now)"
proof -
  have "policy_ok (policy_verified (ps_heap s ! pid) now) pid (markers pid (ps_out s)) (ps_down s) (ps_admissions s)"
    using inv_parts(6) [OF assms] unfolding policy_verified_def policy_ok_def by (cases "po_verifiedAt (ps_heap s ! pid) < now") simp_all
  then show ?thesis unfolding admission_verified_def by (intro inv_bookkeep [OF assms]) (simp_all add: policy_verified_def)
qed

lemma policy_ok_fewer:
  assumes "policy_ok p pid ms d adms"
  shows "policy_ok (p\<lparr>po_sessions := filter P (po_sessions p)\<rparr>) pid ms d adms"
proof -
  have "length (filter P (po_sessions p)) \<le> 4" using assms length_filter_le [of P "po_sessions p"] le_trans unfolding policy_ok_def by blast
  then show ?thesis using assms unfolding policy_ok_def by simp
qed

lemma inv_release:
  assumes "admission_inv s" "a < length (ps_admissions s)"
  shows "admission_inv (admission_release s a)"
proof -
  have pid: "adm_policy (ps_admissions s ! a) < length (ps_heap s)" using inv_parts(9) [OF assms] by (simp add: adm_ok_def)
  show ?thesis unfolding admission_release_def Let_def by (rule inv_bookkeep [OF assms(1) pid]) (simp_all add: policy_ok_fewer inv_parts(6) [OF assms(1) pid])
qed

lemma inv_sweep:
  assumes "admission_inv s" "pid < length (ps_heap s)" "t \<in> set (policy_tasks authorityTTL now pid (ps_heap s ! pid))"
  shows "admission_inv (spawn s (Judging (tk_admission t)))"
proof -
  have t: "tk_admission t = \<lparr>adm_policy = pid, adm_generation = po_generation (ps_heap s ! pid)\<rparr>" "po_credentials (ps_heap s ! pid) \<noteq> []"
    using assms(3) by (auto simp: policy_tasks_def split: if_splits)
  then have "adm_ok (ps_heap s) (ps_out s) (tk_admission t)" using inv_parts(6) [OF assms(1,2)] assms(2) by (auto simp: policy_ok_def adm_ok_def)
  then show ?thesis by (intro inv_spawn [OF assms(1)]) (simp_all add: owner_ok_def thread_ok_def)
qed

lemma inv_step: "push_step retention authorityTTL s s' \<Longrightarrow> admission_inv s \<Longrightarrow> admission_inv s'"
proof (induction rule: push_step.induct)
  case (lookup s observer)
  then show ?case by (intro inv_spawn) (simp_all add: owner_ok_def thread_ok_def)
next
  case (wake i s r pid pending)
  then show ?case using inv_parts(8) [of s i] by (intro inv_goto) (simp_all add: owner_ok_def thread_ok_def)
next
  case (give_up i s r pid pending)
  then show ?case by (intro inv_goto) (simp_all add: owner_ok_def thread_ok_def)
next
  case (blocked i s pid pending previous k)
  then show ?case using inv_parts(7) [of s i] by (intro inv_goto) (simp_all add: owner_ok_def thread_ok_def)
next
  case (watch a s)
  then show ?case using inv_parts(9) [of s a] by (intro inv_spawn) (simp_all add: owner_ok_def thread_ok_def)
qed (simp_all add: inv_locate inv_visit inv_reclaimed inv_decide inv_enqueue inv_clear inv_close inv_sweep inv_change inv_verified inv_release inv_send inv_shutdown)

lemma reach_inv: "push_reach retention authorityTTL s \<Longrightarrow> admission_inv s"
proof (induction rule: push_reach.induct)
  case start
  then show ?case by (simp add: admission_inv_def push_server0_def served_def owners_unique_def wakeable_def log_ok_def policy_table_ok_def)
qed (rule inv_step)


section \<open>What the protocol promises\<close>

text \<open>C16: what every run keeps. The table holds at most 1024 policies; a policy has at most four live sessions and eight retained credentials; every live session is one of that policy's current
  generation, so that a transition leaves none behind; while a transition is pending nothing is admitted; and a thread that waits for a transition waits for a channel that is closed or
  that another thread is still to close.\<close>

theorem admission_invariant:
  assumes "push_reach retention authorityTTL s"
  shows "length (ps_policies s) \<le> 1024 \<and>
    list_all (\<lambda>p. length (po_sessions p) \<le> 4 \<and> length (po_credentials p) \<le> 8 \<and> (po_transition p = None \<or> po_sessions p = [] \<and> po_credentials p = [])) (ps_heap s) \<and>
    list_all (\<lambda>pid. list_all (\<lambda>a. ps_admissions s ! a = \<lparr>adm_policy = pid, adm_generation = po_generation (ps_heap s ! pid)\<rparr>) (po_sessions (ps_heap s ! pid))) [0..<length (ps_heap s)] \<and>
    list_all (\<lambda>t. case t of Waiting _ _ c \<Rightarrow> c \<in> set (ps_closed s) \<or> Some c \<in> set (map closer (ps_threads s)) | _ \<Rightarrow> True) (ps_threads s)"
proof -
  have inv: "admission_inv s" by (rule reach_inv [OF assms])
  have "list_all (\<lambda>t. case t of Waiting _ _ c \<Rightarrow> c \<in> set (ps_closed s) \<or> Some c \<in> set (map closer (ps_threads s)) | _ \<Rightarrow> True) (ps_threads s)"
    using inv_parts(2) [OF inv] unfolding wakeable_def list_all_iff by (auto split: thread.split)
  moreover have "list_all (\<lambda>p. length (po_sessions p) \<le> 4 \<and> length (po_credentials p) \<le> 8 \<and> (po_transition p = None \<or> po_sessions p = [] \<and> po_credentials p = [])) (ps_heap s)"
    using inv_parts(6) [OF inv] unfolding list_all_length policy_ok_def by blast
  moreover have "list_all (\<lambda>pid. list_all (\<lambda>a. ps_admissions s ! a = \<lparr>adm_policy = pid, adm_generation = po_generation (ps_heap s ! pid)\<rparr>) (po_sessions (ps_heap s ! pid))) [0..<length (ps_heap s)]"
    using inv_parts(6) [OF inv] by (simp add: list_all_iff policy_ok_def)
  ultimately show ?thesis using inv_parts(4) [OF inv] by (simp add: policy_table_ok_def)
qed

text \<open>C15: resets come before the data of the authority they start. If a record in the decode channel belongs to an admission that is still current, then every reset marker of its policy is ahead
  of it, one for each transition of the policy and in their order; so the decoder never resets an audience after it has projected a record of the current authority.\<close>

theorem reset_before_data:
  assumes "push_reach retention authorityTTL s" "ps_out s = xs @ Data a # ys" "admission_Current s (ps_admissions s ! a)"
  shows "markers (adm_policy (ps_admissions s ! a)) ys = [] \<and> markers (adm_policy (ps_admissions s ! a)) xs = [2..<Suc (adm_generation (ps_admissions s ! a))]"
proof -
  let ?a = "ps_admissions s ! a"
  have inv: "admission_inv s" by (rule reach_inv [OF assms(1)])
  obtain k where k: "Suc (adm_generation ?a) \<le> k" "markers (adm_policy ?a) xs = [2..<k]" and a: "a < length (ps_admissions s)"
    using inv_parts(3) [OF inv] assms(2) unfolding log_ok_def by blast
  have ok: "adm_ok (ps_heap s) (ps_out s) ?a" by (rule inv_parts(9) [OF inv a])
  have "[2..<k] @ markers (adm_policy ?a) ys = [2..<Suc (adm_generation ?a)]"
    using current_ready(3) [OF inv ok assms(3)] k(2) assms(2,3) by (simp add: admission_Current_def)
  moreover from this have "k - 2 + length (markers (adm_policy ?a) ys) = Suc (adm_generation ?a) - 2" by (metis length_append length_upt)
  moreover have "1 \<le> adm_generation ?a" using ok by (simp add: adm_ok_def)
  ultimately have "length (markers (adm_policy ?a) ys) = 0" "k = Suc (adm_generation ?a)" using k(1) by linarith+
  then show ?thesis using k(2) by simp
qed

text \<open>The sweep asks first about the contributors that were confirmed longest ago, and a contributor whose authority is unchanged stays.\<close>

lemma sweep_tasks_oldest:
  assumes "t \<in> set (sweep_tasks ts)" "u \<in> set ts" "count (mset (sweep_tasks ts)) u < count (mset ts) u"
  shows "tk_verifiedAt t \<le> tk_verifiedAt u"
proof -
  let ?s = "sort_key tk_verifiedAt ts"
  have split: "?s = sweep_tasks ts @ drop maxReconcileTasksPerSweep ?s" by (simp add: sweep_tasks_def)
  then have "mset ts = mset (sweep_tasks ts) + mset (drop maxReconcileTasksPerSweep ?s)" by (metis mset_append mset_sort)
  then have "u \<in> set (drop maxReconcileTasksPerSweep ?s)" using assms(3) by (metis add.right_neutral count_mset_0_iff count_union less_irrefl)
  moreover have "sorted (map tk_verifiedAt (sweep_tasks ts @ drop maxReconcileTasksPerSweep ?s))" using split sorted_sort_key by metis
  ultimately show ?thesis using assms(1) by (simp add: sorted_append)
qed

lemma unchanged_is_verified:
  assumes "AuthorizationEqual (tk_previous t) current"
  shows "task_verdict t (Some (current, True)) = Verified"
proof -
  have "CredentialTier (tk_previous t) = CredentialTier current" using assms by (simp add: AuthorizationEqual_def)
  then have "\<not> (CredentialTier current = CredentialToken \<and> CredentialTier (tk_previous t) = CredentialSoftwareMTLS \<and> CredentialFingerprint current = [])"
    by (simp add: CredentialToken_def CredentialSoftwareMTLS_def)
  then show ?thesis unfolding task_verdict_def option.case prod.case Let_def using assms by (simp only: if_False) simp
qed

section \<open>A policy forgotten too early\<close>

definition server_of :: "observer_policy list \<Rightarrow> (string \<times> nat) list \<Rightarrow> thread list \<Rightarrow> bool \<Rightarrow> admission list \<Rightarrow> push_server" where
  "server_of h ps ts locked adms =
     \<lparr>ps_policies = ps, ps_locked = locked, ps_heap = h, ps_admissions = adms, ps_cancelled = [], ps_channels = 0, ps_closed = [], ps_out = [], ps_threads = ts, ps_down = False\<rparr>"

definition plain_request :: "observer_context \<Rightarrow> request" where
  "plain_request c = \<lparr>rq_current = c, rq_lookedUpAt = 0, rq_credentials = []\<rparr>"

definition granted :: "observer_context \<Rightarrow> nat \<Rightarrow> observer_policy" where
  "granted c a = new_policy\<lparr>po_current := c, po_generation := 1, po_verifiedAt := 1, po_lastAdmitted := 1, po_sessions := [a]\<rparr>"

lemma update_absent: "map_of m k = None \<Longrightarrow> AList.update k v m = m @ [(k, v)]"
  by (induction m) (auto split: if_splits)

lemma delete_absent: "k \<notin> fst ` set m \<Longrightarrow> AList.delete k m = m"
  by (auto simp: AList.delete_eq filter_id_conv rev_image_eqI)

lemma looked_up:
  assumes "push_reach retention ttl (server_of h ps ts False adms)" "map_of ps observer = None"
  shows "push_reach retention ttl (server_of h ps (ts @ [Authorized 0]) False adms)"
proof -
  have "push_step retention ttl (server_of h ps ts False adms) (spawn (server_of h ps ts False adms) (Authorized (policyGeneration (server_of h ps ts False adms) observer)))"
    by (rule push_step.lookup) (simp add: server_of_def)
  moreover have "spawn (server_of h ps ts False adms) (Authorized (policyGeneration (server_of h ps ts False adms) observer)) = server_of h ps (ts @ [Authorized 0]) False adms"
    using assms(2) by (simp add: spawn_def policyGeneration_def server_of_def)
  ultimately show ?thesis using push_reach.step [OF assms(1)] by simp
qed

lemma located:
  assumes "push_reach retention ttl (server_of h ps ts False adms)" "map_of ps (ObserverID c) = None" "mset visit = mset (map fst ps)"
    "s' = admit_locate (server_of h ps (ts @ [Authorized 0]) False adms) (length ts) (plain_request c) now visit"
  shows "push_reach retention ttl s'"
  using push_reach.step [OF looked_up [OF assms(1,2)] push_step.locate [of "length ts" _ 0 "plain_request c" visit _ _ now]] assms(3,4)
  by (simp add: server_of_def plain_request_def)

lemma arrive:
  assumes "push_reach retention ttl (server_of h ps ts False adms)" "map_of ps (ObserverID c) = None" "length ps < 1024"
  shows "push_reach retention ttl (server_of (h @ [new_policy]) (ps @ [(ObserverID c, length h)]) (ts @ [Deciding (plain_request c) (length h)]) False adms)"
  by (rule located [OF assms(1,2) refl, where now = 0])
    (use assms(2,3) in \<open>simp add: admit_locate_def create_policy_def goto_def server_of_def plain_request_def maxTrackedObserverPolicies_def update_absent\<close>)

lemma admitted:
  assumes "push_reach retention ttl (server_of h ps ts l adms)" "i < length ts" "ts ! i = Deciding (plain_request c) pid" "h ! pid = new_policy"
  shows "push_reach retention ttl (server_of (h[pid := granted c (length adms)]) ps (ts[i := Admitted (length adms)]) l (adms @ [\<lparr>adm_policy = pid, adm_generation = 1\<rparr>]))"
proof -
  have "admit_decide (server_of h ps ts l adms) i (plain_request c) pid 1 [] =
    server_of (h[pid := granted c (length adms)]) ps (ts[i := Admitted (length adms)]) l (adms @ [\<lparr>adm_policy = pid, adm_generation = 1\<rparr>])"
    using assms(4) by (simp add: admit_decide_def server_of_def plain_request_def admit_pass_def new_policy_def admit_grant_def maxObserverSessions_def policy_verified_def goto_def set_policy_def granted_def)
  moreover have "push_step retention ttl (server_of h ps ts l adms) (admit_decide (server_of h ps ts l adms) i (plain_request c) pid 1 [])"
    by (rule push_step.decide) (use assms in \<open>simp_all add: server_of_def plain_request_def\<close>)
  ultimately show ?thesis using push_reach.step [OF assms(1)] by simp
qed

lemma visited:
  assumes "push_reach retention ttl (server_of h (ps @ qs) (ts @ [Reclaiming r now (map fst ps)]) True adms)" "distinct (map fst (ps @ qs))"
    "list_all (\<lambda>(_, pid). h ! pid = new_policy) ps" "time_Sub now 0 > retention"
  shows "push_reach retention ttl (server_of h qs (ts @ [Reclaiming r now []]) True adms)"
  using assms
proof (induction ps)
  case (Cons x ps)
  obtain q pid where x: "x = (q, pid)" by fastforce
  let ?s = "server_of h ((x # ps) @ qs) (ts @ [Reclaiming r now (map fst (x # ps))]) True adms"
  have "push_step retention ttl ?s (goto (reclaim_visit ?s retention now q) (length ts) (Reclaiming r now (map fst ps)))"
    by (rule push_step.visit) (simp_all add: server_of_def x)
  moreover have "AList.delete q (ps @ qs) = ps @ qs" using Cons.prems(2) by (intro delete_absent) (auto simp: x)
  then have "goto (reclaim_visit ?s retention now q) (length ts) (Reclaiming r now (map fst ps)) = server_of h (ps @ qs) (ts @ [Reclaiming r now (map fst ps)]) True adms"
    using Cons.prems(3,4) by (simp add: goto_def reclaim_visit_def server_of_def x policy_idle_def new_policy_def)
  ultimately have "push_reach retention ttl (server_of h (ps @ qs) (ts @ [Reclaiming r now (map fst ps)]) True adms)" using push_reach.step [OF Cons.prems(1)] by simp
  then show ?case using Cons by (simp add: x)
qed simp

lemma swept_away:
  assumes "push_reach retention ttl (server_of h ps ts False adms)" "map_of ps (ObserverID c) = None" "1024 \<le> length ps" "distinct (map fst ps)"
    "list_all (\<lambda>(_, pid). h ! pid = new_policy) ps" "time_Sub now 0 > retention"
  shows "push_reach retention ttl (server_of h [] (ts @ [Reclaiming (plain_request c) now []]) True adms)"
proof -
  have "push_reach retention ttl (server_of h (ps @ []) (ts @ [Reclaiming (plain_request c) now (map fst ps)]) True adms)"
    by (rule located [OF assms(1,2) refl, where now = now])
      (use assms(2,3) in \<open>simp add: admit_locate_def goto_def server_of_def plain_request_def maxTrackedObserverPolicies_def\<close>)
  then show ?thesis by (rule visited) (use assms in simp_all)
qed

lemma room_made:
  assumes "push_reach retention ttl (server_of h [] (ts @ [Reclaiming (plain_request c) now []]) True adms)"
  shows "push_reach retention ttl (server_of (h @ [new_policy]) [(ObserverID c, length h)] (ts @ [Deciding (plain_request c) (length h)]) False adms)"
proof -
  let ?s = "server_of h [] (ts @ [Reclaiming (plain_request c) now []]) True adms"
  have "push_step retention ttl ?s (admit_reclaimed ?s (length ts) (plain_request c))" by (rule push_step.reclaimed) (simp_all add: server_of_def)
  moreover have "admit_reclaimed ?s (length ts) (plain_request c) = server_of (h @ [new_policy]) [(ObserverID c, length h)] (ts @ [Deciding (plain_request c) (length h)]) False adms"
    by (simp add: admit_reclaimed_def create_policy_def goto_def server_of_def plain_request_def maxTrackedObserverPolicies_def)
  ultimately show ?thesis using push_reach.step [OF assms] by simp
qed


definition numbered :: "nat \<Rightarrow> observer_context" where
  "numbered k = empty_context\<lparr>ObserverID := replicate k (CHR ''a'')\<rparr>"

lemma numbered_inj: "ObserverID (numbered j) = ObserverID (numbered k) \<longleftrightarrow> j = k"
  by (auto simp: numbered_def replicate_eq_replicate)

definition crowd :: "nat \<Rightarrow> (string \<times> nat) list" where
  "crowd n = map (\<lambda>k. (ObserverID (numbered k), k)) [0..<n]"

lemma crowd_facts:
  shows "length (crowd n) = n" "distinct (map fst (crowd n))" "n \<le> k \<Longrightarrow> map_of (crowd n) (ObserverID (numbered k)) = None"
  by (auto simp: crowd_def distinct_map inj_on_def numbered_inj map_of_eq_None_iff comp_def)

lemma crowd_reached:
  "n \<le> 1024 \<Longrightarrow> push_reach retention ttl (server_of (replicate n new_policy) (crowd n) (map (\<lambda>k. Deciding (plain_request (numbered k)) k) [0..<n]) False [])"
proof (induction n)
  case 0
  have "server_of [] [] [] False [] = push_server0" by (simp add: server_of_def push_server0_def)
  then show ?case using push_reach.start by (simp add: crowd_def)
next
  case (Suc n)
  then have "push_reach retention ttl (server_of (replicate n new_policy) (crowd n) (map (\<lambda>k. Deciding (plain_request (numbered k)) k) [0..<n]) False [])" by simp
  from arrive [OF this, of "numbered n"] show ?case using Suc.prems
    by (simp add: crowd_facts) (simp add: crowd_def upt_Suc replicate_append_same [symmetric])
qed

text \<open>C17: a policy with a live session can be forgotten. Between the creation of a policy in the table and the admission of its first session, another admission at the ceiling reclaims it, since a
  new policy has no session and no last admission; its session then lives under a policy outside the table, and the observer can be admitted again under another authority, both
  sessions current at once, with no transition between them.\<close>

theorem live_policy_forgotten:
  "\<exists>s p q a b. push_reach defaultPolicyRetention authorityTTL s \<and> \<not> ps_down s \<and>
     a \<in> set (po_sessions (ps_heap s ! p)) \<and> b \<in> set (po_sessions (ps_heap s ! q)) \<and>
     admission_Current s (ps_admissions s ! a) \<and> admission_Current s (ps_admissions s ! b) \<and> p \<notin> snd ` set (ps_policies s) \<and> q \<in> snd ` set (ps_policies s) \<and>
     ObserverID (po_current (ps_heap s ! p)) = ObserverID (po_current (ps_heap s ! q)) \<and> \<not> AuthorizationEqual (po_current (ps_heap s ! p)) (po_current (ps_heap s ! q))"
proof -
  obtain n :: nat where n: "n = 1024" by simp
  then have pos: "0 < n" by simp
  let ?now = "2 ^ 60 :: int"
  let ?h = "replicate n new_policy" and ?ts = "map (\<lambda>k. Deciding (plain_request (numbered k)) k) [0..<n]" and ?c = "(numbered 0)\<lparr>OrganizationID := ''b''\<rparr>"
  let ?adm = "\<lambda>pid. \<lparr>adm_policy = pid, adm_generation = 1\<rparr>"
  have "time_Sub ?now 0 > defaultPolicyRetention" by (simp add: time_Sub_def defaultPolicyRetention_def Minute_def Second_def)
  moreover have "list_all (\<lambda>(_, pid). ?h ! pid = new_policy) (crowd n)" by (auto simp: crowd_def list_all_iff)
  ultimately have "push_reach defaultPolicyRetention authorityTTL (server_of ?h [] (?ts @ [Reclaiming (plain_request (numbered n)) ?now []]) True [])"
    using swept_away [OF crowd_reached [of n]] crowd_facts [of n] n by simp
  from admitted [OF this, of 0 "numbered 0" 0]
  have "push_reach defaultPolicyRetention authorityTTL
    (server_of (?h[0 := granted (numbered 0) 0]) [] (?ts[0 := Admitted 0] @ [Reclaiming (plain_request (numbered n)) ?now []]) True [?adm 0])"
    using pos by (simp add: nth_append list_update_append1)
  from arrive [OF room_made [OF this], of ?c]
  have "push_reach defaultPolicyRetention authorityTTL
    (server_of ((?h[0 := granted (numbered 0) 0] @ [new_policy]) @ [new_policy]) [(ObserverID (numbered n), n), (ObserverID ?c, Suc n)]
       ((?ts[0 := Admitted 0] @ [Deciding (plain_request (numbered n)) n]) @ [Deciding (plain_request ?c) (Suc n)]) False [?adm 0])"
    using pos n by (simp add: numbered_def)
  from admitted [OF this, of "Suc n" ?c "Suc n"]
  have "push_reach defaultPolicyRetention authorityTTL
    (server_of ((?h[0 := granted (numbered 0) 0] @ [new_policy]) @ [granted ?c 1]) [(ObserverID (numbered n), n), (ObserverID ?c, Suc n)]
       ((?ts[0 := Admitted 0] @ [Deciding (plain_request (numbered n)) n]) @ [Admitted 1]) False [?adm 0, ?adm (Suc n)])" (is "push_reach _ _ ?s")
    by (simp add: nth_append list_update_append)
  moreover have "ps_heap ?s ! 0 = granted (numbered 0) 0" "ps_heap ?s ! Suc n = granted ?c 1" using pos by (simp_all add: server_of_def nth_append)
  ultimately show ?thesis using pos
    by (intro exI [of _ ?s] exI [of _ "0 :: nat"] exI [of _ "Suc n"] exI [of _ "0 :: nat"] exI [of _ "1 :: nat"])
      (simp add: server_of_def granted_def new_policy_def admission_Current_def AuthorizationEqual_def numbered_def empty_context_def nth_append)
qed


section \<open>A run with a transition\<close>

text \<open>An observer is admitted, admitted again under another authority, and sends.\<close>

definition first_context :: observer_context where "first_context = empty_context\<lparr>ObserverID := ''a''\<rparr>"
definition second_context :: observer_context where "second_context = first_context\<lparr>OrganizationID := ''b''\<rparr>"

definition second_request :: request where "second_request = \<lparr>rq_current = second_context, rq_lookedUpAt = 1, rq_credentials = []\<rparr>"

definition moved :: "nat option \<Rightarrow> observer_policy" where
  "moved pending = (granted first_context 0)\<lparr>po_generation := 2, po_current := second_context, po_sessions := [], po_transition := pending\<rparr>"

definition server_mid :: "observer_policy \<Rightarrow> thread \<Rightarrow> nat list \<Rightarrow> out list \<Rightarrow> push_server" where
  "server_mid p t cl os =
     (server_of [p] [(''a'', 0)] [Admitted 0, t] False [\<lparr>adm_policy = 0, adm_generation = 1\<rparr>])\<lparr>ps_cancelled := [0], ps_channels := 1, ps_closed := cl, ps_out := os\<rparr>"

lemma contexts_differ: "\<not> AuthorizationEqual first_context second_context" "AuthorizationEqual second_context second_context" "ObserverID first_context = ''a''" "ObserverID second_context = ''a''"
  by (simp_all add: AuthorizationEqual_def first_context_def second_context_def empty_context_def)

lemma mid_reached: "push_reach retention ttl (server_mid (moved (Some 0)) (Marking 0 0 first_context (Some second_request)) [] [])"
proof -
  let ?s = "server_of [granted first_context 0] [(''a'', 0)] [Admitted 0] False [\<lparr>adm_policy = 0, adm_generation = 1\<rparr>]"
  have "push_reach retention ttl (server_of [] [] [] False [])" using push_reach.start by (simp add: server_of_def push_server0_def)
  then have "push_reach retention ttl ?s" using admitted [OF arrive, of _ _ "[]" "[]" "[]" "[]" first_context 0] by (simp add: contexts_differ)
  then have "push_reach retention ttl (spawn ?s (Authorized (policyGeneration ?s ''a'')))" by (rule push_reach.step) (rule push_step.lookup, simp add: server_of_def)
  then have "push_reach retention ttl (spawn ?s (Authorized 1))" by (simp add: policyGeneration_def server_of_def granted_def)
  then have "push_reach retention ttl (admit_locate (spawn ?s (Authorized 1)) 1 second_request 0 [''a''])"
    by (rule push_reach.step) (rule push_step.locate, simp_all add: spawn_def server_of_def second_request_def)
  then have "push_reach retention ttl (server_of [granted first_context 0] [(''a'', 0)] [Admitted 0, Deciding second_request 0] False [\<lparr>adm_policy = 0, adm_generation = 1\<rparr>])" (is "push_reach _ _ ?s2")
    by (simp add: admit_locate_def spawn_def server_of_def second_request_def goto_def contexts_differ)
  then have "push_reach retention ttl (admit_decide ?s2 1 second_request 0 0 [])"
    by (rule push_reach.step) (rule push_step.decide, simp_all add: server_of_def second_request_def)
  then show ?thesis
    by (simp add: admit_decide_def admit_pass_def server_of_def second_request_def granted_def new_policy_def begin_transition_def beginTransitionLocked_def goto_def set_policy_def contexts_differ server_mid_def moved_def
        numeral_2_eq_2)
qed

lemma sent_reached:
  "push_reach retention ttl
     ((server_mid ((moved None)\<lparr>po_verifiedAt := 2, po_lastAdmitted := 2, po_sessions := [1]\<rparr>) (Admitted 1) [0] [Marker 0 2 first_context])
        \<lparr>ps_admissions := [\<lparr>adm_policy = 0, adm_generation = 1\<rparr>, \<lparr>adm_policy = 0, adm_generation = 2\<rparr>], ps_out := [Marker 0 2 first_context, Data 1]\<rparr>)"
proof -
  let ?m = "Marker 0 2 first_context"
  have "push_reach retention ttl (complete_enqueue (server_mid (moved (Some 0)) (Marking 0 0 first_context (Some second_request)) [] []) 1 0 0 first_context (Some second_request))"
    by (rule push_reach.step [OF mid_reached]) (rule push_step.enqueue, simp_all add: server_mid_def server_of_def)
  then have "push_reach retention ttl (server_mid (moved (Some 0)) (Clearing 0 0 True (Some second_request)) [] [?m])" (is "push_reach _ _ ?s3")
    by (simp add: complete_enqueue_def server_mid_def server_of_def goto_def moved_def)
  then have "push_reach retention ttl (complete_clear ?s3 1 0 0 True (Some second_request))"
    by (rule push_reach.step) (rule push_step.clear, simp_all add: server_mid_def server_of_def)
  then have "push_reach retention ttl (server_mid (moved None) (Closing 0 0 True (Some second_request)) [] [?m])" (is "push_reach _ _ ?s4")
    by (simp add: complete_clear_def server_mid_def server_of_def goto_def moved_def set_policy_def)
  then have "push_reach retention ttl (complete_close ?s4 1 0 0 True (Some second_request))"
    by (rule push_reach.step) (rule push_step.close, simp_all add: server_mid_def server_of_def)
  then have "push_reach retention ttl (server_mid (moved None) (Deciding second_request 0) [0] [?m])" (is "push_reach _ _ ?s5")
    by (simp add: complete_close_def server_mid_def server_of_def goto_def)
  then have "push_reach retention ttl (admit_decide ?s5 1 second_request 0 2 [])"
    by (rule push_reach.step) (rule push_step.decide, simp_all add: server_mid_def server_of_def second_request_def)
  then have "push_reach retention ttl ((server_mid ((moved None)\<lparr>po_verifiedAt := 2, po_lastAdmitted := 2, po_sessions := [1]\<rparr>) (Admitted 1) [0] [?m])
      \<lparr>ps_admissions := [\<lparr>adm_policy = 0, adm_generation = 1\<rparr>, \<lparr>adm_policy = 0, adm_generation = 2\<rparr>]\<rparr>)" (is "push_reach _ _ ?s6")
    by (simp add: admit_decide_def admit_pass_def server_mid_def server_of_def second_request_def granted_def new_policy_def goto_def set_policy_def contexts_differ moved_def
        admit_grant_def maxObserverSessions_def policy_verified_def)
  then have "push_reach retention ttl (?s6\<lparr>ps_out := ps_out ?s6 @ [Data 1]\<rparr>)" by (rule push_reach.step) (rule push_step.send, simp)
  then show ?thesis by (simp add: server_mid_def)
qed


theorem admission_invariant_witness:
  "list_all (\<lambda>p. length (po_sessions p) \<le> 4 \<and> length (po_credentials p) \<le> 8 \<and> (po_transition p = None \<or> po_sessions p = [] \<and> po_credentials p = []))
     (ps_heap (server_mid (moved (Some 0)) (Marking 0 0 first_context (Some second_request)) [] []))"
  using admission_invariant [OF mid_reached [of defaultPolicyRetention Minute]] by blast

theorem reset_before_data_witness: "markers 0 [Marker 0 2 first_context] = [2..<Suc 2]"
  using reset_before_data [OF sent_reached [of defaultPolicyRetention Minute], of "[Marker 0 2 first_context]" 1 "[]"]
  by (simp add: server_mid_def server_of_def admission_Current_def moved_def granted_def)

end
