(* ===== verification/DetectorSpine.thy ===== *)
theory DetectorSpine
  imports GoTime "HOL-Library.Word" "HOL-Library.List_Lexorder" "HOL-Library.Char_ord" "HOL-Library.Product_Lexorder" "HOL-Library.Multiset"
begin

text \<open>
  The debounced state machines of the event detector, \<^verbatim>\<open>go/internal/detect/detect.go\<close>: one machine per subject and metric, the dwell
  policies of the classifier families, the observation step, the collection and ordering of the events of one round, and the reset. The classifiers that
  feed it are in \<^verbatim>\<open>Classifiers\<close>. The mutex is atomicity: every operation is one step.
\<close>

section \<open>Events\<close>

text \<open>A value of an event's parameters, Go's \<^verbatim>\<open>any\<close>.\<close>

datatype param = PNil | PInt int | PFloat real | PString string | PBool bool | PTime time | PList "param list" | PMap "string \<Rightarrow> param option"

record event =
  ev_Time :: time
  ev_SV :: string
  ev_Type :: string
  ev_OldValue :: string
  ev_NewValue :: string
  ev_Severity :: int
  ev_Message :: string
  ev_Params :: "string \<rightharpoonup> param"

section \<open>Machines\<close>

datatype tick_family = familySV | familyStationRF | familyStationLiveness | familyCapability | familyStationIntegrity | familyOrbitReference

record machine =
  m_current :: string
  m_provisional :: string
  m_since :: time
  m_lastGen :: "64 word"
  m_lastSeen :: time

record detector =
  d_machines :: "string \<rightharpoonup> machine"
  d_debounce :: duration
  d_gen :: "tick_family \<Rightarrow> 64 word"

definition DebounceDuration :: duration where "DebounceDuration = 60 * Second"
definition StationClearDwell :: duration where "StationClearDwell = 5 * Minute"

definition detector_New :: "duration \<Rightarrow> detector" where
  "detector_New debounce = \<lparr>d_machines = Map.empty, d_debounce = (if debounce \<le> 0 then DebounceDuration else debounce), d_gen = (\<lambda>_. 0)\<rparr>"

definition stateUnknown :: string where "stateUnknown = ''unknown''"

record dwell_policy =
  dp_onset :: duration
  dp_clear :: duration
  dp_nominal :: "string \<rightharpoonup> string"

definition dwell_required :: "dwell_policy \<Rightarrow> string \<Rightarrow> string \<Rightarrow> duration" where
  "dwell_required p nominal s = (if nominal \<noteq> [] \<and> s = nominal then dp_clear p else dp_onset p)"

definition detector_policy :: "detector \<Rightarrow> tick_family \<Rightarrow> dwell_policy" where
  "detector_policy d fam =
     (case fam of
        familyStationRF \<Rightarrow>
          \<lparr>dp_onset = d_debounce d, dp_clear = (if d_debounce d > StationClearDwell then d_debounce d else StationClearDwell),
           dp_nominal = [''jamming'' \<mapsto> ''ok'', ''antenna'' \<mapsto> ''ok'', ''rf_degraded'' \<mapsto> ''ok'']\<rparr>
      | familyStationIntegrity \<Rightarrow>
          \<lparr>dp_onset = d_debounce d, dp_clear = d_debounce d,
           dp_nominal = [''spoofing'' \<mapsto> ''ok'', ''assurance'' \<mapsto> ''assured'', ''environment_health'' \<mapsto> ''ok'', ''environment_change'' \<mapsto> ''normal'',
             ''regional_pressure'' \<mapsto> ''coherent'', ''barometric_height'' \<mapsto> ''consistent'']\<rparr>
      | familyOrbitReference \<Rightarrow>
          \<lparr>dp_onset = d_debounce d, dp_clear = d_debounce d, dp_nominal = [''reference_orbit'' \<mapsto> ''ok'', ''reference_almanac'' \<mapsto> ''ok'']\<rparr>
      | _ \<Rightarrow> \<lparr>dp_onset = d_debounce d, dp_clear = d_debounce d, dp_nominal = Map.empty\<rparr>)"

text \<open>The part of \<^verbatim>\<open>observe\<close> that concerns one machine: the entry of the map before and after, and whether a transition is confirmed with the old value.\<close>

definition machine_observe :: "dwell_policy \<Rightarrow> string \<Rightarrow> machine option \<Rightarrow> string \<Rightarrow> time \<Rightarrow> 64 word \<Rightarrow> (bool \<times> string) \<times> machine" where
  "machine_observe p nominal entry newState now gen =
     (case entry of
        None \<Rightarrow>
          (if nominal = [] \<or> newState = nominal
           then ((False, []), \<lparr>m_current = newState, m_provisional = [], m_since = 0, m_lastGen = gen, m_lastSeen = now\<rparr>)
           else ((False, []), \<lparr>m_current = stateUnknown, m_provisional = newState, m_since = now, m_lastGen = gen, m_lastSeen = now\<rparr>))
      | Some m \<Rightarrow>
          (if m_current m = stateUnknown \<and> nominal \<noteq> [] \<and> newState = nominal
           then ((False, []), m\<lparr>m_current := newState, m_provisional := [], m_lastGen := gen, m_lastSeen := now\<rparr>)
           else
            (let interrupted = (m_lastGen m \<noteq> gen \<and> m_lastGen m \<noteq> gen - 1);
                 heldFor = time_Sub now (m_lastSeen m);
                 m1 = m\<lparr>m_lastGen := gen, m_lastSeen := now\<rparr>;
                 dwell = dwell_required p nominal newState
             in if newState = m_current m1 then ((False, []), m1\<lparr>m_provisional := []\<rparr>)
                else if newState = m_provisional m1 then
                  (if interrupted \<and> heldFor \<ge> dwell then ((False, []), m1\<lparr>m_since := now\<rparr>)
                   else if time_Sub now (m_since m1) \<ge> dwell
                   then ((True, m_current m1), m1\<lparr>m_current := newState, m_provisional := []\<rparr>)
                   else ((False, []), m1))
                else ((False, []), m1\<lparr>m_provisional := newState, m_since := now\<rparr>))))"

definition machine_key :: "string \<Rightarrow> string \<Rightarrow> string" where
  "machine_key subject metric = subject @ CHR 0x00 # metric"

definition detector_observe :: "detector \<Rightarrow> string \<Rightarrow> string \<Rightarrow> string \<Rightarrow> time \<Rightarrow> 64 word \<Rightarrow> dwell_policy \<Rightarrow> (bool \<times> string) \<times> detector" where
  "detector_observe d subject metric newState now gen p =
     (let key = machine_key subject metric;
          nominal = (case dp_nominal p metric of Some s \<Rightarrow> s | None \<Rightarrow> []);
          (r, m) = machine_observe p nominal (d_machines d key) newState now gen
      in (r, d\<lparr>d_machines := (d_machines d)(key \<mapsto> m)\<rparr>))"

definition currentBand :: "detector \<Rightarrow> string \<Rightarrow> string \<Rightarrow> string \<times> bool" where
  "currentBand d subject metric =
     (case d_machines d (machine_key subject metric) of None \<Rightarrow> ([], False) | Some m \<Rightarrow> (m_current m, True))"

definition detector_Reset :: "detector \<Rightarrow> detector" where
  "detector_Reset d = d\<lparr>d_machines := Map.empty\<rparr>"

section \<open>Rounds\<close>

text \<open>A classifier is a state transformer over the detector and the events so far, given the \<^verbatim>\<open>emit\<close> closure of the round.\<close>

type_synonym round_state = "detector \<times> event list"
type_synonym emitter = "string \<Rightarrow> string \<Rightarrow> string \<Rightarrow> (string \<Rightarrow> event) \<Rightarrow> round_state \<Rightarrow> round_state"

definition round_emit :: "time \<Rightarrow> 64 word \<Rightarrow> dwell_policy \<Rightarrow> emitter" where
  "round_emit now gen p subject metric newState ev st =
     (case st of (d, events) \<Rightarrow>
        (case detector_observe d subject metric newState now gen p of
           ((changed, old), d') \<Rightarrow> (d', if changed then events @ [(ev old)\<lparr>ev_Time := now, ev_SV := subject\<rparr>] else events)))"

definition event_key :: "event \<Rightarrow> string \<times> string \<times> string" where
  "event_key e = (ev_SV e, ev_Type e, ev_Message e)"

definition detector_run :: "detector \<Rightarrow> time \<Rightarrow> tick_family \<Rightarrow> (emitter \<Rightarrow> round_state \<Rightarrow> round_state) \<Rightarrow> event list \<times> detector" where
  "detector_run d now fam classify =
     (let d1 = d\<lparr>d_gen := (d_gen d)(fam := d_gen d fam + 1)\<rparr>;
          gen = d_gen d1 fam;
          policy = detector_policy d1 fam;
          (d2, events) = classify (round_emit now gen policy) (d1, [])
      in (sort_key event_key events, d2))"

text \<open>The calls of \<^verbatim>\<open>emit\<close> a classifier makes, in order, as data: subject, metric, new state and the event to build.\<close>

record emission =
  em_subject :: string
  em_metric :: string
  em_state :: string
  em_event :: "string \<Rightarrow> event"

definition emits :: "emitter \<Rightarrow> emission list \<Rightarrow> round_state \<Rightarrow> round_state" where
  "emits em ems st = foldl (\<lambda>st e. em (em_subject e) (em_metric e) (em_state e) (em_event e) st) st ems"

text \<open>A classifier run over every entry of a map, in an iteration order; it may read the detector as it stands at the entry's turn.\<close>

definition for_each :: "(detector \<Rightarrow> string \<Rightarrow> 'a \<Rightarrow> emission list) \<Rightarrow> (string \<times> 'a) list \<Rightarrow> emitter \<Rightarrow> round_state \<Rightarrow> round_state" where
  "for_each classify entries em st = foldl (\<lambda>st (i, x). emits em (classify (fst st) i x) st) st entries"

section \<open>The life of one machine\<close>

text \<open>The observations of one subject and metric in order: the state, the instant and the round.\<close>

type_synonym observation = "string \<times> time \<times> 64 word"

text \<open>A transition: the instant, the old and the new confirmed state.\<close>

type_synonym transition = "time \<times> string \<times> string"

definition life_step :: "dwell_policy \<Rightarrow> string \<Rightarrow> machine option \<times> transition list \<Rightarrow> observation \<Rightarrow> machine option \<times> transition list" where
  "life_step p nominal x ob =
     (case x of (entry, ts) \<Rightarrow> case ob of (s, now, gen) \<Rightarrow>
        (case machine_observe p nominal entry s now gen of
           ((changed, old), m) \<Rightarrow> (Some m, if changed then ts @ [(now, old, s)] else ts)))"

definition life :: "dwell_policy \<Rightarrow> string \<Rightarrow> observation list \<Rightarrow> machine option \<times> transition list" where
  "life p nominal obs = foldl (life_step p nominal) (None, []) obs"

text \<open>No gap in the observations as long as the dwell: consecutive observations are of consecutive rounds or closer in time than the dwell.\<close>

fun unbroken :: "duration \<Rightarrow> observation list \<Rightarrow> bool" where
  "unbroken w ((s, t, g) # (s', t', g') # obs) \<longleftrightarrow> (g = g' \<or> g = g' - 1 \<or> time_Sub t' t < w) \<and> unbroken w ((s', t', g') # obs)"
| "unbroken w _ \<longleftrightarrow> True"

definition instant :: "observation \<Rightarrow> time" where "instant ob = fst (snd ob)"
definition observed :: "observation \<Rightarrow> string" where "observed ob = fst ob"

text \<open>A stretch of observations of one state, long enough and unbroken.\<close>

definition dwelt :: "duration \<Rightarrow> string \<Rightarrow> observation list \<Rightarrow> bool" where
  "dwelt w s zs \<longleftrightarrow> zs \<noteq> [] \<and> list_all (\<lambda>ob. observed ob = s) zs \<and> unbroken w zs"

definition machine_inv :: "dwell_policy \<Rightarrow> string \<Rightarrow> machine \<Rightarrow> observation list \<Rightarrow> bool" where
  "machine_inv p nominal m obs \<longleftrightarrow>
     obs \<noteq> [] \<and> m_lastSeen m = instant (last obs) \<and> m_lastGen m = snd (snd (last obs)) \<and>
     (m_provisional m \<noteq> [] \<longrightarrow>
        (\<exists>ys zs. obs = ys @ zs \<and> dwelt (dwell_required p nominal (m_provisional m)) (m_provisional m) zs \<and> instant (hd zs) = m_since m))"

lemma unbroken_snoc:
  "unbroken w (zs @ [(s, t, g)]) \<longleftrightarrow> unbroken w zs \<and> (zs = [] \<or> snd (snd (last zs)) = g \<or> snd (snd (last zs)) = g - 1 \<or> time_Sub t (instant (last zs)) < w)"
  by (induction w zs rule: unbroken.induct) (auto simp: instant_def)

lemma dwelt_single: "dwelt w s [(s, t, g)]"
  by (simp add: dwelt_def observed_def)

lemma machine_observe_live:
  assumes "\<not> (m_current m = stateUnknown \<and> nominal \<noteq> [] \<and> s = nominal)"
  shows "machine_observe p nominal (Some m) s now gen =
     (let m1 = m\<lparr>m_lastGen := gen, m_lastSeen := now\<rparr>; dwell = dwell_required p nominal s
      in if s = m_current m then ((False, []), m1\<lparr>m_provisional := []\<rparr>)
         else if s = m_provisional m then
           (if (m_lastGen m \<noteq> gen \<and> m_lastGen m \<noteq> gen - 1) \<and> time_Sub now (m_lastSeen m) \<ge> dwell then ((False, []), m1\<lparr>m_since := now\<rparr>)
            else if time_Sub now (m_since m) \<ge> dwell then ((True, m_current m), m1\<lparr>m_current := s, m_provisional := []\<rparr>)
            else ((False, []), m1))
         else ((False, []), m1\<lparr>m_provisional := s, m_since := now\<rparr>))"
  unfolding machine_observe_def option.case if_not_P [OF assms] Let_def by simp

lemma machine_inv_step:
  assumes "entry = None \<and> obs = [] \<or> (\<exists>m. entry = Some m \<and> machine_inv p nominal m obs)" "s \<noteq> []"
    "machine_observe p nominal entry s now gen = ((changed, old), m')"
  shows "machine_inv p nominal m' (obs @ [(s, now, gen)]) \<and>
    (changed \<longrightarrow> s \<noteq> old \<and> (\<exists>m. entry = Some m \<and> old = m_current m) \<and> m_current m' = s \<and>
      (\<exists>ys zs. obs @ [(s, now, gen)] = ys @ zs \<and> dwelt (dwell_required p nominal s) s zs \<and> time_Sub now (instant (hd zs)) \<ge> dwell_required p nominal s))"
proof (cases entry)
  case None
  have "\<exists>ys zs. [(s, now, gen)] = ys @ zs \<and> dwelt w s zs \<and> instant (hd zs) = now" for w
    by (intro exI [of _ "[]"] exI [of _ "[(s, now, gen)]"]) (simp add: dwelt_single instant_def)
  moreover have "obs = []" using assms(1) None by simp
  ultimately show ?thesis using None assms(2,3)
    by (auto simp: machine_observe_def machine_inv_def instant_def split: if_splits)
next
  case (Some m)
  then have inv: "machine_inv p nominal m obs" using assms(1) by simp
  have start: "\<exists>ys zs. obs @ [(s, now, gen)] = ys @ zs \<and> dwelt w s zs \<and> instant (hd zs) = now" for w
    by (intro exI [of _ obs] exI [of _ "[(s, now, gen)]"]) (simp add: dwelt_single instant_def)
  let ?w = "dwell_required p nominal s"
  have extend: "\<exists>ys zs. obs @ [(s, now, gen)] = ys @ zs \<and> dwelt ?w s zs \<and> instant (hd zs) = m_since m"
    if pr: "s = m_provisional m" and un: "\<not> ((m_lastGen m \<noteq> gen \<and> m_lastGen m \<noteq> gen - 1) \<and> time_Sub now (m_lastSeen m) \<ge> ?w)"
  proof -
    obtain ys zs where z: "obs = ys @ zs" "dwelt ?w s zs" "instant (hd zs) = m_since m"
      using inv pr assms(2) unfolding machine_inv_def by blast
    then have "zs \<noteq> []" by (simp add: dwelt_def)
    moreover then have "last zs = last obs" using z(1) by simp
    ultimately have "dwelt ?w s (zs @ [(s, now, gen)])" "instant (hd (zs @ [(s, now, gen)])) = m_since m"
      using z inv un by (auto simp: dwelt_def unbroken_snoc machine_inv_def observed_def)
    then show ?thesis using z(1) by (intro exI [of _ ys] exI [of _ "zs @ [(s, now, gen)]"]) simp
  qed
  show ?thesis
  proof (cases "m_current m = stateUnknown \<and> nominal \<noteq> [] \<and> s = nominal")
    case True
    then show ?thesis using assms(3) Some by (auto simp: machine_observe_def machine_inv_def instant_def)
  next
    case seeded: False
    note live = machine_observe_live [OF seeded, of p now gen, folded Some, unfolded assms(3)]
    consider (same) "s = m_current m" | (restart) "s \<noteq> m_current m" "s = m_provisional m" "(m_lastGen m \<noteq> gen \<and> m_lastGen m \<noteq> gen - 1) \<and> time_Sub now (m_lastSeen m) \<ge> ?w"
      | (pending) "s \<noteq> m_current m" "s = m_provisional m" "\<not> ((m_lastGen m \<noteq> gen \<and> m_lastGen m \<noteq> gen - 1) \<and> time_Sub now (m_lastSeen m) \<ge> ?w)"
      | (fresh) "s \<noteq> m_current m" "s \<noteq> m_provisional m" by argo
    then show ?thesis
    proof cases
      case same
      then show ?thesis using live by (auto simp: machine_inv_def instant_def Let_def)
    next
      case restart
      then show ?thesis using live start [of ?w] by (auto simp: machine_inv_def instant_def Let_def)
    next
      case pending
      note e = extend [OF pending(2,3)]
      show ?thesis
      proof (cases "time_Sub now (m_since m) \<ge> ?w")
        case True
        then have "changed = True" "old = m_current m" "m' = m\<lparr>m_lastGen := gen, m_lastSeen := now, m_current := s, m_provisional := []\<rparr>"
          using live pending by (auto simp: Let_def split: if_split_asm)
        moreover have "\<exists>ys zs. obs @ [(s, now, gen)] = ys @ zs \<and> dwelt ?w s zs \<and> time_Sub now (instant (hd zs)) \<ge> ?w" using e True by metis
        ultimately show ?thesis using pending Some by (simp add: machine_inv_def instant_def)
      next
        case False
        then have "changed = False" "m' = m\<lparr>m_lastGen := gen, m_lastSeen := now\<rparr>"
          using live pending by (auto simp: Let_def split: if_split_asm)
        then show ?thesis using pending e by (auto simp: machine_inv_def instant_def)
      qed
    next
      case fresh
      then show ?thesis using live start [of ?w] by (auto simp: machine_inv_def instant_def Let_def)
    qed
  qed
qed

lemma life_snoc:
  "life p nominal obs = (e, ts) \<Longrightarrow> machine_observe p nominal e s now gen = ((changed, old), m) \<Longrightarrow>
   life p nominal (obs @ [(s, now, gen)]) = (Some m, if changed then ts @ [(now, old, s)] else ts)"
  by (simp add: life_def life_step_def)

lemma life_snocE:
  obtains s now gen e ts changed old m where "ob = (s, now, gen)" "life p nominal obs = (e, ts)"
    "machine_observe p nominal e s now gen = ((changed, old), m)" "life p nominal (obs @ [ob]) = (Some m, if changed then ts @ [(now, old, s)] else ts)"
  by (metis life_snoc prod.exhaust)

definition follows :: "transition \<Rightarrow> transition \<Rightarrow> bool" where
  "follows a b \<longleftrightarrow> snd (snd a) = fst (snd b)"

lemma life_inv:
  assumes "list_all (\<lambda>ob. observed ob \<noteq> []) obs"
  shows "fst (life p nominal obs) = None \<and> obs = [] \<or> (\<exists>m. fst (life p nominal obs) = Some m \<and> machine_inv p nominal m obs)"
  using assms
proof (induction obs rule: rev_induct)
  case Nil
  then show ?case by (simp add: life_def)
next
  case (snoc ob obs)
  obtain s now gen e ts changed old m' where ob: "ob = (s, now, gen)" and l: "life p nominal obs = (e, ts)"
    and o: "machine_observe p nominal e s now gen = ((changed, old), m')"
    and l': "life p nominal (obs @ [ob]) = (Some m', if changed then ts @ [(now, old, s)] else ts)" by (rule life_snocE)
  have "machine_inv p nominal m' (obs @ [(s, now, gen)])"
    using machine_inv_step [OF _ _ o, of obs] snoc by (auto simp: ob observed_def l)
  then show ?case using l' by (simp add: ob)
qed

text \<open>What a confirmed transition rests on.\<close>

definition confirmed :: "dwell_policy \<Rightarrow> string \<Rightarrow> observation list \<Rightarrow> transition \<Rightarrow> bool" where
  "confirmed p nominal obs tr \<longleftrightarrow>
     (case tr of (t, old, new) \<Rightarrow> old \<noteq> new \<and>
        (\<exists>ys zs us. obs = ys @ zs @ us \<and> dwelt (dwell_required p nominal new) new zs \<and> instant (last zs) = t \<and>
           dwell_required p nominal new \<le> time_Sub t (instant (hd zs))))"

lemma confirmed_snoc: "confirmed p nominal obs tr \<Longrightarrow> confirmed p nominal (obs @ [ob]) tr"
  unfolding confirmed_def by (auto split: prod.splits) blast

text \<open>C27: every transition a machine confirms rests on a dwell: a stretch of observations, all of the new state, ending at the transition, lasting at least the
  required dwell and without a gap in the rounds as long as it.\<close>

theorem transitions_dwelt:
  assumes "list_all (\<lambda>ob. observed ob \<noteq> []) obs"
  shows "list_all (confirmed p nominal obs) (snd (life p nominal obs))"
  using assms
proof (induction obs rule: rev_induct)
  case Nil
  then show ?case by (simp add: life_def)
next
  case (snoc ob obs)
  obtain s now gen e ts changed old m' where ob: "ob = (s, now, gen)" and l: "life p nominal obs = (e, ts)"
    and o: "machine_observe p nominal e s now gen = ((changed, old), m')"
    and l': "life p nominal (obs @ [ob]) = (Some m', if changed then ts @ [(now, old, s)] else ts)" by (rule life_snocE)
  have prev: "list_all (confirmed p nominal (obs @ [ob])) (snd (life p nominal obs))"
    using snoc confirmed_snoc by (auto simp: list_all_iff)
  have "confirmed p nominal (obs @ [ob]) (now, old, s)" if ch: changed
  proof -
    obtain ys zs where z: "s \<noteq> old" "obs @ [(s, now, gen)] = ys @ zs" "dwelt (dwell_required p nominal s) s zs" "time_Sub now (instant (hd zs)) \<ge> dwell_required p nominal s"
      using machine_inv_step [OF _ _ o, of obs] life_inv [of obs p nominal] snoc.prems ch by (auto simp: ob observed_def l)
    then have "zs \<noteq> []" by (simp add: dwelt_def)
    then have "last zs = (s, now, gen)" using z(2) by (metis last_appendR last_snoc)
    then have "obs @ [ob] = ys @ zs @ []" "instant (last zs) = now" using z(2) by (simp_all add: ob instant_def)
    then show ?thesis unfolding confirmed_def using z(1,3,4) by blast
  qed
  then show ?case using prev by (simp add: l l')
qed

text \<open>The chain of confirmed values.\<close>

lemma life_current:
  assumes "nominal = [] \<or> list_all (\<lambda>ob. observed ob \<noteq> stateUnknown) obs"
  shows "successively follows (snd (life p nominal obs)) \<and>
    (snd (life p nominal obs) \<noteq> [] \<longrightarrow>
      (\<exists>m. fst (life p nominal obs) = Some m \<and> m_current m = snd (snd (last (snd (life p nominal obs)))) \<and> m_current m \<in> observed ` set obs))"
  using assms
proof (induction obs rule: rev_induct)
  case Nil
  then show ?case by (simp add: life_def)
next
  case (snoc ob obs)
  obtain s now gen e ts changed old m' where ob: "ob = (s, now, gen)" and l: "life p nominal obs = (e, ts)"
    and o: "machine_observe p nominal e s now gen = ((changed, old), m')"
    and l': "life p nominal (obs @ [ob]) = (Some m', if changed then ts @ [(now, old, s)] else ts)" by (rule life_snocE)
  have IH: "successively follows ts" "ts \<noteq> [] \<Longrightarrow> \<exists>m. e = Some m \<and> m_current m = snd (snd (last ts)) \<and> m_current m \<in> observed ` set obs"
    using snoc by (auto simp: l)
  show ?case
  proof (cases changed)
    case True
    then obtain m where m: "e = Some m" "old = m_current m" "m_current m' = s"
      using o by (auto simp: machine_observe_def Let_def split: option.splits if_splits)
    then have "ts \<noteq> [] \<Longrightarrow> snd (snd (last ts)) = m_current m" using IH(2) by auto
    then show ?thesis unfolding l' using True IH(1) m by (auto simp: successively_append_iff ob observed_def follows_def)
  next
    case False
    have "\<exists>m. Some m' = Some m \<and> m_current m = snd (snd (last ts)) \<and> m_current m \<in> observed ` set (obs @ [ob])" if ne: "ts \<noteq> []"
    proof -
      obtain m where m: "e = Some m" "m_current m = snd (snd (last ts))" "m_current m \<in> observed ` set obs" using IH(2) [OF ne] by blast
      then have "\<not> (m_current m = stateUnknown \<and> nominal \<noteq> [])" using snoc.prems by (auto simp: list_all_iff)
      then have "m_current m' = m_current m" using o m(1) False by (auto simp: machine_observe_def Let_def split: if_splits)
      then show ?thesis using m by auto
    qed
    then show ?thesis unfolding l' if_not_P [OF False] fst_conv snd_conv using IH(1) by blast
  qed
qed

text \<open>the transitions of a machine form a chain: each starts from the value the one before confirmed. This needs that no observed state is the word \<^verbatim>\<open>unknown\<close>, which
  the machine uses for itself, unless the metric has no nominal state.\<close>

lemma transitions_chain:
  assumes "nominal = [] \<or> list_all (\<lambda>ob. observed ob \<noteq> stateUnknown) obs"
  shows "successively follows (snd (life p nominal obs))"
  using life_current [OF assms] by simp

lemma machine_observe_same:
  assumes "m_current m = s"
  shows "\<exists>m'. machine_observe p nominal (Some m) s now gen = ((False, []), m') \<and> m_current m' = s"
  using assms by (auto simp: machine_observe_def Let_def)

lemma life_settled: "m_current m = s \<Longrightarrow> list_all (\<lambda>ob. observed ob = s) zs \<Longrightarrow>
    \<exists>m'. foldl (life_step p nominal) (Some m, ts) zs = (Some m', ts) \<and> m_current m' = s"
proof (induction zs arbitrary: m)
  case (Cons ob zs)
  obtain now gen where ob: "ob = (s, now, gen)" using Cons.prems by (cases ob) (auto simp: observed_def)
  obtain m' where "machine_observe p nominal (Some m) s now gen = ((False, []), m')" "m_current m' = s"
    using machine_observe_same [OF Cons.prems(1)] by blast
  then show ?case using Cons by (simp add: life_step_def ob)
qed simp

text \<open>A pending machine is confirmed at the first observation past the dwell.\<close>

lemma life_pending:
  assumes "m_current m = c" "c \<noteq> s" "\<not> (c = stateUnknown \<and> nominal \<noteq> [] \<and> s = nominal)" "m_provisional m = s" "m_since m = t0"
    "w = dwell_required p nominal s" "list_all (\<lambda>ob. observed ob = s) zs" "unbroken w ((s, m_lastSeen m, m_lastGen m) # zs)"
    "\<exists>ob \<in> set zs. w \<le> time_Sub (instant ob) t0"
  shows "\<exists>m' t. foldl (life_step p nominal) (Some m, ts) zs = (Some m', ts @ [(t, c, s)]) \<and> m_current m' = s"
  using assms
proof (induction zs arbitrary: m)
  case (Cons ob zs)
  obtain now gen where ob: "ob = (s, now, gen)" using Cons.prems(7) by (cases ob) (auto simp: observed_def)
  note live = machine_observe_live [of m nominal s p now gen, OF Cons.prems(3) [folded Cons.prems(1)], folded Cons.prems(6), unfolded Let_def]
  have cont: "\<not> ((m_lastGen m \<noteq> gen \<and> m_lastGen m \<noteq> gen - 1) \<and> time_Sub now (m_lastSeen m) \<ge> w)" using Cons.prems(8) by (auto simp: ob)
  show ?case
  proof (cases "w \<le> time_Sub now t0")
    case True
    then have "machine_observe p nominal (Some m) s now gen = ((True, c), m\<lparr>m_lastGen := gen, m_lastSeen := now, m_current := s, m_provisional := []\<rparr>)"
      using live cont Cons.prems(1-5) by auto
    then have "life_step p nominal (Some m, ts) ob = (Some (m\<lparr>m_lastGen := gen, m_lastSeen := now, m_current := s, m_provisional := []\<rparr>), ts @ [(now, c, s)])"
      by (simp add: life_step_def ob)
    then show ?thesis
      using life_settled [of "m\<lparr>m_lastGen := gen, m_lastSeen := now, m_current := s, m_provisional := []\<rparr>" s zs p nominal "ts @ [(now, c, s)]"] Cons.prems(7) by auto
  next
    case False
    then have "machine_observe p nominal (Some m) s now gen = ((False, []), m\<lparr>m_lastGen := gen, m_lastSeen := now\<rparr>)"
      using live cont Cons.prems(1-5) by auto
    then have "life_step p nominal (Some m, ts) ob = (Some (m\<lparr>m_lastGen := gen, m_lastSeen := now\<rparr>), ts)" by (simp add: life_step_def ob)
    moreover have "\<exists>ob \<in> set zs. w \<le> time_Sub (instant ob) t0" using Cons.prems(9) False by (auto simp: ob instant_def)
    ultimately show ?thesis using Cons.IH [of "m\<lparr>m_lastGen := gen, m_lastSeen := now\<rparr>"] Cons.prems by (auto simp: ob)
  qed
qed simp

text \<open>A machine whose confirmed state is the reserved word takes the nominal state at its first observation, without a transition.\<close>

lemma life_unknown:
  assumes "m_current m = stateUnknown" "nominal \<noteq> []" "list_all (\<lambda>ob. observed ob = nominal) zs" "zs \<noteq> []"
  shows "\<exists>m'. foldl (life_step p nominal) (Some m, ts) zs = (Some m', ts) \<and> m_current m' = nominal"
proof -
  obtain now gen zs' where zs: "zs = (nominal, now, gen) # zs'" "list_all (\<lambda>ob. observed ob = nominal) zs'"
    using assms(3,4) by (cases zs) (auto simp: observed_def)
  let ?m = "m\<lparr>m_current := nominal, m_provisional := [], m_lastGen := gen, m_lastSeen := now\<rparr>"
  have "life_step p nominal (Some m, ts) (nominal, now, gen) = (Some ?m, ts)" using assms(1,2) by (simp add: life_step_def machine_observe_def)
  then show ?thesis using life_settled [of ?m nominal zs' p nominal ts] zs by simp
qed

text \<open>C28: a persistent change is confirmed. Once a state other than the confirmed and the pending one is observed without a gap as long as the dwell, and for at least the
  dwell, it is the confirmed state, and the machine reports exactly one transition to it, from the state confirmed before. The one exception is the return to the nominal state of a machine whose
  confirmed state is the reserved word \<^verbatim>\<open>unknown\<close>, which is taken without a transition.\<close>

theorem persistent_change_confirmed:
  assumes "life p nominal obs = (Some m, ts)" "m_current m \<noteq> s" "m_provisional m \<noteq> s"
    "dwelt (dwell_required p nominal s) s (ob # zs)" "list_ex (\<lambda>ob'. dwell_required p nominal s \<le> time_Sub (instant ob') (instant ob)) zs"
  shows "\<exists>m' t. life p nominal (obs @ ob # zs) =
      (Some m', if m_current m = stateUnknown \<and> nominal \<noteq> [] \<and> s = nominal then ts else ts @ [(t, m_current m, s)]) \<and> m_current m' = s"
proof (cases "m_current m = stateUnknown \<and> nominal \<noteq> [] \<and> s = nominal")
  case True
  have "life p nominal (obs @ ob # zs) = foldl (life_step p nominal) (Some m, ts) (ob # zs)" using assms(1) by (simp add: life_def)
  then show ?thesis using life_unknown [of m nominal "ob # zs" p ts] True assms(4) by (auto simp: dwelt_def)
next
  case False
  obtain t0 g0 where ob: "ob = (s, t0, g0)" using assms(4) by (cases ob) (auto simp: dwelt_def observed_def)
  let ?m = "m\<lparr>m_lastGen := g0, m_lastSeen := t0, m_provisional := s, m_since := t0\<rparr>"
  have "machine_observe p nominal (Some m) s t0 g0 = ((False, []), ?m)"
    using machine_observe_live [OF False, of p t0 g0] assms(2,3) by (auto simp: Let_def)
  then have "life p nominal (obs @ ob # zs) = foldl (life_step p nominal) (Some ?m, ts) zs"
    using assms(1) by (simp add: life_def life_step_def ob)
  then show ?thesis
    using life_pending [of ?m "m_current m" s nominal t0 _ p zs ts] assms(2-5) False
    by (auto simp: dwelt_def ob instant_def list_ex_iff)
qed

text \<open>A sample life: a nominal state, then a fault observed over rounds 2 to 5 with round 3 missed.\<close>

definition sample_dwell :: dwell_policy where
  "sample_dwell = detector_policy (detector_New 0) familyStationRF"

definition sample_obs :: "observation list" where
  "sample_obs = [(''crit'', 45 * Second, 4), (''crit'', 80 * Second, 5)]"

lemmas life_eval = sample_dwell_def sample_obs_def detector_policy_def detector_New_def DebounceDuration_def StationClearDwell_def life_def life_step_def
  machine_observe_def dwell_required_def time_Sub_def Second_def Minute_def stateUnknown_def observed_def instant_def dwelt_def

theorem transitions_dwelt_witness:
  "snd (life sample_dwell ''ok'' ([(''ok'', 0, 1), (''crit'', 15 * Second, 2)] @ sample_obs)) = [(80 * Second, ''ok'', ''crit'')] \<and>
   confirmed sample_dwell ''ok'' ([(''ok'', 0, 1), (''crit'', 15 * Second, 2)] @ sample_obs) (80 * Second, ''ok'', ''crit'')"
proof -
  have l: "snd (life sample_dwell ''ok'' ([(''ok'', 0, 1), (''crit'', 15 * Second, 2)] @ sample_obs)) = [(80 * Second, ''ok'', ''crit'')]"
    by (simp add: life_eval)
  have "list_all (\<lambda>ob. observed ob \<noteq> []) ([(''ok'', 0, 1), (''crit'', 15 * Second, 2)] @ sample_obs)" by (simp add: sample_obs_def observed_def)
  from transitions_dwelt [OF this, of sample_dwell "''ok''"] l show ?thesis by simp
qed

theorem persistent_change_confirmed_witness:
  "\<exists>m' t. life sample_dwell ''ok'' ([(''ok'', 0, 1)] @ (''crit'', 15 * Second, 2) # sample_obs) = (Some m', [] @ [(t, ''ok'', ''crit'')]) \<and> m_current m' = ''crit''"
proof -
  let ?m = "\<lparr>m_current = ''ok'', m_provisional = [], m_since = 0, m_lastGen = 1, m_lastSeen = 0\<rparr>"
  have l: "life sample_dwell ''ok'' [(''ok'', 0, 1)] = (Some ?m, [])" by (simp add: life_eval)
  have d: "dwelt (dwell_required sample_dwell ''ok'' ''crit'') ''crit'' ((''crit'', 15 * Second, 2) # sample_obs)" by (simp add: life_eval)
  have e: "list_ex (\<lambda>ob'. dwell_required sample_dwell ''ok'' ''crit'' \<le> time_Sub (instant ob') (instant (''crit'', 15 * Second, 2))) sample_obs" by (simp add: life_eval)
  show ?thesis using persistent_change_confirmed [OF l _ _ d e] by (simp add: stateUnknown_def)
qed

section \<open>Independence of the iteration order\<close>

lemma machine_key_inj: "CHR 0x00 \<notin> set x \<Longrightarrow> CHR 0x00 \<notin> set y \<Longrightarrow> machine_key i x = machine_key j y \<longleftrightarrow> i = j \<and> x = y"
  by (auto simp: machine_key_def append_eq_append_conv2 Cons_eq_append_conv append_eq_Cons_conv)

lemma machine_key_cases: "CHR 0x00 \<in> set k \<Longrightarrow> \<exists>i x. k = machine_key i x \<and> CHR 0x00 \<notin> set x"
  unfolding machine_key_def by (metis split_list_last)

text \<open>Two detectors that agree on the machines of one subject.\<close>

definition agree :: "string \<Rightarrow> detector \<Rightarrow> detector \<Rightarrow> bool" where
  "agree i d d' \<longleftrightarrow> (\<forall>x. CHR 0x00 \<notin> set x \<longrightarrow> d_machines d (machine_key i x) = d_machines d' (machine_key i x))"

definition of_subject :: "string \<Rightarrow> event list \<Rightarrow> event list" where
  "of_subject i evs = filter (\<lambda>e. ev_SV e = i) evs"

definition plain :: "string \<Rightarrow> emission list \<Rightarrow> bool" where
  "plain i ems \<longleftrightarrow> list_all (\<lambda>e. em_subject e = i \<and> CHR 0x00 \<notin> set (em_metric e)) ems"

definition similar :: "string \<Rightarrow> round_state \<Rightarrow> round_state \<Rightarrow> bool" where
  "similar i st st' \<longleftrightarrow> agree i (fst st) (fst st') \<and> of_subject i (snd st) = of_subject i (snd st')"

lemma similar_refl: "similar i st st"
  by (simp add: similar_def agree_def)

lemma similar_trans: "similar i a b \<Longrightarrow> similar i b c \<Longrightarrow> similar i a c"
  by (simp add: similar_def agree_def)

lemma round_emit_similar:
  assumes "similar i st st'" "CHR 0x00 \<notin> set metric"
  shows "similar i (round_emit now gen p i metric s ev st) (round_emit now gen p i metric s ev st')"
  using assms unfolding similar_def agree_def
  by (auto simp: round_emit_def detector_observe_def machine_key_inj of_subject_def Let_def split: prod.splits)

lemma round_emit_other:
  assumes "j \<noteq> i" "CHR 0x00 \<notin> set metric"
  shows "similar i (round_emit now gen p j metric s ev st) st"
  using assms unfolding similar_def agree_def
  by (auto simp: round_emit_def detector_observe_def machine_key_inj of_subject_def Let_def split: prod.splits)

lemma emits_similar: "plain i ems \<Longrightarrow> similar i st st' \<Longrightarrow> similar i (emits (round_emit now gen p) ems st) (emits (round_emit now gen p) ems st')"
  by (induction ems arbitrary: st st') (auto simp: plain_def emits_def round_emit_similar)

lemma emits_other: "plain j ems \<Longrightarrow> j \<noteq> i \<Longrightarrow> similar i (emits (round_emit now gen p) ems st) st"
proof (induction ems arbitrary: st)
  case (Cons e ems)
  then show ?case using similar_trans [OF Cons.IH round_emit_other] by (simp add: plain_def emits_def)
qed (simp add: emits_def similar_refl)

text \<open>What a step of a round leaves alone: the keys of no subject, the debounce and the rounds.\<close>

definition same_frame :: "detector \<Rightarrow> detector \<Rightarrow> bool" where
  "same_frame d d' \<longleftrightarrow> d_debounce d = d_debounce d' \<and> d_gen d = d_gen d' \<and> (\<forall>k. CHR 0x00 \<notin> set k \<longrightarrow> d_machines d k = d_machines d' k)"

lemma round_emit_frame: "same_frame (fst (round_emit now gen p j metric s ev st)) (fst st)"
  by (auto simp: same_frame_def round_emit_def detector_observe_def machine_key_def Let_def split: prod.splits)

lemma same_frame_trans: "same_frame a b \<Longrightarrow> same_frame b c \<Longrightarrow> same_frame a c"
  by (simp add: same_frame_def)

lemma emits_frame: "same_frame (fst (emits (round_emit now gen p) ems st)) (fst st)"
proof (induction ems arbitrary: st)
  case (Cons e ems)
  then show ?case using same_frame_trans [OF Cons.IH round_emit_frame] by (simp add: emits_def)
qed (simp add: emits_def same_frame_def)

lemma detector_eqI: "same_frame d d' \<Longrightarrow> (\<And>i. agree i d d') \<Longrightarrow> d = d'"
proof -
  assume f: "same_frame d d'" and a: "\<And>i. agree i d d'"
  have "d_machines d k = d_machines d' k" for k
  proof (cases "CHR 0x00 \<in> set k")
    case True
    then show ?thesis using a machine_key_cases [OF True] by (auto simp: agree_def)
  next
    case False
    then show ?thesis using f by (simp add: same_frame_def)
  qed
  then show "d = d'" using f by (intro detector.equality) (auto simp: same_frame_def)
qed

lemma sort_key_cong_filter:
  assumes "\<And>k. filter (\<lambda>x. f x = k) xs = filter (\<lambda>x. f x = k) ys"
  shows "sort_key f xs = sort_key f ys"
proof (rule properties_for_sort_key)
  have "count (mset xs) x = count (mset ys) x" for x
    using arg_cong [OF assms [of "f x"], of "\<lambda>l. count (mset l) x"] by simp
  then show "mset (sort_key f ys) = mset xs" by (simp add: multiset_eq_iff)
  show "filter (\<lambda>x. f k = f x) (sort_key f ys) = filter (\<lambda>x. f k = f x) xs" if "k \<in> set (sort_key f ys)" for k
    using sort_key_stable [of f "f k" ys] assms [of "f k"] by (simp add: eq_commute)
qed simp

lemma events_sorted_cong:
  assumes "\<And>i. of_subject i evs = of_subject i evs'"
  shows "sort_key event_key evs = sort_key event_key evs'"
proof (rule sort_key_cong_filter)
  fix k
  have "filter (\<lambda>x. event_key x = k) es = filter (\<lambda>x. event_key x = k) (of_subject (fst k) es)" for es
    by (auto simp: of_subject_def event_key_def intro: filter_cong)
  then show "filter (\<lambda>x. event_key x = k) evs = filter (\<lambda>x. event_key x = k) evs'" using assms by metis
qed

lemma detector_run_alt:
  "detector_run d now fam classify =
     (let d1 = d\<lparr>d_gen := (d_gen d)(fam := d_gen d fam + 1)\<rparr>;
          st = classify (round_emit now (d_gen d fam + 1) (detector_policy d1 fam)) (d1, [])
      in (sort_key event_key (snd st), fst st))"
  by (simp add: detector_run_def Let_def split_def)

text \<open>States of a round that differ only in how the events of different subjects interleave.\<close>

definition equivalent :: "round_state \<Rightarrow> round_state \<Rightarrow> bool" where
  "equivalent st st' \<longleftrightarrow> same_frame (fst st) (fst st') \<and> (\<forall>i. similar i st st')"

lemma detector_run_cong:
  assumes "\<And>gen p st. equivalent (c (round_emit now gen p) st) (c' (round_emit now gen p) st)"
  shows "detector_run d now fam c = detector_run d now fam c'"
proof -
  have "fst (c (round_emit now gen p) st) = fst (c' (round_emit now gen p) st)" for gen p st
    using assms [of gen p st] by (intro detector_eqI) (auto simp: equivalent_def similar_def)
  moreover have "sort_key event_key (snd (c (round_emit now gen p) st)) = sort_key event_key (snd (c' (round_emit now gen p) st))" for gen p st
    using assms [of gen p st] by (intro events_sorted_cong) (auto simp: equivalent_def similar_def)
  ultimately show ?thesis unfolding detector_run_alt Let_def by simp
qed

text \<open>The contract of a classifier: it emits for its own subject under metrics without the separator, and reads no machine of another subject.\<close>

locale subject_classifier =
  fixes classify :: "detector \<Rightarrow> string \<Rightarrow> 'a \<Rightarrow> emission list"
  assumes plain_classify: "plain i (classify d i x)"
    and local_classify: "agree i d d' \<Longrightarrow> classify d i x = classify d' i x"
begin

lemma for_each_frame: "same_frame (fst (for_each classify xs (round_emit now gen p) st)) (fst st)"
proof (induction xs arbitrary: st)
  case (Cons a xs)
  then show ?case using same_frame_trans [OF Cons.IH emits_frame] by (simp add: for_each_def split: prod.split)
qed (simp add: for_each_def same_frame_def)

text \<open>Seen from one subject, the loop over the map does just the work of its entry.\<close>

lemma for_each_similar:
  "distinct (map fst xs) \<Longrightarrow> similar i st st' \<Longrightarrow>
   similar i (for_each classify xs (round_emit now gen p) st)
     (case map_of xs i of None \<Rightarrow> st' | Some x \<Rightarrow> emits (round_emit now gen p) (classify (fst st') i x) st')"
proof (induction xs arbitrary: st st')
  case Nil
  then show ?case by (simp add: for_each_def)
next
  case (Cons a xs)
  obtain j x where a: "a = (j, x)" by fastforce
  let ?em = "round_emit now gen p"
  have unfold: "for_each classify (a # xs) ?em st = for_each classify xs ?em (emits ?em (classify (fst st) j x) st)" by (simp add: for_each_def a)
  show ?case
  proof (cases "j = i")
    case True
    then have m: "map_of xs i = None" using Cons.prems(1) a by (auto simp: map_of_eq_None_iff)
    have "classify (fst st) i x = classify (fst st') i x" using Cons.prems(2) by (intro local_classify) (simp add: similar_def)
    then have "similar i (emits ?em (classify (fst st) i x) st) (emits ?em (classify (fst st') i x) st')"
      using emits_similar [OF plain_classify Cons.prems(2)] by simp
    then show ?thesis using Cons.IH [of "emits ?em (classify (fst st) i x) st" "emits ?em (classify (fst st') i x) st'"] Cons.prems(1) m True unfold by (simp add: a)
  next
    case False
    then have "similar i (emits ?em (classify (fst st) j x) st) st'"
      using similar_trans [OF emits_other [OF plain_classify] Cons.prems(2)] by blast
    then show ?thesis using Cons.IH [of "emits ?em (classify (fst st) j x) st" st'] Cons.prems(1) False unfold by (simp add: a)
  qed
qed

lemma for_each_perm:
  assumes "distinct (map fst xs)" "distinct (map fst ys)" "set xs = set ys" "equivalent st st'"
  shows "equivalent (for_each classify xs (round_emit now gen p) st) (for_each classify ys (round_emit now gen p) st')"
proof -
  have "map_of xs = map_of ys" using assms(1-3) by (simp add: map_of_inject_set)
  moreover have "similar i st st'" for i using assms(4) by (simp add: equivalent_def)
  ultimately have "similar i (for_each classify xs (round_emit now gen p) st) (for_each classify ys (round_emit now gen p) st')" for i
    using for_each_similar [OF assms(1), of i st st' now gen p] for_each_similar [OF assms(2), of i st' st' now gen p] similar_refl [of i st'] unfolding similar_def agree_def by simp
  moreover have "same_frame (fst (for_each classify xs (round_emit now gen p) st)) (fst (for_each classify ys (round_emit now gen p) st'))"
    using for_each_frame [of xs now gen p st] for_each_frame [of ys now gen p st'] assms(4) unfolding same_frame_def equivalent_def by metis
  ultimately show ?thesis by (simp add: equivalent_def)
qed

lemma run_perm:
  assumes "distinct (map fst xs)" "distinct (map fst ys)" "set xs = set ys"
  shows "detector_run d now fam (for_each classify xs) = detector_run d now fam (for_each classify ys)"
  by (rule detector_run_cong) (rule for_each_perm [OF assms], simp add: equivalent_def similar_refl same_frame_def)

end

section \<open>Where events come from\<close>

lemma machine_observe_change: "machine_observe p nominal entry s now gen = ((True, old), m) \<Longrightarrow> old \<noteq> s"
  by (auto simp: machine_observe_def Let_def split: option.splits if_splits)

lemma round_emit_events:
  assumes "e \<in> set (snd (round_emit now gen p subject metric s ev st))"
  shows "e \<in> set (snd st) \<or> (\<exists>old. old \<noteq> s \<and> e = (ev old)\<lparr>ev_Time := now, ev_SV := subject\<rparr>)"
  using assms by (auto simp: round_emit_def detector_observe_def Let_def split: prod.splits if_splits dest: machine_observe_change)

lemma emits_events:
  "e \<in> set (snd (emits (round_emit now gen p) ems st)) \<Longrightarrow>
   e \<in> set (snd st) \<or> (\<exists>x \<in> set ems. \<exists>old. old \<noteq> em_state x \<and> e = (em_event x old)\<lparr>ev_Time := now, ev_SV := em_subject x\<rparr>)"
proof (induction ems arbitrary: st)
  case (Cons x ems)
  let ?st = "round_emit now gen p (em_subject x) (em_metric x) (em_state x) (em_event x) st"
  have "e \<in> set (snd (emits (round_emit now gen p) ems ?st))" using Cons.prems by (simp add: emits_def)
  from Cons.IH [OF this] show ?case
  proof
    assume "e \<in> set (snd ?st)"
    from round_emit_events [OF this] show ?thesis by auto
  qed auto
qed (simp add: emits_def)

text \<open>An event of a round is the one some emission of some entry builds, from another state than the emission's own.\<close>

definition event_of :: "time \<Rightarrow> emission \<Rightarrow> event \<Rightarrow> bool" where
  "event_of now x e \<longleftrightarrow> (\<exists>old. old \<noteq> em_state x \<and> e = (em_event x old)\<lparr>ev_Time := now, ev_SV := em_subject x\<rparr>)"

lemma for_each_events:
  "e \<in> set (snd (for_each classify xs (round_emit now gen p) st)) \<Longrightarrow>
   e \<in> set (snd st) \<or> (\<exists>(i, a) \<in> set xs. \<exists>d. \<exists>x \<in> set (classify d i a). event_of now x e)"
proof (induction xs arbitrary: st)
  case (Cons y ys)
  obtain i a where y: "y = (i, a)" by fastforce
  let ?st = "emits (round_emit now gen p) (classify (fst st) i a) st"
  have "e \<in> set (snd (for_each classify ys (round_emit now gen p) ?st))" using Cons.prems by (simp add: for_each_def y)
  from Cons.IH [OF this] show ?case
  proof
    assume "e \<in> set (snd ?st)"
    from emits_events [OF this] show ?thesis
    proof
      assume "\<exists>x \<in> set (classify (fst st) i a). \<exists>old. old \<noteq> em_state x \<and> e = (em_event x old)\<lparr>ev_Time := now, ev_SV := em_subject x\<rparr>"
      then have "\<exists>d. \<exists>x \<in> set (classify d i a). event_of now x e" unfolding event_of_def by blast
      then show ?thesis by (simp add: y)
    qed simp
  qed auto
qed (simp add: for_each_def)

lemma run_events:
  assumes "e \<in> set (fst (detector_run d now fam (for_each classify xs)))"
  shows "\<exists>(i, a) \<in> set xs. \<exists>d. \<exists>x \<in> set (classify d i a). event_of now x e"
proof -
  obtain gen p d1 where "e \<in> set (snd (for_each classify xs (round_emit now gen p) (d1, [])))" using assms by (auto simp: detector_run_alt Let_def)
  from for_each_events [OF this] show ?thesis by simp
qed

end
