(* ===== verification/Audiences.thy ===== *)
theory Audiences
  imports ObserverContext RawFrame DetectorSpine "HOL-Library.AList"
begin

text \<open>
  Who may see what: audiences and read principals (\<^verbatim>\<open>go/internal/identity/audience.go\<close>), the registry of separated live views (\<^verbatim>\<open>go/internal/audience/registry.go\<close>), the public
  projections (\<^verbatim>\<open>project.go\<close>), policy epochs (\<^verbatim>\<open>epochs.go\<close>), and the decode loop and scope controller that drive them (\<^verbatim>\<open>go/cmd/navlistener/main.go\<close>). A live store is
  the sequence of frames applied to it since its last reset: what \<^verbatim>\<open>state.Store\<close> makes of a frame depends on nothing else.
\<close>

section \<open>Audiences and principals\<close>

record audience =
  Kind :: string
  ID :: string

definition AudiencePublic :: string where "AudiencePublic = ''public''"
definition AudienceOperator :: string where "AudienceOperator = ''operator''"
definition AudienceOrganization :: string where "AudienceOrganization = ''organization''"
definition AudienceCollection :: string where "AudienceCollection = ''collection''"

lemmas audience_words = AudiencePublic_def AudienceOperator_def AudienceOrganization_def AudienceCollection_def

definition Key :: "audience \<Rightarrow> string" where
  "Key a = (if Kind a = AudiencePublic then ''public'' else Kind a @ '':'' @ ID a)"

text \<open>\<^verbatim>\<open>strings.Cut\<close> at a separator of one byte.\<close>

fun strings_Cut :: "string \<Rightarrow> char \<Rightarrow> (string \<times> string) option" where
  "strings_Cut [] c = None"
| "strings_Cut (x # s) c = (if x = c then Some ([], s) else case strings_Cut s c of None \<Rightarrow> None | Some (a, b) \<Rightarrow> Some (x # a, b))"

datatype audience_error = AudienceSyntax string | AudienceKindInvalid string

definition ParseAudience :: "string \<Rightarrow> audience_error + audience" where
  "ParseAudience s =
     (if s = ''public'' then Inr \<lparr>Kind = AudiencePublic, ID = []\<rparr>
      else case strings_Cut s (CHR '':'') of None \<Rightarrow> Inl (AudienceSyntax s)
      | Some (kind, i) \<Rightarrow>
          if \<not> ValidScopeID i then Inl (AudienceSyntax s)
          else if kind \<in> {AudienceOperator, AudienceOrganization, AudienceCollection} then Inr \<lparr>Kind = kind, ID = i\<rparr>
          else Inl (AudienceKindInvalid kind))"

definition audience_Allows :: "audience \<Rightarrow> observer_context \<Rightarrow> bool" where
  "audience_Allows a c =
     (if Kind a = AudiencePublic then PublicEligible c
      else if Kind a = AudienceOperator then ID a \<noteq> [] \<and> CollectorInstanceID c = ID a
      else if Kind a = AudienceOrganization then ID a \<noteq> [] \<and> OrganizationID c = ID a
      else if Kind a = AudienceCollection then list_ex (\<lambda>i. i = ID a) (CollectionIDs c)
      else False)"

record read_principal =
  rp_ID :: string
  rp_AudienceGrants :: "audience list"
  rp_Revision :: string

datatype principal_error = PrincipalIdInvalid | PrincipalRevisionInvalid | PrincipalWithoutGrant | GrantInvalid string | GrantDuplicated string

fun check_grants :: "string list \<Rightarrow> audience list \<Rightarrow> principal_error option" where
  "check_grants seen [] = None"
| "check_grants seen (g # gs) =
     (if ParseAudience (Key g) \<noteq> Inr g \<or> Kind g = AudiencePublic then Some (GrantInvalid (Key g))
      else if Key g \<in> set seen then Some (GrantDuplicated (Key g)) else check_grants (Key g # seen) gs)"

definition NormalizeReadPrincipal :: "read_principal \<Rightarrow> principal_error + read_principal" where
  "NormalizeReadPrincipal p =
     (if \<not> ValidScopeID (rp_ID p) then Inl PrincipalIdInvalid
      else if \<not> ValidScopeID (rp_Revision p) then Inl PrincipalRevisionInvalid
      else if length (rp_AudienceGrants p) = 0 then Inl PrincipalWithoutGrant
      else case check_grants [] (rp_AudienceGrants p) of Some e \<Rightarrow> Inl e | None \<Rightarrow> Inr (p\<lparr>rp_AudienceGrants := sort_key Key (rp_AudienceGrants p)\<rparr>))"

definition principal_Allows :: "read_principal \<Rightarrow> audience \<Rightarrow> bool" where
  "principal_Allows p a \<longleftrightarrow> Kind a = AudiencePublic \<or> list_ex (\<lambda>g. g = a) (rp_AudienceGrants p)"

definition principal_AuthorizationEqual :: "read_principal \<Rightarrow> read_principal \<Rightarrow> bool" where
  "principal_AuthorizationEqual p other \<longleftrightarrow> rp_ID p = rp_ID other \<and> rp_Revision p = rp_Revision other \<and> rp_AudienceGrants p = rp_AudienceGrants other"

section \<open>Frames and projections\<close>

text \<open>The fields of a frame beyond the receiver record that audiences read; of the board telemetry only whether there is any.\<close>

record frame = raw_frame +
  rf_Observer :: observer_context
  rf_Details :: bool
  rf_QuarantineReason :: string

definition AnonymousPublicSource :: string where "AnonymousPublicSource = ''__navlistener_public_anonymous__''"

definition frame_context :: "frame \<Rightarrow> observer_context" where
  "frame_context f = (if ObserverID (rf_Observer f) = [] then NewPrivateContext (rf_Source f) CredentialLocalDial else rf_Observer f)"

definition filterSignals :: "signal list \<Rightarrow> publication_policy \<Rightarrow> signal list" where
  "filterSignals signals policy = filter (\<lambda>s. AllowsSignal policy (GnssID s) (SigID s)) signals"

definition ProjectPublic :: "frame \<Rightarrow> frame option" where
  "ProjectPublic f =
     (if rf_Details f then None
      else case Normalize (frame_context f) of Inl _ \<Rightarrow> None
      | Inr c \<Rightarrow>
          if \<not> PublicEligible c then None
          else if \<not> AllowsSignal (Publication c) (uint (rf_GnssID f)) (rf_SigID f) then None
          else
            let out = f\<lparr>rf_Observer := c\<lparr>DeclaredCapabilities := filterSignals (DeclaredCapabilities c) (Publication c)\<rparr>, rf_RF := None, rf_Solution := None\<rparr>
            in if AggregateUse (Publication c) = AggregatePublicAnonymous then Some (out\<lparr>rf_Source := AnonymousPublicSource, rf_Obs := None\<rparr>)
               else if AggregateUse (Publication c) = AggregatePublicAttributed then Some (out\<lparr>rf_Source := ObserverID c\<rparr>)
               else None)"

definition ProjectPublicEvents :: "frame \<Rightarrow> frame option" where
  "ProjectPublicEvents f =
     (case ProjectPublic f of None \<Rightarrow> None
      | Some out \<Rightarrow>
          let visibility = EventVisibility (Publication (rf_Observer out))
          in if visibility = EventsPrivate then None
             else if visibility = EventsPublicRedacted then Some (out\<lparr>rf_Source := AnonymousPublicSource, rf_Obs := None\<rparr>)
             else if visibility = EventsPublic then Some out else None)"

record dial_source =
  src_Name :: string
  src_Remark :: string
  src_ObserverContext :: observer_context

definition source_context :: "'a dial_source_scheme \<Rightarrow> observer_context" where
  "source_context src = (if ObserverID (src_ObserverContext src) = [] then NewPrivateContext (src_Name src) CredentialLocalDial else src_ObserverContext src)"

definition public_source :: "'a dial_source_scheme \<Rightarrow> 'a dial_source_scheme option" where
  "public_source src =
     (case Normalize (source_context src) of Inl _ \<Rightarrow> None
      | Inr c \<Rightarrow>
          if \<not> PublicAttributed c then None
          else let projected = src\<lparr>src_Name := ObserverID c, src_ObserverContext := c\<rparr>
               in Some (if StationMetadata (Publication c) \<noteq> MetadataFull then projected\<lparr>src_Remark := []\<rparr> else projected))"

definition PublicSources :: "'a dial_source_scheme list \<Rightarrow> 'a dial_source_scheme list" where
  "PublicSources sources = List.map_filter public_source sources"

section \<open>The registry\<close>

definition maxDynamicViews :: nat where "maxDynamicViews = 10000"

type_synonym live_store = "frame list"

record 'a view =
  vw_Audience :: audience
  vw_Store :: live_store
  vw_Sources :: "'a dial_source_scheme list"

record 'a registry =
  rg_sources :: "'a dial_source_scheme list"
  rg_views :: "(string \<times> 'a view) list"
  rg_dynamic :: nat

definition store_Apply :: "live_store \<Rightarrow> frame \<Rightarrow> live_store" where "store_Apply st f = st @ [f]"

definition NewRegistry :: "'a dial_source_scheme list \<Rightarrow> 'a registry" where
  "NewRegistry sources = \<lparr>rg_sources = sources, rg_views = [], rg_dynamic = 0\<rparr>"

definition Register :: "'a registry \<Rightarrow> audience \<Rightarrow> live_store \<Rightarrow> 'a dial_source_scheme list \<Rightarrow> 'a registry" where
  "Register r a st sources = r\<lparr>rg_views := AList.update (Key a) \<lparr>vw_Audience = a, vw_Store = st, vw_Sources = sources\<rparr> (rg_views r)\<rparr>"

definition sourcesForAudience :: "'a dial_source_scheme list \<Rightarrow> audience \<Rightarrow> 'a dial_source_scheme list" where
  "sourcesForAudience sources a = filter (\<lambda>src. case Normalize (source_context src) of Inl _ \<Rightarrow> False | Inr c \<Rightarrow> audience_Allows a c) sources"

definition ensureDynamic :: "'a registry \<Rightarrow> audience \<Rightarrow> 'a registry \<times> bool" where
  "ensureDynamic r a =
     (case map_of (rg_views r) (Key a) of Some _ \<Rightarrow> (r, True)
      | None \<Rightarrow>
          if rg_dynamic r \<ge> maxDynamicViews then (r, False)
          else (r\<lparr>rg_views := AList.update (Key a) \<lparr>vw_Audience = a, vw_Store = [], vw_Sources = sourcesForAudience (rg_sources r) a\<rparr> (rg_views r), rg_dynamic := rg_dynamic r + 1\<rparr>, True))"

text \<open>Applying a frame to the store of the view under a key, and resetting it.\<close>

definition view_Apply :: "'a registry \<Rightarrow> string \<Rightarrow> frame \<Rightarrow> 'a registry" where
  "view_Apply r key f =
     (case map_of (rg_views r) key of None \<Rightarrow> r | Some v \<Rightarrow> r\<lparr>rg_views := AList.update key (v\<lparr>vw_Store := store_Apply (vw_Store v) f\<rparr>) (rg_views r)\<rparr>)"

definition view_Reset :: "'a registry \<Rightarrow> string \<Rightarrow> 'a registry" where
  "view_Reset r key = (case map_of (rg_views r) key of None \<Rightarrow> r | Some v \<Rightarrow> r\<lparr>rg_views := AList.update key (v\<lparr>vw_Store := []\<rparr>) (rg_views r)\<rparr>)"

definition private_audiences :: "observer_context \<Rightarrow> audience list" where
  "private_audiences c =
     (if OrganizationID c \<noteq> UnassignedOrganization then [\<lparr>Kind = AudienceOrganization, ID = OrganizationID c\<rparr>] else []) @
     map (\<lambda>i. \<lparr>Kind = AudienceCollection, ID = i\<rparr>) (CollectionIDs c)"

definition apply_private_step :: "frame \<Rightarrow> audience \<Rightarrow> 'a registry \<Rightarrow> 'a registry" where
  "apply_private_step f a r = (case ensureDynamic r a of (r', ok) \<Rightarrow> if ok then view_Apply r' (Key a) f else r')"

definition ApplyPrivate :: "'a registry \<Rightarrow> frame \<Rightarrow> 'a registry" where
  "ApplyPrivate r f = (case Normalize (frame_context f) of Inl _ \<Rightarrow> r | Inr c \<Rightarrow> fold (apply_private_step f) (private_audiences c) r)"

definition reset_audiences :: "observer_context \<Rightarrow> audience list" where
  "reset_audiences previous =
     \<lparr>Kind = AudienceOperator, ID = CollectorInstanceID previous\<rparr> # private_audiences previous @
     (if PublicEligible previous then [\<lparr>Kind = AudiencePublic, ID = []\<rparr>] else [])"

fun reset_views :: "'a registry \<Rightarrow> string list \<Rightarrow> audience list \<Rightarrow> 'a registry \<times> audience list" where
  "reset_views r seen [] = (r, [])"
| "reset_views r seen (a # as) =
     (if Key a \<in> set seen then reset_views r seen as
      else case map_of (rg_views r) (Key a) of None \<Rightarrow> reset_views r (Key a # seen) as
      | Some _ \<Rightarrow> (case reset_views (view_Reset r (Key a)) (Key a # seen) as of (r', affected) \<Rightarrow> (r', a # affected)))"

definition ResetContext :: "'a registry \<Rightarrow> observer_context \<Rightarrow> 'a registry \<times> audience list" where
  "ResetContext r previous =
     (case Normalize previous of Inl _ \<Rightarrow> (r, [])
      | Inr p \<Rightarrow> (case reset_views r [] (reset_audiences p) of (r', affected) \<Rightarrow> (r', sort_key Key affected)))"

definition Resolve :: "'a registry \<Rightarrow> audience \<Rightarrow> (live_store \<times> 'a dial_source_scheme list) option" where
  "Resolve r a = map_option (\<lambda>v. (vw_Store v, vw_Sources v)) (map_of (rg_views r) (Key a))"

section \<open>Policy epochs\<close>

record policy_epochs =
  pe_started :: time
  pe_epochs :: "(string \<times> (nat \<times> time)) list"

definition NewPolicyEpochs :: "time \<Rightarrow> time \<Rightarrow> policy_epochs" where
  "NewPolicyEpochs started now = \<lparr>pe_started = (if started = 0 then now else started), pe_epochs = []\<rparr>"

definition epochs_Current :: "policy_epochs \<Rightarrow> string \<Rightarrow> nat \<times> time" where
  "epochs_Current p key = (case map_of (pe_epochs p) key of None \<Rightarrow> (0, pe_started p) | Some e \<Rightarrow> e)"

definition epochs_IfCurrent :: "policy_epochs \<Rightarrow> string \<Rightarrow> nat \<Rightarrow> bool" where
  "epochs_IfCurrent p key generation \<longleftrightarrow> fst (case map_of (pe_epochs p) key of None \<Rightarrow> (0, 0) | Some e \<Rightarrow> e) = generation"

definition advance_key :: "policy_epochs \<Rightarrow> string \<Rightarrow> time \<Rightarrow> policy_epochs" where
  "advance_key p key now =
     (let (generation, visibleAt) = epochs_Current p key
      in p\<lparr>pe_epochs := AList.update key (generation + 1, if visibleAt < now then now else visibleAt) (pe_epochs p)\<rparr>)"

fun advance_keys :: "policy_epochs \<Rightarrow> string list \<Rightarrow> time \<Rightarrow> string list \<Rightarrow> policy_epochs \<times> string list" where
  "advance_keys p seen now [] = (p, [])"
| "advance_keys p seen now (k # ks) =
     (if k \<in> set seen then advance_keys p seen now ks
      else case advance_keys (advance_key p k now) (k # seen) now ks of (p', changed) \<Rightarrow> (p', k # changed))"

definition Advance :: "policy_epochs \<Rightarrow> audience list \<Rightarrow> time \<Rightarrow> time \<Rightarrow> policy_epochs \<times> string list" where
  "Advance p audiences changedAt now = advance_keys p [] (if changedAt = 0 then now else changedAt) (map Key audiences)"

section \<open>The decode loop\<close>

text \<open>The stores the decode loop applies frames to. The operator's and the public store are the views registered for them at the start, so they live in the registry; the store behind the
  public events does not. Which frame persistence quarantines, and whether its admission is current, come from elsewhere.\<close>

record 'a decoder =
  dc_registry :: "'a registry"
  dc_publicEvents :: live_store
  dc_operatorDetector :: detector
  dc_publicDetector :: detector
  dc_epochs :: policy_epochs

definition decoder0 :: "string \<Rightarrow> 'a dial_source_scheme list \<Rightarrow> time \<Rightarrow> 'a decoder" where
  "decoder0 instance_id sources now =
     \<lparr>dc_registry = Register (Register (NewRegistry sources) \<lparr>Kind = AudiencePublic, ID = []\<rparr> [] (PublicSources sources)) \<lparr>Kind = AudienceOperator, ID = instance_id\<rparr> [] sources,
      dc_publicEvents = [], dc_operatorDetector = detector_New 0, dc_publicDetector = detector_New 0, dc_epochs = NewPolicyEpochs now now\<rparr>"

definition scope_reset :: "audience \<Rightarrow> 'a decoder \<Rightarrow> 'a decoder" where
  "scope_reset a d =
     (if Kind a = AudiencePublic then d\<lparr>dc_publicEvents := [], dc_publicDetector := detector_Reset (dc_publicDetector d)\<rparr>
      else if Kind a = AudienceOperator then d\<lparr>dc_operatorDetector := detector_Reset (dc_operatorDetector d)\<rparr> else d)"

definition scope_Apply :: "'a decoder \<Rightarrow> observer_context \<Rightarrow> time \<Rightarrow> time \<Rightarrow> 'a decoder" where
  "scope_Apply d previous changedAt now =
     (case ResetContext (dc_registry d) previous of (r, affected) \<Rightarrow>
        let d1 = d\<lparr>dc_registry := r\<rparr>
        in if length affected = 0 then d1
           else let d2 = fold scope_reset affected d1 in d2\<lparr>dc_epochs := fst (Advance (dc_epochs d2) affected changedAt now)\<rparr>)"

definition decode_apply :: "string \<Rightarrow> 'a decoder \<Rightarrow> frame \<Rightarrow> bool \<Rightarrow> bool \<Rightarrow> time \<Rightarrow> 'a decoder" where
  "decode_apply instance_id d f quarantined admission_current now =
     (if quarantined then d
      else if rf_QuarantineReason f \<noteq> [] \<or> \<not> admission_current then d
      else if LiveRejection (raw_frame.truncate f) now \<noteq> [] then d
      else
        let r1 = view_Apply (dc_registry d) (Key \<lparr>Kind = AudienceOperator, ID = instance_id\<rparr>) f;
            r2 = ApplyPrivate r1 f;
            r3 = (case ProjectPublic f of None \<Rightarrow> r2 | Some g \<Rightarrow> view_Apply r2 (Key \<lparr>Kind = AudiencePublic, ID = []\<rparr>) g);
            events = (case ProjectPublicEvents f of None \<Rightarrow> dc_publicEvents d | Some g \<Rightarrow> store_Apply (dc_publicEvents d) g)
        in d\<lparr>dc_registry := r3, dc_publicEvents := events\<rparr>)"

datatype decode_event = Apply frame bool bool time | Revoke observer_context time time

fun decode_step :: "string \<Rightarrow> 'a decoder \<Rightarrow> decode_event \<Rightarrow> 'a decoder" where
  "decode_step instance_id d (Apply f quarantined current now) = decode_apply instance_id d f quarantined current now"
| "decode_step instance_id d (Revoke previous changedAt now) = scope_Apply d previous changedAt now"

definition decodeLoop :: "string \<Rightarrow> 'a decoder \<Rightarrow> decode_event list \<Rightarrow> 'a decoder" where
  "decodeLoop instance_id d events = foldl (decode_step instance_id) d events"

end
