(* ===== verification/AudienceLaws.thy ===== *)
theory AudienceLaws
  imports Audiences
begin

text \<open>
  What audiences promise: canonical keys, projections that hide what they must, epochs that only move forward, and resets that leave nothing of a revoked authority in any live store.
\<close>

section \<open>Keys\<close>

lemma Cut_append: "c \<notin> set a \<Longrightarrow> strings_Cut (a @ c # b) c = Some (a, b)"
  by (induction a) auto

lemma Cut_Some: "strings_Cut s c = Some (a, b) \<Longrightarrow> s = a @ c # b \<and> c \<notin> set a"
  by (induction s c arbitrary: a rule: strings_Cut.induct) (auto split: if_splits option.splits)

definition well_formed_audience :: "audience \<Rightarrow> bool" where
  "well_formed_audience a \<longleftrightarrow> (if Kind a = AudiencePublic then ID a = [] else Kind a \<in> {AudienceOperator, AudienceOrganization, AudienceCollection} \<and> ValidScopeID (ID a))"

lemma Parse_Key:
  assumes "well_formed_audience a"
  shows "ParseAudience (Key a) = Inr a"
proof (cases "Kind a = AudiencePublic")
  case True
  then show ?thesis using assms by (cases a) (simp add: ParseAudience_def Key_def well_formed_audience_def)
next
  case False
  then have k: "Kind a \<in> {AudienceOperator, AudienceOrganization, AudienceCollection}" "ValidScopeID (ID a)" using assms by (simp_all add: well_formed_audience_def)
  then have "CHR '':'' \<notin> set (Kind a)" "Kind a @ CHR '':'' # ID a \<noteq> ''public''" by (auto simp: audience_words)
  then show ?thesis using k False Cut_append [of "CHR '':''" "Kind a" "ID a"] by (cases a) (simp add: ParseAudience_def Key_def)
qed

text \<open>the canonical form of an audience. A string parses to an audience exactly when it is that audience's key and the audience is one that can exist: public with no identifier, or an
  operator, organization or collection with a valid one. So keys name audiences without ambiguity.\<close>

lemma audience_roundtrip: "ParseAudience s = Inr a \<longleftrightarrow> Key a = s \<and> well_formed_audience a"
proof
  assume "ParseAudience s = Inr a"
  then show "Key a = s \<and> well_formed_audience a"
    using Cut_Some [of s "CHR '':''"]
    by (auto simp: ParseAudience_def Key_def well_formed_audience_def audience_words split: if_splits option.splits)
next
  assume "Key a = s \<and> well_formed_audience a"
  then show "ParseAudience s = Inr a" using Parse_Key by blast
qed

lemma check_grants_None: "check_grants seen gs = None \<longleftrightarrow> list_all (\<lambda>g. well_formed_audience g \<and> Kind g \<noteq> AudiencePublic) gs \<and> distinct (map Key gs) \<and> set (map Key gs) \<inter> set seen = {}"
proof (induction seen gs rule: check_grants.induct)
  case (2 seen g gs)
  have "ParseAudience (Key g) = Inr g \<longleftrightarrow> well_formed_audience g" using Parse_Key [of g] Cut_Some
    by (auto simp: ParseAudience_def well_formed_audience_def Key_def audience_words split: if_splits option.splits)
  then show ?case using 2 by auto
qed simp

text \<open>A principal that is accepted holds distinct private grants in the order of their keys, and allows exactly what it was granted.\<close>

lemma NormalizeReadPrincipal_grants:
  assumes "NormalizeReadPrincipal p = Inr q"
  shows "principal_Allows q = principal_Allows p \<and> sorted (map Key (rp_AudienceGrants q)) \<and> distinct (map Key (rp_AudienceGrants q))"
proof -
  have q: "q = p\<lparr>rp_AudienceGrants := sort_key Key (rp_AudienceGrants p)\<rparr>" "check_grants [] (rp_AudienceGrants p) = None"
    using assms by (auto simp: NormalizeReadPrincipal_def split: if_splits option.splits)
  then have "distinct (map Key (sort_key Key (rp_AudienceGrants p)))" by (simp add: check_grants_None distinct_map)
  then show ?thesis by (auto simp: q(1) principal_Allows_def list_ex_iff fun_eq_iff)
qed

section \<open>Projections\<close>

lemma canonicalSignals_filter:
  assumes "canonicalSignals xs = xs"
  shows "canonicalSignals (filter P xs) = filter P xs"
proof -
  have c: "Canonical x = x" if "x \<in> set xs" for x
  proof -
    have "x \<in> Canonical ` set xs" using that set_canonicalSignals [of xs] by (simp add: assms)
    then show ?thesis by auto
  qed
  have "distinct xs" using distinct_canonicalSignals [of xs] by (simp add: assms)
  moreover have "sorted (map (\<lambda>s. (GnssID s, SigID s)) xs)" using assms canonicalSignals_def [of xs] by (metis sorted_sort_key)
  moreover have "map Canonical (filter P xs) = filter P xs" using c by (intro map_idI) auto
  ultimately show ?thesis by (simp add: canonicalSignals_def unseen_distinct sort_key_id_if_sorted sorted_filter)
qed

lemma Normalize_fewer_capabilities:
  assumes "Normalize c = Inr c"
  shows "Normalize (c\<lparr>DeclaredCapabilities := filter P (DeclaredCapabilities c)\<rparr>) = Inr (c\<lparr>DeclaredCapabilities := filter P (DeclaredCapabilities c)\<rparr>)"
proof -
  let ?c = "c\<lparr>DeclaredCapabilities := filter P (DeclaredCapabilities c)\<rparr>"
  have f: "normalize_fill c = c" using assms unfolding Normalize_Inr by simp
  have caps: "canonicalSignals (DeclaredCapabilities c) = DeclaredCapabilities c" using arg_cong [OF f, of DeclaredCapabilities] by (simp add: normalize_fill_def)
  have "normalize_fill ?c = (normalize_fill c)\<lparr>DeclaredCapabilities := canonicalSignals (filter P (DeclaredCapabilities c))\<rparr>"
    by (rule observer_context.equality) (simp_all add: normalize_fill_def)
  then have fill: "normalize_fill ?c = ?c" by (simp add: f canonicalSignals_filter [OF caps])
  have e: "evidence_checks ?c = evidence_checks c" by (simp add: evidence_checks_def)
  have "list_all (\<lambda>e. e = None) (identity_checks c c)" "list_all (\<lambda>e. e = None) (evidence_checks c)" "list_all (\<lambda>e. e = None) (publication_checks (Publication c) (Publication c))"
    using assms unfolding Normalize_Inr by blast+
  moreover from this(1) have "list_all (\<lambda>e. e = None) (identity_checks ?c ?c)"
    using le_trans [OF length_filter_le [of P "DeclaredCapabilities c"], of 256]
    by (auto simp: identity_checks_def check_ids_None check_signals_None list_all_iff not_less)
  ultimately show ?thesis unfolding Normalize_Inr fill e by simp
qed

lemma Normalize_observer: "Normalize c = Inr d \<Longrightarrow> ObserverID d \<noteq> []"
  by (auto simp: Normalize_Inr identity_checks_def normalize_fill_def)

lemma projected_context:
  assumes "ProjectPublic f = Some g"
  shows "\<exists>c. Normalize (frame_context f) = Inr c \<and> PublicEligible c \<and>
    rf_Observer g = c\<lparr>DeclaredCapabilities := filterSignals (DeclaredCapabilities c) (Publication c)\<rparr> \<and> Normalize (frame_context g) = Inr (rf_Observer g)"
proof -
  obtain c where c: "Normalize (frame_context f) = Inr c" "PublicEligible c"
      "rf_Observer g = c\<lparr>DeclaredCapabilities := filterSignals (DeclaredCapabilities c) (Publication c)\<rparr>"
    using assms by (auto simp: ProjectPublic_def Let_def split: if_splits sum.splits)
  have "Normalize (rf_Observer g) = Inr (rf_Observer g)" unfolding c(3) filterSignals_def by (rule Normalize_fewer_capabilities [OF Normalize_idem [OF c(1)]])
  moreover have "frame_context g = rf_Observer g" using Normalize_observer [OF c(1)] by (simp add: frame_context_def c(3))
  ultimately show ?thesis using c by simp
qed

text \<open>C21: what an anonymous contribution leaves in public. A frame is projected only for an observer that chose publication; the projection carries the anonymous source and no observables, RF
  telemetry or receiver solution, whatever they were, and announces no capability that the policy withholds.\<close>

theorem anonymous_projection:
  assumes "ProjectPublic f = Some g" "\<not> PublicAttributed (rf_Observer g)"
  shows "PublicEligible (frame_context f) \<and> rf_Source g = AnonymousPublicSource \<and> rf_Obs g = None \<and> rf_RF g = None \<and> rf_Solution g = None \<and>
    list_all (\<lambda>s. AllowsSignal (Publication (frame_context f)) (GnssID s) (SigID s)) (DeclaredCapabilities (rf_Observer g)) \<and>
    (\<forall>obs rf solution. ProjectPublic (f\<lparr>rf_Obs := obs, rf_RF := rf, rf_Solution := solution\<rparr>) = Some g)"
proof -
  obtain c where c: "Normalize (frame_context f) = Inr c" "PublicEligible c" "rf_Observer g = c\<lparr>DeclaredCapabilities := filterSignals (DeclaredCapabilities c) (Publication c)\<rparr>"
    using projected_context [OF assms(1)] by blast
  then have a: "AggregateUse (Publication c) = AggregatePublicAnonymous" using assms(2) by (simp add: PublicEligible_def PublicAttributed_def)
  have f: "\<not> rf_Details f" "AllowsSignal (Publication c) (uint (rf_GnssID f)) (rf_SigID f)" using assms(1) c(1) by (auto simp: ProjectPublic_def split: if_splits)
  have g: "g = f\<lparr>rf_Observer := c\<lparr>DeclaredCapabilities := filterSignals (DeclaredCapabilities c) (Publication c)\<rparr>, rf_RF := None, rf_Solution := None,
      rf_Source := AnonymousPublicSource, rf_Obs := None\<rparr>"
    using assms(1) c(1,2) a f by (simp add: ProjectPublic_def Let_def)
  have p: "Publication c = normalize_publication (Publication (frame_context f))" "PublicEligible (frame_context f)"
    using c(1,2) unfolding Normalize_Inr by (auto simp: normalize_fill_def normalize_publication_def or_default_def PublicEligible_def identity_words split: if_splits)
  have "ProjectPublic (f\<lparr>rf_Obs := obs, rf_RF := rf, rf_Solution := solution\<rparr>) = Some g" for obs rf solution
  proof -
    have "frame_context (f\<lparr>rf_Obs := obs, rf_RF := rf, rf_Solution := solution\<rparr>) = frame_context f" by (simp add: frame_context_def)
    then show ?thesis using c(1,2) a f by (simp add: ProjectPublic_def Let_def g)
  qed
  moreover have "list_all (\<lambda>s. AllowsSignal (Publication (frame_context f)) (GnssID s) (SigID s)) (DeclaredCapabilities (rf_Observer g))"
    by (simp add: g filterSignals_def p(1) AllowsSignal_normal list_all_iff)
  ultimately show ?thesis using p(2) by (simp add: g)
qed


section \<open>Resets\<close>

definition operator_key :: "string \<Rightarrow> string" where
  "operator_key instance_id = Key \<lparr>Kind = AudienceOperator, ID = instance_id\<rparr>"

text \<open>A frame may be under a key if it was routed there.\<close>

definition routed :: "string \<Rightarrow> frame \<Rightarrow> string \<Rightarrow> bool" where
  "routed instance_id g key \<longleftrightarrow> key = operator_key instance_id \<or> (\<exists>c. Normalize (frame_context g) = Inr c \<and> key \<in> Key ` set (reset_audiences c))"

definition registry_ok :: "string \<Rightarrow> 'a registry \<Rightarrow> bool" where
  "registry_ok instance_id r \<longleftrightarrow> distinct (map fst (rg_views r)) \<and> map_of (rg_views r) ''public'' \<noteq> None \<and>
     (\<forall>key v g. map_of (rg_views r) key = Some v \<longrightarrow> g \<in> set (vw_Store v) \<longrightarrow> routed instance_id g key)"

definition decoder_ok :: "string \<Rightarrow> 'a decoder \<Rightarrow> bool" where
  "decoder_ok instance_id d \<longleftrightarrow> registry_ok instance_id (dc_registry d) \<and> (\<forall>g \<in> set (dc_publicEvents d). \<exists>c. Normalize (frame_context g) = Inr c \<and> PublicEligible c)"

lemma map_of_update: "map_of (AList.update k v m) = (map_of m)(k \<mapsto> v)"
  by (rule update_conv')

lemma view_Apply_ok: "registry_ok i r \<Longrightarrow> routed i f key \<Longrightarrow> registry_ok i (view_Apply r key f)"
  by (auto simp: registry_ok_def view_Apply_def store_Apply_def map_of_update distinct_update simp del: map_of_eq_Some_iff split: option.splits if_splits)

lemma ensureDynamic_ok: "registry_ok i r \<Longrightarrow> registry_ok i (fst (ensureDynamic r a))"
  by (auto simp: registry_ok_def ensureDynamic_def map_of_update distinct_update simp del: map_of_eq_Some_iff split: option.splits if_splits)

lemma apply_private_ok: "registry_ok i r \<Longrightarrow> \<forall>a \<in> set as. routed i f (Key a) \<Longrightarrow> registry_ok i (fold (apply_private_step f) as r)"
proof (induction as arbitrary: r)
  case (Cons a as)
  have "registry_ok i (apply_private_step f a r)" using Cons.prems ensureDynamic_ok [of i r a] view_Apply_ok by (auto simp: apply_private_step_def split: prod.split)
  then show ?case using Cons by simp
qed simp

lemma ApplyPrivate_ok: "registry_ok i r \<Longrightarrow> registry_ok i (ApplyPrivate r f)"
  by (auto simp: ApplyPrivate_def routed_def reset_audiences_def intro!: apply_private_ok split: sum.split)

lemma map_of_view_Reset: "map_of (rg_views (view_Reset r key)) k = (if k = key then map_option (\<lambda>v. v\<lparr>vw_Store := []\<rparr>) (map_of (rg_views r) k) else map_of (rg_views r) k)"
  by (auto simp: view_Reset_def map_of_update split: option.split)

lemma view_Reset_distinct: "distinct (map fst (rg_views r)) \<Longrightarrow> distinct (map fst (rg_views (view_Reset r key)))"
  by (auto simp: view_Reset_def distinct_update split: option.split)

text \<open>A reset empties the views it names and touches no other; a named view that exists is reported.\<close>

lemma map_of_reset_views:
  "map_of (rg_views (fst (reset_views r seen as))) k =
     (if k \<in> Key ` set as - set seen then map_option (\<lambda>v. v\<lparr>vw_Store := []\<rparr>) (map_of (rg_views r) k) else map_of (rg_views r) k)"
  by (induction r seen as rule: reset_views.induct) (auto simp: map_of_view_Reset split: option.split prod.split)

lemma reset_views_distinct: "distinct (map fst (rg_views r)) \<Longrightarrow> distinct (map fst (rg_views (fst (reset_views r seen as))))"
  by (induction r seen as rule: reset_views.induct) (auto simp: view_Reset_distinct split: option.split prod.split)

lemma reset_views_reported:
  "a \<in> set as \<Longrightarrow> Key a \<notin> set seen \<Longrightarrow> map_of (rg_views r) (Key a) \<noteq> None \<Longrightarrow> Key a \<in> Key ` set (snd (reset_views r seen as))"
proof (induction r seen as rule: reset_views.induct)
  case (2 r seen b as)
  consider (seen) "Key b \<in> set seen" | (absent) "Key b \<notin> set seen" "map_of (rg_views r) (Key b) = None" | (view) v where "Key b \<notin> set seen" "map_of (rg_views r) (Key b) = Some v" by fastforce
  then show ?case
  proof cases
    case seen
    then show ?thesis using 2 by auto
  next
    case absent
    then have "Key a \<noteq> Key b" using 2(5,6) by auto
    then show ?thesis using 2(2) [OF absent] 2(4-) absent by auto
  next
    case (view v)
    then show ?thesis using 2(3) [OF view] 2(4-) by (cases "Key a = Key b") (auto simp: map_of_view_Reset split: prod.split)
  qed
qed simp

lemma fold_scope_reset: "dc_registry (fold scope_reset as d) = dc_registry d \<and> dc_publicEvents (fold scope_reset as d) = (if list_ex (\<lambda>a. Kind a = AudiencePublic) as then [] else dc_publicEvents d)"
  by (induction as arbitrary: d) (auto simp: scope_reset_def)

lemma Key_public: "Key a = ''public'' \<longleftrightarrow> Kind a = AudiencePublic"
proof
  assume k: "Key a = ''public''"
  show "Kind a = AudiencePublic"
  proof (rule ccontr)
    assume "Kind a \<noteq> AudiencePublic"
    then have "''public'' = Kind a @ CHR '':'' # ID a" using k by (simp add: Key_def)
    then have "CHR '':'' \<in> set ''public''" unfolding in_set_conv_decomp by blast
    then show False by simp
  qed
qed (simp add: Key_def)

lemma scope_Apply_registry:
  assumes "Normalize previous = Inr p"
  shows "map_of (rg_views (dc_registry (scope_Apply d previous changedAt now))) k =
    (if k \<in> Key ` set (reset_audiences p) then map_option (\<lambda>v. v\<lparr>vw_Store := []\<rparr>) (map_of (rg_views (dc_registry d)) k) else map_of (rg_views (dc_registry d)) k)"
    "distinct (map fst (rg_views (dc_registry d))) \<Longrightarrow> distinct (map fst (rg_views (dc_registry (scope_Apply d previous changedAt now))))"
    "PublicEligible p \<Longrightarrow> map_of (rg_views (dc_registry d)) ''public'' \<noteq> None \<Longrightarrow> dc_publicEvents (scope_Apply d previous changedAt now) = []"
    "dc_publicEvents (scope_Apply d previous changedAt now) = [] \<or> dc_publicEvents (scope_Apply d previous changedAt now) = dc_publicEvents d"
proof -
  obtain r' as where e: "reset_views (dc_registry d) [] (reset_audiences p) = (r', as)" by fastforce
  let ?d = "fold scope_reset (sort_key Key as) (d\<lparr>dc_registry := r'\<rparr>)"
  have "scope_Apply d previous changedAt now =
      (if length (sort_key Key as) = 0 then d\<lparr>dc_registry := r'\<rparr> else ?d\<lparr>dc_epochs := fst (Advance (dc_epochs ?d) (sort_key Key as) changedAt now)\<rparr>)"
    unfolding scope_Apply_def ResetContext_def assms sum.case e prod.case Let_def ..
  moreover have "list_ex (\<lambda>a. Kind a = AudiencePublic) (sort_key Key as) = list_ex (\<lambda>a. Kind a = AudiencePublic) as" by (simp add: list_ex_iff)
  ultimately have r: "dc_registry (scope_Apply d previous changedAt now) = r'"
    "dc_publicEvents (scope_Apply d previous changedAt now) = (if list_ex (\<lambda>a. Kind a = AudiencePublic) as then [] else dc_publicEvents d)"
    using fold_scope_reset [of "sort_key Key as" "d\<lparr>dc_registry := r'\<rparr>"] by (cases as; simp)+
  show "map_of (rg_views (dc_registry (scope_Apply d previous changedAt now))) k =
    (if k \<in> Key ` set (reset_audiences p) then map_option (\<lambda>v. v\<lparr>vw_Store := []\<rparr>) (map_of (rg_views (dc_registry d)) k) else map_of (rg_views (dc_registry d)) k)"
    using map_of_reset_views [of "dc_registry d" "[]" "reset_audiences p" k] by (simp add: r e)
  show "distinct (map fst (rg_views (dc_registry d))) \<Longrightarrow> distinct (map fst (rg_views (dc_registry (scope_Apply d previous changedAt now))))"
    using reset_views_distinct [of "dc_registry d" "[]" "reset_audiences p"] by (simp add: r e)
  show "dc_publicEvents (scope_Apply d previous changedAt now) = []" if "PublicEligible p" "map_of (rg_views (dc_registry d)) ''public'' \<noteq> None"
  proof -
    let ?a = "\<lparr>Kind = AudiencePublic, ID = []\<rparr>"
    have k: "Key ?a = ''public''" by (simp add: Key_def)
    have "?a \<in> set (reset_audiences p)" using that(1) by (simp add: reset_audiences_def)
    then have "''public'' \<in> Key ` set as" using reset_views_reported [of ?a "reset_audiences p" "[]" "dc_registry d"] that(2) unfolding k e by simp
    then obtain b where "b \<in> set as" "Key b = ''public''" by auto
    then have "list_ex (\<lambda>a. Kind a = AudiencePublic) as" using Key_public by (auto simp: list_ex_iff)
    then show ?thesis by (simp add: r)
  qed
  show "dc_publicEvents (scope_Apply d previous changedAt now) = [] \<or> dc_publicEvents (scope_Apply d previous changedAt now) = dc_publicEvents d" by (simp add: r)
qed


lemma public_routed: "Normalize (frame_context g) = Inr c \<Longrightarrow> PublicEligible c \<Longrightarrow> routed i g (Key \<lparr>Kind = AudiencePublic, ID = []\<rparr>)"
  by (auto simp: routed_def reset_audiences_def)

lemma PublicEligible_capabilities [simp]: "PublicEligible (c\<lparr>DeclaredCapabilities := xs\<rparr>) = PublicEligible c"
  by (simp add: PublicEligible_def)

lemma ProjectPublicEvents_context:
  assumes "ProjectPublicEvents f = Some g"
  shows "\<exists>c. Normalize (frame_context g) = Inr c \<and> PublicEligible c"
proof -
  obtain h where h: "ProjectPublic f = Some h" "rf_Observer g = rf_Observer h"
    using assms by (auto simp: ProjectPublicEvents_def Let_def split: option.splits if_splits)
  obtain c where c: "PublicEligible c" "rf_Observer h = c\<lparr>DeclaredCapabilities := filterSignals (DeclaredCapabilities c) (Publication c)\<rparr>" "Normalize (frame_context h) = Inr (rf_Observer h)"
    using projected_context [OF h(1)] by blast
  have "ObserverID (rf_Observer h) \<noteq> []" by (rule Normalize_observer [OF c(3)])
  then have "frame_context g = frame_context h" by (simp add: frame_context_def h(2))
  then show ?thesis using c by simp
qed

lemma decode_apply_ok:
  assumes "decoder_ok i d"
  shows "decoder_ok i (decode_apply i d f quarantined current now)"
proof -
  let ?k = "Key \<lparr>Kind = AudienceOperator, ID = i\<rparr>" and ?p = "Key \<lparr>Kind = AudiencePublic, ID = []\<rparr>"
  let ?r2 = "ApplyPrivate (view_Apply (dc_registry d) ?k f) f"
  let ?r3 = "case ProjectPublic f of None \<Rightarrow> ?r2 | Some g \<Rightarrow> view_Apply ?r2 ?p g"
  let ?e = "case ProjectPublicEvents f of None \<Rightarrow> dc_publicEvents d | Some g \<Rightarrow> store_Apply (dc_publicEvents d) g"
  have "registry_ok i (view_Apply (dc_registry d) ?k f)" using assms by (intro view_Apply_ok) (auto simp: decoder_ok_def routed_def operator_key_def)
  then have r2: "registry_ok i ?r2" by (rule ApplyPrivate_ok)
  have "registry_ok i ?r3"
  proof (cases "ProjectPublic f")
    case (Some g)
    then show ?thesis using projected_context [OF Some] public_routed [of g] view_Apply_ok [OF r2] by (metis PublicEligible_capabilities option.simps(5))
  qed (simp add: r2)
  moreover have "\<forall>g \<in> set ?e. \<exists>c. Normalize (frame_context g) = Inr c \<and> PublicEligible c"
    using assms ProjectPublicEvents_context [of f] by (auto simp: decoder_ok_def store_Apply_def split: option.splits)
  ultimately show ?thesis using assms unfolding decode_apply_def Let_def by (simp add: decoder_ok_def)
qed

lemma scope_Apply_ok:
  assumes "decoder_ok i d"
  shows "decoder_ok i (scope_Apply d previous changedAt now)"
proof (cases "Normalize previous")
  case (Inl e)
  then show ?thesis using assms by (simp add: scope_Apply_def ResetContext_def decoder_ok_def)
next
  case (Inr p)
  let ?d = "scope_Apply d previous changedAt now"
  note r = scope_Apply_registry [OF Inr, of d changedAt now]
  have ok: "registry_ok i (dc_registry d)" using assms by (simp add: decoder_ok_def)
  have "routed i g key" if "map_of (rg_views (dc_registry ?d)) key = Some v" "g \<in> set (vw_Store v)" for key v g
    using that ok unfolding r(1) registry_ok_def by (auto split: if_splits simp del: map_of_eq_Some_iff)
  moreover have "map_of (rg_views (dc_registry ?d)) ''public'' \<noteq> None" using ok unfolding r(1) registry_ok_def by auto
  moreover have "distinct (map fst (rg_views (dc_registry ?d)))" using ok r(2) unfolding registry_ok_def by blast
  ultimately have "registry_ok i (dc_registry ?d)" unfolding registry_ok_def by blast
  moreover have "\<forall>g \<in> set (dc_publicEvents ?d). \<exists>c. Normalize (frame_context g) = Inr c \<and> PublicEligible c" using assms r(4) by (auto simp: decoder_ok_def)
  ultimately show ?thesis by (simp add: decoder_ok_def)
qed

lemma decoder0_ok: "decoder_ok i (decoder0 i sources now)"
  by (auto simp: decoder_ok_def registry_ok_def decoder0_def Register_def NewRegistry_def map_of_update distinct_update Key_def audience_words split: if_splits)

lemma decodeLoop_ok: "decoder_ok i (decodeLoop i (decoder0 i sources t0) events)"
proof (induction events rule: rev_induct)
  case Nil
  then show ?case by (simp add: decodeLoop_def decoder0_ok)
next
  case (snoc e events)
  then show ?case by (cases e) (simp_all add: decodeLoop_def decode_apply_ok scope_Apply_ok)
qed

definition contents :: "'a decoder \<Rightarrow> frame list" where
  "contents d = concat (map (\<lambda>(_, v). vw_Store v) (rg_views (dc_registry d))) @ dc_publicEvents d"

definition same_authority :: "observer_context \<Rightarrow> frame \<Rightarrow> bool" where
  "same_authority p g = (case Normalize (frame_context g) of Inl _ \<Rightarrow> False | Inr c \<Rightarrow> AuthorizationEqual (c\<lparr>DeclaredCapabilities := []\<rparr>) (p\<lparr>DeclaredCapabilities := []\<rparr>))"

lemma same_authority_routes: "AuthorizationEqual (c\<lparr>DeclaredCapabilities := []\<rparr>) (p\<lparr>DeclaredCapabilities := []\<rparr>) \<Longrightarrow> reset_audiences c = reset_audiences p \<and> PublicEligible c = PublicEligible p"
  by (simp add: AuthorizationEqual_def reset_audiences_def private_audiences_def PublicEligible_def)

text \<open>C18: a revoked authority leaves nothing behind. Whatever frames and revocations the decode channel delivered, once the marker that ends a context has been handled no live store - the
  operator's, an organization's, a collection's, the public one, or the one behind the public events - holds a frame of that authority, or its public projection.\<close>

theorem revoked_authority_gone:
  assumes "Normalize previous = Inr p" "CollectorInstanceID p = instance_id"
  shows "list_all (\<lambda>g. \<not> same_authority p g) (contents (decodeLoop instance_id (decoder0 instance_id sources t0) (events @ [Revoke previous changedAt now])))"
proof -
  let ?d = "decodeLoop instance_id (decoder0 instance_id sources t0) events"
  let ?d' = "scope_Apply ?d previous changedAt now"
  have d': "decodeLoop instance_id (decoder0 instance_id sources t0) (events @ [Revoke previous changedAt now]) = ?d'" by (simp add: decodeLoop_def)
  have ok: "decoder_ok instance_id ?d" by (rule decodeLoop_ok)
  note r = scope_Apply_registry [OF assms(1), of ?d changedAt now]
  have dist: "distinct (map fst (rg_views (dc_registry ?d')))" using ok r(2) unfolding decoder_ok_def registry_ok_def by blast
  have op: "operator_key instance_id \<in> Key ` set (reset_audiences p)" by (auto simp: operator_key_def reset_audiences_def assms(2))
  have "\<not> same_authority p g" if g: "(k, v) \<in> set (rg_views (dc_registry ?d'))" "g \<in> set (vw_Store v)" for k v g
  proof
    assume same: "same_authority p g"
    have m: "map_of (rg_views (dc_registry ?d')) k = Some v" using g(1) dist by simp
    then have k: "k \<notin> Key ` set (reset_audiences p)" using g(2) unfolding r(1) by (auto split: if_splits simp del: map_of_eq_Some_iff)
    then have "map_of (rg_views (dc_registry ?d)) k = Some v" using m unfolding r(1) by (simp split: if_splits del: map_of_eq_Some_iff)
    then have "routed instance_id g k" using ok g(2) unfolding decoder_ok_def registry_ok_def by blast
    moreover obtain c where c: "Normalize (frame_context g) = Inr c" "AuthorizationEqual (c\<lparr>DeclaredCapabilities := []\<rparr>) (p\<lparr>DeclaredCapabilities := []\<rparr>)"
      using same by (auto simp: same_authority_def split: sum.splits)
    ultimately show False using k op same_authority_routes [OF c(2)] by (auto simp: routed_def)
  qed
  moreover have "\<not> same_authority p g" if "g \<in> set (dc_publicEvents ?d')" for g
  proof
    assume "same_authority p g"
    then obtain c where c: "Normalize (frame_context g) = Inr c" "AuthorizationEqual (c\<lparr>DeclaredCapabilities := []\<rparr>) (p\<lparr>DeclaredCapabilities := []\<rparr>)"
      by (auto simp: same_authority_def split: sum.splits)
    have "g \<in> set (dc_publicEvents ?d)" using that r(4) by auto
    then have "PublicEligible p" using ok c same_authority_routes [OF c(2)] by (fastforce simp: decoder_ok_def)
    moreover have "map_of (rg_views (dc_registry ?d)) ''public'' \<noteq> None" using ok unfolding decoder_ok_def registry_ok_def by blast
    ultimately show False using r(3) that by simp
  qed
  ultimately show ?thesis unfolding d' contents_def by (fastforce simp: list_all_iff)
qed


section \<open>Epochs\<close>

text \<open>An advance raises the generation of every audience it names and hides what was visible before it, and changes no other audience.\<close>

lemma Current_advance_key:
  "epochs_Current (advance_key p key now) k =
     (if k = key then (fst (epochs_Current p k) + 1, max (snd (epochs_Current p k)) now) else epochs_Current p k)"
  by (auto simp: advance_key_def epochs_Current_def map_of_update split_def split: option.splits)

lemma Current_advance_keys:
  "epochs_Current (fst (advance_keys p seen now ks)) k =
     (if k \<in> set ks - set seen then (fst (epochs_Current p k) + 1, max (snd (epochs_Current p k)) now) else epochs_Current p k)"
  by (induction p seen now ks rule: advance_keys.induct) (auto simp: Current_advance_key split: prod.split)

lemma IfCurrent_iff: "epochs_IfCurrent p key g \<longleftrightarrow> fst (epochs_Current p key) = g"
  by (auto simp: epochs_IfCurrent_def epochs_Current_def split: option.split)

lemma Advance_fences:
  "a \<in> set as \<Longrightarrow> epochs_IfCurrent p (Key a) g \<Longrightarrow> \<not> epochs_IfCurrent (fst (Advance p as at' now)) (Key a) g"
  by (auto simp: IfCurrent_iff Advance_def Current_advance_keys)

section \<open>Samples\<close>

definition sample_context :: observer_context where
  "sample_context =
     (NewPrivateContext ''rx-1'' CredentialToken)\<lparr>OrganizationID := ''org'',
       Publication := (Publication (NewPrivateContext ''rx-1'' CredentialToken))\<lparr>AggregateUse := AggregatePublicAnonymous\<rparr>\<rparr>"

definition sample_frame :: frame where
  "sample_frame = raw_frame.extend (frame0\<lparr>rf_Recv := 10, rf_Source := ''rx-1'', rf_SigID := 0\<rparr>) \<lparr>rf_Observer = sample_context, rf_Details = False, rf_QuarantineReason = []\<rparr>"

lemma sample_normal: "Normalize sample_context = Inr sample_context"
  by code_simp

lemma sample_projected:
  "ProjectPublic sample_frame = Some (sample_frame\<lparr>rf_Observer := sample_context, rf_RF := None, rf_Solution := None, rf_Source := AnonymousPublicSource, rf_Obs := None\<rparr>)"
proof -
  have c: "frame_context sample_frame = sample_context" by (simp add: frame_context_def sample_frame_def raw_frame.defs sample_context_def NewPrivateContext_def)
  have "AggregateUse (Publication sample_context) = AggregatePublicAnonymous" "DeclaredCapabilities sample_context = []" "Signals (Publication sample_context) = []"
    by (simp_all add: sample_context_def NewPrivateContext_def empty_context_def)
  moreover have "\<not> rf_Details sample_frame" by (simp add: sample_frame_def raw_frame.defs)
  ultimately show ?thesis by (simp add: ProjectPublic_def c sample_normal PublicEligible_def AllowsSignal_def filterSignals_def Let_def)
qed

theorem anonymous_projection_witness:
  "ProjectPublic (sample_frame\<lparr>rf_Obs := None, rf_RF := None, rf_Solution := None\<rparr>) =
     Some (sample_frame\<lparr>rf_Observer := sample_context, rf_RF := None, rf_Solution := None, rf_Source := AnonymousPublicSource, rf_Obs := None\<rparr>)"
proof -
  have "\<not> PublicAttributed (rf_Observer (sample_frame\<lparr>rf_Observer := sample_context, rf_RF := None, rf_Solution := None, rf_Source := AnonymousPublicSource, rf_Obs := None\<rparr>))"
    by (simp add: PublicAttributed_def sample_context_def identity_words)
  then show ?thesis using anonymous_projection [OF sample_projected] by blast
qed

theorem revoked_authority_gone_witness:
  "list_all (\<lambda>g. \<not> same_authority sample_context g)
     (contents (decodeLoop ''local'' (decoder0 ''local'' ([] :: dial_source list) 1) ([Apply sample_frame False True 11] @ [Revoke sample_context 12 13])))"
  by (rule revoked_authority_gone [OF sample_normal]) (simp add: sample_context_def NewPrivateContext_def LocalCollectorInstance_def)

end
