(* ===== verification/FederationPolicy.thy ===== *)
theory FederationPolicy
  imports ObserverContext GoTime
begin

text \<open>
  The gate for what leaves a collector towards a peer, \<^verbatim>\<open>go/internal/federation/policy.go\<close>: the evaluation of one observation against a directed grant and the validation of grants. Data
  classes, attributions and trust are the strings of the code.
\<close>

section \<open>Requests and grants\<close>

definition DataAggregate :: string where "DataAggregate = ''aggregate''"
definition DataDecoded :: string where "DataDecoded = ''decoded''"
definition DataRaw :: string where "DataRaw = ''raw''"
definition DataSignedRaw :: string where "DataSignedRaw = ''signed_raw''"
definition DataCertDirectory :: string where "DataCertDirectory = ''cert_directory''"
definition AttributionAnonymous :: string where "AttributionAnonymous = ''anonymous''"
definition AttributionOriginID :: string where "AttributionOriginID = ''origin_id''"
definition AttributionFullProvenance :: string where "AttributionFullProvenance = ''full_provenance''"
definition TrustLocal :: string where "TrustLocal = ''local''"
definition TrustTrusted :: string where "TrustTrusted = ''trusted''"
definition TrustReadOnly :: string where "TrustReadOnly = ''read_only''"
definition TrustPending :: string where "TrustPending = ''pending''"
definition TrustRevoked :: string where "TrustRevoked = ''revoked''"
definition DefaultMaxPeerHops :: int where "DefaultMaxPeerHops = 8"

lemmas federation_words = DataAggregate_def DataDecoded_def DataRaw_def DataSignedRaw_def DataCertDirectory_def AttributionAnonymous_def AttributionOriginID_def AttributionFullProvenance_def
  TrustLocal_def TrustTrusted_def TrustReadOnly_def TrustPending_def TrustRevoked_def

record observation =
  ob_Context :: observer_context
  ob_LocalCollectorInstanceID :: string
  ob_MaxPeerHops :: int
  ob_OriginPeerID :: string
  ob_ReceivedTrust :: string
  ob_Path :: "string list"
  ob_GnssID :: int
  ob_SigID :: int
  ob_EndToEndObserverSigned :: bool

record export_grant =
  eg_SourceCollectorInstanceID :: string
  eg_DestinationPeerID :: string
  eg_OrganizationIDs :: "string list"
  eg_CollectionIDs :: "string list"
  eg_ObserverIDs :: "string list"
  eg_Signals :: "signal list"
  eg_DataClasses :: "string list"
  eg_MaxAttribution :: string
  eg_MaxRetention :: duration
  eg_Purposes :: "string list"
  eg_ValidFrom :: time
  eg_ValidUntil :: time
  eg_ApprovedBy :: string
  eg_Revision :: string
  eg_Enabled :: bool

record export_request =
  er_DestinationPeerID :: string
  er_DataClass :: string
  er_Attribution :: string
  er_Retention :: duration
  er_Purpose :: string

datatype denial = InvalidReceipt context_error | InvalidCurrent context_error | Denied string

record decision =
  de_Allowed :: bool
  de_Reason :: "denial option"
  de_EffectiveAttribution :: string
  de_PreservesEndToEndSignature :: bool
  de_HardwareAuthenticated :: bool

definition deny :: "denial \<Rightarrow> decision" where
  "deny reason = \<lparr>de_Allowed = False, de_Reason = Some reason, de_EffectiveAttribution = [], de_PreservesEndToEndSignature = False, de_HardwareAuthenticated = False\<rparr>"

definition attributionRank :: "string \<Rightarrow> int" where
  "attributionRank a = (if a = AttributionAnonymous then 0 else if a = AttributionOriginID then 1 else if a = AttributionFullProvenance then 2 else - 1)"

definition containsString :: "string list \<Rightarrow> string \<Rightarrow> bool" where
  "containsString haystack needle = list_ex (\<lambda>value. value = needle) haystack"

definition containsDataClass :: "string list \<Rightarrow> string \<Rightarrow> bool" where
  "containsDataClass haystack needle = list_ex (\<lambda>value. value = needle) haystack"

definition grant_allowsSignal :: "signal list \<Rightarrow> int \<Rightarrow> int \<Rightarrow> bool" where
  "grant_allowsSignal signals gnssID sigID \<longleftrightarrow> length signals = 0 \<or> list_ex (\<lambda>s. Canonical s = Canonical \<lparr>GnssID = gnssID, SigID = sigID\<rparr>) signals"

definition matchesSource :: "export_grant \<Rightarrow> observer_context \<Rightarrow> bool" where
  "matchesSource grant c =
     (if length (eg_OrganizationIDs grant) + length (eg_CollectionIDs grant) + length (eg_ObserverIDs grant) = 0 then False
      else if containsString (eg_OrganizationIDs grant) (OrganizationID c) \<or> containsString (eg_ObserverIDs grant) (ObserverID c) then True
      else list_ex (containsString (eg_CollectionIDs grant)) (CollectionIDs c))"

definition policyAllows :: "publication_policy \<Rightarrow> export_request \<Rightarrow> string \<Rightarrow> bool" where
  "policyAllows policy request peer =
     (if er_DataClass request = DataAggregate
      then if AggregateUse policy = AggregatePrivate \<and> \<not> NamesFederationPeer policy peer then False
           else if AggregateUse policy = AggregatePublicAnonymous \<and> er_Attribution request \<noteq> AttributionAnonymous then False
           else True
      else if er_DataClass request \<in> {DataDecoded, DataRaw, DataSignedRaw, DataCertDirectory}
      then if RawExport policy = RawExportPublic then True
           else if RawExport policy = RawExportNamedPeers then NamesFederationPeer policy peer
           else False
      else False)"

section \<open>Evaluation\<close>

text \<open>The refusals in the order of the code, each with its condition; the path is searched hop by hop.\<close>

fun path_denial :: "string \<Rightarrow> string \<Rightarrow> string list \<Rightarrow> string option" where
  "path_denial localCollector destination [] = None"
| "path_denial localCollector destination (hop # hops) =
     (if hop = localCollector then Some ''federation path has already traversed this collector''
      else if hop = destination then Some ''federation path would loop to destination''
      else path_denial localCollector destination hops)"

definition denied_if :: "bool \<Rightarrow> string \<Rightarrow> string option" where
  "denied_if b reason = (if b then Some reason else None)"

definition grant_denials :: "time \<Rightarrow> observation \<Rightarrow> export_grant \<Rightarrow> export_request \<Rightarrow> string option list" where
  "grant_denials now observation grant request =
     [denied_if (er_DestinationPeerID request = [] \<or> er_DestinationPeerID request \<noteq> eg_DestinationPeerID grant) ''destination has no matching export grant'',
      denied_if (ob_LocalCollectorInstanceID observation = []) ''local collector instance is not established'',
      denied_if (eg_SourceCollectorInstanceID grant \<noteq> ob_LocalCollectorInstanceID observation) ''grant belongs to a different source collector'',
      denied_if (\<not> eg_Enabled grant) ''export grant is disabled'',
      denied_if (eg_ValidFrom grant \<noteq> 0 \<and> now < eg_ValidFrom grant) ''export grant is not yet valid'',
      denied_if (eg_ValidUntil grant \<noteq> 0 \<and> \<not> now < eg_ValidUntil grant) ''export grant has expired'',
      denied_if (eg_Revision grant = [] \<or> eg_ApprovedBy grant = []) ''export grant lacks approval provenance'',
      denied_if (ob_ReceivedTrust observation \<in> {TrustPending, TrustRevoked}) ''observation is quarantined by inbound trust'',
      denied_if (ob_ReceivedTrust observation \<notin> {TrustLocal, TrustTrusted, TrustReadOnly}) ''observation has unknown inbound provenance'',
      denied_if (int (length (ob_Path observation)) \<ge> (if ob_MaxPeerHops observation \<le> 0 then DefaultMaxPeerHops else ob_MaxPeerHops observation))
        ''federation path exceeds the peer hop cap'',
      path_denial (ob_LocalCollectorInstanceID observation) (er_DestinationPeerID request) (ob_Path observation)]"

definition source_denials :: "observation \<Rightarrow> observer_context \<Rightarrow> observer_context \<Rightarrow> export_grant \<Rightarrow> export_request \<Rightarrow> string option list" where
  "source_denials observation receipt current grant request =
     [denied_if (\<not> matchesSource grant receipt) ''grant does not select the receipt-time organization, collection, or observer'',
      denied_if (\<not> matchesSource grant current) ''grant does not select the observer's current organization, collection, or observer'',
      denied_if (\<not> containsDataClass (eg_DataClasses grant) (er_DataClass request)) ''requested data class is not granted'',
      denied_if (\<not> grant_allowsSignal (eg_Signals grant) (ob_GnssID observation) (ob_SigID observation)) ''signal is not granted'',
      denied_if (\<not> AllowsSignal (Publication receipt) (ob_GnssID observation) (ob_SigID observation) \<or> \<not> AllowsSignal (Publication current) (ob_GnssID observation) (ob_SigID observation))
        ''signal is excluded by receipt or current source policy'',
      denied_if (\<not> containsString (eg_Purposes grant) (er_Purpose request) \<or> er_Purpose request = []) ''purpose is not granted'',
      denied_if (er_Retention request \<le> 0 \<or> eg_MaxRetention grant \<le> 0 \<or> er_Retention request > eg_MaxRetention grant) ''retention exceeds the destination grant'',
      denied_if (attributionRank (er_Attribution request) < 0 \<or> attributionRank (er_Attribution request) > attributionRank (eg_MaxAttribution grant))
        ''requested attribution exceeds the destination grant'',
      denied_if (\<not> policyAllows (Publication receipt) request (er_DestinationPeerID request) \<or> \<not> policyAllows (Publication current) request (er_DestinationPeerID request))
        ''receipt or current source policy denies this export'',
      denied_if (er_DataClass request = DataSignedRaw \<and> er_Attribution request \<noteq> AttributionFullProvenance)
        ''signed_raw requires full provenance; signatures cannot be anonymized honestly'',
      denied_if (er_DataClass request = DataSignedRaw \<and> \<not> ob_EndToEndObserverSigned observation) ''signed_raw requested without an end-to-end observer signature'',
      denied_if (er_DataClass request = DataCertDirectory \<and> er_Attribution request \<noteq> AttributionFullProvenance) ''certificate directory export requires full provenance'']"

fun first_denial :: "string option list \<Rightarrow> string option" where
  "first_denial [] = None"
| "first_denial (Some r # rs) = Some r"
| "first_denial (None # rs) = first_denial rs"

definition EvaluateExport :: "time \<Rightarrow> observation \<Rightarrow> observer_context \<Rightarrow> export_grant \<Rightarrow> export_request \<Rightarrow> decision" where
  "EvaluateExport now observation current grant request =
     (case Normalize (ob_Context observation) of Inl e \<Rightarrow> deny (InvalidReceipt e)
      | Inr receipt \<Rightarrow>
          (case Normalize current of Inl e \<Rightarrow> deny (InvalidCurrent e)
           | Inr currentContext \<Rightarrow>
               if ObserverID currentContext \<noteq> ObserverID receipt then deny (Denied ''current context identifies a different observer than the receipt'')
               else case first_denial (grant_denials now observation grant request @ source_denials observation receipt currentContext grant request) of
                 Some reason \<Rightarrow> deny (Denied reason)
               | None \<Rightarrow>
                   let preserveSignature = (er_DataClass request = DataSignedRaw \<and> ob_EndToEndObserverSigned observation)
                   in \<lparr>de_Allowed = True, de_Reason = None, de_EffectiveAttribution = er_Attribution request, de_PreservesEndToEndSignature = preserveSignature,
                       de_HardwareAuthenticated = (preserveSignature \<and> CredentialTier receipt = CredentialHardwareMTLS \<and> AttestationTier receipt \<noteq> AttestationNone)\<rparr>))"

section \<open>Validation\<close>

text \<open>Refusals of a grant. Where the code ranges over a map of named fields the first one refused depends on the map's order; the refusal does not name it.\<close>

datatype grant_error = GrantIdInvalid | GrantWithoutSource | GrantToItself | SelectorInvalid | GrantWithoutClass | ClassInvalid string | ClassDuplicated string | AttributionInvalid | RetentionInvalid
  | GrantWithoutPurpose | ValidityInvalid | GrantSignal context_error

fun check_classes :: "string list \<Rightarrow> string list \<Rightarrow> grant_error option" where
  "check_classes seen [] = None"
| "check_classes seen (c # cs) =
     (if \<not> containsDataClass [DataAggregate, DataDecoded, DataRaw, DataSignedRaw, DataCertDirectory] c then Some (ClassInvalid c)
      else if c \<in> set seen then Some (ClassDuplicated c) else check_classes (c # seen) cs)"

definition ValidateGrant :: "export_grant \<Rightarrow> grant_error option" where
  "ValidateGrant g =
     (if \<not> list_all ValidScopeID [eg_SourceCollectorInstanceID g, eg_DestinationPeerID g, eg_ApprovedBy g, eg_Revision g] then Some GrantIdInvalid
      else if length (eg_OrganizationIDs g) + length (eg_CollectionIDs g) + length (eg_ObserverIDs g) = 0 then Some GrantWithoutSource
      else if eg_SourceCollectorInstanceID g = eg_DestinationPeerID g then Some GrantToItself
      else if \<not> list_all (\<lambda>values. check_ids ''selector'' [] values = None) [eg_OrganizationIDs g, eg_CollectionIDs g, eg_ObserverIDs g, eg_Purposes g] then Some SelectorInvalid
      else if length (eg_DataClasses g) = 0 then Some GrantWithoutClass
      else case check_classes [] (eg_DataClasses g) of Some e \<Rightarrow> Some e
      | None \<Rightarrow>
          if attributionRank (eg_MaxAttribution g) < 0 then Some AttributionInvalid
          else if eg_MaxRetention g \<le> 0 then Some RetentionInvalid
          else if length (eg_Purposes g) = 0 then Some GrantWithoutPurpose
          else if eg_ValidUntil g \<noteq> 0 \<and> eg_ValidFrom g \<noteq> 0 \<and> \<not> eg_ValidUntil g > eg_ValidFrom g then Some ValidityInvalid
          else map_option GrantSignal (check_signals ''grant'' [] (eg_Signals g)))"

section \<open>What the gate promises\<close>

lemma first_denial_None: "first_denial rs = None \<longleftrightarrow> list_all (\<lambda>r. r = None) rs"
  by (induction rs rule: first_denial.induct) auto

lemma denied_if_None [simp]: "denied_if b r = None \<longleftrightarrow> \<not> b"
  by (simp add: denied_if_def)


text \<open>Everything the gate asks that does not depend on a context.\<close>

definition grant_covers :: "time \<Rightarrow> observation \<Rightarrow> export_grant \<Rightarrow> export_request \<Rightarrow> bool" where
  "grant_covers now ob grant request \<longleftrightarrow>
     list_all (\<lambda>r. r = None) (grant_denials now ob grant request) \<and> containsDataClass (eg_DataClasses grant) (er_DataClass request) \<and>
     grant_allowsSignal (eg_Signals grant) (ob_GnssID ob) (ob_SigID ob) \<and> containsString (eg_Purposes grant) (er_Purpose request) \<and> 0 < length (er_Purpose request) \<and>
     0 < er_Retention request \<and> er_Retention request \<le> eg_MaxRetention grant \<and>
     0 \<le> attributionRank (er_Attribution request) \<and> attributionRank (er_Attribution request) \<le> attributionRank (eg_MaxAttribution grant) \<and>
     (er_DataClass request = DataSignedRaw \<longrightarrow> er_Attribution request = AttributionFullProvenance \<and> ob_EndToEndObserverSigned ob) \<and>
     (er_DataClass request = DataCertDirectory \<longrightarrow> er_Attribution request = AttributionFullProvenance)"

text \<open>What one context of the observer permits.\<close>

definition context_permits :: "observation \<Rightarrow> export_grant \<Rightarrow> export_request \<Rightarrow> observer_context \<Rightarrow> bool" where
  "context_permits ob grant request c \<longleftrightarrow>
     matchesSource grant c \<and> AllowsSignal (Publication c) (ob_GnssID ob) (ob_SigID ob) \<and> policyAllows (Publication c) request (er_DestinationPeerID request)"

lemma EvaluateExport_allowed:
  "de_Allowed (EvaluateExport now ob current grant request) \<longleftrightarrow>
     (case (Normalize (ob_Context ob), Normalize current) of
        (Inr r, Inr c) \<Rightarrow> ObserverID c = ObserverID r \<and> grant_covers now ob grant request \<and> context_permits ob grant request r \<and> context_permits ob grant request c
      | _ \<Rightarrow> False)"
proof (cases "\<exists>r c. Normalize (ob_Context ob) = Inr r \<and> Normalize current = Inr c")
  case False
  then show ?thesis by (auto simp: EvaluateExport_def deny_def split: sum.splits)
next
  case True
  then obtain r c where n: "Normalize (ob_Context ob) = Inr r" "Normalize current = Inr c" by blast
  have "list_all (\<lambda>r. r = None) (grant_denials now ob grant request @ source_denials ob r c grant request) \<longleftrightarrow>
      grant_covers now ob grant request \<and> context_permits ob grant request r \<and> context_permits ob grant request c"
    unfolding list_all_append grant_covers_def context_permits_def source_denials_def by auto
  moreover have "de_Allowed (EvaluateExport now ob current grant request) \<longleftrightarrow>
      ObserverID c = ObserverID r \<and> first_denial (grant_denials now ob grant request @ source_denials ob r c grant request) = None"
    by (simp add: EvaluateExport_def n deny_def Let_def split: option.split)
  ultimately show ?thesis by (simp add: n first_denial_None)
qed

text \<open>C19: an export is the intersection of two authorities. The gate allows it exactly when it would allow it with the receipt-time context as the current one, and for an observation received under
  the current context, and both name the same observer. So a change of policy or membership can only narrow what was received before it, and never opens what was received in private.\<close>

theorem export_intersection:
  "de_Allowed (EvaluateExport now ob current grant request) \<longleftrightarrow>
     de_Allowed (EvaluateExport now ob (ob_Context ob) grant request) \<and> de_Allowed (EvaluateExport now (ob\<lparr>ob_Context := current\<rparr>) current grant request) \<and>
     ObserverID current = ObserverID (ob_Context ob)"
proof -
  have g: "grant_covers now (ob\<lparr>ob_Context := current\<rparr>) grant request = grant_covers now ob grant request" by (simp add: grant_covers_def grant_denials_def)
  have p: "context_permits (ob\<lparr>ob_Context := current\<rparr>) grant request = context_permits ob grant request" by (simp add: context_permits_def fun_eq_iff)
  have n: "Normalize c = Inr d \<Longrightarrow> ObserverID d = ObserverID c" for c d by (simp add: Normalize_Inr normalize_fill_def)
  show ?thesis unfolding EvaluateExport_allowed
    by (cases "Normalize (ob_Context ob)"; cases "Normalize current") (auto simp: g p n)
qed








end
