(* ===== verification/UpdateManager.thy ===== *)
theory UpdateManager
  imports ObserverContext Wire GoTime AssocLists
begin

text \<open>
  Remote updates as an operator requests them and a device reports them: \<^verbatim>\<open>go/internal/updates/manager.go\<close>, the handler of \<^verbatim>\<open>http.go\<close>, and the status body of
  \<^verbatim>\<open>go/internal/wire/update.go\<close>. A map of the code is an association list with one entry per key, an absent entry the zero value. Each operation takes the clock readings it makes, in
  order, and each commit what the storage does with it. The state file is the records it holds, with the properties the loader looks at: the JSON encoding is taken to keep the records it
  writes, and the number of bytes it takes is the argument \<open>bytes\<close>. SHA-256 is the argument \<open>sha256\<close>. Metrics and log lines are left out.
\<close>

section \<open>Standard library\<close>

text \<open>\<^verbatim>\<open>Time.Unix\<close> and \<^verbatim>\<open>Time.UnixNano\<close>, converted to \<^verbatim>\<open>uint64\<close>; a time counts from Go's zero time, 62135596800 seconds before 1970.\<close>

definition unix_epoch :: time where "unix_epoch = 62135596800 * Second"
definition Unix :: "time \<Rightarrow> u64" where "Unix t = word_of_int ((t - unix_epoch) div Second)"
definition UnixNano :: "time \<Rightarrow> u64" where "UnixNano t = word_of_int (t - unix_epoch)"
definition Hour :: duration where "Hour = 60 * Minute"

text \<open>\<^verbatim>\<open>encoding/hex\<close>.\<close>

definition hex_char :: "nat \<Rightarrow> char" where
  "hex_char n = (if n < 10 then char_of (48 + n) else char_of (87 + n))"

definition hex_EncodeToString :: "u8 list \<Rightarrow> string" where
  "hex_EncodeToString bs = concat (map (\<lambda>b. [hex_char (unat b div 16), hex_char (unat b mod 16)]) bs)"

definition fromHexChar :: "char \<Rightarrow> nat option" where
  "fromHexChar c =
     (if between (CHR ''0'') (CHR ''9'') c then Some (of_char c - 48)
      else if between (CHR ''a'') (CHR ''f'') c then Some (of_char c - 87)
      else if between (CHR ''A'') (CHR ''F'') c then Some (of_char c - 55)
      else None)"

fun hex_DecodeString :: "string \<Rightarrow> u8 list option" where
  "hex_DecodeString [] = Some []"
| "hex_DecodeString [c] = None"
| "hex_DecodeString (c # d # s) =
     (case (fromHexChar c, fromHexChar d) of
        (Some a, Some b) \<Rightarrow> (case hex_DecodeString s of None \<Rightarrow> None | Some bs \<Rightarrow> Some (of_nat (16 * a + b) # bs))
      | _ \<Rightarrow> None)"

text \<open>The string literal \<^verbatim>\<open>json.Marshal\<close> writes: the bytes of the string with the characters JSON and HTML reserve escaped, the two line separators U+2028 and U+2029 too, and each byte that
  does not begin a well-formed UTF-8 sequence replaced. \<open>rune_length\<close> is the length of the sequence at the head, 0 where there is none.\<close>

definition rune_length :: "string \<Rightarrow> nat" where
  "rune_length s =
     (case s of [] \<Rightarrow> 0
      | a # t \<Rightarrow>
        if between (CHR 0x00) (CHR 0x7F) a then 1
        else if between (CHR 0xC2) (CHR 0xDF) a then (case t of b # _ \<Rightarrow> if utf8_tail b then 2 else 0 | _ \<Rightarrow> 0)
        else if between (CHR 0xE0) (CHR 0xEF) a then
          (case t of b # c # _ \<Rightarrow> if utf8_tail b \<and> utf8_tail c \<and> (a = CHR 0xE0 \<longrightarrow> CHR 0xA0 \<le> b) \<and> (a = CHR 0xED \<longrightarrow> b \<le> CHR 0x9F) then 3 else 0 | _ \<Rightarrow> 0)
        else if between (CHR 0xF0) (CHR 0xF4) a then
          (case t of b # c # d # _ \<Rightarrow> if utf8_tail b \<and> utf8_tail c \<and> utf8_tail d \<and> (a = CHR 0xF0 \<longrightarrow> CHR 0x90 \<le> b) \<and> (a = CHR 0xF4 \<longrightarrow> b \<le> CHR 0x8F) then 4 else 0 | _ \<Rightarrow> 0)
        else 0)"

definition hex_escape :: "nat \<Rightarrow> string" where
  "hex_escape n = CHR 0x5C # ''u'' @ map hex_char [n div 4096 mod 16, n div 256 mod 16, n div 16 mod 16, n mod 16]"

definition json_ascii :: "char \<Rightarrow> string" where
  "json_ascii c =
     (if c = CHR 0x5C \<or> c = CHR 0x22 then [CHR 0x5C, c]
      else if c = CHR 0x08 then [CHR 0x5C, CHR ''b''] else if c = CHR 0x0C then [CHR 0x5C, CHR ''f'']
      else if c = CHR 0x0A then [CHR 0x5C, CHR ''n''] else if c = CHR 0x0D then [CHR 0x5C, CHR ''r''] else if c = CHR 0x09 then [CHR 0x5C, CHR ''t'']
      else if c < CHR 0x20 \<or> c = CHR ''<'' \<or> c = CHR ''>'' \<or> c = CHR ''&'' then hex_escape (of_char c)
      else [c])"

function json_escape :: "string \<Rightarrow> string" where
  "json_escape [] = []"
| "json_escape (a # t) =
     (if a < CHR 0x80 then json_ascii a @ json_escape t
      else if rune_length (a # t) = 0 then hex_escape 0xFFFD @ json_escape t
      else (if take 3 (a # t) = [CHR 0xE2, CHR 0x80, CHR 0xA8] then hex_escape 0x2028
            else if take 3 (a # t) = [CHR 0xE2, CHR 0x80, CHR 0xA9] then hex_escape 0x2029
            else take (rune_length (a # t)) (a # t)) @ json_escape (drop (rune_length (a # t)) (a # t)))"
  by pat_completeness auto
termination by (relation "measure length") auto

definition json_string :: "string \<Rightarrow> string" where
  "json_string s = CHR 0x22 # json_escape s @ [CHR 0x22]"

declare json_escape.simps(2) [simp del]

text \<open>\<^verbatim>\<open>filepath.IsAbs\<close> and \<^verbatim>\<open>filepath.Clean\<close> on Unix.\<close>

fun split_path :: "string \<Rightarrow> string \<Rightarrow> string list" where
  "split_path acc [] = [rev acc]"
| "split_path acc (c # s) = (if c = CHR ''/'' then rev acc # split_path [] s else split_path (c # acc) s)"

definition path_IsAbs :: "string \<Rightarrow> bool" where
  "path_IsAbs s \<longleftrightarrow> (case s of [] \<Rightarrow> False | c # _ \<Rightarrow> c = CHR ''/'')"

fun clean_elements :: "bool \<Rightarrow> string list \<Rightarrow> string list \<Rightarrow> string list" where
  "clean_elements rooted out [] = rev out"
| "clean_elements rooted out (e # es) =
     (if e = [] \<or> e = ''.'' then clean_elements rooted out es
      else if e = ''..'' then
        (case out of [] \<Rightarrow> clean_elements rooted (if rooted then [] else [e]) es
         | x # xs \<Rightarrow> clean_elements rooted (if x = ''..'' then e # out else xs) es)
      else clean_elements rooted (e # out) es)"

fun join_path :: "string list \<Rightarrow> string" where
  "join_path [] = []"
| "join_path [e] = e"
| "join_path (e # es) = e @ ''/'' @ join_path es"

definition path_Clean :: "string \<Rightarrow> string" where
  "path_Clean s =
     (let body = join_path (clean_elements (path_IsAbs s) [] (split_path [] s))
      in if path_IsAbs s then ''/'' @ body else if body = [] then ''.'' else body)"

section \<open>The status a device reports\<close>

record update_status =
  us_Mode :: string
  us_Channel :: string
  us_State :: string
  us_Security :: u8
  us_Profile :: string
  us_Layout :: u16
  us_Running :: u64
  us_Available :: u64
  us_Staged :: u64
  us_Failed :: u64
  us_Received :: u32
  us_Total :: u32
  us_LastCheck :: u64
  us_NextCheck :: u64
  us_LastCommand :: u64
  us_ErrorDomain :: u16
  us_ErrorReason :: u16
  us_Error :: string
  us_BootKey :: string
  us_ReleaseKey :: string

definition TrustProfiles :: "string list" where
  "TrustProfiles = [''unreported'', ''trusted'', ''open'', ''test'']"

definition UpdateErrorName :: "u16 \<Rightarrow> u16 \<Rightarrow> string" where
  "UpdateErrorName domain reason =
     (case map_of
        [(0, ''OK''), (65537, ''NETWORK_UNAVAILABLE''), (65538, ''NETWORK_NOT_FOUND''), (65539, ''NETWORK_TIME_UNAVAILABLE''), (131073, ''META_MALFORMED''),
         (131074, ''META_BAD_SIGNATURE''), (131075, ''META_EXPIRED''), (131076, ''META_REPLAY''), (131077, ''META_TRUST_UNCONFIGURED''), (131078, ''META_ROOT_ROTATION_PENDING''),
         (196609, ''ELIGIBILITY_HARDWARE_UNKNOWN''), (196610, ''ELIGIBILITY_INCOMPATIBLE''), (196611, ''ELIGIBILITY_ROLLOUT_EXCLUDED''), (262145, ''ARTIFACT_BAD_SIGNATURE''),
         (327681, ''STORAGE_UNAVAILABLE''), (393217, ''SAFETY_DURABILITY_UNAVAILABLE''), (393218, ''SAFETY_ACK_TIMEOUT''), (458753, ''TRIAL_ROLLED_BACK'')]
        (push_bit 16 (ucast domain) OR ucast reason :: u32) of
        Some name \<Rightarrow> name | None \<Rightarrow> ''UPDATE_UNKNOWN_ERROR'')"

datatype status_error = StatusFraming | StatusFields

definition DecodeUpdateStatus :: "u8 list \<Rightarrow> status_error + update_status" where
  "DecodeUpdateStatus p =
     (let u16_at = (\<lambda>n. Uint16 (drop n p)); u32_at = (\<lambda>n. Uint32 (take 4 (drop n p))); u64_at = (\<lambda>n. Uint64 (take 8 (drop n p)))
      in if length p \<noteq> 140 \<or> p ! 0 \<noteq> 1 \<or> p ! 1 < 1 \<or> p ! 1 > 3 \<or> p ! 2 < 1 \<or> p ! 2 > 3 \<or> p ! 3 > 11 \<or> p ! 4 AND NOT 31 \<noteq> 0 \<or> unat (p ! 5) \<ge> length TrustProfiles
         then Inl StatusFraming
         else if u16_at 72 > 7 \<or> (u16_at 72 = 0) \<noteq> (u16_at 74 = 0) \<or> u32_at 44 > 0x400000 \<or> u32_at 40 > u32_at 44 then Inl StatusFields
         else Inr
           \<lparr>us_Mode = [''manual'', ''download'', ''install''] ! unat (p ! 1 - 1), us_Channel = [''stable'', ''canary'', ''lab''] ! unat (p ! 2 - 1),
            us_State = [''idle'', ''checking'', ''available'', ''downloading'', ''staged'', ''waiting-safe'', ''quiescing'', ''reboot-pending'', ''trial-boot'', ''confirmed'',
                        ''rolled-back'', ''failed''] ! unat (p ! 3),
            us_Security = p ! 4, us_Profile = TrustProfiles ! unat (p ! 5), us_Layout = u16_at 6, us_Running = u64_at 8, us_Available = u64_at 16, us_Staged = u64_at 24, us_Failed = u64_at 32,
            us_Received = u32_at 40, us_Total = u32_at 44, us_LastCheck = u64_at 48, us_NextCheck = u64_at 56, us_LastCommand = u64_at 64, us_ErrorDomain = u16_at 72,
            us_ErrorReason = u16_at 74, us_Error = UpdateErrorName (u16_at 72) (u16_at 74), us_BootKey = hex_EncodeToString (take 32 (drop 76 p)),
            us_ReleaseKey = hex_EncodeToString (take 32 (drop 108 p))\<rparr>)"

section \<open>Configuration\<close>

record device =
  dv_Observer :: string
  dv_Enrollment :: string
  dv_Organization :: string
  dv_Collector :: string

definition device_key :: "device \<Rightarrow> string" where
  "device_key d =
     ''{'' @ json_string ''observer_id'' @ '':'' @ json_string (dv_Observer d) @ '','' @ json_string ''enrollment_id'' @ '':'' @ json_string (dv_Enrollment d) @ '','' @
     json_string ''organization_id'' @ '':'' @ json_string (dv_Organization d) @ '','' @ json_string ''collector_instance_id'' @ '':'' @ json_string (dv_Collector d) @ ''}''"

definition device_of :: "observer_context \<Rightarrow> device" where
  "device_of c = \<lparr>dv_Observer = ObserverID c, dv_Enrollment = EnrollmentID c, dv_Organization = OrganizationID c, dv_Collector = CollectorInstanceID c\<rparr>"

record update_principal =
  up_ID :: string
  up_TokenSHA256 :: string
  up_Devices :: "device list"

record update_config =
  uf_StateFile :: string
  uf_Repository :: string
  uf_OpenRepository :: string
  uf_Principals :: "update_principal list"

definition maxDevices :: nat where "maxDevices = 1024"
definition maxHistory :: nat where "maxHistory = 32"
definition maxStateBytes :: nat where "maxStateBytes = 16 * 2 ^ 20"

datatype update_error =
    NeedsStateFile | PathsOrPrincipals | SharedRepository | InvalidPrincipal | AmbiguousGrant | TooManyDevices nat
  | StateUnreadable | StateNotRegular | StateNotPrivate | StateMalformed | StateDeviceLimit | StateRecordInvalid
  | StateCapacity | StateBytes | StateStorage | CommitUncertain
  | RequestReused | NoTelemetry | RequestPending | CommandExhausted | RequestInvalid

fun check_devices :: "string list \<Rightarrow> device list \<Rightarrow> bool" where
  "check_devices seen [] \<longleftrightarrow> True"
| "check_devices seen (d # ds) \<longleftrightarrow>
     \<not> (\<not> ValidOpaqueObserverID (dv_Observer d) \<or> length (dv_Observer d) > 256 \<or> \<not> ValidScopeID (dv_Enrollment d) \<or> \<not> ValidScopeID (dv_Organization d) \<or>
        \<not> ValidScopeID (dv_Collector d) \<or> dv_Observer d \<in> set seen) \<and> check_devices (dv_Observer d # seen) ds"

fun check_principals :: "string list \<Rightarrow> string list \<Rightarrow> update_principal list \<Rightarrow> update_error option" where
  "check_principals ids tokens [] = None"
| "check_principals ids tokens (p # ps) =
     (if \<not> ValidScopeID (up_ID p) \<or> up_ID p \<in> set ids \<or> up_TokenSHA256 p \<in> set tokens \<or>
         (case hex_DecodeString (up_TokenSHA256 p) of None \<Rightarrow> True | Some token \<Rightarrow> length token \<noteq> 32) \<or> length (up_Devices p) = 0 \<or> length (up_Devices p) > 128
      then Some InvalidPrincipal
      else if \<not> check_devices [] (up_Devices p) then Some AmbiguousGrant
      else check_principals (up_ID p # ids) (up_TokenSHA256 p # tokens) ps)"

definition granted_keys :: "update_config \<Rightarrow> string list" where
  "granted_keys c = remdups (map device_key (concat (map up_Devices (uf_Principals c))))"

definition update_Validate :: "update_config \<Rightarrow> update_error option" where
  "update_Validate c =
     (if uf_StateFile c = [] then
        if length (uf_Principals c) > 0 \<or> uf_Repository c \<noteq> [] \<or> uf_OpenRepository c \<noteq> [] then Some NeedsStateFile else None
      else if \<not> path_IsAbs (uf_StateFile c) \<or> (uf_Repository c = [] \<and> uf_OpenRepository c = []) \<or> length (uf_Principals c) = 0 \<or> length (uf_Principals c) > 128
      then Some PathsOrPrincipals
      else if \<not> list_all (\<lambda>r. r \<noteq> [] \<longrightarrow> path_IsAbs r) [uf_Repository c, uf_OpenRepository c] then Some PathsOrPrincipals
      else if uf_Repository c \<noteq> [] \<and> path_Clean (uf_Repository c) = path_Clean (uf_OpenRepository c) then Some SharedRepository
      else case check_principals [] [] (uf_Principals c) of Some e \<Rightarrow> Some e
        | None \<Rightarrow> if length (granted_keys c) > maxDevices then Some (TooManyDevices (length (granted_keys c))) else None)"

section \<open>The manager\<close>

record update_transition =
  ut_At :: time
  ut_Status :: update_status
  ut_HardwareTrust :: string

record request_audit =
  ra_ID :: string
  ra_Actor :: string
  ra_Created :: time
  ra_Command :: update_command

record update_record =
  ur_Device :: device
  ur_Command :: update_command
  ur_RequestID :: string
  ur_Actor :: string
  ur_Created :: time
  ur_Status :: "update_status option"
  ur_HardwareTrust :: string
  ur_Received :: time
  ur_Session :: string
  ur_Sequence :: u64
  ur_Transitions :: "update_transition list"
  ur_Requests :: "request_audit list"

type_synonym update_records = "(string \<times> update_record) list"

definition no_record :: update_record where
  "no_record =
     \<lparr>ur_Device = \<lparr>dv_Observer = [], dv_Enrollment = [], dv_Organization = [], dv_Collector = []\<rparr>,
      ur_Command = \<lparr>uc_Action = 0, uc_Hint = False, uc_ID = 0, uc_Generation = 0, uc_Release = 0, uc_Expires = 0\<rparr>,
      ur_RequestID = [], ur_Actor = [], ur_Created = 0, ur_Status = None, ur_HardwareTrust = [], ur_Received = 0, ur_Session = [], ur_Sequence = 0, ur_Transitions = [], ur_Requests = []\<rparr>"

definition record_at :: "update_records \<Rightarrow> string \<Rightarrow> update_record" where
  "record_at rs key = (case map_of rs key of Some r \<Rightarrow> r | None \<Rightarrow> no_record)"

record update_manager =
  um_config :: update_config
  um_records :: update_records
  um_active :: "(string \<times> string) list"
  um_fault :: bool
  um_verifies :: bool

text \<open>What is found at the path of the state file: nothing, a file that cannot be examined or read, or a file with its kind, bytes and privacy and the records it parses to.\<close>

datatype state_file = Absent | Unreadable | Stored (st_regular: bool) (st_size: nat) (st_private: bool) (st_records: "update_records option")

definition record_loads :: "string \<times> update_record \<Rightarrow> bool" where
  "record_loads kr \<longleftrightarrow> (case kr of (key, r) \<Rightarrow>
     \<not> (key \<noteq> device_key (ur_Device r) \<or> length (ur_Transitions r) > maxHistory \<or> length (ur_Requests r) > maxHistory \<or> (uc_ID (ur_Command r) \<noteq> 0 \<and> \<not> update_Valid (ur_Command r))))"

definition loadRecords :: "state_file \<Rightarrow> update_error + update_records" where
  "loadRecords f =
     (case f of Absent \<Rightarrow> Inr []
      | Unreadable \<Rightarrow> Inl StateUnreadable
      | Stored regular bytes private data \<Rightarrow>
          if \<not> regular then Inl StateNotRegular
          else if bytes > maxStateBytes \<or> \<not> private then Inl StateNotPrivate
          else case data of None \<Rightarrow> Inl StateMalformed
            | Some rs \<Rightarrow> if length rs > maxDevices then Inl StateDeviceLimit else if \<not> list_all record_loads rs then Inl StateRecordInvalid else Inr rs)"

definition manager_of :: "update_config \<Rightarrow> update_records \<Rightarrow> update_manager" where
  "manager_of c rs = \<lparr>um_config = c, um_records = rs, um_active = [], um_fault = False, um_verifies = False\<rparr>"

text \<open>\<^verbatim>\<open>Open\<close>, once the directory and the lock file are there and the lock is taken; no manager without a state file.\<close>

definition update_Open :: "update_config \<Rightarrow> state_file \<Rightarrow> update_error + update_manager option" where
  "update_Open c f =
     (case update_Validate c of Some e \<Rightarrow> Inl e
      | None \<Rightarrow> if uf_StateFile c = [] then Inr None else case loadRecords f of Inl e \<Rightarrow> Inl e | Inr rs \<Rightarrow> Inr (Some (manager_of c rs)))"

definition update_Preflight :: "update_config \<Rightarrow> state_file \<Rightarrow> update_error option" where
  "update_Preflight c f = (if uf_StateFile c = [] then None else case loadRecords f of Inl e \<Rightarrow> Some e | Inr _ \<Rightarrow> None)"

definition SetHardwareVerification :: "bool \<Rightarrow> update_manager \<Rightarrow> update_manager" where
  "SetHardwareVerification on m = m\<lparr>um_verifies := on\<rparr>"

definition snapshotLocked :: "update_manager \<Rightarrow> string \<Rightarrow> update_record \<Rightarrow> update_error + update_records" where
  "snapshotLocked m key r =
     (if um_fault m then Inl CommitUncertain
      else if map_of (um_records m) key = None \<and> length (um_records m) \<ge> maxDevices then Inl StateCapacity
      else Inr (AList.update key r (um_records m)))"

text \<open>A commit: what can go wrong before the rename leaves everything as it was; a rename whose durability is uncertain closes the manager.\<close>

datatype storage = MarshalFails | WriteFails | RenameFails | SyncFails | Durable

definition commit_file :: "(update_records \<Rightarrow> nat) \<Rightarrow> update_records \<Rightarrow> state_file" where
  "commit_file bytes candidate = Stored True (bytes candidate) True (Some candidate)"

definition commit_publish :: "string \<Rightarrow> update_record \<Rightarrow> bool \<Rightarrow> update_manager \<Rightarrow> update_manager" where
  "commit_publish key r synced m = (if synced then m\<lparr>um_records := AList.update key r (um_records m)\<rparr> else m\<lparr>um_fault := True\<rparr>)"

definition update_commit ::
    "(update_records \<Rightarrow> nat) \<Rightarrow> storage \<Rightarrow> string \<Rightarrow> update_record \<Rightarrow> update_records \<Rightarrow> update_manager \<times> state_file \<Rightarrow> update_error option \<times> update_manager \<times> state_file" where
  "update_commit bytes disk key r candidate mf =
     (case mf of (m, f) \<Rightarrow>
        if disk = MarshalFails then (Some StateStorage, m, f)
        else if bytes candidate > maxStateBytes then (Some StateBytes, m, f)
        else if disk = WriteFails \<or> disk = RenameFails then (Some StateStorage, m, f)
        else (if disk = SyncFails then Some CommitUncertain else None, commit_publish key r (disk \<noteq> SyncFails) m, commit_file bytes candidate))"

definition update_authorized :: "(string \<Rightarrow> u8 list) \<Rightarrow> update_manager \<Rightarrow> string \<Rightarrow> string \<Rightarrow> (string \<times> device) option" where
  "update_authorized sha256 m token observer =
     (if length token < 32 \<or> length token > 512 then None
      else case [(up_ID p, d). p \<leftarrow> uf_Principals (um_config m), hex_DecodeString (up_TokenSHA256 p) = Some (sha256 token), d \<leftarrow> up_Devices p, dv_Observer d = observer] of
          [] \<Rightarrow> None | x # _ \<Rightarrow> Some x)"

definition update_enabled :: "update_manager \<Rightarrow> device \<Rightarrow> bool" where
  "update_enabled m d \<longleftrightarrow> list_ex (\<lambda>p. d \<in> set (up_Devices p)) (uf_Principals (um_config m))"

definition session_of :: "update_manager \<Rightarrow> string \<Rightarrow> string" where
  "session_of m key = (case map_of (um_active m) key of Some s \<Rightarrow> s | None \<Rightarrow> [])"

definition BeginSession :: "observer_context \<Rightarrow> string \<Rightarrow> update_manager \<Rightarrow> update_manager" where
  "BeginSession c session m =
     (let d = device_of c
      in if \<not> update_enabled m d then m
         else if length (um_active m) \<ge> maxDevices \<and> session_of m (device_key d) = [] then m
         else m\<lparr>um_active := AList.update (device_key d) session (um_active m)\<rparr>)"

definition accepted_command :: "update_record \<Rightarrow> bool" where
  "accepted_command r \<longleftrightarrow> (case ur_Status r of None \<Rightarrow> False | Some s \<Rightarrow> us_LastCommand s \<ge> uc_ID (ur_Command r))"

definition pending_command :: "update_manager \<Rightarrow> observer_context \<Rightarrow> time \<Rightarrow> update_command option" where
  "pending_command m c now =
     (let d = device_of c in
      case map_of (um_records m) (device_key d) of None \<Rightarrow> None
      | Some r \<Rightarrow> if um_fault m \<or> \<not> update_enabled m d \<or> uc_Expires (ur_Command r) \<le> Unix now \<or> uc_ID (ur_Command r) = 0 \<or> accepted_command r then None else Some (ur_Command r))"

definition Pending :: "update_manager \<Rightarrow> observer_context \<Rightarrow> time \<Rightarrow> u8 list" where
  "Pending m c now = (case pending_command m c now of None \<Rightarrow> [] | Some command \<Rightarrow> (case update_Encode command of Inl _ \<Rightarrow> [] | Inr b \<Rightarrow> b))"

section \<open>Reports\<close>

definition report_changed :: "update_status option \<Rightarrow> update_status \<Rightarrow> string \<Rightarrow> string \<Rightarrow> bool" where
  "report_changed previous status oldTrust trust \<longleftrightarrow>
     (case previous of None \<Rightarrow> True
      | Some p \<Rightarrow> us_Mode p \<noteq> us_Mode status \<or> us_Channel p \<noteq> us_Channel status \<or> us_State p \<noteq> us_State status \<or>
          us_Running p \<noteq> us_Running status \<or> us_Available p \<noteq> us_Available status \<or> us_Staged p \<noteq> us_Staged status \<or> us_Failed p \<noteq> us_Failed status \<or>
          us_Security p \<noteq> us_Security status \<or> us_Profile p \<noteq> us_Profile status \<or> us_Layout p \<noteq> us_Layout status \<or>
          us_ErrorDomain p \<noteq> us_ErrorDomain status \<or> us_ErrorReason p \<noteq> us_ErrorReason status \<or> us_Error p \<noteq> us_Error status \<or>
          us_LastCommand p \<noteq> us_LastCommand status \<or> us_BootKey p \<noteq> us_BootKey status \<or> us_ReleaseKey p \<noteq> us_ReleaseKey status \<or> oldTrust \<noteq> trust)"

definition keep_newest :: "'a list \<Rightarrow> 'a list" where
  "keep_newest xs = (if length xs > maxHistory then drop (length xs - maxHistory) xs else xs)"

definition report_trust :: "observer_context \<Rightarrow> string" where
  "report_trust c = (if HardwareTrust c = [] then HardwareTrustNone else HardwareTrust c)"

definition reported :: "observer_context \<Rightarrow> string \<Rightarrow> u64 \<Rightarrow> update_status \<Rightarrow> time \<Rightarrow> update_record \<Rightarrow> update_record" where
  "reported c session sequence status now r =
     r\<lparr>ur_Device := device_of c, ur_Session := session, ur_Sequence := sequence, ur_Received := now, ur_Status := Some status, ur_HardwareTrust := report_trust c\<rparr>"

text \<open>Both writers end under the lock with a result, or go on to a commit of a snapshot.\<close>

datatype 'a begun = Finished 'a update_manager | Committing string update_record update_records

definition report_begin :: "update_manager \<Rightarrow> observer_context \<Rightarrow> string \<Rightarrow> u64 \<Rightarrow> update_status \<Rightarrow> time \<times> time \<Rightarrow> update_error option begun" where
  "report_begin m c session sequence status clock =
     (let d = device_of c; key = device_key d; r = record_at (um_records m) key; r' = reported c session sequence status (fst clock) r;
          r'' = r'\<lparr>ur_Transitions := keep_newest (ur_Transitions r @ [\<lparr>ut_At = snd clock, ut_Status = status, ut_HardwareTrust = report_trust c\<rparr>])\<rparr>
      in if \<not> update_enabled m d \<or> session_of m key \<noteq> session \<or> session = [] then Finished None m
         else if ur_Session r = session \<and> sequence \<le> ur_Sequence r then Finished None m
         else if \<not> report_changed (ur_Status r) status (ur_HardwareTrust r) (report_trust c) then Finished None (m\<lparr>um_records := AList.update key r' (um_records m)\<rparr>)
         else case snapshotLocked m key r'' of Inl e \<Rightarrow> Finished (Some e) m | Inr candidate \<Rightarrow> Committing key r'' candidate)"

definition Report ::
    "(update_records \<Rightarrow> nat) \<Rightarrow> storage \<Rightarrow> observer_context \<Rightarrow> string \<Rightarrow> u64 \<Rightarrow> update_status \<Rightarrow> time \<times> time \<Rightarrow> update_manager \<times> state_file
      \<Rightarrow> update_error option \<times> update_manager \<times> state_file" where
  "Report bytes disk c session sequence status clock mf =
     (case mf of (m, f) \<Rightarrow>
        case report_begin m c session sequence status clock of Finished e m' \<Rightarrow> (e, m', f) | Committing key r candidate \<Rightarrow> update_commit bytes disk key r candidate (m, f))"

section \<open>Requests\<close>

record request_clock =
  rc_Pending :: time
  rc_Nano :: time
  rc_Expires :: time
  rc_Created :: time

definition same_arguments :: "string \<Rightarrow> update_command \<Rightarrow> string \<Rightarrow> update_command \<Rightarrow> bool" where
  "same_arguments actor command actor' command' \<longleftrightarrow>
     \<not> (actor' \<noteq> actor \<or> uc_Action command' \<noteq> uc_Action command \<or> uc_Hint command' \<noteq> uc_Hint command \<or> uc_Generation command' \<noteq> uc_Generation command \<or> uc_Release command' \<noteq> uc_Release command)"

definition replayed :: "request_audit \<Rightarrow> update_record \<Rightarrow> update_record" where
  "replayed previous r = r\<lparr>ur_Command := ra_Command previous, ur_RequestID := ra_ID previous, ur_Actor := ra_Actor previous, ur_Created := ra_Created previous\<rparr>"

definition command_floor :: "update_record \<Rightarrow> update_status \<Rightarrow> u64" where
  "command_floor r s = max (uc_ID (ur_Command r)) (us_LastCommand s)"

definition numbered_command :: "update_record \<Rightarrow> update_status \<Rightarrow> update_command \<Rightarrow> request_clock \<Rightarrow> update_command" where
  "numbered_command r s command clock =
     command\<lparr>uc_ID := max (command_floor r s + 1) (UnixNano (rc_Nano clock)), uc_Expires := Unix (rc_Expires clock + Hour)\<rparr>"

definition requested :: "device \<Rightarrow> string \<Rightarrow> string \<Rightarrow> update_command \<Rightarrow> time \<Rightarrow> update_record \<Rightarrow> update_record" where
  "requested d actor rid command now r =
     r\<lparr>ur_Device := d, ur_Command := command, ur_RequestID := rid, ur_Actor := actor, ur_Created := now,
       ur_Requests := keep_newest (ur_Requests r @ [\<lparr>ra_ID = rid, ra_Actor = actor, ra_Created = now, ra_Command = command\<rparr>])\<rparr>"

definition request_begin :: "update_manager \<Rightarrow> string \<Rightarrow> device \<Rightarrow> string \<Rightarrow> update_command \<Rightarrow> request_clock \<Rightarrow> (update_error + update_record) begun" where
  "request_begin m actor d rid command clock =
     (let key = device_key d; r = record_at (um_records m) key
      in case find (\<lambda>previous. ra_ID previous = rid) (ur_Requests r) of
         Some previous \<Rightarrow> Finished (if same_arguments actor command (ra_Actor previous) (ra_Command previous) then Inr (replayed previous r) else Inl RequestReused) m
       | None \<Rightarrow>
           if ur_RequestID r = rid \<and> uc_ID (ur_Command r) \<noteq> 0
           then Finished (if same_arguments actor command (ur_Actor r) (ur_Command r) then Inr r else Inl RequestReused) m
           else case ur_Status r of None \<Rightarrow> Finished (Inl NoTelemetry) m
           | Some s \<Rightarrow>
               if uc_ID (ur_Command r) \<noteq> 0 \<and> us_LastCommand s < uc_ID (ur_Command r) \<and> uc_Expires (ur_Command r) > Unix (rc_Pending clock) \<and> uc_Action command \<noteq> 4
               then Finished (Inl RequestPending) m
               else if command_floor r s = - 1 then Finished (Inl CommandExhausted) m
               else if \<not> update_Valid (numbered_command r s command clock) then Finished (Inl RequestInvalid) m
               else let r' = requested d actor rid (numbered_command r s command clock) (rc_Created clock) r
                    in case snapshotLocked m key r' of Inl e \<Rightarrow> Finished (Inl e) m | Inr candidate \<Rightarrow> Committing key r' candidate)"

definition update_request ::
    "(update_records \<Rightarrow> nat) \<Rightarrow> storage \<Rightarrow> string \<Rightarrow> device \<Rightarrow> string \<Rightarrow> update_command \<Rightarrow> request_clock \<Rightarrow> update_manager \<times> state_file
      \<Rightarrow> (update_error + update_record) \<times> update_manager \<times> state_file" where
  "update_request bytes disk actor d rid command clock mf =
     (case mf of (m, f) \<Rightarrow>
        case request_begin m actor d rid command clock of Finished result m' \<Rightarrow> (result, m', f)
        | Committing key r candidate \<Rightarrow> (case update_commit bytes disk key r candidate (m, f) of (Some e, mf') \<Rightarrow> (Inl e, mf') | (None, mf') \<Rightarrow> (Inr r, mf')))"

section \<open>The operator's endpoint\<close>

definition all_in :: "string \<Rightarrow> string \<Rightarrow> bool" where
  "all_in cutset s \<longleftrightarrow> list_all (\<lambda>c. c \<in> set cutset) s"

definition digits_value :: "string \<Rightarrow> nat" where
  "digits_value s = foldl (\<lambda>n c. 10 * n + (of_char c - 48)) 0 s"

text \<open>\<^verbatim>\<open>strings.Trim\<close> empties a string exactly when the cutset holds all of it; \<^verbatim>\<open>strconv.ParseUint\<close> refuses what does not fit.\<close>

definition decimal :: "string \<Rightarrow> u64 option" where
  "decimal s =
     (if s = [] \<or> (length s > 1 \<and> s ! 0 = CHR ''0'') \<or> \<not> all_in ''0123456789'' s then None
      else if digits_value s < 2 ^ 64 then Some (of_nat (digits_value s)) else None)"

definition update_actions :: "(string \<times> u8) list" where
  "update_actions = [(''check'', 1), (''download'', 2), (''install'', 3), (''cancel'', 4)]"

datatype update_call = Get string | Post "(string \<times> string) list" | Malformed | OtherMethod

record update_headers =
  uh_Origin :: string
  uh_Authorization :: "string list"

definition form_field :: "(string \<times> string) list \<Rightarrow> string \<Rightarrow> string" where
  "form_field values key = (case map_of values key of Some v \<Rightarrow> v | None \<Rightarrow> [])"

definition request_state :: "update_record \<Rightarrow> u64 \<Rightarrow> time \<Rightarrow> string" where
  "request_state r current now =
     (if uc_ID (ur_Command r) = 0 then ''none''
      else if (case ur_Status r of None \<Rightarrow> False | Some s \<Rightarrow> us_LastCommand s = uc_ID (ur_Command r)) then ''accepted''
      else if uc_ID (ur_Command r) < current then ''superseded''
      else if uc_Expires (ur_Command r) \<le> Unix now then ''expired''
      else ''requested'')"

definition post_fields :: "(string \<times> string) list \<Rightarrow> update_command option" where
  "post_fields values =
     (case (decimal (form_field values ''generation''), decimal (form_field values ''release''), map_of update_actions (form_field values ''action'')) of
        (Some generation, Some release, Some action) \<Rightarrow> Some \<lparr>uc_Action = action, uc_Hint = False, uc_ID = 0, uc_Generation = generation, uc_Release = release, uc_Expires = 0\<rparr>
      | _ \<Rightarrow> None)"

definition bearer :: string where "bearer = ''Bearer ''"

text \<open>The handler on a parsed request: \<open>Malformed\<close> is a query or a body the decoder refuses. The answer is the status code with, on success, the state of the request and the record shown; the
  catalog's choice beside it is left out, and the second look at the record happens at once.\<close>

definition update_ServeHTTP ::
    "(string \<Rightarrow> u8 list) \<Rightarrow> (update_records \<Rightarrow> nat) \<Rightarrow> storage \<Rightarrow> request_clock \<Rightarrow> time \<Rightarrow> update_headers \<Rightarrow> update_call \<Rightarrow> update_manager \<times> state_file
      \<Rightarrow> (nat \<times> (string \<times> update_record) option) \<times> update_manager \<times> state_file" where
  "update_ServeHTTP sha256 bytes disk clock now h call mf =
     (let m = fst mf; refuse = (\<lambda>code. ((code, None), mf));
          observer = (case call of Get v \<Rightarrow> v | Post values \<Rightarrow> form_field values ''observer_id'' | _ \<Rightarrow> [])
      in if uh_Origin h \<noteq> [] then refuse 403
         else if length (uh_Authorization h) \<noteq> 1 \<or> take 7 (uh_Authorization h ! 0) \<noteq> bearer then refuse 401
         else if call = Malformed then refuse 400
         else if call = OtherMethod then refuse 405
         else case update_authorized sha256 m (drop 7 (uh_Authorization h ! 0)) observer of None \<Rightarrow> refuse 403
           | Some (actor, d) \<Rightarrow>
               (case call of
                  Post values \<Rightarrow>
                    if length values \<noteq> 5 \<or> length (form_field values ''request_id'') \<noteq> 32 \<or> \<not> all_in ''0123456789abcdef'' (form_field values ''request_id'') then refuse 400
                    else (case post_fields values of None \<Rightarrow> refuse 400
                      | Some command \<Rightarrow>
                          (case update_request bytes disk actor d (form_field values ''request_id'') command clock mf of
                             (Inl e, mf') \<Rightarrow> ((409, None), mf')
                           | (Inr r, mf') \<Rightarrow> ((202, Some (request_state r (uc_ID (ur_Command (record_at (um_records (fst mf')) (device_key d)))) now, r)), mf')))
                | _ \<Rightarrow> (let r = record_at (um_records m) (device_key d) in ((200, Some (request_state r (uc_ID (ur_Command r)) now, r)), mf))))"

section \<open>What the metrics flag\<close>

definition drifted :: "update_status \<Rightarrow> bool" where
  "drifted s = (if us_Profile s = ''open'' \<or> us_Profile s = ''test'' then us_Security s AND 3 \<noteq> 0 else us_Security s \<noteq> 31)"

definition unverifiedTrusted :: "update_status \<Rightarrow> string \<Rightarrow> bool \<Rightarrow> bool" where
  "unverifiedTrusted s trust verifies \<longleftrightarrow> verifies \<and> us_Profile s = ''trusted'' \<and> trust \<noteq> HardwareTrustTrusted"

end
