(* ===== verification/UpdateLaws.thy ===== *)
theory UpdateLaws
  imports UpdateManager
begin

text \<open>
  What the update manager promises: command numbers that never go back, requests answered once, reports taken once and in order, and a state file that carries everything a device is told across
  a stop at any moment. The writers run one at a time under \<^verbatim>\<open>commitMu\<close> and let go of \<^verbatim>\<open>mu\<close> while they write, so a commit is a sequence of steps between which devices poll and open sessions.
\<close>

section \<open>A manager and its file over time\<close>

record commit_job =
  cj_key :: string
  cj_record :: update_record
  cj_candidate :: update_records
  cj_renamed :: bool

record update_server =
  sv_manager :: update_manager
  sv_file :: state_file
  sv_before :: "state_file option"
  sv_job :: "commit_job option"
  sv_sent :: "(device \<times> u8 list) list"

definition take_up :: "'a begun \<Rightarrow> update_server \<Rightarrow> update_server" where
  "take_up b s =
     (case b of Finished _ m \<Rightarrow> s\<lparr>sv_manager := m\<rparr>
      | Committing key r candidate \<Rightarrow> s\<lparr>sv_job := Some \<lparr>cj_key = key, cj_record = r, cj_candidate = candidate, cj_renamed = False\<rparr>\<rparr>)"

text \<open>The steps: a device opens a session or polls; a report or a request begins once the writer before it is done; its commit fails before the rename, renames, and ends synced or faulted; and
  the process starts again, on the file of the last rename or, where that rename was not synced, on either file, settled from then on. \<open>sv_sent\<close> lists the bytes devices were sent. A step is
  labelled with what a run may be asked about: the device and session opened, and the device of a request.\<close>

datatype update_event = Opened string string | Polled | Reported | Asked string | Committed | Restarted

inductive update_step :: "(update_records \<Rightarrow> nat) \<Rightarrow> update_event \<Rightarrow> update_server \<Rightarrow> update_server \<Rightarrow> bool" for bytes where
  session: "update_step bytes (Opened (device_key (device_of c)) session) s (s\<lparr>sv_manager := BeginSession c session (sv_manager s)\<rparr>)"
| poll: "Pending (sv_manager s) c now \<noteq> [] \<Longrightarrow> update_step bytes Polled s (s\<lparr>sv_sent := sv_sent s @ [(device_of c, Pending (sv_manager s) c now)]\<rparr>)"
| report: "sv_job s = None \<Longrightarrow> update_step bytes Reported s (take_up (report_begin (sv_manager s) c session sequence status clock) s)"
| request: "sv_job s = None \<Longrightarrow> update_step bytes (Asked (device_key d)) s (take_up (request_begin (sv_manager s) actor d rid command clock') s)"
| commit_fails: "sv_job s = Some j \<Longrightarrow> \<not> cj_renamed j \<Longrightarrow> update_step bytes Committed s (s\<lparr>sv_job := None\<rparr>)"
| commit_renames: "sv_job s = Some j \<Longrightarrow> \<not> cj_renamed j \<Longrightarrow> bytes (cj_candidate j) \<le> maxStateBytes \<Longrightarrow>
     update_step bytes Committed s (s\<lparr>sv_file := commit_file bytes (cj_candidate j), sv_before := Some (sv_file s), sv_job := Some (j\<lparr>cj_renamed := True\<rparr>)\<rparr>)"
| commit_ends: "sv_job s = Some j \<Longrightarrow> cj_renamed j \<Longrightarrow>
     update_step bytes Committed s (s\<lparr>sv_manager := commit_publish (cj_key j) (cj_record j) synced (sv_manager s), sv_before := (if synced then None else sv_before s), sv_job := None\<rparr>)"
| restart: "f = sv_file s \<or> sv_before s = Some f \<Longrightarrow> update_Open config f = Inr (Some m) \<Longrightarrow>
     update_step bytes Restarted s (s\<lparr>sv_manager := m, sv_file := f, sv_before := None, sv_job := None\<rparr>)"

definition first_start :: "update_config \<Rightarrow> update_server" where
  "first_start config = \<lparr>sv_manager = manager_of config [], sv_file = Absent, sv_before = None, sv_job = None, sv_sent = []\<rparr>"

inductive update_reach :: "(update_records \<Rightarrow> nat) \<Rightarrow> update_server \<Rightarrow> bool" for bytes where
  start: "update_Validate config = None \<Longrightarrow> uf_StateFile config \<noteq> [] \<Longrightarrow> update_reach bytes (first_start config)"
| step: "update_reach bytes s \<Longrightarrow> update_step bytes e s t \<Longrightarrow> update_reach bytes t"

inductive_cases update_stepE: "update_step bytes e s t"

text \<open>A run from one server to a later one, with the labels of its steps.\<close>

inductive update_run :: "(update_records \<Rightarrow> nat) \<Rightarrow> update_event list \<Rightarrow> update_server \<Rightarrow> update_server \<Rightarrow> bool" for bytes where
  stay: "update_run bytes [] s s"
| more: "update_run bytes es s t \<Longrightarrow> update_step bytes e t u \<Longrightarrow> update_run bytes (es @ [e]) s u"

lemma reach_run: "update_run bytes es s t \<Longrightarrow> update_reach bytes s \<Longrightarrow> update_reach bytes t"
  by (induction rule: update_run.induct) (auto intro: update_reach.step)

section \<open>Records\<close>

text \<open>What a commit keeps of a record: all but the receipt of the last report and the counters a report compares to nothing.\<close>

definition records_ok :: "update_records \<Rightarrow> bool" where
  "records_ok rs \<longleftrightarrow> distinct (map fst rs) \<and> length rs \<le> maxDevices \<and> list_all record_loads rs"

definition same_intent :: "update_record \<Rightarrow> update_record \<Rightarrow> bool" where
  "same_intent r r' \<longleftrightarrow> device_key (ur_Device r) = device_key (ur_Device r') \<and> ur_Command r = ur_Command r' \<and> ur_RequestID r = ur_RequestID r' \<and> ur_Actor r = ur_Actor r' \<and> ur_Created r = ur_Created r' \<and>
     map_option us_LastCommand (ur_Status r) = map_option us_LastCommand (ur_Status r') \<and> ur_HardwareTrust r = ur_HardwareTrust r' \<and>
     ur_Transitions r = ur_Transitions r' \<and> ur_Requests r = ur_Requests r'"

definition same_records :: "update_records \<Rightarrow> update_records \<Rightarrow> bool" where
  "same_records rs rs' \<longleftrightarrow> (\<forall>key. rel_option same_intent (map_of rs key) (map_of rs' key))"

definition newer :: "update_command \<Rightarrow> update_command \<Rightarrow> bool" where
  "newer c c' \<longleftrightarrow> c' = c \<or> uc_ID c < uc_ID c'"

definition no_older :: "update_records \<Rightarrow> update_records \<Rightarrow> bool" where
  "no_older rs rs' \<longleftrightarrow> (\<forall>key r. map_of rs key = Some r \<longrightarrow> (\<exists>r'. map_of rs' key = Some r' \<and> newer (ur_Command r) (ur_Command r')))"

lemma newer_refl [simp]: "newer c c"
  by (simp add: newer_def)

lemma newer_trans: "newer a b \<Longrightarrow> newer b c \<Longrightarrow> newer a c"
  by (auto simp: newer_def)

lemma same_intent_refl [simp]: "same_intent r r"
  by (simp add: same_intent_def)

lemma same_records_refl [simp]: "same_records rs rs"
  by (auto simp: same_records_def option.rel_refl)

lemma no_older_trans: "no_older a b \<Longrightarrow> no_older b c \<Longrightarrow> no_older a c"
  unfolding no_older_def by (meson newer_trans)

lemma same_no_older:
  assumes "same_records rs rs'"
  shows "no_older rs rs'" "no_older rs' rs"
proof -
  have r: "rel_option same_intent (map_of rs k) (map_of rs' k)" for k using assms by (simp add: same_records_def)
  show "no_older rs rs'" unfolding no_older_def using r by (metis newer_refl option.rel_distinct(2) option_rel_Some1 same_intent_def)
  show "no_older rs' rs" unfolding no_older_def using r by (metis newer_refl option_rel_Some2 same_intent_def)
qed

lemma records_ok_update:
  assumes "records_ok rs" "record_loads (key, r)" "map_of rs key = None \<Longrightarrow> length rs < maxDevices"
  shows "records_ok (AList.update key r rs)"
proof -
  have "length (AList.update key r rs) \<le> maxDevices"
    using assms by (auto simp: records_ok_def length_update)
  then show ?thesis using assms by (simp add: records_ok_def distinct_update entries_update)
qed

lemma snapshot_ok:
  assumes "snapshotLocked m key r = Inr candidate" "records_ok (um_records m)" "record_loads (key, r)"
  shows "candidate = AList.update key r (um_records m)" "records_ok candidate" "\<not> um_fault m"
  using assms records_ok_update [of "um_records m" key r] by (auto simp: snapshotLocked_def split: if_splits)

lemma record_at_ok: "records_ok rs \<Longrightarrow> map_of rs key = Some r \<Longrightarrow> record_loads (key, r)"
  by (auto simp: records_ok_def list_all_iff dest: map_of_SomeD)

lemma length_keep_newest [simp]: "length (keep_newest xs) \<le> maxHistory" "\<not> maxHistory < length (keep_newest xs)"
  by (simp_all add: keep_newest_def)

lemma record_at_cases:
  "map_of rs key = Some (record_at rs key) \<or> map_of rs key = None \<and> record_at rs key = no_record"
  by (simp add: record_at_def split: option.split)

lemma no_record_fields [simp]:
  "ur_Transitions no_record = []" "ur_Requests no_record = []" "ur_Status no_record = None" "uc_ID (ur_Command no_record) = 0" "ur_Session no_record = []" "ur_RequestID no_record = []"
  by (simp_all add: no_record_def)

lemma record_at_bounds:
  assumes "records_ok rs"
  shows "length (ur_Transitions (record_at rs key)) \<le> maxHistory" "length (ur_Requests (record_at rs key)) \<le> maxHistory"
    "uc_ID (ur_Command (record_at rs key)) \<noteq> 0 \<Longrightarrow> update_Valid (ur_Command (record_at rs key))"
  using record_at_cases [of rs key] record_at_ok [OF assms, of key "record_at rs key"] by (auto simp: record_loads_def)

lemma reported_loads:
  "records_ok rs \<Longrightarrow> record_loads (device_key (device_of c), reported c session sequence status now (record_at rs key))"
  using record_at_bounds [of rs key] by (auto simp: record_loads_def reported_def)

lemma no_older_update:
  assumes "map_of rs key = None \<or> newer (ur_Command (record_at rs key)) (ur_Command r)"
  shows "no_older rs (AList.update key r rs)"
  using assms by (auto simp: no_older_def update_conv record_at_def)

lemma same_records_update:
  assumes "map_of rs key = Some q" "same_intent q r"
  shows "same_records rs (AList.update key r rs)"
  using assms by (auto simp: same_records_def update_conv option.rel_refl)

section \<open>What a writer begins\<close>

definition begun_ok :: "update_manager \<Rightarrow> 'a begun \<Rightarrow> bool" where
  "begun_ok m b \<longleftrightarrow>
     (case b of
        Finished _ m' \<Rightarrow> m' = m \<or> (\<exists>key q r. map_of (um_records m) key = Some q \<and> same_intent q r \<and> records_ok (AList.update key r (um_records m)) \<and>
                           m' = m\<lparr>um_records := AList.update key r (um_records m)\<rparr>)
      | Committing key r candidate \<Rightarrow> candidate = AList.update key r (um_records m) \<and> records_ok candidate \<and> \<not> um_fault m \<and> no_older (um_records m) candidate)"

lemma begun_same [simp]: "begun_ok m (Finished e m)"
  by (simp add: begun_ok_def)

lemma snapshot_begun:
  assumes "records_ok (um_records m)" "record_loads (key, r)" "map_of (um_records m) key = None \<or> newer (ur_Command (record_at (um_records m) key)) (ur_Command r)"
    "snapshotLocked m key r = Inr candidate"
  shows "begun_ok m (Committing key r candidate)"
  using snapshot_ok [OF assms(4,1,2)] no_older_update [OF assms(3)] by (simp add: begun_ok_def)

lemma report_unchanged:
  assumes "\<not> report_changed (ur_Status r) status (ur_HardwareTrust r) (report_trust c)" "device_key (ur_Device r) = device_key (device_of c)"
  shows "same_intent r (reported c session sequence status now r)"
  using assms by (auto simp: report_changed_def same_intent_def reported_def split: option.splits)

lemma report_begun:
  assumes ok: "records_ok (um_records m)"
  shows "begun_ok m (report_begin m c session sequence status clock)"
proof -
  let ?key = "device_key (device_of c)" let ?r = "record_at (um_records m) ?key" let ?r' = "reported c session sequence status (fst clock) ?r"
  have "begun_ok m (Finished e (m\<lparr>um_records := AList.update ?key ?r' (um_records m)\<rparr>))"
    if u: "\<not> report_changed (ur_Status ?r) status (ur_HardwareTrust ?r) (report_trust c)" for e :: "update_error option"
  proof -
    have s: "map_of (um_records m) ?key = Some ?r" using u record_at_cases [of "um_records m" ?key] by (auto simp: report_changed_def)
    then have "records_ok (AList.update ?key ?r' (um_records m))" by (intro records_ok_update ok reported_loads) simp
    moreover have "same_intent ?r ?r'" using record_at_ok [OF ok s] by (intro report_unchanged u) (simp add: record_loads_def)
    ultimately show ?thesis using s by (auto simp: begun_ok_def)
  qed
  moreover have "begun_ok m (Committing ?key (?r'\<lparr>ur_Transitions := keep_newest ts\<rparr>) candidate)"
    if "snapshotLocked m ?key (?r'\<lparr>ur_Transitions := keep_newest ts\<rparr>) = Inr candidate" for candidate ts
    using reported_loads [OF ok] by (intro snapshot_begun [OF ok] that) (simp_all add: record_loads_def reported_def)
  ultimately show ?thesis by (auto simp: report_begin_def Let_def split: sum.split)
qed

lemma numbered_above:
  assumes "command_floor r s \<noteq> - 1"
  shows "uc_ID (ur_Command r) < uc_ID (numbered_command r s command clock)" "us_LastCommand s < uc_ID (numbered_command r s command clock)"
proof -
  have "command_floor r s < command_floor r s + 1" using assms by (simp add: not_le [symmetric] inc_less_eq_self_iff_eq)
  then show "uc_ID (ur_Command r) < uc_ID (numbered_command r s command clock)" "us_LastCommand s < uc_ID (numbered_command r s command clock)"
    by (auto simp: numbered_command_def command_floor_def less_max_iff_disj max_def split: if_splits)
qed

lemma request_begun:
  assumes ok: "records_ok (um_records m)"
  shows "begun_ok m (request_begin m actor d rid command clock)"
proof -
  let ?key = "device_key d" let ?r = "record_at (um_records m) ?key"
  have "begun_ok m (Committing ?key (requested d actor rid (numbered_command ?r s command clock) now ?r) candidate)"
    if "ur_Status ?r = Some s" "command_floor ?r s \<noteq> - 1" "update_Valid (numbered_command ?r s command clock)"
      "snapshotLocked m ?key (requested d actor rid (numbered_command ?r s command clock) now ?r) = Inr candidate" for candidate s now
    using that record_at_bounds [OF ok, of ?key] numbered_above(1) [OF that(2)]
    by (intro snapshot_begun [OF ok _ _ that(4)]) (simp_all add: record_loads_def requested_def newer_def)
  then show ?thesis by (auto simp: request_begin_def Let_def split: option.split sum.split)
qed

section \<open>The invariant\<close>

definition settled :: "update_server \<Rightarrow> state_file" where
  "settled s = (case sv_before s of None \<Rightarrow> sv_file s | Some f \<Rightarrow> f)"

lemma settled_simps [simp]:
  "settled (s\<lparr>sv_manager := m\<rparr>) = settled s" "settled (s\<lparr>sv_sent := l\<rparr>) = settled s" "settled (s\<lparr>sv_job := j\<rparr>) = settled s" "sv_before s = None \<Longrightarrow> settled s = sv_file s"
  by (simp_all add: settled_def cong: option.case_cong)

definition told :: "update_records \<Rightarrow> (device \<times> u8 list) list \<Rightarrow> bool" where
  "told rs sent \<longleftrightarrow> list_all (\<lambda>(d, b). \<exists>r c. map_of rs (device_key d) = Some r \<and> DecodeUpdateCommand b = Inr c \<and> newer c (ur_Command r)) sent"

definition forward :: "(device \<times> u8 list) list \<Rightarrow> bool" where
  "forward sent \<longleftrightarrow> sorted_wrt (\<lambda>x y. fst x = fst y \<longrightarrow> (\<exists>a b. DecodeUpdateCommand (snd x) = Inr a \<and> DecodeUpdateCommand (snd y) = Inr b \<and> newer a b)) sent"

definition job_ok :: "(update_records \<Rightarrow> nat) \<Rightarrow> update_server \<Rightarrow> commit_job \<Rightarrow> bool" where
  "job_ok bytes s j \<longleftrightarrow> cj_candidate j = AList.update (cj_key j) (cj_record j) (um_records (sv_manager s)) \<and> records_ok (cj_candidate j) \<and>
     no_older (um_records (sv_manager s)) (cj_candidate j) \<and> \<not> um_fault (sv_manager s) \<and>
     (if cj_renamed j then sv_file s = commit_file bytes (cj_candidate j) \<and> bytes (cj_candidate j) \<le> maxStateBytes else sv_before s = None)"

definition update_inv :: "(update_records \<Rightarrow> nat) \<Rightarrow> update_server \<Rightarrow> bool" where
  "update_inv bytes s \<longleftrightarrow> (let rs = um_records (sv_manager s) in
     records_ok rs \<and> (\<exists>q. loadRecords (settled s) = Inr q \<and> records_ok q \<and> same_records rs q) \<and> (\<exists>q. loadRecords (sv_file s) = Inr q \<and> records_ok q \<and> no_older rs q) \<and>
     (case sv_job s of None \<Rightarrow> um_fault (sv_manager s) \<or> sv_before s = None | Some j \<Rightarrow> job_ok bytes s j) \<and> told rs (sv_sent s) \<and> forward (sv_sent s))"

lemma loads_commit: "records_ok rs \<Longrightarrow> bytes rs \<le> maxStateBytes \<Longrightarrow> loadRecords (commit_file bytes rs) = Inr rs"
  by (auto simp: loadRecords_def commit_file_def records_ok_def)

lemma told_no_older: "told rs sent \<Longrightarrow> no_older rs rs' \<Longrightarrow> told rs' sent"
  unfolding told_def no_older_def list_all_iff by (fastforce dest: newer_trans)

lemma same_records_trans: "same_records a b \<Longrightarrow> same_records b c \<Longrightarrow> same_records a c"
  unfolding same_records_def by (smt (verit) option.rel_sel same_intent_def)

lemma same_records_sym: "same_records a b \<Longrightarrow> same_records b a"
  unfolding same_records_def by (smt (verit) option.rel_sel same_intent_def)

lemma BeginSession_keeps [simp]: "um_records (BeginSession c session m) = um_records m" "um_fault (BeginSession c session m) = um_fault m" "um_config (BeginSession c session m) = um_config m"
  by (simp_all add: BeginSession_def Let_def)

lemma job_ok_simps [simp]:
  "job_ok bytes (s\<lparr>sv_sent := l\<rparr>) = job_ok bytes s" "job_ok bytes (s\<lparr>sv_manager := BeginSession c session (sv_manager s)\<rparr>) = job_ok bytes s"
  by (simp_all add: job_ok_def fun_eq_iff)

lemma inv_take_up:
  assumes inv: "update_inv bytes s" and idle: "sv_job s = None" and b: "begun_ok (sv_manager s) b"
  shows "update_inv bytes (take_up b s)"
proof (cases b)
  case (Finished e m)
  have k: "update_inv bytes (s\<lparr>sv_manager := sv_manager s\<lparr>um_records := q\<rparr>\<rparr>)" if "records_ok q" "same_records (um_records (sv_manager s)) q" for q
  proof -
    from inv have "\<exists>p. loadRecords (settled s) = Inr p \<and> records_ok p \<and> same_records q p" "\<exists>p. loadRecords (sv_file s) = Inr p \<and> records_ok p \<and> no_older q p" "told q (sv_sent s)"
      using same_records_trans [OF same_records_sym [OF that(2)]] no_older_trans [OF same_no_older(2) [OF that(2)]] told_no_older [OF _ same_no_older(1) [OF that(2)]]
      unfolding update_inv_def Let_def by blast+
    with inv idle that(1) show ?thesis by (simp add: update_inv_def Let_def)
  qed
  from b Finished have "m = sv_manager s \<or> (\<exists>q. records_ok q \<and> same_records (um_records (sv_manager s)) q \<and> m = sv_manager s\<lparr>um_records := q\<rparr>)"
    by (auto simp: begun_ok_def intro: same_records_update)
  with k inv Finished show ?thesis by (auto simp: take_up_def)
next
  case (Committing key r candidate)
  with b inv idle show ?thesis by (auto simp: take_up_def update_inv_def begun_ok_def job_ok_def Let_def)
qed

lemma inv_publish:
  assumes inv: "update_inv bytes s" and j: "sv_job s = Some j" "cj_renamed j"
  shows "update_inv bytes (s\<lparr>sv_manager := commit_publish (cj_key j) (cj_record j) synced (sv_manager s), sv_before := (if synced then None else sv_before s), sv_job := None\<rparr>)"
proof -
  let ?rs = "um_records (sv_manager s)" let ?q = "cj_candidate j"
  from inv j have q: "?q = AList.update (cj_key j) (cj_record j) ?rs" "records_ok ?q" "no_older ?rs ?q" "sv_file s = commit_file bytes ?q" "bytes ?q \<le> maxStateBytes"
    by (auto simp: update_inv_def job_ok_def Let_def)
  have l: "loadRecords (sv_file s) = Inr ?q" using q loads_commit by simp
  show ?thesis
  proof (cases synced)
    case True
    then have "commit_publish (cj_key j) (cj_record j) synced (sv_manager s) = sv_manager s\<lparr>um_records := ?q\<rparr>" using q(1) by (simp add: commit_publish_def)
    moreover have "told ?q (sv_sent s)" using inv told_no_older [OF _ q(3)] by (simp add: update_inv_def Let_def)
    ultimately show ?thesis using True inv q(2) l same_no_older [OF same_records_refl] by (simp add: update_inv_def Let_def)
  next
    case False
    with inv show ?thesis by (simp add: update_inv_def Let_def commit_publish_def settled_def cong: option.case_cong)
  qed
qed

lemma inv_rename:
  assumes inv: "update_inv bytes s" and j: "sv_job s = Some j" "\<not> cj_renamed j" "bytes (cj_candidate j) \<le> maxStateBytes"
  shows "update_inv bytes (s\<lparr>sv_file := commit_file bytes (cj_candidate j), sv_before := Some (sv_file s), sv_job := Some (j\<lparr>cj_renamed := True\<rparr>)\<rparr>)"
proof -
  let ?rs = "um_records (sv_manager s)" let ?q = "cj_candidate j"
  from inv j have q: "?q = AList.update (cj_key j) (cj_record j) ?rs" "records_ok ?q" "no_older ?rs ?q" "sv_before s = None"
    by (auto simp: update_inv_def job_ok_def Let_def)
  then have "loadRecords (commit_file bytes ?q) = Inr ?q" using j(3) loads_commit by simp
  with q inv j show ?thesis by (auto simp: update_inv_def Let_def job_ok_def settled_def)
qed

lemma inv_restart:
  assumes inv: "update_inv bytes s" and f: "f = sv_file s \<or> sv_before s = Some f" and m: "update_Open config f = Inr (Some m)"
  shows "update_inv bytes (s\<lparr>sv_manager := m, sv_file := f, sv_before := None, sv_job := None\<rparr>)"
proof -
  let ?rs = "um_records (sv_manager s)"
  from inv f have "\<exists>q. loadRecords f = Inr q \<and> records_ok q \<and> no_older ?rs q"
    by (auto simp: update_inv_def Let_def settled_def dest: same_no_older)
  then obtain q where q: "loadRecords f = Inr q" "records_ok q" "no_older ?rs q" by blast
  with m have "m = manager_of config q" by (auto simp: update_Open_def split: option.splits if_splits)
  moreover have "told q (sv_sent s)" using inv told_no_older [OF _ q(3)] by (simp add: update_inv_def Let_def)
  ultimately show ?thesis using q inv same_no_older(1) [OF same_records_refl] by (simp add: update_inv_def Let_def manager_of_def)
qed

lemma pending_current:
  "pending_command m c now = Some command \<Longrightarrow> \<exists>r. map_of (um_records m) (device_key (device_of c)) = Some r \<and> command = ur_Command r \<and> uc_ID command \<noteq> 0"
  by (auto simp: pending_command_def Let_def split: option.splits if_splits)

lemma pending_decodes:
  assumes "records_ok (um_records m)" "Pending m c now \<noteq> []"
  obtains r where "map_of (um_records m) (device_key (device_of c)) = Some r" "DecodeUpdateCommand (Pending m c now) = Inr (ur_Command r)"
proof -
  obtain command where p: "pending_command m c now = Some command" using assms(2) by (auto simp: Pending_def split: option.splits)
  then obtain r where r: "map_of (um_records m) (device_key (device_of c)) = Some r" "command = ur_Command r" "uc_ID command \<noteq> 0" using pending_current by blast
  then have v: "update_Valid command" using record_at_ok [OF assms(1) r(1)] by (simp add: record_loads_def)
  then obtain b where "update_Encode command = Inr b" by (auto simp: update_Encode_def)
  then have "DecodeUpdateCommand (Pending m c now) = Inr command" using update.dec_iff v p by (simp add: Pending_def)
  with r that show thesis by blast
qed

lemma inv_poll:
  assumes inv: "update_inv bytes s" and p: "Pending (sv_manager s) c now \<noteq> []"
  shows "update_inv bytes (s\<lparr>sv_sent := sv_sent s @ [(device_of c, Pending (sv_manager s) c now)]\<rparr>)"
proof -
  let ?rs = "um_records (sv_manager s)" let ?b = "Pending (sv_manager s) c now"
  from inv have "records_ok ?rs" by (simp add: update_inv_def Let_def)
  from pending_decodes [OF this p] obtain r where r: "map_of ?rs (device_key (device_of c)) = Some r" "DecodeUpdateCommand ?b = Inr (ur_Command r)" .
  from inv have t: "told ?rs (sv_sent s)" "forward (sv_sent s)" by (auto simp: update_inv_def Let_def)
  from t r have "told ?rs (sv_sent s @ [(device_of c, ?b)])" "forward (sv_sent s @ [(device_of c, ?b)])"
    by (auto simp: told_def forward_def sorted_wrt_append list_all_iff)
  with inv show ?thesis by (simp add: update_inv_def Let_def cong: option.case_cong)
qed

lemma update_inv_step: "update_step bytes e s t \<Longrightarrow> update_inv bytes s \<Longrightarrow> update_inv bytes t"
proof (induction rule: update_step.induct)
  case (session c session s)
  then show ?case by (simp add: update_inv_def Let_def cong: option.case_cong)
next
  case (report s c session sequence status clock)
  then show ?case by (intro inv_take_up report_begun) (simp_all add: update_inv_def Let_def)
next
  case (request s actor d rid command clock)
  then show ?case by (intro inv_take_up request_begun) (simp_all add: update_inv_def Let_def)
next
  case (commit_fails s j)
  then show ?case by (auto simp: update_inv_def Let_def job_ok_def)
qed (simp_all add: inv_poll inv_rename inv_publish inv_restart)

lemma update_inv_reach: "update_reach bytes s \<Longrightarrow> update_inv bytes s"
proof (induction rule: update_reach.induct)
  case (start config)
  then show ?case by (simp add: update_inv_def Let_def first_start_def settled_def manager_of_def loadRecords_def records_ok_def no_older_def told_def forward_def)
qed (rule update_inv_step)

lemma same_pending:
  assumes "same_records (um_records m) rs" "\<not> um_fault m"
  shows "pending_command (manager_of (um_config m) rs) c now = pending_command m c now"
proof -
  let ?key = "device_key (device_of c)"
  have rel: "rel_option same_intent (map_of (um_records m) ?key) (map_of rs ?key)" using assms by (simp add: same_records_def)
  have e: "update_enabled (manager_of (um_config m) rs) d = update_enabled m d" for d by (simp add: update_enabled_def manager_of_def)
  have a: "accepted_command q = accepted_command r \<and> ur_Command q = ur_Command r" if "same_intent q r" for q r
    using that by (cases "ur_Status q"; cases "ur_Status r") (simp_all add: same_intent_def accepted_command_def)
  show ?thesis
  proof (cases "map_of (um_records m) ?key")
    case None
    then show ?thesis using rel by (simp add: pending_command_def Let_def manager_of_def)
  next
    case (Some q)
    then obtain r where "map_of rs ?key = Some r" "same_intent q r" using rel by (auto simp: option_rel_Some1)
    then show ?thesis using Some a assms(2) e by (simp add: pending_command_def Let_def manager_of_def)
  qed
qed

text \<open>C34: The commands a device is told never go back. On every run of the manager, with reports and requests in any order, commits that fail at any stage, devices polling while a commit is under
  way, and the process stopped and started again at any moment, the bytes of each of two answers to one device decode to a command, and the command of the later answer is the same as that of
  the earlier one or has a larger number.\<close>

theorem commands_go_forward:
  assumes "update_reach bytes s" "i < j" "j < length (sv_sent s)" "fst (sv_sent s ! i) = fst (sv_sent s ! j)"
  shows "\<exists>x y. DecodeUpdateCommand (snd (sv_sent s ! i)) = Inr x \<and> DecodeUpdateCommand (snd (sv_sent s ! j)) = Inr y \<and> (y = x \<or> uc_ID x < uc_ID y)"
proof -
  have "forward (sv_sent s)" using update_inv_reach [OF assms(1)] by (simp add: update_inv_def Let_def)
  then show ?thesis using assms(2-4) by (simp add: forward_def sorted_wrt_iff_nth_less newer_def)
qed

section \<open>The handlers as steps\<close>

text \<open>A handler whose commit is durable or fails is a run of the steps.\<close>

lemma server_eqs:
  "s\<lparr>sv_manager := m, sv_file := sv_file s\<rparr> = s\<lparr>sv_manager := m\<rparr>" "s\<lparr>sv_manager := sv_manager s, sv_file := sv_file s\<rparr> = s"
  "sv_before s = None \<Longrightarrow> sv_job s = None \<Longrightarrow> s\<lparr>sv_file := f, sv_manager := m, sv_before := None, sv_job := None\<rparr> = s\<lparr>sv_manager := m, sv_file := f\<rparr>"
  by (cases s; simp)+

lemma reach_commit:
  assumes s: "update_reach bytes s" "sv_job s = None" "sv_before s = None"
    and b: "update_reach bytes (take_up b s)" "b = Committing key r candidate"
    and c: "update_commit bytes disk key r candidate (sv_manager s, sv_file s) = (e, m, f)" "disk \<noteq> SyncFails"
  shows "update_reach bytes (s\<lparr>sv_manager := m, sv_file := f\<rparr>)"
proof -
  let ?j = "\<lparr>cj_key = key, cj_record = r, cj_candidate = candidate, cj_renamed = False\<rparr>" let ?t = "s\<lparr>sv_job := Some ?j\<rparr>"
  have t: "update_reach bytes ?t" using b by (simp add: take_up_def)
  show ?thesis
  proof (cases "disk = Durable \<and> bytes candidate \<le> maxStateBytes")
    case True
    let ?u = "?t\<lparr>sv_file := commit_file bytes candidate, sv_before := Some (sv_file s), sv_job := Some (?j\<lparr>cj_renamed := True\<rparr>)\<rparr>"
    have "update_step bytes Committed ?t ?u" using commit_renames [of ?t ?j bytes] True by simp
    then have u: "update_reach bytes ?u" by (rule update_reach.step [OF t])
    have "update_step bytes Committed ?u (s\<lparr>sv_manager := commit_publish key r True (sv_manager s), sv_file := commit_file bytes candidate\<rparr>)"
      using commit_ends [of ?u "?j\<lparr>cj_renamed := True\<rparr>" bytes True] s by (simp add: server_eqs)
    from update_reach.step [OF u this] show ?thesis using c(1) True by (simp add: update_commit_def)
  next
    case False
    then show ?thesis using c s by (cases disk) (auto simp: update_commit_def server_eqs split: if_splits)
  qed
qed

lemma reach_session: "update_reach bytes s \<Longrightarrow> update_reach bytes (s\<lparr>sv_manager := BeginSession c session (sv_manager s)\<rparr>)"
  by (erule update_reach.step) (rule update_step.session)

lemma reach_poll: "update_reach bytes s \<Longrightarrow> Pending (sv_manager s) c now \<noteq> [] \<Longrightarrow> update_reach bytes (s\<lparr>sv_sent := sv_sent s @ [(device_of c, Pending (sv_manager s) c now)]\<rparr>)"
  by (erule update_reach.step) (rule update_step.poll)

lemma reach_Report:
  assumes "update_reach bytes s" "sv_job s = None" "sv_before s = None" "disk \<noteq> SyncFails"
    "Report bytes disk c session sequence status clock (sv_manager s, sv_file s) = (e, m, f)"
  shows "update_reach bytes (s\<lparr>sv_manager := m, sv_file := f\<rparr>)"
proof (cases "report_begin (sv_manager s) c session sequence status clock")
  case (Finished e' m')
  then show ?thesis using assms update_reach.step [OF assms(1) report [OF assms(2)], of c session sequence status clock] by (auto simp: Report_def take_up_def server_eqs)
next
  case (Committing key r candidate)
  show ?thesis
    by (rule reach_commit [OF assms(1-3) update_reach.step [OF assms(1) report [OF assms(2)]] Committing _ assms(4)]) (use assms(5) Committing in \<open>simp add: Report_def\<close>)
qed

lemma reach_request:
  assumes "update_reach bytes s" "sv_job s = None" "sv_before s = None" "disk \<noteq> SyncFails"
    "update_request bytes disk actor d rid command clock (sv_manager s, sv_file s) = (result, m, f)"
  shows "update_reach bytes (s\<lparr>sv_manager := m, sv_file := f\<rparr>)"
proof (cases "request_begin (sv_manager s) actor d rid command clock")
  case (Finished e' m')
  then show ?thesis using assms update_reach.step [OF assms(1) request [OF assms(2)], of actor d rid command clock] by (auto simp: update_request_def take_up_def server_eqs)
next
  case (Committing key r candidate)
  obtain e mf where "update_commit bytes disk key r candidate (sv_manager s, sv_file s) = (e, mf)" by (metis surj_pair)
  with assms(5) Committing have "update_commit bytes disk key r candidate (sv_manager s, sv_file s) = (e, m, f)"
    by (auto simp: update_request_def split: option.splits)
  then show ?thesis by (rule reach_commit [OF assms(1-3) update_reach.step [OF assms(1) request [OF assms(2)]] Committing _ assms(4)])
qed

section \<open>One device, for the witnesses\<close>

definition one_device :: observer_context where
  "one_device = empty_context\<lparr>ObserverID := ''roof'', OrganizationID := ''org'', EnrollmentID := ''enr'', CollectorInstanceID := ''col''\<rparr>"

definition one_config :: update_config where
  "one_config = \<lparr>uf_StateFile = ''/var/updates.json'', uf_Repository = ''/srv/tuf'', uf_OpenRepository = [],
     uf_Principals = [\<lparr>up_ID = ''ops'', up_TokenSHA256 = replicate 64 (CHR ''0''), up_Devices = [device_of one_device]\<rparr>]\<rparr>"

definition one_status :: update_status where
  "one_status = \<lparr>us_Mode = ''manual'', us_Channel = ''stable'', us_State = ''idle'', us_Security = 31, us_Profile = ''trusted'', us_Layout = 1, us_Running = 1, us_Available = 2, us_Staged = 0,
     us_Failed = 0, us_Received = 0, us_Total = 0, us_LastCheck = 0, us_NextCheck = 0, us_LastCommand = 0, us_ErrorDomain = 0, us_ErrorReason = 0, us_Error = ''OK'', us_BootKey = [], us_ReleaseKey = []\<rparr>"

definition one_check :: update_command where
  "one_check = \<lparr>uc_Action = 1, uc_Hint = False, uc_ID = 0, uc_Generation = 0, uc_Release = 0, uc_Expires = 0\<rparr>"

definition one_clock :: request_clock where
  "one_clock = \<lparr>rc_Pending = unix_epoch, rc_Nano = unix_epoch, rc_Expires = unix_epoch, rc_Created = unix_epoch\<rparr>"

definition one_reported :: "update_manager \<times> state_file" where
  "one_reported = snd (Report length Durable one_device ''boot'' 1 one_status (unix_epoch, unix_epoch) (BeginSession one_device ''boot'' (manager_of one_config []), Absent))"

definition one_requested :: "update_manager \<times> state_file" where
  "one_requested = snd (update_request length Durable ''ops'' (device_of one_device) ''r1'' one_check one_clock one_reported)"

definition one_server :: update_server where
  "one_server = \<lparr>sv_manager = fst one_requested, sv_file = snd one_requested, sv_before = None, sv_job = None, sv_sent = []\<rparr>"

definition one_command :: update_command where
  "one_command = one_check\<lparr>uc_ID := 1, uc_Expires := 3600\<rparr>"

lemmas update_defs = Report_def report_begin_def report_changed_def reported_def BeginSession_def update_request_def request_begin_def requested_def same_arguments_def snapshotLocked_def update_commit_def
  commit_publish_def commit_file_def session_of_def manager_of_def record_at_def no_record_def keep_newest_def maxDevices_def maxHistory_def maxStateBytes_def Let_def

definition one_record :: update_record where
  "one_record = no_record\<lparr>ur_Device := device_of one_device, ur_Status := Some one_status, ur_HardwareTrust := report_trust one_device, ur_Received := unix_epoch, ur_Session := ''boot'', ur_Sequence := 1,
     ur_Transitions := [\<lparr>ut_At = unix_epoch, ut_Status = one_status, ut_HardwareTrust = report_trust one_device\<rparr>]\<rparr>"

lemma one_Validate: "update_Validate one_config = None" "uf_StateFile one_config \<noteq> []"
  by code_simp+

lemma one_enabled: "list_ex (\<lambda>p. device_of one_device \<in> set (up_Devices p)) (uf_Principals one_config)"
  by code_simp

lemma one_reported_values:
  "fst one_reported = manager_of one_config [(device_key (device_of one_device), one_record)]\<lparr>um_active := [(device_key (device_of one_device), ''boot'')]\<rparr>"
  by (simp add: one_reported_def one_record_def update_defs update_enabled_def one_enabled)

lemma one_numbered: "numbered_command one_record one_status one_check one_clock = one_command" "update_Valid one_command" "command_floor one_record one_status = 0"
  by code_simp+

lemma one_record_values: "ur_Requests one_record = []" "ur_RequestID one_record = []" "uc_ID (ur_Command one_record) = 0" "ur_Status one_record = Some one_status" "rc_Created one_clock = unix_epoch"
  by (simp_all add: one_record_def no_record_def one_clock_def)

lemma one_requested_values:
  "um_records (fst one_requested) = [(device_key (device_of one_device), requested (device_of one_device) ''ops'' ''r1'' one_command unix_epoch one_record)]"
  "um_fault (fst one_requested) = False" "um_config (fst one_requested) = one_config"
proof -
  have r: "one_reported = (fst one_reported, snd one_reported)" by simp
  show "um_records (fst one_requested) = [(device_key (device_of one_device), requested (device_of one_device) ''ops'' ''r1'' one_command unix_epoch one_record)]"
    "um_fault (fst one_requested) = False" "um_config (fst one_requested) = one_config"
    unfolding one_requested_def by (subst r, simp only: one_reported_values,
      simp add: one_record_values one_numbered update_request_def request_begin_def record_at_def Let_def snapshotLocked_def manager_of_def maxDevices_def update_commit_def maxStateBytes_def commit_publish_def)+
qed

lemma one_pending: "pending_command (fst one_requested) one_device unix_epoch = Some one_command"
proof -
  have "\<not> uc_Expires one_command \<le> Unix unix_epoch" "uc_ID one_command \<noteq> 0" "\<not> us_LastCommand one_status \<ge> uc_ID one_command" by code_simp+
  then show ?thesis
    by (simp add: pending_command_def Let_def one_requested_values update_enabled_def one_enabled requested_def accepted_command_def one_record_def no_record_def)
qed

definition one_before :: update_server where
  "one_before = \<lparr>sv_manager = fst one_reported, sv_file = snd one_reported, sv_before = None, sv_job = None, sv_sent = []\<rparr>"

definition one_open :: update_server where
  "one_open = \<lparr>sv_manager = BeginSession one_device ''boot'' (manager_of one_config []), sv_file = Absent, sv_before = None, sv_job = None, sv_sent = []\<rparr>"

lemma one_opened: "update_reach length one_open"
  using reach_session [OF update_reach.start [OF one_Validate], of length one_device "''boot''"] by (simp add: one_open_def first_start_def)

lemma one_report: "\<exists>e. Report length Durable one_device ''boot'' 1 one_status (unix_epoch, unix_epoch) (sv_manager one_open, sv_file one_open) = (e, fst one_reported, snd one_reported)"
  unfolding one_open_def one_reported_def by (simp add: prod_eq_iff)

lemma one_request: "\<exists>r. update_request length Durable ''ops'' (device_of one_device) ''r1'' one_check one_clock (sv_manager one_before, sv_file one_before) = (r, fst one_requested, snd one_requested)"
  unfolding one_before_def one_requested_def by (simp add: prod_eq_iff)

lemma one_before_reached: "update_reach length one_before"
  using one_report reach_Report [OF one_opened] by (fastforce simp: one_open_def one_before_def)

lemma one_reached: "update_reach length one_server"
  using one_request reach_request [OF one_before_reached] by (fastforce simp: one_before_def one_server_def)

definition one_answer :: "u8 list" where
  "one_answer = Pending (fst one_requested) one_device unix_epoch"

lemma one_answer_sent: "one_answer \<noteq> []"
proof -
  have "\<exists>b. update_Encode one_command = Inr b \<and> b \<noteq> []" using one_numbered(2) by (simp add: update_Encode_def)
  then show ?thesis using one_pending by (auto simp: one_answer_def Pending_def)
qed

theorem commands_go_forward_witness:
  "\<exists>x y. DecodeUpdateCommand one_answer = Inr x \<and> DecodeUpdateCommand one_answer = Inr y \<and> (y = x \<or> uc_ID x < uc_ID y)"
proof -
  have p: "Pending (sv_manager one_server) one_device unix_epoch = one_answer" by (simp add: one_server_def one_answer_def)
  then have "update_reach length (one_server\<lparr>sv_sent := [(device_of one_device, one_answer)]\<rparr>)"
    using reach_poll [OF one_reached, of one_device unix_epoch] one_answer_sent by (simp add: one_server_def)
  from reach_poll [OF this, of one_device unix_epoch] p one_answer_sent
  have "update_reach length (one_server\<lparr>sv_sent := [(device_of one_device, one_answer), (device_of one_device, one_answer)]\<rparr>)" by simp
  from commands_go_forward [OF this, of 0 1] show ?thesis by simp
qed

section \<open>Stops and restarts\<close>

text \<open>C35: A stop at any moment leaves a state the manager starts from, and a restart forgets nothing a device is told. Whenever the process stops, in the middle of a commit or after a fault, each
  file the disk may then hold loads, so a valid configuration opens; and when no commit was under way or uncertain, the manager opened on it answers every poll of every device as the one
  before it did, although unchanged reports are never written.\<close>

theorem restart_recovers:
  assumes "update_reach bytes s" "f = sv_file s \<or> sv_before s = Some f" "update_Validate config = None" "uf_StateFile config \<noteq> []"
  shows "\<exists>rs. update_Open config f = Inr (Some (manager_of config rs)) \<and> update_Preflight config f = None \<and>
     (sv_job s = None \<and> \<not> um_fault (sv_manager s) \<and> config = um_config (sv_manager s) \<longrightarrow>
        (\<forall>c now. Pending (manager_of config rs) c now = Pending (sv_manager s) c now))"
proof -
  have inv: "update_inv bytes s" by (rule update_inv_reach [OF assms(1)])
  obtain q where q: "loadRecords (settled s) = Inr q" "same_records (um_records (sv_manager s)) q" using inv by (auto simp: update_inv_def Let_def)
  have "sv_job s = None \<Longrightarrow> \<not> um_fault (sv_manager s) \<Longrightarrow> f = settled s" using inv assms(2) by (auto simp: update_inv_def Let_def)
  moreover obtain rs where rs: "loadRecords f = Inr rs" using inv assms(2) by (auto simp: update_inv_def Let_def settled_def)
  ultimately have "sv_job s = None \<and> \<not> um_fault (sv_manager s) \<and> config = um_config (sv_manager s) \<longrightarrow> (\<forall>c now. Pending (manager_of config rs) c now = Pending (sv_manager s) c now)"
    using q same_pending [OF q(2)] by (auto simp: Pending_def)
  with rs assms(3,4) show ?thesis by (auto simp: update_Open_def update_Preflight_def)
qed

theorem restart_recovers_witness:
  "\<exists>rs. update_Open one_config (sv_file one_server) = Inr (Some (manager_of one_config rs)) \<and> (\<forall>c now. Pending (manager_of one_config rs) c now = Pending (sv_manager one_server) c now)"
  using restart_recovers [OF one_reached _ one_Validate, of "sv_file one_server"] by (auto simp: one_server_def one_requested_values)

section \<open>A request is answered once\<close>

lemma find_fresh: "find P xs = None \<Longrightarrow> P y \<Longrightarrow> find P (keep_newest (xs @ [y])) = Some y"
proof -
  assume "find P xs = None" "P y"
  then have "find P (drop n xs) = None" for n by (auto simp: find_None_iff dest: in_set_dropD)
  moreover have "maxHistory \<noteq> 0" by (simp add: maxHistory_def)
  moreover have "find P (as @ [y]) = Some y" if "find P as = None" for as using that \<open>P y\<close> by (induction as) (auto split: if_splits)
  ultimately show ?thesis using \<open>find P xs = None\<close> by (auto simp: keep_newest_def)
qed

lemma replayed_requested [simp]:
  "replayed \<lparr>ra_ID = rid, ra_Actor = actor, ra_Created = now, ra_Command = command\<rparr> (requested d actor rid command now r) = requested d actor rid command now r"
  by (simp add: replayed_def requested_def)

lemma request_fresh:
  assumes "update_request bytes disk actor d rid command clock (m, f) = (Inr r, m', f')" "m' \<noteq> m"
  obtains s r0 where "r0 = record_at (um_records m) (device_key d)" "find (\<lambda>p. ra_ID p = rid) (ur_Requests r0) = None" "ur_Status r0 = Some s" "command_floor r0 s \<noteq> - 1"
    "update_Valid (numbered_command r0 s command clock)" "r = requested d actor rid (numbered_command r0 s command clock) (rc_Created clock) r0"
    "m' = m\<lparr>um_records := AList.update (device_key d) r (um_records m)\<rparr>" "f' = commit_file bytes (um_records m')" "\<not> um_fault m" "bytes (um_records m') \<le> maxStateBytes"
  using assms
  by (auto simp: update_request_def request_begin_def Let_def update_commit_def commit_publish_def snapshotLocked_def split: option.splits if_splits begun.splits sum.splits)

lemma request_settled:
  assumes "update_request bytes Durable actor d rid command clock (m, f) = (Inr r, m', f')" "m' \<noteq> m" "um_records m = rs"
  shows "same_arguments actor command (ur_Actor r) (ur_Command r)" "uc_ID (ur_Command (record_at rs (device_key d))) < uc_ID (ur_Command r)"
    "\<exists>s. ur_Status (record_at rs (device_key d)) = Some s \<and> us_LastCommand s < uc_ID (ur_Command r)"
    "st_records f' = Some (um_records m') \<and> map_of (um_records m') (device_key d) = Some r"
    "device_of c = d \<and> update_enabled m d \<and> Unix now < uc_Expires (ur_Command r) \<longrightarrow> DecodeUpdateCommand (Pending m' c now) = Inr (ur_Command r)"
proof -
  obtain s r0 where r0: "r0 = record_at (um_records m) (device_key d)" "find (\<lambda>p. ra_ID p = rid) (ur_Requests r0) = None" "ur_Status r0 = Some s" "command_floor r0 s \<noteq> - 1"
    and valid: "update_Valid (numbered_command r0 s command clock)" and r: "r = requested d actor rid (numbered_command r0 s command clock) (rc_Created clock) r0"
    and m': "m' = m\<lparr>um_records := AList.update (device_key d) r (um_records m)\<rparr>" "f' = commit_file bytes (um_records m')" "\<not> um_fault m"
    by (rule request_fresh [OF assms(1,2)]) blast
  have at_key: "map_of (um_records m') (device_key d) = Some r" using m' by (simp add: update_conv)
  show "same_arguments actor command (ur_Actor r) (ur_Command r)" using r by (simp add: same_arguments_def requested_def numbered_command_def)
  show "uc_ID (ur_Command (record_at rs (device_key d))) < uc_ID (ur_Command r)" using numbered_above(1) [OF r0(4)] r r0(1) assms(3) by (simp add: requested_def)
  show "\<exists>s. ur_Status (record_at rs (device_key d)) = Some s \<and> us_LastCommand s < uc_ID (ur_Command r)"
    using numbered_above(2) [OF r0(4)] r r0(1,3) assms(3) by (simp add: requested_def)
  show "st_records f' = Some (um_records m') \<and> map_of (um_records m') (device_key d) = Some r" using m' at_key by (simp add: commit_file_def)
  show "device_of c = d \<and> update_enabled m d \<and> Unix now < uc_Expires (ur_Command r) \<longrightarrow> DecodeUpdateCommand (Pending m' c now) = Inr (ur_Command r)"
  proof
    assume c: "device_of c = d \<and> update_enabled m d \<and> Unix now < uc_Expires (ur_Command r)"
    have "\<not> uc_ID (numbered_command r0 s command clock) \<le> us_LastCommand s" using numbered_above(2) [OF r0(4)] by (simp add: not_le)
    then have "uc_ID (ur_Command r) \<noteq> 0" "\<not> accepted_command r" using valid r r0(3) by (simp_all add: update_Valid_def accepted_command_def requested_def)
    then have "pending_command m' c now = Some (ur_Command r)" using c m' at_key by (simp add: pending_command_def Let_def update_enabled_def not_le)
    moreover obtain p where "update_Encode (ur_Command r) = Inr p" using valid r by (auto simp: update_Encode_def requested_def)
    ultimately show "DecodeUpdateCommand (Pending m' c now) = Inr (ur_Command r)" using update.dec_iff valid r by (simp add: Pending_def requested_def)
  qed
qed

text \<open>A record remembers a request: it is among the requests, the first of its name, with at most \<open>n\<close> after it.\<close>

definition remembers :: "string \<Rightarrow> request_audit \<Rightarrow> nat \<Rightarrow> update_records \<Rightarrow> bool" where
  "remembers key a n rs \<longleftrightarrow>
     (\<exists>r pre post. map_of rs key = Some r \<and> ur_Requests r = pre @ a # post \<and> length post \<le> n \<and> list_all (\<lambda>p. ra_ID p \<noteq> ra_ID a) pre)"

lemma remembers_weaken: "remembers key a n rs \<Longrightarrow> n \<le> k \<Longrightarrow> remembers key a k rs"
  unfolding remembers_def by (meson order_trans)

lemma remembers_find: "remembers key a n rs \<Longrightarrow> find (\<lambda>p. ra_ID p = ra_ID a) (ur_Requests (record_at rs key)) = Some a"
proof -
  have "find (\<lambda>p. ra_ID p = i) (pre @ a # post) = Some a" if "list_all (\<lambda>p. ra_ID p \<noteq> i) pre" "ra_ID a = i" for i pre post
    using that by (induction pre) auto
  then show "remembers key a n rs \<Longrightarrow> ?thesis" by (auto simp: remembers_def record_at_def)
qed

lemma remembers_update:
  assumes "remembers key a n rs" "k = key \<Longrightarrow> ur_Requests r = ur_Requests (record_at rs key)"
  shows "remembers key a n (AList.update k r rs)"
proof -
  obtain q pre post where q: "map_of rs key = Some q" "ur_Requests q = pre @ a # post" "length post \<le> n" "list_all (\<lambda>p. ra_ID p \<noteq> ra_ID a) pre"
    using assms(1) unfolding remembers_def by blast
  have "\<exists>q'. map_of (AList.update k r rs) key = Some q' \<and> ur_Requests q' = ur_Requests q"
    using q(1) assms(2) by (simp add: update_conv record_at_def)
  with q show ?thesis unfolding remembers_def by metis
qed

lemma keep_newest_append:
  assumes "length post < maxHistory"
  shows "\<exists>pre'. keep_newest (pre @ a # post) = pre' @ a # post \<and> set pre' \<subseteq> set pre"
proof (cases "length (pre @ a # post) > maxHistory")
  case True
  then have "length (pre @ a # post) - maxHistory \<le> length pre" using assms by simp
  then show ?thesis using True by (auto simp: keep_newest_def dest: in_set_dropD)
qed (auto simp: keep_newest_def)

lemma remembers_requested:
  assumes "remembers (device_key d) a n rs" "Suc n < maxHistory"
  shows "remembers (device_key d) a (Suc n) (AList.update (device_key d) (requested d actor rid command now (record_at rs (device_key d))) rs)"
proof -
  obtain r pre post where r: "map_of rs (device_key d) = Some r" "ur_Requests r = pre @ a # post" "length post \<le> n" "list_all (\<lambda>p. ra_ID p \<noteq> ra_ID a) pre"
    using assms(1) by (auto simp: remembers_def)
  let ?x = "\<lparr>ra_ID = rid, ra_Actor = actor, ra_Created = now, ra_Command = command\<rparr>"
  obtain pre' where "keep_newest (pre @ a # post @ [?x]) = pre' @ a # post @ [?x]" "set pre' \<subseteq> set pre" using keep_newest_append [of "post @ [?x]" pre a] r(3) assms(2) by auto
  moreover have "list_all (\<lambda>p. ra_ID p \<noteq> ra_ID a) pre'" using r(4) calculation(2) by (auto simp: list_all_iff)
  moreover have "length (post @ [?x]) \<le> Suc n" using r(3) by simp
  ultimately show ?thesis using r(1,2) unfolding remembers_def
    by (intro exI [of _ "requested d actor rid command now r"] exI [of _ pre'] exI [of _ "post @ [?x]"]) (simp add: update_conv record_at_def requested_def)
qed

text \<open>So does a server: the manager, the file it would start from, and a commit under way.\<close>

definition server_remembers :: "string \<Rightarrow> request_audit \<Rightarrow> nat \<Rightarrow> update_server \<Rightarrow> bool" where
  "server_remembers key a n s \<longleftrightarrow> remembers key a n (um_records (sv_manager s)) \<and>
     (\<forall>f rs. (f = sv_file s \<or> sv_before s = Some f) \<and> loadRecords f = Inr rs \<longrightarrow> remembers key a n rs) \<and> (\<forall>j. sv_job s = Some j \<longrightarrow> remembers key a n (cj_candidate j))"

text \<open>What the two writers begin, as far as a record's requests and its session go.\<close>

lemma report_shape:
  fixes m :: update_manager and c :: observer_context
  defines "key \<equiv> device_key (device_of c)"
  shows "(\<exists>e. report_begin m c session sequence status clock = Finished e m) \<or>
    session_of m key = session \<and> session \<noteq> [] \<and> \<not> (ur_Session (record_at (um_records m) key) = session \<and> sequence \<le> ur_Sequence (record_at (um_records m) key)) \<and>
    (\<exists>r. ur_Requests r = ur_Requests (record_at (um_records m) key) \<and> ur_Session r = session \<and> ur_Sequence r = sequence \<and>
       ((\<exists>e. report_begin m c session sequence status clock = Finished e (m\<lparr>um_records := AList.update key r (um_records m)\<rparr>)) \<or>
        report_begin m c session sequence status clock = Committing key r (AList.update key r (um_records m))))"
proof -
  let ?r = "record_at (um_records m) key" let ?r' = "reported c session sequence status (fst clock) ?r"
  let ?r'' = "?r'\<lparr>ur_Transitions := keep_newest (ur_Transitions ?r @ [\<lparr>ut_At = snd clock, ut_Status = status, ut_HardwareTrust = report_trust c\<rparr>])\<rparr>"
  have f: "ur_Requests ?r' = ur_Requests ?r \<and> ur_Session ?r' = session \<and> ur_Sequence ?r' = sequence" "ur_Requests ?r'' = ur_Requests ?r \<and> ur_Session ?r'' = session \<and> ur_Sequence ?r'' = sequence"
    by (simp_all add: reported_def)
  have b: "report_begin m c session sequence status clock =
     (if \<not> update_enabled m (device_of c) \<or> session_of m key \<noteq> session \<or> session = [] then Finished None m
      else if ur_Session ?r = session \<and> sequence \<le> ur_Sequence ?r then Finished None m
      else if \<not> report_changed (ur_Status ?r) status (ur_HardwareTrust ?r) (report_trust c) then Finished None (m\<lparr>um_records := AList.update key ?r' (um_records m)\<rparr>)
      else case snapshotLocked m key ?r'' of Inl e \<Rightarrow> Finished (Some e) m | Inr candidate \<Rightarrow> Committing key ?r'' candidate)"
    unfolding report_begin_def Let_def key_def ..
  have s: "(\<exists>e. snapshotLocked m key ?r'' = Inl e) \<or> snapshotLocked m key ?r'' = Inr (AList.update key ?r'' (um_records m))" by (simp add: snapshotLocked_def)
  show ?thesis
  proof (cases "(\<not> update_enabled m (device_of c) \<or> session_of m key \<noteq> session \<or> session = []) \<or> (ur_Session ?r = session \<and> sequence \<le> ur_Sequence ?r)")
    case True
    then have "report_begin m c session sequence status clock = Finished None m" unfolding b by (auto simp only: if_True if_False split: if_split)
    then show ?thesis by blast
  next
    case False
    then have g: "session_of m key = session \<and> session \<noteq> [] \<and> \<not> (ur_Session ?r = session \<and> sequence \<le> ur_Sequence ?r)" by blast
    show ?thesis
    proof (cases "report_changed (ur_Status ?r) status (ur_HardwareTrust ?r) (report_trust c)")
      case True
      then have e: "report_begin m c session sequence status clock = (case snapshotLocked m key ?r'' of Inl e \<Rightarrow> Finished (Some e) m | Inr candidate \<Rightarrow> Committing key ?r'' candidate)"
        using False unfolding b by (simp only: if_False de_Morgan_disj not_not simp_thms)
      from s show ?thesis
      proof (elim disjE exE)
        fix err assume "snapshotLocked m key ?r'' = Inl err"
        then show ?thesis using e by auto
      next
        assume "snapshotLocked m key ?r'' = Inr (AList.update key ?r'' (um_records m))"
        then have "report_begin m c session sequence status clock = Committing key ?r'' (AList.update key ?r'' (um_records m))" unfolding e by (simp only: sum.case)
        then show ?thesis using g f(2) by blast
      qed
    next
      case unchanged: False
      then have "report_begin m c session sequence status clock = Finished None (m\<lparr>um_records := AList.update key ?r' (um_records m)\<rparr>)"
        using False unfolding b by (simp only: if_False if_True de_Morgan_disj not_not simp_thms)
      then show ?thesis using g f(1) by blast
    qed
  qed
qed

lemma request_shape:
  fixes m :: update_manager and d :: device
  defines "key \<equiv> device_key d"
  shows "(\<exists>e. request_begin m actor d rid command clock = Finished e m) \<or>
    (\<exists>cmd now. let r = requested d actor rid cmd now (record_at (um_records m) key) in request_begin m actor d rid command clock = Committing key r (AList.update key r (um_records m)))"
  by (auto simp: request_begin_def Let_def snapshotLocked_def key_def split: option.split)

lemma requested_fields [simp]:
  "ur_Session (requested d actor rid cmd now r) = ur_Session r" "ur_Sequence (requested d actor rid cmd now r) = ur_Sequence r"
  by (simp_all add: requested_def)

lemma remembers_take_up:
  assumes s: "server_remembers key a n s" "n \<le> k"
    and b: "case b of Finished _ m \<Rightarrow> remembers key a k (um_records m) | Committing _ _ candidate \<Rightarrow> remembers key a k candidate"
  shows "server_remembers key a k (take_up b s)"
  using s b remembers_weaken [OF _ s(2)] by (cases b) (auto simp: server_remembers_def take_up_def)

lemma remembers_step:
  assumes "update_step bytes e s t" "update_inv bytes s" "server_remembers key a n s" "n < maxHistory" "e = Asked key \<Longrightarrow> Suc n < maxHistory"
  shows "server_remembers key a (if e = Asked key then Suc n else n) t"
  using assms
proof (cases rule: update_step.cases)
  case (report c session sequence status clock)
  let ?b = "report_begin (sv_manager s) c session sequence status clock"
  have r: "remembers key a n (um_records (sv_manager s))" using assms(3) by (simp add: server_remembers_def)
  have "case ?b of Finished _ m \<Rightarrow> remembers key a n (um_records m) | Committing _ _ candidate \<Rightarrow> remembers key a n candidate"
    using report_shape [of "sv_manager s" c session sequence status clock] r by (auto intro!: remembers_update)
  then show ?thesis using remembers_take_up [OF assms(3) order_refl] report by simp
next
  case (request d actor rid command clock)
  let ?b = "request_begin (sv_manager s) actor d rid command clock"
  have r: "remembers key a n (um_records (sv_manager s))" using assms(3) by (simp add: server_remembers_def)
  show ?thesis
  proof (cases "device_key d = key")
    case True
    then have "case ?b of Finished _ m \<Rightarrow> remembers key a (Suc n) (um_records m) | Committing _ _ candidate \<Rightarrow> remembers key a (Suc n) candidate"
      using request_shape [of "sv_manager s" actor d rid command clock] r assms(5) remembers_requested [of d a n "um_records (sv_manager s)"] request(1) remembers_weaken [OF r, of "Suc n"]
      by (auto simp: Let_def)
    then show ?thesis using remembers_take_up [OF assms(3), of "Suc n"] request True by simp
  next
    case False
    then have "case ?b of Finished _ m \<Rightarrow> remembers key a n (um_records m) | Committing _ _ candidate \<Rightarrow> remembers key a n candidate"
      using request_shape [of "sv_manager s" actor d rid command clock] r by (auto simp: Let_def intro!: remembers_update)
    then show ?thesis using remembers_take_up [OF assms(3) order_refl] request False by simp
  qed
next
  case (commit_renames j)
  have "records_ok (cj_candidate j)" using assms(2) commit_renames by (auto simp: update_inv_def job_ok_def Let_def)
  then have "loadRecords (commit_file bytes (cj_candidate j)) = Inr (cj_candidate j)" using loads_commit commit_renames by blast
  then show ?thesis using assms(3) commit_renames by (auto simp: server_remembers_def)
next
  case (commit_ends j synced)
  have "cj_candidate j = AList.update (cj_key j) (cj_record j) (um_records (sv_manager s))" using assms(2) commit_ends by (auto simp: update_inv_def job_ok_def Let_def)
  then show ?thesis using assms(3) commit_ends by (auto simp: server_remembers_def commit_publish_def)
next
  case (restart f config m)
  then obtain rs where "loadRecords f = Inr rs" "um_records m = rs" by (auto simp: update_Open_def manager_of_def split: option.splits if_splits sum.splits)
  then show ?thesis using assms(3) restart by (auto simp: server_remembers_def)
qed (auto simp: server_remembers_def)

lemma remembers_run:
  assumes "update_run bytes es s t" "update_reach bytes s" "server_remembers key a 0 s" "length (filter (\<lambda>e. e = Asked key) es) < maxHistory"
  shows "server_remembers key a (length (filter (\<lambda>e. e = Asked key) es)) t"
  using assms
proof (induction rule: update_run.induct)
  case (more es s t e u)
  then have "server_remembers key a (length (filter (\<lambda>e. e = Asked key) es)) t" by (simp split: if_splits)
  from remembers_step [OF more.hyps(2) update_inv_reach [OF reach_run [OF more.hyps(1) more.prems(1)]] this] more.prems(3)
  show ?case by (auto split: if_splits)
qed simp

lemma request_remembered:
  assumes "update_request bytes disk actor d rid command clock (m, f) = (Inr r, m', f')" "m' \<noteq> m" "sv_job s = None" "sv_before s = None"
  shows "server_remembers (device_key d) \<lparr>ra_ID = rid, ra_Actor = ur_Actor r, ra_Created = ur_Created r, ra_Command = ur_Command r\<rparr> 0 (s\<lparr>sv_manager := m', sv_file := f'\<rparr>)"
proof -
  obtain st r0 where r0: "r0 = record_at (um_records m) (device_key d)" "find (\<lambda>p. ra_ID p = rid) (ur_Requests r0) = None"
    and r: "r = requested d actor rid (numbered_command r0 st command clock) (rc_Created clock) r0"
    and m': "m' = m\<lparr>um_records := AList.update (device_key d) r (um_records m)\<rparr>" "f' = commit_file bytes (um_records m')"
    by (rule request_fresh [OF assms(1,2)]) blast
  let ?a = "\<lparr>ra_ID = rid, ra_Actor = ur_Actor r, ra_Created = ur_Created r, ra_Command = ur_Command r\<rparr>"
  have a: "ur_Requests r = keep_newest (ur_Requests r0 @ [?a])" by (simp add: r requested_def)
  obtain pre where pre: "keep_newest (ur_Requests r0 @ [?a]) = pre @ [?a]" "set pre \<subseteq> set (ur_Requests r0)" using keep_newest_append [of "[]" "ur_Requests r0" ?a] by (auto simp: maxHistory_def)
  have "list_all (\<lambda>p. ra_ID p \<noteq> rid) pre" using pre(2) r0(2) by (auto simp: list_all_iff find_None_iff)
  then have "remembers (device_key d) ?a 0 (um_records m')" using a pre(1) m'(1) by (auto simp: remembers_def update_conv)
  moreover have "rs = um_records m'" if "loadRecords f' = Inr rs" for rs using that m'(2) by (auto simp: loadRecords_def commit_file_def split: if_splits)
  ultimately show ?thesis using assms(3,4) by (auto simp: server_remembers_def)
qed

text \<open>C36: A request that goes through is answered once. It carries the arguments given under a number above the device's last command and above the last the device reported; the file written holds
  it, and the device is handed exactly it until it expires. On every run that follows, with reports, commits that fail at any stage, stops and restarts, and fewer than 32 further requests for the
  device, the same request again, whatever the storage does, gets the same command and audit as its answer and changes nothing, while other arguments under its name are refused.\<close>

theorem request_once:
  assumes "update_reach bytes s" "sv_job s = None" "sv_before s = None"
    "update_request bytes Durable actor d rid command clock (sv_manager s, sv_file s) = (Inr r, m', f')" "m' \<noteq> sv_manager s"
    "update_run bytes es (s\<lparr>sv_manager := m', sv_file := f'\<rparr>) t" "length (filter (\<lambda>e. e = Asked (device_key d)) es) < 32"
  shows "same_arguments actor command (ur_Actor r) (ur_Command r) \<and> uc_ID (ur_Command (record_at (um_records (sv_manager s)) (device_key d))) < uc_ID (ur_Command r) \<and>
     (\<exists>status. ur_Status (record_at (um_records (sv_manager s)) (device_key d)) = Some status \<and> us_LastCommand status < uc_ID (ur_Command r)) \<and>
     st_records f' = Some (um_records m') \<and> map_of (um_records m') (device_key d) = Some r \<and>
     (\<forall>c now. device_of c = d \<and> update_enabled (sv_manager s) d \<and> Unix now < uc_Expires (ur_Command r) \<longrightarrow> DecodeUpdateCommand (Pending m' c now) = Inr (ur_Command r)) \<and>
     (\<exists>r'. ur_Command r' = ur_Command r \<and> ur_RequestID r' = rid \<and> ur_Actor r' = ur_Actor r \<and> ur_Created r' = ur_Created r \<and>
       (\<forall>bytes' disk' actor' command' clock' f. update_request bytes' disk' actor' d rid command' clock' (sv_manager t, f) =
          ((if same_arguments actor command actor' command' then Inr r' else Inl RequestReused), sv_manager t, f)))"
proof -
  let ?key = "device_key d" let ?a = "\<lparr>ra_ID = rid, ra_Actor = ur_Actor r, ra_Created = ur_Created r, ra_Command = ur_Command r\<rparr>"
  note now = request_settled [OF assms(4,5) refl]
  have "server_remembers ?key ?a (length (filter (\<lambda>e. e = Asked ?key) es)) t"
    using remembers_run [OF assms(6) reach_request [OF assms(1-3) _ assms(4)] request_remembered [OF assms(4,5,2,3)]] assms(7) by (simp add: maxHistory_def)
  then have "remembers ?key ?a (length (filter (\<lambda>e. e = Asked ?key) es)) (um_records (sv_manager t))" unfolding server_remembers_def by (elim conjE)
  from remembers_find [OF this] have f: "find (\<lambda>p. ra_ID p = rid) (ur_Requests (record_at (um_records (sv_manager t)) ?key)) = Some ?a" by simp
  have "update_request bytes' disk' actor' d rid command' clock' (sv_manager t, f) =
      ((if same_arguments actor command actor' command' then Inr (replayed ?a (record_at (um_records (sv_manager t)) ?key)) else Inl RequestReused), sv_manager t, f)"
    for bytes' disk' actor' command' clock' f
    using f now(1) by (auto simp: update_request_def request_begin_def Let_def same_arguments_def)
  then have "\<exists>r'. ur_Command r' = ur_Command r \<and> ur_RequestID r' = rid \<and> ur_Actor r' = ur_Actor r \<and> ur_Created r' = ur_Created r \<and>
       (\<forall>bytes' disk' actor' command' clock' f. update_request bytes' disk' actor' d rid command' clock' (sv_manager t, f) =
          ((if same_arguments actor command actor' command' then Inr r' else Inl RequestReused), sv_manager t, f))"
    by (intro exI [of _ "replayed ?a (record_at (um_records (sv_manager t)) ?key)"]) (simp add: replayed_def)
  with now show ?thesis by simp
qed

theorem request_once_witness:
  "\<exists>m r. update_Open one_config (snd one_requested) = Inr (Some m) \<and> ur_Command r = one_command \<and>
     update_request length MarshalFails ''ops'' (device_of one_device) ''r1'' one_check one_clock (m, snd one_requested) = (Inr r, m, snd one_requested)"
proof -
  let ?d = "device_of one_device" let ?r = "requested ?d ''ops'' ''r1'' one_command unix_epoch one_record"
  obtain result where "update_request length Durable ''ops'' ?d ''r1'' one_check one_clock (sv_manager one_before, sv_file one_before) = (result, fst one_requested, snd one_requested)"
    using one_request by blast
  moreover have "fst (update_request length Durable ''ops'' ?d ''r1'' one_check one_clock (fst one_reported, snd one_reported)) = Inr ?r"
    by (simp add: one_reported_values one_record_values one_numbered update_request_def request_begin_def record_at_def Let_def snapshotLocked_def manager_of_def maxDevices_def update_commit_def
        maxStateBytes_def)
  ultimately have q: "update_request length Durable ''ops'' ?d ''r1'' one_check one_clock (sv_manager one_before, sv_file one_before) = (Inr ?r, fst one_requested, snd one_requested)"
    by (simp add: one_before_def)
  have "um_records (fst one_requested) \<noteq> um_records (fst one_reported)" by (simp add: one_requested_values one_reported_values manager_of_def requested_def one_record_def no_record_def)
  then have n: "fst one_requested \<noteq> sv_manager one_before" by (auto simp: one_before_def)
  obtain rs where rs: "update_Open one_config (sv_file one_server) = Inr (Some (manager_of one_config rs))" using restart_recovers [OF one_reached _ one_Validate, of "sv_file one_server"] by auto
  let ?s = "one_before\<lparr>sv_manager := fst one_requested, sv_file := snd one_requested\<rparr>" let ?t = "?s\<lparr>sv_manager := manager_of one_config rs, sv_file := snd one_requested, sv_before := None, sv_job := None\<rparr>"
  have "update_step length Restarted ?s ?t" by (rule update_step.restart [where config = one_config]) (use rs in \<open>simp_all add: one_server_def\<close>)
  then have run: "update_run length ([] @ [Restarted]) ?s ?t" by (rule update_run.more [OF update_run.stay])
  have "same_arguments ''ops'' one_check ''ops'' one_check" by code_simp
  then obtain r where "ur_Command r = ur_Command ?r" "update_request length MarshalFails ''ops'' ?d ''r1'' one_check one_clock (sv_manager ?t, snd one_requested) = (Inr r, sv_manager ?t, snd one_requested)"
    using request_once [OF one_before_reached _ _ q n run] by (auto simp: one_before_def)
  then show ?thesis using rs by (auto simp: one_server_def requested_def)
qed

section \<open>A report counts once\<close>

text \<open>A server takes no report of a session up to a number: the session is not the device's, or the record of the device, and the one being written, is of that session at least as far.\<close>

definition counted :: "string \<Rightarrow> u64 \<Rightarrow> update_record \<Rightarrow> bool" where
  "counted session sequence r \<longleftrightarrow> ur_Session r = session \<and> sequence \<le> ur_Sequence r"

definition closed_to :: "string \<Rightarrow> string \<Rightarrow> u64 \<Rightarrow> update_server \<Rightarrow> bool" where
  "closed_to key session sequence s \<longleftrightarrow> session_of (sv_manager s) key \<noteq> session \<or>
     counted session sequence (record_at (um_records (sv_manager s)) key) \<and> (\<forall>j. sv_job s = Some j \<and> cj_key j = key \<longrightarrow> counted session sequence (cj_record j))"

lemma record_at_update: "record_at (AList.update k r rs) key = (if k = key then r else record_at rs key)"
  by (simp add: record_at_def update_conv)

lemma session_opened: "session_of (BeginSession c session m) key \<noteq> session_of m key \<Longrightarrow> key = device_key (device_of c) \<and> session_of (BeginSession c session m) key = session"
  by (auto simp: BeginSession_def session_of_def Let_def update_conv split: if_splits)

lemma closed_step:
  assumes "update_step bytes e s t" "closed_to key session sequence s" "e \<noteq> Opened key session" "session \<noteq> []"
  shows "closed_to key session sequence t"
  using assms
proof (cases rule: update_step.cases)
  case (session c session')
  then show ?thesis using assms(2,3) session_opened [of c session' "sv_manager s" key] by (auto simp: closed_to_def)
next
  case (report c session' sequence' status clock)
  have k: "session_of (m\<lparr>um_records := rs\<rparr>) = session_of m" for m rs by (simp add: session_of_def fun_eq_iff)
  show ?thesis
    using report_shape [of "sv_manager s" c session' sequence' status clock] assms(2) report
    by (elim disjE exE conjE) (auto simp: closed_to_def take_up_def counted_def record_at_update k)
next
  case (request d actor rid command clock)
  then show ?thesis
    using request_shape [of "sv_manager s" actor d rid command clock] assms(2) by (auto simp: closed_to_def take_up_def counted_def Let_def)
next
  case (commit_ends j synced)
  then show ?thesis using assms(2) by (auto simp: closed_to_def commit_publish_def record_at_update session_of_def)
next
  case (restart f config m)
  then have "um_active m = []" by (auto simp: update_Open_def manager_of_def split: option.splits if_splits sum.splits)
  then show ?thesis using restart assms(4) by (simp add: closed_to_def session_of_def)
qed (auto simp: closed_to_def)

lemma closed_run: "update_run bytes es s t \<Longrightarrow> closed_to key session sequence s \<Longrightarrow> Opened key session \<notin> set es \<Longrightarrow> session \<noteq> [] \<Longrightarrow> closed_to key session sequence t"
  by (induction rule: update_run.induct) (auto intro: closed_step)

lemma closed_report:
  "closed_to (device_key (device_of c)) session sequence s \<Longrightarrow> sequence' \<le> sequence \<Longrightarrow> Report bytes disk c session sequence' status clock (sv_manager s, f) = (None, sv_manager s, f)"
  by (auto simp: closed_to_def counted_def Report_def report_begin_def Let_def)

text \<open>C37: A report counts once. What a report changes is the record of its own device alone, and only when that device is granted, the session is the one last opened for it, and its number is
  above the last one taken from that session; the command and the requests stay, and the record holds the report. From then on, on every run, with other sessions opened and reporting, requests,
  failing commits, stops and restarts, every report of that session numbered no higher is without effect until the device opens a session of that name again.\<close>

theorem report_once:
  assumes "sv_job s = None" "Report bytes disk c session sequence status clock (sv_manager s, sv_file s) = (e, m', f')" "um_records m' \<noteq> um_records (sv_manager s)"
    "update_run bytes es (s\<lparr>sv_manager := m', sv_file := f'\<rparr>) t" "Opened (device_key (device_of c)) session \<notin> set es" "sequence' \<le> sequence"
  shows "let m = sv_manager s; key = device_key (device_of c); r = record_at (um_records m) key; r' = record_at (um_records m') key in
     update_enabled m (device_of c) \<and> session_of m key = session \<and> session \<noteq> [] \<and> \<not> (ur_Session r = session \<and> sequence \<le> ur_Sequence r) \<and>
     ur_Status r' = Some status \<and> ur_Session r' = session \<and> ur_Sequence r' = sequence \<and> ur_Command r' = ur_Command r \<and> ur_Requests r' = ur_Requests r \<and>
     (\<forall>k. k \<noteq> key \<longrightarrow> map_of (um_records m') k = map_of (um_records m) k) \<and>
     Report bytes' disk' c session sequence' status' clock' (sv_manager t, f) = (None, sv_manager t, f)"
proof -
  let ?m = "sv_manager s" let ?key = "device_key (device_of c)" let ?r = "record_at (um_records ?m) ?key"
  let ?r' = "reported c session sequence status (fst clock) ?r"
  from assms(2,3) have g: "update_enabled ?m (device_of c)" "session_of ?m ?key = session" "session \<noteq> []" "\<not> (ur_Session ?r = session \<and> sequence \<le> ur_Sequence ?r)"
    by (auto simp: Report_def report_begin_def Let_def split: if_splits)
  have "\<exists>q. m' = ?m\<lparr>um_records := AList.update ?key q (um_records ?m)\<rparr> \<and> (q = ?r' \<or> (\<exists>ts. q = ?r'\<lparr>ur_Transitions := ts\<rparr>))"
    using assms(2,3) by (auto simp: Report_def report_begin_def Let_def update_commit_def commit_publish_def snapshotLocked_def split: if_splits sum.splits begun.splits)
  then obtain q where q: "m' = ?m\<lparr>um_records := AList.update ?key q (um_records ?m)\<rparr>" "ur_Status q = Some status" "ur_Session q = session" "ur_Sequence q = sequence" "ur_Command q = ur_Command ?r" "ur_Requests q = ur_Requests ?r"
    by (auto simp: reported_def)
  have "closed_to ?key session sequence (s\<lparr>sv_manager := m', sv_file := f'\<rparr>)" using q assms(1) by (simp add: closed_to_def counted_def record_at_update)
  from closed_report [OF closed_run [OF assms(4) this assms(5) g(3)] assms(6)] q g show ?thesis by (simp add: Let_def update_conv record_at_update)
qed

theorem report_once_witness:
  "Report length Durable one_device ''boot'' 1 (one_status\<lparr>us_LastCommand := 9\<rparr>) (0, 0) (BeginSession one_device ''next'' (fst one_reported), Absent) =
     (None, BeginSession one_device ''next'' (fst one_reported), Absent)"
proof -
  obtain e where e: "Report length Durable one_device ''boot'' 1 one_status (unix_epoch, unix_epoch) (sv_manager one_open, sv_file one_open) = (e, fst one_reported, snd one_reported)"
    using one_report by blast
  have n: "um_records (fst one_reported) \<noteq> um_records (sv_manager one_open)" by (simp add: one_reported_values manager_of_def one_open_def)
  let ?s = "one_open\<lparr>sv_manager := fst one_reported, sv_file := snd one_reported\<rparr>"
  have run: "update_run length ([] @ [Opened (device_key (device_of one_device)) ''next'']) ?s (?s\<lparr>sv_manager := BeginSession one_device ''next'' (sv_manager ?s)\<rparr>)"
    by (rule update_run.more [OF update_run.stay update_step.session])
  from report_once [OF _ e n run _ order_refl, of "length" Durable "one_status\<lparr>us_LastCommand := 9\<rparr>" "(0, 0)" Absent] show ?thesis by (simp add: Let_def one_open_def)
qed

section \<open>One record per device\<close>

definition prepend :: "string \<Rightarrow> string \<times> string \<Rightarrow> string \<times> string" where
  "prepend u p = (u @ fst p, snd p)"

definition code_bytes :: "nat \<Rightarrow> string" where
  "code_bytes n = (if n < 128 then [char_of n] else if n = 0x2028 then [CHR 0xE2, CHR 0x80, CHR 0xA8] else [CHR 0xE2, CHR 0x80, CHR 0xA9])"

definition unescape_char :: "char \<Rightarrow> char" where
  "unescape_char e = (if e = CHR ''b'' then CHR 0x08 else if e = CHR ''f'' then CHR 0x0C else if e = CHR ''n'' then CHR 0x0A else if e = CHR ''r'' then CHR 0x0D else if e = CHR ''t'' then CHR 0x09 else e)"

text \<open>Reading a literal back: its string and what follows the closing quote.\<close>

fun json_unescape :: "string \<Rightarrow> string \<times> string" where
  "json_unescape [] = ([], [])"
| "json_unescape (c # s) =
     (if c = CHR 0x22 then ([], s)
      else if c \<noteq> CHR 0x5C then prepend [c] (json_unescape s)
      else case s of e # a # b # d # f # t \<Rightarrow>
             if e = CHR ''u'' then prepend (code_bytes (the (fromHexChar a) * 4096 + the (fromHexChar b) * 256 + the (fromHexChar d) * 16 + the (fromHexChar f))) (json_unescape t)
             else prepend [unescape_char e] (json_unescape (a # b # d # f # t))
           | e # t \<Rightarrow> prepend [unescape_char e] (json_unescape t)
           | [] \<Rightarrow> ([], []))"

declare json_unescape.simps(2) [simp del]

lemma prepend_simps [simp]: "prepend u (v, w) = (u @ v, w)" "prepend u (prepend v p) = prepend (u @ v) p" "prepend [] p = p"
  by (simp_all add: prepend_def)

lemma fromHexChar_hex_char: "n < 16 \<Longrightarrow> fromHexChar (hex_char n) = Some n"
proof -
  assume "n < 16"
  then have "n \<in> set [0..<16]" by simp
  moreover have "list_all (\<lambda>n. fromHexChar (hex_char n) = Some n) [0..<16]" by code_simp
  ultimately show ?thesis by (simp add: list_all_iff)
qed

lemma unescape_short: "e \<noteq> CHR ''u'' \<Longrightarrow> json_unescape (CHR 0x5C # e # s) = prepend [unescape_char e] (json_unescape s)"
  by (auto simp: json_unescape.simps(2) split: list.split)

lemma unescape_hex:
  assumes "n < 65536"
  shows "json_unescape (hex_escape n @ y) = prepend (code_bytes n) (json_unescape y)"
proof -
  have "n div 4096 * 4096 + n div 256 mod 16 * 256 + n div 16 mod 16 * 16 + n mod 16 = n"
  proof -
    have "n mod 256 = 16 * (n div 16 mod 16) + n mod 16" "n mod 4096 = 256 * (n div 256 mod 16) + n mod 256" using mod_mult2_eq [of n 16 16] mod_mult2_eq [of n 256 16] by simp_all
    moreover have "n = n div 4096 * 4096 + n mod 4096" by simp
    ultimately show ?thesis by linarith
  qed
  then show ?thesis using assms by (simp add: hex_escape_def json_unescape.simps(2) [of "CHR 0x5C"] fromHexChar_hex_char div_less)
qed

lemma unescape_ascii:
  assumes "a < CHR 0x80"
  shows "json_unescape (json_ascii a @ y) = prepend [a] (json_unescape y)"
proof -
  have l: "of_char a < (128 :: nat)" using assms by (simp add: less_char_def del: less_char_simp)
  then have h: "json_unescape (hex_escape (of_char a) @ y) = prepend [a] (json_unescape y)"
    by (simp add: unescape_hex code_bytes_def)
  have p: "a \<noteq> CHR 0x5C \<Longrightarrow> a \<noteq> CHR 0x22 \<Longrightarrow> json_unescape (a # y) = prepend [a] (json_unescape y)" by (simp add: json_unescape.simps(2))
  show ?thesis using h p by (simp add: json_ascii_def unescape_short unescape_char_def)
qed

lemma unescape_copy: "list_all (\<lambda>c. \<not> c < CHR 0x80) u \<Longrightarrow> json_unescape (u @ y) = prepend u (json_unescape y)"
proof (induction u)
  case (Cons c u)
  then have "c \<noteq> CHR 0x22" "c \<noteq> CHR 0x5C" by auto
  with Cons show ?case by (simp add: json_unescape.simps(2))
qed simp

lemma rune_valid:
  assumes "utf8_ValidString (a # t)" "\<not> a < CHR 0x80"
  shows "rune_length (a # t) \<noteq> 0 \<and> utf8_ValidString (drop (rune_length (a # t)) (a # t)) \<and> list_all (\<lambda>c. \<not> c < CHR 0x80) (take (rune_length (a # t)) (a # t))"
proof -
  have tail: "utf8_tail c \<Longrightarrow> \<not> c < CHR 0x80" for c by (simp add: utf8_tail_def between_def not_less)
  have asc: "\<not> between (CHR 0x00) (CHR 0x7F) a" using assms(2) by (auto simp: between_def less_char_def less_eq_char_def simp del: less_char_simp less_eq_char_simp)
  from assms(1) asc obtain b u where t: "t = b # u" by (cases t) auto
  show ?thesis
  proof (cases "between (CHR 0xC2) (CHR 0xDF) a")
    case True
    with assms asc t tail [of b] show ?thesis by (simp add: rune_length_def)
  next
    case 2: False
    from assms(1) asc t 2 obtain c v where u: "u = c # v" by (cases u) auto
    show ?thesis
    proof (cases "between (CHR 0xE0) (CHR 0xEF) a")
      case True
      with assms asc t u 2 tail [of b] tail [of c] show ?thesis by (simp add: rune_length_def)
    next
      case 3: False
      from assms(1) asc t 2 u 3 obtain d w where v: "v = d # w" by (cases v) auto
      with assms asc t u 2 3 tail [of b] tail [of c] tail [of d] show ?thesis by (simp add: rune_length_def)
    qed
  qed
qed

lemma unescape_escape: "utf8_ValidString s \<Longrightarrow> json_unescape (json_escape s @ CHR 0x22 # y) = (s, y)"
proof (induction s rule: json_escape.induct)
  case 1
  then show ?case by (simp add: json_unescape.simps(2))
next
  case (2 a t)
  show ?case
  proof (cases "a < CHR 0x80")
    case True
    then have "utf8_ValidString t" using 2(4) by (auto simp: between_def less_char_def less_eq_char_def simp del: less_char_simp less_eq_char_simp split: if_splits)
    then show ?thesis using 2(1) True unescape_ascii [OF True] by (simp add: json_escape.simps(2))
  next
    case False
    let ?n = "rune_length (a # t)" let ?u = "take ?n (a # t)" let ?r = "drop ?n (a # t)"
    note r = rune_valid [OF 2(4) False]
    have k: "?u = take 3 (a # t)" if "take 3 (a # t) = [CHR 0xE2, CHR 0x80, x]" "x \<in> {CHR 0xA8, CHR 0xA9}" for x
    proof -
      from that obtain t' where "a # t = [CHR 0xE2, CHR 0x80, x] @ t'" by (metis append_take_drop_id)
      then show ?thesis using that(2) by (auto simp: rune_length_def between_def utf8_tail_def)
    qed
    have "json_unescape ((if take 3 (a # t) = [CHR 0xE2, CHR 0x80, CHR 0xA8] then hex_escape 0x2028
        else if take 3 (a # t) = [CHR 0xE2, CHR 0x80, CHR 0xA9] then hex_escape 0x2029 else ?u) @ z) = prepend ?u (json_unescape z)" for z
      using unescape_copy [of ?u z] r k by (simp add: unescape_hex code_bytes_def)
    moreover have "json_unescape (json_escape ?r @ CHR 0x22 # y) = (?r, y)" using 2(3) False r by blast
    ultimately show ?thesis using False r by (simp add: json_escape.simps(2))
  qed
qed

lemma json_string_inject: "utf8_ValidString s \<Longrightarrow> utf8_ValidString t \<Longrightarrow> json_string s @ x = json_string t @ y \<Longrightarrow> s = t \<and> x = y"
proof -
  assume v: "utf8_ValidString s" "utf8_ValidString t" and "json_string s @ x = json_string t @ y"
  then have "json_escape s @ CHR 0x22 # x = json_escape t @ CHR 0x22 # y" unfolding json_string_def by simp
  then have "(s, x) = (t, y)" using unescape_escape [OF v(1), of x] unescape_escape [OF v(2), of y] by argo
  then show "s = t \<and> x = y" by simp
qed

definition utf8_device :: "device \<Rightarrow> bool" where
  "utf8_device d \<longleftrightarrow> utf8_ValidString (dv_Observer d) \<and> utf8_ValidString (dv_Enrollment d) \<and> utf8_ValidString (dv_Organization d) \<and> utf8_ValidString (dv_Collector d)"

lemma device_key_inject:
  assumes "utf8_device d" "utf8_device e" "device_key d = device_key e"
  shows "d = e"
proof -
  from assms(3) have k: "json_string (dv_Observer d) @ '','' @ json_string ''enrollment_id'' @ '':'' @ json_string (dv_Enrollment d) @ '','' @
     json_string ''organization_id'' @ '':'' @ json_string (dv_Organization d) @ '','' @ json_string ''collector_instance_id'' @ '':'' @ json_string (dv_Collector d) @ ''}'' =
     json_string (dv_Observer e) @ '','' @ json_string ''enrollment_id'' @ '':'' @ json_string (dv_Enrollment e) @ '','' @
     json_string ''organization_id'' @ '':'' @ json_string (dv_Organization e) @ '','' @ json_string ''collector_instance_id'' @ '':'' @ json_string (dv_Collector e) @ ''}''"
    by (simp only: device_key_def append_same_eq same_append_eq)
  note inj = assms(1,2) [unfolded utf8_device_def]
  from json_string_inject [OF _ _ k] inj have 1: "dv_Observer d = dv_Observer e"
    and k: "json_string (dv_Enrollment d) @ '','' @ json_string ''organization_id'' @ '':'' @ json_string (dv_Organization d) @ '','' @ json_string ''collector_instance_id'' @ '':'' @ json_string (dv_Collector d) @ ''}'' =
     json_string (dv_Enrollment e) @ '','' @ json_string ''organization_id'' @ '':'' @ json_string (dv_Organization e) @ '','' @ json_string ''collector_instance_id'' @ '':'' @ json_string (dv_Collector e) @ ''}''"
    by (simp_all only: same_append_eq)
  from json_string_inject [OF _ _ k] inj have 2: "dv_Enrollment d = dv_Enrollment e"
    and k: "json_string (dv_Organization d) @ '','' @ json_string ''collector_instance_id'' @ '':'' @ json_string (dv_Collector d) @ ''}'' =
     json_string (dv_Organization e) @ '','' @ json_string ''collector_instance_id'' @ '':'' @ json_string (dv_Collector e) @ ''}''"
    by (simp_all only: same_append_eq)
  from json_string_inject [OF _ _ k] inj have 3: "dv_Organization d = dv_Organization e" and k: "json_string (dv_Collector d) @ ''}'' = json_string (dv_Collector e) @ ''}''"
    by (simp_all only: same_append_eq)
  from json_string_inject [OF _ _ k] inj 1 2 3 show ?thesis by (cases d; cases e) simp
qed
section \<open>Records of retired devices\<close>

definition retired :: "nat \<Rightarrow> device" where
  "retired n = \<lparr>dv_Observer = [char_of (96 + n div 32), char_of (96 + n mod 32)], dv_Enrollment = ''enr'', dv_Organization = ''org'', dv_Collector = ''col''\<rparr>"

definition retired_records :: update_records where
  "retired_records = map (\<lambda>n. (device_key (retired n), no_record\<lparr>ur_Device := retired n\<rparr>)) [0..<maxDevices]"

definition plain_char :: "char \<Rightarrow> bool" where
  "plain_char c = (96 \<le> (of_char c :: nat) \<and> (of_char c :: nat) < 128)"

lemma json_escape_plain:
  assumes "plain_char c"
  shows "json_escape (c # s) = c # json_escape s"
proof -
  have ne: "c \<noteq> d" if "of_char d < (96 :: nat)" for d using assms that by (auto simp: plain_char_def)
  have "c \<noteq> CHR 0x5C" "c \<noteq> CHR 0x22" "c \<noteq> CHR 0x08" "c \<noteq> CHR 0x0C" "c \<noteq> CHR 0x0A" "c \<noteq> CHR 0x0D" "c \<noteq> CHR 0x09" "c \<noteq> CHR ''<''" "c \<noteq> CHR ''>''" "c \<noteq> CHR ''&''"
    by (rule ne, simp)+
  moreover have "c < CHR 0x80" "\<not> c < CHR 0x20" using assms by (simp_all add: plain_char_def less_char_def del: less_char_simp)
  ultimately show ?thesis by (simp add: json_escape.simps(2) json_ascii_def del: less_char_simp)
qed

lemma plain_low: "n < 32 \<Longrightarrow> plain_char (char_of (96 + n :: nat))"
  by (simp add: plain_char_def of_char_of)

lemma retired_key:
  assumes "n < maxDevices"
  shows "device_key (retired n) = device_key (retired k) \<Longrightarrow> k < maxDevices \<Longrightarrow> n = k"
proof -
  have p: "plain_char (char_of (96 + i div 32))" "plain_char (char_of (96 + i mod 32))" if "i < maxDevices" for i using that by (simp_all add: plain_low maxDevices_def)
  assume "device_key (retired n) = device_key (retired k)" "k < maxDevices"
  with p assms have "char_of (96 + n div 32) = (char_of (96 + k div 32) :: char)" "char_of (96 + n mod 32) = (char_of (96 + k mod 32) :: char)"
    by (simp_all add: device_key_def retired_def json_string_def json_escape_plain)
  then have "(96 + n div 32) mod 256 = (96 + k div 32) mod 256" "(96 + n mod 32) mod 256 = (96 + k mod 32) mod 256" by (metis of_char_of)+
  moreover have "n div 32 < 32" "k div 32 < 32" using assms \<open>k < maxDevices\<close> by (simp_all add: maxDevices_def)
  ultimately have "n div 32 = k div 32" "n mod 32 = k mod 32" by simp_all
  then show "n = k" by (metis div_mult_mod_eq)
qed

lemma retired_loads: "loadRecords (Stored True n True (Some retired_records)) = (if n \<le> maxStateBytes then Inr retired_records else Inl StateNotPrivate)"
  by (simp add: loadRecords_def retired_records_def record_loads_def list_all_iff)

lemma retired_distinct: "distinct (map fst retired_records)"
  using retired_key by (auto simp: retired_records_def distinct_map inj_on_def comp_def)

lemma retired_length: "n < maxDevices \<Longrightarrow> k < maxDevices \<Longrightarrow> length (device_key (retired n)) = length (device_key (retired k))"
proof -
  assume "n < maxDevices" "k < maxDevices"
  then have "plain_char (char_of (96 + n div 32))" "plain_char (char_of (96 + n mod 32))" "plain_char (char_of (96 + k div 32))" "plain_char (char_of (96 + k mod 32))" by (simp_all add: plain_low maxDevices_def)
  then show "length (device_key (retired n)) = length (device_key (retired k))" by (simp add: device_key_def retired_def json_string_def json_escape_plain)
qed

lemma retired_unknown: "map_of retired_records (device_key (device_of one_device)) = None"
proof -
  have "length (device_key (device_of one_device)) = length (device_key (retired 0)) + 2" by code_simp
  then have "n < maxDevices \<Longrightarrow> device_key (device_of one_device) \<noteq> device_key (retired n)" for n
    using retired_length [of n 0] by (auto simp: maxDevices_def)
  then have "device_key (device_of one_device) \<notin> fst ` set retired_records" unfolding retired_records_def set_map image_image by (simp add: image_iff)
  then show ?thesis by (simp only: map_of_eq_None_iff) simp
qed

text \<open>C38: The record of a device outlives its grant, so a valid configuration can reach the record limit. On a state file left by 1024 devices no longer granted, a valid configuration opens and
  its one device gets its session; every change the device reports is refused for capacity, whatever the storage does, nothing is stored, and every command for it is refused for want of a
  report.\<close>

theorem retired_devices_block:
  "\<exists>m. update_Validate one_config = None \<and> update_Open one_config (Stored True 0 True (Some retired_records)) = Inr (Some m) \<and> distinct (map fst retired_records) \<and>
     list_all (\<lambda>(key, r). \<not> update_enabled m (ur_Device r)) retired_records \<and> update_enabled m (device_of one_device) \<and>
     (let m' = BeginSession one_device ''boot'' m in
        session_of m' (device_key (device_of one_device)) = ''boot'' \<and>
        (\<forall>bytes disk sequence status clock f. Report bytes disk one_device ''boot'' sequence status clock (m', f) = (Some StateCapacity, m', f)) \<and>
        (\<forall>bytes disk actor c rid command clock f. update_request bytes disk actor (device_of one_device) (c # rid) command clock (m', f) = (Inl NoTelemetry, m', f)))"
proof -
  let ?d = "device_of one_device" let ?key = "device_key ?d" let ?m = "manager_of one_config retired_records" let ?m' = "BeginSession one_device ''boot'' ?m"
  have e: "update_enabled ?m ?d" by (simp add: update_enabled_def manager_of_def one_enabled)
  then have m': "?m' = ?m\<lparr>um_active := [(?key, ''boot'')]\<rparr>" by (simp add: BeginSession_def Let_def manager_of_def maxDevices_def)
  have e': "update_enabled ?m' d = update_enabled ?m d" for d unfolding m' by (simp add: update_enabled_def manager_of_def)
  have at_key: "record_at (um_records ?m') ?key = no_record" using retired_unknown by (simp add: record_at_def manager_of_def)
  have "length retired_records = maxDevices" by (simp add: retired_records_def)
  then have full: "snapshotLocked ?m' ?key r = Inl StateCapacity" for r using retired_unknown by (simp add: snapshotLocked_def manager_of_def)
  have "\<not> update_enabled ?m (retired n)" for n
  proof -
    have "dv_Observer ?d \<noteq> dv_Observer (retired n)" by (simp add: one_device_def device_of_def retired_def)
    moreover have "update_enabled ?m d \<Longrightarrow> d = ?d" for d by (simp add: update_enabled_def manager_of_def one_config_def)
    ultimately show ?thesis by metis
  qed
  then have "list_all (\<lambda>(key, r). \<not> update_enabled ?m (ur_Device r)) retired_records" by (simp add: retired_records_def list_all_iff)
  moreover have "Report bytes disk one_device ''boot'' sequence status clock (?m', f) = (Some StateCapacity, ?m', f)" for bytes disk sequence status clock f
    using at_key full e e' by (simp add: Report_def report_begin_def Let_def report_changed_def m' session_of_def)
  moreover have "update_request bytes disk actor ?d (c # rid) command clock (?m', f) = (Inl NoTelemetry, ?m', f)" for bytes disk actor c rid command clock f
    using at_key by (simp add: update_request_def request_begin_def Let_def)
  moreover have "session_of ?m' ?key = ''boot''" by (simp add: m' session_of_def)
  ultimately show ?thesis using retired_loads [of 0] retired_distinct e one_Validate by (simp add: update_Open_def maxStateBytes_def Let_def)
qed

end
