(* ===== verification/UpdateCatalog.thy ===== *)
theory UpdateCatalog
  imports UpdateManager
begin

text \<open>
  The published update catalog as the collector reads it, \<^verbatim>\<open>go/internal/updates/catalog.go\<close>: the chain from the timestamp to the release a channel selects, and the lifetimes of the roles. A
  tree is what the file system holds below its root, by path elements; the JSON decoders and SHA-256 are arguments. The gauges and log lines are left out.
\<close>

section \<open>Objects\<close>

datatype catalog_error =
    BadPath | NotExist | ObjectUnreadable | SymlinkRefused | ObjectLimit | HashDiffers | BadJSON | VersionDiffers | MetadataExpired | NoCatalog | UnknownChannel | MissingTarget | NoRelease
  | BadPercentage | ReleaseWithdrawn | RootChainLimit | RootVersion

datatype lstat = LstatFails catalog_error | Symlink | Plain

record catalog_tree =
  ct_lstat :: "string list \<Rightarrow> lstat"
  ct_read :: "string list \<Rightarrow> catalog_error + u8 list"

record reference =
  rf_Version :: u64
  rf_Length :: int
  rf_Hashes :: "(string \<times> string) list"

record catalog_metadata =
  cm_Version :: u64
  cm_Expires :: time
  cm_Meta :: "(string \<times> reference) list"
  cm_Targets :: "(string \<times> reference) list"

record channel_target =
  cg_Generation :: u64
  cg_Release :: u64
  cg_Percentage :: int
  cg_Priority :: string
  cg_Withdrawn :: "u64 list"
  cg_Summary :: string
  cg_Classification :: string

record choice =
  ch_Generation :: u64
  ch_Release :: u64
  ch_Percentage :: int
  ch_Advisory :: string
  ch_Priority :: string
  ch_Classification :: string

text \<open>What the code takes from elsewhere.\<close>

record decoders =
  dc_sha256 :: "u8 list \<Rightarrow> u8 list"
  dc_metadata :: "u8 list \<Rightarrow> catalog_metadata option"
  dc_target :: "u8 list \<Rightarrow> channel_target option"

text \<open>\<^verbatim>\<open>filepath.IsLocal\<close> on Unix.\<close>

definition path_IsLocal :: "string \<Rightarrow> bool" where
  "path_IsLocal s =
     (if path_IsAbs s \<or> s = [] then False
      else let c = (if list_ex (\<lambda>e. e = ''.'' \<or> e = ''..'') (split_path [] s) then path_Clean s else s) in c \<noteq> ''..'' \<and> take 3 c \<noteq> ''../'')"

fun has_dots :: "string \<Rightarrow> bool" where
  "has_dots (a # b # s) \<longleftrightarrow> (a = CHR ''.'' \<and> b = CHR ''.'') \<or> has_dots (b # s)"
| "has_dots _ \<longleftrightarrow> False"

text \<open>The walk from the object up to the root, the elements given innermost first.\<close>

fun check_links :: "catalog_tree \<Rightarrow> string list \<Rightarrow> catalog_error option" where
  "check_links t [] = None"
| "check_links t (e # es) =
     (case ct_lstat t (rev (e # es)) of LstatFails x \<Rightarrow> Some x | Symlink \<Rightarrow> Some SymlinkRefused | Plain \<Rightarrow> check_links t es)"

definition hash_of :: "reference \<Rightarrow> string" where
  "hash_of r = (case map_of (rf_Hashes r) ''sha256'' of Some h \<Rightarrow> h | None \<Rightarrow> [])"

definition catalog_object :: "decoders \<Rightarrow> catalog_tree \<Rightarrow> string \<Rightarrow> nat \<Rightarrow> reference option \<Rightarrow> catalog_error + u8 list" where
  "catalog_object dc t path limit ref =
     (if \<not> path_IsLocal path \<or> has_dots path then Inl BadPath
      else let es = clean_elements False [] (split_path [] path)
      in case check_links t (rev es) of Some e \<Rightarrow> Inl e
         | None \<Rightarrow> (case ct_read t es of Inl e \<Rightarrow> Inl e
           | Inr whole \<Rightarrow> let data = take (limit + 1) whole
             in if length data = 0 \<or> length data > limit then Inl ObjectLimit
                else case ref of None \<Rightarrow> Inr data
                  | Some r \<Rightarrow> if rf_Length r \<noteq> int (length data) \<or> length (rf_Hashes r) \<noteq> 1 \<or> hash_of r \<noteq> hex_EncodeToString (dc_sha256 dc data) then Inl HashDiffers else Inr data))"

section \<open>Metadata\<close>

definition readMetadata :: "decoders \<Rightarrow> catalog_tree \<Rightarrow> string \<Rightarrow> nat \<Rightarrow> reference option \<Rightarrow> catalog_error + catalog_metadata" where
  "readMetadata dc t path limit ref =
     (case catalog_object dc t path limit ref of Inl e \<Rightarrow> Inl e
      | Inr data \<Rightarrow> (case dc_metadata dc data of None \<Rightarrow> Inl BadJSON
        | Some md \<Rightarrow> if cm_Version md = 0 \<or> (case ref of None \<Rightarrow> False | Some r \<Rightarrow> rf_Version r \<noteq> cm_Version md) then Inl VersionDiffers else Inr md))"

fun decimal_string :: "nat \<Rightarrow> string" where
  "decimal_string n = (if n < 10 then [char_of (48 + n)] else decimal_string (n div 10) @ [char_of (48 + n mod 10)])"

declare decimal_string.simps [simp del]

definition versioned :: "u64 \<Rightarrow> string \<Rightarrow> string" where
  "versioned version name = ''metadata/'' @ decimal_string (unat version) @ ''.'' @ name @ ''.json''"

definition catalog_metadata_named :: "decoders \<Rightarrow> time \<Rightarrow> catalog_tree \<Rightarrow> string \<Rightarrow> nat \<Rightarrow> reference option \<Rightarrow> catalog_error + catalog_metadata" where
  "catalog_metadata_named dc now t name limit ref =
     (let path = (case ref of None \<Rightarrow> ''metadata/'' @ name @ ''.json'' | Some r \<Rightarrow> versioned (rf_Version r) name)
      in case readMetadata dc t path limit ref of Inl e \<Rightarrow> Inl e | Inr md \<Rightarrow> if \<not> cm_Expires md > now then Inl MetadataExpired else Inr md)"

definition no_reference :: reference where
  "no_reference = \<lparr>rf_Version = 0, rf_Length = 0, rf_Hashes = []\<rparr>"

definition ref_at :: "(string \<times> reference) list \<Rightarrow> string \<Rightarrow> reference" where
  "ref_at rs name = (case map_of rs name of Some r \<Rightarrow> r | None \<Rightarrow> no_reference)"

section \<open>The lifetimes of the roles\<close>

definition rootChainLimit :: u64 where "rootChainLimit = 256"

partial_function (option) root_walk :: "decoders \<Rightarrow> catalog_tree \<Rightarrow> u64 \<Rightarrow> time option \<Rightarrow> (catalog_error + time option) option" where
  "root_walk dc t version expiry =
     (if version > rootChainLimit then Some (Inl RootChainLimit)
      else case readMetadata dc t (versioned version ''root'') 8192 None of
          Inl e \<Rightarrow> if e = NotExist \<and> version > 1 then Some (Inr expiry) else Some (Inl e)
        | Inr md \<Rightarrow> if cm_Version md \<noteq> version then Some (Inl RootVersion) else root_walk dc t (version + 1) (Some (cm_Expires md)))"

fun role_lifetimes :: "decoders \<Rightarrow> catalog_tree \<Rightarrow> catalog_metadata \<Rightarrow> string list \<Rightarrow> (catalog_error + (string \<times> time) list)" where
  "role_lifetimes dc t snapshot [] = Inr []"
| "role_lifetimes dc t snapshot (role # roles) =
     (let ref = ref_at (cm_Meta snapshot) (role @ ''.json'')
      in case readMetadata dc t (versioned (rf_Version ref) role) 12288 (Some ref) of Inl e \<Rightarrow> Inl e
         | Inr md \<Rightarrow> (case role_lifetimes dc t snapshot roles of Inl e \<Rightarrow> Inl e | Inr rest \<Rightarrow> Inr ((role, cm_Expires md) # rest)))"

definition lifetimes :: "decoders \<Rightarrow> catalog_tree \<Rightarrow> (catalog_error + (string \<times> time) list) option" where
  "lifetimes dc t =
     (case readMetadata dc t ''metadata/timestamp.json'' 4096 None of Inl e \<Rightarrow> Some (Inl e)
      | Inr timestamp \<Rightarrow>
        (let ref = ref_at (cm_Meta timestamp) ''snapshot.json''
         in case readMetadata dc t (versioned (rf_Version ref) ''snapshot'') 8192 (Some ref) of Inl e \<Rightarrow> Some (Inl e)
            | Inr snapshot \<Rightarrow>
              (case role_lifetimes dc t snapshot [''targets'', ''releases'', ''stable'', ''canary'', ''lab''] of Inl e \<Rightarrow> Some (Inl e)
               | Inr roles \<Rightarrow>
                 (case root_walk dc t 1 None of None \<Rightarrow> None
                  | Some (Inl e) \<Rightarrow> Some (Inl e)
                  | Some (Inr last_root) \<Rightarrow>
                      Some (Inr ([(''timestamp'', cm_Expires timestamp), (''snapshot'', cm_Expires snapshot)] @ roles @ (case last_root of None \<Rightarrow> [] | Some e \<Rightarrow> [(''root'', e)])))))))"

definition offlineRoles :: "string list" where "offlineRoles = [''root'', ''targets'', ''releases'']"
definition offlineExpiryWarning :: duration where "offlineExpiryWarning = 90 * 24 * Hour"
definition onlineExpiryWarning :: duration where "onlineExpiryWarning = 7 * 24 * Hour"

definition expiryState :: "string \<Rightarrow> time \<Rightarrow> time \<Rightarrow> string" where
  "expiryState role expires now =
     (let warning = (if role \<in> set offlineRoles then offlineExpiryWarning else onlineExpiryWarning); remaining = time_Sub expires now
      in if remaining \<le> 0 then ''expired'' else if remaining < warning then ''expiring'' else '''')"

section \<open>The choice of a channel\<close>

definition repository :: "update_config \<Rightarrow> string \<Rightarrow> catalog_error + string" where
  "repository c profile =
     (let path = (if profile \<in> {''trusted'', ''unreported'', ''''} then uf_Repository c else if profile = ''open'' then uf_OpenRepository c else [])
      in if path = [] then Inl NoCatalog else Inr (path_Clean path))"

definition target_choice :: "channel_target \<Rightarrow> catalog_error + choice" where
  "target_choice v =
     (if cg_Generation v = 0 \<or> cg_Release v = 0 then Inl NoRelease
      else if cg_Percentage v < 0 \<or> cg_Percentage v > 100 then Inl BadPercentage
      else if cg_Release v \<in> set (cg_Withdrawn v) then Inl ReleaseWithdrawn
      else Inr \<lparr>ch_Generation = cg_Generation v, ch_Release = cg_Release v, ch_Percentage = cg_Percentage v, ch_Advisory = cg_Summary v, ch_Priority = cg_Priority v,
                ch_Classification = cg_Classification v\<rparr>)"

definition tree_choice :: "decoders \<Rightarrow> time \<times> time \<times> time \<Rightarrow> catalog_tree \<Rightarrow> string \<Rightarrow> catalog_error + choice" where
  "tree_choice dc clock t channel =
     (case catalog_metadata_named dc (fst clock) t ''timestamp'' 4096 None of Inl e \<Rightarrow> Inl e
      | Inr timestamp \<Rightarrow>
      (case catalog_metadata_named dc (fst (snd clock)) t ''snapshot'' 8192 (Some (ref_at (cm_Meta timestamp) ''snapshot.json'')) of Inl e \<Rightarrow> Inl e
      | Inr snapshot \<Rightarrow>
      (case catalog_metadata_named dc (snd (snd clock)) t channel 12288 (Some (ref_at (cm_Meta snapshot) (channel @ ''.json''))) of Inl e \<Rightarrow> Inl e
      | Inr md \<Rightarrow>
      (let ref = ref_at (cm_Targets md) (''channels/'' @ channel @ ''.json'')
       in if length (hash_of ref) \<noteq> 64 then Inl MissingTarget
          else case catalog_object dc t (''targets/channels/'' @ hash_of ref @ ''.'' @ channel @ ''.json'') 4096 (Some ref) of Inl e \<Rightarrow> Inl e
            | Inr data \<Rightarrow> (case dc_target dc data of None \<Rightarrow> Inl BadJSON | Some v \<Rightarrow> target_choice v)))))"

definition catalog_choice :: "decoders \<Rightarrow> time \<times> time \<times> time \<Rightarrow> update_config \<Rightarrow> (string \<Rightarrow> catalog_tree) \<Rightarrow> string \<Rightarrow> string \<Rightarrow> catalog_error + choice" where
  "catalog_choice dc clock c trees profile channel =
     (if channel \<noteq> ''stable'' \<and> channel \<noteq> ''canary'' \<and> channel \<noteq> ''lab'' then Inl UnknownChannel
      else case repository c profile of Inl e \<Rightarrow> Inl e | Inr dir \<Rightarrow> tree_choice dc clock (trees dir) channel)"

section \<open>The walk over root versions ends\<close>

text \<open>Root version \<open>v\<close> of a tree: what reading it gives, and that it is served under its own number.\<close>

definition root_at :: "decoders \<Rightarrow> catalog_tree \<Rightarrow> u64 \<Rightarrow> catalog_error + catalog_metadata" where
  "root_at dc t v = readMetadata dc t (versioned v ''root'') 8192 None"

definition serves_root :: "decoders \<Rightarrow> catalog_tree \<Rightarrow> u64 \<Rightarrow> time \<Rightarrow> bool" where
  "serves_root dc t v expiry \<longleftrightarrow> (\<exists>md. root_at dc t v = Inr md \<and> cm_Version md = v \<and> cm_Expires md = expiry)"

definition chain_ends :: "decoders \<Rightarrow> catalog_tree \<Rightarrow> u64 \<Rightarrow> u64 \<Rightarrow> bool" where
  "chain_ends dc t v n \<longleftrightarrow> v \<le> n \<and> 1 < n \<and> n \<le> rootChainLimit \<and> root_at dc t n = Inl NotExist \<and> (\<forall>u. v \<le> u \<and> u < n \<longrightarrow> (\<exists>e. serves_root dc t u e))"

lemma root_walk_next:
  "root_walk dc t v e =
     (if v > rootChainLimit then Some (Inl RootChainLimit)
      else case root_at dc t v of Inl x \<Rightarrow> if x = NotExist \<and> v > 1 then Some (Inr e) else Some (Inl x)
        | Inr md \<Rightarrow> if cm_Version md \<noteq> v then Some (Inl RootVersion) else root_walk dc t (v + 1) (Some (cm_Expires md)))"
  by (subst root_walk.simps) (simp add: root_at_def)

lemma root_walk_ends:
  "unat v \<le> 257 \<Longrightarrow> \<exists>r. root_walk dc t v e = Some r \<and>
     (\<forall>l. r = Inr l \<longrightarrow> (\<exists>n. chain_ends dc t v n \<and> (if n = v then l = e else \<exists>x. l = Some x \<and> serves_root dc t (n - 1) x)))"
proof (induction "257 - unat v" arbitrary: v e)
  case 0
  then have "v > rootChainLimit" by (simp add: rootChainLimit_def word_less_nat_alt)
  then show ?case by (simp add: root_walk_next)
next
  case (Suc k)
  then have v: "v \<le> rootChainLimit" "unat (v + 1) = unat v + 1" by (simp_all add: rootChainLimit_def word_le_nat_alt unat_word_ariths)
  show ?case
  proof (cases "root_at dc t v")
    case (Inl x)
    with v(1) show ?thesis by (cases "x = NotExist \<and> v > 1") (auto simp: root_walk_next chain_ends_def not_less[symmetric])
  next
    case (Inr md)
    show ?thesis
    proof (cases "cm_Version md = v")
      case False
      with Inr v(1) show ?thesis by (simp add: root_walk_next not_less[symmetric])
    next
      case True
      have next_step: "root_walk dc t v e = root_walk dc t (v + 1) (Some (cm_Expires md))" using Inr True v(1) by (subst root_walk_next) (simp add: not_less[symmetric])
      have served: "serves_root dc t v (cm_Expires md)" using Inr True by (simp add: serves_root_def)
      have "k = 257 - unat (v + 1)" "unat (v + 1) \<le> 257" using Suc(2) v(2) by simp_all
      from Suc(1) [OF this, of "Some (cm_Expires md)"] obtain r where r: "root_walk dc t (v + 1) (Some (cm_Expires md)) = Some r"
        "\<forall>l. r = Inr l \<longrightarrow> (\<exists>n. chain_ends dc t (v + 1) n \<and> (if n = v + 1 then l = Some (cm_Expires md) else \<exists>x. l = Some x \<and> serves_root dc t (n - 1) x))" by blast
      have "\<exists>n. chain_ends dc t v n \<and> (if n = v then l = e else \<exists>x. l = Some x \<and> serves_root dc t (n - 1) x)" if l: "r = Inr l" for l
      proof -
        from r(2) l obtain n where n: "chain_ends dc t (v + 1) n" "if n = v + 1 then l = Some (cm_Expires md) else \<exists>x. l = Some x \<and> serves_root dc t (n - 1) x" by blast
        have lt: "v < n" "v \<le> n" using n(1) v(2) by (auto simp: chain_ends_def word_le_nat_alt word_less_nat_alt)
        have up: "v \<le> u \<longleftrightarrow> u = v \<or> v + 1 \<le> u" for u using v(2) by (auto simp: word_le_nat_alt word_unat_eq_iff)
        have "chain_ends dc t v n" using n(1) lt served by (auto simp: chain_ends_def up)
        moreover have "\<exists>x. l = Some x \<and> serves_root dc t (n - 1) x" using n(2) served by (cases "n = v + 1") auto
        ultimately show ?thesis using lt by auto
      qed
      with r(1) next_step show ?thesis by auto
    qed
  qed
qed

lemma role_lifetimes_roles: "role_lifetimes dc t snapshot roles = Inr rs \<Longrightarrow> map fst rs = roles"
  by (induction roles arbitrary: rs) (auto simp: Let_def split: sum.splits)

declare role_lifetimes.simps [simp del]

text \<open>C39: Reading the lifetimes of a tree always ends, whatever the tree holds: the walk over root versions has no bound but its own limit. Where it succeeds, the roots are served without a gap from
  version 1, each under its own number, up to the one whose expiry is reported, the next version is missing, and every role has a lifetime.\<close>

theorem lifetimes_ends:
  "\<exists>r. lifetimes dc t = Some r \<and>
     (case r of Inl e \<Rightarrow> True
      | Inr roles \<Rightarrow> map fst roles = [''timestamp'', ''snapshot'', ''targets'', ''releases'', ''stable'', ''canary'', ''lab'', ''root''] \<and>
          (\<exists>n x. chain_ends dc t 1 n \<and> serves_root dc t (n - 1) x \<and> map_of roles ''root'' = Some x))"
proof -
  obtain r where r: "root_walk dc t 1 None = Some r"
    "\<forall>l. r = Inr l \<longrightarrow> (\<exists>n. chain_ends dc t 1 n \<and> (if n = 1 then l = None else \<exists>x. l = Some x \<and> serves_root dc t (n - 1) x))"
    using root_walk_ends [of 1 dc t None] by auto
  have l: "\<exists>n x. chain_ends dc t 1 n \<and> serves_root dc t (n - 1) x \<and> l = Some x" if "r = Inr l" for l
    proof -
    from r(2) that obtain n where n: "chain_ends dc t 1 n" "if n = 1 then l = None else \<exists>x. l = Some x \<and> serves_root dc t (n - 1) x" by blast
    then have "n \<noteq> 1" by (auto simp: chain_ends_def)
    with n show ?thesis by auto
  qed
  show ?thesis
  proof (cases "\<exists>roles. lifetimes dc t = Some (Inr roles)")
    case True
    then obtain roles where roles: "lifetimes dc t = Some (Inr roles)" by blast
    then obtain a b rs z sn where z: "r = Inr z" and rs: "role_lifetimes dc t sn [''targets'', ''releases'', ''stable'', ''canary'', ''lab''] = Inr rs"
      and "roles = [(''timestamp'', a), (''snapshot'', b)] @ rs @ (case z of None \<Rightarrow> [] | Some e \<Rightarrow> [(''root'', e)])"
      using r(1) unfolding lifetimes_def Let_def by (auto split: sum.splits)
    moreover obtain n x where "chain_ends dc t 1 n" "serves_root dc t (n - 1) x" "z = Some x" using l z by blast
    moreover note roles_of = role_lifetimes_roles [OF rs]
    moreover have "''root'' \<notin> set (map fst rs)" unfolding roles_of by simp
    then have "map_of rs ''root'' = None" by (simp add: map_of_eq_None_iff)
    ultimately show ?thesis using roles by (auto simp: map_add_def)
  next
    case False
    moreover have "lifetimes dc t \<noteq> None" using r(1) unfolding lifetimes_def Let_def by (auto split: sum.splits)
    ultimately obtain e where "lifetimes dc t = Some (Inl e)" by (metis not_None_eq sum.exhaust)
    then show ?thesis by simp
  qed
qed

section \<open>The chain pins the choice\<close>

definition no_collision :: "decoders \<Rightarrow> catalog_tree \<Rightarrow> catalog_tree \<Rightarrow> bool" where
  "no_collision dc t u \<longleftrightarrow> (\<forall>p q a b. ct_read t p = Inr a \<and> ct_read u q = Inr b \<and> dc_sha256 dc a = dc_sha256 dc b \<longrightarrow> a = b)"

lemma hex_char_inj: "a < 16 \<Longrightarrow> b < 16 \<Longrightarrow> hex_char a = hex_char b \<Longrightarrow> a = b"
proof -
  have "list_all (\<lambda>a. list_all (\<lambda>b. hex_char a = hex_char b \<longrightarrow> a = b) [0..<16]) [0..<16]" by code_simp
  then show "a < 16 \<Longrightarrow> b < 16 \<Longrightarrow> hex_char a = hex_char b \<Longrightarrow> a = b" by (simp add: list_all_iff)
qed

lemma hex_EncodeToString_inject: "hex_EncodeToString a = hex_EncodeToString b \<Longrightarrow> a = b"
proof (induction a arbitrary: b)
  case Nil
  then show ?case by (cases b) (simp_all add: hex_EncodeToString_def)
next
  case (Cons x a)
  then obtain y b' where b: "b = y # b'" by (cases b) (auto simp: hex_EncodeToString_def)
  with Cons.prems have e: "hex_char (unat x div 16) = hex_char (unat y div 16)" "hex_char (unat x mod 16) = hex_char (unat y mod 16)" "hex_EncodeToString a = hex_EncodeToString b'"
    by (simp_all add: hex_EncodeToString_def)
  have "unat x div 16 < 16" "unat y div 16 < 16" using unsigned_less [of x, where 'a = nat] unsigned_less [of y, where 'a = nat] by simp_all
  then have "unat x div 16 = unat y div 16" "unat x mod 16 = unat y mod 16" using e hex_char_inj by simp_all
  then have "unat x = unat y" by (metis div_mult_mod_eq)
  with Cons.IH [OF e(3)] b show ?case by (simp add: word_unat_eq_iff)
qed

lemma object_read: "catalog_object dc t path limit r = Inr data \<Longrightarrow> \<exists>p. ct_read t p = Inr data"
  by (auto simp: catalog_object_def Let_def split: if_splits option.splits sum.splits)

lemma object_pinned:
  assumes "catalog_object dc t path limit (Some r) = Inr a" "catalog_object dc u path' limit' (Some r) = Inr b" "no_collision dc t u"
  shows "a = b"
proof -
  have "\<exists>p. ct_read t p = Inr a \<and> hash_of r = hex_EncodeToString (dc_sha256 dc a)"
    using assms(1) by (auto simp: catalog_object_def Let_def split: if_splits option.splits sum.splits)
  moreover have "\<exists>p. ct_read u p = Inr b \<and> hash_of r = hex_EncodeToString (dc_sha256 dc b)"
    using assms(2) by (auto simp: catalog_object_def Let_def split: if_splits option.splits sum.splits)
  ultimately show ?thesis using assms(3) hex_EncodeToString_inject unfolding no_collision_def by metis
qed

lemma metadata_pinned:
  assumes "catalog_metadata_named dc now t name limit (Some r) = Inr a" "catalog_metadata_named dc now' u name' limit' (Some r) = Inr b" "no_collision dc t u"
  shows "a = b"
proof -
  obtain x where "catalog_object dc t (versioned (rf_Version r) name) limit (Some r) = Inr x" "dc_metadata dc x = Some a"
    using assms(1) by (auto simp: catalog_metadata_named_def readMetadata_def split: sum.splits option.splits if_splits)
  moreover obtain y where "catalog_object dc u (versioned (rf_Version r) name') limit' (Some r) = Inr y" "dc_metadata dc y = Some b"
    using assms(2) by (auto simp: catalog_metadata_named_def readMetadata_def split: sum.splits option.splits if_splits)
  ultimately show ?thesis using object_pinned [OF _ _ assms(3)] by fastforce
qed

text \<open>C40: What an operator is shown is pinned by the timestamp alone. Two trees that serve the same timestamp metadata, between whose objects the hash does not collide, give the same choice for a
  channel wherever both give one, at whatever times they are read. The choice is what one object, which both trees hold, decodes to: a generation and a release, both numbered, with a percentage
  in range, and the release is not among those the object withdraws.\<close>

theorem choice_pinned:
  assumes "tree_choice dc clock t channel = Inr c" "tree_choice dc clock' u channel = Inr c'"
    "readMetadata dc t ''metadata/timestamp.json'' 4096 None = readMetadata dc u ''metadata/timestamp.json'' 4096 None" "no_collision dc t u"
  shows "c = c' \<and> ch_Generation c \<noteq> 0 \<and> ch_Release c \<noteq> 0 \<and> 0 \<le> ch_Percentage c \<and> ch_Percentage c \<le> 100 \<and>
    (\<exists>p q data v. ct_read t p = Inr data \<and> ct_read u q = Inr data \<and> dc_target dc data = Some v \<and> ch_Generation c = cg_Generation v \<and> ch_Release c = cg_Release v \<and>
       ch_Percentage c = cg_Percentage v \<and> cg_Release v \<notin> set (cg_Withdrawn v))"
proof -
  obtain ts where ts: "readMetadata dc t ''metadata/timestamp.json'' 4096 None = Inr ts"
    using assms(1) by (auto simp: tree_choice_def catalog_metadata_named_def split: sum.splits)
  have chain: "\<exists>sn md data v. catalog_metadata_named dc now1 w ''snapshot'' 8192 (Some (ref_at (cm_Meta ts) ''snapshot.json'')) = Inr sn \<and>
      catalog_metadata_named dc now2 w channel 12288 (Some (ref_at (cm_Meta sn) (channel @ ''.json''))) = Inr md \<and>
      catalog_object dc w (''targets/channels/'' @ hash_of (ref_at (cm_Targets md) (''channels/'' @ channel @ ''.json'')) @ ''.'' @ channel @ ''.json'') 4096
        (Some (ref_at (cm_Targets md) (''channels/'' @ channel @ ''.json''))) = Inr data \<and> dc_target dc data = Some v \<and> target_choice v = Inr d"
    if "tree_choice dc (now0, now1, now2) w channel = Inr d" "readMetadata dc w ''metadata/timestamp.json'' 4096 None = Inr ts" for w d now0 now1 now2
  proof -
    have "catalog_metadata_named dc now0 w ''timestamp'' 4096 None = Inr ts"
      using that by (auto simp: tree_choice_def catalog_metadata_named_def split: sum.splits if_splits)
    with that(1) show ?thesis by (auto simp: tree_choice_def Let_def split: sum.splits if_splits option.splits)
  qed
  obtain sn md data v where 1: "catalog_metadata_named dc (fst (snd clock)) t ''snapshot'' 8192 (Some (ref_at (cm_Meta ts) ''snapshot.json'')) = Inr sn"
    "catalog_metadata_named dc (snd (snd clock)) t channel 12288 (Some (ref_at (cm_Meta sn) (channel @ ''.json''))) = Inr md"
    "catalog_object dc t (''targets/channels/'' @ hash_of (ref_at (cm_Targets md) (''channels/'' @ channel @ ''.json'')) @ ''.'' @ channel @ ''.json'') 4096
        (Some (ref_at (cm_Targets md) (''channels/'' @ channel @ ''.json''))) = Inr data" "dc_target dc data = Some v" "target_choice v = Inr c"
    using chain [of "fst clock" "fst (snd clock)" "snd (snd clock)" t c] assms(1) ts by auto
  obtain sn' md' data' v' where 2: "catalog_metadata_named dc (fst (snd clock')) u ''snapshot'' 8192 (Some (ref_at (cm_Meta ts) ''snapshot.json'')) = Inr sn'"
    "catalog_metadata_named dc (snd (snd clock')) u channel 12288 (Some (ref_at (cm_Meta sn') (channel @ ''.json''))) = Inr md'"
    "catalog_object dc u (''targets/channels/'' @ hash_of (ref_at (cm_Targets md') (''channels/'' @ channel @ ''.json'')) @ ''.'' @ channel @ ''.json'') 4096
        (Some (ref_at (cm_Targets md') (''channels/'' @ channel @ ''.json''))) = Inr data'" "dc_target dc data' = Some v'" "target_choice v' = Inr c'"
    using chain [of "fst clock'" "fst (snd clock')" "snd (snd clock')" u c'] assms(2,3) ts by auto
  have "sn = sn'" by (rule metadata_pinned [OF 1(1) 2(1) assms(4)])
  then have "md = md'" using metadata_pinned [OF 1(2) _ assms(4)] 2(2) by simp
  then have "data = data'" using object_pinned [OF 1(3) _ assms(4)] 2(3) by simp
  then have "c = c'" using 1(4,5) 2(4,5) by simp
  moreover obtain p where "ct_read t p = Inr data" using object_read [OF 1(3)] by blast
  moreover obtain q where "ct_read u q = Inr data" using object_read [OF 2(3)] \<open>data = data'\<close> by blast
  moreover have "ch_Generation c \<noteq> 0 \<and> ch_Release c \<noteq> 0 \<and> 0 \<le> ch_Percentage c \<and> ch_Percentage c \<le> 100 \<and> ch_Generation c = cg_Generation v \<and> ch_Release c = cg_Release v \<and>
      ch_Percentage c = cg_Percentage v \<and> cg_Release v \<notin> set (cg_Withdrawn v)"
    using 1(5) by (auto simp: target_choice_def split: if_splits)
  ultimately show ?thesis using 1(4) by blast
qed

definition sample_ref :: "u8 \<Rightarrow> reference" where
  "sample_ref n = \<lparr>rf_Version = 1, rf_Length = 1, rf_Hashes = [(''sha256'', hex_EncodeToString (n # replicate 31 0))]\<rparr>"

definition sample_decoders :: decoders where
  "sample_decoders =
     \<lparr>dc_sha256 = (\<lambda>b. take 32 (b @ replicate 32 0)),
      dc_metadata = (\<lambda>b. if b = [1] then Some \<lparr>cm_Version = 7, cm_Expires = 10, cm_Meta = [(''snapshot.json'', sample_ref 2)], cm_Targets = []\<rparr>
        else if b = [2] then Some \<lparr>cm_Version = 1, cm_Expires = 10, cm_Meta = [(''stable.json'', sample_ref 3)], cm_Targets = []\<rparr>
        else if b = [3] then Some \<lparr>cm_Version = 1, cm_Expires = 10, cm_Meta = [], cm_Targets = [(''channels/stable.json'', sample_ref 4)]\<rparr>
        else None),
      dc_target = (\<lambda>b. Some \<lparr>cg_Generation = 3, cg_Release = 8, cg_Percentage = 25, cg_Priority = [], cg_Withdrawn = [5], cg_Summary = [], cg_Classification = []\<rparr>)\<rparr>"

definition sample_tree :: "u8 \<Rightarrow> catalog_tree" where
  "sample_tree other =
     \<lparr>ct_lstat = (\<lambda>_. Plain),
      ct_read = (\<lambda>es. if es = [''metadata'', ''timestamp.json''] then Inr [1] else if es = [''metadata'', ''1.snapshot.json''] then Inr [2]
        else if es = [''metadata'', ''1.stable.json''] then Inr [3] else if take 2 es = [''targets'', ''channels''] then Inr [4] else Inr [other])\<rparr>"

lemma sample_names: "versioned 1 ''snapshot'' = ''metadata/1.snapshot.json''" "versioned 1 ''stable'' = ''metadata/1.stable.json''"
  by (simp_all add: versioned_def decimal_string.simps) (code_simp, code_simp)

lemma sample_paths:
  "path_IsLocal ''metadata/timestamp.json'' \<and> \<not> has_dots ''metadata/timestamp.json'' \<and> clean_elements False [] (split_path [] ''metadata/timestamp.json'') = [''metadata'', ''timestamp.json'']"
  "path_IsLocal ''metadata/1.snapshot.json'' \<and> \<not> has_dots ''metadata/1.snapshot.json'' \<and> clean_elements False [] (split_path [] ''metadata/1.snapshot.json'') = [''metadata'', ''1.snapshot.json'']"
  "path_IsLocal ''metadata/1.stable.json'' \<and> \<not> has_dots ''metadata/1.stable.json'' \<and> clean_elements False [] (split_path [] ''metadata/1.stable.json'') = [''metadata'', ''1.stable.json'']"
  by code_simp+

lemma sample_hash: "dc_sha256 sample_decoders [n] = n # replicate 31 0"
  by (simp add: sample_decoders_def)

lemma sample_links: "check_links (sample_tree k) es = None"
  by (induction es) (simp_all add: sample_tree_def)

lemma sample_objects:
  "catalog_object sample_decoders (sample_tree k) ''metadata/timestamp.json'' 4096 None = Inr [1]"
  "catalog_object sample_decoders (sample_tree k) ''metadata/1.snapshot.json'' 8192 (Some (sample_ref 2)) = Inr [2]"
  "catalog_object sample_decoders (sample_tree k) ''metadata/1.stable.json'' 12288 (Some (sample_ref 3)) = Inr [3]"
  unfolding catalog_object_def Let_def
  by (simp_all only: sample_paths sample_links option.case) (simp_all add: sample_tree_def sample_ref_def hash_of_def sample_hash del: replicate.simps)

lemma sample_target:
  "length (hash_of (sample_ref 4)) = 64"
  "catalog_object sample_decoders (sample_tree k) (''targets/channels/'' @ hash_of (sample_ref 4) @ ''.stable.json'') 4096 (Some (sample_ref 4)) = Inr [4]"
proof -
  let ?p = "''targets/channels/'' @ hash_of (sample_ref 4) @ ''.stable.json''"
  have p: "path_IsLocal ?p \<and> \<not> has_dots ?p \<and> take 2 (clean_elements False [] (split_path [] ?p)) = [''targets'', ''channels''] \<and> length (clean_elements False [] (split_path [] ?p)) = 3" by code_simp
  then have "ct_read (sample_tree k) (clean_elements False [] (split_path [] ?p)) = Inr [4]" by (auto simp: sample_tree_def)
  with p show "catalog_object sample_decoders (sample_tree k) ?p 4096 (Some (sample_ref 4)) = Inr [4]"
    unfolding catalog_object_def Let_def by (simp only: sample_links option.case) (simp add: sample_ref_def hash_of_def sample_hash del: replicate.simps)
qed (code_simp)

lemma sample_choice:
  assumes "now < 10"
  shows "\<exists>c. tree_choice sample_decoders (now, now, now) (sample_tree k) ''stable'' = Inr c"
proof -
  have m: "dc_metadata sample_decoders [1] = Some \<lparr>cm_Version = 7, cm_Expires = 10, cm_Meta = [(''snapshot.json'', sample_ref 2)], cm_Targets = []\<rparr>"
    "dc_metadata sample_decoders [2] = Some \<lparr>cm_Version = 1, cm_Expires = 10, cm_Meta = [(''stable.json'', sample_ref 3)], cm_Targets = []\<rparr>"
    "dc_metadata sample_decoders [3] = Some \<lparr>cm_Version = 1, cm_Expires = 10, cm_Meta = [], cm_Targets = [(''channels/stable.json'', sample_ref 4)]\<rparr>"
    by (simp_all add: sample_decoders_def)
  have v: "rf_Version (sample_ref n) = 1" for n by (simp add: sample_ref_def)
  have g: "\<exists>c. (case dc_target sample_decoders [4] of None \<Rightarrow> Inl BadJSON | Some v \<Rightarrow> target_choice v) = Inr c" by (simp add: sample_decoders_def target_choice_def)
  show ?thesis using assms g
    by (simp add: tree_choice_def catalog_metadata_named_def readMetadata_def sample_objects sample_names sample_target(1) sample_target(2) [unfolded append.simps] m v ref_at_def Let_def)
qed

theorem choice_pinned_witness:
  "\<exists>c. tree_choice sample_decoders (0, 0, 0) (sample_tree 8) ''stable'' = Inr c \<and> tree_choice sample_decoders (1, 1, 1) (sample_tree 9) ''stable'' = Inr c \<and> ch_Percentage c \<le> 100"
proof -
  have "dc_sha256 sample_decoders [a] = dc_sha256 sample_decoders [b] \<Longrightarrow> a = b" for a b by (simp add: sample_hash)
  then have n: "no_collision sample_decoders (sample_tree 8) (sample_tree 9)" unfolding no_collision_def by (fastforce simp: sample_tree_def split: if_splits)
  obtain c where c: "tree_choice sample_decoders (0, 0, 0) (sample_tree 8) ''stable'' = Inr c" using sample_choice [of 0] by auto
  obtain c' where c': "tree_choice sample_decoders (1, 1, 1) (sample_tree 9) ''stable'' = Inr c'" using sample_choice [of 1] by auto
  have "readMetadata sample_decoders (sample_tree 8) ''metadata/timestamp.json'' 4096 None = readMetadata sample_decoders (sample_tree 9) ''metadata/timestamp.json'' 4096 None"
    by (simp add: readMetadata_def sample_objects)
  from choice_pinned [OF c c' this n] c c' show ?thesis by auto
qed

end
