(* ===== verification/ReceptionContract.thy ===== *)
theory ReceptionContract
  imports RawFrame
begin

text \<open>
  The reception contract, \<^verbatim>\<open>go/internal/reception/reception.go\<close> and \<^verbatim>\<open>power.go\<close>: what a station is expected to receive over five one-minute slots, what it did receive, the collector's own
  counts from both, and the alarm that holds through unknown coverage. A Go array is a list of its length; a bitmap over entries is sixteen bytes.
\<close>

unbundle bit_operations_syntax

section \<open>Availability\<close>

definition reception_Version :: u8 where "reception_Version = 1"
definition MaxEntries :: nat where "MaxEntries = 128"
definition HeaderSize :: nat where "HeaderSize = 40"
definition SampleSize :: nat where "SampleSize = 76"
definition Satellite :: u8 where "Satellite = 255"
definition SlotSeconds :: nat where "SlotSeconds = 60"
definition Slots :: nat where "Slots = 5"

datatype reception_error = ErrReceptionWire | ErrPowerWire

record reception_entry =
  en_GNSS :: u8
  en_SV :: u8
  en_Signal :: u8
  en_Slots :: u8

record expectation =
  ex_ID :: u64
  ex_Issued :: int
  ex_Latitude :: int
  ex_Longitude :: int
  ex_RadiusM :: u16
  ex_AlarmSeconds :: u16
  ex_ClearSeconds :: u16
  ex_MinExpected :: u8
  ex_MinMissing :: u8
  ex_MissingPercent :: u8
  ex_Entries :: "reception_entry list"

fun entries_valid :: "(u8 \<times> u8 \<times> u8) list \<Rightarrow> reception_entry list \<Rightarrow> bool" where
  "entries_valid seen [] \<longleftrightarrow> True"
| "entries_valid seen (v # vs) \<longleftrightarrow>
     (let key = (en_GNSS v, en_SV v, en_Signal v)
      in \<not> (en_GNSS v > 7 \<or> en_GNSS v = 4 \<or> en_SV v = 0 \<or> en_Slots v = 0 \<or> drop_bit Slots (en_Slots v) \<noteq> 0 \<or> (en_Signal v \<noteq> Satellite \<and> en_Signal v > 31) \<or> key \<in> set seen) \<and>
         entries_valid (key # seen) vs)"

definition unix_plausible :: "int \<Rightarrow> bool" where
  "unix_plausible t \<longleftrightarrow> \<not> (t < 946684800 \<or> t \<ge> 4102444800)"

definition expectation_Valid :: "expectation \<Rightarrow> bool" where
  "expectation_Valid e \<longleftrightarrow>
     \<not> (ex_ID e = 0 \<or> \<not> unix_plausible (ex_Issued e) \<or> length (ex_Entries e) > MaxEntries \<or>
        ex_Latitude e < -900000000 \<or> ex_Latitude e > 900000000 \<or> ex_Longitude e < -1800000000 \<or> ex_Longitude e > 1800000000 \<or>
        ex_RadiusM e = 0 \<or> ex_AlarmSeconds e < 5 \<or> ex_AlarmSeconds e > 120 \<or> ex_ClearSeconds e < 5 \<or> ex_ClearSeconds e > 120 \<or>
        ex_MinExpected e = 0 \<or> ex_MinMissing e = 0 \<or> ex_MissingPercent e = 0 \<or> ex_MissingPercent e > 100) \<and>
     entries_valid [] (ex_Entries e)"

definition entry_bytes :: "reception_entry \<Rightarrow> u8 list" where
  "entry_bytes v = [en_GNSS v, en_SV v, en_Signal v, en_Slots v]"

definition expectation_Encode :: "expectation \<Rightarrow> reception_error + u8 list" where
  "expectation_Encode e =
     (if \<not> expectation_Valid e then Inl ErrReceptionWire
      else Inr ([reception_Version, of_nat Slots, of_nat SlotSeconds, of_nat (length (ex_Entries e))] @ PutUint64 (ex_ID e) @ PutUint64 (word_of_int (ex_Issued e)) @
        PutUint32 (word_of_int (ex_Latitude e)) @ PutUint32 (word_of_int (ex_Longitude e)) @ PutUint16 (ex_RadiusM e) @ PutUint16 (ex_AlarmSeconds e) @ PutUint16 (ex_ClearSeconds e) @
        [ex_MinExpected e, ex_MinMissing e, ex_MissingPercent e, 0, 0, 0] @ concat (map entry_bytes (ex_Entries e))))"

definition entry_at :: "u8 list \<Rightarrow> reception_entry" where
  "entry_at p = \<lparr>en_GNSS = p ! 0, en_SV = p ! 1, en_Signal = p ! 2, en_Slots = p ! 3\<rparr>"

definition expectation_Decode :: "u8 list \<Rightarrow> reception_error + expectation" where
  "expectation_Decode b =
     (if length b < HeaderSize \<or> b ! 0 \<noteq> reception_Version \<or> b ! 1 \<noteq> of_nat Slots \<or> b ! 2 \<noteq> of_nat SlotSeconds \<or> length b \<noteq> HeaderSize + 4 * unat (b ! 3) \<or>
         b ! 37 \<noteq> 0 \<or> b ! 38 \<noteq> 0 \<or> b ! 39 \<noteq> 0
      then Inl ErrReceptionWire
      else let e = \<lparr>ex_ID = Uint64 (take 8 (drop 4 b)), ex_Issued = sint (Uint64 (take 8 (drop 12 b))), ex_Latitude = sint (Uint32 (take 4 (drop 20 b))),
                    ex_Longitude = sint (Uint32 (take 4 (drop 24 b))), ex_RadiusM = Uint16 (take 2 (drop 28 b)), ex_AlarmSeconds = Uint16 (take 2 (drop 30 b)),
                    ex_ClearSeconds = Uint16 (take 2 (drop 32 b)), ex_MinExpected = b ! 34, ex_MinMissing = b ! 35, ex_MissingPercent = b ! 36,
                    ex_Entries = map (\<lambda>i. entry_at (drop (40 + i * 4) b)) [0..<unat (b ! 3)]\<rparr>
           in if \<not> expectation_Valid e then Inl ErrReceptionWire else Inr e)"

record reception_sample =
  sm_ExpectationID :: u64
  sm_Unix :: int
  sm_UptimeMS :: u64
  sm_Boot :: u64
  sm_Event :: u64
  sm_Valid :: u8
  sm_Alarm :: u8
  sm_Expected :: "u8 list"
  sm_Observed :: "u8 list"
  sm_Matched :: "u8 list"

definition sample_Encode :: "reception_sample \<Rightarrow> u8 list" where
  "sample_Encode s =
     [reception_Version, sm_Valid s, sm_Alarm s, 0] @ PutUint64 (sm_ExpectationID s) @ PutUint64 (word_of_int (sm_Unix s)) @ PutUint64 (sm_UptimeMS s) @ PutUint64 (sm_Boot s) @
     PutUint64 (sm_Event s) @ sm_Matched s @ sm_Expected s @ sm_Observed s"

definition DecodeSample :: "u8 list \<Rightarrow> reception_error + reception_sample" where
  "DecodeSample b =
     (if length b \<noteq> SampleSize \<or> b ! 0 \<noteq> reception_Version \<or> b ! 3 \<noteq> 0 \<or> b ! 1 AND 16 \<noteq> 0 \<or> b ! 2 AND 16 \<noteq> 0 then Inl ErrReceptionWire
      else Inr \<lparr>sm_ExpectationID = Uint64 (take 8 (drop 4 b)), sm_Unix = sint (Uint64 (take 8 (drop 12 b))), sm_UptimeMS = Uint64 (take 8 (drop 20 b)), sm_Boot = Uint64 (take 8 (drop 28 b)),
                sm_Event = Uint64 (take 8 (drop 36 b)), sm_Valid = b ! 1, sm_Alarm = b ! 2, sm_Expected = take 8 (drop 60 b), sm_Observed = take 8 (drop 68 b), sm_Matched = take 16 (drop 44 b)\<rparr>)"

section \<open>Counting\<close>

text \<open>The counters index by the constellation and the entry number of a decoded contract, which are below 8 and 128; anything else panics in Go and is outside the model.\<close>

text \<open>The two loops of \<^verbatim>\<open>Counts\<close>: over the entries of the sample's minute, and over the constellations.\<close>

definition bump :: "u8 list \<Rightarrow> u8 \<Rightarrow> u8 list" where
  "bump counts g = counts[unat g := counts ! unat g + 1]"

definition bitmap :: "u8 list \<Rightarrow> nat \<Rightarrow> bool" where
  "bitmap bits i \<longleftrightarrow> bits ! (i div 8) AND push_bit (i mod 8) 1 \<noteq> 0"

definition count_entry :: "u8 \<Rightarrow> u8 list \<Rightarrow> u8 list \<times> u8 list \<Rightarrow> nat \<times> reception_entry \<Rightarrow> u8 list \<times> u8 list" where
  "count_entry slot matched c iv =
     (case (c, iv) of ((expected, observed), (i, v)) \<Rightarrow>
        if en_Slots v AND slot = 0 then (expected, observed) else (bump expected (en_GNSS v), if bitmap matched i then bump observed (en_GNSS v) else observed))"

definition count_gnss :: "expectation \<Rightarrow> u8 list \<Rightarrow> u8 list \<Rightarrow> u8 \<times> u8 \<Rightarrow> nat \<Rightarrow> u8 \<times> u8" where
  "count_gnss e expected observed vb g =
     (case vb of (valid, bad) \<Rightarrow>
        if expected ! g < ex_MinExpected e then (valid AND NOT (push_bit g 1), bad)
        else let missing = expected ! g - observed ! g
             in if unat missing \<ge> unat (ex_MinMissing e) \<and> 100 * unat missing \<ge> unat (ex_MissingPercent e) * unat (expected ! g) then (valid, bad OR push_bit g 1) else (valid, bad))"

definition Counts :: "expectation \<Rightarrow> reception_sample \<Rightarrow> u8 list \<times> u8 list \<times> u8 \<times> u8" where
  "Counts e s =
     (let age = wrap64 (sm_Unix s - ex_Issued e); zero = replicate 8 0
      in if sm_ExpectationID s \<noteq> ex_ID e \<or> age < 0 \<or> age \<ge> int (SlotSeconds * Slots) then (zero, zero, 0, 0)
         else let slot = push_bit (nat (age div int SlotSeconds)) 1;
                  c = foldl (count_entry slot (sm_Matched s)) (zero, zero) (enumerate 0 (ex_Entries e));
                  vb = foldl (count_gnss e (fst c) (snd c)) (sm_Valid s, 0) [0..<8]
              in (fst c, snd c, fst vb, snd vb AND fst vb))"

section \<open>The alarm\<close>

record reception_machine =
  mc_Alarm :: u8
  mc_target :: u8
  mc_pending :: u8
  mc_since :: "int list"
  mc_last :: int

definition reception_machine0 :: reception_machine where
  "reception_machine0 = \<lparr>mc_Alarm = 0, mc_target = 0, mc_pending = 0, mc_since = replicate 8 0, mc_last = 0\<rparr>"

definition RetainCoverage :: "u8 \<Rightarrow> reception_machine \<Rightarrow> reception_machine" where
  "RetainCoverage valid m = m\<lparr>mc_pending := mc_pending m AND valid\<rparr>"

definition step_bit :: "u8 \<Rightarrow> u8 \<Rightarrow> int \<Rightarrow> u16 \<Rightarrow> u16 \<Rightarrow> reception_machine \<Rightarrow> nat \<Rightarrow> reception_machine" where
  "step_bit valid bad now alarmSeconds clearSeconds m g =
     (let bt = push_bit g 1 in
      if valid AND bt = 0 then m\<lparr>mc_pending := mc_pending m AND NOT bt\<rparr>
      else let want = bad AND bt in
        if want = mc_Alarm m AND bt then m\<lparr>mc_pending := mc_pending m AND NOT bt\<rparr>
        else let m1 = (if mc_pending m AND bt = 0 \<or> mc_target m AND bt \<noteq> want
                       then m\<lparr>mc_pending := mc_pending m OR bt, mc_target := (mc_target m AND NOT bt) OR want, mc_since := (mc_since m)[g := now]\<rparr> else m);
                 dwell = (if want \<noteq> 0 then alarmSeconds else clearSeconds)
             in if wrap64 (now - mc_since m1 ! g) \<ge> int (unat dwell) * 1000
                then m1\<lparr>mc_Alarm := (mc_Alarm m1 AND NOT bt) OR want, mc_pending := mc_pending m1 AND NOT bt\<rparr> else m1)"

text \<open>\<^verbatim>\<open>Step\<close> at \<open>now\<close>, in milliseconds since 1970; the alarm is the result.\<close>

definition machine_Step :: "u8 \<Rightarrow> u8 \<Rightarrow> int \<Rightarrow> u16 \<Rightarrow> u16 \<Rightarrow> reception_machine \<Rightarrow> reception_machine" where
  "machine_Step valid bad now alarmSeconds clearSeconds m =
     (let m1 = (if mc_last m \<noteq> 0 \<and> (now < mc_last m \<or> wrap64 (now - mc_last m) > 15000) then m\<lparr>mc_pending := 0\<rparr> else m)
      in if now \<le> mc_last m1 then m1 else foldl (step_bit valid bad now alarmSeconds clearSeconds) (m1\<lparr>mc_last := now\<rparr>) [0..<8])"

section \<open>Received power\<close>

definition PowerVersion :: u8 where "PowerVersion = 1"
definition PowerHeaderSize :: nat where "PowerHeaderSize = 40"
definition PowerEntrySize :: nat where "PowerEntrySize = 16"
definition PowerSampleSize :: nat where "PowerSampleSize = 256"
definition PowerEventSize :: nat where "PowerEventSize = 68"
definition PowerMaxSupport :: u8 where "PowerMaxSupport = 4"
definition PowerFlagLocal :: u8 where "PowerFlagLocal = 1"
definition PowerFlagRemote :: u8 where "PowerFlagRemote = 2"

record power_entry =
  pe_Valid :: u8
  pe_Expected :: "u8 list"
  pe_MAD :: "u8 list"
  pe_Support :: "u8 list"

record power_expectation =
  px_ExpectationID :: u64
  px_ModelID :: u64
  px_SiteID :: u64
  px_Issued :: int
  px_MinDeviation :: u8
  px_MADMultiplier :: u8
  px_MinSupport :: u8
  px_Entries :: "power_entry list"

definition power_entry_valid :: "u8 \<Rightarrow> power_entry \<Rightarrow> bool" where
  "power_entry_valid minSupport e \<longleftrightarrow>
     \<not> drop_bit Slots (pe_Valid e) \<noteq> 0 \<and>
     list_all (\<lambda>slot. let valid = (pe_Valid e AND push_bit slot 1 \<noteq> 0)
       in \<not> (valid \<noteq> (pe_Support e ! slot \<ge> minSupport) \<or> (valid \<and> (pe_Expected e ! slot = 0 \<or> pe_Expected e ! slot > 99)))) [0..<Slots]"

definition power_expectation_Valid :: "power_expectation \<Rightarrow> bool" where
  "power_expectation_Valid p \<longleftrightarrow>
     \<not> (px_ExpectationID p = 0 \<or> px_ModelID p = 0 \<or> px_SiteID p = 0 \<or> \<not> unix_plausible (px_Issued p) \<or> length (px_Entries p) > MaxEntries \<or> px_MinDeviation p < 3 \<or>
        px_MinDeviation p > 30 \<or> px_MADMultiplier p = 0 \<or> px_MADMultiplier p > 16 \<or> px_MinSupport p < 2 \<or> px_MinSupport p > PowerMaxSupport) \<and>
     list_all (power_entry_valid (px_MinSupport p)) (px_Entries p)"

definition power_entry_bytes :: "power_entry \<Rightarrow> u8 list" where
  "power_entry_bytes e = pe_Valid e # pe_Expected e @ pe_MAD e @ pe_Support e"

definition power_expectation_Encode :: "power_expectation \<Rightarrow> reception_error + u8 list" where
  "power_expectation_Encode p =
     (if \<not> power_expectation_Valid p then Inl ErrPowerWire
      else Inr ([PowerVersion, of_nat Slots, of_nat SlotSeconds, of_nat (length (px_Entries p))] @ PutUint64 (px_ExpectationID p) @ PutUint64 (px_ModelID p) @
        PutUint64 (word_of_int (px_Issued p)) @ PutUint64 (px_SiteID p) @ [px_MinDeviation p, px_MADMultiplier p, px_MinSupport p, 0] @ concat (map power_entry_bytes (px_Entries p))))"

definition power_entry_at :: "u8 list \<Rightarrow> power_entry" where
  "power_entry_at q = \<lparr>pe_Valid = q ! 0, pe_Expected = take 5 (drop 1 q), pe_MAD = take 5 (drop 6 q), pe_Support = take 5 (drop 11 q)\<rparr>"

definition DecodePowerExpectation :: "u8 list \<Rightarrow> reception_error + power_expectation" where
  "DecodePowerExpectation b =
     (if length b < PowerHeaderSize \<or> b ! 0 \<noteq> PowerVersion \<or> b ! 1 \<noteq> of_nat Slots \<or> b ! 2 \<noteq> of_nat SlotSeconds \<or>
         length b \<noteq> PowerHeaderSize + PowerEntrySize * unat (b ! 3) \<or> b ! 39 \<noteq> 0
      then Inl ErrPowerWire
      else let p = \<lparr>px_ExpectationID = Uint64 (take 8 (drop 4 b)), px_ModelID = Uint64 (take 8 (drop 12 b)), px_SiteID = Uint64 (take 8 (drop 28 b)),
                    px_Issued = sint (Uint64 (take 8 (drop 20 b))), px_MinDeviation = b ! 36, px_MADMultiplier = b ! 37, px_MinSupport = b ! 38,
                    px_Entries = map (\<lambda>i. power_entry_at (drop (40 + i * 16) b)) [0..<unat (b ! 3)]\<rparr>
           in if \<not> power_expectation_Valid p then Inl ErrPowerWire else Inr p)"

record power_assessment =
  pa_Valid :: "u8 list"
  pa_Bad :: "u8 list"

definition no_assessment :: power_assessment where
  "no_assessment = \<lparr>pa_Valid = replicate 16 0, pa_Bad = replicate 16 0\<rparr>"

record power_sample =
  ps_Count :: u8
  ps_Flags :: u8
  ps_LocalValid :: u8
  ps_LocalAlarm :: u8
  ps_RemoteValid :: u8
  ps_RemoteAlarm :: u8
  ps_ExpectationID :: u64
  ps_RemoteModelID :: u64
  ps_LocalModelID :: u64
  ps_Unix :: int
  ps_UptimeMS :: u64
  ps_ObservedValid :: "u8 list"
  ps_Observed :: "u8 list"
  ps_LocalAssessment :: power_assessment
  ps_RemoteAssessment :: power_assessment

record power_event =
  pv_Flags :: u8
  pv_LocalValid :: u8
  pv_LocalAlarm :: u8
  pv_RemoteValid :: u8
  pv_RemoteAlarm :: u8
  pv_JointValid :: u8
  pv_JointAlarm :: u8
  pv_ExpectationID :: u64
  pv_RemoteModelID :: u64
  pv_LocalModelID :: u64
  pv_Unix :: int
  pv_UptimeMS :: u64
  pv_Boot :: u64
  pv_Event :: u64
  pv_LocalAbnormal :: u8
  pv_RemoteAbnormal :: u8
  pv_JointAbnormal :: u8
  pv_ModelConflict :: u8

definition power_event_Valid :: "power_event \<Rightarrow> bool" where
  "power_event_Valid e \<longleftrightarrow>
     \<not> (pv_Flags e AND NOT (PowerFlagLocal OR PowerFlagRemote) \<noteq> 0 \<or> pv_ExpectationID e = 0 \<or> \<not> unix_plausible (pv_Unix e) \<or> pv_Boot e = 0 \<or> pv_Event e = 0 \<or>
        (pv_LocalValid e OR pv_LocalAlarm e OR pv_RemoteValid e OR pv_RemoteAlarm e OR pv_JointValid e OR pv_JointAlarm e OR pv_LocalAbnormal e OR pv_RemoteAbnormal e OR
         pv_JointAbnormal e OR pv_ModelConflict e) AND 16 \<noteq> 0 \<or>
        pv_LocalAbnormal e AND NOT (pv_LocalValid e) \<noteq> 0 \<or> pv_RemoteAbnormal e AND NOT (pv_RemoteValid e) \<noteq> 0 \<or> pv_JointValid e AND NOT (pv_LocalValid e AND pv_RemoteValid e) \<noteq> 0 \<or>
        pv_JointAbnormal e AND NOT (pv_JointValid e) \<noteq> 0 \<or> pv_ModelConflict e AND NOT (pv_JointValid e) \<noteq> 0) \<and>
     \<not> (pv_Flags e AND PowerFlagLocal = 0 \<and> (pv_LocalModelID e \<noteq> 0 \<or> pv_LocalValid e \<noteq> 0 \<or> pv_LocalAlarm e \<noteq> 0 \<or> pv_LocalAbnormal e \<noteq> 0)) \<and>
     \<not> (pv_Flags e AND PowerFlagRemote = 0 \<and> (pv_RemoteModelID e \<noteq> 0 \<or> pv_RemoteValid e \<noteq> 0 \<or> pv_RemoteAlarm e \<noteq> 0 \<or> pv_RemoteAbnormal e \<noteq> 0)) \<and>
     \<not> ((pv_Flags e AND PowerFlagLocal \<noteq> 0 \<and> pv_LocalModelID e = 0) \<or> (pv_Flags e AND PowerFlagRemote \<noteq> 0 \<and> pv_RemoteModelID e = 0)) \<and>
     \<not> (pv_Flags e \<noteq> (PowerFlagLocal OR PowerFlagRemote) \<and> (pv_JointValid e \<noteq> 0 \<or> pv_JointAlarm e \<noteq> 0 \<or> pv_JointAbnormal e \<noteq> 0 \<or> pv_ModelConflict e \<noteq> 0))"

definition power_event_Encode :: "power_event \<Rightarrow> reception_error + u8 list" where
  "power_event_Encode e =
     (if \<not> power_event_Valid e then Inl ErrPowerWire
      else Inr ([PowerVersion, pv_Flags e, pv_LocalValid e, pv_LocalAlarm e, pv_RemoteValid e, pv_RemoteAlarm e, pv_JointValid e, pv_JointAlarm e] @ PutUint64 (pv_ExpectationID e) @
        PutUint64 (pv_RemoteModelID e) @ PutUint64 (pv_LocalModelID e) @ PutUint64 (word_of_int (pv_Unix e)) @ PutUint64 (pv_UptimeMS e) @ PutUint64 (pv_Boot e) @ PutUint64 (pv_Event e) @
        [pv_LocalAbnormal e, pv_RemoteAbnormal e, pv_JointAbnormal e, pv_ModelConflict e]))"

definition DecodePowerEvent :: "u8 list \<Rightarrow> reception_error + power_event" where
  "DecodePowerEvent b =
     (if length b \<noteq> PowerEventSize \<or> b ! 0 \<noteq> PowerVersion then Inl ErrPowerWire
      else let e = \<lparr>pv_Flags = b ! 1, pv_LocalValid = b ! 2, pv_LocalAlarm = b ! 3, pv_RemoteValid = b ! 4, pv_RemoteAlarm = b ! 5, pv_JointValid = b ! 6, pv_JointAlarm = b ! 7,
                    pv_ExpectationID = Uint64 (take 8 (drop 8 b)), pv_RemoteModelID = Uint64 (take 8 (drop 16 b)), pv_LocalModelID = Uint64 (take 8 (drop 24 b)),
                    pv_Unix = sint (Uint64 (take 8 (drop 32 b))), pv_UptimeMS = Uint64 (take 8 (drop 40 b)), pv_Boot = Uint64 (take 8 (drop 48 b)), pv_Event = Uint64 (take 8 (drop 56 b)),
                    pv_LocalAbnormal = b ! 64, pv_RemoteAbnormal = b ! 65, pv_JointAbnormal = b ! 66, pv_ModelConflict = b ! 67\<rparr>
           in if \<not> power_event_Valid e then Inl ErrPowerWire else Inr e)"

definition bitmapTailClear :: "u8 list \<Rightarrow> u8 \<Rightarrow> bool" where
  "bitmapTailClear bits count \<longleftrightarrow> list_all (\<lambda>i. \<not> bitmap bits i) [unat count..<MaxEntries]"

definition power_sample_Valid :: "power_sample \<Rightarrow> bool" where
  "power_sample_Valid s \<longleftrightarrow>
     (let local = ps_LocalAssessment s; remote = ps_RemoteAssessment s in
     \<not> (unat (ps_Count s) > MaxEntries \<or> ps_Flags s AND NOT (PowerFlagLocal OR PowerFlagRemote) \<noteq> 0 \<or> ps_ExpectationID s = 0 \<or> \<not> unix_plausible (ps_Unix s) \<or>
        (ps_LocalValid s OR ps_LocalAlarm s OR ps_RemoteValid s OR ps_RemoteAlarm s) AND 16 \<noteq> 0 \<or>
        \<not> bitmapTailClear (ps_ObservedValid s) (ps_Count s) \<or> \<not> bitmapTailClear (pa_Valid local) (ps_Count s) \<or> \<not> bitmapTailClear (pa_Bad local) (ps_Count s) \<or>
        \<not> bitmapTailClear (pa_Valid remote) (ps_Count s) \<or> \<not> bitmapTailClear (pa_Bad remote) (ps_Count s)) \<and>
     list_all (\<lambda>i. \<not> (pa_Valid local ! i OR pa_Valid remote ! i) AND NOT (ps_ObservedValid s ! i) \<noteq> 0) [0..<16] \<and>
     list_all (\<lambda>i. let bt = push_bit (i mod 8) 1 in
        \<not> (pa_Bad local ! (i div 8) AND NOT (pa_Valid local ! (i div 8)) AND bt \<noteq> 0 \<or> pa_Bad remote ! (i div 8) AND NOT (pa_Valid remote ! (i div 8)) AND bt \<noteq> 0 \<or>
           (ps_ObservedValid s ! (i div 8) AND bt \<noteq> 0 \<and> (ps_Observed s ! i = 0 \<or> ps_Observed s ! i > 99)))) [0..<unat (ps_Count s)] \<and>
     \<not> (ps_Flags s AND PowerFlagLocal = 0 \<and> (ps_LocalModelID s \<noteq> 0 \<or> ps_LocalValid s \<noteq> 0 \<or> ps_LocalAlarm s \<noteq> 0 \<or> local \<noteq> no_assessment)) \<and>
     \<not> (ps_Flags s AND PowerFlagRemote = 0 \<and> (ps_RemoteModelID s \<noteq> 0 \<or> ps_RemoteValid s \<noteq> 0 \<or> ps_RemoteAlarm s \<noteq> 0 \<or> remote \<noteq> no_assessment)) \<and>
     \<not> ((ps_Flags s AND PowerFlagLocal \<noteq> 0 \<and> ps_LocalModelID s = 0) \<or> (ps_Flags s AND PowerFlagRemote \<noteq> 0 \<and> ps_RemoteModelID s = 0)))"

definition power_sample_Encode :: "power_sample \<Rightarrow> reception_error + u8 list" where
  "power_sample_Encode s =
     (if \<not> power_sample_Valid s then Inl ErrPowerWire
      else Inr ([PowerVersion, ps_Count s, ps_Flags s, ps_LocalValid s, ps_LocalAlarm s, ps_RemoteValid s, ps_RemoteAlarm s, 0] @ PutUint64 (ps_ExpectationID s) @
        PutUint64 (ps_RemoteModelID s) @ PutUint64 (ps_LocalModelID s) @ PutUint64 (word_of_int (ps_Unix s)) @ PutUint64 (ps_UptimeMS s) @ ps_ObservedValid s @ ps_Observed s @
        pa_Valid (ps_LocalAssessment s) @ pa_Bad (ps_LocalAssessment s) @ pa_Valid (ps_RemoteAssessment s) @ pa_Bad (ps_RemoteAssessment s)))"

definition DecodePowerSample :: "u8 list \<Rightarrow> reception_error + power_sample" where
  "DecodePowerSample b =
     (if length b \<noteq> PowerSampleSize \<or> b ! 0 \<noteq> PowerVersion \<or> b ! 7 \<noteq> 0 then Inl ErrPowerWire
      else let s = \<lparr>ps_Count = b ! 1, ps_Flags = b ! 2, ps_LocalValid = b ! 3, ps_LocalAlarm = b ! 4, ps_RemoteValid = b ! 5, ps_RemoteAlarm = b ! 6,
                    ps_ExpectationID = Uint64 (take 8 (drop 8 b)), ps_RemoteModelID = Uint64 (take 8 (drop 16 b)), ps_LocalModelID = Uint64 (take 8 (drop 24 b)),
                    ps_Unix = sint (Uint64 (take 8 (drop 32 b))), ps_UptimeMS = Uint64 (take 8 (drop 40 b)), ps_ObservedValid = take 16 (drop 48 b), ps_Observed = take 128 (drop 64 b),
                    ps_LocalAssessment = \<lparr>pa_Valid = take 16 (drop 192 b), pa_Bad = take 16 (drop 208 b)\<rparr>,
                    ps_RemoteAssessment = \<lparr>pa_Valid = take 16 (drop 224 b), pa_Bad = take 16 (drop 240 b)\<rparr>\<rparr>
           in if \<not> power_sample_Valid s then Inl ErrPowerWire else Inr s)"

definition set_bitmap :: "u8 list \<Rightarrow> nat \<Rightarrow> u8 list" where
  "set_bitmap bits i = bits[i div 8 := bits ! (i div 8) OR push_bit (i mod 8) 1]"

definition compare_entry :: "power_expectation \<Rightarrow> power_sample \<Rightarrow> nat \<Rightarrow> power_assessment \<Rightarrow> nat \<times> power_entry \<Rightarrow> power_assessment" where
  "compare_entry p s slot a ie =
     (case ie of (i, e) \<Rightarrow>
        if pe_Valid e AND push_bit slot 1 = 0 \<or> \<not> bitmap (ps_ObservedValid s) i then a
        else let deviation = \<bar>int (unat (ps_Observed s ! i)) - int (unat (pe_Expected e ! slot))\<bar>;
                 threshold = max (int (unat (px_MADMultiplier p)) * int (unat (pe_MAD e ! slot))) (int (unat (px_MinDeviation p)))
             in a\<lparr>pa_Valid := set_bitmap (pa_Valid a) i, pa_Bad := (if deviation \<ge> threshold then set_bitmap (pa_Bad a) i else pa_Bad a)\<rparr>)"

definition ComparePower :: "power_expectation \<Rightarrow> power_sample \<Rightarrow> power_assessment" where
  "ComparePower p s =
     (let age = wrap64 (ps_Unix s - px_Issued p)
      in if ps_ExpectationID s \<noteq> px_ExpectationID p \<or> ps_RemoteModelID s \<noteq> px_ModelID p \<or> unat (ps_Count s) \<noteq> length (px_Entries p) \<or> age < 0 \<or> age \<ge> int (Slots * SlotSeconds)
         then no_assessment
         else foldl (compare_entry p s (nat (age div int SlotSeconds))) no_assessment (enumerate 0 (px_Entries p)))"

definition count_power_entry :: "power_assessment \<Rightarrow> u8 list \<times> u8 list \<Rightarrow> nat \<times> reception_entry \<Rightarrow> u8 list \<times> u8 list" where
  "count_power_entry a c ie =
     (case (c, ie) of ((modeled, anomalous), (i, e)) \<Rightarrow>
        if \<not> bitmap (pa_Valid a) i then (modeled, anomalous) else (bump modeled (en_GNSS e), if bitmap (pa_Bad a) i then bump anomalous (en_GNSS e) else anomalous))"

definition count_power_gnss :: "expectation \<Rightarrow> u8 list \<Rightarrow> u8 list \<Rightarrow> u8 \<times> u8 \<Rightarrow> nat \<Rightarrow> u8 \<times> u8" where
  "count_power_gnss base modeled anomalous vb g =
     (case vb of (valid, bad) \<Rightarrow>
        if modeled ! g < ex_MinExpected base then (valid, bad)
        else (valid OR push_bit g 1,
              if anomalous ! g \<ge> ex_MinMissing base \<and> unat (anomalous ! g) * 100 \<ge> unat (ex_MissingPercent base) * unat (modeled ! g) then bad OR push_bit g 1 else bad))"

definition CountPower :: "expectation \<Rightarrow> u8 \<Rightarrow> power_assessment \<Rightarrow> u8 list \<times> u8 list \<times> u8 \<times> u8" where
  "CountPower base count a =
     (let zero = replicate 8 0
      in if unat count \<noteq> length (ex_Entries base) then (zero, zero, 0, 0)
         else let c = foldl (count_power_entry a) (zero, zero) (enumerate 0 (ex_Entries base));
                  vb = foldl (count_power_gnss base (fst c) (snd c)) (0, 0) [0..<8]
              in (fst c, snd c, fst vb, snd vb))"

end
