(* ===== verification/ReceptionLaws.thy ===== *)
theory ReceptionLaws
  imports ReceptionContract
begin

text \<open>
  What the reception contract promises: each of its five bodies has one encoding; the collector's counts are the numbers of expected and matched satellites, with the deficit rule on top; and the
  alarm is eight independent detectors, each of which changes only after an unbroken streak of agreeing samples as long as the dwell, and does change then.
\<close>

unbundle bit_operations_syntax

section \<open>Canonical encodings\<close>

text \<open>Runs of single bytes in a layout.\<close>

lemma take_bytes: "k + n \<le> length b \<Longrightarrow> take n (drop k b) = map (\<lambda>i. b ! (k + i)) [0..<n]"
  by (intro nth_equalityI) auto

lemma take_head_4: "4 \<le> length b \<Longrightarrow> take 4 b = [b ! 0, b ! 1, b ! 2, b ! 3]"
  using take_bytes [of 0 4 b] by (simp add: upt_rec numeral_2_eq_2 numeral_3_eq_3)

lemma head_8: "8 \<le> length b \<Longrightarrow> take 8 b = [b ! 0, b ! 1, b ! 2, b ! 3, b ! 4, b ! 5, b ! 6, b ! 7]"
  using take_bytes [of 0 8 b] by (simp add: upt_rec eval_nat_numeral)

lemma tail_4: "length b = 68 \<Longrightarrow> drop 64 b = [b ! 64, b ! 65, b ! 66, b ! 67]"
  using take_bytes [of 64 4 b] by (simp add: upt_rec numeral_2_eq_2 numeral_3_eq_3)

lemma sample_read: "length b = SampleSize \<Longrightarrow> DecodeSample b = Inr s \<Longrightarrow> sample_Encode s = b"
  using concat_byte_fields [of "[4, 8, 8, 8, 8, 8, 16, 8, 8]" b]
  by (auto simp: DecodeSample_def SampleSize_def sample_Encode_def reception_Version_def PutUint64_Uint64 take_head_4 split: if_splits)

definition sample_ok :: "reception_sample \<Rightarrow> bool" where
  "sample_ok s \<longleftrightarrow> sm_Valid s AND 16 = 0 \<and> sm_Alarm s AND 16 = 0 \<and> sfits 64 (sm_Unix s) \<and> length (sm_Expected s) = 8 \<and> length (sm_Observed s) = 8 \<and> length (sm_Matched s) = 16"

definition sample_enc :: "reception_sample \<Rightarrow> reception_error + u8 list" where
  "sample_enc s = Inr (sample_Encode s)"

lemma sample_written: "sample_ok s \<Longrightarrow> DecodeSample (sample_Encode s) = Inr s"
  by (cases s) (simp add: sample_ok_def DecodeSample_def sample_Encode_def SampleSize_def reception_Version_def nth_append nth_Cons')

interpretation sample_body: codec sample_ok sample_enc DecodeSample
proof unfold_locales
  fix s b
  show "sample_ok s \<Longrightarrow> sample_enc s = Inr b \<Longrightarrow> DecodeSample b = Inr s" by (auto simp: sample_enc_def sample_written)
  assume d: "DecodeSample b = Inr s"
  then have l: "length b = SampleSize" by (auto simp: DecodeSample_def split: if_splits)
  have "sample_ok s" using d by (auto simp: DecodeSample_def sample_ok_def SampleSize_def split: if_splits)
  then show "sample_ok s \<and> sample_enc s = Inr b" using sample_read [OF l d] by (simp add: sample_enc_def)
qed

lemma event_read: "length b = PowerEventSize \<Longrightarrow> DecodePowerEvent b = Inr e \<Longrightarrow> power_event_Encode e = Inr b"
  using concat_byte_fields [of "[8, 8, 8, 8, 8, 8, 8, 8, 4]" b]
  by (auto simp: DecodePowerEvent_def PowerEventSize_def power_event_Encode_def PowerVersion_def PutUint64_Uint64 head_8 tail_4 Let_def split: if_splits)

lemma event_written: "sfits 64 (pv_Unix e) \<Longrightarrow> power_event_Encode e = Inr b \<Longrightarrow> DecodePowerEvent b = Inr e"
  by (cases e) (auto simp: DecodePowerEvent_def power_event_Encode_def PowerEventSize_def PowerVersion_def nth_append nth_Cons' Let_def split: if_splits)

lemma plausible_fits [simp]: "unix_plausible t \<Longrightarrow> sfits 64 t"
  by (simp add: unix_plausible_def sfits_def)

interpretation power_event_body: codec power_event_Valid power_event_Encode DecodePowerEvent
proof unfold_locales
  fix e b
  show "power_event_Valid e \<Longrightarrow> power_event_Encode e = Inr b \<Longrightarrow> DecodePowerEvent b = Inr e"
    by (rule event_written) (simp_all add: power_event_Valid_def)
  assume d: "DecodePowerEvent b = Inr e"
  then have "length b = PowerEventSize" "power_event_Valid e" by (auto simp: DecodePowerEvent_def Let_def split: if_splits)
  then show "power_event_Valid e \<and> power_event_Encode e = Inr b" using event_read [OF _ d] by simp
qed

lemma power_sample_read: "length b = PowerSampleSize \<Longrightarrow> DecodePowerSample b = Inr s \<Longrightarrow> power_sample_Encode s = Inr b"
  using concat_byte_fields [of "[8, 8, 8, 8, 8, 8, 16, 128, 16, 16, 16, 16]" b]
  by (auto simp: DecodePowerSample_def PowerSampleSize_def power_sample_Encode_def PowerVersion_def PutUint64_Uint64 head_8 tail_4 Let_def split: if_splits)

definition power_sample_ok :: "power_sample \<Rightarrow> bool" where
  "power_sample_ok s \<longleftrightarrow> power_sample_Valid s \<and> length (ps_ObservedValid s) = 16 \<and> length (ps_Observed s) = 128 \<and> length (pa_Valid (ps_LocalAssessment s)) = 16 \<and>
     length (pa_Bad (ps_LocalAssessment s)) = 16 \<and> length (pa_Valid (ps_RemoteAssessment s)) = 16 \<and> length (pa_Bad (ps_RemoteAssessment s)) = 16"

lemma power_sample_written: "power_sample_ok s \<Longrightarrow> power_sample_Encode s = Inr b \<Longrightarrow> DecodePowerSample b = Inr s"
proof -
  assume ok: "power_sample_ok s" and e: "power_sample_Encode s = Inr b"
  then have f: "sfits 64 (ps_Unix s)" by (auto simp: power_sample_ok_def power_sample_Valid_def Let_def)
  obtain lv lb rv rb where a: "ps_LocalAssessment s = \<lparr>pa_Valid = lv, pa_Bad = lb\<rparr>" "ps_RemoteAssessment s = \<lparr>pa_Valid = rv, pa_Bad = rb\<rparr>"
    by (cases "ps_LocalAssessment s"; cases "ps_RemoteAssessment s") simp
  show ?thesis
    using ok e f a by (cases s) (auto simp: DecodePowerSample_def power_sample_Encode_def power_sample_ok_def PowerSampleSize_def PowerVersion_def nth_append nth_Cons' Let_def split: if_splits)
qed

interpretation power_sample_body: codec power_sample_ok power_sample_Encode DecodePowerSample
proof unfold_locales
  fix s b
  show "power_sample_ok s \<Longrightarrow> power_sample_Encode s = Inr b \<Longrightarrow> DecodePowerSample b = Inr s" by (rule power_sample_written)
  assume d: "DecodePowerSample b = Inr s"
  then have l: "length b = PowerSampleSize" by (auto simp: DecodePowerSample_def split: if_splits)
  have "power_sample_ok s" using d by (auto simp: DecodePowerSample_def power_sample_ok_def PowerSampleSize_def Let_def split: if_splits)
  then show "power_sample_ok s \<and> power_sample_Encode s = Inr b" using power_sample_read [OF l d] by simp
qed

lemma take_6_at: "34 + 6 \<le> length b \<Longrightarrow> take 6 (drop 34 b) = [b ! 34, b ! 35, b ! 36, b ! 37, b ! 38, b ! 39]"
  using take_bytes [of 34 6 b] by (simp add: upt_rec eval_nat_numeral)

lemma take_4_at: "36 + 4 \<le> length b \<Longrightarrow> take 4 (drop 36 b) = [b ! 36, b ! 37, b ! 38, b ! 39]"
  using take_bytes [of 36 4 b] by (simp add: upt_rec eval_nat_numeral)

text \<open>An entry table: reading every stride gives the entries back, and writing them gives the bytes back.\<close>

lemma table_written:
  assumes "\<And>x r. x \<in> set xs \<Longrightarrow> length (e x) = n \<and> f (e x @ r) = x"
  shows "map (\<lambda>i. f (drop (i * n) (concat (map e xs)))) [0..<length xs] = xs"
  using strided_decode [of xs e n f id "[]"] assms by simp

lemma table_read:
  assumes "length b = m * n" and w: "\<And>i. i < m \<Longrightarrow> e (f (drop (i * n) b)) = take n (drop (i * n) b)"
  shows "concat (map (e \<circ> (\<lambda>i. f (drop (i * n) b))) [0..<m]) = b"
proof -
  have "map (e \<circ> (\<lambda>i. f (drop (i * n) b))) [0..<m] = map (\<lambda>i. take n (drop (i * n) b)) [0..<m]" using w by simp
  then show ?thesis using concat_strides [OF assms(1)] by (simp only:)
qed

lemma entry_laws: "length (entry_bytes v) = 4 \<and> entry_at (entry_bytes v @ r) = v"
  by (simp add: entry_bytes_def entry_at_def)

lemma entry_read: "4 \<le> length b \<Longrightarrow> entry_bytes (entry_at b) = take 4 b"
  by (simp add: entry_bytes_def entry_at_def take_head_4)

lemma expectation_read:
  assumes d: "expectation_Decode b = Inr e"
  shows "expectation_Valid e \<and> expectation_Encode e = Inr b"
proof -
  have v: "expectation_Valid e" and l: "length b = 40 + 4 * unat (b ! 3)" using d by (auto simp: expectation_Decode_def HeaderSize_def Let_def split: if_splits)
  have c: "concat (byte_fields [4, 8, 8, 4, 4, 2, 2, 2, 6, 4 * unat (b ! 3)] b) = b" by (rule concat_byte_fields) (simp add: l)
  have s: "concat (map (entry_bytes \<circ> (\<lambda>i. entry_at (drop (40 + i * 4) b))) [0..<unat (b ! 3)]) = drop 40 b"
    using table_read [of "drop 40 b" "unat (b ! 3)" 4 entry_bytes entry_at] l by (simp add: comp_def add.commute entry_read)
  have "length (ex_Entries e) = unat (b ! 3)" "concat (map entry_bytes (ex_Entries e)) = take (4 * unat (b ! 3)) (drop 40 b)"
    using d s l by (auto simp: expectation_Decode_def Let_def split: if_splits)
  then show ?thesis
    using d v l c unfolding expectation_Encode_def
    by (auto simp: expectation_Decode_def HeaderSize_def reception_Version_def Let_def PutUint64_Uint64 PutUint32_Uint32 PutUint16_Uint16 take_head_4 take_6_at split: if_splits)
qed

lemma expectation_fits:
  assumes "expectation_Valid e"
  shows "sfits 64 (ex_Issued e)" "sfits 32 (ex_Latitude e)" "sfits 32 (ex_Longitude e)" "length (ex_Entries e) \<le> 128"
  using assms by (auto simp: expectation_Valid_def unix_plausible_def sfits_def MaxEntries_def)

lemma unat_count [simp]: "n \<le> 128 \<Longrightarrow> unat (of_nat n :: u8) = n"
  by (simp add: unat_of_nat)

lemma drop_head_40: "length h = 40 \<Longrightarrow> drop (i * n + 40) (h @ t) = drop (i * n) t"
  by simp

lemma expectation_written:
  assumes "expectation_Encode e = Inr b"
  shows "expectation_Decode b = Inr e"
proof -
  have v: "expectation_Valid e" using assms by (auto simp: expectation_Encode_def split: if_splits)
  note f = expectation_fits [OF v]
  have t: "map (\<lambda>i. entry_at (drop (i * 4) (concat (map entry_bytes (ex_Entries e))))) [0..<length (ex_Entries e)] = ex_Entries e"
    by (rule table_written) (use entry_laws in blast)
  have l: "length (concat (map entry_bytes (ex_Entries e))) = length (ex_Entries e) * 4" by (rule length_concat_const) (use entry_laws in blast)
  show ?thesis
    using assms v f t l by (cases e) (auto simp: expectation_Encode_def expectation_Decode_def HeaderSize_def reception_Version_def Slots_def SlotSeconds_def nth_append nth_Cons' drop_Cons' Let_def add.commute split: if_splits)
qed

interpretation expectation_body: codec expectation_Valid expectation_Encode expectation_Decode
  by unfold_locales (auto dest: expectation_read expectation_written)

definition power_entry_ok :: "power_entry \<Rightarrow> bool" where
  "power_entry_ok e \<longleftrightarrow> length (pe_Expected e) = 5 \<and> length (pe_MAD e) = 5 \<and> length (pe_Support e) = 5"

definition power_expectation_okay :: "power_expectation \<Rightarrow> bool" where
  "power_expectation_okay p \<longleftrightarrow> power_expectation_Valid p \<and> list_all power_entry_ok (px_Entries p)"

lemma power_entry_laws: "power_entry_ok v \<Longrightarrow> length (power_entry_bytes v) = 16 \<and> power_entry_at (power_entry_bytes v @ r) = v"
  by (simp add: power_entry_bytes_def power_entry_at_def power_entry_ok_def)

lemma power_entry_read: "16 \<le> length b \<Longrightarrow> power_entry_bytes (power_entry_at b) = take 16 b"
  using concat_byte_fields [of "[1, 5, 5, 5]" "take 16 b"]
  by (cases b) (simp_all add: power_entry_bytes_def power_entry_at_def drop_take)

lemma power_expectation_read:
  assumes d: "DecodePowerExpectation b = Inr p"
  shows "power_expectation_okay p \<and> power_expectation_Encode p = Inr b"
proof -
  have v: "power_expectation_Valid p" and l: "length b = 40 + 16 * unat (b ! 3)"
    using d by (auto simp: DecodePowerExpectation_def PowerHeaderSize_def PowerEntrySize_def Let_def split: if_splits)
  have c: "concat (byte_fields [4, 8, 8, 8, 8, 4, 16 * unat (b ! 3)] b) = b" by (rule concat_byte_fields) (simp add: l)
  have s: "concat (map (power_entry_bytes \<circ> (\<lambda>i. power_entry_at (drop (40 + i * 16) b))) [0..<unat (b ! 3)]) = drop 40 b"
    using table_read [of "drop 40 b" "unat (b ! 3)" 16 power_entry_bytes power_entry_at] l by (simp add: comp_def add.commute power_entry_read)
  have e: "px_Entries p = map (\<lambda>i. power_entry_at (drop (40 + i * 16) b)) [0..<unat (b ! 3)]"
    using d by (auto simp: DecodePowerExpectation_def Let_def split: if_splits)
  have "list_all power_entry_ok (px_Entries p)" using l by (auto simp: e list_all_iff power_entry_ok_def power_entry_at_def)
  moreover have "length (px_Entries p) = unat (b ! 3)" "concat (map power_entry_bytes (px_Entries p)) = take (16 * unat (b ! 3)) (drop 40 b)"
    using e s l by auto
  then have "power_expectation_Encode p = Inr b"
    using d v l c unfolding power_expectation_Encode_def
    by (auto simp: DecodePowerExpectation_def PowerHeaderSize_def PowerVersion_def Let_def PutUint64_Uint64 take_head_4 take_4_at split: if_splits)
  ultimately show ?thesis using v by (simp add: power_expectation_okay_def)
qed

lemma power_expectation_written:
  assumes k: "power_expectation_okay p" and x: "power_expectation_Encode p = Inr b"
  shows "DecodePowerExpectation b = Inr p"
proof -
  have v: "power_expectation_Valid p" and f: "sfits 64 (px_Issued p)" "length (px_Entries p) \<le> 128"
    using k by (auto simp: power_expectation_okay_def power_expectation_Valid_def MaxEntries_def)
  have t: "map (\<lambda>i. power_entry_at (drop (i * 16) (concat (map power_entry_bytes (px_Entries p))))) [0..<length (px_Entries p)] = px_Entries p"
    by (rule table_written) (use k power_entry_laws in \<open>auto simp: power_expectation_okay_def list_all_iff\<close>)
  have l: "length (concat (map power_entry_bytes (px_Entries p))) = length (px_Entries p) * 16"
    by (rule length_concat_const) (use k power_entry_laws in \<open>auto simp: power_expectation_okay_def list_all_iff\<close>)
  show ?thesis
    using x v f t l by (cases p) (auto simp: power_expectation_Encode_def DecodePowerExpectation_def PowerHeaderSize_def PowerEntrySize_def PowerVersion_def Slots_def SlotSeconds_def nth_append nth_Cons' drop_Cons' Let_def add.commute split: if_splits)
qed

interpretation power_expectation_body: codec power_expectation_okay power_expectation_Encode DecodePowerExpectation
  by unfold_locales (auto dest: power_expectation_read power_expectation_written)

text \<open>Each of the five bodies is canonical: bytes decode to a value exactly when the value is valid and the bytes are its encoding.\<close>

lemma contracts_roundtrip:
  "(expectation_Decode b = Inr e \<longleftrightarrow> expectation_Valid e \<and> expectation_Encode e = Inr b) \<and>
   (DecodeSample b = Inr s \<longleftrightarrow> sample_ok s \<and> sample_Encode s = b) \<and>
   (DecodePowerExpectation b = Inr p \<longleftrightarrow> power_expectation_okay p \<and> power_expectation_Encode p = Inr b) \<and>
   (DecodePowerSample b = Inr ps \<longleftrightarrow> power_sample_ok ps \<and> power_sample_Encode ps = Inr b) \<and>
   (DecodePowerEvent b = Inr pv \<longleftrightarrow> power_event_Valid pv \<and> power_event_Encode pv = Inr b)"
  using expectation_body.dec_iff [of b e] sample_body.dec_iff [of b s] power_expectation_body.dec_iff [of b p] power_sample_body.dec_iff [of b ps] power_event_body.dec_iff [of b pv]
  by (simp add: sample_enc_def)

text \<open>What the loops count.\<close>

definition entry_active :: "u8 \<Rightarrow> nat \<Rightarrow> nat \<times> reception_entry \<Rightarrow> bool" where
  "entry_active slot g iv \<longleftrightarrow> en_Slots (snd iv) AND slot \<noteq> 0 \<and> unat (en_GNSS (snd iv)) = g"

definition tally :: "(nat \<times> reception_entry \<Rightarrow> bool) \<Rightarrow> reception_entry list \<Rightarrow> nat" where
  "tally p vs = length (filter p (enumerate 0 vs))"

lemma bump_at: "length c = 8 \<Longrightarrow> g < 8 \<Longrightarrow> length (bump c h) = 8 \<and> bump c h ! g = (if unat h = g then c ! g + 1 else c ! g)"
  by (simp add: bump_def)

text \<open>A loop that bumps two counters under two conditions counts the entries of each.\<close>

lemma bump_loop:
  assumes f: "\<And>ex ob iv. f (ex, ob) iv = (if P iv then (bump ex (en_GNSS (snd iv)), if Q iv then bump ob (en_GNSS (snd iv)) else ob) else (ex, ob))"
    and l: "length ex = 8" "length ob = 8" "g < 8" and r: "foldl f (ex, ob) ivs = (ex', ob')"
  shows "length ex' = 8 \<and> length ob' = 8 \<and> ex' ! g = ex ! g + of_nat (length (filter (\<lambda>iv. P iv \<and> unat (en_GNSS (snd iv)) = g) ivs)) \<and>
     ob' ! g = ob ! g + of_nat (length (filter (\<lambda>iv. P iv \<and> unat (en_GNSS (snd iv)) = g \<and> Q iv) ivs))"
  using l r
proof (induction ivs arbitrary: ex ob)
  case (Cons iv ivs)
  obtain ex1 ob1 where s: "f (ex, ob) iv = (ex1, ob1)" by fastforce
  have "length ex1 = 8 \<and> length ob1 = 8 \<and> ex1 ! g = ex ! g + (if P iv \<and> unat (en_GNSS (snd iv)) = g then 1 else 0) \<and>
      ob1 ! g = ob ! g + (if P iv \<and> unat (en_GNSS (snd iv)) = g \<and> Q iv then 1 else 0)"
    using s bump_at [OF Cons.prems(1,3), of "en_GNSS (snd iv)"] bump_at [OF Cons.prems(2,3), of "en_GNSS (snd iv)"] Cons.prems by (auto simp: f split: if_splits)
  then show ?case using Cons.IH [of ex1 ob1] Cons.prems(3,4) s by auto
qed simp

lemma count_entry_if:
  "count_entry slot m (ex, ob) iv =
     (if en_Slots (snd iv) AND slot \<noteq> 0 then (bump ex (en_GNSS (snd iv)), if bitmap m (fst iv) then bump ob (en_GNSS (snd iv)) else ob) else (ex, ob))"
  by (cases iv) (simp add: count_entry_def)

lemma count_gnss_loop:
  "h < 8 \<Longrightarrow> (case foldl (count_gnss e ex ob) (v, 0) [0..<n] of (valid, bad) \<Rightarrow>
     bit valid h = (bit v h \<and> (h < n \<longrightarrow> ex_MinExpected e \<le> ex ! h)) \<and>
     bit bad h = (h < n \<and> ex_MinExpected e \<le> ex ! h \<and> unat (ex_MinMissing e) \<le> unat (ex ! h - ob ! h) \<and>
        unat (ex_MissingPercent e) * unat (ex ! h) \<le> 100 * unat (ex ! h - ob ! h)))"
  by (induction n) (auto simp: count_gnss_def Let_def bit_simps not_less less_Suc_eq split: prod.splits if_splits)

lemma tally_mono: "(\<And>iv. p iv \<Longrightarrow> q iv) \<Longrightarrow> tally p vs \<le> tally q vs"
  unfolding tally_def by (induction vs rule: rev_induct) (simp_all add: enumerate_append_eq)

lemma tally_le: "tally p vs \<le> length vs"
  unfolding tally_def using length_filter_le [of p "enumerate 0 vs"] by simp

text \<open>For a sample of the current expectation, within its five minutes, the collector's counts are the numbers of entries of the minute and of those among them the sample matches, without
  wrap-around; a constellation is covered when the sample covers it and enough is expected, and bad when it is covered and enough of it is missing, in number and in percent.\<close>

lemma counts_exact:
  assumes "expectation_Valid e" "sm_ExpectationID s = ex_ID e" "0 \<le> sm_Unix s - ex_Issued e" "sm_Unix s - ex_Issued e < 300" "g < 8"
  shows "let slot = push_bit (nat ((sm_Unix s - ex_Issued e) div 60)) 1;
             n = tally (entry_active slot g) (ex_Entries e); k = tally (\<lambda>iv. entry_active slot g iv \<and> bitmap (sm_Matched s) (fst iv)) (ex_Entries e)
         in case Counts e s of (expected, observed, valid, bad) \<Rightarrow>
              unat (expected ! g) = n \<and> unat (observed ! g) = k \<and> (bit valid g \<longleftrightarrow> bit (sm_Valid s) g \<and> unat (ex_MinExpected e) \<le> n) \<and>
              (bit bad g \<longleftrightarrow> bit valid g \<and> unat (ex_MinMissing e) \<le> n - k \<and> unat (ex_MissingPercent e) * n \<le> 100 * (n - k))"
proof -
  define slot :: u8 where "slot = push_bit (nat ((sm_Unix s - ex_Issued e) div 60)) 1"
  define n where "n = tally (entry_active slot g) (ex_Entries e)"
  define k where "k = tally (\<lambda>iv. entry_active slot g iv \<and> bitmap (sm_Matched s) (fst iv)) (ex_Entries e)"
  have w: "wrap64 (sm_Unix s - ex_Issued e) = sm_Unix s - ex_Issued e" using assms(3,4) by (intro wrap64_id) auto
  have le: "k \<le> n" "n \<le> 128" unfolding k_def n_def using expectation_fits(4) [OF assms(1)] tally_le [of "entry_active slot g" "ex_Entries e"] by (auto intro: tally_mono)
  obtain ex ob where c: "foldl (count_entry slot (sm_Matched s)) (replicate 8 0, replicate 8 0) (enumerate 0 (ex_Entries e)) = (ex, ob)" by fastforce
  have "ex ! g = of_nat n \<and> ob ! g = of_nat k"
    using bump_loop [OF count_entry_if _ _ assms(5) c] assms(5) by (simp add: n_def k_def tally_def entry_active_def [abs_def] conj_assoc)
  then have u: "unat (ex ! g) = n" "unat (ob ! g) = k" "unat (ex ! g - ob ! g) = n - k" using le by (auto simp: unat_of_nat unat_sub word_le_nat_alt)
  obtain va ba where v: "foldl (count_gnss e ex ob) (sm_Valid s, 0) [0..<8] = (va, ba)" by fastforce
  have "Counts e s = (ex, ob, va, ba AND va)"
    using assms(2-4) w c v by (simp add: Counts_def Let_def SlotSeconds_def Slots_def slot_def)
  then have "case Counts e s of (expected, observed, valid, bad) \<Rightarrow>
      unat (expected ! g) = n \<and> unat (observed ! g) = k \<and> (bit valid g \<longleftrightarrow> bit (sm_Valid s) g \<and> unat (ex_MinExpected e) \<le> n) \<and>
      (bit bad g \<longleftrightarrow> bit valid g \<and> unat (ex_MinMissing e) \<le> n - k \<and> unat (ex_MissingPercent e) * n \<le> 100 * (n - k))"
    using count_gnss_loop [OF assms(5), where e = e and ex = ex and ob = ob and v = "sm_Valid s" and n = 8] u v assms(5) by (auto simp: bit_simps word_le_nat_alt)
  then show ?thesis unfolding Let_def n_def k_def slot_def .
qed

section \<open>The alarm is eight independent detectors\<close>

record alarm_dwell =
  dw_alarm :: bool
  dw_target :: bool
  dw_pending :: bool
  dw_since :: int

definition alarm_bit :: "nat \<Rightarrow> reception_machine \<Rightarrow> alarm_dwell" where
  "alarm_bit g m = \<lparr>dw_alarm = bit (mc_Alarm m) g, dw_target = bit (mc_target m) g, dw_pending = bit (mc_pending m) g, dw_since = mc_since m ! g\<rparr>"

definition dwell_step :: "bool \<Rightarrow> bool \<Rightarrow> int \<Rightarrow> u16 \<Rightarrow> u16 \<Rightarrow> alarm_dwell \<Rightarrow> alarm_dwell" where
  "dwell_step valid bad now alarmSeconds clearSeconds d =
     (if \<not> valid \<or> bad = dw_alarm d then d\<lparr>dw_pending := False\<rparr>
      else let d1 = (if dw_pending d \<and> dw_target d = bad then d else d\<lparr>dw_pending := True, dw_target := bad, dw_since := now\<rparr>)
           in if wrap64 (now - dw_since d1) \<ge> int (unat (if bad then alarmSeconds else clearSeconds)) * 1000 then d1\<lparr>dw_alarm := bad, dw_pending := False\<rparr> else d1)"

lemma masked_eq: "g < 8 \<Longrightarrow> ((a :: u8) AND push_bit g 1 = b AND push_bit g 1) = (bit a g = bit b g)"
  by (auto simp: bit_eq_iff [where 'a = "8 word"] bit_simps)

lemma masked_zero: "g < 8 \<Longrightarrow> ((a :: u8) AND push_bit g 1 = 0) = (\<not> bit a g)" "g < 8 \<Longrightarrow> ((a :: u8) AND push_bit g 1 \<noteq> 0) = bit a g"
  by (auto simp: bit_eq_iff [where 'a = "8 word"] bit_simps)

lemma masked_target: "g < 8 \<Longrightarrow> ((t :: u8) AND push_bit g 1 \<noteq> b AND push_bit g 1) = (bit t g \<noteq> bit b g)"
  by (auto simp: bit_eq_iff [where 'a = "8 word"] bit_simps)

lemma merged_bit: "g < 8 \<Longrightarrow> h < 8 \<Longrightarrow> bit ((a AND NOT (push_bit g 1)) OR (b AND push_bit g 1) :: u8) h = (if h = g then bit b h else bit a h)"
  "g < 8 \<Longrightarrow> h < 8 \<Longrightarrow> bit (a AND NOT (push_bit g 1) :: u8) h = (bit a h \<and> h \<noteq> g)" "g < 8 \<Longrightarrow> h < 8 \<Longrightarrow> bit (a OR push_bit g 1 :: u8) h = (bit a h \<or> h = g)"
  by (auto simp: bit_simps)

lemmas masked = masked_eq masked_zero masked_target merged_bit

lemma step_bit_view:
  assumes "g < 8" "h < 8" "length (mc_since m) = 8"
  shows "alarm_bit h (step_bit valid bad now a c m g) = (if h = g then dwell_step (bit valid g) (bit bad g) now a c (alarm_bit g m) else alarm_bit h m)"
  using assms unfolding step_bit_def Let_def alarm_bit_def dwell_step_def
  by (simp add: masked del: push_bit_of_1 cong: if_cong)

lemma step_bit_frame:
  "mc_last (step_bit valid bad now a c m g) = mc_last m" "length (mc_since (step_bit valid bad now a c m g)) = length (mc_since m)"
  by (simp_all add: step_bit_def Let_def)

lemma step_bits:
  assumes "h < 8" "length (mc_since m) = 8"
  shows "n \<le> 8 \<Longrightarrow> (let m' = foldl (step_bit valid bad now a c) m [0..<n]
     in alarm_bit h m' = (if h < n then dwell_step (bit valid h) (bit bad h) now a c (alarm_bit h m) else alarm_bit h m) \<and> mc_last m' = mc_last m \<and> length (mc_since m') = 8)"
  using assms by (induction n) (auto simp: Let_def step_bit_frame step_bit_view less_Suc_eq)

lemma machine_Step_view:
  assumes "h < 8" "length (mc_since m) = 8"
  shows "let broken = (mc_last m \<noteq> 0 \<and> (now < mc_last m \<or> wrap64 (now - mc_last m) > 15000));
             d = (if broken then alarm_bit h m\<lparr>dw_pending := False\<rparr> else alarm_bit h m)
         in alarm_bit h (machine_Step valid bad now a c m) = (if now \<le> mc_last m then d else dwell_step (bit valid h) (bit bad h) now a c d) \<and>
            mc_last (machine_Step valid bad now a c m) = max now (mc_last m) \<and> length (mc_since (machine_Step valid bad now a c m)) = 8"
proof -
  define m1 where "m1 = (if mc_last m \<noteq> 0 \<and> (now < mc_last m \<or> wrap64 (now - mc_last m) > 15000) then m\<lparr>mc_pending := 0\<rparr> else m)"
  have "alarm_bit h (m1\<lparr>mc_last := now\<rparr>) = alarm_bit h m1" "length (mc_since (m1\<lparr>mc_last := now\<rparr>)) = 8" "mc_last m1 = mc_last m" "length (mc_since m1) = 8"
    "alarm_bit h m1 = (if mc_last m \<noteq> 0 \<and> (now < mc_last m \<or> wrap64 (now - mc_last m) > 15000) then alarm_bit h m\<lparr>dw_pending := False\<rparr> else alarm_bit h m)"
    using assms(2) by (simp_all add: m1_def alarm_bit_def)
  then show ?thesis
    using step_bits [OF assms(1), of "m1\<lparr>mc_last := now\<rparr>" 8 valid bad now a c] assms(1) by (auto simp: machine_Step_def m1_def [symmetric] Let_def)
qed

section \<open>Runs\<close>

text \<open>The calls a detector receives; the time is \<^verbatim>\<open>UnixMilli\<close>, an \<^verbatim>\<open>int64\<close>.\<close>

datatype machine_input = Sampled u8 u8 u64 u16 u16 | Retained u8

primrec machine_call :: "machine_input \<Rightarrow> reception_machine \<Rightarrow> reception_machine" where
  "machine_call (Sampled valid bad ms a c) m = machine_Step valid bad (sint ms) a c m"
| "machine_call (Retained valid) m = RetainCoverage valid m"

definition machine_run :: "machine_input list \<Rightarrow> reception_machine" where
  "machine_run = foldl (\<lambda>m x. machine_call x m) reception_machine0"

text \<open>An alarm_unbroken streak after a sample at \<open>t\<close>: samples that cover the constellation and agree with \<open>w\<close>, in time order and at most 15 seconds apart; the result is the time of the last one. A call at
  the time of the last sample is not looked at.\<close>

fun alarm_unbroken :: "nat \<Rightarrow> bool \<Rightarrow> int \<Rightarrow> machine_input list \<Rightarrow> int option" where
  "alarm_unbroken g w t [] = Some t"
| "alarm_unbroken g w t (Retained valid # xs) = (if bit valid g then alarm_unbroken g w t xs else None)"
| "alarm_unbroken g w t (Sampled valid bad ms a c # xs) =
     (if sint ms = t then alarm_unbroken g w t xs
      else if sint ms < t \<or> sint ms - t > 15000 \<or> \<not> bit valid g \<or> bit bad g \<noteq> w then None
      else alarm_unbroken g w (sint ms) xs)"

lemma unbroken_append: "alarm_unbroken g w t (xs @ ys) = (case alarm_unbroken g w t xs of None \<Rightarrow> None | Some u \<Rightarrow> alarm_unbroken g w u ys)"
  by (induction g w t xs rule: alarm_unbroken.induct) (auto split: option.splits)

definition streak :: "nat \<Rightarrow> bool \<Rightarrow> int \<Rightarrow> int \<Rightarrow> machine_input list \<Rightarrow> bool" where
  "streak g w t u xs \<longleftrightarrow> (\<exists>ys valid bad ms a c zs. xs = ys @ Sampled valid bad ms a c # zs \<and> sint ms = t \<and> bit valid g \<and> bit bad g = w \<and> 0 < t \<and> alarm_unbroken g w t zs = Some u)"

lemma streak_start: "0 < sint ms \<Longrightarrow> bit valid g \<Longrightarrow> streak g (bit bad g) (sint ms) (sint ms) (xs @ [Sampled valid bad ms a c])"
  unfolding streak_def by (rule exI [of _ xs]) auto

lemma streak_more: "streak g w t u xs \<Longrightarrow> alarm_unbroken g w u [x] = Some v \<Longrightarrow> streak g w t v (xs @ [x])"
proof -
  assume s: "streak g w t u xs" and x: "alarm_unbroken g w u [x] = Some v"
  from s obtain ys valid bad ms a c zs where z: "xs = ys @ Sampled valid bad ms a c # zs" "sint ms = t" "bit valid g" "bit bad g = w" "0 < t" "alarm_unbroken g w t zs = Some u"
    unfolding streak_def by blast
  then have "xs @ [x] = ys @ Sampled valid bad ms a c # (zs @ [x])" "alarm_unbroken g w t (zs @ [x]) = Some v" using x by (simp_all add: unbroken_append)
  with z(2-5) show ?thesis unfolding streak_def by blast
qed

lemma unbroken_mono: "alarm_unbroken g w t xs = Some u \<Longrightarrow> t \<le> u"
  by (induction g w t xs rule: alarm_unbroken.induct) (auto split: if_splits)

lemma streak_le: "streak g w t u xs \<Longrightarrow> 0 < t \<and> t \<le> u"
  unfolding streak_def using unbroken_mono by blast

definition alarm_tracked :: "nat \<Rightarrow> machine_input list \<Rightarrow> reception_machine \<Rightarrow> bool" where
  "alarm_tracked g xs m \<longleftrightarrow> length (mc_since m) = 8 \<and> 0 \<le> mc_last m \<and> mc_last m < 2 ^ 63 \<and>
     (dw_pending (alarm_bit g m) \<longrightarrow> streak g (dw_target (alarm_bit g m)) (dw_since (alarm_bit g m)) (mc_last m) xs)"


lemma tracked_start: "alarm_tracked g [] reception_machine0"
  by (simp add: alarm_tracked_def reception_machine0_def alarm_bit_def)

lemma wrap64_gap: "0 \<le> i \<Longrightarrow> i \<le> j \<Longrightarrow> j < 2 ^ 63 \<Longrightarrow> wrap64 (j - i) = j - i"
  by (rule wrap64_id) auto

lemma retained_view: "alarm_bit g (RetainCoverage valid m) = (alarm_bit g m)\<lparr>dw_pending := dw_pending (alarm_bit g m) \<and> bit valid g\<rparr>"
  by (simp add: alarm_bit_def RetainCoverage_def bit_simps)

lemma retained_frame: "mc_last (RetainCoverage valid m) = mc_last m" "mc_since (RetainCoverage valid m) = mc_since m"
  by (simp_all add: RetainCoverage_def)

lemma sint_lt_63: "sint (ms :: u64) < 9223372036854775808"
  using sint_lt [of ms] by simp

text \<open>One call keeps the streak that a pending transition stands for; the alarm bit moves only at its end.\<close>

lemma dwell_step_streak:
  assumes d: "dw_pending d \<longrightarrow> streak g (dw_target d) (dw_since d) u xs" "dw_pending d \<longrightarrow> sint ms - u \<le> 15000" and u: "0 \<le> u" "u < sint ms"
    and r: "d' = dwell_step (bit valid g) (bit bad g) (sint ms) a c d"
  shows "(dw_pending d' \<longrightarrow> streak g (dw_target d') (dw_since d') (sint ms) (xs @ [Sampled valid bad ms a c])) \<and>
     (dw_alarm d' \<noteq> dw_alarm d \<longrightarrow> dw_alarm d' = bit bad g \<and>
        (\<exists>t. streak g (bit bad g) t (sint ms) (xs @ [Sampled valid bad ms a c]) \<and> sint ms - t \<ge> 1000 * int (unat (if bit bad g then a else c))))"
proof (cases "bit valid g \<and> bit bad g \<noteq> dw_alarm d")
  case True
  define d1 where "d1 = (if dw_pending d \<and> dw_target d = bit bad g then d else d\<lparr>dw_pending := True, dw_target := bit bad g, dw_since := sint ms\<rparr>)"
  have "streak g (bit bad g) (dw_since d1) (sint ms) (xs @ [Sampled valid bad ms a c])"
  proof (cases "dw_pending d \<and> dw_target d = bit bad g")
    case same: True
    then show ?thesis using d u True by (auto simp: d1_def intro!: streak_more)
  next
    case False
    then have "dw_since d1 = sint ms" by (auto simp: d1_def)
    then show ?thesis using u True streak_start [where g = g and bad = bad and ms = ms] by simp
  qed
  moreover from streak_le [OF this] have "wrap64 (sint ms - dw_since d1) = sint ms - dw_since d1" by (intro wrap64_gap) (auto simp: sint_lt_63)
  moreover have "dw_target d1 = bit bad g" "dw_alarm d1 = dw_alarm d" by (auto simp: d1_def)
  ultimately show ?thesis using True unfolding r dwell_step_def d1_def [symmetric] Let_def by auto
qed (auto simp: r dwell_step_def)

lemma tracked_call:
  assumes "g < 8" "alarm_tracked g xs m"
  shows "alarm_tracked g (xs @ [x]) (machine_call x m)"
    "dw_alarm (alarm_bit g (machine_call x m)) \<noteq> dw_alarm (alarm_bit g m) \<Longrightarrow>
     \<exists>valid bad ms a c t. x = Sampled valid bad ms a c \<and> dw_alarm (alarm_bit g (machine_call x m)) = bit bad g \<and>
       streak g (bit bad g) t (sint ms) (xs @ [x]) \<and> sint ms - t \<ge> 1000 * int (unat (if bit bad g then a else c))"
proof -
  have "alarm_tracked g (xs @ [x]) (machine_call x m) \<and> (dw_alarm (alarm_bit g (machine_call x m)) \<noteq> dw_alarm (alarm_bit g m) \<longrightarrow>
     (\<exists>valid bad ms a c t. x = Sampled valid bad ms a c \<and> dw_alarm (alarm_bit g (machine_call x m)) = bit bad g \<and>
       streak g (bit bad g) t (sint ms) (xs @ [x]) \<and> sint ms - t \<ge> 1000 * int (unat (if bit bad g then a else c))))"
  proof (cases x)
    case (Retained valid)
    have "streak g w t u xs \<Longrightarrow> bit valid g \<Longrightarrow> streak g w t u (xs @ [x])" for w t u by (rule streak_more) (simp_all add: Retained)
    then show ?thesis using assms(2) by (simp add: alarm_tracked_def retained_view retained_frame Retained)
  next
    case (Sampled valid bad ms a c)
    let ?now = "sint ms"
    have l: "length (mc_since m) = 8" "0 \<le> mc_last m" "mc_last m < 2 ^ 63" and p: "dw_pending (alarm_bit g m) \<longrightarrow> streak g (dw_target (alarm_bit g m)) (dw_since (alarm_bit g m)) (mc_last m) xs"
      using assms(2) by (simp_all add: alarm_tracked_def)
    define d where "d = (if mc_last m \<noteq> 0 \<and> (?now < mc_last m \<or> wrap64 (?now - mc_last m) > 15000) then alarm_bit g m\<lparr>dw_pending := False\<rparr> else alarm_bit g m)"
    have al: "dw_alarm d = dw_alarm (alarm_bit g m)" by (simp add: d_def)
    have v: "alarm_bit g (machine_call x m) = (if ?now \<le> mc_last m then d else dwell_step (bit valid g) (bit bad g) ?now a c d)"
      "mc_last (machine_call x m) = max ?now (mc_last m)" "length (mc_since (machine_call x m)) = 8"
      using machine_Step_view [OF assms(1) l(1), of ?now valid bad a c] by (simp_all add: Sampled d_def Let_def)
    have dp: "dw_pending d \<longrightarrow> streak g (dw_target d) (dw_since d) (mc_last m) xs \<and> 0 < mc_last m \<and> mc_last m \<le> ?now \<and> wrap64 (?now - mc_last m) \<le> 15000"
      using p streak_le by (fastforce simp: d_def split: if_splits)
    show ?thesis
    proof (cases "?now \<le> mc_last m")
      case True
      then have "dw_pending d \<longrightarrow> streak g (dw_target d) (dw_since d) (mc_last m) (xs @ [x])" using dp by (auto simp: Sampled intro!: streak_more)
      then show ?thesis using True v l al by (simp add: alarm_tracked_def max_def)
    next
      case False
      then have gap: "dw_pending d \<longrightarrow> ?now - mc_last m \<le> 15000" using dp wrap64_gap [OF l(2), of ?now] by (auto simp: sint_lt_63)
      have "dw_pending d \<longrightarrow> streak g (dw_target d) (dw_since d) (mc_last m) xs" using dp by blast
      from dwell_step_streak [OF this gap l(2) _ refl, of valid bad a c] False
      show ?thesis using v l al by (auto simp: alarm_tracked_def Sampled sint_lt_63 max_def)
    qed
  qed
  then show "alarm_tracked g (xs @ [x]) (machine_call x m)"
    "dw_alarm (alarm_bit g (machine_call x m)) \<noteq> dw_alarm (alarm_bit g m) \<Longrightarrow>
     \<exists>valid bad ms a c t. x = Sampled valid bad ms a c \<and> dw_alarm (alarm_bit g (machine_call x m)) = bit bad g \<and>
       streak g (bit bad g) t (sint ms) (xs @ [x]) \<and> sint ms - t \<ge> 1000 * int (unat (if bit bad g then a else c))" by blast+
qed

lemma run_snoc: "machine_run (xs @ [x]) = machine_call x (machine_run xs)"
  by (simp add: machine_run_def)

lemma alarm_tracked_run: "g < 8 \<Longrightarrow> alarm_tracked g xs (machine_run xs)"
proof (induction xs rule: rev_induct)
  case Nil
  then show ?case using tracked_start by (simp add: machine_run_def)
next
  case (snoc x xs)
  then show ?case using tracked_call(1) by (simp add: run_snoc)
qed

text \<open>On every run of calls, an alarm bit changes only in a sample that ends an unbroken streak of samples that cover the constellation, agree with the new value, come in time order at most 15 seconds
  apart, and span the dwell of that direction; unknown coverage breaks the streak and never moves the alarm.\<close>

lemma alarm_dwells:
  assumes "g < 8" "bit (mc_Alarm (machine_run (xs @ [x]))) g \<noteq> bit (mc_Alarm (machine_run xs)) g"
  shows "\<exists>valid bad ms a c t. x = Sampled valid bad ms a c \<and> bit (mc_Alarm (machine_run (xs @ [x]))) g = bit bad g \<and>
     streak g (bit bad g) t (sint ms) (xs @ [x]) \<and> sint ms - t \<ge> 1000 * int (unat (if bit bad g then a else c))"
  using tracked_call(2) [OF assms(1) alarm_tracked_run [OF assms(1)], of x xs] assms(2) by (simp add: run_snoc alarm_bit_def)

section \<open>A streak that lasts moves the alarm\<close>

definition quick :: "bool \<Rightarrow> int \<Rightarrow> machine_input \<Rightarrow> bool" where
  "quick w n x \<longleftrightarrow> (case x of Sampled valid bad ms a c \<Rightarrow> int (unat (if w then a else c)) \<le> n | Retained valid \<Rightarrow> True)"

definition alarm_toward :: "nat \<Rightarrow> bool \<Rightarrow> int \<Rightarrow> int \<Rightarrow> int \<Rightarrow> reception_machine \<Rightarrow> bool" where
  "alarm_toward g w n t u m \<longleftrightarrow> length (mc_since m) = 8 \<and> 0 < t \<and> t \<le> u \<and> u < 2 ^ 63 \<and> mc_last m = u \<and>
     (dw_alarm (alarm_bit g m) = w \<or> (dw_pending (alarm_bit g m) \<and> dw_target (alarm_bit g m) = w \<and> 0 < dw_since (alarm_bit g m) \<and> dw_since (alarm_bit g m) \<le> t \<and> u - t < 1000 * n))"

lemma dwell_step_follows:
  assumes "dw_alarm d = w \<or> (dw_pending d \<and> dw_target d = w \<and> 0 < dw_since d \<and> dw_since d \<le> t) \<or> (t = u \<and> (dw_pending d \<longrightarrow> 0 < dw_since d \<and> dw_since d \<le> u))" "0 < t" "t \<le> u" "u < 2 ^ 63"
    "int (unat (if w then a else c)) \<le> n"
  shows "let d' = dwell_step True w u a c d in dw_alarm d' = w \<or> (dw_pending d' \<and> dw_target d' = w \<and> 0 < dw_since d' \<and> dw_since d' \<le> t \<and> u - t < 1000 * n)"
proof (cases "dw_alarm d = w")
  case False
  define d1 where "d1 = (if dw_pending d \<and> dw_target d = w then d else d\<lparr>dw_pending := True, dw_target := w, dw_since := u\<rparr>)"
  have d1: "dw_pending d1 \<and> dw_target d1 = w \<and> 0 < dw_since d1 \<and> dw_since d1 \<le> t" using assms(1-3) False by (auto simp: d1_def)
  then have "wrap64 (u - dw_since d1) = u - dw_since d1" using assms(3,4) by (intro wrap64_gap) auto
  then show ?thesis using False d1 assms(3,5) unfolding dwell_step_def d1_def [symmetric] Let_def by (auto split: if_splits)
qed (simp add: dwell_step_def)

lemma follows_run:
  assumes "g < 8"
  shows "alarm_toward g w n t u m \<Longrightarrow> alarm_unbroken g w u zs = Some v \<Longrightarrow> list_all (quick w n) zs \<Longrightarrow> alarm_toward g w n t v (foldl (\<lambda>m x. machine_call x m) m zs)"
proof (induction zs arbitrary: m u)
  case (Cons x zs)
  show ?case
  proof (cases x)
    case (Retained valid)
    then have "alarm_toward g w n t u (machine_call x m)" using Cons.prems by (auto simp: alarm_toward_def retained_view retained_frame split: if_splits)
    then show ?thesis using Cons Retained by (auto split: if_splits)
  next
    case (Sampled valid bad ms a c)
    have f: "length (mc_since m) = 8" "mc_last m = u" "0 < t" "t \<le> u" using Cons.prems(1) by (simp_all add: alarm_toward_def)
    note v = machine_Step_view [OF assms f(1), of "sint ms" valid bad a c, unfolded Let_def]
    show ?thesis
    proof (cases "sint ms = u")
      case True
      then have "alarm_bit g (machine_call x m) = alarm_bit g m" "mc_last (machine_call x m) = u" "length (mc_since (machine_call x m)) = 8"
        using v f wrap64_gap [of u u] Cons.prems(1) by (simp_all add: Sampled alarm_toward_def)
      then have "alarm_toward g w n t u (machine_call x m)" using Cons.prems(1) by (simp add: alarm_toward_def)
      then show ?thesis using Cons Sampled True by simp
    next
      case False
      then have s: "u < sint ms" "sint ms - u \<le> 15000" "bit valid g" "bit bad g = w" "alarm_unbroken g w (sint ms) zs = Some v" using Cons.prems(2) by (auto simp: Sampled split: if_splits)
      have gap: "wrap64 (sint ms - u) = sint ms - u" using s(1) f by (intro wrap64_gap) (auto simp: sint_lt_63)
      have e: "alarm_bit g (machine_call x m) = dwell_step True w (sint ms) a c (alarm_bit g m)" "mc_last (machine_call x m) = sint ms" "length (mc_since (machine_call x m)) = 8"
        using v f s gap by (simp_all add: Sampled)
      have "alarm_toward g w n t (sint ms) (machine_call x m)"
        using dwell_step_follows [of "alarm_bit g m" w t "sint ms" a c n] Cons.prems(1,3) s(1) f e by (auto simp: alarm_toward_def quick_def Sampled sint_lt_63 Let_def)
      then show ?thesis using Cons.IH s(5) Cons.prems(3) by simp
    qed
  qed
qed simp

text \<open>Conversely, after a fresh sample an unbroken streak as long as the dwell leaves the alarm at what the samples say, whatever came before.\<close>

lemma alarm_follows:
  assumes "g < 8" "bit valid g" "mc_last (machine_run xs) < sint ms" "alarm_unbroken g (bit bad g) (sint ms) zs = Some v" "list_all (quick (bit bad g) n) (Sampled valid bad ms a c # zs)" "1000 * n \<le> v - sint ms"
  shows "bit (mc_Alarm (machine_run (xs @ Sampled valid bad ms a c # zs))) g = bit bad g"
proof -
  let ?m = "machine_run xs" and ?x = "Sampled valid bad ms a c" and ?w = "bit bad g"
  have k: "length (mc_since ?m) = 8" "0 \<le> mc_last ?m" and p: "dw_pending (alarm_bit g ?m) \<longrightarrow> streak g (dw_target (alarm_bit g ?m)) (dw_since (alarm_bit g ?m)) (mc_last ?m) xs"
    using alarm_tracked_run [OF assms(1), of xs] by (simp_all add: alarm_tracked_def)
  define d where "d = (if mc_last ?m \<noteq> 0 \<and> (sint ms < mc_last ?m \<or> wrap64 (sint ms - mc_last ?m) > 15000) then alarm_bit g ?m\<lparr>dw_pending := False\<rparr> else alarm_bit g ?m)"
  have "dw_pending d \<longrightarrow> 0 < dw_since d \<and> dw_since d \<le> sint ms" using p assms(3) by (auto simp: d_def dest: streak_le)
  moreover have e: "alarm_bit g (machine_call ?x ?m) = dwell_step True ?w (sint ms) a c d" "mc_last (machine_call ?x ?m) = sint ms" "length (mc_since (machine_call ?x ?m)) = 8"
    using machine_Step_view [OF assms(1) k(1), of "sint ms" valid bad a c, unfolded Let_def] assms(2,3) by (simp_all add: d_def)
  ultimately have "alarm_toward g ?w n (sint ms) (sint ms) (machine_call ?x ?m)"
    using dwell_step_follows [of d ?w "sint ms" "sint ms" a c n] assms(3,5) k(2) by (auto simp: alarm_toward_def quick_def Let_def sint_lt_63)
  from follows_run [OF assms(1) this assms(4)] assms(5)
  have "alarm_toward g ?w n (sint ms) v (machine_run (xs @ ?x # zs))" by (simp add: machine_run_def)
  then show ?thesis using assms(6) by (simp add: alarm_toward_def alarm_bit_def)
qed

end
