(* ===== verification/StationAssurance.thy ===== *)
theory StationAssurance
  imports GoTime "HOL-Library.List_Lexorder" "HOL-Library.Char_ord"
begin

text \<open>
  Station assurance, \<^verbatim>\<open>go/internal/integrity\<close>: the assurance states and domains (\<^verbatim>\<open>integrity.go\<close>), the filter and hysteresis of one
  check (\<^verbatim>\<open>tracker.go\<close>) and the fusion of checks into a station state with the spoofing rule (\<^verbatim>\<open>fuse.go\<close>). The checks themselves, which turn
  measurements into verdicts, are inputs here. Weights and scores are reals for \<^verbatim>\<open>float64\<close>.
\<close>

section \<open>States and domains\<close>

text \<open>A Go \<^verbatim>\<open>State\<close> is a string; any string but the four levels is \<open>OtherState\<close>, the empty one among them.\<close>

datatype assurance = Unavailable | Unassured | Inconsistent | Assured | OtherState string

definition rank :: "assurance \<Rightarrow> int" where
  "rank s = (case s of Unassured \<Rightarrow> 0 | Inconsistent \<Rightarrow> 1 | Unavailable \<Rightarrow> 2 | Assured \<Rightarrow> 3 | OtherState _ \<Rightarrow> 2)"

definition level :: "assurance \<Rightarrow> real \<times> bool" where
  "level s = (case s of Unassured \<Rightarrow> (- 1, True) | Inconsistent \<Rightarrow> (0, True) | Assured \<Rightarrow> (1, True) | _ \<Rightarrow> (0, False))"

definition worse :: "assurance \<Rightarrow> assurance \<Rightarrow> assurance" where
  "worse a b = (if rank b < rank a then b else a)"

type_synonym domain = string

definition DomainSignalPower :: domain where "DomainSignalPower = ''signal_power''"
definition DomainPosition :: domain where "DomainPosition = ''position''"
definition DomainReceiverClock :: domain where "DomainReceiverClock = ''receiver_clock''"
definition DomainTimeReference :: domain where "DomainTimeReference = ''time_reference''"
definition DomainRFEnvironment :: domain where "DomainRFEnvironment = ''rf_environment''"
definition DomainReceiverVerdict :: domain where "DomainReceiverVerdict = ''receiver_verdict''"
definition DomainEnvironment :: domain where "DomainEnvironment = ''environment''"
definition DomainBarometricPosition :: domain where "DomainBarometricPosition = ''barometric_position''"

definition Physics :: "domain \<Rightarrow> bool" where
  "Physics d \<longleftrightarrow> d \<in> {DomainSignalPower, DomainPosition, DomainReceiverClock, DomainTimeReference, DomainBarometricPosition}"

record check_info =
  ci_Name :: string
  ci_Version :: int
  ci_Domain :: domain
  ci_LowerOnly :: bool
  ci_Advisory :: bool
  ci_UnknownImmediate :: bool

record verdict =
  v_State :: assurance
  v_Metrics :: "string \<rightharpoonup> real"
  v_Thresholds :: "string \<rightharpoonup> real"
  v_Reasons :: "string list"

record check_result =
  cr_Check :: string
  cr_Version :: int
  cr_Domain :: domain
  cr_State :: assurance
  cr_Candidate :: assurance
  cr_Since :: time
  cr_RecoveringSince :: "time option"
  cr_EvaluatedAt :: time
  cr_Metrics :: "string \<rightharpoonup> real"
  cr_Thresholds :: "string \<rightharpoonup> real"
  cr_Reasons :: "string list"
  cr_lowerOnly :: bool
  cr_advisory :: bool

text \<open>\<^verbatim>\<open>Profile.Validate\<close> keeps \<open>1 \<le> M \<le> N\<close>, so the counts are naturals.\<close>

record filter_policy =
  fp_M :: nat
  fp_N :: nat
  fp_RecoveryHold :: duration

section \<open>The tracker of one check\<close>

definition ReasonWarmingUp :: string where "ReasonWarmingUp = ''warming_up''"
definition ReasonStale :: string where "ReasonStale = ''stale''"

record tracker =
  tk_info :: check_info
  tk_window :: "assurance list"
  tk_candidate :: assurance
  tk_served :: assurance
  tk_since :: time
  tk_recovering :: bool
  tk_recoverySince :: time
  tk_recoveryFloor :: assurance
  tk_unavailableFloor :: assurance
  tk_haveUnavailableFloor :: bool
  tk_last :: verdict
  tk_lastAt :: time
  tk_seen :: bool

definition newTracker :: "check_info \<Rightarrow> tracker" where
  "newTracker info = \<lparr>tk_info = info, tk_window = [], tk_candidate = Unavailable, tk_served = Unavailable, tk_since = 0, tk_recovering = False,
     tk_recoverySince = 0, tk_recoveryFloor = OtherState [], tk_unavailableFloor = OtherState [], tk_haveUnavailableFloor = False,
     tk_last = \<lparr>v_State = OtherState [], v_Metrics = Map.empty, v_Thresholds = Map.empty, v_Reasons = []\<rparr>, tk_lastAt = 0, tk_seen = False\<rparr>"

definition filterWindow :: "assurance list \<Rightarrow> nat \<Rightarrow> assurance" where
  "filterWindow window m =
     (if length window < m then Unavailable
      else
       (let (unassured, degraded) =
              foldl (\<lambda>(u, d) s. case s of Unassured \<Rightarrow> (u + 1, d + 1) | Inconsistent \<Rightarrow> (u, d + 1) | _ \<Rightarrow> (u, d)) (0 :: nat, 0 :: nat) window
        in if unassured \<ge> m then Unassured else if degraded \<ge> m then Inconsistent else Assured))"

definition appendReason :: "string list \<Rightarrow> string \<Rightarrow> string list" where
  "appendReason reasons r = (if r \<in> set reasons then reasons else reasons @ [r])"

definition tracker_hold :: "tracker \<Rightarrow> time \<Rightarrow> duration \<Rightarrow> tracker" where
  "tracker_hold t now period =
     (let c = tk_candidate t; imm = ci_UnknownImmediate (tk_info t)
      in if imm \<and> c = Unavailable then
           (let t1 = (if tk_seen t \<and> rank (tk_served t) < rank Unavailable then t\<lparr>tk_unavailableFloor := tk_served t, tk_haveUnavailableFloor := True\<rparr> else t);
                t2 = (if \<not> tk_seen t1 \<or> tk_served t1 \<noteq> Unavailable then t1\<lparr>tk_served := Unavailable, tk_since := now\<rparr> else t1)
            in t2\<lparr>tk_recovering := False\<rparr>)
         else if imm \<and> tk_served t = Unavailable \<and> tk_haveUnavailableFloor t then
           (let floor' = tk_unavailableFloor t; t1 = t\<lparr>tk_haveUnavailableFloor := False\<rparr>
            in if rank c \<le> rank floor' then t1\<lparr>tk_served := c, tk_since := now, tk_recovering := False\<rparr>
               else t1\<lparr>tk_served := floor', tk_since := now, tk_recovering := True, tk_recoverySince := now, tk_recoveryFloor := c\<rparr>)
         else if \<not> tk_seen t then t\<lparr>tk_served := c, tk_since := now\<rparr>
         else if rank c < rank (tk_served t) then t\<lparr>tk_served := c, tk_since := now, tk_recovering := False\<rparr>
         else if rank c = rank (tk_served t) then t\<lparr>tk_recovering := False\<rparr>
         else if tk_served t = Unavailable then t\<lparr>tk_served := c, tk_since := now, tk_recovering := False\<rparr>
         else
          (let t1 = (if \<not> tk_recovering t then t\<lparr>tk_recovering := True, tk_recoverySince := now, tk_recoveryFloor := c\<rparr>
                     else if rank c < rank (tk_recoveryFloor t) then t\<lparr>tk_recoveryFloor := c\<rparr> else t)
           in if time_Sub now (tk_recoverySince t1) \<ge> period
              then t1\<lparr>tk_served := tk_recoveryFloor t1, tk_since := now, tk_recovering := False\<rparr> else t1))"

definition tracker_filter :: "tracker \<Rightarrow> assurance \<Rightarrow> filter_policy \<Rightarrow> tracker" where
  "tracker_filter t s f =
     (if s = Unavailable then t\<lparr>tk_window := [], tk_candidate := Unavailable\<rparr>
      else
       (let w = tk_window t @ [s]; w' = (if length w > fp_N f then drop (length w - fp_N f) w else w)
        in t\<lparr>tk_window := w', tk_candidate := filterWindow w' (fp_M f)\<rparr>))"

definition tracker_update :: "tracker \<Rightarrow> verdict \<Rightarrow> time \<Rightarrow> filter_policy \<Rightarrow> tracker" where
  "tracker_update t v now f =
     (let v1 = (if v_State v = OtherState [] then v\<lparr>v_State := Unavailable\<rparr> else v);
          t1 = tracker_filter t (v_State v1) f;
          v2 = (if v_State v1 \<noteq> Unavailable \<and> tk_candidate t1 = Unavailable then v1\<lparr>v_Reasons := appendReason (v_Reasons v1) ReasonWarmingUp\<rparr> else v1)
      in (tracker_hold t1 now (fp_RecoveryHold f))\<lparr>tk_last := v2, tk_lastAt := now, tk_seen := True\<rparr>)"

definition tracker_expire :: "tracker \<Rightarrow> time \<Rightarrow> duration \<Rightarrow> filter_policy \<Rightarrow> bool \<times> tracker" where
  "tracker_expire t now staleAfter f =
     (if \<not> tk_seen t \<or> time_Sub now (tk_lastAt t) \<le> staleAfter \<or> (tk_candidate t = Unavailable \<and> tk_served t = Unavailable) then (False, t)
      else
       (let lastAt = tk_lastAt t;
            t1 = tracker_update t \<lparr>v_State = Unavailable, v_Metrics = v_Metrics (tk_last t), v_Thresholds = v_Thresholds (tk_last t),
                   v_Reasons = appendReason (v_Reasons (tk_last t)) ReasonStale\<rparr> now f
        in (True, t1\<lparr>tk_lastAt := lastAt\<rparr>)))"

text \<open>\<^verbatim>\<open>Time.Unix\<close>: whole seconds since 1970.\<close>

definition unix :: "time \<Rightarrow> int" where
  "unix t = t div Second - 62135596800"

definition tracker_result :: "tracker \<Rightarrow> check_result" where
  "tracker_result t =
     \<lparr>cr_Check = ci_Name (tk_info t), cr_Version = ci_Version (tk_info t), cr_Domain = ci_Domain (tk_info t), cr_State = tk_served t,
      cr_Candidate = tk_candidate t, cr_Since = (if tk_seen t then unix (tk_since t) else 0),
      cr_RecoveringSince = (if tk_recovering t then Some (unix (tk_recoverySince t)) else None),
      cr_EvaluatedAt = (if tk_seen t then unix (tk_lastAt t) else 0), cr_Metrics = v_Metrics (tk_last t), cr_Thresholds = v_Thresholds (tk_last t),
      cr_Reasons = v_Reasons (tk_last t), cr_lowerOnly = ci_LowerOnly (tk_info t), cr_advisory = ci_Advisory (tk_info t)\<rparr>"

section \<open>Fusion\<close>

definition SpoofingQuorum :: nat where "SpoofingQuorum = 2"

record fusion =
  fu_State :: assurance
  fu_Score :: "real option"
  fu_UnassuredDomains :: "domain list"
  fu_SpoofingIndicated :: bool

text \<open>The loop over the results: the weighted sum, the weights and the unassured domains.\<close>

definition fuse_step :: "(string \<rightharpoonup> real) \<Rightarrow> real \<times> real \<times> domain set \<Rightarrow> check_result \<Rightarrow> real \<times> real \<times> domain set" where
  "fuse_step weights acc r =
     (case acc of (sm, sumW, domains) \<Rightarrow>
        if cr_advisory r then (sm, sumW, domains)
        else
         (let domains' = (if cr_State r = Unassured then insert (cr_Domain r) domains else domains);
              (lvl, ok) = level (cr_State r);
              w = (case weights (cr_Check r) of Some v \<Rightarrow> v | None \<Rightarrow> 1)
          in if \<not> ok \<or> (cr_lowerOnly r \<and> cr_State r = Assured) then (sm, sumW, domains')
             else if w \<le> 0 then (sm, sumW, domains')
             else (sm + w * lvl, sumW + w, domains')))"

definition Fuse :: "check_result list \<Rightarrow> (string \<rightharpoonup> real) \<Rightarrow> fusion" where
  "Fuse results weights =
     (let (sm, sumW, domains) = foldl (fuse_step weights) (0, 0, {}) results;
          physics = card (Set.filter Physics domains);
          corroborated = physics + (if DomainReceiverVerdict \<in> domains then 1 else 0) + (if DomainRFEnvironment \<in> domains then 1 else 0);
          score = sm / sumW;
          st = (if sumW > 0 then (if score < - 1 / 2 then Unassured else if score \<le> 1 / 2 then Inconsistent else Assured) else Unavailable)
      in \<lparr>fu_State = (if physics \<ge> 1 \<and> corroborated \<ge> 2 then Unassured else if domains \<noteq> {} then Inconsistent else st),
          fu_Score = (if sumW > 0 then Some score else None),
          fu_UnassuredDomains = sorted_list_of_set domains,
          fu_SpoofingIndicated = (physics \<ge> SpoofingQuorum \<or> physics \<ge> 1 \<and> DomainReceiverVerdict \<in> domains)\<rparr>)"

section \<open>Runs of a tracker\<close>

text \<open>What a station does with a tracker: an evaluation, or ageing at a reading of the clock. The history records every
  evaluation, an ageing that takes effect included, with the candidate it left.\<close>

datatype tracker_op = Evaluate verdict time | Age time duration

type_synonym tracked = "tracker \<times> (time \<times> assurance) list"

definition tracked_step :: "filter_policy \<Rightarrow> tracked \<Rightarrow> tracker_op \<Rightarrow> tracked" where
  "tracked_step f x op =
     (case x of (t, hist) \<Rightarrow>
        (case op of
           Evaluate v now \<Rightarrow> (let t' = tracker_update t v now f in (t', hist @ [(now, tk_candidate t')]))
         | Age now staleAfter \<Rightarrow>
             (case tracker_expire t now staleAfter f of (changed, t') \<Rightarrow> (t', if changed then hist @ [(now, tk_candidate t')] else hist))))"

definition tracked_run :: "filter_policy \<Rightarrow> check_info \<Rightarrow> tracker_op list \<Rightarrow> tracked" where
  "tracked_run f info ops = foldl (tracked_step f) (newTracker info, []) ops"

text \<open>The level of a check counting a fault that missing input hides.\<close>

definition fault_level :: "tracker \<Rightarrow> int" where
  "fault_level t = rank (if tk_haveUnavailableFloor t then tk_unavailableFloor t else tk_served t)"

text \<open>A hold in progress: every candidate since its start is better than the served state, and the floor is the worst of them.\<close>

definition hold_ok :: "tracker \<Rightarrow> (time \<times> assurance) list \<Rightarrow> bool" where
  "hold_ok t hist \<longleftrightarrow>
     (\<exists>ys zs. hist = ys @ zs \<and> zs \<noteq> [] \<and> fst (hd zs) = tk_recoverySince t \<and> (\<forall>(_, c) \<in> set zs. rank (tk_served t) < rank c) \<and>
        tk_recoveryFloor t \<in> snd ` set zs \<and> (\<forall>(_, c) \<in> set zs. rank (tk_recoveryFloor t) \<le> rank c))"

definition check_tracker_ok :: "tracker \<Rightarrow> (time \<times> assurance) list \<Rightarrow> bool" where
  "check_tracker_ok t hist \<longleftrightarrow>
     rank (tk_served t) \<le> rank (tk_candidate t) \<and>
     (tk_haveUnavailableFloor t \<longrightarrow> tk_served t = Unavailable \<and> ci_UnknownImmediate (tk_info t) \<and> rank (tk_unavailableFloor t) < 2 \<and> tk_candidate t = Unavailable) \<and>
     (tk_recovering t \<longrightarrow> tk_seen t \<and> tk_served t \<noteq> Unavailable \<and> hold_ok t hist) \<and>
     (\<not> tk_seen t \<longrightarrow> \<not> tk_haveUnavailableFloor t \<and> tk_served t = Unavailable)"

lemma rank_simps [simp]: "rank Unassured = 0" "rank Inconsistent = 1" "rank Unavailable = 2" "rank Assured = 3" "rank (OtherState s) = 2"
  by (simp_all add: rank_def)

text \<open>What one hold does to a fault that was there before.\<close>

definition earned :: "tracker \<Rightarrow> tracker \<Rightarrow> time \<Rightarrow> duration \<Rightarrow> (time \<times> assurance) list \<Rightarrow> bool" where
  "earned t t' now period hist \<longleftrightarrow>
     (\<exists>ys zs. hist = ys @ zs \<and> zs \<noteq> [] \<and> period \<le> time_Sub now (fst (hd zs)) \<and>
        (\<forall>(_, c) \<in> set zs. fault_level t < rank c) \<and> (\<forall>(_, c) \<in> set zs. fault_level t' \<le> rank c) \<and> tk_served t' \<in> snd ` set zs)"

lemma hold_ok_start: "rank (tk_served t) < rank c \<Longrightarrow> tk_recoverySince t = now \<Longrightarrow> tk_recoveryFloor t = c \<Longrightarrow> hold_ok t (hist @ [(now, c)])"
  unfolding hold_ok_def by (intro exI [of _ hist] exI [of _ "[(now, c)]"]) simp

lemma hold_ok_extend:
  assumes "hold_ok t hist" "rank (tk_served t) < rank c"
    "tk_served t' = tk_served t" "tk_recoverySince t' = tk_recoverySince t" "tk_recoveryFloor t' = (if rank c < rank (tk_recoveryFloor t) then c else tk_recoveryFloor t)"
  shows "hold_ok t' (hist @ [(now, c)])"
proof -
  obtain ys zs where "hist = ys @ zs" "zs \<noteq> []" "fst (hd zs) = tk_recoverySince t" "\<forall>(_, c) \<in> set zs. rank (tk_served t) < rank c"
    "tk_recoveryFloor t \<in> snd ` set zs" "\<forall>(_, c) \<in> set zs. rank (tk_recoveryFloor t) \<le> rank c"
    using assms(1) unfolding hold_ok_def by blast
  then show ?thesis
    unfolding hold_ok_def using assms(2-) by (intro exI [of _ ys] exI [of _ "zs @ [(now, c)]"]) (auto simp: image_iff)
qed

text \<open>The branches of the hold.\<close>

lemma tracker_hold_cases:
  obtains (hidden) "ci_UnknownImmediate (tk_info t)" "tk_candidate t = Unavailable" "tk_seen t" "rank (tk_served t) < 2"
      "tracker_hold t now period = t\<lparr>tk_unavailableFloor := tk_served t, tk_haveUnavailableFloor := True, tk_served := Unavailable, tk_since := now, tk_recovering := False\<rparr>"
  | (unknown) "ci_UnknownImmediate (tk_info t)" "tk_candidate t = Unavailable" "\<not> (tk_seen t \<and> rank (tk_served t) < 2)"
      "\<exists>s. tracker_hold t now period = t\<lparr>tk_served := Unavailable, tk_since := s, tk_recovering := False\<rparr>"
  | (relapse) "ci_UnknownImmediate (tk_info t)" "tk_candidate t \<noteq> Unavailable" "tk_served t = Unavailable" "tk_haveUnavailableFloor t" "rank (tk_candidate t) \<le> rank (tk_unavailableFloor t)"
      "tracker_hold t now period = t\<lparr>tk_haveUnavailableFloor := False, tk_served := tk_candidate t, tk_since := now, tk_recovering := False\<rparr>"
  | (restored) "ci_UnknownImmediate (tk_info t)" "tk_candidate t \<noteq> Unavailable" "tk_served t = Unavailable" "tk_haveUnavailableFloor t" "rank (tk_unavailableFloor t) < rank (tk_candidate t)"
      "tracker_hold t now period = t\<lparr>tk_haveUnavailableFloor := False, tk_served := tk_unavailableFloor t, tk_since := now, tk_recovering := True,
         tk_recoverySince := now, tk_recoveryFloor := tk_candidate t\<rparr>"
  | (first) "\<not> (ci_UnknownImmediate (tk_info t) \<and> (tk_candidate t = Unavailable \<or> tk_served t = Unavailable \<and> tk_haveUnavailableFloor t))" "\<not> tk_seen t"
      "tracker_hold t now period = t\<lparr>tk_served := tk_candidate t, tk_since := now\<rparr>"
  | (at_once) "\<not> (ci_UnknownImmediate (tk_info t) \<and> (tk_candidate t = Unavailable \<or> tk_served t = Unavailable \<and> tk_haveUnavailableFloor t))" "tk_seen t"
      "rank (tk_candidate t) < rank (tk_served t) \<or> rank (tk_served t) < rank (tk_candidate t) \<and> tk_served t = Unavailable"
      "tracker_hold t now period = t\<lparr>tk_served := tk_candidate t, tk_since := now, tk_recovering := False\<rparr>"
  | (same) "\<not> (ci_UnknownImmediate (tk_info t) \<and> (tk_candidate t = Unavailable \<or> tk_served t = Unavailable \<and> tk_haveUnavailableFloor t))" "tk_seen t"
      "rank (tk_candidate t) = rank (tk_served t)" "tracker_hold t now period = t\<lparr>tk_recovering := False\<rparr>"
  | (recover) t1 where "\<not> (ci_UnknownImmediate (tk_info t) \<and> (tk_candidate t = Unavailable \<or> tk_served t = Unavailable \<and> tk_haveUnavailableFloor t))" "tk_seen t"
      "rank (tk_served t) < rank (tk_candidate t)" "tk_served t \<noteq> Unavailable"
      "t1 = (if \<not> tk_recovering t then t\<lparr>tk_recovering := True, tk_recoverySince := now, tk_recoveryFloor := tk_candidate t\<rparr>
             else if rank (tk_candidate t) < rank (tk_recoveryFloor t) then t\<lparr>tk_recoveryFloor := tk_candidate t\<rparr> else t)"
      "tracker_hold t now period = (if period \<le> time_Sub now (tk_recoverySince t1)
         then t1\<lparr>tk_served := tk_recoveryFloor t1, tk_since := now, tk_recovering := False\<rparr> else t1)"
proof (cases "ci_UnknownImmediate (tk_info t) \<and> tk_candidate t = Unavailable")
  case imm: True
  show ?thesis
  proof (cases "tk_seen t \<and> rank (tk_served t) < 2")
    case True
    then show ?thesis using imm by (intro hidden) (auto simp: tracker_hold_def Let_def)
  next
    case False
    then have "tracker_hold t now period = t\<lparr>tk_served := Unavailable, tk_since := (if \<not> tk_seen t \<or> tk_served t \<noteq> Unavailable then now else tk_since t), tk_recovering := False\<rparr>"
      using imm by (auto simp: tracker_hold_def Let_def)
    then show ?thesis using imm False by (intro unknown) blast+
  qed
next
  case avail: False
  show ?thesis
  proof (cases "ci_UnknownImmediate (tk_info t) \<and> tk_served t = Unavailable \<and> tk_haveUnavailableFloor t")
    case resumed: True
    show ?thesis
    proof (cases "rank (tk_candidate t) \<le> rank (tk_unavailableFloor t)")
      case True
      then show ?thesis using avail resumed by (intro relapse) (auto simp: tracker_hold_def Let_def)
    next
      case False
      then show ?thesis using avail resumed by (intro restored) (auto simp: tracker_hold_def Let_def)
    qed
  next
    case False
    then have g: "\<not> (ci_UnknownImmediate (tk_info t) \<and> (tk_candidate t = Unavailable \<or> tk_served t = Unavailable \<and> tk_haveUnavailableFloor t))" using avail by blast
    have e: "tracker_hold t now period =
        (if \<not> tk_seen t then t\<lparr>tk_served := tk_candidate t, tk_since := now\<rparr>
         else if rank (tk_candidate t) < rank (tk_served t) then t\<lparr>tk_served := tk_candidate t, tk_since := now, tk_recovering := False\<rparr>
         else if rank (tk_candidate t) = rank (tk_served t) then t\<lparr>tk_recovering := False\<rparr>
         else if tk_served t = Unavailable then t\<lparr>tk_served := tk_candidate t, tk_since := now, tk_recovering := False\<rparr>
         else
          (let t1 = (if \<not> tk_recovering t then t\<lparr>tk_recovering := True, tk_recoverySince := now, tk_recoveryFloor := tk_candidate t\<rparr>
                     else if rank (tk_candidate t) < rank (tk_recoveryFloor t) then t\<lparr>tk_recoveryFloor := tk_candidate t\<rparr> else t)
           in if time_Sub now (tk_recoverySince t1) \<ge> period
              then t1\<lparr>tk_served := tk_recoveryFloor t1, tk_since := now, tk_recovering := False\<rparr> else t1))"
      unfolding tracker_hold_def Let_def using avail False by (simp only: if_False)
    show ?thesis
    proof (cases "tk_seen t")
      case seen: False
      then show ?thesis using g e by (intro first) auto
    next
      case seen: True
      show ?thesis
      proof (cases "rank (tk_candidate t)" "rank (tk_served t)" rule: linorder_cases)
        case less
        then show ?thesis using g e seen by (intro at_once) auto
      next
        case equal
        then show ?thesis using g e seen by (intro same) auto
      next
        case greater
        show ?thesis
        proof (cases "tk_served t = Unavailable")
          case True
          then show ?thesis using g e seen greater by (intro at_once) auto
        next
          case False
          then show ?thesis using g e seen greater by (intro recover [OF _ _ _ _ refl]) (simp_all add: Let_def)
        qed
      qed
    qed
  qed
qed

lemma hold_ok_cong:
  "tk_served t' = tk_served t \<Longrightarrow> tk_recoverySince t' = tk_recoverySince t \<Longrightarrow> tk_recoveryFloor t' = tk_recoveryFloor t \<Longrightarrow> hold_ok t' h = hold_ok t h"
  by (simp add: hold_ok_def)

text \<open>One evaluation: the filtered tracker \<open>t\<close> differs from the one before only in window and candidate.\<close>

lemma hold_step:
  assumes ok: "check_tracker_ok t0 hist" and t: "t = t0\<lparr>tk_window := w, tk_candidate := c\<rparr>"
    and t': "t' = (tracker_hold t now period)\<lparr>tk_last := v, tk_lastAt := l, tk_seen := True\<rparr>"
  shows "check_tracker_ok t' (hist @ [(now, c)]) \<and> (fault_level t0 < 2 \<longrightarrow> fault_level t0 < fault_level t' \<longrightarrow> earned t0 t' now period (hist @ [(now, c)]))"
proof (cases rule: tracker_hold_cases [of t now period])
  case hidden
  then show ?thesis using ok by (auto simp: t t' check_tracker_ok_def fault_level_def)
next
  case unknown
  then show ?thesis using ok by (auto simp: t t' check_tracker_ok_def fault_level_def)
next
  case relapse
  then show ?thesis using ok by (auto simp: t t' check_tracker_ok_def fault_level_def)
next
  case restored
  then show ?thesis using ok hold_ok_start [of t' c now hist] by (auto simp: t t' check_tracker_ok_def fault_level_def)
next
  case first
  then show ?thesis using ok by (auto simp: t t' check_tracker_ok_def fault_level_def)
next
  case at_once
  then show ?thesis using ok by (auto simp: t t' check_tracker_ok_def fault_level_def)
next
  case same
  then show ?thesis using ok by (auto simp: t t' check_tracker_ok_def fault_level_def)
next
  case (recover t1)
  have nf: "\<not> tk_haveUnavailableFloor t0" using ok recover(4) by (auto simp: t check_tracker_ok_def)
  have s: "tk_served t1 = tk_served t0" "tk_candidate t1 = c" "tk_haveUnavailableFloor t1 = False" "tk_recovering t1" "tk_seen t1"
    "rank (tk_served t0) < rank c" "tk_served t0 \<noteq> Unavailable"
    using recover nf by (auto simp: t)
  have h: "hold_ok t1 (hist @ [(now, c)])"
  proof (cases "tk_recovering t0")
    case True
    then have "hold_ok t0 hist" using ok by (simp add: check_tracker_ok_def)
    then show ?thesis using True s recover(5) by (intro hold_ok_extend [of t0 hist c]) (auto simp: t)
  next
    case False
    then show ?thesis using s recover(5) by (intro hold_ok_start) (auto simp: t)
  qed
  show ?thesis
  proof (cases "period \<le> time_Sub now (tk_recoverySince t1)")
    case True
    then have t'': "t' = t1\<lparr>tk_served := tk_recoveryFloor t1, tk_since := now, tk_recovering := False, tk_last := v, tk_lastAt := l, tk_seen := True\<rparr>"
      using recover(6) by (simp add: t')
    obtain ys zs where z: "hist @ [(now, c)] = ys @ zs" "zs \<noteq> []" "fst (hd zs) = tk_recoverySince t1" "\<forall>(_, d) \<in> set zs. rank (tk_served t1) < rank d"
      "tk_recoveryFloor t1 \<in> snd ` set zs" "\<forall>(_, d) \<in> set zs. rank (tk_recoveryFloor t1) \<le> rank d"
      using h unfolding hold_ok_def by blast
    have "(now, c) \<in> set zs" using z(1,2) by (metis append_eq_append_conv2 last_appendR last_in_set last_snoc)
    then have "rank (tk_recoveryFloor t1) \<le> rank c" using z(6) by auto
    moreover have "earned t0 t' now period (hist @ [(now, c)])"
      unfolding earned_def using z s nf True by (intro exI [of _ ys] exI [of _ zs]) (auto simp: t'' fault_level_def)
    ultimately show ?thesis using s by (simp add: check_tracker_ok_def t'')
  next
    case False
    then have t'': "t' = t1\<lparr>tk_last := v, tk_lastAt := l, tk_seen := True\<rparr>" using recover(6) by (simp add: t')
    then have "hold_ok t' (hist @ [(now, c)])" using h hold_ok_cong [of t' t1] by simp
    then show ?thesis using s nf by (simp add: check_tracker_ok_def t'' fault_level_def)
  qed
qed

lemma tracker_filter_shape: "\<exists>w c. tracker_filter t s f = t\<lparr>tk_window := w, tk_candidate := c\<rparr>"
  by (auto simp: tracker_filter_def Let_def)

lemma tracker_update_step:
  assumes "check_tracker_ok t hist" "t' = tracker_update t v now f"
  shows "check_tracker_ok t' (hist @ [(now, tk_candidate t')]) \<and>
    (fault_level t < 2 \<longrightarrow> fault_level t < fault_level t' \<longrightarrow> earned t t' now (fp_RecoveryHold f) (hist @ [(now, tk_candidate t')]))"
proof -
  let ?s = "if v_State v = OtherState [] then Unavailable else v_State v"
  obtain w c where fl: "tracker_filter t ?s f = t\<lparr>tk_window := w, tk_candidate := c\<rparr>" using tracker_filter_shape by blast
  obtain v' where t': "t' = (tracker_hold (t\<lparr>tk_window := w, tk_candidate := c\<rparr>) now (fp_RecoveryHold f))\<lparr>tk_last := v', tk_lastAt := now, tk_seen := True\<rparr>"
    using assms(2) fl by (cases "v_State v = OtherState []") (auto simp: tracker_update_def Let_def)
  have "tk_candidate (tracker_hold u n p) = tk_candidate u" for u n p by (simp add: tracker_hold_def Let_def)
  then have "tk_candidate t' = c" by (simp add: t')
  then show ?thesis using hold_step [OF assms(1) refl t'] by simp
qed

lemma tracked_step_ok:
  assumes "check_tracker_ok t hist" "tracked_step f (t, hist) op = (t', hist')"
  shows "check_tracker_ok t' hist' \<and>
    (fault_level t < 2 \<longrightarrow> fault_level t < fault_level t' \<longrightarrow> hist' \<noteq> [] \<and> earned t t' (fst (last hist')) (fp_RecoveryHold f) hist')"
proof (cases op)
  case (Evaluate v now)
  then have "t' = tracker_update t v now f" "hist' = hist @ [(now, tk_candidate t')]" using assms(2) by (auto simp: tracked_step_def Let_def)
  then show ?thesis using tracker_update_step [OF assms(1), of t' v now f] by simp
next
  case (Age now d)
  show ?thesis
  proof (cases "fst (tracker_expire t now d f)")
    case False
    then have "t' = t" "hist' = hist" using assms(2) Age by (auto simp: tracked_step_def tracker_expire_def Let_def split: if_splits)
    then show ?thesis using assms(1) by simp
  next
    case True
    obtain v where u: "t' = (tracker_update t v now f)\<lparr>tk_lastAt := tk_lastAt t\<rparr>" "hist' = hist @ [(now, tk_candidate t')]"
      using assms(2) True Age by (auto simp: tracked_step_def tracker_expire_def Let_def split: if_splits)
    have "check_tracker_ok t' hist' = check_tracker_ok (tracker_update t v now f) hist'" "fault_level t' = fault_level (tracker_update t v now f)"
      "earned t t' n p h = earned t (tracker_update t v now f) n p h" for n p h
      by (simp_all add: u(1) check_tracker_ok_def fault_level_def earned_def hold_ok_def)
    then show ?thesis using tracker_update_step [OF assms(1) refl, of v now f] u by simp
  qed
qed

lemma tracked_run_ok: "tracked_run f info ops = (t, hist) \<Longrightarrow> check_tracker_ok t hist"
proof (induction ops arbitrary: t hist rule: rev_induct)
  case Nil
  then show ?case by (auto simp: tracked_run_def newTracker_def check_tracker_ok_def)
next
  case (snoc op ops)
  obtain t0 h0 where r: "tracked_run f info ops = (t0, h0)" by fastforce
  then have "tracked_step f (t0, h0) op = (t, hist)" using snoc.prems by (simp add: tracked_run_def)
  then show ?case using tracked_step_ok [OF snoc.IH [OF r]] by blast
qed

text \<open>The evaluations that count: the last \<open>N\<close> since input resumed.\<close>

definition available_tail :: "assurance list \<Rightarrow> assurance list" where
  "available_tail ss = rev (takeWhile (\<lambda>s. s \<noteq> Unavailable) (rev ss))"

definition last_n :: "nat \<Rightarrow> 'a list \<Rightarrow> 'a list" where
  "last_n n xs = drop (length xs - n) xs"

definition evaluated :: "verdict \<Rightarrow> assurance" where
  "evaluated v = (if v_State v = OtherState [] then Unavailable else v_State v)"

lemma last_n_snoc: "0 < n \<Longrightarrow> last_n n (last_n n xs @ [x]) = last_n n (xs @ [x])"
proof (cases "length xs \<le> n")
  case False
  assume "0 < n"
  then have "Suc (length xs) - n = Suc (length xs - n)" using False by simp
  then show ?thesis using False \<open>0 < n\<close> by (simp add: last_n_def drop_append)
qed (simp add: last_n_def)

lemma filterWindow_counts:
  "filterWindow w m =
     (if length w < m then Unavailable
      else if m \<le> length (filter (\<lambda>s. s = Unassured) w) then Unassured
      else if m \<le> length (filter (\<lambda>s. s = Unassured \<or> s = Inconsistent) w) then Inconsistent else Assured)"
proof -
  have "foldl (\<lambda>(u, d) s. case s of Unassured \<Rightarrow> (u + 1, d + 1) | Inconsistent \<Rightarrow> (u, d + 1) | _ \<Rightarrow> (u, d)) (u, d) w =
      (u + length (filter (\<lambda>s. s = Unassured) w), d + length (filter (\<lambda>s. s = Unassured \<or> s = Inconsistent) w))" for u d :: nat
    by (induction w arbitrary: u d) (auto split: assurance.split)
  then show ?thesis unfolding filterWindow_def Let_def by (simp only: prod.case add_0)
qed

text \<open>The window a tracker keeps is the tail of the history since input last resumed.\<close>

lemma available_tail_snoc: "available_tail (ss @ [s]) = (if s = Unavailable then [] else available_tail ss @ [s])"
  by (simp add: available_tail_def)

lemma tracker_update_window:
  "tk_window (tracker_update t v now f) = (if evaluated v = Unavailable then [] else last_n (fp_N f) (tk_window t @ [evaluated v]))"
  "tk_candidate (tracker_update t v now f) =
     (if evaluated v = Unavailable then Unavailable else filterWindow (last_n (fp_N f) (tk_window t @ [evaluated v])) (fp_M f))"
proof -
  have h: "tk_window (tracker_hold u n p) = tk_window u" "tk_candidate (tracker_hold u n p) = tk_candidate u" for u n p
    by (simp_all add: tracker_hold_def Let_def)
  show "tk_window (tracker_update t v now f) = (if evaluated v = Unavailable then [] else last_n (fp_N f) (tk_window t @ [evaluated v]))"
    by (simp add: tracker_update_def Let_def h tracker_filter_def evaluated_def last_n_def)
  show "tk_candidate (tracker_update t v now f) =
     (if evaluated v = Unavailable then Unavailable else filterWindow (last_n (fp_N f) (tk_window t @ [evaluated v])) (fp_M f))"
    by (simp add: tracker_update_def Let_def h tracker_filter_def evaluated_def last_n_def)
qed

definition evaluations :: "filter_policy \<Rightarrow> check_info \<Rightarrow> (verdict \<times> time) list \<Rightarrow> tracker" where
  "evaluations f info vs = foldl (\<lambda>t (v, now). tracker_update t v now f) (newTracker info) vs"

lemma evaluations_window:
  assumes "0 < fp_N f" "0 < fp_M f"
  shows "tk_window (evaluations f info vs) = last_n (fp_N f) (available_tail (map (evaluated \<circ> fst) vs)) \<and>
    tk_candidate (evaluations f info vs) = filterWindow (tk_window (evaluations f info vs)) (fp_M f)"
proof (induction vs rule: rev_induct)
  case Nil
  then show ?case using assms by (simp add: evaluations_def newTracker_def available_tail_def last_n_def filterWindow_def)
next
  case (snoc x vs)
  obtain v now where x: "x = (v, now)" by fastforce
  have "evaluations f info (vs @ [x]) = tracker_update (evaluations f info vs) v now f" by (simp add: evaluations_def x)
  then show ?case using snoc assms
    by (simp add: tracker_update_window x available_tail_snoc last_n_snoc) (simp add: last_n_def filterWindow_def)
qed

text \<open>the M-of-N filter. After any evaluations the candidate is Unassured exactly when at least M of the last N evaluations since input last
  resumed were, Inconsistent when at least M were that or worse, Assured when neither, and Unavailable while fewer than M have been made.\<close>

lemma candidate_M_of_N:
  assumes "0 < fp_N f" "0 < fp_M f" "w = last_n (fp_N f) (available_tail (map (evaluated \<circ> fst) vs))"
  shows "tk_candidate (evaluations f info vs) =
     (if length w < fp_M f then Unavailable
      else if fp_M f \<le> length (filter (\<lambda>s. s = Unassured) w) then Unassured
      else if fp_M f \<le> length (filter (\<lambda>s. s = Unassured \<or> s = Inconsistent) w) then Inconsistent else Assured)"
  using evaluations_window [OF assms(1,2), of info vs] assms(3) filterWindow_counts by simp

text \<open>on every run of evaluations and ageings the served state is never better than the candidate, a fault hidden by missing input is remembered as a
  degraded state, and a recovery in progress stands on a stretch of evaluations that all support a better state than the served one.\<close>

lemma tracker_invariant: "case tracked_run f info ops of (t, hist) \<Rightarrow> check_tracker_ok t hist"
  using tracked_run_ok by (auto split: prod.split)

text \<open>C24: recovery is earned. When a step raises the level of a check that had a fault (a fault hidden by missing input counts), the latest evaluations, over
  at least the recovery hold, all supported a better state than the faulty one, and the state now served is the worst of those they supported.\<close>

theorem recovery_is_earned:
  assumes "tracked_run f info ops = (t, hist)" "tracked_step f (t, hist) op = (t', hist')" "fault_level t < rank Unavailable" "fault_level t < fault_level t'"
  shows "\<exists>ys zs. hist' = ys @ zs \<and> zs \<noteq> [] \<and> fp_RecoveryHold f \<le> time_Sub (fst (last zs)) (fst (hd zs)) \<and>
     list_all (\<lambda>(_, c). fault_level t < rank c \<and> fault_level t' \<le> rank c) zs \<and> tk_served t' \<in> snd ` set zs"
proof -
  have "earned t t' (fst (last hist')) (fp_RecoveryHold f) hist'"
    using tracked_step_ok [OF tracked_run_ok [OF assms(1)] assms(2)] assms(3,4) by simp
  then obtain ys zs where z: "hist' = ys @ zs" "zs \<noteq> []" "fp_RecoveryHold f \<le> time_Sub (fst (last hist')) (fst (hd zs))"
     "\<forall>(_, c) \<in> set zs. fault_level t < rank c" "\<forall>(_, c) \<in> set zs. fault_level t' \<le> rank c" "tk_served t' \<in> snd ` set zs"
    unfolding earned_def by blast
  then show ?thesis by (intro exI [of _ ys] exI [of _ zs]) (auto simp: list_all_iff)
qed

section \<open>Fusion rules\<close>

definition unassured_domains :: "check_result list \<Rightarrow> domain set" where
  "unassured_domains rs = cr_Domain ` {r \<in> set rs. \<not> cr_advisory r \<and> cr_State r = Unassured}"

text \<open>The weight with which a check takes part in the mean at a given state.\<close>

definition taking_part :: "(string \<rightharpoonup> real) \<Rightarrow> assurance \<Rightarrow> check_result \<Rightarrow> real" where
  "taking_part weights s r =
     (if cr_advisory r \<or> cr_State r \<noteq> s \<or> (s = Assured \<and> cr_lowerOnly r) then 0
      else max 0 (case weights (cr_Check r) of Some v \<Rightarrow> v | None \<Rightarrow> 1))"

lemma taking_part_nonneg [simp]: "0 \<le> taking_part weights s r"
  by (simp add: taking_part_def)

lemma fuse_fold:
  "foldl (fuse_step weights) (sm, sw, D) rs =
     (sm + (\<Sum>r\<leftarrow>rs. taking_part weights Assured r - taking_part weights Unassured r),
      sw + (\<Sum>r\<leftarrow>rs. taking_part weights Assured r + taking_part weights Inconsistent r + taking_part weights Unassured r), D \<union> unassured_domains rs)"
proof (induction rs arbitrary: sm sw D)
  case (Cons r rs)
  have "fuse_step weights (sm, sw, D) r = (sm + (taking_part weights Assured r - taking_part weights Unassured r),
      sw + (taking_part weights Assured r + taking_part weights Inconsistent r + taking_part weights Unassured r),
      D \<union> unassured_domains [r])"
    by (cases "cr_State r") (auto simp: fuse_step_def taking_part_def level_def unassured_domains_def max_def Let_def)
  moreover have "unassured_domains (r # rs) = unassured_domains [r] \<union> unassured_domains rs" by (auto simp: unassured_domains_def)
  ultimately show ?case by (simp add: Cons.IH algebra_simps Un_assoc)
qed (simp add: unassured_domains_def)

lemma finite_unassured_domains [simp]: "finite (unassured_domains rs)"
  by (simp add: unassured_domains_def)

definition condemned :: "domain set \<Rightarrow> bool" where
  "condemned D \<longleftrightarrow> (\<exists>d \<in> D. Physics d \<and> (\<exists>e \<in> D. e \<noteq> d \<and> (Physics e \<or> e = DomainReceiverVerdict \<or> e = DomainRFEnvironment)))"

definition spoofed :: "domain set \<Rightarrow> bool" where
  "spoofed D \<longleftrightarrow> (\<exists>d \<in> D. Physics d \<and> (\<exists>e \<in> D. e \<noteq> d \<and> (Physics e \<or> e = DomainReceiverVerdict)))"

lemma card_ge_2: "finite A \<Longrightarrow> 2 \<le> card A \<longleftrightarrow> (\<exists>d \<in> A. \<exists>e \<in> A. e \<noteq> d)"
  by (metis One_nat_def Suc_1 card_le_Suc0_iff_eq not_less_eq_eq)

lemma card_ge_1: "finite A \<Longrightarrow> 1 \<le> card A \<longleftrightarrow> (\<exists>d. d \<in> A)"
  by (metis One_nat_def Suc_leI card_gt_0_iff ex_in_conv less_eq_Suc_le)

lemma not_physics [simp]: "\<not> Physics DomainReceiverVerdict" "\<not> Physics DomainRFEnvironment" "DomainReceiverVerdict \<noteq> DomainRFEnvironment"
  by (simp_all add: Physics_def DomainReceiverVerdict_def DomainRFEnvironment_def DomainSignalPower_def DomainPosition_def DomainReceiverClock_def
    DomainTimeReference_def DomainBarometricPosition_def)

lemma condemned_count:
  assumes "finite D"
  shows "(card (Set.filter Physics D) \<ge> 1 \<and>
      card (Set.filter Physics D) + (if DomainReceiverVerdict \<in> D then 1 else 0) + (if DomainRFEnvironment \<in> D then 1 else 0) \<ge> (2 :: nat)) = condemned D"
    "(card (Set.filter Physics D) \<ge> SpoofingQuorum \<or> card (Set.filter Physics D) \<ge> 1 \<and> DomainReceiverVerdict \<in> D) = spoofed D"
proof -
  have f: "finite (Set.filter Physics D)" using assms by simp
  have *: "card (Set.filter Physics D) \<ge> 1 \<longleftrightarrow> (\<exists>d \<in> D. Physics d)" "card (Set.filter Physics D) \<ge> 2 \<longleftrightarrow> (\<exists>d \<in> D. \<exists>e \<in> D. Physics d \<and> Physics e \<and> e \<noteq> d)"
    unfolding card_ge_1 [OF f] card_ge_2 [OF f] by auto
  have arith: "(n \<ge> 1 \<and> n + (if P then 1 else 0) + (if Q then 1 else 0) \<ge> (2 :: nat)) \<longleftrightarrow> n \<ge> 2 \<or> n \<ge> 1 \<and> (P \<or> Q)" for n P Q by auto
  have agree: "(\<exists>d \<in> D. \<exists>e \<in> D. Physics d \<and> Physics e \<and> e \<noteq> d) \<or> (\<exists>d \<in> D. Physics d) \<and> (\<exists>e \<in> D. R e) \<longleftrightarrow>
      (\<exists>d \<in> D. Physics d \<and> (\<exists>e \<in> D. e \<noteq> d \<and> (Physics e \<or> R e)))"
    if no: "\<And>e. R e \<Longrightarrow> \<not> Physics e" for R
  proof -
    have "e \<noteq> d" if "Physics d" "R e" for d e using that no by auto
    then show ?thesis by blast
  qed
  let ?n = "card (Set.filter Physics D)"
  have mem: "(\<exists>e \<in> D. e = DomainReceiverVerdict \<or> e = DomainRFEnvironment) \<longleftrightarrow> DomainReceiverVerdict \<in> D \<or> DomainRFEnvironment \<in> D"
    "(\<exists>e \<in> D. e = DomainReceiverVerdict) \<longleftrightarrow> DomainReceiverVerdict \<in> D" by auto
  have "?n \<ge> 2 \<or> ?n \<ge> 1 \<and> (DomainReceiverVerdict \<in> D \<or> DomainRFEnvironment \<in> D) \<longleftrightarrow> condemned D"
    unfolding condemned_def * mem(1) [symmetric] by (rule agree) auto
  then show "(?n \<ge> 1 \<and> ?n + (if DomainReceiverVerdict \<in> D then 1 else 0) + (if DomainRFEnvironment \<in> D then 1 else 0) \<ge> (2 :: nat)) = condemned D"
    using arith [of ?n "DomainReceiverVerdict \<in> D" "DomainRFEnvironment \<in> D"] by (rule trans [rotated])
  show "(?n \<ge> SpoofingQuorum \<or> ?n \<ge> 1 \<and> DomainReceiverVerdict \<in> D) = spoofed D"
    unfolding SpoofingQuorum_def spoofed_def * mem(2) [symmetric] by (rule agree) auto
qed

text \<open>The station state from the unassured domains and the total weights.\<close>

lemma taking_part_unassured: "unassured_domains rs = {} \<Longrightarrow> (\<Sum>r\<leftarrow>rs. taking_part weights Unassured r) = 0"
  by (induction rs) (auto simp: unassured_domains_def taking_part_def)

lemma sum_list_diff: "(\<Sum>r\<leftarrow>rs. f r - g r) = (\<Sum>r\<leftarrow>rs. f r) - (\<Sum>r\<leftarrow>rs. (g r :: real))"
  by (induction rs) simp_all

lemma Fuse_state:
  fixes rs :: "check_result list" and weights :: "string \<rightharpoonup> real"
  defines "a \<equiv> (\<Sum>r\<leftarrow>rs. taking_part weights Assured r)" and "i \<equiv> (\<Sum>r\<leftarrow>rs. taking_part weights Inconsistent r)" and "D \<equiv> unassured_domains rs"
  shows "fu_State (Fuse rs weights) =
     (if condemned D then Unassured else if D \<noteq> {} then Inconsistent else if a + i \<le> 0 then Unavailable else if a \<le> i then Inconsistent else Assured)"
    "fu_SpoofingIndicated (Fuse rs weights) = spoofed D" "fu_UnassuredDomains (Fuse rs weights) = sorted_list_of_set D"
proof -
  let ?u = "\<Sum>r\<leftarrow>rs. taking_part weights Unassured r"
  have fold: "foldl (fuse_step weights) (0, 0, {}) rs = (a - ?u, a + i + ?u, D)"
    by (simp add: fuse_fold a_def i_def D_def sum_list_diff sum_list_addf)
  have D: "finite D" by (simp add: D_def)
  show "fu_SpoofingIndicated (Fuse rs weights) = spoofed D" "fu_UnassuredDomains (Fuse rs weights) = sorted_list_of_set D"
    unfolding Fuse_def fold Let_def by (simp_all only: prod.case fusion.select_convs condemned_count [OF D])
  have "\<not> condemned D" "?u = 0" if "D = {}" using that taking_part_unassured [of rs weights] by (simp_all add: condemned_def D_def)
  moreover have "0 \<le> a" "0 \<le> i" by (auto simp: a_def i_def intro!: sum_list_nonneg)
  ultimately show "fu_State (Fuse rs weights) =
     (if condemned D then Unassured else if D \<noteq> {} then Inconsistent else if a + i \<le> 0 then Unavailable else if a \<le> i then Inconsistent else Assured)"
    unfolding Fuse_def fold Let_def prod.case fusion.select_convs condemned_count [OF D]
    by (auto simp: field_simps)
qed

text \<open>the domain rules of fusion. Over the unassured domains D of the checks that are not advisory: the station is unassured exactly when a physics domain is and
  a second domain agrees (physics, the receiver's verdict or the RF environment); any other unassured check holds it at inconsistent; spoofing is indicated
  exactly when a second physics domain or the receiver's verdict agrees; the domains are served sorted.\<close>

lemma fuse_rules:
  "(fu_State (Fuse rs weights) = Unassured \<longleftrightarrow> condemned (unassured_domains rs)) \<and>
   (fu_SpoofingIndicated (Fuse rs weights) \<longleftrightarrow> spoofed (unassured_domains rs)) \<and>
   (if unassured_domains rs = {} then fu_State (Fuse rs weights) \<noteq> Unassured else fu_State (Fuse rs weights) \<in> {Unassured, Inconsistent}) \<and>
   fu_UnassuredDomains (Fuse rs weights) = sorted_list_of_set (unassured_domains rs)"
  by (auto simp: Fuse_state condemned_def)

lemma condemned_mono: "D \<subseteq> E \<Longrightarrow> condemned D \<Longrightarrow> condemned E"
  unfolding condemned_def by blast

lemma mean_mono:
  fixes a i :: real
  assumes "0 \<le> a'" "a' \<le> a" "0 \<le> i" "i \<le> i'"
  shows "rank (if a' + i' \<le> 0 then Unavailable else if a' \<le> i' then Inconsistent else Assured) \<le>
    rank (if a + i \<le> 0 then Unavailable else if a \<le> i then Inconsistent else Assured)"
  using assms by auto

text \<open>C25: fusion is monotone. Lowering the state of one check never raises the state of the station.\<close>

theorem fuse_monotone:
  assumes "rank s \<le> rank (cr_State r)"
  shows "rank (fu_State (Fuse (xs @ r\<lparr>cr_State := s\<rparr> # ys) weights)) \<le> rank (fu_State (Fuse (xs @ r # ys) weights))"
proof -
  let ?r = "r\<lparr>cr_State := s\<rparr>"
  have D: "unassured_domains (xs @ x # ys) = unassured_domains [x] \<union> (unassured_domains xs \<union> unassured_domains ys)" for x
    by (auto simp: unassured_domains_def)
  have sub: "unassured_domains [r] \<subseteq> unassured_domains [?r]"
    using assms by (cases "cr_State r"; cases s) (auto simp: unassured_domains_def)
  have w: "taking_part weights Assured ?r \<le> taking_part weights Assured r" "taking_part weights Inconsistent r \<le> taking_part weights Inconsistent ?r"
    if "unassured_domains [?r] = {}"
    using assms that by (cases "cr_State r"; cases s; auto simp: taking_part_def unassured_domains_def)+
  let ?sum = "\<lambda>t x. \<Sum>r\<leftarrow>xs @ x # ys. taking_part weights t r"
  have nn: "0 \<le> ?sum t x" for t x by (rule sum_list_nonneg) auto
  show ?thesis
  proof (cases "unassured_domains (xs @ r # ys) = {}")
    case True
    then have no: "unassured_domains [r] = {}" "unassured_domains xs \<union> unassured_domains ys = {}" "\<not> condemned {}"
      unfolding D by (auto simp: condemned_def)
    show ?thesis
    proof (cases "unassured_domains [?r] = {}")
      case True
      have le: "?sum Assured ?r \<le> ?sum Assured r" "?sum Inconsistent r \<le> ?sum Inconsistent ?r" using w [OF True] by simp_all
      have e: "unassured_domains (xs @ r # ys) = {}" "unassured_domains (xs @ ?r # ys) = {}" unfolding D using no True by simp_all
      show ?thesis unfolding Fuse_state e using mean_mono [OF nn le(1) nn le(2)] no(3) by (simp only: simp_thms if_False)
    next
      case False
      then show ?thesis using no unfolding Fuse_state D by auto
    qed
  next
    case False
    then show ?thesis using condemned_mono [of "unassured_domains (xs @ r # ys)" "unassured_domains (xs @ ?r # ys)"] sub
      unfolding Fuse_state D by auto
  qed
qed

text \<open>Concrete runs: a check judged on every evaluation, ten seconds of recovery hold.\<close>

definition sample_policy :: filter_policy where
  "sample_policy = \<lparr>fp_M = 1, fp_N = 1, fp_RecoveryHold = 10 * Second\<rparr>"

definition sample_info :: check_info where
  "sample_info = \<lparr>ci_Name = ''clock'', ci_Version = 1, ci_Domain = DomainReceiverClock, ci_LowerOnly = False, ci_Advisory = False, ci_UnknownImmediate = False\<rparr>"

definition sample_verdict :: "assurance \<Rightarrow> verdict" where
  "sample_verdict s = \<lparr>v_State = s, v_Metrics = Map.empty, v_Thresholds = Map.empty, v_Reasons = []\<rparr>"

definition sample_ops :: "tracker_op list" where
  "sample_ops = [Evaluate (sample_verdict Unassured) (1 * Second), Evaluate (sample_verdict Assured) (2 * Second)]"

lemmas sample_eval = sample_policy_def sample_info_def sample_verdict_def sample_ops_def tracked_run_def tracked_step_def tracker_update_def tracker_filter_def
  tracker_hold_def filterWindow_def newTracker_def Let_def Second_def time_Sub_def fault_level_def evaluated_def

definition sample_tracker :: tracker where
  "sample_tracker = fst (tracked_run sample_policy sample_info sample_ops)"

definition sample_after :: tracked where
  "sample_after = tracked_step sample_policy (tracked_run sample_policy sample_info sample_ops) (Evaluate (sample_verdict Assured) (12 * Second))"

lemma sample_levels: "fault_level sample_tracker = 0" "tk_served (fst sample_after) = Assured" "fault_level (fst sample_after) = 3"
  unfolding sample_tracker_def sample_after_def by (simp_all add: sample_eval)

theorem recovery_is_earned_witness:
  "tk_served sample_tracker = Unassured \<and> tk_served (fst sample_after) = Assured \<and>
   (\<exists>ys zs. snd sample_after = ys @ zs \<and> zs \<noteq> [] \<and> 10 * Second \<le> time_Sub (fst (last zs)) (fst (hd zs)) \<and> list_all (\<lambda>(_, c). 0 < rank c \<and> 3 \<le> rank c) zs)"
proof -
  have u: "tk_served sample_tracker = Unassured" unfolding sample_tracker_def by (simp add: sample_eval)
  have r: "tracked_run sample_policy sample_info sample_ops = (sample_tracker, snd (tracked_run sample_policy sample_info sample_ops))"
    by (simp add: sample_tracker_def)
  have p: "fp_RecoveryHold sample_policy = 10 * Second" by (simp add: sample_policy_def)
  have r': "tracked_step sample_policy (sample_tracker, snd (tracked_run sample_policy sample_info sample_ops)) (Evaluate (sample_verdict Assured) (12 * Second)) =
      (fst sample_after, snd sample_after)"
    by (simp add: sample_after_def r [symmetric])
  obtain ys zs where "snd sample_after = ys @ zs" "zs \<noteq> []" "10 * Second \<le> time_Sub (fst (last zs)) (fst (hd zs))"
      "list_all (\<lambda>(_, c). 0 < rank c \<and> 3 \<le> rank c) zs"
    using recovery_is_earned [OF r r', unfolded sample_levels p] by auto
  then show ?thesis using u sample_levels(2) by blast
qed

theorem fuse_monotone_witness:
  "rank (fu_State (Fuse ([] @ (tracker_result (newTracker sample_info)\<lparr>cr_State := Inconsistent\<rparr>) # []) Map.empty)) \<le>
   rank (fu_State (Fuse ([] @ (tracker_result (newTracker sample_info)) # []) Map.empty))"
  by (rule fuse_monotone) (simp add: tracker_result_def newTracker_def)

end
