(* ===== verification/Classifiers.thy ===== *)
theory Classifiers
  imports DetectorSpine StationAssurance
begin

text \<open>
  The classifiers of the event detector: satellites, cross-signal agreement and SBAS (\<^verbatim>\<open>go/internal/detect/detect.go\<close>), station RF and liveness (\<^verbatim>\<open>rf.go\<close>),
  capabilities (\<^verbatim>\<open>capability.go\<close>), reference orbits (\<^verbatim>\<open>reference.go\<close>) and station assessments (\<^verbatim>\<open>integrity.go\<close>), with the operating points of \<^verbatim>\<open>thresholds.go\<close>.
  A classifier is the list of its calls of \<^verbatim>\<open>emit\<close>. A map is the list of its entries in the order a \<^verbatim>\<open>range\<close> loop visits them. The metrics are reals for
  \<^verbatim>\<open>float64\<close>, strings are bytes.
\<close>

section \<open>Formatting\<close>

text \<open>What the messages use of \<^verbatim>\<open>fmt\<close>: integers, booleans and fixed-point numbers, rounded half to even.\<close>

fun fmt_nat :: "nat \<Rightarrow> string" where
  "fmt_nat n = (if n < 10 then [char_of (48 + n)] else fmt_nat (n div 10) @ [char_of (48 + n mod 10)])"

declare fmt_nat.simps [simp del]

definition fmt_int :: "int \<Rightarrow> string" where
  "fmt_int i = (if i < 0 then ''-'' @ fmt_nat (nat (- i)) else fmt_nat (nat i))"

definition fmt_bool :: "bool \<Rightarrow> string" where
  "fmt_bool b = (if b then ''true'' else ''false'')"

definition round_half_even :: "real \<Rightarrow> int" where
  "round_half_even r = (let f = \<lfloor>r\<rfloor>; d = r - of_int f in if d < 1 / 2 \<or> d = 1 / 2 \<and> even f then f else f + 1)"

definition fmt_fixed :: "nat \<Rightarrow> real \<Rightarrow> string" where
  "fmt_fixed n x =
     (let v = nat (round_half_even (\<bar>x\<bar> * 10 ^ n)); digits = fmt_nat (v mod 10 ^ n)
      in (if x < 0 then ''-'' else []) @ fmt_nat (v div 10 ^ n) @ (if n = 0 then [] else CHR 0x2E # replicate (n - length digits) CHR 0x30 @ digits))"

definition join :: "string \<Rightarrow> string list \<Rightarrow> string" where
  "join sep xs = concat (case xs of [] \<Rightarrow> [] | y # ys \<Rightarrow> y # concat (map (\<lambda>z. [sep, z]) ys))"

text \<open>The arrow, the dash and the delta of the messages in UTF-8.\<close>

definition arrow :: string where "arrow = [CHR 0xE2, CHR 0x86, CHR 0x92]"
definition dash :: string where "dash = [CHR 0xE2, CHR 0x80, CHR 0x94]"
definition delta :: string where "delta = [CHR 0xCE, CHR 0x94]"

section \<open>Operating points\<close>

definition EphAgeThresholdGalileo :: real where "EphAgeThresholdGalileo = 105"
definition EphAgeThresholdGPS :: real where "EphAgeThresholdGPS = 140"
definition OrbitDiscoThreshold :: real where "OrbitDiscoThreshold = 145 / 100"
definition OrbitDiscoSevereThreshold :: real where "OrbitDiscoSevereThreshold = 10"
definition ReferenceOrbitThreshold :: real where "ReferenceOrbitThreshold = 1000"
definition ReferenceOrbitSevereThreshold :: real where "ReferenceOrbitSevereThreshold = 10000"
definition ReferenceAlmanacThreshold :: real where "ReferenceAlmanacThreshold = 100000"
definition ReferenceAlmanacSevereThreshold :: real where "ReferenceAlmanacSevereThreshold = 1000000"
definition TimeDiscoThreshold :: real where "TimeDiscoThreshold = 5 / 2"
definition TimeDiscoSevereThreshold :: real where "TimeDiscoSevereThreshold = 10"
definition SISAAlertThreshold :: real where "SISAAlertThreshold = 3"
definition SISAExitThreshold :: real where "SISAExitThreshold = 5 / 2"
definition SilentThreshold :: real where "SilentThreshold = 3600"
definition ObserverOfflineThreshold :: real where "ObserverOfflineThreshold = 300"
definition SilenceMinReceivers :: int where "SilenceMinReceivers = 4"
definition SBASSilentThreshold :: real where "SBASSilentThreshold = 300"
definition SBASHealthCurrentWindow :: real where "SBASHealthCurrentWindow = 60"
definition AGCDepartureThreshold :: real where "AGCDepartureThreshold = 800"
definition AGCDepartureSevereThreshold :: real where "AGCDepartureSevereThreshold = 2000"
definition CWSuppressThreshold :: int where "CWSuppressThreshold = 180"
definition XSigDivergenceMeters :: real where "XSigDivergenceMeters = 1 / 100"
definition CapMinObservations :: nat where "CapMinObservations = 10"
definition CapSignalLostAfter :: duration where "CapSignalLostAfter = 15 * Minute"
definition CapStationAliveWindow :: duration where "CapStationAliveWindow = 5 * Minute"

definition SevInfo :: int where "SevInfo = 0"
definition SevWarning :: int where "SevWarning = 1"
definition SevCritical :: int where "SevCritical = 2"

definition ephAgeThreshold :: "int \<Rightarrow> real" where
  "ephAgeThreshold gnssID = (if gnssID = 2 then EphAgeThresholdGalileo else EphAgeThresholdGPS)"

section \<open>Shared helpers\<close>

definition boolState :: "bool \<Rightarrow> string \<Rightarrow> string \<Rightarrow> string" where
  "boolState b t f = (if b then t else f)"

definition derefInt :: "int option \<Rightarrow> param" where
  "derefInt p = (case p of None \<Rightarrow> PNil | Some v \<Rightarrow> PInt v)"

definition healthEvent :: "int \<Rightarrow> int \<Rightarrow> string \<times> int" where
  "healthEvent gnssID issueLevel =
     (let sev = (if issueLevel \<ge> 2 then SevCritical else SevWarning)
      in if gnssID = 5 then (''qzss_health'', sev) else if gnssID = 7 then (''navic_health'', sev) else (''health_change'', sev))"

definition discoBand :: "real \<Rightarrow> real \<Rightarrow> real \<Rightarrow> string \<times> int" where
  "discoBand v warn severe =
     (if v \<ge> severe then (''crit'', SevCritical) else if v \<ge> warn then (''warn'', SevWarning) else (''ok'', SevInfo))"

definition sisaBand :: "detector \<Rightarrow> string \<Rightarrow> real \<Rightarrow> string" where
  "sisaBand d subject m =
     (case currentBand d subject ''sisa'' of (prev, ok) \<Rightarrow>
        if ok \<and> prev = ''degraded'' then (if m < SISAExitThreshold then ''ok'' else ''degraded'')
        else if m \<ge> SISAAlertThreshold then ''degraded'' else ''ok'')"

definition flag_add :: "string \<Rightarrow> bool \<times> string \<Rightarrow> string" where
  "flag_add s x = (case x of (on, name) \<Rightarrow> if \<not> on then s else (if s \<noteq> [] then s @ ''+'' else s) @ name)"

definition integrityFlagState :: "bool \<Rightarrow> bool \<Rightarrow> bool \<Rightarrow> string" where
  "integrityFlagState dif sif aif = foldl flag_add [] [(dif, ''dif''), (sif, ''sif''), (aif, ''aif'')]"

text \<open>An event as the classifiers build it; the round fills in the time and the subject.\<close>

definition new_event :: "string \<Rightarrow> string \<Rightarrow> string \<Rightarrow> int \<Rightarrow> string \<Rightarrow> (string \<rightharpoonup> param) \<Rightarrow> event" where
  "new_event typ old new sev msg params =
     \<lparr>ev_Time = 0, ev_SV = [], ev_Type = typ, ev_OldValue = old, ev_NewValue = new, ev_Severity = sev, ev_Message = msg, ev_Params = params\<rparr>"

section \<open>Satellites\<close>

text \<open>The fields of the svs feed that the detector reads.\<close>

record feed_sv =
  sv_Name :: string
  sv_GnssID :: int
  sv_SigID :: int
  sv_HealthCode :: int
  sv_HealthIssueLevel :: int
  sv_EphAgeM :: "real option"
  sv_SISAM :: "real option"
  sv_AccIndex :: "int option"
  sv_AccIndexRawOnly :: bool
  sv_Alert :: "bool option"
  sv_WnMismatch :: "bool option"
  sv_Dif :: "bool option"
  sv_Sif :: "bool option"
  sv_Aif :: "bool option"
  sv_Sismai :: "int option"
  sv_DtLS :: "int option"
  sv_LeapMismatch :: "bool option"
  sv_Osnma :: "bool option"
  sv_OrbitDiscoM :: "real option"
  sv_TimeDiscoNs :: "real option"
  sv_XM :: "real option"
  sv_YM :: "real option"
  sv_ZM :: "real option"
  sv_PosAtUnixNs :: int
  sv_PosIOD :: "int option"
  sv_LastSeenS :: int
  sv_Conf :: int
  sv_ConfWeighted :: real

text \<open>The wrapper of \<^verbatim>\<open>detectSV\<close>: every event carries the corroboration and the signal.\<close>

definition sv_emit :: "string \<Rightarrow> feed_sv \<Rightarrow> string \<Rightarrow> string \<Rightarrow> (string \<Rightarrow> event) \<Rightarrow> emission" where
  "sv_emit name sv metric newState ev =
     \<lparr>em_subject = name, em_metric = metric, em_state = newState,
      em_event = (\<lambda>old. let e = ev old in e\<lparr>ev_Params := (ev_Params e)(''conf'' \<mapsto> PInt (sv_Conf sv), ''conf_weighted'' \<mapsto> PFloat (sv_ConfWeighted sv), ''sigid'' \<mapsto> PInt (sv_SigID sv))\<rparr>)\<rparr>"

definition sv_health :: "string \<Rightarrow> feed_sv \<Rightarrow> emission list" where
  "sv_health name sv =
     (if sv_HealthCode sv \<noteq> 0 then
       (case healthEvent (sv_GnssID sv) (sv_HealthIssueLevel sv) of (healthType, healthSev) \<Rightarrow>
         (let code = fmt_int (sv_HealthCode sv)
          in [sv_emit name sv ''health'' code (\<lambda>old. new_event healthType old code healthSev (sv_Name sv @ '' health '' @ old @ arrow @ code)
                [''sv'' \<mapsto> PString (sv_Name sv), ''gnssid'' \<mapsto> PInt (sv_GnssID sv), ''health_code'' \<mapsto> PInt (sv_HealthCode sv),
                 ''health_issue_level'' \<mapsto> PInt (sv_HealthIssueLevel sv)])]))
      else [])"

definition sv_eph_age :: "string \<Rightarrow> feed_sv \<Rightarrow> emission list" where
  "sv_eph_age name sv =
     (case sv_EphAgeM sv of None \<Rightarrow> []
      | Some age \<Rightarrow>
         (let band = boolState (age > ephAgeThreshold (sv_GnssID sv)) ''aged'' ''fresh''
          in [sv_emit name sv ''eph_age'' band (\<lambda>old. new_event ''eph_aged'' old band SevWarning (sv_Name sv @ '' ephemeris age '' @ fmt_fixed 0 age @ '' min'')
                [''sv'' \<mapsto> PString (sv_Name sv), ''eph_age_m'' \<mapsto> PFloat age])]))"

definition sv_orbit_disco :: "string \<Rightarrow> feed_sv \<Rightarrow> emission list" where
  "sv_orbit_disco name sv =
     (case sv_OrbitDiscoM sv of None \<Rightarrow> []
      | Some m \<Rightarrow>
         (case discoBand m OrbitDiscoThreshold OrbitDiscoSevereThreshold of (band, sev) \<Rightarrow>
           [sv_emit name sv ''orbit_disco'' band (\<lambda>old. new_event ''orbit_disco'' old band sev (sv_Name sv @ '' orbit disco '' @ fmt_fixed 2 m @ '' m'')
              [''sv'' \<mapsto> PString (sv_Name sv), ''orbit_disco_m'' \<mapsto> PFloat m])]))"

definition sv_clock_jump :: "string \<Rightarrow> feed_sv \<Rightarrow> emission list" where
  "sv_clock_jump name sv =
     (case sv_TimeDiscoNs sv of None \<Rightarrow> []
      | Some n \<Rightarrow>
         (case discoBand n TimeDiscoThreshold TimeDiscoSevereThreshold of (band, sev) \<Rightarrow>
           [sv_emit name sv ''clock_jump'' band (\<lambda>old. new_event ''clock_jump'' old band sev (sv_Name sv @ '' clock jump '' @ fmt_fixed 2 n @ '' ns'')
              [''sv'' \<mapsto> PString (sv_Name sv), ''time_disco_ns'' \<mapsto> PFloat n])]))"

definition sv_sisa :: "detector \<Rightarrow> string \<Rightarrow> feed_sv \<Rightarrow> emission list" where
  "sv_sisa d name sv =
     (case sv_SISAM sv of
        Some m \<Rightarrow>
         (let band = sisaBand d name m
          in [sv_emit name sv ''sisa'' band (\<lambda>old. new_event ''sisa_change'' old band SevWarning (sv_Name sv @ '' SISA '' @ fmt_fixed 2 m @ '' m'')
                [''sv'' \<mapsto> PString (sv_Name sv), ''sisa_m'' \<mapsto> PFloat m])])
      | None \<Rightarrow>
         (case sv_AccIndex sv of None \<Rightarrow> []
          | Some idx \<Rightarrow>
             if sv_AccIndexRawOnly sv then
               (let band = ''raw_'' @ fmt_int idx
                in [sv_emit name sv ''sisa'' band (\<lambda>old. new_event ''sisa_change'' old band SevInfo
                      (sv_Name sv @ '' broadcast raw accuracy index changed to '' @ fmt_int idx @ '' (no published decode table)'')
                      [''sv'' \<mapsto> PString (sv_Name sv), ''acc_index'' \<mapsto> PInt idx])])
             else
               [sv_emit name sv ''sisa'' ''no_accuracy'' (\<lambda>old. new_event ''sisa_change'' old ''no_accuracy'' SevWarning
                  (sv_Name sv @ '' broadcast accuracy index '' @ fmt_int idx @ '': no accuracy prediction '' @ dash @ '' use at own risk'')
                  [''sv'' \<mapsto> PString (sv_Name sv), ''acc_index'' \<mapsto> PInt idx])]))"

definition sv_ura_alert :: "string \<Rightarrow> feed_sv \<Rightarrow> emission list" where
  "sv_ura_alert name sv =
     (case sv_Alert sv of None \<Rightarrow> []
      | Some raised \<Rightarrow>
         (let sev = (if raised then SevWarning else SevInfo); band = boolState raised ''raised'' ''clear''
          in [sv_emit name sv ''ura_alert'' band (\<lambda>old. new_event ''ura_alert'' old band sev (sv_Name sv @ '' URA alert flag '' @ band)
                [''sv'' \<mapsto> PString (sv_Name sv), ''alert'' \<mapsto> PBool raised])]))"

definition sv_wn :: "string \<Rightarrow> feed_sv \<Rightarrow> emission list" where
  "sv_wn name sv =
     (case sv_WnMismatch sv of None \<Rightarrow> []
      | Some bad \<Rightarrow>
         (let sev = (if bad then SevCritical else SevInfo); band = boolState bad ''mismatch'' ''ok''
          in [sv_emit name sv ''wn'' band (\<lambda>old. new_event ''wn_mismatch'' old band sev
                (sv_Name sv @ '' broadcast week number '' @ (if bad then ''disagrees with'' else ''matches'') @ '' wall-clock week'')
                [''sv'' \<mapsto> PString (sv_Name sv), ''wn_mismatch'' \<mapsto> PBool bad])]))"

definition sv_bds_integrity :: "string \<Rightarrow> feed_sv \<Rightarrow> emission list" where
  "sv_bds_integrity name sv =
     (case (sv_Dif sv, sv_Sif sv, sv_Aif sv) of
        (Some dif, Some sif, Some aif) \<Rightarrow>
         (let s = integrityFlagState dif sif aif;
              flagState = (if s \<noteq> [] then s else ''ok'');
              sev = (if flagState \<noteq> ''ok'' then SevWarning else SevInfo)
          in [sv_emit name sv ''bds_integrity'' flagState (\<lambda>old. new_event ''bds_integrity_flag'' old flagState sev (sv_Name sv @ '' B2a integrity flags '' @ flagState)
                [''sv'' \<mapsto> PString (sv_Name sv), ''dif'' \<mapsto> PBool dif, ''sif'' \<mapsto> PBool sif, ''aif'' \<mapsto> PBool aif, ''sismai'' \<mapsto> derefInt (sv_Sismai sv)])])
      | _ \<Rightarrow> [])"

definition sv_leap :: "string \<Rightarrow> feed_sv \<Rightarrow> emission list" where
  "sv_leap name sv =
     (case sv_LeapMismatch sv of None \<Rightarrow> []
      | Some bad \<Rightarrow>
         (let sev = (if bad then SevWarning else SevInfo); band = boolState bad ''mismatch'' ''ok''
          in [sv_emit name sv ''leap'' band (\<lambda>old. new_event ''leap_mismatch'' old band sev
                (sv_Name sv @ '' broadcast leap-second count '' @ (if bad then ''disagrees with'' else ''matches'') @ '' configured value'')
                [''sv'' \<mapsto> PString (sv_Name sv), ''leap_mismatch'' \<mapsto> PBool bad, ''dt_ls'' \<mapsto> derefInt (sv_DtLS sv)])]))"

definition sv_osnma :: "string \<Rightarrow> feed_sv \<Rightarrow> emission list" where
  "sv_osnma name sv =
     (case sv_Osnma sv of None \<Rightarrow> []
      | Some on \<Rightarrow>
         (let band = boolState on ''on'' ''off''
          in [sv_emit name sv ''osnma'' band (\<lambda>old. new_event ''osnma_change'' old band SevInfo (sv_Name sv @ '' OSNMA authentication '' @ band)
                [''sv'' \<mapsto> PString (sv_Name sv), ''osnma'' \<mapsto> PBool on])]))"

definition sv_silence :: "int \<Rightarrow> string \<Rightarrow> feed_sv \<Rightarrow> emission list" where
  "sv_silence liveReceivers name sv =
     (if liveReceivers \<ge> SilenceMinReceivers then
       (let band = boolState (of_int (sv_LastSeenS sv) > SilentThreshold) ''silent'' ''seen''
        in [sv_emit name sv ''silence'' band (\<lambda>old. new_event ''observation_lost'' old band SevWarning (sv_Name sv @ '' unseen '' @ fmt_int (sv_LastSeenS sv) @ ''s'')
              [''sv'' \<mapsto> PString (sv_Name sv), ''last_seen_s'' \<mapsto> PInt (sv_LastSeenS sv)])])
      else [])"

definition sv_position :: "string \<Rightarrow> feed_sv \<Rightarrow> emission list" where
  "sv_position name sv =
     (let band = boolState (sv_XM sv = None) ''unknown'' ''known''
      in [sv_emit name sv ''position'' band (\<lambda>old. new_event ''position_unknown'' old band SevWarning (sv_Name sv @ '' position '' @ band)
            [''sv'' \<mapsto> PString (sv_Name sv)])])"

text \<open>The detector is read only for the confirmed accuracy band of the satellite, which none of the satellite's other metrics shares.\<close>

definition detectSV :: "int \<Rightarrow> detector \<Rightarrow> string \<Rightarrow> feed_sv \<Rightarrow> emission list" where
  "detectSV liveReceivers d name sv =
     sv_health name sv @ sv_eph_age name sv @ sv_orbit_disco name sv @ sv_clock_jump name sv @ sv_sisa d name sv @ sv_ura_alert name sv @ sv_wn name sv @
     sv_bds_integrity name sv @ sv_leap name sv @ sv_osnma name sv @ sv_silence liveReceivers name sv @ sv_position name sv"

section \<open>Cross-signal agreement\<close>

definition xsig_eligible :: "feed_sv \<Rightarrow> bool" where
  "xsig_eligible sv \<longleftrightarrow> sv_GnssID sv = 2 \<and> sv_XM sv \<noteq> None \<and> sv_YM sv \<noteq> None \<and> sv_ZM sv \<noteq> None \<and> sv_PosIOD sv \<noteq> None \<and> sv_PosAtUnixNs sv \<noteq> 0"

text \<open>The group of one physical satellite, ordered by signal (\<^verbatim>\<open>sort.Slice\<close> leaves the order of equal signals open; the satellites of a feed have distinct ones).\<close>

definition xsig_group :: "(string \<times> feed_sv) list \<Rightarrow> string \<Rightarrow> feed_sv list" where
  "xsig_group svs name = sort_key sv_SigID (filter (\<lambda>sv. xsig_eligible sv \<and> sv_Name sv = name) (map snd svs))"

fun pairs :: "'a list \<Rightarrow> ('a \<times> 'a) list" where
  "pairs [] = []"
| "pairs (x # xs) = map (Pair x) xs @ pairs xs"

record xsig_worst =
  xw_compared :: bool
  xw_dist :: real
  xw_sigA :: int
  xw_sigB :: int
  xw_iod :: int

definition xsig_distance :: "feed_sv \<Rightarrow> feed_sv \<Rightarrow> real" where
  "xsig_distance a b =
     (let dx = the (sv_XM a) - the (sv_XM b); dy = the (sv_YM a) - the (sv_YM b); dz = the (sv_ZM a) - the (sv_ZM b) in sqrt (dx * dx + dy * dy + dz * dz))"

definition xsig_compare :: "xsig_worst \<Rightarrow> feed_sv \<times> feed_sv \<Rightarrow> xsig_worst" where
  "xsig_compare w x =
     (case x of (a, b) \<Rightarrow>
        if the (sv_PosIOD a) \<noteq> the (sv_PosIOD b) \<or> sv_PosAtUnixNs a \<noteq> sv_PosAtUnixNs b then w
        else
         (let dist = xsig_distance a b
          in if \<not> xw_compared w \<or> dist > xw_dist w
             then \<lparr>xw_compared = True, xw_dist = dist, xw_sigA = sv_SigID a, xw_sigB = sv_SigID b, xw_iod = the (sv_PosIOD a)\<rparr>
             else w\<lparr>xw_compared := True\<rparr>))"

definition xsig_worst0 :: xsig_worst where
  "xsig_worst0 = \<lparr>xw_compared = False, xw_dist = 0, xw_sigA = 0, xw_sigB = 0, xw_iod = 0\<rparr>"

definition xsig_name :: "(string \<times> feed_sv) list \<Rightarrow> string \<Rightarrow> emission list" where
  "xsig_name svs name =
     (let g = xsig_group svs name
      in if length g < 2 then []
         else
          (let w = foldl xsig_compare xsig_worst0 (pairs g)
           in if \<not> xw_compared w then []
              else
               (let divergent = xw_dist w > XSigDivergenceMeters;
                    sev = (if divergent then SevWarning else SevInfo);
                    band = boolState divergent ''divergent'' ''ok''
                in [\<lparr>em_subject = name, em_metric = ''xsig'', em_state = band,
                     em_event = (\<lambda>old. new_event ''xsig_divergence'' old band sev
                       (name @ '' signals '' @ fmt_int (xw_sigA w) @ ''/'' @ fmt_int (xw_sigB w) @ '' '' @ (if divergent then ''broadcast diverging ephemerides'' else ''agree'') @
                        '' ('' @ delta @ '' '' @ fmt_fixed 3 (xw_dist w) @ '' m, IODnav '' @ fmt_int (xw_iod w) @ '')'')
                       [''sv'' \<mapsto> PString name, ''sig_a'' \<mapsto> PInt (xw_sigA w), ''sig_b'' \<mapsto> PInt (xw_sigB w), ''distance_m'' \<mapsto> PFloat (xw_dist w),
                        ''iod'' \<mapsto> PInt (xw_iod w)])\<rparr>])))"

text \<open>\<open>names\<close> is the order in which the loop over the groups visits them.\<close>

definition detectXSig :: "(string \<times> feed_sv) list \<Rightarrow> string list \<Rightarrow> emission list" where
  "detectXSig svs names = concat (map (xsig_name svs) names)"

section \<open>SBAS\<close>

record sbas_entry =
  sb_Provider :: string
  sb_HealthCode :: int
  sb_LastSeenS :: int

definition detectSBAS :: "string \<Rightarrow> sbas_entry \<Rightarrow> emission list" where
  "detectSBAS prn s =
     (let subject = ''S'' @ prn;
          silent = boolState (of_int (sb_LastSeenS s) > SBASSilentThreshold) ''silent'' ''seen'';
          silence = \<lparr>em_subject = subject, em_metric = ''sbas_silence'', em_state = silent,
            em_event = (\<lambda>old. new_event ''sbas_lost'' old silent SevWarning (''SBAS '' @ prn @ '' ('' @ sb_Provider s @ '') unseen '' @ fmt_int (sb_LastSeenS s) @ ''s'')
              [''prn'' \<mapsto> PString prn, ''provider'' \<mapsto> PString (sb_Provider s), ''last_seen_s'' \<mapsto> PInt (sb_LastSeenS s)])\<rparr>
      in if of_int (sb_LastSeenS s) > SBASHealthCurrentWindow then [silence]
         else
          (let (band, sev) = (if sb_HealthCode s = 3 then (''do_not_use'', SevCritical) else (''ok'', SevInfo))
           in [silence,
               \<lparr>em_subject = subject, em_metric = ''sbas_health'', em_state = band,
                em_event = (\<lambda>old. new_event ''sbas_health'' old band sev (''SBAS '' @ prn @ '' ('' @ sb_Provider s @ '') '' @ band)
                  [''prn'' \<mapsto> PString prn, ''provider'' \<mapsto> PString (sb_Provider s), ''health_code'' \<mapsto> PInt (sb_HealthCode s)])\<rparr>]))"

definition Tick :: "detector \<Rightarrow> time \<Rightarrow> (string \<times> feed_sv) list \<Rightarrow> string list \<Rightarrow> (string \<times> sbas_entry) list \<Rightarrow> int \<Rightarrow> event list \<times> detector" where
  "Tick d now svs names sbas liveReceivers =
     detector_run d now familySV
       (\<lambda>em st. for_each (\<lambda>_. detectSBAS) sbas em (emits em (detectXSig svs names) (for_each (detectSV liveReceivers) svs em st)))"

section \<open>Station RF and liveness\<close>

record station_rf_band =
  rb_AGCDeparture :: "real option"
  rb_CWSuppress :: int
  rb_JamState :: int
  rb_AntStatus :: int

record station_rf =
  rf_Bands :: "station_rf_band list"
  rf_Neighbours :: "string list"
  rf_NeighbourCount :: int
  rf_Cn0Drop :: bool

text \<open>The loop over the bands: the worst departure and the flags.\<close>

record rf_summary =
  rs_maxDep :: real
  rs_haveDep :: bool
  rs_cwHigh :: bool
  rs_antFault :: bool
  rs_rxJam :: bool

definition rf_fold :: "rf_summary \<Rightarrow> station_rf_band \<Rightarrow> rf_summary" where
  "rf_fold r b =
     r\<lparr>rs_maxDep := (case rb_AGCDeparture b of None \<Rightarrow> rs_maxDep r | Some v \<Rightarrow> if v > rs_maxDep r then v else rs_maxDep r),
       rs_haveDep := (rs_haveDep r \<or> rb_AGCDeparture b \<noteq> None),
       rs_cwHigh := (rs_cwHigh r \<or> rb_CWSuppress b \<ge> CWSuppressThreshold),
       rs_antFault := (rs_antFault r \<or> rb_AntStatus b = 3 \<or> rb_AntStatus b = 4),
       rs_rxJam := (rs_rxJam r \<or> rb_JamState b \<ge> 2)\<rparr>"

definition rf_summarise :: "station_rf_band list \<Rightarrow> rf_summary" where
  "rf_summarise bands = foldl rf_fold \<lparr>rs_maxDep = 0, rs_haveDep = False, rs_cwHigh = False, rs_antFault = False, rs_rxJam = False\<rparr> bands"

definition detectStationRF :: "string \<Rightarrow> station_rf \<Rightarrow> emission list" where
  "detectStationRF i rf =
     (let r = rf_summarise (rf_Bands rf);
          cn0Drop = rf_Cn0Drop rf;
          neighbourCount = max (rf_NeighbourCount rf) (int (length (rf_Neighbours rf)));
          (jamBand, jamSev) =
            (if rs_maxDep r \<ge> AGCDepartureSevereThreshold then (''crit'', SevCritical)
             else if rs_maxDep r \<ge> AGCDepartureThreshold \<and> (rs_cwHigh r \<or> rs_rxJam r \<or> cn0Drop \<or> neighbourCount > 0) then (''warn'', SevWarning)
             else (''ok'', SevInfo));
          (antState, antSev) = (if rs_antFault r then (''fault'', SevWarning) else (''ok'', SevInfo));
          depPresent = (rs_haveDep r \<and> rs_maxDep r \<ge> AGCDepartureThreshold \<or> rs_cwHigh r \<or> rs_rxJam r \<or> cn0Drop);
          degraded = (depPresent \<and> jamBand = ''ok'');
          degradedSev = (if degraded then SevWarning else SevInfo);
          degradedBand = boolState degraded ''degraded'' ''ok'';
          evidence = [''station'' \<mapsto> PString i, ''agc_departure'' \<mapsto> PFloat (rs_maxDep r), ''cw'' \<mapsto> PBool (rs_cwHigh r), ''rx_jam'' \<mapsto> PBool (rs_rxJam r), ''cn0_drop'' \<mapsto> PBool cn0Drop]
      in if rf_Bands rf = [] then []
         else
          [\<lparr>em_subject = i, em_metric = ''jamming'', em_state = jamBand,
            em_event = (\<lambda>old. new_event ''jamming_detected'' old jamBand jamSev (''station '' @ i @ '' jamming '' @ jamBand @ '' (AGC departure '' @ fmt_fixed 0 (rs_maxDep r) @ '')'')
              (evidence(''neighbours'' \<mapsto> PList (map PString (rf_Neighbours rf)), ''neighbour_count'' \<mapsto> PInt neighbourCount)))\<rparr>,
           \<lparr>em_subject = i, em_metric = ''antenna'', em_state = antState,
            em_event = (\<lambda>old. new_event ''antenna_fault'' old antState antSev (''station '' @ i @ '' antenna '' @ antState) [''station'' \<mapsto> PString i])\<rparr>,
           \<lparr>em_subject = i, em_metric = ''rf_degraded'', em_state = degradedBand,
            em_event = (\<lambda>old. new_event ''station_rf_degraded'' old degradedBand degradedSev
              (''station '' @ i @ '' RF degraded (AGC departure '' @ fmt_fixed 0 (rs_maxDep r) @ '', cw='' @ fmt_bool (rs_cwHigh r) @ '', rx_jam='' @ fmt_bool (rs_rxJam r) @
               '', cn0_drop='' @ fmt_bool cn0Drop @ '')'') evidence)\<rparr>])"

definition TickStations :: "detector \<Rightarrow> time \<Rightarrow> (string \<times> station_rf) list \<Rightarrow> event list \<times> detector" where
  "TickStations d now stations = detector_run d now familyStationRF (for_each (\<lambda>_. detectStationRF) stations)"

definition detectStationOffline :: "string \<Rightarrow> int \<Rightarrow> emission list" where
  "detectStationOffline i lastSeenS =
     (let band = boolState (of_int lastSeenS > ObserverOfflineThreshold) ''offline'' ''online''
      in [\<lparr>em_subject = i, em_metric = ''offline'', em_state = band,
           em_event = (\<lambda>old. new_event ''station_offline'' old band SevWarning (''station '' @ i @ '' '' @ band @ '' (unseen '' @ fmt_int lastSeenS @ ''s)'')
             [''station'' \<mapsto> PString i, ''last_seen_s'' \<mapsto> PInt lastSeenS])\<rparr>])"

definition TickStationLiveness :: "detector \<Rightarrow> time \<Rightarrow> (string \<times> int) list \<Rightarrow> event list \<times> detector" where
  "TickStationLiveness d now lastSeen = detector_run d now familyStationLiveness (for_each (\<lambda>_. detectStationOffline) lastSeen)"

section \<open>Capabilities\<close>

record station_capability =
  sc_Gnss :: int
  sc_Sig :: int
  sc_LastSeen :: int
  sc_Count :: nat

record station_cap_report =
  cap_StationLastSeen :: int
  cap_Observed :: "station_capability list"
  cap_Declared :: "(int \<times> int) list"

definition cap_lost :: "string \<Rightarrow> time \<Rightarrow> station_capability \<Rightarrow> emission" where
  "cap_lost i now sig =
     (let lost = (sc_Count sig \<ge> CapMinObservations \<and> unix now - sc_LastSeen sig > CapSignalLostAfter div Second);
          pair = fmt_int (sc_Gnss sig) @ '':'' @ fmt_int (sc_Sig sig);
          staleS = unix now - sc_LastSeen sig;
          band = boolState lost ''lost'' ''present''
      in \<lparr>em_subject = i, em_metric = ''cap_lost:'' @ pair, em_state = band,
          em_event = (\<lambda>old. new_event ''capability_signal_lost'' old band SevWarning
            (if lost then ''station '' @ i @ '' stopped delivering signal '' @ pair @ '' (unseen '' @ fmt_int staleS @ ''s, station live)''
             else ''station '' @ i @ '' resumed delivering signal '' @ pair)
            [''station'' \<mapsto> PString i, ''gnss'' \<mapsto> PInt (sc_Gnss sig), ''sig'' \<mapsto> PInt (sc_Sig sig), ''unseen_s'' \<mapsto> PInt staleS])\<rparr>)"

definition detectCapability :: "time \<Rightarrow> string \<Rightarrow> station_cap_report \<Rightarrow> emission list" where
  "detectCapability now i rep =
     (let stationAlive = (cap_StationLastSeen rep \<noteq> 0 \<and> unix now - cap_StationLastSeen rep \<le> CapStationAliveWindow div Second);
          losses = (if stationAlive then map (cap_lost i now) (cap_Observed rep) else [])
      in if cap_Declared rep = [] then losses
         else
          (let offending = sort (map (\<lambda>sig. fmt_int (sc_Gnss sig) @ '':'' @ fmt_int (sc_Sig sig))
                 (filter (\<lambda>sig. (sc_Gnss sig, sc_Sig sig) \<notin> set (cap_Declared rep)) (cap_Observed rep)));
               impossible = (offending \<noteq> []);
               band = boolState impossible ''impossible'' ''ok''
           in losses @
              [\<lparr>em_subject = i, em_metric = ''cap_impossible'', em_state = band,
                em_event = (\<lambda>old. new_event ''capability_impossible'' old band SevCritical
                  (if impossible then ''station '' @ i @ '' reported signals its silicon cannot produce: '' @ join '', '' offending
                   else ''station '' @ i @ '' no longer reporting undeclared signals'')
                  [''station'' \<mapsto> PString i, ''signals'' \<mapsto> PList (map PString offending)])\<rparr>]))"

definition TickCapabilities :: "detector \<Rightarrow> time \<Rightarrow> (string \<times> station_cap_report) list \<Rightarrow> event list \<times> detector" where
  "TickCapabilities d now reports = detector_run d now familyCapability (for_each (\<lambda>_. detectCapability now) reports)"

section \<open>Reference orbits\<close>

record orbit_comparison =
  oc_Name :: string
  oc_GNSSID :: int
  oc_SigID :: int
  oc_DeltaM :: real
  oc_Conf :: int
  oc_ConfWeighted :: real
  oc_PositionAt :: time
  oc_ReferenceEpoch :: time
  oc_ReferenceSource :: string
  oc_PositionSource :: string

definition orbit_emission :: "string \<Rightarrow> orbit_comparison \<Rightarrow> emission list" where
  "orbit_emission subject c =
     (let entry = (\<lambda>metric eventType threshold severe source.
            (case discoBand (oc_DeltaM c) threshold severe of (band, sev) \<Rightarrow>
              (let params = [''sv'' \<mapsto> PString (oc_Name c), ''gnssid'' \<mapsto> PInt (oc_GNSSID c), ''reference_orbit_delta_m'' \<mapsto> PFloat (oc_DeltaM c),
                     ''position_epoch'' \<mapsto> PTime (oc_PositionAt c), ''position_source'' \<mapsto> PString source, ''reference_orbit_epoch'' \<mapsto> PTime (oc_ReferenceEpoch c),
                     ''reference_source'' \<mapsto> PString (oc_ReferenceSource c)];
                   params' = (if source = ''ephemeris''
                     then params(''sigid'' \<mapsto> PInt (oc_SigID c), ''conf'' \<mapsto> PInt (oc_Conf c), ''conf_weighted'' \<mapsto> PFloat (oc_ConfWeighted c)) else params)
               in [\<lparr>em_subject = subject, em_metric = metric, em_state = band,
                    em_event = (\<lambda>old. new_event eventType old band sev
                      (oc_Name c @ '' '' @ source @ '' independent reference-orbit delta '' @ fmt_fixed 0 (oc_DeltaM c) @ '' m'') params')\<rparr>])))
      in if oc_PositionSource c = [] \<or> oc_PositionSource c = ''ephemeris''
         then entry ''reference_orbit'' ''reference_orbit_divergence'' ReferenceOrbitThreshold ReferenceOrbitSevereThreshold ''ephemeris''
         else if oc_PositionSource c = ''almanac''
         then entry ''reference_almanac'' ''reference_almanac_divergence'' ReferenceAlmanacThreshold ReferenceAlmanacSevereThreshold ''almanac''
         else [])"

definition TickOrbitReference :: "detector \<Rightarrow> time \<Rightarrow> (string \<times> orbit_comparison) list \<Rightarrow> event list \<times> detector" where
  "TickOrbitReference d now comparisons = detector_run d now familyOrbitReference (for_each (\<lambda>_. orbit_emission) comparisons)"

section \<open>Station assessments\<close>

definition CheckRegionalPressure :: string where "CheckRegionalPressure = ''regional_pressure''"
definition CheckBarometricHeight :: string where "CheckBarometricHeight = ''barometric_height''"
definition CheckEnvironmentHealth :: string where "CheckEnvironmentHealth = ''environment_sensor_health''"
definition CheckEnvironmentChange :: string where "CheckEnvironmentChange = ''environment_change''"
definition ReasonPressureSensorUnhealthy :: string where "ReasonPressureSensorUnhealthy = ''pressure_sensor_unhealthy''"
definition ReasonRegionalPressureIncoherent :: string where "ReasonRegionalPressureIncoherent = ''regional_pressure_incoherent''"
definition ReasonLocalPressureAmbiguous :: string where "ReasonLocalPressureAmbiguous = ''local_pressure_change_ambiguous''"

record assessment =
  as_Fusion :: fusion
  as_Engine :: int
  as_ConfigHash :: string
  as_Mode :: string
  as_Surveyed :: bool
  as_Checks :: "check_result list"

definition state_string :: "assurance \<Rightarrow> string" where
  "state_string s = (case s of Unavailable \<Rightarrow> ''unavailable'' | Unassured \<Rightarrow> ''unassured'' | Inconsistent \<Rightarrow> ''inconsistent'' | Assured \<Rightarrow> ''assured'' | OtherState t \<Rightarrow> t)"

definition assessmentCheck :: "assessment \<Rightarrow> string \<Rightarrow> check_result option" where
  "assessmentCheck a name = find (\<lambda>r. cr_Check r = name) (as_Checks a)"

definition containsReason :: "string list \<Rightarrow> string \<Rightarrow> bool" where
  "containsReason reasons want \<longleftrightarrow> want \<in> set reasons"

definition physicsAvailable :: "assessment \<Rightarrow> bool" where
  "physicsAvailable a \<longleftrightarrow> list_ex (\<lambda>r. Physics (cr_Domain r) \<and> cr_State r \<noteq> Unavailable) (as_Checks a)"

definition domainList :: "domain list \<Rightarrow> string" where
  "domainList domains = (if domains = [] then ''none'' else join '', '' domains)"

definition floatMap :: "(string \<rightharpoonup> real) \<Rightarrow> string \<rightharpoonup> param" where
  "floatMap m = (\<lambda>k. map_option PFloat (m k))"

definition check_param :: "check_result \<Rightarrow> param" where
  "check_param r =
     (let c = [''check'' \<mapsto> PString (cr_Check r), ''version'' \<mapsto> PInt (cr_Version r), ''domain'' \<mapsto> PString (cr_Domain r), ''state'' \<mapsto> PString (state_string (cr_State r)),
            ''candidate'' \<mapsto> PString (state_string (cr_Candidate r)), ''since'' \<mapsto> PInt (cr_Since r), ''metrics'' \<mapsto> PMap (floatMap (cr_Metrics r)),
            ''thresholds'' \<mapsto> PMap (floatMap (cr_Thresholds r))]
      in PMap (if cr_Reasons r \<noteq> [] then c(''reasons'' \<mapsto> PList (map PString (cr_Reasons r))) else c))"

definition assessmentParams :: "string \<Rightarrow> assessment \<Rightarrow> string \<rightharpoonup> param" where
  "assessmentParams i a =
     (let unavailable = map (\<lambda>r. PString (cr_Check r)) (filter (\<lambda>r. cr_State r = Unavailable) (as_Checks a));
          f = as_Fusion a;
          params = [''station'' \<mapsto> PString i, ''state'' \<mapsto> PString (state_string (fu_State f)), ''unassured_domains'' \<mapsto> PList (map PString (fu_UnassuredDomains f)),
            ''spoofing_indicated'' \<mapsto> PBool (fu_SpoofingIndicated f), ''engine_version'' \<mapsto> PInt (as_Engine a), ''config_hash'' \<mapsto> PString (as_ConfigHash a),
            ''mode'' \<mapsto> PString (as_Mode a), ''surveyed_position'' \<mapsto> PBool (as_Surveyed a), ''checks'' \<mapsto> PList (map check_param (as_Checks a))];
          params1 = (case fu_Score f of None \<Rightarrow> params | Some x \<Rightarrow> params(''score'' \<mapsto> PFloat x))
      in if unavailable \<noteq> [] then params1(''unavailable_checks'' \<mapsto> PList unavailable) else params1)"

text \<open>One advisory check as an emission, when the assessment has it evaluated; \<open>bands\<close> gives the band and the severity.\<close>

definition advisory_emission :: "string \<Rightarrow> assessment \<Rightarrow> string \<Rightarrow> string \<Rightarrow> string \<Rightarrow> string \<Rightarrow> (check_result \<Rightarrow> string \<times> int) \<Rightarrow> emission list" where
  "advisory_emission i a check metric typ label bands =
     (case assessmentCheck a check of None \<Rightarrow> []
      | Some r \<Rightarrow>
         if cr_EvaluatedAt r = 0 then []
         else
          (case bands r of (band, severity) \<Rightarrow>
            [\<lparr>em_subject = i, em_metric = metric, em_state = band,
              em_event = (\<lambda>old. new_event typ old band severity (''station '' @ i @ label @ band) (assessmentParams i a))\<rparr>]))"

definition regional_band :: "check_result \<Rightarrow> string \<times> int" where
  "regional_band r =
     (case cr_State r of
        Inconsistent \<Rightarrow> (''local_change'', SevWarning)
      | Unassured \<Rightarrow> (''severe'', SevWarning)
      | Unavailable \<Rightarrow>
          (''unknown'',
           if containsReason (cr_Reasons r) ReasonRegionalPressureIncoherent \<or> containsReason (cr_Reasons r) ReasonPressureSensorUnhealthy \<or> containsReason (cr_Reasons r) ReasonStale
           then SevWarning else SevInfo)
      | _ \<Rightarrow> (''coherent'', SevInfo))"

definition barometric_band :: "check_result \<Rightarrow> string \<times> int" where
  "barometric_band r =
     (case cr_State r of
        Inconsistent \<Rightarrow> (''inconsistent'', SevWarning)
      | Unassured \<Rightarrow> (''diverged'', SevWarning)
      | Unavailable \<Rightarrow>
          (''unknown'',
           if containsReason (cr_Reasons r) ReasonLocalPressureAmbiguous \<or> containsReason (cr_Reasons r) ReasonPressureSensorUnhealthy \<or>
              containsReason (cr_Reasons r) ReasonRegionalPressureIncoherent \<or> containsReason (cr_Reasons r) ReasonStale
           then SevWarning else SevInfo)
      | _ \<Rightarrow> (''consistent'', SevInfo))"

definition detectPressure :: "string \<Rightarrow> assessment \<Rightarrow> emission list" where
  "detectPressure i a =
     advisory_emission i a CheckRegionalPressure ''regional_pressure'' ''regional_pressure_anomaly'' '' regional pressure comparison '' regional_band @
     advisory_emission i a CheckBarometricHeight ''barometric_height'' ''barometric_height_consistency'' '' barometric height comparison '' barometric_band"

definition env_health_band :: "check_result \<Rightarrow> string \<times> int" where
  "env_health_band r =
     (case cr_State r of
        Inconsistent \<Rightarrow> (''degraded'', SevWarning)
      | Unassured \<Rightarrow> (''fault'', SevWarning)
      | Unavailable \<Rightarrow> (if containsReason (cr_Reasons r) ReasonStale then ''stale'' else ''unknown'', SevWarning)
      | _ \<Rightarrow> (''ok'', SevInfo))"

definition env_change_band :: "check_result \<Rightarrow> string \<times> int" where
  "env_change_band r =
     (case cr_State r of
        Inconsistent \<Rightarrow> (''changed'', SevWarning)
      | Unassured \<Rightarrow> (''severe'', SevWarning)
      | Unavailable \<Rightarrow> (''unknown'', if containsReason (cr_Reasons r) ReasonStale then SevWarning else SevInfo)
      | _ \<Rightarrow> (''normal'', SevInfo))"

definition detectEnvironment :: "string \<Rightarrow> assessment \<Rightarrow> emission list" where
  "detectEnvironment i a =
     advisory_emission i a CheckEnvironmentHealth ''environment_health'' ''environment_sensor_health'' '' environmental sensor health '' env_health_band @
     advisory_emission i a CheckEnvironmentChange ''environment_change'' ''environmental_change'' '' environmental conditions '' env_change_band"

definition detectIntegrity :: "string \<Rightarrow> assessment \<Rightarrow> emission list" where
  "detectIntegrity i a =
     (let f = as_Fusion a;
          domains = '' (unassured: '' @ domainList (fu_UnassuredDomains f) @ '')'';
          (band, sev) = (if fu_SpoofingIndicated f then (''suspected'', SevCritical) else (''ok'', SevInfo));
          spoofing = (if physicsAvailable a
            then [\<lparr>em_subject = i, em_metric = ''spoofing'', em_state = band,
                   em_event = (\<lambda>old. new_event ''spoofing_suspected'' old band sev (''station '' @ i @ '' spoofing '' @ band @ domains) (assessmentParams i a))\<rparr>] else []);
          st = state_string (fu_State f);
          stSev = (if fu_State f = Unassured then SevCritical else if fu_State f = Inconsistent then SevWarning else SevInfo);
          assured = (if fu_State f \<noteq> Unavailable
            then [\<lparr>em_subject = i, em_metric = ''assurance'', em_state = st,
                   em_event = (\<lambda>old. new_event ''station_assurance'' old st stSev (''station '' @ i @ '' assurance '' @ st @ domains) (assessmentParams i a))\<rparr>] else [])
      in detectEnvironment i a @ detectPressure i a @ spoofing @ assured)"

definition TickIntegrity :: "detector \<Rightarrow> time \<Rightarrow> (string \<times> assessment) list \<Rightarrow> event list \<times> detector" where
  "TickIntegrity d now stations = detector_run d now familyStationIntegrity (for_each (\<lambda>_. detectIntegrity) stations)"

end
