(* ===== verification/ClassifierLaws.thy ===== *)
theory ClassifierLaws
  imports Classifiers
begin

text \<open>
  What the rounds of the event detector guarantee: they do not depend on the order in which Go's maps are visited, their events are well formed, and the
  classifications follow their rules.
\<close>

section \<open>Independence of the iteration order\<close>

lemma fmt_nat_no_nul: "CHR 0x00 \<notin> set (fmt_nat n)"
proof (induction n rule: fmt_nat.induct)
  case (1 n)
  have nz: "CHR 0x00 \<noteq> char_of (48 + k)" if "k < 10" for k :: nat
  proof
    assume "CHR 0x00 = char_of (48 + k)"
    from arg_cong [OF this, of "of_char :: char \<Rightarrow> nat"] show False using that by (simp add: of_char_of)
  qed
  show ?case using 1 nz [of n] nz [of "n mod 10"] by (subst fmt_nat.simps) (auto simp del: char_of_eq_iff)
qed

lemma fmt_int_no_nul [simp]: "CHR 0x00 \<notin> set (fmt_int n)"
  by (simp add: fmt_int_def fmt_nat_no_nul)

lemmas sv_emissions = sv_health_def sv_eph_age_def sv_orbit_disco_def sv_clock_jump_def sv_sisa_def sv_ura_alert_def sv_wn_def sv_bds_integrity_def sv_leap_def sv_osnma_def
  sv_silence_def sv_position_def sv_emit_def

lemma plain_append [simp]: "plain i (xs @ ys) \<longleftrightarrow> plain i xs \<and> plain i ys"
  by (simp add: plain_def)

lemma plain_Nil [simp]: "plain i []"
  by (simp add: plain_def)

lemma plain_Cons: "plain i (x # xs) \<longleftrightarrow> em_subject x = i \<and> CHR 0x00 \<notin> set (em_metric x) \<and> plain i xs"
  by (simp add: plain_def)

lemma plain_sv:
  "plain i (sv_health i sv)" "plain i (sv_eph_age i sv)" "plain i (sv_orbit_disco i sv)" "plain i (sv_clock_jump i sv)" "plain i (sv_sisa d i sv)" "plain i (sv_ura_alert i sv)"
  "plain i (sv_wn i sv)" "plain i (sv_bds_integrity i sv)" "plain i (sv_leap i sv)" "plain i (sv_osnma i sv)" "plain i (sv_silence n i sv)" "plain i (sv_position i sv)"
  by (auto simp: sv_emissions plain_Cons Let_def split: option.split prod.split)

lemma plain_advisory: "CHR 0x00 \<notin> set metric \<Longrightarrow> plain i (advisory_emission i a check metric typ label bands)"
  by (auto simp: advisory_emission_def plain_Cons split: option.split prod.split)

interpretation sv_classifier: subject_classifier "detectSV live" for live
proof
  show "plain i (detectSV live d i x)" for d i x by (simp add: detectSV_def plain_sv)
  show "detectSV live d i x = detectSV live d' i x" if "agree i d d'" for d d' i x
  proof -
    have "currentBand d i ''sisa'' = currentBand d' i ''sisa''" using that by (simp add: agree_def currentBand_def)
    then have e: "sisaBand d i = sisaBand d' i" by (simp add: sisaBand_def fun_eq_iff)
    show ?thesis unfolding detectSV_def sv_sisa_def e ..
  qed
qed

interpretation rf_classifier: subject_classifier "\<lambda>_. detectStationRF"
  by unfold_locales (auto simp: detectStationRF_def plain_Cons Let_def split: prod.split)

interpretation liveness_classifier: subject_classifier "\<lambda>_. detectStationOffline"
  by unfold_locales (auto simp: detectStationOffline_def plain_Cons Let_def)

interpretation capability_classifier: subject_classifier "\<lambda>_. detectCapability now" for now
proof
  have "plain i (map (cap_lost i now) xs)" for i xs by (induction xs) (simp_all add: plain_Cons cap_lost_def Let_def)
  then show "plain i (detectCapability now i x)" for i x by (auto simp: detectCapability_def plain_Cons Let_def)
qed simp

interpretation orbit_classifier: subject_classifier "\<lambda>_. orbit_emission"
  by unfold_locales (auto simp: orbit_emission_def plain_Cons Let_def split: prod.split)

interpretation integrity_classifier: subject_classifier "\<lambda>_. detectIntegrity"
  by unfold_locales (auto simp: detectIntegrity_def detectEnvironment_def detectPressure_def plain_advisory plain_Cons Let_def split: prod.split)

text \<open>The loops over the groups and over SBAS as loops over subjects.\<close>

interpretation xsig_classifier: subject_classifier "\<lambda>_ name (_ :: unit). xsig_name svs name" for svs
  by unfold_locales (auto simp: xsig_name_def plain_Cons Let_def)

definition sbas_subject :: "string \<Rightarrow> sbas_entry \<Rightarrow> emission list" where
  "sbas_subject subject s = (case subject of [] \<Rightarrow> [] | c # prn \<Rightarrow> if c = CHR ''S'' then detectSBAS prn s else [])"

interpretation sbas_classifier: subject_classifier "\<lambda>_. sbas_subject"
  by unfold_locales (auto simp: sbas_subject_def detectSBAS_def plain_Cons Let_def split: list.split)

lemma emits_append: "emits em (xs @ ys) st = emits em ys (emits em xs st)"
  by (simp add: emits_def)

lemma xsig_as_loop: "emits em (detectXSig svs names) st = for_each (\<lambda>_ name (_ :: unit). xsig_name svs name) (map (\<lambda>n. (n, ())) names) em st"
  by (induction names arbitrary: st) (simp_all add: detectXSig_def for_each_def emits_append, simp add: emits_def)

lemma sbas_as_loop:
  "for_each (\<lambda>_. detectSBAS) sbas em st =
   for_each (\<lambda>_. sbas_subject) (map (\<lambda>(prn, s). (''S'' @ prn, s)) sbas) em st"
proof (induction sbas arbitrary: st)
  case (Cons x sbas)
  obtain prn s where x: "x = (prn, s)" by fastforce
  show ?case using Cons.IH by (simp add: for_each_def x sbas_subject_def)
qed (simp add: for_each_def)

text \<open>Two orders of visiting the same map.\<close>

definition same_map :: "('k \<times> 'v) list \<Rightarrow> ('k \<times> 'v) list \<Rightarrow> bool" where
  "same_map xs ys \<longleftrightarrow> distinct (map fst xs) \<and> distinct (map fst ys) \<and> set xs = set ys"

text \<open>The eligible entries of a feed have distinct signals.\<close>

definition signals_distinct :: "(string \<times> feed_sv) list \<Rightarrow> bool" where
  "signals_distinct svs \<longleftrightarrow> inj_on (\<lambda>(_, sv). (sv_Name sv, sv_SigID sv)) {x \<in> set svs. xsig_eligible (snd x)}"

lemma xsig_group_perm:
  assumes "same_map svs svs'" "signals_distinct svs"
  shows "xsig_group svs name = xsig_group svs' name"
proof -
  let ?ok = "\<lambda>sv. xsig_eligible sv \<and> sv_Name sv = name"
  have "distinct svs" "distinct svs'" "set svs = set svs'" using assms(1) by (auto simp: same_map_def distinct_map)
  then have m: "mset svs = mset svs'" using set_eq_iff_mset_eq_distinct by blast
  have "inj_on sv_SigID {sv. \<exists>k. (k, sv) \<in> set svs \<and> ?ok sv}"
    using assms(2) unfolding signals_distinct_def inj_on_def by fastforce
  moreover have "set (filter ?ok (map snd svs)) = {sv. \<exists>k. (k, sv) \<in> set svs \<and> ?ok sv}" by force
  ultimately have "inj_on sv_SigID (set (filter ?ok (map snd svs)))" by simp
  moreover have "mset (filter ?ok (map snd svs)) = mset (filter ?ok (map snd svs'))" using m by simp
  ultimately show ?thesis unfolding xsig_group_def by (intro sort_key_inj_key_eq) simp_all
qed

text \<open>C29: the rounds of the detector are deterministic. Whatever the order in which Go visits the maps of a round, and the groups of the cross-signal check, the detector
  ends in the same state and returns the same events in the same order.\<close>

theorem rounds_order_independent:
  assumes "same_map svs svs'" "signals_distinct svs" "distinct names" "distinct names'" "set names = set names'" "same_map sbas sbas'"
    "same_map stations stations'" "same_map lastSeen lastSeen'" "same_map reports reports'" "same_map comparisons comparisons'" "same_map assessments assessments'"
  shows "Tick d now svs names sbas live = Tick d now svs' names' sbas' live \<and>
     TickStations d now stations = TickStations d now stations' \<and>
     TickStationLiveness d now lastSeen = TickStationLiveness d now lastSeen' \<and>
     TickCapabilities d now reports = TickCapabilities d now reports' \<and>
     TickOrbitReference d now comparisons = TickOrbitReference d now comparisons' \<and>
     TickIntegrity d now assessments = TickIntegrity d now assessments'"
proof -
  have x: "xsig_name svs = xsig_name svs'" using xsig_group_perm [OF assms(1,2)] by (simp add: xsig_name_def fun_eq_iff)
  have sb: "distinct (map fst (map (\<lambda>(prn, s). (''S'' @ prn, s)) zs))" if "distinct (map fst zs)" for zs :: "(string \<times> sbas_entry) list"
  proof -
    have "map fst (map (\<lambda>(prn, s). (''S'' @ prn, s)) zs) = map ((@) ''S'') (map fst zs)" by auto
    then show ?thesis using that by (simp only: distinct_map) (simp add: inj_on_def)
  qed
  have "Tick d now svs names sbas live = Tick d now svs' names' sbas' live"
    unfolding Tick_def
  proof (rule detector_run_cong)
    fix gen p st
    let ?em = "round_emit now gen p"
    have "equivalent (for_each (detectSV live) svs ?em st) (for_each (detectSV live) svs' ?em st)"
      using assms(1) by (intro sv_classifier.for_each_perm) (auto simp: same_map_def equivalent_def similar_refl same_frame_def)
    then have "equivalent (emits ?em (detectXSig svs names) (for_each (detectSV live) svs ?em st)) (emits ?em (detectXSig svs' names') (for_each (detectSV live) svs' ?em st))"
      unfolding xsig_as_loop x using assms(3-5) by (intro xsig_classifier.for_each_perm) (auto simp: comp_def)
    then show "equivalent (for_each (\<lambda>_. detectSBAS) sbas ?em (emits ?em (detectXSig svs names) (for_each (detectSV live) svs ?em st)))
        (for_each (\<lambda>_. detectSBAS) sbas' ?em (emits ?em (detectXSig svs' names') (for_each (detectSV live) svs' ?em st)))"
      unfolding sbas_as_loop using assms(6) sb by (intro sbas_classifier.for_each_perm) (auto simp: same_map_def)
  qed
  moreover have "TickStations d now stations = TickStations d now stations'"
    unfolding TickStations_def using assms(7) by (intro rf_classifier.run_perm) (auto simp: same_map_def)
  moreover have "TickStationLiveness d now lastSeen = TickStationLiveness d now lastSeen'"
    unfolding TickStationLiveness_def using assms(8) by (intro liveness_classifier.run_perm) (auto simp: same_map_def)
  moreover have "TickCapabilities d now reports = TickCapabilities d now reports'"
    unfolding TickCapabilities_def using assms(9) by (intro capability_classifier.run_perm) (auto simp: same_map_def)
  moreover have "TickOrbitReference d now comparisons = TickOrbitReference d now comparisons'"
    unfolding TickOrbitReference_def using assms(10) by (intro orbit_classifier.run_perm) (auto simp: same_map_def)
  moreover have "TickIntegrity d now assessments = TickIntegrity d now assessments'"
    unfolding TickIntegrity_def using assms(11) by (intro integrity_classifier.run_perm) (auto simp: same_map_def)
  ultimately show ?thesis by blast
qed

section \<open>Events\<close>

definition faithful_emission :: "emission \<Rightarrow> bool" where
  "faithful_emission x \<longleftrightarrow>
     (\<forall>old. ev_OldValue (em_event x old) = old \<and> ev_NewValue (em_event x old) = em_state x \<and> ev_Severity (em_event x old) \<in> {SevInfo, SevWarning, SevCritical})"

definition well_formed_event :: "time \<Rightarrow> event \<Rightarrow> bool" where
  "well_formed_event now e \<longleftrightarrow> ev_Time e = now \<and> ev_OldValue e \<noteq> ev_NewValue e \<and> ev_Severity e \<in> {SevInfo, SevWarning, SevCritical}"

lemma event_of_well_formed: "event_of now x e \<Longrightarrow> faithful_emission x \<Longrightarrow> well_formed_event now e"
  by (auto simp: event_of_def faithful_emission_def well_formed_event_def)

lemma new_event_simps [simp]:
  "ev_OldValue (new_event typ old new sev msg params) = old" "ev_NewValue (new_event typ old new sev msg params) = new"
  "ev_Severity (new_event typ old new sev msg params) = sev" "ev_Type (new_event typ old new sev msg params) = typ"
  by (simp_all add: new_event_def)

lemma faithful_sv_parts:
  "list_all faithful_emission (sv_health i sv)" "list_all faithful_emission (sv_eph_age i sv)" "list_all faithful_emission (sv_orbit_disco i sv)"
  "list_all faithful_emission (sv_clock_jump i sv)" "list_all faithful_emission (sv_sisa d i sv)" "list_all faithful_emission (sv_ura_alert i sv)"
  "list_all faithful_emission (sv_wn i sv)" "list_all faithful_emission (sv_bds_integrity i sv)" "list_all faithful_emission (sv_leap i sv)"
  "list_all faithful_emission (sv_osnma i sv)" "list_all faithful_emission (sv_silence n i sv)" "list_all faithful_emission (sv_position i sv)"
  by (simp_all add: sv_emissions faithful_emission_def healthEvent_def discoBand_def Let_def split: option.split)

lemma faithful_sv: "list_all faithful_emission (detectSV live d i sv)"
  by (simp add: detectSV_def faithful_sv_parts)

lemma faithful_xsig: "list_all faithful_emission (detectXSig svs names)"
  by (induction names) (simp_all add: detectXSig_def xsig_name_def faithful_emission_def Let_def)

lemma faithful_sbas: "list_all faithful_emission (detectSBAS prn s)"
  by (simp add: detectSBAS_def faithful_emission_def Let_def)

lemma faithful_rf: "list_all faithful_emission (detectStationRF i rf)"
  by (simp add: detectStationRF_def faithful_emission_def Let_def)

lemma faithful_offline: "list_all faithful_emission (detectStationOffline i n)"
  by (simp add: detectStationOffline_def faithful_emission_def Let_def)

lemma faithful_capability: "list_all faithful_emission (detectCapability now i rep)"
proof -
  have "list_all faithful_emission (map (cap_lost i now) xs)" for xs
    by (induction xs) (simp_all add: cap_lost_def faithful_emission_def Let_def)
  then show ?thesis unfolding detectCapability_def Let_def by (simp add: faithful_emission_def)
qed

lemma faithful_orbit: "list_all faithful_emission (orbit_emission i c)"
  by (simp add: orbit_emission_def faithful_emission_def discoBand_def Let_def)

lemma faithful_advisory:
  assumes "\<And>r. snd (bands r) \<in> {SevInfo, SevWarning, SevCritical}"
  shows "list_all faithful_emission (advisory_emission i a check metric typ label bands)"
  using assms by (simp add: advisory_emission_def faithful_emission_def split_def split: option.split)

lemma band_severities:
  "snd (regional_band r) \<in> {SevInfo, SevWarning, SevCritical}" "snd (barometric_band r) \<in> {SevInfo, SevWarning, SevCritical}"
  "snd (env_health_band r) \<in> {SevInfo, SevWarning, SevCritical}" "snd (env_change_band r) \<in> {SevInfo, SevWarning, SevCritical}"
  by (simp_all add: regional_band_def barometric_band_def env_health_band_def env_change_band_def split: assurance.split)

lemma faithful_integrity: "list_all faithful_emission (detectIntegrity i a)"
proof -
  have e: "list_all faithful_emission (detectEnvironment i a)"
    unfolding detectEnvironment_def list_all_append by (intro conjI faithful_advisory band_severities)
  have p: "list_all faithful_emission (detectPressure i a)"
    unfolding detectPressure_def list_all_append by (intro conjI faithful_advisory band_severities)
  show ?thesis by (simp add: detectIntegrity_def Let_def e p) (simp add: faithful_emission_def)
qed

lemma emits_well_formed:
  assumes "list_all (well_formed_event now) (snd st)" "list_all faithful_emission ems"
  shows "list_all (well_formed_event now) (snd (emits (round_emit now gen p) ems st))"
  using assms emits_events [of _ now gen p ems st] event_of_well_formed unfolding list_all_iff event_of_def by blast

lemma for_each_well_formed:
  assumes "list_all (well_formed_event now) (snd st)" "\<And>d i a. list_all faithful_emission (c d i a)"
  shows "list_all (well_formed_event now) (snd (for_each c xs (round_emit now gen p) st))"
  unfolding list_all_iff
proof
  fix e
  assume "e \<in> set (snd (for_each c xs (round_emit now gen p) st))"
  from for_each_events [OF this] show "well_formed_event now e"
  proof
    assume "\<exists>(i, a) \<in> set xs. \<exists>d. \<exists>x \<in> set (c d i a). event_of now x e"
    then obtain i a d x where "x \<in> set (c d i a)" "event_of now x e" by auto
    then show ?thesis using assms(2) [of d i a] by (auto simp: list_all_iff intro: event_of_well_formed)
  qed (use assms(1) in \<open>auto simp: list_all_iff\<close>)
qed

lemma run_well_formed:
  "(\<And>d i a. list_all faithful_emission (c d i a)) \<Longrightarrow> list_all (well_formed_event now) (fst (detector_run d now fam (for_each c xs)))"
  by (simp add: detector_run_alt Let_def list_all_iff [of _ "sort_key _ _"]) (simp add: list_all_iff [symmetric] for_each_well_formed)

text \<open>every event of every round carries the round's instant, a change of value, and a severity of the contract.\<close>

lemma events_well_formed:
  "list_all (well_formed_event now) (fst (Tick d now svs names sbas live) @ fst (TickStations d now stations) @ fst (TickStationLiveness d now lastSeen) @
     fst (TickCapabilities d now reports) @ fst (TickOrbitReference d now comparisons) @ fst (TickIntegrity d now assessments))"
proof -
  have "list_all (well_formed_event now) (fst (Tick d now svs names sbas live))"
    by (simp add: Tick_def detector_run_alt Let_def list_all_iff [of _ "sort_key _ _"])
      (simp add: list_all_iff [symmetric] for_each_well_formed emits_well_formed faithful_sv faithful_xsig faithful_sbas)
  then show ?thesis
    unfolding TickStations_def TickStationLiveness_def TickCapabilities_def TickOrbitReference_def TickIntegrity_def
    by (simp add: run_well_formed faithful_rf faithful_offline faithful_capability faithful_orbit faithful_integrity)
qed

theorem rounds_order_independent_witness:
  "TickStationLiveness (detector_New 0) 5 [(''a'', 1), (''b'', 400)] = TickStationLiveness (detector_New 0) 5 [(''b'', 400), (''a'', 1)]"
  using rounds_order_independent [of "[]" "[]" "[]" "[]" "[]" "[]" "[]" "[]" "[(''a'', 1), (''b'', 400)]" "[(''b'', 400), (''a'', 1)]" "[]" "[]" "[]" "[]" "[]" "[]" "detector_New 0" 5 0]
  by (auto simp: same_map_def signals_distinct_def)

section \<open>Rules of single classifiers\<close>

text \<open>The accuracy band moves only outside the band between its two thresholds.\<close>

lemma sisa_deadband:
  assumes "currentBand d i ''sisa'' = (band, True)" "band = ''ok'' \<or> band = ''degraded''" "SISAExitThreshold \<le> m" "m < SISAAlertThreshold"
  shows "sisaBand d i m = band"
  using assms by (auto simp: sisaBand_def)

lemma integrityFlagState_inj: "integrityFlagState a b c = integrityFlagState a' b' c' \<longleftrightarrow> a = a' \<and> b = b' \<and> c = c'"
  by (cases a; cases b; cases c; cases a'; cases b'; cases c') (simp_all add: integrityFlagState_def flag_add_def)

lemma rf_fold_flags:
  "rs_cwHigh (foldl rf_fold r bs) \<longleftrightarrow> rs_cwHigh r \<or> list_ex (\<lambda>b. rb_CWSuppress b \<ge> CWSuppressThreshold) bs"
  "rs_rxJam (foldl rf_fold r bs) \<longleftrightarrow> rs_rxJam r \<or> list_ex (\<lambda>b. rb_JamState b \<ge> 2) bs"
  "rs_antFault (foldl rf_fold r bs) \<longleftrightarrow> rs_antFault r \<or> list_ex (\<lambda>b. rb_AntStatus b = 3 \<or> rb_AntStatus b = 4) bs"
  "rs_haveDep (foldl rf_fold r bs) \<longleftrightarrow> rs_haveDep r \<or> list_ex (\<lambda>b. rb_AGCDeparture b \<noteq> None) bs"
  by (induction bs arbitrary: r) (auto simp: rf_fold_def)

definition departed :: "real \<Rightarrow> station_rf_band list \<Rightarrow> bool" where
  "departed t bs \<longleftrightarrow> list_ex (\<lambda>b. case rb_AGCDeparture b of None \<Rightarrow> False | Some v \<Rightarrow> t \<le> v) bs"

lemma rf_fold_maxDep: "t \<le> rs_maxDep (foldl rf_fold r bs) \<longleftrightarrow> t \<le> rs_maxDep r \<or> departed t bs"
  by (induction bs arbitrary: r) (auto simp: rf_fold_def departed_def split: option.split)

lemma departed_have: "departed t bs \<Longrightarrow> list_ex (\<lambda>b. rb_AGCDeparture b \<noteq> None) bs"
  by (auto simp: departed_def list_ex_iff split: option.splits)

text \<open>The state a list of emissions gives a metric.\<close>

definition state_of :: "string \<Rightarrow> emission list \<Rightarrow> string option" where
  "state_of metric ems = map_option em_state (find (\<lambda>e. em_metric e = metric) ems)"

text \<open>the jamming rule. With current measurements a station is critical when a band's gain departs by the severe threshold; warned when a band departs by the lesser one and a tone, the
  receiver's own flag, a drop of C/N0 or a neighbour corroborates it; and degraded when some evidence is there but jamming is not claimed. Without measurements nothing is classified.\<close>

lemma jamming_rule:
  "if rf_Bands rf = [] then detectStationRF i rf = []
   else
     (let bs = rf_Bands rf;
          corroborated = (list_ex (\<lambda>b. rb_CWSuppress b \<ge> 180) bs \<or> list_ex (\<lambda>b. rb_JamState b \<ge> 2) bs \<or> rf_Cn0Drop rf);
          near = (0 < length (rf_Neighbours rf) \<or> 0 < rf_NeighbourCount rf);
          jam = (if departed 2000 bs then ''crit'' else if departed 800 bs \<and> (corroborated \<or> near) then ''warn'' else ''ok'')
      in state_of ''jamming'' (detectStationRF i rf) = Some jam \<and>
         state_of ''rf_degraded'' (detectStationRF i rf) = Some (if jam = ''ok'' \<and> (departed 800 bs \<or> corroborated) then ''degraded'' else ''ok'') \<and>
         state_of ''antenna'' (detectStationRF i rf) = Some (if list_ex (\<lambda>b. rb_AntStatus b = 3 \<or> rb_AntStatus b = 4) bs then ''fault'' else ''ok''))"
proof (cases "rf_Bands rf = []")
  case True
  then show ?thesis by (simp add: detectStationRF_def Let_def)
next
  case False
  let ?bs = "rf_Bands rf" and ?r = "rf_summarise (rf_Bands rf)"
  have s: "rs_cwHigh ?r = list_ex (\<lambda>b. rb_CWSuppress b \<ge> 180) ?bs" "rs_rxJam ?r = list_ex (\<lambda>b. rb_JamState b \<ge> 2) ?bs"
    "rs_antFault ?r = list_ex (\<lambda>b. rb_AntStatus b = 3 \<or> rb_AntStatus b = 4) ?bs" "(2000 \<le> rs_maxDep ?r) = departed 2000 ?bs"
    "(800 \<le> rs_maxDep ?r) = departed 800 ?bs"
    by (simp_all add: rf_summarise_def rf_fold_flags rf_fold_maxDep CWSuppressThreshold_def)
  have h: "(rs_haveDep ?r \<and> departed 800 ?bs) = departed 800 ?bs" using departed_have by (auto simp: rf_summarise_def rf_fold_flags)
  have n: "(0 < max (rf_NeighbourCount rf) (int (length (rf_Neighbours rf)))) = (0 < length (rf_Neighbours rf) \<or> 0 < rf_NeighbourCount rf)" by (auto simp: less_max_iff_disj)
  show ?thesis
    using False by (simp add: detectStationRF_def Let_def AGCDepartureThreshold_def AGCDepartureSevereThreshold_def s h n state_of_def boolState_def)
qed

section \<open>The reserved state\<close>

text \<open>Rounds over one station whose only check is the regional pressure comparison.\<close>

definition pressure_assessment :: "assurance \<Rightarrow> assessment" where
  "pressure_assessment st =
     \<lparr>as_Fusion = \<lparr>fu_State = Unavailable, fu_Score = None, fu_UnassuredDomains = [], fu_SpoofingIndicated = False\<rparr>, as_Engine = 3, as_ConfigHash = [], as_Mode = ''fixed'',
      as_Surveyed = True,
      as_Checks = [\<lparr>cr_Check = CheckRegionalPressure, cr_Version = 1, cr_Domain = DomainEnvironment, cr_State = st, cr_Candidate = st, cr_Since = 1, cr_RecoveringSince = None,
        cr_EvaluatedAt = 1, cr_Metrics = Map.empty, cr_Thresholds = Map.empty, cr_Reasons = [], cr_lowerOnly = False, cr_advisory = True\<rparr>]\<rparr>"

fun pressure_rounds :: "detector \<Rightarrow> (time \<times> assurance) list \<Rightarrow> event list list" where
  "pressure_rounds d [] = []"
| "pressure_rounds d ((now, st) # xs) = (case TickIntegrity d now [(''s'', pressure_assessment st)] of (evs, d') \<Rightarrow> evs # pressure_rounds d' xs)"

lemma not_physics_environment [simp]: "\<not> Physics ''environment''"
  by (simp add: Physics_def DomainSignalPower_def DomainPosition_def DomainReceiverClock_def DomainTimeReference_def DomainBarometricPosition_def)

definition pressure_band :: "assurance \<Rightarrow> string" where
  "pressure_band st = (case st of Inconsistent \<Rightarrow> ''local_change'' | Unassured \<Rightarrow> ''severe'' | Unavailable \<Rightarrow> ''unknown'' | _ \<Rightarrow> ''coherent'')"

definition event_change :: "event \<Rightarrow> string \<times> string \<times> string" where
  "event_change e = (ev_Type e, ev_OldValue e, ev_NewValue e)"

lemma pressure_emission:
  "\<exists>x. detectIntegrity ''s'' (pressure_assessment st) = [x] \<and> em_subject x = ''s'' \<and> em_metric x = ''regional_pressure'' \<and> em_state x = pressure_band st \<and>
     (\<forall>old. event_change (em_event x old) = (''regional_pressure_anomaly'', old, pressure_band st))"
  by (cases st) (simp_all add: detectIntegrity_def detectEnvironment_def detectPressure_def advisory_emission_def assessmentCheck_def pressure_assessment_def
      CheckRegionalPressure_def CheckBarometricHeight_def CheckEnvironmentHealth_def CheckEnvironmentChange_def regional_band_def physicsAvailable_def DomainEnvironment_def
      pressure_band_def event_change_def Let_def)

lemma pressure_round:
  fixes d :: detector and now :: time
  defines "gen \<equiv> d_gen d familyStationIntegrity + 1" and "k \<equiv> machine_key ''s'' ''regional_pressure''"
  assumes "machine_observe (detector_policy d familyStationIntegrity) ''coherent'' (d_machines d k) (pressure_band st) now gen = ((changed, old), m)"
  shows "map event_change (fst (TickIntegrity d now [(''s'', pressure_assessment st)])) = (if changed then [(''regional_pressure_anomaly'', old, pressure_band st)] else [])"
    "snd (TickIntegrity d now [(''s'', pressure_assessment st)]) =
       d\<lparr>d_gen := (d_gen d)(familyStationIntegrity := gen), d_machines := (d_machines d)(k \<mapsto> m)\<rparr>"
proof -
  obtain x where x: "detectIntegrity ''s'' (pressure_assessment st) = [x]" "em_subject x = ''s''" "em_metric x = ''regional_pressure''" "em_state x = pressure_band st"
    "\<And>old. event_change (em_event x old) = (''regional_pressure_anomaly'', old, pressure_band st)"
    using pressure_emission by blast
  let ?p = "detector_policy d familyStationIntegrity"
  have p: "detector_policy (d\<lparr>d_gen := g\<rparr>) familyStationIntegrity = ?p" for g by (simp add: detector_policy_def)
  have nom: "dp_nominal ?p ''regional_pressure'' = Some ''coherent''" by (simp add: detector_policy_def)
  have "TickIntegrity d now [(''s'', pressure_assessment st)] =
      (sort_key event_key (if changed then [(em_event x old)\<lparr>ev_Time := now, ev_SV := ''s''\<rparr>] else []),
       d\<lparr>d_gen := (d_gen d)(familyStationIntegrity := gen), d_machines := (d_machines d)(k \<mapsto> m)\<rparr>)"
    using assms(3) by (simp add: TickIntegrity_def detector_run_alt for_each_def emits_def x round_emit_def detector_observe_def p nom gen_def k_def Let_def)
  then show "map event_change (fst (TickIntegrity d now [(''s'', pressure_assessment st)])) = (if changed then [(''regional_pressure_anomaly'', old, pressure_band st)] else [])"
    "snd (TickIntegrity d now [(''s'', pressure_assessment st)]) = d\<lparr>d_gen := (d_gen d)(familyStationIntegrity := gen), d_machines := (d_machines d)(k \<mapsto> m)\<rparr>"
    using x(5) [of old] by (simp_all add: event_change_def)
qed

text \<open>The rounds as the life of the one machine.\<close>

fun machine_rounds :: "dwell_policy \<Rightarrow> machine option \<Rightarrow> 64 word \<Rightarrow> (time \<times> assurance) list \<Rightarrow> (string \<times> string \<times> string) list list" where
  "machine_rounds p entry g [] = []"
| "machine_rounds p entry g ((now, st) # xs) =
     (case machine_observe p ''coherent'' entry (pressure_band st) now (g + 1) of
        ((changed, old), m) \<Rightarrow> (if changed then [(''regional_pressure_anomaly'', old, pressure_band st)] else []) # machine_rounds p (Some m) (g + 1) xs)"

lemma pressure_rounds_machine:
  "map (map event_change) (pressure_rounds d xs) =
   machine_rounds (detector_policy d familyStationIntegrity) (d_machines d (machine_key ''s'' ''regional_pressure'')) (d_gen d familyStationIntegrity) xs"
proof (induction xs arbitrary: d)
  case (Cons x xs)
  obtain now st where x: "x = (now, st)" by fastforce
  obtain changed old m where o: "machine_observe (detector_policy d familyStationIntegrity) ''coherent'' (d_machines d (machine_key ''s'' ''regional_pressure''))
      (pressure_band st) now (d_gen d familyStationIntegrity + 1) = ((changed, old), m)" by (metis prod.exhaust)
  have p: "detector_policy (d\<lparr>d_gen := g, d_machines := h\<rparr>) familyStationIntegrity = detector_policy d familyStationIntegrity" for g h
    by (simp add: detector_policy_def)
  show ?case unfolding x machine_rounds.simps o prod.case using pressure_round [OF o] Cons.IH by (simp add: split_def p)
qed simp

text \<open>C30: the reserved word \<^verbatim>\<open>unknown\<close> is also a classification of the station checks. Whatever a machine with a nominal state has observed, once its confirmed state is \<^verbatim>\<open>unknown\<close> the
  return to the nominal state needs no dwell, the first observation is taken, and no number of nominal observations reports it: the machine takes the confirmed \<^verbatim>\<open>unknown\<close> for one that has
  confirmed nothing. The rounds of the detector get there: the pressure comparison of a station becomes unknown, which is reported after the dwell, and coherent again, which no later round
  reports.\<close>

theorem unknown_recovery_silent:
  assumes "life p nominal obs = (Some m, ts)" "m_current m = ''unknown''" "nominal \<noteq> []" "list_all (\<lambda>ob. observed ob = nominal) zs" "zs \<noteq> []"
  shows "(\<exists>m'. life p nominal (obs @ zs) = (Some m', ts) \<and> m_current m' = nominal) \<and>
    map (map event_change) (pressure_rounds (detector_New 0)
      [(0, Assured), (60 * Second, Unavailable), (120 * Second, Unavailable), (180 * Second, Assured), (240 * Second, Assured), (300 * Second, Assured)]) =
    [[], [], [(''regional_pressure_anomaly'', ''coherent'', ''unknown'')], [], [], []]"
proof
  show "\<exists>m'. life p nominal (obs @ zs) = (Some m', ts) \<and> m_current m' = nominal"
    using life_unknown [of m nominal zs p ts] assms by (simp add: life_def stateUnknown_def)
  show "map (map event_change) (pressure_rounds (detector_New 0)
      [(0, Assured), (60 * Second, Unavailable), (120 * Second, Unavailable), (180 * Second, Assured), (240 * Second, Assured), (300 * Second, Assured)]) =
    [[], [], [(''regional_pressure_anomaly'', ''coherent'', ''unknown'')], [], [], []]"
    unfolding pressure_rounds_machine
    by (simp add: pressure_band_def machine_observe_def dwell_required_def detector_policy_def detector_New_def DebounceDuration_def Second_def time_Sub_def stateUnknown_def)
qed

theorem unknown_recovery_silent_witness:
  "snd (life (detector_policy (detector_New 0) familyStationIntegrity) ''coherent''
     ([(''coherent'', 0, 1), (''unknown'', 60 * Second, 2), (''unknown'', 120 * Second, 3)] @ [(''coherent'', 180 * Second, 4)])) = [(120 * Second, ''coherent'', ''unknown'')]"
proof -
  let ?p = "detector_policy (detector_New 0) familyStationIntegrity" let ?obs = "[(''coherent'', 0, 1), (''unknown'', 60 * Second, 2), (''unknown'', 120 * Second, 3)]"
  obtain m ts where l: "life ?p ''coherent'' ?obs = (Some m, ts)" "m_current m = ''unknown''" "ts = [(120 * Second, ''coherent'', ''unknown'')]"
    by (simp add: life_eval)
  then show ?thesis using unknown_recovery_silent [OF l(1,2), of "[(''coherent'', 180 * Second, 4)]"] by (auto simp: observed_def)
qed

end
