(* ===== verification/StationBank.thy ===== *)
theory StationBank
  imports ClassifierLaws
begin

text \<open>
  A station's checks, \<^verbatim>\<open>go/internal/integrity/station.go\<close>: the bank of trackers with their order, the verdicts folded into it, the ageing reads, and the assessment that the event
  detector classifies. The evaluation of the measurements themselves is an input: an operation here takes the verdict a check has given.
\<close>

definition EngineVersion :: int where "EngineVersion = 3"

text \<open>The parts of \<^verbatim>\<open>Station\<close> and its profiles that the bank reads.\<close>

record station =
  st_filter :: filter_policy
  st_staleAfter :: duration
  st_envStaleAfter :: duration
  st_weights :: "string \<rightharpoonup> real"
  st_hash :: string
  st_mode :: string
  st_surveyed :: bool
  st_order :: "string list"
  st_trackers :: "string \<rightharpoonup> tracker"

text \<open>The loop of \<^verbatim>\<open>NewStation\<close> over the checks the station runs.\<close>

definition station_add :: "station \<Rightarrow> check_info \<Rightarrow> station" where
  "station_add s info = s\<lparr>st_order := st_order s @ [ci_Name info], st_trackers := (st_trackers s)(ci_Name info \<mapsto> newTracker info)\<rparr>"

definition station_update :: "station \<Rightarrow> string \<Rightarrow> verdict \<Rightarrow> time \<Rightarrow> station" where
  "station_update s name v now =
     (case st_trackers s name of
        Some t \<Rightarrow> s\<lparr>st_trackers := (st_trackers s)(name \<mapsto> tracker_update t v now (st_filter s))\<rparr>
      | None \<Rightarrow> s)"

definition station_staleAfter :: "station \<Rightarrow> string \<Rightarrow> duration" where
  "station_staleAfter s name =
     (if name \<in> {CheckEnvironmentHealth, CheckEnvironmentChange, CheckRegionalPressure, CheckBarometricHeight} then st_envStaleAfter s else st_staleAfter s)"

definition station_expire :: "station \<Rightarrow> string \<Rightarrow> tracker \<Rightarrow> time \<Rightarrow> tracker" where
  "station_expire s name t now = snd (tracker_expire t now (station_staleAfter s name) (st_filter s))"

definition Served :: "station \<Rightarrow> string \<Rightarrow> time \<Rightarrow> (assurance \<times> bool) \<times> station" where
  "Served s name now =
     (case st_trackers s name of
        None \<Rightarrow> ((Unavailable, False), s)
      | Some t \<Rightarrow> (let t' = station_expire s name t now in ((tk_served t', True), s\<lparr>st_trackers := (st_trackers s)(name \<mapsto> t')\<rparr>)))"

definition fused_result :: "string \<Rightarrow> tracker \<Rightarrow> check_result" where
  "fused_result name t =
     \<lparr>cr_Check = name, cr_Version = 0, cr_Domain = ci_Domain (tk_info t), cr_State = tk_served t, cr_Candidate = OtherState [], cr_Since = 0, cr_RecoveringSince = None,
      cr_EvaluatedAt = 0, cr_Metrics = Map.empty, cr_Thresholds = Map.empty, cr_Reasons = [], cr_lowerOnly = ci_LowerOnly (tk_info t), cr_advisory = ci_Advisory (tk_info t)\<rparr>"

text \<open>A name of the order without a tracker would be a nil pointer in Go; \<open>station_ok\<close> excludes it.\<close>

definition Fused :: "station \<Rightarrow> fusion" where
  "Fused s = Fuse (map (\<lambda>name. fused_result name (the (st_trackers s name))) (st_order s)) (st_weights s)"

definition LastEvaluation :: "station \<Rightarrow> string \<Rightarrow> assurance \<times> time \<times> bool" where
  "LastEvaluation s name =
     (case st_trackers s name of None \<Rightarrow> (Unavailable, 0, False) | Some t \<Rightarrow> if \<not> tk_seen t then (Unavailable, 0, False) else (v_State (tk_last t), tk_lastAt t, True))"

definition assess_step :: "time \<Rightarrow> station \<times> check_result list \<Rightarrow> string \<Rightarrow> station \<times> check_result list" where
  "assess_step now x name =
     (case x of (s, results) \<Rightarrow>
        let t = station_expire s name (the (st_trackers s name)) now
        in (s\<lparr>st_trackers := (st_trackers s)(name \<mapsto> t)\<rparr>, results @ [tracker_result t]))"

definition Assess :: "station \<Rightarrow> time \<Rightarrow> assessment \<times> station" where
  "Assess s now =
     (case foldl (assess_step now) (s, []) (st_order s) of (s', results) \<Rightarrow>
        (\<lparr>as_Fusion = Fuse results (st_weights s), as_Engine = EngineVersion, as_ConfigHash = st_hash s, as_Mode = st_mode s, as_Surveyed = st_surveyed s, as_Checks = results\<rparr>, s'))"

text \<open>The bank is well formed: its order names each check once, every name has its tracker, and every tracker is under its own name.\<close>

definition station_ok :: "station \<Rightarrow> bool" where
  "station_ok s \<longleftrightarrow> distinct (st_order s) \<and> set (st_order s) = dom (st_trackers s) \<and> (\<forall>n t. st_trackers s n = Some t \<longrightarrow> ci_Name (tk_info t) = n)"

lemma tracker_info_kept [simp]:
  "tk_info (tracker_update t v now f) = tk_info t" "tk_info (snd (tracker_expire t now d f)) = tk_info t" "tk_info (station_expire s n t now) = tk_info t"
proof -
  have h: "tk_info (tracker_hold u n p) = tk_info u" for u n p by (simp add: tracker_hold_def Let_def)
  show u: "tk_info (tracker_update t v now f) = tk_info t" for t v now by (simp add: tracker_update_def Let_def h tracker_filter_def)
  show "tk_info (snd (tracker_expire t now d f)) = tk_info t" for d f by (simp add: tracker_expire_def Let_def tracker_update_def h tracker_filter_def)
  then show "tk_info (station_expire s n t now) = tk_info t" by (simp add: station_expire_def)
qed

lemma station_ok_upd: "station_ok s \<Longrightarrow> st_trackers s n = Some t \<Longrightarrow> tk_info t' = tk_info t \<Longrightarrow> station_ok (s\<lparr>st_trackers := (st_trackers s)(n \<mapsto> t')\<rparr>)"
  by (auto simp: station_ok_def)

text \<open>The expiries of an assessment, one after the other, are one expiry of every tracker of the order.\<close>

lemma assess_fold:
  assumes "distinct names" "set names \<subseteq> dom (st_trackers s)"
  shows "foldl (assess_step now) (s, results) names =
     (s\<lparr>st_trackers := (\<lambda>n. if n \<in> set names then map_option (\<lambda>t. station_expire s n t now) (st_trackers s n) else st_trackers s n)\<rparr>,
      results @ map (\<lambda>n. tracker_result (station_expire s n (the (st_trackers s n)) now)) names)"
  using assms
proof (induction names arbitrary: s results)
  case (Cons n names)
  obtain t where t: "st_trackers s n = Some t" using Cons.prems(2) by auto
  let ?s = "s\<lparr>st_trackers := (st_trackers s)(n \<mapsto> station_expire s n t now)\<rparr>"
  have e: "station_expire ?s m u now = station_expire s m u now" for m u by (simp add: station_expire_def station_staleAfter_def)
  have m: "map (\<lambda>m. tracker_result (station_expire ?s m (the (st_trackers ?s m)) now)) names = map (\<lambda>m. tracker_result (station_expire s m (the (st_trackers s m)) now)) names"
    using Cons.prems(1) by (intro map_cong) (auto simp: e)
  have "foldl (assess_step now) (s, results) (n # names) = foldl (assess_step now) (?s, results @ [tracker_result (station_expire s n t now)]) names"
    by (simp add: assess_step_def t Let_def)
  also have "\<dots> = (?s\<lparr>st_trackers := (\<lambda>m. if m \<in> set names then map_option (\<lambda>t. station_expire ?s m t now) (st_trackers ?s m) else st_trackers ?s m)\<rparr>,
      (results @ [tracker_result (station_expire s n t now)]) @ map (\<lambda>m. tracker_result (station_expire ?s m (the (st_trackers ?s m)) now)) names)"
    using Cons.prems by (intro Cons.IH) auto
  finally show ?case using Cons.prems(1) unfolding m e by (auto simp: t fun_eq_iff)
qed simp

lemma Assess_eq:
  assumes "station_ok s"
  shows "snd (Assess s now) = s\<lparr>st_trackers := (\<lambda>n. map_option (\<lambda>t. station_expire s n t now) (st_trackers s n))\<rparr>"
    "as_Checks (fst (Assess s now)) = map (\<lambda>n. tracker_result (station_expire s n (the (st_trackers s n)) now)) (st_order s)"
proof -
  have o: "distinct (st_order s)" "set (st_order s) = dom (st_trackers s)" using assms by (simp_all add: station_ok_def)
  have "(\<lambda>n. if n \<in> set (st_order s) then map_option (\<lambda>t. station_expire s n t now) (st_trackers s n) else st_trackers s n) =
      (\<lambda>n. map_option (\<lambda>t. station_expire s n t now) (st_trackers s n))"
    by (auto simp: o(2) fun_eq_iff domIff)
  then show "snd (Assess s now) = s\<lparr>st_trackers := (\<lambda>n. map_option (\<lambda>t. station_expire s n t now) (st_trackers s n))\<rparr>"
    "as_Checks (fst (Assess s now)) = map (\<lambda>n. tracker_result (station_expire s n (the (st_trackers s n)) now)) (st_order s)"
    using assess_fold [OF o(1) eq_refl [OF o(2)], of now "[]"] by (simp_all add: Assess_def)
qed

text \<open>Fusion reads five fields of a result.\<close>

lemma Fuse_cong:
  assumes "list_all2 (\<lambda>a b. cr_Check a = cr_Check b \<and> cr_Domain a = cr_Domain b \<and> cr_State a = cr_State b \<and> cr_lowerOnly a = cr_lowerOnly b \<and> cr_advisory a = cr_advisory b) xs ys"
  shows "Fuse xs w = Fuse ys w"
proof -
  have "foldl (fuse_step w) acc xs = foldl (fuse_step w) acc ys" for acc
    using assms
  proof (induction xs ys arbitrary: acc rule: list_all2_induct)
    case (Cons x xs y ys)
    then have eqs: "cr_Check x = cr_Check y" "cr_Domain x = cr_Domain y" "cr_State x = cr_State y" "cr_lowerOnly x = cr_lowerOnly y" "cr_advisory x = cr_advisory y" by simp_all
    have "fuse_step w acc x = fuse_step w acc y" unfolding fuse_step_def eqs ..
    then show ?case using Cons.IH by simp
  qed simp
  then show ?thesis by (simp add: Fuse_def)
qed

lemma station_ok_ops:
  assumes "station_ok s"
  shows "station_ok (station_update s name v now)" "station_ok (snd (Served s name now))" "station_ok (snd (Assess s now))"
    "ci_Name info \<notin> set (st_order s) \<Longrightarrow> station_ok (station_add s info)"
proof -
  show "station_ok (station_update s name v now)" "station_ok (snd (Served s name now))"
    using assms station_ok_upd [OF assms] by (auto simp: station_update_def Served_def Let_def split: option.split)
  show "station_ok (snd (Assess s now))" unfolding Assess_eq [OF assms] using assms by (auto simp: station_ok_def)
  show "station_ok (station_add s info)" if "ci_Name info \<notin> set (st_order s)"
    using assms that by (auto simp: station_ok_def station_add_def newTracker_def)
qed

text \<open>the read model and the assessment agree. The fusion an assessment serves is the one \<^verbatim>\<open>Fused\<close> computes from the trackers the assessment leaves, and a bank that is well formed
  stays so.\<close>

lemma assess_matches_fused:
  assumes "station_ok s"
  shows "as_Fusion (fst (Assess s now)) = Fused (snd (Assess s now)) \<and> station_ok (snd (Assess s now))"
proof -
  let ?t = "\<lambda>n. station_expire s n (the (st_trackers s n)) now"
  have o: "set (st_order s) = dom (st_trackers s)" using assms by (simp add: station_ok_def)
  have n: "ci_Name (tk_info (the (st_trackers s n))) = n" if "n \<in> set (st_order s)" for n using assms that by (auto simp: station_ok_def)
  have "as_Fusion (fst (Assess s now)) = Fuse (as_Checks (fst (Assess s now))) (st_weights s)" by (simp add: Assess_def split: prod.split)
  also have "\<dots> = Fuse (map (\<lambda>n. fused_result n (?t n)) (st_order s)) (st_weights s)"
    unfolding Assess_eq [OF assms] using n by (intro Fuse_cong) (auto simp: list_all2_conv_all_nth tracker_result_def fused_result_def)
  also have "\<dots> = Fused (snd (Assess s now))"
  proof -
    have "map (\<lambda>n. fused_result n (?t n)) (st_order s) = map (\<lambda>n. fused_result n (the (st_trackers (snd (Assess s now)) n))) (st_order s)"
      unfolding Assess_eq [OF assms] using o by (intro map_cong) auto
    moreover have "st_order (snd (Assess s now)) = st_order s" "st_weights (snd (Assess s now)) = st_weights s" by (simp_all add: Assess_eq [OF assms])
    ultimately show ?thesis unfolding Fused_def by (simp only:)
  qed
  finally show ?thesis using station_ok_ops(3) [OF assms] by simp
qed

definition sample_station :: station where
  "sample_station = station_add \<lparr>st_filter = sample_policy, st_staleAfter = Minute, st_envStaleAfter = Minute, st_weights = Map.empty, st_hash = [], st_mode = ''fixed'',
     st_surveyed = False, st_order = [], st_trackers = Map.empty\<rparr> sample_info"

section \<open>From the checks to the spoofing event\<close>

lemma spoofing_emission:
  assumes "x \<in> set (detectIntegrity i a)" "ev_Type (em_event x old) = ''spoofing_suspected''"
  shows "em_subject x = i \<and> physicsAvailable a \<and>
     (if fu_SpoofingIndicated (as_Fusion a) then ev_NewValue (em_event x old) = ''suspected'' \<and> ev_Severity (em_event x old) = SevCritical
      else ev_NewValue (em_event x old) = ''ok'' \<and> ev_Severity (em_event x old) = SevInfo)"
proof -
  have adv: "ev_Type (em_event y old) = ty" if "y \<in> set (advisory_emission i a c m ty l b)" for y c m ty l b
    using that by (auto simp: advisory_emission_def split_def split: option.splits if_splits)
  have "x \<notin> set (detectEnvironment i a)" "x \<notin> set (detectPressure i a)"
    using assms(2) by (auto simp: detectEnvironment_def detectPressure_def dest: adv)
  then show ?thesis using assms by (auto simp: detectIntegrity_def Let_def split: if_splits)
qed

text \<open>C26: the spoofing alarm rests on independent evidence. Every \<^verbatim>\<open>spoofing_suspected\<close> event that a round raises over the assessments of a fleet belongs to a station of the fleet. An event with the
  new value \<^verbatim>\<open>suspected\<close> is critical, and the assessed checks of that station hold two domains unassured, one of them physical and the other physical too or the receiver's own verdict; any
  other is informational, with the new value \<^verbatim>\<open>ok\<close>, and is raised only where a physical check is available and the checks hold no such two domains: a lack of input never clears the alarm.\<close>

theorem spoofing_event_evidence:
  "list_all
     (\<lambda>e. if ev_Type e = ''spoofing_suspected''
          then \<exists>s. (ev_SV e, s) \<in> set stations \<and>
            (let a = fst (Assess s now) in
               if ev_NewValue e = ''suspected'' then ev_Severity e = SevCritical \<and> spoofed (unassured_domains (as_Checks a))
               else ev_NewValue e = ''ok'' \<and> ev_Severity e = SevInfo \<and> \<not> spoofed (unassured_domains (as_Checks a)) \<and>
                 list_ex (\<lambda>c. Physics (cr_Domain c) \<and> cr_State c \<noteq> Unavailable) (as_Checks a))
          else True)
     (fst (TickIntegrity d now (map (\<lambda>(i, s). (i, fst (Assess s now))) stations)))"
proof -
  have f: "as_Fusion (fst (Assess s now)) = Fuse (as_Checks (fst (Assess s now))) (st_weights s)" for s by (simp add: Assess_def split: prod.split)
  have "\<exists>s. (ev_SV e, s) \<in> set stations \<and>
      (let a = fst (Assess s now) in
         if ev_NewValue e = ''suspected'' then ev_Severity e = SevCritical \<and> spoofed (unassured_domains (as_Checks a))
         else ev_NewValue e = ''ok'' \<and> ev_Severity e = SevInfo \<and> \<not> spoofed (unassured_domains (as_Checks a)) \<and>
           list_ex (\<lambda>c. Physics (cr_Domain c) \<and> cr_State c \<noteq> Unavailable) (as_Checks a))"
    if e: "e \<in> set (fst (TickIntegrity d now (map (\<lambda>(i, s). (i, fst (Assess s now))) stations)))" "ev_Type e = ''spoofing_suspected''" for e
  proof -
    obtain i s x old where x: "(i, s) \<in> set stations" "x \<in> set (detectIntegrity i (fst (Assess s now)))" "e = (em_event x old)\<lparr>ev_Time := now, ev_SV := em_subject x\<rparr>"
      using run_events [OF e(1) [unfolded TickIntegrity_def]] by (auto simp: event_of_def)
    then have "ev_Type (em_event x old) = ''spoofing_suspected''" using e(2) by simp
    from spoofing_emission [OF x(2) this] have "em_subject x = i \<and> physicsAvailable (fst (Assess s now)) \<and>
        (if spoofed (unassured_domains (as_Checks (fst (Assess s now)))) then ev_NewValue e = ''suspected'' \<and> ev_Severity e = SevCritical else ev_NewValue e = ''ok'' \<and> ev_Severity e = SevInfo)"
      by (simp add: x(3) f [of s] Fuse_state)
    then show ?thesis using x(1,3) by (intro exI [of _ s]) (auto simp: Let_def physicsAvailable_def split: if_splits)
  qed
  then show ?thesis by (simp add: list_all_iff)
qed

end
