(* ===== verification/Spec2Isabelle.thy ===== *)
theory Spec2Isabelle
  imports GpsLnav GpsCnav SbasL1 GalileoFnav BeiDouD1 GlonassString UbxScan DurableTracker AddressGuard AdmissionLaws AudienceLaws FederationPolicy UpdateLaws UpdateCatalog ReceptionLaws StationBank
begin

text \<open>
  A verification development for navlistener, a collector of GNSS navigation data written in Go.

  \<^bold>\<open>The program.\<close> Receivers in the field send what they track to a collector: raw navigation-message words, observables, receiver solutions and RF measurements. The collector
  \<^item> reads receiver streams (UBX, RTCM and SBF scanners) and feeder connections (the GNF1 framing) into receiver records, \<^verbatim>\<open>go/internal/ingest\<close> and \<^verbatim>\<open>go/internal/wire\<close>;
  \<^item> acknowledges a feeder's numbered records only up to the point where every one is durably resolved, \<^verbatim>\<open>go/internal/ingest/durable.go\<close>;
  \<^item> decodes the words of each constellation into ephemerides, clocks and almanacs, \<^verbatim>\<open>gnss/frame\<close>, over a bit reader and the parity, CRC, BCH and Hamming checks;
  \<^item> judges each station from its measurements, \<^verbatim>\<open>go/internal/integrity\<close>, and turns judgments and satellite metrics into debounced, typed events, \<^verbatim>\<open>go/internal/detect\<close>;
  \<^item> admits an observer's stream only while its declared context, the administrator's policy and its credential agree, \<^verbatim>\<open>go/internal/ingest/admission.go\<close> over \<^verbatim>\<open>go/internal/observer\<close>;
  \<^item> shows each audience only what it may see, \<^verbatim>\<open>go/internal/audience\<close>, and exports to federated parties only what both ends allow, \<^verbatim>\<open>go/internal/federation\<close>;
  \<^item> retains an operator's update requests and the devices' reports, and reads the published update catalog, \<^verbatim>\<open>go/internal/updates\<close>;
  \<^item> keeps state, stores and serves it and configures itself; those parts are listed at the end.

  \<^bold>\<open>Conventions.\<close> Go's fixed-width integers are words of that width, \<^verbatim>\<open>int\<close> is an integer with the wrap-around written out where an addition can reach it, \<^verbatim>\<open>float64\<close> is real, except
  where a field arrives as IEEE bits (theory RawFrame models the bits, infinities and not-a-number). A \<^verbatim>\<open>time.Time\<close> is a number of nanoseconds and \<^verbatim>\<open>Time.Sub\<close> saturates (theory GoTime).
  Errors are values of a sum or an option; an out-of-range index, which panics, is a constructor of its own. Clock readings, the iteration order of Go's maps, the JSON encoder and the bytes
  a reader delivers are arguments. A mutex is atomicity: one locked operation is one step. Every loop but one is a structural recursion or a \<open>function\<close> with a measure; nothing in the
  model needs fuel.

  \<^bold>\<open>Theories, and the sources they model.\<close>
  \<^item> Prelude: machine integers, bit lists of byte buffers, big-endian helpers. GoTime: instants and durations. Bytes: byte codecs with the locale \<open>codec\<close> that the fixed-layout bodies interpret.
  \<^item> BitReader, Crc24q, LnavParity, BeiDouBch, GlonassHamming, ErrorDetection: the field reader (\<^verbatim>\<open>bitreader.go\<close>) and the integrity checks of \<^verbatim>\<open>gnss/frame\<close>. The reader returns exactly the
    addressed bits or an error, the CRC detects every burst up to 24 bits, the parity, BCH and Hamming checks detect the errors their codes promise. ErrorDetection is the interface
    through which a decoder inherits what its check detects.
  \<^item> GnssTypes, GnssTime, FrameScale: the data sets the decoders fill, week and epoch arithmetic (\<^verbatim>\<open>gnsstime.go\<close>, \<^verbatim>\<open>sow.go\<close>), and scaling.
  \<^item> GpsLnav, GpsCnav, SbasL1, GalileoInav, GalileoFnav, BeiDouBcnav2, BeiDouD1, GlonassString: one decoder each, with its assembler. The round trips say that every data set within the ranges of
    its fields, encoded as the interface document lays it out and sealed, is decoded and assembled to exactly that data set; the safety theorems that a damaged message is refused.
  \<^item> Wire: magic, frames, DATA and ACK payloads, session names and update commands (\<^verbatim>\<open>go/internal/wire\<close>): a stream cut anywhere yields a prefix of the frames sent and an error, a read
    never exceeds its cap.
  \<^item> ReceiverSolution, RawFrame: the solution and telemetry bodies, the epoch assembler, the receiver record with its freshness rules (\<^verbatim>\<open>solution.go\<close>, \<^verbatim>\<open>telemetry.go\<close>, \<^verbatim>\<open>rawframe.go\<close>).
  \<^item> Resync, StreamScan, UbxScan: scanning a byte stream. The locales \<open>resync\<close> and \<open>synced_format\<close> state what a scanner needs of its format and prove once that noise between frames is
    skipped and every frame delivered; RTCM, SBF and UBX interpret them (\<^verbatim>\<open>rtcm.go\<close>, \<^verbatim>\<open>sbf.go\<close>, \<^verbatim>\<open>ubx.go\<close>).
  \<^item> IndexedHeap, DurableTracker: the acknowledgement tracker over its indexed heap. The heap refines a set; the tracker refines a map from sessions to sets of outstanding
    numbers; on every run no acknowledgement covers an unresolved record, and when all are resolved all are acknowledged, save for the lost receipt recorded as a finding.
  \<^item> AddressGuard: what one address may do before it authenticates (\<^verbatim>\<open>preauth.go\<close>): connections in flight, grants over time and the size of the table are bounded on every run.
  \<^item> ObserverContext: observer identifiers, UTF-8 validity, the canonical names of signals, and the normalisation of a declared context (\<^verbatim>\<open>observer/context.go\<close>, \<^verbatim>\<open>signal.go\<close>): what
    normalisation accepts is well formed, sorted and its own normal form.
  \<^item> AdmissionPolicy, AdmissionLaws: the admission of a feeder's stream and its reconciliation with the policy store (\<^verbatim>\<open>admission.go\<close>, \<^verbatim>\<open>reconcile.go\<close>). Connections, the sweep and the
    administrator interleave in the step relation \<open>push_step\<close>; generations are natural numbers and the policy store a sequence of answers. On every run live state is reset before
    data of a changed context is served, and a generation never goes back.
  \<^item> Audiences, AudienceLaws: audience keys and their parser, the projection of an observation to an audience, the registry of grants, the epochs of authority and the decode loop that reads
    them (\<^verbatim>\<open>identity/audience.go\<close>, \<^verbatim>\<open>audience/registry.go\<close>, \<^verbatim>\<open>project.go\<close>, \<^verbatim>\<open>epochs.go\<close>, \<^verbatim>\<open>cmd/navlistener/main.go\<close>). An anonymous projection names nobody; revoked authority is gone.
  \<^item> FederationPolicy: the export gate as an intersection of what the source, the party and the field allow (\<^verbatim>\<open>federation/policy.go\<close>).
  \<^item> AssocLists: the maps that are bounded tables. UpdateManager, UpdateLaws: the update manager (\<^verbatim>\<open>updates/manager.go\<close>, \<^verbatim>\<open>http.go\<close>) with its durable state file, and the device's status
    (\<^verbatim>\<open>wire/update.go\<close>). A commit is the steps of \<open>update_step\<close> between which devices poll, and the process may stop at any of them: the commands a device is told never go back, and a restart
    forgets none. Its runs, \<open>update_run\<close>, carry labels, so that what a request or a report promises can be stated for all that happens after it. A restart is taken to find the file settled, as
    the code asks after a fault.
  \<^item> UpdateCatalog: the hash-pinned chain from the catalog's timestamp to a channel's release and the lifetimes of its roles (\<^verbatim>\<open>updates/catalog.go\<close>). The walk over root versions is the one loop
    of the model without a bound in its data: it is a \<open>partial_function\<close> proved to return.
  \<^item> ReceptionContract, ReceptionLaws: what a station is expected to receive and at which power, what it did, and the alarm of each constellation (\<^verbatim>\<open>reception/reception.go\<close>, \<^verbatim>\<open>power.go\<close>). The five
    bodies are canonical, the collector's counts exact, and an alarm moves after an unbroken streak as long as its dwell and only then; these are lemmas of the library.
  \<^item> StationAssurance, StationBank: the filter and hysteresis of one check, fusion, and the bank of checks with its assessment (\<^verbatim>\<open>integrity.go\<close>, \<^verbatim>\<open>tracker.go\<close>, \<^verbatim>\<open>fuse.go\<close>, \<^verbatim>\<open>station.go\<close>). A
    fault is left only after a recovery earned over the whole hold; fusion follows its corroboration rules and is monotone in every check; an assessment agrees with the read model.
  \<^item> DetectorSpine, Classifiers, ClassifierLaws: the debounced machines and the six rounds of classifiers (\<^verbatim>\<open>go/internal/detect\<close>). A transition is confirmed only after an unbroken dwell, a
    persistent change is confirmed, confirmed values chain, and a round does not depend on the order of Go's maps: the locale \<open>subject_classifier\<close> states what a classifier owes for that
    and every classifier interprets it. StationBank closes the chain from check verdicts to the spoofing event.

  \<^bold>\<open>Findings.\<close> Each is a theorem: a delivered-as-transmitted LNAV subframe decodes complemented fields (\<open>raw_form_complemented\<close>); a receipt written through a session the same call pruned is lost and
  later acknowledged past (\<open>stale_receipt_lost\<close>); the recovery of a station check from a confirmed \<^verbatim>\<open>unknown\<close> raises no event, because the machines reserve that word
  (\<open>unknown_recovery_silent\<close>); a policy admitted live can be forgotten by a sweep already under way (\<open>live_policy_forgotten\<close>); records of
  retired update devices lock new ones out of a valid configuration (\<open>retired_devices_block\<close>); and two comments contradict their code (\<open>BCNAV2_midi_roundtrip\<close>, and the publish of an update commit).

  \<^bold>\<open>Not modelled.\<close> The floating-point propagators and geometry (\<^verbatim>\<open>gnss/kepler\<close>, \<^verbatim>\<open>glonass\<close>, \<^verbatim>\<open>iono\<close>, \<^verbatim>\<open>geo\<close>, \<^verbatim>\<open>accuracy\<close>) and the measurement checks of \<^verbatim>\<open>go/internal/integrity\<close> built on them:
  their correctness is numerical. The state and feed stores, the historian, the HTTP servers, the configuration, authorization providers, commissioning and
  attestation, the transports of federation, and the command line: databases, networks, JSON, TLS and files, whose decisions of interest are the policies modelled above.
\<close>

end
